(* ===== verification/Luau_Lex.thy ===== *)
theory Luau_Lex
  imports Prelude
begin

text \<open>
  The Luau scanner of \<open>src/internal/luau/lex\<close>: the token kinds and positions of
  \<open>token.go\<close>, the scanner state and its main loop of \<open>lex.go\<close>, and the scanners for
  numbers, strings, comments and interpolated strings of \<open>number.go\<close>, \<open>string.go\<close> and
  \<open>interp.go\<close>. The scanner is a record that every operation returns updated. Reading past
  the end of the source would panic in Go; here it sets the field \<open>panicked\<close>, which no
  operation clears.
\<close>

section \<open>Tokens (\<open>token.go\<close>)\<close>

datatype kind =
    KEOF | KWhitespace | KComment | KName | KNumber | KString
  | KInterpSimple | KInterpStart | KInterpMid | KInterpEnd | KSymbol | KInvalid

record pos =
  Offset :: nat
  Line :: nat
  Col :: nat

record token =
  Kind :: kind
  Text :: string
  Start :: pos
  End :: pos

record diagnostic =
  Pos :: pos
  Message :: string

section \<open>The scanner state (\<open>lex.go\<close>)\<close>

record scanner =
  src :: string
  offset :: nat
  line :: nat
  col :: nat
  interp :: "int list"  \<comment> \<open>brace-depth stack, the top is the last element\<close>
  toks :: "token list"
  diags :: "diagnostic list"
  panicked :: bool

definition atEnd :: "scanner \<Rightarrow> bool" where
  "atEnd s \<longleftrightarrow> length (src s) \<le> offset s"

definition peek :: "scanner \<Rightarrow> char" where
  "peek s = (if atEnd s then NUL else src s ! offset s)"

definition peekAt :: "scanner \<Rightarrow> nat \<Rightarrow> char" where
  "peekAt s n = (if offset s + n < length (src s) then src s ! (offset s + n) else NUL)"

definition pos :: "scanner \<Rightarrow> pos" where
  "pos s = \<lparr>Offset = offset s, Line = line s, Col = col s\<rparr>"

definition advance :: "scanner \<Rightarrow> scanner" where
  "advance s =
     (if offset s < length (src s) then
        (if src s ! offset s = LF
         then s\<lparr>offset := Suc (offset s), line := Suc (line s), col := 1\<rparr>
         else s\<lparr>offset := Suc (offset s), col := Suc (col s)\<rparr>)
      else s\<lparr>panicked := True\<rparr>)"

definition emit :: "kind \<Rightarrow> pos \<Rightarrow> scanner \<Rightarrow> scanner" where
  "emit k start s =
     s\<lparr>toks := toks s @ [\<lparr>Kind = k, Text = slice (src s) (Offset start) (offset s),
                         Start = start, End = pos s\<rparr>]\<rparr>"

definition errAt :: "pos \<Rightarrow> string \<Rightarrow> scanner \<Rightarrow> scanner" where
  "errAt p msg s = s\<lparr>diags := diags s @ [\<lparr>Pos = p, Message = msg\<rparr>]\<rparr>"

definition isSpace :: "char \<Rightarrow> bool" where
  "isSpace c \<longleftrightarrow> c = CHR '' '' \<or> c = TAB \<or> c = LF \<or> c = CR \<or> c = VT \<or> c = FF"

definition isDigit :: "char \<Rightarrow> bool" where
  "isDigit c \<longleftrightarrow> CHR ''0'' \<le> c \<and> c \<le> CHR ''9''"

definition isHex :: "char \<Rightarrow> bool" where
  "isHex c \<longleftrightarrow> isDigit c \<or> (CHR ''a'' \<le> c \<and> c \<le> CHR ''f'') \<or> (CHR ''A'' \<le> c \<and> c \<le> CHR ''F'')"

definition isNameStart :: "char \<Rightarrow> bool" where
  "isNameStart c \<longleftrightarrow>
     c = CHR ''_'' \<or> (CHR ''a'' \<le> c \<and> c \<le> CHR ''z'') \<or> (CHR ''A'' \<le> c \<and> c \<le> CHR ''Z'')"

definition isNameCont :: "char \<Rightarrow> bool" where
  "isNameCont c \<longleftrightarrow> isNameStart c \<or> isDigit c"

text \<open>The loop \<open>for !s.atEnd() && pred(s.peek()) { s.advance() }\<close> (\<open>number.go\<close>).\<close>

lemma src_advance [simp, scan_simps]: "src (advance s) = src s"
  by (simp add: advance_def)

lemma offset_advance [scan_simps]:
  "\<not> atEnd s \<Longrightarrow> offset (advance s) = Suc (offset s)"
  by (simp add: advance_def atEnd_def)

lemma scan_measure [scan_simps]:
  "\<not> atEnd s \<Longrightarrow> length (src s) - offset (advance s) < length (src s) - offset s"
  by (simp add: offset_advance atEnd_def)

function consumeWhile :: "(char \<Rightarrow> bool) \<Rightarrow> scanner \<Rightarrow> scanner" where
  "consumeWhile p s = (if \<not> atEnd s \<and> p (peek s) then consumeWhile p (advance s) else s)"
  by pat_completeness auto
termination
  by (relation "measure (\<lambda>(p, s). length (src s) - offset s)") (auto simp: scan_measure)

declare consumeWhile.simps [simp del]

definition scanWhitespace :: "scanner \<Rightarrow> scanner" where
  "scanWhitespace s = emit KWhitespace (pos s) (consumeWhile isSpace s)"

definition scanName :: "scanner \<Rightarrow> scanner" where
  "scanName s = emit KName (pos s) (consumeWhile isNameCont s)"

definition symbols3 :: "string list" where
  "symbols3 = [''...'', ''//='', ''..='']"

definition symbols2 :: "string list" where
  "symbols2 = [''=='', ''~='', ''<='', ''>='', ''..'', ''::'', ''->'', ''+='', ''-='',
               ''*='', ''/='', ''%='', ''^='', ''//'']"

definition isSingleSymbol :: "char \<Rightarrow> bool" where
  "isSingleSymbol c \<longleftrightarrow> c \<in> set ''+-*/%^#<>=(){}[];:,.&|?@''"

section \<open>Numbers (\<open>number.go\<close>)\<close>

definition consumeFractionAndExponent :: "(char \<Rightarrow> bool) \<Rightarrow> char \<Rightarrow> char \<Rightarrow> scanner \<Rightarrow> scanner" where
  "consumeFractionAndExponent digit e1 e2 s =
     (let s1 = (if \<not> atEnd s \<and> peek s = CHR ''.'' \<and> peekAt s 1 \<noteq> CHR ''.''
                then consumeWhile (\<lambda>c. digit c \<or> c = CHR ''_'') (advance s) else s)
      in if \<not> atEnd s1 \<and> (peek s1 = e1 \<or> peek s1 = e2)
         then (let s2 = advance s1;
                   s3 = (if peek s2 = CHR ''+'' \<or> peek s2 = CHR ''-'' then advance s2 else s2)
               in consumeWhile (\<lambda>c. isDigit c \<or> c = CHR ''_'') s3)
         else s1)"

definition scanNumber :: "scanner \<Rightarrow> scanner" where
  "scanNumber s =
     emit KNumber (pos s)
      (if peek s = CHR ''0'' \<and> (peekAt s 1 = CHR ''x'' \<or> peekAt s 1 = CHR ''X'')
       then consumeFractionAndExponent isHex (CHR ''p'') (CHR ''P'')
              (consumeWhile (\<lambda>c. isHex c \<or> c = CHR ''_'') (advance (advance s)))
       else if peek s = CHR ''0'' \<and> (peekAt s 1 = CHR ''b'' \<or> peekAt s 1 = CHR ''B'')
       then consumeWhile (\<lambda>c. c = CHR ''0'' \<or> c = CHR ''1'' \<or> c = CHR ''_'') (advance (advance s))
       else consumeFractionAndExponent isDigit (CHR ''e'') (CHR ''E'')
              (consumeWhile (\<lambda>c. isDigit c \<or> c = CHR ''_'') s))"

section \<open>Strings and comments (\<open>string.go\<close>)\<close>

lemma src_consumeWhile [simp, scan_simps]: "src (consumeWhile p s) = src s"
  by (induction p s rule: consumeWhile.induct) (simp add: consumeWhile.simps)

lemma offset_consumeWhile_ge [scan_simps]: "offset s \<le> offset (consumeWhile p s)"
proof (induction p s rule: consumeWhile.induct)
  case (1 p s)
  show ?case
  proof (cases "\<not> atEnd s \<and> p (peek s)")
    case True
    with 1 show ?thesis by (simp add: consumeWhile.simps [of p s] offset_advance)
  next
    case False
    then show ?thesis by (subst consumeWhile.simps) auto
  qed
qed

text \<open>The body loop of \<open>scanShortString\<close>; \<open>break\<close> leaves the switch, so the loop
  condition is tested again.\<close>

function shortStringLoop :: "char \<Rightarrow> pos \<Rightarrow> scanner \<Rightarrow> scanner" where
  "shortStringLoop quote start s =
     (if atEnd s then emit KString start (errAt start ''unterminated string'' s)
      else if peek s = BSLASH then
        (let s1 = advance s in
         if atEnd s1 then shortStringLoop quote start s1
         else (let e = peek s1; s2 = advance s1 in
               shortStringLoop quote start
                 (if e = CHR ''z'' then consumeWhile isSpace s2 else s2)))
      else if peek s = quote then emit KString start (advance s)
      else if peek s = LF then emit KString start (errAt start ''unterminated string'' s)
      else shortStringLoop quote start (advance s))"
  by pat_completeness auto
termination
proof (relation "measure (\<lambda>(q, st, s). length (src s) - offset s)", goal_cases)
  case (3 quote start s s1 e s2)
  then have "offset s < offset s2" "offset s < length (src s)"
    by (auto simp: offset_advance atEnd_def)
  moreover have "offset s2 \<le> offset (consumeWhile isSpace s2)"
    by (rule offset_consumeWhile_ge)
  ultimately show ?case using 3 by auto
qed (auto simp: scan_measure)

declare shortStringLoop.simps [simp del]

definition scanShortString :: "scanner \<Rightarrow> scanner" where
  "scanShortString s = shortStringLoop (peek s) (pos s) (advance s)"

text \<open>\<open>longBracketLevel\<close>: count the equals signs after \<open>[\<close>; \<open>None\<close> when no second
  \<open>[\<close> follows them.\<close>

definition countEq :: "string \<Rightarrow> nat" where
  "countEq t = length (takeWhile (\<lambda>c. c = CHR ''='') t)"

definition longBracketLevel :: "scanner \<Rightarrow> nat option" where
  "longBracketLevel s =
     (if peek s \<noteq> CHR ''['' then None
      else (let level = countEq (drop (offset s + 1) (src s)); i = offset s + 1 + level
            in if i < length (src s) \<and> src s ! i = CHR ''['' then Some level else None))"

fun advanceN :: "nat \<Rightarrow> scanner \<Rightarrow> scanner" where
  "advanceN 0 s = s"
| "advanceN (Suc n) s = advanceN n (advance s)"

definition longClosing :: "nat \<Rightarrow> string" where
  "longClosing level = CHR '']'' # replicate level (CHR ''='') @ [CHR '']'']"

function longBodyLoop :: "string \<Rightarrow> scanner \<Rightarrow> scanner \<times> bool" where
  "longBodyLoop closing s =
     (if atEnd s then (s, False)
      else if peek s = CHR '']'' \<and> offset s + length closing \<le> length (src s)
              \<and> slice (src s) (offset s) (offset s + length closing) = closing
      then (advanceN (length closing) s, True)
      else longBodyLoop closing (advance s))"
  by pat_completeness auto
termination
  by (relation "measure (\<lambda>(c, s). length (src s) - offset s)") (auto simp: scan_measure)

declare longBodyLoop.simps [simp del]

definition consumeLongBody :: "nat \<Rightarrow> scanner \<Rightarrow> scanner \<times> bool" where
  "consumeLongBody level s =
     longBodyLoop (longClosing level) (advance (advanceN level (advance s)))"

definition scanLongString :: "nat \<Rightarrow> scanner \<Rightarrow> scanner" where
  "scanLongString level s =
     (case consumeLongBody level s of (s1, ok) \<Rightarrow>
        emit KString (pos s) (if ok then s1 else errAt (pos s) ''unterminated long string'' s1))"

definition scanComment :: "scanner \<Rightarrow> scanner" where
  "scanComment s =
     (let start = pos s; s2 = advance (advance s) in
      case (if \<not> atEnd s2 \<and> peek s2 = CHR ''['' then longBracketLevel s2 else None) of
        Some level \<Rightarrow>
          (case consumeLongBody level s2 of (s3, ok) \<Rightarrow>
             emit KComment start
               (if ok then s3 else errAt start ''unterminated long comment'' s3))
      | None \<Rightarrow> emit KComment start (consumeWhile (\<lambda>c. c \<noteq> LF) s2))"

section \<open>Interpolated strings (\<open>interp.go\<close>)\<close>

text \<open>\<open>scanInterpBody\<close>: the flag says whether the body ended at an unescaped brace.\<close>

function scanInterpBody :: "scanner \<Rightarrow> scanner \<times> bool" where
  "scanInterpBody s =
     (if atEnd s then (errAt (pos s) ''unterminated interpolated string'' s, False)
      else if peek s = BSLASH then
        (let s1 = advance s in scanInterpBody (if atEnd s1 then s1 else advance s1))
      else if peek s = BTICK then (advance s, False)
      else if peek s = CHR ''{'' then (advance s, True)
      else if peek s = LF then (errAt (pos s) ''unterminated interpolated string'' s, False)
      else scanInterpBody (advance s))"
  by pat_completeness auto
termination
proof (relation "measure (\<lambda>s. length (src s) - offset s)", goal_cases)
  case (2 s s1)
  then show ?case
    by (cases "atEnd s1") (auto simp: offset_advance atEnd_def)
qed (auto simp: scan_measure)

declare scanInterpBody.simps [simp del]

definition scanInterpStart :: "scanner \<Rightarrow> scanner" where
  "scanInterpStart s =
     (case scanInterpBody (advance s) of (s1, endedAtBrace) \<Rightarrow>
        if endedAtBrace then emit KInterpStart (pos s) (s1\<lparr>interp := interp s1 @ [0]\<rparr>)
        else emit KInterpSimple (pos s) s1)"

definition scanInterpResume :: "scanner \<Rightarrow> scanner" where
  "scanInterpResume s =
     (case scanInterpBody (advance s) of (s1, endedAtBrace) \<Rightarrow>
        if endedAtBrace then emit KInterpMid (pos s) s1
        else emit KInterpEnd (pos s) (s1\<lparr>interp := butlast (interp s1)\<rparr>))"

definition trackBrace :: "char \<Rightarrow> scanner \<Rightarrow> scanner" where
  "trackBrace c s =
     (if interp s = [] then s
      else if c = CHR ''{'' then s\<lparr>interp := butlast (interp s) @ [last (interp s) + 1]\<rparr>
      else if c = CHR ''}'' then s\<lparr>interp := butlast (interp s) @ [last (interp s) - 1]\<rparr>
      else s)"

section \<open>Symbols and the main loop (\<open>lex.go\<close>)\<close>

definition scanSymbol :: "scanner \<Rightarrow> scanner" where
  "scanSymbol s =
     (let start = pos s in
      if offset s + 3 \<le> length (src s)
         \<and> slice (src s) (offset s) (offset s + 3) \<in> set symbols3
      then emit KSymbol start (advance (advance (advance s)))
      else if offset s + 2 \<le> length (src s)
         \<and> slice (src s) (offset s) (offset s + 2) \<in> set symbols2
      then emit KSymbol start (advance (advance s))
      else if isSingleSymbol (peek s)
      then trackBrace (peek s) (emit KSymbol start (advance s))
      else errAt start ''unexpected character'' (emit KInvalid start (advance s)))"

text \<open>One round of the loop of \<open>run\<close>: the dispatch on the current byte.\<close>

definition scanOne :: "scanner \<Rightarrow> scanner" where
  "scanOne s =
     (let c = peek s in
      if isSpace c then scanWhitespace s
      else if c = CHR ''-'' \<and> peekAt s 1 = CHR ''-'' then scanComment s
      else if isNameStart c then scanName s
      else if isDigit c \<or> (c = CHR ''.'' \<and> isDigit (peekAt s 1)) then scanNumber s
      else if c = DQUOTE \<or> c = SQUOTE then scanShortString s
      else if c = CHR ''['' then
        (case longBracketLevel s of Some level \<Rightarrow> scanLongString level s | None \<Rightarrow> scanSymbol s)
      else if c = BTICK then scanInterpStart s
      else if c = CHR ''}'' \<and> interp s \<noteq> [] \<and> last (interp s) = 0 then scanInterpResume s
      else scanSymbol s)"

section \<open>What one round of the loop does\<close>

text \<open>
  The position reached after reading a text, and the invariant that ties the scanner's
  counters to the source: no read went past the end and the line and column are those of
  the text read so far.
\<close>

definition pos_step :: "pos \<Rightarrow> char \<Rightarrow> pos" where
  "pos_step p c = (if c = LF then \<lparr>Offset = Suc (Offset p), Line = Suc (Line p), Col = 1\<rparr>
                   else \<lparr>Offset = Suc (Offset p), Line = Line p, Col = Suc (Col p)\<rparr>)"

definition pos_of :: "string \<Rightarrow> pos" where
  "pos_of t = foldl pos_step \<lparr>Offset = 0, Line = 1, Col = 1\<rparr> t"

definition scan_ok :: "scanner \<Rightarrow> bool" where
  "scan_ok s \<longleftrightarrow> offset s \<le> length (src s) \<and> pos s = pos_of (take (offset s) (src s)) \<and> \<not> panicked s"

text \<open>\<open>moves s t\<close>: \<open>t\<close> is \<open>s\<close> after reading some bytes, without a token emitted.\<close>

definition moves :: "scanner \<Rightarrow> scanner \<Rightarrow> bool" where
  "moves s t \<longleftrightarrow> src t = src s \<and> toks t = toks s \<and> interp t = interp s \<and>
     offset s \<le> offset t \<and> prefix (diags s) (diags t) \<and> (scan_ok s \<longrightarrow> scan_ok t)"

lemma moves_refl [simp, intro]: "moves s s"
  by (simp add: moves_def)

lemma moves_trans [trans]: "moves s t \<Longrightarrow> moves t u \<Longrightarrow> moves s u"
  by (auto simp: moves_def intro: prefix_order.trans)

lemma moves_errAt [simp, intro]: "moves s (errAt p m s)"
  by (simp add: moves_def errAt_def scan_ok_def pos_def)

lemma pos_of_Nil [simp]: "pos_of [] = \<lparr>Offset = 0, Line = 1, Col = 1\<rparr>"
  by (simp add: pos_of_def)

lemma pos_of_snoc [simp]: "pos_of (t @ [c]) = pos_step (pos_of t) c"
  by (simp add: pos_of_def)

lemma pos_advance: "\<not> atEnd s \<Longrightarrow> pos (advance s) = pos_step (pos s) (src s ! offset s)"
  by (simp add: pos_def advance_def pos_step_def atEnd_def)

lemma advance_frame [simp]:
  "toks (advance s) = toks s" "interp (advance s) = interp s" "diags (advance s) = diags s"
  by (simp_all add: advance_def)

lemma panicked_advance: "\<not> atEnd s \<Longrightarrow> panicked (advance s) = panicked s"
  by (simp add: advance_def atEnd_def)

lemma moves_advance [intro]: "\<not> atEnd s \<Longrightarrow> moves s (advance s)"
  by (simp add: moves_def scan_ok_def offset_advance pos_advance panicked_advance)
    (simp add: atEnd_def take_Suc_conv_app_nth)

lemma moves_consumeWhile [simp, intro]: "moves s (consumeWhile p s)"
proof (induction p s rule: consumeWhile.induct)
  case (1 p s)
  show ?case
  proof (cases "\<not> atEnd s \<and> p (peek s)")
    case True
    then have "moves s (advance s)" by blast
    also have "moves (advance s) (consumeWhile p (advance s))" using 1 True by blast
    finally show ?thesis using True by (simp add: consumeWhile.simps [of p s])
  next
    case False
    then show ?thesis by (subst consumeWhile.simps) auto
  qed
qed

lemma consumeWhile_bytes:
  "offset s \<le> i \<Longrightarrow> i < offset (consumeWhile p s) \<Longrightarrow> p (src s ! i)"
proof (induction p s rule: consumeWhile.induct)
  case (1 p s)
  show ?case
  proof (cases "\<not> atEnd s \<and> p (peek s)")
    case True
    then have "i < offset (consumeWhile p (advance s))"
      using 1 by (simp add: consumeWhile.simps [of p s])
    moreover have "p (src s ! offset s)" using True by (auto simp: peek_def)
    ultimately show ?thesis
      using 1 True by (cases "i = offset s") (auto simp: offset_advance)
  next
    case False
    then have "consumeWhile p s = s" by (subst consumeWhile.simps) auto
    with 1 show ?thesis by simp
  qed
qed

lemma consumeWhile_stops:
  "atEnd (consumeWhile p s) \<or> \<not> p (peek (consumeWhile p s))"
proof (induction p s rule: consumeWhile.induct)
  case (1 p s)
  then show ?case
    by (cases "\<not> atEnd s \<and> p (peek s)") (auto simp: consumeWhile.simps [of p s])
qed

lemma consumeWhile_progress:
  "\<not> atEnd s \<Longrightarrow> p (peek s) \<Longrightarrow> offset s < offset (consumeWhile p s)"
  using offset_consumeWhile_ge [of "advance s" p]
  by (simp add: consumeWhile.simps [of p s] offset_advance)

lemma consumeWhile_stuck: "\<not> p (peek s) \<Longrightarrow> consumeWhile p s = s"
  by (simp add: consumeWhile.simps)

lemma moves_step: "\<not> atEnd s \<Longrightarrow> moves (advance s) t \<Longrightarrow> moves s t \<and> offset s < offset t"
  using moves_trans [OF moves_advance] by (auto simp: moves_def offset_advance)

lemma moves_advanceN: "offset s + n \<le> length (src s) \<Longrightarrow> moves s (advanceN n s)"
proof (induction n arbitrary: s)
  case (Suc n)
  then have e: "\<not> atEnd s" by (simp add: atEnd_def)
  have "moves (advance s) (advanceN n (advance s))"
    using Suc e by (simp add: offset_advance)
  then show ?case using moves_step [OF e] by simp
qed simp

lemma offset_advanceN: "offset s + n \<le> length (src s) \<Longrightarrow> offset (advanceN n s) = offset s + n"
  by (induction n arbitrary: s) (simp_all add: offset_advance atEnd_def)

abbreviation fractionPart :: "(char \<Rightarrow> bool) \<Rightarrow> scanner \<Rightarrow> scanner" where
  "fractionPart digit s \<equiv> (if \<not> atEnd s \<and> peek s = CHR ''.'' \<and> peekAt s 1 \<noteq> CHR ''.''
      then consumeWhile (\<lambda>c. digit c \<or> c = CHR ''_'') (advance s) else s)"

lemma moves_fractionPart: "moves s (fractionPart digit s)"
  using moves_step [of s] by auto

lemma moves_exponent:
  "moves (fractionPart digit s) (consumeFractionAndExponent digit e1 e2 s)"
proof -
  define s1 where "s1 = fractionPart digit s"
  define s3 where "s3 = (if peek (advance s1) = CHR ''+'' \<or> peek (advance s1) = CHR ''-''
      then advance (advance s1) else advance s1)"
  have e: "peek t = CHR ''+'' \<or> peek t = CHR ''-'' \<Longrightarrow> \<not> atEnd t" for t
    by (auto simp: peek_def)
  have "moves s1 s3" if "\<not> atEnd s1"
    using that moves_step [of s1] moves_advance e unfolding s3_def by auto
  then have "moves s1 (consumeWhile (\<lambda>c. isDigit c \<or> c = CHR ''_'') s3)" if "\<not> atEnd s1"
    using moves_trans that by blast
  then show ?thesis
    unfolding consumeFractionAndExponent_def s1_def [symmetric] s3_def [symmetric] Let_def
    by auto
qed

lemma moves_fraction: "moves s (consumeFractionAndExponent digit e1 e2 s)"
  by (rule moves_trans [OF moves_fractionPart moves_exponent])

lemma fraction_progress:
  assumes "\<not> atEnd s" "peek s = CHR ''.''" "peekAt s 1 \<noteq> CHR ''.''"
  shows "offset s < offset (consumeFractionAndExponent digit e1 e2 s)"
proof -
  have "offset s < offset (fractionPart digit s)"
    using assms moves_step [of s "fractionPart digit s"] by simp
  also have "\<dots> \<le> offset (consumeFractionAndExponent digit e1 e2 s)"
    using moves_exponent by (simp add: moves_def)
  finally show ?thesis .
qed

text \<open>
  \<open>emitted s t\<close>: \<open>t\<close> is \<open>s\<close> after one token that starts where \<open>s\<close> stands and whose text is
  exactly what was read. The shape of the text is given by the token's kind.
\<close>

fun tok_shape :: "kind \<Rightarrow> string \<Rightarrow> bool" where
  "tok_shape KEOF t = False"
| "tok_shape KWhitespace t = (t \<noteq> [] \<and> list_all isSpace t)"
| "tok_shape KComment t = HasPrefix t ''--''"
| "tok_shape KName t = (t \<noteq> [] \<and> isNameStart (hd t) \<and> list_all isNameCont t)"
| "tok_shape KNumber t = (t \<noteq> [] \<and> (isDigit (hd t) \<or> hd t = CHR ''.''))"
| "tok_shape KString t = (t \<noteq> [] \<and> hd t \<in> {DQUOTE, SQUOTE, CHR ''[''})"
| "tok_shape KInterpSimple t = (t \<noteq> [] \<and> hd t = BTICK)"
| "tok_shape KInterpStart t = (t \<noteq> [] \<and> hd t = BTICK \<and> last t = CHR ''{'')"
| "tok_shape KInterpMid t = (t \<noteq> [] \<and> hd t = CHR ''}'' \<and> last t = CHR ''{'')"
| "tok_shape KInterpEnd t = (t \<noteq> [] \<and> hd t = CHR ''}'')"
| "tok_shape KSymbol t =
     (t \<in> set symbols3 \<or> t \<in> set symbols2 \<or> (\<exists>c. t = [c] \<and> isSingleSymbol c))"
| "tok_shape KInvalid t = (\<exists>c. t = [c] \<and> \<not> isSingleSymbol c)"

definition emitted :: "scanner \<Rightarrow> scanner \<Rightarrow> bool" where
  "emitted s t \<longleftrightarrow> src t = src s \<and> offset s < offset t \<and> prefix (diags s) (diags t) \<and>
     (scan_ok s \<longrightarrow> scan_ok t \<and>
       (\<exists>k. toks t = toks s @ [\<lparr>Kind = k, Text = slice (src s) (offset s) (offset t),
                                Start = pos s, End = pos t\<rparr>] \<and>
            tok_shape k (slice (src s) (offset s) (offset t))))"

lemma pos_Offset [simp]: "Offset (pos s) = offset s"
  by (simp add: pos_def)

lemma emit_frame [simp]:
  "src (emit k p s) = src s" "offset (emit k p s) = offset s" "interp (emit k p s) = interp s"
  "diags (emit k p s) = diags s" "pos (emit k p s) = pos s" "scan_ok (emit k p s) = scan_ok s"
  by (simp_all add: emit_def pos_def scan_ok_def)

lemma slice_hd:
  "i < j \<Longrightarrow> j \<le> length xs \<Longrightarrow> slice xs i j \<noteq> [] \<and> hd (slice xs i j) = xs ! i"
  by (simp add: slice_Cons)

lemma slice_last:
  "i < j \<Longrightarrow> j \<le> length xs \<Longrightarrow> last (slice xs i j) = xs ! (j - 1)"
  using slice_snoc [of i "j - 1" xs] by simp

lemma slice_all:
  assumes "j \<le> length xs" "\<And>n. i \<le> n \<Longrightarrow> n < j \<Longrightarrow> P (xs ! n)"
  shows "list_all P (slice xs i j)"
  using assms by (auto simp: list_all_length slice_def)

lemma scan_ok_le: "scan_ok s \<Longrightarrow> offset s \<le> length (src s)"
  by (simp add: scan_ok_def)

lemma emitted_emit:
  assumes m: "moves s t" and o: "offset s < offset t"
    and k: "\<lbrakk>offset t \<le> length (src s); slice (src s) (offset s) (offset t) \<noteq> [];
         hd (slice (src s) (offset s) (offset t)) = src s ! offset s\<rbrakk>
       \<Longrightarrow> tok_shape k (slice (src s) (offset s) (offset t))"
  shows "emitted s (emit k (pos s) t)"
proof -
  have "tok_shape k (slice (src s) (offset s) (offset t))" if "scan_ok s"
  proof (rule k)
    show "offset t \<le> length (src s)"
      using m that scan_ok_le [of t] by (simp add: moves_def)
    with slice_hd [OF o this] show "slice (src s) (offset s) (offset t) \<noteq> []"
      "hd (slice (src s) (offset s) (offset t)) = src s ! offset s" by auto
  qed
  then show ?thesis
    using m o by (auto simp: emitted_def moves_def) (simp add: emit_def)
qed

lemma emitted_frame:
  assumes "emitted s t" "src u = src t" "offset u = offset t" "pos u = pos t" "toks u = toks t"
    "prefix (diags t) (diags u)" "panicked u = panicked t"
  shows "emitted s u"
  using assms by (auto simp: emitted_def scan_ok_def intro: prefix_order.trans)

lemma peek_nth: "\<not> atEnd s \<Longrightarrow> peek s = src s ! offset s"
  by (simp add: peek_def)

lemma emitted_scanWhitespace:
  assumes "\<not> atEnd s" "isSpace (peek s)"
  shows "emitted s (scanWhitespace s)"
  unfolding scanWhitespace_def
  by (rule emitted_emit)
    (simp_all add: consumeWhile_progress assms slice_all consumeWhile_bytes)

lemma emitted_scanName:
  assumes "\<not> atEnd s" "isNameStart (peek s)"
  shows "emitted s (scanName s)"
  unfolding scanName_def
proof (rule emitted_emit)
  show "offset s < offset (consumeWhile isNameCont s)"
    using assms by (simp add: consumeWhile_progress isNameCont_def)
qed (use assms in \<open>simp_all add: peek_nth slice_all consumeWhile_bytes\<close>)

lemma not_atEnd_second: "peekAt s 1 \<noteq> NUL \<Longrightarrow> \<not> atEnd s \<Longrightarrow> \<not> atEnd (advance s)"
  by (auto simp: peekAt_def atEnd_def offset_advance split: if_splits)

lemma emitted_scanNumber:
  assumes e: "\<not> atEnd s" and c: "isDigit (peek s) \<or> (peek s = CHR ''.'' \<and> isDigit (peekAt s 1))"
  shows "emitted s (scanNumber s)"
proof -
  let ?num = "\<lambda>c. isDigit c \<or> c = CHR ''_''"
  have two: "moves s t \<and> offset s < offset t"
    if "peekAt s 1 \<noteq> NUL" "moves (advance (advance s)) t" for t
    using moves_step [OF e] moves_step [OF not_atEnd_second [OF that(1) e] that(2)] by blast
  have dec: "offset s < offset (consumeFractionAndExponent isDigit (CHR ''e'') (CHR ''E'') (consumeWhile ?num s))"
  proof (cases "isDigit (peek s)")
    case True
    have "offset (consumeWhile ?num s)
        \<le> offset (consumeFractionAndExponent isDigit (CHR ''e'') (CHR ''E'') (consumeWhile ?num s))"
      using moves_fraction by (simp add: moves_def)
    with consumeWhile_progress [OF e, of ?num] True show ?thesis by simp
  next
    case False
    with c have "consumeWhile ?num s = s" "peek s = CHR ''.''" "isDigit (peekAt s 1)"
      by (auto intro: consumeWhile_stuck)
    moreover from this(3) have "peekAt s 1 \<noteq> CHR ''.''" by (auto simp: isDigit_def)
    ultimately show ?thesis using fraction_progress [OF e] by simp
  qed
  have shape: "\<lbrakk>t \<noteq> []; hd t = src s ! offset s\<rbrakk> \<Longrightarrow> tok_shape KNumber t" for t
    using c e by (auto simp: peek_nth)
  have fin: "emitted s (emit KNumber (pos s) t)" if "moves s t \<and> offset s < offset t" for t
    using that shape by (intro emitted_emit) simp_all
  have base: "peekAt s 1 \<noteq> NUL" if "peekAt s 1 \<in> {CHR ''x'', CHR ''X'', CHR ''b'', CHR ''B''}"
    using that by auto
  have hex: "moves t (consumeFractionAndExponent d e1 e2 (consumeWhile p t))" for t d e1 e2 p
    by (rule moves_trans [OF moves_consumeWhile moves_fraction])
  consider "peekAt s 1 = CHR ''x'' \<or> peekAt s 1 = CHR ''X''" "peek s = CHR ''0''"
    | "\<not> (peek s = CHR ''0'' \<and> (peekAt s 1 = CHR ''x'' \<or> peekAt s 1 = CHR ''X''))"
      "peekAt s 1 = CHR ''b'' \<or> peekAt s 1 = CHR ''B''" "peek s = CHR ''0''"
    | "\<not> (peek s = CHR ''0'' \<and> (peekAt s 1 = CHR ''x'' \<or> peekAt s 1 = CHR ''X''))"
      "\<not> (peek s = CHR ''0'' \<and> (peekAt s 1 = CHR ''b'' \<or> peekAt s 1 = CHR ''B''))"
    by blast
  then show ?thesis
  proof cases
    case 1
    then show ?thesis unfolding scanNumber_def using fin [OF two [OF base hex]] by auto
  next
    case 2
    then show ?thesis unfolding scanNumber_def using fin [OF two [OF base moves_consumeWhile]] by auto
  next
    case 3
    then show ?thesis unfolding scanNumber_def using fin [OF conjI [OF hex dec]] by auto
  qed
qed

lemma emitted_errAt: "emitted s (emit k p t) \<Longrightarrow> emitted s (emit k p (errAt q m t))"
  by (erule emitted_frame) (simp_all add: emit_def errAt_def pos_def)

lemma moves_snd_step: "moves s t \<Longrightarrow> \<not> atEnd t \<Longrightarrow> moves s (advance t) \<and> offset s < offset (advance t)"
  using moves_trans [OF _ moves_advance] by (auto simp: moves_def offset_advance)

text \<open>The string loop reads some bytes and emits the token.\<close>

lemma shortStringLoop_emits: "\<exists>t. moves s t \<and> shortStringLoop quote p s = emit KString p t"
proof (induction quote p s rule: shortStringLoop.induct)
  case (1 quote p s)
  have step: "\<exists>t. moves s t \<and> shortStringLoop quote p s = emit KString p t"
    if "moves s u" "\<exists>t. moves u t \<and> shortStringLoop quote p u = emit KString p t"
      "shortStringLoop quote p s = shortStringLoop quote p u" for u
    using that moves_trans by metis
  let ?next = "\<lambda>s2. if peek (advance s) = CHR ''z'' then consumeWhile isSpace s2 else s2"
  consider "atEnd s" | "\<not> atEnd s" "peek s = BSLASH" "atEnd (advance s)"
    | "\<not> atEnd s" "peek s = BSLASH" "\<not> atEnd (advance s)"
    | "\<not> atEnd s" "peek s \<noteq> BSLASH" "peek s = quote" | "\<not> atEnd s" "peek s \<noteq> BSLASH" "peek s \<noteq> quote" "peek s = LF"
    | "\<not> atEnd s" "peek s \<noteq> BSLASH" "peek s \<noteq> quote" "peek s \<noteq> LF" by blast
  then show ?case
  proof cases
    case 2
    then show ?thesis
      using "1.IH"(1) by (intro step [OF moves_advance]) (simp_all add: shortStringLoop.simps [of quote p s])
  next
    case 3
    have "moves s (?next (advance (advance s)))"
      using 3 moves_snd_step [OF moves_advance, of s] moves_trans by auto
    then show ?thesis
      by (rule step) (use 3 "1.IH"(2) [OF 3(1,2) refl 3(3) refl refl] in
        \<open>simp_all add: shortStringLoop.simps [of quote p s] Let_def\<close>)
  next
    case 6
    then show ?thesis
      using "1.IH"(3) by (intro step [OF moves_advance]) (simp_all add: shortStringLoop.simps [of quote p s])
  qed (auto simp: shortStringLoop.simps [of quote p s])
qed

lemma emitted_shortStringLoop:
  assumes "moves s0 s" "offset s0 < offset s" "src s0 ! offset s0 \<in> {DQUOTE, SQUOTE}"
  shows "emitted s0 (shortStringLoop quote (pos s0) s)"
proof -
  obtain t where t: "moves s t" "shortStringLoop quote (pos s0) s = emit KString (pos s0) t"
    using shortStringLoop_emits by blast
  have "offset s0 < offset t" using t(1) assms(2) by (simp add: moves_def)
  then show ?thesis
    unfolding t(2) using assms(3) by (intro emitted_emit [OF moves_trans [OF assms(1) t(1)]]) auto
qed

lemma emitted_scanShortString:
  assumes "\<not> atEnd s" "peek s = DQUOTE \<or> peek s = SQUOTE"
  shows "emitted s (scanShortString s)"
  unfolding scanShortString_def
  by (rule emitted_shortStringLoop) (use assms in \<open>auto simp: peek_nth offset_advance\<close>)

lemma longBracketLevel_room:
  assumes "longBracketLevel s = Some level"
  shows "offset s + level + 2 \<le> length (src s)" "peek s = CHR ''[''" "\<not> atEnd s"
  using assms by (auto simp: longBracketLevel_def Let_def atEnd_def split: if_splits)

lemma moves_longBodyLoop: "moves s (fst (longBodyLoop closing s))"
proof (induction closing s rule: longBodyLoop.induct)
  case (1 closing s)
  show ?case
    using 1 moves_advanceN [of s "length closing"] moves_trans [OF moves_advance]
    by (subst longBodyLoop.simps) auto
qed

lemma moves_advanceN_advance:
  assumes "offset s + n < length (src s)"
  shows "moves s (advance (advanceN n s)) \<and> offset s < offset (advance (advanceN n s))"
proof -
  have m: "moves s (advanceN n s)" using assms by (intro moves_advanceN) simp
  moreover have "\<not> atEnd (advanceN n s)"
    using assms m offset_advanceN [of s n] by (simp add: atEnd_def moves_def)
  ultimately show ?thesis by (rule moves_snd_step)
qed

lemma moves_consumeLongBody:
  assumes "longBracketLevel s = Some level"
  shows "moves s (fst (consumeLongBody level s)) \<and> offset s < offset (fst (consumeLongBody level s))"
proof -
  note r = longBracketLevel_room [OF assms]
  have "moves (advance s) (advance (advanceN level (advance s)))"
    using r moves_advanceN_advance [of "advance s" level] by (simp add: offset_advance)
  also have "moves \<dots> (fst (consumeLongBody level s))"
    unfolding consumeLongBody_def by (rule moves_longBodyLoop)
  finally show ?thesis using moves_step r by blast
qed

lemma emitted_scanLongString:
  assumes "longBracketLevel s = Some level"
  shows "emitted s (scanLongString level s)"
proof -
  obtain s1 ok where p: "consumeLongBody level s = (s1, ok)" by (cases "consumeLongBody level s")
  have "emitted s (emit KString (pos s) s1)"
    using moves_consumeLongBody [OF assms] longBracketLevel_room [OF assms] p
    by (intro emitted_emit) (auto simp: peek_nth)
  with p show ?thesis by (auto simp: scanLongString_def emitted_errAt)
qed

lemma emitted_scanComment:
  assumes "\<not> atEnd s" "peek s = CHR ''-''" "peekAt s 1 = CHR ''-''"
  shows "emitted s (scanComment s)"
proof -
  let ?s2 = "advance (advance s)"
  have e: "\<not> atEnd (advance s)" using assms not_atEnd_second by auto
  have o2: "offset ?s2 = offset s + 2" using assms e by (simp add: offset_advance)
  have m2: "moves s t \<and> offset s + 2 \<le> offset t" if "moves ?s2 t" for t
    using moves_step [OF assms(1)] moves_step [OF e that] that o2 by (auto simp: moves_def)
  have shape: "HasPrefix (slice (src s) (offset s) n) ''--''"
    if "offset s + 2 \<le> n" "n \<le> length (src s)" for n
    using that assms by (simp add: slice_Cons HasPrefix_def peek_nth peekAt_def numeral_2_eq_2)
  have fin: "emitted s (emit KComment (pos s) t)" if "moves ?s2 t" for t
    using m2 [OF that] shape [of "offset t"] by (intro emitted_emit) auto
  show ?thesis
  proof (cases "if \<not> atEnd ?s2 \<and> peek ?s2 = CHR ''['' then longBracketLevel ?s2 else None")
    case None
    then show ?thesis using fin [OF moves_consumeWhile] by (simp add: scanComment_def)
  next
    case (Some level)
    then have l: "longBracketLevel ?s2 = Some level" by (auto split: if_splits)
    obtain s3 ok where p: "consumeLongBody level ?s2 = (s3, ok)" by (cases "consumeLongBody level ?s2")
    show ?thesis
      using fin [of s3] moves_consumeLongBody [OF l] p Some
      by (auto simp: scanComment_def emitted_errAt Let_def)
  qed
qed

lemma scanInterpBody_branch:
  "atEnd s \<Longrightarrow> scanInterpBody s = (errAt (pos s) ''unterminated interpolated string'' s, False)"
  "\<not> atEnd s \<Longrightarrow> peek s = BSLASH \<Longrightarrow> scanInterpBody s =
     scanInterpBody (if atEnd (advance s) then advance s else advance (advance s))"
  "\<not> atEnd s \<Longrightarrow> peek s = BTICK \<Longrightarrow> scanInterpBody s = (advance s, False)"
  "\<not> atEnd s \<Longrightarrow> peek s = CHR ''{'' \<Longrightarrow> scanInterpBody s = (advance s, True)"
  "\<not> atEnd s \<Longrightarrow> peek s = LF \<Longrightarrow>
     scanInterpBody s = (errAt (pos s) ''unterminated interpolated string'' s, False)"
  "\<not> atEnd s \<Longrightarrow> peek s \<noteq> BSLASH \<Longrightarrow> peek s \<noteq> BTICK \<Longrightarrow> peek s \<noteq> CHR ''{'' \<Longrightarrow> peek s \<noteq> LF \<Longrightarrow>
     scanInterpBody s = scanInterpBody (advance s)"
  by (subst scanInterpBody.simps, simp add: Let_def)+

lemma scanInterpBody_induct [case_names End Esc Tick Brace Newline Other]:
  assumes "\<And>s. atEnd s \<Longrightarrow> P s"
    and "\<And>s. \<not> atEnd s \<Longrightarrow> peek s = BSLASH \<Longrightarrow>
           P (if atEnd (advance s) then advance s else advance (advance s)) \<Longrightarrow> P s"
    and "\<And>s. \<not> atEnd s \<Longrightarrow> peek s = BTICK \<Longrightarrow> P s"
    and "\<And>s. \<not> atEnd s \<Longrightarrow> peek s = CHR ''{'' \<Longrightarrow> P s"
    and "\<And>s. \<not> atEnd s \<Longrightarrow> peek s = LF \<Longrightarrow> P s"
    and "\<And>s. \<not> atEnd s \<Longrightarrow> peek s \<noteq> BSLASH \<Longrightarrow> peek s \<noteq> BTICK \<Longrightarrow> peek s \<noteq> CHR ''{'' \<Longrightarrow>
           peek s \<noteq> LF \<Longrightarrow> P (advance s) \<Longrightarrow> P s"
  shows "P s"
  by (induction s rule: scanInterpBody.induct) (metis assms)

lemma moves_scanInterpBody: "moves s (fst (scanInterpBody s))"
proof (induction s rule: scanInterpBody_induct)
  case (Esc s)
  have "moves s (if atEnd (advance s) then advance s else advance (advance s))"
    using Esc moves_snd_step [OF moves_advance, of s] by auto
  from moves_trans [OF this Esc.IH] show ?case
    by (simp only: scanInterpBody_branch(2) [OF Esc.hyps])
next
  case (Other s)
  from moves_trans [OF moves_advance Other.IH] Other.hyps show ?case
    by (simp add: scanInterpBody_branch(6))
qed (auto simp: scanInterpBody_branch)

lemma scanInterpBody_brace:
  "snd (scanInterpBody s) \<Longrightarrow>
   0 < offset (fst (scanInterpBody s)) \<and>
   src s ! (offset (fst (scanInterpBody s)) - 1) = CHR ''{''"
proof (induction s rule: scanInterpBody_induct)
  case (Esc s)
  then show ?case by (simp add: scanInterpBody_branch(2) split: if_splits)
next
  case (Other s)
  then show ?case by (simp add: scanInterpBody_branch(6))
qed (auto simp: scanInterpBody_branch offset_advance peek_nth)

lemma scanInterpBody_moves:
  assumes "\<not> atEnd s" "scanInterpBody (advance s) = (t, b)"
  shows "moves s t" "offset s < offset t" "b \<Longrightarrow> src s ! (offset t - 1) = CHR ''{''"
  using moves_step [OF assms(1), of t] moves_scanInterpBody [of "advance s"]
    scanInterpBody_brace [of "advance s"] assms(2) by auto

lemma emitted_interp:
  assumes "emitted s (emit k p t)"
  shows "emitted s (emit k p (t\<lparr>interp := st\<rparr>))"
  by (rule emitted_frame [OF assms]) (simp_all add: emit_def pos_def)

lemma emitted_scanInterpStart:
  assumes "\<not> atEnd s" "peek s = BTICK"
  shows "emitted s (scanInterpStart s)"
proof -
  obtain t b where p: "scanInterpBody (advance s) = (t, b)" by (cases "scanInterpBody (advance s)")
  note m = scanInterpBody_moves [OF assms(1) p]
  have "emitted s (emit (if b then KInterpStart else KInterpSimple) (pos s) t)"
    using m assms by (intro emitted_emit) (auto simp: peek_nth slice_last)
  with p show ?thesis by (auto simp: scanInterpStart_def emitted_interp split: if_splits)
qed

lemma emitted_scanInterpResume:
  assumes "\<not> atEnd s" "peek s = CHR ''}''"
  shows "emitted s (scanInterpResume s)"
proof -
  obtain t b where p: "scanInterpBody (advance s) = (t, b)" by (cases "scanInterpBody (advance s)")
  note m = scanInterpBody_moves [OF assms(1) p]
  have "emitted s (emit (if b then KInterpMid else KInterpEnd) (pos s) t)"
    using m assms by (intro emitted_emit) (auto simp: peek_nth slice_last)
  with p show ?thesis by (auto simp: scanInterpResume_def emitted_interp split: if_splits)
qed

lemma emitted_trackBrace: "emitted s t \<Longrightarrow> emitted s (trackBrace c t)"
  by (erule emitted_frame) (simp_all add: trackBrace_def pos_def)

lemma emitted_scanSymbol:
  assumes e: "\<not> atEnd s"
  shows "emitted s (scanSymbol s)"
proof -
  have n: "emitted s (emit KSymbol (pos s) (advanceN (Suc n) s))"
    if "offset s + Suc n \<le> length (src s)"
      "tok_shape KSymbol (slice (src s) (offset s) (offset s + Suc n))" for n
    using that moves_advanceN [of s "Suc n"] offset_advanceN [of s "Suc n"]
    by (intro emitted_emit) auto
  have one: "emitted s (emit k (pos s) (advance s))" if "tok_shape k [peek s]" for k
    using that e moves_advance [OF e]
    by (intro emitted_emit) (auto simp: offset_advance peek_nth slice_Suc atEnd_def)
  have inv: "emitted s (errAt (pos s) m t)" if "emitted s t" for t m
    using that by (rule emitted_frame) (simp_all add: errAt_def pos_def)
  show ?thesis
    using n [of 2] n [of 1] one [of KSymbol] one [of KInvalid]
    by (auto simp: scanSymbol_def Let_def numeral_2_eq_2 numeral_3_eq_3 inv intro: emitted_trackBrace)
qed

lemmas emitted_scanners =
  emitted_scanWhitespace emitted_scanComment emitted_scanName emitted_scanNumber
  emitted_scanShortString emitted_scanLongString emitted_scanInterpStart
  emitted_scanInterpResume emitted_scanSymbol

lemma emitted_scanOne: "\<not> atEnd s \<Longrightarrow> emitted s (scanOne s)"
  unfolding scanOne_def Let_def
  by (auto intro: emitted_scanners split: option.splits)

section \<open>The loop and \<open>Tokenize\<close>\<close>

function run :: "scanner \<Rightarrow> scanner" where
  "run s =
     (if \<not> atEnd s then run (scanOne s)
      else s\<lparr>toks := toks s @ [\<lparr>Kind = KEOF, Text = [], Start = pos s, End = pos s\<rparr>]\<rparr>)"
  by pat_completeness auto
termination
proof (relation "measure (\<lambda>s. length (src s) - offset s)", goal_cases)
  case (2 s)
  then show ?case using emitted_scanOne [of s] by (auto simp: emitted_def atEnd_def)
qed simp

declare run.simps [simp del]

definition newScanner :: "string \<Rightarrow> scanner" where
  "newScanner t = \<lparr>src = t, offset = 0, line = 1, col = 1, interp = [], toks = [], diags = [],
                   panicked = False\<rparr>"

definition Tokenize :: "string \<Rightarrow> token list \<times> diagnostic list" where
  "Tokenize t = (let s = run (newScanner t) in (toks s, diags s))"

section \<open>The token stream covers the source\<close>

text \<open>
  Between two rounds, the tokens emitted so far spell the source up to the current offset,
  each token carries the positions of the text before and after it, and each has the shape
  of its kind.
\<close>

fun tokens_from :: "string \<Rightarrow> token list \<Rightarrow> bool" where
  "tokens_from t [] = True"
| "tokens_from t (k # ks) =
     (Start k = pos_of t \<and> End k = pos_of (t @ Text k) \<and> tok_shape (Kind k) (Text k) \<and>
      tokens_from (t @ Text k) ks)"

lemma tokens_from_snoc:
  "tokens_from t (ks @ [k]) \<longleftrightarrow> tokens_from t ks \<and>
     Start k = pos_of (t @ concat (map Text ks)) \<and>
     End k = pos_of (t @ concat (map Text ks) @ Text k) \<and> tok_shape (Kind k) (Text k)"
  by (induction ks arbitrary: t) auto

definition lexed :: "scanner \<Rightarrow> bool" where
  "lexed s \<longleftrightarrow> scan_ok s \<and> concat (map Text (toks s)) = take (offset s) (src s) \<and> tokens_from [] (toks s)"

lemma lexed_newScanner: "lexed (newScanner t)"
  by (simp add: lexed_def newScanner_def scan_ok_def pos_def)

lemma lexed_emitted: "lexed s \<Longrightarrow> emitted s t \<Longrightarrow> lexed t"
  by (auto simp: lexed_def emitted_def tokens_from_snoc take_slice scan_ok_def)

definition eof_token :: "string \<Rightarrow> token" where
  "eof_token t = \<lparr>Kind = KEOF, Text = [], Start = pos_of t, End = pos_of t\<rparr>"

lemma run_lexed:
  assumes "lexed s"
  shows "\<exists>ks. toks (run s) = ks @ [eof_token (src s)] \<and> tokens_from [] ks \<and>
     concat (map Text ks) = src s \<and> \<not> panicked (run s)"
  using assms
proof (induction s rule: run.induct)
  case (1 s)
  show ?case
  proof (cases "atEnd s")
    case True
    with 1 show ?thesis
      by (simp add: run.simps [of s] lexed_def scan_ok_def atEnd_def eof_token_def)
  next
    case False
    then have "lexed (scanOne s)" "src (scanOne s) = src s"
      using lexed_emitted [OF 1(2) emitted_scanOne] emitted_scanOne [OF False]
      by (auto simp: emitted_def)
    with 1 False show ?thesis by (simp add: run.simps [of s])
  qed
qed

lemma Tokenize_struct:
  obtains ks where "fst (Tokenize t) = ks @ [eof_token t]" "tokens_from [] ks"
    "concat (map Text ks) = t"
  using run_lexed [OF lexed_newScanner, of t]
  by (auto simp: Tokenize_def Let_def newScanner_def)

lemma tokens_from_shape: "tokens_from t ks \<Longrightarrow> k \<in> set ks \<Longrightarrow> tok_shape (Kind k) (Text k)"
  by (induction t ks rule: tokens_from.induct) auto

lemma tok_shape_not_EOF: "tok_shape k t \<Longrightarrow> k \<noteq> KEOF \<and> t \<noteq> []"
  by (cases k) (auto simp: HasPrefix_def symbols3_def symbols2_def)

end
