(* ===== verification/Luau_Lex_Correct.thy ===== *)
theory Luau_Lex_Correct
  imports Luau_Lex
begin

text \<open>
  Correctness of the scanner: it never reads past the end of the source, its token stream
  spells the source and carries the right positions, the stack of open interpolation holes
  matches the interpolation tokens, every invalid token is reported, and a name lexes to one
  token.
\<close>

section \<open>The interpolation stack and the diagnostics\<close>

text \<open>
  What a round does to the stack of open interpolation holes, by the kind of its token: a
  start pushes a depth, an end pops one, a brace counts within the top depth, and everything
  else leaves the stack alone. An invalid token comes with a diagnostic at its start.
\<close>

definition depths_ok :: "int list \<Rightarrow> bool" where
  "depths_ok ds \<longleftrightarrow> list_all (\<lambda>d. 0 \<le> d) ds"

definition stack_step :: "kind \<Rightarrow> int list \<Rightarrow> int list \<Rightarrow> bool" where
  "stack_step k a b \<longleftrightarrow>
     (if k = KInterpStart then b = a @ [0]
      else if k = KInterpEnd then a \<noteq> [] \<and> b = butlast a
      else length b = length a \<and> (depths_ok a \<longrightarrow> depths_ok b))"

definition round :: "scanner \<Rightarrow> scanner \<Rightarrow> bool" where
  "round s t \<longleftrightarrow> (\<exists>k. toks t = toks s @ [k] \<and> stack_step (Kind k) (interp s) (interp t) \<and>
     prefix (diags s) (diags t) \<and> (Kind k = KInvalid \<longrightarrow> Start k \<in> Pos ` set (diags t)))"

lemma round_emit:
  "moves s t \<Longrightarrow> k \<notin> {KInterpStart, KInterpEnd, KInvalid} \<Longrightarrow> round s (emit k p t)"
  by (auto simp: round_def moves_def emit_def stack_step_def)

lemma round_shortStringLoop: "moves s0 s \<Longrightarrow> round s0 (shortStringLoop quote p s)"
  using shortStringLoop_emits [of s quote p] round_emit moves_trans by fastforce

lemma moves_two: "\<not> atEnd s \<Longrightarrow> peekAt s 1 \<noteq> NUL \<Longrightarrow> moves s (advance (advance s))"
  using moves_snd_step [OF moves_advance] not_atEnd_second by blast

lemma moves_errIf: "moves s t \<Longrightarrow> moves s (if ok then t else errAt p m t)"
  using moves_trans [OF _ moves_errAt] by auto

lemma round_scanComment:
  assumes "\<not> atEnd s" "peekAt s 1 = CHR ''-''"
  shows "round s (scanComment s)"
proof -
  let ?s2 = "advance (advance s)"
  have m: "moves s ?s2" using moves_two assms by auto
  show ?thesis
  proof (cases "if \<not> atEnd ?s2 \<and> peek ?s2 = CHR ''['' then longBracketLevel ?s2 else None")
    case None
    then show ?thesis
      using round_emit [OF moves_trans [OF m moves_consumeWhile], of KComment] by (simp add: scanComment_def)
  next
    case (Some level)
    then have l: "longBracketLevel ?s2 = Some level" by (auto split: if_splits)
    have "moves s (fst (consumeLongBody level ?s2))"
      using moves_trans [OF m] moves_consumeLongBody [OF l] by blast
    from round_emit [OF moves_errIf [OF this], of KComment] Some show ?thesis
      by (simp add: scanComment_def Let_def case_prod_beta)
  qed
qed

lemma round_scanNumber:
  assumes "\<not> atEnd s"
  shows "round s (scanNumber s)"
proof -
  have m: "moves t (consumeFractionAndExponent d e1 e2 (consumeWhile p t))" for t d e1 e2 p
    by (rule moves_trans [OF moves_consumeWhile moves_fraction])
  have two: "moves s (advance (advance s))" if "peekAt s 1 \<in> {CHR ''x'', CHR ''X'', CHR ''b'', CHR ''B''}"
    using that by (intro moves_two [OF assms]) auto
  show ?thesis
    unfolding scanNumber_def
    by (rule round_emit) (use two moves_trans [OF two m] moves_trans [OF two moves_consumeWhile] m in auto)
qed

lemma round_scanLongString: "longBracketLevel s = Some level \<Longrightarrow> round s (scanLongString level s)"
  using round_emit [OF moves_errIf [of s "fst (consumeLongBody level s)"], of KString] moves_consumeLongBody
  by (simp add: scanLongString_def case_prod_beta)

lemma round_scanInterpStart: "\<not> atEnd s \<Longrightarrow> round s (scanInterpStart s)"
proof -
  assume "\<not> atEnd s"
  then have "moves s (fst (scanInterpBody (advance s)))"
    using moves_trans [OF moves_advance moves_scanInterpBody] by blast
  then show ?thesis
    by (auto simp: scanInterpStart_def case_prod_beta round_def moves_def emit_def stack_step_def)
qed

lemma round_scanInterpResume: "\<not> atEnd s \<Longrightarrow> interp s \<noteq> [] \<Longrightarrow> round s (scanInterpResume s)"
proof -
  assume "\<not> atEnd s" and ne: "interp s \<noteq> []"
  then have "moves s (fst (scanInterpBody (advance s)))"
    using moves_trans [OF moves_advance moves_scanInterpBody] by blast
  with ne show ?thesis
    by (auto simp: scanInterpResume_def case_prod_beta round_def moves_def emit_def stack_step_def)
qed

text \<open>A brace that reaches \<open>trackBrace\<close> never closes the hole itself.\<close>

lemma stack_trackBrace:
  assumes "\<not> (c = CHR ''}'' \<and> interp s \<noteq> [] \<and> last (interp s) = 0)"
  shows "stack_step KSymbol (interp s) (interp (trackBrace c s))"
proof (cases "interp s" rule: rev_cases)
  case (snoc ds d)
  then show ?thesis using assms by (auto simp: trackBrace_def stack_step_def depths_ok_def)
qed (simp add: trackBrace_def stack_step_def)

lemma round_scanSymbol:
  assumes "\<not> atEnd s" "\<not> (peek s = CHR ''}'' \<and> interp s \<noteq> [] \<and> last (interp s) = 0)"
  shows "round s (scanSymbol s)"
  using stack_trackBrace [of "peek s" "emit KSymbol (pos s) (advance s)"] assms
  by (auto simp: scanSymbol_def Let_def round_def emit_def errAt_def trackBrace_def stack_step_def)

lemma round_scanOne: "\<not> atEnd s \<Longrightarrow> round s (scanOne s)"
  unfolding scanOne_def Let_def scanWhitespace_def scanName_def scanShortString_def
  by (auto intro!: round_scanComment round_scanNumber round_scanLongString round_scanInterpStart
      round_scanInterpResume round_scanSymbol round_shortStringLoop round_emit split: option.splits)

definition kind_count :: "kind \<Rightarrow> token list \<Rightarrow> nat" where
  "kind_count k ts = length (filter (\<lambda>t. Kind t = k) ts)"

definition stack_ok :: "scanner \<Rightarrow> bool" where
  "stack_ok s \<longleftrightarrow> depths_ok (interp s) \<and>
     kind_count KInterpStart (toks s) = kind_count KInterpEnd (toks s) + length (interp s) \<and>
     (\<forall>k \<in> set (toks s). Kind k = KInvalid \<longrightarrow> Start k \<in> Pos ` set (diags s))"

lemma stack_ok_round: "stack_ok s \<Longrightarrow> round s t \<Longrightarrow> stack_ok t"
proof -
  assume s: "stack_ok s" and "round s t"
  then obtain k where k: "toks t = toks s @ [k]" "stack_step (Kind k) (interp s) (interp t)"
    "prefix (diags s) (diags t)" "Kind k = KInvalid \<longrightarrow> Start k \<in> Pos ` set (diags t)"
    by (auto simp: round_def)
  then have "\<forall>k \<in> set (toks t). Kind k = KInvalid \<longrightarrow> Start k \<in> Pos ` set (diags t)"
    using s image_mono [OF set_mono_prefix [OF k(3)], of Pos] by (auto simp: stack_ok_def)
  with s k(1,2) show ?thesis
    by (auto simp: stack_ok_def stack_step_def kind_count_def depths_ok_def list_all_iff
        dest: in_set_butlastD split: if_splits)
qed

lemma stack_ok_new: "stack_ok (newScanner t)"
  by (simp add: stack_ok_def newScanner_def depths_ok_def kind_count_def)

lemma stack_ok_run: "stack_ok s \<Longrightarrow> stack_ok (run s)"
proof (induction s rule: run.induct)
  case (1 s)
  then show ?case
    using stack_ok_round [OF 1(2) round_scanOne]
    by (cases "atEnd s") (auto simp: run.simps [of s] stack_ok_def kind_count_def)
qed

section \<open>Names\<close>

lemma consumeWhile_all:
  assumes "offset s \<le> length (src s)" "list_all p (drop (offset s) (src s))"
  shows "offset (consumeWhile p s) = length (src s)"
proof -
  have le: "offset (consumeWhile p s) \<le> length (src s)"
    using assms(1) by (induction p s rule: consumeWhile.induct)
      (auto simp: consumeWhile.simps offset_advance atEnd_def)
  have "p (peek (consumeWhile p s))" if "\<not> atEnd (consumeWhile p s)"
    using that assms(2) offset_consumeWhile_ge [of s p]
    by (auto simp: list_all_length peek_nth atEnd_def dest: spec [of _ "offset (consumeWhile p s) - offset s"])
  then have "atEnd (consumeWhile p s)" using consumeWhile_stops [of p s] by blast
  with le show ?thesis by (simp add: atEnd_def)
qed

lemma consumeWhile_frame [simp]:
  "toks (consumeWhile p s) = toks s" "diags (consumeWhile p s) = diags s"
  by (induction p s rule: consumeWhile.induct) (auto simp: consumeWhile.simps)

lemma nameStart_dispatch: "isNameStart c \<Longrightarrow> \<not> isSpace c \<and> c \<noteq> CHR ''-''"
  by (auto simp: isNameStart_def isSpace_def)

lemma scanOne_name:
  assumes "w \<noteq> []" "isNameStart (hd w)" "list_all isNameCont w"
  shows "scanOne (newScanner w) = emit KName (pos (newScanner w)) (consumeWhile isNameCont (newScanner w))"
    and "offset (scanOne (newScanner w)) = length w"
proof -
  have "peek (newScanner w) = hd w" using assms(1) by (simp add: peek_def newScanner_def atEnd_def hd_conv_nth)
  then show s: "scanOne (newScanner w) = emit KName (pos (newScanner w)) (consumeWhile isNameCont (newScanner w))"
    using assms nameStart_dispatch by (simp add: scanOne_def Let_def scanName_def)
  show "offset (scanOne (newScanner w)) = length w"
    unfolding s using consumeWhile_all [of "newScanner w" isNameCont] assms(3) by (simp add: newScanner_def)
qed

lemma lex_name:
  assumes "w \<noteq> []" "isNameStart (hd w)" "list_all isNameCont w"
  shows "map (\<lambda>k. (Kind k, Text k)) (fst (Tokenize w)) = [(KName, w), (KEOF, [])] \<and> snd (Tokenize w) = []"
proof -
  let ?s = "scanOne (newScanner w)"
  note s = scanOne_name [OF assms]
  have "src ?s = w" unfolding s(1) by (simp add: newScanner_def)
  then have e: "atEnd ?s" using s(2) by (simp add: atEnd_def)
  have "\<not> atEnd (newScanner w)" using assms(1) by (simp add: atEnd_def newScanner_def)
  then have r: "run (newScanner w) = ?s\<lparr>toks := toks ?s @ [\<lparr>Kind = KEOF, Text = [], Start = pos ?s, End = pos ?s\<rparr>]\<rparr>"
    using e by (simp add: run.simps [of "newScanner w"] run.simps [of ?s])
  have o: "offset (consumeWhile isNameCont (newScanner w)) = length w" using s(2) unfolding s(1) by simp
  show ?thesis
    unfolding Tokenize_def Let_def r s(1)
    using o by (simp add: emit_def newScanner_def slice_def)
qed

section \<open>Properties\<close>

text \<open>C9: the texts of the tokens, joined, are the source, byte for byte.\<close>

theorem Tokenize_lossless: "concat (map Text (fst (Tokenize t))) = t"
  using Tokenize_struct [of t] by (metis append_Nil2 concat.simps(1) concat.simps(2) concat_append
      eof_token_def list.simps(8) list.simps(9) map_append token.select_convs(2))

text \<open>The scanner never reads past the end of the source.\<close>

theorem Tokenize_no_panic: "\<not> panicked (run (newScanner t))"
  using run_lexed [OF lexed_newScanner, of t] by blast

text \<open>The stream is a list of tokens, each with the line, column and offset of its text and
  a text of the shape of its kind, followed by one end-of-file token.\<close>

theorem Tokenize_stream: "\<exists>ks. fst (Tokenize t) = ks @ [eof_token t] \<and> tokens_from [] ks"
  using Tokenize_struct by metis

text \<open>When scanning ends, no open hole has a negative brace depth, and the holes still open
  are the interpolation starts without an interpolation end.\<close>

theorem interp_stack_balanced:
  "list_all (\<lambda>d. 0 \<le> d) (interp (run (newScanner t))) \<and>
   kind_count KInterpStart (fst (Tokenize t)) =
     kind_count KInterpEnd (fst (Tokenize t)) + length (interp (run (newScanner t)))"
  using stack_ok_run [OF stack_ok_new, of t] by (simp add: stack_ok_def depths_ok_def Tokenize_def Let_def)

text \<open>Every token of kind \<open>Invalid\<close> has a diagnostic at its position.\<close>

theorem invalid_reported:
  "k \<in> set (fst (Tokenize t)) \<Longrightarrow> Kind k = KInvalid \<Longrightarrow> Start k \<in> Pos ` set (snd (Tokenize t))"
  using stack_ok_run [OF stack_ok_new, of t] by (simp add: stack_ok_def Tokenize_def Let_def)

theorem invalid_reported_witness:
  "\<lparr>Offset = 0, Line = 1, Col = 1\<rparr> \<in> Pos ` set (snd (Tokenize ''$''))"
proof -
  have "\<lparr>Kind = KInvalid, Text = ''$'', Start = \<lparr>Offset = 0, Line = 1, Col = 1\<rparr>,
      End = \<lparr>Offset = 1, Line = 1, Col = 2\<rparr>\<rparr> \<in> set (fst (Tokenize ''$''))" by code_simp
  from invalid_reported [OF this] show ?thesis by simp
qed

text \<open>A name is one token: scanning it alone yields a \<open>Name\<close> token with its text, the
  end-of-file token and no diagnostic.\<close>

theorem Tokenize_name:
  assumes "w \<noteq> []" "isNameStart (hd w)" "list_all isNameCont w"
  shows "map (\<lambda>k. (Kind k, Text k)) (fst (Tokenize w)) = [(KName, w), (KEOF, [])] \<and> snd (Tokenize w) = []"
  by (rule lex_name [OF assms])

theorem Tokenize_name_witness:
  "map (\<lambda>k. (Kind k, Text k)) (fst (Tokenize ''local_2'')) = [(KName, ''local_2''), (KEOF, [])] \<and>
   snd (Tokenize ''local_2'') = []"
  by (rule Tokenize_name) code_simp+

end
