(* ===== verification/Cst_Nodes.thy ===== *)
theory Cst_Nodes
  imports Luau_Lex
begin

text \<open>
  The lossless syntax tree of \<open>src/internal/luau/cst\<close>: trivia attachment (\<open>trivia.go\<close>),
  the node structs and their source-order visitors (\<open>nodes.go\<close>, \<open>stmtnodes.go\<close>,
  \<open>types.go\<close>) and the two generic walks \<open>EachToken\<close> and \<open>Unparse\<close> (\<open>node.go\<close>).
  A Go struct that holds child nodes without being a node itself is a datatype over the
  node type, a pointer that may be nil is an option, and two fields that are set together
  (such as a colon and the type after it) are an optional pair.
\<close>

section \<open>Trivia (\<open>trivia.go\<close>)\<close>

record trivia =
  TKind :: kind
  TText :: string
  TStart :: pos

record tokenref =
  Leading :: "trivia list"
  Token :: token
  Trailing :: "trivia list"

definition ref_text :: "tokenref \<Rightarrow> string" where
  "ref_text r = concat (map TText (Leading r)) @ Text (Token r) @ concat (map TText (Trailing r))"

definition isTrivia :: "kind \<Rightarrow> bool" where
  "isTrivia k \<longleftrightarrow> k = KWhitespace \<or> k = KComment"

definition triviaOf :: "token \<Rightarrow> trivia" where
  "triviaOf t = \<lparr>TKind = Kind t, TText = Text t, TStart = Start t\<rparr>"

definition hasNewline :: "string \<Rightarrow> bool" where
  "hasNewline s \<longleftrightarrow> LF \<in> set s"

text \<open>The trivia that stays behind a token: up to the first whitespace with a newline.\<close>

definition staysBehind :: "token \<Rightarrow> bool" where
  "staysBehind t \<longleftrightarrow> isTrivia (Kind t) \<and> \<not> (Kind t = KWhitespace \<and> hasNewline (Text t))"

text \<open>
  \<open>attachTrivia\<close>. Go indexes past the end of the slice when the stream ends in trivia;
  that panic is \<open>None\<close>.
\<close>

function attachTrivia :: "token list \<Rightarrow> tokenref list option" where
  "attachTrivia ts =
     (if ts = [] then Some []
      else (let leading = map triviaOf (takeWhile (\<lambda>t. isTrivia (Kind t)) ts);
                rest = dropWhile (\<lambda>t. isTrivia (Kind t)) ts in
            case rest of
              [] \<Rightarrow> None
            | sg # after \<Rightarrow>
                (let ref = \<lparr>Leading = leading, Token = sg,
                            Trailing = map triviaOf (takeWhile staysBehind after)\<rparr> in
                 if Kind sg = KEOF then Some [ref]
                 else map_option ((#) ref) (attachTrivia (dropWhile staysBehind after)))))"
  by pat_completeness auto
termination
proof (relation "measure length", goal_cases)
  case (2 ts leading rest sg after ref)
  have "length (dropWhile staysBehind after) \<le> length after" by (rule length_dropWhile_le)
  also have "\<dots> < length (sg # after)" by simp
  also have "\<dots> = length rest" using 2 by (simp only:)
  also have "\<dots> \<le> length ts" using 2 length_dropWhile_le by simp
  finally show ?case by simp
qed simp

declare attachTrivia.simps [simp del]

definition AttachTrivia :: "string \<Rightarrow> tokenref list option" where
  "AttachTrivia t = attachTrivia (fst (Tokenize t))"

definition Flatten :: "tokenref list \<Rightarrow> string" where
  "Flatten refs = concat (map (\<lambda>r. concat (map TText (Leading r)) @ Text (Token r) @
                                   concat (map TText (Trailing r))) refs)"

subsection \<open>Trivia attachment loses nothing\<close>

definition one_EOF :: "token list \<Rightarrow> bool" where
  "one_EOF ts \<longleftrightarrow> (\<exists>ks e. ts = ks @ [e] \<and> Kind e = KEOF \<and> (\<forall>k \<in> set ks. Kind k \<noteq> KEOF))"

lemma one_EOF_dropWhile:
  assumes "one_EOF ts" "\<And>e. Kind e = KEOF \<Longrightarrow> \<not> P e"
  shows "one_EOF (dropWhile P ts)"
  using assms(1)
proof (induction ts)
  case (Cons t ts)
  then show ?case
  proof (cases "P t")
    case True
    then have "one_EOF ts" using Cons.prems assms(2) by (auto simp: one_EOF_def Cons_eq_append_conv)
    with Cons True show ?thesis by simp
  qed simp
qed simp

lemma one_EOF_Cons: "one_EOF (t # ts) \<longleftrightarrow> (if Kind t = KEOF then ts = [] else one_EOF ts)"
proof (cases "ts = []")
  case False
  then show ?thesis by (auto simp: one_EOF_def Cons_eq_append_conv)
qed (auto simp: one_EOF_def)

lemma triviaOf_text: "concat (map TText (map triviaOf ts)) = concat (map Text ts)"
  by (induction ts) (auto simp: triviaOf_def)

lemma attachTrivia_one_EOF:
  "one_EOF ts \<Longrightarrow> \<exists>rs. attachTrivia ts = Some rs \<and> map Token rs = filter (\<lambda>t. \<not> isTrivia (Kind t)) ts \<and>
     concat (map ref_text rs) = concat (map Text ts)"
proof (induction ts rule: attachTrivia.induct)
  case (1 ts)
  define P :: "token \<Rightarrow> bool" where "P = (\<lambda>t. isTrivia (Kind t))"
  have eofP: "Kind e = KEOF \<Longrightarrow> \<not> P e" "Kind e = KEOF \<Longrightarrow> \<not> staysBehind e" for e :: token
    by (auto simp: P_def isTrivia_def staysBehind_def)
  then have d: "one_EOF (dropWhile P ts)" using one_EOF_dropWhile [OF 1(2)] by blast
  then obtain sg after where sg: "dropWhile P ts = sg # after" by (cases "dropWhile P ts") (auto simp: one_EOF_def)
  have ts: "ts \<noteq> []" and nP: "\<not> P sg" using sg hd_dropWhile [of P ts] by auto
  define ref where "ref = \<lparr>Leading = map triviaOf (takeWhile P ts), Token = sg,
      Trailing = map triviaOf (takeWhile staysBehind after)\<rparr>"
  let ?rest = "dropWhile staysBehind after"
  have step: "attachTrivia ts = (if Kind sg = KEOF then Some [ref] else map_option ((#) ref) (attachTrivia ?rest))"
    using ts sg by (subst attachTrivia.simps) (simp add: ref_def P_def Let_def)
  have tx: "ref_text ref @ concat (map Text ?rest) = concat (map Text ts)"
    using concat_takeWhile_dropWhile [of Text P ts] concat_takeWhile_dropWhile [of Text staysBehind after] sg
    by (simp add: ref_text_def ref_def triviaOf_text del: map_map)
  have fl: "filter (\<lambda>t. \<not> P t) ts = sg # filter (\<lambda>t. \<not> P t) ?rest"
    using filter_dropWhile [of P "\<lambda>t. \<not> P t" ts] filter_dropWhile [of staysBehind "\<lambda>t. \<not> P t" after] sg nP
    by (simp add: staysBehind_def P_def)
  show ?case
  proof (cases "Kind sg = KEOF")
    case True
    with d sg have "after = []" by (simp add: one_EOF_Cons)
    with True step tx fl show ?thesis by (simp add: P_def ref_def)
  next
    case False
    then have "one_EOF ?rest" using d sg one_EOF_dropWhile eofP(2) by (simp add: one_EOF_Cons)
    with 1(1) [OF ts refl refl, of sg after, OF _ refl False] sg
    obtain rs where "attachTrivia ?rest = Some rs" "map Token rs = filter (\<lambda>t. \<not> P t) ?rest"
      "concat (map ref_text rs) = concat (map Text ?rest)" by (auto simp: P_def)
    with False step tx fl show ?thesis by (simp add: P_def ref_def)
  qed
qed

text \<open>
  What trivia attachment needs of a tokenizer: exactly one end-of-file token, at the end, and
  token texts that spell the source.
\<close>

lemma Flatten_ref_text: "Flatten rs = concat (map ref_text rs)"
  by (simp add: Flatten_def ref_text_def [abs_def])

locale lossless_tokenizer =
  fixes tokenize :: "string \<Rightarrow> token list"
  assumes one_eof: "one_EOF (tokenize t)"
    and lossless: "concat (map Text (tokenize t)) = t"
begin

lemma attach_total:
  obtains rs where "attachTrivia (tokenize t) = Some rs" "Flatten rs = t"
    "map Token rs = filter (\<lambda>k. \<not> isTrivia (Kind k)) (tokenize t)"
proof -
  obtain rs where "attachTrivia (tokenize t) = Some rs"
    "map Token rs = filter (\<lambda>k. \<not> isTrivia (Kind k)) (tokenize t)"
    "concat (map ref_text rs) = concat (map Text (tokenize t))"
    using attachTrivia_one_EOF [OF one_eof, of t] by blast
  then show thesis using that [of rs] lossless [of t] by (simp add: Flatten_ref_text)
qed

lemma attach_eof:
  assumes "attachTrivia (tokenize t) = Some rs"
  shows "one_EOF (map Token rs)"
proof -
  have "map Token rs = filter (\<lambda>k. \<not> isTrivia (Kind k)) (tokenize t)"
    using attach_total [of t] assms by (metis option.inject)
  then show ?thesis using one_eof [of t] by (auto simp: one_EOF_def isTrivia_def)
qed

end

interpretation lx: lossless_tokenizer "\<lambda>t. fst (Tokenize t)"
proof
  fix t
  obtain ks where "fst (Tokenize t) = ks @ [eof_token t]" "tokens_from [] ks" "concat (map Text ks) = t"
    by (rule Tokenize_struct)
  moreover from this have "\<forall>k \<in> set ks. Kind k \<noteq> KEOF"
    using tokens_from_shape tok_shape_not_EOF by blast
  ultimately show "one_EOF (fst (Tokenize t))" "concat (map Text (fst (Tokenize t))) = t"
    by (auto simp: one_EOF_def eof_token_def)
qed

section \<open>Node structs\<close>

datatype 'n ExprList = ExprList (Items: "'n list") (Seps: "tokenref list")

datatype Attrib = Attrib (ALt: tokenref) (AName: tokenref) (AGt: tokenref)

datatype 'n Binding =
  Binding (BName: tokenref) (BAttr: "Attrib option") (BType: "(tokenref \<times> 'n) option")

datatype 'n Param =
  VarargParam tokenref "(tokenref \<times> 'n) option" | NameParam tokenref "(tokenref \<times> 'n) option"

datatype dotName = DotName (DDot: tokenref) (DName: tokenref)

datatype 'n GenericParam =
  GenericParam (GName: tokenref) (GPack: "tokenref option") (GDefault: "(tokenref \<times> 'n) option")

datatype 'n GenericParams =
  GenericParams (GLt: tokenref) (GParams: "'n GenericParam list") (GSeps: "tokenref list") (GGt: tokenref)

datatype 'n FuncBody =
  FuncBody (FGenerics: "'n GenericParams option") (FLParen: tokenref) (FParams: "'n Param list")
    (FParamSeps: "tokenref list") (FRParen: tokenref) (FRetType: "(tokenref \<times> 'n) option")
    (FBody: 'n) (FEnd: tokenref)

datatype FuncName =
  FuncName (NBase: tokenref) (NDots: "dotName list") (NMethod: "(tokenref \<times> tokenref) option")

text \<open>A clause \<open>elseif cond then body\<close>, of an if expression or of an if statement.\<close>

datatype 'n Clause = Clause tokenref 'n tokenref 'n

datatype 'n TableField =
    KeyedField tokenref 'n tokenref tokenref 'n "tokenref option"
  | NamedField tokenref tokenref 'n "tokenref option"
  | PosField 'n "tokenref option"

datatype 'n TypeArgs = TypeArgs (TLt: tokenref) (TItems: "'n list") (TSeps: "tokenref list") (TGt: tokenref)

datatype 'n TypeParam =
    VarargType tokenref "'n option"
  | NamedType tokenref tokenref 'n
  | PlainType 'n

datatype (plugins only: code) node =
    Nil_n tokenref | True_n tokenref | False_n tokenref | Vararg tokenref | Number tokenref
  | String_n tokenref | Name tokenref
  | InterpSimple tokenref
  | InterpString tokenref "(node \<times> tokenref) list"
  | Paren tokenref node tokenref
  | Index node tokenref tokenref
  | IndexExpr node tokenref node tokenref
  | Call node node
  | MethodCall node tokenref tokenref node
  | ParenArgs tokenref "node ExprList" tokenref
  | Unary tokenref node
  | Binary node tokenref node
  | IfExpr tokenref node tokenref node "node Clause list" tokenref node
  | Table tokenref "node TableField list" tokenref
  | FuncExpr tokenref "node FuncBody"
  | Block "node list"
  | SemiStmt tokenref
  | ErrorStmt tokenref
  | LocalStmt tokenref "node Binding list" "tokenref list" "(tokenref \<times> node ExprList) option"
  | LocalFuncStmt tokenref tokenref tokenref "node FuncBody"
  | AssignStmt "node ExprList" tokenref "node ExprList"
  | CallStmt node
  | DoStmt tokenref node tokenref
  | WhileStmt tokenref node tokenref node tokenref
  | RepeatStmt tokenref node tokenref node
  | NumericForStmt tokenref "node Binding" tokenref node tokenref node
      "(tokenref \<times> node) option" tokenref node tokenref
  | GenericForStmt tokenref "node Binding list" "tokenref list" tokenref "node ExprList"
      tokenref node tokenref
  | IfStmt tokenref node tokenref node "node Clause list" "(tokenref \<times> node) option" tokenref
  | FuncStmt tokenref FuncName "node FuncBody"
  | ReturnStmt tokenref "node ExprList" "tokenref option"
  | BreakStmt tokenref "tokenref option"
  | ContinueStmt tokenref "tokenref option"
  | TypeAliasStmt "tokenref option" tokenref tokenref "node GenericParams option" tokenref node
  | TypeAssert node tokenref node
  | TypeName tokenref "dotName list" "node TypeArgs option" "tokenref option"
  | SingletonType tokenref
  | TypeOptional node tokenref
  | TypeBinary node tokenref node
  | TypeLead tokenref node
  | VariadicType tokenref "node option"
  | TypeofType tokenref tokenref node tokenref
  | FunctionType "node GenericParams option" tokenref "node TypeParam list" "tokenref list" tokenref
      "(tokenref \<times> node) option"
  | TableType tokenref "node TableField list" tokenref

section \<open>The source-order visitors \<open>tokens\<close> and \<open>emit\<close>\<close>

text \<open>What a visitor hands to its callback: a token of the node itself, or a child node.\<close>

datatype 'n yield = YRef tokenref | YChild 'n

text \<open>The loops \<open>for i := range xs { emit(xs[i]); if i < len(seps) { y(&seps[i], nil) } }\<close>.\<close>

fun emit_seps :: "('a \<Rightarrow> 'n yield list) \<Rightarrow> 'a list \<Rightarrow> tokenref list \<Rightarrow> 'n yield list" where
  "emit_seps f [] seps = []"
| "emit_seps f (x # xs) [] = f x @ emit_seps f xs []"
| "emit_seps f (x # xs) (s # seps) = f x @ YRef s # emit_seps f xs seps"

fun emit_opt :: "tokenref option \<Rightarrow> 'n yield list" where
  "emit_opt None = []"
| "emit_opt (Some r) = [YRef r]"

fun emit_pair :: "(tokenref \<times> 'n) option \<Rightarrow> 'n yield list" where
  "emit_pair None = []"
| "emit_pair (Some (r, n)) = [YRef r, YChild n]"

fun tokens_ExprList :: "'n ExprList \<Rightarrow> 'n yield list" where
  "tokens_ExprList (ExprList items seps) = emit_seps (\<lambda>n. [YChild n]) items seps"

fun emit_Attrib :: "Attrib option \<Rightarrow> 'n yield list" where
  "emit_Attrib None = []"
| "emit_Attrib (Some (Attrib lt nm gt)) = [YRef lt, YRef nm, YRef gt]"

fun emit_Binding :: "'n Binding \<Rightarrow> 'n yield list" where
  "emit_Binding (Binding nm attr ty) = YRef nm # emit_Attrib attr @ emit_pair ty"

fun emit_Param :: "'n Param \<Rightarrow> 'n yield list" where
  "emit_Param (VarargParam v ty) = YRef v # emit_pair ty"
| "emit_Param (NameParam nm ty) = YRef nm # emit_pair ty"

fun emit_dotName :: "dotName \<Rightarrow> 'n yield list" where
  "emit_dotName (DotName d nm) = [YRef d, YRef nm]"

fun emit_GenericParam :: "'n GenericParam \<Rightarrow> 'n yield list" where
  "emit_GenericParam (GenericParam nm pack dflt) = YRef nm # emit_opt pack @ emit_pair dflt"

fun emit_GenericParams :: "'n GenericParams option \<Rightarrow> 'n yield list" where
  "emit_GenericParams None = []"
| "emit_GenericParams (Some (GenericParams lt ps seps gt)) =
     YRef lt # emit_seps emit_GenericParam ps seps @ [YRef gt]"

fun emit_FuncBody :: "'n FuncBody \<Rightarrow> 'n yield list" where
  "emit_FuncBody (FuncBody generics lparen params seps rparen ret body en) =
     emit_GenericParams generics @ YRef lparen # emit_seps emit_Param params seps @
     YRef rparen # emit_pair ret @ [YChild body, YRef en]"

fun emit_FuncName :: "FuncName \<Rightarrow> 'n yield list" where
  "emit_FuncName (FuncName base dots method) =
     YRef base # concat (map emit_dotName dots) @
     (case method of None \<Rightarrow> [] | Some (c, m) \<Rightarrow> [YRef c, YRef m])"

fun emit_Clause :: "'n Clause \<Rightarrow> 'n yield list" where
  "emit_Clause (Clause e c t v) = [YRef e, YChild c, YRef t, YChild v]"

fun tokens_TableField :: "'n TableField \<Rightarrow> 'n yield list" where
  "tokens_TableField (KeyedField lb key rb eq v sep) =
     [YRef lb, YChild key, YRef rb, YRef eq, YChild v] @ emit_opt sep"
| "tokens_TableField (NamedField nm eq v sep) = [YRef nm, YRef eq, YChild v] @ emit_opt sep"
| "tokens_TableField (PosField v sep) = YChild v # emit_opt sep"

fun emit_TypeArgs :: "'n TypeArgs option \<Rightarrow> 'n yield list" where
  "emit_TypeArgs None = []"
| "emit_TypeArgs (Some (TypeArgs lt items seps gt)) =
     YRef lt # emit_seps (\<lambda>n. [YChild n]) items seps @ [YRef gt]"

fun emit_child_opt :: "'n option \<Rightarrow> 'n yield list" where
  "emit_child_opt None = []"
| "emit_child_opt (Some n) = [YChild n]"

fun emit_TypeParam :: "'n TypeParam \<Rightarrow> 'n yield list" where
  "emit_TypeParam (VarargType v ty) = YRef v # emit_child_opt ty"
| "emit_TypeParam (NamedType nm colon ty) = [YRef nm, YRef colon, YChild ty]"
| "emit_TypeParam (PlainType ty) = [YChild ty]"

text \<open>The method \<open>tokens\<close> of every node type.\<close>

fun tokens :: "node \<Rightarrow> node yield list" where
  "tokens (Nil_n t) = [YRef t]"
| "tokens (True_n t) = [YRef t]"
| "tokens (False_n t) = [YRef t]"
| "tokens (Vararg t) = [YRef t]"
| "tokens (Number t) = [YRef t]"
| "tokens (String_n t) = [YRef t]"
| "tokens (Name t) = [YRef t]"
| "tokens (InterpSimple t) = [YRef t]"
| "tokens (InterpString st holes) =
     YRef st # concat (map (\<lambda>(e, m). [YChild e, YRef m]) holes)"
| "tokens (Paren op inner cl) = [YRef op, YChild inner, YRef cl]"
| "tokens (Index base dot nm) = [YChild base, YRef dot, YRef nm]"
| "tokens (IndexExpr base op key cl) = [YChild base, YRef op, YChild key, YRef cl]"
| "tokens (Call base args) = [YChild base, YChild args]"
| "tokens (MethodCall base colon nm args) = [YChild base, YRef colon, YRef nm, YChild args]"
| "tokens (ParenArgs op lst cl) = YRef op # tokens_ExprList lst @ [YRef cl]"
| "tokens (Unary op e) = [YRef op, YChild e]"
| "tokens (Binary l op r) = [YChild l, YRef op, YChild r]"
| "tokens (IfExpr i c t v clauses el ev) =
     [YRef i, YChild c, YRef t, YChild v] @ concat (map emit_Clause clauses) @ [YRef el, YChild ev]"
| "tokens (Table op flds cl) = YRef op # concat (map tokens_TableField flds) @ [YRef cl]"
| "tokens (FuncExpr f body) = YRef f # emit_FuncBody body"
| "tokens (Block stmts) = map YChild stmts"
| "tokens (SemiStmt t) = [YRef t]"
| "tokens (ErrorStmt t) = [YRef t]"
| "tokens (LocalStmt l names seps vals) =
     YRef l # emit_seps emit_Binding names seps @
     (case vals of None \<Rightarrow> [] | Some (eq, es) \<Rightarrow> YRef eq # tokens_ExprList es)"
| "tokens (LocalFuncStmt l f nm body) = [YRef l, YRef f, YRef nm] @ emit_FuncBody body"
| "tokens (AssignStmt targets op vals) = tokens_ExprList targets @ YRef op # tokens_ExprList vals"
| "tokens (CallStmt c) = [YChild c]"
| "tokens (DoStmt d body en) = [YRef d, YChild body, YRef en]"
| "tokens (WhileStmt w c d body en) = [YRef w, YChild c, YRef d, YChild body, YRef en]"
| "tokens (RepeatStmt r body u c) = [YRef r, YChild body, YRef u, YChild c]"
| "tokens (NumericForStmt f v eq st c1 lim stp d body en) =
     YRef f # emit_Binding v @ [YRef eq, YChild st, YRef c1, YChild lim] @ emit_pair stp @
     [YRef d, YChild body, YRef en]"
| "tokens (GenericForStmt f names seps i es d body en) =
     YRef f # emit_seps emit_Binding names seps @ YRef i # tokens_ExprList es @
     [YRef d, YChild body, YRef en]"
| "tokens (IfStmt i c t body clauses el en) =
     [YRef i, YChild c, YRef t, YChild body] @ concat (map emit_Clause clauses) @
     emit_pair el @ [YRef en]"
| "tokens (FuncStmt f nm body) = YRef f # emit_FuncName nm @ emit_FuncBody body"
| "tokens (ReturnStmt r vals semi) = YRef r # tokens_ExprList vals @ emit_opt semi"
| "tokens (BreakStmt b semi) = YRef b # emit_opt semi"
| "tokens (ContinueStmt c semi) = YRef c # emit_opt semi"
| "tokens (TypeAliasStmt ex t nm generics eq v) =
     emit_opt ex @ [YRef t, YRef nm] @ emit_GenericParams generics @ [YRef eq, YChild v]"
| "tokens (TypeAssert e op ty) = [YChild e, YRef op, YChild ty]"
| "tokens (TypeName base dots args pack) =
     YRef base # concat (map emit_dotName dots) @ emit_TypeArgs args @ emit_opt pack"
| "tokens (SingletonType t) = [YRef t]"
| "tokens (TypeOptional ty q) = [YChild ty, YRef q]"
| "tokens (TypeBinary l op r) = [YChild l, YRef op, YChild r]"
| "tokens (TypeLead op ty) = [YRef op, YChild ty]"
| "tokens (VariadicType dots ty) = YRef dots # emit_child_opt ty"
| "tokens (TypeofType t lp e rp) = [YRef t, YRef lp, YChild e, YRef rp]"
| "tokens (FunctionType generics lp params seps rp arrow) =
     emit_GenericParams generics @ YRef lp # emit_seps emit_TypeParam params seps @
     YRef rp # emit_pair arrow"
| "tokens (TableType op flds cl) = YRef op # concat (map tokens_TableField flds) @ [YRef cl]"

text \<open>The top-level node \<open>File\<close>: a block and the end-of-file token.\<close>

record cst_file =
  Body :: node
  EOFTok :: tokenref

definition tokens_File :: "cst_file \<Rightarrow> node yield list" where
  "tokens_File f = [YChild (Body f), YRef (EOFTok f)]"

section \<open>Children are smaller\<close>

text \<open>
  The walks recurse through the children a visitor yields; the child relation is
  well-founded because every yielded child is a component of the node.
\<close>

definition child :: "(node \<times> node) set" where
  "child = {(m, n). YChild m \<in> set (tokens n)}"

lemma emit_seps_children:
  "YChild m \<in> set (emit_seps f xs seps) \<Longrightarrow> \<exists>x \<in> set xs. YChild m \<in> set (f x)"
  by (induction f xs seps rule: emit_seps.induct) auto

lemma emit_opt_children [simp]: "YChild m \<notin> set (emit_opt r)"
  by (cases r) auto

lemma emit_Attrib_children [simp]: "YChild m \<notin> set (emit_Attrib r)"
  by (cases r rule: emit_Attrib.cases) auto

lemma emit_dotName_children [simp]: "YChild m \<notin> set (emit_dotName d)"
  by (cases d) auto

lemma emit_FuncName_children [simp]: "YChild m \<notin> set (emit_FuncName f)"
  by (cases f) (auto split: option.splits)

lemma emit_pair_children: "YChild m \<in> set (emit_pair p) \<Longrightarrow> \<exists>r. p = Some (r, m)"
  by (induction p rule: emit_pair.induct) auto

lemma emit_child_opt_children: "YChild m \<in> set (emit_child_opt p) \<Longrightarrow> p = Some m"
  by (cases p) auto

lemma tokens_ExprList_children: "YChild m \<in> set (tokens_ExprList l) \<Longrightarrow> m \<in> set_ExprList l"
  by (cases l) (auto dest: emit_seps_children)

lemma emit_Binding_children: "YChild m \<in> set (emit_Binding b) \<Longrightarrow> m \<in> set_Binding b"
  by (cases b) (auto dest: emit_pair_children)

lemma emit_Param_children: "YChild m \<in> set (emit_Param b) \<Longrightarrow> m \<in> set_Param b"
  by (cases b) (auto dest: emit_pair_children)

lemma emit_GenericParam_children: "YChild m \<in> set (emit_GenericParam b) \<Longrightarrow> m \<in> set_GenericParam b"
  by (cases b) (auto dest: emit_pair_children)

lemma emit_GenericParams_children:
  "YChild m \<in> set (emit_GenericParams b) \<Longrightarrow> \<exists>g. b = Some g \<and> m \<in> set_GenericParams g"
  by (cases b rule: emit_GenericParams.cases)
    (auto dest!: emit_seps_children emit_GenericParam_children)

lemma emit_FuncBody_children: "YChild m \<in> set (emit_FuncBody b) \<Longrightarrow> m \<in> set_FuncBody b"
  by (cases b) (auto dest!: emit_seps_children emit_Param_children emit_GenericParams_children
      emit_pair_children)

lemma emit_Clause_children: "YChild m \<in> set (emit_Clause b) \<Longrightarrow> m \<in> set_Clause b"
  by (cases b) auto

lemma tokens_TableField_children: "YChild m \<in> set (tokens_TableField b) \<Longrightarrow> m \<in> set_TableField b"
  by (cases b) auto

lemma emit_TypeArgs_children:
  "YChild m \<in> set (emit_TypeArgs b) \<Longrightarrow> \<exists>g. b = Some g \<and> m \<in> set_TypeArgs g"
  by (cases b rule: emit_TypeArgs.cases) (auto dest!: emit_seps_children)

lemma emit_TypeParam_children: "YChild m \<in> set (emit_TypeParam b) \<Longrightarrow> m \<in> set_TypeParam b"
  by (cases b) (auto dest: emit_child_opt_children)

lemmas yield_children =
  emit_seps_children emit_pair_children emit_child_opt_children tokens_ExprList_children
  emit_Binding_children emit_Param_children emit_GenericParams_children emit_FuncBody_children
  emit_Clause_children tokens_TableField_children emit_TypeArgs_children emit_TypeParam_children

lemma child_acc: "n \<in> Wellfounded.acc child"
proof (induction n)
qed (rule accI; force simp: child_def dest!: yield_children split: option.splits)+

lemma wf_child: "wf child"
  by (rule acc_wfI) (simp add: child_acc)

section \<open>The walks of \<open>node.go\<close>\<close>

text \<open>\<open>EachToken\<close>: the token references beneath a node, in the order they are visited.\<close>

function EachToken :: "node \<Rightarrow> tokenref list" where
  "EachToken n =
     concat (map (\<lambda>y. case y of YRef r \<Rightarrow> [r] | YChild m \<Rightarrow> EachToken m) (tokens n))"
  by pat_completeness auto
termination
  by (relation child) (rule wf_child, simp add: child_def)

declare EachToken.simps [simp del]

text \<open>\<open>Unparse\<close>: the text of the same walk.\<close>

function Unparse :: "node \<Rightarrow> string" where
  "Unparse n =
     concat (map (\<lambda>y. case y of YRef r \<Rightarrow> ref_text r | YChild m \<Rightarrow> Unparse m) (tokens n))"
  by pat_completeness auto
termination
  by (relation child) (rule wf_child, simp add: child_def)

declare Unparse.simps [simp del]

definition yields_refs :: "node yield list \<Rightarrow> tokenref list" where
  "yields_refs ys = concat (map (\<lambda>y. case y of YRef r \<Rightarrow> [r] | YChild m \<Rightarrow> EachToken m) ys)"

lemma yields_refs_simps [simp]:
  "yields_refs [] = []"
  "yields_refs (YRef r # ys) = r # yields_refs ys"
  "yields_refs (YChild n # ys) = EachToken n @ yields_refs ys"
  "yields_refs (ys @ zs) = yields_refs ys @ yields_refs zs"
  by (simp_all add: yields_refs_def)

lemma EachToken_eq: "EachToken n = yields_refs (tokens n)"
  by (subst EachToken.simps) (simp add: yields_refs_def)

definition File_refs :: "cst_file \<Rightarrow> tokenref list" where
  "File_refs f = yields_refs (tokens_File f)"

definition Unparse_File :: "cst_file \<Rightarrow> string" where
  "Unparse_File f = Unparse (Body f) @ ref_text (EOFTok f)"

lemma Unparse_EachToken: "Unparse n = concat (map ref_text (EachToken n))"
proof (induction n rule: Unparse.induct)
  case (1 n)
  have "concat (map (\<lambda>y. case y of YRef r \<Rightarrow> ref_text r | YChild m \<Rightarrow> Unparse m) ys) =
      concat (map ref_text (yields_refs ys))" if "set ys \<subseteq> set (tokens n)" for ys
    using that by (induction ys) (auto simp: 1 split: yield.splits)
  then show ?case by (simp add: Unparse.simps [of n] EachToken_eq)
qed

lemma Unparse_File_refs: "Unparse_File f = concat (map ref_text (File_refs f))"
  by (simp add: Unparse_File_def File_refs_def tokens_File_def Unparse_EachToken)

end
