(* ===== verification/Cst_Parse.thy ===== *)
theory Cst_Parse
  imports Cst_Nodes
begin

text \<open>
  The recursive-descent parser of \<open>src/internal/luau/cst\<close>: the token cursor of
  \<open>cursor.go\<close>, expressions (\<open>expr.go\<close>), types (\<open>types.go\<close>) and statements
  (\<open>parse.go\<close>). Each Go method on the cursor is a function from a cursor to an optional
  result and cursor. The three mutually recursive entry points \<open>parseExpr\<close>,
  \<open>parseType\<close> and \<open>parseBlock\<close> are parameters \<open>pe\<close>, \<open>pt\<close> and \<open>pb\<close> of the methods
  that call them; the recursion is closed at the end, with fuel. \<open>None\<close> means that the fuel
  ran out; \<open>Cst_Parse_Correct\<close> shows that it never does.
\<close>

section \<open>The cursor (\<open>cursor.go\<close>)\<close>

record cursor =
  refs :: "tokenref list"
  cpos :: nat
  cdiags :: "diagnostic list"

type_synonym 'a parser = "cursor \<Rightarrow> ('a \<times> cursor) option"

definition newCursor :: "string \<Rightarrow> cursor option" where
  "newCursor t =
     (case attachTrivia (fst (Tokenize t)) of None \<Rightarrow> None
      | Some rs \<Rightarrow> Some \<lparr>refs = rs, cpos = 0, cdiags = snd (Tokenize t)\<rparr>)"

definition cpeek :: "cursor \<Rightarrow> tokenref" where
  "cpeek c = (if length (refs c) \<le> cpos c then last (refs c) else refs c ! cpos c)"

definition cpeek2 :: "cursor \<Rightarrow> tokenref" where
  "cpeek2 c = (if cpos c + 1 < length (refs c) then refs c ! (cpos c + 1) else last (refs c))"

definition cnext :: "cursor \<Rightarrow> tokenref \<times> cursor" where
  "cnext c = (cpeek c, if cpos c < length (refs c) - 1 then c\<lparr>cpos := cpos c + 1\<rparr> else c)"

definition catEnd :: "cursor \<Rightarrow> bool" where
  "catEnd c \<longleftrightarrow> Kind (Token (cpeek c)) = KEOF"

definition atSymbol :: "string \<Rightarrow> cursor \<Rightarrow> bool" where
  "atSymbol s c \<longleftrightarrow> Kind (Token (cpeek c)) = KSymbol \<and> Text (Token (cpeek c)) = s"

definition atKeyword :: "string \<Rightarrow> cursor \<Rightarrow> bool" where
  "atKeyword kw c \<longleftrightarrow> Kind (Token (cpeek c)) = KName \<and> Text (Token (cpeek c)) = kw"

definition errHere :: "string \<Rightarrow> cursor \<Rightarrow> cursor" where
  "errHere msg c = c\<lparr>cdiags := cdiags c @ [\<lparr>Pos = Start (Token (cpeek c)), Message = msg\<rparr>]\<rparr>"

definition expectSymbol :: "string \<Rightarrow> cursor \<Rightarrow> tokenref \<times> cursor" where
  "expectSymbol s c =
     (if atSymbol s c then cnext c
      else cnext (errHere (''expected '' @ [SQUOTE] @ s @ [SQUOTE]) c))"

definition expectKeyword :: "string \<Rightarrow> cursor \<Rightarrow> tokenref \<times> cursor" where
  "expectKeyword kw c =
     (if atKeyword kw c then cnext c
      else cnext (errHere (''expected '' @ [SQUOTE] @ kw @ [SQUOTE]) c))"

definition expectName :: "cursor \<Rightarrow> tokenref \<times> cursor" where
  "expectName c =
     (if Kind (Token (cpeek c)) = KName then cnext c else cnext (errHere ''expected a name'' c))"

text \<open>The zero value of a \<open>TokenRef\<close>: no text, and the kind whose code is 0.\<close>

definition zeroRef :: tokenref where
  "zeroRef = \<lparr>Leading = [], Token = \<lparr>Kind = KEOF, Text = [],
      Start = \<lparr>Offset = 0, Line = 0, Col = 0\<rparr>, End = \<lparr>Offset = 0, Line = 0, Col = 0\<rparr>\<rparr>, Trailing = []\<rparr>"

text \<open>Enough rounds for any loop that consumes a token per round or per two rounds.\<close>

definition loopFuel :: "cursor \<Rightarrow> nat" where
  "loopFuel c = 2 * length (refs c) + 3"

section \<open>Types (\<open>types.go\<close>)\<close>

text \<open>The loop \<open>for c.atSymbol(".") { dot; name }\<close> of \<open>parseTypeName\<close> and \<open>parseFuncStmt\<close>.\<close>

fun parseDots :: "nat \<Rightarrow> dotName list \<Rightarrow> dotName list parser" where
  "parseDots 0 dots c = None"
| "parseDots (Suc n) dots c =
     (if atSymbol ''.'' c then
        (let (dot, c1) = cnext c; (nm, c2) = expectName c1
         in parseDots n (dots @ [DotName dot nm]) c2)
      else Some (dots, c))"

text \<open>The optional \<open>: Type\<close> after a name, a parameter list or a vararg.\<close>

definition parseAnnot :: "node parser \<Rightarrow> (tokenref \<times> node) option parser" where
  "parseAnnot pt c =
     (if atSymbol '':'' c then
        (let (colon, c1) = cnext c in do { (t, c2) \<leftarrow> pt c1; Some (Some (colon, t), c2) })
      else Some (None, c))"

fun parseGenericLoop ::
  "nat \<Rightarrow> node parser \<Rightarrow> node GenericParam list \<Rightarrow> tokenref list \<Rightarrow>
   (node GenericParam list \<times> tokenref list) parser" where
  "parseGenericLoop 0 pt ps seps c = None"
| "parseGenericLoop (Suc n) pt ps seps c =
     (if \<not> atSymbol ''>'' c \<and> \<not> catEnd c then
        (let (nm, c1) = expectName c;
             (pack, c2) = (if atSymbol ''...'' c1
                           then (let (p, d) = cnext c1 in (Some p, d)) else (None, c1))
         in do {
           (dflt, c3) \<leftarrow>
             (if atSymbol ''='' c2 then
                (let (eq, d) = cnext c2 in do { (t, d1) \<leftarrow> pt d; Some (Some (eq, t), d1) })
              else Some (None, c2));
           (if atSymbol '','' c3 then
              (let (sep, c4) = cnext c3
               in parseGenericLoop n pt (ps @ [GenericParam nm pack dflt]) (seps @ [sep]) c4)
            else Some ((ps @ [GenericParam nm pack dflt], seps), c3))
         })
      else Some ((ps, seps), c))"

definition parseGenericParams :: "node parser \<Rightarrow> node GenericParams parser" where
  "parseGenericParams pt c =
     (let (lt, c1) = expectSymbol ''<'' c in do {
        ((ps, seps), c2) \<leftarrow> parseGenericLoop (loopFuel c1) pt [] [] c1;
        let (gt, c3) = expectSymbol ''>'' c2;
        Some (GenericParams lt ps seps gt, c3)
      })"

fun parseTypeArgsLoop ::
  "nat \<Rightarrow> node parser \<Rightarrow> node list \<Rightarrow> tokenref list \<Rightarrow> (node list \<times> tokenref list) parser" where
  "parseTypeArgsLoop 0 pt items seps c = None"
| "parseTypeArgsLoop (Suc n) pt items seps c =
     (if \<not> atSymbol ''>'' c \<and> \<not> catEnd c then do {
        (t, c1) \<leftarrow> pt c;
        (if atSymbol '','' c1 then
           (let (sep, c2) = cnext c1 in parseTypeArgsLoop n pt (items @ [t]) (seps @ [sep]) c2)
         else Some ((items @ [t], seps), c1))
      }
      else Some ((items, seps), c))"

definition parseTypeArgs :: "node parser \<Rightarrow> node TypeArgs parser" where
  "parseTypeArgs pt c =
     (let (lt, c1) = cnext c in do {
        ((items, seps), c2) \<leftarrow> parseTypeArgsLoop (loopFuel c1) pt [] [] c1;
        let (gt, c3) = expectSymbol ''>'' c2;
        Some (TypeArgs lt items seps gt, c3)
      })"

definition parseTypeName :: "node parser \<Rightarrow> node parser" where
  "parseTypeName pt c =
     (let (base, c1) = cnext c in do {
        (dots, c2) \<leftarrow> parseDots (loopFuel c1) [] c1;
        (args, c3) \<leftarrow> (if atSymbol ''<'' c2
           then do { (a, d) \<leftarrow> parseTypeArgs pt c2; Some (Some a, d) } else Some (None, c2));
        let (pack, c4) = (if atSymbol ''...'' c3
                          then (let (p, d) = cnext c3 in (Some p, d)) else (None, c3));
        Some (TypeName base dots args pack, c4)
      })"

definition peek2Symbol :: "string \<Rightarrow> cursor \<Rightarrow> bool" where
  "peek2Symbol s c \<longleftrightarrow> Kind (Token (cpeek2 c)) = KSymbol \<and> Text (Token (cpeek2 c)) = s"

definition parseTypeParam :: "node parser \<Rightarrow> node TypeParam parser" where
  "parseTypeParam pt c =
     (if atSymbol ''...'' c then
        (let (dots, c1) = cnext c in
         if \<not> atSymbol '')'' c1 \<and> \<not> atSymbol '','' c1 \<and> \<not> catEnd c1
         then do { (t, c2) \<leftarrow> pt c1; Some (VarargType dots (Some t), c2) }
         else Some (VarargType dots None, c1))
      else if Kind (Token (cpeek c)) = KName \<and> peek2Symbol '':'' c then
        (let (nm, c1) = cnext c; (colon, c2) = cnext c1
         in do { (t, c3) \<leftarrow> pt c2; Some (NamedType nm colon t, c3) })
      else do { (t, c1) \<leftarrow> pt c; Some (PlainType t, c1) })"

fun parseTypeParamLoop ::
  "nat \<Rightarrow> node parser \<Rightarrow> node TypeParam list \<Rightarrow> tokenref list \<Rightarrow>
   (node TypeParam list \<times> tokenref list) parser" where
  "parseTypeParamLoop 0 pt ps seps c = None"
| "parseTypeParamLoop (Suc n) pt ps seps c =
     (if atSymbol '','' c then
        (let (sep, c1) = cnext c in do {
           (p, c2) \<leftarrow> parseTypeParam pt c1;
           parseTypeParamLoop n pt (ps @ [p]) (seps @ [sep]) c2
         })
      else Some ((ps, seps), c))"

text \<open>\<open>parseParenType\<close>; the generic parameters, parsed before it, are set by the caller.\<close>

definition parseParenType :: "node GenericParams option \<Rightarrow> node parser \<Rightarrow> node parser" where
  "parseParenType generics pt c =
     (let (open', c1) = cnext c in do {
        ((ps, seps), c2) \<leftarrow> (if \<not> atSymbol '')'' c1 \<and> \<not> catEnd c1
           then do { (p, d) \<leftarrow> parseTypeParam pt c1; parseTypeParamLoop (loopFuel d) pt [p] [] d }
           else Some (([], []), c1));
        let (rparen, c3) = expectSymbol '')'' c2;
        (arrow, c4) \<leftarrow> (if atSymbol ''->'' c3
           then (let (a, d) = cnext c3 in do { (t, d1) \<leftarrow> pt d; Some (Some (a, t), d1) })
           else Some (None, c3));
        Some (FunctionType generics open' ps seps rparen arrow, c4)
      })"

fun setSep :: "tokenref option \<Rightarrow> 'n TableField \<Rightarrow> 'n TableField" where
  "setSep s (KeyedField lb k rb eq v _) = KeyedField lb k rb eq v s"
| "setSep s (NamedField nm eq v _) = NamedField nm eq v s"
| "setSep s (PosField v _) = PosField v s"

text \<open>The field loop of \<open>parseTableType\<close> and \<open>parseTable\<close>, over the field parser.\<close>

fun parseFieldLoop ::
  "nat \<Rightarrow> node TableField parser \<Rightarrow> node TableField list \<Rightarrow> node TableField list parser" where
  "parseFieldLoop 0 pf fs c = None"
| "parseFieldLoop (Suc n) pf fs c =
     (if \<not> atSymbol ''}'' c \<and> \<not> catEnd c then do {
        (f, c1) \<leftarrow> pf c;
        (if atSymbol '','' c1 \<or> atSymbol '';'' c1 then
           (let (sep, c2) = cnext c1 in parseFieldLoop n pf (fs @ [setSep (Some sep) f]) c2)
         else Some (fs @ [f], c1))
      }
      else Some (fs, c))"

definition parseTableTypeField :: "node parser \<Rightarrow> node TableField parser" where
  "parseTableTypeField pt c =
     (if atSymbol ''['' c then
        (let (lb, c1) = cnext c in do {
           (key, c2) \<leftarrow> pt c1;
           let (rb, c3) = expectSymbol '']'' c2;
           let (colon, c4) = expectSymbol '':'' c3;
           (v, c5) \<leftarrow> pt c4;
           Some (KeyedField lb key rb colon v None, c5)
         })
      else if Kind (Token (cpeek c)) = KName \<and> peek2Symbol '':'' c then
        (let (nm, c1) = cnext c; (colon, c2) = cnext c1
         in do { (v, c3) \<leftarrow> pt c2; Some (NamedField nm colon v None, c3) })
      else do { (v, c1) \<leftarrow> pt c; Some (PosField v None, c1) })"

definition parseTableType :: "node parser \<Rightarrow> node parser" where
  "parseTableType pt c =
     (let (open', c1) = expectSymbol ''{'' c in do {
        (fs, c2) \<leftarrow> parseFieldLoop (loopFuel c1) (parseTableTypeField pt) [] c1;
        let (cl, c3) = expectSymbol ''}'' c2;
        Some (TableType open' fs cl, c3)
      })"

definition parseTypeof :: "node parser \<Rightarrow> node parser" where
  "parseTypeof pe c =
     (let (t, c1) = cnext c; (lp, c2) = expectSymbol ''('' c1 in do {
        (e, c3) \<leftarrow> pe c2;
        let (rp, c4) = expectSymbol '')'' c3;
        Some (TypeofType t lp e rp, c4)
      })"

definition parseTypePrimary :: "node parser \<Rightarrow> node parser \<Rightarrow> node parser" where
  "parseTypePrimary pe pt c =
     (if atSymbol ''('' c then parseParenType None pt c
      else if atSymbol ''<'' c then
        do { (g, c1) \<leftarrow> parseGenericParams pt c; parseParenType (Some g) pt c1 }
      else if atSymbol ''{'' c then parseTableType pt c
      else if atSymbol ''...'' c then
        (let (dots, c1) = cnext c in
         if \<not> atSymbol '')'' c1 \<and> \<not> atSymbol '','' c1 \<and> \<not> atSymbol ''>'' c1 \<and> \<not> catEnd c1
         then do { (t, c2) \<leftarrow> pt c1; Some (VariadicType dots (Some t), c2) }
         else Some (VariadicType dots None, c1))
      else if atKeyword ''typeof'' c \<and> peek2Symbol ''('' c then parseTypeof pe c
      else if atKeyword ''nil'' c \<or> atKeyword ''true'' c \<or> atKeyword ''false'' c then
        (let (t, c1) = cnext c in Some (SingletonType t, c1))
      else if Kind (Token (cpeek c)) = KString then
        (let (t, c1) = cnext c in Some (SingletonType t, c1))
      else if Kind (Token (cpeek c)) = KName then parseTypeName pt c
      else (let (t, c1) = cnext (errHere ''expected a type'' c) in Some (SingletonType t, c1)))"

fun typeOptionalLoop :: "nat \<Rightarrow> node \<Rightarrow> node parser" where
  "typeOptionalLoop 0 t c = None"
| "typeOptionalLoop (Suc n) t c =
     (if atSymbol ''?'' c
      then (let (q, c1) = cnext c in typeOptionalLoop n (TypeOptional t q) c1)
      else Some (t, c))"

definition parseTypePostfix :: "node parser \<Rightarrow> node parser \<Rightarrow> node parser" where
  "parseTypePostfix pe pt c =
     do { (t, c1) \<leftarrow> parseTypePrimary pe pt c; typeOptionalLoop (loopFuel c1) t c1 }"

fun typeBinaryLoop :: "nat \<Rightarrow> node parser \<Rightarrow> node \<Rightarrow> node parser" where
  "typeBinaryLoop 0 pp t c = None"
| "typeBinaryLoop (Suc n) pp t c =
     (if atSymbol ''|'' c \<or> atSymbol ''&'' c then
        (let (op, c1) = cnext c in do {
           (rhs, c2) \<leftarrow> pp c1;
           typeBinaryLoop n pp (TypeBinary t op rhs) c2
         })
      else Some (t, c))"

definition parseTypeStep :: "node parser \<Rightarrow> node parser \<Rightarrow> node parser" where
  "parseTypeStep pe pt c =
     do {
       (t, c1) \<leftarrow>
         (if atSymbol ''|'' c \<or> atSymbol ''&'' c then
            (let (op, d) = cnext c in do { (t, d1) \<leftarrow> parseTypePostfix pe pt d; Some (TypeLead op t, d1) })
          else parseTypePostfix pe pt c);
       typeBinaryLoop (loopFuel c1) (parseTypePostfix pe pt) t c1
     }"

section \<open>Parameters and function bodies (\<open>parse.go\<close>)\<close>

definition parseParam :: "node parser \<Rightarrow> node Param parser" where
  "parseParam pt c =
     (if atSymbol ''...'' c then
        (let (v, c1) = cnext c in do { (ty, c2) \<leftarrow> parseAnnot pt c1; Some (VarargParam v ty, c2) })
      else
        (let (nm, c1) = expectName c in do { (ty, c2) \<leftarrow> parseAnnot pt c1; Some (NameParam nm ty, c2) }))"

fun parseParamLoop ::
  "nat \<Rightarrow> node parser \<Rightarrow> node Param list \<Rightarrow> tokenref list \<Rightarrow>
   (node Param list \<times> tokenref list) parser" where
  "parseParamLoop 0 pt ps seps c = None"
| "parseParamLoop (Suc n) pt ps seps c =
     (if atSymbol '','' c then
        (let (sep, c1) = cnext c in do {
           (p, c2) \<leftarrow> parseParam pt c1;
           parseParamLoop n pt (ps @ [p]) (seps @ [sep]) c2
         })
      else Some ((ps, seps), c))"

definition parseFuncBody :: "node parser \<Rightarrow> node parser \<Rightarrow> node FuncBody parser" where
  "parseFuncBody pt pb c =
     do {
       (generics, c1) \<leftarrow> (if atSymbol ''<'' c
          then do { (g, d) \<leftarrow> parseGenericParams pt c; Some (Some g, d) } else Some (None, c));
       let (lparen, c2) = expectSymbol ''('' c1;
       ((ps, seps), c3) \<leftarrow> (if \<not> atSymbol '')'' c2 \<and> \<not> catEnd c2
          then do { (p, d) \<leftarrow> parseParam pt c2; parseParamLoop (loopFuel d) pt [p] [] d }
          else Some (([], []), c2));
       let (rparen, c4) = expectSymbol '')'' c3;
       (ret, c5) \<leftarrow> parseAnnot pt c4;
       (body, c6) \<leftarrow> pb c5;
       let (en, c7) = expectKeyword ''end'' c6;
       Some (FuncBody generics lparen ps seps rparen ret body en, c7)
     }"

section \<open>Expressions (\<open>expr.go\<close>)\<close>

definition unaryPrec :: nat where
  "unaryPrec = 7"

text \<open>\<open>binPrec\<close>: precedence and right associativity of a binary operator token.\<close>

definition binPrec :: "token \<Rightarrow> (nat \<times> bool) option" where
  "binPrec t =
     (if Kind t = KName then
        (if Text t = ''or'' then Some (1, False)
         else if Text t = ''and'' then Some (2, False) else None)
      else if Kind t = KSymbol then
        (if Text t \<in> {''<'', ''>'', ''<='', ''>='', ''~='', ''==''} then Some (3, False)
         else if Text t = ''..'' then Some (4, True)
         else if Text t \<in> {''+'', ''-''} then Some (5, False)
         else if Text t \<in> {''*'', ''/'', ''//'', ''%''} then Some (6, False)
         else if Text t = ''^'' then Some (8, True) else None)
      else None)"

definition isUnaryOp :: "cursor \<Rightarrow> bool" where
  "isUnaryOp c \<longleftrightarrow>
     (Kind (Token (cpeek c)) = KSymbol \<and> Text (Token (cpeek c)) \<in> {''-'', ''#''}) \<or>
     (Kind (Token (cpeek c)) = KName \<and> Text (Token (cpeek c)) = ''not'')"

fun parseExprListLoop ::
  "nat \<Rightarrow> node parser \<Rightarrow> string \<Rightarrow> node list \<Rightarrow> tokenref list \<Rightarrow> node ExprList parser" where
  "parseExprListLoop 0 pe stop items seps c = None"
| "parseExprListLoop (Suc n) pe stop items seps c =
     (if atSymbol '','' c then
        (let (sep, c1) = cnext c in
         if atSymbol stop c1 \<or> catEnd c1 then Some (ExprList items (seps @ [sep]), c1)
         else do {
           (e, c2) \<leftarrow> pe c1;
           parseExprListLoop n pe stop (items @ [e]) (seps @ [sep]) c2
         })
      else Some (ExprList items seps, c))"

definition parseExprListInto :: "node parser \<Rightarrow> string \<Rightarrow> node ExprList parser" where
  "parseExprListInto pe stop c =
     do { (e, c1) \<leftarrow> pe c; parseExprListLoop (loopFuel c1) pe stop [e] [] c1 }"

definition parseParen :: "node parser \<Rightarrow> node parser" where
  "parseParen pe c =
     (let (open', c1) = expectSymbol ''('' c in do {
        (inner, c2) \<leftarrow> pe c1;
        let (cl, c3) = expectSymbol '')'' c2;
        Some (Paren open' inner cl, c3)
      })"

definition parseTableField :: "node parser \<Rightarrow> node TableField parser" where
  "parseTableField pe c =
     (if atSymbol ''['' c then
        (let (lb, c1) = cnext c in do {
           (key, c2) \<leftarrow> pe c1;
           let (rb, c3) = expectSymbol '']'' c2;
           let (eq, c4) = expectSymbol ''='' c3;
           (v, c5) \<leftarrow> pe c4;
           Some (KeyedField lb key rb eq v None, c5)
         })
      else if Kind (Token (cpeek c)) = KName \<and> peek2Symbol ''='' c then
        (let (nm, c1) = cnext c; (eq, c2) = cnext c1
         in do { (v, c3) \<leftarrow> pe c2; Some (NamedField nm eq v None, c3) })
      else do { (v, c1) \<leftarrow> pe c; Some (PosField v None, c1) })"

definition parseTable :: "node parser \<Rightarrow> node parser" where
  "parseTable pe c =
     (let (open', c1) = expectSymbol ''{'' c in do {
        (fs, c2) \<leftarrow> parseFieldLoop (loopFuel c1) (parseTableField pe) [] c1;
        let (cl, c3) = expectSymbol ''}'' c2;
        Some (Table open' fs cl, c3)
      })"

fun interpLoop :: "nat \<Rightarrow> node parser \<Rightarrow> (node \<times> tokenref) list \<Rightarrow> (node \<times> tokenref) list parser" where
  "interpLoop 0 pe holes c = None"
| "interpLoop (Suc n) pe holes c =
     (if catEnd c then Some (holes, c)
      else do {
        (e, c1) \<leftarrow> pe c;
        let (mid, c2) = cnext c1;
        (if Kind (Token mid) \<noteq> KInterpMid then Some (holes @ [(e, mid)], c2)
         else interpLoop n pe (holes @ [(e, mid)]) c2)
      })"

definition parseInterpString :: "node parser \<Rightarrow> node parser" where
  "parseInterpString pe c =
     (let (st, c1) = cnext c in
      if Kind (Token (cpeek c)) = KInterpSimple then Some (InterpSimple st, c1)
      else do { (holes, c2) \<leftarrow> interpLoop (loopFuel c1) pe [] c1; Some (InterpString st holes, c2) })"

definition atCallString :: "cursor \<Rightarrow> bool" where
  "atCallString c \<longleftrightarrow> Kind (Token (cpeek c)) \<in> {KString, KInterpSimple, KInterpStart}"

definition parseParenArgs :: "node parser \<Rightarrow> node parser" where
  "parseParenArgs pe c =
     (let (open', c1) = expectSymbol ''('' c in do {
        (lst, c2) \<leftarrow> (if \<not> atSymbol '')'' c1 \<and> \<not> catEnd c1
           then parseExprListInto pe '')'' c1 else Some (ExprList [] [], c1));
        let (cl, c3) = expectSymbol '')'' c2;
        Some (ParenArgs open' lst cl, c3)
      })"

definition parseCallArgs :: "node parser \<Rightarrow> node parser" where
  "parseCallArgs pe c =
     (if atSymbol ''('' c then parseParenArgs pe c
      else if atSymbol ''{'' c then parseTable pe c
      else if Kind (Token (cpeek c)) = KString then
        (let (s, c1) = cnext c in Some (String_n s, c1))
      else if Kind (Token (cpeek c)) = KInterpSimple \<or> Kind (Token (cpeek c)) = KInterpStart
      then parseInterpString pe c
      else (let (open', c1) = cnext (errHere ''expected call arguments'' c)
            in Some (ParenArgs open' (ExprList [] []) zeroRef, c1)))"

fun parseSuffixes :: "nat \<Rightarrow> node parser \<Rightarrow> node \<Rightarrow> node parser" where
  "parseSuffixes 0 pe base c = None"
| "parseSuffixes (Suc n) pe base c =
     (if atSymbol ''.'' c then
        (let (dot, c1) = cnext c; (nm, c2) = expectName c1
         in parseSuffixes n pe (Index base dot nm) c2)
      else if atSymbol ''['' c then
        (let (open', c1) = cnext c in do {
           (key, c2) \<leftarrow> pe c1;
           let (cl, c3) = expectSymbol '']'' c2;
           parseSuffixes n pe (IndexExpr base open' key cl) c3
         })
      else if atSymbol ''('' c \<or> atSymbol ''{'' c \<or> atCallString c then
        do { (args, c1) \<leftarrow> parseCallArgs pe c; parseSuffixes n pe (Call base args) c1 }
      else if atSymbol '':'' c then
        (let (colon, c1) = cnext c; (nm, c2) = expectName c1 in do {
           (args, c3) \<leftarrow> parseCallArgs pe c2;
           parseSuffixes n pe (MethodCall base colon nm args) c3
         })
      else Some (base, c))"

definition parsePrefixAtom :: "node parser \<Rightarrow> node parser" where
  "parsePrefixAtom pe c =
     (if atSymbol ''('' c then parseParen pe c
      else (let (t, c1) = cnext c in Some (Name t, c1)))"

definition parsePrefixExpr :: "node parser \<Rightarrow> node parser" where
  "parsePrefixExpr pe c =
     do { (a, c1) \<leftarrow> parsePrefixAtom pe c; parseSuffixes (loopFuel c1) pe a c1 }"

definition leaf :: "(tokenref \<Rightarrow> node) \<Rightarrow> node parser" where
  "leaf f c = (let (t, c1) = cnext c in Some (f t, c1))"

definition parseValue :: "node parser \<Rightarrow> node parser \<Rightarrow> node parser \<Rightarrow> node parser" where
  "parseValue pe pt pb c =
     (if atKeyword ''nil'' c then leaf Nil_n c
      else if atKeyword ''true'' c then leaf True_n c
      else if atKeyword ''false'' c then leaf False_n c
      else if atKeyword ''function'' c then
        (let (f, c1) = cnext c in do { (body, c2) \<leftarrow> parseFuncBody pt pb c1; Some (FuncExpr f body, c2) })
      else if atSymbol ''...'' c then leaf Vararg c
      else if atSymbol ''{'' c then parseTable pe c
      else if Kind (Token (cpeek c)) = KNumber then leaf Number c
      else if Kind (Token (cpeek c)) = KString then leaf String_n c
      else if Kind (Token (cpeek c)) = KInterpSimple \<or> Kind (Token (cpeek c)) = KInterpStart
      then parseInterpString pe c
      else if atSymbol ''('' c \<or> Kind (Token (cpeek c)) = KName then parsePrefixExpr pe c
      else leaf Name (errHere ''expected an expression'' c))"

fun asExpLoop :: "nat \<Rightarrow> node parser \<Rightarrow> node \<Rightarrow> node parser" where
  "asExpLoop 0 pt e c = None"
| "asExpLoop (Suc n) pt e c =
     (if atSymbol ''::'' c then
        (let (op, c1) = cnext c in do {
           (t, c2) \<leftarrow> pt c1;
           asExpLoop n pt (TypeAssert e op t) c2
         })
      else Some (e, c))"

definition parseAsExp :: "node parser \<Rightarrow> node parser \<Rightarrow> node parser \<Rightarrow> node parser" where
  "parseAsExp pe pt pb c =
     do { (e, c1) \<leftarrow> parseValue pe pt pb c; asExpLoop (loopFuel c1) pt e c1 }"

text \<open>\<open>parseBinary\<close> with its precedence-climbing loop, and \<open>parseUnary\<close>; \<open>pv\<close> is \<open>parseAsExp\<close>.\<close>

fun parseBinary :: "nat \<Rightarrow> node parser \<Rightarrow> nat \<Rightarrow> node parser"
  and parseUnary :: "nat \<Rightarrow> node parser \<Rightarrow> node parser"
  and binaryLoop :: "nat \<Rightarrow> node parser \<Rightarrow> nat \<Rightarrow> node \<Rightarrow> node parser" where
  "parseBinary 0 pv minPrec c = None"
| "parseBinary (Suc n) pv minPrec c =
     do { (left, c1) \<leftarrow> parseUnary n pv c; binaryLoop n pv minPrec left c1 }"
| "parseUnary 0 pv c = None"
| "parseUnary (Suc n) pv c =
     (if isUnaryOp c then
        (let (op, c1) = cnext c
         in do { (e, c2) \<leftarrow> parseBinary n pv unaryPrec c1; Some (Unary op e, c2) })
      else pv c)"
| "binaryLoop 0 pv minPrec left c = None"
| "binaryLoop (Suc n) pv minPrec left c =
     (case binPrec (Token (cpeek c)) of
        None \<Rightarrow> Some (left, c)
      | Some (prec, rightAssoc) \<Rightarrow>
          if prec < minPrec then Some (left, c)
          else (let (op, c1) = cnext c in do {
             (right, c2) \<leftarrow> parseBinary n pv (if rightAssoc then prec else prec + 1) c1;
             binaryLoop n pv minPrec (Binary left op right) c2
           }))"

fun ifExprLoop :: "nat \<Rightarrow> node parser \<Rightarrow> node Clause list \<Rightarrow> node Clause list parser" where
  "ifExprLoop 0 pe cls c = None"
| "ifExprLoop (Suc n) pe cls c =
     (if atKeyword ''elseif'' c then
        (let (ei, c1) = cnext c in do {
           (cond, c2) \<leftarrow> pe c1;
           let (th, c3) = expectKeyword ''then'' c2;
           (v, c4) \<leftarrow> pe c3;
           ifExprLoop n pe (cls @ [Clause ei cond th v]) c4
         })
      else Some (cls, c))"

definition parseIfExpr :: "node parser \<Rightarrow> node parser" where
  "parseIfExpr pe c =
     (let (i, c1) = cnext c in do {
        (cond, c2) \<leftarrow> pe c1;
        let (th, c3) = expectKeyword ''then'' c2;
        (v, c4) \<leftarrow> pe c3;
        (cls, c5) \<leftarrow> ifExprLoop (loopFuel c4) pe [] c4;
        let (el, c6) = expectKeyword ''else'' c5;
        (ev, c7) \<leftarrow> pe c6;
        Some (IfExpr i cond th v cls el ev, c7)
      })"

definition parseExprStep :: "node parser \<Rightarrow> node parser \<Rightarrow> node parser \<Rightarrow> node parser" where
  "parseExprStep pe pt pb c =
     (if atKeyword ''if'' c then parseIfExpr pe c
      else parseBinary (loopFuel c) (parseAsExp pe pt pb) 1 c)"

section \<open>Statements (\<open>parse.go\<close>)\<close>

definition atBlockEnd :: "cursor \<Rightarrow> bool" where
  "atBlockEnd c \<longleftrightarrow> atKeyword ''end'' c \<or> atKeyword ''else'' c \<or> atKeyword ''elseif'' c \<or> atKeyword ''until'' c"

definition compoundAssignOp :: "token \<Rightarrow> bool" where
  "compoundAssignOp t \<longleftrightarrow> Kind t = KSymbol \<and>
     Text t \<in> {''+='', ''-='', ''*='', ''/='', ''//='', ''%='', ''^='', ''..=''}"

definition endsStatement :: "cursor \<Rightarrow> bool" where
  "endsStatement c \<longleftrightarrow> catEnd c \<or> atSymbol '';'' c \<or> atBlockEnd c"

definition peek2Ends :: "cursor \<Rightarrow> bool" where
  "peek2Ends c \<longleftrightarrow>
     (let t = Token (cpeek2 c) in
      Kind t = KEOF \<or> (Kind t = KSymbol \<and> Text t = '';'') \<or>
      (Kind t = KName \<and> Text t \<in> {''end'', ''else'', ''elseif'', ''until''}))"

definition parseBinding :: "bool \<Rightarrow> node parser \<Rightarrow> node Binding parser" where
  "parseBinding allowAttrib pt c =
     (let (nm, c1) = expectName c;
          (attr, c2) = (if allowAttrib \<and> atSymbol ''<'' c1 then
              (let (lt, d1) = cnext c1; (an, d2) = expectName d1; (gt, d3) = expectSymbol ''>'' d2
               in (Some (Attrib lt an gt), d3))
            else (None, c1))
      in do { (ty, c3) \<leftarrow> parseAnnot pt c2; Some (Binding nm attr ty, c3) })"

fun parseBindingLoop ::
  "nat \<Rightarrow> bool \<Rightarrow> node parser \<Rightarrow> node Binding list \<Rightarrow> tokenref list \<Rightarrow>
   (node Binding list \<times> tokenref list) parser" where
  "parseBindingLoop 0 allow pt bs seps c = None"
| "parseBindingLoop (Suc n) allow pt bs seps c =
     (if atSymbol '','' c then
        (let (sep, c1) = cnext c in do {
           (b, c2) \<leftarrow> parseBinding allow pt c1;
           parseBindingLoop n allow pt (bs @ [b]) (seps @ [sep]) c2
         })
      else Some ((bs, seps), c))"

definition parseLocal :: "node parser \<Rightarrow> node parser \<Rightarrow> node parser \<Rightarrow> node parser" where
  "parseLocal pe pt pb c =
     (let (local, c1) = cnext c in
      if atKeyword ''function'' c1 then
        (let (fn, c2) = cnext c1; (nm, c3) = expectName c2
         in do { (body, c4) \<leftarrow> parseFuncBody pt pb c3; Some (LocalFuncStmt local fn nm body, c4) })
      else do {
        (b, c2) \<leftarrow> parseBinding True pt c1;
        ((bs, seps), c3) \<leftarrow> parseBindingLoop (loopFuel c2) True pt [b] [] c2;
        (if atSymbol ''='' c3 then
           (let (eq, c4) = cnext c3 in do {
              (vals, c5) \<leftarrow> parseExprListInto pe [] c4;
              Some (LocalStmt local bs seps (Some (eq, vals)), c5)
            })
         else Some (LocalStmt local bs seps None, c3))
      })"

fun parseTargetLoop ::
  "nat \<Rightarrow> node parser \<Rightarrow> node list \<Rightarrow> tokenref list \<Rightarrow> node ExprList parser" where
  "parseTargetLoop 0 pe items seps c = None"
| "parseTargetLoop (Suc n) pe items seps c =
     (if atSymbol '','' c then
        (let (sep, c1) = cnext c in do {
           (e, c2) \<leftarrow> parsePrefixExpr pe c1;
           parseTargetLoop n pe (items @ [e]) (seps @ [sep]) c2
         })
      else Some (ExprList items seps, c))"

definition parseExprStatement :: "node parser \<Rightarrow> node parser" where
  "parseExprStatement pe c =
     do {
       (first, c1) \<leftarrow> parsePrefixExpr pe c;
       (if atSymbol ''='' c1 \<or> compoundAssignOp (Token (cpeek c1)) \<or> atSymbol '','' c1 then do {
          (targets, c2) \<leftarrow> parseTargetLoop (loopFuel c1) pe [first] [] c1;
          let (op, c3) = cnext c2;
          (vals, c4) \<leftarrow> parseExprListInto pe [] c3;
          Some (AssignStmt targets op vals, c4)
        }
        else Some (CallStmt first, c1))
     }"

definition parseDo :: "node parser \<Rightarrow> node parser" where
  "parseDo pb c =
     (let (d, c1) = cnext c in do {
        (body, c2) \<leftarrow> pb c1;
        let (en, c3) = expectKeyword ''end'' c2;
        Some (DoStmt d body en, c3)
      })"

definition parseWhile :: "node parser \<Rightarrow> node parser \<Rightarrow> node parser" where
  "parseWhile pe pb c =
     (let (w, c1) = cnext c in do {
        (cond, c2) \<leftarrow> pe c1;
        let (d, c3) = expectKeyword ''do'' c2;
        (body, c4) \<leftarrow> pb c3;
        let (en, c5) = expectKeyword ''end'' c4;
        Some (WhileStmt w cond d body en, c5)
      })"

definition parseRepeat :: "node parser \<Rightarrow> node parser \<Rightarrow> node parser" where
  "parseRepeat pe pb c =
     (let (r, c1) = cnext c in do {
        (body, c2) \<leftarrow> pb c1;
        let (u, c3) = expectKeyword ''until'' c2;
        (cond, c4) \<leftarrow> pe c3;
        Some (RepeatStmt r body u cond, c4)
      })"

definition parseNumericFor ::
  "node parser \<Rightarrow> node parser \<Rightarrow> tokenref \<Rightarrow> node Binding \<Rightarrow> node parser" where
  "parseNumericFor pe pb forTok first c =
     (let (eq, c1) = cnext c in do {
        (start, c2) \<leftarrow> pe c1;
        let (comma1, c3) = expectSymbol '','' c2;
        (limit, c4) \<leftarrow> pe c3;
        (stp, c5) \<leftarrow> (if atSymbol '','' c4
           then (let (cm, d) = cnext c4 in do { (s, d1) \<leftarrow> pe d; Some (Some (cm, s), d1) })
           else Some (None, c4));
        let (d, c6) = expectKeyword ''do'' c5;
        (body, c7) \<leftarrow> pb c6;
        let (en, c8) = expectKeyword ''end'' c7;
        Some (NumericForStmt forTok first eq start comma1 limit stp d body en, c8)
      })"

definition parseGenericFor ::
  "node parser \<Rightarrow> node parser \<Rightarrow> node parser \<Rightarrow> tokenref \<Rightarrow> node Binding \<Rightarrow> node parser" where
  "parseGenericFor pe pt pb forTok first c =
     do {
       ((bs, seps), c1) \<leftarrow> parseBindingLoop (loopFuel c) False pt [first] [] c;
       let (i, c2) = expectKeyword ''in'' c1;
       (es, c3) \<leftarrow> parseExprListInto pe [] c2;
       let (d, c4) = expectKeyword ''do'' c3;
       (body, c5) \<leftarrow> pb c4;
       let (en, c6) = expectKeyword ''end'' c5;
       Some (GenericForStmt forTok bs seps i es d body en, c6)
     }"

definition parseFor :: "node parser \<Rightarrow> node parser \<Rightarrow> node parser \<Rightarrow> node parser" where
  "parseFor pe pt pb c =
     (let (forTok, c1) = cnext c in do {
        (first, c2) \<leftarrow> parseBinding False pt c1;
        (if atSymbol ''='' c2 then parseNumericFor pe pb forTok first c2
         else parseGenericFor pe pt pb forTok first c2)
      })"

fun elseifLoop ::
  "nat \<Rightarrow> node parser \<Rightarrow> node parser \<Rightarrow> node Clause list \<Rightarrow> node Clause list parser" where
  "elseifLoop 0 pe pb cls c = None"
| "elseifLoop (Suc n) pe pb cls c =
     (if atKeyword ''elseif'' c then
        (let (ei, c1) = cnext c in do {
           (cond, c2) \<leftarrow> pe c1;
           let (th, c3) = expectKeyword ''then'' c2;
           (body, c4) \<leftarrow> pb c3;
           elseifLoop n pe pb (cls @ [Clause ei cond th body]) c4
         })
      else Some (cls, c))"

definition parseIfStmt :: "node parser \<Rightarrow> node parser \<Rightarrow> node parser" where
  "parseIfStmt pe pb c =
     (let (i, c1) = cnext c in do {
        (cond, c2) \<leftarrow> pe c1;
        let (th, c3) = expectKeyword ''then'' c2;
        (body, c4) \<leftarrow> pb c3;
        (cls, c5) \<leftarrow> elseifLoop (loopFuel c4) pe pb [] c4;
        (el, c6) \<leftarrow> (if atKeyword ''else'' c5
           then (let (e, d) = cnext c5 in do { (b, d1) \<leftarrow> pb d; Some (Some (e, b), d1) })
           else Some (None, c5));
        let (en, c7) = expectKeyword ''end'' c6;
        Some (IfStmt i cond th body cls el en, c7)
      })"

definition parseFuncStmt :: "node parser \<Rightarrow> node parser \<Rightarrow> node parser" where
  "parseFuncStmt pt pb c =
     (let (fn, c1) = cnext c; (base, c2) = expectName c1 in do {
        (dots, c3) \<leftarrow> parseDots (loopFuel c2) [] c2;
        let (method, c4) = (if atSymbol '':'' c3
            then (let (colon, d) = cnext c3; (m, d1) = expectName d in (Some (colon, m), d1))
            else (None, c3));
        (body, c5) \<leftarrow> parseFuncBody pt pb c4;
        Some (FuncStmt fn (FuncName base dots method) body, c5)
      })"

text \<open>The optional semicolon after \<open>return\<close>, \<open>break\<close> and \<open>continue\<close>.\<close>

definition optSemi :: "cursor \<Rightarrow> tokenref option \<times> cursor" where
  "optSemi c = (if atSymbol '';'' c then (let (s, c1) = cnext c in (Some s, c1)) else (None, c))"

definition parseReturn :: "node parser \<Rightarrow> node parser" where
  "parseReturn pe c =
     (let (r, c1) = cnext c in do {
        (vals, c2) \<leftarrow> (if \<not> endsStatement c1 then parseExprListInto pe [] c1
                       else Some (ExprList [] [], c1));
        let (semi, c3) = optSemi c2;
        Some (ReturnStmt r vals semi, c3)
      })"

definition parseBreak :: "node parser" where
  "parseBreak c = (let (b, c1) = cnext c; (semi, c2) = optSemi c1 in Some (BreakStmt b semi, c2))"

definition parseContinue :: "node parser" where
  "parseContinue c = (let (b, c1) = cnext c; (semi, c2) = optSemi c1 in Some (ContinueStmt b semi, c2))"

definition parseTypeAlias :: "node parser \<Rightarrow> node parser" where
  "parseTypeAlias pt c =
     (let (ex, c1) = (if atKeyword ''export'' c then (let (e, d) = cnext c in (Some e, d)) else (None, c));
          (ty, c2) = cnext c1; (nm, c3) = expectName c2
      in do {
        (generics, c4) \<leftarrow> (if atSymbol ''<'' c3
           then do { (g, d) \<leftarrow> parseGenericParams pt c3; Some (Some g, d) } else Some (None, c3));
        let (eq, c5) = expectSymbol ''='' c4;
        (v, c6) \<leftarrow> pt c5;
        Some (TypeAliasStmt ex ty nm generics eq v, c6)
      })"

text \<open>\<open>parseStatement\<close>: the flag reports a last statement of its block.\<close>

definition with_flag :: "bool \<Rightarrow> ('a \<times> cursor) option \<Rightarrow> (('a \<times> bool) \<times> cursor) option" where
  "with_flag b r = map_option (\<lambda>(x, c). ((x, b), c)) r"

definition parseStatement ::
  "node parser \<Rightarrow> node parser \<Rightarrow> node parser \<Rightarrow> (node \<times> bool) parser" where
  "parseStatement pe pt pb c =
     (if atKeyword ''local'' c then with_flag False (parseLocal pe pt pb c)
      else if atKeyword ''do'' c then with_flag False (parseDo pb c)
      else if atKeyword ''while'' c then with_flag False (parseWhile pe pb c)
      else if atKeyword ''repeat'' c then with_flag False (parseRepeat pe pb c)
      else if atKeyword ''for'' c then with_flag False (parseFor pe pt pb c)
      else if atKeyword ''if'' c then with_flag False (parseIfStmt pe pb c)
      else if atKeyword ''function'' c then with_flag False (parseFuncStmt pt pb c)
      else if atKeyword ''return'' c then with_flag True (parseReturn pe c)
      else if atKeyword ''break'' c then with_flag True (parseBreak c)
      else if atKeyword ''continue'' c \<and> peek2Ends c then with_flag True (parseContinue c)
      else if atKeyword ''export'' c \<and> Kind (Token (cpeek2 c)) = KName \<and> Text (Token (cpeek2 c)) = ''type''
      then with_flag False (parseTypeAlias pt c)
      else if atKeyword ''type'' c \<and> Kind (Token (cpeek2 c)) = KName
      then with_flag False (parseTypeAlias pt c)
      else with_flag False (parseExprStatement pe c))"

fun blockLoop ::
  "nat \<Rightarrow> (node \<times> bool) parser \<Rightarrow> node list \<Rightarrow> node list parser" where
  "blockLoop 0 ps stmts c = None"
| "blockLoop (Suc n) ps stmts c =
     (if \<not> catEnd c \<and> \<not> atBlockEnd c then
        (if atSymbol '';'' c then
           (let (s, c1) = cnext c in blockLoop n ps (stmts @ [SemiStmt s]) c1)
         else do {
           ((stmt, isLast), c1) \<leftarrow> ps c;
           (if isLast then Some (stmts @ [stmt], c1) else blockLoop n ps (stmts @ [stmt]) c1)
         })
      else Some (stmts, c))"

definition parseBlockStep :: "node parser \<Rightarrow> node parser \<Rightarrow> node parser \<Rightarrow> node parser" where
  "parseBlockStep pe pt pb c =
     do {
       (stmts, c1) \<leftarrow> blockLoop (loopFuel c) (parseStatement pe pt pb) [] c;
       Some (Block stmts, c1)
     }"

section \<open>Closing the recursion\<close>

fun parseExpr :: "nat \<Rightarrow> node parser"
  and parseType :: "nat \<Rightarrow> node parser"
  and parseBlock :: "nat \<Rightarrow> node parser" where
  "parseExpr 0 c = None"
| "parseExpr (Suc n) c = parseExprStep (parseExpr n) (parseType n) (parseBlock n) c"
| "parseType 0 c = None"
| "parseType (Suc n) c = parseTypeStep (parseExpr n) (parseType n) c"
| "parseBlock 0 c = None"
| "parseBlock (Suc n) c = parseBlockStep (parseExpr n) (parseType n) (parseBlock n) c"

fun blockStmts :: "node \<Rightarrow> node list" where
  "blockStmts (Block ss) = ss"
| "blockStmts n = [n]"

text \<open>The loop of \<open>Parse\<close> that keeps stray tokens as error statements.\<close>

fun strayLoop :: "nat \<Rightarrow> node parser \<Rightarrow> node list \<Rightarrow> node list parser" where
  "strayLoop 0 pb stmts c = None"
| "strayLoop (Suc n) pb stmts c =
     (if \<not> catEnd c then
        (let (t, c1) = cnext (errHere (''unexpected '' @ [SQUOTE] @ Text (Token (cpeek c)) @ [SQUOTE]) c)
         in do {
           (rest, c2) \<leftarrow> pb c1;
           strayLoop n pb (stmts @ [ErrorStmt t] @ blockStmts rest) c2
         })
      else Some (stmts, c))"

definition Parse :: "string \<Rightarrow> (cst_file \<times> diagnostic list) option" where
  "Parse t =
     do {
       c \<leftarrow> newCursor t;
       (body, c1) \<leftarrow> parseBlock (length (refs c) + 1) c;
       (stmts, c2) \<leftarrow> strayLoop (loopFuel c1) (parseBlock (length (refs c) + 1)) (blockStmts body) c1;
       let (eof, c3) = cnext c2;
       Some (\<lparr>Body = Block stmts, EOFTok = eof\<rparr>, cdiags c3)
     }"

end
