(* ===== verification/Cst_Parse_Correct.thy ===== *)
theory Cst_Parse_Correct
  imports Cst_Parse
begin

text \<open>
  Correctness of the parser: it always returns, the tree holds every significant token of the
  source exactly once and in order, and without a diagnostic the tree spells the source.
  The proofs are a small calculus of total correctness: \<open>wp m Q\<close> says that the parser
  run \<open>m\<close> returns a result that satisfies \<open>Q\<close>, and one rule per cursor operation
  extends a running account \<open>runs c0 ts c\<close> of the tokens consumed since \<open>c0\<close>.
\<close>

section \<open>Significant tokens and consumption\<close>

definition isSig :: "tokenref \<Rightarrow> bool" where
  "isSig r \<longleftrightarrow> Kind (Token r) \<noteq> KEOF"

abbreviation sig :: "tokenref list \<Rightarrow> tokenref list" where
  "sig ts \<equiv> filter isSig ts"

text \<open>A cursor as \<open>newCursor\<close> builds it: one end-of-file reference, at the end.\<close>

definition wfc :: "cursor \<Rightarrow> bool" where
  "wfc c \<longleftrightarrow> refs c \<noteq> [] \<and> \<not> isSig (last (refs c)) \<and> list_all isSig (butlast (refs c)) \<and>
             cpos c < length (refs c)"

definition rest :: "cursor \<Rightarrow> tokenref list" where
  "rest c = drop (cpos c) (butlast (refs c))"

abbreviation nd :: "cursor \<Rightarrow> nat" where
  "nd c \<equiv> length (cdiags c)"

definition holeFree :: "cursor \<Rightarrow> bool" where
  "holeFree c \<longleftrightarrow> list_all (\<lambda>r. Kind (Token r) \<noteq> KInterpStart) (refs c)"

text \<open>
  \<open>eats c0 ts c\<close>: between \<open>c0\<close> and \<open>c\<close> the parser took the tokens \<open>ts\<close>; the
  significant ones are exactly those the cursor moved over. If no diagnostic was recorded and
  the source has no interpolation hole, then no end-of-file token was taken.
\<close>

definition eats :: "cursor \<Rightarrow> tokenref list \<Rightarrow> cursor \<Rightarrow> bool" where
  "eats c0 ts c \<longleftrightarrow> wfc c0 \<and> wfc c \<and> refs c = refs c0 \<and> rest c0 = sig ts @ rest c \<and>
     prefix (cdiags c0) (cdiags c) \<and> (holeFree c0 \<and> nd c = nd c0 \<longrightarrow> list_all isSig ts)"

lemma eats_refl: "wfc c \<Longrightarrow> eats c [] c"
  by (simp add: eats_def)

lemma eats_trans: "eats a ts b \<Longrightarrow> eats b us c \<Longrightarrow> eats a (ts @ us) c"
proof -
  assume a: "eats a ts b" and b: "eats b us c"
  then have p: "prefix (cdiags a) (cdiags b)" "prefix (cdiags b) (cdiags c)"
    by (auto simp: eats_def)
  then have "nd a \<le> nd b" "nd b \<le> nd c" by (auto dest: prefix_length_le)
  then show ?thesis
    using a b prefix_order.trans [OF p] by (auto simp: eats_def holeFree_def)
qed

lemma rest_cases:
  assumes "wfc c"
  obtains "rest c = []" "cpos c = length (refs c) - 1" "cpeek c = last (refs c)" "\<not> isSig (cpeek c)"
  | "rest c = cpeek c # rest (c\<lparr>cpos := cpos c + 1\<rparr>)" "cpos c < length (refs c) - 1" "isSig (cpeek c)"
proof (cases "cpos c < length (refs c) - 1")
  case True
  then have "refs c ! cpos c = butlast (refs c) ! cpos c" by (simp add: nth_butlast)
  then have pk: "cpeek c = butlast (refs c) ! cpos c" using True by (simp add: cpeek_def)
  moreover from this True assms have "isSig (cpeek c)" by (auto simp: wfc_def list_all_iff)
  ultimately show ?thesis
    using that(2) True Cons_nth_drop_Suc [of "cpos c" "butlast (refs c)"] by (simp add: rest_def)
next
  case False
  with assms have "cpos c = length (refs c) - 1" "\<not> length (refs c) \<le> cpos c"
    by (auto simp: wfc_def)
  moreover from this have "cpeek c = last (refs c)"
    using assms by (simp add: cpeek_def wfc_def last_conv_nth)
  ultimately show ?thesis using assms that(1) by (simp add: rest_def wfc_def)
qed

lemma catEnd_iff: "wfc c \<Longrightarrow> catEnd c \<longleftrightarrow> rest c = []"
  by (cases rule: rest_cases [of c]) (auto simp: catEnd_def isSig_def)

lemma isSig_cpeek: "wfc c \<Longrightarrow> isSig (cpeek c) \<longleftrightarrow> rest c \<noteq> []"
  by (cases rule: rest_cases [of c]) auto

lemma guard_rest:
  assumes "wfc c"
  shows "atSymbol s c \<Longrightarrow> rest c \<noteq> []" "atKeyword s c \<Longrightarrow> rest c \<noteq> []" "\<not> catEnd c \<Longrightarrow> rest c \<noteq> []"
    "Kind (Token (cpeek c)) = k \<Longrightarrow> k \<noteq> KEOF \<Longrightarrow> rest c \<noteq> []"
  using isSig_cpeek [OF assms] catEnd_iff [OF assms]
  by (auto simp: atSymbol_def atKeyword_def isSig_def)

lemma guard_restE:
  "wfc c \<Longrightarrow> b \<and> \<not> catEnd c \<Longrightarrow> rest c \<noteq> []" "wfc c \<Longrightarrow> \<not> catEnd c \<and> b \<Longrightarrow> rest c \<noteq> []"
  using guard_rest(3) by blast+

lemma eats_cnext:
  assumes "wfc c" "cnext c = (r, c1)" "rest c \<noteq> []"
  shows "eats c [r] c1" "rest c = r # rest c1" "r = cpeek c" "cdiags c1 = cdiags c"
  using assms
  by (cases rule: rest_cases [of c]; force simp: eats_def cnext_def wfc_def rest_def)+

lemma cnext_at_end:
  assumes "wfc c" "cnext c = (r, c1)" "rest c = []"
  shows "c1 = c" "\<not> isSig r"
  using assms by (cases rule: rest_cases [of c]; simp add: cnext_def)+

lemma eats_errHere: "wfc c \<Longrightarrow> eats c [] (errHere m c)"
  by (simp add: eats_def errHere_def wfc_def rest_def)

lemma errHere_frame [simp]:
  "refs (errHere m c) = refs c" "rest (errHere m c) = rest c" "nd (errHere m c) = Suc (nd c)"
  "cpeek (errHere m c) = cpeek c" "wfc (errHere m c) = wfc c"
  by (simp_all add: errHere_def rest_def cpeek_def wfc_def)

text \<open>Taking a token after recording a diagnostic.\<close>

lemma eats_err_next:
  assumes "wfc c" "cnext (errHere m c) = (r, c1)"
  shows "eats c [r] c1" "nd c < nd c1" "length (rest c1) \<le> length (rest c)"
    "rest c \<noteq> [] \<Longrightarrow> length (rest c1) < length (rest c)"
proof -
  have w: "wfc (errHere m c)" using assms by simp
  have "eats c [r] c1 \<and> nd c < nd c1 \<and> length (rest c1) \<le> length (rest c) \<and>
      (rest c \<noteq> [] \<longrightarrow> length (rest c1) < length (rest c))"
  proof (cases "rest c = []")
    case True
    with cnext_at_end [OF w assms(2)] show ?thesis
      using eats_errHere [OF assms(1), of m] by (simp add: eats_def)
  next
    case False
    then have e: "eats (errHere m c) [r] c1" "rest c = r # rest c1" "cdiags c1 = cdiags (errHere m c)"
      using eats_cnext [OF w assms(2)] by auto
    then show ?thesis using eats_trans [OF eats_errHere [OF assms(1)] e(1)] by simp
  qed
  then show "eats c [r] c1" "nd c < nd c1" "length (rest c1) \<le> length (rest c)"
    "rest c \<noteq> [] \<Longrightarrow> length (rest c1) < length (rest c)" by auto
qed

lemma eats_shorter: "eats a ts b \<Longrightarrow> length (rest b) \<le> length (rest a)"
  by (simp add: eats_def)

text \<open>The three checked reads: \<open>expectSymbol\<close>, \<open>expectKeyword\<close>, \<open>expectName\<close>.\<close>

definition checked :: "cursor \<Rightarrow> tokenref \<times> cursor \<Rightarrow> bool" where
  "checked c rc \<longleftrightarrow> eats c [fst rc] (snd rc)"

lemma checked_expect:
  assumes "wfc c"
  shows "checked c (expectSymbol s c)" "checked c (expectKeyword s c)" "checked c (expectName c)"
  using assms guard_rest [OF assms]
  by (auto simp: checked_def expectSymbol_def expectKeyword_def expectName_def
      intro: eats_cnext(1) eats_err_next(1) prod.collapse [symmetric])

section \<open>Total-correctness rules\<close>

text \<open>
  The collections of the verification conditions: rules whose first one, two or three premises
  are found among the assumptions, rules that are always applied, and rewriting.
\<close>

named_theorems vc1 \<open>rules that need the running account\<close>
named_theorems vc2 \<open>rules that need the running account, or a cursor, and a guard\<close>
named_theorems vc3 \<open>rules for a first step: the cursor, a token left, the bound\<close>
named_theorems vc_intro \<open>rules for the control structure\<close>
named_theorems vc_cases \<open>rewriting of nested matches\<close>
named_theorems vc_simps \<open>rewriting of the token lists of results\<close>


definition wp :: "('a \<times> cursor) option \<Rightarrow> ('a \<Rightarrow> cursor \<Rightarrow> bool) \<Rightarrow> bool" where
  "wp m Q \<longleftrightarrow> (\<exists>r c. m = Some (r, c) \<and> Q r c)"

lemma wp_Some [simp]: "wp (Some (r, c)) Q \<longleftrightarrow> Q r c"
  by (simp add: wp_def)

lemma wp_bindI [vc_intro]: "wp m (\<lambda>r c. wp (f r c) Q) \<Longrightarrow> wp (Option.bind m (case_prod f)) Q"
  by (auto simp: wp_def)

lemma wp_SomeI [vc_intro]: "Q r c \<Longrightarrow> wp (Some (r, c)) Q"
  by simp

lemma wp_mono: "wp m Q \<Longrightarrow> (\<And>r c. Q r c \<Longrightarrow> Q' r c) \<Longrightarrow> wp m Q'"
  by (auto simp: wp_def)

lemma wp_if [vc_intro]: "(b \<Longrightarrow> wp x Q) \<Longrightarrow> (\<not> b \<Longrightarrow> wp y Q) \<Longrightarrow> wp (if b then x else y) Q"
  by simp

lemma wp_case_if [vc_intro]:
  "(b \<Longrightarrow> wp (case_prod f x) Q) \<Longrightarrow> (\<not> b \<Longrightarrow> wp (case_prod f y) Q) \<Longrightarrow>
   wp (case_prod f (if b then x else y)) Q"
  by simp

lemma wp_with_flag [vc_intro]: "wp m (\<lambda>r c. Q (r, b) c) \<Longrightarrow> wp (with_flag b m) Q"
  by (auto simp: wp_def with_flag_def)

lemma case_case [vc_cases]: "case_prod f (case_prod g e) = (case e of (a, b) \<Rightarrow> case_prod f (g a b))"
  by (cases e) simp

text \<open>
  \<open>runs M c0 ts c\<close>: since \<open>c0\<close> the tokens \<open>ts\<close> were taken, and fewer than \<open>M\<close>
  significant tokens are left. A method that starts by taking a token has
  \<open>M = length (rest c0)\<close> from then on.
\<close>

definition runs :: "nat \<Rightarrow> cursor \<Rightarrow> tokenref list \<Rightarrow> cursor \<Rightarrow> bool" where
  "runs M c0 ts c \<longleftrightarrow> eats c0 ts c \<and> length (rest c) < M"

lemma runs_wfc: "runs M c0 ts c \<Longrightarrow> wfc c"
  by (simp add: runs_def eats_def)

lemma runs_eats: "runs M c0 ts c \<Longrightarrow> eats c us c1 \<Longrightarrow> runs M c0 (ts @ us) c1"
  using eats_shorter [of c us c1] by (auto simp: runs_def intro: eats_trans)

lemma runs_start: "wfc c \<Longrightarrow> length (rest c) < M \<Longrightarrow> runs M c [] c"
  by (simp add: runs_def eats_refl)

lemma runs_less: "runs M c0 ts c \<Longrightarrow> M \<le> N \<Longrightarrow> length (rest c) < N"
  by (simp add: runs_def)

text \<open>The first token of a method.\<close>

declare prod.case [vc_cases]

lemma wp_first [vc2]:
  assumes "wfc c" "rest c \<noteq> []"
    "\<And>r c1. runs (length (rest c)) c [r] c1 \<Longrightarrow> r = cpeek c \<Longrightarrow> wp (f r c1) Q"
  shows "wp (case cnext c of (r, c1) \<Rightarrow> f r c1) Q"
  using assms eats_cnext [OF assms(1) _ assms(2)]
  by (cases "cnext c") (simp add: runs_def)

lemma runs_expect:
  assumes "wfc c" "rest c \<noteq> []" "e = (if b then cnext c else cnext (errHere m c))"
  shows "runs (length (rest c)) c [fst e] (snd e)"
proof (cases b)
  case True
  then show ?thesis
    using eats_cnext(1,2) [OF assms(1) prod.collapse [symmetric] assms(2)] assms(3)
    by (simp add: runs_def)
next
  case False
  then show ?thesis
    using eats_err_next(1,4) [OF assms(1) prod.collapse [symmetric]] assms(2,3)
    by (simp add: runs_def)
qed

lemma wp_first_expect [vc2]:
  assumes "wfc c" "rest c \<noteq> []" "\<And>r c1. runs (length (rest c)) c [r] c1 \<Longrightarrow> wp (f r c1) Q"
  shows "wp (case expectSymbol s c of (r, c1) \<Rightarrow> f r c1) Q"
    and "wp (case expectName c of (r, c1) \<Rightarrow> f r c1) Q"
  using assms(3) [OF runs_expect [OF assms(1,2) expectSymbol_def]]
    assms(3) [OF runs_expect [OF assms(1,2) expectName_def]]
  by (simp_all add: case_prod_beta)

lemma wp_next:
  assumes "runs M c0 ts c" "rest c \<noteq> []"
    "\<And>r c1. runs (length (rest c0)) c0 (ts @ [r]) c1 \<Longrightarrow> r = cpeek c \<Longrightarrow> wp (f r c1) Q"
  shows "wp (case cnext c of (r, c1) \<Rightarrow> f r c1) Q"
proof (cases "cnext c")
  case (Pair r c1)
  note e = eats_cnext [OF runs_wfc [OF assms(1)] Pair assms(2)]
  have "runs M c0 (ts @ [r]) c1" by (rule runs_eats [OF assms(1) e(1)])
  moreover have "length (rest c1) < length (rest c0)"
    using e(2) eats_shorter assms(1) unfolding runs_def by fastforce
  ultimately show ?thesis using assms(3) e(3) Pair by (simp add: runs_def)
qed

lemma wp_next_guard [vc2]:
  assumes "runs M c0 ts c"
  shows "atSymbol s c \<Longrightarrow> (\<And>r c1. runs (length (rest c0)) c0 (ts @ [r]) c1 \<Longrightarrow> wp (f r c1) Q) \<Longrightarrow>
      wp (case cnext c of (r, c1) \<Rightarrow> f r c1) Q"
    and "atKeyword s c \<Longrightarrow> (\<And>r c1. runs (length (rest c0)) c0 (ts @ [r]) c1 \<Longrightarrow> wp (f r c1) Q) \<Longrightarrow>
      wp (case cnext c of (r, c1) \<Rightarrow> f r c1) Q"
    and "b \<and> atSymbol s c \<Longrightarrow> (\<And>r c1. runs (length (rest c0)) c0 (ts @ [r]) c1 \<Longrightarrow> wp (f r c1) Q) \<Longrightarrow>
      wp (case cnext c of (r, c1) \<Rightarrow> f r c1) Q"
    and "atSymbol s c \<or> atSymbol s' c \<Longrightarrow>
      (\<And>r c1. runs (length (rest c0)) c0 (ts @ [r]) c1 \<Longrightarrow> wp (f r c1) Q) \<Longrightarrow>
      wp (case cnext c of (r, c1) \<Rightarrow> f r c1) Q"
  using guard_rest [OF runs_wfc [OF assms]] by (blast intro: wp_next [OF assms])+

text \<open>A name and the symbol after it.\<close>

lemma cpeek2_next: "wfc c \<Longrightarrow> rest c \<noteq> [] \<Longrightarrow> cnext c = (r, c1) \<Longrightarrow> cpeek2 c = cpeek c1"
  by (cases rule: rest_cases [of c]) (auto simp: cnext_def cpeek_def cpeek2_def)

lemma peek2_next:
  assumes "wfc c" "rest c \<noteq> []" "cnext c = (r, c1)"
  shows "peek2Symbol s c = atSymbol s c1"
  using cpeek2_next [OF assms] by (simp add: peek2Symbol_def atSymbol_def)

lemma wp_first2:
  assumes "wfc c" "rest c \<noteq> []" "isSig (cpeek2 c)"
    "\<And>r r2 c2. runs (length (rest c)) c [r, r2] c2 \<Longrightarrow> wp (f r r2 c2) Q"
  shows "wp (case cnext c of (r, c1) \<Rightarrow> case cnext c1 of (r2, c2) \<Rightarrow> f r r2 c2) Q"
proof (cases "cnext c")
  case (Pair r c1)
  have r: "runs (length (rest c)) c [r] c1"
    using eats_cnext(1,2) [OF assms(1) Pair assms(2)] by (simp add: runs_def)
  have "wp (case cnext c1 of (r2, c2) \<Rightarrow> f r r2 c2) Q"
  proof (rule wp_next [OF r])
    show "rest c1 \<noteq> []"
      using assms(3) cpeek2_next [OF assms(1,2) Pair] isSig_cpeek [OF runs_wfc [OF r]] by simp
  qed (use assms(4) in simp)
  then show ?thesis using Pair by simp
qed

lemma wp_next2 [vc2]:
  assumes "runs M c0 ts c" "Kind (Token (cpeek c)) = KName \<and> peek2Symbol s c"
    "\<And>r r2 c2. runs (length (rest c0)) c0 (ts @ [r, r2]) c2 \<Longrightarrow> wp (f r r2 c2) Q"
  shows "wp (case cnext c of (r, c1) \<Rightarrow> case cnext c1 of (r2, c2) \<Rightarrow> f r r2 c2) Q"
proof (cases "cnext c")
  case (Pair r c1)
  have ne: "rest c \<noteq> []" using assms guard_rest(4) [OF runs_wfc] by simp
  note e = eats_cnext [OF runs_wfc [OF assms(1)] Pair ne]
  have "wp (case cnext c1 of (r2, c2) \<Rightarrow> f r r2 c2) Q"
  proof (rule wp_next_guard(1) [OF runs_eats [OF assms(1) e(1)]])
    show "atSymbol s c1" using assms(2) peek2_next [OF runs_wfc [OF assms(1)] ne Pair] by simp
  qed (use assms(3) in simp)
  then show ?thesis using Pair by simp
qed

lemma wp_checked:
  assumes "runs M c0 ts c" "checked c rc" "\<And>r c1. runs M c0 (ts @ [r]) c1 \<Longrightarrow> wp (f r c1) Q"
  shows "wp (case rc of (r, c1) \<Rightarrow> f r c1) Q"
  using assms(2) runs_eats [OF assms(1)] assms(3) by (cases rc) (auto simp: checked_def)

lemma wp_expect [vc1]:
  assumes "runs M c0 ts c" "\<And>r c1. runs M c0 (ts @ [r]) c1 \<Longrightarrow> wp (f r c1) Q"
  shows "wp (case expectSymbol s c of (r, c1) \<Rightarrow> f r c1) Q"
    and "wp (case expectKeyword s c of (r, c1) \<Rightarrow> f r c1) Q"
    and "wp (case expectName c of (r, c1) \<Rightarrow> f r c1) Q"
  using wp_checked [OF assms(1) _ assms(2)] checked_expect [OF runs_wfc [OF assms(1)]] by simp_all

text \<open>A token taken together with a diagnostic.\<close>

lemma eats_zeroRef: "nd c0 < nd c \<Longrightarrow> eats c0 [r, zeroRef] c = eats c0 [r] c"
  by (auto simp: eats_def isSig_def zeroRef_def)

lemma wp_first_err [vc2]:
  assumes "wfc c" "rest c \<noteq> []"
    "\<And>r c1. runs (length (rest c)) c [r] c1 \<Longrightarrow> nd c < nd c1 \<Longrightarrow> wp (f r c1) Q"
  shows "wp (case cnext (errHere m c) of (r, c1) \<Rightarrow> f r c1) Q"
  using eats_err_next [OF assms(1) prod.collapse [symmetric]] assms(2,3)
  by (simp add: runs_def case_prod_beta)

text \<open>A token that may be the end of the file, in a source with interpolation holes.\<close>

lemma wp_next_hole:
  assumes "runs M c0 ts c" "\<not> holeFree c0"
    "\<And>r c1. runs (length (rest c0)) c0 (ts @ [r]) c1 \<Longrightarrow> wp (f r c1) Q"
    "\<And>r. runs M c0 (ts @ [r]) c \<Longrightarrow> \<not> isSig r \<Longrightarrow> wp (f r c) Q"
  shows "wp (case cnext c of (r, c1) \<Rightarrow> f r c1) Q"
proof (cases "rest c = []")
  case True
  note e = cnext_at_end [OF runs_wfc [OF assms(1)] prod.collapse [symmetric] True]
  then have "runs M c0 (ts @ [fst (cnext c)]) c"
    using assms(1,2) by (simp add: runs_def eats_def)
  from assms(4) [OF this] e show ?thesis by (simp add: case_prod_beta)
next
  case False
  then show ?thesis using assms(3) by (intro wp_next [OF assms(1)])
qed

lemma not_holeFree: "wfc c \<Longrightarrow> Kind (Token (cpeek c)) = KInterpStart \<Longrightarrow> \<not> holeFree c"
  by (auto simp: holeFree_def cpeek_def wfc_def list_all_iff)

lemma wp_err_next [vc1]:
  assumes "runs M c0 ts c" "\<And>r c1. runs M c0 (ts @ [r]) c1 \<Longrightarrow> wp (f r c1) Q"
  shows "wp (case cnext (errHere m c) of (r, c1) \<Rightarrow> f r c1) Q"
  using eats_err_next(1) [OF runs_wfc [OF assms(1)]] runs_eats [OF assms(1)] assms(2)
  by (auto split: prod.splits)

text \<open>An optional token: taken when the guard holds.\<close>

fun opt_refs :: "tokenref option \<Rightarrow> tokenref list" where
  "opt_refs None = []"
| "opt_refs (Some r) = [r]"

lemma yields_refs_emit_opt [simp]: "yields_refs (emit_opt r) = opt_refs r"
  by (cases r) auto

lemma wp_opt [vc1]:
  assumes "runs M c0 ts c" "\<And>r c1. runs M c0 (ts @ opt_refs r) c1 \<Longrightarrow> wp (f r c1) Q"
  shows "wp (case (if atSymbol s c then (case cnext c of (r, d) \<Rightarrow> (Some r, d)) else (None, c)) of
              (r, c1) \<Rightarrow> f r c1) Q"
proof (cases "atSymbol s c")
  case True
  note ne = guard_rest(1) [OF runs_wfc [OF assms(1)] True]
  have "runs M c0 (ts @ [fst (cnext c)]) (snd (cnext c))"
    by (rule runs_eats [OF assms(1) eats_cnext(1) [OF runs_wfc [OF assms(1)] prod.collapse [symmetric] ne]])
  then show ?thesis using True assms(2) [of "Some (fst (cnext c))"] by (simp add: case_prod_beta)
next
  case False
  then show ?thesis using assms(2) [of None c] assms(1) by simp
qed

lemma loopFuel_enough: "wfc c \<Longrightarrow> 2 * length (rest c) + 2 < loopFuel c"
  by (simp add: rest_def loopFuel_def wfc_def)

lemma loopFuel_runs: "wfc c \<Longrightarrow> length (rest c) < loopFuel c"
  using loopFuel_enough by fastforce

text \<open>Calling a method, and calling a loop whose accumulator \<open>G0\<close> is already accounted for.\<close>

lemma wp_call:
  assumes "wp m (\<lambda>r c1. eats c (g r) c1)" "runs M c0 ts c"
    and "\<And>r c1. runs M c0 (ts @ g r) c1 \<Longrightarrow> Q r c1"
  shows "wp m Q"
  using assms(1) by (rule wp_mono) (use assms runs_eats in blast)

lemma wp_call_loop:
  assumes "wp m (\<lambda>r c1. \<exists>us. H r = G0 @ us \<and> eats c us c1)" "runs M c0 ts c"
    and "\<And>r c1 us. H r = G0 @ us \<Longrightarrow> runs M c0 (ts @ us) c1 \<Longrightarrow> Q r c1"
  shows "wp m Q"
  using assms(1) by (rule wp_mono) (use assms runs_eats in blast)

lemma wp_again:
  assumes "runs M c ts c1" "G1 = G0 @ ts"
    and "wfc c1 \<Longrightarrow> length (rest c1) < M \<Longrightarrow> refs c1 = refs c \<Longrightarrow>
      wp m (\<lambda>r c2. \<exists>us. H r = G1 @ us \<and> eats c1 us c2)"
  shows "wp m (\<lambda>r c2. \<exists>us. H r = G0 @ us \<and> eats c us c2)"
proof (rule wp_call_loop [OF assms(3) assms(1)])
  show "wfc c1" "length (rest c1) < M" "refs c1 = refs c"
    using assms(1) by (auto simp: runs_def eats_def)
qed (use assms(2) in \<open>auto simp: runs_def\<close>)

lemma loop_exit [vc1]: "runs M c ts c1 \<Longrightarrow> X = G0 @ ts \<Longrightarrow> \<exists>us. X = G0 @ us \<and> eats c us c1"
  by (auto simp: runs_def)

text \<open>At the end of the file every guard is false and \<open>next\<close> stays where it is.\<close>

lemma at_eof:
  assumes "wfc c" "rest c = []"
  shows "Kind (Token (cpeek c)) = KEOF" "atSymbol s c = False" "atKeyword s c = False"
    "catEnd c = True" "isUnaryOp c = False" "binPrec (Token (cpeek c)) = None"
    "atCallString c = False" "cnext c = (cpeek c, c)"
  using isSig_cpeek [OF assms(1)] assms cnext_at_end [OF assms(1) prod.collapse [symmetric] assms(2)]
  by (auto simp: isSig_def atSymbol_def atKeyword_def catEnd_def isUnaryOp_def binPrec_def
      atCallString_def cnext_def)

lemma eof_not_sig: "wfc c \<Longrightarrow> rest c = [] \<Longrightarrow> isSig (cpeek c) = False" "isSig zeroRef = False"
  by (simp_all add: isSig_cpeek) (simp add: isSig_def zeroRef_def)

lemma eats_err_nosig: "wfc c \<Longrightarrow> sig ts = [] \<Longrightarrow> eats c ts (errHere m c)"
  using eats_errHere [of c m] by (auto simp: eats_def)

lemma loopFuel_Suc: "loopFuel c = Suc (2 * length (refs c) + 2)"
  by (simp add: loopFuel_def)

section \<open>Tokens of nodes and separated lists\<close>

lemma EachToken_node [simp]:
  "EachToken (Nil_n t0) = yields_refs (tokens (Nil_n t0))"
  "EachToken (True_n t1) = yields_refs (tokens (True_n t1))"
  "EachToken (False_n t2) = yields_refs (tokens (False_n t2))"
  "EachToken (Vararg t3) = yields_refs (tokens (Vararg t3))"
  "EachToken (Number t4) = yields_refs (tokens (Number t4))"
  "EachToken (String_n t5) = yields_refs (tokens (String_n t5))"
  "EachToken (Name t6) = yields_refs (tokens (Name t6))"
  "EachToken (InterpSimple t7) = yields_refs (tokens (InterpSimple t7))"
  "EachToken (InterpString st8 holes8) = yields_refs (tokens (InterpString st8 holes8))"
  "EachToken (Paren op9 inner9 cl9) = yields_refs (tokens (Paren op9 inner9 cl9))"
  "EachToken (Index base10 dot10 nm10) = yields_refs (tokens (Index base10 dot10 nm10))"
  "EachToken (IndexExpr base11 op11 key11 cl11) = yields_refs (tokens (IndexExpr base11 op11 key11 cl11))"
  "EachToken (Call base12 args12) = yields_refs (tokens (Call base12 args12))"
  "EachToken (MethodCall base13 colon13 nm13 args13) = yields_refs (tokens (MethodCall base13 colon13 nm13 args13))"
  "EachToken (ParenArgs op14 lst14 cl14) = yields_refs (tokens (ParenArgs op14 lst14 cl14))"
  "EachToken (Unary op15 e15) = yields_refs (tokens (Unary op15 e15))"
  "EachToken (Binary l16 op16 r16) = yields_refs (tokens (Binary l16 op16 r16))"
  "EachToken (IfExpr i17 c17 t17 v17 clauses17 el17 ev17) = yields_refs (tokens (IfExpr i17 c17 t17 v17 clauses17 el17 ev17))"
  "EachToken (Table op18 flds18 cl18) = yields_refs (tokens (Table op18 flds18 cl18))"
  "EachToken (FuncExpr f19 body19) = yields_refs (tokens (FuncExpr f19 body19))"
  "EachToken (Block stmts20) = yields_refs (tokens (Block stmts20))"
  "EachToken (SemiStmt t21) = yields_refs (tokens (SemiStmt t21))"
  "EachToken (ErrorStmt t22) = yields_refs (tokens (ErrorStmt t22))"
  "EachToken (LocalStmt l23 names23 seps23 vals23) = yields_refs (tokens (LocalStmt l23 names23 seps23 vals23))"
  "EachToken (LocalFuncStmt l24 f24 nm24 body24) = yields_refs (tokens (LocalFuncStmt l24 f24 nm24 body24))"
  "EachToken (AssignStmt targets25 op25 vals25) = yields_refs (tokens (AssignStmt targets25 op25 vals25))"
  "EachToken (CallStmt c26) = yields_refs (tokens (CallStmt c26))"
  "EachToken (DoStmt d27 body27 en27) = yields_refs (tokens (DoStmt d27 body27 en27))"
  "EachToken (WhileStmt w28 c28 d28 body28 en28) = yields_refs (tokens (WhileStmt w28 c28 d28 body28 en28))"
  "EachToken (RepeatStmt r29 body29 u29 c29) = yields_refs (tokens (RepeatStmt r29 body29 u29 c29))"
  "EachToken (NumericForStmt f30 v30 eq30 st30 c130 lim30 stp30 d30 body30 en30) = yields_refs (tokens (NumericForStmt f30 v30 eq30 st30 c130 lim30 stp30 d30 body30 en30))"
  "EachToken (GenericForStmt f31 names31 seps31 i31 es31 d31 body31 en31) = yields_refs (tokens (GenericForStmt f31 names31 seps31 i31 es31 d31 body31 en31))"
  "EachToken (IfStmt i32 c32 t32 body32 clauses32 el32 en32) = yields_refs (tokens (IfStmt i32 c32 t32 body32 clauses32 el32 en32))"
  "EachToken (FuncStmt f33 nm33 body33) = yields_refs (tokens (FuncStmt f33 nm33 body33))"
  "EachToken (ReturnStmt r34 vals34 semi34) = yields_refs (tokens (ReturnStmt r34 vals34 semi34))"
  "EachToken (BreakStmt b35 semi35) = yields_refs (tokens (BreakStmt b35 semi35))"
  "EachToken (ContinueStmt c36 semi36) = yields_refs (tokens (ContinueStmt c36 semi36))"
  "EachToken (TypeAliasStmt ex37 t37 nm37 generics37 eq37 v37) = yields_refs (tokens (TypeAliasStmt ex37 t37 nm37 generics37 eq37 v37))"
  "EachToken (TypeAssert e38 op38 ty38) = yields_refs (tokens (TypeAssert e38 op38 ty38))"
  "EachToken (TypeName base39 dots39 args39 pack39) = yields_refs (tokens (TypeName base39 dots39 args39 pack39))"
  "EachToken (SingletonType t40) = yields_refs (tokens (SingletonType t40))"
  "EachToken (TypeOptional ty41 q41) = yields_refs (tokens (TypeOptional ty41 q41))"
  "EachToken (TypeBinary l42 op42 r42) = yields_refs (tokens (TypeBinary l42 op42 r42))"
  "EachToken (TypeLead op43 ty43) = yields_refs (tokens (TypeLead op43 ty43))"
  "EachToken (VariadicType dots44 ty44) = yields_refs (tokens (VariadicType dots44 ty44))"
  "EachToken (TypeofType t45 lp45 e45 rp45) = yields_refs (tokens (TypeofType t45 lp45 e45 rp45))"
  "EachToken (FunctionType generics46 lp46 params46 seps46 rp46 arrow46) = yields_refs (tokens (FunctionType generics46 lp46 params46 seps46 rp46 arrow46))"
  "EachToken (TableType op47 flds47 cl47) = yields_refs (tokens (TableType op47 flds47 cl47))"
  by (rule EachToken_eq)+

lemma len_nil: "length [] = length []" and len_one: "length [x] = Suc (length [])"
  by simp_all

lemma emit_seps_snoc [vc_simps]:
  "length xs = Suc (length seps) \<Longrightarrow>
   emit_seps f (xs @ [x]) (seps @ [s]) = emit_seps f xs seps @ YRef s # f x"
  by (induction f xs seps rule: emit_seps.induct) auto

lemma emit_seps_snoc_item [vc_simps]:
  "length xs = length seps \<Longrightarrow> emit_seps f (xs @ [x]) seps = emit_seps f xs seps @ f x"
  by (induction f xs seps rule: emit_seps.induct) auto

lemma emit_seps_snoc_both [vc_simps]:
  "length xs = length seps \<Longrightarrow>
   emit_seps f (xs @ [x]) (seps @ [s]) = emit_seps f xs seps @ f x @ [YRef s]"
  by (induction f xs seps rule: emit_seps.induct) auto

lemma emit_seps_snoc_sep [vc_simps]:
  "length xs = Suc (length seps) \<Longrightarrow>
   emit_seps f xs (seps @ [s]) = emit_seps f xs seps @ [YRef s]"
  by (induction f xs seps rule: emit_seps.induct) auto

section \<open>The methods, over the three entry points\<close>

text \<open>
  What a caller may rely on: the result's tokens are what was consumed; a token is consumed
  unless the cursor stands at the end of the file, in which case a diagnostic is recorded.
\<close>

definition parsed :: "cursor \<Rightarrow> tokenref list \<Rightarrow> cursor \<Rightarrow> bool" where
  "parsed c ts c1 \<longleftrightarrow> eats c ts c1 \<and> (rest c \<noteq> [] \<longrightarrow> length (rest c1) < length (rest c)) \<and>
     (rest c = [] \<longrightarrow> nd c < nd c1)"

lemmas eof_simps = at_eof eof_not_sig loopFuel_Suc eats_err_nosig parsed_def
  expectSymbol_def expectKeyword_def expectName_def

declare eats_refl [vc_simps] runs_def [vc_simps] parsed_def [vc_simps]

lemma parsed_eats: "parsed c ts c1 \<Longrightarrow> eats c ts c1"
  by (simp add: parsed_def)

lemma parsed_then:
  assumes "parsed c ts c1" "eats c1 us c2"
  shows "parsed c (ts @ us) c2"
proof -
  have "nd c1 \<le> nd c2" using assms(2) by (auto simp: eats_def dest: prefix_length_le)
  with assms eats_trans [OF parsed_eats [OF assms(1)] assms(2)] eats_shorter [OF assms(2)]
  show ?thesis by (auto simp: parsed_def)
qed

text \<open>
  \<open>drifts\<close> is \<open>eats\<close> for the targets of an assignment, which may take the
  end-of-file token before any diagnostic is recorded.
\<close>

definition drifts :: "cursor \<Rightarrow> tokenref list \<Rightarrow> cursor \<Rightarrow> bool" where
  "drifts c0 ts c \<longleftrightarrow> wfc c0 \<and> wfc c \<and> refs c = refs c0 \<and> rest c0 = sig ts @ rest c \<and>
     prefix (cdiags c0) (cdiags c) \<and>
     (holeFree c0 \<and> nd c = nd c0 \<and> rest c \<noteq> [] \<longrightarrow> list_all isSig ts)"

lemma eats_drifts: "eats c ts c1 \<Longrightarrow> drifts c ts c1"
  by (auto simp: eats_def drifts_def)

lemma drifts_trans: "drifts a ts b \<Longrightarrow> drifts b us c \<Longrightarrow> drifts a (ts @ us) c"
proof -
  assume a: "drifts a ts b" and b: "drifts b us c"
  then have p: "prefix (cdiags a) (cdiags b)" "prefix (cdiags b) (cdiags c)"
    by (auto simp: drifts_def)
  then have "nd a \<le> nd b" "nd b \<le> nd c" by (auto dest: prefix_length_le)
  then show ?thesis
    using a b prefix_order.trans [OF p] by (auto simp: drifts_def holeFree_def)
qed

lemma drifts_parsed: "drifts a ts b \<Longrightarrow> parsed b us c \<Longrightarrow> eats a (ts @ us) c"
proof -
  assume a: "drifts a ts b" and b: "parsed b us c"
  then have p: "prefix (cdiags a) (cdiags b)" "prefix (cdiags b) (cdiags c)"
    by (auto simp: drifts_def parsed_def eats_def)
  then have "nd a \<le> nd b" "nd b \<le> nd c" by (auto dest: prefix_length_le)
  then show ?thesis
    using a b prefix_order.trans [OF p]
    by (cases "rest b = []") (auto simp: drifts_def parsed_def eats_def holeFree_def)
qed

lemma drifts_next:
  assumes "wfc c"
  shows "drifts c [fst (cnext c)] (snd (cnext c))"
proof (cases "rest c = []")
  case True
  then show ?thesis
    using cnext_at_end [OF assms prod.collapse [symmetric] True] assms by (simp add: drifts_def)
next
  case False
  show ?thesis by (rule eats_drifts [OF eats_cnext(1) [OF assms prod.collapse [symmetric] False]])
qed

text \<open>
  A parser \<open>p\<close> whose result has the tokens \<open>g r\<close>, on cursors with fewer than \<open>K\<close>
  significant tokens left: it accounts for what it consumes; it is an entry point; it is a
  loop over an accumulator with the tokens \<open>G0\<close>.
\<close>

definition accounts :: "nat \<Rightarrow> 'a parser \<Rightarrow> ('a \<Rightarrow> tokenref list) \<Rightarrow> bool" where
  "accounts K p g \<longleftrightarrow>
     (\<forall>c. wfc c \<and> length (rest c) < K \<longrightarrow> wp (p c) (\<lambda>r c1. eats c (g r) c1))"

definition parses :: "nat \<Rightarrow> 'a parser \<Rightarrow> ('a \<Rightarrow> tokenref list) \<Rightarrow> bool" where
  "parses K p g \<longleftrightarrow>
     (\<forall>c. wfc c \<and> length (rest c) < K \<longrightarrow> wp (p c) (\<lambda>r c1. parsed c (g r) c1))"

definition loops ::
  "nat \<Rightarrow> (nat \<Rightarrow> 'a parser) \<Rightarrow> ('a \<Rightarrow> tokenref list) \<Rightarrow> tokenref list \<Rightarrow> bool" where
  "loops K L H G0 \<longleftrightarrow>
     (\<forall>n c. wfc c \<and> length (rest c) < K \<and> length (rest c) < n \<longrightarrow>
        wp (L n c) (\<lambda>r c1. \<exists>us. H r = G0 @ us \<and> eats c us c1))"

lemma accountsI:
  "(\<And>c. wfc c \<Longrightarrow> length (rest c) < K \<Longrightarrow> wp (p c) (\<lambda>r c1. eats c (g r) c1)) \<Longrightarrow> accounts K p g"
  by (simp add: accounts_def)

lemma loopsI:
  "(\<And>n c. wfc c \<Longrightarrow> length (rest c) < K \<Longrightarrow> length (rest c) < n \<Longrightarrow>
      wp (L n c) (\<lambda>r c1. \<exists>us. H r = G0 @ us \<and> eats c us c1)) \<Longrightarrow> loops K L H G0"
  by (simp add: loops_def)

text \<open>A method that is only called while a token is left, and an entry point, which is not.\<close>

definition consumes :: "nat \<Rightarrow> 'a parser \<Rightarrow> ('a \<Rightarrow> tokenref list) \<Rightarrow> bool" where
  "consumes K p g \<longleftrightarrow>
     (\<forall>c. wfc c \<and> rest c \<noteq> [] \<and> length (rest c) \<le> K \<longrightarrow>
        wp (p c) (\<lambda>r c1. runs (length (rest c)) c (g r) c1))"

lemma consumesI:
  "(\<And>c. \<lbrakk>wfc c; rest c \<noteq> []; length (rest c) \<le> K\<rbrakk> \<Longrightarrow>
      wp (p c) (\<lambda>r c1. runs (length (rest c)) c (g r) c1)) \<Longrightarrow> consumes K p g"
  by (simp add: consumes_def)

lemma wp_begin:
  "consumes K p g \<Longrightarrow> wfc c \<Longrightarrow> rest c \<noteq> [] \<Longrightarrow> length (rest c) \<le> K \<Longrightarrow>
   (\<And>r c1. runs (length (rest c)) c (g r) c1 \<Longrightarrow> Q r c1) \<Longrightarrow> wp (p c) Q"
  unfolding consumes_def by (blast intro: wp_mono)

lemma parsesI:
  assumes "consumes K p g"
    and "\<And>c. \<lbrakk>wfc c; rest c = []\<rbrakk> \<Longrightarrow> wp (p c) (\<lambda>r c1. eats c (g r) c1 \<and> nd c < nd c1)"
  shows "parses (Suc K) p g"
  unfolding parses_def
proof (intro allI impI, elim conjE)
  fix c assume c: "wfc c" "length (rest c) < Suc K"
  show "wp (p c) (\<lambda>r c1. parsed c (g r) c1)"
  proof (cases "rest c = []")
    case True
    with c show ?thesis by (intro wp_mono [OF assms(2)]) (auto simp: parsed_def)
  next
    case False
    with c show ?thesis by (intro wp_begin [OF assms(1)]) (auto simp: parsed_def runs_def)
  qed
qed

lemma parses_consumes: "parses (Suc K) p g \<Longrightarrow> consumes K p g"
  by (rule consumesI) (auto simp: parses_def parsed_def runs_def elim!: wp_mono)

lemma parses_accounts: "parses K p g \<Longrightarrow> accounts K p g"
  by (auto simp: parses_def accounts_def intro: wp_mono [OF _ parsed_eats])

lemma wp_accounts:
  assumes "accounts K p g" "runs M c0 ts c" "M \<le> K" "\<And>r c1. runs M c0 (ts @ g r) c1 \<Longrightarrow> Q r c1"
  shows "wp (p c) Q"
  using wp_call [OF _ assms(2), of "p c" g Q] assms runs_wfc runs_less
  unfolding accounts_def by blast

lemmas wp_parses = wp_accounts [OF parses_accounts]

lemma wp_consumes:
  assumes "consumes K p g" "runs M c0 ts c" "M \<le> K" "atSymbol s c"
    "\<And>r c1. runs M c0 (ts @ g r) c1 \<Longrightarrow> Q r c1"
  shows "wp (p c) Q"
proof (rule wp_begin [OF assms(1)])
  show "wfc c" "rest c \<noteq> []" "length (rest c) \<le> K"
    using assms guard_rest(1) runs_wfc runs_less [OF assms(2,3)] by auto
qed (use assms(5) runs_eats [OF assms(2)] in \<open>auto simp: runs_def\<close>)

lemma wp_loops:
  assumes "loops K L H G0" "runs M c0 ts c" "M \<le> K"
    "\<And>r c1 us. H r = G0 @ us \<Longrightarrow> runs M c0 (ts @ us) c1 \<Longrightarrow> Q r c1"
  shows "wp (L (loopFuel c) c) Q"
  using wp_call_loop [OF _ assms(2), of "L (loopFuel c) c" H G0 Q] assms loopFuel_runs
    runs_wfc runs_less unfolding loops_def by blast

lemma wp_loops2:
  assumes "loops K L (\<lambda>(a, b). H a b) G0" "runs M c0 ts c" "M \<le> K"
    "\<And>a b c1 us. H a b = G0 @ us \<Longrightarrow> runs M c0 (ts @ us) c1 \<Longrightarrow> Q (a, b) c1"
  shows "wp (L (loopFuel c) c) Q"
  using assms by (intro wp_loops [OF assms(1-3)]) auto

definition dots_refs :: "dotName list \<Rightarrow> tokenref list" where [vc_simps]:
  "dots_refs ds = yields_refs (concat (map emit_dotName ds))"

abbreviation seps_refs :: "('a \<Rightarrow> node yield list) \<Rightarrow> 'a list \<Rightarrow> tokenref list \<Rightarrow> tokenref list" where
  "seps_refs f xs seps \<equiv> yields_refs (emit_seps f xs seps)"

text \<open>
  The interface between the methods: the entry points, for cursors with fewer than \<open>N\<close>
  significant tokens left, return and account for what they consume.
\<close>

locale sub_parsers =
  fixes pe pt pb :: "node parser" and N :: nat
  assumes pe: "parses N pe EachToken"
    and pt: "parses N pt EachToken"
    and pb: "accounts N pb EachToken"
begin

lemmas wp_pe [vc2] = wp_parses [OF pe]
lemmas wp_pt [vc2] = wp_parses [OF pt]
lemmas wp_pb [vc2] = wp_accounts [OF pb]

subsection \<open>Types\<close>

lemma parseDots: "loops N (\<lambda>n. parseDots n ds) dots_refs (dots_refs ds)"
proof (rule loopsI)
  fix n c assume "wfc c" "length (rest c) < n"
  then show "wp (parseDots n ds c) (\<lambda>r c1. \<exists>us. dots_refs r = dots_refs ds @ us \<and> eats c us c1)"
  proof (induction n arbitrary: ds c)
    case (Suc n)
    note [vc1] = wp_again [OF _ _ Suc.IH]
    show ?case
      unfolding parseDots.simps Let_def
      apply (insert Suc.prems runs_start [OF Suc.prems])
      by (erule vc1 | erule (1) vc2 | erule (2) vc3 | rule vc_intro | simp only: vc_cases | assumption |
      (simp add: vc_simps; fail))+
  qed simp
qed

lemmas wp_parseDots [vc2] = wp_loops [OF parseDots]

lemma parseAnnot: "accounts N (parseAnnot pt) (\<lambda>r. yields_refs (emit_pair r))"
  apply (rule accountsI)
  unfolding parseAnnot_def Let_def
  apply (frule (1) runs_start, frule less_imp_le)
  by (erule vc1 | erule (1) vc2 | erule (2) vc3 | rule vc_intro | simp only: vc_cases | assumption |
      (simp add: vc_simps; fail))+

lemmas wp_parseAnnot [vc2] = wp_accounts [OF parseAnnot]

lemma parseGenericLoop:
  "length ps = length seps \<Longrightarrow>
   loops N (\<lambda>n. parseGenericLoop n pt ps seps) (\<lambda>(a, b). seps_refs emit_GenericParam a b)
     (seps_refs emit_GenericParam ps seps)"
proof (rule loopsI)
  fix n c assume "wfc c" "length (rest c) < N" "length (rest c) < n" "length ps = length seps"
  then show "wp (parseGenericLoop n pt ps seps c)
     (\<lambda>r c1. \<exists>us. (case r of (a, b) \<Rightarrow> seps_refs emit_GenericParam a b) = seps_refs emit_GenericParam ps seps @ us \<and> eats c us c1)"
  proof (induction n arbitrary: ps seps c)
    case (Suc n)
    note [vc1] = wp_again [OF _ _ Suc.IH]
    show ?case
      unfolding parseGenericLoop.simps Let_def
      apply (insert Suc.prems less_imp_le [OF Suc.prems(2)])
      apply (rule wp_if, frule (1) guard_restE)
      by (erule vc1 | erule (1) vc2 | erule (2) vc3 | rule vc_intro | simp only: vc_cases | assumption |
      (simp add: vc_simps; fail))+
  qed simp
qed

lemmas wp_parseGenericLoop [vc2] = wp_loops2 [OF parseGenericLoop [OF len_nil]]

lemma parseGenericParams:
  "consumes N (parseGenericParams pt) (\<lambda>r. yields_refs (emit_GenericParams (Some r)))"
  apply (rule consumesI)
  unfolding parseGenericParams_def Let_def
  by (erule vc1 | erule (1) vc2 | erule (2) vc3 | rule vc_intro | simp only: vc_cases | assumption |
      (simp add: vc_simps; fail))+

lemmas wp_parseGenericParams [vc2] = wp_consumes [OF parseGenericParams]
lemmas begin_parseGenericParams [vc3] = wp_begin [OF parseGenericParams]



lemma parseTypeArgsLoop:
  "length ps = length seps \<Longrightarrow>
   loops N (\<lambda>n. parseTypeArgsLoop n pt ps seps) (\<lambda>(a, b). seps_refs (\<lambda>n. [YChild n]) a b)
     (seps_refs (\<lambda>n. [YChild n]) ps seps)"
proof (rule loopsI)
  fix n c assume "wfc c" "length (rest c) < N" "length (rest c) < n" "length ps = length seps"
  then show "wp (parseTypeArgsLoop n pt ps seps c)
     (\<lambda>r c1. \<exists>us. (case r of (a, b) \<Rightarrow> seps_refs (\<lambda>n. [YChild n]) a b) = seps_refs (\<lambda>n. [YChild n]) ps seps @ us \<and> eats c us c1)"
  proof (induction n arbitrary: ps seps c)
    case (Suc n)
    note [vc1] = wp_again [OF _ _ Suc.IH]
    show ?case
      unfolding parseTypeArgsLoop.simps Let_def
      apply (insert Suc.prems less_imp_le [OF Suc.prems(2)] runs_start [OF Suc.prems(1,2)] order_refl [of N])
      by (erule vc1 | erule (1) vc2 | erule (2) vc3 | rule vc_intro | simp only: vc_cases | assumption |
      (simp add: vc_simps; fail))+
  qed simp
qed

lemmas wp_parseTypeArgsLoop [vc2] = wp_loops2 [OF parseTypeArgsLoop [OF len_nil]]

lemma parseTypeArgs: "consumes N (parseTypeArgs pt) (\<lambda>r. yields_refs (emit_TypeArgs (Some r)))"
  apply (rule consumesI)
  unfolding parseTypeArgs_def Let_def
  by (erule vc1 | erule (1) vc2 | erule (2) vc3 | rule vc_intro | simp only: vc_cases | assumption |
      (simp add: vc_simps; fail))+

lemmas wp_parseTypeArgs [vc2] = wp_consumes [OF parseTypeArgs]

lemma parseTypeName: "consumes N (parseTypeName pt) EachToken"
  apply (rule consumesI)
  unfolding parseTypeName_def Let_def
  by (erule vc1 | erule (1) vc2 | erule (2) vc3 | rule vc_intro | simp only: vc_cases | assumption |
      (simp add: vc_simps; fail))+

lemmas begin_parseTypeName [vc3] = wp_begin [OF parseTypeName]

lemma parseTypeParam: "accounts N (parseTypeParam pt) (\<lambda>r. yields_refs (emit_TypeParam r))"
  apply (rule accountsI)
  unfolding parseTypeParam_def Let_def
  apply (frule (1) runs_start, frule less_imp_le)
  apply (insert order_refl [of N])
  by (erule vc1 | erule (1) vc2 | erule (2) vc3 | rule vc_intro | simp only: vc_cases | assumption |
      (simp add: vc_simps; fail))+

lemmas wp_parseTypeParam [vc2] = wp_accounts [OF parseTypeParam]

lemma parseTypeParamLoop:
  "length ps = Suc (length seps) \<Longrightarrow>
   loops N (\<lambda>n. parseTypeParamLoop n pt ps seps) (\<lambda>(a, b). seps_refs emit_TypeParam a b)
     (seps_refs emit_TypeParam ps seps)"
proof (rule loopsI)
  fix n c assume "wfc c" "length (rest c) < N" "length (rest c) < n" "length ps = Suc (length seps)"
  then show "wp (parseTypeParamLoop n pt ps seps c)
     (\<lambda>r c1. \<exists>us. (case r of (a, b) \<Rightarrow> seps_refs emit_TypeParam a b) = seps_refs emit_TypeParam ps seps @ us \<and> eats c us c1)"
  proof (induction n arbitrary: ps seps c)
    case (Suc n)
    note [vc1] = wp_again [OF _ _ Suc.IH]
    show ?case
      unfolding parseTypeParamLoop.simps Let_def
      apply (insert Suc.prems less_imp_le [OF Suc.prems(2)] runs_start [OF Suc.prems(1,2)])
      by (erule vc1 | erule (1) vc2 | erule (2) vc3 | rule vc_intro | simp only: vc_cases | assumption |
      (simp add: vc_simps; fail))+
  qed simp
qed

lemmas wp_parseTypeParamLoop [vc2] = wp_loops2 [OF parseTypeParamLoop [OF len_one]]

lemma parseParenType:
  assumes "wfc c" "length (rest c) \<le> N"
  shows "wp (parseParenType g pt c)
    (\<lambda>r c1. \<exists>us. EachToken r = yields_refs (emit_GenericParams g) @ us \<and> parsed c us c1)"
proof (cases "rest c = []")
  case True
  with assms show ?thesis by (simp add: parseParenType_def eof_simps)
next
  case False
  then show ?thesis
    unfolding parseParenType_def Let_def
    apply (insert assms False)
    by (erule vc1 | erule (1) vc2 | erule (2) vc3 | rule vc_intro | simp only: vc_cases | assumption |
      (simp add: vc_simps; fail))+
qed

lemma wp_parseParenType [vc2]:
  assumes "runs M c0 ts c" "M \<le> N"
    "\<And>r c1 us. EachToken r = yields_refs (emit_GenericParams g) @ us \<Longrightarrow> runs M c0 (ts @ us) c1 \<Longrightarrow> Q r c1"
  shows "wp (parseParenType g pt c) Q"
proof (rule wp_call_loop [OF _ assms(1,3)])
  show "wp (parseParenType g pt c)
      (\<lambda>r c1. \<exists>us. EachToken r = yields_refs (emit_GenericParams g) @ us \<and> eats c us c1)"
    by (rule wp_mono [OF parseParenType [OF runs_wfc [OF assms(1)]]])
      (use runs_less [OF assms(1,2)] parsed_eats in auto)
qed

lemma begin_parseParenType [vc3]:
  assumes "wfc c" "rest c \<noteq> []" "length (rest c) \<le> N"
    "\<And>r c1. runs (length (rest c)) c (EachToken r) c1 \<Longrightarrow> Q r c1"
  shows "wp (parseParenType None pt c) Q"
  by (rule wp_mono [OF parseParenType [OF assms(1,3)]]) (use assms in \<open>auto simp: parsed_def runs_def\<close>)

text \<open>Field lists, for any field parser that leaves the separator to the loop.\<close>

lemma setSep_refs [vc_simps]:
  "yields_refs (tokens_TableField (setSep (Some s) f)) = yields_refs (tokens_TableField (setSep None f)) @ [s]"
  by (cases f) auto

lemma wp_field:
  assumes pf: "accounts N pf (\<lambda>f. yields_refs (tokens_TableField f))"
    and nosep: "\<forall>c f c1. pf c = Some (f, c1) \<longrightarrow> setSep None f = f"
    and r: "runs M c0 ts c" and m: "M \<le> N"
    and q: "\<And>f c1. runs M c0 (ts @ yields_refs (tokens_TableField f)) c1 \<Longrightarrow> setSep None f = f \<Longrightarrow> Q f c1"
  shows "wp (pf c) Q"
proof -
  have "wp (pf c) (\<lambda>f c1. runs M c0 (ts @ yields_refs (tokens_TableField f)) c1)"
    by (rule wp_accounts [OF pf r m])
  then show ?thesis unfolding wp_def using nosep q by blast
qed

lemma parseFieldLoop:
  assumes pf: "accounts N pf (\<lambda>f. yields_refs (tokens_TableField f))"
    and nosep: "\<forall>c f c1. pf c = Some (f, c1) \<longrightarrow> setSep None f = f"
  shows "loops N (\<lambda>n. parseFieldLoop n pf fs) (\<lambda>a. yields_refs (concat (map tokens_TableField a)))
     (yields_refs (concat (map tokens_TableField fs)))"
proof (rule loopsI)
  fix n c assume "wfc c" "length (rest c) < N" "length (rest c) < n"
  then show "wp (parseFieldLoop n pf fs c)
     (\<lambda>r c1. \<exists>us. yields_refs (concat (map tokens_TableField r)) =
         yields_refs (concat (map tokens_TableField fs)) @ us \<and> eats c us c1)"
  proof (induction n arbitrary: fs c)
    case (Suc n)
    note [vc1] = wp_again [OF _ _ Suc.IH]
    note [vc2] = wp_field [OF pf nosep]
    show ?case
      unfolding parseFieldLoop.simps Let_def
      apply (insert Suc.prems less_imp_le [OF Suc.prems(2)] runs_start [OF Suc.prems(1,2)] order_refl [of N])
      by (erule vc1 | erule (1) vc2 | erule (2) vc3 | rule vc_intro | simp only: vc_cases | assumption |
      (simp add: vc_simps; fail))+
  qed simp
qed

lemma parseTableTypeField:
  "accounts N (parseTableTypeField pt) (\<lambda>f. yields_refs (tokens_TableField f))"
  apply (rule accountsI)
  unfolding parseTableTypeField_def Let_def
  apply (frule (1) runs_start, frule less_imp_le)
  apply (insert order_refl [of N])
  by (erule vc1 | erule (1) vc2 | erule (2) vc3 | rule vc_intro | simp only: vc_cases | assumption |
      (simp add: vc_simps; fail))+

lemma parseTableTypeField_nosep: "\<forall>c f c1. parseTableTypeField pt c = Some (f, c1) \<longrightarrow> setSep None f = f"
  by (auto simp: parseTableTypeField_def Let_def split: if_splits prod.splits bind_splits)

lemmas wp_typeFieldLoop [vc2] = wp_loops [OF parseFieldLoop [OF parseTableTypeField parseTableTypeField_nosep]]

lemma parseTableType: "consumes N (parseTableType pt) EachToken"
  apply (rule consumesI)
  unfolding parseTableType_def Let_def
  by (erule vc1 | erule (1) vc2 | erule (2) vc3 | rule vc_intro | simp only: vc_cases | assumption |
      (simp add: vc_simps; fail))+

lemma parseTypeof: "consumes N (parseTypeof pe) EachToken"
  apply (rule consumesI)
  unfolding parseTypeof_def Let_def
  by (erule vc1 | erule (1) vc2 | erule (2) vc3 | rule vc_intro | simp only: vc_cases | assumption |
      (simp add: vc_simps; fail))+

lemmas begin_types [vc3] = wp_begin [OF parseTableType] wp_begin [OF parseTypeof]

lemma parseTypePrimary: "parses (Suc N) (parseTypePrimary pe pt) EachToken"
proof (rule parsesI)
  show "consumes N (parseTypePrimary pe pt) EachToken"
    apply (rule consumesI)
    unfolding parseTypePrimary_def Let_def
    by (erule vc1 | erule (1) vc2 | erule (2) vc3 | rule vc_intro | simp only: vc_cases | assumption |
      (simp add: vc_simps; fail))+
qed (simp add: parseTypePrimary_def eof_simps)

lemmas begin_parseTypePrimary [vc3] = wp_begin [OF parses_consumes [OF parseTypePrimary]]

lemma typeOptionalLoop: "loops (Suc N) (\<lambda>n. typeOptionalLoop n t) EachToken (EachToken t)"
proof (rule loopsI)
  fix n c assume "wfc c" "length (rest c) < n"
  then show "wp (typeOptionalLoop n t c) (\<lambda>r c1. \<exists>us. EachToken r = EachToken t @ us \<and> eats c us c1)"
  proof (induction n arbitrary: t c)
    case (Suc n)
    note [vc1] = wp_again [OF _ _ Suc.IH]
    show ?case
      unfolding typeOptionalLoop.simps Let_def
      apply (insert Suc.prems runs_start [OF Suc.prems])
      by (erule vc1 | erule (1) vc2 | erule (2) vc3 | rule vc_intro | simp only: vc_cases | assumption |
      (simp add: vc_simps; fail))+
  qed simp
qed

lemmas wp_typeOptionalLoop [vc2] = wp_loops [OF typeOptionalLoop, OF _ le_SucI]

lemma parseTypePostfix: "parses (Suc N) (parseTypePostfix pe pt) EachToken"
proof (rule parsesI)
  show "consumes N (parseTypePostfix pe pt) EachToken"
    apply (rule consumesI)
    unfolding parseTypePostfix_def Let_def
    by (erule vc1 | erule (1) vc2 | erule (2) vc3 | rule vc_intro | simp only: vc_cases | assumption |
      (simp add: vc_simps; fail))+
qed (simp add: parseTypePostfix_def parseTypePrimary_def eof_simps)

lemmas begin_parseTypePostfix [vc3] = wp_begin [OF parses_consumes [OF parseTypePostfix]]
lemmas wp_parseTypePostfix [vc2] = wp_parses [OF parseTypePostfix, OF _ le_SucI]

lemma typeBinaryLoop:
  "loops (Suc N) (\<lambda>n. typeBinaryLoop n (parseTypePostfix pe pt) t) EachToken (EachToken t)"
proof (rule loopsI)
  fix n c assume "wfc c" "length (rest c) < Suc N" "length (rest c) < n"
  then show "wp (typeBinaryLoop n (parseTypePostfix pe pt) t c)
     (\<lambda>r c1. \<exists>us. EachToken r = EachToken t @ us \<and> eats c us c1)"
  proof (induction n arbitrary: t c)
    case (Suc n)
    note [vc1] = wp_again [OF _ _ Suc.IH]
    show ?case
      unfolding typeBinaryLoop.simps Let_def
      apply (insert Suc.prems runs_start [OF Suc.prems(1,3)] Suc.prems(2) [unfolded less_Suc_eq_le])
      by (erule vc1 | erule (1) vc2 | erule (2) vc3 | rule vc_intro | simp only: vc_cases | assumption |
      (simp add: vc_simps; fail))+
  qed simp
qed

lemmas wp_typeBinaryLoop [vc2] = wp_loops [OF typeBinaryLoop, OF _ le_SucI]

lemma parseTypeStep: "parses (Suc N) (parseTypeStep pe pt) EachToken"
proof (rule parsesI)
  show "consumes N (parseTypeStep pe pt) EachToken"
    apply (rule consumesI)
    unfolding parseTypeStep_def Let_def
    by (erule vc1 | erule (1) vc2 | erule (2) vc3 | rule vc_intro | simp only: vc_cases | assumption |
      (simp add: vc_simps; fail))+
qed (simp add: parseTypeStep_def parseTypePostfix_def parseTypePrimary_def eof_simps)

subsection \<open>Function bodies\<close>

lemma parseParam: "accounts N (parseParam pt) (\<lambda>r. yields_refs (emit_Param r))"
  apply (rule accountsI)
  unfolding parseParam_def Let_def
  apply (frule (1) runs_start, frule less_imp_le)
  apply (insert order_refl [of N])
  by (erule vc1 | erule (1) vc2 | erule (2) vc3 | rule vc_intro | simp only: vc_cases | assumption |
      (simp add: vc_simps; fail))+

lemmas wp_parseParam [vc2] = wp_accounts [OF parseParam]

lemma parseParamLoop:
  "length ps = Suc (length seps) \<Longrightarrow>
   loops N (\<lambda>n. parseParamLoop n pt ps seps) (\<lambda>(a, b). seps_refs emit_Param a b)
     (seps_refs emit_Param ps seps)"
proof (rule loopsI)
  fix n c assume "wfc c" "length (rest c) < N" "length (rest c) < n" "length ps = Suc (length seps)"
  then show "wp (parseParamLoop n pt ps seps c)
     (\<lambda>r c1. \<exists>us. (case r of (a, b) \<Rightarrow> seps_refs emit_Param a b) = seps_refs emit_Param ps seps @ us \<and> eats c us c1)"
  proof (induction n arbitrary: ps seps c)
    case (Suc n)
    note [vc1] = wp_again [OF _ _ Suc.IH]
    show ?case
      unfolding parseParamLoop.simps Let_def
      apply (insert Suc.prems less_imp_le [OF Suc.prems(2)] runs_start [OF Suc.prems(1,2)])
      by (erule vc1 | erule (1) vc2 | erule (2) vc3 | rule vc_intro | simp only: vc_cases | assumption |
      (simp add: vc_simps; fail))+
  qed simp
qed

lemmas wp_parseParamLoop [vc2] = wp_loops2 [OF parseParamLoop [OF len_one]]

lemma parseFuncBody: "accounts N (parseFuncBody pt pb) (\<lambda>r. yields_refs (emit_FuncBody r))"
  apply (rule accountsI)
  unfolding parseFuncBody_def Let_def
  apply (frule (1) runs_start, frule less_imp_le)
  apply (insert order_refl [of N])
  by (erule vc1 | erule (1) vc2 | erule (2) vc3 | rule vc_intro | simp only: vc_cases | assumption |
      (simp add: vc_simps; fail))+

lemmas wp_parseFuncBody [vc2] = wp_accounts [OF parseFuncBody]

subsection \<open>Expressions\<close>

lemma parseExprListLoop:
  "length items = Suc (length seps) \<Longrightarrow>
   loops N (\<lambda>n. parseExprListLoop n pe stop items seps) (\<lambda>l. yields_refs (tokens_ExprList l))
     (seps_refs (\<lambda>n. [YChild n]) items seps)"
proof (rule loopsI)
  fix n c assume "wfc c" "length (rest c) < N" "length (rest c) < n" "length items = Suc (length seps)"
  then show "wp (parseExprListLoop n pe stop items seps c)
     (\<lambda>r c1. \<exists>us. yields_refs (tokens_ExprList r) = seps_refs (\<lambda>n. [YChild n]) items seps @ us \<and> eats c us c1)"
  proof (induction n arbitrary: items seps c)
    case (Suc n)
    note [vc1] = wp_again [OF _ _ Suc.IH]
    show ?case
      unfolding parseExprListLoop.simps Let_def
      apply (insert Suc.prems less_imp_le [OF Suc.prems(2)] runs_start [OF Suc.prems(1,2)])
      by (erule vc1 | erule (1) vc2 | erule (2) vc3 | rule vc_intro | simp only: vc_cases | assumption |
      (simp add: vc_simps; fail))+
  qed simp
qed

lemmas wp_parseExprListLoop [vc2] = wp_loops [OF parseExprListLoop [OF len_one]]

lemma parseExprListInto: "accounts N (parseExprListInto pe stop) (\<lambda>l. yields_refs (tokens_ExprList l))"
  apply (rule accountsI)
  unfolding parseExprListInto_def Let_def
  apply (frule (1) runs_start)
  apply (insert order_refl [of N])
  by (erule vc1 | erule (1) vc2 | erule (2) vc3 | rule vc_intro | simp only: vc_cases | assumption |
      (simp add: vc_simps; fail))+

lemmas wp_parseExprListInto [vc2] = wp_accounts [OF parseExprListInto]

lemma parseParen: "consumes N (parseParen pe) EachToken"
  apply (rule consumesI)
  unfolding parseParen_def Let_def
  by (erule vc1 | erule (1) vc2 | erule (2) vc3 | rule vc_intro | simp only: vc_cases | assumption |
      (simp add: vc_simps; fail))+

lemma parseTableField:
  "accounts N (parseTableField pe) (\<lambda>f. yields_refs (tokens_TableField f))"
  apply (rule accountsI)
  unfolding parseTableField_def Let_def
  apply (frule (1) runs_start, frule less_imp_le)
  apply (insert order_refl [of N])
  by (erule vc1 | erule (1) vc2 | erule (2) vc3 | rule vc_intro | simp only: vc_cases | assumption |
      (simp add: vc_simps; fail))+

lemma parseTableField_nosep: "\<forall>c f c1. parseTableField pe c = Some (f, c1) \<longrightarrow> setSep None f = f"
  by (auto simp: parseTableField_def Let_def split: if_splits prod.splits bind_splits)

lemmas wp_fieldLoop [vc2] = wp_loops [OF parseFieldLoop [OF parseTableField parseTableField_nosep]]

lemma parseTable: "consumes N (parseTable pe) EachToken"
  apply (rule consumesI)
  unfolding parseTable_def Let_def
  by (erule vc1 | erule (1) vc2 | erule (2) vc3 | rule vc_intro | simp only: vc_cases | assumption |
      (simp add: vc_simps; fail))+

lemma parseParenArgs: "consumes N (parseParenArgs pe) EachToken"
  apply (rule consumesI)
  unfolding parseParenArgs_def Let_def
  by (erule vc1 | erule (1) vc2 | erule (2) vc3 | rule vc_intro | simp only: vc_cases | assumption |
      (simp add: vc_simps; fail))+

lemmas begin_exprs [vc3] =
  wp_begin [OF parseParen] wp_begin [OF parseTable] wp_begin [OF parseParenArgs]

lemma interpLoop:
  "\<lbrakk>wfc c; length (rest c) < N; length (rest c) < n; \<not> holeFree c\<rbrakk> \<Longrightarrow>
   wp (interpLoop n pe holes c)
     (\<lambda>r c1. \<exists>us. yields_refs (concat (map (\<lambda>(e, m). [YChild e, YRef m]) r)) =
        yields_refs (concat (map (\<lambda>(e, m). [YChild e, YRef m]) holes)) @ us \<and> eats c us c1)"
proof (induction n arbitrary: holes c)
  case (Suc n)
  note [vc1] = wp_again [OF _ _ Suc.IH]
  note [vc2] = wp_next_hole
  show ?case
    unfolding interpLoop.simps Let_def
    apply (insert Suc.prems runs_start [OF Suc.prems(1,2)] order_refl [of N])
    supply isSig_def [vc_simps] holeFree_def [vc_simps]
    by (erule vc1 | erule (1) vc2 | erule (2) vc3 | rule vc_intro | simp only: vc_cases | assumption |
      (simp add: vc_simps; fail))+
qed simp

lemma begin_parseInterpString [vc3]:
  assumes "wfc c" "rest c \<noteq> []" "length (rest c) \<le> N"
    "Kind (Token (cpeek c)) = KInterpSimple \<or> Kind (Token (cpeek c)) = KInterpStart"
    "\<And>r c1. runs (length (rest c)) c (EachToken r) c1 \<Longrightarrow> Q r c1"
  shows "wp (parseInterpString pe c) Q"
  unfolding parseInterpString_def Let_def
proof (rule wp_first [OF assms(1,2)], rule wp_if)
  fix r c1 assume r: "runs (length (rest c)) c [r] c1" and "Kind (Token (cpeek c)) \<noteq> KInterpSimple"
  then have h: "\<not> holeFree c1"
    using assms(4) not_holeFree [OF assms(1)] by (auto simp: runs_def eats_def holeFree_def)
  show "wp (interpLoop (loopFuel c1) pe [] c1 \<bind> (\<lambda>(holes, c2). Some (InterpString r holes, c2))) Q"
  proof (rule wp_bindI, rule wp_call_loop [OF interpLoop r])
    show "wfc c1" "length (rest c1) < N" "length (rest c1) < loopFuel c1"
      using runs_wfc [OF r] runs_less [OF r assms(3)] loopFuel_runs by auto
  qed (use h assms(5) in simp_all)
qed (use assms(5) in simp)

lemma parseCallArgs: "parses (Suc N) (parseCallArgs pe) EachToken"
proof (rule parsesI)
  show "consumes N (parseCallArgs pe) EachToken"
    apply (rule consumesI)
    unfolding parseCallArgs_def Let_def
    supply eats_zeroRef [vc_simps]
    by (erule vc1 | erule (1) vc2 | erule (2) vc3 | rule vc_intro | simp only: vc_cases | assumption |
      (simp add: vc_simps; fail))+
qed (simp add: parseCallArgs_def eof_simps)

lemmas wp_parseCallArgs [vc2] = wp_parses [OF parseCallArgs, OF _ le_SucI]

lemma begin_parseCallArgs [vc3]:
  assumes "wfc c" "atSymbol s c \<or> atSymbol s' c \<or> atCallString c" "length (rest c) \<le> N"
    "\<And>r c1. runs (length (rest c)) c (EachToken r) c1 \<Longrightarrow> Q r c1"
  shows "wp (parseCallArgs pe c) Q"
proof (rule wp_begin [OF parses_consumes [OF parseCallArgs] assms(1) _ assms(3,4)])
  show "rest c \<noteq> []" using assms(2) at_eof [OF assms(1)] by blast
qed

lemma parseSuffixes: "loops (Suc N) (\<lambda>n. parseSuffixes n pe b) EachToken (EachToken b)"
proof (rule loopsI)
  fix n c assume "wfc c" "length (rest c) < Suc N" "length (rest c) < n"
  then show "wp (parseSuffixes n pe b c) (\<lambda>r c1. \<exists>us. EachToken r = EachToken b @ us \<and> eats c us c1)"
  proof (induction n arbitrary: b c)
    case (Suc n)
    note [vc1] = wp_again [OF _ _ Suc.IH]
    show ?case
      unfolding parseSuffixes.simps Let_def
      apply (insert Suc.prems runs_start [OF Suc.prems(1,2)] Suc.prems(2) [unfolded less_Suc_eq_le])
      by (erule vc1 | erule (1) vc2 | erule (2) vc3 | rule vc_intro | simp only: vc_cases | assumption |
      (simp add: vc_simps; fail))+
  qed simp
qed

lemmas wp_parseSuffixes [vc2] = wp_loops [OF parseSuffixes, OF _ le_SucI]

lemma parsePrefixExpr: "consumes N (parsePrefixExpr pe) EachToken"
  apply (rule consumesI)
  unfolding parsePrefixExpr_def parsePrefixAtom_def Let_def
  by (erule vc1 | erule (1) vc2 | erule (2) vc3 | rule vc_intro | simp only: vc_cases | assumption |
      (simp add: vc_simps; fail))+

lemma parsePrefixExpr_eof: "wfc c \<Longrightarrow> rest c = [] \<Longrightarrow> parsePrefixExpr pe c = Some (Name (cpeek c), c)"
  by (simp add: parsePrefixExpr_def parsePrefixAtom_def eof_simps)

lemmas begin_parsePrefixExpr [vc3] = wp_begin [OF parsePrefixExpr]

lemma parseValue: "parses (Suc N) (parseValue pe pt pb) EachToken"
proof (rule parsesI)
  show "consumes N (parseValue pe pt pb) EachToken"
    apply (rule consumesI)
    unfolding parseValue_def leaf_def Let_def
    by (erule vc1 | erule (1) vc2 | erule (2) vc3 | rule vc_intro | simp only: vc_cases | assumption |
      (simp add: vc_simps; fail))+
qed (simp add: parseValue_def leaf_def eof_simps)

lemmas begin_parseValue [vc3] = wp_begin [OF parses_consumes [OF parseValue]]

lemma asExpLoop: "loops (Suc N) (\<lambda>n. asExpLoop n pt e) EachToken (EachToken e)"
proof (rule loopsI)
  fix n c assume "wfc c" "length (rest c) < Suc N" "length (rest c) < n"
  then show "wp (asExpLoop n pt e c) (\<lambda>r c1. \<exists>us. EachToken r = EachToken e @ us \<and> eats c us c1)"
  proof (induction n arbitrary: e c)
    case (Suc n)
    note [vc1] = wp_again [OF _ _ Suc.IH]
    show ?case
      unfolding asExpLoop.simps Let_def
      apply (insert Suc.prems runs_start [OF Suc.prems(1,2)] Suc.prems(2) [unfolded less_Suc_eq_le])
      by (erule vc1 | erule (1) vc2 | erule (2) vc3 | rule vc_intro | simp only: vc_cases | assumption |
      (simp add: vc_simps; fail))+
  qed simp
qed

lemmas wp_asExpLoop [vc2] = wp_loops [OF asExpLoop, OF _ le_SucI]

lemma parseAsExp: "parses (Suc N) (parseAsExp pe pt pb) EachToken"
proof (rule parsesI)
  show "consumes N (parseAsExp pe pt pb) EachToken"
    apply (rule consumesI)
    unfolding parseAsExp_def Let_def
    by (erule vc1 | erule (1) vc2 | erule (2) vc3 | rule vc_intro | simp only: vc_cases | assumption |
      (simp add: vc_simps; fail))+
qed (simp add: parseAsExp_def parseValue_def leaf_def eof_simps)

lemma ifExprLoop:
  "loops N (\<lambda>n. ifExprLoop n pe cls) (\<lambda>a. yields_refs (concat (map emit_Clause a)))
     (yields_refs (concat (map emit_Clause cls)))"
proof (rule loopsI)
  fix n c assume "wfc c" "length (rest c) < N" "length (rest c) < n"
  then show "wp (ifExprLoop n pe cls c) (\<lambda>r c1. \<exists>us. yields_refs (concat (map emit_Clause r)) =
      yields_refs (concat (map emit_Clause cls)) @ us \<and> eats c us c1)"
  proof (induction n arbitrary: cls c)
    case (Suc n)
    note [vc1] = wp_again [OF _ _ Suc.IH]
    show ?case
      unfolding ifExprLoop.simps Let_def
      apply (insert Suc.prems less_imp_le [OF Suc.prems(2)] runs_start [OF Suc.prems(1,2)])
      by (erule vc1 | erule (1) vc2 | erule (2) vc3 | rule vc_intro | simp only: vc_cases | assumption |
      (simp add: vc_simps; fail))+
  qed simp
qed

lemmas wp_ifExprLoop [vc2] = wp_loops [OF ifExprLoop]

lemma parseIfExpr: "consumes N (parseIfExpr pe) EachToken"
  apply (rule consumesI)
  unfolding parseIfExpr_def Let_def
  by (erule vc1 | erule (1) vc2 | erule (2) vc3 | rule vc_intro | simp only: vc_cases | assumption |
      (simp add: vc_simps; fail))+

text \<open>
  The precedence-climbing loop: \<open>2 * length (rest c) + 2\<close> rounds are enough, one for the
  operand and one for the loop per operator.
\<close>

lemma wp_operand:
  assumes c: "wfc c" "rest c \<noteq> []" "length (rest c) \<le> N" "2 * length (rest c) < Suc n"
    and IH: "\<And>c. \<lbrakk>wfc c; length (rest c) \<le> N; 2 * length (rest c) + 1 < n\<rbrakk> \<Longrightarrow>
      wp (parseBinary n pv m c) (\<lambda>r c1. parsed c (EachToken r) c1)"
    and f: "\<And>op e c2. runs (length (rest c)) c ([op] @ EachToken e) c2 \<Longrightarrow> wp (f op e c2) Q"
  shows "wp (case cnext c of (op, c1) \<Rightarrow> parseBinary n pv m c1 \<bind> (\<lambda>(e, c2). f op e c2)) Q"
proof (rule wp_first [OF c(1,2)], rule wp_bindI)
  fix op c1 assume r: "runs (length (rest c)) c [op] c1"
  have "wp (parseBinary n pv m c1) (\<lambda>r d. parsed c1 (EachToken r) d)"
    using IH [of c1] runs_wfc [OF r] runs_less [OF r order_refl] c by simp
  then have "wp (parseBinary n pv m c1) (\<lambda>r d. eats c1 (EachToken r) d)"
    by (rule wp_mono [OF _ parsed_eats])
  then show "wp (parseBinary n pv m c1) (\<lambda>e c2. wp (f op e c2) Q)"
    by (rule wp_call [OF _ r f])
qed

lemma parseBinary_all:
  assumes pv: "parses (Suc N) pv EachToken"
  shows "wfc c \<Longrightarrow> length (rest c) \<le> N \<Longrightarrow> 2 * length (rest c) + 1 < n \<Longrightarrow>
      wp (parseBinary n pv minPrec c) (\<lambda>r c1. parsed c (EachToken r) c1)"
    and "wfc c \<Longrightarrow> length (rest c) \<le> N \<Longrightarrow> 2 * length (rest c) < n \<Longrightarrow>
      wp (parseUnary n pv c) (\<lambda>r c1. parsed c (EachToken r) c1)"
    and "wfc c \<Longrightarrow> length (rest c) \<le> N \<Longrightarrow> 2 * length (rest c) < n \<Longrightarrow>
      wp (binaryLoop n pv minPrec l c) (\<lambda>r c1. \<exists>us. EachToken r = EachToken l @ us \<and> eats c us c1)"
proof (induction n arbitrary: c minPrec l)
  case (Suc n)
  {
    case 1
    show ?case
      unfolding parseBinary.simps
    proof (rule wp_bindI, rule wp_mono [OF Suc.IH(2)])
      fix l c1 assume p: "parsed c (EachToken l) c1"
      then have "wfc c1" "length (rest c1) \<le> length (rest c)" by (auto simp: parsed_def eats_def)
      with 1 show "wp (binaryLoop n pv minPrec l c1) (\<lambda>r c2. parsed c (EachToken r) c2)"
        by (intro wp_mono [OF Suc.IH(3)]) (use parsed_then [OF p] in auto)
    qed (use 1 in auto)
  next
    case 2
    have ne: "isUnaryOp c \<Longrightarrow> rest c \<noteq> []" using at_eof [OF 2(1)] by blast
    show ?case
      unfolding parseUnary.simps Let_def
    proof (rule wp_if)
      assume "isUnaryOp c"
      then show "wp (case cnext c of (op, c1) \<Rightarrow> parseBinary n pv unaryPrec c1 \<bind>
          (\<lambda>(e, c2). Some (Unary op e, c2))) (\<lambda>r c1. parsed c (EachToken r) c1)"
        by (intro wp_operand [OF 2(1) ne 2(2,3) Suc.IH(1)]) (auto simp: parsed_def runs_def)
    qed (use pv 2 in \<open>simp add: parses_def\<close>)
  next
    case 3
    have ne: "binPrec (Token (cpeek c)) = Some b \<Longrightarrow> rest c \<noteq> []" for b using at_eof [OF 3(1)] by auto
    show ?case
    proof (cases "\<exists>prec ra. binPrec (Token (cpeek c)) = Some (prec, ra) \<and> \<not> prec < minPrec")
      case False
      then show ?thesis using eats_refl [OF 3(1)] by (auto split: option.splits)
    next
      case True
      then obtain prec ra where b: "binPrec (Token (cpeek c)) = Some (prec, ra)" "\<not> prec < minPrec" by auto
      have "wp (case cnext c of (op, c1) \<Rightarrow> parseBinary n pv (if ra then prec else prec + 1) c1 \<bind>
           (\<lambda>(r, c2). binaryLoop n pv minPrec (Binary l op r) c2))
         (\<lambda>r c1. \<exists>us. EachToken r = EachToken l @ us \<and> eats c us c1)"
        by (rule wp_operand [OF 3(1) ne [OF b(1)] 3(2,3) Suc.IH(1)])
          (assumption+, erule wp_again [OF _ _ Suc.IH(3)], use 3 in auto)
      with b show ?thesis by (simp add: Let_def)
    qed
  }
qed simp_all

lemma parseExprStep: "parses (Suc N) (parseExprStep pe pt pb) EachToken"
  unfolding parses_def
proof (intro allI impI, elim conjE)
  fix c assume c: "wfc c" "length (rest c) < Suc N"
  show "wp (parseExprStep pe pt pb c) (\<lambda>r c1. parsed c (EachToken r) c1)"
    unfolding parseExprStep_def
  proof (rule wp_if)
    assume "atKeyword ''if'' c"
    with c show "wp (parseIfExpr pe c) (\<lambda>r c1. parsed c (EachToken r) c1)"
      by (intro wp_begin [OF parseIfExpr]) (auto simp: guard_rest parsed_def runs_def)
  next
    show "wp (parseBinary (loopFuel c) (parseAsExp pe pt pb) 1 c) (\<lambda>r c1. parsed c (EachToken r) c1)"
      using parseBinary_all(1) [OF parseAsExp c(1)] c(2) loopFuel_enough [OF c(1)] by simp
  qed
qed

subsection \<open>Statements\<close>

lemma parseBinding: "accounts N (parseBinding allow pt) (\<lambda>r. yields_refs (emit_Binding r))"
  apply (rule accountsI)
  unfolding parseBinding_def Let_def
  apply (frule (1) runs_start, frule less_imp_le)
  apply (insert order_refl [of N])
  apply (erule vc1 | erule (1) vc2 | erule (2) vc3 | rule vc_intro | simp only: vc_cases | assumption |
      (simp add: vc_simps; fail))+
  done

lemmas wp_parseBinding [vc2] = wp_accounts [OF parseBinding]

lemma parseBindingLoop:
  "length ps = Suc (length seps) \<Longrightarrow>
   loops N (\<lambda>n. parseBindingLoop n allow pt ps seps) (\<lambda>(a, b). seps_refs emit_Binding a b)
     (seps_refs emit_Binding ps seps)"
proof (rule loopsI)
  fix n c assume "wfc c" "length (rest c) < N" "length (rest c) < n" "length ps = Suc (length seps)"
  then show "wp (parseBindingLoop n allow pt ps seps c)
     (\<lambda>r c1. \<exists>us. (case r of (a, b) \<Rightarrow> seps_refs emit_Binding a b) = seps_refs emit_Binding ps seps @ us \<and> eats c us c1)"
  proof (induction n arbitrary: ps seps c)
    case (Suc n)
    note [vc1] = wp_again [OF _ _ Suc.IH]
    show ?case
      unfolding parseBindingLoop.simps Let_def
      apply (insert Suc.prems less_imp_le [OF Suc.prems(2)] runs_start [OF Suc.prems(1,2)])
      by (erule vc1 | erule (1) vc2 | erule (2) vc3 | rule vc_intro | simp only: vc_cases | assumption |
      (simp add: vc_simps; fail))+
  qed simp
qed

lemmas wp_parseBindingLoop [vc2] = wp_loops2 [OF parseBindingLoop [OF len_one]]

lemma parseLocal: "consumes N (parseLocal pe pt pb) EachToken"
  apply (rule consumesI)
  unfolding parseLocal_def Let_def
  by (erule vc1 | erule (1) vc2 | erule (2) vc3 | rule vc_intro | simp only: vc_cases | assumption |
      (simp add: vc_simps; fail))+

lemma parseDo: "consumes N (parseDo pb) EachToken"
  apply (rule consumesI)
  unfolding parseDo_def Let_def
  by (erule vc1 | erule (1) vc2 | erule (2) vc3 | rule vc_intro | simp only: vc_cases | assumption |
      (simp add: vc_simps; fail))+

lemma parseWhile: "consumes N (parseWhile pe pb) EachToken"
  apply (rule consumesI)
  unfolding parseWhile_def Let_def
  by (erule vc1 | erule (1) vc2 | erule (2) vc3 | rule vc_intro | simp only: vc_cases | assumption |
      (simp add: vc_simps; fail))+

lemma parseRepeat: "consumes N (parseRepeat pe pb) EachToken"
  apply (rule consumesI)
  unfolding parseRepeat_def Let_def
  by (erule vc1 | erule (1) vc2 | erule (2) vc3 | rule vc_intro | simp only: vc_cases | assumption |
      (simp add: vc_simps; fail))+

lemma parseFor: "consumes N (parseFor pe pt pb) EachToken"
  apply (rule consumesI)
  unfolding parseFor_def parseNumericFor_def parseGenericFor_def Let_def
  by (erule vc1 | erule (1) vc2 | erule (2) vc3 | rule vc_intro | simp only: vc_cases | assumption |
      (simp add: vc_simps; fail))+

lemma elseifLoop:
  "loops N (\<lambda>n. elseifLoop n pe pb cls) (\<lambda>a. yields_refs (concat (map emit_Clause a)))
     (yields_refs (concat (map emit_Clause cls)))"
proof (rule loopsI)
  fix n c assume "wfc c" "length (rest c) < N" "length (rest c) < n"
  then show "wp (elseifLoop n pe pb cls c) (\<lambda>r c1. \<exists>us. yields_refs (concat (map emit_Clause r)) =
      yields_refs (concat (map emit_Clause cls)) @ us \<and> eats c us c1)"
  proof (induction n arbitrary: cls c)
    case (Suc n)
    note [vc1] = wp_again [OF _ _ Suc.IH]
    show ?case
      unfolding elseifLoop.simps Let_def
      apply (insert Suc.prems less_imp_le [OF Suc.prems(2)] runs_start [OF Suc.prems(1,2)])
      by (erule vc1 | erule (1) vc2 | erule (2) vc3 | rule vc_intro | simp only: vc_cases | assumption |
      (simp add: vc_simps; fail))+
  qed simp
qed

lemmas wp_elseifLoop [vc2] = wp_loops [OF elseifLoop]

lemma parseIfStmt: "consumes N (parseIfStmt pe pb) EachToken"
  apply (rule consumesI)
  unfolding parseIfStmt_def Let_def
  by (erule vc1 | erule (1) vc2 | erule (2) vc3 | rule vc_intro | simp only: vc_cases | assumption |
      (simp add: vc_simps; fail))+

lemma parseFuncStmt: "consumes N (parseFuncStmt pt pb) EachToken"
  apply (rule consumesI)
  unfolding parseFuncStmt_def Let_def
  by (erule vc1 | erule (1) vc2 | erule (2) vc3 | rule vc_intro | simp only: vc_cases | assumption |
      (simp add: vc_simps; fail))+

lemma parseReturn: "consumes N (parseReturn pe) EachToken"
  apply (rule consumesI)
  unfolding parseReturn_def optSemi_def Let_def
  by (erule vc1 | erule (1) vc2 | erule (2) vc3 | rule vc_intro | simp only: vc_cases | assumption |
      (simp add: vc_simps; fail))+

lemma parseBreak: "consumes N parseBreak EachToken"
  apply (rule consumesI)
  unfolding parseBreak_def optSemi_def Let_def
  by (erule vc1 | erule (1) vc2 | erule (2) vc3 | rule vc_intro | simp only: vc_cases | assumption |
      (simp add: vc_simps; fail))+

lemma parseContinue: "consumes N parseContinue EachToken"
  apply (rule consumesI)
  unfolding parseContinue_def optSemi_def Let_def
  by (erule vc1 | erule (1) vc2 | erule (2) vc3 | rule vc_intro | simp only: vc_cases | assumption |
      (simp add: vc_simps; fail))+

lemmas begin_stmts [vc3] =
  wp_begin [OF parseLocal] wp_begin [OF parseDo] wp_begin [OF parseWhile] wp_begin [OF parseRepeat]
  wp_begin [OF parseFor] wp_begin [OF parseIfStmt] wp_begin [OF parseFuncStmt]
  wp_begin [OF parseReturn] wp_begin [OF parseBreak] wp_begin [OF parseContinue]

lemma parseTypeAlias:
  assumes "wfc c" "rest c \<noteq> []" "length (rest c) \<le> N"
    "atKeyword ''export'' c \<Longrightarrow> isSig (cpeek2 c)"
  shows "wp (parseTypeAlias pt c) (\<lambda>r c1. runs (length (rest c)) c (EachToken r) c1)"
proof (cases "atKeyword ''export'' c")
  case True
  show ?thesis
    unfolding parseTypeAlias_def Let_def
    apply (insert assms(1-3))
    apply (simp only: True if_True case_case prod.case)
    apply (rule wp_first2 [OF assms(1,2) assms(4) [OF True]])
    by (erule vc1 | erule (1) vc2 | erule (2) vc3 | rule vc_intro | simp only: vc_cases | assumption |
      (simp add: vc_simps; fail))+
next
  case False
  show ?thesis
    unfolding parseTypeAlias_def Let_def
    apply (insert assms(1-3))
    apply (simp only: False if_False prod.case)
    by (erule vc1 | erule (1) vc2 | erule (2) vc3 | rule vc_intro | simp only: vc_cases | assumption |
      (simp add: vc_simps; fail))+
qed

lemma drifts_parsePrefixExpr:
  assumes "wfc c" "length (rest c) \<le> N"
  shows "wp (parsePrefixExpr pe c) (\<lambda>r c1. drifts c (EachToken r) c1)"
proof (cases "rest c = []")
  case True
  then show ?thesis
    using parsePrefixExpr_eof [OF assms(1)] drifts_next [OF assms(1)] assms(1) by (simp add: eof_simps)
next
  case False
  show ?thesis by (rule wp_begin [OF parsePrefixExpr assms(1) False assms(2)])
      (simp add: runs_def eats_drifts)
qed

lemma parseTargetLoop:
  "\<lbrakk>wfc c; length (rest c) \<le> N; length (rest c) < n; length items = Suc (length seps)\<rbrakk> \<Longrightarrow>
   wp (parseTargetLoop n pe items seps c)
     (\<lambda>r c1. \<exists>us. yields_refs (tokens_ExprList r) = seps_refs (\<lambda>n. [YChild n]) items seps @ us \<and> drifts c us c1)"
proof (induction n arbitrary: items seps c)
  case (Suc n)
  show ?case
    unfolding parseTargetLoop.simps Let_def
  proof (rule wp_if, rule wp_first [OF Suc.prems(1)])
    assume "atSymbol '','' c"
    then show "rest c \<noteq> []" by (rule guard_rest [OF Suc.prems(1)])
  next
    fix sep c1 assume r: "runs (length (rest c)) c [sep] c1"
    then have c1: "wfc c1" "length (rest c1) < length (rest c)" using runs_wfc runs_less by auto
    have pf: "wp (parsePrefixExpr pe c1) (\<lambda>r c2. drifts c1 (EachToken r) c2)"
      using drifts_parsePrefixExpr [OF c1(1)] c1(2) Suc.prems by simp
    show "wp (parsePrefixExpr pe c1 \<bind> (\<lambda>(e, c2). parseTargetLoop n pe (items @ [e]) (seps @ [sep]) c2))
       (\<lambda>r c1. \<exists>us. yields_refs (tokens_ExprList r) = seps_refs (\<lambda>n. [YChild n]) items seps @ us \<and> drifts c us c1)"
    proof (rule wp_bindI, rule wp_mono [OF pf])
      fix e c2 assume d: "drifts c1 (EachToken e) c2"
      then have c2: "wfc c2" "length (rest c2) \<le> length (rest c1)" by (auto simp: drifts_def)
      have d': "drifts c ([sep] @ EachToken e) c2"
        by (rule drifts_trans [OF eats_drifts d]) (use r in \<open>simp add: runs_def\<close>)
      show "wp (parseTargetLoop n pe (items @ [e]) (seps @ [sep]) c2)
         (\<lambda>r c1. \<exists>us. yields_refs (tokens_ExprList r) = seps_refs (\<lambda>n. [YChild n]) items seps @ us \<and> drifts c us c1)"
        by (rule wp_mono [OF Suc.IH]) (use c1 c2 Suc.prems drifts_trans [OF d'] in \<open>auto simp: vc_simps\<close>)
    qed
  qed (use eats_drifts [OF eats_refl [OF Suc.prems(1)]] in simp)
qed simp

lemma parseExprListInto_parses: "parses N (parseExprListInto pe stop) (\<lambda>l. yields_refs (tokens_ExprList l))"
  unfolding parses_def
proof (intro allI impI, elim conjE)
  fix c assume c: "wfc c" "length (rest c) < N"
  have e: "wp (pe c) (\<lambda>r c1. parsed c (EachToken r) c1)" using pe c by (simp add: parses_def)
  show "wp (parseExprListInto pe stop c) (\<lambda>l c1. parsed c (yields_refs (tokens_ExprList l)) c1)"
    unfolding parseExprListInto_def
  proof (rule wp_bindI, rule wp_mono [OF e])
    fix r c1 assume p: "parsed c (EachToken r) c1"
    then have "runs N c1 [] c1" using runs_start c by (auto simp: parsed_def eats_def)
    then show "wp (parseExprListLoop (loopFuel c1) pe stop [r] [] c1)
        (\<lambda>l c1. parsed c (yields_refs (tokens_ExprList l)) c1)"
      by (rule wp_parseExprListLoop) (use parsed_then [OF p] in \<open>auto simp: runs_def\<close>)
  qed
qed

lemma parseAssign:
  assumes "wfc c" "length (rest c) < N"
  shows "wp (parseTargetLoop (loopFuel c) pe [e] [] c \<bind> (\<lambda>(targets, c2).
      case cnext c2 of (op, c3) \<Rightarrow> parseExprListInto pe [] c3 \<bind> (\<lambda>(vals, c4). Some (AssignStmt targets op vals, c4))))
    (\<lambda>r c1. \<exists>us. EachToken r = EachToken e @ us \<and> eats c us c1)"
proof (rule wp_bindI, rule wp_mono [OF parseTargetLoop [OF assms(1) _ loopFuel_runs [OF assms(1)] len_one]])
  fix ts c1 assume "\<exists>us. yields_refs (tokens_ExprList ts) = seps_refs (\<lambda>n. [YChild n]) [e] [] @ us \<and> drifts c us c1"
  then obtain us where us: "yields_refs (tokens_ExprList ts) = EachToken e @ us" "drifts c us c1" by auto
  then have "wfc c1" by (simp add: drifts_def)
  then have d: "drifts c (us @ [fst (cnext c1)]) (snd (cnext c1))"
    by (rule drifts_trans [OF us(2) drifts_next])
  then have c2: "wfc (snd (cnext c1))" "length (rest (snd (cnext c1))) < N"
    using assms(2) by (auto simp: drifts_def)
  have "wp (parseExprListInto pe [] (snd (cnext c1)) \<bind> (\<lambda>(vals, c4). Some (AssignStmt ts (fst (cnext c1)) vals, c4)))
      (\<lambda>r c1. \<exists>us. EachToken r = EachToken e @ us \<and> eats c us c1)"
  proof (rule wp_bindI, rule wp_mono [OF parseExprListInto_parses [unfolded parses_def, rule_format]])
    fix vals c4 assume p: "parsed (snd (cnext c1)) (yields_refs (tokens_ExprList vals)) c4"
    show "wp (Some (AssignStmt ts (fst (cnext c1)) vals, c4)) (\<lambda>r c1. \<exists>us. EachToken r = EachToken e @ us \<and> eats c us c1)"
      using drifts_parsed [OF d p] us(1) by simp
  qed (use c2 in simp)
  then show "wp (case cnext c1 of (op, c3) \<Rightarrow> parseExprListInto pe [] c3 \<bind> (\<lambda>(vals, c4). Some (AssignStmt ts op vals, c4)))
      (\<lambda>r c1. \<exists>us. EachToken r = EachToken e @ us \<and> eats c us c1)" by (simp add: case_prod_beta)
qed (use assms in simp)

lemma wp_parseAssign [vc2]:
  assumes "runs M c0 ts c" "M \<le> N"
    "\<And>r c1 us. EachToken r = EachToken e @ us \<Longrightarrow> runs M c0 (ts @ us) c1 \<Longrightarrow> Q r c1"
  shows "wp (parseTargetLoop (loopFuel c) pe [e] [] c \<bind> (\<lambda>(targets, c2).
      case cnext c2 of (op, c3) \<Rightarrow> parseExprListInto pe [] c3 \<bind> (\<lambda>(vals, c4). Some (AssignStmt targets op vals, c4)))) Q"
  by (rule wp_call_loop [OF parseAssign [OF runs_wfc [OF assms(1)] runs_less [OF assms(1,2)]] assms(1)])
    (fact assms(3))

lemma parseExprStatement: "consumes N (parseExprStatement pe) EachToken"
  apply (rule consumesI)
  unfolding parseExprStatement_def Let_def
  by (erule vc1 | erule (1) vc2 | erule (2) vc3 | rule vc_intro | simp only: vc_cases | assumption |
      (simp add: vc_simps; fail))+

lemmas begin_parseExprStatement [vc3] = wp_begin [OF parseExprStatement]

lemma parseStatement: "consumes N (parseStatement pe pt pb) (\<lambda>(s, b). EachToken s)"
proof (rule consumesI)
  fix c assume c: "wfc c" "rest c \<noteq> []" "length (rest c) \<le> N"
  have [vc3]: "\<lbrakk>wfc c; rest c \<noteq> []; length (rest c) \<le> N; atKeyword ''export'' c \<Longrightarrow> isSig (cpeek2 c);
      \<And>r c1. runs (length (rest c)) c (EachToken r) c1 \<Longrightarrow> Q r c1\<rbrakk> \<Longrightarrow> wp (parseTypeAlias pt c) Q" for Q
    using wp_mono [OF parseTypeAlias] by blast
  show "wp (parseStatement pe pt pb c) (\<lambda>r c1. runs (length (rest c)) c (case r of (s, b) \<Rightarrow> EachToken s) c1)"
    unfolding parseStatement_def Let_def
    apply (insert c)
    supply isSig_def [vc_simps] atKeyword_def [vc_simps]
    apply (erule vc1 | erule (1) vc2 | erule (2) vc3 | rule vc_intro | simp only: vc_cases | assumption |
      (simp add: vc_simps; fail))+
    done
qed

lemma begin_parseStatement [vc3]:
  "\<lbrakk>wfc c; rest c \<noteq> []; length (rest c) \<le> N;
    \<And>s b c1. runs (length (rest c)) c (EachToken s) c1 \<Longrightarrow> Q (s, b) c1\<rbrakk> \<Longrightarrow>
   wp (parseStatement pe pt pb c) Q"
  by (rule wp_begin [OF parseStatement]) auto

lemma blockLoop:
  "loops (Suc N) (\<lambda>n. blockLoop n (parseStatement pe pt pb) ss) (\<lambda>a. yields_refs (map YChild a))
     (yields_refs (map YChild ss))"
proof (rule loopsI)
  fix n c assume "wfc c" "length (rest c) < Suc N" "length (rest c) < n"
  then show "wp (blockLoop n (parseStatement pe pt pb) ss c)
     (\<lambda>r c1. \<exists>us. yields_refs (map YChild r) = yields_refs (map YChild ss) @ us \<and> eats c us c1)"
  proof (induction n arbitrary: ss c)
    case (Suc n)
    note [vc1] = wp_again [OF _ _ Suc.IH]
    show ?case
      unfolding blockLoop.simps Let_def
      apply (insert Suc.prems Suc.prems(2) [unfolded less_Suc_eq_le])
      apply (rule wp_if, frule (1) guard_restE)
      apply ((erule vc1 | erule (1) vc2 | erule (2) vc3 | rule vc_intro | simp only: vc_cases | assumption |
      (simp add: vc_simps; fail))+)
      done
  qed simp
qed

lemma parseBlockStep: "accounts (Suc N) (parseBlockStep pe pt pb) EachToken"
proof (rule accountsI)
  fix c assume c: "wfc c" "length (rest c) < Suc N"
  show "wp (parseBlockStep pe pt pb c) (\<lambda>r c1. eats c (EachToken r) c1)"
    unfolding parseBlockStep_def
    by (rule wp_bindI, rule wp_loops [OF blockLoop runs_start [OF c] order_refl]) (simp add: runs_def)
qed

end

section \<open>The whole parser\<close>

lemma parseBlock_Block: "parseBlock n c = Some (r, c1) \<Longrightarrow> \<exists>ss. r = Block ss"
  by (cases n) (auto simp: parseBlockStep_def split: bind_splits)

lemma parsers_sub: "sub_parsers (parseExpr n) (parseType n) (parseBlock n) n"
proof (induction n)
  case 0
  show ?case by unfold_locales (auto simp: parses_def accounts_def)
next
  case (Suc n)
  have "parseExpr (Suc n) = parseExprStep (parseExpr n) (parseType n) (parseBlock n)"
    "parseType (Suc n) = parseTypeStep (parseExpr n) (parseType n)"
    "parseBlock (Suc n) = parseBlockStep (parseExpr n) (parseType n) (parseBlock n)" by auto
  then show ?case
    using sub_parsers.parseExprStep [OF Suc] sub_parsers.parseTypeStep [OF Suc]
      sub_parsers.parseBlockStep [OF Suc] by unfold_locales simp_all
qed

interpretation ps: sub_parsers "parseExpr n" "parseType n" "parseBlock n" n for n
  by (rule parsers_sub)

definition stmts_refs :: "node list \<Rightarrow> tokenref list" where
  "stmts_refs ss = yields_refs (map YChild ss)"

lemma stmts_refs_simps [simp]:
  "stmts_refs (ss @ ts) = stmts_refs ss @ stmts_refs ts" "stmts_refs (ErrorStmt t # ss) = t # stmts_refs ss"
  by (simp_all add: stmts_refs_def)

lemma wp_block:
  assumes "runs M c0 ts c" "M \<le> K" "\<And>ss c1. runs M c0 (ts @ stmts_refs ss) c1 \<Longrightarrow> Q (Block ss) c1"
  shows "wp (parseBlock K c) Q"
proof -
  have "wp (parseBlock K c) (\<lambda>b c1. runs M c0 (ts @ EachToken b) c1)"
    by (rule ps.wp_pb [OF assms(1,2)])
  then obtain b c1 where b: "parseBlock K c = Some (b, c1)" "runs M c0 (ts @ EachToken b) c1"
    by (auto simp: wp_def)
  moreover from b(1) obtain ss where "b = Block ss" using parseBlock_Block by blast
  ultimately show ?thesis using assms(3) [of ss c1] by (simp add: stmts_refs_def wp_def)
qed

lemma strayLoop:
  "\<lbrakk>wfc c; length (rest c) < K; length (rest c) < n\<rbrakk> \<Longrightarrow>
   wp (strayLoop n (parseBlock K) ss c)
     (\<lambda>r c1. (\<exists>us. stmts_refs r = stmts_refs ss @ us \<and> eats c us c1) \<and> rest c1 = [])"
proof (induction n arbitrary: ss c)
  case (Suc n)
  let ?Q = "\<lambda>r c1. (\<exists>us. stmts_refs r = stmts_refs ss @ us \<and> eats c us c1) \<and> rest c1 = []"
  show ?case
    unfolding strayLoop.simps Let_def
  proof (rule wp_if, rule wp_first_err [OF Suc.prems(1)])
    assume "\<not> catEnd c"
    then show "rest c \<noteq> []" using guard_rest(3) [OF Suc.prems(1)] by simp
  next
    fix t c1 assume r: "runs (length (rest c)) c [t] c1"
    show "wp (parseBlock K c1 \<bind>
        (\<lambda>(rest, c2). strayLoop n (parseBlock K) (ss @ [ErrorStmt t] @ blockStmts rest) c2)) ?Q"
    proof (rule wp_bindI, rule wp_block [OF r])
      fix bs c2 assume r2: "runs (length (rest c)) c ([t] @ stmts_refs bs) c2"
      have "wp (strayLoop n (parseBlock K) (ss @ [ErrorStmt t] @ bs) c2)
          (\<lambda>r c1. (\<exists>us. stmts_refs r = stmts_refs (ss @ [ErrorStmt t] @ bs) @ us \<and> eats c2 us c1) \<and> rest c1 = [])"
        by (rule Suc.IH) (use Suc.prems runs_wfc [OF r2] runs_less [OF r2 order_refl] in auto)
      then show "wp (strayLoop n (parseBlock K) (ss @ [ErrorStmt t] @ blockStmts (Block bs)) c2) ?Q"
        using eats_trans [OF conjunct1 [OF r2 [unfolded runs_def]]] by (auto elim!: wp_mono)
    qed (use Suc.prems in simp)
  next
    assume "\<not> \<not> catEnd c"
    then show "wp (Some (ss, c)) ?Q" using Suc.prems(1) catEnd_iff eats_refl by auto
  qed
qed simp

text \<open>The cursor that \<open>newCursor\<close> builds.\<close>

lemma newCursor_ok:
  obtains c where "newCursor t = Some c" "wfc c" "cpos c = 0" "Flatten (refs c) = t"
    "AttachTrivia t = Some (refs c)" "cdiags c = snd (Tokenize t)"
proof -
  obtain rs where rs: "attachTrivia (fst (Tokenize t)) = Some rs" "Flatten rs = t"
    by (rule lx.attach_total)
  have "one_EOF (map Token rs)" by (rule lx.attach_eof [OF rs(1)])
  then obtain ks e where e: "map Token rs = ks @ [e]" "Kind e = KEOF" "\<forall>k \<in> set ks. Kind k \<noteq> KEOF"
    by (auto simp: one_EOF_def)
  then have "rs \<noteq> []" by auto
  moreover have "Token (last rs) = e" "map Token (butlast rs) = ks"
    using e(1) \<open>rs \<noteq> []\<close> by (simp_all add: last_map [symmetric] map_butlast)
  ultimately have "wfc \<lparr>refs = rs, cpos = 0, cdiags = snd (Tokenize t)\<rparr>"
    using e(2,3) by (auto simp: wfc_def isSig_def list_all_iff)
  with rs show thesis by (intro that) (auto simp: newCursor_def AttachTrivia_def)
qed

lemma Parse_spec:
  obtains f ds rs where "Parse t = Some (f, ds)" "AttachTrivia t = Some rs" "rs \<noteq> []"
    "EOFTok f = last rs" "sig (EachToken (Body f)) = butlast rs"
    "prefix (snd (Tokenize t)) ds"
    "ds = [] \<Longrightarrow> list_all (\<lambda>r. Kind (Token r) \<noteq> KInterpStart) rs \<Longrightarrow> File_refs f = rs"
proof -
  obtain c where c: "newCursor t = Some c" "wfc c" "cpos c = 0" "AttachTrivia t = Some (refs c)"
    "cdiags c = snd (Tokenize t)" by (rule newCursor_ok)
  let ?K = "length (refs c) + 1"
  have len: "length (rest c) < ?K" by (simp add: rest_def c)
  have "wp (parseBlock ?K c) (\<lambda>b c1. \<exists>ss. b = Block ss \<and> runs ?K c (stmts_refs ss) c1)"
    by (rule wp_block [OF runs_start [OF c(2) len]]) simp_all
  then obtain ss c1 where b: "parseBlock ?K c = Some (Block ss, c1)" "eats c (stmts_refs ss) c1"
    "length (rest c1) < ?K" by (auto simp: wp_def runs_def)
  then have "wfc c1" by (simp add: eats_def)
  from strayLoop [OF this b(3) loopFuel_runs [OF this], of ss]
  obtain us r c2 where s: "strayLoop (loopFuel c1) (parseBlock ?K) ss c1 = Some (r, c2)"
    "stmts_refs r = stmts_refs ss @ us" "eats c1 us c2" "rest c2 = []" by (auto simp: wp_def)
  have e: "eats c (stmts_refs r) c2" using eats_trans [OF b(2) s(3)] s(2) by simp
  have w2: "wfc c2" "refs c2 = refs c" using e by (auto simp: eats_def)
  have eof: "cnext c2 = (last (refs c), c2)"
    using at_eof(8) [OF w2(1) s(4)] w2 s(4) by (cases rule: rest_cases [OF w2(1)]) auto
  have sg: "rest c = sig (stmts_refs r)" using e s(4) by (simp add: eats_def)
  have r0: "rest c = butlast (refs c)" "refs c \<noteq> []" using c by (auto simp: rest_def wfc_def)
  show thesis
  proof (rule that)
    show "Parse t = Some (\<lparr>Body = Block r, EOFTok = last (refs c)\<rparr>, cdiags c2)"
      using c(1) b(1) s(1) eof by (simp add: Parse_def)
    show "prefix (snd (Tokenize t)) (cdiags c2)" using e c by (simp add: eats_def)
  next
    assume d: "cdiags c2 = []" "list_all (\<lambda>r. Kind (Token r) \<noteq> KInterpStart) (refs c)"
    then have "list_all isSig (stmts_refs r)" using e by (simp add: eats_def holeFree_def)
    then have "sig (stmts_refs r) = stmts_refs r" by (simp add: filter_id_conv list_all_iff)
    then show "File_refs \<lparr>Body = Block r, EOFTok = last (refs c)\<rparr> = refs c"
      using sg r0 append_butlast_last_id [OF r0(2)]
      by (simp add: File_refs_def tokens_File_def stmts_refs_def)
  qed (use c r0 sg in \<open>auto simp: stmts_refs_def\<close>)
qed

section \<open>Operator precedence\<close>

text \<open>
  The tree of an operator expression respects the table \<open>binPrec\<close>: below an operator, the
  left operand binds at least as tightly (strictly tighter when it is itself a right-associative
  operator), the right operand binds strictly tighter (at least as tightly when the operator is
  right-associative), and the operand of a unary operator binds at least as tightly as
  \<open>unaryPrec\<close>.
\<close>

fun top_prec :: "node \<Rightarrow> (nat \<times> bool) option" where
  "top_prec (Binary l op r) = binPrec (Token op)"
| "top_prec n = None"

definition binds :: "nat \<Rightarrow> node \<Rightarrow> bool" where
  "binds m n \<longleftrightarrow> (\<forall>q b. top_prec n = Some (q, b) \<longrightarrow> m \<le> q)"

definition binds_left :: "nat \<Rightarrow> node \<Rightarrow> bool" where
  "binds_left m n \<longleftrightarrow> (\<forall>q b. top_prec n = Some (q, b) \<longrightarrow> (if b then m < q else m \<le> q))"

function (sequential) prec_tree :: "node \<Rightarrow> bool" where
  "prec_tree (Binary l op r) =
     (case binPrec (Token op) of None \<Rightarrow> False
      | Some (p, ra) \<Rightarrow> binds_left p l \<and> binds (if ra then p else p + 1) r \<and> prec_tree l \<and> prec_tree r)"
| "prec_tree (Unary op e) = (binds unaryPrec e \<and> prec_tree e)"
| "prec_tree n = True"
  by pat_completeness auto
termination
  by (relation child) (rule wf_child, simp_all add: child_def)

text \<open>The operator at the cursor, if any, binds less tightly than \<open>m\<close>.\<close>

definition looser :: "nat \<Rightarrow> cursor \<Rightarrow> bool" where
  "looser m c \<longleftrightarrow> (\<forall>q b. binPrec (Token (cpeek c)) = Some (q, b) \<longrightarrow> q < m)"

fun operand :: "node \<Rightarrow> bool" where
  "operand (Binary l op r) = False"
| "operand (Unary op e) = False"
| "operand n = True"

lemma operand_prec: "operand e \<Longrightarrow> prec_tree e \<and> top_prec e = None"
  by (cases e) auto

lemma parseBinary_prec:
  assumes pv: "\<And>c e c1. pv c = Some (e, c1) \<Longrightarrow> operand e"
  shows "parseBinary n pv m c = Some (e, c1) \<Longrightarrow> prec_tree e \<and> binds m e \<and> looser m c1"
    and "parseUnary n pv c = Some (e, c1) \<Longrightarrow> prec_tree e \<and> top_prec e = None"
    and "binaryLoop n pv m l c = Some (e, c1) \<Longrightarrow> prec_tree l \<Longrightarrow> binds m l \<Longrightarrow>
      (\<forall>q b. top_prec l = Some (q, b) \<longrightarrow> looser (if b then q else q + 1) c) \<Longrightarrow>
      prec_tree e \<and> binds m e \<and> looser m c1"
proof (induction n arbitrary: m c e c1 l)
  case (Suc n)
  {
    case 1
    then obtain l d where "parseUnary n pv c = Some (l, d)" "binaryLoop n pv m l d = Some (e, c1)"
      by (auto split: bind_splits)
    then show ?case using Suc.IH(2) [of c l d] Suc.IH(3) [of m l d e c1] by (simp add: binds_def)
  next
    case 2
    show ?case
    proof (cases "isUnaryOp c")
      case True
      with 2 obtain op a d where "parseBinary n pv unaryPrec a = Some (d, c1)" "e = Unary op d"
        by (auto split: bind_splits prod.splits)
      then show ?thesis using Suc.IH(1) by auto
    next
      case False
      with 2 show ?thesis using pv operand_prec by auto
    qed
  next
    case 3
    show ?case
    proof (cases "looser m c")
      case True
      with 3 show ?thesis by (auto simp: looser_def split: option.splits prod.splits if_splits)
    next
      case False
      then obtain p ra where b: "binPrec (Token (cpeek c)) = Some (p, ra)" "\<not> p < m"
        by (auto simp: looser_def)
      let ?m = "if ra then p else p + 1"
      from b 3(1) obtain r d where r: "parseBinary n pv ?m (snd (cnext c)) = Some (r, d)"
        and e: "binaryLoop n pv m (Binary l (cpeek c) r) d = Some (e, c1)"
        by (auto simp: cnext_def split: bind_splits if_splits)
      have "binds_left p l"
        using 3(4) b(1) by (auto simp: binds_left_def looser_def split: if_splits)
      then show ?thesis
        using Suc.IH(3) [OF e] Suc.IH(1) [OF r] 3(2) b by (auto simp: binds_def split: if_splits)
    qed
  }
qed simp_all

lemma parseSuffixes_operand: "parseSuffixes n pe b c = Some (e, c1) \<Longrightarrow> operand b \<Longrightarrow> operand e"
  by (induction n arbitrary: b c) (auto split: if_splits prod.splits bind_splits simp: Let_def)

lemma asExpLoop_operand: "asExpLoop n pt b c = Some (e, c1) \<Longrightarrow> operand b \<Longrightarrow> operand e"
  by (induction n arbitrary: b c) (auto split: if_splits prod.splits bind_splits simp: Let_def)

lemma parsePrefixExpr_operand: "parsePrefixExpr pe c = Some (e, c1) \<Longrightarrow> operand e"
  by (auto simp: parsePrefixExpr_def parsePrefixAtom_def parseParen_def Let_def
      split: bind_splits if_splits prod.splits dest: parseSuffixes_operand)

lemma parseValue_operand: "parseValue pe pt pb c = Some (e, c1) \<Longrightarrow> operand e"
  by (auto simp: parseValue_def leaf_def parseTable_def parseInterpString_def Let_def
      split: if_splits prod.splits bind_splits dest: parsePrefixExpr_operand)

lemma parseAsExp_operand: "parseAsExp pe pt pb c = Some (e, c1) \<Longrightarrow> operand e"
  by (auto simp: parseAsExp_def split: bind_splits dest: parseValue_operand asExpLoop_operand)

section \<open>Properties\<close>

text \<open>Trivia attachment never indexes past the end of the stream; flattening its result gives
  back the source, and its tokens are the source's tokens other than whitespace and comments.\<close>

theorem AttachTrivia_lossless:
  "\<exists>rs. AttachTrivia t = Some rs \<and> Flatten rs = t \<and>
     map Token rs = filter (\<lambda>k. \<not> isTrivia (Kind k)) (fst (Tokenize t))"
  using lx.attach_total [of t] by (metis AttachTrivia_def)

text \<open>C3: the parser terminates and returns a file for every input; the scanner's diagnostics come
  first in its list of diagnostics.\<close>

theorem Parse_total: "\<exists>f ds. Parse t = Some (f, ds) \<and> prefix (snd (Tokenize t)) ds"
  by (rule Parse_spec [of t]) blast

text \<open>C1: nothing is lost, repeated or reordered, also in a source with syntax errors: the
  significant tokens of the tree, in source order, are the tokens of the source with their
  trivia.\<close>

theorem Parse_keeps_tokens:
  "\<exists>f ds rs. Parse t = Some (f, ds) \<and> AttachTrivia t = Some rs \<and>
     filter isSig (EachToken (Body f)) @ [EOFTok f] = rs"
  by (rule Parse_spec [of t]) (metis append_butlast_last_id)

text \<open>Without a diagnostic, and without an interpolation hole, the tree spells the source byte
  for byte.\<close>

theorem Parse_roundtrip:
  assumes "Parse t = Some (f, [])" "\<forall>k \<in> set (fst (Tokenize t)). Kind k \<noteq> KInterpStart"
  shows "Unparse_File f = t"
proof (rule Parse_spec [of t])
  fix g ds rs
  assume p: "Parse t = Some (g, ds)" "AttachTrivia t = Some rs"
    "ds = [] \<Longrightarrow> list_all (\<lambda>r. Kind (Token r) \<noteq> KInterpStart) rs \<Longrightarrow> File_refs g = rs"
  obtain rs' where rs': "attachTrivia (fst (Tokenize t)) = Some rs'" "Flatten rs' = t"
    "map Token rs' = filter (\<lambda>k. \<not> isTrivia (Kind k)) (fst (Tokenize t))"
    by (rule lx.attach_total)
  have rs: "rs' = rs" using p(2) rs'(1) by (simp add: AttachTrivia_def)
  have "Token ` set rs' \<subseteq> set (fst (Tokenize t))"
    using arg_cong [OF rs'(3), of set] by auto
  then have "list_all (\<lambda>r. Kind (Token r) \<noteq> KInterpStart) rs"
    using assms(2) rs by (auto simp: list_all_iff)
  with p assms(1) rs rs'(2) show ?thesis
    by (simp add: Unparse_File_refs Flatten_ref_text)
qed

theorem Parse_roundtrip_witness:
  "\<exists>f. Parse ''x = f(1) -- c'' = Some (f, []) \<and> Unparse_File f = ''x = f(1) -- c''"
proof -
  have "map_option snd (Parse ''x = f(1) -- c'') = Some []" by code_simp
  then obtain f where f: "Parse ''x = f(1) -- c'' = Some (f, [])" by auto
  have "\<forall>k \<in> set (fst (Tokenize ''x = f(1) -- c'')). Kind k \<noteq> KInterpStart" by code_simp
  from Parse_roundtrip [OF f this] f show ?thesis by blast
qed

text \<open>C6: whatever the diagnostics, a tree whose body holds no end-of-file token spells the source
  byte for byte; this covers interpolated strings whose holes are closed.\<close>

theorem Parse_spells_source:
  assumes "Parse t = Some (f, ds)" "\<forall>r \<in> set (EachToken (Body f)). Kind (Token r) \<noteq> KEOF"
  shows "Unparse_File f = t"
proof (rule Parse_spec [of t])
  fix g ds' rs
  assume p: "Parse t = Some (g, ds')" "AttachTrivia t = Some rs" "rs \<noteq> []" "EOFTok g = last rs"
    "sig (EachToken (Body g)) = butlast rs"
  have fg: "g = f" using p(1) assms(1) by simp
  have "sig (EachToken (Body f)) = EachToken (Body f)"
    using assms(2) by (simp add: filter_id_conv isSig_def)
  then have "File_refs f = rs"
    using p(3-5) append_butlast_last_id [OF p(3)] unfolding fg by (simp add: File_refs_def tokens_File_def)
  moreover have "Flatten rs = t" using lx.attach_total [of t] p(2) by (metis AttachTrivia_def option.inject)
  ultimately show ?thesis by (simp add: Unparse_File_refs Flatten_ref_text)
qed

theorem Parse_spells_source_witness:
  "Unparse_File (fst (the (Parse (''f('' @ [BTICK] @ ''a{b}c'' @ [BTICK] @ '')'')))) =
   ''f('' @ [BTICK] @ ''a{b}c'' @ [BTICK] @ '')''"
proof (rule Parse_spells_source)
  show "Parse (''f('' @ [BTICK] @ ''a{b}c'' @ [BTICK] @ '')'') =
    Some (fst (the (Parse (''f('' @ [BTICK] @ ''a{b}c'' @ [BTICK] @ '')''))),
          snd (the (Parse (''f('' @ [BTICK] @ ''a{b}c'' @ [BTICK] @ '')''))))" by code_simp
  show "\<forall>r \<in> set (EachToken (Body (fst (the (Parse (''f('' @ [BTICK] @ ''a{b}c'' @ [BTICK] @ '')'')))))).
    Kind (Token r) \<noteq> KEOF" by code_simp
qed

text \<open>With an interpolation hole that reaches the end of the file, the source is not
  reproduced although no diagnostic is recorded: the end-of-file token and its leading newline
  are taken twice.\<close>

theorem Parse_open_hole_duplicates:
  "map_option (\<lambda>(f, ds). (Unparse_File f, ds)) (Parse (''x='' @ [BTICK] @ ''a{b'' @ [LF])) =
   Some (''x='' @ [BTICK] @ ''a{b'' @ [LF, LF], [])"
  by code_simp

text \<open>C38: every expression tree that the parser builds respects the operator precedences and
  associativities of \<open>binPrec\<close> and \<open>unaryPrec\<close>.\<close>

theorem parseExpr_precedence:
  assumes "parseExpr n c = Some (e, c1)"
  shows "prec_tree e"
proof (cases n)
  case (Suc k)
  with assms consider "parseIfExpr (parseExpr k) c = Some (e, c1)"
    | "parseBinary (loopFuel c) (parseAsExp (parseExpr k) (parseType k) (parseBlock k)) 1 c = Some (e, c1)"
    by (auto simp: parseExprStep_def split: if_splits)
  then show ?thesis
  proof cases
    case 1
    then show ?thesis by (auto simp: parseIfExpr_def Let_def split: bind_splits prod.splits)
  next
    case 2
    from parseBinary_prec(1) [OF parseAsExp_operand this] show ?thesis by simp
  qed
qed (use assms in simp)

theorem parseExpr_precedence_witness:
  "\<exists>e c1. parseExpr 9 (the (newCursor ''a+b*c^-d'')) = Some (e, c1) \<and> prec_tree e"
proof -
  have "parseExpr 9 (the (newCursor ''a+b*c^-d'')) \<noteq> None" by code_simp
  then obtain e c1 where "parseExpr 9 (the (newCursor ''a+b*c^-d'')) = Some (e, c1)" by auto
  with parseExpr_precedence [OF this] show ?thesis by blast
qed

end
