(* ===== verification/Luau_Validate.thy ===== *)
theory Luau_Validate
  imports Prelude
begin

text \<open>
  The validators of \<open>src/internal/luau/validate.go\<close> and the name tables of
  \<open>globals.go\<close>: identifiers, number literals, metamethods and reserved names. The loops
  \<open>for i < n && p(s[i]) { i++ }\<close> are \<open>dropWhile\<close> on the text that is left. The
  documentation of the Go functions gives regular expressions; they are stated here as
  languages, and the hand-written scans are shown to decide exactly these languages.
\<close>

section \<open>Name tables\<close>

definition luauReservedKeywords :: "string list" where
  "luauReservedKeywords =
     [''and'', ''break'', ''do'', ''else'', ''elseif'', ''end'', ''false'', ''for'', ''function'',
      ''if'', ''in'', ''local'', ''nil'', ''not'', ''or'', ''repeat'', ''return'', ''then'',
      ''true'', ''until'', ''while'']"

definition IsReservedKeyword :: "string \<Rightarrow> bool" where
  "IsReservedKeyword i \<longleftrightarrow> i \<in> set luauReservedKeywords"

definition luauMetamethods :: "string list" where
  "luauMetamethods =
     [''__index'', ''__newindex'', ''__call'', ''__concat'', ''__unm'', ''__add'', ''__sub'',
      ''__mul'', ''__div'', ''__mod'', ''__pow'', ''__tostring'', ''__metatable'', ''__eq'',
      ''__lt'', ''__le'', ''__mode'', ''__gc'', ''__len'']"

definition IsMetamethod :: "string \<Rightarrow> bool" where
  "IsMetamethod i \<longleftrightarrow> i \<in> set luauMetamethods"

definition luauReservedClassFields :: "string list" where
  "luauReservedClassFields = [''__index'', ''new'']"

definition IsReservedClassField :: "string \<Rightarrow> bool" where
  "IsReservedClassField i \<longleftrightarrow> i \<in> set luauReservedClassFields"

definition reservedGlobalNames :: "string list" where
  "reservedGlobalNames =
     [''_G'', ''TS'', ''assert'', ''bit32'', ''coroutine'', ''error'', ''exports'',
      ''getmetatable'', ''ipairs'', ''next'', ''pairs'', ''pcall'', ''require'', ''script'',
      ''select'', ''self'', ''setmetatable'', ''string'', ''super'', ''table'', ''utf8'',
      ''math'', ''tostring'', ''type'', ''typeof'', ''unpack'', ''game'']"

definition IsReservedIdentifier :: "string \<Rightarrow> bool" where
  "IsReservedIdentifier i \<longleftrightarrow> i \<in> set reservedGlobalNames"

section \<open>Identifiers\<close>

definition isIdentifierStart :: "char \<Rightarrow> bool" where
  "isIdentifierStart c \<longleftrightarrow>
     c = CHR ''_'' \<or> (CHR ''A'' \<le> c \<and> c \<le> CHR ''Z'') \<or> (CHR ''a'' \<le> c \<and> c \<le> CHR ''z'')"

definition isIdentifierPart :: "char \<Rightarrow> bool" where
  "isIdentifierPart c \<longleftrightarrow> isIdentifierStart c \<or> (CHR ''0'' \<le> c \<and> c \<le> CHR ''9'')"

definition IsValidIdentifier :: "string \<Rightarrow> bool" where
  "IsValidIdentifier i \<longleftrightarrow>
     i \<noteq> [] \<and> isIdentifierStart (hd i) \<and> list_all isIdentifierPart (tl i) \<and>
     i \<notin> set luauReservedKeywords"

section \<open>Number literals\<close>

definition isDecimalDigit :: "char \<Rightarrow> bool" where
  "isDecimalDigit c \<longleftrightarrow> CHR ''0'' \<le> c \<and> c \<le> CHR ''9''"

definition isBinaryDigit :: "char \<Rightarrow> bool" where
  "isBinaryDigit c \<longleftrightarrow> c = CHR ''0'' \<or> c = CHR ''1''"

definition isHexDigit :: "char \<Rightarrow> bool" where
  "isHexDigit c \<longleftrightarrow> (CHR ''0'' \<le> c \<and> c \<le> CHR ''9'') \<or> (CHR ''a'' \<le> c \<and> c \<le> CHR ''f'') \<or>
     (CHR ''A'' \<le> c \<and> c \<le> CHR ''F'')"

definition underscore :: "char \<Rightarrow> bool" where
  "underscore c \<longleftrightarrow> c = CHR ''_''"

definition matchBaseDigits :: "string \<Rightarrow> (char \<Rightarrow> bool) \<Rightarrow> bool" where
  "matchBaseDigits s d =
     (case dropWhile underscore s of
        [] \<Rightarrow> False
      | c # cs \<Rightarrow> d c \<and> list_all (\<lambda>c. underscore c \<or> d c) cs)"

definition num_part :: "char \<Rightarrow> bool" where
  "num_part c \<longleftrightarrow> isDecimalDigit c \<or> underscore c"

text \<open>The end of \<open>isDecimalLiteral\<close>: the optional exponent \<open>(?:[eE][+-]?_*\d[\d_]*)?$\<close>.\<close>

definition skip_sign :: "string \<Rightarrow> string" where
  "skip_sign s = (case s of [] \<Rightarrow> [] | c # r \<Rightarrow> if c = CHR ''+'' \<or> c = CHR ''-'' then r else s)"

definition digits_tail :: "string \<Rightarrow> bool" where
  "digits_tail s =
     (case dropWhile underscore s of
        [] \<Rightarrow> False
      | c # cs \<Rightarrow> isDecimalDigit c \<and> dropWhile num_part cs = [])"

definition matchExponent :: "string \<Rightarrow> bool" where
  "matchExponent s =
     (case s of
        [] \<Rightarrow> True
      | e # r \<Rightarrow> (e = CHR ''e'' \<or> e = CHR ''E'') \<and> digits_tail (skip_sign r))"

text \<open>The optional fraction \<open>(?:\.[\d_]*)?\<close> before it.\<close>

definition fraction_tail :: "string \<Rightarrow> bool" where
  "fraction_tail s =
     (case s of
        [] \<Rightarrow> matchExponent s
      | d # r \<Rightarrow> matchExponent (if d = CHR ''.'' then dropWhile num_part r else s))"

text \<open>\<open>isDecimalLiteral\<close> is only called on a non-empty text; Go would panic on an empty one.\<close>

fun isDecimalLiteral :: "string \<Rightarrow> bool" where
  "isDecimalLiteral [] = False"
| "isDecimalLiteral (c # s) =
     (if isDecimalDigit c then fraction_tail (dropWhile num_part s)
      else if c = CHR ''.'' then
        (case s of
           [] \<Rightarrow> False
         | d # r \<Rightarrow> isDecimalDigit d \<and> matchExponent (dropWhile num_part r))
      else False)"

definition IsValidNumberLiteral :: "string \<Rightarrow> bool" where
  "IsValidNumberLiteral t =
     (case t of
        [] \<Rightarrow> False
      | c # s \<Rightarrow>
          if c = CHR ''0'' then
            (case dropWhile underscore s of
               [] \<Rightarrow> isDecimalLiteral t
             | b # r \<Rightarrow>
                 if b = CHR ''b'' \<or> b = CHR ''B'' then matchBaseDigits r isBinaryDigit
                 else if b = CHR ''x'' \<or> b = CHR ''X'' then matchBaseDigits r isHexDigit
                 else isDecimalLiteral t)
          else isDecimalLiteral t)"

section \<open>The documented languages\<close>

text \<open>Regular expressions over byte classes, and the texts they match as a whole.\<close>

datatype regex =
    Cls "char \<Rightarrow> bool"
  | Many "char \<Rightarrow> bool"  \<comment> \<open>\<open>[..]*\<close>\<close>
  | Opt regex
  | Cat regex regex
  | Alt regex regex

fun matches :: "regex \<Rightarrow> string \<Rightarrow> bool" where
  "matches (Cls p) w \<longleftrightarrow> (\<exists>c. w = [c] \<and> p c)"
| "matches (Many p) w \<longleftrightarrow> list_all p w"
| "matches (Opt r) w \<longleftrightarrow> w = [] \<or> matches r w"
| "matches (Cat r q) w \<longleftrightarrow> (\<exists>u v. w = u @ v \<and> matches r u \<and> matches q v)"
| "matches (Alt r q) w \<longleftrightarrow> matches r w \<or> matches q w"

abbreviation lit :: "string \<Rightarrow> regex" where
  "lit cs \<equiv> Cls (\<lambda>c. c \<in> set cs)"

definition re_identifier :: regex where
  "re_identifier = Cat (Cls isIdentifierStart) (Many isIdentifierPart)"

definition re_exponent :: regex where
  "re_exponent = Cat (lit ''eE'') (Cat (Opt (lit ''+-'')) (Cat (Many underscore)
     (Cat (Cls isDecimalDigit) (Many num_part))))"

definition re_decimal :: regex where
  "re_decimal =
     Cat (Alt (Cat (Cls isDecimalDigit) (Cat (Many num_part) (Opt (Cat (lit ''.'') (Many num_part)))))
              (Cat (lit ''.'') (Cat (Cls isDecimalDigit) (Many num_part))))
         (Opt re_exponent)"

definition re_base :: "string \<Rightarrow> (char \<Rightarrow> bool) \<Rightarrow> regex" where
  "re_base letters d =
     Cat (lit ''0'') (Cat (Many underscore) (Cat (lit letters) (Cat (Many underscore)
       (Cat (Cls d) (Many (\<lambda>c. d c \<or> underscore c))))))"

section \<open>Greedy scanning\<close>

lemma matches_Cls_Cat [simp]:
  "matches (Cat (Cls p) r) w \<longleftrightarrow> (\<exists>c v. w = c # v \<and> p c \<and> matches r v)"
  by auto (metis append_Cons append_Nil)

lemma matches_Cat_assoc: "matches (Cat (Cat a b) r) w \<longleftrightarrow> matches (Cat a (Cat b r)) w"
  by simp (metis append.assoc)

lemma matches_Cat_Alt: "matches (Cat (Alt a b) r) w \<longleftrightarrow> matches (Cat a r) w \<or> matches (Cat b r) w"
  by auto

lemma matches_Cat_Opt: "matches (Cat (Opt a) r) w \<longleftrightarrow> matches r w \<or> matches (Cat a r) w"
  by auto

text \<open>
  The rest of the pattern never starts with a byte of the class, so the longest prefix is the
  only choice.
\<close>

definition follows :: "(char \<Rightarrow> bool) \<Rightarrow> regex \<Rightarrow> bool" where
  "follows p r \<longleftrightarrow> (\<forall>c v. matches r (c # v) \<longrightarrow> \<not> p c)"

lemma matches_Many_Cat:
  assumes "follows p r"
  shows "matches (Cat (Many p) r) w \<longleftrightarrow> matches r (dropWhile p w)"
proof
  assume "matches (Cat (Many p) r) w"
  then obtain u v where w: "w = u @ v" "list_all p u" "matches r v" by auto
  moreover have "dropWhile p (u @ v) = v"
    using w(2,3) assms by (cases v) (auto simp: follows_def list_all_iff dropWhile_append)
  ultimately show "matches r (dropWhile p w)" by simp
next
  assume "matches r (dropWhile p w)"
  moreover have "list_all p (takeWhile p w)" by (auto simp: list_all_iff dest: set_takeWhileD)
  ultimately show "matches (Cat (Many p) r) w"
    by (simp only: matches.simps) (metis takeWhile_dropWhile_id)
qed

lemma follows_digit: "follows underscore (Cat (Cls isDecimalDigit) r)"
  unfolding follows_def matches_Cls_Cat by (auto simp: underscore_def isDecimalDigit_def)

lemma dropWhile_all: "dropWhile p w = [] \<longleftrightarrow> list_all p w"
  by (simp add: list_all_iff)

lemma underscores_digit:
  "matches (Cat (Many underscore) (Cat (Cls isDecimalDigit) (Many num_part))) w = digits_tail w"
  unfolding matches_Many_Cat [OF follows_digit] matches_Cls_Cat digits_tail_def dropWhile_all
  by (cases "dropWhile underscore w") (auto simp del: dropWhile_eq_Nil_conv)

lemma signed_digits:
  "matches (Cat (Opt (lit ''+-'')) (Cat (Many underscore) (Cat (Cls isDecimalDigit) (Many num_part)))) w =
   digits_tail (skip_sign w)"
proof -
  have "\<not> digits_tail (c # u)" if "c \<in> set ''+-''" for c u
    using that by (auto simp: digits_tail_def underscore_def isDecimalDigit_def)
  then show ?thesis
    unfolding matches_Cat_Opt matches_Cls_Cat underscores_digit
    by (cases w) (auto simp: skip_sign_def)
qed

lemma matches_exponent: "matches (Opt re_exponent) w = matchExponent w"
proof (cases w)
  case (Cons e v)
  have "matches re_exponent w \<longleftrightarrow> e \<in> set ''eE'' \<and> digits_tail (skip_sign v)"
    unfolding re_exponent_def matches_Cls_Cat signed_digits using Cons by auto
  moreover have "matchExponent w \<longleftrightarrow> e \<in> set ''eE'' \<and> digits_tail (skip_sign v)"
    using Cons by (simp add: matchExponent_def)
  ultimately show ?thesis using Cons by simp
qed (simp add: matchExponent_def)

lemma follows_exponent: "(\<And>c. p c \<Longrightarrow> c \<notin> set ''eE'') \<Longrightarrow> follows p (Opt re_exponent)"
  unfolding follows_def re_exponent_def matches.simps(3) matches_Cls_Cat by auto

lemma num_part_follow: "num_part c \<Longrightarrow> c \<notin> set ''eE.''"
  by (auto simp: num_part_def isDecimalDigit_def underscore_def)

lemma matches_num_exponent:
  "matches (Cat (Many num_part) (Opt re_exponent)) w = matchExponent (dropWhile num_part w)"
  using num_part_follow by (subst matches_Many_Cat [OF follows_exponent]) (auto simp: matches_exponent simp del: matches.simps)

lemma matches_fraction:
  "matches (Cat (Opt (Cat (lit ''.'') (Many num_part))) (Opt re_exponent)) r = fraction_tail r"
proof -
  have "\<not> matchExponent (CHR ''.'' # v)" for v by (simp add: matchExponent_def)
  then show ?thesis
    unfolding matches_Cat_Opt matches_Cat_assoc matches_Cls_Cat matches_num_exponent matches_exponent
    by (cases r) (auto simp: fraction_tail_def)
qed

lemma isDecimalLiteral_matches: "isDecimalLiteral w = matches re_decimal w"
proof (cases w)
  case (Cons c v)
  have f: "follows num_part (Cat (Opt (Cat (lit ''.'') (Many num_part))) (Opt re_exponent))"
    using num_part_follow unfolding follows_def matches_fraction
    by (auto simp: fraction_tail_def matchExponent_def split: if_splits)
  have "matches re_decimal w \<longleftrightarrow> (isDecimalDigit c \<and> fraction_tail (dropWhile num_part v)) \<or>
      (c = CHR ''.'' \<and> (\<exists>d u. v = d # u \<and> isDecimalDigit d \<and> matchExponent (dropWhile num_part u)))"
    unfolding re_decimal_def matches_Cat_Alt matches_Cat_assoc matches_Cls_Cat
      matches_Many_Cat [OF f] matches_fraction matches_num_exponent
    using Cons by auto
  moreover have "\<not> isDecimalDigit (CHR ''.'')" by (simp add: isDecimalDigit_def)
  ultimately show ?thesis using Cons by (cases v) auto
qed (simp add: re_decimal_def)

lemma matchBaseDigits_iff:
  "matchBaseDigits r d \<longleftrightarrow>
   (\<exists>c v. dropWhile underscore r = c # v \<and> d c \<and> list_all (\<lambda>c. d c \<or> underscore c) v)"
  by (cases "dropWhile underscore r") (auto simp: matchBaseDigits_def disj_commute simp del: dropWhile_eq_Nil_conv)

lemma matches_base:
  assumes "\<And>c. c \<in> set letters \<Longrightarrow> c \<noteq> CHR ''_''" "\<And>c. d c \<Longrightarrow> c \<noteq> CHR ''_''"
  shows "matches (re_base letters d) w \<longleftrightarrow>
     (\<exists>v b r. w = CHR ''0'' # v \<and> dropWhile underscore v = b # r \<and> b \<in> set letters \<and> matchBaseDigits r d)"
proof -
  have f: "follows underscore (Cat (Cls d) r)" "follows underscore (Cat (lit letters) r)" for r
    unfolding follows_def matches_Cls_Cat using assms by (auto simp: underscore_def)
  show ?thesis
    unfolding re_base_def matches_Cls_Cat matches_Many_Cat [OF f(2)] matches_Many_Cat [OF f(1)]
      matchBaseDigits_iff by auto
qed

text \<open>A literal with a base prefix is not a decimal literal.\<close>

lemma decimal_no_base:
  assumes "dropWhile underscore v = b # r" "b \<in> set ''bBxX''"
  shows "\<not> isDecimalLiteral (CHR ''0'' # v)"
proof -
  have "\<not> num_part b" using assms(2) by (auto simp: num_part_def isDecimalDigit_def underscore_def)
  moreover have "dropWhile num_part v = dropWhile num_part (dropWhile underscore v)"
    by (induction v) (auto simp: num_part_def)
  ultimately have "dropWhile num_part v = b # r" using assms(1) by simp
  then show ?thesis
    using assms(2) by (auto simp: fraction_tail_def matchExponent_def isDecimalDigit_def)
qed

section \<open>Properties\<close>

text \<open>\<open>IsValidIdentifier\<close> decides the documented expression \<open>^[A-Za-z_][A-Za-z0-9_]*$\<close> minus
  the reserved keywords.\<close>

theorem IsValidIdentifier_matches:
  "IsValidIdentifier i \<longleftrightarrow> matches re_identifier i \<and> \<not> IsReservedKeyword i"
  unfolding re_identifier_def matches_Cls_Cat
  by (cases i) (auto simp: IsValidIdentifier_def IsReservedKeyword_def)

text \<open>\<open>IsValidNumberLiteral\<close>, a single greedy pass without backtracking, accepts exactly the
  texts that one of the three documented expressions matches: decimal, binary or hexadecimal.\<close>

theorem IsValidNumberLiteral_matches:
  "IsValidNumberLiteral t \<longleftrightarrow>
     matches re_decimal t \<or> matches (re_base ''bB'' isBinaryDigit) t \<or>
     matches (re_base ''xX'' isHexDigit) t"
proof (cases t)
  case (Cons c s)
  have b: "matches (re_base ''bB'' isBinaryDigit) t \<longleftrightarrow>
      c = CHR ''0'' \<and> (\<exists>b r. dropWhile underscore s = b # r \<and> b \<in> set ''bB'' \<and> matchBaseDigits r isBinaryDigit)"
    using Cons by (subst matches_base) (auto simp: isBinaryDigit_def)
  have x: "matches (re_base ''xX'' isHexDigit) t \<longleftrightarrow>
      c = CHR ''0'' \<and> (\<exists>b r. dropWhile underscore s = b # r \<and> b \<in> set ''xX'' \<and> matchBaseDigits r isHexDigit)"
    using Cons by (subst matches_base) (auto simp: isHexDigit_def)
  show ?thesis
  proof (cases "c = CHR ''0'' \<and> (\<exists>b r. dropWhile underscore s = b # r \<and> b \<in> set ''bBxX'')")
    case True
    then show ?thesis
      using decimal_no_base [of s] Cons
      unfolding b x isDecimalLiteral_matches [symmetric]
      by (auto simp: IsValidNumberLiteral_def)
  next
    case False
    then have "IsValidNumberLiteral t = isDecimalLiteral t"
      using Cons by (auto simp: IsValidNumberLiteral_def split: list.splits)
    with False show ?thesis unfolding b x isDecimalLiteral_matches [symmetric] by auto
  qed
qed (simp add: IsValidNumberLiteral_def re_decimal_def re_base_def)

end
