(* ===== verification/Cst_Dense.thy ===== *)
theory Cst_Dense
  imports Cst_Parse_Correct Luau_Lex_Correct Luau_Validate
begin

text \<open>
  The dense serializer and minifier of \<open>src/internal/luau/cst/dense.go\<close>, and the tree
  utilities of \<open>transform.go\<close>. The writer is a record that each write returns updated. What
  the writer's methods \<open>node\<close>, \<open>table\<close>, \<open>field\<close> and \<open>block\<close> write for a node is a list of
  items in the order of the calls: a token, a forced separator or a child node; \<open>dense_node\<close>
  performs them.
\<close>

section \<open>String literals (\<open>transform.go\<close>)\<close>

fun unescapeLoop :: "string \<Rightarrow> string" where
  "unescapeLoop [] = []"
| "unescapeLoop [c] = [c]"
| "unescapeLoop (c # e # s) =
     (if c = BSLASH then
        (if e = CHR ''n'' then LF else if e = CHR ''t'' then TAB else if e = CHR ''r'' then CR else e)
        # unescapeLoop s
      else c # unescapeLoop (e # s))"

definition unescapeShort :: "string \<Rightarrow> string" where
  "unescapeShort s = (if BSLASH \<notin> set s then s else unescapeLoop s)"

definition longStringBody :: "string \<Rightarrow> string option" where
  "longStringBody raw =
     (if length raw < 2 \<or> raw ! 0 \<noteq> CHR ''['' then None
      else (let i = 1 + countEq (drop 1 raw) in
            if length raw \<le> i \<or> raw ! i \<noteq> CHR ''['' then None
            else (let level = i - 1; op = level + 2; cl = level + 2 in
                  if length raw < op + cl then None
                  else Some (slice raw op (length raw - cl)))))"

definition StringValue :: "tokenref \<Rightarrow> string option" where
  "StringValue s =
     (let raw = Text (Token s) in
      if 2 \<le> length raw \<and> (raw ! 0 = DQUOTE \<or> raw ! 0 = SQUOTE) \<and> raw ! (length raw - 1) = raw ! 0
      then Some (unescapeShort (slice raw 1 (length raw - 1)))
      else longStringBody raw)"

section \<open>Walks (\<open>dense.go\<close>, \<open>transform.go\<close>)\<close>

text \<open>\<open>EachNode\<close>: the node and its descendants, in the order of the visits.\<close>

function EachNode :: "node \<Rightarrow> node list" where
  "EachNode n =
     n # concat (map (\<lambda>y. case y of YRef r \<Rightarrow> [] | YChild m \<Rightarrow> EachNode m) (tokens n))"
  by pat_completeness auto
termination
  by (relation child) (rule wf_child, simp add: child_def)

declare EachNode.simps [simp del]

text \<open>The walks of \<open>firstRef\<close> and \<open>firstToken\<close> keep the first token that is not the end of the file.\<close>

definition firstRef :: "node \<Rightarrow> tokenref option" where
  "firstRef n = find (\<lambda>r. Kind (Token r) \<noteq> KEOF) (EachToken n)"

definition firstToken :: "node \<Rightarrow> token option" where
  "firstToken n = map_option Token (find (\<lambda>r. Kind (Token r) \<noteq> KEOF) (EachToken n))"

definition lastRef :: "node \<Rightarrow> tokenref option" where
  "lastRef n = foldl (\<lambda>found r. if Kind (Token r) \<noteq> KEOF then Some r else found) None (EachToken n)"

definition leadingText :: "tokenref option \<Rightarrow> string" where
  "leadingText r = (case r of None \<Rightarrow> [] | Some r \<Rightarrow> concat (map TText (Leading r)))"

definition trailingText :: "tokenref option \<Rightarrow> string" where
  "trailingText r = (case r of None \<Rightarrow> [] | Some r \<Rightarrow> concat (map TText (Trailing r)))"

text \<open>\<open>UnparseWith\<close>; the map from nodes to replacements is a partial function.\<close>

function UnparseWith :: "(node \<Rightarrow> string option) \<Rightarrow> node \<Rightarrow> string" where
  "UnparseWith replace n =
     (case replace n of
        Some rep \<Rightarrow> leadingText (firstRef n) @ rep @ trailingText (lastRef n)
      | None \<Rightarrow>
          concat (map (\<lambda>y. case y of YRef r \<Rightarrow> ref_text r | YChild m \<Rightarrow> UnparseWith replace m) (tokens n)))"
  by pat_completeness auto
termination
  by (relation "inv_image child snd") (rule wf_inv_image [OF wf_child], simp add: child_def)

declare UnparseWith.simps [simp del]

section \<open>The dense writer (\<open>dense.go\<close>)\<close>

record denseWriter =
  out :: string
  prev :: string
  prevKind :: kind
  started :: bool

definition isInterpKind :: "kind \<Rightarrow> bool" where
  "isInterpKind k \<longleftrightarrow> k \<in> {KInterpSimple, KInterpStart, KInterpMid, KInterpEnd}"

definition numberGluesToNext :: "string \<Rightarrow> bool" where
  "numberGluesToNext s =
     (case s of [] \<Rightarrow> False
      | c # _ \<Rightarrow> c = CHR ''_'' \<or> c = CHR ''.'' \<or> (CHR ''0'' \<le> c \<and> c \<le> CHR ''9'') \<or>
                (CHR ''A'' \<le> c \<and> c \<le> CHR ''Z'') \<or> (CHR ''a'' \<le> c \<and> c \<le> CHR ''z''))"

text \<open>\<open>needsSeparator\<close>: the early return on a third significant token gives the same answer as
  the final test.\<close>

definition needsSeparator :: "string \<Rightarrow> string \<Rightarrow> bool" where
  "needsSeparator a b =
     (let sg = filter (\<lambda>t. Kind t \<noteq> KWhitespace \<and> Kind t \<noteq> KComment \<and> Kind t \<noteq> KEOF)
                 (fst (Tokenize (a @ b)))
      in \<not> (length sg = 2 \<and> Text (sg ! 0) = a \<and> Text (sg ! 1) = b))"

definition dense_tok :: "kind \<Rightarrow> string \<Rightarrow> denseWriter \<Rightarrow> denseWriter" where
  "dense_tok k t w =
     (if k = KEOF then w
      else (let sep = started w \<and> \<not> isInterpKind (prevKind w) \<and> \<not> isInterpKind k \<and>
                      (needsSeparator (prev w) t \<or> (prevKind w = KNumber \<and> numberGluesToNext t))
            in w\<lparr>out := out w @ (if sep then '' '' else []) @ t,
                 prev := t, prevKind := k, started := True\<rparr>))"

definition forced :: "string \<Rightarrow> denseWriter \<Rightarrow> denseWriter" where
  "forced s w = w\<lparr>out := out w @ s, prev := s, prevKind := KSymbol, started := True\<rparr>"

definition fieldName :: "node \<Rightarrow> string option" where
  "fieldName key =
     (case key of
        String_n s \<Rightarrow>
          (case StringValue s of
             None \<Rightarrow> None
           | Some v \<Rightarrow> if IsValidIdentifier v then Some v else None)
      | _ \<Rightarrow> None)"

definition startsWithParen :: "node \<Rightarrow> bool" where
  "startsWithParen n =
     (case firstToken n of None \<Rightarrow> False | Some t \<Rightarrow> Kind t = KSymbol \<and> Text t = ''('')"

datatype item = ITok kind string | IForced string | INode node

definition ref_item :: "tokenref \<Rightarrow> item" where
  "ref_item r = ITok (Kind (Token r)) (Text (Token r))"

text \<open>\<open>emitTokens\<close>, \<open>field\<close>, \<open>table\<close>, \<open>block\<close> and \<open>node\<close>.\<close>

definition emit_items :: "node yield list \<Rightarrow> item list" where
  "emit_items ys = map (\<lambda>y. case y of YRef r \<Rightarrow> ref_item r | YChild m \<Rightarrow> INode m) ys"

definition field_items :: "node TableField \<Rightarrow> item list" where
  "field_items f =
     (case f of
        KeyedField lb key rb eq v sep \<Rightarrow>
          (case fieldName key of
             Some name \<Rightarrow> [ITok KName name, ref_item eq, INode v] @ emit_items (emit_opt sep)
           | None \<Rightarrow> emit_items (tokens_TableField f))
      | _ \<Rightarrow> emit_items (tokens_TableField f))"

fun block_items :: "bool \<Rightarrow> node list \<Rightarrow> item list" where
  "block_items first [] = []"
| "block_items first (s # ss) =
     (if \<not> first \<and> startsWithParen s then [IForced '';'', INode s] else [INode s]) @ block_items False ss"

definition node_items :: "bool \<Rightarrow> node \<Rightarrow> item list" where
  "node_items convertIndexToField n =
     (case n of
        Block ss \<Rightarrow> block_items True ss
      | IndexExpr base op key cl \<Rightarrow>
          (case (if convertIndexToField then fieldName key else None) of
             Some name \<Rightarrow> [INode base, ITok KSymbol ''.'', ITok KName name]
           | None \<Rightarrow> emit_items (tokens n))
      | Table op fs cl \<Rightarrow>
          if convertIndexToField
          then ref_item op # concat (map field_items fs) @ [ref_item cl]
          else emit_items (tokens n)
      | _ \<Rightarrow> emit_items (tokens n))"

lemma block_items_children: "INode m \<in> set (block_items b ss) \<Longrightarrow> m \<in> set ss"
  by (induction ss arbitrary: b) (auto split: if_splits)

lemma emit_items_children: "INode m \<in> set (emit_items ys) \<longleftrightarrow> YChild m \<in> set ys"
  by (force simp: emit_items_def ref_item_def split: yield.splits)

lemma field_items_children: "INode m \<in> set (field_items f) \<Longrightarrow> YChild m \<in> set (tokens_TableField f)"
  by (auto simp: field_items_def emit_items_children ref_item_def split: TableField.splits option.splits)

lemma node_items_child: "INode m \<in> set (node_items cv n) \<Longrightarrow> (m, n) \<in> child"
  by (auto simp: node_items_def child_def emit_items_children ref_item_def
      dest!: block_items_children field_items_children split: node.splits option.splits if_splits)

function dense_node :: "bool \<Rightarrow> node \<Rightarrow> denseWriter \<Rightarrow> denseWriter" where
  "dense_node cv n w =
     foldl (\<lambda>w i. case i of ITok k t \<Rightarrow> dense_tok k t w | IForced s \<Rightarrow> forced s w
                   | INode m \<Rightarrow> dense_node cv m w) w (node_items cv n)"
  by pat_completeness auto
termination
  by (relation "inv_image child (\<lambda>(cv, n, w). n)")
    (rule wf_inv_image [OF wf_child], simp add: node_items_child)

declare dense_node.simps [simp del]

definition newDenseWriter :: denseWriter where
  "newDenseWriter = \<lparr>out = [], prev = [], prevKind = KEOF, started = False\<rparr>"

definition DenseWith :: "node \<Rightarrow> bool \<Rightarrow> string" where
  "DenseWith n convertIndexToField = out (dense_node convertIndexToField n newDenseWriter)"

definition Dense :: "node \<Rightarrow> string" where
  "Dense n = DenseWith n False"

text \<open>A \<open>File\<close> is written as its block.\<close>

definition directives :: "cst_file \<Rightarrow> string list" where
  "directives f =
     (let r = (case firstRef (Body f) of Some r \<Rightarrow> r | None \<Rightarrow> EOFTok f)
      in map TText (filter (\<lambda>t. TKind t = KComment \<and> HasPrefix (TText t) ''--!'') (Leading r)))"

definition MinifyWith :: "string \<Rightarrow> bool \<Rightarrow> (string \<times> diagnostic list) option" where
  "MinifyWith t convertIndexToField =
     (case Parse t of
        None \<Rightarrow> None
      | Some (f, ds) \<Rightarrow>
          Some (concat (map (\<lambda>d. d @ [LF]) (directives f)) @ DenseWith (Body f) convertIndexToField, ds))"

definition Minify :: "string \<Rightarrow> (string \<times> diagnostic list) option" where
  "Minify t = MinifyWith t True"

section \<open>What is written\<close>

text \<open>\<open>weave ts s\<close>: \<open>s\<close> consists of the texts \<open>ts\<close>, in order, with only spaces and semicolons
  between them.\<close>

inductive weave :: "string list \<Rightarrow> string \<Rightarrow> bool" where
  weave_Nil: "weave [] []"
| weave_text: "weave ts s \<Longrightarrow> weave (t # ts) (t @ s)"
| weave_space: "weave ts s \<Longrightarrow> weave ts (CHR '' '' # s)"
| weave_semi: "weave ts s \<Longrightarrow> weave ts (CHR '';'' # s)"

lemma weave_append: "weave a s \<Longrightarrow> weave b t \<Longrightarrow> weave (a @ b) (s @ t)"
  by (induction rule: weave.induct) (auto intro: weave.intros)

definition sig_texts :: "tokenref list \<Rightarrow> string list" where
  "sig_texts rs = map (\<lambda>r. Text (Token r)) (filter isSig rs)"

lemma sig_texts_simps [simp]:
  "sig_texts [] = []" "sig_texts (rs @ qs) = sig_texts rs @ sig_texts qs"
  "sig_texts (r # rs) = (if Kind (Token r) = KEOF then [] else [Text (Token r)]) @ sig_texts rs"
  by (simp_all add: sig_texts_def isSig_def)

fun item_texts :: "item \<Rightarrow> string list" where
  "item_texts (ITok k t) = (if k = KEOF then [] else [t])"
| "item_texts (IForced s) = []"
| "item_texts (INode m) = sig_texts (EachToken m)"

lemma texts_emit_items: "concat (map item_texts (emit_items ys)) = sig_texts (yields_refs ys)"
  by (induction ys) (auto simp: emit_items_def ref_item_def split: yield.splits)

lemma texts_block_items: "concat (map item_texts (block_items b ss)) = sig_texts (yields_refs (map YChild ss))"
  by (induction ss arbitrary: b) auto

lemma texts_node_items: "concat (map item_texts (node_items False n)) = sig_texts (EachToken n)"
proof -
  have "concat (map item_texts (emit_items (tokens n))) = sig_texts (EachToken n)"
    by (simp only: texts_emit_items EachToken_eq)
  then show ?thesis
    by (cases n) (simp_all add: node_items_def texts_block_items del: EachToken_node, simp)
qed

lemma weave_tok:
  "\<exists>s. out (dense_tok k t w) = out w @ s \<and> weave (if k = KEOF then [] else [t]) s"
  using weave_text [OF weave_Nil, of t] weave_space by (auto simp: dense_tok_def Let_def weave_Nil)

lemma weave_forced: "t = '';'' \<Longrightarrow> \<exists>s. out (forced t w) = out w @ s \<and> weave [] s"
  using weave_semi [OF weave_Nil] by (auto simp: forced_def)

lemma block_items_forced: "IForced s \<in> set (block_items b ss) \<Longrightarrow> s = '';''"
  by (induction ss arbitrary: b) (auto split: if_splits)

lemma node_items_forced: "IForced s \<in> set (node_items False n) \<Longrightarrow> s = '';''"
  by (auto simp: node_items_def emit_items_def ref_item_def dest: block_items_forced
      split: node.splits yield.splits)

lemma weave_items:
  assumes "\<And>m w. INode m \<in> set its \<Longrightarrow> \<exists>s. out (f m w) = out w @ s \<and> weave (sig_texts (EachToken m)) s"
    and "\<And>s. IForced s \<in> set its \<Longrightarrow> s = '';''"
  shows "\<exists>s. out (foldl (\<lambda>w i. case i of ITok k t \<Rightarrow> dense_tok k t w | IForced s \<Rightarrow> forced s w
            | INode m \<Rightarrow> f m w) w its) = out w @ s \<and> weave (concat (map item_texts its)) s"
  using assms
proof (induction its arbitrary: w)
  case (Cons i its)
  have "\<exists>s. out (case i of ITok k t \<Rightarrow> dense_tok k t w | IForced s \<Rightarrow> forced s w | INode m \<Rightarrow> f m w) = out w @ s \<and>
      weave (item_texts i) s" (is "\<exists>s. out ?w = _ \<and> _")
  proof (cases i)
    case (IForced t)
    then have "t = '';''" using Cons.prems(2) by simp
    with IForced weave_forced show ?thesis by simp
  qed (use weave_tok Cons.prems in auto)
  then obtain s where s: "out ?w = out w @ s" "weave (item_texts i) s" by blast
  from Cons.IH [of ?w] Cons.prems obtain t where
    "out (foldl (\<lambda>w i. case i of ITok k t \<Rightarrow> dense_tok k t w | IForced s \<Rightarrow> forced s w | INode m \<Rightarrow> f m w) ?w its)
      = out ?w @ t" "weave (concat (map item_texts its)) t" by auto
  with s weave_append [OF s(2)] show ?case by auto
qed (simp add: weave_Nil)

lemma weave_dense: "\<exists>s. out (dense_node False n w) = out w @ s \<and> weave (sig_texts (EachToken n)) s"
proof (induction "False" n w rule: dense_node.induct)
  case (1 n w)
  have "\<exists>s. out (dense_node False m v) = out v @ s \<and> weave (sig_texts (EachToken m)) s"
    if "INode m \<in> set (node_items False n)" for m v
    using 1 that by simp
  from weave_items [of "node_items False n", OF this node_items_forced] show ?case
    by (simp add: dense_node.simps [of False n w] texts_node_items del: EachToken_node)
qed

section \<open>Escape-free literals\<close>

lemma slice_mid: "slice (a # s @ [b]) 1 (Suc (length s)) = s"
  by (simp add: slice_def)

lemma StringValue_plain:
  assumes "Text (Token r) = q # s @ [q]" "q = DQUOTE \<or> q = SQUOTE" "BSLASH \<notin> set s"
  shows "StringValue r = Some s"
  using assms slice_mid [of q s q]
  by (auto simp: StringValue_def Let_def unescapeShort_def nth_append)

lemma countEq_replicate: "countEq (replicate n (CHR ''='') @ CHR ''['' # s) = n"
  by (induction n) (simp_all add: countEq_def)

lemma longStringBody_body:
  "longStringBody (CHR ''['' # replicate n (CHR ''='') @ CHR ''['' # body @ longClosing n) = Some body"
  by (simp add: longStringBody_def countEq_replicate longClosing_def Let_def nth_append slice_def)

section \<open>Properties\<close>

text \<open>C14: the minifier returns for every input. Without the index rewrite its output is the
  leading directives, one per line, followed by every token of the source other than whitespace
  and comments, in order, with nothing but spaces and semicolons added.\<close>

theorem Minify_keeps_tokens:
  "\<exists>f ds s. Parse t = Some (f, ds) \<and>
     MinifyWith t False = Some (concat (map (\<lambda>d. d @ [LF]) (directives f)) @ s, ds) \<and>
     weave (map Text (filter (\<lambda>k. \<not> isTrivia (Kind k) \<and> Kind k \<noteq> KEOF) (fst (Tokenize t)))) s"
proof (rule Parse_spec [of t])
  fix f ds rs
  assume p: "Parse t = Some (f, ds)" "AttachTrivia t = Some rs" "rs \<noteq> []"
    "sig (EachToken (Body f)) = butlast rs"
  obtain s where s: "DenseWith (Body f) False = s" "weave (sig_texts (EachToken (Body f))) s"
    using weave_dense [of "Body f" newDenseWriter] by (auto simp: DenseWith_def newDenseWriter_def)
  have one: "one_EOF (map Token rs)" using lx.attach_eof [of t] p(2) by (simp add: AttachTrivia_def)
  have toks: "map Token rs = filter (\<lambda>k. \<not> isTrivia (Kind k)) (fst (Tokenize t))"
    using lx.attach_total [of t] p(2) by (metis AttachTrivia_def option.inject)
  have "sig_texts (EachToken (Body f)) = map (\<lambda>r. Text (Token r)) (butlast rs)"
    using p(4) by (simp add: sig_texts_def)
  also have "\<dots> = map Text (filter (\<lambda>k. Kind k \<noteq> KEOF) (map Token rs))"
    using one p(3) by (auto simp: one_EOF_def butlast_conv_take map_eq_append_conv Cons_eq_append_conv)
  also have "\<dots> = map Text (filter (\<lambda>k. \<not> isTrivia (Kind k) \<and> Kind k \<noteq> KEOF) (fst (Tokenize t)))"
    by (simp add: toks conj_commute)
  finally show ?thesis using p(1) s by (auto simp: MinifyWith_def)
qed

text \<open>A key that the minifier turns into a field name is an identifier that is not a keyword
  and that the scanner reads as one name token.\<close>

theorem fieldName_is_name:
  assumes "fieldName key = Some nm"
  shows "map (\<lambda>k. (Kind k, Text k)) (fst (Tokenize nm)) = [(KName, nm), (KEOF, [])] \<and>
    \<not> IsReservedKeyword nm"
proof -
  have v: "IsValidIdentifier nm"
    using assms by (auto simp: fieldName_def split: node.splits option.splits if_splits)
  have eq: "isIdentifierStart = isNameStart" "isIdentifierPart = isNameCont"
    by (auto simp: isIdentifierStart_def isNameStart_def isIdentifierPart_def isNameCont_def isDigit_def fun_eq_iff)
  have "nm \<noteq> []" "isNameStart (hd nm)" "list_all isNameCont nm"
    using v by (cases nm; auto simp: IsValidIdentifier_def eq isNameCont_def)+
  from lex_name [OF this] v show ?thesis
    by (simp add: IsValidIdentifier_def IsReservedKeyword_def)
qed

theorem fieldName_is_name_witness:
  "map (\<lambda>k. (Kind k, Text k)) (fst (Tokenize ''foo'')) = [(KName, ''foo''), (KEOF, [])] \<and>
   \<not> IsReservedKeyword ''foo''"
  by (rule fieldName_is_name [of "String_n (zeroRef\<lparr>Token := (Token zeroRef)\<lparr>Kind := KString,
     Text := [DQUOTE] @ ''foo'' @ [DQUOTE]\<rparr>\<rparr>)"]) code_simp

text \<open>For a quoted literal without escapes, the field name is the text between the quotes,
  and the rewrite applies exactly when that text is a valid identifier.\<close>

theorem fieldName_plain:
  assumes "Text (Token r) = q # s @ [q]" "q = DQUOTE \<or> q = SQUOTE" "BSLASH \<notin> set s"
  shows "fieldName (String_n r) = (if IsValidIdentifier s then Some s else None)"
  by (simp add: fieldName_def StringValue_plain [OF assms])

theorem fieldName_plain_witness:
  "fieldName (String_n (zeroRef\<lparr>Token := (Token zeroRef)\<lparr>Kind := KString,
     Text := SQUOTE # ''end'' @ [SQUOTE]\<rparr>\<rparr>)) = None"
proof -
  let ?r = "zeroRef\<lparr>Token := (Token zeroRef)\<lparr>Kind := KString, Text := SQUOTE # ''end'' @ [SQUOTE]\<rparr>\<rparr>"
  have "fieldName (String_n ?r) = (if IsValidIdentifier ''end'' then Some ''end'' else None)"
    by (rule fieldName_plain [of _ SQUOTE]) simp_all
  moreover have "\<not> IsValidIdentifier ''end''" by code_simp
  ultimately show ?thesis by simp
qed

text \<open>Substituting nothing is unparsing.\<close>

theorem UnparseWith_none: "UnparseWith (\<lambda>_. None) n = Unparse n"
proof (induction n rule: Unparse.induct)
  case (1 n)
  then show ?case
    by (subst UnparseWith.simps, subst Unparse.simps) (auto intro!: arg_cong [of _ _ concat] split: yield.splits)
qed

text \<open>The rewrite of an index whose key has an escape changes the key: the literal whose value
  is \<open>A\<close>, written as a hexadecimal escape, becomes the field \<open>x41\<close>.\<close>

theorem fieldName_escape:
  "fieldName (String_n (zeroRef\<lparr>Token := (Token zeroRef)\<lparr>Kind := KString,
     Text := [DQUOTE, BSLASH] @ ''x41'' @ [DQUOTE]\<rparr>\<rparr>)) = Some ''x41''"
  by code_simp

text \<open>A table constructor that opens an interpolation hole is written without a space, so that
  the hole's brace and the table's brace become adjacent.\<close>

theorem dense_joins_braces:
  "out (dense_tok KSymbol ''{'' (dense_tok KInterpStart (BTICK # ''{'') w)) =
   out (dense_tok KInterpStart (BTICK # ''{'') w) @ ''{''"
  by (simp add: dense_tok_def Let_def isInterpKind_def)

end
