(* ===== verification/Luau_AST.thy ===== *)
theory Luau_AST
  imports Luau_Validate
begin

text \<open>
  The Luau syntax tree of \<open>src/internal/luau\<close>: the node structs (\<open>nodes.go\<close>), the syntax
  kinds (\<open>kind.go\<close>) and the guards (\<open>guards.go\<close>). A node is a value; the parent pointer that
  the Go constructors set is the place where the value stands in its tree, and the functions
  that read it take it as an argument. Because \<open>adopt\<close> (\<open>create.go\<close>) clones a node that already
  has a parent, every node of a tree built by the constructors has exactly one such place.
\<close>

section \<open>Nodes (\<open>nodes.go\<close>)\<close>

text \<open>A field that holds a node or a list of nodes.\<close>

datatype 'n NodeOrList = One 'n | List "'n list"

datatype (plugins only: code size) lnode =
    Identifier string
  | TemporaryIdentifier string nat bool  \<comment> \<open>name, ID, exact name\<close>
  | ComputedIndexExpression lnode lnode
  | PropertyAccessExpression lnode string
  | CallExpression lnode "lnode list"
  | MethodCallExpression string lnode "lnode list"
  | ParenthesizedExpression lnode
  | None_e
  | NilLiteral
  | FalseLiteral
  | TrueLiteral
  | NumberLiteral string
  | StringLiteral string
  | VarArgsLiteral
  | FunctionExpression "lnode list" bool "lnode list"  \<comment> \<open>parameters, \<open>...\<close>, statements\<close>
  | BinaryExpression lnode string lnode
  | UnaryExpression string lnode
  | IfExpression lnode lnode lnode
  | InterpolatedString "lnode list"
  | Array "lnode list"
  | Map "lnode list"
  | Set "lnode list"
  | MixedTable "lnode list"
  | Assignment "lnode NodeOrList" string "lnode NodeOrList"
  | BreakStatement
  | CallStatement lnode
  | ContinueStatement
  | DoStatement "lnode list"
  | WhileStatement lnode "lnode list"
  | RepeatStatement lnode "lnode list"
  | IfStatement lnode "lnode list" "lnode NodeOrList"
  | NumericForStatement lnode lnode lnode "lnode option" "lnode list"
  | ForStatement "lnode list" lnode "lnode list"
  | FunctionDeclaration bool lnode "lnode list" bool "lnode list"
  | MethodDeclaration lnode string "lnode list" bool "lnode list"
  | VariableDeclaration "lnode NodeOrList" "lnode NodeOrList option"
  | ReturnStatement "lnode NodeOrList"
  | Comment string
  | MapField lnode lnode
  | InterpolatedStringPart string

section \<open>Kinds (\<open>kind.go\<close>)\<close>

datatype (plugins only: code) SyntaxKind =
    KindIdentifier | KindTemporaryIdentifier | KindComputedIndexExpression
  | KindPropertyAccessExpression | KindCallExpression | KindMethodCallExpression
  | KindParenthesizedExpression | KindNone | KindNilLiteral | KindFalseLiteral | KindTrueLiteral
  | KindNumberLiteral | KindStringLiteral | KindVarArgsLiteral | KindFunctionExpression
  | KindBinaryExpression | KindUnaryExpression | KindIfExpression | KindInterpolatedString
  | KindArray | KindMap | KindSet | KindMixedTable | KindAssignment | KindBreakStatement
  | KindCallStatement | KindContinueStatement | KindDoStatement | KindWhileStatement
  | KindRepeatStatement | KindIfStatement | KindNumericForStatement | KindForStatement
  | KindFunctionDeclaration | KindMethodDeclaration | KindVariableDeclaration
  | KindReturnStatement | KindComment | KindMapField | KindInterpolatedStringPart

fun lkind :: "lnode \<Rightarrow> SyntaxKind" where
  "lkind (Identifier _) = KindIdentifier"
| "lkind (TemporaryIdentifier _ _ _) = KindTemporaryIdentifier"
| "lkind (ComputedIndexExpression _ _) = KindComputedIndexExpression"
| "lkind (PropertyAccessExpression _ _) = KindPropertyAccessExpression"
| "lkind (CallExpression _ _) = KindCallExpression"
| "lkind (MethodCallExpression _ _ _) = KindMethodCallExpression"
| "lkind (ParenthesizedExpression _) = KindParenthesizedExpression"
| "lkind None_e = KindNone"
| "lkind NilLiteral = KindNilLiteral"
| "lkind FalseLiteral = KindFalseLiteral"
| "lkind TrueLiteral = KindTrueLiteral"
| "lkind (NumberLiteral _) = KindNumberLiteral"
| "lkind (StringLiteral _) = KindStringLiteral"
| "lkind VarArgsLiteral = KindVarArgsLiteral"
| "lkind (FunctionExpression _ _ _) = KindFunctionExpression"
| "lkind (BinaryExpression _ _ _) = KindBinaryExpression"
| "lkind (UnaryExpression _ _) = KindUnaryExpression"
| "lkind (IfExpression _ _ _) = KindIfExpression"
| "lkind (InterpolatedString _) = KindInterpolatedString"
| "lkind (Array _) = KindArray"
| "lkind (Map _) = KindMap"
| "lkind (Set _) = KindSet"
| "lkind (MixedTable _) = KindMixedTable"
| "lkind (Assignment _ _ _) = KindAssignment"
| "lkind BreakStatement = KindBreakStatement"
| "lkind (CallStatement _) = KindCallStatement"
| "lkind ContinueStatement = KindContinueStatement"
| "lkind (DoStatement _) = KindDoStatement"
| "lkind (WhileStatement _ _) = KindWhileStatement"
| "lkind (RepeatStatement _ _) = KindRepeatStatement"
| "lkind (IfStatement _ _ _) = KindIfStatement"
| "lkind (NumericForStatement _ _ _ _ _) = KindNumericForStatement"
| "lkind (ForStatement _ _ _) = KindForStatement"
| "lkind (FunctionDeclaration _ _ _ _ _) = KindFunctionDeclaration"
| "lkind (MethodDeclaration _ _ _ _ _) = KindMethodDeclaration"
| "lkind (VariableDeclaration _ _) = KindVariableDeclaration"
| "lkind (ReturnStatement _) = KindReturnStatement"
| "lkind (Comment _) = KindComment"
| "lkind (MapField _ _) = KindMapField"
| "lkind (InterpolatedStringPart _) = KindInterpolatedStringPart"

text \<open>The constants in the order of \<open>iota\<close>; the first and last kinds of a category delimit it.\<close>

definition all_kinds :: "SyntaxKind list" where
  "all_kinds =
     [KindIdentifier, KindTemporaryIdentifier, KindComputedIndexExpression,
      KindPropertyAccessExpression, KindCallExpression, KindMethodCallExpression,
      KindParenthesizedExpression, KindNone, KindNilLiteral, KindFalseLiteral, KindTrueLiteral,
      KindNumberLiteral, KindStringLiteral, KindVarArgsLiteral, KindFunctionExpression,
      KindBinaryExpression, KindUnaryExpression, KindIfExpression, KindInterpolatedString,
      KindArray, KindMap, KindSet, KindMixedTable, KindAssignment, KindBreakStatement,
      KindCallStatement, KindContinueStatement, KindDoStatement, KindWhileStatement,
      KindRepeatStatement, KindIfStatement, KindNumericForStatement, KindForStatement,
      KindFunctionDeclaration, KindMethodDeclaration, KindVariableDeclaration,
      KindReturnStatement, KindComment, KindMapField, KindInterpolatedStringPart]"

fun index_of :: "'a \<Rightarrow> 'a list \<Rightarrow> nat" where
  "index_of x [] = 0"
| "index_of x (y # ys) = (if x = y then 0 else Suc (index_of x ys))"

definition kind_code :: "SyntaxKind \<Rightarrow> nat" where
  "kind_code k = index_of k all_kinds"

definition kind_between :: "SyntaxKind \<Rightarrow> SyntaxKind \<Rightarrow> lnode \<Rightarrow> bool" where
  "kind_between a b n \<longleftrightarrow> kind_code a \<le> kind_code (lkind n) \<and> kind_code (lkind n) \<le> kind_code b"

section \<open>Guards (\<open>guards.go\<close>)\<close>

definition IsIndexableExpression :: "lnode \<Rightarrow> bool" where
  "IsIndexableExpression n \<longleftrightarrow> kind_between KindIdentifier KindParenthesizedExpression n"

definition IsExpression :: "lnode \<Rightarrow> bool" where
  "IsExpression n \<longleftrightarrow> kind_between KindIdentifier KindMixedTable n"

definition IsStatement :: "lnode \<Rightarrow> bool" where
  "IsStatement n \<longleftrightarrow> kind_between KindAssignment KindComment n"

definition IsField :: "lnode \<Rightarrow> bool" where
  "IsField n \<longleftrightarrow> kind_between KindMapField KindInterpolatedStringPart n"

definition IsSimple :: "lnode \<Rightarrow> bool" where
  "IsSimple n \<longleftrightarrow> lkind n \<in> {KindIdentifier, KindTemporaryIdentifier, KindNilLiteral, KindTrueLiteral,
     KindFalseLiteral, KindNumberLiteral, KindStringLiteral}"

definition IsSimplePrimitive :: "lnode \<Rightarrow> bool" where
  "IsSimplePrimitive n \<longleftrightarrow> lkind n \<in> {KindNilLiteral, KindTrueLiteral, KindFalseLiteral,
     KindNumberLiteral, KindStringLiteral}"

definition IsTable :: "lnode \<Rightarrow> bool" where
  "IsTable n \<longleftrightarrow> lkind n \<in> {KindArray, KindSet, KindMap, KindMixedTable}"

definition IsFinalStatement :: "lnode \<Rightarrow> bool" where
  "IsFinalStatement n \<longleftrightarrow> lkind n \<in> {KindBreakStatement, KindReturnStatement, KindContinueStatement}"

definition IsCall :: "lnode \<Rightarrow> bool" where
  "IsCall n \<longleftrightarrow> lkind n = KindCallExpression \<or> lkind n = KindMethodCallExpression"

definition IsNone :: "lnode \<Rightarrow> bool" where
  "IsNone n \<longleftrightarrow> lkind n = KindNone"

definition IsFunctionLike :: "lnode \<Rightarrow> bool" where
  "IsFunctionLike n \<longleftrightarrow> lkind n \<in> {KindFunctionDeclaration, KindFunctionExpression, KindMethodDeclaration}"

definition HasStatements :: "lnode \<Rightarrow> bool" where
  "HasStatements n \<longleftrightarrow> lkind n \<in> {KindForStatement, KindNumericForStatement, KindFunctionExpression,
     KindDoStatement, KindFunctionDeclaration, KindIfStatement, KindMethodDeclaration,
     KindRepeatStatement, KindWhileStatement}"

fun StatementsOf :: "lnode \<Rightarrow> lnode list option" where
  "StatementsOf (ForStatement _ _ ss) = Some ss"
| "StatementsOf (NumericForStatement _ _ _ _ ss) = Some ss"
| "StatementsOf (FunctionExpression _ _ ss) = Some ss"
| "StatementsOf (DoStatement ss) = Some ss"
| "StatementsOf (FunctionDeclaration _ _ _ _ ss) = Some ss"
| "StatementsOf (IfStatement _ ss _) = Some ss"
| "StatementsOf (MethodDeclaration _ _ _ _ ss) = Some ss"
| "StatementsOf (RepeatStatement _ ss) = Some ss"
| "StatementsOf (WhileStatement _ ss) = Some ss"
| "StatementsOf _ = None"

definition IsExpressionWithPrecedence :: "lnode \<Rightarrow> bool" where
  "IsExpressionWithPrecedence n \<longleftrightarrow> lkind n \<in> {KindIfExpression, KindUnaryExpression, KindBinaryExpression}"

section \<open>The categories\<close>

text \<open>Kind codes are distinct, so a range of codes is a set of kinds.\<close>

lemma kind_code_simps [simp]:
  "kind_code KindIdentifier = 0" "kind_code KindParenthesizedExpression = 6"
  "kind_code KindMixedTable = 22" "kind_code KindAssignment = 23" "kind_code KindComment = 37"
  "kind_code KindMapField = 38" "kind_code KindInterpolatedStringPart = 39"
  by (simp_all add: kind_code_def all_kinds_def)

lemma IsIndexable_iff:
  "IsIndexableExpression n \<longleftrightarrow> lkind n \<in> {KindIdentifier, KindTemporaryIdentifier,
     KindComputedIndexExpression, KindPropertyAccessExpression, KindCallExpression,
     KindMethodCallExpression, KindParenthesizedExpression}"
  by (cases n) (simp_all add: IsIndexableExpression_def kind_between_def kind_code_def all_kinds_def)

lemma HasStatements_iff: "HasStatements n \<longleftrightarrow> StatementsOf n \<noteq> None"
  by (cases n) (simp_all add: HasStatements_def)

end
