(* ===== verification/Luau_Render.thy ===== *)
theory Luau_Render
  imports Luau_AST
begin

text \<open>
  The renderer of \<open>src/internal/luau/render\<close>: parenthesization (\<open>parens.go\<close>), the
  statement endings (\<open>ending.go\<close>), the helpers (\<open>util.go\<close>) and one definition per node kind
  (\<open>expressions.go\<close>, \<open>fields.go\<close>, \<open>statements.go\<close>). A rendering is a function from the
  render state to a text and the next state, and \<open>None\<close> is a panic. A definition for a node
  kind takes the renderings of the node's children; \<open>Render\<close> ties them together.

  The indentation, the statements that follow the current one in its list (the top of
  \<open>listNodesStack\<close>) and the parent of a node are arguments. The number conversions of
  \<open>jsnumber.go\<close>, which rest on floating-point formatting, are a parameter.
\<close>

section \<open>State (\<open>state.go\<close>)\<close>

record RenderState =
  seenTempNodes :: "nat \<Rightarrow> string option"
  tempIDFallback :: nat

type_synonym 'a rm = "RenderState \<Rightarrow> ('a \<times> RenderState) option"

record 'f numops =
  JSNumberParse :: "string \<Rightarrow> 'f option"
  JSNumberString :: "'f \<Rightarrow> string"
  isNumberOne :: "'f \<Rightarrow> bool"

definition NewRenderState :: RenderState where
  "NewRenderState = \<lparr>seenTempNodes = (\<lambda>_. None), tempIDFallback = 0\<rparr>"

fun digit_char :: "nat \<Rightarrow> char" where
  "digit_char n = char_of (48 + n)"

text \<open>\<open>strconv.Itoa\<close> on the natural numbers.\<close>

fun Itoa :: "nat \<Rightarrow> string" where
  "Itoa n = (if n < 10 then [digit_char n] else Itoa (n div 10) @ [digit_char (n mod 10)])"

declare Itoa.simps [simp del]

definition getTempName :: "nat \<Rightarrow> string rm" where
  "getTempName i s =
     (case seenTempNodes s i of
        Some name \<Rightarrow> Some (name, s)
      | None \<Rightarrow>
          (let name = ''_'' @ Itoa (tempIDFallback s) in
           Some (name, s\<lparr>tempIDFallback := tempIDFallback s + 1,
                         seenTempNodes := (seenTempNodes s)(i \<mapsto> name)\<rparr>)))"

definition Line_r :: "string \<Rightarrow> string \<Rightarrow> string" where
  "Line_r ind t = ind @ t @ [LF]"

abbreviation indented :: "string \<Rightarrow> string" where
  "indented ind \<equiv> ind @ [TAB]"

section \<open>Parenthesization (\<open>parens.go\<close>)\<close>

text \<open>Where a node stands below its parent, as far as a renderer asks.\<close>

datatype role = RLeft | RRight | RIndex | ROther

type_synonym parent = "(lnode \<times> role) option"

definition unaryOperatorPrecedence :: "string \<Rightarrow> nat" where
  "unaryOperatorPrecedence op = (if op \<in> {''not'', ''#'', ''-''} then 7 else 0)"

definition binaryOperatorPrecedence :: "string \<Rightarrow> nat" where
  "binaryOperatorPrecedence op =
     (if op = ''or'' then 1 else if op = ''and'' then 2
      else if op \<in> {''<'', ''>'', ''<='', ''>='', ''~='', ''==''} then 3
      else if op = ''..'' then 4
      else if op \<in> {''+'', ''-''} then 5
      else if op \<in> {''*'', ''/'', ''//'', ''%''} then 6
      else if op = ''^'' then 8 else 0)"

fun getPrecedence :: "lnode \<Rightarrow> nat option" where
  "getPrecedence (IfExpression _ _ _) = Some 1"
| "getPrecedence (BinaryExpression _ op _) = Some (binaryOperatorPrecedence op)"
| "getPrecedence (UnaryExpression op _) = Some (unaryOperatorPrecedence op)"
| "getPrecedence _ = None"

text \<open>The renderers of the three kinds with a precedence are the only callers.\<close>

definition needsParentheses :: "parent \<Rightarrow> lnode \<Rightarrow> bool" where
  "needsParentheses par n =
     (case par of
        None \<Rightarrow> False
      | Some (p, rl) \<Rightarrow>
          (case (getPrecedence n, getPrecedence p) of
             (Some np, Some pp) \<Rightarrow> np < pp \<or> (np = pp \<and> lkind p = KindBinaryExpression \<and> rl = RRight)
           | _ \<Rightarrow> False))"

definition parenthesize :: "bool \<Rightarrow> string \<Rightarrow> string" where
  "parenthesize b t = (if b then ''('' @ t @ '')'' else t)"

section \<open>Statement endings (\<open>ending.go\<close>)\<close>

fun endsWithIndexableExpressionInner :: "lnode \<Rightarrow> bool" where
  "endsWithIndexableExpressionInner (BinaryExpression l op r) = endsWithIndexableExpressionInner r"
| "endsWithIndexableExpressionInner (UnaryExpression op e) = endsWithIndexableExpressionInner e"
| "endsWithIndexableExpressionInner (IfExpression c e a) = endsWithIndexableExpressionInner a"
| "endsWithIndexableExpressionInner n = IsIndexableExpression n"

text \<open>\<open>lastExprOf\<close>: \<open>None\<close> is the panic on an empty list, \<open>Some None\<close> is no expression.\<close>

definition lastExprOf :: "lnode NodeOrList \<Rightarrow> lnode option option" where
  "lastExprOf v =
     (case v of
        List xs \<Rightarrow> if xs = [] then None else Some (Some (last xs))
      | One x \<Rightarrow> Some (if IsExpression x then Some x else None))"

definition endsWithLast :: "lnode NodeOrList \<Rightarrow> bool option" where
  "endsWithLast v =
     (case lastExprOf v of
        None \<Rightarrow> None
      | Some None \<Rightarrow> Some False
      | Some (Some e) \<Rightarrow> Some (endsWithIndexableExpressionInner e))"

definition endsWithIndexableExpression :: "lnode \<Rightarrow> bool option" where
  "endsWithIndexableExpression n =
     (case n of
        CallStatement _ \<Rightarrow> Some True
      | VariableDeclaration l r \<Rightarrow> endsWithLast (case r of Some v \<Rightarrow> v | None \<Rightarrow> l)
      | Assignment l op r \<Rightarrow> endsWithLast r
      | _ \<Rightarrow> Some False)"

fun startsWithParenthesisInner :: "lnode \<Rightarrow> bool" where
  "startsWithParenthesisInner (ParenthesizedExpression e) = True"
| "startsWithParenthesisInner (CallExpression e args) = startsWithParenthesisInner e"
| "startsWithParenthesisInner (MethodCallExpression nm e args) = startsWithParenthesisInner e"
| "startsWithParenthesisInner (PropertyAccessExpression e nm) = startsWithParenthesisInner e"
| "startsWithParenthesisInner (ComputedIndexExpression e i) = startsWithParenthesisInner e"
| "startsWithParenthesisInner _ = False"

definition startsWithParenthesis :: "lnode \<Rightarrow> bool option" where
  "startsWithParenthesis n =
     (case n of
        CallStatement (CallExpression e args) \<Rightarrow> Some (startsWithParenthesisInner e)
      | CallStatement (MethodCallExpression nm e args) \<Rightarrow> Some (startsWithParenthesisInner e)
      | Assignment (List xs) op r \<Rightarrow>
          (case xs of [] \<Rightarrow> None | x # _ \<Rightarrow> Some (startsWithParenthesisInner x))
      | Assignment (One x) op r \<Rightarrow> Some (IsExpression x \<and> startsWithParenthesisInner x)
      | _ \<Rightarrow> Some False)"

definition isComment :: "lnode \<Rightarrow> bool" where
  "isComment n \<longleftrightarrow> lkind n = KindComment"

definition getNextNonComment :: "lnode list \<Rightarrow> lnode option" where
  "getNextNonComment nx = (case dropWhile isComment nx of [] \<Rightarrow> None | n # _ \<Rightarrow> Some n)"

definition getEnding :: "lnode list \<Rightarrow> lnode \<Rightarrow> string option" where
  "getEnding nx n =
     (case getNextNonComment nx of
        None \<Rightarrow> Some []
      | Some nxt \<Rightarrow> do {
          e \<leftarrow> endsWithIndexableExpression n;
          (if e then do { p \<leftarrow> startsWithParenthesis nxt; Some (if p then '';'' else []) }
           else Some [])
        })"

definition LineWithEnd :: "string \<Rightarrow> lnode list \<Rightarrow> lnode \<Rightarrow> string \<Rightarrow> string option" where
  "LineWithEnd ind nx n t = do { e \<leftarrow> getEnding nx n; Some (ind @ t @ e @ [LF]) }"

section \<open>Helpers (\<open>util.go\<close>)\<close>

definition closingBracket :: "nat \<Rightarrow> string" where
  "closingBracket n = '']'' @ replicate n (CHR ''='') @ '']''"

definition unsafeLevel :: "string \<Rightarrow> nat \<Rightarrow> bool" where
  "unsafeLevel t n \<longleftrightarrow> Contains t (closingBracket n) \<or> HasSuffix t ('']'' @ replicate n (CHR ''=''))"

lemma Contains_length: "Contains t p \<Longrightarrow> length p \<le> length t"
  by (auto simp: Contains_iff)

lemma unsafeLevel_bound: "unsafeLevel t n \<Longrightarrow> n < length t"
  by (auto simp: unsafeLevel_def closingBracket_def HasSuffix_def dest!: Contains_length)

text \<open>The loop of \<open>getSafeBracketEquals\<close>.\<close>

function safeLevel :: "string \<Rightarrow> nat \<Rightarrow> nat" where
  "safeLevel t amtEquals = (if unsafeLevel t amtEquals then safeLevel t (amtEquals + 1) else amtEquals)"
  by pat_completeness auto
termination
  by (relation "measure (\<lambda>(t, n). length t - n)") (auto dest: unsafeLevel_bound)

declare safeLevel.simps [simp del]

definition getSafeBracketEquals :: "string \<Rightarrow> string" where
  "getSafeBracketEquals t = replicate (safeLevel t 0) (CHR ''='')"

fun renderAll :: "'a rm list \<Rightarrow> 'a list rm" where
  "renderAll [] s = Some ([], s)"
| "renderAll (m # ms) s = do { (x, s1) \<leftarrow> m s; (xs, s2) \<leftarrow> renderAll ms s1; Some (x # xs, s2) }"

definition renderArguments :: "string rm list \<Rightarrow> string rm" where
  "renderArguments args s = do { (ps, s1) \<leftarrow> renderAll args s; Some (Join ps '', '', s1) }"

definition renderParameters :: "string rm list \<Rightarrow> bool \<Rightarrow> string rm" where
  "renderParameters params hasDotDotDot s = do {
     (ps, s1) \<leftarrow> renderAll params s;
     Some (Join (if hasDotDotDot then ps @ [''...''] else ps) '', '', s1)
   }"

text \<open>\<open>renderStatements\<close>: each statement with its rendering.\<close>

fun renderStatementsLoop :: "bool \<Rightarrow> (lnode \<times> string rm) list \<Rightarrow> string rm" where
  "renderStatementsLoop hasFinal [] s = Some ([], s)"
| "renderStatementsLoop hasFinal ((n, m) # ms) s =
     (if hasFinal \<and> \<not> isComment n then None
      else do {
        (t, s1) \<leftarrow> m s;
        (ts, s2) \<leftarrow> renderStatementsLoop (hasFinal \<or> IsFinalStatement n) ms s1;
        Some (t @ ts, s2)
      })"

definition renderStatements :: "(lnode \<times> string rm) list \<Rightarrow> string rm" where
  "renderStatements ms = renderStatementsLoop False ms"

section \<open>Expressions (\<open>expressions.go\<close>)\<close>

definition pure_text :: "string \<Rightarrow> string rm" where
  "pure_text t s = Some (t, s)"

definition renderIdentifier :: "string \<Rightarrow> string rm" where
  "renderIdentifier nm s = (if IsValidIdentifier nm then Some (nm, s) else None)"

definition renderTemporaryIdentifier :: "nat \<Rightarrow> string rm" where
  "renderTemporaryIdentifier i s = do {
     (nm, s1) \<leftarrow> getTempName i s;
     (if IsValidIdentifier nm then Some (nm, s1) else None)
   }"

definition renderComputedIndexExpression :: "lnode \<Rightarrow> string rm \<Rightarrow> string rm \<Rightarrow> string rm" where
  "renderComputedIndexExpression index e i s = do {
     (es, s1) \<leftarrow> e s;
     (case index of
        StringLiteral v \<Rightarrow>
          if IsValidIdentifier v then Some (es @ ''.'' @ v, s1)
          else do { (ix, s2) \<leftarrow> i s1; Some (es @ ''['' @ ix @ '']'', s2) }
      | _ \<Rightarrow> do { (ix, s2) \<leftarrow> i s1; Some (es @ ''['' @ ix @ '']'', s2) })
   }"

definition renderPropertyAccessExpression :: "string \<Rightarrow> string rm \<Rightarrow> string rm" where
  "renderPropertyAccessExpression nm e s = do {
     (es, s1) \<leftarrow> e s;
     Some (if IsValidIdentifier nm then es @ ''.'' @ nm
           else es @ ''['' @ [DQUOTE] @ nm @ [DQUOTE] @ '']'', s1)
   }"

definition renderCallExpression :: "string rm \<Rightarrow> string rm list \<Rightarrow> string rm" where
  "renderCallExpression e args s = do {
     (es, s1) \<leftarrow> e s;
     (as, s2) \<leftarrow> renderArguments args s1;
     Some (es @ ''('' @ as @ '')'', s2)
   }"

definition renderMethodCallExpression :: "string \<Rightarrow> string rm \<Rightarrow> string rm list \<Rightarrow> string rm" where
  "renderMethodCallExpression nm e args s =
     (if \<not> IsValidIdentifier nm then None
      else do {
        (es, s1) \<leftarrow> e s;
        (as, s2) \<leftarrow> renderArguments args s1;
        Some (es @ '':'' @ nm @ ''('' @ as @ '')'', s2)
      })"

fun skipParens :: "lnode \<Rightarrow> lnode" where
  "skipParens (ParenthesizedExpression e) = skipParens e"
| "skipParens n = n"

definition renderParenthesizedExpression :: "lnode \<Rightarrow> string rm \<Rightarrow> string rm" where
  "renderParenthesizedExpression inner e s = do {
     (es, s1) \<leftarrow> e s;
     Some (parenthesize (\<not> IsSimple (skipParens inner)) es, s1)
   }"

definition renderNumberLiteral :: "'f numops \<Rightarrow> string \<Rightarrow> string rm" where
  "renderNumberLiteral ops v s =
     (if IsValidNumberLiteral v then Some (v, s)
      else (case JSNumberParse ops v of None \<Rightarrow> Some (''NaN'', s) | Some f \<Rightarrow> Some (JSNumberString ops f, s)))"

definition needsBracketSpacing :: "parent \<Rightarrow> bool" where
  "needsBracketSpacing par =
     (case par of
        Some (MapField _ _, rl) \<Rightarrow> rl = RIndex
      | Some (ComputedIndexExpression _ _, rl) \<Rightarrow> rl = RIndex
      | Some (Set _, _) \<Rightarrow> True
      | _ \<Rightarrow> False)"

definition renderStringLiteral :: "parent \<Rightarrow> string \<Rightarrow> string rm" where
  "renderStringLiteral par v s =
     (let isMultiline = Contains v [LF] in
      Some
       (if \<not> isMultiline \<and> \<not> Contains v [DQUOTE] then [DQUOTE] @ v @ [DQUOTE]
        else if \<not> isMultiline \<and> \<not> Contains v [SQUOTE] then [SQUOTE] @ v @ [SQUOTE]
        else (let eq = getSafeBracketEquals v; spacing = (if needsBracketSpacing par then '' '' else [])
              in spacing @ ''['' @ eq @ ''['' @ v @ '']'' @ eq @ '']'' @ spacing),
        s))"

definition renderFunctionExpression ::
  "string \<Rightarrow> string rm list \<Rightarrow> bool \<Rightarrow> (lnode \<times> string rm) list \<Rightarrow> string rm" where
  "renderFunctionExpression ind params dots body s =
     (if body = [] then do {
        (ps, s1) \<leftarrow> renderParameters params dots s;
        Some (''function('' @ ps @ '') end'', s1)
      }
      else do {
        (ps, s1) \<leftarrow> renderParameters params dots s;
        (b, s2) \<leftarrow> renderStatements body s1;
        Some (''function('' @ ps @ '')'' @ [LF] @ b @ ind @ ''end'', s2)
      })"

definition renderBinaryExpression :: "bool \<Rightarrow> string \<Rightarrow> string rm \<Rightarrow> string rm \<Rightarrow> string rm" where
  "renderBinaryExpression needs op l r s = do {
     (ls, s1) \<leftarrow> l s;
     (rs, s2) \<leftarrow> r s1;
     Some (parenthesize needs (ls @ '' '' @ op @ '' '' @ rs), s2)
   }"

definition unaryNeedsSpace :: "string \<Rightarrow> lnode \<Rightarrow> bool" where
  "unaryNeedsSpace op e \<longleftrightarrow>
     op = ''not'' \<or> (case e of UnaryExpression iop x \<Rightarrow> iop = ''-'' | _ \<Rightarrow> False)"

definition renderUnaryExpression :: "bool \<Rightarrow> string \<Rightarrow> lnode \<Rightarrow> string rm \<Rightarrow> string rm" where
  "renderUnaryExpression needs op inner e s = do {
     (es, s1) \<leftarrow> e s;
     Some (parenthesize needs (op @ (if unaryNeedsSpace op inner then '' '' else []) @ es), s1)
   }"

text \<open>The \<open>elseif\<close> chain of an if expression: the nested if expressions and the last alternative.\<close>

fun ifChain :: "lnode \<Rightarrow> lnode list \<times> lnode" where
  "ifChain (IfExpression c e a) = (let (cs, z) = ifChain a in (IfExpression c e a # cs, z))"
| "ifChain n = ([], n)"

fun renderElseifs :: "(string rm \<times> string rm) list \<Rightarrow> string rm" where
  "renderElseifs [] s = Some ([], s)"
| "renderElseifs ((c, e) # cs) s = do {
     (ct, s1) \<leftarrow> c s;
     (et, s2) \<leftarrow> e s1;
     (ts, s3) \<leftarrow> renderElseifs cs s2;
     Some (''elseif '' @ ct @ '' then '' @ et @ '' '' @ ts, s3)
   }"

definition renderIfExpression ::
  "bool \<Rightarrow> string rm \<Rightarrow> string rm \<Rightarrow> (string rm \<times> string rm) list \<Rightarrow> string rm \<Rightarrow> string rm" where
  "renderIfExpression needs c e chain alt s = do {
     (ct, s1) \<leftarrow> c s;
     (et, s2) \<leftarrow> e s1;
     (ts, s3) \<leftarrow> renderElseifs chain s2;
     (z, s4) \<leftarrow> alt s3;
     Some (parenthesize needs (''if '' @ ct @ '' then '' @ et @ '' '' @ ts @ ''else '' @ z), s4)
   }"

definition renderInterpolatedPart :: "lnode \<Rightarrow> string \<Rightarrow> string" where
  "renderInterpolatedPart part t =
     (if lkind part = KindInterpolatedStringPart then t
      else ''{'' @ parenthesize (IsTable part) t @ ''}'')"

definition renderInterpolatedString :: "(lnode \<times> string rm) list \<Rightarrow> string rm" where
  "renderInterpolatedString parts s = do {
     (ts, s1) \<leftarrow> renderAll (map (\<lambda>(p, m) s. do { (t, s1) \<leftarrow> m s; Some (renderInterpolatedPart p t, s1) }) parts) s;
     Some ([BTICK] @ concat ts @ [BTICK], s1)
   }"

definition renderArray :: "string rm list \<Rightarrow> string rm" where
  "renderArray members s =
     (if members = [] then Some (''{}'', s)
      else do { (ps, s1) \<leftarrow> renderAll members s; Some (''{ '' @ Join ps '', '' @ '' }'', s1) })"

text \<open>The fields of \<open>renderMap\<close>, \<open>renderSet\<close> and \<open>renderMixedTable\<close>, one per line.\<close>

definition renderFieldLines :: "string \<Rightarrow> (string \<Rightarrow> string) \<Rightarrow> string rm list \<Rightarrow> string rm" where
  "renderFieldLines ind f flds s =
     (if flds = [] then Some (''{}'', s)
      else do {
        (ps, s1) \<leftarrow> renderAll flds s;
        Some (''{'' @ [LF] @ concat (map (\<lambda>p. Line_r (indented ind) (f p)) ps) @ ind @ ''}'', s1)
      })"

definition renderMap :: "string \<Rightarrow> string rm list \<Rightarrow> string rm" where
  "renderMap ind flds = renderFieldLines ind (\<lambda>p. p @ '','') flds"

definition renderSet :: "string \<Rightarrow> string rm list \<Rightarrow> string rm" where
  "renderSet ind members = renderFieldLines ind (\<lambda>p. ''['' @ p @ ''] = true,'') members"

definition renderMixedTable :: "string \<Rightarrow> string rm list \<Rightarrow> string rm" where
  "renderMixedTable ind flds = renderFieldLines ind (\<lambda>p. p @ '','') flds"

section \<open>Fields (\<open>fields.go\<close>)\<close>

definition renderMapField :: "lnode \<Rightarrow> string rm \<Rightarrow> string rm \<Rightarrow> string rm" where
  "renderMapField index i v s = do {
     (vs, s1) \<leftarrow> v s;
     (case index of
        StringLiteral nm \<Rightarrow>
          if IsValidIdentifier nm then Some (nm @ '' = '' @ vs, s1)
          else do { (ix, s2) \<leftarrow> i s1; Some (''['' @ ix @ ''] = '' @ vs, s2) }
      | _ \<Rightarrow> do { (ix, s2) \<leftarrow> i s1; Some (''['' @ ix @ ''] = '' @ vs, s2) })
   }"

text \<open>The expression \<open>\\u\{[a-fA-F0-9]+\}\<close>: the length of a match at the start of the text.\<close>

definition unicodeEscape :: "string \<Rightarrow> nat option" where
  "unicodeEscape t =
     (if take 3 t = [BSLASH] @ ''u{'' then
        (let h = length (takeWhile isHexDigit (drop 3 t)) in
         if 0 < h \<and> take 1 (drop (3 + h) t) = ''}'' then Some (h + 4) else None)
      else None)"

lemma unicodeEscape_pos: "unicodeEscape t = Some n \<Longrightarrow> 0 < n"
  by (auto simp: unicodeEscape_def Let_def split: if_splits)

function escapeBraces :: "string \<Rightarrow> string" where
  "escapeBraces t =
     (case t of
        [] \<Rightarrow> []
      | c # r \<Rightarrow>
          (case unicodeEscape t of
             Some n \<Rightarrow> take n t @ escapeBraces (drop n t)
           | None \<Rightarrow> if c = CHR ''{'' \<or> c = CHR ''}'' then BSLASH # c # escapeBraces r
                     else c # escapeBraces r))"
  by pat_completeness auto
termination
  by (relation "measure length") (auto dest: unicodeEscape_pos)

declare escapeBraces.simps [simp del]

fun escapeNewlines :: "string \<Rightarrow> string" where
  "escapeNewlines [] = []"
| "escapeNewlines [c] = (if c = CR \<or> c = LF then [BSLASH, c] else [c])"
| "escapeNewlines (c # d # s) =
     (if c = CR \<and> d = LF then BSLASH # CR # LF # escapeNewlines s
      else if c = CR \<or> c = LF then BSLASH # c # escapeNewlines (d # s)
      else c # escapeNewlines (d # s))"

definition renderInterpolatedStringPart :: "string \<Rightarrow> string rm" where
  "renderInterpolatedStringPart t s = Some (escapeNewlines (escapeBraces t), s)"

section \<open>Statements (\<open>statements.go\<close>)\<close>

definition renderExprOrList :: "string rm NodeOrList \<Rightarrow> string rm" where
  "renderExprOrList v s =
     (case v of
        List ms \<Rightarrow> if ms = [] then None
                   else do { (ps, s1) \<leftarrow> renderAll ms s; Some (Join ps '', '', s1) }
      | One m \<Rightarrow> m s)"

definition renderReturnStatement :: "string \<Rightarrow> string rm NodeOrList \<Rightarrow> string rm" where
  "renderReturnStatement ind v s =
     (case v of
        List [] \<Rightarrow> Some (Line_r ind ''return '', s)
      | _ \<Rightarrow> do { (t, s1) \<leftarrow> renderExprOrList v s; Some (Line_r ind (''return '' @ t), s1) })"

definition renderAssignment ::
  "string \<Rightarrow> lnode list \<Rightarrow> lnode \<Rightarrow> string \<Rightarrow> string rm NodeOrList \<Rightarrow> string rm NodeOrList \<Rightarrow> string rm" where
  "renderAssignment ind nx n op l r s = do {
     (ls, s1) \<leftarrow> renderExprOrList l s;
     (rs, s2) \<leftarrow> renderExprOrList r s1;
     t \<leftarrow> LineWithEnd ind nx n (ls @ '' '' @ op @ '' '' @ rs);
     Some (t, s2)
   }"

definition renderCallStatement :: "string \<Rightarrow> lnode list \<Rightarrow> lnode \<Rightarrow> string rm \<Rightarrow> string rm" where
  "renderCallStatement ind nx n e s = do {
     (es, s1) \<leftarrow> e s;
     t \<leftarrow> LineWithEnd ind nx n es;
     Some (t, s1)
   }"

text \<open>\<open>strings.ReplaceAll\<close> of a carriage return and newline, and of a carriage return.\<close>

fun replaceCRLF :: "string \<Rightarrow> string" where
  "replaceCRLF [] = []"
| "replaceCRLF [c] = [c]"
| "replaceCRLF (c # d # s) = (if c = CR \<and> d = LF then LF # replaceCRLF s else c # replaceCRLF (d # s))"

definition replaceCR :: "string \<Rightarrow> string" where
  "replaceCR t = map (\<lambda>c. if c = CR then LF else c) t"

definition renderComment :: "string \<Rightarrow> string \<Rightarrow> string rm" where
  "renderComment ind txt s =
     (let t = replaceCR (replaceCRLF txt); ls = Split t LF in
      Some
       (if 1 < length ls then
          (let eq = getSafeBracketEquals t in
           Line_r ind (''--['' @ eq @ ''['') @ concat (map (Line_r (indented ind)) ls) @
           Line_r ind ('']'' @ eq @ '']''))
        else Line_r ind (''--'' @ t),
        s))"

definition renderDoStatement :: "string \<Rightarrow> (lnode \<times> string rm) list \<Rightarrow> string rm" where
  "renderDoStatement ind body s = do {
     (b, s1) \<leftarrow> renderStatements body s;
     Some (Line_r ind ''do'' @ b @ Line_r ind ''end'', s1)
   }"

definition renderWhileStatement :: "string \<Rightarrow> string rm \<Rightarrow> (lnode \<times> string rm) list \<Rightarrow> string rm" where
  "renderWhileStatement ind c body s = do {
     (ct, s1) \<leftarrow> c s;
     (b, s2) \<leftarrow> renderStatements body s1;
     Some (Line_r ind (''while '' @ ct @ '' do'') @ b @ Line_r ind ''end'', s2)
   }"

definition renderRepeatStatement :: "string \<Rightarrow> string rm \<Rightarrow> (lnode \<times> string rm) list \<Rightarrow> string rm" where
  "renderRepeatStatement ind c body s = do {
     (b, s1) \<leftarrow> renderStatements body s;
     (ct, s2) \<leftarrow> c s1;
     Some (Line_r ind ''repeat'' @ b @ Line_r ind (''until '' @ ct), s2)
   }"

text \<open>The \<open>elseif\<close> chain of an if statement: the nested if statements and the last else body.\<close>

function (sequential) elseChain :: "lnode NodeOrList \<Rightarrow> lnode list \<times> lnode NodeOrList" where
  "elseChain (One (IfStatement c ss eb)) =
     (let (cs, z) = elseChain eb in (IfStatement c ss eb # cs, z))"
| "elseChain v = ([], v)"
  by pat_completeness auto
termination
  by (relation "measure (size_NodeOrList size)") auto

fun renderElseifStatements ::
  "string \<Rightarrow> (string rm \<times> (lnode \<times> string rm) list) list \<Rightarrow> string rm" where
  "renderElseifStatements ind [] s = Some ([], s)"
| "renderElseifStatements ind ((c, body) # cs) s = do {
     (ct, s1) \<leftarrow> c s;
     (b, s2) \<leftarrow> renderStatements body s1;
     (ts, s3) \<leftarrow> renderElseifStatements ind cs s2;
     Some (Line_r ind (''elseif '' @ ct @ '' then'') @ b @ ts, s3)
   }"

text \<open>The else part is rendered when the chain ends in a non-empty list.\<close>

definition renderIfStatement ::
  "string \<Rightarrow> string rm \<Rightarrow> (lnode \<times> string rm) list \<Rightarrow>
   (string rm \<times> (lnode \<times> string rm) list) list \<Rightarrow> (lnode \<times> string rm) list \<Rightarrow> string rm" where
  "renderIfStatement ind c body chain els s = do {
     (ct, s1) \<leftarrow> c s;
     (b, s2) \<leftarrow> renderStatements body s1;
     (ts, s3) \<leftarrow> renderElseifStatements ind chain s2;
     (el, s4) \<leftarrow> (if els = [] then Some ([], s3)
                  else do { (x, s') \<leftarrow> renderStatements els s3; Some (Line_r ind ''else'' @ x, s') });
     Some (Line_r ind (''if '' @ ct @ '' then'') @ b @ ts @ el @ Line_r ind ''end'', s4)
   }"

definition stepIsOne :: "'f numops \<Rightarrow> lnode \<Rightarrow> bool" where
  "stepIsOne ops n =
     (case n of
        NumberLiteral v \<Rightarrow> (case JSNumberParse ops v of None \<Rightarrow> False | Some f \<Rightarrow> isNumberOne ops f)
      | _ \<Rightarrow> False)"

definition renderNumericForStatement ::
  "'f numops \<Rightarrow> string \<Rightarrow> string rm \<Rightarrow> string rm \<Rightarrow> string rm \<Rightarrow> (lnode \<times> string rm) option \<Rightarrow>
   (lnode \<times> string rm) list \<Rightarrow> string rm" where
  "renderNumericForStatement ops ind i st en stp body s = do {
     (it, s1) \<leftarrow> i s;
     (a, s2) \<leftarrow> st s1;
     (b, s3) \<leftarrow> en s2;
     (p, s4) \<leftarrow> (case stp of
        None \<Rightarrow> Some ([], s3)
      | Some (n, m) \<Rightarrow>
          if stepIsOne ops n then Some ([], s3)
          else do { (t, s') \<leftarrow> m s3; Some ('', '' @ t, s') });
     (bd, s5) \<leftarrow> renderStatements body s4;
     Some (Line_r ind (''for '' @ it @ '' = '' @ a @ '', '' @ b @ p @ '' do'') @ bd @ Line_r ind ''end'', s5)
   }"

definition renderForStatement ::
  "string \<Rightarrow> string rm list \<Rightarrow> string rm \<Rightarrow> (lnode \<times> string rm) list \<Rightarrow> string rm" where
  "renderForStatement ind ids e body s = do {
     (ps, s1) \<leftarrow> renderAll ids s;
     (es, s2) \<leftarrow> e s1;
     (b, s3) \<leftarrow> renderStatements body s2;
     Some (Line_r ind (''for '' @ (if Join ps '', '' = [] then ''_'' else Join ps '', '') @ '' in '' @ es @ '' do'') @
           b @ Line_r ind ''end'', s3)
   }"

definition isAnyIdentifier :: "lnode \<Rightarrow> bool" where
  "isAnyIdentifier n \<longleftrightarrow> lkind n = KindIdentifier \<or> lkind n = KindTemporaryIdentifier"

definition renderFunctionDeclaration ::
  "string \<Rightarrow> bool \<Rightarrow> lnode \<Rightarrow> string rm \<Rightarrow> string rm list \<Rightarrow> bool \<Rightarrow> (lnode \<times> string rm) list \<Rightarrow> string rm" where
  "renderFunctionDeclaration ind localize name nm params dots body s =
     (if localize \<and> \<not> isAnyIdentifier name then None
      else do {
        (ns, s1) \<leftarrow> nm s;
        (ps, s2) \<leftarrow> renderParameters params dots s1;
        (b, s3) \<leftarrow> renderStatements body s2;
        Some (Line_r ind ((if localize then ''local '' else []) @ ''function '' @ ns @ ''('' @ ps @ '')'') @
              b @ Line_r ind ''end'', s3)
      })"

definition renderMethodDeclaration ::
  "string \<Rightarrow> string rm \<Rightarrow> string \<Rightarrow> string rm list \<Rightarrow> bool \<Rightarrow> (lnode \<times> string rm) list \<Rightarrow> string rm" where
  "renderMethodDeclaration ind e name params dots body s = do {
     (es, s1) \<leftarrow> e s;
     (ps, s2) \<leftarrow> renderParameters params dots s1;
     (b, s3) \<leftarrow> renderStatements body s2;
     Some (Line_r ind (''function '' @ es @ '':'' @ name @ ''('' @ ps @ '')'') @ b @ Line_r ind ''end'', s3)
   }"

definition renderVariableDeclaration ::
  "string \<Rightarrow> lnode list \<Rightarrow> lnode \<Rightarrow> string rm NodeOrList \<Rightarrow> string rm NodeOrList option \<Rightarrow> string rm" where
  "renderVariableDeclaration ind nx n l r s = do {
     (ls, s1) \<leftarrow> renderExprOrList l s;
     (case r of
        Some v \<Rightarrow> do {
          (rs, s2) \<leftarrow> renderExprOrList v s1;
          t \<leftarrow> LineWithEnd ind nx n (''local '' @ ls @ '' = '' @ rs);
          Some (t, s2)
        }
      | None \<Rightarrow> do { t \<leftarrow> LineWithEnd ind nx n (''local '' @ ls); Some (t, s1) })
   }"

section \<open>\<open>Render\<close> (\<open>render.go\<close>)\<close>

fun with_tails :: "'a list \<Rightarrow> ('a \<times> 'a list) list" where
  "with_tails [] = []"
| "with_tails (x # xs) = (x, xs) # with_tails xs"

lemma with_tails_mem: "(x, t) \<in> set (with_tails xs) \<Longrightarrow> x \<in> set xs"
  by (induction xs) auto

lemma ifChain_size: "m \<in> set (fst (ifChain n)) \<Longrightarrow> size m \<le> size n"
  by (induction n rule: ifChain.induct) (auto simp: case_prod_beta)

lemma ifChain_last: "size (snd (ifChain n)) \<le> size n"
  by (induction n rule: ifChain.induct) (auto simp: case_prod_beta)

lemma elseChain_size: "m \<in> set (fst (elseChain v)) \<Longrightarrow> size m \<le> size_NodeOrList size v"
  by (induction v rule: elseChain.induct) (auto simp: case_prod_beta)

lemma elseChain_last: "size_NodeOrList size (snd (elseChain v)) \<le> size_NodeOrList size v"
  by (induction v rule: elseChain.induct) (auto simp: case_prod_beta)

lemma NodeOrList_size: "m \<in> set_NodeOrList v \<Longrightarrow> size m \<le> size_NodeOrList size v"
  by (cases v) (auto intro: order_trans [OF _ le_SucI] size_list_estimation' [OF _ order_refl])

text \<open>The parts of a member of a chain, and the statements of a last else body.\<close>

fun if_parts :: "lnode \<Rightarrow> lnode \<times> lnode" where
  "if_parts (IfExpression c e a) = (c, e)"
| "if_parts n = (n, n)"

fun else_parts :: "lnode \<Rightarrow> lnode \<times> lnode list" where
  "else_parts (IfStatement c ss eb) = (c, ss)"
| "else_parts n = (n, [])"

fun list_of :: "'n NodeOrList \<Rightarrow> 'n list" where
  "list_of (List xs) = xs"
| "list_of (One x) = []"

lemma list_mem_size: "x \<in> set xs \<Longrightarrow> size x \<le> size_list size xs"
  by (rule size_list_estimation' [OF _ order_refl])

lemma with_tails_size: "(x, t) \<in> set (with_tails xs) \<Longrightarrow> size x \<le> size_list size xs"
  by (rule list_mem_size [OF with_tails_mem])

lemma if_parts_size:
  assumes "m \<in> set (fst (ifChain n))"
  shows "size (fst (if_parts m)) \<le> size n \<and> size (snd (if_parts m)) \<le> size n"
  using ifChain_size [OF assms] by (cases m) auto

lemma else_parts_size:
  assumes "m \<in> set (fst (elseChain v))"
  shows "size (fst (else_parts m)) \<le> size_NodeOrList size v \<and>
    size_list size (snd (else_parts m)) \<le> size_NodeOrList size v"
  using elseChain_size [OF assms] by (cases m) auto

lemma else_list_size: "(x, t) \<in> set (with_tails (list_of (snd (elseChain v)))) \<Longrightarrow> size x \<le> size_NodeOrList size v"
  using elseChain_last [of v] by (cases "snd (elseChain v)") (auto dest: with_tails_size)

lemma ifChain_last_less: "size (snd (ifChain a)) < Suc (size c + size e + size a)"
  using ifChain_last [of a] by simp

function (sequential) Render :: "'f numops \<Rightarrow> string \<Rightarrow> lnode list \<Rightarrow> parent \<Rightarrow> lnode \<Rightarrow> string rm" where
  "Render ops ind nx par (Identifier nm) = renderIdentifier nm"
| "Render ops ind nx par (TemporaryIdentifier nm i ex) = renderTemporaryIdentifier i"
| "Render ops ind nx par (ComputedIndexExpression e i) =
     (let self = ComputedIndexExpression e i in
      renderComputedIndexExpression i (Render ops ind nx (Some (self, ROther)) e)
        (Render ops ind nx (Some (self, RIndex)) i))"
| "Render ops ind nx par (PropertyAccessExpression e nm) =
     renderPropertyAccessExpression nm (Render ops ind nx (Some (PropertyAccessExpression e nm, ROther)) e)"
| "Render ops ind nx par (CallExpression e args) =
     (let self = Some (CallExpression e args, ROther) in
      renderCallExpression (Render ops ind nx self e) (map (\<lambda>a. Render ops ind nx self a) args))"
| "Render ops ind nx par (MethodCallExpression nm e args) =
     (let self = Some (MethodCallExpression nm e args, ROther) in
      renderMethodCallExpression nm (Render ops ind nx self e) (map (\<lambda>a. Render ops ind nx self a) args))"
| "Render ops ind nx par (ParenthesizedExpression e) =
     renderParenthesizedExpression e (Render ops ind nx (Some (ParenthesizedExpression e, ROther)) e)"
| "Render ops ind nx par None_e = (\<lambda>s. None)"
| "Render ops ind nx par NilLiteral = pure_text ''nil''"
| "Render ops ind nx par FalseLiteral = pure_text ''false''"
| "Render ops ind nx par TrueLiteral = pure_text ''true''"
| "Render ops ind nx par (NumberLiteral v) = renderNumberLiteral ops v"
| "Render ops ind nx par (StringLiteral v) = renderStringLiteral par v"
| "Render ops ind nx par VarArgsLiteral = pure_text ''...''"
| "Render ops ind nx par (FunctionExpression ps dots ss) =
     (let self = Some (FunctionExpression ps dots ss, ROther) in
      renderFunctionExpression ind (map (\<lambda>p. Render ops ind nx self p) ps) dots
        (map (\<lambda>x. (fst x, Render ops (indented ind) (snd x) self (fst x))) (with_tails ss)))"
| "Render ops ind nx par (BinaryExpression l op r) =
     (let self = BinaryExpression l op r in
      renderBinaryExpression (needsParentheses par self) op
        (Render ops ind nx (Some (self, RLeft)) l) (Render ops ind nx (Some (self, RRight)) r))"
| "Render ops ind nx par (UnaryExpression op e) =
     (let self = UnaryExpression op e in
      renderUnaryExpression (needsParentheses par self) op e (Render ops ind nx (Some (self, ROther)) e))"
| "Render ops ind nx par (IfExpression c e a) =
     (let self = IfExpression c e a; chain = fst (ifChain a) in
      renderIfExpression (needsParentheses par self)
        (Render ops ind nx (Some (self, ROther)) c) (Render ops ind nx (Some (self, ROther)) e)
        (map (\<lambda>m. (Render ops ind nx (Some (m, ROther)) (fst (if_parts m)),
                    Render ops ind nx (Some (m, ROther)) (snd (if_parts m)))) (fst (ifChain a)))
        (Render ops ind nx (Some (last (self # chain), ROther)) (snd (ifChain a))))"
| "Render ops ind nx par (InterpolatedString parts) =
     renderInterpolatedString
       (map (\<lambda>p. (p, Render ops ind nx (Some (InterpolatedString parts, ROther)) p)) parts)"
| "Render ops ind nx par (Array ms) =
     renderArray (map (\<lambda>m. Render ops ind nx (Some (Array ms, ROther)) m) ms)"
| "Render ops ind nx par (Map fs) =
     renderMap ind (map (\<lambda>m. Render ops (indented ind) nx (Some (Map fs, ROther)) m) fs)"
| "Render ops ind nx par (Set ms) =
     renderSet ind (map (\<lambda>m. Render ops (indented ind) nx (Some (Set ms, ROther)) m) ms)"
| "Render ops ind nx par (MixedTable fs) =
     renderMixedTable ind (map (\<lambda>m. Render ops (indented ind) nx (Some (MixedTable fs, ROther)) m) fs)"
| "Render ops ind nx par (Assignment l op r) =
     (let self = Assignment l op r in
      renderAssignment ind nx self op (map_NodeOrList (\<lambda>m. Render ops ind nx (Some (self, ROther)) m) l)
        (map_NodeOrList (\<lambda>m. Render ops ind nx (Some (self, ROther)) m) r))"
| "Render ops ind nx par BreakStatement = pure_text (Line_r ind ''break'')"
| "Render ops ind nx par (CallStatement e) =
     renderCallStatement ind nx (CallStatement e) (Render ops ind nx (Some (CallStatement e, ROther)) e)"
| "Render ops ind nx par ContinueStatement = pure_text (Line_r ind ''continue'')"
| "Render ops ind nx par (DoStatement ss) =
     renderDoStatement ind
       (map (\<lambda>x. (fst x, Render ops (indented ind) (snd x) (Some (DoStatement ss, ROther)) (fst x))) (with_tails ss))"
| "Render ops ind nx par (WhileStatement c ss) =
     (let self = Some (WhileStatement c ss, ROther) in
      renderWhileStatement ind (Render ops ind nx self c)
        (map (\<lambda>x. (fst x, Render ops (indented ind) (snd x) self (fst x))) (with_tails ss)))"
| "Render ops ind nx par (RepeatStatement c ss) =
     (let self = Some (RepeatStatement c ss, ROther) in
      renderRepeatStatement ind (Render ops ind nx self c)
        (map (\<lambda>x. (fst x, Render ops (indented ind) (snd x) self (fst x))) (with_tails ss)))"
| "Render ops ind nx par (IfStatement c ss eb) =
     (let self = Some (IfStatement c ss eb, ROther) in
      renderIfStatement ind (Render ops ind nx self c)
        (map (\<lambda>x. (fst x, Render ops (indented ind) (snd x) self (fst x))) (with_tails ss))
        (map (\<lambda>m. (Render ops ind nx (Some (m, ROther)) (fst (else_parts m)),
                map (\<lambda>x. (fst x, Render ops (indented ind) (snd x) (Some (m, ROther)) (fst x)))
                  (with_tails (snd (else_parts m)))))
          (fst (elseChain eb)))
        (map (\<lambda>x. (fst x, Render ops (indented ind) (snd x) self (fst x)))
          (with_tails (list_of (snd (elseChain eb))))))"
| "Render ops ind nx par (NumericForStatement i st en stp ss) =
     (let self = Some (NumericForStatement i st en stp ss, ROther) in
      renderNumericForStatement ops ind (Render ops ind nx self i) (Render ops ind nx self st)
        (Render ops ind nx self en) (map_option (\<lambda>m. (m, Render ops ind nx self m)) stp)
        (map (\<lambda>x. (fst x, Render ops (indented ind) (snd x) self (fst x))) (with_tails ss)))"
| "Render ops ind nx par (ForStatement ids e ss) =
     (let self = Some (ForStatement ids e ss, ROther) in
      renderForStatement ind (map (\<lambda>m. Render ops ind nx self m) ids) (Render ops ind nx self e)
        (map (\<lambda>x. (fst x, Render ops (indented ind) (snd x) self (fst x))) (with_tails ss)))"
| "Render ops ind nx par (FunctionDeclaration loc nm ps dots ss) =
     (let self = Some (FunctionDeclaration loc nm ps dots ss, ROther) in
      renderFunctionDeclaration ind loc nm (Render ops ind nx self nm)
        (map (\<lambda>p. Render ops ind nx self p) ps) dots
        (map (\<lambda>x. (fst x, Render ops (indented ind) (snd x) self (fst x))) (with_tails ss)))"
| "Render ops ind nx par (MethodDeclaration e nm ps dots ss) =
     (let self = Some (MethodDeclaration e nm ps dots ss, ROther) in
      renderMethodDeclaration ind (Render ops ind nx self e) nm
        (map (\<lambda>p. Render ops ind nx self p) ps) dots
        (map (\<lambda>x. (fst x, Render ops (indented ind) (snd x) self (fst x))) (with_tails ss)))"
| "Render ops ind nx par (VariableDeclaration l r) =
     (let self = VariableDeclaration l r in
      renderVariableDeclaration ind nx self (map_NodeOrList (\<lambda>m. Render ops ind nx (Some (self, ROther)) m) l)
        (map_option (map_NodeOrList (\<lambda>m. Render ops ind nx (Some (self, ROther)) m)) r))"
| "Render ops ind nx par (ReturnStatement v) =
     renderReturnStatement ind (map_NodeOrList (\<lambda>m. Render ops ind nx (Some (ReturnStatement v, ROther)) m) v)"
| "Render ops ind nx par (Comment t) = renderComment ind t"
| "Render ops ind nx par (MapField i v) =
     (let self = MapField i v in
      renderMapField i (Render ops ind nx (Some (self, RIndex)) i) (Render ops ind nx (Some (self, ROther)) v))"
| "Render ops ind nx par (InterpolatedStringPart t) = renderInterpolatedStringPart t"
  by pat_completeness auto
termination
  by (relation "measure (\<lambda>(ops, ind, nx, par, n). size n)")
    (auto simp: ifChain_last_less dest!: list_mem_size with_tails_size if_parts_size
      else_parts_size NodeOrList_size else_list_size)

end
