(* ===== verification/Render_Temp_Ids.thy ===== *)
theory Render_Temp_Ids
  imports Luau_Render
begin

text \<open>
  Naming of temporary identifiers (\<open>src/internal/luau/render/solvetempids.go\<close>) over the
  tree walk of \<open>visit.go\<close>. The walk is the list of its callbacks in order; the callbacks update
  a solver state with an explicit store of scopes, because a scope is kept by the temporaries
  that were seen in it after it was popped. \<open>None\<close> is a panic (an empty scope stack).

  The Go map \<open>nodesToScopes\<close> is keyed by the pointer of a temporary; here every occurrence has its own scope, which is the
  same on trees where no node stands at two places.
\<close>

section \<open>The walk (\<open>visit.go\<close>)\<close>

text \<open>
  A callback with what it asks about the node's place: whether it is the first or last
  statement of a statement list of its parent (\<open>isScopeEdge\<close>), and whether an identifier
  stands where its parent declares it (\<open>isIdentifierDeclaration\<close>).
\<close>

datatype event = Before lnode bool bool | After lnode bool

fun edges :: "bool \<Rightarrow> 'a list \<Rightarrow> ('a \<times> bool \<times> bool) list" where
  "edges first [] = []"
| "edges first (x # xs) = (x, first, xs = []) # edges False xs"

lemma edges_mem: "(x, h, t) \<in> set (edges b xs) \<Longrightarrow> x \<in> set xs"
  by (induction xs arbitrary: b) auto

fun nodes_of :: "'n NodeOrList \<Rightarrow> 'n list" where
  "nodes_of (One x) = [x]"
| "nodes_of (List xs) = xs"

lemma edges_size: "(x, h, t) \<in> set (edges b xs) \<Longrightarrow> size x \<le> size_list size xs"
  by (rule list_mem_size [OF edges_mem])

lemma nodes_of_size: "x \<in> set (nodes_of v) \<Longrightarrow> size x \<le> size_NodeOrList size v"
  by (cases v) (auto dest: list_mem_size)

text \<open>The else body: its statements with their edges, or the single nested if statement.\<close>

fun else_edges :: "'n NodeOrList \<Rightarrow> ('n \<times> bool \<times> bool) list" where
  "else_edges (One x) = [(x, False, False)]"
| "else_edges (List xs) = edges True xs"

lemma else_edges_size: "(x, h, t) \<in> set (else_edges v) \<Longrightarrow> size x \<le> size_NodeOrList size v"
  by (cases v) (auto dest: edges_size)

function (sequential) visitNode :: "bool \<Rightarrow> bool \<Rightarrow> bool \<Rightarrow> lnode \<Rightarrow> event list" where
  "visitNode h t d n = Before n h d #
     (case n of
        ComputedIndexExpression e i \<Rightarrow> visitNode False False False e @ visitNode False False False i
      | PropertyAccessExpression e nm \<Rightarrow> visitNode False False False e
      | CallExpression e args \<Rightarrow>
          visitNode False False False e @ concat (map (\<lambda>m. visitNode False False False m) args)
      | MethodCallExpression nm e args \<Rightarrow>
          visitNode False False False e @ concat (map (\<lambda>m. visitNode False False False m) args)
      | ParenthesizedExpression e \<Rightarrow> visitNode False False False e
      | FunctionExpression ps dots ss \<Rightarrow>
          concat (map (\<lambda>m. visitNode False False True m) ps) @
          concat (map (\<lambda>x. visitNode (fst (snd x)) (snd (snd x)) False (fst x)) (edges True ss))
      | BinaryExpression l op r \<Rightarrow> visitNode False False False l @ visitNode False False False r
      | UnaryExpression op e \<Rightarrow> visitNode False False False e
      | IfExpression c e a \<Rightarrow>
          visitNode False False False c @ visitNode False False False e @ visitNode False False False a
      | InterpolatedString ps \<Rightarrow> concat (map (\<lambda>m. visitNode False False False m) ps)
      | Array ms \<Rightarrow> concat (map (\<lambda>m. visitNode False False False m) ms)
      | Map fs \<Rightarrow> concat (map (\<lambda>m. visitNode False False False m) fs)
      | Set ms \<Rightarrow> concat (map (\<lambda>m. visitNode False False False m) ms)
      | MixedTable fs \<Rightarrow> concat (map (\<lambda>m. visitNode False False False m) fs)
      | Assignment l op r \<Rightarrow>
          concat (map (\<lambda>m. visitNode False False False m) (nodes_of l)) @
          concat (map (\<lambda>m. visitNode False False False m) (nodes_of r))
      | CallStatement e \<Rightarrow> visitNode False False False e
      | DoStatement ss \<Rightarrow>
          concat (map (\<lambda>x. visitNode (fst (snd x)) (snd (snd x)) False (fst x)) (edges True ss))
      | WhileStatement c ss \<Rightarrow>
          visitNode False False False c @
          concat (map (\<lambda>x. visitNode (fst (snd x)) (snd (snd x)) False (fst x)) (edges True ss))
      | RepeatStatement c ss \<Rightarrow>
          concat (map (\<lambda>x. visitNode (fst (snd x)) (snd (snd x)) False (fst x)) (edges True ss)) @
          visitNode False False False c
      | IfStatement c ss eb \<Rightarrow>
          visitNode False False False c @
          concat (map (\<lambda>x. visitNode (fst (snd x)) (snd (snd x)) False (fst x)) (edges True ss)) @
          concat (map (\<lambda>x. visitNode (fst (snd x)) (snd (snd x)) False (fst x)) (else_edges eb))
      | NumericForStatement i st en stp ss \<Rightarrow>
          visitNode False False True i @ visitNode False False False st @ visitNode False False False en @
          (case stp of None \<Rightarrow> [] | Some m \<Rightarrow> visitNode False False False m) @
          concat (map (\<lambda>x. visitNode (fst (snd x)) (snd (snd x)) False (fst x)) (edges True ss))
      | ForStatement ids e ss \<Rightarrow>
          concat (map (\<lambda>m. visitNode False False True m) ids) @
          concat (map (\<lambda>x. visitNode (fst (snd x)) (snd (snd x)) False (fst x)) (edges True ss))
      | FunctionDeclaration loc nm ps dots ss \<Rightarrow>
          visitNode False False loc nm @ concat (map (\<lambda>m. visitNode False False True m) ps) @
          concat (map (\<lambda>x. visitNode (fst (snd x)) (snd (snd x)) False (fst x)) (edges True ss))
      | MethodDeclaration e nm ps dots ss \<Rightarrow>
          visitNode False False False e @ concat (map (\<lambda>m. visitNode False False True m) ps) @
          concat (map (\<lambda>x. visitNode (fst (snd x)) (snd (snd x)) False (fst x)) (edges True ss))
      | VariableDeclaration l r \<Rightarrow>
          concat (map (\<lambda>m. visitNode False False True m) (nodes_of l)) @
          (case r of None \<Rightarrow> [] | Some v \<Rightarrow> concat (map (\<lambda>m. visitNode False False False m) (nodes_of v)))
      | ReturnStatement v \<Rightarrow> concat (map (\<lambda>m. visitNode False False False m) (nodes_of v))
      | MapField i v \<Rightarrow> visitNode False False False i @ visitNode False False False v
      | _ \<Rightarrow> []) @ [After n t]"
  by pat_completeness auto
termination
  by (relation "measure (\<lambda>(h, t, d, n). size n)")
    (auto dest!: list_mem_size edges_size nodes_of_size else_edges_size)

declare visitNode.simps [simp del]

text \<open>A top-level statement list has no parent, so its statements are no edges.\<close>

definition visitList :: "lnode list \<Rightarrow> event list" where
  "visitList ss = concat (map (visitNode False False False) ss)"

section \<open>Scopes (\<open>solvetempids.go\<close>)\<close>

record tempScope =
  scope_ids :: "string set"
  lastTry :: "string \<Rightarrow> nat option"
  sparent :: "nat option"

record solver =
  scopes :: "tempScope list"
  scopeStack :: "nat list"  \<comment> \<open>the top is the first element\<close>
  temps :: "(string \<times> nat \<times> bool \<times> nat) list"  \<comment> \<open>name, ID, exact name, scope\<close>

definition newTempScope :: "nat option \<Rightarrow> tempScope" where
  "newTempScope p = \<lparr>scope_ids = {}, lastTry = (\<lambda>_. None), sparent = p\<rparr>"

definition addID :: "string \<Rightarrow> nat \<Rightarrow> tempScope list \<Rightarrow> tempScope list" where
  "addID nm i sc = sc[i := (sc ! i)\<lparr>scope_ids := insert nm (scope_ids (sc ! i))\<rparr>]"

definition setLastTry :: "string \<Rightarrow> nat \<Rightarrow> nat \<Rightarrow> tempScope list \<Rightarrow> tempScope list" where
  "setLastTry nm k i sc = sc[i := (sc ! i)\<lparr>lastTry := (lastTry (sc ! i))(nm \<mapsto> k)\<rparr>]"

text \<open>A scope and its ancestors, the scope first. A parent is allocated before its child.\<close>

function chain :: "tempScope list \<Rightarrow> nat \<Rightarrow> nat list" where
  "chain sc i = i # (case sparent (sc ! i) of None \<Rightarrow> [] | Some p \<Rightarrow> if p < i then chain sc p else [])"
  by pat_completeness auto
termination
  by (relation "measure snd") auto

declare chain.simps [simp del]

text \<open>The method \<open>has\<close>.\<close>

definition scopeHas :: "tempScope list \<Rightarrow> nat \<Rightarrow> string \<Rightarrow> bool" where
  "scopeHas sc i nm \<longleftrightarrow> (\<exists>j \<in> set (chain sc i). nm \<in> scope_ids (sc ! j))"

definition isFullyScopedNode :: "lnode \<Rightarrow> bool" where
  "isFullyScopedNode n \<longleftrightarrow> lkind n = KindForStatement \<or> lkind n = KindNumericForStatement \<or> IsFunctionLike n"

section \<open>The callbacks of \<open>solveTempIDs\<close>\<close>

definition push_scope :: "solver \<Rightarrow> solver option" where
  "push_scope s =
     (case scopeStack s of
        [] \<Rightarrow> None
      | p # _ \<Rightarrow> Some (s\<lparr>scopes := scopes s @ [newTempScope (Some p)],
                        scopeStack := length (scopes s) # scopeStack s\<rparr>))"

definition pop_scope :: "solver \<Rightarrow> solver option" where
  "pop_scope s = (case scopeStack s of [] \<Rightarrow> None | _ # st \<Rightarrow> Some (s\<lparr>scopeStack := st\<rparr>))"

definition registerID :: "string \<Rightarrow> solver \<Rightarrow> solver option" where
  "registerID nm s =
     (case scopeStack s of [] \<Rightarrow> None | p # _ \<Rightarrow> Some (s\<lparr>scopes := addID nm p (scopes s)\<rparr>))"

definition reserveIdentifierUse :: "string \<Rightarrow> solver \<Rightarrow> solver option" where
  "reserveIdentifierUse nm s =
     (case scopeStack s of
        [] \<Rightarrow> None
      | p # _ \<Rightarrow> Some (s\<lparr>scopes := foldl (\<lambda>sc i. addID nm i sc) (scopes s) (chain (scopes s) p)\<rparr>))"

fun registerAll :: "lnode list \<Rightarrow> solver \<Rightarrow> solver option" where
  "registerAll [] s = Some s"
| "registerAll (Identifier nm # xs) s = do { s1 \<leftarrow> registerID nm s; registerAll xs s1 }"
| "registerAll (_ # xs) s = registerAll xs s"

definition localName :: "lnode \<Rightarrow> lnode list" where
  "localName n = (case n of FunctionDeclaration loc nm ps dots ss \<Rightarrow> if loc then [nm] else [] | _ \<Rightarrow> [])"

definition do_when :: "bool \<Rightarrow> (solver \<Rightarrow> solver option) \<Rightarrow> solver \<Rightarrow> solver option" where
  "do_when b f s = (if b then f s else Some s)"

text \<open>The switch at the end of \<open>before\<close>.\<close>

definition registerNode :: "bool \<Rightarrow> lnode \<Rightarrow> solver \<Rightarrow> solver option" where
  "registerNode decl n s =
     (case n of
        TemporaryIdentifier nm i ex \<Rightarrow>
          (case scopeStack s of [] \<Rightarrow> None | p # _ \<Rightarrow> Some (s\<lparr>temps := temps s @ [(nm, i, ex, p)]\<rparr>))
      | Identifier nm \<Rightarrow> if decl then registerID nm s else reserveIdentifierUse nm s
      | VariableDeclaration l r \<Rightarrow> registerAll (nodes_of l) s
      | FunctionExpression ps dots ss \<Rightarrow> registerAll ps s
      | FunctionDeclaration loc nm ps dots ss \<Rightarrow> registerAll ps s
      | MethodDeclaration e nm ps dots ss \<Rightarrow> registerAll ps s
      | _ \<Rightarrow> Some s)"

fun solve_step :: "event \<Rightarrow> solver \<Rightarrow> solver option" where
  "solve_step (Before n h d) s = do {
     s1 \<leftarrow> registerAll (localName n) s;
     s2 \<leftarrow> do_when (isFullyScopedNode n) push_scope s1;
     s3 \<leftarrow> do_when h push_scope s2;
     registerNode d n s3
   }"
| "solve_step (After n t) s = do {
     s1 \<leftarrow> do_when (isFullyScopedNode n) pop_scope s;
     do_when t pop_scope s1
   }"

fun solve_events :: "event list \<Rightarrow> solver \<Rightarrow> solver option" where
  "solve_events [] s = Some s"
| "solve_events (e # es) s = do { s1 \<leftarrow> solve_step e s; solve_events es s1 }"

section \<open>Choosing names\<close>

text \<open>The loops \<open>for scope.has(input) { input = base + strconv.Itoa(i); i++ }\<close>.\<close>

partial_function (option) freshLoop ::
  "(string \<Rightarrow> bool) \<Rightarrow> string \<Rightarrow> string \<Rightarrow> nat \<Rightarrow> (string \<times> nat) option" where
  "freshLoop has b input i =
     (if has input then freshLoop has b (b @ Itoa i) (i + 1) else Some (input, i))"

declare freshLoop.simps [code]

definition assignTemp ::
  "string \<times> nat \<times> bool \<times> nat \<Rightarrow> tempScope list \<times> (nat \<Rightarrow> string option) \<Rightarrow>
   (tempScope list \<times> (nat \<Rightarrow> string option)) option" where
  "assignTemp tmp st =
     (case tmp of (name, tid, exact, i) \<Rightarrow>
      case st of (sc, seen) \<Rightarrow>
        if seen tid \<noteq> None then Some (sc, seen)
        else (let input0 = (if exact then name else ''_'' @ name);
                  b = (if exact then name @ ''_'' else if name = [] then ''_'' else ''_'' @ name @ ''_'');
                  k = (case lastTry (sc ! i) input0 of Some k \<Rightarrow> k | None \<Rightarrow> 1)
              in do {
                (input, k1) \<leftarrow> freshLoop (scopeHas sc i) b input0 k;
                Some (addID input i (setLastTry input k1 i sc), seen(tid \<mapsto> input))
              }))"

fun assignTemps ::
  "(string \<times> nat \<times> bool \<times> nat) list \<Rightarrow> tempScope list \<times> (nat \<Rightarrow> string option) \<Rightarrow>
   (tempScope list \<times> (nat \<Rightarrow> string option)) option" where
  "assignTemps [] st = Some st"
| "assignTemps (t # ts) st = do { st1 \<leftarrow> assignTemp t st; assignTemps ts st1 }"

definition newSolver :: solver where
  "newSolver = \<lparr>scopes = [newTempScope None], scopeStack = [0], temps = []\<rparr>"

definition solveTempIDs :: "lnode list \<Rightarrow> RenderState \<Rightarrow> RenderState option" where
  "solveTempIDs ast st = do {
     s \<leftarrow> solve_events (visitList ast) newSolver;
     (sc, seen) \<leftarrow> assignTemps (temps s) (scopes s, seenTempNodes st);
     Some (st\<lparr>seenTempNodes := seen\<rparr>)
   }"

text \<open>\<open>RenderAST\<close> (\<open>render.go\<close>).\<close>

definition RenderAST :: "'f numops \<Rightarrow> lnode list \<Rightarrow> string option" where
  "RenderAST ops ast = do {
     st \<leftarrow> solveTempIDs ast NewRenderState;
     (t, st1) \<leftarrow> renderStatements (map (\<lambda>x. (fst x, Render ops [] (snd x) None (fst x))) (with_tails ast)) st;
     Some t
   }"

end
