(* ===== verification/Temp_Ids_Correct.thy ===== *)
theory Temp_Ids_Correct
  imports Render_Temp_Ids
begin

text \<open>
  Correctness of the naming of temporaries: the walk leaves the scope stack as it found it and
  never pops an empty stack, the search for a name ends, and the chosen name is visible nowhere
  in the temporary's scope.
\<close>

section \<open>Scope stores\<close>

definition wf_scopes :: "tempScope list \<Rightarrow> bool" where
  "wf_scopes sc \<longleftrightarrow> (\<forall>i < length sc. finite (scope_ids (sc ! i)) \<and>
     (\<forall>p. sparent (sc ! i) = Some p \<longrightarrow> p < i))"

definition grown :: "tempScope list \<Rightarrow> tempScope list \<Rightarrow> bool" where
  "grown sc sc' \<longleftrightarrow> length sc \<le> length sc' \<and>
     (\<forall>i < length sc. scope_ids (sc ! i) \<subseteq> scope_ids (sc' ! i) \<and> sparent (sc' ! i) = sparent (sc ! i))"

lemma grown_refl [simp, intro]: "grown sc sc"
  by (simp add: grown_def)

lemma grown_trans:
  assumes "grown a b" "grown b c"
  shows "grown a c"
proof -
  have "scope_ids (a ! i) \<subseteq> scope_ids (c ! i) \<and> sparent (c ! i) = sparent (a ! i)" if "i < length a" for i
  proof -
    have "i < length b" using assms that by (simp add: grown_def)
    then have "scope_ids (b ! i) \<subseteq> scope_ids (c ! i)" "sparent (c ! i) = sparent (b ! i)"
      using assms(2) by (simp_all add: grown_def)
    moreover have "scope_ids (a ! i) \<subseteq> scope_ids (b ! i)" "sparent (b ! i) = sparent (a ! i)"
      using assms(1) that by (simp_all add: grown_def)
    ultimately show ?thesis by auto
  qed
  with assms show ?thesis by (auto simp: grown_def)
qed

lemma chain_le: "j \<in> set (chain sc i) \<Longrightarrow> j \<le> i"
proof (induction sc i rule: chain.induct)
  case (1 sc i)
  from 1(2) consider "j = i" | p where "sparent (sc ! i) = Some p" "p < i" "j \<in> set (chain sc p)"
    unfolding chain.simps [of sc i] by (cases "sparent (sc ! i)") (auto split: if_splits)
  then show ?case using 1(1) by cases force+
qed

lemma chain_self [simp]: "i \<in> set (chain sc i)"
  by (subst chain.simps) simp

lemma chain_cong: "(\<And>j. j \<le> i \<Longrightarrow> sparent (sc' ! j) = sparent (sc ! j)) \<Longrightarrow> chain sc' i = chain sc i"
proof (induction sc i rule: chain.induct)
  case (1 sc i)
  then show ?case
    by (subst chain.simps, subst (2) chain.simps) (auto split: option.splits)
qed

lemma chain_grown: "grown sc sc' \<Longrightarrow> i < length sc \<Longrightarrow> chain sc' i = chain sc i"
  by (rule chain_cong) (simp add: grown_def)

lemma scopeHas_grown: "grown sc sc' \<Longrightarrow> i < length sc \<Longrightarrow> scopeHas sc i nm \<Longrightarrow> scopeHas sc' i nm"
  using chain_grown [of sc sc' i] chain_le [of _ sc i]
  by (auto simp: scopeHas_def grown_def intro!: bexI) (meson le_less_trans subsetD)

lemma scopeHas_finite:
  assumes "wf_scopes sc" "i < length sc"
  shows "finite {nm. scopeHas sc i nm}"
proof -
  have "{nm. scopeHas sc i nm} = (\<Union>j \<in> set (chain sc i). scope_ids (sc ! j))"
    by (auto simp: scopeHas_def)
  moreover have "finite (scope_ids (sc ! j))" if "j \<in> set (chain sc i)" for j
    using chain_le [OF that] assms by (simp add: wf_scopes_def)
  ultimately show ?thesis by simp
qed

lemma addID_length [simp]: "length (addID nm i sc) = length sc"
  by (simp add: addID_def)

lemma addID_nth:
  "j < length sc \<Longrightarrow> addID nm i sc ! j =
     (if i = j then (sc ! j)\<lparr>scope_ids := insert nm (scope_ids (sc ! j))\<rparr> else sc ! j)"
  by (auto simp: addID_def nth_list_update)

lemma addID_grown: "grown sc (addID nm i sc)"
  by (auto simp: grown_def addID_nth)

lemma addID_wf: "wf_scopes sc \<Longrightarrow> wf_scopes (addID nm i sc)"
  by (auto simp: wf_scopes_def addID_nth)

lemma addID_has: "i < length sc \<Longrightarrow> scopeHas (addID nm i sc) i nm"
  by (auto simp: scopeHas_def addID_nth intro!: bexI [of _ i])

lemma setLastTry_nth:
  "j < length sc \<Longrightarrow> setLastTry nm k i sc ! j =
     (if i = j then (sc ! j)\<lparr>lastTry := (lastTry (sc ! j))(nm \<mapsto> k)\<rparr> else sc ! j)"
  by (auto simp: setLastTry_def nth_list_update)

lemma setLastTry_length [simp]: "length (setLastTry nm k i sc) = length sc"
  by (simp add: setLastTry_def)

lemma setLastTry_grown: "grown sc (setLastTry nm k i sc)"
  by (auto simp: grown_def setLastTry_nth)

lemma setLastTry_wf: "wf_scopes sc \<Longrightarrow> wf_scopes (setLastTry nm k i sc)"
  by (auto simp: wf_scopes_def setLastTry_nth)

lemma addIDs_store:
  "length (foldl (\<lambda>sc i. addID nm i sc) sc is) = length sc \<and>
   grown sc (foldl (\<lambda>sc i. addID nm i sc) sc is) \<and>
   (wf_scopes sc \<longrightarrow> wf_scopes (foldl (\<lambda>sc i. addID nm i sc) sc is)) \<and>
   (\<forall>j \<in> set is. j < length sc \<longrightarrow> nm \<in> scope_ids (foldl (\<lambda>sc i. addID nm i sc) sc is ! j))"
proof (induction "is" arbitrary: sc)
  case (Cons i "is")
  let ?r = "foldl (\<lambda>sc i. addID nm i sc) (addID nm i sc) is"
  have ih: "length ?r = length sc" "grown (addID nm i sc) ?r" "wf_scopes (addID nm i sc) \<longrightarrow> wf_scopes ?r"
    "\<forall>j \<in> set is. j < length sc \<longrightarrow> nm \<in> scope_ids (?r ! j)"
    using Cons.IH [of "addID nm i sc"] by simp_all
  have "nm \<in> scope_ids (?r ! i)" if "i < length sc"
    using ih(2) that by (auto simp: grown_def addID_nth)
  then show ?case
    using ih addID_wf [of sc nm i] grown_trans [OF addID_grown ih(2)] by auto
qed simp

section \<open>The walk\<close>

definition solver_ok :: "solver \<Rightarrow> bool" where
  "solver_ok s \<longleftrightarrow> wf_scopes (scopes s) \<and> scopeStack s \<noteq> [] \<and>
     (\<forall>i \<in> set (scopeStack s). i < length (scopes s)) \<and>
     (\<forall>(nm, tid, ex, i) \<in> set (temps s). i < length (scopes s))"

definition later :: "solver \<Rightarrow> solver \<Rightarrow> bool" where
  "later s s' \<longleftrightarrow> grown (scopes s) (scopes s') \<and> prefix (temps s) (temps s')"

lemma later_refl [simp, intro]: "later s s"
  by (simp add: later_def)

lemma later_trans: "later a b \<Longrightarrow> later b c \<Longrightarrow> later a c"
  unfolding later_def by (blast intro: grown_trans prefix_order.trans)

lemma solve_events_append: "solve_events (a @ b) s = solve_events a s \<bind> solve_events b"
proof (induction a arbitrary: s)
  case (Cons e a)
  then show ?case by (cases "solve_step e s") simp_all
qed simp

lemma solve_events_single: "solve_events [e] = solve_step e"
proof
  fix s show "solve_events [e] s = solve_step e s" by (cases "solve_step e s") simp_all
qed

text \<open>\<open>goes m f s\<close>: the step \<open>m\<close> returns and turns the stack of \<open>s\<close> into one that
  satisfies \<open>f\<close>.\<close>

definition goes :: "solver option \<Rightarrow> (nat list \<Rightarrow> bool) \<Rightarrow> solver \<Rightarrow> bool" where
  "goes m f s \<longleftrightarrow> (\<exists>s'. m = Some s' \<and> solver_ok s' \<and> later s s' \<and> f (scopeStack s'))"

lemma goes_bind:
  assumes "goes m f s" "\<And>s1. m = Some s1 \<Longrightarrow> solver_ok s1 \<Longrightarrow> f (scopeStack s1) \<Longrightarrow> goes (k s1) g s1"
  shows "goes (m \<bind> k) g s"
  using assms unfolding goes_def by (fastforce intro: later_trans)

lemma registerID_goes: "solver_ok s \<Longrightarrow> goes (registerID nm s) (\<lambda>st. st = scopeStack s) s"
  by (cases "scopeStack s")
    (auto simp: goes_def registerID_def solver_ok_def later_def addID_wf addID_grown)

lemma reserve_goes: "solver_ok s \<Longrightarrow> goes (reserveIdentifierUse nm s) (\<lambda>st. st = scopeStack s) s"
  by (cases "scopeStack s")
    (auto simp: goes_def reserveIdentifierUse_def solver_ok_def later_def addIDs_store)

lemma registerAll_goes: "solver_ok s \<Longrightarrow> goes (registerAll xs s) (\<lambda>st. st = scopeStack s) s"
proof (induction xs s rule: registerAll.induct)
  case (2 nm xs s)
  show ?case unfolding registerAll.simps
    by (rule goes_bind [OF registerID_goes [OF 2(2)]]) (use 2(1) in \<open>auto simp: goes_def\<close>)
qed (auto simp: goes_def)

lemma registerNode_goes: "solver_ok s \<Longrightarrow> goes (registerNode d n s) (\<lambda>st. st = scopeStack s) s"
proof -
  assume ok: "solver_ok s"
  then obtain p st where st: "scopeStack s = p # st" by (cases "scopeStack s") (auto simp: solver_ok_def)
  have "goes (Some (s\<lparr>temps := temps s @ [(nm, i, ex, p)]\<rparr>)) (\<lambda>st. st = scopeStack s) s" for nm i ex
    using ok st by (auto simp: goes_def solver_ok_def later_def)
  then show ?thesis
    using ok st registerAll_goes [OF ok] registerID_goes [OF ok] reserve_goes [OF ok]
    by (cases n) (auto simp: registerNode_def goes_def)
qed

lemma push_goes: "solver_ok s \<Longrightarrow> goes (push_scope s) (\<lambda>st. \<exists>p. st = p # scopeStack s) s"
  by (cases "scopeStack s")
    (auto simp: goes_def push_scope_def solver_ok_def later_def grown_def wf_scopes_def nth_append
      newTempScope_def less_Suc_eq split: prod.splits)

lemma pop_goes:
  "solver_ok s \<Longrightarrow> 2 \<le> length (scopeStack s) \<Longrightarrow> goes (pop_scope s) (\<lambda>st. st = tl (scopeStack s)) s"
  by (cases "scopeStack s") (auto simp: goes_def pop_scope_def solver_ok_def later_def)

text \<open>
  \<open>walks h t es\<close>: the events pass, with one scope more on the stack when only \<open>h\<close> holds (the
  node opens a statement list that another one closes) and one less when only \<open>t\<close> holds.
\<close>

definition walks :: "bool \<Rightarrow> bool \<Rightarrow> event list \<Rightarrow> bool" where
  "walks h t es \<longleftrightarrow> (\<forall>s. solver_ok s \<longrightarrow> (t \<and> \<not> h \<longrightarrow> 2 \<le> length (scopeStack s)) \<longrightarrow>
     goes (solve_events es s)
       (\<lambda>st. if h = t then st = scopeStack s
             else if h then \<exists>p. st = p # scopeStack s else st = tl (scopeStack s)) s)"

abbreviation passes :: "event list \<Rightarrow> bool" where
  "passes \<equiv> walks False False"

lemma walks_same: "walks True True = passes"
  by (simp add: walks_def fun_eq_iff)

lemma walksD:
  assumes "walks h t es" "solver_ok s" "t \<and> \<not> h \<longrightarrow> 2 \<le> length (scopeStack s)"
  shows "goes (solve_events es s)
       (\<lambda>st. if h = t then st = scopeStack s
             else if h then \<exists>p. st = p # scopeStack s else st = tl (scopeStack s)) s"
  using assms by (simp add: walks_def)

lemma stack_pos: "solver_ok s \<Longrightarrow> 1 \<le> length (scopeStack s)"
  by (cases "scopeStack s") (auto simp: solver_ok_def)

lemma walks_Nil [simp]: "passes []"
  by (simp add: walks_def goes_def)

lemma passes_append: "passes a \<Longrightarrow> passes b \<Longrightarrow> passes (a @ b)"
  unfolding walks_def solve_events_append by (auto intro!: goes_bind [where f = "\<lambda>st. st = _"])

lemma walks_close:
  assumes "walks h False a" "walks False True b"
  shows "walks h True (a @ b)"
  unfolding walks_def solve_events_append
proof (intro allI impI)
  fix s assume s: "solver_ok s" "True \<and> \<not> h \<longrightarrow> 2 \<le> length (scopeStack s)"
  show "goes (solve_events a s \<bind> solve_events b)
       (\<lambda>st. if h = True then st = scopeStack s
             else if h then \<exists>p. st = p # scopeStack s else st = tl (scopeStack s)) s"
  proof (rule goes_bind [OF walksD [OF assms(1) s(1)]])
    fix s1 assume s1: "solver_ok s1" "if h = False then scopeStack s1 = scopeStack s
      else if h then \<exists>p. scopeStack s1 = p # scopeStack s else scopeStack s1 = tl (scopeStack s)"
    have "2 \<le> length (scopeStack s1)" using s s1 stack_pos [of s] by (cases h) auto
    with walksD [OF assms(2) s1(1)] s1(2)
    show "goes (solve_events b s1)
       (\<lambda>st. if h = True then st = scopeStack s
             else if h then \<exists>p. st = p # scopeStack s else st = tl (scopeStack s)) s1"
      by (cases h) (auto simp: goes_def)
  qed simp
qed

lemma passes_concat: "(\<And>x. x \<in> set xs \<Longrightarrow> passes (f x)) \<Longrightarrow> passes (concat (map f xs))"
  by (induction xs) (auto intro: passes_append)

lemma walks_edges:
  "(\<And>x. x \<in> set (edges b xs) \<Longrightarrow> walks (fst (snd x)) (snd (snd x)) (f x)) \<Longrightarrow> xs \<noteq> [] \<Longrightarrow>
   walks b True (concat (map f (edges b xs)))"
proof (induction xs arbitrary: b)
  case (Cons x xs)
  show ?case
  proof (cases "xs = []")
    case True
    then show ?thesis using Cons.prems(1) [of "(x, b, True)"] by simp
  next
    case False
    have "walks b False (f (x, b, False))" using Cons.prems(1) [of "(x, b, False)"] False by simp
    moreover have "walks False True (concat (map f (edges False xs)))"
      using Cons.prems(1) False by (intro Cons.IH) auto
    ultimately show ?thesis using False walks_close by simp
  qed
qed simp

lemma passes_edges:
  assumes "\<And>x. x \<in> set (edges True xs) \<Longrightarrow> walks (fst (snd x)) (snd (snd x)) (f x)"
  shows "passes (concat (map f (edges True xs)))"
  using walks_edges [of True xs f] assms by (cases "xs = []") (auto simp: walks_same)

lemma passes_else_edges:
  assumes "\<And>x. x \<in> set (else_edges v) \<Longrightarrow> walks (fst (snd x)) (snd (snd x)) (f x)"
  shows "passes (concat (map f (else_edges v)))"
  using assms by (cases v) (auto intro: passes_edges)

lemma before_goes:
  assumes "solver_ok s"
  shows "goes (solve_step (Before n h d) s)
    (\<lambda>st. \<exists>ps. st = ps @ scopeStack s \<and> length ps = of_bool (isFullyScopedNode n) + of_bool h) s"
proof -
  have w: "goes (do_when b push_scope s1)
      (\<lambda>st. \<exists>ps. st = ps @ scopeStack s1 \<and> length ps = of_bool b) s1" if "solver_ok s1" for b s1
    using push_goes [OF that] that by (cases b) (auto simp: do_when_def goes_def)
  show ?thesis
    unfolding solve_step.simps
    apply (rule goes_bind [OF registerAll_goes [OF assms]])
    apply (erule goes_bind [OF w])
    apply (erule goes_bind [OF w])
    apply (drule registerNode_goes [of _ d n])
    apply (fastforce simp: goes_def)
    done
qed

lemma after_goes:
  assumes "solver_ok s" "of_bool (isFullyScopedNode n) + of_bool t < length (scopeStack s)"
  shows "goes (solve_step (After n t) s)
    (\<lambda>st. st = drop (of_bool (isFullyScopedNode n) + of_bool t) (scopeStack s)) s"
proof -
  have w: "goes (do_when b pop_scope s1) (\<lambda>st. st = drop (of_bool b) (scopeStack s1)) s1"
    if "solver_ok s1" "of_bool b < length (scopeStack s1)" for b s1
    using pop_goes [OF that(1)] that by (cases b) (auto simp: do_when_def goes_def drop_Suc)
  show ?thesis
    unfolding solve_step.simps
  proof (rule goes_bind [OF w [OF assms(1)]])
    fix s1 assume s1: "solver_ok s1" "scopeStack s1 = drop (of_bool (isFullyScopedNode n)) (scopeStack s)"
    with assms(2) w [of s1 t]
    show "goes (do_when t pop_scope s1)
        (\<lambda>st. st = drop (of_bool (isFullyScopedNode n) + of_bool t) (scopeStack s)) s1"
      by (simp add: add.commute less_diff_conv del: of_bool_eq_iff split del: if_split)
  qed (use assms(2) in simp)
qed

lemma walks_node:
  assumes "passes es"
  shows "walks h t (Before n h d # es @ [After n t])"
  unfolding walks_def
proof (intro allI impI)
  fix s assume s: "solver_ok s" "t \<and> \<not> h \<longrightarrow> 2 \<le> length (scopeStack s)"
  let ?f = "of_bool (isFullyScopedNode n) :: nat"
  let ?P = "\<lambda>st. if h = t then st = scopeStack s
             else if h then \<exists>p. st = p # scopeStack s else st = tl (scopeStack s)"
  have "goes (solve_step (Before n h d) s \<bind> (\<lambda>s1. solve_events es s1 \<bind> solve_step (After n t))) ?P s"
  proof (rule goes_bind [OF before_goes [OF s(1)]])
    fix s1 assume s1: "solver_ok s1" "\<exists>ps. scopeStack s1 = ps @ scopeStack s \<and> length ps = ?f + of_bool h"
    then obtain ps where ps: "scopeStack s1 = ps @ scopeStack s" "length ps = ?f + of_bool h" by blast
    show "goes (solve_events es s1 \<bind> solve_step (After n t)) ?P s1"
    proof (rule goes_bind [OF walksD [OF assms s1(1)]])
      fix s2 assume s2: "solver_ok s2" "if False = False then scopeStack s2 = scopeStack s1
        else if False then \<exists>p. scopeStack s2 = p # scopeStack s1 else scopeStack s2 = tl (scopeStack s1)"
      have l: "?f + of_bool t < length (scopeStack s2)"
        using s2 ps s stack_pos [OF s(1)] by (cases h; cases t) auto
      show "goes (solve_step (After n t) s2) ?P s2"
        using after_goes [OF s2(1) l] s2 ps
        by (cases h; cases t; cases "isFullyScopedNode n") (auto simp: goes_def drop_Suc length_Suc_conv)
    qed simp
  qed
  then show "goes (solve_events (Before n h d # es @ [After n t]) s) ?P s"
    by (cases "solve_step (Before n h d) s")
      (simp_all add: solve_events_append solve_events_single del: solve_step.simps split del: if_split)
qed

text \<open>The walk of a node.\<close>

lemma walks_visitNode: "walks h t (visitNode h t d n)"
proof (induction h t d n rule: visitNode.induct)
  case (1 h t d n)
  show ?case
    apply (subst visitNode.simps)
    apply (rule walks_node)
    apply (insert 1)
    apply (cases n)
    apply (auto intro!: passes_append passes_concat passes_edges passes_else_edges split: option.splits)
    done
qed

lemma newSolver_ok: "solver_ok newSolver"
  by (simp add: solver_ok_def newSolver_def wf_scopes_def newTempScope_def)

lemma visitList_goes: "goes (solve_events (visitList ast) newSolver) (\<lambda>st. st = [0]) newSolver"
  using walksD [OF passes_concat newSolver_ok, of ast "visitNode False False False"] walks_visitNode
  by (simp add: visitList_def newSolver_def)

section \<open>The search for a name\<close>

lemma Itoa_step: "Itoa n = (if n < 10 then [digit_char n] else Itoa (n div 10) @ [digit_char (n mod 10)])"
  by (rule Itoa.simps)

lemma digit_char_inj: "a < 10 \<Longrightarrow> b < 10 \<Longrightarrow> digit_char a = digit_char b \<Longrightarrow> a = b"
proof -
  have "of_char (digit_char n) = (48 + n :: nat)" if "n < 10" for n using that by simp
  then show "a < 10 \<Longrightarrow> b < 10 \<Longrightarrow> digit_char a = digit_char b \<Longrightarrow> a = b"
    by (metis add_left_cancel)
qed

lemma Itoa_nonempty [simp]: "Itoa n \<noteq> []"
  by (subst Itoa_step) simp

lemma Itoa_nonempty' [simp]: "[] \<noteq> Itoa n"
  using Itoa_nonempty [of n] by metis

lemma Itoa_inj: "Itoa a = Itoa b \<Longrightarrow> a = b"
proof (induction a arbitrary: b rule: less_induct)
  case (less a)
  from less.prems consider "a < 10" "b < 10" "digit_char a = digit_char b"
    | "\<not> a < 10" "\<not> b < 10" "Itoa (a div 10) = Itoa (b div 10)" "digit_char (a mod 10) = digit_char (b mod 10)"
    unfolding Itoa_step [of a] Itoa_step [of b] by (auto split: if_splits simp del: digit_char.simps)
  then show ?case
  proof cases
    case 1
    then show ?thesis by (rule digit_char_inj)
  next
    case 2
    then have "a div 10 = b div 10" "a mod 10 = b mod 10"
      using less.IH [of "a div 10" "b div 10"] digit_char_inj [of "a mod 10" "b mod 10"] by auto
    then show ?thesis by (metis div_mult_mod_eq)
  qed
qed

text \<open>The search ends because the names in sight are finitely many and the candidates differ.\<close>

lemma freshLoop_ends:
  assumes "finite {x. has x}"
  shows "\<exists>nm k. freshLoop has b input i = Some (nm, k) \<and> \<not> has nm \<and> (nm = input \<or> (\<exists>j. nm = b @ Itoa j))"
proof -
  have inj: "inj (\<lambda>k. b @ Itoa k)" by (auto intro!: injI dest: Itoa_inj)
  then have fin: "finite {k. i \<le> k \<and> has (b @ Itoa k)}" for i
    using finite_vimageI [OF assms inj] by (auto simp: vimage_def intro: rev_finite_subset)
  show ?thesis
  proof (induction "card {k. i \<le> k \<and> has (b @ Itoa k)} + of_bool (has input)"
      arbitrary: input i rule: less_induct)
    case less
    show ?case
    proof (cases "has input")
      case True
      let ?A = "\<lambda>i. {k. i \<le> k \<and> has (b @ Itoa k)}"
      have "?A i = (if has (b @ Itoa i) then insert i (?A (Suc i)) else ?A (Suc i))"
        by (auto simp: Suc_le_eq order_le_less)
      then have "card (?A i) = card (?A (Suc i)) + of_bool (has (b @ Itoa i))"
        using fin [of "Suc i"] by (simp add: card_insert_if)
      with less [of "Suc i" "b @ Itoa i"] True
      show ?thesis by (subst freshLoop.simps) auto
    qed (subst freshLoop.simps, simp)
  qed
qed

section \<open>Any part of the walk\<close>

definition store_ok :: "solver \<Rightarrow> bool" where
  "store_ok s \<longleftrightarrow> wf_scopes (scopes s) \<and> (\<forall>i \<in> set (scopeStack s). i < length (scopes s)) \<and>
     (\<forall>(nm, tid, ex, i) \<in> set (temps s). i < length (scopes s))"

lemma solver_ok_store: "solver_ok s \<longleftrightarrow> store_ok s \<and> scopeStack s \<noteq> []"
  by (auto simp: solver_ok_def store_ok_def)

lemma registerAll_empty: "scopeStack s = [] \<Longrightarrow> registerAll xs s = Some s' \<Longrightarrow> s' = s"
  by (induction xs s rule: registerAll.induct) (auto simp: registerID_def)

lemma registerNode_empty: "scopeStack s = [] \<Longrightarrow> registerNode d n s = Some s' \<Longrightarrow> s' = s"
  by (cases n) (auto simp: registerNode_def registerID_def reserveIdentifierUse_def split: if_splits
      dest: registerAll_empty)

lemma do_when_empty:
  "scopeStack s = [] \<Longrightarrow> do_when b push_scope s = Some s' \<Longrightarrow> s' = s"
  "scopeStack s = [] \<Longrightarrow> do_when b pop_scope s = Some s' \<Longrightarrow> s' = s"
  by (auto simp: do_when_def push_scope_def pop_scope_def split: if_splits)

lemma solve_step_store:
  assumes "solve_step e s = Some s'" "store_ok s"
  shows "store_ok s' \<and> later s s'"
proof (cases "scopeStack s = []")
  case True
  then have "s' = s"
    using assms(1)
    by (cases e) (auto split: bind_splits, (metis registerAll_empty registerNode_empty do_when_empty)+)
  with assms(2) show ?thesis by simp
next
  case False
  with assms(2) have ok: "solver_ok s" by (simp add: solver_ok_store)
  show ?thesis
  proof (cases e)
    case (Before n h d)
    with before_goes [OF ok, of n h d] assms(1) show ?thesis
      by (auto simp: goes_def solver_ok_store simp del: solve_step.simps)
  next
    case (After n t)
    have "store_ok s2 \<and> later s1 s2" if "do_when b pop_scope s1 = Some s2" "store_ok s1" for b s1 s2
      using that by (auto simp: do_when_def pop_scope_def store_ok_def later_def split: if_splits list.splits)
    with After assms show ?thesis by (simp split: bind_splits) (metis later_trans)
  qed
qed

lemma solve_events_store:
  "solve_events es s = Some s' \<Longrightarrow> store_ok s \<Longrightarrow> store_ok s' \<and> later s s'"
proof (induction es arbitrary: s)
  case (Cons e es)
  then obtain s1 where "solve_step e s = Some s1" "solve_events es s1 = Some s'"
    by (cases "solve_step e s") (auto simp del: solve_step.simps)
  with Cons solve_step_store show ?case by (blast intro: later_trans)
qed simp

lemma registerAll_temps: "registerAll xs s = Some s' \<Longrightarrow> temps s' = temps s \<and> scopeStack s' = scopeStack s"
  by (induction xs s rule: registerAll.induct)
    (auto simp: registerID_def split: bind_splits list.splits)

lemma push_temps: "do_when b push_scope s = Some s' \<Longrightarrow> temps s' = temps s"
  by (auto simp: do_when_def push_scope_def split: if_splits list.splits)

lemma temp_step:
  assumes "solve_step (Before (TemporaryIdentifier nm tid ex) h d) s = Some s'"
  shows "temps s' = temps s @ [(nm, tid, ex, hd (scopeStack s'))]"
  using assms by (auto simp: localName_def registerNode_def split: bind_splits list.splits dest!: push_temps)

lemma identifier_step:
  assumes "solve_step (Before (Identifier nm) h d) s = Some s'" "store_ok s"
  shows "scopeStack s' \<noteq> [] \<and> nm \<in> scope_ids (scopes s' ! hd (scopeStack s')) \<and>
    (d \<or> (\<forall>j \<in> set (chain (scopes s') (hd (scopeStack s'))). nm \<in> scope_ids (scopes s' ! j)))"
proof -
  obtain s1 where s1: "do_when h push_scope s = Some s1"
    "(if d then registerID nm s1 else reserveIdentifierUse nm s1) = Some s'"
    using assms(1)
    by (auto simp: localName_def isFullyScopedNode_def IsFunctionLike_def do_when_def [of False] registerNode_def
        split: bind_splits)
  have "store_ok s1"
    using s1(1) assms(2) push_goes [of s] by (cases "scopeStack s")
      (auto simp: do_when_def push_scope_def goes_def solver_ok_store split: if_splits)
  moreover obtain p st where st: "scopeStack s1 = p # st"
    using s1(2) by (cases "scopeStack s1") (auto simp: registerID_def reserveIdentifierUse_def split: if_splits)
  ultimately have p: "p < length (scopes s1)" "wf_scopes (scopes s1)" by (auto simp: store_ok_def)
  show ?thesis
  proof (cases d)
    case True
    then show ?thesis using s1(2) st p by (auto simp: registerID_def addID_nth)
  next
    case False
    let ?r = "foldl (\<lambda>sc i. addID nm i sc) (scopes s1) (chain (scopes s1) p)"
    have s': "s' = s1\<lparr>scopes := ?r\<rparr>" using False s1(2) st by (simp add: reserveIdentifierUse_def)
    have r: "length ?r = length (scopes s1)" "grown (scopes s1) ?r"
      "\<forall>j \<in> set (chain (scopes s1) p). j < length (scopes s1) \<longrightarrow> nm \<in> scope_ids (?r ! j)"
      using addIDs_store [of nm "scopes s1" "chain (scopes s1) p"] by blast+
    have "\<forall>j \<in> set (chain ?r p). nm \<in> scope_ids (?r ! j)"
      using r(3) chain_grown [OF r(2) p(1)] chain_le [of _ "scopes s1" p] p(1) by fastforce
    then show ?thesis using s' st chain_self [of p ?r] by auto
  qed
qed

section \<open>The names chosen\<close>

definition temp_base :: "bool \<Rightarrow> string \<Rightarrow> string" where
  "temp_base exact name = (if exact then name @ ''_'' else if name = [] then ''_'' else ''_'' @ name @ ''_'')"

definition candidate :: "bool \<Rightarrow> string \<Rightarrow> string \<Rightarrow> bool" where
  "candidate exact name nm \<longleftrightarrow>
     nm = (if exact then name else ''_'' @ name) \<or> (\<exists>k. nm = temp_base exact name @ Itoa k)"

lemma assignTemp_spec:
  assumes "wf_scopes sc" "i < length sc"
  obtains sc' seen' where "assignTemp (name, tid, ex, i) (sc, seen) = Some (sc', seen')"
    "wf_scopes sc'" "grown sc sc'" "length sc' = length sc"
    "seen tid \<noteq> None \<Longrightarrow> seen' = seen"
    "seen tid = None \<Longrightarrow> \<exists>nm. seen' = seen(tid \<mapsto> nm) \<and> \<not> scopeHas sc i nm \<and>
       nm \<in> scope_ids (sc' ! i) \<and> candidate ex name nm"
proof (cases "seen tid")
  case (Some nm)
  with assms show thesis by (intro that [of sc seen]) (auto simp: assignTemp_def)
next
  case None
  define k where "k = (case lastTry (sc ! i) (if ex then name else ''_'' @ name) of Some k \<Rightarrow> k | None \<Rightarrow> 1)"
  obtain nm k1 where f: "freshLoop (scopeHas sc i) (temp_base ex name) (if ex then name else ''_'' @ name) k =
      Some (nm, k1)" "\<not> scopeHas sc i nm" "candidate ex name nm"
    using freshLoop_ends [OF scopeHas_finite [OF assms], of "temp_base ex name" "if ex then name else ''_'' @ name" k]
    unfolding candidate_def by auto
  let ?sc = "addID nm i (setLastTry nm k1 i sc)"
  have "assignTemp (name, tid, ex, i) (sc, seen) = Some (?sc, seen(tid \<mapsto> nm))"
    using None f(1) unfolding assignTemp_def temp_base_def k_def by (simp add: Let_def)
  moreover have "grown sc ?sc" using grown_trans [OF setLastTry_grown addID_grown] .
  ultimately show thesis
    using assms f None by (intro that [of ?sc "seen(tid \<mapsto> nm)"]) (auto simp: addID_wf setLastTry_wf addID_nth setLastTry_nth)
qed

lemma assignTemps_append: "assignTemps (a @ b) st = assignTemps a st \<bind> assignTemps b"
proof (induction a arbitrary: st)
  case (Cons x a)
  then show ?case by (cases "assignTemp x st") simp_all
qed simp

lemma assignTemps_spec:
  assumes "wf_scopes sc" "\<forall>(nm, tid, ex, i) \<in> set ts. i < length sc"
  obtains sc' seen' where "assignTemps ts (sc, seen) = Some (sc', seen')"
    "wf_scopes sc'" "grown sc sc'" "length sc' = length sc"
    "dom seen' = dom seen \<union> (fst \<circ> snd) ` set ts"
    "\<And>tid. tid \<in> dom seen \<Longrightarrow> seen' tid = seen tid"
  using assms
proof (induction ts arbitrary: sc seen thesis)
  case (Cons x ts)
  obtain name tid ex i where x: "x = (name, tid, ex, i)" by (cases x)
  from Cons.prems x obtain sc1 seen1 where s1: "assignTemp x (sc, seen) = Some (sc1, seen1)"
    "wf_scopes sc1" "grown sc sc1" "length sc1 = length sc" "seen tid \<noteq> None \<Longrightarrow> seen1 = seen"
    "seen tid = None \<Longrightarrow> \<exists>nm. seen1 = seen(tid \<mapsto> nm)"
    using assignTemp_spec [of sc i name tid ex seen] by (metis (no_types, lifting) case_prod_conv list.set_intros(1))
  have d: "dom seen1 = insert tid (dom seen)" "\<And>u. u \<in> dom seen \<Longrightarrow> seen1 u = seen u"
    using s1(5,6) by (cases "seen tid"; auto)+
  from Cons.prems(3) s1(4) have "\<forall>(nm, tid, ex, i) \<in> set ts. i < length sc1" by auto
  then obtain sc' seen' where s2: "assignTemps ts (sc1, seen1) = Some (sc', seen')"
    "wf_scopes sc'" "grown sc1 sc'" "length sc' = length sc1"
    "dom seen' = dom seen1 \<union> (fst \<circ> snd) ` set ts"
    "\<And>tid. tid \<in> dom seen1 \<Longrightarrow> seen' tid = seen1 tid"
    using Cons.IH [of sc1 seen1] s1(2) by metis
  show ?case
    by (rule Cons.prems(1) [of sc' seen'])
      (use s1(1,4) s2 d grown_trans [OF s1(3) s2(3)] x in auto)
qed auto

text \<open>The walk and the search of one run of \<open>solveTempIDs\<close>.\<close>

definition named :: "lnode list \<Rightarrow> (nat \<Rightarrow> string option) \<Rightarrow> solver \<Rightarrow> (nat \<Rightarrow> string option) \<Rightarrow> bool" where
  "named ast seen s seen' \<longleftrightarrow> solve_events (visitList ast) newSolver = Some s \<and>
     (\<exists>sc'. assignTemps (temps s) (scopes s, seen) = Some (sc', seen'))"

text \<open>The entry of a temporary that decides its name: the first one of the walk.\<close>

definition first_entry :: "(nat \<Rightarrow> string option) \<Rightarrow> solver \<Rightarrow> string \<Rightarrow> nat \<Rightarrow> bool \<Rightarrow> nat \<Rightarrow> bool" where
  "first_entry seen s name tid ex i \<longleftrightarrow> seen tid = None \<and>
     (\<exists>a b. temps s = a @ (name, tid, ex, i) # b \<and> tid \<notin> (fst \<circ> snd) ` set a)"

lemma first_entry_hd:
  "temps s = (name, tid, ex, i) # b \<Longrightarrow> seen tid = None \<Longrightarrow> first_entry seen s name tid ex i"
  unfolding first_entry_def by (intro conjI exI [where x = "[]"] exI [where x = b]) auto

lemma walk_store: "solve_events es newSolver = Some s \<Longrightarrow> store_ok s"
  using solve_events_store newSolver_ok by (auto simp: solver_ok_store)

lemma entry_name:
  assumes "wf_scopes sc" "\<forall>x \<in> set (a @ (name, tid, ex, i) # b). snd (snd (snd x)) < length sc"
    and "seen tid = None" "tid \<notin> (fst \<circ> snd) ` set a"
  obtains sc1 sc2 sc3 seen1 seen3 nm where
    "assignTemps (a @ (name, tid, ex, i) # b) (sc, seen) = Some (sc3, seen3)" "seen3 tid = Some nm"
    "grown sc sc1" "\<not> scopeHas sc1 i nm" "candidate ex name nm"
    "wf_scopes sc2" "length sc2 = length sc" "grown sc sc2" "nm \<in> scope_ids (sc2 ! i)"
    "dom seen1 = insert tid (dom seen \<union> (fst \<circ> snd) ` set a)"
    "assignTemps b (sc2, seen1) = Some (sc3, seen3)"
proof -
  have r: "\<forall>(nm, tid, ex, i) \<in> set a. i < length sc" "i < length sc" "\<forall>(nm, tid, ex, i) \<in> set b. i < length sc"
    using assms(2) by (simp_all add: case_prod_beta)
  obtain sc1 seen1 where s1: "assignTemps a (sc, seen) = Some (sc1, seen1)" "wf_scopes sc1"
    "grown sc sc1" "length sc1 = length sc" "dom seen1 = dom seen \<union> (fst \<circ> snd) ` set a"
    using assignTemps_spec [OF assms(1) r(1), of seen] by metis
  then have "seen1 tid = None" using assms(3,4) by (auto simp: domIff)
  then obtain sc2 nm where s2: "assignTemp (name, tid, ex, i) (sc1, seen1) = Some (sc2, seen1(tid \<mapsto> nm))"
    "wf_scopes sc2" "grown sc1 sc2" "length sc2 = length sc" "\<not> scopeHas sc1 i nm" "nm \<in> scope_ids (sc2 ! i)"
    "candidate ex name nm"
    using assignTemp_spec [OF s1(2), of i name tid ex seen1] r(2) s1(4) by metis
  obtain sc3 seen3 where s3: "assignTemps b (sc2, seen1(tid \<mapsto> nm)) = Some (sc3, seen3)"
    "\<And>u. u \<in> dom (seen1(tid \<mapsto> nm)) \<Longrightarrow> seen3 u = (seen1(tid \<mapsto> nm)) u"
    using assignTemps_spec [OF s2(2), of b "seen1(tid \<mapsto> nm)"] r(3) s2(4) by metis
  show thesis
    by (rule that [of sc3 seen3 nm sc1 sc2 "seen1(tid \<mapsto> nm)"])
      (use s1 s2 s3 grown_trans [OF s1(3) s2(3)] in \<open>auto simp: assignTemps_append\<close>)
qed

lemma store_temps: "store_ok s \<Longrightarrow> \<forall>x \<in> set (temps s). snd (snd (snd x)) < length (scopes s)"
  by (auto simp: store_ok_def)

lemma first_entry_name:
  assumes "named ast seen s seen'" "first_entry seen s name tid ex i"
  obtains nm where "seen' tid = Some nm" "\<not> scopeHas (scopes s) i nm" "candidate ex name nm"
proof -
  obtain a b where ab: "temps s = a @ (name, tid, ex, i) # b" "tid \<notin> (fst \<circ> snd) ` set a" "seen tid = None"
    using assms(2) by (auto simp: first_entry_def)
  have ok: "store_ok s" using assms(1) walk_store by (auto simp: named_def)
  then have r: "wf_scopes (scopes s)" "\<forall>x \<in> set (a @ (name, tid, ex, i) # b). snd (snd (snd x)) < length (scopes s)"
    using store_temps [OF ok] ab(1) by (auto simp: store_ok_def)
  show thesis
  proof (rule entry_name [of "scopes s" a name tid ex i b seen, OF r ab(3,2)])
    fix sc1 sc3 seen3 nm
    assume "assignTemps (a @ (name, tid, ex, i) # b) (scopes s, seen) = Some (sc3, seen3)" "seen3 tid = Some nm"
      "grown (scopes s) sc1" "\<not> scopeHas sc1 i nm" "candidate ex name nm"
    with assms(1) ab(1) that [of nm] scopeHas_grown [of "scopes s" sc1 i nm] r(2)
    show thesis by (auto simp: named_def)
  qed
qed

lemma named_total:
  obtains s seen' where "named ast seen s seen'"
proof -
  obtain s where s: "solve_events (visitList ast) newSolver = Some s" "solver_ok s"
    using visitList_goes [of ast] by (auto simp: goes_def)
  then have ok: "wf_scopes (scopes s)" "\<forall>(nm, tid, ex, i) \<in> set (temps s). i < length (scopes s)"
    by (auto simp: solver_ok_def)
  show thesis by (rule assignTemps_spec [OF ok, of seen]) (use that s(1) in \<open>auto simp: named_def\<close>)
qed

text \<open>A tree for the examples: \<open>local _x = nil\<close> and two temporaries named \<open>x\<close>.\<close>

definition demo_ast :: "lnode list" where
  "demo_ast =
     [VariableDeclaration (One (Identifier ''_x'')) (Some (One NilLiteral)),
      VariableDeclaration (One (TemporaryIdentifier ''x'' 1 False)) (Some (One NilLiteral)),
      VariableDeclaration (One (TemporaryIdentifier ''x'' 2 False)) (Some (One NilLiteral))]"

section \<open>Properties\<close>

text \<open>Naming never panics and always ends: the walk never pops or reads an empty scope stack,
  every search for a name ends, and every temporary of the tree has a name afterwards.\<close>

theorem solveTempIDs_total:
  "\<exists>st'. solveTempIDs ast st = Some st' \<and>
     {tid. \<exists>nm ex h d. Before (TemporaryIdentifier nm tid ex) h d \<in> set (visitList ast)} \<subseteq> dom (seenTempNodes st')"
proof -
  obtain s where s: "solve_events (visitList ast) newSolver = Some s" "solver_ok s"
    using visitList_goes [of ast] by (auto simp: goes_def)
  then have ok: "wf_scopes (scopes s)" "\<forall>(nm, tid, ex, i) \<in> set (temps s). i < length (scopes s)"
    by (auto simp: solver_ok_def)
  obtain sc seen where r: "assignTemps (temps s) (scopes s, seenTempNodes st) = Some (sc, seen)"
    "dom seen = dom (seenTempNodes st) \<union> (fst \<circ> snd) ` set (temps s)"
    using assignTemps_spec [OF ok] by metis
  have "tid \<in> (fst \<circ> snd) ` set (temps s)"
    if ev: "Before (TemporaryIdentifier nm tid ex) h d \<in> set (visitList ast)" for nm tid ex h d
  proof -
    obtain a b where "visitList ast = (a @ [Before (TemporaryIdentifier nm tid ex) h d]) @ b"
      using split_list [OF ev] by auto
    with s(1) obtain s0 s1 where e: "solve_events a newSolver = Some s0"
      "solve_step (Before (TemporaryIdentifier nm tid ex) h d) s0 = Some s1" "solve_events b s1 = Some s"
      by (auto simp: solve_events_append solve_events_single split: bind_splits simp del: solve_step.simps)
    have "prefix (temps s1) (temps s)"
      using solve_events_store [OF e(3)] solve_step_store [OF e(2)] walk_store [OF e(1)] by (auto simp: later_def)
    with temp_step [OF e(2)] show ?thesis by (auto simp: prefix_def image_iff intro!: exI)
  qed
  with r s(1) show ?thesis by (auto simp: solveTempIDs_def)
qed

text \<open>C7: a temporary never takes the name of an identifier that the walk visits and that occurs, used or declared, in the
  scope where the temporary is first met or in an enclosing one, or that is used, and not declared, in a scope nested
  in it. Here \<open>i\<close> is the scope of the temporary, the identifier \<open>nm\<close> occurs where the walk has reached the state \<open>s1\<close>,
  and \<open>d\<close> says whether it is declared there. Declarations in nested scopes are not avoided.\<close>

theorem temp_avoids_identifiers:
  assumes "named ast seen s seen'" "first_entry seen s name tid ex i"
    and "visitList ast = es1 @ Before (Identifier nm) h d # es2"
    and "solve_events (es1 @ [Before (Identifier nm) h d]) newSolver = Some s1"
    and "hd (scopeStack s1) \<in> set (chain (scopes s) i) \<or>
         \<not> d \<and> i \<in> set (chain (scopes s) (hd (scopeStack s1)))"
  shows "seen' tid \<noteq> Some nm"
proof -
  obtain s0 where e: "solve_events es1 newSolver = Some s0" "solve_step (Before (Identifier nm) h d) s0 = Some s1"
    using assms(4) by (auto simp: solve_events_append solve_events_single split: bind_splits simp del: solve_step.simps)
  let ?j = "hd (scopeStack s1)"
  have id: "scopeStack s1 \<noteq> []" "nm \<in> scope_ids (scopes s1 ! ?j)" "d \<or> (\<forall>j \<in> set (chain (scopes s1) ?j). nm \<in> scope_ids (scopes s1 ! j))"
    using identifier_step [OF e(2) walk_store [OF e(1)]] by auto
  have ok1: "store_ok s1" using solve_step_store [OF e(2)] walk_store [OF e(1)] by blast
  have "solve_events ((es1 @ [Before (Identifier nm) h d]) @ es2) newSolver = Some s"
    using assms(1,3) by (simp add: named_def)
  then have "solve_events es2 s1 = Some s"
    unfolding solve_events_append [of "es1 @ [_]" es2] assms(4) by simp
  then have g: "grown (scopes s1) (scopes s)" using solve_events_store ok1 by (auto simp: later_def)
  have j: "?j < length (scopes s1)" using id(1) ok1 by (auto simp: store_ok_def)
  obtain n' where n': "seen' tid = Some n'" "\<not> scopeHas (scopes s) i n'"
    by (rule first_entry_name [OF assms(1,2)])
  have "scopeHas (scopes s) i nm"
    using assms(5)
  proof
    assume "?j \<in> set (chain (scopes s) i)"
    then show ?thesis using id(2) g j by (auto simp: scopeHas_def grown_def)
  next
    assume "\<not> d \<and> i \<in> set (chain (scopes s) ?j)"
    then have "i \<in> set (chain (scopes s1) ?j)" "nm \<in> scope_ids (scopes s1 ! i)"
      using id(3) chain_grown [OF g j] by auto
    moreover from this have "i < length (scopes s1)" using chain_le j by fastforce
    ultimately have "nm \<in> scope_ids (scopes s ! i)" using g by (auto simp: grown_def)
    then show ?thesis by (auto simp: scopeHas_def intro: bexI [of _ i])
  qed
  with n' show ?thesis by auto
qed

theorem temp_avoids_identifiers_witness:
  "\<exists>s seen'. named demo_ast (\<lambda>_. None) s seen' \<and> first_entry (\<lambda>_. None) s ''x'' 1 False 0 \<and>
     seen' 1 \<noteq> Some ''_x''"
proof -
  obtain s seen' where n: "named demo_ast (\<lambda>_. None) s seen'" by (rule named_total)
  have "map_option temps (solve_events (visitList demo_ast) newSolver) =
      Some [(''x'', 1, False, 0), (''x'', 2, False, 0)]" by code_simp
  then have t: "temps s = [(''x'', 1, False, 0), (''x'', 2, False, 0)]" using n by (simp add: named_def)
  have f: "first_entry (\<lambda>_. None) s ''x'' 1 False 0" using t by (intro first_entry_hd) auto
  let ?e = "Before (Identifier ''_x'') False True"
  have v: "visitList demo_ast = take 1 (visitList demo_ast) @ ?e # drop 2 (visitList demo_ast)" by code_simp
  have "map_option (\<lambda>s. hd (scopeStack s)) (solve_events (take 1 (visitList demo_ast) @ [?e]) newSolver) = Some 0"
    by code_simp
  then obtain s1 where s1: "solve_events (take 1 (visitList demo_ast) @ [?e]) newSolver = Some s1" "hd (scopeStack s1) = 0"
    by auto
  have "seen' 1 \<noteq> Some ''_x''" by (rule temp_avoids_identifiers [OF n f v s1(1)]) (simp add: s1(2))
  with n f show ?thesis by blast
qed

text \<open>A name that is declared in a nested scope can be taken by a temporary that is used there: here the temporary and the
  local variable of the block are both \<open>_x\<close>, so that the block prints its own variable.\<close>

lemma nested_declaration_captures:
  "map_option (\<lambda>st. seenTempNodes st 1) (solveTempIDs
     [VariableDeclaration (One (TemporaryIdentifier ''x'' 1 False)) (Some (One (CallExpression (Identifier ''f'') []))),
      DoStatement [VariableDeclaration (One (Identifier ''_x'')) (Some (One (NumberLiteral ''1''))),
        CallStatement (CallExpression (Identifier ''print'') [TemporaryIdentifier ''x'' 1 False])]] NewRenderState) = Some (Some ''_x'')"
  by code_simp



lemma Itoa_part: "list_all isIdentifierPart (Itoa n)"
proof (induction n rule: less_induct)
  case (less n)
  have "isIdentifierPart (digit_char k)" if "k < 10" for k
  proof -
    have "of_char (digit_char k) = (48 + k :: nat)" using that by simp
    then show ?thesis using that by (simp add: isIdentifierPart_def less_eq_char_def del: digit_char.simps)
  qed
  then show ?case using less [of "n div 10"] by (subst Itoa_step) (auto simp del: digit_char.simps)
qed

lemma keyword_chars: "k \<in> set luauReservedKeywords \<Longrightarrow> CHR ''_'' \<notin> set k"
  by (auto simp: luauReservedKeywords_def)

lemma candidate_valid:
  assumes "if exact then IsValidIdentifier name else list_all isIdentifierPart name" "candidate exact name nm"
  shows "IsValidIdentifier nm"
proof (cases "exact \<and> nm = name")
  case False
  have p: "isIdentifierStart (CHR ''_'')" "isIdentifierPart (CHR ''_'')"
    by (simp_all add: isIdentifierPart_def isIdentifierStart_def)
  have u: "CHR ''_'' \<in> set nm" using assms(2) False by (auto simp: candidate_def temp_base_def split: if_splits)
  then have "nm \<notin> set luauReservedKeywords" using keyword_chars by blast
  moreover have "isIdentifierStart (hd nm)" "list_all isIdentifierPart nm" "nm \<noteq> []"
    using assms p Itoa_part False
    by (auto simp: candidate_def temp_base_def IsValidIdentifier_def isIdentifierPart_def hd_append neq_Nil_conv split: if_splits)
  ultimately show ?thesis by (cases nm) (auto simp: IsValidIdentifier_def)
qed (use assms in auto)

text \<open>Rendering a named temporary does not panic: the name chosen for it is a valid identifier,
  when its own name is one (an exact temporary) or has only identifier characters.\<close>

theorem temp_name_renders:
  assumes "named ast (seenTempNodes st) s (seenTempNodes st')" "first_entry (seenTempNodes st) s name tid ex i"
    and "if ex then IsValidIdentifier name else list_all isIdentifierPart name"
  shows "\<exists>nm. renderTemporaryIdentifier tid st' = Some (nm, st') \<and> IsValidIdentifier nm"
proof -
  obtain nm where "seenTempNodes st' tid = Some nm" "candidate ex name nm"
    by (rule first_entry_name [OF assms(1,2)])
  with candidate_valid [OF assms(3)] show ?thesis
    by (auto simp: renderTemporaryIdentifier_def getTempName_def)
qed

theorem temp_name_renders_witness:
  "\<exists>st' nm. renderTemporaryIdentifier 1 st' = Some (nm, st') \<and> IsValidIdentifier nm"
proof -
  obtain s seen' where n: "named demo_ast (seenTempNodes NewRenderState) s seen'" by (rule named_total)
  let ?st = "NewRenderState\<lparr>seenTempNodes := seen'\<rparr>"
  have "map_option temps (solve_events (visitList demo_ast) newSolver) =
      Some [(''x'', 1, False, 0), (''x'', 2, False, 0)]" by code_simp
  then have t: "temps s = [(''x'', 1, False, 0), (''x'', 2, False, 0)]" using n by (simp add: named_def)
  have f: "first_entry (seenTempNodes NewRenderState) s ''x'' 1 False 0"
    using t by (intro first_entry_hd) (auto simp: NewRenderState_def)
  have "list_all isIdentifierPart ''x''" by code_simp
  then have "\<exists>nm. renderTemporaryIdentifier 1 ?st = Some (nm, ?st) \<and> IsValidIdentifier nm"
    using temp_name_renders [of demo_ast NewRenderState s ?st "''x''" 1 False 0] n f by simp
  then show ?thesis by blast
qed

end
