(* ===== verification/Render_Text.thy ===== *)
theory Render_Text
  imports Luau_Render Cst_Dense
begin

text \<open>
  What the scanner reads back from rendered text: string literals and comments. A rendered
  literal is one string token whose decoded value is the literal's, also when it needs long
  brackets; a rendered comment cannot run into the code that follows it.
\<close>

section \<open>Scanning from the middle of a text\<close>

text \<open>\<open>at s pre r\<close>: the scanner has read \<open>pre\<close> and has \<open>r\<close> before it.\<close>

definition at :: "scanner \<Rightarrow> string \<Rightarrow> string \<Rightarrow> bool" where
  "at s pre r \<longleftrightarrow> src s = pre @ r \<and> offset s = length pre"

definition frame :: "scanner \<Rightarrow> scanner \<Rightarrow> bool" where
  "frame s t \<longleftrightarrow> toks t = toks s \<and> diags t = diags s \<and> interp t = interp s"

lemma frame_refl [simp]: "frame s s"
  by (simp add: frame_def)

lemma frame_trans: "frame a b \<Longrightarrow> frame b c \<Longrightarrow> frame a c"
  by (simp add: frame_def)

lemma frame_advance: "frame s (advance s)"
  by (simp add: frame_def advance_def)

lemma at_atEnd: "at s pre r \<Longrightarrow> atEnd s \<longleftrightarrow> r = []"
  by (auto simp: at_def atEnd_def)

lemma at_peek: "at s pre (c # r) \<Longrightarrow> peek s = c"
  by (simp add: at_def peek_def atEnd_def)

lemma at_advance: "at s pre (c # r) \<Longrightarrow> at (advance s) (pre @ [c]) r"
  by (simp add: at_def offset_advance atEnd_def)

lemma at_peekAt: "at s pre r \<Longrightarrow> n < length r \<Longrightarrow> peekAt s n = r ! n"
  by (auto simp: at_def peekAt_def nth_append)

lemma at_advanceN: "at s pre (u @ r) \<Longrightarrow> at (advanceN (length u) s) (pre @ u) r \<and> frame s (advanceN (length u) s)"
proof (induction u arbitrary: s pre)
  case (Cons c u)
  then show ?case
    using Cons.IH [of "advance s" "pre @ [c]"] at_advance [of s pre c "u @ r"]
    by (auto intro: frame_trans [OF frame_advance])
qed simp

lemma at_consumeWhile:
  "at s pre (u @ r) \<Longrightarrow> list_all p u \<Longrightarrow> r = [] \<or> \<not> p (hd r) \<Longrightarrow>
   at (consumeWhile p s) (pre @ u) r \<and> frame s (consumeWhile p s)"
proof (induction u arbitrary: s pre)
  case Nil
  have "consumeWhile p s = s"
    using Nil at_atEnd [of s pre r] at_peek [of s pre "hd r" "tl r"]
    by (subst consumeWhile.simps) (cases r; auto)
  with Nil show ?case by simp
next
  case (Cons c u)
  have a: "at (advance s) (pre @ [c]) (u @ r)" using at_advance Cons.prems(1) by simp
  have "consumeWhile p s = consumeWhile p (advance s)"
    using Cons.prems at_atEnd [OF Cons.prems(1)] at_peek [of s pre c "u @ r"]
    by (subst consumeWhile.simps) simp
  with Cons.IH [OF a] Cons.prems show ?case by (auto intro: frame_trans [OF frame_advance])
qed

lemma at_shortString:
  "at s pre (v @ q # r) \<Longrightarrow> list_all (\<lambda>c. c \<noteq> BSLASH \<and> c \<noteq> q \<and> c \<noteq> LF) v \<Longrightarrow> q \<noteq> BSLASH \<Longrightarrow>
   \<exists>t. shortStringLoop q p s = emit KString p t \<and> at t (pre @ v @ [q]) r \<and> frame s t"
proof (induction v arbitrary: s pre)
  case Nil
  then have "shortStringLoop q p s = emit KString p (advance s)"
    using at_atEnd [OF Nil(1)] at_peek [of s pre q r] by (subst shortStringLoop.simps) simp
  then show ?case using at_advance [of s pre q r] Nil frame_advance by auto
next
  case (Cons c v)
  have a: "at (advance s) (pre @ [c]) (v @ q # r)" using at_advance Cons.prems(1) by simp
  have "shortStringLoop q p s = shortStringLoop q p (advance s)"
    using Cons.prems at_atEnd [OF Cons.prems(1)] at_peek [of s pre c "v @ q # r"]
    by (subst shortStringLoop.simps) simp
  with Cons.IH [OF a] Cons.prems show ?case by (auto intro: frame_trans [OF frame_advance])
qed

text \<open>A closing bracket is found at its first occurrence.\<close>

lemma at_longBody:
  "at s pre (v @ cl @ r) \<Longrightarrow> cl \<noteq> [] \<Longrightarrow> hd cl = CHR '']'' \<Longrightarrow>
   (\<And>k. k < length v \<Longrightarrow> take (length cl) (drop k (v @ cl @ r)) \<noteq> cl) \<Longrightarrow>
   \<exists>t. longBodyLoop cl s = (t, True) \<and> at t (pre @ v @ cl) r \<and> frame s t"
proof (induction v arbitrary: s pre)
  case Nil
  then obtain w where w: "cl = CHR '']'' # w" by (cases cl) auto
  have "longBodyLoop cl s = (advanceN (length cl) s, True)"
    using at_atEnd [OF Nil(1)] at_peek [of s pre "CHR '']''" "w @ r"] Nil(1)
    by (subst longBodyLoop.simps) (auto simp: at_def slice_def w)
  then show ?case using at_advanceN [of s pre cl r] Nil(1) by auto
next
  case (Cons c v)
  have a: "at (advance s) (pre @ [c]) (v @ cl @ r)" using at_advance Cons.prems(1) by simp
  have no: "take (length cl) (drop k (v @ cl @ r)) \<noteq> cl" if "k < length v" for k
    using Cons.prems(4) [of "Suc k"] that by simp
  have "slice (src s) (offset s) (offset s + length cl) = take (length cl) ((c # v) @ cl @ r)"
    using Cons.prems(1) by (simp add: at_def slice_def)
  then have "longBodyLoop cl s = longBodyLoop cl (advance s)"
    using Cons.prems(4) [of 0] at_atEnd [OF Cons.prems(1)] by (subst longBodyLoop.simps) auto
  with Cons.IH [OF a Cons.prems(2,3) no] show ?case by (auto intro: frame_trans [OF frame_advance])
qed

section \<open>Safe bracket levels\<close>

lemma safeLevel_safe: "\<not> unsafeLevel t (safeLevel t n)"
  by (induction t n rule: safeLevel.induct) (subst safeLevel.simps, simp)

lemma closing_at:
  assumes "take (n + 2) (drop k (v @ longClosing n)) = longClosing n" "k < length v"
  shows "unsafeLevel v n"
proof -
  let ?cl = "longClosing n" and ?d = "drop k v"
  have cl: "closingBracket n = ?cl" "length ?cl = n + 2" by (simp_all add: closingBracket_def longClosing_def)
  have t: "take (n + 2) (?d @ ?cl) = ?cl" "?d \<noteq> []" using assms by auto
  show ?thesis
  proof (cases "n + 2 \<le> length ?d")
    case True
    then have "take (n + 2) ?d = ?cl" using t(1) by simp
    then have "?d = ?cl @ drop (n + 2) ?d" by (metis append_take_drop_id)
    then have "v = take k v @ ?cl @ drop (n + 2) ?d" by (metis append_take_drop_id)
    then have "Contains v ?cl" unfolding Contains_iff by metis
    then show ?thesis by (simp add: unsafeLevel_def cl)
  next
    case False
    then have s: "?cl = ?d @ take (n + 2 - length ?d) ?cl" using t(1) by simp
    then have d: "?d = take (length ?d) ?cl" by (metis append_eq_conv_conj)
    have "?cl ! length ?d = take (n + 2 - length ?d) ?cl ! 0" by (subst s) (simp add: nth_append)
    also have "\<dots> = CHR '']''" using False by (simp add: longClosing_def)
    finally have "length ?d = n + 1" using t(2) False
      by (cases "length ?d") (auto simp: longClosing_def nth_append nth_Cons' split: if_splits)
    then have "?d = '']'' @ replicate n (CHR ''='')" by (subst d) (simp add: longClosing_def)
    then have "HasSuffix v ('']'' @ replicate n (CHR ''=''))"
      unfolding HasSuffix_iff by (metis append_take_drop_id)
    then show ?thesis by (simp add: unsafeLevel_def)
  qed
qed

section \<open>Token by token\<close>

text \<open>\<open>reads u k r\<close>: in front of \<open>u @ r\<close>, one round of the scanner takes \<open>u\<close> as a token of
  kind \<open>k\<close> without a diagnostic.\<close>

definition reads :: "string \<Rightarrow> kind \<Rightarrow> string \<Rightarrow> bool" where
  "reads u k r \<longleftrightarrow> u \<noteq> [] \<and> (\<forall>s pre. at s pre (u @ r) \<longrightarrow>
     (\<exists>t. scanOne s = emit k (pos s) t \<and> at t (pre @ u) r \<and> frame s t))"

abbreviation kinds_texts :: "token list \<Rightarrow> (kind \<times> string) list" where
  "kinds_texts \<equiv> map (\<lambda>k. (Kind k, Text k))"

text \<open>The pieces of a text, each read in front of the rest.\<close>

fun pieces :: "(kind \<times> string) list \<Rightarrow> bool" where
  "pieces [] = True"
| "pieces ((k, u) # ps) = (reads u k (concat (map snd ps)) \<and> pieces ps)"

lemma run_pieces:
  "pieces ps \<Longrightarrow> at s pre (concat (map snd ps)) \<Longrightarrow>
   kinds_texts (toks (run s)) = kinds_texts (toks s) @ ps @ [(KEOF, [])] \<and> diags (run s) = diags s"
proof (induction ps arbitrary: s pre)
  case Nil
  then have "atEnd s" using at_atEnd by simp
  then show ?case by (subst (1 2) run.simps) simp
next
  case (Cons p ps)
  obtain k u where p: "p = (k, u)" by (cases p)
  have a: "at s pre (u @ concat (map snd ps))" using Cons.prems(2) p by simp
  obtain t where t: "scanOne s = emit k (pos s) t" "at t (pre @ u) (concat (map snd ps))" "frame s t" "u \<noteq> []"
    using Cons.prems(1) a p by (auto simp: reads_def)
  have "\<not> atEnd s" using at_atEnd [OF a] t(4) by simp
  then have r: "run s = run (scanOne s)" by (subst run.simps) simp
  have a1: "at (scanOne s) (pre @ u) (concat (map snd ps))" using t by (simp add: at_def)
  have "slice (src t) (offset s) (offset t) = u" using a t(2) by (simp add: at_def slice_def)
  then have "kinds_texts (toks (scanOne s)) = kinds_texts (toks s) @ [(k, u)]" "diags (scanOne s) = diags s"
    using t(1,3) by (simp_all add: emit_def frame_def)
  with Cons.IH [OF _ a1] Cons.prems(1) r p show ?case by simp
qed

lemma Tokenize_pieces:
  assumes "pieces ps"
  shows "kinds_texts (fst (Tokenize (concat (map snd ps)))) = ps @ [(KEOF, [])] \<and>
    snd (Tokenize (concat (map snd ps))) = []"
  using run_pieces [OF assms, of "newScanner (concat (map snd ps))" "[]"]
  by (simp add: Tokenize_def Let_def at_def newScanner_def)

lemma reads_space:
  assumes "u \<noteq> []" "list_all isSpace u" "r = [] \<or> \<not> isSpace (hd r)"
  shows "reads u KWhitespace r"
  unfolding reads_def
proof (intro conjI allI impI assms(1))
  fix s pre assume a: "at s pre (u @ r)"
  obtain c v where u: "u = c # v" using assms(1) by (cases u) auto
  then have "scanOne s = emit KWhitespace (pos s) (consumeWhile isSpace s)"
    using at_peek [of s pre c "v @ r"] a assms(2) by (simp add: scanOne_def Let_def scanWhitespace_def)
  with at_consumeWhile [OF a assms(2,3)]
  show "\<exists>t. scanOne s = emit KWhitespace (pos s) t \<and> at t (pre @ u) r \<and> frame s t" by blast
qed

lemma reads_short:
  assumes "q = DQUOTE \<or> q = SQUOTE" "list_all (\<lambda>c. c \<noteq> BSLASH \<and> c \<noteq> q \<and> c \<noteq> LF) v"
  shows "reads (q # v @ [q]) KString r"
  unfolding reads_def
proof (intro conjI allI impI)
  fix s pre assume a: "at s pre ((q # v @ [q]) @ r)"
  then have p: "peek s = q" using at_peek [of s pre q "v @ q # r"] by simp
  have a1: "at (advance s) (pre @ [q]) (v @ q # r)" using a at_advance by simp
  have "q \<noteq> BSLASH" using assms(1) by auto
  from at_shortString [OF a1 assms(2) this, of "pos s"] frame_advance [of s]
  obtain t where t: "shortStringLoop q (pos s) (advance s) = emit KString (pos s) t"
    "at t ((pre @ [q]) @ v @ [q]) r" "frame s t" by (blast intro: frame_trans)
  have "scanOne s = emit KString (pos s) t"
    using assms(1) p t(1)
    by (elim disjE) (simp_all add: scanOne_def Let_def scanShortString_def isSpace_def isNameStart_def isDigit_def)
  with t show "\<exists>t. scanOne s = emit KString (pos s) t \<and> at t (pre @ q # v @ [q]) r \<and> frame s t"
    by (intro exI [of _ t]) simp
qed simp

lemma longClosing_length: "length (longClosing n) = n + 2"
  by (simp add: longClosing_def)

definition longOpening :: "nat \<Rightarrow> string" where
  "longOpening n = CHR ''['' # replicate n (CHR ''='') @ [CHR ''['']"

lemma at_level:
  assumes "at s pre (longOpening n @ r)"
  shows "longBracketLevel s = Some n"
proof -
  have "drop (offset s + 1) (src s) = replicate n (CHR ''='') @ CHR ''['' # r"
    using assms by (simp add: at_def longOpening_def)
  moreover have "peek s = CHR ''[''" using assms at_peek by (simp add: longOpening_def)
  ultimately show ?thesis
    using assms by (simp add: longBracketLevel_def countEq_replicate Let_def at_def longOpening_def nth_append)
qed

lemma at_consumeLongBody:
  assumes "at s pre (longOpening n @ v @ longClosing n @ r)"
    and "\<And>k. k < length v \<Longrightarrow> take (n + 2) (drop k (v @ longClosing n @ r)) \<noteq> longClosing n"
  shows "\<exists>t. consumeLongBody n s = (t, True) \<and> at t (pre @ longOpening n @ v @ longClosing n) r \<and> frame s t"
proof -
  have len: "length (longClosing n) = n + 2" by (simp add: longClosing_def)
  let ?s1 = "advance s" let ?s2 = "advanceN n ?s1"
  have a1: "at ?s1 (pre @ ''['') (replicate n (CHR ''='') @ CHR ''['' # v @ longClosing n @ r)"
    using assms(1) at_advance by (simp add: longOpening_def)
  have a2: "at ?s2 ((pre @ ''['') @ replicate n (CHR ''='')) (CHR ''['' # v @ longClosing n @ r)" "frame ?s1 ?s2"
    using at_advanceN [OF a1] by simp_all
  have f: "frame s (advance ?s2)" using frame_trans [OF frame_trans [OF frame_advance a2(2)] frame_advance] .
  from at_longBody [OF at_advance [OF a2(1)]] assms(2) len
  obtain t where "longBodyLoop (longClosing n) (advance ?s2) = (t, True)" "frame (advance ?s2) t"
    "at t ((((pre @ ''['') @ replicate n (CHR ''='')) @ ''['') @ v @ longClosing n) r"
    by (auto simp: longClosing_def)
  then show ?thesis using frame_trans [OF f] by (auto simp: consumeLongBody_def longOpening_def)
qed

lemma safe_body:
  assumes "\<not> unsafeLevel v n" "k < length v"
  shows "take (n + 2) (drop k (v @ longClosing n @ r)) \<noteq> longClosing n"
proof -
  have "take (n + 2) (drop k (v @ longClosing n @ r)) = take (n + 2) (drop k (v @ longClosing n))"
    using assms(2) longClosing_length [of n] by simp
  then show ?thesis using closing_at [of n k v] assms by auto
qed

lemma reads_long:
  assumes "\<not> unsafeLevel v n"
  shows "reads (longOpening n @ v @ longClosing n) KString r"
  unfolding reads_def
proof (intro conjI allI impI)
  fix s pre assume a: "at s pre ((longOpening n @ v @ longClosing n) @ r)"
  then have a': "at s pre (longOpening n @ v @ longClosing n @ r)" by simp
  have p: "peek s = CHR ''[''" using at_peek a by (simp add: longOpening_def)
  obtain t where t: "consumeLongBody n s = (t, True)" "at t (pre @ longOpening n @ v @ longClosing n) r" "frame s t"
    using at_consumeLongBody [OF a' safe_body [OF assms]] by auto
  have "scanOne s = emit KString (pos s) t"
    using p t(1) at_level [OF a']
    by (simp add: scanOne_def Let_def scanLongString_def isSpace_def isNameStart_def isDigit_def)
  with t show "\<exists>t. scanOne s = emit KString (pos s) t \<and>
      at t (pre @ longOpening n @ v @ longClosing n) r \<and> frame s t" by auto
qed (simp add: longOpening_def)

section \<open>Comments\<close>

text \<open>A text that would start a long comment right after two dashes.\<close>

definition opensLong :: "string \<Rightarrow> bool" where
  "opensLong c \<longleftrightarrow> (case c of [] \<Rightarrow> False | b # d \<Rightarrow> b = CHR ''['' \<and> take 1 (drop (countEq d) d) = ''['')"

lemma countEq_append: "r = [] \<or> hd r \<noteq> CHR ''='' \<Longrightarrow> countEq (d @ r) = countEq d"
proof (induction d)
  case Nil
  then show ?case by (cases r) (auto simp: countEq_def)
qed (simp add: countEq_def)

lemma reads_line_comment:
  assumes "LF \<notin> set c" "r = [] \<or> hd r = LF" "\<not> opensLong c"
  shows "reads (''--'' @ c) KComment r"
  unfolding reads_def
proof (intro conjI allI impI)
  fix s pre assume a: "at s pre ((''--'' @ c) @ r)"
  let ?s2 = "advance (advance s)"
  have a2: "at ?s2 (pre @ ''--'') (c @ r)" using a at_advance [OF at_advance, of s pre] by simp
  have f2: "frame s ?s2" using frame_trans [OF frame_advance frame_advance] .
  have "(if \<not> atEnd ?s2 \<and> peek ?s2 = CHR ''['' then longBracketLevel ?s2 else None) = None"
  proof (cases c)
    case Nil
    then show ?thesis
      using a2 at_atEnd [OF a2] assms(2) at_peek [of ?s2 "pre @ ''--''" "hd r" "tl r"] by (cases r) auto
  next
    case (Cons b d)
    have p: "peek ?s2 = b" using a2 Cons at_peek by simp
    have l: "countEq (drop (offset ?s2 + 1) (src ?s2)) = countEq d"
      using a2 Cons assms(2) countEq_append [of r d] by (auto simp: at_def)
    have "longBracketLevel ?s2 = None" if "b = CHR ''[''"
    proof -
      have n: "take 1 (drop (countEq d) d) \<noteq> ''[''" using assms(3) Cons that by (simp add: opensLong_def)
      have "(d @ r) ! countEq d \<noteq> CHR ''[''" if "countEq d < length (d @ r)"
        using n that assms(2) by (cases "countEq d < length d")
          (auto simp: nth_append take_Suc_conv_app_nth hd_drop_conv_nth countEq_def hd_conv_nth
            length_takeWhile_le le_antisym not_less dest: le_antisym [OF length_takeWhile_le])
      then show ?thesis
        using l a2 Cons by (auto simp: longBracketLevel_def Let_def at_def nth_append)
    qed
    with p show ?thesis by simp
  qed
  then have "scanOne s = emit KComment (pos s) (consumeWhile (\<lambda>c. c \<noteq> LF) ?s2)"
    using at_peek [of s pre "CHR ''-''"] at_peekAt [OF a, of 1] a
    by (simp add: scanOne_def scanComment_def Let_def isSpace_def)
  moreover have "at (consumeWhile (\<lambda>c. c \<noteq> LF) ?s2) ((pre @ ''--'') @ c) r \<and>
      frame ?s2 (consumeWhile (\<lambda>c. c \<noteq> LF) ?s2)"
    using assms(1,2) by (intro at_consumeWhile [OF a2]) (auto simp: list_all_iff)
  ultimately show "\<exists>t. scanOne s = emit KComment (pos s) t \<and> at t (pre @ ''--'' @ c) r \<and> frame s t"
    using frame_trans [OF f2] by auto
qed simp

lemma reads_long_comment:
  assumes "\<not> unsafeLevel v n"
  shows "reads (''--'' @ longOpening n @ v @ longClosing n) KComment r"
  unfolding reads_def
proof (intro conjI allI impI)
  fix s pre assume a: "at s pre ((''--'' @ longOpening n @ v @ longClosing n) @ r)"
  let ?s2 = "advance (advance s)"
  have a2: "at ?s2 (pre @ ''--'') (longOpening n @ v @ longClosing n @ r)"
    using a at_advance [OF at_advance, of s pre] by simp
  have f2: "frame s ?s2" using frame_trans [OF frame_advance frame_advance] .
  obtain t where t: "consumeLongBody n ?s2 = (t, True)" "frame ?s2 t"
    "at t ((pre @ ''--'') @ longOpening n @ v @ longClosing n) r"
    using at_consumeLongBody [OF a2 safe_body [OF assms]] by auto
  have "\<not> atEnd ?s2" "peek ?s2 = CHR ''[''"
    using at_atEnd [OF a2] at_peek a2 by (simp_all add: longOpening_def)
  then have "scanOne s = emit KComment (pos s) t"
    using at_peek [of s pre "CHR ''-''"] at_peekAt [OF a, of 1] a at_level [OF a2] t(1)
    by (simp add: scanOne_def scanComment_def Let_def isSpace_def)
  with t frame_trans [OF f2] show "\<exists>t. scanOne s = emit KComment (pos s) t \<and>
      at t (pre @ ''--'' @ longOpening n @ v @ longClosing n) r \<and> frame s t" by auto
qed simp

lemma Contains_sep:
  assumes "Contains (x @ c # y) p" "c \<notin> set p" "p \<noteq> []"
  shows "Contains x p \<or> Contains y p"
proof -
  obtain a b where e: "x @ c # y = a @ p @ b" using assms(1) by (auto simp: Contains_iff)
  then consider u where "x = a @ u" "u @ c # y = p @ b" | u where "a = x @ u" "c # y = u @ p @ b"
    by (auto simp: append_eq_append_conv2)
  then show ?thesis
  proof cases
    case 1
    then consider w where "u = p @ w" | w where "p = u @ w" "c # y = w @ b" "w \<noteq> []"
      unfolding append_eq_append_conv2 by (metis append_Nil2)
    then show ?thesis
    proof cases
      case 2
      then have "c \<in> set p" by (cases w) auto
      with assms(2) show ?thesis by simp
    qed (use 1 in \<open>auto simp: Contains_iff\<close>)
  next
    case 2
    then show ?thesis using assms(2,3) by (cases u) (auto simp: Contains_iff Cons_eq_append_conv)
  qed
qed

lemma Contains_skip:
  "Contains (x @ y) p \<Longrightarrow> set x \<inter> set p = {} \<Longrightarrow> p \<noteq> [] \<Longrightarrow> Contains y p"
proof (induction x)
  case (Cons c x)
  then have "\<not> HasPrefix (c # x @ y) p" by (cases p) (auto simp: HasPrefix_def)
  with Cons show ?case by simp
qed simp

lemma Split_part: "l \<in> set (Split t c) \<Longrightarrow> \<exists>a b. t = a @ l @ b"
proof (induction t arbitrary: l)
  case (Cons x t)
  obtain q qs where q: "Split t c = q # qs" using Split_not_Nil by (metis list.exhaust)
  have "\<exists>b. t = q @ b" using Join_Split [of t c] q by (cases qs) auto
  with Cons q show ?case
    by (auto split: if_splits) (metis append_Cons append_Nil)+
qed simp

text \<open>The indented lines of a block comment contain the closing bracket only if the comment does.\<close>

lemma lines_contain:
  assumes "Contains (concat (map (\<lambda>l. ind @ l @ [LF]) ls) @ post) p" "p \<noteq> []" "LF \<notin> set p"
    "set ind \<inter> set p = {}" "set post \<inter> set p = {}"
  shows "\<exists>l \<in> set ls. Contains l p"
  using assms(1)
proof (induction ls)
  case Nil
  then show ?case using Contains_skip [of post "[]" p] assms(2,5) by simp
next
  case (Cons l ls)
  then have "Contains (ind @ l @ LF # concat (map (\<lambda>l. ind @ l @ [LF]) ls) @ post) p" by simp
  then have "Contains (l @ LF # concat (map (\<lambda>l. ind @ l @ [LF]) ls) @ post) p"
    using Contains_skip assms(2,4) by blast
  then show ?case using Contains_sep [OF _ assms(3,2)] Cons.IH by auto
qed

definition comment_body :: "string \<Rightarrow> string list \<Rightarrow> string" where
  "comment_body ind ls = LF # concat (map (\<lambda>l. (ind @ [TAB]) @ l @ [LF]) ls) @ ind"

lemma comment_body_safe:
  assumes "list_all isSpace ind"
  shows "\<not> unsafeLevel (comment_body ind (Split t LF)) (safeLevel t 0)"
proof -
  define n where "n = safeLevel t 0"
  have "set (closingBracket n) \<subseteq> {CHR '']'', CHR ''=''}" by (auto simp: closingBracket_def)
  moreover have "\<not> isSpace (CHR '']'')" "\<not> isSpace (CHR ''='')" "isSpace TAB" "isSpace LF"
    by (simp_all add: isSpace_def)
  ultimately have sp: "set ind \<inter> set (closingBracket n) = {}" "TAB \<notin> set (closingBracket n)"
    "LF \<notin> set (closingBracket n)" using assms by (fastforce simp: list_all_iff)+
  have nc: "\<not> Contains t (closingBracket n)" using safeLevel_safe [of t 0] by (simp add: unsafeLevel_def n_def)
  have "\<not> Contains (comment_body ind (Split t LF)) (closingBracket n)"
  proof
    assume "Contains (comment_body ind (Split t LF)) (closingBracket n)"
    then have "Contains ([LF] @ concat (map (\<lambda>l. (ind @ [TAB]) @ l @ [LF]) (Split t LF)) @ ind) (closingBracket n)"
      by (simp add: comment_body_def)
    then have "Contains (concat (map (\<lambda>l. (ind @ [TAB]) @ l @ [LF]) (Split t LF)) @ ind) (closingBracket n)"
      using Contains_skip [of "[LF]"] sp(3) by (fastforce simp: closingBracket_def)
    then obtain l where "l \<in> set (Split t LF)" "Contains l (closingBracket n)"
      using lines_contain [of "ind @ [TAB]" "Split t LF" ind "closingBracket n"] sp by (auto simp: closingBracket_def)
    then have "Contains t (closingBracket n)"
      using Split_part [of l t LF] by (auto simp: Contains_iff) (metis append.assoc)
    with nc show False by simp
  qed
  moreover have "isSpace (last (comment_body ind (Split t LF)))"
    using assms by (cases ind rule: rev_cases; cases "Split t LF" rule: rev_cases)
      (auto simp: comment_body_def isSpace_def list_all_iff)
  then have "\<not> HasSuffix (comment_body ind (Split t LF)) ('']'' @ replicate n (CHR ''=''))"
    by (cases n) (auto simp: HasSuffix_iff isSpace_def replicate_append_same [symmetric])
  ultimately show ?thesis by (simp add: unsafeLevel_def n_def)
qed

section \<open>Properties\<close>

text \<open>What a string token without escapes means in Luau: the text between the quotes; or the text between the long brackets,
  where a newline right after the opening bracket is dropped and every line end becomes a line feed. \<open>None\<close> is a text
  that is no such token.\<close>

definition luauLongText :: "string \<Rightarrow> string" where
  "luauLongText b =
     replaceCRLF (case b of c # r \<Rightarrow> if c = LF then r else if c = CR \<and> r \<noteq> [] \<and> hd r = LF then tl r else b | [] \<Rightarrow> [])"

definition luauStringValue :: "string \<Rightarrow> string option" where
  "luauStringValue u =
     (if u = [] then None
      else if hd u = DQUOTE \<or> hd u = SQUOTE then
        (let b = butlast (tl u) in if u = hd u # b @ [hd u] \<and> set b \<inter> {hd u, BSLASH, LF, CR} = {} then Some b else None)
      else (let n = length (takeWhile (\<lambda>c. c = CHR ''='') (tl u)); b = drop (n + 2) (take (length u - (n + 2)) u) in
        if u = longOpening n @ b @ longClosing n \<and> \<not> unsafeLevel b n then Some (luauLongText b) else None))"

definition bracketed :: "string \<Rightarrow> bool" where
  "bracketed v \<longleftrightarrow> LF \<in> set v \<or> DQUOTE \<in> set v \<and> SQUOTE \<in> set v"

lemma replaceCRLF_id: "CR \<notin> set b \<Longrightarrow> replaceCRLF b = b"
  by (induction b rule: replaceCRLF.induct) auto

lemma luauLongText_id: "CR \<notin> set b \<Longrightarrow> b = [] \<or> hd b \<noteq> LF \<Longrightarrow> luauLongText b = b"
  by (cases b) (auto simp: luauLongText_def replaceCRLF_id)

lemma luauStringValue_quoted:
  "q = DQUOTE \<or> q = SQUOTE \<Longrightarrow> set v \<inter> {q, BSLASH, LF, CR} = {} \<Longrightarrow> luauStringValue (q # v @ [q]) = Some v"
  by (simp add: luauStringValue_def Let_def)

lemma luauStringValue_long:
  assumes "\<not> unsafeLevel b n"
  shows "luauStringValue (longOpening n @ b @ longClosing n) = Some (luauLongText b)"
proof -
  let ?u = "longOpening n @ b @ longClosing n"
  have "takeWhile (\<lambda>c. c = CHR ''='') (tl ?u) = replicate n (CHR ''='')" by (simp add: longOpening_def takeWhile_append)
  then have n: "length (takeWhile (\<lambda>c. c = CHR ''='') (tl ?u)) = n" by simp
  have l: "length (longOpening n) = n + 2" "length (longClosing n) = n + 2" by (simp_all add: longOpening_def longClosing_def)
  then have "drop (n + 2) (take (length ?u - (n + 2)) ?u) = b" by simp
  moreover have "?u \<noteq> []" "hd ?u \<noteq> DQUOTE" "hd ?u \<noteq> SQUOTE" by (simp_all add: longOpening_def)
  ultimately show ?thesis unfolding luauStringValue_def Let_def n using assms by simp
qed

text \<open>C12: a rendered string literal is read back: the scanner makes of it one string token without a diagnostic, between a
  space on each side where the literal is bracketed and stands in an index or a set, and that token means the
  literal's text, in Luau and to \<open>StringValue\<close>. The text must have no carriage return; a text that stays between quotes must have
  no backslash, since it is written as it is; and one that needs long brackets, because it has a line feed or
  both kinds of quotes, must not begin with a line feed, which Luau drops.\<close>

theorem renderStringLiteral_reads_back:
  assumes "CR \<notin> set v" "if bracketed v then v = [] \<or> hd v \<noteq> LF else BSLASH \<notin> set v"
  shows "\<exists>u. let sp = (if bracketed v \<and> needsBracketSpacing par then [(KWhitespace, '' '')] else []);
      ts = sp @ [(KString, u)] @ sp; txt = concat (map snd ts) in
    renderStringLiteral par v s = Some (txt, s) \<and> kinds_texts (fst (Tokenize txt)) = ts @ [(KEOF, [])] \<and> snd (Tokenize txt) = [] \<and>
    luauStringValue u = Some v \<and> StringValue (zeroRef\<lparr>Token := (Token zeroRef)\<lparr>Kind := KString, Text := u\<rparr>\<rparr>) = Some v"
proof -
  have c: "Contains v [c] \<longleftrightarrow> c \<in> set v" for c by (auto simp: Contains_iff in_set_conv_decomp)
  show ?thesis
  proof (cases "bracketed v")
    case False
    define q where "q = (if DQUOTE \<in> set v then SQUOTE else DQUOTE)"
    have q: "q = DQUOTE \<or> q = SQUOTE" "set v \<inter> {q, BSLASH, LF, CR} = {}"
      using False assms by (auto simp: q_def bracketed_def)
    then have "list_all (\<lambda>c. c \<noteq> BSLASH \<and> c \<noteq> q \<and> c \<noteq> LF) v" "BSLASH \<notin> set v" by (auto simp: list_all_iff)
    with Tokenize_pieces [of "[(KString, q # v @ [q])]"] reads_short [OF q(1)] StringValue_plain [of _ q v] luauStringValue_quoted [OF q] q(1)
    show ?thesis using False by (intro exI [of _ "q # v @ [q]"]) (auto simp: renderStringLiteral_def c q_def bracketed_def)
  next
    case True
    let ?n = "safeLevel v 0"
    let ?w = "longOpening ?n @ v @ longClosing ?n"
    let ?sp = "if needsBracketSpacing par then [(KWhitespace, '' '')] else []"
    have safe: "\<not> unsafeLevel v ?n" by (rule safeLevel_safe)
    have "renderStringLiteral par v s = Some (concat (map snd (?sp @ [(KString, ?w)] @ ?sp)), s)"
      using True by (auto simp: renderStringLiteral_def c bracketed_def Let_def getSafeBracketEquals_def longOpening_def longClosing_def)
    moreover have "pieces (?sp @ [(KString, ?w)] @ ?sp)"
    proof -
      have "reads '' '' KWhitespace r" if "r = [] \<or> hd r = CHR ''[''" for r
        using that by (intro reads_space) (auto simp: isSpace_def)
      then have "reads '' '' KWhitespace []" "reads '' '' KWhitespace (?w @ r)" for r by (simp_all add: longOpening_def)
      then show ?thesis using reads_long [OF safe] by simp
    qed
    moreover have "StringValue (zeroRef\<lparr>Token := (Token zeroRef)\<lparr>Kind := KString, Text := ?w\<rparr>\<rparr>) = Some v"
      using longStringBody_body [of ?n v] by (simp add: StringValue_def Let_def longOpening_def)
    moreover have "luauStringValue ?w = Some v" using luauStringValue_long [OF safe] luauLongText_id assms True by simp
    ultimately show ?thesis using True Tokenize_pieces [of "?sp @ [(KString, ?w)] @ ?sp"]
      by (intro exI [of _ ?w]) (simp add: Let_def del: append_assoc)
  qed
qed

theorem renderStringLiteral_reads_back_witness:
  "\<exists>u. renderStringLiteral None (''a'' @ [LF] @ '']]'' @ [BSLASH]) NewRenderState = Some (u, NewRenderState) \<and>
    kinds_texts (fst (Tokenize u)) = [(KString, u), (KEOF, [])] \<and> snd (Tokenize u) = [] \<and>
    luauStringValue u = Some (''a'' @ [LF] @ '']]'' @ [BSLASH])"
  using renderStringLiteral_reads_back [of "''a'' @ [LF] @ '']]'' @ [BSLASH]" None NewRenderState]
  by (auto simp: needsBracketSpacing_def bracketed_def Let_def)

text \<open>A literal whose text begins with a line feed loses it.\<close>

lemma renderStringLiteral_drops_newline:
  "renderStringLiteral None (LF # ''a'') s = Some (''[['' @ LF # ''a]]'', s) \<and> luauStringValue (''[['' @ LF # ''a]]'') = Some ''a''"
proof -
  have "renderStringLiteral None (LF # ''a'') s = Some (''[['' @ LF # ''a]]'', s)"
    by (simp add: renderStringLiteral_def getSafeBracketEquals_def needsBracketSpacing_def safeLevel.simps unsafeLevel_def
        closingBracket_def HasSuffix_def HasPrefix_def)
  moreover have "luauStringValue (''[['' @ LF # ''a]]'') = Some ''a''" by code_simp
  ultimately show ?thesis by blast
qed

lemma replaceCR_LF: "LF \<in> set (replaceCR (replaceCRLF t)) \<longleftrightarrow> LF \<in> set t \<or> CR \<in> set t"
  by (induction t rule: replaceCRLF.induct) (auto simp: replaceCR_def)

lemma replaceCR_id: "LF \<notin> set t \<Longrightarrow> CR \<notin> set t \<Longrightarrow> replaceCR (replaceCRLF t) = t"
  by (induction t rule: replaceCRLF.induct) (auto simp: replaceCR_def)

lemma Split_single: "length (Split t c) = 1 \<longleftrightarrow> c \<notin> set t"
proof (induction t)
  case (Cons x t)
  then show ?case using Split_not_Nil [of t c] by (cases "Split t c") auto
qed simp

text \<open>A rendered comment is read back as one comment token between whitespace, without a
  diagnostic: whatever its text, it neither ends early nor runs into the next line. The one
  exception is a single line that itself opens a long bracket.\<close>

theorem renderComment_reads_back:
  assumes "list_all isSpace ind" "LF \<in> set c \<or> CR \<in> set c \<or> \<not> opensLong c"
  shows "\<exists>u x. renderComment ind c s = Some (u, s) \<and> snd (Tokenize u) = [] \<and>
    kinds_texts (fst (Tokenize u)) =
      (if ind = [] then [] else [(KWhitespace, ind)]) @ [(KComment, x), (KWhitespace, [LF]), (KEOF, [])]"
proof -
  have lf: "reads [LF] KWhitespace []" by (rule reads_space) (simp_all add: isSpace_def)
  have main: ?thesis if "renderComment ind c s = Some (ind @ x @ [LF], s)" "reads x KComment [LF]" "hd x = CHR ''-''" for x
  proof -
    have "reads ind KWhitespace (x @ [LF])" if "ind \<noteq> []"
    proof (rule reads_space [OF that assms(1)])
      show "x @ [LF] = [] \<or> \<not> isSpace (hd (x @ [LF]))"
        using \<open>hd x = _\<close> \<open>reads x KComment [LF]\<close> by (auto simp: isSpace_def reads_def hd_append)
    qed
    then have "pieces ((if ind = [] then [] else [(KWhitespace, ind)]) @ [(KComment, x), (KWhitespace, [LF])])"
      using that(2) lf by simp
    from Tokenize_pieces [OF this] that(1) show ?thesis by (cases "ind = []") (auto simp: append_assoc)
  qed
  let ?t = "replaceCR (replaceCRLF c)"
  let ?n = "safeLevel ?t 0"
  let ?b = "comment_body ind (Split ?t LF)"
  show ?thesis
  proof (cases "1 < length (Split ?t LF)")
    case True
    then have "renderComment ind c s = Some (ind @ (''--'' @ longOpening ?n @ ?b @ longClosing ?n) @ [LF], s)"
      by (simp add: renderComment_def Let_def Line_r_def [abs_def] getSafeBracketEquals_def longOpening_def longClosing_def
          comment_body_def)
    then show ?thesis by (rule main [OF _ reads_long_comment [OF comment_body_safe [OF assms(1)]]]) simp
  next
    case False
    then have "length (Split ?t LF) = 1" using Split_not_Nil [of ?t LF] by (cases "Split ?t LF") auto
    then have no: "LF \<notin> set c" "CR \<notin> set c" "?t = c" "\<not> opensLong c"
      using Split_single replaceCR_LF replaceCR_id assms(2) by auto
    then have "renderComment ind c s = Some (ind @ (''--'' @ c) @ [LF], s)"
      using False by (simp add: renderComment_def Let_def Line_r_def)
    then show ?thesis by (rule main [OF _ reads_line_comment]) (use no in auto)
  qed
qed

theorem renderComment_reads_back_witness:
  "\<exists>u x. renderComment [TAB] (''a'' @ [LF] @ '']]'') NewRenderState = Some (u, NewRenderState) \<and> snd (Tokenize u) = [] \<and>
    kinds_texts (fst (Tokenize u)) = (if [TAB] = [] then [] else [(KWhitespace, [TAB])]) @
      [(KComment, x), (KWhitespace, [LF]), (KEOF, [])]"
  by (rule renderComment_reads_back) (simp_all add: isSpace_def)

text \<open>A one-line comment whose text opens a long bracket is rendered as the start of a long
  comment, which swallows the statement after it and is never closed.\<close>

theorem renderComment_swallows:
  "map_option fst (renderComment [] ''[[todo'' NewRenderState) = Some (''--[[todo'' @ [LF]) \<and>
   map Kind (fst (Tokenize (''--[[todo'' @ [LF] @ ''f()''))) = [KComment, KEOF] \<and>
   map Message (snd (Tokenize (''--[[todo'' @ [LF] @ ''f()''))) = [''unterminated long comment'']"
  by code_simp

end
