(* ===== verification/Render_Correct.thy ===== *)
theory Render_Correct
  imports Temp_Ids_Correct Render_Text
begin

text \<open>
  The renderer returns a text for every well-formed tree: no branch that panics is reached, and
  together with the naming of temporaries neither does \<open>RenderAST\<close>. The parentheses and the
  semicolons that it writes are compared with what the parser reads.
\<close>

section \<open>Well-formed trees\<close>

text \<open>No statement but a comment follows a \<open>break\<close>, \<open>continue\<close> or \<open>return\<close>.\<close>

fun final_last :: "lnode list \<Rightarrow> bool" where
  "final_last [] = True"
| "final_last (n # ns) = ((IsFinalStatement n \<longrightarrow> list_all isComment ns) \<and> final_last ns)"

definition nonempty_list :: "lnode NodeOrList \<Rightarrow> bool" where
  "nonempty_list v \<longleftrightarrow> v \<noteq> List []"

text \<open>
  Names that are written without quotes are identifiers, lists that the grammar wants non-empty
  are so, and a final statement ends its list.
\<close>

function (sequential) renderable :: "lnode \<Rightarrow> bool" where
  "renderable (Identifier nm) = IsValidIdentifier nm"
| "renderable (TemporaryIdentifier nm i ex) = (if ex then IsValidIdentifier nm else list_all isIdentifierPart nm)"
| "renderable (ComputedIndexExpression e i) = (renderable e \<and> renderable i)"
| "renderable (PropertyAccessExpression e nm) = renderable e"
| "renderable (CallExpression e args) = (renderable e \<and> (\<forall>a \<in> set args. renderable a))"
| "renderable (MethodCallExpression nm e args) =
     (IsValidIdentifier nm \<and> renderable e \<and> (\<forall>a \<in> set args. renderable a))"
| "renderable (ParenthesizedExpression e) = renderable e"
| "renderable None_e = False"
| "renderable (FunctionExpression ps dots ss) =
     ((\<forall>p \<in> set ps. renderable p) \<and> (\<forall>x \<in> set ss. renderable x) \<and> final_last ss)"
| "renderable (BinaryExpression l op r) = (renderable l \<and> renderable r)"
| "renderable (UnaryExpression op e) = renderable e"
| "renderable (IfExpression c e a) = (renderable c \<and> renderable e \<and> renderable a)"
| "renderable (InterpolatedString ps) = (\<forall>p \<in> set ps. renderable p)"
| "renderable (Array ms) = (\<forall>m \<in> set ms. renderable m)"
| "renderable (Map fs) = (\<forall>m \<in> set fs. renderable m)"
| "renderable (Set ms) = (\<forall>m \<in> set ms. renderable m)"
| "renderable (MixedTable fs) = (\<forall>m \<in> set fs. renderable m)"
| "renderable (Assignment l op r) =
     ((\<forall>m \<in> set (nodes_of l). renderable m) \<and> nonempty_list l \<and>
      (\<forall>m \<in> set (nodes_of r). renderable m) \<and> nonempty_list r)"
| "renderable (CallStatement e) = renderable e"
| "renderable (DoStatement ss) = ((\<forall>x \<in> set ss. renderable x) \<and> final_last ss)"
| "renderable (WhileStatement c ss) = (renderable c \<and> (\<forall>x \<in> set ss. renderable x) \<and> final_last ss)"
| "renderable (RepeatStatement c ss) = (renderable c \<and> (\<forall>x \<in> set ss. renderable x) \<and> final_last ss)"
| "renderable (IfStatement c ss eb) =
     (renderable c \<and> (\<forall>x \<in> set ss. renderable x) \<and> final_last ss \<and>
      (\<forall>x \<in> set (nodes_of eb). renderable x) \<and> final_last (nodes_of eb))"
| "renderable (NumericForStatement i st en stp ss) =
     (renderable i \<and> renderable st \<and> renderable en \<and>
      (case stp of None \<Rightarrow> True | Some m \<Rightarrow> renderable m) \<and> (\<forall>x \<in> set ss. renderable x) \<and> final_last ss)"
| "renderable (ForStatement ids e ss) =
     ((\<forall>x \<in> set ids. renderable x) \<and> renderable e \<and> (\<forall>x \<in> set ss. renderable x) \<and> final_last ss)"
| "renderable (FunctionDeclaration loc nm ps dots ss) =
     ((loc \<longrightarrow> isAnyIdentifier nm) \<and> renderable nm \<and> (\<forall>p \<in> set ps. renderable p) \<and>
      (\<forall>x \<in> set ss. renderable x) \<and> final_last ss)"
| "renderable (MethodDeclaration e nm ps dots ss) =
     (renderable e \<and> (\<forall>p \<in> set ps. renderable p) \<and> (\<forall>x \<in> set ss. renderable x) \<and> final_last ss)"
| "renderable (VariableDeclaration l r) =
     ((\<forall>m \<in> set (nodes_of l). renderable m) \<and> nonempty_list l \<and>
      (case r of None \<Rightarrow> True | Some v \<Rightarrow> (\<forall>m \<in> set (nodes_of v). renderable m) \<and> nonempty_list v))"
| "renderable (ReturnStatement v) = (\<forall>m \<in> set (nodes_of v). renderable m)"
| "renderable (MapField i v) = (renderable i \<and> renderable v)"
| "renderable _ = True"
  by pat_completeness auto
termination
  by (relation "measure size") (auto dest!: list_mem_size nodes_of_size)

section \<open>Renderings that return\<close>

text \<open>The names of temporaries in the state are identifiers; a rendering keeps this.\<close>

definition names_ok :: "RenderState \<Rightarrow> bool" where
  "names_ok s \<longleftrightarrow> (\<forall>nm \<in> ran (seenTempNodes s). IsValidIdentifier nm)"

definition returns :: "'a rm \<Rightarrow> bool" where
  "returns m \<longleftrightarrow> (\<forall>s. names_ok s \<longrightarrow> (\<exists>x s'. m s = Some (x, s') \<and> names_ok s'))"

lemma returnsE:
  assumes "returns m" "names_ok s"
  obtains x s' where "m s = Some (x, s')" "names_ok s'"
  using assms unfolding returns_def by blast

lemma returns_bind:
  assumes "returns m" "\<And>x. returns (k x)"
  shows "returns (\<lambda>s. m s \<bind> (\<lambda>(x, s'). k x s'))"
  unfolding returns_def
proof (intro allI impI)
  fix s assume "names_ok s"
  then obtain x s1 where 1: "m s = Some (x, s1)" "names_ok s1" by (rule returnsE [OF assms(1)])
  obtain y s2 where "k x s1 = Some (y, s2)" "names_ok s2" by (rule returnsE [OF assms(2) 1(2)])
  with 1 show "\<exists>y s'. m s \<bind> (\<lambda>(x, s'). k x s') = Some (y, s') \<and> names_ok s'" by simp
qed

lemma returns_pure: "returns (\<lambda>s. Some (x, s))"
  by (simp add: returns_def)

lemma returns_If: "(b \<Longrightarrow> returns m) \<Longrightarrow> (\<not> b \<Longrightarrow> returns m') \<Longrightarrow> returns (\<lambda>s. if b then m s else m' s)"
  by (cases b) simp_all

lemma returns_opt: "o' = Some x \<Longrightarrow> returns (k x) \<Longrightarrow> returns (\<lambda>s. o' \<bind> (\<lambda>x. k x s))"
  by simp

lemmas returns_intros = returns_bind returns_pure returns_If

lemma returns_renderAll: "(\<And>m. m \<in> set ms \<Longrightarrow> returns m) \<Longrightarrow> returns (renderAll ms)"
proof (induction ms)
  case (Cons m ms)
  have "returns (\<lambda>s. m s \<bind> (\<lambda>(x, s1). renderAll ms s1 \<bind> (\<lambda>(xs, s2). Some (x # xs, s2))))"
    using Cons by (intro returns_intros) auto
  then show ?case by (simp add: returns_def)
qed (simp add: returns_def)

lemma getTempName_ok:
  assumes "names_ok s"
  shows "\<exists>nm s'. getTempName i s = Some (nm, s') \<and> IsValidIdentifier nm \<and> names_ok s'"
proof (cases "seenTempNodes s i")
  case None
  have c: "candidate False [] (''_'' @ Itoa k)" for k by (auto simp: candidate_def temp_base_def)
  have "IsValidIdentifier (''_'' @ Itoa (tempIDFallback s))" by (rule candidate_valid [OF _ c]) simp
  with assms None show ?thesis by (auto simp: getTempName_def names_ok_def Let_def ran_def)
next
  case (Some nm)
  with assms show ?thesis by (auto simp: getTempName_def names_ok_def ran_def)
qed

lemma returns_temp: "returns (renderTemporaryIdentifier i)"
  unfolding returns_def renderTemporaryIdentifier_def
  using getTempName_ok [of _ i] by fastforce

text \<open>A statement list returns when its members do and no statement follows a final one.\<close>

lemma returns_statements_loop:
  "(\<And>n m. (n, m) \<in> set ms \<Longrightarrow> returns m) \<Longrightarrow> final_last (map fst ms) \<Longrightarrow>
   hasFinal \<longrightarrow> list_all isComment (map fst ms) \<Longrightarrow> returns (renderStatementsLoop hasFinal ms)"
proof (induction ms arbitrary: hasFinal)
  case (Cons p ms)
  obtain n m where p: "p = (n, m)" by (cases p)
  have i: "isComment n \<Longrightarrow> \<not> IsFinalStatement n" by (simp add: isComment_def IsFinalStatement_def)
  have "returns (renderStatementsLoop (hasFinal \<or> IsFinalStatement n) ms)"
    using Cons.prems p i by (intro Cons.IH) auto
  then have "returns (\<lambda>s. m s \<bind> (\<lambda>(t, s1). renderStatementsLoop (hasFinal \<or> IsFinalStatement n) ms s1 \<bind>
      (\<lambda>(ts, s2). Some (t @ ts, s2))))"
    using Cons.prems(1) p by (intro returns_intros) auto
  then show ?case using Cons.prems(3) p by (auto simp: returns_def)
qed (simp add: returns_def)

lemma returns_statements:
  "(\<And>n m. (n, m) \<in> set ms \<Longrightarrow> returns m) \<Longrightarrow> final_last (map fst ms) \<Longrightarrow> returns (renderStatements ms)"
  unfolding renderStatements_def by (rule returns_statements_loop) auto

subsection \<open>One rule per renderer\<close>

lemma returns_pure_text: "returns (pure_text t)"
  by (simp add: returns_def pure_text_def)

lemma returns_args: "(\<And>m. m \<in> set ms \<Longrightarrow> returns m) \<Longrightarrow> returns (renderArguments ms)"
  unfolding renderArguments_def [abs_def] by (intro returns_intros returns_renderAll) auto

lemma returns_params: "(\<And>m. m \<in> set ms \<Longrightarrow> returns m) \<Longrightarrow> returns (renderParameters ms dots)"
  unfolding renderParameters_def [abs_def] by (intro returns_intros returns_renderAll) auto

lemma returns_identifier: "IsValidIdentifier nm \<Longrightarrow> returns (renderIdentifier nm)"
  by (simp add: returns_def renderIdentifier_def)

lemma returns_computed: "returns e \<Longrightarrow> returns i \<Longrightarrow> returns (renderComputedIndexExpression x e i)"
  unfolding renderComputedIndexExpression_def [abs_def]
  by (cases x) (auto intro!: returns_intros)

lemma returns_property: "returns e \<Longrightarrow> returns (renderPropertyAccessExpression nm e)"
  unfolding renderPropertyAccessExpression_def [abs_def] by (intro returns_intros) auto

lemma returns_call: "returns e \<Longrightarrow> (\<And>m. m \<in> set ms \<Longrightarrow> returns m) \<Longrightarrow> returns (renderCallExpression e ms)"
  unfolding renderCallExpression_def [abs_def] by (intro returns_intros returns_args) auto

lemma returns_method:
  "IsValidIdentifier nm \<Longrightarrow> returns e \<Longrightarrow> (\<And>m. m \<in> set ms \<Longrightarrow> returns m) \<Longrightarrow>
   returns (renderMethodCallExpression nm e ms)"
  unfolding renderMethodCallExpression_def [abs_def] by (intro returns_intros returns_args) auto

lemma returns_paren: "returns e \<Longrightarrow> returns (renderParenthesizedExpression x e)"
  unfolding renderParenthesizedExpression_def [abs_def] by (intro returns_intros) auto

lemma returns_number: "returns (renderNumberLiteral ops v)"
  by (auto simp: returns_def renderNumberLiteral_def split: option.splits)

lemma returns_string: "returns (renderStringLiteral par v)"
  by (simp add: returns_def renderStringLiteral_def Let_def)

lemma returns_function:
  "(\<And>m. m \<in> set ps \<Longrightarrow> returns m) \<Longrightarrow> returns (renderStatements body) \<Longrightarrow>
   returns (renderFunctionExpression ind ps dots body)"
  unfolding renderFunctionExpression_def [abs_def] by (intro returns_intros returns_params) auto

lemma returns_binary: "returns l \<Longrightarrow> returns r \<Longrightarrow> returns (renderBinaryExpression b op l r)"
  unfolding renderBinaryExpression_def [abs_def] by (intro returns_intros) auto

lemma returns_unary: "returns e \<Longrightarrow> returns (renderUnaryExpression b op x e)"
  unfolding renderUnaryExpression_def [abs_def] by (intro returns_intros) auto

lemma returns_elseifs:
  "(\<And>c e. (c, e) \<in> set cs \<Longrightarrow> returns c \<and> returns e) \<Longrightarrow> returns (renderElseifs cs)"
proof (induction cs)
  case (Cons p cs)
  obtain c e where p: "p = (c, e)" by (cases p)
  have "returns (\<lambda>s. c s \<bind> (\<lambda>(ct, s1). e s1 \<bind> (\<lambda>(et, s2). renderElseifs cs s2 \<bind>
      (\<lambda>(ts, s3). Some (''elseif '' @ ct @ '' then '' @ et @ '' '' @ ts, s3)))))"
    using Cons p by (intro returns_intros) auto
  with p show ?case by (simp add: returns_def)
qed (simp add: returns_def)

lemma returns_ifexpr:
  "returns c \<Longrightarrow> returns e \<Longrightarrow> (\<And>c e. (c, e) \<in> set cs \<Longrightarrow> returns c \<and> returns e) \<Longrightarrow> returns a \<Longrightarrow>
   returns (renderIfExpression b c e cs a)"
  unfolding renderIfExpression_def [abs_def] by (intro returns_intros returns_elseifs) auto

lemma returns_interp:
  assumes "\<And>n m. (n, m) \<in> set ps \<Longrightarrow> returns m"
  shows "returns (renderInterpolatedString ps)"
proof -
  have "returns (\<lambda>s. do { (t, s1) \<leftarrow> m s; Some (renderInterpolatedPart n t, s1) })" if "(n, m) \<in> set ps" for n m
    using assms [OF that] by (intro returns_intros)
  then show ?thesis
    unfolding renderInterpolatedString_def [abs_def] by (intro returns_intros returns_renderAll) auto
qed

lemma returns_array: "(\<And>m. m \<in> set ms \<Longrightarrow> returns m) \<Longrightarrow> returns (renderArray ms)"
  unfolding renderArray_def [abs_def] by (intro returns_intros returns_renderAll) auto

lemma returns_fields: "(\<And>m. m \<in> set ms \<Longrightarrow> returns m) \<Longrightarrow> returns (renderFieldLines ind f ms)"
  unfolding renderFieldLines_def [abs_def] by (intro returns_intros returns_renderAll) auto

lemma returns_tables:
  "(\<And>m. m \<in> set ms \<Longrightarrow> returns m) \<Longrightarrow> returns (renderMap ind ms)"
  "(\<And>m. m \<in> set ms \<Longrightarrow> returns m) \<Longrightarrow> returns (renderSet ind ms)"
  "(\<And>m. m \<in> set ms \<Longrightarrow> returns m) \<Longrightarrow> returns (renderMixedTable ind ms)"
  by (simp_all add: renderMap_def renderSet_def renderMixedTable_def returns_fields)

lemma returns_mapfield: "returns i \<Longrightarrow> returns v \<Longrightarrow> returns (renderMapField x i v)"
  unfolding renderMapField_def [abs_def] by (cases x) (auto intro!: returns_intros)

lemma returns_part: "returns (renderInterpolatedStringPart t)"
  by (simp add: returns_def renderInterpolatedStringPart_def)

lemma returns_comment: "returns (renderComment ind t)"
  by (simp add: returns_def renderComment_def Let_def)

subsection \<open>Endings\<close>

lemma endsWithIndexable_total:
  assumes "renderable n"
  shows "\<exists>b. endsWithIndexableExpression n = Some b"
proof -
  have "\<exists>b. endsWithLast v = Some b" if "nonempty_list v" for v
    using that by (cases v) (auto simp: endsWithLast_def lastExprOf_def nonempty_list_def)
  with assms show ?thesis
    by (cases n) (auto simp: endsWithIndexableExpression_def split: option.splits)
qed

lemma startsWithParenthesis_total: "renderable n \<Longrightarrow> \<exists>b. startsWithParenthesis n = Some b"
  by (cases n) (auto simp: startsWithParenthesis_def nonempty_list_def split: lnode.splits NodeOrList.splits list.splits)

lemma LineWithEnd_total:
  assumes "renderable n" "\<forall>m \<in> set nx. renderable m"
  shows "\<exists>t'. LineWithEnd ind nx n t = Some t'"
proof (cases "getNextNonComment nx")
  case None
  then show ?thesis by (simp add: LineWithEnd_def getEnding_def)
next
  case (Some m)
  then have "m \<in> set nx" by (auto simp: getNextNonComment_def dest: set_dropWhileD split: list.splits)
      (metis list.set_intros(1) set_dropWhileD)
  then have "renderable m" using assms(2) by blast
  with Some endsWithIndexable_total [OF assms(1)] startsWithParenthesis_total [of m]
  show ?thesis by (auto simp: LineWithEnd_def getEnding_def)
qed

lemma returns_LineWithEnd:
  assumes "renderable n" "\<forall>m \<in> set nx. renderable m"
  shows "returns (\<lambda>s. LineWithEnd ind nx n t \<bind> (\<lambda>u. Some (u, s)))"
  using LineWithEnd_total [OF assms, of ind t] by (auto simp: returns_def)

subsection \<open>Statements\<close>

lemma returns_exprs:
  assumes "\<And>m. m \<in> set (nodes_of v) \<Longrightarrow> returns m" "v \<noteq> List []"
  shows "returns (renderExprOrList v)"
  using assms unfolding renderExprOrList_def [abs_def]
  by (cases v) (auto intro!: returns_intros returns_renderAll)

lemma returns_return:
  assumes "\<And>m. m \<in> set (nodes_of v) \<Longrightarrow> returns m"
  shows "returns (renderReturnStatement ind v)"
proof (cases "v = List []")
  case False
  then have "renderReturnStatement ind v = (\<lambda>s. renderExprOrList v s \<bind> (\<lambda>(t, s1). Some (Line_r ind (''return '' @ t), s1)))"
    by (auto simp: renderReturnStatement_def fun_eq_iff split: NodeOrList.splits list.splits)
  then show ?thesis using returns_exprs [OF assms False] by (auto intro: returns_intros)
qed (simp add: returns_def renderReturnStatement_def)

lemma returns_assignment:
  assumes "renderable n" "\<forall>m \<in> set nx. renderable m"
    and "\<And>m. m \<in> set (nodes_of l) \<Longrightarrow> returns m" "l \<noteq> List []"
    and "\<And>m. m \<in> set (nodes_of r) \<Longrightarrow> returns m" "r \<noteq> List []"
  shows "returns (renderAssignment ind nx n op l r)"
  unfolding renderAssignment_def [abs_def]
  by (intro returns_bind returns_exprs returns_LineWithEnd assms)

lemma returns_callstmt:
  assumes "renderable n" "\<forall>m \<in> set nx. renderable m" "returns e"
  shows "returns (renderCallStatement ind nx n e)"
  unfolding renderCallStatement_def [abs_def] by (intro returns_bind returns_LineWithEnd assms)

lemma returns_vardecl:
  assumes "renderable n" "\<forall>m \<in> set nx. renderable m"
    and "\<And>m. m \<in> set (nodes_of l) \<Longrightarrow> returns m" "l \<noteq> List []"
    and "\<And>v m. r = Some v \<Longrightarrow> m \<in> set (nodes_of v) \<Longrightarrow> returns m" "r \<noteq> Some (List [])"
  shows "returns (renderVariableDeclaration ind nx n l r)"
  unfolding renderVariableDeclaration_def [abs_def]
  using assms by (cases r) (auto intro!: returns_bind returns_exprs returns_LineWithEnd)

lemma returns_blocks:
  "returns (renderStatements b) \<Longrightarrow> returns (renderDoStatement ind b)"
  "returns c \<Longrightarrow> returns (renderStatements b) \<Longrightarrow> returns (renderWhileStatement ind c b)"
  "returns c \<Longrightarrow> returns (renderStatements b) \<Longrightarrow> returns (renderRepeatStatement ind c b)"
  unfolding renderDoStatement_def [abs_def] renderWhileStatement_def [abs_def] renderRepeatStatement_def [abs_def]
  by (intro returns_intros; assumption)+

lemma returns_elseif_stmts:
  "(\<And>c b. (c, b) \<in> set cs \<Longrightarrow> returns c \<and> returns (renderStatements b)) \<Longrightarrow> returns (renderElseifStatements ind cs)"
proof (induction cs)
  case (Cons p cs)
  obtain c b where p: "p = (c, b)" by (cases p)
  have "returns (\<lambda>s. c s \<bind> (\<lambda>(ct, s1). renderStatements b s1 \<bind> (\<lambda>(bt, s2). renderElseifStatements ind cs s2 \<bind>
      (\<lambda>(ts, s3). Some (Line_r ind (''elseif '' @ ct @ '' then'') @ bt @ ts, s3)))))"
    using Cons p by (intro returns_intros) auto
  with p show ?case by (simp add: returns_def)
qed (simp add: returns_def)

lemma returns_ifstmt:
  assumes "returns c" "returns (renderStatements b)"
    "\<And>c b. (c, b) \<in> set cs \<Longrightarrow> returns c \<and> returns (renderStatements b)" "returns (renderStatements e)"
  shows "returns (renderIfStatement ind c b cs e)"
  unfolding renderIfStatement_def [abs_def]
  using assms by (intro returns_bind returns_elseif_stmts returns_pure returns_If) auto

lemma returns_numfor:
  assumes "returns i" "returns st" "returns en" "\<And>n m. stp = Some (n, m) \<Longrightarrow> returns m" "returns (renderStatements b)"
  shows "returns (renderNumericForStatement ops ind i st en stp b)"
proof -
  have "returns (\<lambda>s. case stp of None \<Rightarrow> Some ([], s)
      | Some (n, m) \<Rightarrow> if stepIsOne ops n then Some ([], s) else do { (t, s') \<leftarrow> m s; Some ('', '' @ t, s') })"
    using assms(4) by (cases stp) (auto intro!: returns_intros)
  then show ?thesis
    unfolding renderNumericForStatement_def [abs_def] by (intro returns_bind returns_pure assms(1,2,3,5))
qed

lemma returns_for:
  assumes "\<And>m. m \<in> set ids \<Longrightarrow> returns m" "returns e" "returns (renderStatements b)"
  shows "returns (renderForStatement ind ids e b)"
  unfolding renderForStatement_def [abs_def] using assms by (intro returns_intros returns_renderAll)

lemma returns_fundecl:
  assumes "loc \<longrightarrow> isAnyIdentifier name" "returns nm" "\<And>m. m \<in> set ps \<Longrightarrow> returns m" "returns (renderStatements b)"
  shows "returns (renderFunctionDeclaration ind loc name nm ps dots b)"
  unfolding renderFunctionDeclaration_def [abs_def] using assms by (intro returns_intros returns_params) auto

lemma returns_methoddecl:
  assumes "returns e" "\<And>m. m \<in> set ps \<Longrightarrow> returns m" "returns (renderStatements b)"
  shows "returns (renderMethodDeclaration ind e nm ps dots b)"
  unfolding renderMethodDeclaration_def [abs_def] using assms by (intro returns_intros returns_params)

section \<open>The whole renderer\<close>

lemma with_tails_fst: "map fst (with_tails xs) = xs"
  by (induction xs) simp_all

lemma with_tails_suffix: "(x, t) \<in> set (with_tails xs) \<Longrightarrow> set t \<subseteq> set xs"
  by (induction xs) auto

text \<open>The statements of a block, each rendered in front of those that follow it.\<close>

lemma returns_block:
  assumes "\<And>x t. (x, t) \<in> set (with_tails ss) \<Longrightarrow> renderable x \<Longrightarrow> (\<forall>m \<in> set t. renderable m) \<Longrightarrow> returns (f t x)"
    and "\<forall>x \<in> set ss. renderable x" "final_last ss"
  shows "returns (renderStatements (map (\<lambda>x. (fst x, f (snd x) (fst x))) (with_tails ss)))"
proof (rule returns_statements)
  show "final_last (map fst (map (\<lambda>x. (fst x, f (snd x) (fst x))) (with_tails ss)))"
    using assms(3) with_tails_fst [of ss] by (simp add: comp_def)
next
  fix n m assume "(n, m) \<in> set (map (\<lambda>x. (fst x, f (snd x) (fst x))) (with_tails ss))"
  then obtain t where t: "(n, t) \<in> set (with_tails ss)" "m = f t n" by auto
  with with_tails_suffix [OF t(1)] with_tails_mem [OF t(1)] assms(1,2) show "returns m" by blast
qed

lemma ifChain_renderable:
  "renderable n \<Longrightarrow> renderable (snd (ifChain n)) \<and>
     (\<forall>m \<in> set (fst (ifChain n)). renderable (fst (if_parts m)) \<and> renderable (snd (if_parts m)))"
  by (induction n rule: ifChain.induct) (auto simp: case_prod_beta)

lemma elseChain_renderable:
  "\<forall>x \<in> set (nodes_of v). renderable x \<Longrightarrow> final_last (nodes_of v) \<Longrightarrow>
   (\<forall>m \<in> set (fst (elseChain v)). renderable (fst (else_parts m)) \<and>
      (\<forall>x \<in> set (snd (else_parts m)). renderable x) \<and> final_last (snd (else_parts m))) \<and>
   (\<forall>x \<in> set (list_of (snd (elseChain v))). renderable x) \<and> final_last (list_of (snd (elseChain v)))"
proof (induction v rule: elseChain.induct)
  case (1 c ss eb)
  have r: "renderable c" "\<forall>x \<in> set ss. renderable x" "final_last ss" "\<forall>x \<in> set (nodes_of eb). renderable x"
    "final_last (nodes_of eb)" using 1(2) by simp_all
  have "elseChain (One (IfStatement c ss eb)) =
      (IfStatement c ss eb # fst (elseChain eb), snd (elseChain eb))" by (simp add: case_prod_beta)
  then show ?case using 1(1) [OF r(4,5)] r(1,2,3) by (simp del: elseChain.simps)
qed auto

lemma nodes_of_map: "nodes_of (map_NodeOrList f v) = map f (nodes_of v)"
  by (cases v) simp_all

lemma map_NodeOrList_Nil: "map_NodeOrList f v = List [] \<longleftrightarrow> v = List []"
  by (cases v) simp_all

lemma set_nodes_of: "set (nodes_of v) = set_NodeOrList v"
  by (cases v) simp_all

text \<open>Induction over the renderer, one case per node kind.\<close>

lemma Render_returns:
  "renderable n \<Longrightarrow> \<forall>m \<in> set nx. renderable m \<Longrightarrow> returns (Render ops ind nx par n)"
proof (induction ops ind nx par n rule: Render.induct)
  case (18 ops ind nx par c e a)
  note ch = ifChain_renderable [of a]
  show ?case
    unfolding Render.simps Let_def
    using 18 ch by (intro returns_ifexpr) (auto simp: Let_def)
next
  case (29 ops ind nx par c ss)
  then show ?case by (auto simp: Let_def intro!: returns_blocks returns_block)
next
  case (31 ops ind nx par c ss eb)
  have r: "renderable c" "\<forall>x \<in> set ss. renderable x" "final_last ss" "\<forall>x \<in> set (nodes_of eb). renderable x"
    "final_last (nodes_of eb)" using 31(6) by simp_all
  note ch = elseChain_renderable [OF r(4,5)]
  let ?self = "Some (IfStatement c ss eb, ROther)"
  have c: "returns (Render ops ind nx ?self c)" using 31(1) [OF refl r(1) 31(7)] .
  have b: "returns (renderStatements (map (\<lambda>x. (fst x, Render ops (indented ind) (snd x) ?self (fst x))) (with_tails ss)))"
    by (rule returns_block [OF _ r(2,3)]) (use 31(2) [OF refl] in auto)
  have e: "returns (renderStatements (map (\<lambda>x. (fst x, Render ops (indented ind) (snd x) ?self (fst x)))
      (with_tails (list_of (snd (elseChain eb))))))"
    by (rule returns_block) (use ch 31(5) [OF refl] in auto)
  have cs: "returns (Render ops ind nx (Some (m, ROther)) (fst (else_parts m))) \<and>
      returns (renderStatements (map (\<lambda>x. (fst x, Render ops (indented ind) (snd x) (Some (m, ROther)) (fst x)))
        (with_tails (snd (else_parts m)))))" if m: "m \<in> set (fst (elseChain eb))" for m
  proof
    show "returns (Render ops ind nx (Some (m, ROther)) (fst (else_parts m)))"
      using 31(3) [OF refl m] ch m 31(7) by blast
    show "returns (renderStatements (map (\<lambda>x. (fst x, Render ops (indented ind) (snd x) (Some (m, ROther)) (fst x)))
        (with_tails (snd (else_parts m)))))"
      by (rule returns_block) (use ch m 31(4) [OF refl m] in auto)
  qed
  show ?case
    unfolding Render.simps Let_def by (rule returns_ifstmt [OF c b _ e]) (use cs in auto)
next
  case (30 ops ind nx par c ss)
  then show ?case by (auto simp: Let_def intro!: returns_blocks returns_block)
next
  case (24 ops ind nx par l op r)
  then show ?case
    by (auto simp: Let_def nodes_of_map map_NodeOrList_Nil nonempty_list_def set_nodes_of intro!: returns_assignment)
next
  case (36 ops ind nx par l r)
  then show ?case
    by (cases r) (auto simp: Let_def nodes_of_map map_NodeOrList_Nil nonempty_list_def set_nodes_of intro!: returns_vardecl)
next
  case (37 ops ind nx par v)
  then show ?case
    by (auto simp: Let_def nodes_of_map set_nodes_of intro!: returns_return)
qed (auto simp: Let_def intro!: returns_identifier returns_temp returns_computed returns_property returns_call
    returns_method returns_paren returns_pure_text returns_number returns_string returns_function returns_binary
    returns_unary returns_interp returns_array returns_tables returns_callstmt returns_blocks returns_numfor
    returns_for returns_fundecl returns_methoddecl returns_comment returns_mapfield returns_part returns_block)

section \<open>Names of temporaries and the whole of \<open>RenderAST\<close>\<close>

definition temp_ok :: "bool \<Rightarrow> string \<Rightarrow> bool" where
  "temp_ok ex name \<longleftrightarrow> (if ex then IsValidIdentifier name else list_all isIdentifierPart name)"

fun event_ok :: "event \<Rightarrow> bool" where
  "event_ok (Before (TemporaryIdentifier nm i ex) h d) = temp_ok ex nm"
| "event_ok _ = True"

lemma event_ok_Before: "renderable n \<Longrightarrow> event_ok (Before n h d)"
  by (cases n) (auto simp: temp_ok_def)

text \<open>Events of well-formed nodes; the rules follow the shape of \<open>visitNode\<close>.\<close>

definition oks :: "event list \<Rightarrow> bool" where
  "oks es \<longleftrightarrow> list_all event_ok es"

lemma oks_append: "oks a \<Longrightarrow> oks b \<Longrightarrow> oks (a @ b)"
  by (simp add: oks_def)

lemma oks_Nil: "oks []"
  by (simp add: oks_def)

lemma oks_node: "event_ok (Before n h d) \<Longrightarrow> oks es \<Longrightarrow> oks (Before n h d # es @ [After n t])"
  by (simp add: oks_def)

lemma oks_concat: "(\<And>x. x \<in> set xs \<Longrightarrow> oks (f x)) \<Longrightarrow> oks (concat (map f xs))"
  by (induction xs) (auto simp: oks_def)

lemma oks_list:
  fixes ss :: "lnode list"
  assumes "\<And>x. x \<in> set ss \<Longrightarrow> renderable x \<Longrightarrow> oks (f x)" "\<forall>x \<in> set ss. renderable x"
  shows "oks (concat (map f ss))"
  using assms by (intro oks_concat) blast

lemma oks_edges:
  assumes "\<And>x. x \<in> set (edges True ss) \<Longrightarrow> renderable (fst x) \<Longrightarrow> oks (f x)" "\<forall>x \<in> set ss. renderable x"
  shows "oks (concat (map f (edges True ss)))"
proof (rule oks_concat)
  fix x assume x: "x \<in> set (edges True ss)"
  with edges_mem [of "fst x" "fst (snd x)" "snd (snd x)" True ss] assms(2) have "renderable (fst x)" by simp
  with assms(1) x show "oks (f x)" .
qed

lemma oks_else:
  assumes "\<And>x. x \<in> set (else_edges v) \<Longrightarrow> renderable (fst x) \<Longrightarrow> oks (f x)" "\<forall>x \<in> set (nodes_of v). renderable x"
  shows "oks (concat (map f (else_edges v)))"
  using assms oks_edges [of _ f] by (cases v) (auto simp: oks_def)

lemma visit_oks: "renderable n \<Longrightarrow> oks (visitNode h t d n)"
proof (induction h t d n rule: visitNode.induct)
  case (1 h t d n)
  show ?case
    apply (subst visitNode.simps)
    apply (rule oks_node [OF event_ok_Before [OF "1.prems"]])
    apply (insert 1)
    apply (cases n)
    apply (auto intro!: oks_Nil oks_append oks_list oks_edges oks_else split: option.splits)
    done
qed

lemma registerNode_temps:
  "registerNode d n s = Some s' \<Longrightarrow> x \<in> set (temps s') \<Longrightarrow>
   x \<in> set (temps s) \<or> (\<exists>nm i ex p. n = TemporaryIdentifier nm i ex \<and> x = (nm, i, ex, p))"
  by (cases n) (auto simp: registerNode_def registerID_def reserveIdentifierUse_def
      split: if_splits list.splits dest!: registerAll_temps)

lemma pop_temps: "do_when b pop_scope s = Some s' \<Longrightarrow> temps s' = temps s"
  by (auto simp: do_when_def pop_scope_def split: if_splits list.splits)

lemma solve_step_temps:
  assumes "solve_step e s = Some s'" "event_ok e" "\<forall>(nm, i, ex, p) \<in> set (temps s). temp_ok ex nm"
  shows "\<forall>(nm, i, ex, p) \<in> set (temps s'). temp_ok ex nm"
proof (cases e)
  case (Before n h d)
  with assms(1) obtain s1 where "registerNode d n s1 = Some s'" "temps s1 = temps s"
    by (auto split: bind_splits dest!: registerAll_temps push_temps)
  then show ?thesis
    using registerNode_temps [of d n s1 s'] assms(2,3) Before by fastforce
qed (use assms in \<open>auto split: bind_splits dest!: pop_temps\<close>)

lemma solve_events_temps:
  "solve_events es s = Some s' \<Longrightarrow> list_all event_ok es \<Longrightarrow> \<forall>(nm, i, ex, p) \<in> set (temps s). temp_ok ex nm \<Longrightarrow>
   \<forall>(nm, i, ex, p) \<in> set (temps s'). temp_ok ex nm"
proof (induction es arbitrary: s)
  case (Cons e es)
  then obtain s1 where s1: "solve_step e s = Some s1" "solve_events es s1 = Some s'"
    by (cases "solve_step e s") (auto simp del: solve_step.simps)
  show ?case using Cons.IH [OF s1(2)] solve_step_temps [OF s1(1)] Cons.prems(2,3) by simp
qed simp

lemma assignTemps_names:
  assumes "wf_scopes sc" "\<forall>(nm, tid, ex, i) \<in> set ts. i < length sc \<and> temp_ok ex nm"
    "\<forall>nm \<in> ran seen. IsValidIdentifier nm" "assignTemps ts (sc, seen) = Some (sc', seen')"
  shows "\<forall>nm \<in> ran seen'. IsValidIdentifier nm"
  using assms
proof (induction ts arbitrary: sc seen)
  case (Cons x ts)
  obtain name tid ex i where x: "x = (name, tid, ex, i)" by (cases x)
  have xi: "i < length sc" "temp_ok ex name" using Cons.prems(2) x by auto
  obtain sc1 seen1 where s1: "assignTemp x (sc, seen) = Some (sc1, seen1)" "wf_scopes sc1" "length sc1 = length sc"
    "seen tid \<noteq> None \<Longrightarrow> seen1 = seen"
    "seen tid = None \<Longrightarrow> \<exists>nm. seen1 = seen(tid \<mapsto> nm) \<and> candidate ex name nm"
    using assignTemp_spec [OF Cons.prems(1) xi(1), of name tid ex seen] unfolding x by metis
  have "\<forall>nm \<in> ran seen1. IsValidIdentifier nm"
    using s1(4,5) Cons.prems(3) candidate_valid [of ex name] xi(2)
    by (cases "seen tid") (auto simp: temp_ok_def ran_def split: if_splits)
  then show ?case
    using Cons.IH [OF s1(2), of seen1] Cons.prems(2,4) s1(1,3) by auto
qed simp

lemma named_names_ok:
  assumes "\<forall>n \<in> set ast. renderable n" "solveTempIDs ast NewRenderState = Some st"
  shows "names_ok st"
proof -
  obtain s sc where s: "solve_events (visitList ast) newSolver = Some s"
    "assignTemps (temps s) (scopes s, seenTempNodes NewRenderState) = Some (sc, seenTempNodes st)"
    using assms(2) by (auto simp: solveTempIDs_def split: bind_splits)
  have "list_all event_ok (visitList ast)"
    using oks_list [OF _ assms(1)] visit_oks by (auto simp: visitList_def oks_def)
  from solve_events_temps [OF s(1) this] have "\<forall>(nm, i, ex, p) \<in> set (temps s). temp_ok ex nm"
    by (simp add: newSolver_def)
  moreover have "wf_scopes (scopes s)" "\<forall>(nm, tid, ex, i) \<in> set (temps s). i < length (scopes s)"
    using walk_store [OF s(1)] by (auto simp: store_ok_def)
  ultimately have "\<forall>nm \<in> ran (seenTempNodes st). IsValidIdentifier nm"
    by (intro assignTemps_names [OF _ _ _ s(2)]) (fastforce simp: NewRenderState_def)+
  then show ?thesis by (simp add: names_ok_def)
qed

section \<open>Properties\<close>

text \<open>C11: a well-formed program is rendered: naming the temporaries and rendering every statement
  return, whatever the tree, and no panic of the renderer is reached.\<close>

theorem RenderAST_total:
  assumes "\<forall>n \<in> set ast. renderable n" "final_last ast"
  shows "\<exists>t. RenderAST ops ast = Some t"
proof -
  obtain s seen' where "named ast (seenTempNodes NewRenderState) s seen'" by (rule named_total)
  then obtain sc where "solve_events (visitList ast) newSolver = Some s"
    "assignTemps (temps s) (scopes s, seenTempNodes NewRenderState) = Some (sc, seen')" unfolding named_def by blast
  then obtain st where st: "solveTempIDs ast NewRenderState = Some st" by (simp add: solveTempIDs_def)
  have "returns (renderStatements (map (\<lambda>x. (fst x, Render ops [] (snd x) None (fst x))) (with_tails ast)))"
    by (rule returns_block [OF _ assms]) (rule Render_returns)
  from returnsE [OF this named_names_ok [OF assms(1) st]]
  obtain x s' where "renderStatements (map (\<lambda>x. (fst x, Render ops [] (snd x) None (fst x))) (with_tails ast)) st =
    Some (x, s')" by blast
  with st show ?thesis by (simp add: RenderAST_def)
qed

theorem RenderAST_total_witness:
  "\<exists>t. RenderAST \<lparr>JSNumberParse = (\<lambda>_. Some (0::nat)), JSNumberString = Itoa, isNumberOne = (\<lambda>n. n = 1)\<rparr> demo_ast = Some t"
proof (rule RenderAST_total)
  show "\<forall>n \<in> set demo_ast. renderable n" by code_simp
  show "final_last demo_ast" by code_simp
qed

section \<open>Statements that could run together\<close>

text \<open>The prefix expressions of the grammar: calls, indexes and fields of names and parentheses.\<close>

fun base_ok :: "lnode \<Rightarrow> bool" where
  "base_ok (Identifier nm) = True"
| "base_ok (TemporaryIdentifier nm i ex) = True"
| "base_ok (ParenthesizedExpression e) = True"
| "base_ok (CallExpression e args) = base_ok e"
| "base_ok (MethodCallExpression nm e args) = base_ok e"
| "base_ok (PropertyAccessExpression e nm) = base_ok e"
| "base_ok (ComputedIndexExpression e i) = base_ok e"
| "base_ok _ = False"

text \<open>The expression that a call statement or an assignment starts with.\<close>

fun stmt_base :: "lnode \<Rightarrow> bool" where
  "stmt_base (CallStatement e) = (base_ok e \<and> IsCall e)"
| "stmt_base (Assignment l op r) = (case nodes_of l of [] \<Rightarrow> False | x # _ \<Rightarrow> base_ok x)"
| "stmt_base n = IsStatement n"

lemma valid_hd: "IsValidIdentifier nm \<Longrightarrow> nm \<noteq> [] \<and> hd nm \<noteq> CHR ''(''"
  by (auto simp: IsValidIdentifier_def isIdentifierStart_def)

lemma paren_start:
  "base_ok e \<Longrightarrow> Render ops ind nx par e s = Some (t, s') \<Longrightarrow> t = [] \<or> hd t = CHR ''('' \<Longrightarrow> startsWithParenthesisInner e"
proof (induction e arbitrary: par s t s' rule: base_ok.induct)
  case (1 nm)
  then show ?case using valid_hd [of nm] by (auto simp: renderIdentifier_def split: if_splits)
next
  case (2 nm i ex)
  then show ?case using valid_hd by (auto simp: renderTemporaryIdentifier_def split: bind_splits if_splits)
next
  case (4 e args)
  then obtain es s1 u where "Render ops ind nx (Some (CallExpression e args, ROther)) e s = Some (es, s1)" "t = es @ CHR ''('' # u"
    by (auto simp: renderCallExpression_def Let_def split: bind_splits)
  with 4 show ?case by (cases es) auto
next
  case (5 nm e args)
  then obtain es s1 u where "Render ops ind nx (Some (MethodCallExpression nm e args, ROther)) e s = Some (es, s1)" "t = es @ CHR '':'' # u"
    by (auto simp: renderMethodCallExpression_def Let_def split: bind_splits if_splits)
  with 5 show ?case by (cases es) auto
next
  case (6 e nm)
  then obtain es s1 u c where "Render ops ind nx (Some (PropertyAccessExpression e nm, ROther)) e s = Some (es, s1)" "t = es @ c # u"
    by (auto simp: renderPropertyAccessExpression_def split: bind_splits if_splits)
  with 6 show ?case by (cases es) auto
next
  case (7 e i)
  then obtain es s1 u c where "Render ops ind nx (Some (ComputedIndexExpression e i, ROther)) e s = Some (es, s1)" "t = es @ c # u"
    by (auto simp: renderComputedIndexExpression_def Let_def split: bind_splits if_splits lnode.splits)
  with 7 show ?case by (cases es) auto
qed auto

lemma Join_start: "\<exists>v. Join (e # es) p = e @ v"
  by (cases es) auto

lemma exprs_start:
  assumes "renderExprOrList (List (m # ms)) s = Some (u, s')"
  shows "\<exists>e s1 v. m s = Some (e, s1) \<and> u = e @ v"
proof -
  obtain e s1 es s2 where "m s = Some (e, s1)" "renderAll ms s1 = Some (es, s2)" "u = Join (e # es) '', ''"
    using assms by (auto simp: renderExprOrList_def split: bind_splits)
  then show ?thesis using Join_start [of e es "'', ''"] by auto
qed

lemma statement_start:
  assumes "stmt_base n" "Render ops ind nx par n s = Some (t, s')" "take 1 (drop (length ind) t) = ''(''"
  shows "startsWithParenthesis n = Some True \<and> \<not> isComment n"
proof (cases n)
  case (CallStatement e)
  from assms(2) CallStatement obtain es s1 u where "Render ops ind nx (Some (n, ROther)) e s = Some (es, s1)" "t = ind @ es @ u"
    by (auto simp: renderCallStatement_def LineWithEnd_def split: bind_splits)
  moreover from this assms(3) have "es = [] \<or> hd es = CHR ''(''" by (cases es) auto
  moreover have "base_ok e" "IsCall e" using assms(1) CallStatement by simp_all
  ultimately have "startsWithParenthesisInner e" using paren_start by blast
  with CallStatement \<open>IsCall e\<close> show ?thesis
    by (cases e) (auto simp: startsWithParenthesis_def isComment_def IsCall_def)
next
  case (Assignment l op r)
  obtain x xs where x: "nodes_of l = x # xs" "base_ok x" using assms(1) Assignment by (auto split: list.splits)
  let ?ms = "map_NodeOrList (\<lambda>m. Render ops ind nx (Some (n, ROther)) m) l"
  from assms(2) Assignment obtain ls s1 u where ls: "renderExprOrList ?ms s = Some (ls, s1)" "t = ind @ ls @ u"
    by (auto simp: renderAssignment_def LineWithEnd_def Let_def split: bind_splits)
  then obtain es s2 v where "Render ops ind nx (Some (n, ROther)) x s = Some (es, s2)" "ls = es @ v"
    using x(1) exprs_start by (cases l) (fastforce simp: renderExprOrList_def)+
  moreover from this ls(2) assms(3) have "es = [] \<or> hd es = CHR ''(''" by (cases es) auto
  ultimately have "startsWithParenthesisInner x" using paren_start [OF x(2)] by blast
  moreover have "IsExpression x" using x(2) by (cases x) (simp_all add: IsExpression_def kind_between_def kind_code_def all_kinds_def)
  ultimately show ?thesis using Assignment x(1)
    by (cases l) (auto simp: startsWithParenthesis_def isComment_def)
qed (use assms in \<open>auto simp: Line_r_def LineWithEnd_def Let_def pure_text_def renderDoStatement_def
    renderWhileStatement_def renderRepeatStatement_def renderIfStatement_def renderNumericForStatement_def
    renderForStatement_def renderFunctionDeclaration_def renderMethodDeclaration_def renderVariableDeclaration_def
    renderReturnStatement_def renderComment_def IsStatement_def kind_between_def kind_code_def all_kinds_def
    split: bind_splits if_splits option.splits NodeOrList.splits list.splits\<close>)

text \<open>The statements after which Luau could read a parenthesis as the arguments of a call, by its grammar: a call, and a
  declaration or assignment whose last value is a prefix expression (a name, a call, an index or a parenthesis) or ends in one
  as the operand on the right, the operand or the alternative of an operator or a conditional expression.\<close>

inductive ends_prefix :: "lnode \<Rightarrow> bool" where
  prefix: "IsIndexableExpression e \<Longrightarrow> ends_prefix e"
| binary: "ends_prefix r \<Longrightarrow> ends_prefix (BinaryExpression l op r)"
| unary: "ends_prefix e \<Longrightarrow> ends_prefix (UnaryExpression op e)"
| alternative: "ends_prefix a \<Longrightarrow> ends_prefix (IfExpression c e a)"

fun ends_callable :: "lnode \<Rightarrow> bool" where
  "ends_callable (CallStatement e) = True"
| "ends_callable (VariableDeclaration l (Some r)) = (nodes_of r \<noteq> [] \<and> ends_prefix (last (nodes_of r)))"
| "ends_callable (Assignment l op r) = (nodes_of r \<noteq> [] \<and> ends_prefix (last (nodes_of r)))"
| "ends_callable _ = False"

lemmas kind_simps = IsIndexableExpression_def IsExpression_def kind_between_def kind_code_def all_kinds_def

lemma ends_prefix_inner: "ends_prefix e \<Longrightarrow> endsWithIndexableExpressionInner e \<and> IsExpression e"
proof (induction rule: ends_prefix.induct)
  case (prefix e)
  then show ?case by (cases e) (simp_all add: kind_simps)
qed (simp_all add: kind_simps)

lemma ends_callable_ends: "ends_callable n \<Longrightarrow> endsWithIndexableExpression n = Some True"
  using ends_prefix_inner
  by (cases n rule: ends_callable.cases)
    (auto simp: endsWithIndexableExpression_def endsWithLast_def lastExprOf_def split: NodeOrList.splits)

text \<open>C15: a semicolon separates two statements that Luau would run together: when the text of the
  next statement, after any comments, opens with a parenthesis and the statement before it is a call, or a declaration or
  assignment whose last value is a prefix expression or ends in one as the right operand of an operator, the operand of a
  unary one or the alternative of a conditional, then the text of the first statement ends with a semicolon.\<close>

theorem getEnding_separates:
  assumes "list_all isComment cs" "stmt_base nxt"
    and "Render ops ind nx par nxt s = Some (t, s')" "take 1 (drop (length ind) t) = ''(''"
    and "ends_callable n" "Render ops ind (cs @ nxt # nx1) par1 n s1 = Some (t1, s2)"
  shows "\<exists>u. t1 = u @ '';'' @ [LF]"
proof -
  have s: "startsWithParenthesis nxt = Some True" "\<not> isComment nxt"
    using statement_start [OF assms(2,3,4)] by auto
  then have "getNextNonComment (cs @ nxt # nx1) = Some nxt"
    using assms(1) by (simp add: getNextNonComment_def dropWhile_append2 list_all_iff)
  with s(1) ends_callable_ends [OF assms(5)] have l: "LineWithEnd ind (cs @ nxt # nx1) n u = Some (ind @ u @ '';'' @ [LF])" for u
    by (simp add: LineWithEnd_def getEnding_def)
  then show ?thesis using assms(5,6)
    by (cases n rule: ends_callable.cases)
      (auto simp: renderCallStatement_def renderVariableDeclaration_def renderAssignment_def Let_def
        split: bind_splits if_splits option.splits NodeOrList.splits list.splits)
qed

theorem getEnding_separates_witness:
  "\<exists>t1 u. map_option fst (Render \<lparr>JSNumberParse = (\<lambda>_. Some (0::nat)), JSNumberString = Itoa, isNumberOne = (\<lambda>n. n = 1)\<rparr> []
       ([Comment ''c''] @ CallStatement (CallExpression (ParenthesizedExpression (FunctionExpression [] False [])) []) # []) None
       (VariableDeclaration (One (Identifier ''x'')) (Some (One (UnaryExpression ''not'' (Identifier ''y''))))) NewRenderState) = Some t1 \<and>
     t1 = u @ '';'' @ [LF]"
proof -
  let ?ops = "\<lparr>JSNumberParse = (\<lambda>_. Some (0::nat)), JSNumberString = Itoa, isNumberOne = (\<lambda>n. n = 1)\<rparr>"
  let ?n = "CallStatement (CallExpression (ParenthesizedExpression (FunctionExpression [] False [])) [])"
  let ?d = "VariableDeclaration (One (Identifier ''x'')) (Some (One (UnaryExpression ''not'' (Identifier ''y''))))"
  have "map_option fst (Render ?ops [] [] None ?n NewRenderState) = Some (''(function() end)()'' @ [LF])" by code_simp
  then obtain s' where n: "Render ?ops [] [] None ?n NewRenderState = Some (''(function() end)()'' @ [LF], s')" by auto
  have "Render ?ops [] ([Comment ''c''] @ ?n # []) None ?d NewRenderState \<noteq> None" by code_simp
  then obtain t1 s2 where d: "Render ?ops [] ([Comment ''c''] @ ?n # []) None ?d NewRenderState = Some (t1, s2)" by auto
  have "ends_callable ?d" by (auto intro!: ends_prefix.intros simp: kind_simps)
  from getEnding_separates [OF _ _ n _ this d] show ?thesis using d by (simp add: isComment_def IsCall_def)
qed

text \<open>Other endings are not seen: after a declaration whose value ends in a parenthesis that the renderer adds, there is no
  semicolon, and the parser reads the two statements as one.\<close>

lemma getEnding_misses:
  "let ops = \<lparr>JSNumberParse = (\<lambda>_. Some (0::nat)), JSNumberString = Itoa, isNumberOne = (\<lambda>n. n = 1)\<rparr>;
       d = VariableDeclaration (One (Identifier ''x'')) (Some (One (BinaryExpression (Identifier ''a'') ''*''
             (BinaryExpression (Identifier ''b'') ''+'' (NumberLiteral ''1'')))));
       c = CallStatement (CallExpression (ParenthesizedExpression (FunctionExpression [] False [])) [])
   in map_option fst (Render ops [] [c] None d NewRenderState) = Some (''local x = a * (b + 1)'' @ [LF])"
  by code_simp

lemma getEnding_misses_parse:
  "(case Parse (''local x = a * (b + 1)'' @ [LF] @ ''(function() end)()'' @ [LF]) of
      Some (f, ds) \<Rightarrow> ds = [] \<and> (case Body f of Block ss \<Rightarrow> length ss = 1 | _ \<Rightarrow> False) | None \<Rightarrow> False)"
  by code_simp

section \<open>Operator precedence\<close>

definition binary_ops :: "string list" where
  "binary_ops = [''or'', ''and'', ''<'', ''>'', ''<='', ''>='', ''~='', ''=='', ''..'', ''+'', ''-'',
     ''*'', ''/'', ''//'', ''%'', ''^'']"

text \<open>The token of an operator, as the scanner makes it.\<close>

definition op_token :: "string \<Rightarrow> token" where
  "op_token op = (Token zeroRef)\<lparr>Kind := (if isNameStart (hd op) then KName else KSymbol), Text := op\<rparr>"

text \<open>The renderer's table of operator precedences is the parser's: it gives an operator a level
  exactly when the parser has it as a binary operator, and then the same level; unary operators have
  the parser's unary level. The scanner reads each operator back as one such token.\<close>

theorem precedence_tables_agree:
  "map_option fst (binPrec (op_token op)) =
     (if binaryOperatorPrecedence op = 0 then None else Some (binaryOperatorPrecedence op)) \<and>
   unaryOperatorPrecedence op = (if op \<in> {''not'', ''#'', ''-''} then unaryPrec else 0) \<and>
   list_all (\<lambda>op. kinds_texts (fst (Tokenize op)) = [(Kind (op_token op), op), (KEOF, [])]) binary_ops"
proof -
  have "list_all (\<lambda>op. kinds_texts (fst (Tokenize op)) = [(Kind (op_token op), op), (KEOF, [])]) binary_ops"
    by code_simp
  moreover have "map_option fst (binPrec (op_token op)) =
     (if binaryOperatorPrecedence op = 0 then None else Some (binaryOperatorPrecedence op))"
  proof (cases "op \<in> set binary_ops")
    case True
    have "list_all (\<lambda>op. map_option fst (binPrec (op_token op)) =
      (if binaryOperatorPrecedence op = 0 then None else Some (binaryOperatorPrecedence op))) binary_ops" by code_simp
    with True show ?thesis by (simp add: list_all_iff)
  next
    case False
    then have "binaryOperatorPrecedence op = 0" "binPrec (op_token op) = None"
      by (simp_all add: binary_ops_def binaryOperatorPrecedence_def binPrec_def op_token_def)
    then show ?thesis by simp
  qed
  ultimately show ?thesis by (simp add: unaryOperatorPrecedence_def unaryPrec_def)
qed

text \<open>The operands and the operator at the top of the expression that a file returns, as text.\<close>

definition trim :: "string \<Rightarrow> string" where
  "trim t = rev (dropWhile isSpace (rev (dropWhile isSpace t)))"

definition returned_shape :: "cst_file \<Rightarrow> string list" where
  "returned_shape f =
     (case Body f of
        Block [ReturnStmt r (ExprList [Binary l op e] seps) semi] \<Rightarrow> [trim (Unparse l), Text (Token op), trim (Unparse e)]
      | _ \<Rightarrow> [])"

text \<open>A power whose left operand is a power is rendered without parentheses, and the parser,
  for which \<open>^\<close> is right-associative, groups the text the other way.\<close>

theorem render_pow_regroups:
  "map_option fst (Render ops [] [] None
     (BinaryExpression (BinaryExpression (Identifier ''a'') ''^'' (Identifier ''b'')) ''^'' (Identifier ''c'')) NewRenderState) =
   Some ''a ^ b ^ c'' \<and>
   map_option (\<lambda>(f, ds). (returned_shape f, ds)) (Parse ''return a ^ b ^ c'') =
   Some ([''a'', ''^'', ''b ^ c''], [])"
proof
  have v: "IsValidIdentifier ''a''" "IsValidIdentifier ''b''" "IsValidIdentifier ''c''" by code_simp+
  show "map_option fst (Render ops [] [] None
     (BinaryExpression (BinaryExpression (Identifier ''a'') ''^'' (Identifier ''b'')) ''^'' (Identifier ''c'')) NewRenderState) =
    Some ''a ^ b ^ c''"
    using v by (simp add: Let_def renderBinaryExpression_def renderIdentifier_def needsParentheses_def parenthesize_def)
  show "map_option (\<lambda>(f, ds). (returned_shape f, ds)) (Parse ''return a ^ b ^ c'') =
    Some ([''a'', ''^'', ''b ^ c''], [])" by code_simp
qed

end
