(* ===== verification/Luau_List.thy ===== *)
theory Luau_List
  imports Prelude
begin

text \<open>
  The doubly linked list of \<open>src/internal/luau/list.go\<close> over an explicit store, because a list
  shares its nodes with the list that it was appended to. A pointer is an index into the store's
  nodes or lists, nil is \<open>None\<close>, and \<open>None\<close> as a result is the panic of \<open>assertWritable\<close> or,
  for the loops, a loop that does not end.

  The abstract specification is a map from the writable lists to their values; the operations
  are shown to implement it.
\<close>

section \<open>Store and operations (\<open>list.go\<close>)\<close>

record 'v ListNode =
  LPrev :: "nat option"
  LNext :: "nat option"
  LValue :: 'v

record List_r =
  LHead :: "nat option"
  LTail :: "nat option"
  ReadOnly :: bool

record 'v store =
  cells :: "'v ListNode list"
  lists :: "List_r list"

definition setNext :: "nat \<Rightarrow> nat option \<Rightarrow> 'v store \<Rightarrow> 'v store" where
  "setNext a p st = st\<lparr>cells := (cells st)[a := (cells st ! a)\<lparr>LNext := p\<rparr>]\<rparr>"

definition setPrev :: "nat \<Rightarrow> nat option \<Rightarrow> 'v store \<Rightarrow> 'v store" where
  "setPrev a p st = st\<lparr>cells := (cells st)[a := (cells st ! a)\<lparr>LPrev := p\<rparr>]\<rparr>"

definition setList :: "nat \<Rightarrow> (List_r \<Rightarrow> List_r) \<Rightarrow> 'v store \<Rightarrow> 'v store" where
  "setList l f st = st\<lparr>lists := (lists st)[l := f (lists st ! l)]\<rparr>"

text \<open>\<open>node := &ListNode[T]{Value: value}\<close>: a new node; its address is the number of nodes before.\<close>

definition newNode :: "'v \<Rightarrow> 'v store \<Rightarrow> nat \<times> 'v store" where
  "newNode v st = (length (cells st), st\<lparr>cells := cells st @ [\<lparr>LPrev = None, LNext = None, LValue = v\<rparr>]\<rparr>)"

definition emptyList :: "'v store \<Rightarrow> nat \<times> 'v store" where
  "emptyList st = (length (lists st), st\<lparr>lists := lists st @ [\<lparr>LHead = None, LTail = None, ReadOnly = False\<rparr>]\<rparr>)"

definition assertWritable :: "nat \<Rightarrow> 'v store \<Rightarrow> unit option" where
  "assertWritable l st = (if ReadOnly (lists st ! l) then None else Some ())"

definition Push :: "nat \<Rightarrow> 'v \<Rightarrow> 'v store \<Rightarrow> 'v store option" where
  "Push l v st = do {
     assertWritable l st;
     let (n, st1) = newNode v st;
     Some (setList l (\<lambda>r. r\<lparr>LTail := Some n\<rparr>)
       (case LTail (lists st ! l) of
          Some t \<Rightarrow> setPrev n (Some t) (setNext t (Some n) st1)
        | None \<Rightarrow> setList l (\<lambda>r. r\<lparr>LHead := Some n\<rparr>) st1))
   }"

definition PushList :: "nat \<Rightarrow> nat \<Rightarrow> 'v store \<Rightarrow> 'v store option" where
  "PushList l k st = do {
     assertWritable l st;
     assertWritable k st;
     let st1 = setList k (\<lambda>r. r\<lparr>ReadOnly := True\<rparr>) st;
     Some (case (LHead (lists st1 ! k), LTail (lists st1 ! k)) of
         (Some h, Some t) \<Rightarrow>
           (case LHead (lists st1 ! l) of
              Some _ \<Rightarrow>
                (let lt = LTail (lists st1 ! l) in
                 setList l (\<lambda>r. r\<lparr>LTail := Some t\<rparr>)
                   (setPrev h lt (setNext (the lt) (Some h) st1)))
            | None \<Rightarrow> setList l (\<lambda>r. r\<lparr>LHead := Some h, LTail := Some t\<rparr>) st1)
       | _ \<Rightarrow> st1)
   }"

definition Shift :: "nat \<Rightarrow> 'v store \<Rightarrow> ('v option \<times> 'v store) option" where
  "Shift l st = do {
     assertWritable l st;
     (case LHead (lists st ! l) of
        None \<Rightarrow> Some (None, st)
      | Some h \<Rightarrow>
          (let v = LValue (cells st ! h) in
           case LNext (cells st ! h) of
             Some n \<Rightarrow> Some (Some v, setPrev n None (setList l (\<lambda>r. r\<lparr>LHead := Some n\<rparr>) st))
           | None \<Rightarrow> Some (Some v, setList l (\<lambda>r. r\<lparr>LHead := None, LTail := None\<rparr>) st)))
   }"

definition Unshift :: "nat \<Rightarrow> 'v \<Rightarrow> 'v store \<Rightarrow> 'v store option" where
  "Unshift l v st = do {
     assertWritable l st;
     let (n, st1) = newNode v st;
     Some (setList l (\<lambda>r. r\<lparr>LHead := Some n\<rparr>)
       (case LHead (lists st ! l) of
          Some h \<Rightarrow> setNext n (Some h) (setPrev h (Some n) st1)
        | None \<Rightarrow> setList l (\<lambda>r. r\<lparr>LTail := Some n\<rparr>) st1))
   }"

definition UnshiftList :: "nat \<Rightarrow> nat \<Rightarrow> 'v store \<Rightarrow> 'v store option" where
  "UnshiftList l k st = do {
     assertWritable l st;
     assertWritable k st;
     let st1 = setList k (\<lambda>r. r\<lparr>ReadOnly := True\<rparr>) st;
     Some (case (LHead (lists st1 ! k), LTail (lists st1 ! k)) of
         (Some h, Some t) \<Rightarrow>
           (case LHead (lists st1 ! l) of
              Some lh \<Rightarrow>
                setList l (\<lambda>r. r\<lparr>LHead := Some h\<rparr>)
                  (setNext t (Some lh) (setPrev lh (Some t) st1))
            | None \<Rightarrow> setList l (\<lambda>r. r\<lparr>LHead := Some h, LTail := Some t\<rparr>) st1)
       | _ \<Rightarrow> st1)
   }"

definition IsEmpty :: "nat \<Rightarrow> 'v store \<Rightarrow> bool" where
  "IsEmpty l st \<longleftrightarrow> LHead (lists st ! l) = None"

definition IsNonEmpty :: "nat \<Rightarrow> 'v store \<Rightarrow> bool" where
  "IsNonEmpty l st \<longleftrightarrow> LHead (lists st ! l) \<noteq> None"

text \<open>The loops \<open>for n := l.Head; n != nil; n = n.Next\<close>.\<close>

partial_function (option) forEachFrom :: "'v ListNode list \<Rightarrow> nat option \<Rightarrow> 'v list \<Rightarrow> 'v list option" where
  "forEachFrom h p acc =
     (case p of None \<Rightarrow> Some acc | Some a \<Rightarrow> forEachFrom h (LNext (h ! a)) (acc @ [LValue (h ! a)]))"

partial_function (option) someFrom :: "'v ListNode list \<Rightarrow> ('v \<Rightarrow> bool) \<Rightarrow> nat option \<Rightarrow> bool option" where
  "someFrom h f p =
     (case p of None \<Rightarrow> Some False
      | Some a \<Rightarrow> if f (LValue (h ! a)) then Some True else someFrom h f (LNext (h ! a)))"

partial_function (option) everyFrom :: "'v ListNode list \<Rightarrow> ('v \<Rightarrow> bool) \<Rightarrow> nat option \<Rightarrow> bool option" where
  "everyFrom h f p =
     (case p of None \<Rightarrow> Some True
      | Some a \<Rightarrow> if \<not> f (LValue (h ! a)) then Some False else everyFrom h f (LNext (h ! a)))"

partial_function (option) sizeFrom :: "'v ListNode list \<Rightarrow> nat option \<Rightarrow> nat \<Rightarrow> nat option" where
  "sizeFrom h p n = (case p of None \<Rightarrow> Some n | Some a \<Rightarrow> sizeFrom h (LNext (h ! a)) (n + 1))"

declare forEachFrom.simps [code] someFrom.simps [code] everyFrom.simps [code] sizeFrom.simps [code]

text \<open>\<open>ForEach\<close> with the callback that collects the values is \<open>ToSlice\<close>.\<close>

definition ToSlice :: "nat \<Rightarrow> 'v store \<Rightarrow> 'v list option" where
  "ToSlice l st = forEachFrom (cells st) (LHead (lists st ! l)) []"

definition Some_l :: "nat \<Rightarrow> ('v \<Rightarrow> bool) \<Rightarrow> 'v store \<Rightarrow> bool option" where
  "Some_l l f st = someFrom (cells st) f (LHead (lists st ! l))"

definition Every :: "nat \<Rightarrow> ('v \<Rightarrow> bool) \<Rightarrow> 'v store \<Rightarrow> bool option" where
  "Every l f st = everyFrom (cells st) f (LHead (lists st ! l))"

definition Size :: "nat \<Rightarrow> 'v store \<Rightarrow> nat option" where
  "Size l st = sizeFrom (cells st) (LHead (lists st ! l)) 0"

fun pushAll :: "nat \<Rightarrow> 'v list \<Rightarrow> 'v store \<Rightarrow> 'v store option" where
  "pushAll l [] st = Some st"
| "pushAll l (v # vs) st = do { st1 \<leftarrow> Push l v st; pushAll l vs st1 }"

definition NewList :: "'v list \<Rightarrow> 'v store \<Rightarrow> (nat \<times> 'v store) option" where
  "NewList vs st = do {
     let (l, st1) = emptyList st;
     st2 \<leftarrow> pushAll l vs st1;
     Some (l, st2)
   }"

text \<open>\<open>Clone\<close>, with the element's \<open>shallowClone\<close> as an argument.\<close>

definition Clone :: "('v \<Rightarrow> 'v) \<Rightarrow> nat \<Rightarrow> 'v store \<Rightarrow> (nat \<times> 'v store) option" where
  "Clone shallowClone l st = do { vs \<leftarrow> ToSlice l st; NewList (map shallowClone vs) st }"

section \<open>Segments of nodes\<close>

text \<open>
  \<open>dll h pv x as y nx\<close>: from the node \<open>x\<close> the next pointers lead through the addresses of
  \<open>as\<close>, with their values, to \<open>nx\<close>; the previous pointers lead back to \<open>pv\<close>, and \<open>y\<close> is the
  last node (or \<open>pv\<close> if there is none).
\<close>

fun dll :: "'v ListNode list \<Rightarrow> nat option \<Rightarrow> nat option \<Rightarrow> (nat \<times> 'v) list \<Rightarrow> nat option \<Rightarrow> nat option \<Rightarrow> bool" where
  "dll h pv x [] y nx \<longleftrightarrow> x = nx \<and> y = pv"
| "dll h pv x ((a, v) # r) y nx \<longleftrightarrow> x = Some a \<and> a < length h \<and> LPrev (h ! a) = pv \<and> LValue (h ! a) = v \<and>
     dll h (Some a) (LNext (h ! a)) r y nx"

abbreviation addrs :: "(nat \<times> 'v) list \<Rightarrow> nat set" where
  "addrs as \<equiv> fst ` set as"

lemma dll_append: "dll h pv x (as @ bs) y nx \<longleftrightarrow> (\<exists>m k. dll h pv x as k m \<and> dll h k m bs y nx)"
proof (induction as arbitrary: pv x)
  case (Cons p as)
  then show ?case by (cases p) (auto; blast)
qed simp

lemma dll_frame:
  "dll h pv x as y nx \<Longrightarrow> length h \<le> length h' \<Longrightarrow> (\<And>a. a \<in> addrs as \<Longrightarrow> h' ! a = h ! a) \<Longrightarrow> dll h' pv x as y nx"
  by (induction as arbitrary: pv x) auto

lemma dll_addrs: "dll h pv x as y nx \<Longrightarrow> a \<in> addrs as \<Longrightarrow> a < length h"
proof (induction as arbitrary: pv x)
  case (Cons p as)
  then show ?case by (cases p) (simp, blast)
qed simp

lemma dll_last: "dll h pv x as y nx \<Longrightarrow> as \<noteq> [] \<Longrightarrow> y = Some (fst (last as)) \<and> x = Some (fst (hd as))"
proof (induction as arbitrary: pv x)
  case (Cons p as)
  obtain a v where "p = (a, v)" by (cases p)
  with Cons show ?case by (cases as) auto
qed simp

text \<open>Changing the next pointer of the last node, or the previous pointer of the first.\<close>

lemma dll_relink_next:
  assumes "dll h pv x as y nx" "distinct (map fst as)" "as \<noteq> []" "t = fst (last as)"
  shows "dll (h[t := (h ! t)\<lparr>LNext := nx'\<rparr>]) pv x as y nx'"
proof -
  obtain bs v where as: "as = bs @ [(t, v)]" using assms(3,4) by (cases as rule: rev_cases) auto
  then obtain m k where d: "dll h pv x bs k m" "m = Some t" "t < length h" "LPrev (h ! t) = k" "LValue (h ! t) = v" "y = Some t"
    using assms(1) by (auto simp: dll_append)
  have "dll (h[t := (h ! t)\<lparr>LNext := nx'\<rparr>]) pv x bs k m"
  proof (rule dll_frame [OF d(1)])
    fix a assume "a \<in> addrs bs"
    then have "a \<noteq> t" using as assms(2) by auto
    then show "h[t := (h ! t)\<lparr>LNext := nx'\<rparr>] ! a = h ! a" by simp
  qed simp
  with d as show ?thesis by (auto simp: dll_append)
qed

lemma dll_relink_prev:
  assumes "dll h pv x as y nx" "distinct (map fst as)" "as \<noteq> []" "t = fst (hd as)"
  shows "dll (h[t := (h ! t)\<lparr>LPrev := pv'\<rparr>]) pv' x as y nx"
proof -
  obtain bs v where as: "as = (t, v) # bs" using assms(3,4) by (cases as) auto
  then have d: "x = Some t" "t < length h" "LValue (h ! t) = v" "dll h (Some t) (LNext (h ! t)) bs y nx"
    using assms(1) by auto
  have "dll (h[t := (h ! t)\<lparr>LPrev := pv'\<rparr>]) (Some t) (LNext (h ! t)) bs y nx"
  proof (rule dll_frame [OF d(4)])
    fix a assume "a \<in> addrs bs"
    then have "a \<noteq> t" using as assms(2) by auto
    then show "h[t := (h ! t)\<lparr>LPrev := pv'\<rparr>] ! a = h ! a" by simp
  qed simp
  with d as show ?thesis by simp
qed

section \<open>The store represents a map of sequences\<close>

text \<open>
  Every writable list is a segment of its own, from nil to nil, and no two of them share a node.
\<close>

definition segments :: "'v store \<Rightarrow> (nat \<Rightarrow> (nat \<times> 'v) list option) \<Rightarrow> bool" where
  "segments st A \<longleftrightarrow>
     (\<forall>l as. A l = Some as \<longrightarrow> l < length (lists st) \<and> \<not> ReadOnly (lists st ! l) \<and> distinct (map fst as) \<and>
        dll (cells st) None (LHead (lists st ! l)) as (LTail (lists st ! l)) None) \<and>
     (\<forall>l k as bs. A l = Some as \<longrightarrow> A k = Some bs \<longrightarrow> l \<noteq> k \<longrightarrow> addrs as \<inter> addrs bs = {}) \<and>
     (\<forall>l < length (lists st). A l = None \<longrightarrow> ReadOnly (lists st ! l))"

definition represents :: "'v store \<Rightarrow> (nat \<Rightarrow> 'v list option) \<Rightarrow> bool" where
  "represents st m \<longleftrightarrow> (\<exists>A. segments st A \<and> m = (\<lambda>l. map_option (map snd) (A l)))"

lemma segmentsD:
  assumes "segments st A" "A l = Some as"
  shows "l < length (lists st)" "\<not> ReadOnly (lists st ! l)" "distinct (map fst as)"
    "dll (cells st) None (LHead (lists st ! l)) as (LTail (lists st ! l)) None"
  using assms by (simp_all add: segments_def)

lemma segments_disjoint:
  "segments st A \<Longrightarrow> A l = Some as \<Longrightarrow> A k = Some bs \<Longrightarrow> l \<noteq> k \<Longrightarrow> addrs as \<inter> addrs bs = {}"
  by (simp add: segments_def)

text \<open>The one step of all updates: the list \<open>l\<close> becomes the segment \<open>as'\<close>, the lists \<open>K\<close> become
  read-only, and the nodes of the other lists stay as they are.\<close>

lemma segments_update:
  assumes "segments st A" "l < length (lists st)" "l \<notin> K"
    and "length (lists st') = length (lists st)" "length (cells st) \<le> length (cells st')"
    and "\<And>j. j \<noteq> l \<Longrightarrow> j \<notin> K \<Longrightarrow> lists st' ! j = lists st ! j"
    and "\<And>j. j \<in> K \<Longrightarrow> j < length (lists st) \<Longrightarrow> ReadOnly (lists st' ! j)"
    and "\<And>j bs a. j \<noteq> l \<Longrightarrow> j \<notin> K \<Longrightarrow> A j = Some bs \<Longrightarrow> a \<in> addrs bs \<Longrightarrow> cells st' ! a = cells st ! a \<and> a \<notin> addrs as'"
    and "\<not> ReadOnly (lists st' ! l)" "distinct (map fst as')"
    and "dll (cells st') None (LHead (lists st' ! l)) as' (LTail (lists st' ! l)) None"
  shows "segments st' (\<lambda>j. if j = l then Some as' else if j \<in> K then None else A j)"
proof -
  let ?A = "\<lambda>j. if j = l then Some as' else if j \<in> K then None else A j"
  have frame: "dll (cells st') None (LHead (lists st' ! j)) bs (LTail (lists st' ! j)) None"
    if "j \<noteq> l" "j \<notin> K" "A j = Some bs" for j bs
    using dll_frame [OF segmentsD(4) [OF assms(1) that(3)] assms(5)] assms(6,8) that by metis
  have "j < length (lists st') \<and> \<not> ReadOnly (lists st' ! j) \<and> distinct (map fst bs) \<and>
      dll (cells st') None (LHead (lists st' ! j)) bs (LTail (lists st' ! j)) None" if "?A j = Some bs" for j bs
    using that frame [of j bs] segmentsD [OF assms(1), of j bs] assms(2,4,6,9,10,11) by (auto split: if_splits)
  moreover have "addrs bs \<inter> addrs cs = {}" if "?A j = Some bs" "?A k = Some cs" "j \<noteq> k" for j k bs cs
    using that assms(8) [of j bs] assms(8) [of k cs] segments_disjoint [OF assms(1), of j bs k cs]
    by (auto split: if_splits)
  moreover have "ReadOnly (lists st' ! j)" if "j < length (lists st')" "?A j = None" for j
    using that assms(1,4,6,7) by (auto simp: segments_def split: if_splits)
  ultimately show ?thesis unfolding segments_def by blast
qed

lemma represents_update:
  assumes "segments st' (\<lambda>j. if j = l then Some as' else if j \<in> K then None else A j)"
    "m = (\<lambda>l. map_option (map snd) (A l))"
  shows "represents st' (\<lambda>j. if j = l then Some (map snd as') else if j \<in> K then None else m j)"
  unfolding represents_def
  by (intro exI conjI, rule assms(1)) (auto simp: assms(2))

text \<open>The loops return on a segment that ends in nil.\<close>

lemma forEachFrom_dll: "dll h pv x as y None \<Longrightarrow> forEachFrom h x acc = Some (acc @ map snd as)"
proof (induction as arbitrary: pv x acc)
  case (Cons p as)
  then show ?case by (cases p) (subst forEachFrom.simps, auto)
qed (subst forEachFrom.simps, simp)

lemma someFrom_dll: "dll h pv x as y None \<Longrightarrow> someFrom h f x = Some (\<exists>v \<in> snd ` set as. f v)"
proof (induction as arbitrary: pv x)
  case (Cons p as)
  then show ?case by (cases p) (subst someFrom.simps, auto)
qed (subst someFrom.simps, simp)

lemma everyFrom_dll: "dll h pv x as y None \<Longrightarrow> everyFrom h f x = Some (\<forall>v \<in> snd ` set as. f v)"
proof (induction as arbitrary: pv x)
  case (Cons p as)
  then show ?case by (cases p) (subst everyFrom.simps, auto)
qed (subst everyFrom.simps, simp)

lemma sizeFrom_dll: "dll h pv x as y None \<Longrightarrow> sizeFrom h x n = Some (n + length as)"
proof (induction as arbitrary: pv x n)
  case (Cons p as)
  then show ?case by (cases p) (subst sizeFrom.simps, auto)
qed (subst sizeFrom.simps, simp)

section \<open>The interface\<close>

text \<open>
  What a client of the lists relies on: a map from the writable lists to their sequences, the
  effect of every operation on it, and the panic on a list that is not in it.
\<close>

locale sequences =
  fixes rep :: "'st \<Rightarrow> (nat \<Rightarrow> 'v list option) \<Rightarrow> bool"
    and new :: "'st \<Rightarrow> nat \<times> 'st"
    and push :: "nat \<Rightarrow> 'v \<Rightarrow> 'st \<Rightarrow> 'st option"
    and append :: "nat \<Rightarrow> nat \<Rightarrow> 'st \<Rightarrow> 'st option"
    and contents :: "nat \<Rightarrow> 'st \<Rightarrow> 'v list option"
  assumes new_law: "rep st m \<Longrightarrow> m (fst (new st)) = None \<and> rep (snd (new st)) (m(fst (new st) \<mapsto> []))"
    and push_law: "rep st m \<Longrightarrow> m l = Some xs \<Longrightarrow> \<exists>st'. push l v st = Some st' \<and> rep st' (m(l \<mapsto> xs @ [v]))"
    and append_law: "rep st m \<Longrightarrow> m l = Some xs \<Longrightarrow> m k = Some ys \<Longrightarrow> l \<noteq> k \<Longrightarrow>
      \<exists>st'. append l k st = Some st' \<and> rep st' (m(l \<mapsto> xs @ ys, k := None))"
    and contents_law: "rep st m \<Longrightarrow> m l = Some xs \<Longrightarrow> contents l st = Some xs"
begin

fun push_all :: "nat \<Rightarrow> 'v list \<Rightarrow> 'st \<Rightarrow> 'st option" where
  "push_all l [] st = Some st"
| "push_all l (v # vs) st = do { st1 \<leftarrow> push l v st; push_all l vs st1 }"

lemma push_all:
  "rep st m \<Longrightarrow> m l = Some xs \<Longrightarrow> \<exists>st'. push_all l vs st = Some st' \<and> rep st' (m(l \<mapsto> xs @ vs))"
proof (induction vs arbitrary: st m xs)
  case Nil
  then show ?case by (auto simp: fun_upd_idem)
next
  case (Cons v vs)
  obtain st1 where 1: "push l v st = Some st1" "rep st1 (m(l \<mapsto> xs @ [v]))" using push_law [OF Cons.prems] by blast
  have "\<exists>st'. push_all l vs st1 = Some st' \<and> rep st' (m(l \<mapsto> xs @ [v], l \<mapsto> (xs @ [v]) @ vs))"
    by (rule Cons.IH [OF 1(2)]) simp
  with 1(1) show ?case by (simp del: fun_upd_apply)
qed

text \<open>Building a list from values, and appending it: the values follow those of the list, and the
  new list is used up.\<close>

lemma push_fresh:
  assumes "rep st m" "m l = Some xs"
  shows "\<exists>st2 st3. push_all (fst (new st)) vs (snd (new st)) = Some st2 \<and>
    append l (fst (new st)) st2 = Some st3 \<and> contents l st3 = Some (xs @ vs) \<and> rep st3 (m(l \<mapsto> xs @ vs))"
proof -
  let ?k = "fst (new st)"
  have n: "m ?k = None" "rep (snd (new st)) (m(?k \<mapsto> []))" using new_law [OF assms(1)] by auto
  have lk: "l \<noteq> ?k" using n(1) assms(2) by auto
  obtain st2 where 2: "push_all ?k vs (snd (new st)) = Some st2" "rep st2 (m(?k \<mapsto> [], ?k \<mapsto> [] @ vs))"
    using push_all [OF n(2), of ?k "[]" vs] by auto
  obtain st3 where 3: "append l ?k st2 = Some st3" "rep st3 ((m(?k \<mapsto> vs))(l \<mapsto> xs @ vs, ?k := None))"
    using append_law [OF 2(2), of l xs ?k vs] lk assms(2) by auto
  have "(m(?k \<mapsto> vs))(l \<mapsto> xs @ vs, ?k := None) = m(l \<mapsto> xs @ vs)" using n(1) lk by (auto simp: fun_eq_iff)
  with 2(1) 3 contents_law [of st3 "m(l \<mapsto> xs @ vs)" l] show ?thesis by auto
qed

end

section \<open>The operations implement the interface\<close>

lemma representsE:
  assumes "represents st m" "m l = Some xs"
  obtains A as where "segments st A" "m = (\<lambda>l. map_option (map snd) (A l))" "A l = Some as" "xs = map snd as"
  using assms by (auto simp: represents_def)

lemma cell_updates [simp]:
  "lists (setNext a p st) = lists st" "lists (setPrev a p st) = lists st"
  "cells (setList l f st) = cells st" "length (lists (setList l f st)) = length (lists st)"
  "length (cells (setNext a p st)) = length (cells st)" "length (cells (setPrev a p st)) = length (cells st)"
  by (simp_all add: setNext_def setPrev_def setList_def)

lemma lists_setList: "l < length (lists st) \<Longrightarrow>
  lists (setList l f st) ! j = (if j = l then f (lists st ! l) else lists st ! j)"
  by (simp add: setList_def nth_list_update)

lemma new_node: "cells (snd (newNode v st)) = cells st @ [\<lparr>LPrev = None, LNext = None, LValue = v\<rparr>]"
  "lists (snd (newNode v st)) = lists st" "fst (newNode v st) = length (cells st)"
  by (simp_all add: newNode_def)

text \<open>The nodes of the lists \<open>L\<close>; an update of a list may touch these and new nodes only.\<close>

definition own :: "(nat \<Rightarrow> (nat \<times> 'v) list option) \<Rightarrow> nat set \<Rightarrow> nat set" where
  "own A L = {a. \<exists>l \<in> L. \<exists>as. A l = Some as \<and> a \<in> addrs as}"

lemma own_simps [simp]: "own A {} = {}"
  "A l = Some as \<Longrightarrow> own A (insert l K) = addrs as \<union> own A K"
  by (auto simp: own_def)

lemma represents_step:
  assumes "segments st A" "m = (\<lambda>l. map_option (map snd) (A l))" "A l = Some as" "l \<notin> K"
    and "length (lists st') = length (lists st)" "length (cells st) \<le> length (cells st')"
    and "\<And>j. j \<noteq> l \<Longrightarrow> j \<notin> K \<Longrightarrow> lists st' ! j = lists st ! j"
    and "\<And>j. j \<in> K \<Longrightarrow> j < length (lists st) \<Longrightarrow> ReadOnly (lists st' ! j)"
    and "\<And>a. a < length (cells st) \<Longrightarrow> a \<notin> own A (insert l K) \<Longrightarrow> cells st' ! a = cells st ! a"
    and "addrs as' \<subseteq> own A (insert l K) \<union> {length (cells st)..}"
    and "\<not> ReadOnly (lists st' ! l)" "distinct (map fst as')"
    and "dll (cells st') None (LHead (lists st' ! l)) as' (LTail (lists st' ! l)) None"
  shows "represents st' (\<lambda>j. if j = l then Some (map snd as') else if j \<in> K then None else m j)"
proof (rule represents_update [OF _ assms(2)], rule segments_update [OF assms(1) _ assms(4-8) _ assms(11-13)])
  fix j bs a assume j: "j \<noteq> l" "j \<notin> K" "A j = Some bs" "a \<in> addrs bs"
  have "a < length (cells st)" using dll_addrs [OF segmentsD(4) [OF assms(1) j(3)] j(4)] .
  moreover have "a \<notin> own A (insert l K)"
    using segments_disjoint [OF assms(1) j(3)] j unfolding own_def by blast
  ultimately show "cells st' ! a = cells st ! a \<and> a \<notin> addrs as'" using assms(9,10) by fastforce
qed (use segmentsD(1) [OF assms(1,3)] in auto)

lemma one_represents:
  assumes "segments st A" "m = (\<lambda>l. map_option (map snd) (A l))" "A l = Some as"
    and "length (lists st') = length (lists st)" "length (cells st) \<le> length (cells st')"
    and "\<And>j. j \<noteq> l \<Longrightarrow> lists st' ! j = lists st ! j" "\<not> ReadOnly (lists st' ! l)"
    and "\<And>a. a < length (cells st) \<Longrightarrow> a \<notin> addrs as \<Longrightarrow> cells st' ! a = cells st ! a"
    and "addrs as' \<subseteq> addrs as \<union> {length (cells st)..}" "distinct (map fst as')"
    and "dll (cells st') None (LHead (lists st' ! l)) as' (LTail (lists st' ! l)) None"
  shows "represents st' (m(l \<mapsto> map snd as'))"
proof -
  have o: "own A (insert l {}) = addrs as" using assms(3) by simp
  have "represents st' (\<lambda>j. if j = l then Some (map snd as') else if j \<in> {} then None else m j)"
    using assms(4-) unfolding o [symmetric] by (intro represents_step [OF assms(1-3)]) (simp_all add: o)
  then show ?thesis by (simp add: fun_upd_def cong: if_cong)
qed

lemma Push_represents:
  assumes "represents st m" "m l = Some xs"
  shows "\<exists>st'. Push l v st = Some st' \<and> represents st' (m(l \<mapsto> xs @ [v]))"
proof -
  obtain A as where A: "segments st A" "m = (\<lambda>l. map_option (map snd) (A l))" "A l = Some as" "xs = map snd as"
    by (rule representsE [OF assms])
  note d = segmentsD [OF A(1,3)]
  let ?n = "length (cells st)" and ?c = "\<lparr>LPrev = None, LNext = None, LValue = v\<rparr>"
  let ?as = "as @ [(?n, v)]"
  have fresh: "?n \<notin> addrs as" using dll_addrs [OF d(4)] by blast
  have step: "represents st' (m(l \<mapsto> xs @ [v]))"
    if "length (lists st') = length (lists st)" "\<And>j. j \<noteq> l \<Longrightarrow> lists st' ! j = lists st ! j"
      "\<not> ReadOnly (lists st' ! l)" "?n \<le> length (cells st')"
      "\<And>a. a < ?n \<Longrightarrow> a \<notin> addrs as \<Longrightarrow> cells st' ! a = cells st ! a"
      "dll (cells st') None (LHead (lists st' ! l)) ?as (LTail (lists st' ! l)) None" for st'
    using one_represents [OF A(1-3), of st' ?as] that fresh d(3) A(4) by auto
  show ?thesis
  proof (cases "as = []")
    case True
    then have p: "LTail (lists st ! l) = None" using d(4) by simp
    let ?st = "setList l (\<lambda>r. r\<lparr>LTail := Some ?n\<rparr>) (setList l (\<lambda>r. r\<lparr>LHead := Some ?n\<rparr>) (snd (newNode v st)))"
    have e: "Push l v st = Some ?st"
      using d(2) p by (simp add: Push_def assertWritable_def newNode_def)
    have "represents ?st (m(l \<mapsto> xs @ [v]))"
      by (rule step) (use d(1,2) True in \<open>auto simp: lists_setList new_node nth_append\<close>)
    with e show ?thesis by blast
  next
    case False
    let ?t = "fst (last as)"
    have p: "LTail (lists st ! l) = Some ?t" using dll_last [OF d(4) False] by simp
    have "?t \<in> addrs as" using False by simp
    then have t: "?t < ?n" "\<And>a. a \<notin> addrs as \<Longrightarrow> ?t \<noteq> a" using dll_addrs [OF d(4)] by blast+
    let ?st = "setList l (\<lambda>r. r\<lparr>LTail := Some ?n\<rparr>) (setPrev ?n (Some ?t) (setNext ?t (Some ?n) (snd (newNode v st))))"
    have e: "Push l v st = Some ?st" using d(2) p by (simp add: Push_def assertWritable_def newNode_def)
    have c: "cells ?st = (cells st)[?t := (cells st ! ?t)\<lparr>LNext := Some ?n\<rparr>] @ [?c\<lparr>LPrev := Some ?t\<rparr>]"
      using t(1) by (simp add: setNext_def setPrev_def newNode_def nth_append list_update_append)
    have "dll ((cells st)[?t := (cells st ! ?t)\<lparr>LNext := Some ?n\<rparr>]) None (LHead (lists st ! l)) as (Some ?t) (Some ?n)"
      using dll_relink_next [OF d(4,3) False refl, of "Some ?n"] p by simp
    then have "dll (cells ?st) None (LHead (lists st ! l)) as (Some ?t) (Some ?n)"
      by (rule dll_frame) (use dll_addrs [OF d(4)] c in \<open>auto simp: nth_append\<close>)
    moreover have "dll (cells ?st) (Some ?t) (Some ?n) [(?n, v)] (Some ?n) None"
      unfolding c by (simp add: nth_append)
    ultimately have dl: "dll (cells ?st) None (LHead (lists st ! l)) ?as (Some ?n) None"
      unfolding dll_append by blast
    have "represents ?st (m(l \<mapsto> xs @ [v]))"
      by (rule step) (use d(1,2) t(2) c dl in \<open>auto simp: lists_setList new_node nth_append\<close>)
    with e show ?thesis by blast
  qed
qed

lemma Unshift_represents:
  assumes "represents st m" "m l = Some xs"
  shows "\<exists>st'. Unshift l v st = Some st' \<and> represents st' (m(l \<mapsto> v # xs))"
proof -
  obtain A as where A: "segments st A" "m = (\<lambda>l. map_option (map snd) (A l))" "A l = Some as" "xs = map snd as"
    by (rule representsE [OF assms])
  note d = segmentsD [OF A(1,3)]
  let ?n = "length (cells st)" and ?c = "\<lparr>LPrev = None, LNext = None, LValue = v\<rparr>"
  let ?as = "(?n, v) # as"
  have fresh: "?n \<notin> addrs as" using dll_addrs [OF d(4)] by blast
  have step: "represents st' (m(l \<mapsto> v # xs))"
    if "length (lists st') = length (lists st)" "\<And>j. j \<noteq> l \<Longrightarrow> lists st' ! j = lists st ! j"
      "\<not> ReadOnly (lists st' ! l)" "?n \<le> length (cells st')"
      "\<And>a. a < ?n \<Longrightarrow> a \<notin> addrs as \<Longrightarrow> cells st' ! a = cells st ! a"
      "dll (cells st') None (LHead (lists st' ! l)) ?as (LTail (lists st' ! l)) None" for st'
    using one_represents [OF A(1-3), of st' ?as] that fresh d(3) A(4) by auto
  show ?thesis
  proof (cases "as = []")
    case True
    then have p: "LHead (lists st ! l) = None" using d(4) by simp
    let ?st = "setList l (\<lambda>r. r\<lparr>LHead := Some ?n\<rparr>) (setList l (\<lambda>r. r\<lparr>LTail := Some ?n\<rparr>) (snd (newNode v st)))"
    have e: "Unshift l v st = Some ?st"
      using d(2) p by (simp add: Unshift_def assertWritable_def newNode_def)
    have "represents ?st (m(l \<mapsto> v # xs))"
      by (rule step) (use d(1,2) True in \<open>auto simp: lists_setList new_node nth_append\<close>)
    with e show ?thesis by blast
  next
    case False
    let ?h = "fst (hd as)"
    have p: "LHead (lists st ! l) = Some ?h" using dll_last [OF d(4) False] by simp
    have "?h \<in> addrs as" using False by simp
    then have h: "?h < ?n" "\<And>a. a \<notin> addrs as \<Longrightarrow> ?h \<noteq> a" using dll_addrs [OF d(4)] by blast+
    let ?st = "setList l (\<lambda>r. r\<lparr>LHead := Some ?n\<rparr>) (setNext ?n (Some ?h) (setPrev ?h (Some ?n) (snd (newNode v st))))"
    have e: "Unshift l v st = Some ?st" using d(2) p by (simp add: Unshift_def assertWritable_def newNode_def)
    have c: "cells ?st = (cells st)[?h := (cells st ! ?h)\<lparr>LPrev := Some ?n\<rparr>] @ [?c\<lparr>LNext := Some ?h\<rparr>]"
      using h(1) by (simp add: setNext_def setPrev_def newNode_def nth_append list_update_append)
    have "dll ((cells st)[?h := (cells st ! ?h)\<lparr>LPrev := Some ?n\<rparr>]) (Some ?n) (Some ?h) as (LTail (lists st ! l)) None"
      using dll_relink_prev [OF d(4,3) False refl, of "Some ?n"] p by simp
    then have "dll (cells ?st) (Some ?n) (Some ?h) as (LTail (lists st ! l)) None"
      by (rule dll_frame) (use dll_addrs [OF d(4)] c in \<open>auto simp: nth_append\<close>)
    then have dl: "dll (cells ?st) None (Some ?n) ?as (LTail (lists st ! l)) None"
      unfolding c by (simp add: nth_append)
    have "represents ?st (m(l \<mapsto> v # xs))"
      by (rule step) (use d(1,2) h(2) c dl in \<open>auto simp: lists_setList new_node nth_append\<close>)
    with e show ?thesis by blast
  qed
qed

text \<open>Joining two segments: the last node of the first and the first of the second are relinked.\<close>

lemma dll_join:
  assumes "dll h None x as y None" "dll h None x' bs y' None" "as \<noteq> []" "bs \<noteq> []"
    and "distinct (map fst as)" "distinct (map fst bs)" "addrs as \<inter> addrs bs = {}"
    and "y = Some t" "x' = Some u"
    and "h' = (h[t := (h ! t)\<lparr>LNext := Some u\<rparr>])[u := (h[t := (h ! t)\<lparr>LNext := Some u\<rparr>] ! u)\<lparr>LPrev := Some t\<rparr>]"
  shows "dll h' None x (as @ bs) y' None" "\<And>a. a \<notin> addrs as \<union> addrs bs \<Longrightarrow> h' ! a = h ! a"
proof -
  have t: "t = fst (last as)" "t \<in> addrs as" and u: "u = fst (hd bs)" "u \<in> addrs bs"
    using dll_last [OF assms(1,3)] dll_last [OF assms(2,4)] assms(3,4,8,9) by auto
  have tu: "t \<noteq> u" using t(2) u(2) assms(7) by auto
  let ?h = "h[t := (h ! t)\<lparr>LNext := Some u\<rparr>]"
  have "dll ?h None x as y (Some u)" by (rule dll_relink_next [OF assms(1,5,3) t(1)])
  then have a: "dll h' None x as y (Some u)"
  proof (rule dll_frame)
    fix a assume "a \<in> addrs as"
    then have "a \<noteq> u" using u(2) assms(7) by blast
    then show "h' ! a = ?h ! a" by (simp add: assms(10))
  qed (simp add: assms(10))
  have "dll ?h None x' bs y' None"
  proof (rule dll_frame [OF assms(2)])
    fix a assume "a \<in> addrs bs"
    then have "a \<noteq> t" using t(2) assms(7) by blast
    then show "?h ! a = h ! a" by simp
  qed simp
  from dll_relink_prev [OF this assms(6,4) u(1)] have "dll h' (Some t) x' bs y' None"
    using assms(10) by simp
  with a show "dll h' None x (as @ bs) y' None" unfolding dll_append using assms(8,9) by blast
  show "h' ! a = h ! a" if "a \<notin> addrs as \<union> addrs bs" for a
  proof -
    have "a \<noteq> t" "a \<noteq> u" using that t(2) u(2) by blast+
    then show ?thesis by (simp add: assms(10))
  qed
qed

lemma join_represents:
  assumes "segments st A" "m = (\<lambda>l. map_option (map snd) (A l))" "A l = Some as" "A k = Some bs" "l \<noteq> k"
    and "as' = as @ bs \<or> as' = bs @ as"
    and "length (lists st') = length (lists st)" "length (cells st') = length (cells st)"
    and "\<And>j. j \<noteq> l \<Longrightarrow> j \<noteq> k \<Longrightarrow> lists st' ! j = lists st ! j" "ReadOnly (lists st' ! k)" "\<not> ReadOnly (lists st' ! l)"
    and "\<And>a. a \<notin> addrs as \<union> addrs bs \<Longrightarrow> cells st' ! a = cells st ! a"
    and "dll (cells st') None (LHead (lists st' ! l)) as' (LTail (lists st' ! l)) None"
  shows "represents st' (m(l \<mapsto> map snd as', k := None))"
proof -
  have "distinct (map fst as')"
    using segmentsD(3) [OF assms(1,3)] segmentsD(3) [OF assms(1,4)] segments_disjoint [OF assms(1,3,4,5)] assms(6)
    by (metis Int_commute distinct_append list.set_map map_append)
  moreover have "addrs as' \<subseteq> addrs as \<union> addrs bs" using assms(6) by (elim disjE) (simp_all add: image_Un)
  moreover have o: "own A (insert l {k}) = addrs as \<union> addrs bs" using assms(3,4) by simp
  ultimately have "represents st' (\<lambda>j. if j = l then Some (map snd as') else if j \<in> {k} then None else m j)"
    using assms(5,7-) by (intro represents_step [OF assms(1-3)]) (simp_all add: o, blast)
  moreover have "(\<lambda>j. if j = l then Some (map snd as') else if j \<in> {k} then None else m j) = m(l \<mapsto> map snd as', k := None)"
    using assms(5) by (auto simp: fun_eq_iff)
  ultimately show ?thesis by simp
qed

text \<open>\<open>Shift\<close> takes the first value.\<close>

lemma Shift_represents:
  assumes "represents st m" "m l = Some xs"
  shows "\<exists>st'. Shift l st = Some (case xs of [] \<Rightarrow> None | v # _ \<Rightarrow> Some v, st') \<and> represents st' (m(l \<mapsto> tl xs))"
proof -
  obtain A as where A: "segments st A" "m = (\<lambda>l. map_option (map snd) (A l))" "A l = Some as" "xs = map snd as"
    by (rule representsE [OF assms])
  note d = segmentsD [OF A(1,3)]
  have step: "represents st' (m(l \<mapsto> tl xs))"
    if "length (lists st') = length (lists st)" "\<And>j. j \<noteq> l \<Longrightarrow> lists st' ! j = lists st ! j"
      "\<not> ReadOnly (lists st' ! l)" "length (cells st') = length (cells st)"
      "\<And>a. a \<notin> addrs as \<Longrightarrow> cells st' ! a = cells st ! a"
      "dll (cells st') None (LHead (lists st' ! l)) (tl as) (LTail (lists st' ! l)) None" for st'
  proof -
    have "addrs (tl as) \<subseteq> addrs as \<union> {length (cells st)..}" "distinct (map fst (tl as))"
      using d(3) by (cases as; auto)+
    then show ?thesis
      using one_represents [OF A(1-3), of st' "tl as"] that by (simp add: A(4) map_tl)
  qed
  show ?thesis
  proof (cases as)
    case Nil
    then have "m(l \<mapsto> tl xs) = m" using assms(2) A(4) by (auto simp: fun_eq_iff)
    then show ?thesis
      using Nil d(2,4) A(4) assms(1) by (auto simp: Shift_def assertWritable_def)
  next
    case (Cons p bs)
    obtain a v where p: "p = (a, v)" by (cases p)
    have h: "LHead (lists st ! l) = Some a" "LValue (cells st ! a) = v" "a < length (cells st)"
      "dll (cells st) (Some a) (LNext (cells st ! a)) bs (LTail (lists st ! l)) None"
      using d(4) Cons p by auto
    show ?thesis
    proof (cases bs)
      case Nil
      let ?st = "setList l (\<lambda>r. r\<lparr>LHead := None, LTail := None\<rparr>) st"
      have "Shift l st = Some (Some v, ?st)" using d(2) h Nil by (simp add: Shift_def assertWritable_def Let_def)
      moreover have "represents ?st (m(l \<mapsto> tl xs))"
        by (rule step) (use d(1,2) Cons Nil in \<open>auto simp: lists_setList\<close>)
      ultimately show ?thesis using A(4) Cons p by auto
    next
      case (Cons q cs)
      let ?b = "fst q"
      let ?st = "setPrev ?b None (setList l (\<lambda>r. r\<lparr>LHead := Some ?b\<rparr>) st)"
      have n: "LNext (cells st ! a) = Some ?b" using h(4) Cons by (cases q) auto
      have "Shift l st = Some (Some v, ?st)" using d(2) h n by (simp add: Shift_def assertWritable_def Let_def)
      moreover have "represents ?st (m(l \<mapsto> tl xs))"
      proof (rule step)
        have "dll ((cells st)[?b := (cells st ! ?b)\<lparr>LPrev := None\<rparr>]) None (LNext (cells st ! a)) bs (LTail (lists st ! l)) None"
          by (rule dll_relink_prev [OF h(4)]) (use d(3) \<open>as = p # bs\<close> Cons in auto)
        then show "dll (cells ?st) None (LHead (lists ?st ! l)) (tl as) (LTail (lists ?st ! l)) None"
          using \<open>as = p # bs\<close> d(1) n by (simp add: setPrev_def lists_setList)
        show "cells ?st ! c = cells st ! c" if "c \<notin> addrs as" for c
          using that \<open>as = p # bs\<close> Cons by (auto simp: setPrev_def)
      qed (use d(1,2) in \<open>auto simp: lists_setList\<close>)
      ultimately show ?thesis using A(4) \<open>as = p # bs\<close> p by auto
    qed
  qed
qed

text \<open>\<open>PushList\<close> and \<open>UnshiftList\<close> take over the nodes of the other list, which becomes read-only.\<close>

lemma setList_cells [simp]:
  "setNext a p (setList l f st) = setList l f (setNext a p st)"
  "setPrev a p (setList l f st) = setList l f (setPrev a p st)"
  by (simp_all add: setNext_def setPrev_def setList_def)

lemma PushList_represents:
  assumes "represents st m" "m l = Some xs" "m k = Some ys" "l \<noteq> k"
  shows "\<exists>st'. PushList l k st = Some st' \<and> represents st' (m(l \<mapsto> xs @ ys, k := None))"
proof -
  obtain A as where A: "segments st A" "m = (\<lambda>l. map_option (map snd) (A l))" "A l = Some as" "xs = map snd as"
    by (rule representsE [OF assms(1,2)])
  obtain bs where B: "A k = Some bs" "ys = map snd bs" using assms(3) A(2) by auto
  note d = segmentsD [OF A(1,3)] and e = segmentsD [OF A(1) B(1)]
  note dis = segments_disjoint [OF A(1,3) B(1) assms(4)]
  let ?st1 = "setList k (\<lambda>r. r\<lparr>ReadOnly := True\<rparr>) st"
  have step: "represents st' (m(l \<mapsto> xs @ ys, k := None))"
    if "length (lists st') = length (lists st)" "length (cells st') = length (cells st)"
      "\<And>j. j \<noteq> l \<Longrightarrow> j \<noteq> k \<Longrightarrow> lists st' ! j = lists st ! j" "ReadOnly (lists st' ! k)" "\<not> ReadOnly (lists st' ! l)"
      "\<And>a. a \<notin> addrs as \<union> addrs bs \<Longrightarrow> cells st' ! a = cells st ! a"
      "dll (cells st') None (LHead (lists st' ! l)) (as @ bs) (LTail (lists st' ! l)) None" for st'
    using join_represents [OF A(1-3) B(1) assms(4) disjI1 [OF refl], of st'] that by (simp add: A(4) B(2))
  note s = PushList_def assertWritable_def lists_setList Let_def
  show ?thesis
  proof (cases "as = [] \<or> bs = []")
    case True
    let ?st = "if bs = [] then ?st1 else setList l (\<lambda>r. r\<lparr>LHead := LHead (lists st ! k), LTail := LTail (lists st ! k)\<rparr>) ?st1"
    have "PushList l k st = Some ?st"
      using d e True assms(4) dll_last [OF e(4)] by (auto simp: s)
    moreover have "represents ?st (m(l \<mapsto> xs @ ys, k := None))"
      by (rule step) (use d(1,2,4) e True assms(4) in \<open>auto simp: lists_setList\<close>)
    ultimately show ?thesis by blast
  next
    case False
    let ?t = "fst (last as)" and ?u = "fst (hd bs)"
    have p: "LTail (lists st ! l) = Some ?t" "LHead (lists st ! k) = Some ?u" "LHead (lists st ! l) = Some (fst (hd as))"
      "LTail (lists st ! k) = Some (fst (last bs))"
      using dll_last [OF d(4)] dll_last [OF e(4)] False by auto
    let ?st = "setList l (\<lambda>r. r\<lparr>LTail := LTail (lists st ! k)\<rparr>) (setPrev ?u (Some ?t) (setNext ?t (Some ?u) ?st1))"
    have "PushList l k st = Some ?st"
      using d(1,2) e(1,2) p assms(4) by (auto simp: s)
    moreover have "represents ?st (m(l \<mapsto> xs @ ys, k := None))"
    proof (rule step)
      note j = dll_join [OF d(4) e(4) _ _ d(3) e(3) dis p(1,2)]
      have c: "cells ?st = (cells st)[?t := (cells st ! ?t)\<lparr>LNext := Some ?u\<rparr>, ?u := ((cells st)[?t := (cells st ! ?t)\<lparr>LNext := Some ?u\<rparr>] ! ?u)\<lparr>LPrev := Some ?t\<rparr>]"
        by (simp add: setPrev_def setNext_def)
      show "dll (cells ?st) None (LHead (lists ?st ! l)) (as @ bs) (LTail (lists ?st ! l)) None"
        using j(1) [OF _ _ c] False d(1) e(1) assms(4) by (simp add: lists_setList)
      show "cells ?st ! a = cells st ! a" if "a \<notin> addrs as \<union> addrs bs" for a
        using j(2) [OF _ _ c that] False by simp
    qed (use d(1,2) e(1) assms(4) in \<open>auto simp: lists_setList\<close>)
    ultimately show ?thesis by blast
  qed
qed

lemma UnshiftList_represents:
  assumes "represents st m" "m l = Some xs" "m k = Some ys" "l \<noteq> k"
  shows "\<exists>st'. UnshiftList l k st = Some st' \<and> represents st' (m(l \<mapsto> ys @ xs, k := None))"
proof -
  obtain A as where A: "segments st A" "m = (\<lambda>l. map_option (map snd) (A l))" "A l = Some as" "xs = map snd as"
    by (rule representsE [OF assms(1,2)])
  obtain bs where B: "A k = Some bs" "ys = map snd bs" using assms(3) A(2) by auto
  note d = segmentsD [OF A(1,3)] and e = segmentsD [OF A(1) B(1)]
  have dis: "addrs bs \<inter> addrs as = {}" using segments_disjoint [OF A(1) B(1) A(3)] assms(4) by simp
  let ?st1 = "setList k (\<lambda>r. r\<lparr>ReadOnly := True\<rparr>) st"
  have step: "represents st' (m(l \<mapsto> ys @ xs, k := None))"
    if "length (lists st') = length (lists st)" "length (cells st') = length (cells st)"
      "\<And>j. j \<noteq> l \<Longrightarrow> j \<noteq> k \<Longrightarrow> lists st' ! j = lists st ! j" "ReadOnly (lists st' ! k)" "\<not> ReadOnly (lists st' ! l)"
      "\<And>a. a \<notin> addrs as \<union> addrs bs \<Longrightarrow> cells st' ! a = cells st ! a"
      "dll (cells st') None (LHead (lists st' ! l)) (bs @ as) (LTail (lists st' ! l)) None" for st'
    using join_represents [OF A(1-3) B(1) assms(4) disjI2 [OF refl], of st'] that by (simp add: A(4) B(2))
  note s = UnshiftList_def assertWritable_def lists_setList Let_def
  show ?thesis
  proof (cases "as = [] \<or> bs = []")
    case True
    let ?st = "if bs = [] then ?st1 else setList l (\<lambda>r. r\<lparr>LHead := LHead (lists st ! k), LTail := LTail (lists st ! k)\<rparr>) ?st1"
    have "UnshiftList l k st = Some ?st"
      using d e True assms(4) dll_last [OF e(4)] by (auto simp: s)
    moreover have "represents ?st (m(l \<mapsto> ys @ xs, k := None))"
      by (rule step) (use d(1,2,4) e True assms(4) in \<open>auto simp: lists_setList\<close>)
    ultimately show ?thesis by blast
  next
    case False
    let ?t = "fst (last bs)" and ?u = "fst (hd as)"
    have p: "LTail (lists st ! k) = Some ?t" "LHead (lists st ! l) = Some ?u" "LHead (lists st ! k) = Some (fst (hd bs))"
      using dll_last [OF d(4)] dll_last [OF e(4)] False by auto
    have tu: "?t \<noteq> ?u" using dis False by (metis disjoint_iff hd_in_set image_eqI last_in_set)
    let ?st = "setList l (\<lambda>r. r\<lparr>LHead := LHead (lists st ! k)\<rparr>) (setNext ?t (Some ?u) (setPrev ?u (Some ?t) ?st1))"
    have "UnshiftList l k st = Some ?st"
      using d(1,2) e(1,2) p assms(4) by (auto simp: s)
    moreover have "represents ?st (m(l \<mapsto> ys @ xs, k := None))"
    proof (rule step)
      note j = dll_join [OF e(4) d(4) _ _ e(3) d(3) dis p(1,2)]
      have c: "cells ?st = (cells st)[?t := (cells st ! ?t)\<lparr>LNext := Some ?u\<rparr>, ?u := ((cells st)[?t := (cells st ! ?t)\<lparr>LNext := Some ?u\<rparr>] ! ?u)\<lparr>LPrev := Some ?t\<rparr>]"
        using tu by (simp add: setPrev_def setNext_def list_update_swap)
      show "dll (cells ?st) None (LHead (lists ?st ! l)) (bs @ as) (LTail (lists ?st ! l)) None"
        using j(1) [OF _ _ c] False d(1) e(1) assms(4) by (simp add: lists_setList)
      show "cells ?st ! a = cells st ! a" if "a \<notin> addrs as \<union> addrs bs" for a
        using j(2) [OF _ _ c, of a] that False by auto
    qed (use d(1,2) e(1) assms(4) in \<open>auto simp: lists_setList\<close>)
    ultimately show ?thesis by blast
  qed
qed

lemma emptyList_represents:
  assumes "represents st m"
  shows "m (fst (emptyList st)) = None \<and> represents (snd (emptyList st)) (m(fst (emptyList st) \<mapsto> []))"
proof -
  obtain A where A: "segments st A" "m = (\<lambda>l. map_option (map snd) (A l))" using assms by (auto simp: represents_def)
  let ?l = "length (lists st)" and ?st = "snd (emptyList st)"
  have n: "A ?l = None" using segmentsD(1) [OF A(1), of ?l] by (cases "A ?l") auto
  have old: "j < ?l \<Longrightarrow> lists ?st ! j = lists st ! j" and c: "cells ?st = cells st" for j
    by (simp_all add: emptyList_def nth_append)
  have "segments ?st (A(?l \<mapsto> []))" unfolding segments_def
  proof (intro conjI allI impI)
    fix j as assume j: "(A(?l \<mapsto> [])) j = Some as"
    show "j < length (lists ?st)" "\<not> ReadOnly (lists ?st ! j)" "distinct (map fst as)"
      "dll (cells ?st) None (LHead (lists ?st ! j)) as (LTail (lists ?st ! j)) None"
      using j segmentsD [OF A(1), of j as] old c by (auto simp: emptyList_def split: if_splits)
  next
    fix j k as bs assume "(A(?l \<mapsto> [])) j = Some as" "(A(?l \<mapsto> [])) k = Some bs" "j \<noteq> k"
    then show "addrs as \<inter> addrs bs = {}" using segments_disjoint [OF A(1)] by (simp split: if_splits)
  next
    fix j assume "j < length (lists ?st)" "(A(?l \<mapsto> [])) j = None"
    then show "ReadOnly (lists ?st ! j)" using A(1) old by (auto simp: segments_def emptyList_def split: if_splits)
  qed
  moreover have "fst (emptyList st) = ?l" by (simp add: emptyList_def)
  ultimately show ?thesis using n A(2) by (auto simp: represents_def fun_eq_iff intro!: exI [of _ "A(?l \<mapsto> [])"])
qed

lemma queries_represents:
  assumes "represents st m" "m l = Some xs"
  shows "ToSlice l st = Some xs" "Size l st = Some (length xs)" "IsEmpty l st \<longleftrightarrow> xs = []"
    "Some_l l f st = Some (\<exists>x \<in> set xs. f x)" "Every l f st = Some (\<forall>x \<in> set xs. f x)"
proof -
  obtain A as where A: "segments st A" "A l = Some as" "xs = map snd as" by (rule representsE [OF assms])
  note d = segmentsD(4) [OF A(1,2)]
  show "ToSlice l st = Some xs" "Size l st = Some (length xs)"
    "Some_l l f st = Some (\<exists>x \<in> set xs. f x)" "Every l f st = Some (\<forall>x \<in> set xs. f x)"
    using forEachFrom_dll [OF d] sizeFrom_dll [OF d] someFrom_dll [OF d] everyFrom_dll [OF d]
    by (simp_all add: ToSlice_def Size_def Some_l_def Every_def A(3))
  show "IsEmpty l st \<longleftrightarrow> xs = []" using d A(3) dll_last [OF d] by (cases "as = []") (auto simp: IsEmpty_def)
qed

interpretation ll: sequences represents emptyList Push PushList ToSlice
  by unfold_locales (rule emptyList_represents Push_represents PushList_represents queries_represents(1), assumption+)+

lemma pushAll_eq: "ll.push_all l vs st = pushAll l vs st"
  by (induction vs arbitrary: st) (simp_all add: fun_eq_iff cong: Option.bind_cong)

lemma NewList_represents:
  assumes "represents st m"
  shows "\<exists>st'. NewList vs st = Some (length (lists st), st') \<and> m (length (lists st)) = None \<and>
    represents st' (m(length (lists st) \<mapsto> vs))"
proof -
  have e: "fst (emptyList st) = length (lists st)" by (simp add: emptyList_def)
  note n = ll.new_law [OF assms, unfolded e]
  obtain st' where "pushAll (length (lists st)) vs (snd (emptyList st)) = Some st'"
    "represents st' (m(length (lists st) \<mapsto> vs))"
    using ll.push_all [OF conjunct2 [OF n], of "length (lists st)" "[]" vs] unfolding pushAll_eq by auto
  with n e show ?thesis by (simp add: NewList_def split_beta)
qed

text \<open>A list that was appended to another one, or is otherwise not in the map, panics.\<close>

lemma readOnly_represents:
  assumes "represents st m" "m l = None" "l < length (lists st)"
  shows "ReadOnly (lists st ! l)"
  using assms by (auto simp: represents_def segments_def)

lemma represents_bound: "represents st m \<Longrightarrow> m l = Some xs \<Longrightarrow> l < length (lists st) \<and> \<not> ReadOnly (lists st ! l)"
  by (elim representsE) (auto dest: segmentsD)

section \<open>Programs over lists\<close>

text \<open>
  The programs that use the lists, as sequences of operations. The specification works on the
  number of lists made so far and the map of the writable lists; its \<open>None\<close> is a panic.
\<close>

datatype 'v list_op = New "'v list" | PushOp nat 'v | UnshiftOp nat 'v | PushListOp nat nat | UnshiftListOp nat nat | ShiftOp nat

fun run_op :: "'v list_op \<Rightarrow> 'v store \<Rightarrow> 'v store option" where
  "run_op (New vs) st = map_option snd (NewList vs st)"
| "run_op (PushOp l v) st = Push l v st"
| "run_op (UnshiftOp l v) st = Unshift l v st"
| "run_op (PushListOp l k) st = PushList l k st"
| "run_op (UnshiftListOp l k) st = UnshiftList l k st"
| "run_op (ShiftOp l) st = map_option snd (Shift l st)"

fun spec_op :: "'v list_op \<Rightarrow> nat \<times> (nat \<Rightarrow> 'v list option) \<Rightarrow> (nat \<times> (nat \<Rightarrow> 'v list option)) option" where
  "spec_op (New vs) (n, m) = Some (n + 1, m(n \<mapsto> vs))"
| "spec_op (PushOp l v) (n, m) = do { xs \<leftarrow> m l; Some (n, m(l \<mapsto> xs @ [v])) }"
| "spec_op (UnshiftOp l v) (n, m) = do { xs \<leftarrow> m l; Some (n, m(l \<mapsto> v # xs)) }"
| "spec_op (PushListOp l k) (n, m) = do { xs \<leftarrow> m l; ys \<leftarrow> m k; Some (n, m(l \<mapsto> xs @ ys, k := None)) }"
| "spec_op (UnshiftListOp l k) (n, m) = do { xs \<leftarrow> m l; ys \<leftarrow> m k; Some (n, m(l \<mapsto> ys @ xs, k := None)) }"
| "spec_op (ShiftOp l) (n, m) = do { xs \<leftarrow> m l; Some (n, m(l \<mapsto> tl xs)) }"

primrec run_ops :: "'v list_op list \<Rightarrow> 'v store \<Rightarrow> 'v store option" where
  "run_ops [] st = Some st"
| "run_ops (p # ps) st = do { st1 \<leftarrow> run_op p st; run_ops ps st1 }"

primrec spec_ops :: "'v list_op list \<Rightarrow> nat \<times> (nat \<Rightarrow> 'v list option) \<Rightarrow> (nat \<times> (nat \<Rightarrow> 'v list option)) option" where
  "spec_ops [] s = Some s"
| "spec_ops (p # ps) s = do { s1 \<leftarrow> spec_op p s; spec_ops ps s1 }"

text \<open>A program names only lists that it has made, and appends no list to itself.\<close>

fun ops_ok :: "nat \<Rightarrow> 'v list_op list \<Rightarrow> bool" where
  "ops_ok n [] \<longleftrightarrow> True"
| "ops_ok n (New vs # ps) \<longleftrightarrow> ops_ok (n + 1) ps"
| "ops_ok n (PushOp l v # ps) \<longleftrightarrow> l < n \<and> ops_ok n ps"
| "ops_ok n (UnshiftOp l v # ps) \<longleftrightarrow> l < n \<and> ops_ok n ps"
| "ops_ok n (PushListOp l k # ps) \<longleftrightarrow> l < n \<and> k < n \<and> l \<noteq> k \<and> ops_ok n ps"
| "ops_ok n (UnshiftListOp l k # ps) \<longleftrightarrow> l < n \<and> k < n \<and> l \<noteq> k \<and> ops_ok n ps"
| "ops_ok n (ShiftOp l # ps) \<longleftrightarrow> l < n \<and> ops_ok n ps"

definition simulates :: "'v store option \<Rightarrow> (nat \<times> (nat \<Rightarrow> 'v list option)) option \<Rightarrow> bool" where
  "simulates r s \<longleftrightarrow> (case s of None \<Rightarrow> r = None
     | Some (n, m) \<Rightarrow> \<exists>st. r = Some st \<and> represents st m \<and> length (lists st) = n)"

lemma length_lists_ops:
  "Push l v st = Some st' \<Longrightarrow> length (lists st') = length (lists st)"
  "Unshift l v st = Some st' \<Longrightarrow> length (lists st') = length (lists st)"
  "PushList l k st = Some st' \<Longrightarrow> length (lists st') = length (lists st)"
  "UnshiftList l k st = Some st' \<Longrightarrow> length (lists st') = length (lists st)"
  "Shift l st = Some (v', st') \<Longrightarrow> length (lists st') = length (lists st)"
  by (auto simp: Push_def Unshift_def PushList_def UnshiftList_def Shift_def assertWritable_def newNode_def Let_def
      split: if_splits option.splits bind_splits)

lemma pushAll_lists: "pushAll l vs st = Some st' \<Longrightarrow> length (lists st') = length (lists st)"
  by (induction vs arbitrary: st) (auto split: bind_splits dest!: length_lists_ops)

lemma NewList_lists: "NewList vs st = Some (l, st') \<Longrightarrow> length (lists st') = length (lists st) + 1"
  by (auto simp: NewList_def emptyList_def split: bind_splits dest!: pushAll_lists)

lemma panics:
  assumes "ReadOnly (lists st ! l)"
  shows "Push l v st = None" "Unshift l v st = None" "PushList l k st = None" "PushList k l st = None"
    "UnshiftList l k st = None" "UnshiftList k l st = None" "Shift l st = None"
  using assms
  by (simp_all add: Push_def Unshift_def PushList_def UnshiftList_def Shift_def assertWritable_def)

lemma run_op_simulates:
  assumes "represents st m" "length (lists st) = n" "ops_ok n (p # ps)"
  shows "simulates (run_op p st) (spec_op p (n, m))"
proof -
  note ro = panics [OF readOnly_represents [OF assms(1)]]
  show ?thesis
  proof (cases p)
    case (New vs)
    obtain st' where "NewList vs st = Some (n, st')" "represents st' (m(n \<mapsto> vs))"
      using NewList_represents [OF assms(1), of vs] assms(2) by auto
    then show ?thesis using New NewList_lists [of vs st n st'] assms(2) by (simp add: simulates_def)
  next
    case (PushOp l v)
    then show ?thesis using assms Push_represents [OF assms(1), of l _ v] ro(1) [of l v]
      by (cases "m l") (auto simp: simulates_def length_lists_ops)
  next
    case (UnshiftOp l v)
    then show ?thesis using assms Unshift_represents [OF assms(1), of l _ v] ro(2) [of l v]
      by (cases "m l") (auto simp: simulates_def length_lists_ops)
  next
    case (PushListOp l k)
    then show ?thesis using assms PushList_represents [OF assms(1), of l "the (m l)" k "the (m k)"] ro(3) [of l k] ro(4) [of k l]
      by (cases "m l"; cases "m k") (auto simp: simulates_def length_lists_ops)
  next
    case (UnshiftListOp l k)
    then show ?thesis using assms UnshiftList_represents [OF assms(1), of l "the (m l)" k "the (m k)"] ro(5) [of l k] ro(6) [of k l]
      by (cases "m l"; cases "m k") (auto simp: simulates_def length_lists_ops)
  next
    case (ShiftOp l)
    then show ?thesis using assms Shift_represents [OF assms(1), of l] ro(7) [of l]
      by (cases "m l") (auto simp: simulates_def length_lists_ops)
  qed
qed

lemma spec_op_ok: "ops_ok n (p # ps) \<Longrightarrow> spec_op p (n, m) = Some (n', m') \<Longrightarrow> ops_ok n' ps"
  by (cases p) (auto split: bind_splits)

lemma run_ops_simulates:
  "represents st m \<Longrightarrow> length (lists st) = n \<Longrightarrow> ops_ok n ps \<Longrightarrow> simulates (run_ops ps st) (spec_ops ps (n, m))"
proof (induction ps arbitrary: st n m)
  case (Cons p ps)
  note s = run_op_simulates [OF Cons.prems]
  show ?case
  proof (cases "spec_op p (n, m)")
    case (Some s')
    obtain n' m' where s': "s' = (n', m')" by (cases s')
    with s Some obtain st' where st': "run_op p st = Some st'" "represents st' m'" "length (lists st') = n'"
      by (auto simp: simulates_def)
    have "ops_ok n' ps" using spec_op_ok [OF Cons.prems(3)] Some s' by simp
    from Cons.IH [OF st'(2,3) this] show ?thesis using st'(1) Some s' by simp
  qed (use s in \<open>simp add: simulates_def\<close>)
qed (simp add: simulates_def)

definition emptyStore :: "'v store" where
  "emptyStore = \<lparr>cells = [], lists = []\<rparr>"

lemma represents_empty: "represents emptyStore Map.empty"
  by (auto simp: represents_def segments_def emptyStore_def intro!: exI [of _ Map.empty])

section \<open>Properties\<close>

text \<open>C10: every program of list operations, on nodes that the lists share and relink, does what the
  specification on sequences says: it panics exactly if the specification does (a list that was
  appended to another one is used again), and otherwise every writable list holds its sequence.\<close>

theorem list_programs_refine:
  assumes "ops_ok 0 ps"
  shows "case spec_ops ps (0, Map.empty) of
      None \<Rightarrow> run_ops ps emptyStore = None
    | Some (n, m) \<Rightarrow> \<exists>st. run_ops ps emptyStore = Some st \<and> length (lists st) = n \<and>
        (\<forall>l xs. m l = Some xs \<longrightarrow> ToSlice l st = Some xs \<and> Size l st = Some (length xs) \<and> \<not> ReadOnly (lists st ! l)) \<and>
        (\<forall>l < n. m l = None \<longrightarrow> ReadOnly (lists st ! l))"
proof -
  have "simulates (run_ops ps emptyStore) (spec_ops ps (0, Map.empty))"
    by (rule run_ops_simulates [OF represents_empty _ assms]) (simp add: emptyStore_def)
  then show ?thesis unfolding simulates_def
    by (auto split: option.splits dest: queries_represents represents_bound readOnly_represents)
qed

theorem list_programs_refine_witness:
  "\<exists>st. run_ops [New [1, 2], New [3], UnshiftOp 1 0, PushListOp 0 1, ShiftOp (0::nat)] emptyStore = Some st \<and>
     ToSlice 0 st = Some [2, 0, 3 :: nat] \<and> ReadOnly (lists st ! 1)"
  using list_programs_refine [of "[New [1, 2 :: nat], New [3], UnshiftOp 1 0, PushListOp 0 1, ShiftOp 0]"]
  by (auto simp: numeral_eq_Suc)

text \<open>\<open>Clone\<close> of a list gives a new list of the cloned elements, and leaves the contents of
  every other list as they are: later changes to the clone never show in the original.\<close>

theorem Clone_independent:
  assumes "represents st m" "m l = Some xs"
  shows "\<exists>k st1 st2. Clone f l st = Some (k, st1) \<and> k \<noteq> l \<and> ToSlice k st1 = Some (map f xs) \<and>
    Push k v st1 = Some st2 \<and> ToSlice k st2 = Some (map f xs @ [v]) \<and> ToSlice l st2 = Some xs"
proof -
  let ?k = "length (lists st)"
  obtain st1 where 1: "NewList (map f xs) st = Some (?k, st1)" "m ?k = None" "represents st1 (m(?k \<mapsto> map f xs))"
    using NewList_represents [OF assms(1)] by blast
  obtain st2 where 2: "Push ?k v st1 = Some st2" "represents st2 (m(?k \<mapsto> map f xs, ?k \<mapsto> map f xs @ [v]))"
    using ll.push_law [OF 1(3), of ?k "map f xs" v] by auto
  have "?k \<noteq> l" using 1(2) assms(2) by auto
  then show ?thesis
    using 1 2 ll.contents_law [OF assms] ll.contents_law [OF 1(3), of ?k] ll.contents_law [OF 2(2)] assms(2)
    by (auto simp: Clone_def)
qed

theorem Clone_independent_witness:
  "\<exists>st. run_ops [New [1, 2 :: nat]] emptyStore = Some st \<and>
     (\<exists>k st1 st2. Clone Suc 0 st = Some (k, st1) \<and> k \<noteq> 0 \<and> ToSlice k st1 = Some [2, 3] \<and>
        Push k 7 st1 = Some st2 \<and> ToSlice k st2 = Some [2, 3, 7] \<and> ToSlice 0 st2 = Some [1, 2])"
proof -
  have "simulates (run_ops [New [1, 2 :: nat]] emptyStore) (spec_ops [New [1, 2]] (0, Map.empty))"
    by (rule run_ops_simulates [OF represents_empty]) (simp_all add: emptyStore_def)
  then obtain st where st: "run_ops [New [1, 2 :: nat]] emptyStore = Some st" "represents st [0 \<mapsto> [1, 2]]"
    by (auto simp: simulates_def)
  then show ?thesis using Clone_independent [OF st(2), of 0 "[1, 2]" Suc 7] by (auto simp: numeral_eq_Suc)
qed

end
