(* ===== verification/Deploy_Graph.thy ===== *)
theory Deploy_Graph
  imports Prelude "HOL-Library.List_Lexorder" "HOL-Library.Multiset"
begin

text \<open>
  The resource graph of \<open>src/internal/deploy\<close>: identities and resources (\<open>deploy.go\<close>) and the
  ordering of the graph (\<open>topoSort\<close> of \<open>graph.go\<close>), over resources with inputs of any type.

  A Go map that is only read by key is a function; where the code iterates over a map it sorts
  the keys afterwards, so the model may iterate in any order. Strings are compared bytewise, as
  \<open>sort.Strings\<close> does.
\<close>

section \<open>Identities (\<open>deploy.go\<close>)\<close>

definition KindPlaceFile :: string where "KindPlaceFile = ''place_file''"
definition KindPlaceConfig :: string where "KindPlaceConfig = ''place_config''"
definition KindExperience :: string where "KindExperience = ''experience''"
definition KindBadge :: string where "KindBadge = ''badge''"
definition KindAsset :: string where "KindAsset = ''asset''"
definition KindGamePass :: string where "KindGamePass = ''game_pass''"
definition KindExperienceIcon :: string where "KindExperienceIcon = ''experience_icon''"
definition KindExperienceThumbnails :: string where "KindExperienceThumbnails = ''experience_thumbnails''"
definition KindDeveloperProduct :: string where "KindDeveloperProduct = ''developer_product''"
definition KindSocialLink :: string where "KindSocialLink = ''social_link''"

lemmas kind_defs = KindPlaceFile_def KindPlaceConfig_def KindExperience_def KindBadge_def KindAsset_def
  KindGamePass_def KindExperienceIcon_def KindExperienceThumbnails_def KindDeveloperProduct_def KindSocialLink_def

record ResourceRef =
  RefKind :: string
  RefName :: string

definition Key :: "ResourceRef \<Rightarrow> string" where
  "Key r = RefKind r @ ''/'' @ RefName r"

record 'i Resource =
  ResKind :: string
  ResName :: string
  DependsOn :: "ResourceRef list"
  Inputs :: 'i

definition Ref :: "'i Resource \<Rightarrow> ResourceRef" where
  "Ref r = \<lparr>RefKind = ResKind r, RefName = ResName r\<rparr>"

abbreviation rkey :: "'i Resource \<Rightarrow> string" where
  "rkey r \<equiv> Key (Ref r)"

section \<open>Ordering (\<open>topoSort\<close>)\<close>

datatype graph_error = Duplicate string | NotInGraph string string | Cycle "string list"

text \<open>The first loop: resources by key.\<close>

fun byKeyLoop :: "'i Resource list \<Rightarrow> (string \<rightharpoonup> 'i Resource) \<Rightarrow> graph_error + (string \<rightharpoonup> 'i Resource)" where
  "byKeyLoop [] m = Inr m"
| "byKeyLoop (r # rs) m = (if m (rkey r) \<noteq> None then Inl (Duplicate (rkey r)) else byKeyLoop rs (m(rkey r \<mapsto> r)))"

text \<open>The second loop: the number of dependencies of every resource and, for every key, its dependents.\<close>

record degrees =
  indegree :: "string \<Rightarrow> int"
  dependents :: "string \<Rightarrow> string list"

fun depLoop :: "(string \<rightharpoonup> 'i Resource) \<Rightarrow> string \<Rightarrow> ResourceRef list \<Rightarrow> degrees \<Rightarrow> graph_error + degrees" where
  "depLoop m k [] g = Inr g"
| "depLoop m k (d # ds) g =
     (if m (Key d) = None then Inl (NotInGraph k (Key d))
      else depLoop m k ds \<lparr>indegree = (indegree g)(k := indegree g k + 1),
                           dependents = (dependents g)(Key d := dependents g (Key d) @ [k])\<rparr>)"

fun degreeLoop :: "(string \<rightharpoonup> 'i Resource) \<Rightarrow> 'i Resource list \<Rightarrow> degrees \<Rightarrow> graph_error + degrees" where
  "degreeLoop m [] g = Inr g"
| "degreeLoop m (r # rs) g = (case depLoop m (rkey r) (DependsOn r) g of Inl e \<Rightarrow> Inl e | Inr g1 \<Rightarrow> degreeLoop m rs g1)"

text \<open>\<open>if indegree[dep]--; indegree[dep] == 0 { ready = append(ready, dep) }\<close> for the dependents of
  one key, and the loop over the keys of a level.\<close>

fun relax :: "string list \<Rightarrow> (string \<Rightarrow> int) \<Rightarrow> string list \<Rightarrow> (string \<Rightarrow> int) \<times> string list" where
  "relax [] deg ready = (deg, ready)"
| "relax (d # ds) deg ready =
     (let deg1 = deg(d := deg d - 1) in relax ds deg1 (if deg1 d = 0 then ready @ [d] else ready))"

fun levelLoop :: "(string \<Rightarrow> string list) \<Rightarrow> string list \<Rightarrow> (string \<Rightarrow> int) \<Rightarrow> string list \<Rightarrow> (string \<Rightarrow> int) \<times> string list" where
  "levelLoop dps [] deg ready = (deg, ready)"
| "levelLoop dps (k # ks) deg ready = (let (deg1, ready1) = relax (dps k) deg ready in levelLoop dps ks deg1 ready1)"

text \<open>The loop over the levels: the keys in order, and the degrees that are left.\<close>

partial_function (option) kahn :: "(string \<Rightarrow> string list) \<Rightarrow> (string \<Rightarrow> int) \<Rightarrow> string list \<Rightarrow> string list \<Rightarrow> (string list \<times> (string \<Rightarrow> int)) option" where
  "kahn dps deg ready ordered =
     (if ready = [] then Some (ordered, deg)
      else (let level = sort ready; (deg1, ready1) = levelLoop dps level deg [] in
            kahn dps deg1 ready1 (ordered @ level)))"

declare kahn.simps [code]

definition topoSort :: "'i Resource list \<Rightarrow> (graph_error + 'i Resource list) option" where
  "topoSort rs =
     (case byKeyLoop rs Map.empty of Inl e \<Rightarrow> Some (Inl e)
      | Inr byKey \<Rightarrow>
          (case degreeLoop byKey rs \<lparr>indegree = (\<lambda>_. 0), dependents = (\<lambda>_. [])\<rparr> of Inl e \<Rightarrow> Some (Inl e)
           | Inr g \<Rightarrow> do {
               (ordered, deg) \<leftarrow> kahn (dependents g) (indegree g) (filter (\<lambda>k. indegree g k = 0) (map rkey rs)) [];
               Some (if length ordered \<noteq> length rs
                     then Inl (Cycle (sort (filter (\<lambda>k. deg k > 0) (map rkey rs))))
                     else Inr (map (\<lambda>k. the (byKey k)) ordered))
             }))"

section \<open>The loops of the ordering\<close>

text \<open>The dependencies of a key, as keys.\<close>

definition depKeys :: "'i Resource list \<Rightarrow> string \<Rightarrow> string list" where
  "depKeys rs k = concat (map (\<lambda>r. map Key (DependsOn r)) (filter (\<lambda>r. rkey r = k) rs))"

lemma depKeys_Cons: "depKeys (r # rs) k = (if rkey r = k then map Key (DependsOn r) else []) @ depKeys rs k"
  by (simp add: depKeys_def)

lemma set_depKeys: "set (depKeys rs k) = {Key d | d r. r \<in> set rs \<and> rkey r = k \<and> d \<in> set (DependsOn r)}"
  by (auto simp: depKeys_def)

lemma byKeyLoop_Inr:
  "byKeyLoop rs m = Inr m' \<Longrightarrow> distinct (map rkey rs) \<and> (\<forall>r \<in> set rs. m (rkey r) = None) \<and>
     m' = (\<lambda>k. if k \<in> rkey ` set rs then find (\<lambda>r. rkey r = k) rs else m k)"
proof (induction rs arbitrary: m)
  case (Cons r rs)
  then show ?case by (fastforce split: if_splits)
qed simp

lemma byKeyLoop_Inl: "byKeyLoop rs m = Inl e \<Longrightarrow> \<not> (distinct (map rkey rs) \<and> (\<forall>r \<in> set rs. m (rkey r) = None))"
proof (induction rs arbitrary: m)
  case (Cons r rs)
  show ?case
  proof (cases "m (rkey r) = None")
    case True
    then have "byKeyLoop rs (m(rkey r \<mapsto> r)) = Inl e" using Cons.prems by simp
    from Cons.IH [OF this] show ?thesis by (auto simp: image_iff split: if_splits) metis
  qed simp
qed simp

lemma find_unique: "distinct (map f rs) \<Longrightarrow> r \<in> set rs \<Longrightarrow> f r = k \<Longrightarrow> find (\<lambda>r. f r = k) rs = Some r"
  by (induction rs) auto

lemma depLoop_Inr:
  "depLoop m k ds g = Inr g' \<Longrightarrow> Key ` set ds \<subseteq> dom m \<and>
     indegree g' = (indegree g)(k := indegree g k + int (length ds)) \<and>
     (\<forall>d j. count_list (dependents g' d) j = count_list (dependents g d) j + (if j = k then count_list (map Key ds) d else 0))"
  by (induction ds arbitrary: g) (auto split: if_splits)

lemma degreeLoop_Inr:
  "degreeLoop m rs g = Inr g' \<Longrightarrow> (\<forall>k. set (depKeys rs k) \<subseteq> dom m) \<and>
     (\<forall>k. indegree g' k = indegree g k + int (length (depKeys rs k))) \<and>
     (\<forall>d k. count_list (dependents g' d) k = count_list (dependents g d) k + count_list (depKeys rs k) d)"
proof (induction rs arbitrary: g)
  case (Cons r rs)
  obtain g1 where g1: "depLoop m (rkey r) (DependsOn r) g = Inr g1" "degreeLoop m rs g1 = Inr g'"
    using Cons.prems by (auto split: sum.splits)
  show ?case using Cons.IH [OF g1(2)] depLoop_Inr [OF g1(1)] by (auto simp: depKeys_Cons)
qed (simp add: depKeys_def)

lemma depLoop_Inl: "depLoop m k ds g = Inl e \<Longrightarrow> \<exists>d \<in> set ds. m (Key d) = None \<and> e = NotInGraph k (Key d)"
  by (induction ds arbitrary: g) (auto split: if_splits)

lemma degreeLoop_Inl: "degreeLoop m rs g = Inl e \<Longrightarrow>
  \<exists>r \<in> set rs. \<exists>d \<in> set (DependsOn r). m (Key d) = None \<and> e = NotInGraph (rkey r) (Key d)"
  by (induction rs arbitrary: g) (auto split: sum.splits dest!: depLoop_Inl)

text \<open>One pass over dependents: each of them is counted down once per occurrence, and becomes ready
  exactly if that brings it from above zero to zero.\<close>

lemma relax_spec:
  "\<exists>r. relax ds deg ready = (\<lambda>k. deg k - int (count_list ds k), ready @ r) \<and> distinct r \<and>
     set r = {k. 0 < deg k \<and> deg k \<le> int (count_list ds k)}"
proof (induction ds arbitrary: deg ready)
  case (Cons d ds)
  let ?deg = "deg(d := deg d - 1)"
  obtain r where r: "relax ds ?deg (if ?deg d = 0 then ready @ [d] else ready) =
      (\<lambda>k. ?deg k - int (count_list ds k), (if ?deg d = 0 then ready @ [d] else ready) @ r)"
    "distinct r" "set r = {k. 0 < ?deg k \<and> ?deg k \<le> int (count_list ds k)}"
    using Cons.IH by blast
  have f: "(\<lambda>k. ?deg k - int (count_list ds k)) = (\<lambda>k. deg k - int (count_list (d # ds) k))" by (auto simp: fun_eq_iff)
  have s: "{k. 0 < deg k \<and> deg k \<le> int (count_list (d # ds) k)} = (if deg d = 1 then insert d (set r) else set r)"
  proof (rule set_eqI)
    fix k show "k \<in> {k. 0 < deg k \<and> deg k \<le> int (count_list (d # ds) k)} \<longleftrightarrow>
      k \<in> (if deg d = 1 then insert d (set r) else set r)"
      unfolding r(3) by (cases "k = d") auto
  qed
  show ?case
  proof (cases "deg d = 1")
    case True
    then have "d \<notin> set r" using r(3) by simp
    with True r(1,2) f s show ?thesis by (intro exI [of _ "d # r"]) (simp add: Let_def)
  next
    case False
    with r(1,2) f s show ?thesis by (intro exI [of _ r]) (simp add: Let_def)
  qed
qed simp

lemma relax_append: "relax (ds @ es) deg ready = (let (deg1, ready1) = relax ds deg ready in relax es deg1 ready1)"
  by (induction ds arbitrary: deg ready) (simp_all add: Let_def)

lemma levelLoop_relax: "levelLoop dps ks deg ready = relax (concat (map dps ks)) deg ready"
  by (induction ks arbitrary: deg ready) (simp_all add: relax_append split: prod.splits)

section \<open>The invariant of the level loop\<close>

text \<open>
  \<open>os\<close> is the order so far: every key comes after its dependencies, the degree of a key is the
  number of its dependencies that are not in \<open>os\<close>, and the keys that are ready are those
  without such a dependency.
\<close>

definition closed_order :: "(string \<Rightarrow> string list) \<Rightarrow> string list \<Rightarrow> bool" where
  "closed_order dep os \<longleftrightarrow> distinct os \<and> (\<forall>i < length os. set (dep (os ! i)) \<subseteq> set (take i os))"

definition kahn_inv :: "string set \<Rightarrow> (string \<Rightarrow> string list) \<Rightarrow> (string \<Rightarrow> int) \<Rightarrow> string list \<Rightarrow> string list \<Rightarrow> bool" where
  "kahn_inv ks dep deg ready os \<longleftrightarrow> closed_order dep os \<and> set os \<subseteq> ks \<and>
     (\<forall>k. deg k = int (length (filter (\<lambda>d. d \<notin> set os) (dep k)))) \<and>
     distinct ready \<and> set ready = {k \<in> ks. k \<notin> set os \<and> deg k = 0}"

text \<open>The dependents list is the dependency list turned around.\<close>

definition turned :: "string set \<Rightarrow> (string \<Rightarrow> string list) \<Rightarrow> (string \<Rightarrow> string list) \<Rightarrow> bool" where
  "turned ks dep dps \<longleftrightarrow> (\<forall>d k. count_list (dps d) k = count_list (dep k) d) \<and> (\<forall>k. dep k \<noteq> [] \<longrightarrow> k \<in> ks)"

lemma closed_orderD: "closed_order dep os \<Longrightarrow> k \<in> set os \<Longrightarrow> set (dep k) \<subseteq> set os"
  unfolding closed_order_def in_set_conv_nth using set_take_subset by fastforce

lemma closed_order_append:
  assumes "closed_order dep os" "distinct ls" "set ls \<inter> set os = {}" "\<And>k. k \<in> set ls \<Longrightarrow> set (dep k) \<subseteq> set os"
  shows "closed_order dep (os @ ls)"
proof -
  have "set (dep ((os @ ls) ! i)) \<subseteq> set (take i (os @ ls))" if "i < length (os @ ls)" for i
  proof (cases "i < length os")
    case True
    then show ?thesis using assms(1) by (simp add: closed_order_def nth_append)
  next
    case False
    then have "(os @ ls) ! i \<in> set ls" using that by (simp add: nth_append)
    from assms(4) [OF this] False show ?thesis by auto
  qed
  then show ?thesis using assms(1-3) by (auto simp: closed_order_def)
qed

lemma count_level:
  assumes "turned ks dep dps" "distinct ls"
  shows "count_list (concat (map dps ls)) k = length (filter (\<lambda>d. d \<in> set ls) (dep k))"
  using assms(2)
proof (induction ls)
  case (Cons l ls)
  have "length (filter (\<lambda>d. d \<in> set (l # ls)) xs) = count_list xs l + length (filter (\<lambda>d. d \<in> set ls) xs)" for xs
    using Cons.prems by (induction xs) auto
  with Cons show ?case using assms(1) by (simp add: turned_def)
qed simp

lemma filter_split: "set ls \<inter> P = {} \<Longrightarrow>
  length (filter (\<lambda>d. d \<notin> P) xs) = length (filter (\<lambda>d. d \<in> set ls) xs) + length (filter (\<lambda>d. d \<notin> P \<union> set ls) xs)"
  by (induction xs) auto

lemma kahn_step:
  assumes "kahn_inv ks dep deg ready os" "turned ks dep dps" "levelLoop dps (sort ready) deg [] = (deg1, ready1)"
  shows "kahn_inv ks dep deg1 ready1 (os @ sort ready)"
proof -
  let ?D = "concat (map dps (sort ready))"
  have i: "closed_order dep os" "set os \<subseteq> ks" "\<And>k. deg k = int (length (filter (\<lambda>d. d \<notin> set os) (dep k)))"
    "distinct ready" "set ready = {k \<in> ks. k \<notin> set os \<and> deg k = 0}"
    using assms(1) unfolding kahn_inv_def by blast+
  have d: "deg1 = (\<lambda>k. deg k - int (count_list ?D k))" "distinct ready1"
    "set ready1 = {k. 0 < deg k \<and> deg k \<le> int (count_list ?D k)}"
    using relax_spec [of ?D deg "[]"] assms(3) by (auto simp: levelLoop_relax)
  have c: "count_list ?D k = length (filter (\<lambda>d. d \<in> set ready) (dep k))" for k
    using count_level [OF assms(2), of "sort ready"] i(4) by simp
  have dis: "set ready \<inter> set os = {}" using i(5) by auto
  have deg1: "deg1 k = int (length (filter (\<lambda>d. d \<notin> set (os @ sort ready)) (dep k)))" for k
    using filter_split [OF dis, of "dep k"] i(3) [of k] c [of k] by (simp add: d(1))
  have zero: "k \<in> set os \<or> k \<in> set ready \<Longrightarrow> deg k = 0" for k
    using i(3) [of k] i(5) closed_orderD [OF i(1), of k] by (auto simp: filter_empty_conv)
  have "set ready1 = {k \<in> ks. k \<notin> set (os @ sort ready) \<and> deg1 k = 0}"
  proof (intro set_eqI iffI)
    fix k assume "k \<in> set ready1"
    then have k: "0 < deg k" "deg1 k \<le> 0" using d by auto
    then have "dep k \<noteq> []" using i(3) [of k] by auto
    then have "k \<in> ks" using assms(2) by (auto simp: turned_def)
    then show "k \<in> {k \<in> ks. k \<notin> set (os @ sort ready) \<and> deg1 k = 0}"
      using k zero [of k] deg1 [of k] by auto
  next
    fix k assume k: "k \<in> {k \<in> ks. k \<notin> set (os @ sort ready) \<and> deg1 k = 0}"
    then have "deg k \<noteq> 0" using i(5) by auto
    moreover have "deg k \<ge> 0" using i(3) [of k] by simp
    ultimately show "k \<in> set ready1" using d k by auto
  qed
  moreover have "set (dep k) \<subseteq> set os" if "k \<in> set ready" for k
    using zero [of k] that i(3) [of k] by (auto simp: filter_empty_conv)
  then have "closed_order dep (os @ sort ready)"
    using closed_order_append [OF i(1), of "sort ready"] i(4) dis by simp
  moreover have "set (os @ sort ready) \<subseteq> ks" using i(2,5) by auto
  ultimately show ?thesis unfolding kahn_inv_def using deg1 d(2) by blast
qed

text \<open>The loop ends, in the same way for every order in which the maps were iterated.\<close>

lemma kahn_ends:
  assumes "finite ks" "turned ks dep dps" "turned ks dep dps'"
    and "kahn_inv ks dep deg ready os" "mset ready' = mset ready"
  shows "\<exists>os' deg'. kahn dps deg ready os = Some (os', deg') \<and> kahn dps' deg ready' os = Some (os', deg') \<and>
    kahn_inv ks dep deg' [] os'"
  using assms(4,5)
proof (induction "card ks - length os" arbitrary: deg ready ready' os rule: less_induct)
  case less
  show ?case
  proof (cases "ready = []")
    case True
    with less.prems show ?thesis
      by (subst (1 2) kahn.simps) (auto simp: kahn_inv_def)
  next
    case False
    have ne: "ready' \<noteq> []" and srt: "sort ready' = sort ready"
      using less.prems(2) False by (auto intro: properties_for_sort)
    obtain deg1 ready1 where 1: "levelLoop dps (sort ready) deg [] = (deg1, ready1)" by fastforce
    obtain deg2 ready2 where 2: "levelLoop dps' (sort ready) deg [] = (deg2, ready2)" by fastforce
    note i1 = kahn_step [OF less.prems(1) assms(2) 1] and i2 = kahn_step [OF less.prems(1) assms(3) 2]
    have deg: "deg2 = deg1" using i1 i2 by (auto simp: kahn_inv_def fun_eq_iff)
    have "mset ready2 = mset ready1"
      using i1 i2 deg by (simp add: kahn_inv_def set_eq_iff_mset_eq_distinct [symmetric])
    moreover have "card ks - length (os @ sort ready) < card ks - length os"
    proof -
      have "length (os @ sort ready) \<le> card ks"
        using i1 card_mono [OF assms(1), of "set (os @ sort ready)"]
        by (simp add: kahn_inv_def closed_order_def distinct_card del: set_append set_sort length_sort)
      then show ?thesis using False by (cases ready) auto
    qed
    ultimately obtain os' deg' where "kahn dps deg1 ready1 (os @ sort ready) = Some (os', deg')"
      "kahn dps' deg1 ready2 (os @ sort ready) = Some (os', deg')" "kahn_inv ks dep deg' [] os'"
      using less.hyps [OF _ i1, of ready2] by blast
    then show ?thesis using False ne srt 1 2 deg
      by (subst (1 2) kahn.simps) (auto simp: Let_def)
  qed
qed

section \<open>What the ordering returns\<close>

definition wf_graph :: "'i Resource list \<Rightarrow> bool" where
  "wf_graph rs \<longleftrightarrow> distinct (map rkey rs) \<and> (\<forall>r \<in> set rs. \<forall>d \<in> set (DependsOn r). Key d \<in> rkey ` set rs)"

abbreviation zero_degrees :: degrees where
  "zero_degrees \<equiv> \<lparr>indegree = (\<lambda>_. 0), dependents = (\<lambda>_. [])\<rparr>"

lemma byKeyLoop_distinct:
  assumes "distinct (map rkey rs)"
  shows "byKeyLoop rs Map.empty = Inr (\<lambda>k. find (\<lambda>r. rkey r = k) rs)"
proof (cases "byKeyLoop rs Map.empty")
  case (Inl e)
  then show ?thesis using byKeyLoop_Inl [OF Inl] assms by simp
next
  case (Inr m)
  have "find (\<lambda>r. rkey r = k) rs = None" if "k \<notin> rkey ` set rs" for k using that by (auto simp: find_None_iff)
  then show ?thesis using byKeyLoop_Inr [OF Inr] Inr by (auto simp: fun_eq_iff)
qed

lemma degreeLoop_wf:
  assumes "wf_graph rs"
  obtains g where "degreeLoop (\<lambda>k. find (\<lambda>r. rkey r = k) rs) rs zero_degrees = Inr g"
    "turned (rkey ` set rs) (depKeys rs) (dependents g)"
    "kahn_inv (rkey ` set rs) (depKeys rs) (indegree g) (filter (\<lambda>k. indegree g k = 0) (map rkey rs)) []"
proof (cases "degreeLoop (\<lambda>k. find (\<lambda>r. rkey r = k) rs) rs zero_degrees")
  case (Inl e)
  from degreeLoop_Inl [OF this] show ?thesis using assms by (fastforce simp: wf_graph_def find_None_iff image_iff)
next
  case (Inr g)
  note g = degreeLoop_Inr [OF this]
  have "depKeys rs k \<noteq> [] \<Longrightarrow> k \<in> rkey ` set rs" for k by (auto simp: depKeys_def filter_empty_conv)
  then show ?thesis using g assms by (intro that [OF Inr]) (auto simp: turned_def kahn_inv_def closed_order_def wf_graph_def)
qed

lemma topoSort_wf:
  assumes "wf_graph rs"
  obtains os deg where "kahn_inv (rkey ` set rs) (depKeys rs) deg [] os"
    "topoSort rs = Some (if length os \<noteq> length rs then Inl (Cycle (sort (filter (\<lambda>k. deg k > 0) (map rkey rs))))
       else Inr (map (\<lambda>k. the (find (\<lambda>r. rkey r = k) rs)) os))"
proof -
  obtain g where g: "degreeLoop (\<lambda>k. find (\<lambda>r. rkey r = k) rs) rs zero_degrees = Inr g"
    "turned (rkey ` set rs) (depKeys rs) (dependents g)"
    "kahn_inv (rkey ` set rs) (depKeys rs) (indegree g) (filter (\<lambda>k. indegree g k = 0) (map rkey rs)) []"
    by (rule degreeLoop_wf [OF assms])
  obtain os deg where "kahn (dependents g) (indegree g) (filter (\<lambda>k. indegree g k = 0) (map rkey rs)) [] = Some (os, deg)"
    "kahn_inv (rkey ` set rs) (depKeys rs) deg [] os"
    using kahn_ends [OF _ g(2,2,3) refl] by auto
  moreover have "byKeyLoop rs Map.empty = Inr (\<lambda>k. find (\<lambda>r. rkey r = k) rs)"
    using byKeyLoop_distinct assms by (auto simp: wf_graph_def)
  ultimately show ?thesis using g(1) by (intro that [of deg os]) (simp_all add: topoSort_def)
qed

text \<open>An ill-formed graph is an error of the first or second loop.\<close>

lemma topoSort_ill:
  assumes "\<not> wf_graph rs"
  shows "\<exists>k. topoSort rs = Some (Inl (Duplicate k)) \<or> (\<exists>d. topoSort rs = Some (Inl (NotInGraph k d)))"
proof (cases "distinct (map rkey rs)")
  case True
  let ?m = "\<lambda>k. find (\<lambda>r. rkey r = k) rs"
  obtain r d where rd: "r \<in> set rs" "d \<in> set (DependsOn r)" "Key d \<notin> rkey ` set rs" using assms True by (auto simp: wf_graph_def)
  show ?thesis
  proof (cases "degreeLoop ?m rs zero_degrees")
    case (Inl e)
    then show ?thesis using degreeLoop_Inl [OF Inl] byKeyLoop_distinct [OF True] by (auto simp: topoSort_def)
  next
    case (Inr g)
    have "Key d \<in> set (depKeys rs (rkey r))" using rd by (auto simp: set_depKeys)
    then have "?m (Key d) \<noteq> None" using degreeLoop_Inr [OF Inr] by blast
    then show ?thesis using rd(3) by (auto simp: find_None_iff image_iff)
  qed
next
  case False
  then obtain e where e: "byKeyLoop rs Map.empty = Inl e"
    using byKeyLoop_Inr [of rs Map.empty] by (cases "byKeyLoop rs Map.empty") auto
  have "byKeyLoop rs m = Inl e \<Longrightarrow> \<exists>k. e = Duplicate k" for m by (induction rs arbitrary: m) (auto split: if_splits)
  with e show ?thesis by (auto simp: topoSort_def)
qed

text \<open>A complete order lists the resources themselves, each after its dependencies.\<close>

lemma order_resources:
  assumes "wf_graph rs" "kahn_inv (rkey ` set rs) (depKeys rs) deg [] os" "length os = length rs"
    "ord = map (\<lambda>k. the (find (\<lambda>r. rkey r = k) rs)) os"
  shows "mset ord = mset rs" "\<forall>i < length ord. \<forall>d \<in> set (DependsOn (ord ! i)). \<exists>j < i. rkey (ord ! j) = Key d"
proof -
  have dis: "distinct (map rkey rs)" using assms(1) by (simp add: wf_graph_def)
  have os: "distinct os" "set os \<subseteq> rkey ` set rs" using assms(2) by (simp_all add: kahn_inv_def closed_order_def)
  have "card (set os) = card (rkey ` set rs)"
    using assms(3) dis os(1) by (metis distinct_card length_map list.set_map)
  then have all: "set os = rkey ` set rs" using os(2) by (simp add: card_subset_eq)
  have pick: "the (find (\<lambda>r. rkey r = k) rs) \<in> set rs \<and> rkey (the (find (\<lambda>r. rkey r = k) rs)) = k" if "k \<in> set os" for k
    using that os(2) find_unique [OF dis] by fastforce
  have keys: "map rkey ord = os" using pick assms(4) by (simp add: map_idI)
  have "distinct ord" using keys os(1) by (metis distinct_map)
  moreover have "distinct rs" using dis by (simp add: distinct_map)
  moreover have "set ord = set rs"
  proof -
    have "set ord \<subseteq> set rs" using pick assms(4) by auto
    moreover have "card (set ord) = card (set rs)"
      using distinct_card [OF \<open>distinct ord\<close>] distinct_card [OF \<open>distinct rs\<close>] assms(3,4) by simp
    ultimately show ?thesis by (simp add: card_subset_eq)
  qed
  ultimately show "mset ord = mset rs" by (simp add: set_eq_iff_mset_eq_distinct)
  show "\<forall>i < length ord. \<forall>d \<in> set (DependsOn (ord ! i)). \<exists>j < i. rkey (ord ! j) = Key d"
  proof (intro allI impI ballI)
    fix i d assume i: "i < length ord" and d: "d \<in> set (DependsOn (ord ! i))"
    have "ord ! i \<in> set rs" using \<open>set ord = set rs\<close> i nth_mem by blast
    moreover have k: "rkey (ord ! i) = os ! i" using keys i by (metis nth_map)
    ultimately have "Key d \<in> set (depKeys rs (os ! i))" using d by (auto simp: set_depKeys)
    then have "Key d \<in> set (take i os)" using assms(2) i keys by (auto simp: kahn_inv_def closed_order_def)
    then obtain j where "j < i" "os ! j = Key d" "j < length os" by (auto simp: in_set_conv_nth)
    then show "\<exists>j < i. rkey (ord ! j) = Key d" using keys i by (metis length_map nth_map)
  qed
qed

text \<open>The dependency relation, and what is left when the loop ends early.\<close>

definition depends :: "'i Resource list \<Rightarrow> (string \<times> string) set" where
  "depends rs = {(Key d, rkey r) | d r. r \<in> set rs \<and> d \<in> set (DependsOn r)}"

lemma depends_iff: "(a, b) \<in> depends rs \<longleftrightarrow> a \<in> set (depKeys rs b)"
  by (auto simp: depends_def set_depKeys)

lemma stuck_depends:
  assumes "wf_graph rs" "kahn_inv (rkey ` set rs) (depKeys rs) deg [] os" "k \<in> rkey ` set rs" "deg k > 0"
  shows "\<exists>d \<in> rkey ` set rs. deg d > 0 \<and> (d, k) \<in> depends rs"
proof -
  have "filter (\<lambda>d. d \<notin> set os) (depKeys rs k) \<noteq> []" using assms(2,4) by (auto simp: kahn_inv_def)
  then obtain d where d: "d \<in> set (depKeys rs k)" "d \<notin> set os" by (auto simp: filter_empty_conv)
  have "d \<in> rkey ` set rs" using d(1) assms(1) by (auto simp: set_depKeys wf_graph_def)
  moreover have "deg d > 0"
  proof -
    have "deg d \<noteq> 0" using assms(2) d(2) calculation by (auto simp: kahn_inv_def)
    moreover have "deg d \<ge> 0" using assms(2) by (simp add: kahn_inv_def)
    ultimately show ?thesis by simp
  qed
  ultimately show ?thesis using d(1) by (auto simp: depends_iff)
qed

lemma incomplete_stuck:
  assumes "wf_graph rs" "kahn_inv (rkey ` set rs) (depKeys rs) deg [] os" "length os \<noteq> length rs"
  shows "\<exists>k \<in> rkey ` set rs. deg k > 0"
proof -
  have i: "distinct os" "set os \<subseteq> rkey ` set rs" "{k \<in> rkey ` set rs. k \<notin> set os \<and> deg k = 0} = {}"
    using assms(2) unfolding kahn_inv_def closed_order_def by auto
  have pos: "deg k \<ge> 0" for k using assms(2) by (simp add: kahn_inv_def)
  have "set os \<noteq> rkey ` set rs"
    using assms(1,3) i(1) by (metis distinct_card length_map list.set_map wf_graph_def)
  then obtain k where "k \<in> rkey ` set rs" "k \<notin> set os" using i(2) by blast
  then show ?thesis using i(3) pos [of k] by (metis (mono_tags, lifting) empty_iff linorder_not_le mem_Collect_eq order_antisym)
qed

lemma order_acyclic:
  assumes "\<forall>i < length ord. \<forall>d \<in> set (DependsOn (ord ! i)). \<exists>j < i. rkey (ord ! j) = Key d" "mset ord = mset rs"
    "distinct (map rkey rs)"
  shows "acyclic (depends rs)"
proof -
  let ?ks = "map rkey ord"
  have dis: "distinct ?ks" using assms(2,3) by (metis mset_eq_imp_distinct_iff mset_map)
  have "depends rs \<subseteq> {(?ks ! j, ?ks ! i) | i j. j < i \<and> i < length ?ks}"
  proof
    fix p assume "p \<in> depends rs"
    then obtain r d where p: "p = (Key d, rkey r)" "r \<in> set rs" "d \<in> set (DependsOn r)" by (auto simp: depends_def)
    have "r \<in> set ord" using p(2) assms(2) by (metis mset_eq_setD)
    then obtain i where i: "i < length ord" "ord ! i = r" by (auto simp: in_set_conv_nth)
    then obtain j where "j < i" "rkey (ord ! j) = Key d" using assms(1) p(3) by blast
    then show "p \<in> {(?ks ! j, ?ks ! i) | i j. j < i \<and> i < length ?ks}" using i p(1) by force
  qed
  moreover have "acyclic {(?ks ! j, ?ks ! i) | i j. j < i \<and> i < length ?ks}"
  proof (rule acyclicI_order [of _ "\<lambda>k. - int (THE i. i < length ?ks \<and> ?ks ! i = k)"])
    fix a b assume "(a, b) \<in> {(?ks ! j, ?ks ! i) | i j. j < i \<and> i < length ?ks}"
    then obtain i j where ij: "a = ?ks ! j" "b = ?ks ! i" "j < i" "i < length ?ks" by blast
    have the: "(THE n. n < length ?ks \<and> ?ks ! n = ?ks ! m) = m" if "m < length ?ks" for m
      using that nth_eq_iff_index_eq [OF dis] by (intro the_equality) blast+
    show "- int (THE i. i < length ?ks \<and> ?ks ! i = b) < - int (THE i. i < length ?ks \<and> ?ks ! i = a)"
      unfolding ij(1,2) using the [of i] the [of j] ij(3,4) by simp
  qed
  ultimately show ?thesis by (rule acyclic_subset [rotated])
qed

lemma stuck_cyclic:
  assumes "finite K" "K \<noteq> {}" "\<And>k. k \<in> K \<Longrightarrow> \<exists>d \<in> K. (d, k) \<in> R"
  shows "\<not> acyclic R"
proof
  assume "acyclic R"
  let ?R = "R \<inter> K \<times> K"
  have "finite ?R" using assms(1) by (intro finite_subset [of ?R "K \<times> K"]) auto
  moreover have "acyclic ?R" using \<open>acyclic R\<close> by (rule acyclic_subset) simp
  ultimately have "wf ?R" by (rule finite_acyclic_wf)
  then obtain k where "k \<in> K" "\<And>d. (d, k) \<in> ?R \<Longrightarrow> d \<notin> K" using assms(2) by (meson ex_in_conv wfE_min)
  then show False using assms(3) [of k] by blast
qed

lemma topoSort_Inr:
  assumes "topoSort rs = Some (Inr ord)"
  obtains os deg where "wf_graph rs" "kahn_inv (rkey ` set rs) (depKeys rs) deg [] os" "length os = length rs"
    "ord = map (\<lambda>k. the (find (\<lambda>r. rkey r = k) rs)) os"
proof -
  have wf: "wf_graph rs" using topoSort_ill [of rs] assms by auto
  obtain os deg where "kahn_inv (rkey ` set rs) (depKeys rs) deg [] os"
    "topoSort rs = Some (if length os \<noteq> length rs then Inl (Cycle (sort (filter (\<lambda>k. deg k > 0) (map rkey rs))))
       else Inr (map (\<lambda>k. the (find (\<lambda>r. rkey r = k) rs)) os))"
    by (rule topoSort_wf [OF wf])
  then show ?thesis using assms wf by (intro that) (auto split: if_splits)
qed

lemma topoSort_facts:
  assumes "topoSort rs = Some (Inr ord)"
  shows "wf_graph rs" "mset ord = mset rs" "\<forall>i < length ord. \<forall>d \<in> set (DependsOn (ord ! i)). \<exists>j < i. rkey (ord ! j) = Key d"
    "acyclic (depends rs)"
proof -
  obtain os deg where o: "wf_graph rs" "kahn_inv (rkey ` set rs) (depKeys rs) deg [] os" "length os = length rs"
    "ord = map (\<lambda>k. the (find (\<lambda>r. rkey r = k) rs)) os"
    by (rule topoSort_Inr [OF assms])
  note f = order_resources [OF o]
  show "wf_graph rs" "mset ord = mset rs" "\<forall>i < length ord. \<forall>d \<in> set (DependsOn (ord ! i)). \<exists>j < i. rkey (ord ! j) = Key d"
    by (fact o(1) f)+
  show "acyclic (depends rs)" using order_acyclic [OF f(2,1)] o(1) by (simp add: wf_graph_def)
qed

lemma topoSort_Cycle:
  assumes "topoSort rs = Some (Inl (Cycle ks))"
  shows "wf_graph rs" "ks \<noteq> []" "\<And>k. k \<in> set ks \<Longrightarrow> \<exists>d \<in> set ks. (d, k) \<in> depends rs"
proof -
  show wf: "wf_graph rs" using topoSort_ill [of rs] assms by auto
  obtain os deg where o: "kahn_inv (rkey ` set rs) (depKeys rs) deg [] os"
    "topoSort rs = Some (if length os \<noteq> length rs then Inl (Cycle (sort (filter (\<lambda>k. deg k > 0) (map rkey rs))))
       else Inr (map (\<lambda>k. the (find (\<lambda>r. rkey r = k) rs)) os))"
    by (rule topoSort_wf [OF wf])
  then have ks: "set ks = {k \<in> rkey ` set rs. deg k > 0}" "length os \<noteq> length rs" using assms by (auto split: if_splits)
  show "ks \<noteq> []" using incomplete_stuck [OF wf o(1) ks(2)] ks(1) by auto
  show "\<exists>d \<in> set ks. (d, k) \<in> depends rs" if "k \<in> set ks" for k
    using stuck_depends [OF wf o(1), of k] that ks(1) by auto
qed

lemma topoSort_returns: "topoSort rs \<noteq> None"
  using topoSort_wf [of rs] topoSort_ill [of rs] by (metis option.distinct(1))

lemma topoSort_succeeds:
  assumes "wf_graph rs" "acyclic (depends rs)"
  shows "\<exists>ord. topoSort rs = Some (Inr ord)"
proof -
  obtain os and deg :: "string \<Rightarrow> int" where o: "topoSort rs = Some (if length os \<noteq> length rs then Inl (Cycle (sort (filter (\<lambda>k. deg k > 0) (map rkey rs))))
       else Inr (map (\<lambda>k. the (find (\<lambda>r. rkey r = k) rs)) os))"
    by (rule topoSort_wf [OF assms(1)])
  show "\<exists>ord. topoSort rs = Some (Inr ord)"
  proof (rule ccontr)
    assume "\<nexists>ord. topoSort rs = Some (Inr ord)"
    then obtain ks where ks: "topoSort rs = Some (Inl (Cycle ks))" using o by (auto split: if_splits)
    have "\<not> acyclic (depends rs)"
      by (rule stuck_cyclic [of "set ks"]) (use topoSort_Cycle [OF ks] in auto)
    then show False using assms(2) by blast
  qed
qed

section \<open>The interface of the ordering\<close>

text \<open>What the planner relies on: an order of the resources under distinct keys, dependencies first.\<close>

locale graph_order =
  fixes order :: "'i Resource list \<Rightarrow> 'i Resource list \<Rightarrow> bool"
  assumes order_perm: "order rs ord \<Longrightarrow> mset ord = mset rs"
    and order_keys: "order rs ord \<Longrightarrow> distinct (map rkey rs)"
    and order_deps: "order rs ord \<Longrightarrow> i < length ord \<Longrightarrow> d \<in> set (DependsOn (ord ! i)) \<Longrightarrow> \<exists>j < i. rkey (ord ! j) = Key d"
begin

lemma ordered_keys: "order rs ord \<Longrightarrow> distinct (map rkey ord)"
  using order_perm order_keys by (metis mset_eq_imp_distinct_iff mset_map)

lemma ordered_set: "order rs ord \<Longrightarrow> set ord = set rs"
  using order_perm by (metis mset_eq_setD)

text \<open>A dependency stands before its dependent wherever both occur.\<close>

lemma dep_before:
  assumes "order rs ord" "i < length ord" "j < length ord" "d \<in> set (DependsOn (ord ! i))" "rkey (ord ! j) = Key d"
  shows "j < i"
proof -
  obtain k where k: "k < i" "rkey (ord ! k) = Key d" using order_deps [OF assms(1,2,4)] by blast
  have "map rkey ord ! k = map rkey ord ! j" using k assms(2,3,5) by simp
  then have "k = j" using nth_eq_iff_index_eq [OF ordered_keys [OF assms(1)], of k j] k(1) assms(2,3) by simp
  with k(1) show ?thesis by simp
qed

end

interpretation ts: graph_order "\<lambda>rs ord. topoSort rs = Some (Inr ord)"
proof
  fix rs ord :: "'a Resource list"
  assume t: "topoSort rs = Some (Inr ord)"
  note f = topoSort_facts [OF t]
  show "mset ord = mset rs" "distinct (map rkey rs)" using f(1,2) by (simp_all add: wf_graph_def)
  show "\<exists>j < i. rkey (ord ! j) = Key d" if "i < length ord" "d \<in> set (DependsOn (ord ! i))" for i d
    using f(3) that by blast
qed

section \<open>Properties\<close>

section \<open>An example for the witnesses\<close>

abbreviation exBadge :: "unit Resource" where
  "exBadge \<equiv> \<lparr>ResKind = ''badge'', ResName = ''b'', DependsOn = [\<lparr>RefKind = ''z'', RefName = ''i''\<rparr>], Inputs = ()\<rparr>"
abbreviation exAsset :: "unit Resource" where
  "exAsset \<equiv> \<lparr>ResKind = ''z'', ResName = ''i'', DependsOn = [], Inputs = ()\<rparr>"

lemma topoSort_ex: "topoSort [exBadge, exAsset] = Some (Inr [exAsset, exBadge])"
  by (simp add: topoSort_def Key_def Ref_def kahn.simps)

text \<open>C8: \<open>topoSort\<close> always returns, and it succeeds exactly for the graphs with distinct identities,
  no reference outside the graph and no dependency cycle. A reported cycle is one: it names a
  nonempty set of resources each of which depends on another of the set.\<close>

theorem topoSort_decides:
  "topoSort rs \<noteq> None \<and> ((\<exists>ord. topoSort rs = Some (Inr ord)) \<longleftrightarrow> wf_graph rs \<and> acyclic (depends rs)) \<and>
   (\<forall>ks. topoSort rs = Some (Inl (Cycle ks)) \<longrightarrow> ks \<noteq> [] \<and> (\<forall>k \<in> set ks. \<exists>d \<in> set ks. (d, k) \<in> depends rs))"
proof (intro conjI iffI allI impI ballI)
  show "\<exists>ord. topoSort rs = Some (Inr ord)" if "wf_graph rs \<and> acyclic (depends rs)" using that topoSort_succeeds by blast
next
  show "topoSort rs \<noteq> None" by (rule topoSort_returns)
  show "wf_graph rs" "acyclic (depends rs)" if "\<exists>ord. topoSort rs = Some (Inr ord)"
    using that topoSort_facts by blast+
  show "ks \<noteq> []" if "topoSort rs = Some (Inl (Cycle ks))" for ks
    using topoSort_Cycle(2) [OF that] .
  show "\<exists>d \<in> set ks. (d, k) \<in> depends rs" if "topoSort rs = Some (Inl (Cycle ks))" "k \<in> set ks" for ks k
    using topoSort_Cycle(3) [OF that] .
qed

theorem topoSort_decides_witness:
  "topoSort [exAsset\<lparr>DependsOn := [Ref exBadge]\<rparr>, exBadge] = Some (Inl (Cycle [''badge/b'', ''z/i''])) \<and>
   (\<exists>d \<in> {''badge/b'', ''z/i''}. (d, ''z/i'') \<in> depends [exAsset\<lparr>DependsOn := [Ref exBadge]\<rparr>, exBadge])"
proof -
  have "topoSort [exAsset\<lparr>DependsOn := [Ref exBadge]\<rparr>, exBadge] = Some (Inl (Cycle [''badge/b'', ''z/i'']))"
    by (simp add: topoSort_def Key_def Ref_def kahn.simps)
  with topoSort_decides [of "[exAsset\<lparr>DependsOn := [Ref exBadge]\<rparr>, exBadge]"] show ?thesis by auto
qed

text \<open>The order does not depend on the order in which the resources are listed (they come from
  iterations over Go maps).\<close>

lemma topoSort_deterministic:
  assumes "topoSort rs = Some (Inr ord)" "mset rs' = mset rs"
  shows "topoSort rs' = Some (Inr ord)"
proof -
  note f = topoSort_facts [OF assms(1)]
  have s: "set rs' = set rs" using assms(2) by (rule mset_eq_setD)
  have d: "distinct (map rkey rs)" "distinct (map rkey rs')"
    using f(1) assms(2) by (auto simp: wf_graph_def) (metis mset_eq_imp_distinct_iff mset_map)
  have wf': "wf_graph rs'" using f(1) d s by (simp add: wf_graph_def)
  have find: "find (\<lambda>r. rkey r = k) rs' = find (\<lambda>r. rkey r = k) rs" for k
  proof (cases "k \<in> rkey ` set rs")
    case True
    then show ?thesis using find_unique [OF d(1)] find_unique [OF d(2)] s by auto
  next
    case False
    then have "find (\<lambda>r. rkey r = k) rs = None" "find (\<lambda>r. rkey r = k) rs' = None" using s by (auto simp: find_None_iff)
    then show ?thesis by simp
  qed
  have dep: "depKeys rs' k = depKeys rs k" for k
  proof (cases "k \<in> rkey ` set rs")
    case True
    then obtain r where r: "r \<in> set rs" "rkey r = k" by blast
    have "filter (\<lambda>r. rkey r = k) xs = [r]" if "distinct (map rkey xs)" "r \<in> set xs" for xs
      using that r(2) by (induction xs) (auto simp: filter_empty_conv image_iff)
    then show ?thesis using d s r(1) by (simp add: depKeys_def)
  next
    case False
    have "filter (\<lambda>r. rkey r = k) rs = []" "filter (\<lambda>r. rkey r = k) rs' = []" using False s by (auto simp: filter_empty_conv)
    then show ?thesis by (simp add: depKeys_def)
  qed
  obtain g where g: "degreeLoop (\<lambda>k. find (\<lambda>r. rkey r = k) rs) rs zero_degrees = Inr g"
    "turned (rkey ` set rs) (depKeys rs) (dependents g)"
    "kahn_inv (rkey ` set rs) (depKeys rs) (indegree g) (filter (\<lambda>k. indegree g k = 0) (map rkey rs)) []"
    by (rule degreeLoop_wf [OF f(1)])
  obtain h where h: "degreeLoop (\<lambda>k. find (\<lambda>r. rkey r = k) rs) rs' zero_degrees = Inr h"
    "turned (rkey ` set rs) (depKeys rs) (dependents h)"
    "kahn_inv (rkey ` set rs) (depKeys rs) (indegree h) (filter (\<lambda>k. indegree h k = 0) (map rkey rs')) []"
    using degreeLoop_wf [OF wf', unfolded find s ext [OF dep]] by blast
  have deg: "indegree h = indegree g" using g(3) h(3) by (auto simp: kahn_inv_def fun_eq_iff)
  have "mset (filter (\<lambda>k. indegree h k = 0) (map rkey rs')) = mset (filter (\<lambda>k. indegree g k = 0) (map rkey rs))"
    using assms(2) deg by (metis mset_filter mset_map)
  from kahn_ends [OF _ g(2) h(2) g(3) this]
  obtain os' deg' where k: "kahn (dependents g) (indegree g) (filter (\<lambda>k. indegree g k = 0) (map rkey rs)) [] = Some (os', deg')"
    "kahn (dependents h) (indegree g) (filter (\<lambda>k. indegree h k = 0) (map rkey rs')) [] = Some (os', deg')" by auto
  have len: "length rs' = length rs" using assms(2) by (metis size_mset)
  show ?thesis
    using assms(1) byKeyLoop_distinct [OF d(1)] byKeyLoop_distinct [OF d(2)] find g(1) h(1) k deg len
    by (auto simp: topoSort_def split: if_splits)
qed

text \<open>C39: the result of \<open>topoSort\<close> is a permutation of the resources in which every resource comes after its
  dependencies, and it does not depend on the order in which the resources are listed (they come from iterations over
  Go maps).\<close>

theorem topoSort_orders:
  assumes "topoSort rs = Some (Inr ord)" "mset rs' = mset rs"
  shows "topoSort rs' = Some (Inr ord) \<and> mset ord = mset rs \<and>
    (\<forall>i < length ord. \<forall>d \<in> set (DependsOn (ord ! i)). \<exists>j < i. rkey (ord ! j) = Key d)"
  using topoSort_facts [OF assms(1)] topoSort_deterministic [OF assms] by blast

theorem topoSort_orders_witness:
  "topoSort [exAsset, exBadge] = Some (Inr [exAsset, exBadge]) \<and> (\<exists>j < 1. rkey ([exAsset, exBadge] ! j) = ''z/i'')"
  using topoSort_orders [OF topoSort_ex, of "[exAsset, exBadge]"] by (simp add: Key_def Ref_def)

end
