(* ===== verification/Deploy_Plan.thy ===== *)
theory Deploy_Plan
  imports Deploy_Graph "HOL-Library.AList"
begin

text \<open>
  State, plan and execution of a deployment: \<open>state.go\<close>, \<open>plan.go\<close> and \<open>apply.go\<close> of
  \<open>src/internal/deploy\<close>.

  The inputs hash, the providers with the cloud behind them, the function that saves the state and
  the progress callback are arguments; the calls to them thread a value of type \<open>'w\<close>, the world
  outside. The map of the state is an association list with distinct keys; the entries of the Go
  map are non-nil pointers.
\<close>

section \<open>State (\<open>state.go\<close>)\<close>

type_synonym 'v outputs = "(string \<rightharpoonup> 'v) option"

record 'v StateEntry =
  InputsHash :: string
  Outputs :: "'v outputs"

record 'v State =
  Version :: int
  Resources :: "(string \<times> 'v StateEntry) list"

definition stateVersion :: int where "stateVersion = 1"

definition NewState :: "'v State" where
  "NewState = \<lparr>Version = stateVersion, Resources = []\<rparr>"

abbreviation entry :: "'v State \<Rightarrow> string \<Rightarrow> 'v StateEntry option" where
  "entry st \<equiv> map_of (Resources st)"

section \<open>Plan (\<open>plan.go\<close>)\<close>

datatype Op = OpCreate | OpUpdate | OpNoop | OpDelete | OpBlockedDelete

record 'i Step =
  StepOp :: Op
  StepRef :: ResourceRef
  StepResource :: "'i Resource option"
  StepHash :: string

record PlanOptions =
  AllowDeletes :: bool

record 'i Plan =
  Steps :: "'i Step list"
  Creates :: nat
  Updates :: nat
  Deletes :: nat
  BlockedDeletes :: nat
  Noops :: nat

definition emptyPlan :: "'i Plan" where
  "emptyPlan = \<lparr>Steps = [], Creates = 0, Updates = 0, Deletes = 0, BlockedDeletes = 0, Noops = 0\<rparr>"

definition HasChanges :: "'i Plan \<Rightarrow> bool" where
  "HasChanges p \<longleftrightarrow> Creates p + Updates p + Deletes p > 0"

datatype 'e plan_error = GraphError graph_error | HashError 'e

text \<open>The decision for one resource.\<close>

definition planOp :: "'v State \<Rightarrow> string \<Rightarrow> string \<Rightarrow> Op" where
  "planOp st key hash = (case entry st key of
      Some prior \<Rightarrow> if InputsHash prior = hash then OpNoop else OpUpdate
    | None \<Rightarrow> OpCreate)"

definition tally :: "Op \<Rightarrow> 'i Plan \<Rightarrow> 'i Plan" where
  "tally op p = (case op of
      OpCreate \<Rightarrow> p\<lparr>Creates := Creates p + 1\<rparr>
    | OpUpdate \<Rightarrow> p\<lparr>Updates := Updates p + 1\<rparr>
    | OpNoop \<Rightarrow> p\<lparr>Noops := Noops p + 1\<rparr>
    | _ \<Rightarrow> p)"

fun liveLoop :: "('i \<Rightarrow> 'e + string) \<Rightarrow> 'v State \<Rightarrow> 'i Resource list \<Rightarrow> 'i Plan \<Rightarrow> 'e plan_error + 'i Plan" where
  "liveLoop HashInputs st [] p = Inr p"
| "liveLoop HashInputs st (r # rs) p =
     (case HashInputs (Inputs r) of Inl e \<Rightarrow> Inl (HashError e)
      | Inr hash \<Rightarrow>
          (let op = planOp st (rkey r) hash; p1 = tally op p in
           liveLoop HashInputs st rs
             (p1\<lparr>Steps := Steps p1 @ [\<lparr>StepOp = op, StepRef = Ref r, StepResource = Some r, StepHash = hash\<rparr>]\<rparr>)))"

text \<open>\<open>parseStateKey\<close> splits at the first slash.\<close>

definition parseStateKey :: "string \<Rightarrow> ResourceRef" where
  "parseStateKey key =
     (if CHR ''/'' \<in> set key
      then \<lparr>RefKind = takeWhile (\<lambda>c. c \<noteq> CHR ''/'') key, RefName = tl (dropWhile (\<lambda>c. c \<noteq> CHR ''/'') key)\<rparr>
      else \<lparr>RefKind = key, RefName = []\<rparr>)"

fun goneLoop :: "PlanOptions \<Rightarrow> string list \<Rightarrow> 'i Plan \<Rightarrow> 'i Plan" where
  "goneLoop opts [] p = p"
| "goneLoop opts (key # gone) p =
     (let (op, p1) = (if AllowDeletes opts then (OpDelete, p\<lparr>Deletes := Deletes p + 1\<rparr>)
                      else (OpBlockedDelete, p\<lparr>BlockedDeletes := BlockedDeletes p + 1\<rparr>)) in
      goneLoop opts gone
        (p1\<lparr>Steps := Steps p1 @ [\<lparr>StepOp = op, StepRef = parseStateKey key, StepResource = None, StepHash = []\<rparr>]\<rparr>))"

definition BuildPlan :: "('i \<Rightarrow> 'e + string) \<Rightarrow> 'i Resource list \<Rightarrow> 'v State option \<Rightarrow> PlanOptions \<Rightarrow> ('e plan_error + 'i Plan) option" where
  "BuildPlan HashInputs rs stp opts = do {
     ts \<leftarrow> topoSort rs;
     (case ts of Inl e \<Rightarrow> Some (Inl (GraphError e))
      | Inr ordered \<Rightarrow>
          (let st = (case stp of None \<Rightarrow> NewState | Some st \<Rightarrow> st) in
           Some (case liveLoop HashInputs st ordered emptyPlan of Inl e \<Rightarrow> Inl e
             | Inr p \<Rightarrow> Inr (goneLoop opts (sort (filter (\<lambda>k. k \<notin> rkey ` set ordered) (map fst (Resources st)))) p))))
   }"

section \<open>Execution (\<open>apply.go\<close>)\<close>

datatype StepStatus = StatusApplied | StatusUnchanged | StatusFailed | StatusSkipped

datatype 'e step_error = DependencyFailed string | ProviderError 'e

record ('i, 'e) StepResult =
  ResultStep :: "'i Step"
  Status :: StepStatus
  Err :: "'e step_error option"

record 'v Ctx =
  CtxUniverseID :: int
  CtxProjectDir :: string
  Output :: "ResourceRef \<Rightarrow> string \<Rightarrow> 'v option"

record ('i, 'v, 'w, 'e) Provider =
  Create :: "'v Ctx \<Rightarrow> 'i \<Rightarrow> 'v StateEntry option \<Rightarrow> 'w \<Rightarrow> ('e + 'v outputs) \<times> 'w"
  Update :: "'v Ctx \<Rightarrow> 'i \<Rightarrow> 'v StateEntry option \<Rightarrow> 'w \<Rightarrow> ('e + 'v outputs) \<times> 'w"
  Delete :: "'v Ctx \<Rightarrow> 'v StateEntry option \<Rightarrow> 'w \<Rightarrow> 'e option \<times> 'w"

record ('i, 'v, 'w, 'e) ApplyOptions =
  Providers :: "string \<Rightarrow> ('i, 'v, 'w, 'e) Provider option"
  UniverseID :: int
  ProjectDir :: string
  SaveState :: "('v State \<Rightarrow> 'w \<Rightarrow> 'e option \<times> 'w) option"
  OnStep :: "(('i, 'e) StepResult \<Rightarrow> 'w \<Rightarrow> 'w) option"

record ('i, 'e) ApplyResult =
  Results :: "('i, 'e) StepResult list"
  Created :: nat
  Updated :: nat
  Deleted :: nat
  Unchanged :: nat
  Failed :: nat
  Skipped :: nat

datatype 'e apply_error = PlanBlocked nat | NoProvider string | SaveError 'e | BlockedReached string

text \<open>What the loop changes: result, keys failed or skipped, state, world.\<close>

record ('i, 'v, 'w, 'e) apply_run =
  Res :: "('i, 'e) ApplyResult"
  failed :: "string set"
  St :: "'v State"
  World :: 'w

definition outputOf :: "'v State \<Rightarrow> ResourceRef \<Rightarrow> string \<Rightarrow> 'v option" where
  "outputOf st ref key = do { e \<leftarrow> entry st (Key ref); out \<leftarrow> Outputs e; out key }"

definition applyCtx :: "('i, 'v, 'w, 'e) ApplyOptions \<Rightarrow> 'v State \<Rightarrow> 'v Ctx" where
  "applyCtx opts st = \<lparr>CtxUniverseID = UniverseID opts, CtxProjectDir = ProjectDir opts, Output = outputOf st\<rparr>"

definition save :: "('i, 'v, 'w, 'e) ApplyOptions \<Rightarrow> 'v State \<Rightarrow> 'w \<Rightarrow> 'e option \<times> 'w" where
  "save opts st w = (case SaveState opts of None \<Rightarrow> (None, w) | Some f \<Rightarrow> f st w)"

definition record_step :: "('i, 'v, 'w, 'e) ApplyOptions \<Rightarrow> 'i Step \<Rightarrow> StepStatus \<Rightarrow> 'e step_error option \<Rightarrow>
    ('i, 'v, 'w, 'e) apply_run \<Rightarrow> ('i, 'v, 'w, 'e) apply_run" where
  "record_step opts step status err run =
     (let r = \<lparr>ResultStep = step, Status = status, Err = err\<rparr> in
      run\<lparr>Res := (Res run)\<lparr>Results := Results (Res run) @ [r]\<rparr>,
          World := (case OnStep opts of None \<Rightarrow> World run | Some f \<Rightarrow> f r (World run))\<rparr>)"

text \<open>\<open>failedDep\<close> finds the first failed dependency.\<close>

definition failedDep :: "'i Resource option \<Rightarrow> string set \<Rightarrow> ResourceRef option" where
  "failedDep rp bad = (case rp of None \<Rightarrow> None | Some r \<Rightarrow> find (\<lambda>d. Key d \<in> bad) (DependsOn r))"

definition mergeOutputs :: "'v StateEntry option \<Rightarrow> 'v outputs \<Rightarrow> 'v outputs" where
  "mergeOutputs prior out = (case prior of None \<Rightarrow> out
     | Some p \<Rightarrow> (case Outputs p of None \<Rightarrow> out
         | Some old \<Rightarrow> Some (old ++ (case out of None \<Rightarrow> Map.empty | Some new \<Rightarrow> new))))"

definition putEntry :: "string \<Rightarrow> 'v StateEntry \<Rightarrow> 'v State \<Rightarrow> 'v State" where
  "putEntry key e st = st\<lparr>Resources := AList.update key e (Resources st)\<rparr>"

definition dropEntry :: "string \<Rightarrow> 'v State \<Rightarrow> 'v State" where
  "dropEntry key st = st\<lparr>Resources := AList.delete key (Resources st)\<rparr>"

definition fail_step :: "('i, 'v, 'w, 'e) ApplyOptions \<Rightarrow> 'i Step \<Rightarrow> 'e \<Rightarrow> ('i, 'v, 'w, 'e) apply_run \<Rightarrow> ('i, 'v, 'w, 'e) apply_run" where
  "fail_step opts step e run =
     record_step opts step StatusFailed (Some (ProviderError e))
       (run\<lparr>failed := insert (Key (StepRef step)) (failed run), Res := (Res run)\<lparr>Failed := Failed (Res run) + 1\<rparr>\<rparr>)"

text \<open>The case of a create or update; \<open>Create\<close> and \<open>Update\<close> differ in the provider's method and
  the tally.\<close>

definition upsertStep :: "('i, 'v, 'w, 'e) ApplyOptions \<Rightarrow> 'i Step \<Rightarrow> ('i, 'v, 'w, 'e) apply_run \<Rightarrow> 'e apply_error option \<times> ('i, 'v, 'w, 'e) apply_run" where
  "upsertStep opts step run =
     (let key = Key (StepRef step); st = St run in
      case failedDep (StepResource step) (failed run) of
        Some dep \<Rightarrow>
          (None, record_step opts step StatusSkipped (Some (DependencyFailed (Key dep)))
             (run\<lparr>failed := insert key (failed run), Res := (Res run)\<lparr>Skipped := Skipped (Res run) + 1\<rparr>\<rparr>))
      | None \<Rightarrow>
          (case Providers opts (RefKind (StepRef step)) of
             None \<Rightarrow> (Some (NoProvider (RefKind (StepRef step))), run)
           | Some provider \<Rightarrow>
               (let prior = entry st key;
                    call = (if StepOp step = OpCreate then Create provider else Update provider);
                    (result, w1) = call (applyCtx opts st) (Inputs (the (StepResource step))) prior (World run);
                    run1 = run\<lparr>World := w1\<rparr> in
                case result of
                  Inl e \<Rightarrow> (None, fail_step opts step e run1)
                | Inr out \<Rightarrow>
                    (let st1 = putEntry key \<lparr>InputsHash = StepHash step, Outputs = mergeOutputs prior out\<rparr> st;
                         (saveErr, w2) = save opts st1 w1;
                         run2 = run1\<lparr>St := st1, World := w2\<rparr> in
                     case saveErr of
                       Some e \<Rightarrow> (Some (SaveError e), run2)
                     | None \<Rightarrow>
                         (None, record_step opts step StatusApplied None
                            (run2\<lparr>Res := (if StepOp step = OpCreate then (Res run2)\<lparr>Created := Created (Res run2) + 1\<rparr>
                                          else (Res run2)\<lparr>Updated := Updated (Res run2) + 1\<rparr>)\<rparr>))))))"

definition deleteStep :: "('i, 'v, 'w, 'e) ApplyOptions \<Rightarrow> 'i Step \<Rightarrow> ('i, 'v, 'w, 'e) apply_run \<Rightarrow> 'e apply_error option \<times> ('i, 'v, 'w, 'e) apply_run" where
  "deleteStep opts step run =
     (let key = Key (StepRef step); st = St run;
          (err, w1) = (case Providers opts (RefKind (StepRef step)) of
             None \<Rightarrow> (None, World run)
           | Some provider \<Rightarrow> Delete provider (applyCtx opts st) (entry st key) (World run));
          run1 = run\<lparr>World := w1\<rparr> in
      case err of
        Some e \<Rightarrow> (None, fail_step opts step e run1)
      | None \<Rightarrow>
          (let st1 = dropEntry key st; (saveErr, w2) = save opts st1 w1; run2 = run1\<lparr>St := st1, World := w2\<rparr> in
           case saveErr of
             Some e \<Rightarrow> (Some (SaveError e), run2)
           | None \<Rightarrow>
               (None, record_step opts step StatusApplied None
                  (run2\<lparr>Res := (Res run2)\<lparr>Deleted := Deleted (Res run2) + 1\<rparr>\<rparr>))))"

definition applyStep :: "('i, 'v, 'w, 'e) ApplyOptions \<Rightarrow> 'i Step \<Rightarrow> ('i, 'v, 'w, 'e) apply_run \<Rightarrow> 'e apply_error option \<times> ('i, 'v, 'w, 'e) apply_run" where
  "applyStep opts step run = (case StepOp step of
      OpNoop \<Rightarrow> (None, record_step opts step StatusUnchanged None (run\<lparr>Res := (Res run)\<lparr>Unchanged := Unchanged (Res run) + 1\<rparr>\<rparr>))
    | OpCreate \<Rightarrow> upsertStep opts step run
    | OpUpdate \<Rightarrow> upsertStep opts step run
    | OpDelete \<Rightarrow> deleteStep opts step run
    | OpBlockedDelete \<Rightarrow> (Some (BlockedReached (Key (StepRef step))), run))"

fun applySteps :: "('i, 'v, 'w, 'e) ApplyOptions \<Rightarrow> 'i Step list \<Rightarrow> ('i, 'v, 'w, 'e) apply_run \<Rightarrow> 'e apply_error option \<times> ('i, 'v, 'w, 'e) apply_run" where
  "applySteps opts [] run = (None, run)"
| "applySteps opts (s # ss) run = (case applyStep opts s run of
      (Some e, run1) \<Rightarrow> (Some e, run1)
    | (None, run1) \<Rightarrow> applySteps opts ss run1)"

definition emptyResult :: "('i, 'e) ApplyResult" where
  "emptyResult = \<lparr>Results = [], Created = 0, Updated = 0, Deleted = 0, Unchanged = 0, Failed = 0, Skipped = 0\<rparr>"

text \<open>\<open>Apply\<close>: the error, the result (nil for a blocked plan), the state and the world.\<close>

definition Apply :: "('i, 'v, 'w, 'e) ApplyOptions \<Rightarrow> 'i Plan \<Rightarrow> 'v State option \<Rightarrow> 'w \<Rightarrow>
    'e apply_error option \<times> ('i, 'e) ApplyResult option \<times> 'v State option \<times> 'w" where
  "Apply opts plan stp w =
     (if BlockedDeletes plan > 0 then (Some (PlanBlocked (BlockedDeletes plan)), None, stp, w)
      else (let st = (case stp of None \<Rightarrow> NewState | Some st \<Rightarrow> st);
                (err, run) = applySteps opts (Steps plan) \<lparr>Res = emptyResult, failed = {}, St = st, World = w\<rparr> in
            (err, Some (Res run), Some (St run), World run)))"

section \<open>What a plan holds\<close>

definition opCount :: "Op \<Rightarrow> 'i Step list \<Rightarrow> nat" where
  "opCount op ss = length (filter (\<lambda>s. StepOp s = op) ss)"

lemma opCount_simps [simp]: "opCount op [] = 0" "opCount op (ss @ ts) = opCount op ss + opCount op ts"
  "opCount op (s # ss) = (if StepOp s = op then 1 else 0) + opCount op ss"
  by (simp_all add: opCount_def)

definition tallied :: "'i Plan \<Rightarrow> bool" where
  "tallied p \<longleftrightarrow> Creates p = opCount OpCreate (Steps p) \<and> Updates p = opCount OpUpdate (Steps p) \<and>
     Noops p = opCount OpNoop (Steps p) \<and> Deletes p = opCount OpDelete (Steps p) \<and>
     BlockedDeletes p = opCount OpBlockedDelete (Steps p)"

definition hashOf :: "('i \<Rightarrow> 'e + string) \<Rightarrow> 'i Resource \<Rightarrow> string" where
  "hashOf h r = projr (h (Inputs r))"

definition liveStep :: "('i \<Rightarrow> 'e + string) \<Rightarrow> 'v State \<Rightarrow> 'i Resource \<Rightarrow> 'i Step" where
  "liveStep h st r = \<lparr>StepOp = planOp st (rkey r) (hashOf h r), StepRef = Ref r, StepResource = Some r, StepHash = hashOf h r\<rparr>"

definition goneStep :: "PlanOptions \<Rightarrow> string \<Rightarrow> 'i Step" where
  "goneStep opts key = \<lparr>StepOp = (if AllowDeletes opts then OpDelete else OpBlockedDelete), StepRef = parseStateKey key,
     StepResource = None, StepHash = []\<rparr>"

lemma planOp_live: "planOp st k h \<in> {OpCreate, OpUpdate, OpNoop}"
  by (simp add: planOp_def split: option.splits)

lemma liveLoop_spec:
  "liveLoop h st rs p = Inr p' \<Longrightarrow> tallied p \<Longrightarrow> tallied p' \<and> Steps p' = Steps p @ map (liveStep h st) rs \<and>
     (\<forall>r \<in> set rs. \<not> isl (h (Inputs r)))"
proof (induction rs arbitrary: p)
  case (Cons r rs)
  obtain x where x: "h (Inputs r) = Inr x" using Cons.prems(1) by (auto split: sum.splits)
  let ?op = "planOp st (rkey r) x"
  let ?p = "(tally ?op p)\<lparr>Steps := Steps (tally ?op p) @ [liveStep h st r]\<rparr>"
  have s: "liveStep h st r = \<lparr>StepOp = ?op, StepRef = Ref r, StepResource = Some r, StepHash = x\<rparr>"
    by (simp add: liveStep_def hashOf_def x)
  have "tallied ?p" using planOp_live [of st "rkey r" x] Cons.prems(2) by (auto simp: tallied_def tally_def s)
  moreover have "liveLoop h st rs ?p = Inr p'" using Cons.prems(1) by (simp add: x s Let_def)
  moreover have "Steps (tally ?op p) = Steps p" by (simp add: tally_def split: Op.splits)
  ultimately show ?case using Cons.IH [of ?p] x by auto
qed simp

lemma liveLoop_ok: "\<forall>r \<in> set rs. \<not> isl (h (Inputs r)) \<Longrightarrow> \<exists>p'. liveLoop h st rs p = Inr p'"
  by (induction rs arbitrary: p) (auto simp: Let_def split: sum.splits)

lemma goneLoop_spec:
  "tallied p \<Longrightarrow> tallied (goneLoop opts gone p) \<and> Steps (goneLoop opts gone p) = Steps p @ map (goneStep opts) gone"
proof (induction gone arbitrary: p)
  case (Cons key gone)
  let ?p = "(if AllowDeletes opts then p\<lparr>Deletes := Deletes p + 1\<rparr> else p\<lparr>BlockedDeletes := BlockedDeletes p + 1\<rparr>)
    \<lparr>Steps := Steps p @ [goneStep opts key]\<rparr>"
  have "tallied ?p" using Cons.prems by (auto simp: tallied_def goneStep_def)
  then show ?case using Cons.IH [of ?p] by (auto simp: goneStep_def)
qed simp

definition stateOf :: "'v State option \<Rightarrow> 'v State" where
  "stateOf stp = (case stp of None \<Rightarrow> NewState | Some st \<Rightarrow> st)"

definition goneKeys :: "'i Resource list \<Rightarrow> 'v State \<Rightarrow> string list" where
  "goneKeys rs st = sort (filter (\<lambda>k. k \<notin> rkey ` set rs) (map fst (Resources st)))"

lemma BuildPlan_steps:
  assumes "BuildPlan h rs stp opts = Some (Inr p)"
  obtains ord where "topoSort rs = Some (Inr ord)" "\<forall>r \<in> set rs. \<not> isl (h (Inputs r))" "tallied p"
    "Steps p = map (liveStep h (stateOf stp)) ord @ map (goneStep opts) (goneKeys rs (stateOf stp))"
proof -
  obtain ord p1 where o: "topoSort rs = Some (Inr ord)" "liveLoop h (stateOf stp) ord emptyPlan = Inr p1"
    "p = goneLoop opts (sort (filter (\<lambda>k. k \<notin> rkey ` set ord) (map fst (Resources (stateOf stp))))) p1"
    using assms by (auto simp: BuildPlan_def Let_def stateOf_def split: bind_splits sum.splits)
  have s: "set ord = set rs" using topoSort_facts(2) [OF o(1)] by (rule mset_eq_setD)
  have e: "tallied emptyPlan" "Steps emptyPlan = []" by (simp_all add: tallied_def emptyPlan_def)
  note l = liveLoop_spec [OF o(2) e(1)]
  note g = goneLoop_spec [OF conjunct1 [OF l], of opts "goneKeys rs (stateOf stp)"]
  have "p = goneLoop opts (goneKeys rs (stateOf stp)) p1" using o(3) s by (simp add: goneKeys_def)
  with l g s e(2) show ?thesis by (intro that [OF o(1)]) simp_all
qed

lemma BuildPlan_succeeds:
  assumes "topoSort rs = Some (Inr ord)" "\<forall>r \<in> set rs. \<not> isl (h (Inputs r))"
  shows "\<exists>p. BuildPlan h rs stp opts = Some (Inr p)"
proof -
  have "set ord = set rs" using topoSort_facts(2) [OF assms(1)] by (rule mset_eq_setD)
  then have "\<exists>p. liveLoop h (stateOf stp) ord emptyPlan = Inr p" using assms(2) by (intro liveLoop_ok) simp
  then show ?thesis using assms(1) by (auto simp: BuildPlan_def stateOf_def Let_def)
qed

text \<open>State keys and references.\<close>

lemma parseStateKey_Key: "CHR ''/'' \<notin> set (RefKind r) \<Longrightarrow> parseStateKey (Key r) = r"
  by (simp add: parseStateKey_def Key_def takeWhile_append dropWhile_append takeWhile_eq_all_conv)

lemma Key_parseStateKey: "CHR ''/'' \<in> set k \<Longrightarrow> Key (parseStateKey k) = k"
proof -
  assume k: "CHR ''/'' \<in> set k"
  have "dropWhile (\<lambda>c. c \<noteq> CHR ''/'') k \<noteq> []" using k by simp
  moreover from this have "hd (dropWhile (\<lambda>c. c \<noteq> CHR ''/'') k) = CHR ''/''" using hd_dropWhile by blast
  ultimately have "''/'' @ tl (dropWhile (\<lambda>c. c \<noteq> CHR ''/'') k) = dropWhile (\<lambda>c. c \<noteq> CHR ''/'') k"
    by (metis append_Cons append_Nil list.collapse)
  with k show ?thesis by (simp add: parseStateKey_def Key_def del: append_Cons)
qed

text \<open>The well-formed states: the keys have a slash, as \<open>Key\<close> makes them, and are distinct.\<close>

definition keys_ok :: "'v State \<Rightarrow> bool" where
  "keys_ok st \<longleftrightarrow> (\<forall>k \<in> fst ` set (Resources st). CHR ''/'' \<in> set k) \<and> distinct (map fst (Resources st))"

lemma Key_slash [simp]: "CHR ''/'' \<in> set (Key r)"
  by (simp add: Key_def)

section \<open>What one step does\<close>

text \<open>The drift view of a state: the inputs hash under every key.\<close>

definition hashes :: "'v State \<Rightarrow> string \<Rightarrow> string option" where
  "hashes st k = map_option InputsHash (entry st k)"

abbreviation skey :: "'i Step \<Rightarrow> string" where
  "skey s \<equiv> Key (StepRef s)"

text \<open>A step is settled when the state shows its outcome.\<close>

definition settled :: "'i Step \<Rightarrow> 'v State \<Rightarrow> bool" where
  "settled s st \<longleftrightarrow> (case StepOp s of OpDelete \<Rightarrow> hashes st (skey s) = None
     | OpBlockedDelete \<Rightarrow> False | _ \<Rightarrow> hashes st (skey s) = Some (StepHash s))"

lemma hashes_put: "hashes (putEntry k e st) = (hashes st)(k \<mapsto> InputsHash e)"
  by (auto simp: hashes_def putEntry_def update_conv' fun_eq_iff)

lemma hashes_drop: "hashes (dropEntry k st) = (hashes st)(k := None)"
  by (auto simp: hashes_def dropEntry_def delete_conv' fun_eq_iff)

lemma keys_ok_put: "keys_ok st \<Longrightarrow> keys_ok (putEntry (Key r) e st)"
  by (simp add: keys_ok_def putEntry_def dom_update distinct_update)

lemma keys_ok_drop:
  assumes "keys_ok st"
  shows "keys_ok (dropEntry k st)"
proof -
  have r: "Resources (dropEntry k st) = AList.delete k (Resources st)" by (simp add: dropEntry_def)
  have all: "\<forall>j \<in> fst ` set (Resources st). CHR ''/'' \<in> set j" using assms unfolding keys_ok_def by (rule conjunct1)
  have "\<forall>j \<in> fst ` set (AList.delete k (Resources st)). CHR ''/'' \<in> set j"
    by (rule ballI) (rule bspec [OF all subsetD [OF dom_delete_subset]])
  moreover have "distinct (map fst (AList.delete k (Resources st)))"
    using assms by (simp add: keys_ok_def distinct_delete)
  ultimately show ?thesis unfolding keys_ok_def r by (rule conjI)
qed

definition bad_count :: "('i, 'e) ApplyResult \<Rightarrow> nat" where
  "bad_count res = Failed res + Skipped res"

definition step_effect :: "'i Step \<Rightarrow> ('i, 'v, 'w, 'e) apply_run \<Rightarrow> 'e apply_error option \<Rightarrow> ('i, 'v, 'w, 'e) apply_run \<Rightarrow> bool" where
  "step_effect s run err run' \<longleftrightarrow>
     (St run' = St run \<or> settled s (St run') \<and> (\<forall>k. k \<noteq> skey s \<longrightarrow> hashes (St run') k = hashes (St run) k)) \<and>
     (keys_ok (St run) \<longrightarrow> keys_ok (St run')) \<and>
     (if err \<noteq> None then Results (Res run') = Results (Res run) \<and> bad_count (Res run') = bad_count (Res run)
      else let r = last (Results (Res run')) in Results (Res run') = Results (Res run) @ [r] \<and> ResultStep r = s \<and>
        (Status r = StatusApplied \<longrightarrow> settled s (St run')) \<and> (Status r = StatusUnchanged \<longleftrightarrow> StepOp s = OpNoop) \<and>
        (if Status r \<in> {StatusFailed, StatusSkipped}
         then failed run' = insert (skey s) (failed run) \<and> bad_count (Res run') = bad_count (Res run) + 1
         else failed run' = failed run \<and> bad_count (Res run') = bad_count (Res run)) \<and>
        (Status r = StatusSkipped \<longleftrightarrow> StepOp s \<in> {OpCreate, OpUpdate} \<and> failedDep (StepResource s) (failed run) \<noteq> None))"

lemmas step_defs = record_step_def fail_step_def Let_def bad_count_def

lemma upsert_effect:
  assumes "StepOp s \<in> {OpCreate, OpUpdate}" "upsertStep opts s run = (err, run')"
  shows "step_effect s run err run'"
  using assms
  by (auto simp: upsertStep_def step_effect_def step_defs settled_def hashes_put keys_ok_put
      split: option.splits sum.splits prod.splits)

lemma delete_effect:
  assumes "StepOp s = OpDelete" "deleteStep opts s run = (err, run')"
  shows "step_effect s run err run'"
  using assms
  by (auto simp: deleteStep_def step_effect_def step_defs settled_def hashes_drop keys_ok_drop
      split: option.splits sum.splits prod.splits)

lemma applyStep_effect: "applyStep opts s run = (err, run') \<Longrightarrow> step_effect s run err run'"
  by (cases "StepOp s")
    (simp_all add: applyStep_def upsert_effect delete_effect, auto simp: step_effect_def step_defs settled_def)

section \<open>What a run does\<close>

abbreviation bad :: "('i, 'e) StepResult \<Rightarrow> bool" where
  "bad r \<equiv> Status r \<in> {StatusFailed, StatusSkipped}"

text \<open>The results \<open>qs\<close> of a run, one per executed step, and what they say about the state.\<close>

definition run_effect :: "'i Step list \<Rightarrow> ('i, 'v, 'w, 'e) apply_run \<Rightarrow> 'e apply_error option \<Rightarrow> ('i, 'v, 'w, 'e) apply_run \<Rightarrow> ('i, 'e) StepResult list \<Rightarrow> bool" where
  "run_effect ss run err run' qs \<longleftrightarrow>
     Results (Res run') = Results (Res run) @ qs \<and> map ResultStep qs = take (length qs) ss \<and>
     (err = None \<longrightarrow> length qs = length ss) \<and> (keys_ok (St run) \<longrightarrow> keys_ok (St run')) \<and>
     (\<forall>k. k \<notin> skey ` set ss \<longrightarrow> hashes (St run') k = hashes (St run) k) \<and>
     (\<forall>s \<in> set ss. hashes (St run') (skey s) = hashes (St run) (skey s) \<or> settled s (St run')) \<and>
     (\<forall>q \<in> set qs. (Status q = StatusApplied \<longrightarrow> settled (ResultStep q) (St run')) \<and>
        (Status q = StatusUnchanged \<longleftrightarrow> StepOp (ResultStep q) = OpNoop)) \<and>
     bad_count (Res run') = bad_count (Res run) + length (filter bad qs)"

lemma settled_cong: "hashes st (skey s) = hashes st' (skey s) \<Longrightarrow> settled s st = settled s st'"
  by (simp add: settled_def cong: Op.case_cong)

lemma applySteps_effect:
  "applySteps opts ss run = (err, run') \<Longrightarrow> distinct (map skey ss) \<Longrightarrow> \<exists>qs. run_effect ss run err run' qs"
proof (induction ss arbitrary: run)
  case Nil
  then show ?case by (intro exI [of _ "[]"]) (simp add: run_effect_def)
next
  case (Cons s ss)
  obtain e run1 where 1: "applyStep opts s run = (e, run1)" by fastforce
  note se = applyStep_effect [OF 1, unfolded step_effect_def]
  have ne: "skey t \<noteq> skey s" if "t \<in> set ss" for t using Cons.prems(2) that by (auto simp: image_iff)
  show ?case
  proof (cases e)
    case (Some x)
    then have r: "err = Some x" "run' = run1" using Cons.prems(1) 1 by simp_all
    have "run_effect (s # ss) run err run' []"
      unfolding run_effect_def using se Some r ne by auto
    then show ?thesis by blast
  next
    case None
    then have 2: "applySteps opts ss run1 = (err, run')" using Cons.prems(1) 1 by simp
    obtain qs where qs: "run_effect ss run1 err run' qs" using Cons.IH [OF 2] Cons.prems(2) by auto
    let ?r = "last (Results (Res run1))"
    have same: "hashes (St run') (skey s) = hashes (St run1) (skey s)"
      using qs Cons.prems(2) by (simp add: run_effect_def)
    have st: "settled s (St run') = settled s (St run1)" by (rule settled_cong [OF same])
    have r: "Results (Res run1) = Results (Res run) @ [?r]" "ResultStep ?r = s" "keys_ok (St run) \<longrightarrow> keys_ok (St run1)"
      "Status ?r = StatusApplied \<longrightarrow> settled s (St run1)" "Status ?r = StatusUnchanged \<longleftrightarrow> StepOp s = OpNoop"
      "bad_count (Res run1) = bad_count (Res run) + (if bad ?r then 1 else 0)"
      "St run1 = St run \<or> settled s (St run1) \<and> (\<forall>k. k \<noteq> skey s \<longrightarrow> hashes (St run1) k = hashes (St run) k)"
      using se None by (simp_all add: Let_def split: if_splits)
    have frame: "hashes (St run1) k = hashes (St run) k" if "k \<noteq> skey s" for k using r(7) that by auto
    note q = qs [unfolded run_effect_def]
    have "run_effect (s # ss) run err run' (?r # qs)" unfolding run_effect_def
    proof (intro conjI)
      show "Results (Res run') = Results (Res run) @ ?r # qs" using q r(1) by simp
      show "map ResultStep (?r # qs) = take (length (?r # qs)) (s # ss)" using q r(2) by simp
      show "keys_ok (St run) \<longrightarrow> keys_ok (St run')" using q r(3) by blast
      show "\<forall>k. k \<notin> skey ` set (s # ss) \<longrightarrow> hashes (St run') k = hashes (St run) k" using q frame by auto
      show "\<forall>t \<in> set (s # ss). hashes (St run') (skey t) = hashes (St run) (skey t) \<or> settled t (St run')"
        using q frame ne r(7) same st by auto
      show "\<forall>p \<in> set (?r # qs). (Status p = StatusApplied \<longrightarrow> settled (ResultStep p) (St run')) \<and>
        (Status p = StatusUnchanged \<longleftrightarrow> StepOp (ResultStep p) = OpNoop)"
        using q r(2,4,5) st by simp
      show "bad_count (Res run') = bad_count (Res run) + length (filter bad (?r # qs))" using q r(6) by simp
    qed (use q in simp)
    then show ?thesis by blast
  qed
qed

text \<open>Which steps are skipped: those with a dependency among the failed or skipped keys so far.\<close>

definition bad_keys :: "('i, 'e) StepResult list \<Rightarrow> string set" where
  "bad_keys qs = {skey (ResultStep q) | q. q \<in> set qs \<and> bad q}"

lemma mem_bad_keys: "k \<in> bad_keys qs \<longleftrightarrow> (\<exists>q. q \<in> set qs \<and> skey (ResultStep q) = k \<and> bad q)"
  by (auto simp: bad_keys_def)

lemma failedDep_iff: "failedDep rp B \<noteq> None \<longleftrightarrow> (\<exists>r d. rp = Some r \<and> d \<in> set (DependsOn r) \<and> Key d \<in> B)"
  by (cases rp) (simp_all add: failedDep_def find_None_iff del: not_None_eq)

lemma bad_keys_simps: "bad_keys [] = {}" "bad_keys (q # qs) = (if bad q then {skey (ResultStep q)} else {}) \<union> bad_keys qs"
  by (auto simp: bad_keys_def)

lemma applySteps_results: "applySteps opts ss run = (err, run') \<Longrightarrow> \<exists>qs. Results (Res run') = Results (Res run) @ qs"
proof (induction ss arbitrary: run)
  case (Cons s ss)
  obtain e run1 where 1: "applyStep opts s run = (e, run1)" by fastforce
  note se = applyStep_effect [OF 1, unfolded step_effect_def]
  show ?case
  proof (cases e)
    case (Some x)
    then show ?thesis using Cons.prems 1 se by auto
  next
    case None
    then have "Results (Res run1) = Results (Res run) @ [last (Results (Res run1))]" using se by (simp add: Let_def)
    moreover obtain ps where "Results (Res run') = Results (Res run1) @ ps" using Cons.IH [of run1] Cons.prems 1 None by auto
    ultimately show ?thesis by (metis append_assoc)
  qed
qed simp

lemma applySteps_skips:
  assumes "applySteps opts ss run = (err, run')" "Results (Res run') = Results (Res run) @ qs" "i < length qs"
  shows "Status (qs ! i) = StatusSkipped \<longleftrightarrow> StepOp (ResultStep (qs ! i)) \<in> {OpCreate, OpUpdate} \<and>
     failedDep (StepResource (ResultStep (qs ! i))) (failed run \<union> bad_keys (take i qs)) \<noteq> None"
  using assms
proof (induction ss arbitrary: run qs i)
  case (Cons s ss)
  obtain e run1 where 1: "applyStep opts s run = (e, run1)" by fastforce
  note se = applyStep_effect [OF 1, unfolded step_effect_def]
  show ?case
  proof (cases e)
    case (Some x)
    then have "run' = run1" using Cons.prems(1) 1 by simp
    then have "qs = []" using Cons.prems(2) se Some by simp
    then show ?thesis using Cons.prems(3) by simp
  next
    case None
    let ?r = "last (Results (Res run1))"
    have r: "Results (Res run1) = Results (Res run) @ [?r]" "ResultStep ?r = s"
      "failed run1 = (if bad ?r then insert (skey s) (failed run) else failed run)"
      "Status ?r = StatusSkipped \<longleftrightarrow> StepOp s \<in> {OpCreate, OpUpdate} \<and> failedDep (StepResource s) (failed run) \<noteq> None"
      using se None by (simp_all add: Let_def split: if_splits)
    have 2: "applySteps opts ss run1 = (err, run')" using Cons.prems(1) 1 None by simp
    obtain ps where ps: "Results (Res run') = Results (Res run1) @ ps" using applySteps_results [OF 2] by blast
    then have qs: "qs = ?r # ps" using Cons.prems(2) r(1) by (metis append_Cons append_Nil append_assoc same_append_eq)
    show ?thesis
    proof (cases i)
      case 0
      then show ?thesis using r(2,4) by (simp add: qs bad_keys_simps)
    next
      case (Suc j)
      then have j: "j < length ps" using Cons.prems(3) qs by simp
      have "failed run1 \<union> bad_keys (take j ps) = failed run \<union> bad_keys (take i qs)"
        using r(2,3) Suc by (simp add: qs bad_keys_simps)
      then show ?thesis using Cons.IH [OF 2 ps j] Suc by (simp add: qs)
    qed
  qed
qed simp

text \<open>The keys of a plan's steps are distinct.\<close>

lemma goneStep_key: "CHR ''/'' \<in> set k \<Longrightarrow> skey (goneStep opts k) = k"
  by (simp add: goneStep_def Key_parseStateKey)

lemma plan_skeys:
  fixes ord :: "'a Resource list"
  assumes "topoSort rs = Some (Inr ord)" "keys_ok st"
    "Steps p = map (liveStep h st) ord @ map (goneStep opts) (goneKeys rs st)"
  shows "map skey (Steps p) = map rkey ord @ goneKeys rs st"
proof -
  have "map (\<lambda>k. skey (goneStep opts k :: 'a Step)) (goneKeys rs st) = goneKeys rs st"
    using assms(2) by (intro map_idI goneStep_key) (auto simp: goneKeys_def keys_ok_def)
  moreover have "map (skey \<circ> liveStep h st) ord = map rkey ord" by (simp add: liveStep_def)
  ultimately show ?thesis by (simp only: assms(3) map_append map_map comp_def)
qed

lemma plan_keys:
  assumes "BuildPlan h rs stp opts = Some (Inr p)" "keys_ok (stateOf stp)"
  shows "distinct (map skey (Steps p))"
proof -
  obtain ord where o: "topoSort rs = Some (Inr ord)"
    "Steps p = map (liveStep h (stateOf stp)) ord @ map (goneStep opts) (goneKeys rs (stateOf stp))"
    by (rule BuildPlan_steps [OF assms(1)])
  have "distinct (goneKeys rs (stateOf stp))" using assms(2) by (simp add: goneKeys_def keys_ok_def)
  moreover have "rkey ` set ord \<inter> set (goneKeys rs (stateOf stp)) = {}"
    using ts.ordered_set [OF o(1)] by (auto simp: goneKeys_def)
  ultimately show ?thesis
    unfolding plan_skeys [OF o(1) assms(2) o(2)] using ts.ordered_keys [OF o(1)] by simp
qed

lemma liveStep_settled:
  "StepOp (liveStep h st r) \<noteq> OpNoop \<longleftrightarrow> hashes st (rkey r) \<noteq> Some (hashOf h r)"
  by (auto simp: liveStep_def planOp_def hashes_def split: option.splits)

lemma Apply_run:
  assumes "Apply opts p stp w = (err, Some res, Some st', w')"
  obtains run' where "applySteps opts (Steps p) \<lparr>Res = emptyResult, failed = {}, St = stateOf stp, World = w\<rparr> = (err, run')"
    "res = Res run'" "st' = St run'" "w' = World run'" "BlockedDeletes p = 0"
  using assms by (auto simp: Apply_def stateOf_def Let_def split: if_splits prod.splits)

text \<open>Planning again after a run.\<close>

lemma replan_effect:
  assumes "BuildPlan h rs stp opts = Some (Inr p)" "keys_ok (stateOf stp)"
    and qs: "run_effect (Steps p) \<lparr>Res = emptyResult, failed = {}, St = stateOf stp, World = w\<rparr> err run' qs"
    and st': "st' = St run'"
  shows "keys_ok st' \<and> (\<exists>p'. BuildPlan h rs (Some st') opts = Some (Inr p') \<and>
    (\<forall>s \<in> set (Steps p'). StepOp s \<noteq> OpNoop \<longrightarrow> s \<in> set (Steps p) \<and>
       (\<forall>q \<in> set qs. ResultStep q = s \<longrightarrow> Status q \<in> {StatusFailed, StatusSkipped})))"
proof -
  let ?st = "stateOf stp"
  obtain ord where o: "topoSort rs = Some (Inr ord)" "\<forall>r \<in> set rs. \<not> isl (h (Inputs r))"
    "Steps p = map (liveStep h ?st) ord @ map (goneStep opts) (goneKeys rs ?st)"
    by (rule BuildPlan_steps [OF assms(1)])
  note q = qs [unfolded run_effect_def, simplified, folded st']
  have live: "s \<in> set (Steps p) \<and> \<not> settled s st'"
    if rr: "x \<in> set ord" "s = liveStep h st' x" "StepOp s \<noteq> OpNoop" for s x
  proof -
    let ?t = "liveStep h ?st x"
    have t: "?t \<in> set (Steps p)" "skey ?t = rkey x" "StepHash ?t = hashOf h x" using rr(1) by (auto simp: o(3) liveStep_def)
    have n: "hashes st' (rkey x) \<noteq> Some (hashOf h x)" using rr(2,3) liveStep_settled by blast
    have "\<not> settled ?t st'" using n t planOp_live [of ?st "rkey x" "hashOf h x"]
      by (auto simp: settled_def liveStep_def)
    then have "hashes st' (rkey x) = hashes ?st (rkey x)" using q t by force
    then have "?t = s" unfolding rr(2) liveStep_def planOp_def hashes_def by (auto split: option.splits)
    then show ?thesis using t(1) \<open>\<not> settled ?t st'\<close> by simp
  qed
  have gone: "s \<in> set (Steps p) \<and> \<not> settled s st'" if k: "k \<in> set (goneKeys rs st')" "s = goneStep opts k" for s k
  proof -
    have kk: "hashes st' k \<noteq> None" "k \<notin> rkey ` set rs" "CHR ''/'' \<in> set k"
      using k(1) q assms(2) by (auto simp: goneKeys_def hashes_def keys_ok_def map_of_eq_None_iff image_iff)
    have "k \<in> set (goneKeys rs ?st)"
    proof (cases "k \<in> skey ` set (Steps p)")
      case True
      then have "k \<in> set (map rkey ord @ goneKeys rs ?st)"
        using plan_skeys [OF o(1) assms(2) o(3)] by (metis list.set_map)
      then show ?thesis using kk(2) ts.ordered_set [OF o(1)] by auto
    next
      case False
      then have "hashes ?st k \<noteq> None" using q kk(1) by simp
      then have "k \<in> fst ` set (Resources ?st)" by (simp add: hashes_def map_of_eq_None_iff)
      then show ?thesis using kk(2) by (auto simp: goneKeys_def)
    qed
    moreover have "\<not> settled s st'" using kk goneStep_key [OF kk(3)] k(2) by (auto simp: settled_def goneStep_def)
    ultimately show ?thesis using k(2) by (simp add: o(3))
  qed
  obtain p' where p': "BuildPlan h rs (Some st') opts = Some (Inr p')" using BuildPlan_succeeds [OF o(1,2)] by blast
  obtain ord' where o': "topoSort rs = Some (Inr ord')"
    "Steps p' = map (liveStep h (stateOf (Some st'))) ord' @ map (goneStep opts) (goneKeys rs (stateOf (Some st')))"
    by (rule BuildPlan_steps [OF p'])
  have steps: "Steps p' = map (liveStep h st') ord @ map (goneStep opts) (goneKeys rs st')"
    using o'(2) o'(1) o(1) by (simp add: stateOf_def)
  have "s \<in> set (Steps p) \<and> \<not> settled s st'" if "s \<in> set (Steps p')" "StepOp s \<noteq> OpNoop" for s
    using that live gone unfolding steps by auto
  moreover have "bad x" if "x \<in> set qs" "StepOp (ResultStep x) \<noteq> OpNoop" "\<not> settled (ResultStep x) st'" for x
    using q that by (cases "Status x") auto
  ultimately show ?thesis using p' q assms(2) by blast
qed

lemma replan_core:
  assumes "BuildPlan h rs stp opts = Some (Inr p)" "keys_ok (stateOf stp)"
    "Apply aopts p stp w = (err, Some res, Some st', w')"
  shows "keys_ok st' \<and> (\<exists>p'. BuildPlan h rs (Some st') opts = Some (Inr p') \<and>
    (\<forall>s \<in> set (Steps p'). StepOp s \<noteq> OpNoop \<longrightarrow> s \<in> set (Steps p) \<and>
       (\<forall>q \<in> set (Results res). ResultStep q = s \<longrightarrow> Status q \<in> {StatusFailed, StatusSkipped})))"
proof -
  obtain run' where r: "applySteps aopts (Steps p) \<lparr>Res = emptyResult, failed = {}, St = stateOf stp, World = w\<rparr> = (err, run')"
    "res = Res run'" "st' = St run'" by (rule Apply_run [OF assms(3)])
  obtain qs where qs: "run_effect (Steps p) \<lparr>Res = emptyResult, failed = {}, St = stateOf stp, World = w\<rparr> err run' qs"
    using applySteps_effect [OF r(1) plan_keys [OF assms(1,2)]] by blast
  have "Results res = qs" using qs by (simp add: run_effect_def r(2) emptyResult_def)
  with replan_effect [OF assms(1,2) qs r(3)] show ?thesis by simp
qed

lemma HasChanges_iff: "tallied p \<Longrightarrow> HasChanges p \<longleftrightarrow> (\<exists>s \<in> set (Steps p). StepOp s \<in> {OpCreate, OpUpdate, OpDelete})"
  by (auto simp: HasChanges_def tallied_def opCount_def length_greater_0_conv filter_empty_conv)

text \<open>The state on disk: \<open>holds w st\<close> says that the disk of the world \<open>w\<close> has the state \<open>st\<close>. A save that succeeds puts
  the state there, one that fails leaves what was there, and providers and the callback do not touch it.\<close>

definition persistent :: "('i, 'v, 'w, 'e) ApplyOptions \<Rightarrow> ('w \<Rightarrow> 'v State \<Rightarrow> bool) \<Rightarrow> bool" where
  "persistent opts holds \<longleftrightarrow>
     (\<exists>f. SaveState opts = Some f \<and> (\<forall>st w w'. f st w = (None, w') \<longrightarrow> holds w' st) \<and>
        (\<forall>st w w' e st0. f st w = (Some e, w') \<longrightarrow> holds w st0 \<longrightarrow> holds w' st0)) \<and>
     (\<forall>kind pr. Providers opts kind = Some pr \<longrightarrow> (\<forall>c i prior w. holds w \<le> holds (snd (Create pr c i prior w)) \<and>
        holds w \<le> holds (snd (Update pr c i prior w)) \<and> holds w \<le> holds (snd (Delete pr c prior w)))) \<and>
     (\<forall>g r w. OnStep opts = Some g \<longrightarrow> holds w \<le> holds (g r w))"

definition on_disk :: "('w \<Rightarrow> 'v State \<Rightarrow> bool) \<Rightarrow> ('i, 'v, 'w, 'e) apply_run \<Rightarrow> bool" where
  "on_disk holds run \<longleftrightarrow> holds (World run) (St run)"

lemma on_disk_record: "persistent opts holds \<Longrightarrow> on_disk holds run \<Longrightarrow> on_disk holds (record_step opts s status e run)"
  by (auto simp: on_disk_def record_step_def persistent_def le_fun_def Let_def split: option.splits)

lemma persistent_call:
  assumes "persistent opts holds" "Providers opts kind = Some pr"
  shows "Create pr c i prior w = (x, w') \<Longrightarrow> holds w st \<Longrightarrow> holds w' st" "Update pr c i prior w = (x, w') \<Longrightarrow> holds w st \<Longrightarrow> holds w' st"
    "Delete pr c prior w = (y, w') \<Longrightarrow> holds w st \<Longrightarrow> holds w' st"
  using assms unfolding persistent_def le_fun_def le_bool_def by (metis snd_conv)+

lemma persistent_save:
  assumes "persistent opts holds"
  shows "save opts st w = (None, w') \<Longrightarrow> holds w' st" "save opts st w = (Some e, w') \<Longrightarrow> holds w st0 \<Longrightarrow> holds w' st0"
  using assms by (auto simp: persistent_def save_def) blast

text \<open>After a step the disk has the state of the run; after a failed save, the state before the step.\<close>

lemma upsert_on_disk:
  assumes p: "persistent opts holds" and d: "on_disk holds run" and u: "upsertStep opts s run = (err, run')"
  shows "if \<exists>e. err = Some (SaveError e) then holds (World run') (St run) else on_disk holds run'"
proof (cases "failedDep (StepResource s) (failed run)")
  case (Some dep)
  with u d on_disk_record [OF p] show ?thesis by (auto simp: upsertStep_def Let_def on_disk_def)
next
  case None
  show ?thesis
  proof (cases "Providers opts (RefKind (StepRef s))")
    case (Some pr)
    obtain r w1 where c: "(if StepOp s = OpCreate then Create pr else Update pr) (applyCtx opts (St run)) (Inputs (the (StepResource s)))
        (entry (St run) (skey s)) (World run) = (r, w1)" by fastforce
    then have h: "holds w1 (St run)" using persistent_call(1,2) [OF p Some] d by (auto simp: on_disk_def split: if_splits)
    show ?thesis
    proof (cases r)
      case (Inl e)
      then have "run' = fail_step opts s e (run\<lparr>World := w1\<rparr>)" "err = None"
        using u c None Some by (auto simp: upsertStep_def Let_def split: if_splits)
      with h show ?thesis by (auto simp: fail_step_def on_disk_def intro!: on_disk_record [OF p, unfolded on_disk_def])
    next
      case (Inr out)
      let ?st = "putEntry (skey s) \<lparr>InputsHash = StepHash s, Outputs = mergeOutputs (entry (St run) (skey s)) out\<rparr> (St run)"
      obtain e w2 where sv: "save opts ?st w1 = (e, w2)" by fastforce
      show ?thesis
      proof (cases e)
        case None': None
        from persistent_save(1) [OF p sv [unfolded None']] u c None Some Inr sv None' show ?thesis
          by (auto simp: upsertStep_def Let_def on_disk_def intro!: on_disk_record [OF p, unfolded on_disk_def] split: if_splits)
      next
        case e: (Some x)
        from persistent_save(2) [OF p sv [unfolded e] h] u c None Some Inr sv e show ?thesis
          by (auto simp: upsertStep_def Let_def split: if_splits)
      qed
    qed
  qed (use u d None in \<open>auto simp: upsertStep_def Let_def\<close>)
qed

lemma delete_on_disk:
  assumes p: "persistent opts holds" and d: "on_disk holds run" and u: "deleteStep opts s run = (err, run')"
  shows "if \<exists>e. err = Some (SaveError e) then holds (World run') (St run) else on_disk holds run'"
proof -
  obtain r w1 where c: "(case Providers opts (RefKind (StepRef s)) of None \<Rightarrow> (None, World run)
      | Some pr \<Rightarrow> Delete pr (applyCtx opts (St run)) (entry (St run) (skey s)) (World run)) = (r, w1)" by fastforce
  then have h: "holds w1 (St run)" using persistent_call(3) [OF p] d by (auto simp: on_disk_def split: option.splits)
  obtain e w2 where sv: "save opts (dropEntry (skey s) (St run)) w1 = (e, w2)" by fastforce
  consider x where "r = Some x" | "r = None" "e = None" | x where "r = None" "e = Some x" by (cases r; cases e) auto
  then show ?thesis
  proof cases
    case 1
    with u c h show ?thesis by (auto simp: deleteStep_def Let_def fail_step_def on_disk_def intro!: on_disk_record [OF p, unfolded on_disk_def])
  next
    case 2
    from persistent_save(1) [OF p sv [unfolded 2(2)]] u c sv 2 show ?thesis
      by (auto simp: deleteStep_def Let_def on_disk_def intro!: on_disk_record [OF p, unfolded on_disk_def])
  next
    case (3 x)
    from persistent_save(2) [OF p sv [unfolded 3(2)] h] u c sv 3 show ?thesis by (auto simp: deleteStep_def Let_def)
  qed
qed

lemma applyStep_on_disk:
  assumes "persistent opts holds" "on_disk holds run" "applyStep opts s run = (err, run')"
  shows "if \<exists>e. err = Some (SaveError e) then holds (World run') (St run) else on_disk holds run'"
proof (cases "StepOp s")
  case OpNoop
  with assms on_disk_record [OF assms(1)] show ?thesis by (auto simp: applyStep_def on_disk_def)
next
  case OpBlockedDelete
  with assms show ?thesis by (auto simp: applyStep_def)
qed (use assms upsert_on_disk [OF assms(1,2)] delete_on_disk [OF assms(1,2)] in \<open>simp_all add: applyStep_def\<close>)

text \<open>A run that a failed save stopped, up to the step it stopped at.\<close>

lemma applySteps_on_disk:
  assumes "persistent opts holds" "on_disk holds run" "applySteps opts ss run = (err, run')"
  shows "if \<exists>e. err = Some (SaveError e)
    then \<exists>xs s ys run0. ss = xs @ s # ys \<and> applySteps opts xs run = (None, run0) \<and> applyStep opts s run0 = (err, run') \<and> holds (World run') (St run0)
    else on_disk holds run'"
  using assms(2,3)
proof (induction ss arbitrary: run)
  case (Cons s ss)
  obtain e r where a: "applyStep opts s run = (e, r)" by fastforce
  note d = applyStep_on_disk [OF assms(1) Cons.prems(1) a]
  show ?case
  proof (cases e)
    case (Some x)
    with a Cons.prems(2) have "err = e" "run' = r" by auto
    with a d show ?thesis by (auto intro!: exI [of _ "[]"])
  next
    case None
    with a Cons.prems(2) have n: "applySteps opts ss r = (err, run')" by simp
    from d None have "on_disk holds r" by simp
    note ih = Cons.IH [OF this n]
    show ?thesis
    proof (cases "\<exists>e. err = Some (SaveError e)")
      case True
      with ih obtain xs s' ys run0 where "ss = xs @ s' # ys" "applySteps opts xs r = (None, run0)" "applyStep opts s' run0 = (err, run')"
        "holds (World run') (St run0)" by auto
      with True a None show ?thesis by (auto intro!: exI [of _ "s # xs"])
    qed (use ih in auto)
  qed
qed simp

text \<open>What the disk has after a run, whichever way it ended: the state of a run of the same results.\<close>

lemma run_effect_prefix:
  assumes r: "run_effect xs run None run0 qs" and d: "distinct (map skey (xs @ s # ys))"
  shows "run_effect (xs @ s # ys) run (Some e) run0 qs"
proof -
  have h: "hashes (St run0) (skey x) = hashes (St run) (skey x)" if "x \<in> set (s # ys)" for x
  proof -
    have "skey x \<notin> skey ` set xs" using d that by auto
    then show ?thesis using r unfolding run_effect_def by blast
  qed
  have "length qs = length xs" "map ResultStep qs = xs" using r by (simp_all add: run_effect_def)
  with r h show ?thesis unfolding run_effect_def by (auto simp: image_iff)
qed

lemma applyStep_version:
  assumes "applyStep opts s run = (err, run')"
  shows "Version (St run') = Version (St run)"
proof -
  have "Version (St run') = Version (St run)" if "upsertStep opts s run = (err, run')"
    using that by (simp add: upsertStep_def step_defs putEntry_def split: option.splits sum.splits prod.splits) auto
  moreover have "Version (St run') = Version (St run)" if "deleteStep opts s run = (err, run')"
    using that by (simp add: deleteStep_def step_defs dropEntry_def split: option.splits sum.splits prod.splits) auto
  ultimately show ?thesis using assms by (cases "StepOp s") (auto simp: applyStep_def step_defs)
qed

lemma applySteps_version: "applySteps opts ss run = (err, run') \<Longrightarrow> Version (St run') = Version (St run)"
proof (induction ss arbitrary: run)
  case (Cons s ss)
  obtain e r where a: "applyStep opts s run = (e, r)" by fastforce
  with Cons applyStep_version [OF a] show ?case by (cases e) auto
qed simp

lemma Apply_disk_effect:
  assumes p: "persistent opts holds" "holds w (stateOf stp)" and run: "Apply opts p stp w = (err, Some res, Some st', w')"
    and d: "distinct (map skey (Steps p))"
  shows "\<exists>run0. holds w' (St run0) \<and> Version (St run0) = Version (stateOf stp) \<and>
    run_effect (Steps p) \<lparr>Res = emptyResult, failed = {}, St = stateOf stp, World = w\<rparr> err run0 (Results res)"
proof -
  let ?run = "\<lparr>Res = emptyResult, failed = {}, St = stateOf stp, World = w\<rparr>"
  obtain run' where r: "applySteps opts (Steps p) ?run = (err, run')" "res = Res run'" "w' = World run'" by (rule Apply_run [OF run])
  have disk: "on_disk holds ?run" using p(2) by (simp add: on_disk_def)
  have res: "Results (Res x) = qs" if "run_effect ss ?run e x qs" for ss e x qs
    using that by (simp add: run_effect_def emptyResult_def)
  show ?thesis
  proof (cases "\<exists>e. err = Some (SaveError e)")
    case True
    then obtain xs s ys run0 where x: "Steps p = xs @ s # ys" "applySteps opts xs ?run = (None, run0)" "applyStep opts s run0 = (err, run')"
      "holds w' (St run0)" using applySteps_on_disk [OF p(1) disk r(1)] r(3) by auto
    obtain qs where qs: "run_effect xs ?run None run0 qs" using applySteps_effect [OF x(2)] d x(1) by auto
    have "Results (Res run') = Results (Res run0)" using applyStep_effect [OF x(3)] True by (auto simp: step_effect_def)
    with res [OF qs] r(2) have "Results res = qs" by simp
    moreover have "run_effect (Steps p) ?run err run0 qs" using run_effect_prefix [OF qs] d True by (auto simp: x(1))
    ultimately show ?thesis using x(4) applySteps_version [OF x(2)] by auto
  next
    case False
    then have "holds w' (St run')" using applySteps_on_disk [OF p(1) disk r(1)] r(3) by (auto simp: on_disk_def)
    moreover obtain qs where qs: "run_effect (Steps p) ?run err run' qs" using applySteps_effect [OF r(1) d] by blast
    moreover have "Results res = qs" using res [OF qs] r(2) by simp
    ultimately show ?thesis using applySteps_version [OF r(1)] by auto
  qed
qed

text \<open>Planning again from the state on disk after a run, whichever way it ended.\<close>

lemma replan_disk:
  assumes "BuildPlan h rs stp opts = Some (Inr p)" "keys_ok (stateOf stp)" "persistent aopts holds" "holds w (stateOf stp)"
    "Apply aopts p stp w = (err, Some res, Some st', w')"
  shows "\<exists>st p'. holds w' st \<and> keys_ok st \<and> Version st = Version (stateOf stp) \<and> BuildPlan h rs (Some st) opts = Some (Inr p') \<and>
    (\<forall>s \<in> set (Steps p'). StepOp s \<noteq> OpNoop \<longrightarrow> s \<in> set (Steps p) \<and>
       (\<forall>q \<in> set (Results res). ResultStep q = s \<longrightarrow> Status q \<in> {StatusFailed, StatusSkipped}))"
proof -
  obtain run0 where r: "holds w' (St run0)" "Version (St run0) = Version (stateOf stp)"
    "run_effect (Steps p) \<lparr>Res = emptyResult, failed = {}, St = stateOf stp, World = w\<rparr> err run0 (Results res)"
    using Apply_disk_effect [OF assms(3-5) plan_keys [OF assms(1,2)]] by blast
  from replan_effect [OF assms(1,2) r(3) refl] r(1,2) show ?thesis by blast
qed

section \<open>Examples for the witnesses\<close>

text \<open>A badge that depends on an icon asset, deployed by providers that return no outputs; the world
  is the state on disk. \<open>exOpts k\<close> has providers that fail for the kind \<open>k\<close>.\<close>

definition exHash :: "unit \<Rightarrow> string + string" where
  "exHash i = Inr ''h''"

definition exProvider :: "bool \<Rightarrow> (unit, nat, nat State option, string) Provider" where
  "exProvider ok = \<lparr>Create = \<lambda>c i prior w. (if ok then Inr None else Inl ''no'', w),
     Update = \<lambda>c i prior w. (if ok then Inr None else Inl ''no'', w), Delete = \<lambda>c prior w. (None, w)\<rparr>"

definition exOpts :: "string \<Rightarrow> (unit, nat, nat State option, string) ApplyOptions" where
  "exOpts k = \<lparr>Providers = \<lambda>kind. Some (exProvider (kind \<noteq> k)), UniverseID = 1, ProjectDir = [],
     SaveState = Some (\<lambda>st w. (None, Some st)), OnStep = None\<rparr>"

definition exPlan :: "unit Plan" where
  "exPlan = \<lparr>Steps = [\<lparr>StepOp = OpCreate, StepRef = Ref exAsset, StepResource = Some exAsset, StepHash = ''h''\<rparr>,
       \<lparr>StepOp = OpCreate, StepRef = Ref exBadge, StepResource = Some exBadge, StepHash = ''h''\<rparr>],
     Creates = 2, Updates = 0, Deletes = 0, BlockedDeletes = 0, Noops = 0\<rparr>"

abbreviation exResources :: "unit Resource list" where
  "exResources \<equiv> [exBadge, exAsset]"

abbreviation keepAll :: PlanOptions where
  "keepAll \<equiv> \<lparr>AllowDeletes = False\<rparr>"

lemma exPlan: "BuildPlan exHash exResources (Some (NewState :: nat State)) keepAll = Some (Inr exPlan)"
  by (simp add: BuildPlan_def topoSort_ex exHash_def NewState_def planOp_def tally_def emptyPlan_def exPlan_def)

lemma exState: "keys_ok (stateOf (Some NewState))"
  by (simp add: keys_ok_def stateOf_def NewState_def)

lemma exPersistent: "persistent (exOpts k) (\<lambda>w st. w = Some st)"
  by (auto simp: persistent_def exOpts_def exProvider_def)

lemma exRun: "\<exists>st'. Apply (exOpts ''none'') exPlan (Some NewState) (Some NewState) =
    (None, Some \<lparr>Results = [\<lparr>ResultStep = Steps exPlan ! 0, Status = StatusApplied, Err = None\<rparr>,
       \<lparr>ResultStep = Steps exPlan ! 1, Status = StatusApplied, Err = None\<rparr>], Created = 2, Updated = 0, Deleted = 0,
       Unchanged = 0, Failed = 0, Skipped = 0\<rparr>, Some st', Some st')"
  by (simp add: Apply_def exPlan_def applyStep_def upsertStep_def failedDep_def exOpts_def exProvider_def save_def
      record_step_def emptyResult_def Ref_def Let_def)

lemma exFail: "\<exists>st' w'. Apply (exOpts ''z'') exPlan (Some NewState) (Some NewState) =
    (None, Some \<lparr>Results = [\<lparr>ResultStep = Steps exPlan ! 0, Status = StatusFailed, Err = Some (ProviderError ''no'')\<rparr>,
       \<lparr>ResultStep = Steps exPlan ! 1, Status = StatusSkipped, Err = Some (DependencyFailed ''z/i'')\<rparr>], Created = 0, Updated = 0,
       Deleted = 0, Unchanged = 0, Failed = 1, Skipped = 1\<rparr>, Some st', w')"
  by (simp add: Apply_def exPlan_def applyStep_def upsertStep_def failedDep_def exOpts_def exProvider_def save_def
      record_step_def fail_step_def emptyResult_def Ref_def Key_def)

section \<open>Properties\<close>

text \<open>The plan of a resource graph has one step per resource and per state entry that is no
  longer configured; it creates what the state lacks, updates what was applied with other inputs,
  leaves alone what was applied with the same inputs, and deletes (or, without the option, blocks
  on) the rest. Its tallies count its steps, and \<open>HasChanges\<close> says whether one of them acts.\<close>

theorem BuildPlan_diffs:
  assumes "BuildPlan h rs stp opts = Some (Inr p)" "keys_ok (stateOf stp)"
  shows "mset (map skey (Steps p)) = mset (map rkey rs) + mset (goneKeys rs (stateOf stp)) \<and>
    (\<forall>s \<in> set (Steps p). case StepResource s of
        Some r \<Rightarrow> r \<in> set rs \<and> StepRef s = Ref r \<and> h (Inputs r) = Inr (StepHash s) \<and>
          (StepOp s = OpCreate \<longleftrightarrow> hashes (stateOf stp) (rkey r) = None) \<and>
          (StepOp s = OpNoop \<longleftrightarrow> hashes (stateOf stp) (rkey r) = Some (StepHash s)) \<and> StepOp s \<noteq> OpDelete \<and> StepOp s \<noteq> OpBlockedDelete
      | None \<Rightarrow> StepOp s = (if AllowDeletes opts then OpDelete else OpBlockedDelete)) \<and>
    (HasChanges p \<longleftrightarrow> (\<exists>s \<in> set (Steps p). StepOp s \<in> {OpCreate, OpUpdate, OpDelete})) \<and>
    BlockedDeletes p = (if AllowDeletes opts then 0 else length (goneKeys rs (stateOf stp)))"
proof -
  let ?st = "stateOf stp"
  obtain ord where o: "topoSort rs = Some (Inr ord)" "\<forall>r \<in> set rs. \<not> isl (h (Inputs r))" "tallied p"
    "Steps p = map (liveStep h ?st) ord @ map (goneStep opts) (goneKeys rs ?st)"
    by (rule BuildPlan_steps [OF assms(1)])
  have live: "StepOp (liveStep h ?st r) \<in> {OpCreate, OpUpdate, OpNoop}" for r using planOp_live by (simp add: liveStep_def)
  have "mset (map skey (Steps p)) = mset (map rkey rs) + mset (goneKeys rs ?st)"
    using plan_skeys [OF o(1) assms(2) o(4)] ts.order_perm [OF o(1)] by (simp del: map_append)
  moreover have "h (Inputs r) = Inr (hashOf h r)" if "r \<in> set ord" for r
    using o(2) that ts.ordered_set [OF o(1)] by (cases "h (Inputs r)") (auto simp: hashOf_def)
  then have "case StepResource s of
        Some r \<Rightarrow> r \<in> set rs \<and> StepRef s = Ref r \<and> h (Inputs r) = Inr (StepHash s) \<and>
          (StepOp s = OpCreate \<longleftrightarrow> hashes ?st (rkey r) = None) \<and>
          (StepOp s = OpNoop \<longleftrightarrow> hashes ?st (rkey r) = Some (StepHash s)) \<and> StepOp s \<noteq> OpDelete \<and> StepOp s \<noteq> OpBlockedDelete
      | None \<Rightarrow> StepOp s = (if AllowDeletes opts then OpDelete else OpBlockedDelete)" if "s \<in> set (Steps p)" for s
    using that ts.ordered_set [OF o(1)]
    by (auto simp: o(4) liveStep_def goneStep_def planOp_def hashes_def split: option.splits if_splits)
  moreover have "HasChanges p \<longleftrightarrow> (\<exists>s \<in> set (Steps p). StepOp s \<in> {OpCreate, OpUpdate, OpDelete})"
    using o(3) by (auto simp: HasChanges_def tallied_def opCount_def length_greater_0_conv filter_empty_conv)
  moreover have "StepOp (liveStep h ?st r) \<noteq> OpBlockedDelete" for r using live [of r] by auto
  then have "opCount OpBlockedDelete (map (liveStep h ?st) ord) = 0" by (simp add: opCount_def filter_empty_conv)
  then have "BlockedDeletes p = (if AllowDeletes opts then 0 else length (goneKeys rs ?st))"
    using o(3) by (simp add: tallied_def o(4)) (simp add: opCount_def goneStep_def filter_map comp_def)
  ultimately show ?thesis by blast
qed

theorem BuildPlan_diffs_witness:
  "BuildPlan exHash exResources (Some (NewState :: nat State)) keepAll = Some (Inr exPlan) \<and> HasChanges exPlan \<and>
   mset (map skey (Steps exPlan)) = {#''badge/b'', ''z/i''#}"
  using BuildPlan_diffs [OF exPlan exState] exPlan
  by (auto simp: goneKeys_def stateOf_def NewState_def Key_def Ref_def HasChanges_def exPlan_def)

text \<open>C2: whatever happened in a run (failures, skipped steps, an abort in the middle), planning
  again from the state it left proposes only steps of the old plan, and none that was applied:
  an interrupted run resumes where it stopped.\<close>

theorem replan_resumes:
  assumes "BuildPlan h rs stp opts = Some (Inr p)" "keys_ok (stateOf stp)"
    "Apply aopts p stp w = (err, Some res, Some st', w')"
  shows "keys_ok st' \<and> (\<exists>p'. BuildPlan h rs (Some st') opts = Some (Inr p') \<and>
    (\<forall>s \<in> set (Steps p'). StepOp s \<noteq> OpNoop \<longrightarrow> s \<in> set (Steps p) \<and>
       (\<forall>q \<in> set (Results res). ResultStep q = s \<longrightarrow> Status q \<in> {StatusFailed, StatusSkipped})))"
  by (rule replan_core [OF assms])

theorem replan_resumes_witness:
  "\<exists>err res st' w' p'. Apply (exOpts ''z'') exPlan (Some NewState) (Some NewState) = (err, Some res, Some st', w') \<and>
     BuildPlan exHash exResources (Some st') keepAll = Some (Inr p') \<and> set (Steps p') \<inter> {s. StepOp s \<noteq> OpNoop} \<subseteq> set (Steps exPlan)"
proof -
  obtain res st' w' where f: "Apply (exOpts ''z'') exPlan (Some NewState) (Some NewState) = (None, Some res, Some st', w')"
    using exFail by blast
  from replan_resumes [OF exPlan exState f] f show ?thesis by blast
qed

text \<open>C13: after a run without an error and without failed or skipped steps there is nothing left to
  do: planning again finds no change and no blocked delete.\<close>

theorem replan_converges:
  assumes "BuildPlan h rs stp opts = Some (Inr p)" "keys_ok (stateOf stp)"
    "Apply aopts p stp w = (None, Some res, Some st', w')" "Failed res = 0" "Skipped res = 0"
  shows "\<exists>p'. BuildPlan h rs (Some st') opts = Some (Inr p') \<and> \<not> HasChanges p' \<and> BlockedDeletes p' = 0"
proof -
  obtain p' where p': "BuildPlan h rs (Some st') opts = Some (Inr p')" and
    old: "\<And>s. s \<in> set (Steps p') \<Longrightarrow> StepOp s \<noteq> OpNoop \<Longrightarrow> s \<in> set (Steps p) \<and> (\<forall>q \<in> set (Results res). ResultStep q = s \<longrightarrow> bad q)"
    using replan_core [OF assms(1-3)] by blast
  obtain run' where r: "applySteps aopts (Steps p) \<lparr>Res = emptyResult, failed = {}, St = stateOf stp, World = w\<rparr> = (None, run')"
    "res = Res run'" by (rule Apply_run [OF assms(3)])
  obtain qs where qs: "run_effect (Steps p) \<lparr>Res = emptyResult, failed = {}, St = stateOf stp, World = w\<rparr> None run' qs"
    using applySteps_effect [OF r(1) plan_keys [OF assms(1,2)]] by blast
  have q: "Results res = qs" "map ResultStep qs = Steps p" "filter bad qs = []"
    using qs assms(4,5) r(2) by (simp_all add: run_effect_def emptyResult_def bad_count_def)
  have noop: "StepOp s = OpNoop" if "s \<in> set (Steps p')" for s
  proof (rule ccontr)
    assume "StepOp s \<noteq> OpNoop"
    note o = old [OF that this]
    then obtain x where "x \<in> set qs" "ResultStep x = s" using q(2) by (metis (no_types, lifting) imageE list.set_map)
    then show False using o q(1,3) by (auto simp: filter_empty_conv)
  qed
  obtain ord where "tallied p'" by (rule BuildPlan_steps [OF p'])
  moreover from this have "BlockedDeletes p' = 0" using noop by (auto simp: tallied_def opCount_def filter_empty_conv)
  ultimately show ?thesis using p' HasChanges_iff noop by fastforce
qed

theorem replan_converges_witness:
  "\<exists>res st' p'. Apply (exOpts ''none'') exPlan (Some NewState) (Some NewState) = (None, Some res, Some st', Some st') \<and>
     BuildPlan exHash exResources (Some st') keepAll = Some (Inr p') \<and> \<not> HasChanges p'"
proof -
  obtain st' where f: "Apply (exOpts ''none'') exPlan (Some NewState) (Some NewState) =
    (None, Some \<lparr>Results = [\<lparr>ResultStep = Steps exPlan ! 0, Status = StatusApplied, Err = None\<rparr>,
       \<lparr>ResultStep = Steps exPlan ! 1, Status = StatusApplied, Err = None\<rparr>], Created = 2, Updated = 0, Deleted = 0,
       Unchanged = 0, Failed = 0, Skipped = 0\<rparr>, Some st', Some st')" using exRun by blast
  from replan_converges [OF exPlan exState f] f show ?thesis by auto
qed

text \<open>C5: a create or update is skipped exactly if one of its dependencies failed or was skipped in
  the same run; all other steps are carried out whatever failed before.\<close>

theorem Apply_skips:
  assumes "BuildPlan h rs stp opts = Some (Inr p)" "keys_ok (stateOf stp)"
    "Apply aopts p stp w = (err, Some res, Some st', w')" "q \<in> set (Results res)"
  shows "Status q = StatusSkipped \<longleftrightarrow> (\<exists>r d q'. StepOp (ResultStep q) \<in> {OpCreate, OpUpdate} \<and> StepResource (ResultStep q) = Some r \<and>
    d \<in> set (DependsOn r) \<and> q' \<in> set (Results res) \<and> skey (ResultStep q') = Key d \<and> Status q' \<in> {StatusFailed, StatusSkipped})"
proof -
  obtain ord where o: "topoSort rs = Some (Inr ord)"
    "Steps p = map (liveStep h (stateOf stp)) ord @ map (goneStep opts) (goneKeys rs (stateOf stp))"
    by (rule BuildPlan_steps [OF assms(1)])
  obtain run' where r: "applySteps aopts (Steps p) \<lparr>Res = emptyResult, failed = {}, St = stateOf stp, World = w\<rparr> = (err, run')"
    "res = Res run'" by (rule Apply_run [OF assms(3)])
  obtain qs where qs: "run_effect (Steps p) \<lparr>Res = emptyResult, failed = {}, St = stateOf stp, World = w\<rparr> err run' qs"
    using applySteps_effect [OF r(1) plan_keys [OF assms(1,2)]] by blast
  have res: "Results res = qs" using qs r(2) by (simp add: run_effect_def emptyResult_def)
  have step: "ResultStep (qs ! j) = Steps p ! j" "j < length (Steps p)" if "j < length qs" for j
    using qs that by (metis (no_types, lifting) run_effect_def length_map length_take min_less_iff_conj nth_map nth_take)+
  obtain i where i: "i < length qs" "q = qs ! i" using assms(4) res by (auto simp: in_set_conv_nth)
  have sk: "Status q = StatusSkipped \<longleftrightarrow> StepOp (ResultStep q) \<in> {OpCreate, OpUpdate} \<and>
      failedDep (StepResource (ResultStep q)) (bad_keys (take i qs)) \<noteq> None"
    using applySteps_skips [OF r(1), of qs i] qs i by (simp add: run_effect_def)
  have before: "j < i" if j: "StepResource (ResultStep q) = Some x" "d \<in> set (DependsOn x)" "j < length qs" "skey (ResultStep (qs ! j)) = Key d" for x d j
  proof -
    have il: "i < length ord" using j(1) step [OF i(1)] i by (auto simp: o(2) nth_append goneStep_def split: if_splits)
    then have x: "ord ! i = x" using j(1) step(1) [OF i(1)] i(2) by (simp add: o(2) nth_append liveStep_def)
    obtain k where k: "k < i" "rkey (ord ! k) = Key d" using ts.order_deps [OF o(1) il, of d] x j(2) by auto
    have "skey (Steps p ! k) = rkey (ord ! k)" using k il by (simp add: o(2) nth_append liveStep_def)
    then have "map skey (Steps p) ! k = map skey (Steps p) ! j" using k j(3,4) step [OF j(3)] step(2) [OF i(1)] by simp
    then have "k = j" using nth_eq_iff_index_eq [OF plan_keys [OF assms(1,2)], of k j] k(1) step(2) [OF i(1)] step(2) [OF j(3)] by simp
    with k(1) show ?thesis by simp
  qed
  have "failedDep (StepResource (ResultStep q)) (bad_keys (take i qs)) \<noteq> None \<longleftrightarrow>
      (\<exists>x d q'. StepResource (ResultStep q) = Some x \<and> d \<in> set (DependsOn x) \<and> q' \<in> set (take i qs) \<and> skey (ResultStep q') = Key d \<and> bad q')"
    unfolding failedDep_iff mem_bad_keys by blast
  also have "\<dots> \<longleftrightarrow> (\<exists>x d q'. StepResource (ResultStep q) = Some x \<and> d \<in> set (DependsOn x) \<and> q' \<in> set qs \<and> skey (ResultStep q') = Key d \<and> bad q')"
    (is "?L \<longleftrightarrow> ?R")
  proof
    show "?L \<Longrightarrow> ?R" by (meson in_set_takeD)
    assume ?R
    then obtain x d j where j: "StepResource (ResultStep q) = Some x" "d \<in> set (DependsOn x)" "j < length qs"
      "skey (ResultStep (qs ! j)) = Key d" "bad (qs ! j)" by (auto simp: in_set_conv_nth)
    have "qs ! j \<in> set (take i qs)" using before [OF j(1-4)] j(3) by (auto simp: in_set_conv_nth)
    with j show ?L by blast
  qed
  finally show ?thesis unfolding sk res by blast
qed

theorem Apply_skips_witness:
  "\<exists>res st' w' q q'. Apply (exOpts ''z'') exPlan (Some NewState) (Some NewState) = (None, Some res, Some st', w') \<and>
     q \<in> set (Results res) \<and> Status q = StatusSkipped \<and> q' \<in> set (Results res) \<and> skey (ResultStep q') = ''z/i'' \<and> bad q'"
proof -
  obtain res st' w' where f: "Apply (exOpts ''z'') exPlan (Some NewState) (Some NewState) = (None, Some res, Some st', w')"
    "\<lparr>ResultStep = Steps exPlan ! 1, Status = StatusSkipped, Err = Some (DependencyFailed ''z/i'')\<rparr> \<in> set (Results res)"
    using exFail by fastforce
  obtain q' where "q' \<in> set (Results res)" "skey (ResultStep q') = ''z/i''" "bad q'"
    using Apply_skips [OF exPlan exState f] by (auto simp: exPlan_def Key_def)
  moreover have "Status \<lparr>ResultStep = Steps exPlan ! 1, Status = StatusSkipped, Err = Some (DependencyFailed ''z/i'')\<rparr> = StatusSkipped"
    by simp
  ultimately show ?thesis using f by blast
qed

text \<open>If saving and the providers behave (a successful save leaves the given state on disk, and
  nothing else touches it), the state on disk after a run is the state of the run, also when the
  run ended with failures or an error, unless that error is a failed save.\<close>

theorem Apply_persists:
  assumes "persistent opts holds" "holds w (stateOf stp)"
    "Apply opts p stp w = (err, Some res, Some st', w')" "\<forall>e. err \<noteq> Some (SaveError e)"
  shows "holds w' st'"
proof -
  obtain run' where r: "applySteps opts (Steps p) \<lparr>Res = emptyResult, failed = {}, St = stateOf stp, World = w\<rparr> = (err, run')"
    "st' = St run'" "w' = World run'" by (rule Apply_run [OF assms(3)])
  from applySteps_on_disk [OF assms(1) _ r(1)] assms(2,4) have "on_disk holds run'" by (auto simp: on_disk_def)
  then show ?thesis by (simp add: on_disk_def r)
qed

theorem Apply_persists_witness:
  "\<exists>res st' w'. Apply (exOpts ''z'') exPlan (Some NewState) (Some NewState) = (None, Some res, Some st', w') \<and> w' = Some st'"
proof -
  obtain res st' w' where f: "Apply (exOpts ''z'') exPlan (Some NewState) (Some NewState) = (None, Some res, Some st', w')"
    using exFail by blast
  from Apply_persists [OF exPersistent _ f] f show ?thesis by (simp add: stateOf_def)
qed

text \<open>Without the option to delete, a plan with resources to delete is refused: \<open>Apply\<close> names
  their number and changes neither the state nor the world.\<close>

theorem Apply_refuses_deletes:
  assumes "BuildPlan h rs stp opts = Some (Inr p)" "\<not> AllowDeletes opts" "key \<in> fst ` set (Resources (stateOf stp))" "key \<notin> rkey ` set rs"
  shows "Apply aopts p stp w = (Some (PlanBlocked (length (goneKeys rs (stateOf stp)))), None, stp, w)"
proof -
  obtain ord where o: "tallied p"
    "Steps p = map (liveStep h (stateOf stp)) ord @ map (goneStep opts) (goneKeys rs (stateOf stp))"
    by (rule BuildPlan_steps [OF assms(1)])
  have "StepOp (liveStep h (stateOf stp) r) \<noteq> OpBlockedDelete" for r
    using planOp_live [of "stateOf stp" "rkey r" "hashOf h r"] by (auto simp: liveStep_def)
  then have "BlockedDeletes p = length (goneKeys rs (stateOf stp))"
    using o assms(2) by (simp add: tallied_def) (simp add: opCount_def goneStep_def filter_map comp_def)
  moreover have "key \<in> set (goneKeys rs (stateOf stp))" using assms(3,4) by (auto simp: goneKeys_def)
  then have "length (goneKeys rs (stateOf stp)) > 0" by (cases "goneKeys rs (stateOf stp)") auto
  ultimately show ?thesis by (simp add: Apply_def)
qed

theorem Apply_refuses_deletes_witness:
  "\<exists>p. BuildPlan exHash [exAsset] (Some (\<lparr>Version = 1, Resources = [(''badge/x'', \<lparr>InputsHash = [], Outputs = None\<rparr>)]\<rparr> :: nat State)) keepAll = Some (Inr p) \<and>
     fst (Apply (exOpts ''z'') p (Some (\<lparr>Version = 1, Resources = [(''badge/x'', \<lparr>InputsHash = [], Outputs = None\<rparr>)]\<rparr> :: nat State)) None) = Some (PlanBlocked 1)"
proof -
  let ?st = "\<lparr>Version = 1, Resources = [(''badge/x'', \<lparr>InputsHash = [], Outputs = None\<rparr>)]\<rparr> :: nat State"
  have "topoSort [exAsset] = Some (Inr [exAsset])" by (simp add: topoSort_def Key_def Ref_def kahn.simps)
  then obtain p where p: "BuildPlan exHash [exAsset] (Some ?st) keepAll = Some (Inr p)"
    using BuildPlan_succeeds [of "[exAsset]" "[exAsset]" exHash "Some ?st" keepAll] by (auto simp: exHash_def)
  have "goneKeys [exAsset] ?st = [''badge/x'']" by (simp add: goneKeys_def Key_def Ref_def)
  with Apply_refuses_deletes [OF p, of "''badge/x''" "exOpts ''z''" None] p show ?thesis
    by (auto simp: stateOf_def Key_def Ref_def)
qed

text \<open>A state key names its resource: \<open>parseStateKey\<close> inverts \<open>Key\<close> for the kinds, which have no
  slash, and \<open>Key\<close> inverts it on every key with a slash.\<close>

theorem parseStateKey_inverts:
  "(CHR ''/'' \<notin> set (RefKind r) \<longrightarrow> parseStateKey (Key r) = r) \<and> (CHR ''/'' \<in> set k \<longrightarrow> Key (parseStateKey k) = k)"
  by (simp add: parseStateKey_Key Key_parseStateKey)

theorem parseStateKey_inverts_witness: "parseStateKey ''asset/icons/a.png'' = \<lparr>RefKind = ''asset'', RefName = ''icons/a.png''\<rparr>"
  using parseStateKey_inverts [of "\<lparr>RefKind = ''asset'', RefName = ''icons/a.png''\<rparr>" "''asset/x''"] by (simp add: Key_def)

end
