(* ===== verification/Go_Path.thy ===== *)
theory Go_Path
  imports Prelude
begin

text \<open>
  What the components use of the Go packages \<open>path\<close> and \<open>path/filepath\<close> on Unix, where the
  two agree and \<open>ToSlash\<close> is the identity, and of \<open>strings\<close> on whole paths.
\<close>

definition IsAbs :: "string \<Rightarrow> bool" where
  "IsAbs p \<longleftrightarrow> HasPrefix p ''/''"

definition ToSlash :: "string \<Rightarrow> string" where
  "ToSlash p = p"

text \<open>\<open>strings.ReplaceAll\<close> of backslashes by slashes.\<close>

definition replaceBackslashes :: "string \<Rightarrow> string" where
  "replaceBackslashes s = map (\<lambda>c. if c = BSLASH then CHR ''/'' else c) s"

text \<open>\<open>Clean\<close>: empty and dot elements vanish, a dot-dot removes the element before it; at the root it
  vanishes and at the start of a relative path it stays. The parts are collected in reverse.\<close>

fun cleanParts :: "bool \<Rightarrow> string list \<Rightarrow> string list \<Rightarrow> string list" where
  "cleanParts rooted [] acc = rev acc"
| "cleanParts rooted (p # ps) acc =
     (if p = [] \<or> p = ''.'' then cleanParts rooted ps acc
      else if p = ''..'' then
        (case acc of
           [] \<Rightarrow> cleanParts rooted ps (if rooted then [] else [p])
         | a # as \<Rightarrow> if a = ''..'' then cleanParts rooted ps (p # acc) else cleanParts rooted ps as)
      else cleanParts rooted ps (p # acc))"

definition Clean :: "string \<Rightarrow> string" where
  "Clean p = (let body = Join (cleanParts (IsAbs p) (Split p (CHR ''/'')) []) ''/'' in
     if IsAbs p then ''/'' @ body else if body = [] then ''.'' else body)"

text \<open>\<open>Join\<close> of two elements: empty ones are ignored, the rest is cleaned.\<close>

definition PathJoin :: "string \<Rightarrow> string \<Rightarrow> string" where
  "PathJoin a b = (if a = [] \<and> b = [] then [] else if a = [] then Clean b else if b = [] then Clean a else Clean (a @ ''/'' @ b))"

text \<open>\<open>Base\<close>: the last element without trailing slashes; \<open>Ext\<close>: from the last dot of the last element.\<close>

definition trimSlashes :: "string \<Rightarrow> string" where
  "trimSlashes p = rev (dropWhile (\<lambda>c. c = CHR ''/'') (rev p))"

definition Base :: "string \<Rightarrow> string" where
  "Base p = (if p = [] then ''.'' else
     (let q = trimSlashes p in if q = [] then ''/'' else last (Split q (CHR ''/''))))"

definition Ext :: "string \<Rightarrow> string" where
  "Ext p = (let e = last (Split p (CHR ''/'')) in
     if CHR ''.'' \<in> set e then CHR ''.'' # last (Split e (CHR ''.'')) else [])"

definition TrimSuffix :: "string \<Rightarrow> string \<Rightarrow> string" where
  "TrimSuffix s suf = (if HasSuffix s suf then take (length s - length suf) s else s)"

text \<open>\<open>Dir\<close>: everything before the last slash, cleaned.\<close>

definition Dir :: "string \<Rightarrow> string" where
  "Dir p = Clean (rev (dropWhile (\<lambda>c. c \<noteq> CHR ''/'') (rev p)))"

text \<open>\<open>Rel\<close> compares the elements of the two cleaned paths from the left. Behind the first
  difference it goes up once per element of the base and then down. There is no result if one path
  is rooted and the other is not, or if the differing element of the base is a dot-dot.\<close>

fun dropCommon :: "string list \<Rightarrow> string list \<Rightarrow> string list \<times> string list" where
  "dropCommon (b # bs) (t # ts) = (if b = t then dropCommon bs ts else (b # bs, t # ts))"
| "dropCommon bs ts = (bs, ts)"

definition elements :: "string \<Rightarrow> string list" where
  "elements p = (if p = [] \<or> p = ''/'' then [] else if IsAbs p then tl (Split p (CHR ''/'')) else Split p (CHR ''/''))"

definition Rel :: "string \<Rightarrow> string \<Rightarrow> string option" where
  "Rel basepath targpath =
     (let base = Clean basepath; targ = Clean targpath in
      if targ = base then Some ''.''
      else (let base = (if base = ''.'' then [] else base) in
        if IsAbs base \<noteq> IsAbs targ then None
        else (let (b, t) = dropCommon (elements base) (elements targ) in
          if b \<noteq> [] \<and> t \<noteq> [] \<and> hd b = ''..'' then None
          else Some (Join (replicate (length b) ''..'' @ t) ''/''))))"

text \<open>\<open>strings.ToLower\<close> on the ASCII letters.\<close>

definition lowerByte :: "char \<Rightarrow> char" where
  "lowerByte c = (if CHR ''A'' \<le> c \<and> c \<le> CHR ''Z'' then char_of (of_char c + (32 :: nat)) else c)"

definition ToLower :: "string \<Rightarrow> string" where
  "ToLower s = map lowerByte s"

text \<open>A cleaned path has no empty or dot element, and dot-dot elements only at its start, none if it
  is rooted.\<close>

fun clean_form :: "bool \<Rightarrow> string list \<Rightarrow> bool" where
  "clean_form rooted [] \<longleftrightarrow> True"
| "clean_form rooted (p # ps) \<longleftrightarrow>
     (if p = ''..'' then \<not> rooted \<and> clean_form rooted ps
      else (\<forall>q \<in> set (p # ps). q \<noteq> [] \<and> q \<noteq> ''.'' \<and> q \<noteq> ''..''))"

lemma clean_form_snoc:
  "clean_form rooted ps \<Longrightarrow> p \<noteq> [] \<Longrightarrow> p \<noteq> ''.'' \<Longrightarrow> p \<noteq> ''..'' \<Longrightarrow> clean_form rooted (ps @ [p])"
  by (induction ps) auto

lemma clean_form_butlast: "clean_form rooted (ps @ [p]) \<Longrightarrow> clean_form rooted ps"
  by (induction ps) (auto split: if_splits)

lemma clean_form_dots: "clean_form rooted (ps @ [''..'']) \<Longrightarrow> clean_form rooted (ps @ [''..'', ''..''])"
  by (induction ps) (auto split: if_splits)

lemma cleanParts_form: "clean_form rooted (rev acc) \<Longrightarrow> clean_form rooted (cleanParts rooted ps acc)"
proof (induction rooted ps acc rule: cleanParts.induct)
  case (2 rooted p ps acc)
  show ?case
  proof (cases "p = [] \<or> p = ''.''")
    case False
    show ?thesis
    proof (cases "p = ''..''")
      case True
      show ?thesis
      proof (cases acc)
        case Nil
        then show ?thesis using 2 False True by (cases rooted) simp_all
      next
        case (Cons a as)
        have "clean_form rooted (rev (p # acc))" if "a = ''..''"
          using clean_form_dots [of rooted "rev as"] 2(6) Cons that True by simp
        moreover have "clean_form rooted (rev as)" using clean_form_butlast [of rooted "rev as" a] 2(6) Cons by simp
        ultimately show ?thesis using 2(3,4) False True Cons by simp
      qed
    next
      case dots: False
      then have "clean_form rooted (rev (p # acc))" using clean_form_snoc [of rooted "rev acc" p] 2(6) False by simp
      then show ?thesis using 2(5) False dots by simp
    qed
  qed (use 2 in auto)
qed simp

text \<open>So a cleaned relative path whose first element is no dot-dot has none.\<close>

lemma clean_form_inside: "clean_form rooted (p # ps) \<Longrightarrow> p \<noteq> ''..'' \<Longrightarrow> ''..'' \<notin> set (p # ps)"
  by auto

section \<open>Rooted paths\<close>

text \<open>A cleaned rooted path is a list of names.\<close>

definition isName :: "string \<Rightarrow> bool" where
  "isName n \<longleftrightarrow> n \<noteq> [] \<and> n \<noteq> ''.'' \<and> n \<noteq> ''..'' \<and> CHR ''/'' \<notin> set n"

definition rooted :: "string list \<Rightarrow> string" where
  "rooted ns = ''/'' @ Join ns ''/''"

lemma IsAbs_rooted [simp]: "IsAbs (rooted ns)"
  by (simp add: IsAbs_def rooted_def HasPrefix_def)

lemma IsAbs_append: "IsAbs p \<Longrightarrow> IsAbs (p @ q)"
  by (cases p) (auto simp: IsAbs_def HasPrefix_def)

lemma rooted_not_Nil [simp]: "rooted ns \<noteq> []"
  by (simp add: rooted_def)

lemma isName_slash: "list_all isName ns \<Longrightarrow> \<forall>x \<in> set ns. CHR ''/'' \<notin> set x"
  by (auto simp: list_all_iff isName_def)

lemma Join_names_not_Nil: "list_all isName ns \<Longrightarrow> Join ns s = [] \<longleftrightarrow> ns = []"
  by (induction ns s rule: Join.induct) (auto simp: isName_def)

lemma Split_rooted: "list_all isName ns \<Longrightarrow> Split (rooted ns) (CHR ''/'') = [] # (if ns = [] then [[]] else ns)"
  using isName_slash [of ns] by (auto simp: rooted_def intro!: Split_Join)

lemma elements_rooted [simp]: "list_all isName ns \<Longrightarrow> elements (rooted ns) = ns"
  using Split_rooted [of ns] Join_names_not_Nil [of ns "''/''"]
  by (auto simp: elements_def) (auto simp: rooted_def)

lemma cleanParts_names: "list_all isName ns \<Longrightarrow> cleanParts r (ns @ ps) acc = cleanParts r ps (rev ns @ acc)"
  by (induction ns arbitrary: acc) (auto simp: isName_def)

lemma cleanParts_only_names: "list_all isName ns \<Longrightarrow> cleanParts r ns acc = rev acc @ ns"
  using cleanParts_names [of ns r "[]" acc] by simp

lemma Clean_rooted [simp]: "list_all isName ns \<Longrightarrow> Clean (rooted ns) = rooted ns"
  by (simp add: Clean_def Split_rooted cleanParts_only_names Let_def) (simp add: rooted_def)

lemma rooted_inj: "list_all isName ns \<Longrightarrow> list_all isName ms \<Longrightarrow> rooted ns = rooted ms \<longleftrightarrow> ns = ms"
  by (metis elements_rooted)

text \<open>Below a rooted path the elements of what is appended are cleaned in turn.\<close>

lemma Clean_below:
  assumes "list_all isName ns"
  shows "Clean (rooted ns @ ''/'' @ p) = rooted (cleanParts True (Split p (CHR ''/'')) (rev ns))"
proof -
  have a: "IsAbs (rooted ns @ ''/'' @ p)" by (simp add: IsAbs_def rooted_def HasPrefix_def)
  have s: "Split (rooted ns @ ''/'' @ p) (CHR ''/'') = ([] # (if ns = [] then [[]] else ns)) @ Split p (CHR ''/'')"
    using Split_append_sep [of "rooted ns" "CHR ''/''" p] Split_rooted [OF assms] by simp
  have "cleanParts True (([] # (if ns = [] then [[]] else ns)) @ Split p (CHR ''/'')) [] = cleanParts True (Split p (CHR ''/'')) (rev ns)"
    using cleanParts_names [OF assms, of True "Split p (CHR ''/'')" "[]"] by simp
  then show ?thesis unfolding Clean_def Let_def s using a by (simp add: rooted_def)
qed

lemma PathJoin_rooted:
  "list_all isName ns \<Longrightarrow> PathJoin (rooted ns) p = rooted (cleanParts True (Split p (CHR ''/'')) (rev ns))"
  using Clean_below [of ns p] by (cases "p = []") (simp_all add: PathJoin_def)

lemma PathJoin_names [simp]:
  assumes "list_all isName ns" "list_all isName ms"
  shows "PathJoin (rooted ns) (Join ms ''/'') = rooted (ns @ ms)"
proof (cases "ms = []")
  case True
  then show ?thesis using assms by (simp add: PathJoin_def)
next
  case False
  then have "Split (Join ms ''/'') (CHR ''/'') = ms" using isName_slash [OF assms(2)] by (rule Split_Join)
  then show ?thesis using assms by (simp add: PathJoin_rooted cleanParts_only_names)
qed

lemma PathJoin_name: "list_all isName ns \<Longrightarrow> isName n \<Longrightarrow> PathJoin (rooted ns) n = rooted (ns @ [n])"
  using PathJoin_names [of ns "[n]"] by simp

lemma PathJoin_dot: "list_all isName ns \<Longrightarrow> PathJoin (rooted ns) ''.'' = rooted ns"
  by (simp add: PathJoin_rooted)

lemma rooted_snoc: "rooted (ns @ [n]) = (if ns = [] then ''/'' else rooted ns @ ''/'') @ n"
  by (simp add: rooted_def Join_append)

lemma dropWhile_name: "CHR ''/'' \<notin> set n \<Longrightarrow> dropWhile (\<lambda>c. c \<noteq> CHR ''/'') (rev n @ CHR ''/'' # s) = CHR ''/'' # s"
  by (simp add: dropWhile_append)

lemma Dir_rooted [simp]:
  assumes "list_all isName ns" "isName n"
  shows "Dir (rooted (ns @ [n])) = rooted ns"
proof (cases "ns = []")
  case True
  have "rev (rooted [n]) = rev n @ CHR ''/'' # []" by (simp add: rooted_def)
  then have "Dir (rooted [n]) = Clean ''/''"
    using assms(2) dropWhile_name [of n "[]"] by (simp add: Dir_def isName_def)
  then show ?thesis using True Clean_rooted [of "[]"] by (simp add: rooted_def)
next
  case False
  have "rev (rooted (ns @ [n])) = rev n @ CHR ''/'' # rev (rooted ns)" using False by (simp add: rooted_snoc)
  then have "Dir (rooted (ns @ [n])) = Clean (rooted ns @ ''/'' @ [])"
    using assms(2) dropWhile_name [of n "rev (rooted ns)"] by (simp add: Dir_def isName_def)
  then show ?thesis using Clean_below [OF assms(1), of "[]"] by simp
qed

lemma trimSlashes_id: "p \<noteq> [] \<Longrightarrow> last p \<noteq> CHR ''/'' \<Longrightarrow> trimSlashes p = p"
  unfolding trimSlashes_def by (metis dropWhile_eq_self_iff hd_rev rev_rev_ident)

lemma Base_rooted [simp]:
  assumes "list_all isName ns" "isName n"
  shows "Base (rooted (ns @ [n])) = n"
proof -
  have l: "last (rooted (ns @ [n])) \<noteq> CHR ''/''"
    using assms(2) by (auto simp: rooted_snoc isName_def) (metis last_in_set)+
  have "last (Split (rooted (ns @ [n])) (CHR ''/'')) = n" using Split_rooted [of "ns @ [n]"] assms by simp
  then show ?thesis using l by (simp add: Base_def trimSlashes_id)
qed

text \<open>Relative paths between rooted paths.\<close>

lemma dropCommon_same: "dropCommon (xs @ bs) (xs @ ts) = dropCommon bs ts"
  by (induction xs) auto

lemma dropCommon_split: "dropCommon bs ts = (b, t) \<Longrightarrow> \<exists>xs. bs = xs @ b \<and> ts = xs @ t \<and> (b = [] \<or> t = [] \<or> hd b \<noteq> hd t)"
proof (induction bs ts rule: dropCommon.induct)
  case (1 x bs y ts)
  show ?case
  proof (cases "x = y")
    case True
    then obtain xs where "bs = xs @ b \<and> ts = xs @ t \<and> (b = [] \<or> t = [] \<or> hd b \<noteq> hd t)" using 1 by auto
    then show ?thesis using True by (intro exI [of _ "x # xs"]) simp
  qed (use 1 in auto)
qed auto

lemma Rel_rooted:
  assumes "list_all isName bs" "list_all isName ts"
  shows "Rel (rooted bs) (rooted ts) = Some (if bs = ts then ''.'' else
    (case dropCommon bs ts of (b, t) \<Rightarrow> Join (replicate (length b) ''..'' @ t) ''/''))"
proof (cases "bs = ts")
  case False
  obtain b t where d: "dropCommon bs ts = (b, t)" by (cases "dropCommon bs ts")
  then have "list_all isName b" using assms(1) dropCommon_split [OF d] by auto
  then have "b = [] \<or> hd b \<noteq> ''..''" by (cases b) (auto simp: isName_def)
  moreover have "rooted bs \<noteq> ''.''" by (simp add: rooted_def)
  ultimately show ?thesis using False assms d by (auto simp: Rel_def rooted_inj)
qed (use assms in \<open>simp add: Rel_def\<close>)

lemma Rel_below: "list_all isName bs \<Longrightarrow> list_all isName ts \<Longrightarrow>
  Rel (rooted bs) (rooted (bs @ ts)) = Some (if ts = [] then ''.'' else Join ts ''/'')"
  using dropCommon_same [of bs "[]" ts] by (simp add: Rel_rooted)

lemma PathJoin_Rel_below:
  assumes "list_all isName bs" "list_all isName ts" "list_all isName ns"
  shows "\<exists>r. Rel (rooted bs) (rooted (bs @ ts)) = Some r \<and> PathJoin (rooted ns) r = rooted (ns @ ts)"
  using assms by (simp add: Rel_below PathJoin_dot)

section \<open>Cleaning twice\<close>

lemma cleanParts_elems: "p \<in> set (cleanParts r ps acc) \<Longrightarrow> p \<in> set acc \<or> p \<in> set ps \<and> p \<noteq> [] \<and> p \<noteq> ''.''"
  by (induction r ps acc rule: cleanParts.induct) (auto split: if_splits list.splits)

lemma clean_form_rooted: "clean_form True ps \<Longrightarrow> \<forall>p \<in> set ps. p \<noteq> ''..''"
  by (cases ps) (auto split: if_splits)

lemma cleanParts_rooted_names: "list_all isName (cleanParts True (Split p (CHR ''/'')) [])"
  using cleanParts_form [of True "[]" "Split p (CHR ''/'')"] cleanParts_elems [of _ True "Split p (CHR ''/'')" "[]"]
    Split_no_sep [of _ p "CHR ''/''"] clean_form_rooted
  by (auto simp: list_all_iff isName_def)

lemma Clean_rooted_form: "IsAbs p \<Longrightarrow> \<exists>ns. list_all isName ns \<and> Clean p = rooted ns"
  using cleanParts_rooted_names [of p] by (auto simp: Clean_def Let_def rooted_def)

end
