(* ===== verification/Deploy_Config.thy ===== *)
theory Deploy_Config
  imports Deploy_Plan Go_Path
begin

text \<open>
  From the configuration to the resource graph: the configuration types and \<open>Validate\<close> of
  \<open>src/internal/config/config.go\<close>, the inputs of the resource kinds (\<open>providers.go\<close>) and
  \<open>BuildResources\<close> of \<open>src/internal/deploy/graph.go\<close>.

  A Go map of the configuration is an association list with distinct keys. Hashing a file reads
  the file system and is an argument.
\<close>

section \<open>Configuration (\<open>config.go\<close>)\<close>

record Creator =
  CreatorType :: string
  CreatorID :: int

record AssetsConfig =
  AssetsMode :: string
  AssetsBase :: string
  AssetsCreator :: Creator

record PlaceDeploy =
  PlaceFile :: string
  PlaceID :: int
  PlaceName :: string
  PlaceDescription :: string
  MaxPlayers :: int
  PlaceVersionType :: string

text \<open>\<open>PrivateServers\<close>, a pointer to a struct with one pointer field, is an option of an option.\<close>

record ExperienceConfig =
  ExperienceName :: string
  ExperienceDescription :: string
  Playability :: string
  PrivateServers :: "int option option"

record Badge =
  BadgeName :: string
  BadgeDescription :: string
  BadgeIcon :: string

record GamePass =
  PassName :: string
  PassDescription :: string
  PassPrice :: "int option"
  PassIcon :: string

record Product =
  ProductName :: string
  ProductDescription :: string
  ProductPrice :: int

record SocialLink =
  LinkTitle :: string
  LinkURL :: string
  LinkType :: string

record Environment =
  EnvUniverseID :: int
  Places :: "(string \<times> PlaceDeploy) list"
  Experience :: "ExperienceConfig option"
  Payments :: string
  Badges :: "(string \<times> Badge) list"
  GamePasses :: "(string \<times> GamePass) list"
  EnvIcon :: string
  Thumbnails :: "string list"
  Products :: "(string \<times> Product) list"
  SocialLinks :: "(string \<times> SocialLink) list"

record DeployConfig =
  Environments :: "(string \<times> Environment) list"

record Config =
  Assets :: "AssetsConfig option"
  Deploy :: "DeployConfig option"

definition socialLinkTypes :: "string list" where
  "socialLinkTypes = [''facebook'', ''twitter'', ''youtube'', ''twitch'', ''discord'', ''github'', ''guilded'']"

definition SocialLinkTypeValid :: "string \<Rightarrow> bool" where
  "SocialLinkTypeValid t \<longleftrightarrow> t \<in> set socialLinkTypes"

section \<open>Validation (\<open>Validate\<close>)\<close>

datatype config_error = BadMode string | BaseAbsolute string | BaseOutside string | BadCreator string
  | FileRequired string string | PlaceIDRequired string string | BadVersion string string string | BadMaxPlayers string string int
  | BadPlayability string string | BadServerPrice string int | BadPassPrice string string int
  | TooManyThumbnails string nat | BadProductPrice string string int | BadLinkType string string string | URLRequired string string

definition check :: "bool \<Rightarrow> config_error \<Rightarrow> config_error list" where
  "check ok e = (if ok then [] else [e])"

definition validateAssets :: "AssetsConfig \<Rightarrow> config_error list" where
  "validateAssets a =
     check (AssetsMode a \<in> {[], ''module'', ''macro''}) (BadMode (AssetsMode a)) @
     (if AssetsBase a = [] then []
      else (let slash = replaceBackslashes (AssetsBase a) in
        if IsAbs slash \<or> Contains slash '':'' then [BaseAbsolute (AssetsBase a)]
        else (let clean = Clean slash in check (\<not> (clean = ''..'' \<or> HasPrefix clean ''../'')) (BaseOutside (AssetsBase a))))) @
     check (CreatorType (AssetsCreator a) \<in> {''user'', ''group''}) (BadCreator (CreatorType (AssetsCreator a)))"

definition validatePlace :: "string \<Rightarrow> string \<times> PlaceDeploy \<Rightarrow> config_error list" where
  "validatePlace envName np = (case np of (name, p) \<Rightarrow>
     check (PlaceFile p \<noteq> []) (FileRequired envName name) @
     check (PlaceID p \<noteq> 0) (PlaceIDRequired envName name) @
     check (PlaceVersionType p \<in> {[], ''saved'', ''published''}) (BadVersion envName name (PlaceVersionType p)) @
     check (MaxPlayers p \<ge> 0) (BadMaxPlayers envName name (MaxPlayers p)))"

definition validateExperience :: "string \<Rightarrow> ExperienceConfig \<Rightarrow> config_error list" where
  "validateExperience envName x =
     check (Playability x \<in> {[], ''public'', ''private'', ''friends''}) (BadPlayability envName (Playability x)) @
     (case PrivateServers x of Some (Some price) \<Rightarrow> check (price \<ge> 0) (BadServerPrice envName price) | _ \<Rightarrow> [])"

definition validateEnvironment :: "string \<times> Environment \<Rightarrow> config_error list" where
  "validateEnvironment ne = (case ne of (envName, env) \<Rightarrow>
     concat (map (validatePlace envName) (Places env)) @
     (case Experience env of None \<Rightarrow> [] | Some x \<Rightarrow> validateExperience envName x) @
     concat (map (\<lambda>(name, g). case PassPrice g of None \<Rightarrow> [] | Some price \<Rightarrow> check (price \<ge> 0) (BadPassPrice envName name price)) (GamePasses env)) @
     check (length (Thumbnails env) \<le> 10) (TooManyThumbnails envName (length (Thumbnails env))) @
     concat (map (\<lambda>(name, p). check (ProductPrice p \<ge> 0) (BadProductPrice envName name (ProductPrice p))) (Products env)) @
     concat (map (\<lambda>(name, l). check (SocialLinkTypeValid (LinkType l)) (BadLinkType envName name (LinkType l)) @
       check (LinkURL l \<noteq> []) (URLRequired envName name)) (SocialLinks env)))"

definition Validate :: "Config \<Rightarrow> config_error list" where
  "Validate c =
     (case Assets c of None \<Rightarrow> [] | Some a \<Rightarrow> validateAssets a) @
     (case Deploy c of None \<Rightarrow> [] | Some d \<Rightarrow> concat (map validateEnvironment (Environments d)))"

section \<open>Inputs of the resource kinds (\<open>providers.go\<close>)\<close>

record PlaceFileInputs =
  pfPlaceID :: int
  pfFile :: string
  pfFileHash :: string
  pfVersionType :: string

record PlaceConfigInputs =
  pcPlaceID :: int
  pcName :: string
  pcDescription :: string
  pcServerSize :: int

record ExperienceInputs =
  exName :: string
  exDescription :: string
  exPlayability :: string
  exPayments :: string
  exPrivateServerPrice :: "int option"

record BadgeInputs =
  bName :: string
  bDescription :: string
  bIcon :: string

record AssetInputs =
  aFile :: string
  aFileHash :: string
  aAssetType :: string
  aDisplayName :: string
  aCreatorType :: string
  aCreatorID :: int

record GamePassInputs =
  gName :: string
  gDescription :: string
  gPrice :: "int option"
  gIcon :: string

record ExperienceIconInputs =
  iFile :: string
  iFileHash :: string

record ExperienceThumbnailsInputs =
  tFiles :: "string list"
  tFileHashes :: "string list"

record DeveloperProductInputs =
  dName :: string
  dDescription :: string
  dPrice :: int

record SocialLinkInputs =
  sTitle :: string
  sURL :: string
  sType :: string

text \<open>The values of the field \<open>Inputs any\<close>.\<close>

datatype inputs = InPlaceFile PlaceFileInputs | InPlaceConfig PlaceConfigInputs | InExperience ExperienceInputs
  | InBadge BadgeInputs | InAsset AssetInputs | InGamePass GamePassInputs | InExperienceIcon ExperienceIconInputs
  | InThumbnails ExperienceThumbnailsInputs | InProduct DeveloperProductInputs | InSocialLink SocialLinkInputs

section \<open>Building the graph (\<open>graph.go\<close>)\<close>

datatype 'e build_error = NoEnvironments | EnvNotFound string "string list" | NoUniverseID string
  | HashPlace string string 'e | InvalidVersionType string string | HashIcon string string 'e
  | UnsupportedAsset string string | HashExperienceIcon string 'e | HashThumbnail string 'e

definition sortedKeys :: "(string \<times> 'a) list \<Rightarrow> string list" where
  "sortedKeys m = sort (map fst m)"

definition resolvePath :: "string \<Rightarrow> string \<Rightarrow> string" where
  "resolvePath projectDir p = (if p = [] \<or> IsAbs p then p else PathJoin projectDir p)"

definition versionTypeFor :: "string \<Rightarrow> string option" where
  "versionTypeFor v = (if v = [] then Some ''Published'' else if v = ''saved'' then Some ''Saved''
     else if v = ''published'' then Some ''Published'' else None)"

definition assetTypeForFile :: "string \<Rightarrow> string option" where
  "assetTypeForFile name = (let e = ToLower (Ext name) in
     if e \<in> {''.png'', ''.jpg'', ''.jpeg'', ''.bmp'', ''.tga''} then Some ''Decal''
     else if e \<in> {''.ogg'', ''.mp3''} then Some ''Audio'' else None)"

definition res :: "string \<Rightarrow> string \<Rightarrow> ResourceRef list \<Rightarrow> inputs \<Rightarrow> inputs Resource" where
  "res kind name deps inp = \<lparr>ResKind = kind, ResName = name, DependsOn = deps, Inputs = inp\<rparr>"

text \<open>The loop over the places.\<close>

fun placeLoop :: "(string \<Rightarrow> 'e + string) \<Rightarrow> string \<Rightarrow> (string \<times> PlaceDeploy) list \<Rightarrow> string list \<Rightarrow> inputs Resource list \<Rightarrow>
    'e build_error + inputs Resource list" where
  "placeLoop HashFile dir m [] rs = Inr rs"
| "placeLoop HashFile dir m (name # names) rs =
     (let p = the (map_of m name) in
      case HashFile (resolvePath dir (PlaceFile p)) of Inl e \<Rightarrow> Inl (HashPlace name (PlaceFile p) e)
      | Inr hash \<Rightarrow>
          (case versionTypeFor (PlaceVersionType p) of None \<Rightarrow> Inl (InvalidVersionType name (PlaceVersionType p))
           | Some v \<Rightarrow>
               (let rs1 = rs @ [res KindPlaceFile name [] (InPlaceFile \<lparr>pfPlaceID = PlaceID p, pfFile = PlaceFile p, pfFileHash = hash, pfVersionType = v\<rparr>)];
                    rs2 = (if PlaceName p \<noteq> [] \<or> PlaceDescription p \<noteq> [] \<or> MaxPlayers p > 0
                           then rs1 @ [res KindPlaceConfig name [] (InPlaceConfig \<lparr>pcPlaceID = PlaceID p, pcName = PlaceName p,
                                  pcDescription = PlaceDescription p, pcServerSize = MaxPlayers p\<rparr>)]
                           else rs1) in
                placeLoop HashFile dir m names rs2)))"

definition experienceInputs :: "Environment \<Rightarrow> ExperienceInputs" where
  "experienceInputs env = (case Experience env of
      None \<Rightarrow> \<lparr>exName = [], exDescription = [], exPlayability = [], exPayments = Payments env, exPrivateServerPrice = None\<rparr>
    | Some x \<Rightarrow> \<lparr>exName = ExperienceName x, exDescription = ExperienceDescription x, exPlayability = Playability x,
        exPayments = Payments env,
        exPrivateServerPrice = (case PrivateServers x of None \<Rightarrow> None | Some None \<Rightarrow> Some 0 | Some (Some price) \<Rightarrow> Some price)\<rparr>)"

definition experienceResources :: "Environment \<Rightarrow> inputs Resource list" where
  "experienceResources env = (if Experience env \<noteq> None \<or> Payments env \<noteq> []
     then [res KindExperience ''universe'' [] (InExperience (experienceInputs env))] else [])"

text \<open>\<open>iconAsset\<close> registers the asset of an icon once.\<close>

record graph_state =
  built :: "inputs Resource list"
  seenIcons :: "string set"

definition iconAsset :: "(string \<Rightarrow> 'e + string) \<Rightarrow> string \<Rightarrow> string \<times> int \<Rightarrow> string \<Rightarrow> string \<Rightarrow> graph_state \<Rightarrow>
    'e build_error + string \<times> graph_state" where
  "iconAsset HashFile dir creator owner icon g =
     (let iconName = ToSlash icon in
      if iconName \<in> seenIcons g then Inr (iconName, g)
      else (let iconPath = resolvePath dir icon in
        case HashFile iconPath of Inl e \<Rightarrow> Inl (HashIcon owner icon e)
        | Inr hash \<Rightarrow>
            (case assetTypeForFile icon of None \<Rightarrow> Inl (UnsupportedAsset owner (Ext icon))
             | Some assetType \<Rightarrow>
                 (let base = Base iconPath in
                  Inr (iconName, \<lparr>built = built g @ [res KindAsset iconName [] (InAsset \<lparr>aFile = icon, aFileHash = hash,
                         aAssetType = assetType, aDisplayName = TrimSuffix base (Ext base), aCreatorType = fst creator,
                         aCreatorID = snd creator\<rparr>)],
                       seenIcons = insert iconName (seenIcons g)\<rparr>)))))"

text \<open>The icon of a badge or pass, if it has one: its name and the dependency on its asset.\<close>

definition iconDeps :: "(string \<Rightarrow> 'e + string) \<Rightarrow> string \<Rightarrow> string \<times> int \<Rightarrow> string \<Rightarrow> string \<Rightarrow> graph_state \<Rightarrow>
    'e build_error + (string \<times> ResourceRef list) \<times> graph_state" where
  "iconDeps HashFile dir creator owner icon g =
     (if icon = [] then Inr (([], []), g)
      else (case iconAsset HashFile dir creator owner icon g of Inl e \<Rightarrow> Inl e
        | Inr (iconName, g1) \<Rightarrow> Inr ((iconName, [\<lparr>RefKind = KindAsset, RefName = iconName\<rparr>]), g1)))"

fun badgeLoop :: "(string \<Rightarrow> 'e + string) \<Rightarrow> string \<Rightarrow> string \<times> int \<Rightarrow> (string \<times> Badge) list \<Rightarrow> string list \<Rightarrow> graph_state \<Rightarrow>
    'e build_error + graph_state" where
  "badgeLoop HashFile dir creator m [] g = Inr g"
| "badgeLoop HashFile dir creator m (name # names) g =
     (let b = the (map_of m name) in
      case iconDeps HashFile dir creator (''badge '' @ name) (BadgeIcon b) g of Inl e \<Rightarrow> Inl e
      | Inr ((iconName, deps), g1) \<Rightarrow>
          badgeLoop HashFile dir creator m names
            (g1\<lparr>built := built g1 @ [res KindBadge name deps (InBadge \<lparr>bName = BadgeName b, bDescription = BadgeDescription b, bIcon = iconName\<rparr>)]\<rparr>))"

fun passLoop :: "(string \<Rightarrow> 'e + string) \<Rightarrow> string \<Rightarrow> string \<times> int \<Rightarrow> (string \<times> GamePass) list \<Rightarrow> string list \<Rightarrow> graph_state \<Rightarrow>
    'e build_error + graph_state" where
  "passLoop HashFile dir creator m [] g = Inr g"
| "passLoop HashFile dir creator m (name # names) g =
     (let p = the (map_of m name) in
      case iconDeps HashFile dir creator (''game pass '' @ name) (PassIcon p) g of Inl e \<Rightarrow> Inl e
      | Inr ((iconName, deps), g1) \<Rightarrow>
          passLoop HashFile dir creator m names
            (g1\<lparr>built := built g1 @ [res KindGamePass name deps (InGamePass \<lparr>gName = PassName p, gDescription = PassDescription p,
                 gPrice = PassPrice p, gIcon = iconName\<rparr>)]\<rparr>))"

definition iconResources :: "(string \<Rightarrow> 'e + string) \<Rightarrow> string \<Rightarrow> Environment \<Rightarrow> 'e build_error + inputs Resource list" where
  "iconResources HashFile dir env =
     (if EnvIcon env = [] then Inr []
      else (case HashFile (resolvePath dir (EnvIcon env)) of Inl e \<Rightarrow> Inl (HashExperienceIcon (EnvIcon env) e)
        | Inr hash \<Rightarrow> Inr [res KindExperienceIcon ''icon'' [] (InExperienceIcon \<lparr>iFile = EnvIcon env, iFileHash = hash\<rparr>)]))"

fun thumbnailLoop :: "(string \<Rightarrow> 'e + string) \<Rightarrow> string \<Rightarrow> string list \<Rightarrow> ExperienceThumbnailsInputs \<Rightarrow> 'e build_error + ExperienceThumbnailsInputs" where
  "thumbnailLoop HashFile dir [] t = Inr t"
| "thumbnailLoop HashFile dir (f # fs) t =
     (case HashFile (resolvePath dir f) of Inl e \<Rightarrow> Inl (HashThumbnail f e)
      | Inr hash \<Rightarrow> thumbnailLoop HashFile dir fs (t\<lparr>tFiles := tFiles t @ [f], tFileHashes := tFileHashes t @ [hash]\<rparr>))"

definition thumbnailResources :: "(string \<Rightarrow> 'e + string) \<Rightarrow> string \<Rightarrow> Environment \<Rightarrow> 'e build_error + inputs Resource list" where
  "thumbnailResources HashFile dir env =
     (if Thumbnails env = [] then Inr []
      else (case thumbnailLoop HashFile dir (Thumbnails env) \<lparr>tFiles = [], tFileHashes = []\<rparr> of Inl e \<Rightarrow> Inl e
        | Inr t \<Rightarrow> Inr [res KindExperienceThumbnails ''thumbnails'' [] (InThumbnails t)]))"

definition productResources :: "Environment \<Rightarrow> inputs Resource list" where
  "productResources env = map (\<lambda>name. let p = the (map_of (Products env) name) in
     res KindDeveloperProduct name [] (InProduct \<lparr>dName = ProductName p, dDescription = ProductDescription p, dPrice = ProductPrice p\<rparr>))
     (sortedKeys (Products env))"

definition linkResources :: "Environment \<Rightarrow> inputs Resource list" where
  "linkResources env = map (\<lambda>name. let l = the (map_of (SocialLinks env) name) in
     res KindSocialLink name [] (InSocialLink \<lparr>sTitle = LinkTitle l, sURL = LinkURL l, sType = LinkType l\<rparr>))
     (sortedKeys (SocialLinks env))"

definition creatorOf :: "Config \<Rightarrow> string \<times> int" where
  "creatorOf cfg = (case Assets cfg of None \<Rightarrow> ([], 0) | Some a \<Rightarrow> (CreatorType (AssetsCreator a), CreatorID (AssetsCreator a)))"

definition environmentResources :: "(string \<Rightarrow> 'e + string) \<Rightarrow> string \<Rightarrow> string \<times> int \<Rightarrow> Environment \<Rightarrow> 'e build_error + inputs Resource list" where
  "environmentResources HashFile dir creator env =
     (case placeLoop HashFile dir (Places env) (sortedKeys (Places env)) [] of Inl e \<Rightarrow> Inl e
      | Inr rs1 \<Rightarrow>
     (case badgeLoop HashFile dir creator (Badges env) (sortedKeys (Badges env))
         \<lparr>built = rs1 @ experienceResources env, seenIcons = {}\<rparr> of Inl e \<Rightarrow> Inl e
      | Inr g1 \<Rightarrow>
     (case passLoop HashFile dir creator (GamePasses env) (sortedKeys (GamePasses env)) g1 of Inl e \<Rightarrow> Inl e
      | Inr g2 \<Rightarrow>
     (case iconResources HashFile dir env of Inl e \<Rightarrow> Inl e
      | Inr icons \<Rightarrow>
     (case thumbnailResources HashFile dir env of Inl e \<Rightarrow> Inl e
      | Inr thumbs \<Rightarrow> Inr (built g2 @ icons @ thumbs @ productResources env @ linkResources env))))))"

definition BuildResources :: "(string \<Rightarrow> 'e + string) \<Rightarrow> string \<Rightarrow> Config option \<Rightarrow> string \<Rightarrow> 'e build_error + inputs Resource list \<times> int" where
  "BuildResources HashFile projectDir cfgp envName =
     (case cfgp of None \<Rightarrow> Inl NoEnvironments
      | Some cfg \<Rightarrow>
     (case Deploy cfg of None \<Rightarrow> Inl NoEnvironments
      | Some d \<Rightarrow>
          if Environments d = [] then Inl NoEnvironments
          else (case map_of (Environments d) envName of
              None \<Rightarrow> Inl (EnvNotFound envName (sortedKeys (Environments d)))
            | Some env \<Rightarrow>
                if EnvUniverseID env = 0 then Inl (NoUniverseID envName)
                else (case environmentResources HashFile projectDir (creatorOf cfg) env of Inl e \<Rightarrow> Inl e
                  | Inr rs \<Rightarrow> Inr (rs, EnvUniverseID env)))))"

section \<open>The graph is well formed\<close>

text \<open>Kinds have no slash, so different identities have different keys.\<close>

lemma Key_inj: "CHR ''/'' \<notin> set (RefKind r) \<Longrightarrow> CHR ''/'' \<notin> set (RefKind q) \<Longrightarrow> Key r = Key q \<Longrightarrow> r = q"
  by (metis parseStateKey_Key)

definition deploy_kinds :: "string set" where
  "deploy_kinds = {KindPlaceFile, KindPlaceConfig, KindExperience, KindBadge, KindAsset, KindGamePass, KindExperienceIcon,
     KindExperienceThumbnails, KindDeveloperProduct, KindSocialLink}"

lemma kinds_no_slash: "k \<in> deploy_kinds \<Longrightarrow> CHR ''/'' \<notin> set k"
  by (auto simp: deploy_kinds_def kind_defs)

text \<open>The invariant of the graph under construction: known kinds, distinct identities, dependencies
  only on assets that are already there, and none of an asset.\<close>

definition graph_ok :: "inputs Resource list \<Rightarrow> bool" where
  "graph_ok rs \<longleftrightarrow> distinct (map Ref rs) \<and> (\<forall>r \<in> set rs. ResKind r \<in> deploy_kinds \<and> (ResKind r = KindAsset \<longrightarrow> DependsOn r = []) \<and>
     (\<forall>d \<in> set (DependsOn r). RefKind d = KindAsset \<and> d \<in> Ref ` set rs))"

text \<open>\<open>absent K names rs\<close>: no resource of kind \<open>K\<close> has one of the names yet.\<close>

definition absent :: "string \<Rightarrow> string list \<Rightarrow> inputs Resource list \<Rightarrow> bool" where
  "absent K names rs \<longleftrightarrow> (\<forall>r \<in> set rs. ResKind r = K \<longrightarrow> ResName r \<notin> set names)"

lemma res_simps [simp]: "ResKind (res k n ds i) = k" "ResName (res k n ds i) = n" "DependsOn (res k n ds i) = ds"
  "Ref (res k n ds i) = \<lparr>RefKind = k, RefName = n\<rparr>"
  by (simp_all add: res_def Ref_def)

lemma graph_ok_add:
  assumes "graph_ok rs" "K \<in> deploy_kinds" "absent K [name] rs" "K = KindAsset \<Longrightarrow> ds = []"
    "\<And>d. d \<in> set ds \<Longrightarrow> RefKind d = KindAsset \<and> d \<in> Ref ` set rs"
  shows "graph_ok (rs @ [res K name ds i])"
proof -
  have "Ref r \<noteq> \<lparr>RefKind = K, RefName = name\<rparr>" if "r \<in> set rs" for r
    using assms(3) that by (auto simp: absent_def Ref_def)
  then have "\<lparr>RefKind = K, RefName = name\<rparr> \<notin> Ref ` set rs" by force
  then show ?thesis using assms by (auto simp: graph_ok_def)
qed

lemma absent_simps [simp]: "absent K names [] = True"
  "absent K names (rs @ qs) \<longleftrightarrow> absent K names rs \<and> absent K names qs"
  "absent K names (res k n ds i # rs) \<longleftrightarrow> (k = K \<longrightarrow> n \<notin> set names) \<and> absent K names rs" "absent K [] rs = True"
  by (auto simp: absent_def)

lemma absent_Cons: "absent K (n # ns) rs \<longleftrightarrow> absent K [n] rs \<and> absent K ns rs"
  by (auto simp: absent_def)

lemma kinds_distinct [simp]:
  "KindPlaceFile \<noteq> KindPlaceConfig" "KindPlaceConfig \<noteq> KindPlaceFile"
  by (simp_all add: kind_defs)

text \<open>What a phase leaves behind: it keeps the invariant and adds only resources of its kinds.\<close>

definition adds :: "string set \<Rightarrow> inputs Resource list \<Rightarrow> inputs Resource list \<Rightarrow> bool" where
  "adds Ks rs rs' \<longleftrightarrow> graph_ok rs' \<and> (\<exists>qs. rs' = rs @ qs \<and> ResKind ` set qs \<subseteq> Ks)"

lemma adds_refl: "graph_ok rs \<Longrightarrow> adds Ks rs rs"
  by (auto simp: adds_def)

lemma adds_trans: "adds Ks rs rs' \<Longrightarrow> adds Ks rs' rs'' \<Longrightarrow> adds Ks rs rs''"
  unfolding adds_def by (metis (no_types, lifting) append_assoc image_Un le_sup_iff set_append)

lemma adds_absent: "adds Ks rs rs' \<Longrightarrow> K \<notin> Ks \<Longrightarrow> absent K names rs \<Longrightarrow> absent K names rs'"
  by (fastforce simp: adds_def absent_def)

lemma adds_one: "graph_ok rs \<Longrightarrow> K \<in> deploy_kinds \<Longrightarrow> K \<in> Ks \<Longrightarrow> absent K [name] rs \<Longrightarrow> (K = KindAsset \<Longrightarrow> ds = []) \<Longrightarrow>
    (\<And>d. d \<in> set ds \<Longrightarrow> RefKind d = KindAsset \<and> d \<in> Ref ` set rs) \<Longrightarrow> adds Ks rs (rs @ [res K name ds i])"
  unfolding adds_def using graph_ok_add [of rs K name ds i] by (intro conjI exI [of _ "[res K name ds i]"]) auto

lemma kind_mem [simp]: "KindPlaceFile \<in> deploy_kinds" "KindPlaceConfig \<in> deploy_kinds" "KindExperience \<in> deploy_kinds" "KindBadge \<in> deploy_kinds"
  "KindAsset \<in> deploy_kinds" "KindGamePass \<in> deploy_kinds" "KindExperienceIcon \<in> deploy_kinds" "KindExperienceThumbnails \<in> deploy_kinds"
  "KindDeveloperProduct \<in> deploy_kinds" "KindSocialLink \<in> deploy_kinds"
  by (simp_all add: deploy_kinds_def)

lemma not_asset: "KindPlaceFile \<noteq> KindAsset" "KindPlaceConfig \<noteq> KindAsset" "KindExperience \<noteq> KindAsset" "KindBadge \<noteq> KindAsset"
  "KindGamePass \<noteq> KindAsset" "KindExperienceIcon \<noteq> KindAsset" "KindExperienceThumbnails \<noteq> KindAsset"
  "KindDeveloperProduct \<noteq> KindAsset" "KindSocialLink \<noteq> KindAsset"
  by (simp_all add: kind_defs)

text \<open>The phases.\<close>

lemma placeLoop_adds:
  "placeLoop H dir m names rs = Inr rs' \<Longrightarrow> graph_ok rs \<Longrightarrow> distinct names \<Longrightarrow> absent KindPlaceFile names rs \<Longrightarrow>
     absent KindPlaceConfig names rs \<Longrightarrow> adds {KindPlaceFile, KindPlaceConfig} rs rs'"
proof (induction names arbitrary: rs)
  case (Cons name names)
  let ?p = "the (map_of m name)" and ?Ks = "{KindPlaceFile, KindPlaceConfig}"
  obtain hash v where hv: "H (resolvePath dir (PlaceFile ?p)) = Inr hash" "versionTypeFor (PlaceVersionType ?p) = Some v"
    using Cons.prems(1) by (auto simp: Let_def split: sum.splits option.splits)
  let ?i = "InPlaceFile \<lparr>pfPlaceID = PlaceID ?p, pfFile = PlaceFile ?p, pfFileHash = hash, pfVersionType = v\<rparr>"
  let ?j = "InPlaceConfig \<lparr>pcPlaceID = PlaceID ?p, pcName = PlaceName ?p, pcDescription = PlaceDescription ?p, pcServerSize = MaxPlayers ?p\<rparr>"
  let ?rs1 = "rs @ [res KindPlaceFile name [] ?i]"
  let ?rs2 = "if PlaceName ?p \<noteq> [] \<or> PlaceDescription ?p \<noteq> [] \<or> MaxPlayers ?p > 0 then ?rs1 @ [res KindPlaceConfig name [] ?j] else ?rs1"
  have run: "placeLoop H dir m names ?rs2 = Inr rs'" using Cons.prems(1) by (simp add: hv Let_def)
  have a1: "adds ?Ks rs ?rs1" using Cons.prems(2,4) not_asset by (intro adds_one) (simp_all add: absent_Cons [of _ name names])
  have c: "adds ?Ks ?rs1 (?rs1 @ [res KindPlaceConfig name [] ?j])"
    using a1 Cons.prems(5) not_asset by (intro adds_one) (simp_all add: adds_def absent_Cons [of _ name names])
  have a2: "adds ?Ks rs ?rs2" using a1 adds_trans [OF a1 c] by (simp only: if_split) blast
  have "adds ?Ks ?rs2 rs'"
    using Cons.prems(3-5) a2 by (intro Cons.IH [OF run]) (auto simp: adds_def absent_Cons [of _ name names])
  with a2 show ?case by (rule adds_trans)
qed (simp add: adds_refl)

definition seen_ok :: "graph_state \<Rightarrow> bool" where
  "seen_ok g \<longleftrightarrow> graph_ok (built g) \<and> seenIcons g = ResName ` {r \<in> set (built g). ResKind r = KindAsset}"

lemma seen_absent: "seen_ok g \<Longrightarrow> n \<notin> seenIcons g \<Longrightarrow> absent KindAsset [n] (built g)"
  by (auto simp: seen_ok_def absent_def)

lemma asset_ref: "n \<in> ResName ` {r \<in> set rs. ResKind r = KindAsset} \<Longrightarrow> \<lparr>RefKind = KindAsset, RefName = n\<rparr> \<in> Ref ` set rs"
  by (force simp: Ref_def)

lemma iconDeps_adds:
  assumes "iconDeps H dir creator owner icon g = Inr ((iconName, deps), g1)" "seen_ok g"
  shows "adds {KindAsset} (built g) (built g1) \<and> seen_ok g1 \<and> (\<forall>d \<in> set deps. RefKind d = KindAsset \<and> d \<in> Ref ` set (built g1))"
proof (cases "icon = [] \<or> ToSlash icon \<in> seenIcons g")
  case True
  then have g1: "g1 = g" "set deps \<subseteq> {\<lparr>RefKind = KindAsset, RefName = ToSlash icon\<rparr>}" "icon \<noteq> [] \<or> deps = []"
    using assms(1) by (auto simp: iconDeps_def iconAsset_def Let_def split: if_splits)
  have "adds {KindAsset} (built g) (built g1)" using assms(2) g1(1) by (simp add: seen_ok_def adds_refl)
  moreover have "\<lparr>RefKind = KindAsset, RefName = ToSlash icon\<rparr> \<in> Ref ` set (built g)" if "ToSlash icon \<in> seenIcons g"
    using that assms(2) asset_ref by (simp add: seen_ok_def)
  ultimately show ?thesis using True g1 assms(2) by auto
next
  case False
  obtain i where i: "built g1 = built g @ [res KindAsset (ToSlash icon) [] i]" "seenIcons g1 = insert (ToSlash icon) (seenIcons g)"
    "deps = [\<lparr>RefKind = KindAsset, RefName = ToSlash icon\<rparr>]"
    using assms(1) False by (auto simp: iconDeps_def iconAsset_def Let_def split: sum.splits option.splits)
  have a: "adds {KindAsset} (built g) (built g1)"
    unfolding i(1) using assms(2) False by (intro adds_one seen_absent) (auto simp: seen_ok_def)
  moreover have "seenIcons g1 = ResName ` {r \<in> set (built g1). ResKind r = KindAsset}"
  proof -
    have "{r \<in> set (built g1). ResKind r = KindAsset} = insert (res KindAsset (ToSlash icon) [] i) {r \<in> set (built g). ResKind r = KindAsset}"
      by (auto simp: i(1))
    then show ?thesis using assms(2) i(2) by (simp add: seen_ok_def)
  qed
  then have "seen_ok g1" using a by (simp add: seen_ok_def adds_def)
  ultimately show ?thesis using i(1,3) by simp
qed

text \<open>One round of the badge or the pass loop.\<close>

lemma owner_adds:
  assumes "iconDeps H dir creator owner icon g = Inr ((iconName, deps), g1)" "seen_ok g" "K \<in> deploy_kinds" "K \<noteq> KindAsset"
    "absent K (name # names) (built g)" "name \<notin> set names"
    "g2 = g1\<lparr>built := built g1 @ [res K name deps i]\<rparr>"
  shows "adds {KindAsset, K} (built g) (built g2)" "seen_ok g2" "absent K names (built g2)"
proof -
  note d = iconDeps_adds [OF assms(1,2)]
  have ab: "absent K (name # names) (built g1)" using adds_absent [of "{KindAsset}" "built g" "built g1" K] d assms(4,5) by blast
  have "adds {KindAsset} (built g) (built g1)" using d by blast
  then have 1: "adds {KindAsset, K} (built g) (built g1)" by (auto simp: adds_def)
  have 2: "adds {KindAsset, K} (built g1) (built g1 @ [res K name deps i])"
    using d ab assms(3,4) by (intro adds_one) (auto simp: adds_def absent_Cons [of K name names])
  show "adds {KindAsset, K} (built g) (built g2)" using adds_trans [OF 1 2] assms(7) by simp
  show "seen_ok g2"
  proof -
    have "{r \<in> set (built g2). ResKind r = KindAsset} = {r \<in> set (built g1). ResKind r = KindAsset}" using assms(4,7) by auto
    then show ?thesis using d 2 assms(7) by (simp add: seen_ok_def adds_def)
  qed
  show "absent K names (built g2)" using ab assms(6,7) by (simp add: absent_Cons [of K name names])
qed

lemma badgeLoop_adds:
  "badgeLoop H dir creator m names g = Inr g' \<Longrightarrow> seen_ok g \<Longrightarrow> distinct names \<Longrightarrow> absent KindBadge names (built g) \<Longrightarrow>
     adds {KindAsset, KindBadge} (built g) (built g') \<and> seen_ok g'"
proof (induction names arbitrary: g)
  case (Cons name names)
  let ?b = "the (map_of m name)"
  obtain iconName deps g1 where i: "iconDeps H dir creator (''badge '' @ name) (BadgeIcon ?b) g = Inr ((iconName, deps), g1)"
    using Cons.prems(1) by (auto simp: Let_def split: sum.splits)
  let ?g2 = "g1\<lparr>built := built g1 @ [res KindBadge name deps (InBadge \<lparr>bName = BadgeName ?b, bDescription = BadgeDescription ?b, bIcon = iconName\<rparr>)]\<rparr>"
  have run: "badgeLoop H dir creator m names ?g2 = Inr g'" using Cons.prems(1) i by (simp add: Let_def)
  note o = owner_adds [OF i Cons.prems(2), of KindBadge name names ?g2, OF _ _ Cons.prems(4) _ refl]
  have "adds {KindAsset, KindBadge} (built ?g2) (built g') \<and> seen_ok g'"
    using o Cons.prems(3) not_asset by (intro Cons.IH [OF run]) simp_all
  moreover have "adds {KindAsset, KindBadge} (built g) (built ?g2)" using o(1) Cons.prems(3) not_asset by simp
  ultimately show ?case using adds_trans by blast
qed (simp add: adds_refl seen_ok_def)

lemma passLoop_adds:
  "passLoop H dir creator m names g = Inr g' \<Longrightarrow> seen_ok g \<Longrightarrow> distinct names \<Longrightarrow> absent KindGamePass names (built g) \<Longrightarrow>
     adds {KindAsset, KindGamePass} (built g) (built g') \<and> seen_ok g'"
proof (induction names arbitrary: g)
  case (Cons name names)
  let ?p = "the (map_of m name)"
  obtain iconName deps g1 where i: "iconDeps H dir creator (''game pass '' @ name) (PassIcon ?p) g = Inr ((iconName, deps), g1)"
    using Cons.prems(1) by (auto simp: Let_def split: sum.splits)
  let ?g2 = "g1\<lparr>built := built g1 @ [res KindGamePass name deps (InGamePass \<lparr>gName = PassName ?p, gDescription = PassDescription ?p, gPrice = PassPrice ?p, gIcon = iconName\<rparr>)]\<rparr>"
  have run: "passLoop H dir creator m names ?g2 = Inr g'" using Cons.prems(1) i by (simp add: Let_def)
  note o = owner_adds [OF i Cons.prems(2), of KindGamePass name names ?g2, OF _ _ Cons.prems(4) _ refl]
  have "adds {KindAsset, KindGamePass} (built ?g2) (built g') \<and> seen_ok g'"
    using o Cons.prems(3) not_asset by (intro Cons.IH [OF run]) simp_all
  moreover have "adds {KindAsset, KindGamePass} (built g) (built ?g2)" using o(1) Cons.prems(3) not_asset by simp
  ultimately show ?case using adds_trans by blast
qed (simp add: adds_refl seen_ok_def)

text \<open>The simple phases: a list of resources of one new kind without dependencies.\<close>

lemma adds_map:
  "graph_ok rs \<Longrightarrow> K \<in> deploy_kinds \<Longrightarrow> distinct names \<Longrightarrow> absent K names rs \<Longrightarrow> adds {K} rs (rs @ map (\<lambda>n. res K n [] (f n)) names)"
proof (induction names arbitrary: rs)
  case (Cons n names)
  have a: "adds {K} rs (rs @ [res K n [] (f n)])" using Cons.prems by (intro adds_one) (simp_all add: absent_Cons [of K n names])
  have "adds {K} (rs @ [res K n [] (f n)]) ((rs @ [res K n [] (f n)]) @ map (\<lambda>n. res K n [] (f n)) names)"
    using a Cons.prems by (intro Cons.IH) (auto simp: adds_def absent_Cons [of K n names])
  from adds_trans [OF a this] show ?case by simp
qed (simp add: adds_refl)

lemma absent_kinds: "K \<notin> ResKind ` set rs \<Longrightarrow> absent K names rs"
  by (auto simp: absent_def)

lemma adds_kinds: "adds Ks rs rs' \<Longrightarrow> ResKind ` set rs' \<subseteq> ResKind ` set rs \<union> Ks"
  by (fastforce simp: adds_def)

definition wf_env :: "Environment \<Rightarrow> bool" where
  "wf_env env \<longleftrightarrow> distinct (map fst (Places env)) \<and> distinct (map fst (Badges env)) \<and> distinct (map fst (GamePasses env)) \<and>
     distinct (map fst (Products env)) \<and> distinct (map fst (SocialLinks env))"

definition simple_block :: "string \<Rightarrow> inputs Resource list \<Rightarrow> bool" where
  "simple_block K qs \<longleftrightarrow> (\<exists>names f. qs = map (\<lambda>n. res K n [] (f n)) names \<and> distinct names)"

lemma simple_blockI: "distinct names \<Longrightarrow> simple_block K (map (\<lambda>n. res K n [] (f n)) names)"
  by (auto simp: simple_block_def)

lemma simple_block_one: "simple_block K [res K n [] i]" "simple_block K []"
  using simple_blockI [of "[n]" K "\<lambda>_. i"] simple_blockI [of "[]" K] by simp_all

lemma simple_phase:
  assumes "graph_ok rs" "ResKind ` set rs \<subseteq> Ks" "simple_block K qs" "K \<in> deploy_kinds" "K \<notin> Ks"
  shows "graph_ok (rs @ qs)" "ResKind ` set (rs @ qs) \<subseteq> insert K Ks"
proof -
  obtain names f where q: "qs = map (\<lambda>n. res K n [] (f n)) names" "distinct names" using assms(3) by (auto simp: simple_block_def)
  have "adds {K} rs (rs @ qs)" unfolding q(1)
    by (rule adds_map [OF assms(1,4) q(2) absent_kinds]) (use assms(2,5) in blast)
  then show "graph_ok (rs @ qs)" "ResKind ` set (rs @ qs) \<subseteq> insert K Ks"
    using adds_kinds [of "{K}" rs "rs @ qs"] assms(2) by (auto simp: adds_def)
qed

lemma simple_blocks:
  "simple_block KindExperience (experienceResources env)"
  "iconResources H dir env = Inr icons \<Longrightarrow> simple_block KindExperienceIcon icons"
  "thumbnailResources H dir env = Inr thumbs \<Longrightarrow> simple_block KindExperienceThumbnails thumbs"
  "wf_env env \<Longrightarrow> simple_block KindDeveloperProduct (productResources env)"
  "wf_env env \<Longrightarrow> simple_block KindSocialLink (linkResources env)"
  by (auto simp: experienceResources_def iconResources_def thumbnailResources_def productResources_def linkResources_def
      Let_def wf_env_def sortedKeys_def simple_block_one simple_blockI split: if_splits sum.splits)

lemma environmentResources_ok:
  assumes "environmentResources H dir creator env = Inr rs" "wf_env env"
  shows "graph_ok rs"
proof -
  obtain rs1 g1 g2 icons thumbs where p: "placeLoop H dir (Places env) (sortedKeys (Places env)) [] = Inr rs1"
    "badgeLoop H dir creator (Badges env) (sortedKeys (Badges env)) \<lparr>built = rs1 @ experienceResources env, seenIcons = {}\<rparr> = Inr g1"
    "passLoop H dir creator (GamePasses env) (sortedKeys (GamePasses env)) g1 = Inr g2"
    "iconResources H dir env = Inr icons" "thumbnailResources H dir env = Inr thumbs"
    "rs = built g2 @ icons @ thumbs @ productResources env @ linkResources env"
    using assms(1) by (auto simp: environmentResources_def split: sum.splits)
  have dis: "distinct (sortedKeys (Places env))" "distinct (sortedKeys (Badges env))" "distinct (sortedKeys (GamePasses env))"
    using assms(2) by (simp_all add: sortedKeys_def wf_env_def)
  have "graph_ok []" by (simp add: graph_ok_def)
  then have "adds {KindPlaceFile, KindPlaceConfig} [] rs1" using placeLoop_adds [OF p(1)] dis(1) by simp
  then have 1: "graph_ok rs1" "ResKind ` set rs1 \<subseteq> {KindPlaceFile, KindPlaceConfig}" using adds_kinds by (auto simp: adds_def)
  note 2 = simple_phase [OF 1 simple_blocks(1) [of env]]
  have 2: "graph_ok (rs1 @ experienceResources env)"
    "ResKind ` set (rs1 @ experienceResources env) \<subseteq> {KindExperience, KindPlaceFile, KindPlaceConfig}"
    by (rule 2; simp add: kind_defs deploy_kinds_def)+
  have "KindAsset \<notin> ResKind ` set (rs1 @ experienceResources env)" using 2(2) by (auto simp: kind_defs)
  then have s: "seen_ok \<lparr>built = rs1 @ experienceResources env, seenIcons = {}\<rparr>"
    using 2(1) by (auto simp: seen_ok_def) (metis UnI1 UnI2 imageI set_append)+
  have "KindBadge \<notin> ResKind ` set (rs1 @ experienceResources env)" using 2(2) by (auto simp: kind_defs)
  then have 3: "adds {KindAsset, KindBadge} (rs1 @ experienceResources env) (built g1)" "seen_ok g1"
    using badgeLoop_adds [OF p(2) s dis(2)] absent_kinds by (simp_all del: absent_simps)
  have k3: "ResKind ` set (built g1) \<subseteq> {KindAsset, KindBadge, KindExperience, KindPlaceFile, KindPlaceConfig}"
    using adds_kinds [OF 3(1)] 2(2) by blast
  then have "KindGamePass \<notin> ResKind ` set (built g1)" by (auto simp: kind_defs)
  then have 4: "adds {KindAsset, KindGamePass} (built g1) (built g2)"
    using passLoop_adds [OF p(3) 3(2) dis(3)] absent_kinds by (simp del: absent_simps)
  have k4: "graph_ok (built g2)" using 4 by (simp add: adds_def)
  have k4': "ResKind ` set (built g2) \<subseteq> {KindGamePass, KindAsset, KindBadge, KindExperience, KindPlaceFile, KindPlaceConfig}"
    using adds_kinds [OF 4] k3 by blast
  note 5 = simple_phase [OF k4 k4' simple_blocks(2) [OF p(4)]]
  note 6 = simple_phase [OF 5 simple_blocks(3) [OF p(5)]]
  note 7 = simple_phase [OF 6 simple_blocks(4) [OF assms(2)]]
  have "graph_ok ((((built g2 @ icons) @ thumbs) @ productResources env) @ linkResources env)"
    by (rule simple_phase [OF 7 simple_blocks(5) [OF assms(2)]]; simp add: kind_defs deploy_kinds_def)
  then show ?thesis by (simp add: p(6))
qed

text \<open>So the graph can be ordered.\<close>

lemma graph_ok_wf:
  assumes "graph_ok rs"
  shows "wf_graph rs" "acyclic (depends rs)"
proof -
  have slash: "CHR ''/'' \<notin> set (ResKind r)" if "r \<in> set rs" for r using assms that kinds_no_slash by (auto simp: graph_ok_def)
  have kind: "RefKind (Ref r) = ResKind r" for r :: "inputs Resource" by (simp add: Ref_def)
  have "inj_on Key (Ref ` set rs)"
  proof (rule inj_onI)
    fix a b assume "a \<in> Ref ` set rs" "b \<in> Ref ` set rs" "Key a = Key b"
    then show "a = b" using Key_inj [of a b] slash kind by auto
  qed
  then have "distinct (map Key (map Ref rs))" using assms by (simp add: graph_ok_def distinct_map comp_inj_on)
  moreover have "Key d \<in> rkey ` set rs" if "r \<in> set rs" "d \<in> set (DependsOn r)" for r d
    using assms that by (force simp: graph_ok_def)
  ultimately show "wf_graph rs" by (auto simp: wf_graph_def comp_def)
  let ?a = "\<lambda>k. \<exists>d. k = Key d \<and> RefKind d = KindAsset"
  show "acyclic (depends rs)"
  proof (rule acyclicI_order [of _ "\<lambda>k. if ?a k then 1 else (0 :: nat)"])
    fix a b assume "(a, b) \<in> depends rs"
    then obtain d r where d: "a = Key d" "b = rkey r" "r \<in> set rs" "d \<in> set (DependsOn r)" by (auto simp: depends_def)
    have "?a a" using d assms by (auto simp: graph_ok_def)
    moreover have "\<not> ?a b"
    proof
      assume "?a b"
      then obtain e where e: "rkey r = Key e" "RefKind e = KindAsset" using d(2) by auto
      have "Ref r = e" using Key_inj [OF _ _ e(1)] slash [OF d(3)] e(2) kinds_no_slash [of KindAsset] by (simp add: Ref_def)
      then have "ResKind r = KindAsset" using e(2) by (auto simp: Ref_def)
      then show False using assms d(3,4) by (auto simp: graph_ok_def)
    qed
    ultimately show "(if ?a b then 1 else (0 :: nat)) < (if ?a a then 1 else 0)" by simp
  qed
qed

section \<open>When building succeeds\<close>

definition hashes_file :: "(string \<Rightarrow> 'e + string) \<Rightarrow> string \<Rightarrow> string \<Rightarrow> bool" where
  "hashes_file H dir f \<longleftrightarrow> \<not> isl (H (resolvePath dir f))"

text \<open>The files that an environment refers to can be read, and its icons have a known type.\<close>

definition files_ok :: "(string \<Rightarrow> 'e + string) \<Rightarrow> string \<Rightarrow> Environment \<Rightarrow> bool" where
  "files_ok H dir env \<longleftrightarrow> (\<forall>(n, p) \<in> set (Places env). hashes_file H dir (PlaceFile p)) \<and>
     (\<forall>icon \<in> BadgeIcon ` snd ` set (Badges env) \<union> PassIcon ` snd ` set (GamePasses env). icon = [] \<or>
        hashes_file H dir icon \<and> assetTypeForFile icon \<noteq> None) \<and>
     (EnvIcon env = [] \<or> hashes_file H dir (EnvIcon env)) \<and> (\<forall>f \<in> set (Thumbnails env). hashes_file H dir f)"

lemma placeLoop_runs:
  "(\<And>n. n \<in> set names \<Longrightarrow> hashes_file H dir (PlaceFile (the (map_of m n))) \<and> versionTypeFor (PlaceVersionType (the (map_of m n))) \<noteq> None) \<Longrightarrow>
     \<exists>rs'. placeLoop H dir m names rs = Inr rs'"
proof (induction names arbitrary: rs)
  case (Cons n names)
  obtain hash v where "H (resolvePath dir (PlaceFile (the (map_of m n)))) = Inr hash" "versionTypeFor (PlaceVersionType (the (map_of m n))) = Some v"
    using Cons.prems [of n] by (auto simp: hashes_file_def isl_def) (metis sum.exhaust_sel)
  then show ?case using Cons.IH Cons.prems by (simp add: Let_def)
qed simp

lemma iconDeps_runs:
  "icon = [] \<or> hashes_file H dir icon \<and> assetTypeForFile icon \<noteq> None \<Longrightarrow> \<exists>x. iconDeps H dir creator owner icon g = Inr x"
  by (auto simp: iconDeps_def iconAsset_def hashes_file_def Let_def split: sum.splits)

lemma badgeLoop_runs:
  "(\<And>n. n \<in> set names \<Longrightarrow> BadgeIcon (the (map_of m n)) = [] \<or> hashes_file H dir (BadgeIcon (the (map_of m n))) \<and>
     assetTypeForFile (BadgeIcon (the (map_of m n))) \<noteq> None) \<Longrightarrow> \<exists>g'. badgeLoop H dir creator m names g = Inr g'"
proof (induction names arbitrary: g)
  case (Cons n names)
  obtain x d g1 where "iconDeps H dir creator (''badge '' @ n) (BadgeIcon (the (map_of m n))) g = Inr ((x, d), g1)"
    using iconDeps_runs [of "BadgeIcon (the (map_of m n))" H dir creator "''badge '' @ n" g] Cons.prems [of n] by auto
  then show ?case using Cons.IH Cons.prems by (simp add: Let_def)
qed simp

lemma passLoop_runs:
  "(\<And>n. n \<in> set names \<Longrightarrow> PassIcon (the (map_of m n)) = [] \<or> hashes_file H dir (PassIcon (the (map_of m n))) \<and>
     assetTypeForFile (PassIcon (the (map_of m n))) \<noteq> None) \<Longrightarrow> \<exists>g'. passLoop H dir creator m names g = Inr g'"
proof (induction names arbitrary: g)
  case (Cons n names)
  obtain x d g1 where "iconDeps H dir creator (''game pass '' @ n) (PassIcon (the (map_of m n))) g = Inr ((x, d), g1)"
    using iconDeps_runs [of "PassIcon (the (map_of m n))" H dir creator "''game pass '' @ n" g] Cons.prems [of n] by auto
  then show ?case using Cons.IH Cons.prems by (simp add: Let_def)
qed simp

lemma thumbnailLoop_runs: "\<forall>f \<in> set fs. hashes_file H dir f \<Longrightarrow> \<exists>t'. thumbnailLoop H dir fs t = Inr t'"
  by (induction fs arbitrary: t) (auto simp: hashes_file_def split: sum.splits)

lemma map_of_key: "n \<in> set (sortedKeys m) \<Longrightarrow> (n, the (map_of m n)) \<in> set m"
  by (auto simp: sortedKeys_def) (metis map_of_SomeD map_of_eq_None_iff image_eqI fst_conv not_None_eq option.sel)

lemma environmentResources_runs:
  assumes "files_ok H dir env" "\<forall>(n, p) \<in> set (Places env). versionTypeFor (PlaceVersionType p) \<noteq> None"
  shows "\<exists>rs. environmentResources H dir creator env = Inr rs"
proof -
  have place: "hashes_file H dir (PlaceFile (the (map_of (Places env) n))) \<and> versionTypeFor (PlaceVersionType (the (map_of (Places env) n))) \<noteq> None"
    if "n \<in> set (sortedKeys (Places env))" for n
    using bspec [OF conjunct1 [OF assms(1) [unfolded files_ok_def]] map_of_key [OF that]] bspec [OF assms(2) map_of_key [OF that]] by simp
  have icon: "icon = [] \<or> hashes_file H dir icon \<and> assetTypeForFile icon \<noteq> None"
    if "icon \<in> BadgeIcon ` snd ` set (Badges env) \<union> PassIcon ` snd ` set (GamePasses env)" for icon
    by (rule bspec [OF conjunct1 [OF conjunct2 [OF assms(1) [unfolded files_ok_def]]] that])
  have badge: "BadgeIcon (the (map_of (Badges env) n)) \<in> BadgeIcon ` snd ` set (Badges env)" if "n \<in> set (sortedKeys (Badges env))" for n
    using map_of_key [OF that] by (metis image_eqI snd_conv)
  have pass: "PassIcon (the (map_of (GamePasses env) n)) \<in> PassIcon ` snd ` set (GamePasses env)" if "n \<in> set (sortedKeys (GamePasses env))" for n
    using map_of_key [OF that] by (metis image_eqI snd_conv)
  obtain rs1 where 1: "placeLoop H dir (Places env) (sortedKeys (Places env)) [] = Inr rs1"
    using placeLoop_runs [OF place] by blast
  obtain g1 where 2: "badgeLoop H dir creator (Badges env) (sortedKeys (Badges env)) \<lparr>built = rs1 @ experienceResources env, seenIcons = {}\<rparr> = Inr g1"
    using badgeLoop_runs [OF icon [OF UnI1 [OF badge]]] by blast
  obtain g2 where 3: "passLoop H dir creator (GamePasses env) (sortedKeys (GamePasses env)) g1 = Inr g2"
    using passLoop_runs [OF icon [OF UnI2 [OF pass]]] by blast
  obtain icons where 4: "iconResources H dir env = Inr icons"
  proof (cases "EnvIcon env = []")
    case False
    then have "\<not> isl (H (resolvePath dir (EnvIcon env)))" using assms(1) by (simp add: files_ok_def hashes_file_def)
    then show ?thesis using False that by (cases "H (resolvePath dir (EnvIcon env))") (simp_all add: iconResources_def)
  qed (simp add: iconResources_def that)
  obtain thumbs where 5: "thumbnailResources H dir env = Inr thumbs"
  proof (cases "Thumbnails env = []")
    case False
    have "\<forall>f \<in> set (Thumbnails env). hashes_file H dir f" using assms(1) by (simp add: files_ok_def)
    then obtain t where "thumbnailLoop H dir (Thumbnails env) \<lparr>tFiles = [], tFileHashes = []\<rparr> = Inr t"
      using thumbnailLoop_runs by blast
    then show ?thesis using False that by (simp add: thumbnailResources_def)
  qed (simp add: thumbnailResources_def that)
  show ?thesis by (simp add: environmentResources_def 1 2 3 4 5)
qed

lemma check_Nil [simp]: "check ok e = [] \<longleftrightarrow> ok"
  by (simp add: check_def)

lemma Validate_versions:
  assumes "Validate cfg = []" "Deploy cfg = Some d" "(envName, env) \<in> set (Environments d)" "(n, p) \<in> set (Places env)"
  shows "versionTypeFor (PlaceVersionType p) \<noteq> None"
proof -
  have "validateEnvironment (envName, env) = []" using assms(1-3) by (auto simp: Validate_def split: option.splits)
  then have "validatePlace envName (n, p) = []" using assms(4) by (auto simp: validateEnvironment_def)
  then show ?thesis by (auto simp: validatePlace_def versionTypeFor_def)
qed

section \<open>Properties\<close>

text \<open>C35: a validated configuration deploys: for an environment with a universe id whose files can be
  read and whose icons have a known type, \<open>BuildResources\<close> returns a graph, and for any total inputs
  hash and any state \<open>BuildPlan\<close> turns it into a plan; no identity is duplicated (icons that badges
  and passes share included), no dependency is missing and there is no cycle.\<close>

theorem valid_config_plans:
  assumes "Validate cfg = []" "Deploy cfg = Some d" "map_of (Environments d) envName = Some env" "wf_env env"
    "EnvUniverseID env \<noteq> 0" "files_ok H dir env" "\<forall>i. \<not> isl (h i)"
  shows "\<exists>rs p. BuildResources H dir (Some cfg) envName = Inr (rs, EnvUniverseID env) \<and> BuildPlan h rs stp opts = Some (Inr p)"
proof -
  have "(envName, env) \<in> set (Environments d)" using assms(3) by (rule map_of_SomeD)
  then have "\<forall>(n, p) \<in> set (Places env). versionTypeFor (PlaceVersionType p) \<noteq> None"
    using Validate_versions [OF assms(1,2)] by blast
  then obtain rs where rs: "environmentResources H dir (creatorOf cfg) env = Inr rs"
    using environmentResources_runs [OF assms(6)] by blast
  have "graph_ok rs" by (rule environmentResources_ok [OF rs assms(4)])
  then obtain ord where "topoSort rs = Some (Inr ord)" using topoSort_succeeds graph_ok_wf by blast
  then obtain p where "BuildPlan h rs stp opts = Some (Inr p)" using BuildPlan_succeeds assms(7) by blast
  moreover have "BuildResources H dir (Some cfg) envName = Inr (rs, EnvUniverseID env)"
    using assms(2,3,5) rs by (cases "Environments d") (auto simp: BuildResources_def)
  ultimately show ?thesis by blast
qed

definition exEnv :: Environment where
  "exEnv = \<lparr>EnvUniverseID = 7, Places = [], Experience = None, Payments = [],
     Badges = [(''b'', \<lparr>BadgeName = ''B'', BadgeDescription = [], BadgeIcon = ''i.png''\<rparr>)], GamePasses = [], EnvIcon = [],
     Thumbnails = [], Products = [], SocialLinks = []\<rparr>"

definition exConfig :: Config where
  "exConfig = \<lparr>Assets = None, Deploy = Some \<lparr>Environments = [(''prod'', exEnv)]\<rparr>\<rparr>"

theorem valid_config_plans_witness:
  "\<exists>rs p. BuildResources (\<lambda>f. Inr ''h'' :: string + string) ''/p'' (Some exConfig) ''prod'' = Inr (rs, 7) \<and>
     BuildPlan (\<lambda>i. Inr ''x'' :: string + string) rs (None :: nat State option) \<lparr>AllowDeletes = False\<rparr> = Some (Inr p)"
proof -
  have "files_ok (\<lambda>f. Inr ''h'' :: string + string) ''/p'' exEnv"
    by (simp add: files_ok_def hashes_file_def exEnv_def assetTypeForFile_def Ext_def ToLower_def lowerByte_def)
  moreover have "Validate exConfig = []" "Deploy exConfig = Some \<lparr>Environments = [(''prod'', exEnv)]\<rparr>"
    "wf_env exEnv" "EnvUniverseID exEnv = 7"
    by (simp_all add: Validate_def exConfig_def validateEnvironment_def exEnv_def wf_env_def)
  ultimately show ?thesis
    using valid_config_plans [of exConfig "\<lparr>Environments = [(''prod'', exEnv)]\<rparr>" "''prod''" exEnv "\<lambda>f. Inr ''h'' :: string + string" "''/p''"
        "\<lambda>i. Inr ''x'' :: string + string" "None :: nat State option" "\<lparr>AllowDeletes = False\<rparr>"] by simp
qed

text \<open>A base directory for assets that passes validation is relative and, cleaned, has no
  dot-dot element: paths below it stay in the project.\<close>

theorem base_stays_inside:
  assumes "Validate cfg = []" "Assets cfg = Some a" "AssetsBase a \<noteq> []"
  shows "\<not> IsAbs (replaceBackslashes (AssetsBase a)) \<and>
    ''..'' \<notin> set (cleanParts False (Split (replaceBackslashes (AssetsBase a)) (CHR ''/'')) [])"
proof -
  let ?s = "replaceBackslashes (AssetsBase a)"
  let ?ps = "cleanParts False (Split ?s (CHR ''/'')) []"
  have v: "\<not> IsAbs ?s" "Clean ?s \<noteq> ''..''" "\<not> HasPrefix (Clean ?s) ''../''"
    using assms by (auto simp: Validate_def validateAssets_def Let_def split: if_splits)
  have form: "clean_form False ?ps" by (rule cleanParts_form) simp
  have "''..'' \<notin> set ?ps"
  proof (cases ?ps)
    case (Cons p ps)
    have "p \<noteq> ''..''"
    proof
      assume p: "p = ''..''"
      then have "Clean ?s = Join (''..'' # ps) ''/''" using v(1) Cons by (cases ps) (simp_all add: Clean_def)
      then show False using v(2,3) by (cases ps) (simp_all add: HasPrefix_def)
    qed
    then show ?thesis using clean_form_inside form Cons by metis
  qed simp
  with v(1) show ?thesis by blast
qed

theorem base_stays_inside_witness:
  "\<not> IsAbs ''a/../b'' \<and> ''..'' \<notin> set (cleanParts False (Split ''a/../b'' (CHR ''/'')) [])"
  using base_stays_inside [of "\<lparr>Assets = Some \<lparr>AssetsMode = [], AssetsBase = ''a/../b'', AssetsCreator = \<lparr>CreatorType = ''user'', CreatorID = 1\<rparr>\<rparr>,
     Deploy = None\<rparr>"]
  by (simp add: Validate_def validateAssets_def replaceBackslashes_def IsAbs_def HasPrefix_def Clean_def)

text \<open>The inputs of a badge name its icon file and not the file's content, so a changed icon
  updates the asset, which is uploaded under a new id, and leaves the badge alone: its recorded icon
  id stays that of the old upload.\<close>

theorem badge_misses_new_icon:
  "let h = (\<lambda>i. Inr (case i of InAsset a \<Rightarrow> aFileHash a | _ \<Rightarrow> ''b'') :: string + string);
       st = \<lparr>Version = 1, Resources = [(''asset/i.png'', \<lparr>InputsHash = ''old'', Outputs = Some [''assetId'' \<mapsto> (1 :: nat)]\<rparr>),
         (''badge/b'', \<lparr>InputsHash = ''b'', Outputs = Some [''iconAssetId'' \<mapsto> 1]\<rparr>)]\<rparr> in
   \<exists>rs p. BuildResources (\<lambda>f. Inr ''new'' :: string + string) ''/p'' (Some exConfig) ''prod'' = Inr (rs, 7) \<and>
     BuildPlan h rs (Some st) \<lparr>AllowDeletes = False\<rparr> = Some (Inr p) \<and>
     map (\<lambda>s. (Key (StepRef s), StepOp s)) (Steps p) = [(''asset/i.png'', OpUpdate), (''badge/b'', OpNoop)]"
  by (simp add: BuildResources_def exConfig_def exEnv_def environmentResources_def sortedKeys_def experienceResources_def
      iconDeps_def iconAsset_def ToSlash_def assetTypeForFile_def Ext_def ToLower_def lowerByte_def iconResources_def
      thumbnailResources_def productResources_def linkResources_def BuildPlan_def topoSort_def kahn.simps res_def Ref_def Key_def
      kind_defs planOp_def tally_def emptyPlan_def Let_def)

end
