(* ===== verification/Rojo_Translate.thy ===== *)
theory Rojo_Translate
  imports Go_Path
begin

text \<open>
  The mapping between source and output paths of \<open>src/internal/rojo/pathtranslator.go\<close>.
  \<open>None\<close> is a panic: popping from an empty stack of extensions.
\<close>

section \<open>Path information\<close>

definition tsExt :: string where "tsExt = ''.ts''"
definition tsxExt :: string where "tsxExt = ''.tsx''"
definition dExt :: string where "dExt = ''.d''"
definition dtsExt :: string where "dtsExt = dExt @ tsExt"
definition transformedExt :: string where "transformedExt = ''.transformed''"
definition buildInfoExt :: string where "buildInfoExt = ''.tsbuildinfo''"
definition rbxtscInfix :: string where "rbxtscInfix = ''.rbxtsc''"
definition indexName :: string where "indexName = ''index''"
definition initName :: string where "initName = ''init''"
definition luaExt :: string where "luaExt = ''.lua''"
definition luauExt :: string where "luauExt = ''.luau''"

lemmas ext_defs = tsExt_def tsxExt_def dExt_def dtsExt_def transformedExt_def luaExt_def luauExt_def indexName_def initName_def

record pathInfo =
  dirName :: string
  fileName :: string
  exts :: "string list"

definition pathInfoFrom :: "string \<Rightarrow> pathInfo" where
  "pathInfoFrom filePath =
     (let dir = Dir filePath; start = length dir + 1;
        rest = (if start < length filePath then drop start filePath else []);
        parts = Split rest (CHR ''.'')
      in \<lparr>dirName = dir, fileName = hd parts, exts = map (\<lambda>v. CHR ''.'' # v) (tl parts)\<rparr>)"

definition extsPeek :: "pathInfo \<Rightarrow> nat \<Rightarrow> string" where
  "extsPeek p depth = (if length (exts p) < depth + 1 then [] else exts p ! (length (exts p) - (depth + 1)))"

definition popExt :: "pathInfo \<Rightarrow> (string \<times> pathInfo) option" where
  "popExt p = (if exts p = [] then None else Some (last (exts p), p\<lparr>exts := butlast (exts p)\<rparr>))"

definition pushExt :: "pathInfo \<Rightarrow> string \<Rightarrow> pathInfo" where
  "pushExt p ext = p\<lparr>exts := exts p @ [ext]\<rparr>"

definition joinInfo :: "pathInfo \<Rightarrow> string" where
  "joinInfo p = PathJoin (dirName p) (fileName p @ Join (exts p) [])"

section \<open>The translator\<close>

record PathTranslator =
  RootDir :: string
  OutDir :: string
  BuildInfoOutputPath :: string
  Declaration :: bool
  UseLuauExtension :: bool

definition addRbxtscBuildInfoInfix :: "string \<Rightarrow> string" where
  "addRbxtscBuildInfoInfix filePath =
     (if \<not> HasSuffix filePath buildInfoExt then filePath
      else (let withoutExt = TrimSuffix filePath buildInfoExt in
        if HasSuffix withoutExt rbxtscInfix then filePath
        else withoutExt @ rbxtscInfix @ buildInfoExt))"

definition NewPathTranslator :: "string \<Rightarrow> string \<Rightarrow> string \<Rightarrow> bool \<Rightarrow> bool \<Rightarrow> PathTranslator" where
  "NewPathTranslator rootDir outDir buildInfoOutputPath declaration useLuauExtension =
     \<lparr>RootDir = rootDir, OutDir = outDir, BuildInfoOutputPath = addRbxtscBuildInfoInfix buildInfoOutputPath,
      Declaration = declaration, UseLuauExtension = useLuauExtension\<rparr>"

definition getLuauExt :: "PathTranslator \<Rightarrow> string" where
  "getLuauExt pt = (if UseLuauExtension pt then luauExt else luaExt)"

definition makeRelative :: "string \<Rightarrow> string \<Rightarrow> pathInfo \<Rightarrow> string" where
  "makeRelative from to p = (let joined = joinInfo p in PathJoin to (case Rel from joined of None \<Rightarrow> joined | Some rel \<Rightarrow> rel))"

definition isTs :: "pathInfo \<Rightarrow> bool" where
  "isTs p \<longleftrightarrow> extsPeek p 0 = tsExt \<or> extsPeek p 0 = tsxExt"

definition indexToInit :: "pathInfo \<Rightarrow> pathInfo" where
  "indexToInit p = (if fileName p = indexName then p\<lparr>fileName := initName\<rparr> else p)"

definition GetOutputPath :: "PathTranslator \<Rightarrow> string \<Rightarrow> string option" where
  "GetOutputPath pt filePath = do {
     let p = pathInfoFrom filePath;
     p \<leftarrow> (if isTs p \<and> extsPeek p 1 \<noteq> dExt then do {
             (_, p) \<leftarrow> popExt p;
             Some (pushExt (indexToInit p) (getLuauExt pt))
           } else Some p);
     Some (makeRelative (RootDir pt) (OutDir pt) p)
   }"

definition GetOutputDeclarationPath :: "PathTranslator \<Rightarrow> string \<Rightarrow> string option" where
  "GetOutputDeclarationPath pt filePath = do {
     let p = pathInfoFrom filePath;
     p \<leftarrow> (if isTs p \<and> extsPeek p 1 \<noteq> dExt then do {
             (_, p) \<leftarrow> popExt p;
             Some (pushExt p dtsExt)
           } else Some p);
     Some (makeRelative (RootDir pt) (OutDir pt) p)
   }"

text \<open>The position at which \<open>.transformed\<close> is inserted is clamped at zero: subtraction on natural
  numbers.\<close>

definition GetOutputTransformedPath :: "PathTranslator \<Rightarrow> string \<Rightarrow> string" where
  "GetOutputTransformedPath pt filePath =
     (let p = pathInfoFrom filePath;
        at = (if extsPeek p 1 = dExt then length (exts p) - 2 else length (exts p) - 1);
        p = p\<lparr>exts := take at (exts p) @ transformedExt # drop at (exts p)\<rparr>
      in makeRelative (RootDir pt) (OutDir pt) p)"

text \<open>The pairs of pushes and pops in \<open>GetInputPaths\<close>: the two source candidates of a stem.\<close>

definition tsCandidates :: "PathTranslator \<Rightarrow> pathInfo \<Rightarrow> string list" where
  "tsCandidates pt p = [makeRelative (OutDir pt) (RootDir pt) (pushExt p tsExt),
     makeRelative (OutDir pt) (RootDir pt) (pushExt p tsxExt)]"

definition GetInputPaths :: "PathTranslator \<Rightarrow> string \<Rightarrow> string list option" where
  "GetInputPaths pt filePath = do {
     let p = pathInfoFrom filePath;
     (possible, p) \<leftarrow> (if extsPeek p 0 = getLuauExt pt \<and> fileName p \<noteq> indexName then do {
         (_, q) \<leftarrow> popExt p;
         Some (tsCandidates pt q @ (if fileName q = initName then tsCandidates pt (q\<lparr>fileName := indexName\<rparr>) else []),
           pushExt q (getLuauExt pt))
       } else Some ([], p));
     (possible, p) \<leftarrow> (if Declaration pt \<and> isTs p \<and> extsPeek p 1 = dExt then do {
         (tsLikeExt, q) \<leftarrow> popExt p;
         (_, q) \<leftarrow> popExt q;
         Some (possible @ tsCandidates pt q, pushExt (pushExt q dExt) tsLikeExt)
       } else Some (possible, p));
     Some (possible @ [makeRelative (OutDir pt) (RootDir pt) p])
   }"

definition GetImportPath :: "PathTranslator \<Rightarrow> string \<Rightarrow> bool \<Rightarrow> string option" where
  "GetImportPath pt filePath isNodeModule = do {
     let p = pathInfoFrom filePath;
     p \<leftarrow> (if isTs p then do {
         (_, p) \<leftarrow> popExt p;
         p \<leftarrow> (if extsPeek p 0 = dExt then do { (_, q) \<leftarrow> popExt p; Some q } else Some p);
         Some (pushExt (indexToInit p) (getLuauExt pt))
       } else Some p);
     Some (if isNodeModule then joinInfo p else makeRelative (RootDir pt) (OutDir pt) p)
   }"

section \<open>Files below a rooted directory\<close>

text \<open>A file name is a stem and its extensions, none of which holds a dot.\<close>

definition parts_ok :: "string \<Rightarrow> string list \<Rightarrow> bool" where
  "parts_ok f es \<longleftrightarrow> list_all (\<lambda>e. CHR ''.'' \<notin> set e) (f # es)"

definition dotted :: "string list \<Rightarrow> string list" where
  "dotted es = map (\<lambda>v. CHR ''.'' # v) es"

lemma Join_empty: "Join xs [] = concat xs"
  by (induction xs "[] :: string" rule: Join.induct) simp_all

lemma Join_dotted: "Join (f # es) ''.'' = f @ concat (dotted es)"
  by (induction es arbitrary: f) (simp_all add: dotted_def)

lemma dotted_snoc: "dotted (es @ [e]) = dotted es @ [CHR ''.'' # e]"
  by (simp add: dotted_def)

lemma name_parts: "\<exists>f es. n = f @ concat (dotted es) \<and> parts_ok f es"
proof -
  obtain f es where s: "Split n (CHR ''.'') = f # es" using Split_not_Nil by (metis list.exhaust)
  have "n = f @ concat (dotted es)" using Join_Split [of n "CHR ''.''"] by (simp add: s Join_dotted)
  moreover have "parts_ok f es" using Split_no_sep [of _ n "CHR ''.''"] by (auto simp: parts_ok_def list_all_iff s)
  ultimately show ?thesis by blast
qed

lemma Split_parts: "parts_ok f es \<Longrightarrow> Split (f @ concat (dotted es)) (CHR ''.'') = f # es"
  using Split_Join [of "f # es" "CHR ''.''"] by (simp add: Join_dotted parts_ok_def list_all_iff)

lemma pathInfoFrom_rooted:
  assumes "list_all isName ds" "ds \<noteq> []" "isName (f @ concat (dotted es))" "parts_ok f es"
  shows "pathInfoFrom (rooted (ds @ [f @ concat (dotted es)])) = \<lparr>dirName = rooted ds, fileName = f, exts = dotted es\<rparr>"
proof -
  let ?n = "f @ concat (dotted es)"
  have "rooted (ds @ [?n]) = (rooted ds @ ''/'') @ ?n" using assms(2) by (simp add: rooted_snoc)
  moreover have "?n \<noteq> []" using assms(3) unfolding isName_def by blast
  ultimately show ?thesis
    using Dir_rooted [OF assms(1,3)] Split_parts [OF assms(4)]
    by (simp add: pathInfoFrom_def Let_def dotted_def del: append_is_Nil_conv)
qed

lemma makeRelative_rooted:
  assumes "list_all isName from" "list_all isName to" "list_all isName ds" "isName (f @ concat es)"
  shows "makeRelative (rooted from) (rooted to) \<lparr>dirName = rooted (from @ ds), fileName = f, exts = es\<rparr> = rooted (to @ ds @ [f @ concat es])"
proof -
  have "joinInfo \<lparr>dirName = rooted (from @ ds), fileName = f, exts = es\<rparr> = rooted (from @ ds @ [f @ concat es])"
    using PathJoin_name [of "from @ ds" "f @ concat es"] assms by (simp add: joinInfo_def Join_empty)
  then show ?thesis using PathJoin_Rel_below [of "from" "ds @ [f @ concat es]" to] assms by (auto simp: makeRelative_def)
qed

lemma extsPeek_simps [simp]:
  "extsPeek \<lparr>dirName = d, fileName = f, exts = []\<rparr> k = []"
  "extsPeek \<lparr>dirName = d, fileName = f, exts = es @ [e]\<rparr> 0 = e"
  "extsPeek \<lparr>dirName = d, fileName = f, exts = es @ [e1, e]\<rparr> 0 = e"
  "extsPeek \<lparr>dirName = d, fileName = f, exts = es @ [e1, e]\<rparr> (Suc 0) = e1"
  "extsPeek \<lparr>dirName = d, fileName = f, exts = [e]\<rparr> 0 = e"
  "extsPeek \<lparr>dirName = d, fileName = f, exts = [e]\<rparr> (Suc k) = []"
  by (simp_all add: extsPeek_def nth_append)


section \<open>What the translations do to a file name\<close>

definition lext :: "PathTranslator \<Rightarrow> string" where
  "lext pt = (if UseLuauExtension pt then ''luau'' else ''lua'')"

definition endsD :: "string list \<Rightarrow> bool" where
  "endsD es \<longleftrightarrow> (\<exists>es'. es = es' @ [''d''])"

definition renameIndex :: "string \<Rightarrow> string" where
  "renameIndex f = (if f = ''index'' then ''init'' else f)"

definition dottedName :: "string \<Rightarrow> string list \<Rightarrow> string" where
  "dottedName f es = f @ concat (dotted es)"

lemma dottedName_snoc: "dottedName f (es @ [e]) = dottedName f es @ CHR ''.'' # e"
  by (simp add: dottedName_def dotted_snoc)

lemma isName_ext: "CHR ''/'' \<notin> set (dottedName f es) \<Longrightarrow> CHR ''/'' \<notin> set e \<Longrightarrow> 2 \<le> length e \<Longrightarrow> isName (dottedName f (es @ [e]))"
  by (cases "dottedName f es"; cases e) (auto simp: isName_def dottedName_snoc Cons_eq_append_conv append_eq_Cons_conv)

text \<open>The layout of a project: rooted directories, and a file that does not lie directly below \<open>/\<close>.\<close>

definition layout :: "PathTranslator \<Rightarrow> string list \<Rightarrow> string list \<Rightarrow> string list \<Rightarrow> bool" where
  "layout pt root out ds \<longleftrightarrow> RootDir pt = rooted root \<and> OutDir pt = rooted out \<and>
     list_all isName root \<and> list_all isName out \<and> list_all isName ds \<and> root @ ds \<noteq> [] \<and> out @ ds \<noteq> []"

lemma info:
  assumes "layout pt root out ds" "isName (dottedName f es)" "parts_ok f es"
  shows "pathInfoFrom (rooted (root @ ds @ [dottedName f es])) = \<lparr>dirName = rooted (root @ ds), fileName = f, exts = dotted es\<rparr>"
    "pathInfoFrom (rooted (out @ ds @ [dottedName f es])) = \<lparr>dirName = rooted (out @ ds), fileName = f, exts = dotted es\<rparr>"
  using pathInfoFrom_rooted [of "root @ ds" f es] pathInfoFrom_rooted [of "out @ ds" f es] assms
  by (simp_all add: layout_def dottedName_def)

lemma rebase:
  assumes "layout pt root out ds" "isName (dottedName f es)"
  shows "makeRelative (RootDir pt) (OutDir pt) \<lparr>dirName = rooted (root @ ds), fileName = f, exts = dotted es\<rparr> = rooted (out @ ds @ [dottedName f es])"
    "makeRelative (OutDir pt) (RootDir pt) \<lparr>dirName = rooted (out @ ds), fileName = f, exts = dotted es\<rparr> = rooted (root @ ds @ [dottedName f es])"
  using makeRelative_rooted [of root out ds f "dotted es"] makeRelative_rooted [of out root ds f "dotted es"] assms
  by (simp_all add: layout_def dottedName_def)

lemma isName_slash_free: "isName n \<Longrightarrow> CHR ''/'' \<notin> set n"
  by (simp add: isName_def)

lemma slash_free_parts:
  assumes "isName (dottedName f es)"
  shows "CHR ''/'' \<notin> set (dottedName (renameIndex f) (butlast es))" "CHR ''/'' \<notin> set (dottedName f (butlast es))"
  using isName_slash_free [OF assms] by (cases es rule: rev_cases; auto simp: dottedName_def renameIndex_def dotted_def)+

lemma parts_ok_ext: "parts_ok f (es @ es') \<Longrightarrow> list_all (\<lambda>e. CHR ''.'' \<notin> set e) es2 \<Longrightarrow> parts_ok (renameIndex f) (es @ es2) \<and> parts_ok f (es @ es2)"
  by (auto simp: parts_ok_def renameIndex_def)

definition source :: "string list \<Rightarrow> bool" where
  "source es \<longleftrightarrow> es \<noteq> [] \<and> last es \<in> {''ts'', ''tsx''} \<and> \<not> endsD (butlast es)"

text \<open>The operations on dotted extensions.\<close>

lemma peek_dotted:
  "extsPeek \<lparr>dirName = d, fileName = f, exts = dotted es\<rparr> 0 = CHR ''.'' # x \<longleftrightarrow> es \<noteq> [] \<and> last es = x"
  "extsPeek \<lparr>dirName = d, fileName = f, exts = dotted es\<rparr> (Suc 0) = dExt \<longleftrightarrow> endsD (butlast es)"
  "extsPeek \<lparr>dirName = d, fileName = f, exts = dotted es\<rparr> 0 = dExt \<longleftrightarrow> endsD es"
proof -
  show peek: "extsPeek \<lparr>dirName = d, fileName = f, exts = dotted es\<rparr> 0 = CHR ''.'' # x \<longleftrightarrow> es \<noteq> [] \<and> last es = x" for x
    by (cases es rule: rev_cases) (simp_all add: dotted_def)
  show "extsPeek \<lparr>dirName = d, fileName = f, exts = dotted es\<rparr> 0 = dExt \<longleftrightarrow> endsD es"
    unfolding dExt_def peek endsD_def by (cases es rule: rev_cases) auto
  show "extsPeek \<lparr>dirName = d, fileName = f, exts = dotted es\<rparr> (Suc 0) = dExt \<longleftrightarrow> endsD (butlast es)"
  proof (cases es rule: rev_cases)
    case (snoc es' e)
    then show ?thesis by (cases es' rule: rev_cases) (auto simp: endsD_def dExt_def dotted_def butlast_append)
  qed (simp add: dotted_def endsD_def dExt_def)
qed

lemma isTs_dotted: "isTs \<lparr>dirName = d, fileName = f, exts = dotted es\<rparr> \<longleftrightarrow> es \<noteq> [] \<and> last es \<in> {''ts'', ''tsx''}"
  by (auto simp: isTs_def tsExt_def tsxExt_def peek_dotted)

lemma popExt_dotted: "es \<noteq> [] \<Longrightarrow> popExt \<lparr>dirName = d, fileName = f, exts = dotted es\<rparr> =
  Some (CHR ''.'' # last es, \<lparr>dirName = d, fileName = f, exts = dotted (butlast es)\<rparr>)"
  by (simp add: popExt_def dotted_def last_map map_butlast)

lemma pushExt_dotted: "pushExt \<lparr>dirName = d, fileName = f, exts = dotted es\<rparr> (CHR ''.'' # e) =
  \<lparr>dirName = d, fileName = f, exts = dotted (es @ [e])\<rparr>"
  by (simp add: pushExt_def dotted_snoc)

lemma indexToInit_dotted: "indexToInit \<lparr>dirName = d, fileName = f, exts = e\<rparr> = \<lparr>dirName = d, fileName = renameIndex f, exts = e\<rparr>"
  by (simp add: indexToInit_def renameIndex_def indexName_def initName_def)

lemma getLuauExt_lext: "getLuauExt pt = CHR ''.'' # lext pt"
  by (simp add: getLuauExt_def lext_def ext_defs)

lemmas dotted_simps = peek_dotted isTs_dotted popExt_dotted pushExt_dotted indexToInit_dotted getLuauExt_lext

lemma lext_cases: "lext pt = ''luau'' \<or> lext pt = ''lua''"
  by (simp add: lext_def)

lemma lext_name: "isName (dottedName f es) \<Longrightarrow> isName (dottedName (renameIndex f) (butlast es @ [lext pt]))"
  using isName_ext [of "renameIndex f" "butlast es" "lext pt"] slash_free_parts [of f es] lext_cases [of pt] by auto

lemma GetOutputPath_rooted:
  assumes "layout pt root out ds" "isName (dottedName f es)" "parts_ok f es"
  shows "GetOutputPath pt (rooted (root @ ds @ [dottedName f es])) = Some (rooted (out @ ds @
    [if source es then dottedName (renameIndex f) (butlast es @ [lext pt]) else dottedName f es]))"
  using info(1) [OF assms] rebase(1) [OF assms(1,2)] rebase(1) [OF assms(1) lext_name [OF assms(2)], of pt]
  by (auto simp: GetOutputPath_def dotted_simps source_def)

lemma decl_name:
  assumes "isName (dottedName f es)"
  shows "isName (dottedName f (butlast es @ [''d'', ''ts'']))"
  using isName_ext [of f "butlast es @ [''d'']" "''ts''"] slash_free_parts(2) [OF assms] by (simp add: dottedName_def dotted_def)

lemma GetOutputDeclarationPath_rooted:
  assumes "layout pt root out ds" "isName (dottedName f es)" "parts_ok f es"
  shows "GetOutputDeclarationPath pt (rooted (root @ ds @ [dottedName f es])) = Some (rooted (out @ ds @
    [if source es then dottedName f (butlast es @ [''d'', ''ts'']) else dottedName f es]))"
proof -
  have n: "f @ concat (dotted (butlast es) @ [dtsExt]) = dottedName f (butlast es @ [''d'', ''ts''])"
    by (simp add: dottedName_def dotted_def ext_defs)
  have "makeRelative (RootDir pt) (OutDir pt) \<lparr>dirName = rooted (root @ ds), fileName = f, exts = dotted (butlast es) @ [dtsExt]\<rparr>
    = rooted (out @ ds @ [dottedName f (butlast es @ [''d'', ''ts''])])"
    using makeRelative_rooted [of root out ds f "dotted (butlast es) @ [dtsExt]", unfolded n] decl_name [OF assms(2)] assms(1)
    by (simp add: layout_def)
  then show ?thesis using info(1) [OF assms] rebase(1) [OF assms(1,2)]
    by (auto simp: GetOutputDeclarationPath_def dotted_simps source_def) (simp_all add: pushExt_def)
qed

definition tsNames :: "string \<Rightarrow> string list \<Rightarrow> string list" where
  "tsNames f es = [dottedName f (es @ [''ts'']), dottedName f (es @ [''tsx''])]"

lemma tsCandidates_dotted:
  assumes "layout pt root out ds" "CHR ''/'' \<notin> set (dottedName f es)"
  shows "tsCandidates pt \<lparr>dirName = rooted (out @ ds), fileName = f, exts = dotted es\<rparr> = map (\<lambda>n. rooted (root @ ds @ [n])) (tsNames f es)"
  using isName_ext [OF assms(2), of "''ts''"] isName_ext [OF assms(2), of "''tsx''"] rebase(2) [OF assms(1)]
  by (simp add: tsCandidates_def pushExt_dotted tsNames_def tsExt_def tsxExt_def)

definition inNames :: "PathTranslator \<Rightarrow> string \<Rightarrow> string list \<Rightarrow> string list" where
  "inNames pt f es =
     (if es \<noteq> [] \<and> last es = lext pt \<and> f \<noteq> ''index''
      then tsNames f (butlast es) @ (if f = ''init'' then tsNames ''index'' (butlast es) else []) else []) @
     (if Declaration pt \<and> es \<noteq> [] \<and> last es \<in> {''ts'', ''tsx''} \<and> endsD (butlast es) then tsNames f (butlast (butlast es)) else []) @
     [dottedName f es]"

lemma GetInputPaths_rooted:
  assumes "layout pt root out ds" "isName (dottedName f es)" "parts_ok f es"
  shows "GetInputPaths pt (rooted (out @ ds @ [dottedName f es])) = Some (map (\<lambda>n. rooted (root @ ds @ [n])) (inNames pt f es))"
proof -
  note cand = tsCandidates_dotted [OF assms(1)]
  have slash: "CHR ''/'' \<notin> set (dottedName f (butlast es))" "CHR ''/'' \<notin> set (dottedName f (butlast (butlast es)))"
    "CHR ''/'' \<notin> set (dottedName ''index'' (butlast es))"
    using isName_slash_free [OF assms(2)] by (auto simp: dottedName_def dotted_def dest!: in_set_butlastD split: if_splits)
  have last: "es \<noteq> [] \<Longrightarrow> dotted (butlast es @ [last es]) = dotted es" by simp
  have l: "lext pt \<noteq> ''ts'' \<and> lext pt \<noteq> ''tsx''" using lext_cases [of pt] by auto
  have d: "endsD (butlast es) \<Longrightarrow> butlast (butlast es) @ [''d''] = butlast es" by (auto simp: endsD_def)
  consider (luau) "es \<noteq> [] \<and> last es = lext pt \<and> f \<noteq> ''index''"
    | (decl) "Declaration pt \<and> es \<noteq> [] \<and> last es \<in> {''ts'', ''tsx''} \<and> endsD (butlast es)" "\<not> (es \<noteq> [] \<and> last es = lext pt \<and> f \<noteq> ''index'')"
    | (other) "\<not> (es \<noteq> [] \<and> last es = lext pt \<and> f \<noteq> ''index'')" "\<not> (Declaration pt \<and> es \<noteq> [] \<and> last es \<in> {''ts'', ''tsx''} \<and> endsD (butlast es))"
    by blast
  then show ?thesis
  proof cases
    case luau
    then have "dotted (butlast es @ [lext pt]) = dotted es" using last by metis
    then show ?thesis using luau l info(2) [OF assms] rebase(2) [OF assms(1,2)] cand [OF slash(1)] cand [OF slash(3)]
      by (simp add: GetInputPaths_def dotted_simps inNames_def indexName_def initName_def)
  next
    case decl
    have "butlast es \<noteq> []" using decl(1) by (auto simp: endsD_def)
    moreover have "dotted ((butlast (butlast es) @ [''d'']) @ [last es]) = dotted es" using decl(1) d last by metis
    moreover have "last es \<noteq> lext pt" using decl(1) l by auto
    ultimately show ?thesis using decl(1) info(2) [OF assms] rebase(2) [OF assms(1,2)] cand [OF slash(2)]
      by (simp add: GetInputPaths_def dotted_simps pushExt_dotted [of _ _ _ "''d''", folded dExt_def] inNames_def indexName_def initName_def)
  next
    case other
    let ?p = "\<lparr>dirName = rooted (out @ ds), fileName = f, exts = dotted es\<rparr>"
    have p: "(extsPeek ?p 0 = getLuauExt pt \<and> fileName ?p \<noteq> indexName) = False" "(Declaration pt \<and> isTs ?p \<and> extsPeek ?p 1 = dExt) = False"
      using other by (simp_all add: dotted_simps indexName_def)
    have "inNames pt f es = [dottedName f es]" unfolding inNames_def if_not_P [OF other(1)] if_not_P [OF other(2)] by simp
    then show ?thesis unfolding GetInputPaths_def Let_def info(2) [OF assms] p using rebase(2) [OF assms(1,2)] p(2) by auto
  qed
qed


text \<open>The import path of a module: a declaration stands for the source it declares.\<close>

definition importName :: "PathTranslator \<Rightarrow> string \<Rightarrow> string list \<Rightarrow> string" where
  "importName pt f es = (if es \<noteq> [] \<and> last es \<in> {''ts'', ''tsx''}
     then dottedName (renameIndex f) ((if endsD (butlast es) then butlast (butlast es) else butlast es) @ [lext pt]) else dottedName f es)"

lemma butlast_name: "isName (dottedName f es) \<Longrightarrow> isName (dottedName (renameIndex f) (butlast (butlast es) @ [lext pt]))"
proof -
  assume "isName (dottedName f es)"
  then have "CHR ''/'' \<notin> set (dottedName (renameIndex f) (butlast (butlast es)))"
    by (auto simp: isName_def dottedName_def dotted_def renameIndex_def dest!: in_set_butlastD split: if_splits)
  then show ?thesis using isName_ext [of "renameIndex f" "butlast (butlast es)" "lext pt"] lext_cases [of pt] by auto
qed

lemma GetImportPath_rooted:
  assumes "layout pt root out ds" "isName (dottedName f es)" "parts_ok f es"
  shows "GetImportPath pt (rooted (root @ ds @ [dottedName f es])) False = Some (rooted (out @ ds @ [importName pt f es]))"
proof -
  have "endsD (butlast es) \<Longrightarrow> butlast es \<noteq> []" by (auto simp: endsD_def)
  then show ?thesis
    using info(1) [OF assms] rebase(1) [OF assms(1,2)] rebase(1) [OF assms(1) lext_name [OF assms(2)], of pt]
      rebase(1) [OF assms(1) butlast_name [OF assms(2)], of pt]
    by (auto simp: GetImportPath_def dotted_simps importName_def)
qed

section \<open>Properties\<close>

lemma source_in_inputs:
  assumes "source es"
  shows "dottedName f es \<in> set (inNames pt (renameIndex f) (butlast es @ [lext pt]))"
proof -
  have "butlast es @ [last es] = es" "last es = ''ts'' \<or> last es = ''tsx''" using assms by (auto simp: source_def)
  then have "es = butlast es @ [''ts''] \<or> es = butlast es @ [''tsx'']" by metis
  then have "dottedName f es \<in> set (tsNames f (butlast es))" by (metis list.set_intros tsNames_def)
  then show ?thesis by (auto simp: inNames_def renameIndex_def)
qed

lemma decl_in_inputs:
  assumes "source es" "Declaration pt"
  shows "dottedName f es \<in> set (inNames pt f (butlast es @ [''d'', ''ts'']))"
proof -
  have "butlast es @ [last es] = es" "last es = ''ts'' \<or> last es = ''tsx''" using assms by (auto simp: source_def)
  then have "es = butlast es @ [''ts''] \<or> es = butlast es @ [''tsx'']" by metis
  then have "dottedName f es \<in> set (tsNames f (butlast es))" by (metis list.set_intros tsNames_def)
  then show ?thesis using assms(2) by (auto simp: inNames_def butlast_append endsD_def)
qed

lemma name_in_inputs: "dottedName f es \<in> set (inNames pt f es)"
  by (simp add: inNames_def)

lemma parts_ok_lext: "parts_ok f es \<Longrightarrow> parts_ok (renameIndex f) (butlast es @ [lext pt])"
  using lext_cases [of pt] by (auto simp: parts_ok_def renameIndex_def list_all_iff dest: in_set_butlastD)

lemma parts_ok_decl: "parts_ok f es \<Longrightarrow> parts_ok f (butlast es @ [''d'', ''ts''])"
  by (auto simp: parts_ok_def list_all_iff dest: in_set_butlastD)

text \<open>The possible sources of an output path include the file that it is the output of, whatever the
  file's name, also for the output of its declaration.\<close>

theorem GetInputPaths_finds_source:
  assumes "layout pt root out ds" "isName n" "f = rooted (root @ ds @ [n])"
  shows "\<exists>outPath ps declPath ds. GetOutputPath pt f = Some outPath \<and> GetInputPaths pt outPath = Some ps \<and> f \<in> set ps \<and>
    GetOutputDeclarationPath pt f = Some declPath \<and> GetInputPaths pt declPath = Some ds \<and> (Declaration pt \<longrightarrow> f \<in> set ds)"
proof -
  obtain g es where "n = g @ concat (dotted es)" "parts_ok g es" using name_parts by blast
  then have n: "n = dottedName g es" "parts_ok g es" by (simp_all add: dottedName_def)
  let ?o = "if source es then (renameIndex g, butlast es @ [lext pt]) else (g, es)"
  let ?d = "if source es then (g, butlast es @ [''d'', ''ts'']) else (g, es)"
  have ok: "isName (dottedName (fst ?o) (snd ?o))" "parts_ok (fst ?o) (snd ?o)" "isName (dottedName (fst ?d) (snd ?d))" "parts_ok (fst ?d) (snd ?d)"
    using assms(2) n lext_name [of g es pt] decl_name [of g es] parts_ok_lext [of g es pt] parts_ok_decl [of g es] by auto
  have "GetOutputPath pt f = Some (rooted (out @ ds @ [dottedName (fst ?o) (snd ?o)]))"
    using GetOutputPath_rooted [OF assms(1), of g es] assms n by auto
  moreover have "GetOutputDeclarationPath pt f = Some (rooted (out @ ds @ [dottedName (fst ?d) (snd ?d)]))"
    using GetOutputDeclarationPath_rooted [OF assms(1), of g es] assms n by auto
  moreover have "dottedName g es \<in> set (inNames pt (fst ?o) (snd ?o))" using source_in_inputs name_in_inputs by simp
  moreover have "Declaration pt \<longrightarrow> dottedName g es \<in> set (inNames pt (fst ?d) (snd ?d))" using decl_in_inputs name_in_inputs by simp
  moreover note GetInputPaths_rooted [OF assms(1) ok(1,2)] GetInputPaths_rooted [OF assms(1) ok(3,4)]
  ultimately show ?thesis using assms(3) n by auto
qed

theorem GetInputPaths_finds_source_witness:
  "\<exists>outPath ps. GetOutputPath (NewPathTranslator ''/p/src'' ''/p/out'' [] True True) ''/p/src/ui/index.spec.tsx'' = Some outPath \<and>
    GetInputPaths (NewPathTranslator ''/p/src'' ''/p/out'' [] True True) outPath = Some ps \<and> ''/p/src/ui/index.spec.tsx'' \<in> set ps"
proof -
  have "layout (NewPathTranslator ''/p/src'' ''/p/out'' [] True True) [''p'', ''src''] [''p'', ''out''] [''ui'']"
    by (simp add: layout_def NewPathTranslator_def rooted_def isName_def)
  moreover have "isName ''index.spec.tsx''" by (simp add: isName_def)
  moreover have "''/p/src/ui/index.spec.tsx'' = rooted ([''p'', ''src''] @ [''ui''] @ [''index.spec.tsx''])" by (simp add: rooted_def)
  ultimately show ?thesis using GetInputPaths_finds_source by blast
qed

text \<open>The path under which a source is imported is the path of its output; importing a declaration
  file means the output of the source with that name.\<close>

theorem GetImportPath_is_output:
  assumes "layout pt root out ds" "isName (n @ ''.ts'')" "ext \<in> {''.ts'', ''.tsx''}" "\<not> HasSuffix n ''.d''"
  shows "GetImportPath pt (rooted (root @ ds @ [n @ ext])) False = GetOutputPath pt (rooted (root @ ds @ [n @ ext])) \<and>
    GetImportPath pt (rooted (root @ ds @ [n @ ''.d'' @ ext])) False = GetOutputPath pt (rooted (root @ ds @ [n @ ext]))"
proof -
  obtain g es where "n = g @ concat (dotted es)" "parts_ok g es" using name_parts by blast
  then have n: "n = dottedName g es" "parts_ok g es" by (simp_all add: dottedName_def)
  obtain e where e: "ext = CHR ''.'' # e" "e \<in> {''ts'', ''tsx''}" using assms(3) by auto
  have d: "\<not> endsD es"
  proof
    assume "endsD es"
    then show False using assms(4) n(1) by (auto simp: endsD_def dottedName_snoc HasSuffix_iff)
  qed
  have s: "CHR ''/'' \<notin> set n" using assms(2) by (simp add: isName_def)
  have nm: "n @ ext = dottedName g (es @ [e])" "n @ ''.d'' @ ext = dottedName g (es @ [''d'', e])"
    using n(1) e(1) by (simp_all add: dottedName_def dotted_def)
  have ok: "isName (dottedName g (es @ [e]))" "parts_ok g (es @ [e])"
    using isName_ext [of g es e] s n e(2) by (auto simp: parts_ok_def)
  have "isName (dottedName g ((es @ [''d'']) @ [e]))" by (rule isName_ext) (use s n e(2) in \<open>auto simp: dottedName_def dotted_def\<close>)
  then have okd: "isName (dottedName g (es @ [''d'', e]))" "parts_ok g (es @ [''d'', e])" using n(2) e(2) by (auto simp: parts_ok_def)
  have o: "GetOutputPath pt (rooted (root @ ds @ [n @ ext])) = Some (rooted (out @ ds @ [dottedName (renameIndex g) (es @ [lext pt])]))"
    using GetOutputPath_rooted [OF assms(1) ok] nm d e(2) by (simp add: source_def)
  have "GetImportPath pt (rooted (root @ ds @ [n @ ext])) False = GetOutputPath pt (rooted (root @ ds @ [n @ ext]))"
    unfolding o unfolding nm(1) using GetImportPath_rooted [OF assms(1) ok] d e(2) by (simp add: importName_def)
  moreover have "endsD (es @ [''d''])" by (simp add: endsD_def)
  then have "GetImportPath pt (rooted (root @ ds @ [n @ ''.d'' @ ext])) False = GetOutputPath pt (rooted (root @ ds @ [n @ ext]))"
    unfolding o unfolding nm(2) using GetImportPath_rooted [OF assms(1) okd] e(2) by (simp add: importName_def butlast_append)
  ultimately show ?thesis ..
qed

theorem GetImportPath_is_output_witness:
  "GetImportPath (NewPathTranslator ''/p/src'' ''/p/out'' [] False True) ''/p/src/a/index.d.ts'' False =
   GetOutputPath (NewPathTranslator ''/p/src'' ''/p/out'' [] False True) ''/p/src/a/index.ts''"
proof -
  have "layout (NewPathTranslator ''/p/src'' ''/p/out'' [] False True) [''p'', ''src''] [''p'', ''out''] [''a'']"
    by (simp add: layout_def NewPathTranslator_def rooted_def isName_def)
  from GetImportPath_is_output [OF this, of "''index''" "''.ts''"] show ?thesis
    by (simp add: isName_def HasSuffix_def rooted_def)
qed

end
