(* ===== verification/Go_Strconv.thy ===== *)
theory Go_Strconv
  imports Prelude
begin

text \<open>
  Decimal numbers of the Go package \<open>strconv\<close>.
\<close>

text \<open>\<open>strconv.ParseUint(key, 10, 64)\<close> and \<open>strconv.FormatUint(n, 10)\<close>.\<close>

definition digit :: "char \<Rightarrow> bool" where
  "digit c \<longleftrightarrow> CHR ''0'' \<le> c \<and> c \<le> CHR ''9''"

definition digitVal :: "char \<Rightarrow> nat" where
  "digitVal c = of_char c - 48"

definition decimalVal :: "string \<Rightarrow> nat" where
  "decimalVal s = foldl (\<lambda>n c. 10 * n + digitVal c) 0 s"

definition ParseUint :: "string \<Rightarrow> nat option" where
  "ParseUint s = (if s = [] \<or> \<not> list_all digit s \<or> decimalVal s \<ge> 2 ^ 64 then None else Some (decimalVal s))"

fun FormatUint :: "nat \<Rightarrow> string" where
  "FormatUint n = (if n < 10 then [char_of (48 + n)] else FormatUint (n div 10) @ [char_of (48 + n mod 10)])"

declare FormatUint.simps [simp del]

lemma decimalVal_snoc: "decimalVal (s @ [c]) = 10 * decimalVal s + digitVal c"
  by (simp add: decimalVal_def)

lemma digit_char: "d < 10 \<Longrightarrow> digit (char_of (48 + d)) \<and> digitVal (char_of (48 + d)) = d"
  by (simp add: digit_def digitVal_def less_eq_char_def)

lemma FormatUint_value: "FormatUint n \<noteq> [] \<and> list_all digit (FormatUint n) \<and> decimalVal (FormatUint n) = n"
proof (induction n rule: FormatUint.induct)
  case (1 n)
  show ?case
  proof (cases "n < 10")
    case True
    then show ?thesis using digit_char [of n] by (simp add: FormatUint.simps [of n] decimalVal_def)
  next
    case False
    then show ?thesis using 1 digit_char [of "n mod 10"]
      by (subst (1 2 3) FormatUint.simps) (simp add: decimalVal_snoc)
  qed
qed

lemma ParseUint_FormatUint: "n < 2 ^ 64 \<Longrightarrow> ParseUint (FormatUint n) = Some n"
  using FormatUint_value [of n] by (simp add: ParseUint_def)

text \<open>\<open>strconv.FormatInt(n, 10)\<close>, the verb \<open>%d\<close>.\<close>

definition FormatInt :: "int \<Rightarrow> string" where
  "FormatInt n = (if n < 0 then CHR ''-'' # FormatUint (nat (- n)) else FormatUint (nat n))"

end
