(* ===== verification/Rojo_Config.thy ===== *)
theory Rojo_Config
  imports Go_Path Go_Strconv "HOL-Library.Multiset" "HOL-Library.Monad_Syntax"
begin

text \<open>
  Rojo project files: the order-preserving JSON reader, the validator and the project tree of
  \<open>src/internal/rojo/config.go\<close>.

  The reader works on the tokens of \<open>json.Decoder\<close>. A decoder is the list of the tokens that are
  left; \<open>TError\<close> is a syntax error, at which the decoder stays. Of a number the code asks whether the
  conversion to a float succeeds and whether the float equals its truncation.
\<close>

section \<open>Values and trees\<close>

datatype jsonValue = JInvalid | JNull | JBool | JNumber bool | JString string
  | JArray "jsonValue list" | JObject "(string \<times> jsonValue) list"

datatype tree = Tree (ClassName: string) (Path: "string option") (Children: "(string \<times> tree) list")

text \<open>The fields \<open>str\<close> and \<open>members\<close> of the Go struct are zero for the other kinds.\<close>

fun str :: "jsonValue \<Rightarrow> string" where
  "str (JString s) = s"
| "str _ = []"

fun members :: "jsonValue \<Rightarrow> (string \<times> jsonValue) list" where
  "members (JObject ms) = ms"
| "members _ = []"

fun isObject :: "jsonValue \<Rightarrow> bool" where
  "isObject (JObject _) = True"
| "isObject _ = False"

fun isString :: "jsonValue \<Rightarrow> bool" where
  "isString (JString _) = True"
| "isString _ = False"

definition member :: "jsonValue \<Rightarrow> string \<Rightarrow> jsonValue option" where
  "member v key = map_of (members v) key"

section \<open>Key order\<close>

definition isArrayIndexKey :: "string \<Rightarrow> bool" where
  "isArrayIndexKey key = (case ParseUint key of None \<Rightarrow> False | Some n \<Rightarrow> n \<le> 4294967294 \<and> FormatUint n = key)"

text \<open>The value that a failed \<open>ParseUint\<close> leaves in the sort is zero, or the largest number on overflow;
  the sort only sees index keys.\<close>

definition indexOf :: "string \<times> jsonValue \<Rightarrow> nat" where
  "indexOf m = (case ParseUint (fst m) of None \<Rightarrow> 0 | Some n \<Rightarrow> n)"

text \<open>The insertion sort: \<open>sink\<close> is the inner loop.\<close>

fun sink :: "('a \<Rightarrow> nat) \<Rightarrow> 'a list \<Rightarrow> nat \<Rightarrow> 'a list" where
  "sink key xs 0 = xs"
| "sink key xs (Suc j) =
     (if key (xs ! j) \<le> key (xs ! Suc j) then xs
      else sink key (xs[j := xs ! Suc j, Suc j := xs ! j]) j)"

definition insertionSort :: "('a \<Rightarrow> nat) \<Rightarrow> 'a list \<Rightarrow> 'a list" where
  "insertionSort key xs = foldl (sink key) xs [1..<length xs]"

definition orderLikeJS :: "(string \<times> jsonValue) list \<Rightarrow> (string \<times> jsonValue) list" where
  "orderLikeJS ms =
     (let indexKeys = filter (\<lambda>m. isArrayIndexKey (fst m)) ms; stringKeys = filter (\<lambda>m. \<not> isArrayIndexKey (fst m)) ms in
      if indexKeys = [] then ms else insertionSort indexOf indexKeys @ stringKeys)"

section \<open>The reader\<close>

datatype jsonToken = TBegin | TEnd | TOpen | TClose | TString string | TNumber "bool option" | TBool | TNull | TError

text \<open>\<open>dec.More\<close>: the next token exists and closes nothing. \<open>TBegin\<close>/\<open>TEnd\<close> are braces,
  \<open>TOpen\<close>/\<open>TClose\<close> brackets.\<close>

definition More :: "jsonToken list \<Rightarrow> bool" where
  "More ts \<longleftrightarrow> ts \<noteq> [] \<and> hd ts \<noteq> TEnd \<and> hd ts \<noteq> TClose"

text \<open>A repeated key keeps its position and takes the later value.\<close>

fun setMember :: "string \<Rightarrow> jsonValue \<Rightarrow> (string \<times> jsonValue) list \<Rightarrow> (string \<times> jsonValue) list" where
  "setMember k v [] = [(k, v)]"
| "setMember k v (m # ms) = (if fst m = k then (k, v) # ms else m # setMember k v ms)"

text \<open>The results: the value and the tokens left, or \<open>Inl\<close> for an error. The decoder only produces
  strings as keys; the type assertion on them is an error here. The recursion has fuel; \<open>None\<close> means
  that it ran out, which \<open>parseJSON_returns\<close> excludes.\<close>

fun parseJSONValue :: "nat \<Rightarrow> jsonToken list \<Rightarrow> (unit + jsonValue \<times> jsonToken list) option"
  and parseMembers :: "nat \<Rightarrow> jsonToken list \<Rightarrow> (string \<times> jsonValue) list \<Rightarrow> (unit + jsonValue \<times> jsonToken list) option"
  and parseElements :: "nat \<Rightarrow> jsonToken list \<Rightarrow> jsonValue list \<Rightarrow> (unit + jsonValue \<times> jsonToken list) option" where
  "parseJSONValue 0 ts = None"
| "parseJSONValue (Suc f) ts =
     (case ts of
        TBegin # r \<Rightarrow> parseMembers f r []
      | TOpen # r \<Rightarrow> parseElements f r []
      | TString s # r \<Rightarrow> Some (Inr (JString s, r))
      | TNumber (Some b) # r \<Rightarrow> Some (Inr (JNumber b, r))
      | TBool # r \<Rightarrow> Some (Inr (JBool, r))
      | TNull # r \<Rightarrow> Some (Inr (JNull, r))
      | _ \<Rightarrow> Some (Inl ()))"
| "parseMembers 0 ts ms = None"
| "parseMembers (Suc f) ts ms =
     (if More ts then
        (case ts of
           TString k # r \<Rightarrow> do {
             res \<leftarrow> parseJSONValue f r;
             (case res of Inl e \<Rightarrow> Some (Inl e) | Inr (v, r') \<Rightarrow> parseMembers f r' (setMember k v ms))
           }
         | _ \<Rightarrow> Some (Inl ()))
      else (case ts of TEnd # r \<Rightarrow> Some (Inr (JObject (orderLikeJS ms), r)) | _ \<Rightarrow> Some (Inl ())))"
| "parseElements 0 ts vs = None"
| "parseElements (Suc f) ts vs =
     (if More ts then do {
        res \<leftarrow> parseJSONValue f ts;
        (case res of Inl e \<Rightarrow> Some (Inl e) | Inr (v, r') \<Rightarrow> parseElements f r' (vs @ [v]))
      }
      else (case ts of TClose # r \<Rightarrow> Some (Inr (JArray vs, r)) | _ \<Rightarrow> Some (Inl ())))"

definition parseJSON :: "jsonToken list \<Rightarrow> jsonValue option" where
  "parseJSON ts = do {
     res \<leftarrow> parseJSONValue (2 * length ts + 1) ts;
     Some (case res of Inl _ \<Rightarrow> JInvalid | Inr (v, r) \<Rightarrow> if r = [] then v else JInvalid)
   }"

section \<open>Validation\<close>

definition isValidPathValue :: "jsonValue \<Rightarrow> bool" where
  "isValidPathValue v = (if isString v then True else if \<not> isObject v then False
     else (case member v ''optional'' of Some opt \<Rightarrow> isString opt | None \<Rightarrow> True))"

text \<open>The members with a fixed schema, and those that are trees.\<close>

definition memberError :: "string \<Rightarrow> string \<Rightarrow> jsonValue \<Rightarrow> string" where
  "memberError path k v =
     (if k = ''$className'' then (if \<not> isString v then path @ ''/$className must be string'' else [])
      else if k = ''$ignoreUnknownInstances'' then (if v \<noteq> JBool then path @ ''/$ignoreUnknownInstances must be boolean'' else [])
      else if k = ''$path'' then (if \<not> isValidPathValue v then path @ ''/$path must match a schema in anyOf'' else [])
      else if k = ''$properties'' then (if \<not> isObject v then path @ ''/$properties must be object'' else [])
      else [])"

definition isTreeKey :: "string \<Rightarrow> bool" where
  "isTreeKey k \<longleftrightarrow> k \<noteq> [] \<and> \<not> HasPrefix k ''$''"

fun validateTree :: "jsonValue \<Rightarrow> string \<Rightarrow> string"
  and validateMembers :: "(string \<times> jsonValue) list \<Rightarrow> string \<Rightarrow> string" where
  "validateTree (JObject ms) path = validateMembers ms path"
| "validateTree v path = path @ '' must be object''"
| "validateMembers [] path = []"
| "validateMembers ((k, v) # ms) path =
     (let msg = (if isTreeKey k then validateTree v (path @ CHR ''/'' # k) else memberError path k v)
      in if msg \<noteq> [] then msg else validateMembers ms path)"

fun isIntegral :: "jsonValue \<Rightarrow> bool" where
  "isIntegral (JNumber b) = b"
| "isIntegral _ = False"

fun validateTop :: "(string \<times> jsonValue) list \<Rightarrow> string" where
  "validateTop [] = []"
| "validateTop ((k, v) # ms) =
     (let msg =
        (if k = ''name'' then (if \<not> isString v then ''data/name must be string'' else [])
         else if k = ''servePort'' then (if \<not> isIntegral v then ''data/servePort must be integer'' else [])
         else if k = ''tree'' then validateTree v ''data/tree''
         else [])
      in if msg \<noteq> [] then msg else validateTop ms)"

definition validateConfig :: "jsonValue \<Rightarrow> string" where
  "validateConfig v =
     (if \<not> isObject v then ''data must be object''
      else if member v ''name'' = None then ''data must have required property '' @ [SQUOTE] @ ''name'' @ [SQUOTE]
      else if member v ''tree'' = None then ''data must have required property '' @ [SQUOTE] @ ''tree'' @ [SQUOTE]
      else validateTop (members v))"

section \<open>The tree\<close>

definition setField :: "string \<Rightarrow> jsonValue \<Rightarrow> tree \<Rightarrow> tree" where
  "setField k v t =
     (if k = ''$className'' then Tree (str v) (Path t) (Children t)
      else if k = ''$path'' then
        (if isString v then Tree (ClassName t) (Some (str v)) (Children t)
         else (case member v ''optional'' of
             Some opt \<Rightarrow> Tree (ClassName t) (Some (str opt)) (Children t)
           | None \<Rightarrow> t))
      else t)"

definition addChild :: "string \<Rightarrow> tree \<Rightarrow> tree \<Rightarrow> tree" where
  "addChild k c t = Tree (ClassName t) (Path t) (Children t @ [(k, c)])"

fun treeFromJSON :: "jsonValue \<Rightarrow> tree"
  and treeMembers :: "(string \<times> jsonValue) list \<Rightarrow> tree \<Rightarrow> tree" where
  "treeFromJSON (JObject ms) = treeMembers ms (Tree [] None [])"
| "treeFromJSON v = Tree [] None []"
| "treeMembers [] t = t"
| "treeMembers ((k, v) # ms) t =
     treeMembers ms (if \<not> HasPrefix k ''$'' then addChild k (treeFromJSON v) t else setField k v t)"

definition configFromJSON :: "jsonValue \<Rightarrow> string \<times> tree" where
  "configFromJSON v =
     ((case member v ''name'' of Some n \<Rightarrow> str n | None \<Rightarrow> []),
      treeFromJSON (case member v ''tree'' of Some t \<Rightarrow> t | None \<Rightarrow> JInvalid))"


section \<open>The order of the keys\<close>

text \<open>One round of the outer loop inserts an element into the sorted part before it.\<close>

fun insertBack :: "('a \<Rightarrow> nat) \<Rightarrow> 'a list \<Rightarrow> 'a \<Rightarrow> 'a list" where
  "insertBack key [] x = [x]"
| "insertBack key (y # rs) x = (if key y \<le> key x then x # y # rs else y # insertBack key rs x)"

definition insertRight :: "('a \<Rightarrow> nat) \<Rightarrow> 'a list \<Rightarrow> 'a \<Rightarrow> 'a list" where
  "insertRight key ps x = rev (insertBack key (rev ps) x)"

lemma insertRight_snoc [simp]:
  "insertRight key [] x = [x]"
  "insertRight key (ps @ [y]) x = (if key y \<le> key x then ps @ [y, x] else insertRight key ps x @ [y])"
  by (simp_all add: insertRight_def)

lemma sink_insert: "sink key (ps @ x # rest) (length ps) = insertRight key ps x @ rest"
proof (induction ps arbitrary: rest rule: rev_induct)
  case (snoc y ps)
  have "sink key (ps @ x # y # rest) (length ps) = insertRight key ps x @ y # rest" by (rule snoc)
  then show ?case by (simp add: nth_append list_update_append)
qed simp

lemma mset_insertRight [simp]: "mset (insertRight key ps x) = add_mset x (mset ps)"
  by (induction ps rule: rev_induct) auto

lemma set_insertRight [simp]: "set (insertRight key ps x) = insert x (set ps)"
  by (induction ps rule: rev_induct) auto

lemma sorted_insertRight: "sorted (map key ps) \<Longrightarrow> sorted (map key (insertRight key ps x))"
  by (induction ps rule: rev_induct) (auto simp: sorted_append)

lemma stable_insertRight: "sorted (map key ps) \<Longrightarrow> filter (\<lambda>y. k = key y) (insertRight key ps x) = filter (\<lambda>y. k = key y) (ps @ [x])"
  by (induction ps rule: rev_induct) (auto simp: sorted_append)

lemma sink_rounds:
  "i < length xs \<Longrightarrow> foldl (sink key) xs [1..<Suc i] = foldl (insertRight key) [] (take (Suc i) xs) @ drop (Suc i) xs"
proof (induction i)
  case 0
  then show ?case by (cases xs) simp_all
next
  case (Suc i)
  let ?p = "foldl (insertRight key) [] (take (Suc i) xs)"
  have len: "length (foldl (insertRight key) acc ys) = length acc + length ys" for acc ys
    by (induction ys arbitrary: acc) (simp_all add: mset_eq_length [OF trans [OF mset_insertRight mset.simps(2) [symmetric]]])
  have "foldl (sink key) xs [1..<Suc (Suc i)] = sink key (?p @ drop (Suc i) xs) (Suc i)" using Suc by simp
  also have "\<dots> = sink key (?p @ xs ! Suc i # drop (Suc (Suc i)) xs) (length ?p)"
    using Suc.prems by (simp add: Cons_nth_drop_Suc len)
  also have "\<dots> = insertRight key ?p (xs ! Suc i) @ drop (Suc (Suc i)) xs" by (rule sink_insert)
  finally show ?case using Suc.prems by (simp add: take_Suc_conv_app_nth)
qed

lemma insertionSort_fold: "insertionSort key xs = foldl (insertRight key) [] xs"
proof (cases "xs = []")
  case False
  then have "[1..<length xs] = [1..<Suc (length xs - 1)]" "length xs - 1 < length xs" by simp_all
  then show ?thesis using sink_rounds [of "length xs - 1" xs key] unfolding insertionSort_def by simp
qed (simp add: insertionSort_def)

lemma fold_insertRight:
  "sorted (map key (foldl (insertRight key) [] xs)) \<and> mset (foldl (insertRight key) [] xs) = mset xs \<and>
   filter (\<lambda>y. k = key y) (foldl (insertRight key) [] xs) = filter (\<lambda>y. k = key y) xs"
  by (induction xs rule: rev_induct) (auto simp: sorted_insertRight stable_insertRight)

lemma insertionSort_sort_key: "insertionSort key xs = sort_key key xs"
  using fold_insertRight [of key xs] unfolding insertionSort_fold by (intro properties_for_sort_key [symmetric]) auto

text \<open>Index keys are the decimal forms of the numbers up to \<open>2 ^ 32 - 2\<close>.\<close>

lemma isArrayIndexKey_iff: "isArrayIndexKey key \<longleftrightarrow> (\<exists>n \<le> 4294967294. key = FormatUint n)"
proof
  assume "isArrayIndexKey key"
  then show "\<exists>n \<le> 4294967294. key = FormatUint n" by (auto simp: isArrayIndexKey_def split: option.splits)
next
  assume "\<exists>n \<le> 4294967294. key = FormatUint n"
  then obtain n where n: "n \<le> 4294967294" "key = FormatUint n" by blast
  then have "ParseUint key = Some n" by (simp add: ParseUint_FormatUint)
  then show "isArrayIndexKey key" using n by (simp add: isArrayIndexKey_def)
qed

lemma orderLikeJS_eq:
  "orderLikeJS ms = sort_key indexOf (filter (\<lambda>m. isArrayIndexKey (fst m)) ms) @ filter (\<lambda>m. \<not> isArrayIndexKey (fst m)) ms"
  by (auto simp: orderLikeJS_def Let_def insertionSort_sort_key filter_empty_conv intro!: filter_True [symmetric])

text \<open>The members of an object are walked in the order of JavaScript: first the keys that are canonical
  array indices in numerical order, then the others as they were written.\<close>

theorem orderLikeJS_order:
  "\<exists>indexed. orderLikeJS ms = indexed @ filter (\<lambda>m. \<not> isArrayIndexKey (fst m)) ms \<and>
     mset indexed = mset (filter (\<lambda>m. isArrayIndexKey (fst m)) ms) \<and>
     (\<exists>ns. sorted ns \<and> map fst indexed = map FormatUint ns) \<and>
     (\<forall>key. isArrayIndexKey key = (\<exists>n \<le> 4294967294. key = FormatUint n))"
proof (intro exI conjI allI)
  let ?i = "sort_key indexOf (filter (\<lambda>m. isArrayIndexKey (fst m)) ms)"
  show "orderLikeJS ms = ?i @ filter (\<lambda>m. \<not> isArrayIndexKey (fst m)) ms" by (rule orderLikeJS_eq)
  show "mset ?i = mset (filter (\<lambda>m. isArrayIndexKey (fst m)) ms)" by simp
  show "sorted (map indexOf ?i)" by simp
  have "FormatUint (indexOf m) = fst m" if "isArrayIndexKey (fst m)" for m
    using that by (auto simp: isArrayIndexKey_def indexOf_def split: option.splits)
  then show "map fst ?i = map FormatUint (map indexOf ?i)" by simp
  show "isArrayIndexKey key = (\<exists>n \<le> 4294967294. key = FormatUint n)" for key by (rule isArrayIndexKey_iff)
qed


section \<open>The reader returns\<close>

definition shorter :: "jsonToken list \<Rightarrow> (unit + jsonValue \<times> jsonToken list) option \<Rightarrow> bool" where
  "shorter ts res \<longleftrightarrow> (case res of None \<Rightarrow> False | Some (Inl _) \<Rightarrow> True | Some (Inr (v, r)) \<Rightarrow> length r < length ts)"

lemma shorter_mono: "shorter ts res \<Longrightarrow> length ts \<le> length us \<Longrightarrow> shorter us res"
  by (auto simp: shorter_def split: option.splits sum.splits)

lemma shorter_bind:
  assumes "shorter ts m" "\<And>v r. length r < length ts \<Longrightarrow> shorter us (k v r)"
  shows "shorter us (m \<bind> (\<lambda>res. case res of Inl e \<Rightarrow> Some (Inl e) | Inr (v, r) \<Rightarrow> k v r))"
  using assms by (auto simp: shorter_def [of ts] split: option.splits sum.splits) (simp_all add: shorter_def)

lemma parse_shorter:
  "(\<forall>ts. 2 * length ts + 1 \<le> f \<longrightarrow> shorter ts (parseJSONValue f ts)) \<and>
   (\<forall>ts ms. 2 * length ts + 2 \<le> f \<longrightarrow> shorter ts (parseMembers f ts ms)) \<and>
   (\<forall>ts vs. 2 * length ts + 2 \<le> f \<longrightarrow> shorter ts (parseElements f ts vs))"
proof (induction f)
  case (Suc f)
  then have v: "2 * length ts + 1 \<le> f \<Longrightarrow> shorter ts (parseJSONValue f ts)"
    and m: "2 * length ts + 2 \<le> f \<Longrightarrow> shorter ts (parseMembers f ts ms)"
    and e: "2 * length ts + 2 \<le> f \<Longrightarrow> shorter ts (parseElements f ts vs)" for ts ms vs by blast+
  have val: "shorter ts (parseJSONValue (Suc f) ts)" if len: "2 * length ts + 1 \<le> Suc f" for ts
  proof (cases ts)
    case (Cons t r)
    have "shorter ts (parseMembers f r [])" "shorter ts (parseElements f r [])"
      by (rule shorter_mono [OF m] shorter_mono [OF e], use len Cons in simp, use Cons in simp)+
    then show ?thesis using Cons by (auto simp: shorter_def split: jsonToken.splits option.splits)
  qed (simp add: shorter_def)
  have mem: "shorter ts (parseMembers (Suc f) ts ms)" if len: "2 * length ts + 2 \<le> Suc f" for ts ms
  proof -
    have "shorter ts (parseJSONValue f r \<bind> (\<lambda>res. case res of Inl e \<Rightarrow> Some (Inl e) | Inr (v, r') \<Rightarrow> parseMembers f r' (setMember k v ms)))"
      if "ts = TString k # r" for k r
      by (rule shorter_bind [of r]) (use v [of r] len that in \<open>auto intro: shorter_mono [OF m]\<close>)
    then show ?thesis by (auto simp: More_def shorter_def [of _ "Some _"] split: list.splits jsonToken.splits)
  qed
  have "shorter ts (parseElements (Suc f) ts vs)" if len: "2 * length ts + 2 \<le> Suc f" for ts vs
  proof -
    have "shorter ts (parseJSONValue f ts \<bind> (\<lambda>res. case res of Inl e \<Rightarrow> Some (Inl e) | Inr (v, r') \<Rightarrow> parseElements f r' (vs @ [v])))"
      by (rule shorter_bind [of ts]) (use v [of ts] len in \<open>auto intro: shorter_mono [OF e]\<close>)
    then show ?thesis
      by (cases "More ts", simp only: parseElements.simps if_True) (auto simp: shorter_def split: list.splits jsonToken.splits)
  qed
  with val mem show ?case by blast
qed simp

lemma parseJSON_returns: "\<exists>v. parseJSON ts = Some v"
  using parse_shorter [of "2 * length ts + 1"] by (auto simp: parseJSON_def shorter_def split: option.splits)

section \<open>Reading back what was written\<close>

fun toTokens :: "jsonValue \<Rightarrow> jsonToken list" and memberTokens :: "(string \<times> jsonValue) list \<Rightarrow> jsonToken list" and
  elementTokens :: "jsonValue list \<Rightarrow> jsonToken list" where
  "toTokens JInvalid = [TError]"
| "toTokens JNull = [TNull]"
| "toTokens JBool = [TBool]"
| "toTokens (JNumber b) = [TNumber (Some b)]"
| "toTokens (JString s) = [TString s]"
| "toTokens (JArray vs) = TOpen # elementTokens vs @ [TClose]"
| "toTokens (JObject ms) = TBegin # memberTokens ms @ [TEnd]"
| "memberTokens [] = []"
| "memberTokens ((k, v) # ms) = TString k # toTokens v @ memberTokens ms"
| "elementTokens [] = []"
| "elementTokens (v # vs) = toTokens v @ elementTokens vs"

text \<open>Values that a JSON text can stand for: distinct keys in JavaScript order.\<close>

fun ordered :: "jsonValue \<Rightarrow> bool" and orderedMembers :: "(string \<times> jsonValue) list \<Rightarrow> bool" and
  orderedElements :: "jsonValue list \<Rightarrow> bool" where
  "ordered JInvalid \<longleftrightarrow> False"
| "ordered (JArray vs) \<longleftrightarrow> orderedElements vs"
| "ordered (JObject ms) \<longleftrightarrow> distinct (map fst ms) \<and> orderLikeJS ms = ms \<and> orderedMembers ms"
| "ordered v \<longleftrightarrow> True"
| "orderedMembers [] \<longleftrightarrow> True"
| "orderedMembers ((k, v) # ms) \<longleftrightarrow> ordered v \<and> orderedMembers ms"
| "orderedElements [] \<longleftrightarrow> True"
| "orderedElements (v # vs) \<longleftrightarrow> ordered v \<and> orderedElements vs"

lemma setMember_new: "k \<notin> fst ` set ms \<Longrightarrow> setMember k v ms = ms @ [(k, v)]"
  by (induction ms) auto

lemma toTokens_start: "ordered v \<Longrightarrow> \<exists>t r. toTokens v = t # r \<and> t \<noteq> TEnd \<and> t \<noteq> TClose"
  by (cases v) auto

lemma More_tokens: "ordered v \<Longrightarrow> More (toTokens v @ r)"
  using toTokens_start [of v] by (auto simp: More_def)

lemma parse_scalar:
  assumes "2 \<le> f"
  shows "parseJSONValue f (TNull # r) = Some (Inr (JNull, r))" "parseJSONValue f (TBool # r) = Some (Inr (JBool, r))"
    "parseJSONValue f (TNumber (Some b) # r) = Some (Inr (JNumber b, r))" "parseJSONValue f (TString s # r) = Some (Inr (JString s, r))"
  using assms by (cases f; simp)+

lemma parse_tokens:
  "ordered v \<Longrightarrow> 2 * length (toTokens v) \<le> f \<Longrightarrow> parseJSONValue f (toTokens v @ r) = Some (Inr (v, r))"
  "orderedMembers ms \<Longrightarrow> distinct (map fst (acc @ ms)) \<Longrightarrow> 2 * length (memberTokens ms) + 1 \<le> f \<Longrightarrow>
     parseMembers f (memberTokens ms @ TEnd # r) acc = Some (Inr (JObject (orderLikeJS (acc @ ms)), r))"
  "orderedElements vs \<Longrightarrow> 2 * length (elementTokens vs) + 1 \<le> f \<Longrightarrow>
     parseElements f (elementTokens vs @ TClose # r) eacc = Some (Inr (JArray (eacc @ vs), r))"
proof (induction v and ms and vs arbitrary: f r and f r acc and f r eacc rule: toTokens_memberTokens_elementTokens.induct)
  case (6 vs)
  then obtain g where "f = Suc g" by (cases f) auto
  then show ?case using 6 by simp
next
  case (7 ms)
  then obtain g where "f = Suc g" by (cases f) auto
  then show ?case using 7 by simp
next
  case 8
  then obtain g where "f = Suc g" by (cases f) auto
  then show ?case by (simp add: More_def)
next
  case (9 k v ms)
  then obtain g where g: "f = Suc g" by (cases f) auto
  have "2 * length (toTokens v) \<le> g" "2 * length (memberTokens ms) + 1 \<le> g" using 9(5) g by simp_all
  then show ?case using 9 g by (simp add: More_def setMember_new)
next
  case 10
  then obtain g where "f = Suc g" by (cases f) auto
  then show ?case by (simp add: More_def)
next
  case (11 v vs)
  then obtain g where g: "f = Suc g" by (cases f) auto
  have "1 \<le> length (toTokens v)" using toTokens_start [of v] 11(3) by auto
  then have "2 * length (toTokens v) \<le> g" "2 * length (elementTokens vs) + 1 \<le> g" using 11(4) g by auto
  then show ?case using 11 g More_tokens [of v "elementTokens vs @ TClose # r"] by simp
qed (auto simp: parse_scalar)


text \<open>A project as one would write it.\<close>

fun treeToJSON :: "tree \<Rightarrow> jsonValue" and childrenToJSON :: "(string \<times> tree) list \<Rightarrow> (string \<times> jsonValue) list" where
  "treeToJSON (Tree c p ch) = JObject ((if c = [] then [] else [(''$className'', JString c)]) @
     (case p of None \<Rightarrow> [] | Some s \<Rightarrow> [(''$path'', JString s)]) @ childrenToJSON ch)"
| "childrenToJSON [] = []"
| "childrenToJSON ((k, t) # ch) = (k, treeToJSON t) # childrenToJSON ch"

definition projectJSON :: "string \<Rightarrow> tree \<Rightarrow> jsonValue" where
  "projectJSON n t = JObject [(''name'', JString n), (''tree'', treeToJSON t)]"

text \<open>The children have different names that do not start with a dollar sign and are no index keys.\<close>

definition childName :: "string \<Rightarrow> bool" where
  "childName k \<longleftrightarrow> \<not> HasPrefix k ''$'' \<and> \<not> isArrayIndexKey k"

fun project_tree :: "tree \<Rightarrow> bool" and project_children :: "(string \<times> tree) list \<Rightarrow> bool" where
  "project_tree (Tree c p ch) \<longleftrightarrow> distinct (map fst ch) \<and> project_children ch"
| "project_children [] \<longleftrightarrow> True"
| "project_children ((k, t) # ch) \<longleftrightarrow> childName k \<and> project_tree t \<and> project_children ch"

lemma map_fst_children: "map fst (childrenToJSON ch) = map fst ch"
  by (induction ch rule: treeToJSON_childrenToJSON.induct(2) [where P = "\<lambda>_. True"]) auto

lemma project_childrenD: "project_children ch \<Longrightarrow> k \<in> set (map fst ch) \<Longrightarrow> childName k"
  by (induction ch rule: project_tree_project_children.induct(2) [where P = "\<lambda>_. True"]) auto

lemma no_index_key: "k = [] \<or> \<not> digit (hd k) \<Longrightarrow> \<not> isArrayIndexKey k"
  by (cases k) (auto simp: isArrayIndexKey_def ParseUint_def split: option.splits)

lemma orderLikeJS_id: "\<forall>m \<in> set ms. \<not> isArrayIndexKey (fst m) \<Longrightarrow> orderLikeJS ms = ms"
  by (auto simp: orderLikeJS_eq filter_empty_conv)


lemma tree_keys:
  fixes c :: string and p :: "string option"
  assumes "project_children ch" "distinct (map fst ch)"
  defines "ms \<equiv> (if c = [] then [] else [(''$className'', JString c)]) @
     (case p of None \<Rightarrow> [] | Some s \<Rightarrow> [(''$path'', JString s)]) @ childrenToJSON ch"
  shows "distinct (map fst ms)" "orderLikeJS ms = ms"
proof -
  have c: "childName k" if "k \<in> set (map fst (childrenToJSON ch))" for k
    using project_childrenD [OF assms(1)] that by (simp only: map_fst_children)
  have d: "''$className'' \<notin> set (map fst (childrenToJSON ch))" "''$path'' \<notin> set (map fst (childrenToJSON ch))"
    using c [of "''$className''"] c [of "''$path''"] by (auto simp: childName_def HasPrefix_def)
  then show "distinct (map fst ms)" using assms(2) unfolding ms_def by (auto simp: map_fst_children split: option.splits)
  have "\<not> isArrayIndexKey ''$className''" "\<not> isArrayIndexKey ''$path''" by (simp_all add: no_index_key digit_def less_eq_char_def)
  moreover have "\<not> isArrayIndexKey (fst m)" if "m \<in> set (childrenToJSON ch)" for m using c [of "fst m"] that by (simp add: childName_def)
  ultimately show "orderLikeJS ms = ms" unfolding ms_def by (intro orderLikeJS_id) (auto split: option.splits if_splits)
qed

lemma tree_ordered:
  "project_tree t \<Longrightarrow> ordered (treeToJSON t)"
  "project_children ch \<Longrightarrow> orderedMembers (childrenToJSON ch)"
proof (induction t and ch rule: treeToJSON_childrenToJSON.induct)
  case (1 c p ch)
  have "orderedMembers ((if c = [] then [] else [(''$className'', JString c)]) @
     (case p of None \<Rightarrow> [] | Some s \<Rightarrow> [(''$path'', JString s)]) @ childrenToJSON ch)" using 1 by (simp split: option.splits)
  then show ?case using 1(2) tree_keys [of ch c p] by simp
qed auto

lemma tree_valid:
  "project_tree t \<Longrightarrow> validateTree (treeToJSON t) path = []"
  "project_children ch \<Longrightarrow> validateMembers (childrenToJSON ch) path = []"
proof (induction t and ch arbitrary: path and path rule: treeToJSON_childrenToJSON.induct)
  case (1 c p ch)
  then show ?case by (simp add: memberError_def isTreeKey_def isValidPathValue_def HasPrefix_def split: option.splits)
next
  case (3 k t ch)
  have "memberError path k (treeToJSON t) = []" if "k = []" using that by (simp add: memberError_def)
  then show ?case using 3 by (auto simp: isTreeKey_def childName_def Let_def)
qed simp

lemma tree_reads:
  "project_tree t \<Longrightarrow> treeFromJSON (treeToJSON t) = t"
  "project_children ch \<Longrightarrow> treeMembers (childrenToJSON ch) (Tree c p acc) = Tree c p (acc @ ch)"
proof (induction t and ch arbitrary: and c p acc rule: treeToJSON_childrenToJSON.induct)
  case (1 c p ch)
  then show ?case by (simp add: setField_def HasPrefix_def split: option.splits)
next
  case (3 k t ch)
  then show ?case by (simp add: childName_def addChild_def)
qed simp

lemma parseJSON_tokens: "ordered v \<Longrightarrow> parseJSON (toTokens v) = Some v"
  using parse_tokens(1) [of v "2 * length (toTokens v) + 1" "[]"] by (simp add: parseJSON_def)

lemma project_JSON:
  assumes "project_tree t"
  shows "parseJSON (toTokens (projectJSON n t)) = Some (projectJSON n t)" "validateConfig (projectJSON n t) = []"
    "configFromJSON (projectJSON n t) = (n, t)"
proof -
  have "\<not> isArrayIndexKey ''name''" "\<not> isArrayIndexKey ''tree''" by (simp_all add: no_index_key digit_def less_eq_char_def)
  then have "orderLikeJS [(''name'', JString n), (''tree'', treeToJSON t)] = [(''name'', JString n), (''tree'', treeToJSON t)]"
    by (intro orderLikeJS_id) simp
  then have "ordered (projectJSON n t)" using tree_ordered(1) [OF assms] by (simp add: projectJSON_def)
  then show "parseJSON (toTokens (projectJSON n t)) = Some (projectJSON n t)" by (rule parseJSON_tokens)
  show "validateConfig (projectJSON n t) = []" "configFromJSON (projectJSON n t) = (n, t)"
    using tree_valid(1) [OF assms] tree_reads(1) [OF assms]
    by (simp_all add: projectJSON_def validateConfig_def configFromJSON_def member_def)
qed

section \<open>Properties\<close>

text \<open>A project that is written as JSON, with its tree below the key \<open>tree\<close>, is read back as it was,
  children in order, and passes the validator.\<close>

theorem project_reads_back:
  assumes "project_tree t"
  shows "\<exists>v. parseJSON (toTokens (projectJSON n t)) = Some v \<and> validateConfig v = [] \<and> configFromJSON v = (n, t)"
  using project_JSON [OF assms] by blast

theorem project_reads_back_witness:
  "\<exists>v. parseJSON (toTokens (projectJSON ''g'' (Tree ''DataModel'' None [(''Shared'', Tree [] (Some ''out'') [])]))) = Some v \<and>
     configFromJSON v = (''g'', Tree ''DataModel'' None [(''Shared'', Tree [] (Some ''out'') [])])"
proof -
  have "project_tree (Tree ''DataModel'' None [(''Shared'', Tree [] (Some ''out'') [])])"
    by (simp add: childName_def HasPrefix_def no_index_key digit_def less_eq_char_def)
  from project_reads_back [OF this] show ?thesis by blast
qed

end
