(* ===== verification/Rojo_Resolver.thy ===== *)
theory Rojo_Resolver
  imports Rojo_Translate Rojo_Config "HOL-Library.List_Lexorder" "HOL-Library.AList"
begin

text \<open>
  The resolver of \<open>src/internal/rojo/resolver.go\<close>: it walks a Rojo project and the directories it
  mounts, and maps files to paths in the Roblox instance tree.

  What the code reads from outside is the record \<open>fs\<close>: the working directory, the file system and the
  tokens that \<open>json.Decoder\<close> finds in a text. The walk has fuel for the nesting of its calls; \<open>None\<close>
  means that the fuel ran out or that the stack \<open>rbxPath\<close> was popped when empty. A Go map is an
  association list with distinct keys.
\<close>

section \<open>Extensions and small helpers\<close>

definition jsonExt :: string where "jsonExt = ''.json''"
definition tomlExt :: string where "tomlExt = ''.toml''"
definition serverSubExt :: string where "serverSubExt = ''.server''"
definition clientSubExt :: string where "clientSubExt = ''.client''"
definition moduleSubExt :: string where "moduleSubExt = []"
definition rojoDefaultName :: string where "rojoDefaultName = ''default.project.json''"
definition rojoOldName :: string where "rojoOldName = ''roblox-project.json''"

definition rojoModuleExts :: "string \<Rightarrow> bool" where
  "rojoModuleExts e \<longleftrightarrow> e = luauExt \<or> e = jsonExt \<or> e = tomlExt"

definition rojoScriptExts :: "string \<Rightarrow> bool" where
  "rojoScriptExts e \<longleftrightarrow> e = luauExt"

text \<open>The regular expression \<open>^.+\.project\.json$\<close>; the dot matches anything but a line feed.\<close>

definition rojoFileRegex :: "string \<Rightarrow> bool" where
  "rojoFileRegex s \<longleftrightarrow> HasSuffix s ''.project.json'' \<and>
     (let stem = TrimSuffix s ''.project.json'' in stem \<noteq> [] \<and> LF \<notin> set stem)"

text \<open>\<open>strings.LastIndexByte\<close> of a dot; an index of at most zero gives no extension.\<close>

definition lastDot :: "string \<Rightarrow> nat option" where
  "lastDot s = (if CHR ''.'' \<in> set s then Some (length s - 1 - length (takeWhile (\<lambda>c. c \<noteq> CHR ''.'') (rev s))) else None)"

definition extname :: "string \<Rightarrow> string" where
  "extname p = (let base = Base p in
     if base = ''..'' then []
     else (case lastDot base of None \<Rightarrow> [] | Some idx \<Rightarrow> if idx = 0 then [] else drop idx base))"

definition convertToLuau :: "string \<Rightarrow> string" where
  "convertToLuau filePath = (if extname filePath = luaExt then take (length filePath - length luaExt) filePath @ luauExt else filePath)"

definition stripRojoExts :: "string \<Rightarrow> string" where
  "stripRojoExts filePath =
     (let ext = extname filePath in
      if rojoModuleExts ext then
        (let p = take (length filePath - length ext) filePath in
         if rojoScriptExts ext then
           (let subext = extname p in
            if subext = serverSubExt \<or> subext = clientSubExt then take (length p - length subext) p else p)
         else p)
      else filePath)"

fun arrayStartsWith :: "string list \<Rightarrow> string list \<Rightarrow> bool" where
  "arrayStartsWith (a # as) (b # bs) = (if a \<noteq> b then False else arrayStartsWith as bs)"
| "arrayStartsWith _ _ = True"

definition isPathDescendantOf :: "string \<Rightarrow> string \<Rightarrow> bool" where
  "isPathDescendantOf filePath dirPath =
     (if dirPath = filePath then True
      else (case Rel dirPath filePath of None \<Rightarrow> False | Some rel \<Rightarrow> \<not> HasPrefix rel ''..''))"

definition rojoResolvePath :: "string \<Rightarrow> string \<Rightarrow> string" where
  "rojoResolvePath basePath p = (if IsAbs p then Clean p else PathJoin basePath p)"

definition CanonicalFileName :: "(string \<Rightarrow> string) \<Rightarrow> string \<Rightarrow> bool \<Rightarrow> string" where
  "CanonicalFileName lower filePath useCaseSensitiveFileNames =
     (let filePath = Clean filePath in if useCaseSensitiveFileNames then filePath else lower filePath)"

section \<open>Relative instance paths\<close>

type_synonym RbxPath = "string list"

datatype RelativeRbxPathSegment = Parent | Child string

fun diffIndex :: "RbxPath \<Rightarrow> RbxPath \<Rightarrow> nat" where
  "diffIndex (a # as) (b # bs) = (if a = b then Suc (diffIndex as bs) else 0)"
| "diffIndex _ _ = 0"

definition Relative :: "RbxPath \<Rightarrow> RbxPath \<Rightarrow> RelativeRbxPathSegment list" where
  "Relative rbxFrom rbxTo =
     (let i = diffIndex rbxFrom rbxTo in
      (if i < length rbxFrom then replicate (length rbxFrom - i) Parent else []) @ map Child (drop i rbxTo))"

section \<open>The resolver\<close>

record PartitionInfo =
  PartRbxPath :: RbxPath
  FsPath :: string

record RojoResolver =
  warnings :: "string list"
  rbxPath :: RbxPath
  partitions :: "PartitionInfo list"
  filePathToRbxPathMap :: "(string \<times> RbxPath) list"
  isolatedContainers :: "RbxPath list"
  walkedConfigs :: "string list"
  walkedDirectories :: "string list"
  IsGame :: bool

definition defaultIsolatedContainers :: "RbxPath list" where
  "defaultIsolatedContainers = [[''StarterPack''], [''StarterGui''], [''StarterPlayer'', ''StarterPlayerScripts''],
     [''StarterPlayer'', ''StarterCharacterScripts''], [''StarterPlayer'', ''StarterCharacter''], [''PluginDebugService'']]"

definition clientContainers :: "RbxPath list" where
  "clientContainers = [[''StarterPack''], [''StarterGui''], [''StarterPlayer'']]"

definition serverContainers :: "RbxPath list" where
  "serverContainers = [[''ServerStorage''], [''ServerScriptService'']]"

definition newRojoResolver :: RojoResolver where
  "newRojoResolver = \<lparr>warnings = [], rbxPath = [], partitions = [], filePathToRbxPathMap = [],
     isolatedContainers = defaultIsolatedContainers, walkedConfigs = [], walkedDirectories = [], IsGame = False\<rparr>"

definition warn :: "string \<Rightarrow> RojoResolver \<Rightarrow> RojoResolver" where
  "warn s r = r\<lparr>warnings := warnings r @ [s]\<rparr>"

definition walkConfig :: "string \<Rightarrow> RojoResolver \<Rightarrow> RojoResolver" where
  "walkConfig p r = r\<lparr>walkedConfigs := walkedConfigs r @ [Clean p]\<rparr>"

definition walkDirectory :: "string \<Rightarrow> RojoResolver \<Rightarrow> RojoResolver" where
  "walkDirectory p r = r\<lparr>walkedDirectories := walkedDirectories r @ [Clean p]\<rparr>"

definition pushPath :: "string \<Rightarrow> RojoResolver \<Rightarrow> RojoResolver" where
  "pushPath n r = r\<lparr>rbxPath := rbxPath r @ [n]\<rparr>"

definition popPath :: "RojoResolver \<Rightarrow> RojoResolver option" where
  "popPath r = (if rbxPath r = [] then None else Some (r\<lparr>rbxPath := butlast (rbxPath r)\<rparr>))"

definition addPartition :: "string \<Rightarrow> RojoResolver \<Rightarrow> RojoResolver" where
  "addPartition p r = r\<lparr>partitions := \<lparr>PartRbxPath = rbxPath r, FsPath = p\<rparr> # partitions r\<rparr>"

definition mapFile :: "string \<Rightarrow> RojoResolver \<Rightarrow> RojoResolver" where
  "mapFile p r = r\<lparr>filePathToRbxPathMap := AList.update p (rbxPath r) (filePathToRbxPathMap r)\<rparr>"

section \<open>The walk\<close>

datatype fileKind = KDir | KRegular | KOther

record fs =
  Getwd :: "string option"
  Stat :: "string \<Rightarrow> fileKind option"
  ReadDir :: "string \<Rightarrow> (string \<times> fileKind) list option"
  ReadFile :: "string \<Rightarrow> string option"
  Realpath :: "string \<Rightarrow> string"
  Tokens :: "string \<Rightarrow> jsonToken list"

definition Abs :: "fs \<Rightarrow> string \<Rightarrow> string option" where
  "Abs w p = (if IsAbs p then Some (Clean p) else (case Getwd w of None \<Rightarrow> None | Some wd \<Rightarrow> Some (PathJoin wd p)))"

definition pathExists :: "fs \<Rightarrow> string \<Rightarrow> bool" where
  "pathExists w p \<longleftrightarrow> Stat w p \<noteq> None"

definition isDirectory :: "fs \<Rightarrow> string \<Rightarrow> bool" where
  "isDirectory w p \<longleftrightarrow> Stat w p = Some KDir"

definition dirContains :: "fs \<Rightarrow> string \<Rightarrow> string \<Rightarrow> bool" where
  "dirContains w dir n = (case ReadDir w dir of None \<Rightarrow> False | Some es \<Rightarrow> n \<in> fst ` set es)"

text \<open>Whether an entry is a directory, and whether it is a regular file; for other entries (links) the
  target counts.\<close>

definition entryKind :: "fs \<Rightarrow> string \<Rightarrow> string \<times> fileKind \<Rightarrow> bool \<times> bool" where
  "entryKind w directory e =
     (case snd e of
        KDir \<Rightarrow> (True, False)
      | KRegular \<Rightarrow> (False, True)
      | KOther \<Rightarrow> (case Stat w (PathJoin directory (fst e)) of
            None \<Rightarrow> (False, False)
          | Some k \<Rightarrow> (k = KDir, k = KRegular)))"

fun foldM :: "('a \<Rightarrow> 's \<Rightarrow> 's option) \<Rightarrow> 'a list \<Rightarrow> 's \<Rightarrow> 's option" where
  "foldM f [] s = Some s"
| "foldM f (x # xs) s = do { s' \<leftarrow> f x s; foldM f xs s' }"

text \<open>The value of a project file, and of one that cannot be read.\<close>

definition readConfig :: "fs \<Rightarrow> string \<Rightarrow> jsonValue option" where
  "readConfig w p = (case ReadFile w p of None \<Rightarrow> Some JInvalid | Some data \<Rightarrow> parseJSON (Tokens w data))"

text \<open>The four routines of the walk call each other; the routines that one calls are its first
  arguments, and the recursion is closed below.\<close>

type_synonym 'a walk = "'a \<Rightarrow> RojoResolver \<Rightarrow> RojoResolver option"

definition parseConfigBody :: "(string \<times> string \<times> tree \<times> bool) walk \<Rightarrow> fs \<Rightarrow> (string \<times> bool) walk" where
  "parseConfigBody parseTree w = (\<lambda>(p, doNotPush) r.
     (let realPath = Realpath w p; r = walkConfig realPath r in
      if \<not> pathExists w realPath then Some (warn (''RojoResolver: Path does not exist '' @ [DQUOTE] @ p @ [DQUOTE]) r)
      else do {
        configJSON \<leftarrow> readConfig w realPath;
        let msg = validateConfig configJSON;
        if msg \<noteq> [] then Some (warn (''RojoResolver: Invalid configuration! '' @ msg) r)
        else (let (nm, tree) = configFromJSON configJSON in parseTree (Dir p, nm, tree, doNotPush) r)
      }))"

definition parseTreeBody :: "(string \<times> string \<times> tree \<times> bool) walk \<Rightarrow> string walk \<Rightarrow> (string \<times> string \<times> tree \<times> bool) walk" where
  "parseTreeBody parseTree parsePath = (\<lambda>(basePath, nm, tree, doNotPush) r. do {
     let r = (if doNotPush then r else pushPath nm r);
     r \<leftarrow> (case Path tree of None \<Rightarrow> Some r | Some p \<Rightarrow> parsePath (rojoResolvePath basePath p) r);
     let r = (if ClassName tree = ''DataModel'' then r\<lparr>IsGame := True\<rparr> else r);
     r \<leftarrow> foldM (\<lambda>c. parseTree (basePath, fst c, snd c, False)) (Children tree) r;
     if doNotPush then Some r else popPath r
   })"

definition parsePathBody :: "(string \<times> bool) walk \<Rightarrow> (string \<times> string) walk \<Rightarrow> fs \<Rightarrow> string walk" where
  "parsePathBody parseConfig searchDirectory w = (\<lambda>itemPath r.
     (let itemPath = convertToLuau itemPath in
      if rojoFileRegex (Base itemPath) then parseConfig (itemPath, True) r
      else (let realPath = (if pathExists w itemPath then Realpath w itemPath else itemPath) in
        if rojoModuleExts (extname itemPath) then Some (mapFile itemPath r)
        else (let isDir = isDirectory w realPath; r = (if isDir then walkDirectory realPath r else r) in
          if isDir \<and> dirContains w realPath rojoDefaultName
          then parseConfig (PathJoin itemPath rojoDefaultName, True) r
          else (let r = addPartition itemPath r in
            if isDir then searchDirectory (itemPath, []) r else Some r)))))"

definition searchDirectoryBody :: "(string \<times> bool) walk \<Rightarrow> (string \<times> string) walk \<Rightarrow> fs \<Rightarrow> (string \<times> string) walk" where
  "searchDirectoryBody parseConfig searchDirectory w = (\<lambda>(directory, item) r.
     (let realPath = Realpath w directory; r = walkDirectory realPath r in
      case ReadDir w realPath of
        None \<Rightarrow> Some r
      | Some entries \<Rightarrow>
          if rojoDefaultName \<in> fst ` set entries then parseConfig (PathJoin directory rojoDefaultName, False) r
          else do {
            let r = (if item \<noteq> [] then pushPath item r else r);
            r \<leftarrow> foldM (\<lambda>e r. if fst e \<noteq> rojoDefaultName \<and> rojoFileRegex (fst e) \<and> snd (entryKind w directory e)
                   then parseConfig (PathJoin directory (fst e), False) r else Some r) entries r;
            r \<leftarrow> foldM (\<lambda>e r. if fst (entryKind w directory e)
                   then searchDirectory (PathJoin directory (fst e), fst e) r else Some r) entries r;
            if item \<noteq> [] then popPath r else Some r
          }))"

fun parseConfig :: "fs \<Rightarrow> nat \<Rightarrow> (string \<times> bool) walk"
  and parseTree :: "fs \<Rightarrow> nat \<Rightarrow> (string \<times> string \<times> tree \<times> bool) walk"
  and parsePath :: "fs \<Rightarrow> nat \<Rightarrow> string walk"
  and searchDirectory :: "fs \<Rightarrow> nat \<Rightarrow> (string \<times> string) walk" where
  "parseConfig w 0 = (\<lambda>_ _. None)"
| "parseConfig w (Suc n) = parseConfigBody (parseTree w n) w"
| "parseTree w 0 = (\<lambda>_ _. None)"
| "parseTree w (Suc n) = parseTreeBody (parseTree w n) (parsePath w n)"
| "parsePath w 0 = (\<lambda>_ _. None)"
| "parsePath w (Suc n) = parsePathBody (parseConfig w n) (searchDirectory w n) w"
| "searchDirectory w 0 = (\<lambda>_ _. None)"
| "searchDirectory w (Suc n) = searchDirectoryBody (parseConfig w n) (searchDirectory w n) w"

definition FromPath :: "fs \<Rightarrow> nat \<Rightarrow> string \<Rightarrow> RojoResolver option" where
  "FromPath w n p = parseConfig w n ((case Abs w p of None \<Rightarrow> p | Some a \<Rightarrow> a), True) newRojoResolver"

definition Synthetic :: "fs \<Rightarrow> nat \<Rightarrow> string \<Rightarrow> RojoResolver option" where
  "Synthetic w n basePath = parseTree w n (basePath, [], Tree [] (Some basePath) [], True) newRojoResolver"

definition FromTree :: "fs \<Rightarrow> nat \<Rightarrow> string \<Rightarrow> tree \<Rightarrow> RojoResolver option" where
  "FromTree w n basePath tree = parseTree w n (basePath, [], tree, True) newRojoResolver"

definition ParseProjectFile :: "fs \<Rightarrow> string \<Rightarrow> (string + string \<times> tree) option" where
  "ParseProjectFile w p = (case ReadFile w p of
      None \<Rightarrow> Some (Inl ''read'')
    | Some data \<Rightarrow> do {
        configJSON \<leftarrow> parseJSON (Tokens w data);
        let msg = validateConfig configJSON;
        Some (if msg \<noteq> [] then Inl (''invalid Rojo configuration: '' @ msg) else Inr (configFromJSON configJSON))
      })"

definition FindRojoConfigFilePath :: "fs \<Rightarrow> string \<Rightarrow> string \<times> string list" where
  "FindRojoConfigFilePath w projectPath =
     (let defaultPath = PathJoin projectPath rojoDefaultName in
      if pathExists w defaultPath then (defaultPath, [])
      else (let candidates = (case ReadDir w projectPath of
                None \<Rightarrow> []
              | Some entries \<Rightarrow> map (PathJoin projectPath)
                  (filter (\<lambda>n. n \<noteq> rojoDefaultName \<and> (n = rojoOldName \<or> rojoFileRegex n)) (map fst entries)));
              ws = (if length candidates > 1 then [''Multiple *.project.json files found, using '' @ hd candidates] else [])
            in (if candidates = [] then [] else hd candidates, ws)))"


section \<open>Lookups\<close>

definition coveringPath :: "string \<Rightarrow> string \<Rightarrow> PartitionInfo \<Rightarrow> RbxPath option" where
  "coveringPath filePath ext part =
     (if isPathDescendantOf filePath (FsPath part) then
        (case Rel (FsPath part) (stripRojoExts filePath) of
           None \<Rightarrow> None
         | Some relativePath \<Rightarrow>
             (let parts = (if relativePath \<noteq> [] \<and> relativePath \<noteq> ''.'' then Split relativePath (CHR ''/'') else []);
                parts = (if rojoScriptExts ext \<and> parts \<noteq> [] \<and> last parts = initName then butlast parts else parts)
              in Some (PartRbxPath part @ parts)))
      else None)"

fun firstCovering :: "string \<Rightarrow> string \<Rightarrow> PartitionInfo list \<Rightarrow> RbxPath option" where
  "firstCovering filePath ext [] = None"
| "firstCovering filePath ext (p # ps) =
     (case coveringPath filePath ext p of Some rp \<Rightarrow> Some rp | None \<Rightarrow> firstCovering filePath ext ps)"

definition GetRbxPathFromFilePath :: "fs \<Rightarrow> RojoResolver \<Rightarrow> string \<Rightarrow> RbxPath option" where
  "GetRbxPathFromFilePath w r filePath =
     (case Abs w filePath of
        None \<Rightarrow> None
      | Some a \<Rightarrow>
          (let filePath = convertToLuau a in
           case map_of (filePathToRbxPathMap r) filePath of
             Some rp \<Rightarrow> Some rp
           | None \<Rightarrow> firstCovering filePath (extname filePath) (partitions r)))"

datatype RbxType = RbxTypeModuleScript | RbxTypeScript | RbxTypeLocalScript | RbxTypeUnknown

definition subExtTypeMap :: "string \<Rightarrow> RbxType option" where
  "subExtTypeMap e = (if e = moduleSubExt then Some RbxTypeModuleScript else if e = serverSubExt then Some RbxTypeScript
     else if e = clientSubExt then Some RbxTypeLocalScript else None)"

definition GetRbxTypeFromFilePath :: "string \<Rightarrow> RbxType" where
  "GetRbxTypeFromFilePath filePath =
     (let filePath = convertToLuau filePath; ext = extname filePath; subext = extname (TrimSuffix (Base filePath) ext) in
      if rojoScriptExts ext then (case subExtTypeMap subext of Some t \<Rightarrow> t | None \<Rightarrow> RbxTypeUnknown)
      else RbxTypeModuleScript)"

section \<open>Containers\<close>

definition getContainer :: "RojoResolver \<Rightarrow> RbxPath list \<Rightarrow> RbxPath \<Rightarrow> RbxPath option" where
  "getContainer r from p = (if IsGame r then find (arrayStartsWith p) from else None)"

datatype FileRelation = FileRelationOutToOut | FileRelationOutToIn | FileRelationInToOut | FileRelationInToIn

definition GetFileRelation :: "RojoResolver \<Rightarrow> RbxPath \<Rightarrow> RbxPath \<Rightarrow> FileRelation" where
  "GetFileRelation r fileRbxPath moduleRbxPath =
     (case (getContainer r (isolatedContainers r) fileRbxPath, getContainer r (isolatedContainers r) moduleRbxPath) of
        (Some f, Some m) \<Rightarrow> if f = m then FileRelationInToIn else FileRelationOutToIn
      | (Some f, None) \<Rightarrow> FileRelationInToOut
      | (None, Some m) \<Rightarrow> FileRelationOutToIn
      | (None, None) \<Rightarrow> FileRelationOutToOut)"

definition IsIsolated :: "RojoResolver \<Rightarrow> RbxPath \<Rightarrow> bool" where
  "IsIsolated r p \<longleftrightarrow> getContainer r (isolatedContainers r) p \<noteq> None"

datatype NetworkType = NetworkTypeUnknown | NetworkTypeClient | NetworkTypeServer

definition GetNetworkType :: "RojoResolver \<Rightarrow> RbxPath \<Rightarrow> NetworkType" where
  "GetNetworkType r p =
     (if getContainer r serverContainers p \<noteq> None then NetworkTypeServer
      else if getContainer r clientContainers p \<noteq> None then NetworkTypeClient
      else NetworkTypeUnknown)"

section \<open>Snapshots\<close>

record ResolverState =
  SWarnings :: "string list"
  SRbxPath :: RbxPath
  SPartitions :: "PartitionInfo list"
  SFilePaths :: "(string \<times> RbxPath) list"
  SIsolatedContainers :: "RbxPath list"
  SIsGame :: bool
  SWalkedConfigs :: "string list"
  SWalkedDirectories :: "string list"

definition sortedStrings :: "string list \<Rightarrow> string list" where
  "sortedStrings values = remdups_adj (sort values)"

definition GetState :: "RojoResolver \<Rightarrow> ResolverState" where
  "GetState r = \<lparr>SWarnings = warnings r, SRbxPath = rbxPath r, SPartitions = partitions r,
     SFilePaths = sort_key fst (filePathToRbxPathMap r), SIsolatedContainers = isolatedContainers r, SIsGame = IsGame r,
     SWalkedConfigs = sortedStrings (walkedConfigs r), SWalkedDirectories = sortedStrings (walkedDirectories r)\<rparr>"

datatype stateError = PartitionEmpty nat | PartitionNotCanonical nat string
  | FileEmpty nat | FileNotCanonical nat string | FileNotModule nat string | FileDuplicate string

fun validatePartitions :: "nat \<Rightarrow> PartitionInfo list \<Rightarrow> stateError option" where
  "validatePartitions i [] = None"
| "validatePartitions i (p # ps) =
     (if FsPath p = [] then Some (PartitionEmpty i)
      else if Clean (FsPath p) \<noteq> FsPath p then Some (PartitionNotCanonical i (FsPath p))
      else validatePartitions (i + 1) ps)"

fun validateFiles :: "nat \<Rightarrow> (string \<times> RbxPath) list \<Rightarrow> string list \<Rightarrow> stateError option" where
  "validateFiles i [] seen = None"
| "validateFiles i (f # ms) seen =
     (if fst f = [] then Some (FileEmpty i)
      else if Clean (fst f) \<noteq> fst f then Some (FileNotCanonical i (fst f))
      else if convertToLuau (fst f) \<noteq> fst f \<or> \<not> rojoModuleExts (extname (fst f)) then Some (FileNotModule i (fst f))
      else if fst f \<in> set seen then Some (FileDuplicate (fst f))
      else validateFiles (i + 1) ms (fst f # seen))"

definition validateResolverState :: "ResolverState \<Rightarrow> stateError option" where
  "validateResolverState st = (case validatePartitions 0 (SPartitions st) of
     Some e \<Rightarrow> Some e | None \<Rightarrow> validateFiles 0 (SFilePaths st) [])"

definition FromState :: "ResolverState \<Rightarrow> stateError + RojoResolver" where
  "FromState st = (case validateResolverState st of
     Some e \<Rightarrow> Inl e
   | None \<Rightarrow> Inr \<lparr>warnings = SWarnings st, rbxPath = SRbxPath st, partitions = SPartitions st,
       filePathToRbxPathMap = foldl (\<lambda>m f. AList.update (fst f) (snd f) m) [] (SFilePaths st),
       isolatedContainers = SIsolatedContainers st, walkedConfigs = sortedStrings (SWalkedConfigs st),
       walkedDirectories = sortedStrings (SWalkedDirectories st), IsGame = SIsGame st\<rparr>)"

end
