(* ===== verification/Rojo_Correct.thy ===== *)
theory Rojo_Correct
  imports Rojo_Resolver
begin

text \<open>
  Correctness of the resolver: relative instance paths lead where they should, lookups give the path of
  the mount that covers a file, every resolver that a walk builds can be restored from its snapshot, and
  the walk returns unless projects include each other in a cycle.
\<close>

section \<open>Relative paths\<close>

text \<open>Following a relative path from an instance; \<open>None\<close> means above the root.\<close>

fun follow :: "RbxPath \<Rightarrow> RelativeRbxPathSegment list \<Rightarrow> RbxPath option" where
  "follow p [] = Some p"
| "follow p (Parent # s) = (if p = [] then None else follow (butlast p) s)"
| "follow p (Child n # s) = follow (p @ [n]) s"

lemma diffIndex_le: "diffIndex p q \<le> length p" "diffIndex p q \<le> length q"
  by (induction p q rule: diffIndex.induct) auto

lemma diffIndex_take: "take (diffIndex p q) p = take (diffIndex p q) q"
  by (induction p q rule: diffIndex.induct) auto

lemma follow_parents: "k \<le> length p \<Longrightarrow> follow p (replicate k Parent @ s) = follow (take (length p - k) p) s"
proof (induction k arbitrary: p)
  case (Suc k)
  then show ?case by (cases p rule: rev_cases) simp_all
qed simp

lemma follow_children: "follow p (map Child ns) = Some (p @ ns)"
  by (induction ns arbitrary: p) simp_all

lemma follow_Relative: "follow p (Relative p q) = Some q"
proof -
  have "follow p (Relative p q) = follow (take (diffIndex p q) p) (map Child (drop (diffIndex p q) q))"
    using follow_parents [of "length p - diffIndex p q" p] diffIndex_le(1) [of p q] by (auto simp: Relative_def Let_def)
  also have "\<dots> = Some (take (diffIndex p q) q @ drop (diffIndex p q) q)" using diffIndex_take [of p q] by (simp add: follow_children)
  finally show ?thesis by simp
qed

lemma diffIndex_same [simp]: "diffIndex p p = length p"
  by (induction p) auto

lemma diffIndex_single: "diffIndex [n] q \<le> 1"
  by (cases q) simp_all

lemma diffIndex_snoc: "diffIndex p q \<le> diffIndex (p @ [n]) q" "diffIndex (p @ [n]) q \<le> diffIndex p q + 1"
proof -
  show "diffIndex p q \<le> diffIndex (p @ [n]) q" by (induction p q rule: diffIndex.induct) auto
  show "diffIndex (p @ [n]) q \<le> diffIndex p q + 1"
    using diffIndex_single [of n] by (induction p q rule: diffIndex.induct) auto
qed

lemma length_Relative: "length (Relative p q) + 2 * diffIndex p q = length p + length q"
  using diffIndex_le [of p q] by (auto simp: Relative_def Let_def)

lemma Relative_step: "length (Relative p q) \<le> length (Relative (p @ [n]) q) + 1" "length (Relative (p @ [n]) q) \<le> length (Relative p q) + 1"
  using length_Relative [of p q] length_Relative [of "p @ [n]" q] diffIndex_snoc(1) [of p q n] diffIndex_snoc(2) [of p n q] by simp_all

lemma Relative_shortest: "follow p s = Some q \<Longrightarrow> length (Relative p q) \<le> length s"
proof (induction p s rule: follow.induct)
  case (1 p)
  then show ?case by (simp add: Relative_def)
next
  case (2 p s)
  then show ?case using Relative_step(2) [of "butlast p" "last p" q] by (auto split: if_splits)
next
  case (3 p n s)
  then show ?case using Relative_step(1) [of p q n] by simp
qed

text \<open>The relative path from one instance to another leads to it, and no shorter one does.\<close>

theorem Relative_leads:
  "follow rbxFrom (Relative rbxFrom rbxTo) = Some rbxTo \<and>
   (\<forall>s. length s < length (Relative rbxFrom rbxTo) \<longrightarrow> follow rbxFrom s \<noteq> Some rbxTo)"
  using follow_Relative Relative_shortest by (meson leD)

theorem Relative_leads_witness: "follow [''A'', ''B''] [Child ''C''] \<noteq> Some [''A'', ''D'']"
proof -
  have "length [Child ''C''] < length (Relative [''A'', ''B''] [''A'', ''D''])" by (simp add: Relative_def)
  then show ?thesis using Relative_leads [of "[''A'', ''B'']" "[''A'', ''D'']"] by blast
qed

section \<open>Containers\<close>

lemma arrayStartsWith_iff: "arrayStartsWith a b \<longleftrightarrow> (\<exists>c. a = b @ c \<or> b = a @ c)"
  by (induction a b rule: arrayStartsWith.induct) auto

text \<open>A container counts as the container of a path also if it lies below the path: in a game the
  path \<open>StarterPlayer\<close> itself is isolated, and so is the root.\<close>

theorem container_of_parent:
  "IsIsolated (newRojoResolver\<lparr>IsGame := True\<rparr>) [''StarterPlayer''] \<and> IsIsolated (newRojoResolver\<lparr>IsGame := True\<rparr>) [] \<and>
   GetFileRelation (newRojoResolver\<lparr>IsGame := True\<rparr>) [''StarterPlayer''] [''StarterPlayer'', ''StarterPlayerScripts'', ''M''] = FileRelationInToIn"
  by (simp add: IsIsolated_def GetFileRelation_def getContainer_def newRojoResolver_def defaultIsolatedContainers_def)


section \<open>Extensions of rooted paths\<close>

lemma lastDot_split: "CHR ''.'' \<notin> set b \<Longrightarrow> lastDot (a @ CHR ''.'' # b) = Some (length a)"
  by (simp add: lastDot_def takeWhile_append)

lemma lastDot_cases: "lastDot n = None \<and> CHR ''.'' \<notin> set n \<or> (\<exists>a b. n = a @ CHR ''.'' # b \<and> CHR ''.'' \<notin> set b \<and> lastDot n = Some (length a))"
proof (cases "CHR ''.'' \<in> set n")
  case True
  then obtain a b where "n = a @ CHR ''.'' # b" "CHR ''.'' \<notin> set b" using split_list_last by metis
  then show ?thesis using lastDot_split by auto
qed (simp add: lastDot_def)

definition parentPrefix :: "string list \<Rightarrow> string" where
  "parentPrefix ns = (if ns = [] then ''/'' else rooted ns @ ''/'')"

lemma rooted_prefix: "rooted (ns @ [n]) = parentPrefix ns @ n"
  by (simp add: rooted_snoc parentPrefix_def)

lemma extname_ext:
  assumes "list_all isName ns" "isName (a @ CHR ''.'' # b)" "CHR ''.'' \<notin> set b" "a \<noteq> []"
  shows "extname (rooted (ns @ [a @ CHR ''.'' # b])) = CHR ''.'' # b"
  using assms lastDot_split [OF assms(3), of a] Base_rooted [OF assms(1,2)] by (auto simp: extname_def isName_def)

lemma extname_plain: "list_all isName ns \<Longrightarrow> isName n \<Longrightarrow> CHR ''.'' \<notin> set n \<Longrightarrow> extname (rooted (ns @ [n])) = []"
  by (simp add: extname_def lastDot_def)

lemma extname_cases:
  assumes "list_all isName ns"
  shows "extname (rooted ns) = [] \<or> (\<exists>ms a b. ns = ms @ [a @ CHR ''.'' # b] \<and> a \<noteq> [] \<and> CHR ''.'' \<notin> set b \<and> extname (rooted ns) = CHR ''.'' # b)"
proof (cases ns rule: rev_cases)
  case Nil
  have "Base (rooted []) = ''/''" by (simp add: rooted_def Base_def trimSlashes_def)
  then show ?thesis using Nil by (simp add: extname_def lastDot_def)
next
  case (snoc ms n)
  then have n: "list_all isName ms" "isName n" using assms by auto
  from lastDot_cases [of n] show ?thesis
  proof
    assume "lastDot n = None \<and> CHR ''.'' \<notin> set n"
    then show ?thesis using extname_plain [OF n] snoc by simp
  next
    assume "\<exists>a b. n = a @ CHR ''.'' # b \<and> CHR ''.'' \<notin> set b \<and> lastDot n = Some (length a)"
    then obtain a b where ab: "n = a @ CHR ''.'' # b" "CHR ''.'' \<notin> set b" "lastDot n = Some (length a)" by blast
    show ?thesis
    proof (cases "a = []")
      case True
      then show ?thesis using ab snoc n by (simp add: extname_def Let_def)
    next
      case False
      then show ?thesis using extname_ext [OF n(1), of a b] n(2) ab snoc by auto
    qed
  qed
qed

lemma isName_longer: "isName (a @ s) \<Longrightarrow> a \<noteq> [] \<Longrightarrow> CHR ''/'' \<notin> set t \<Longrightarrow> 3 \<le> length t \<Longrightarrow> isName (a @ t)"
  by (cases a; cases t) (auto simp: isName_def Cons_eq_append_conv append_eq_Cons_conv)

lemma convertToLuau_lua:
  assumes "list_all isName ns" "isName (a @ ''.lua'')" "a \<noteq> []"
  shows "convertToLuau (rooted (ns @ [a @ ''.lua''])) = rooted (ns @ [a @ ''.luau''])"
proof -
  have "extname (rooted (ns @ [a @ ''.lua''])) = ''.lua''" using extname_ext [OF assms(1), of a "''lua''"] assms by simp
  then show ?thesis by (simp add: convertToLuau_def luaExt_def luauExt_def rooted_prefix)
qed

lemma convertToLuau_rooted:
  assumes "list_all isName ns"
  shows "\<exists>ms. list_all isName ms \<and> convertToLuau (rooted ns) = rooted ms \<and> extname (rooted ms) \<noteq> luaExt"
proof (cases "extname (rooted ns) = luaExt")
  case True
  then obtain ms a where a: "ns = ms @ [a @ ''.lua'']" "a \<noteq> []" using extname_cases [OF assms] by (auto simp: luaExt_def)
  have n: "isName (a @ ''.luau'')" using isName_longer [of a "''.lua''" "''.luau''"] a assms by simp
  then have "extname (rooted (ms @ [a @ ''.luau''])) = ''.luau''" using extname_ext [of ms a "''luau''"] a assms by simp
  then show ?thesis using convertToLuau_lua [of ms a] a assms n by (intro exI [of _ "ms @ [a @ ''.luau'']"]) (simp add: luaExt_def)
qed (use assms in \<open>auto simp: convertToLuau_def\<close>)

section \<open>Lookups\<close>

lemma descendant_rooted:
  assumes "list_all isName ps" "list_all isName fs"
  shows "isPathDescendantOf (rooted fs) (rooted ps) \<longleftrightarrow> (\<exists>t. fs = ps @ t \<and> (t = [] \<or> \<not> HasPrefix (hd t) ''..''))"
proof (cases "ps = fs")
  case False
  obtain b t where d: "dropCommon ps fs = (b, t)" by (cases "dropCommon ps fs")
  obtain xs where xs: "ps = xs @ b" "fs = xs @ t" "b = [] \<or> t = [] \<or> hd b \<noteq> hd t" using dropCommon_split [OF d] by blast
  have rel: "Rel (rooted ps) (rooted fs) = Some (Join (replicate (length b) ''..'' @ t) ''/'')" using Rel_rooted [OF assms] False d by simp
  have ne: "rooted ps \<noteq> rooted fs" using rooted_inj [OF assms] False by simp
  show ?thesis
  proof (cases b)
    case Nil
    then have "t \<noteq> []" using xs False by auto
    then obtain h u where t: "t = h # u" by (cases t) auto
    have "HasPrefix (Join t ''/'') ''..'' = HasPrefix h ''..''"
    proof (cases u)
      case (Cons v vs)
      have "h \<noteq> []" "CHR ''/'' \<notin> set h" using assms(2) xs t by (auto simp: isName_def)
      moreover have "h \<noteq> ''.''" using assms(2) xs t by (auto simp: isName_def)
      ultimately show ?thesis using t Cons by (cases h; cases "tl h") (auto simp: HasPrefix_def)
    qed (simp add: t)
    then show ?thesis using rel ne xs Nil t by (auto simp: isPathDescendantOf_def)
  next
    case (Cons y ys)
    have "\<not> (\<exists>u. fs = ps @ u)"
    proof
      assume "\<exists>u. fs = ps @ u"
      then obtain u where "t = b @ u" using xs by auto
      then show False using xs(3) Cons by auto
    qed
    moreover have "HasPrefix (Join (replicate (length b) ''..'' @ t) ''/'') ''..''"
      using Cons by (cases "replicate (length ys) ''..'' @ t") (auto simp: HasPrefix_def)
    ultimately show ?thesis using rel ne by (auto simp: isPathDescendantOf_def)
  qed
qed (auto simp: isPathDescendantOf_def)

text \<open>The instance name of a script: its file name without the extension and without \<open>.server\<close> or
  \<open>.client\<close>.\<close>

definition subExts :: "string list" where "subExts = [[], ''.server'', ''.client'']"

lemma take_ext: "take (length (parentPrefix ns @ a @ e) - length e) (parentPrefix ns @ a @ e) = parentPrefix ns @ a"
  by simp

lemma strip_script:
  assumes "list_all isName ns" "isName c" "CHR ''.'' \<notin> set c" "sub \<in> set subExts"
  shows "stripRojoExts (rooted (ns @ [c @ sub @ ''.luau''])) = rooted (ns @ [c])" "extname (rooted (ns @ [c @ sub @ ''.luau''])) = luauExt"
proof -
  have c: "c \<noteq> []" "CHR ''/'' \<notin> set c" using assms(2) by (auto simp: isName_def)
  have sl: "CHR ''/'' \<notin> set sub" using assms(4) by (auto simp: subExts_def)
  have n: "isName (c @ sub @ ''.luau'')" using isName_longer [of c "[]" "sub @ ''.luau''"] assms(2) c sl by simp
  have e: "extname (rooted (ns @ [c @ sub @ ''.luau''])) = ''.luau''" using extname_ext [OF assms(1), of "c @ sub" "''luau''"] n c by simp
  then show "extname (rooted (ns @ [c @ sub @ ''.luau''])) = luauExt" by (simp add: luauExt_def)
  have p: "take (length (rooted (ns @ [c @ sub @ ''.luau''])) - length ''.luau'') (rooted (ns @ [c @ sub @ ''.luau''])) = rooted (ns @ [c @ sub])"
    using take_ext [of ns "c @ sub" "''.luau''"] by (simp add: rooted_prefix)
  have s: "extname (rooted (ns @ [c @ sub])) = sub"
  proof (cases "sub = []")
    case True
    then show ?thesis using extname_plain [OF assms(1-3)] by simp
  next
    case False
    then have "sub = CHR ''.'' # ''server'' \<or> sub = CHR ''.'' # ''client''" using assms(4) by (auto simp: subExts_def)
    moreover have "isName (c @ sub)" using isName_longer [of c "[]" sub] assms(2) c sl calculation by auto
    ultimately show ?thesis using extname_ext [OF assms(1), of c "tl sub"] c by auto
  qed
  have q: "take (length (rooted (ns @ [c @ sub])) - length sub) (rooted (ns @ [c @ sub])) = rooted (ns @ [c])"
    using take_ext [of ns c sub] by (simp add: rooted_prefix)
  show "stripRojoExts (rooted (ns @ [c @ sub @ ''.luau''])) = rooted (ns @ [c])"
    using assms(4) unfolding stripRojoExts_def e p Let_def rojoModuleExts_def rojoScriptExts_def luauExt_def
    unfolding s q by (auto simp: subExts_def serverSubExt_def clientSubExt_def)
qed

lemma covering_script:
  assumes "list_all isName (ps @ ds)" "isName c" "CHR ''.'' \<notin> set c" "sub \<in> set subExts"
    "ds = [] \<or> \<not> HasPrefix (hd ds) ''..''" "FsPath part = rooted ps"
  shows "coveringPath (rooted (ps @ ds @ [c @ sub @ ''.luau''])) luauExt part =
    Some (PartRbxPath part @ ds @ (if c = initName then [] else [c]))"
proof -
  have names: "list_all isName ps" "list_all isName ds" using assms(1) by auto
  have c: "c \<noteq> []" "CHR ''/'' \<notin> set c" using assms(2) by (auto simp: isName_def)
  have n: "isName (c @ sub @ ''.luau'')"
    using isName_longer [of c "[]" "sub @ ''.luau''"] assms(2,4) c by (auto simp: subExts_def)
  have "\<not> HasPrefix (c @ sub @ ''.luau'') ''..''" using c assms(3) by (cases c) (auto simp: HasPrefix_def)
  then have d: "isPathDescendantOf (rooted (ps @ ds @ [c @ sub @ ''.luau''])) (rooted ps)"
    using descendant_rooted [of ps "ps @ ds @ [c @ sub @ ''.luau'']"] assms(5) names n by (cases ds) auto
  have s: "stripRojoExts (rooted (ps @ ds @ [c @ sub @ ''.luau''])) = rooted (ps @ ds @ [c])"
    using strip_script(1) [OF assms(1-4)] by simp
  have j: "Join (ds @ [c]) ''/'' \<noteq> []" using Join_names_not_Nil [of "ds @ [c]"] names(2) assms(2) by simp
  have sp: "Split (Join (ds @ [c]) ''/'') (CHR ''/'') = ds @ [c]" by (rule Split_Join) (use names(2) c in \<open>auto simp: list_all_iff isName_def\<close>)
  have "Join (ds @ [c]) ''/'' \<noteq> ''.''"
  proof
    assume "Join (ds @ [c]) ''/'' = ''.''"
    then have "ds @ [c] = [''.'']" using sp by simp
    then show False using assms(3) by simp
  qed
  then show ?thesis using d s j sp Rel_below [of ps "ds @ [c]"] names assms(2,6)
    by (simp add: coveringPath_def Let_def rojoScriptExts_def)
qed


lemma firstCovering_skip:
  "\<forall>q \<in> set pre. \<not> isPathDescendantOf f (FsPath q) \<Longrightarrow> firstCovering f e (pre @ qs) = firstCovering f e qs"
  by (induction pre) (auto simp: coveringPath_def)

lemma import_script:
  assumes "layout pt root out ds" "isName c" "CHR ''.'' \<notin> set c" "sub \<in> set subExts" "ext \<in> {''.ts'', ''.tsx''}"
  shows "GetImportPath pt (rooted (root @ ds @ [c @ sub @ ext])) False = Some (rooted (out @ ds @ [renameIndex c @ sub @ getLuauExt pt]))"
proof -
  define es where "es = (if sub = [] then [] else [tl sub])"
  then have es: "sub = concat (dotted es)" "es = [] \<or> es = [''server''] \<or> es = [''client'']"
    using assms(4) by (auto simp: subExts_def dotted_def)
  obtain e where e: "ext = CHR ''.'' # e" "e \<in> {''ts'', ''tsx''}" using assms(5) by auto
  have n: "c @ sub @ ext = dottedName c (es @ [e])" using es e by (simp add: dottedName_def dotted_snoc)
  have c: "c \<noteq> []" "CHR ''/'' \<notin> set c" using assms(2) by (auto simp: isName_def)
  have "CHR ''/'' \<notin> set (dottedName c es)" using es(2) c(2) by (auto simp: dottedName_def dotted_def)
  then have ok: "isName (dottedName c (es @ [e]))" using isName_ext [of c es e] e(2) by auto
  have parts: "parts_ok c (es @ [e])" using assms(3) es(2) e(2) by (auto simp: parts_ok_def)
  have "\<not> endsD es" using es(2) by (auto simp: endsD_def Cons_eq_append_conv)
  then show ?thesis using GetImportPath_rooted [OF assms(1) ok parts] n es(1) e(2)
    by (simp add: importName_def dottedName_def dotted_snoc getLuauExt_lext)
qed

lemma isName_renameIndex: "isName c \<Longrightarrow> CHR ''.'' \<notin> set c \<Longrightarrow> isName (renameIndex c) \<and> CHR ''.'' \<notin> set (renameIndex c)"
  by (simp add: renameIndex_def isName_def)

lemma convert_output:
  assumes "list_all isName ns" "isName c" "CHR ''.'' \<notin> set c" "sub \<in> set subExts"
  shows "convertToLuau (rooted (ns @ [c @ sub @ getLuauExt pt])) = rooted (ns @ [c @ sub @ ''.luau''])"
proof (cases "UseLuauExtension pt")
  case True
  then show ?thesis using strip_script(2) [OF assms] by (simp add: getLuauExt_def convertToLuau_def luauExt_def luaExt_def)
next
  case False
  have "isName ((c @ sub) @ ''.lua'')"
    using isName_longer [of c "[]" "sub @ ''.lua''"] assms(2,4) by (auto simp: subExts_def isName_def)
  then show ?thesis using convertToLuau_lua [OF assms(1), of "c @ sub"] False assms(2)
    by (simp add: getLuauExt_def luaExt_def isName_def)
qed

text \<open>C16: a module below the source directory is required by the path that the mount of the output
  directory has in the instance tree, the directories between, and the name of the source without
  its extensions; index and init files stand for their directory. Mounts before the one of the
  output directory must not cover the file, and no mapping of a single file may name it.\<close>

theorem module_instance_path:
  assumes "layout pt root out ds" "isName c" "CHR ''.'' \<notin> set c" "sub \<in> set subExts" "ext \<in> {''.ts'', ''.tsx''}"
    "ds = [] \<or> \<not> HasPrefix (hd ds) ''..''"
    "partitions r = pre @ part # post" "FsPath part = rooted out"
    "\<forall>q \<in> set pre. \<not> isPathDescendantOf (rooted (out @ ds @ [renameIndex c @ sub @ ''.luau''])) (FsPath q)"
    "map_of (filePathToRbxPathMap r) (rooted (out @ ds @ [renameIndex c @ sub @ ''.luau''])) = None"
  shows "\<exists>importPath. GetImportPath pt (rooted (root @ ds @ [c @ sub @ ext])) False = Some importPath \<and>
    GetRbxPathFromFilePath w r importPath = Some (PartRbxPath part @ ds @ (if c \<in> {''index'', ''init''} then [] else [c]))"
proof -
  let ?d = "renameIndex c" and ?f = "rooted (out @ ds @ [renameIndex c @ sub @ ''.luau''])"
  have names: "list_all isName (out @ ds)" using assms(1) by (simp add: layout_def)
  have d: "isName ?d" "CHR ''.'' \<notin> set ?d" using isName_renameIndex assms(2,3) by auto
  have "isName (?d @ sub @ getLuauExt pt)"
    using isName_longer [of ?d "[]" "sub @ getLuauExt pt"] d(1) assms(4) by (auto simp: subExts_def isName_def getLuauExt_def ext_defs)
  then have a: "Abs w (rooted (out @ ds @ [?d @ sub @ getLuauExt pt])) = Some (rooted (out @ ds @ [?d @ sub @ getLuauExt pt]))"
    using names by (simp add: Abs_def)
  have v: "convertToLuau (rooted (out @ ds @ [?d @ sub @ getLuauExt pt])) = ?f" using convert_output [OF names d assms(4)] by simp
  have e: "extname ?f = luauExt" using strip_script(2) [OF names d assms(4)] by simp
  have "firstCovering ?f luauExt (partitions r) = Some (PartRbxPath part @ ds @ (if ?d = initName then [] else [?d]))"
    unfolding assms(7) firstCovering_skip [OF assms(9)] using covering_script [OF names d assms(4,6,8)] by simp
  moreover have "(if ?d = initName then [] else [?d]) = (if c \<in> {''index'', ''init''} then [] else [c])"
    by (simp add: renameIndex_def initName_def)
  ultimately show ?thesis using import_script [OF assms(1-5)] a v e assms(10)
    by (simp add: GetRbxPathFromFilePath_def)
qed

theorem module_instance_path_witness:
  "\<forall>w. \<exists>importPath. GetImportPath (NewPathTranslator ''/p/src'' ''/p/out'' [] False False) ''/p/src/ui/index.server.ts'' False = Some importPath \<and>
    GetRbxPathFromFilePath w (addPartition ''/p/out'' (pushPath ''Game'' newRojoResolver)) importPath = Some [''Game'', ''ui'']"
proof
  fix w
  have l: "layout (NewPathTranslator ''/p/src'' ''/p/out'' [] False False) [''p'', ''src''] [''p'', ''out''] [''ui'']"
    by (simp add: layout_def NewPathTranslator_def rooted_def isName_def)
  have "\<exists>importPath. GetImportPath (NewPathTranslator ''/p/src'' ''/p/out'' [] False False)
      (rooted ([''p'', ''src''] @ [''ui''] @ [''index'' @ ''.server'' @ ''.ts''])) False = Some importPath \<and>
    GetRbxPathFromFilePath w (addPartition ''/p/out'' (pushPath ''Game'' newRojoResolver)) importPath =
      Some (PartRbxPath \<lparr>PartRbxPath = [''Game''], FsPath = ''/p/out''\<rparr> @ [''ui''] @ (if ''index'' \<in> {''index'', ''init''} then [] else [''index'']))"
    by (rule module_instance_path [OF l, of _ _ _ _ "[]" _ "[]"])
      (simp_all add: isName_def subExts_def HasPrefix_def addPartition_def pushPath_def newRojoResolver_def rooted_def)
  then show "\<exists>importPath. GetImportPath (NewPathTranslator ''/p/src'' ''/p/out'' [] False False) ''/p/src/ui/index.server.ts'' False = Some importPath \<and>
    GetRbxPathFromFilePath w (addPartition ''/p/out'' (pushPath ''Game'' newRojoResolver)) importPath = Some [''Game'', ''ui'']"
    by (simp add: rooted_def)
qed


section \<open>What a walk keeps\<close>

definition isRooted :: "string \<Rightarrow> bool" where
  "isRooted p \<longleftrightarrow> (\<exists>ns. list_all isName ns \<and> p = rooted ns)"

lemma cleanParts_names_acc:
  assumes "list_all isName ns"
  shows "list_all isName (cleanParts True (Split p (CHR ''/'')) (rev ns))"
proof -
  have "clean_form True (rev (rev ns))" using assms by (cases ns) (auto simp: list_all_iff isName_def)
  then have "clean_form True (cleanParts True (Split p (CHR ''/'')) (rev ns))" by (rule cleanParts_form)
  then show ?thesis using clean_form_rooted cleanParts_elems [of _ True "Split p (CHR ''/'')" "rev ns"] Split_no_sep [of _ p "CHR ''/''"] assms
    by (fastforce simp: list_all_iff isName_def)
qed

lemma isRooted_Join [intro]: "isRooted p \<Longrightarrow> isRooted (PathJoin p q)"
  unfolding isRooted_def by (metis PathJoin_rooted cleanParts_names_acc)

lemma isRooted_Dir [intro]: "isRooted p \<Longrightarrow> isRooted (Dir p)"
proof -
  assume "isRooted p"
  then obtain ns where ns: "list_all isName ns" "p = rooted ns" by (auto simp: isRooted_def)
  show ?thesis
  proof (cases ns rule: rev_cases)
    case Nil
    then show ?thesis using ns by (intro exI [of _ "[]"] iffD2 [OF isRooted_def]) (simp add: rooted_def Dir_def Clean_def IsAbs_def HasPrefix_def)
  qed (use ns in \<open>auto simp: isRooted_def\<close>)
qed

lemma isRooted_resolve [intro]: "isRooted b \<Longrightarrow> isRooted (rojoResolvePath b p)"
  using Clean_rooted_form [of p] by (auto simp: rojoResolvePath_def isRooted_def [of "Clean p"])

lemma isRooted_Luau [intro]: "isRooted p \<Longrightarrow> isRooted (convertToLuau p)"
  using convertToLuau_rooted by (fastforce simp: isRooted_def)

lemma Luau_not_lua: "isRooted p \<Longrightarrow> extname (convertToLuau p) \<noteq> luaExt"
  using convertToLuau_rooted by (fastforce simp: isRooted_def)

definition file_ok :: "string \<Rightarrow> bool" where
  "file_ok k \<longleftrightarrow> isRooted k \<and> extname k \<noteq> luaExt \<and> rojoModuleExts (extname k)"

definition resolver_ok :: "RojoResolver \<Rightarrow> bool" where
  "resolver_ok r \<longleftrightarrow> (\<forall>part \<in> set (partitions r). isRooted (FsPath part)) \<and>
     (\<forall>k \<in> fst ` set (filePathToRbxPathMap r). file_ok k) \<and> distinct (map fst (filePathToRbxPathMap r))"

lemma resolver_ok_update [simp]:
  "resolver_ok (warn s r) = resolver_ok r" "resolver_ok (walkConfig p r) = resolver_ok r" "resolver_ok (walkDirectory p r) = resolver_ok r"
  "resolver_ok (pushPath m r) = resolver_ok r" "resolver_ok (r\<lparr>IsGame := b\<rparr>) = resolver_ok r" "resolver_ok (r\<lparr>rbxPath := q\<rparr>) = resolver_ok r"
  by (simp_all add: resolver_ok_def warn_def walkConfig_def walkDirectory_def pushPath_def)

lemma rbxPath_update [simp]:
  "rbxPath (warn s r) = rbxPath r" "rbxPath (walkConfig p r) = rbxPath r" "rbxPath (walkDirectory p r) = rbxPath r"
  "rbxPath (pushPath m r) = rbxPath r @ [m]" "rbxPath (mapFile p r) = rbxPath r" "rbxPath (addPartition p r) = rbxPath r"
  by (simp_all add: warn_def walkConfig_def walkDirectory_def pushPath_def mapFile_def addPartition_def)

lemma resolver_ok_mapFile: "resolver_ok r \<Longrightarrow> file_ok p \<Longrightarrow> resolver_ok (mapFile p r)"
  by (auto simp: resolver_ok_def mapFile_def distinct_update dom_update)

lemma resolver_ok_addPartition: "resolver_ok r \<Longrightarrow> isRooted p \<Longrightarrow> resolver_ok (addPartition p r)"
  by (simp add: resolver_ok_def addPartition_def)

lemma resolver_ok_popPath: "popPath r = Some r' \<Longrightarrow> resolver_ok r' = resolver_ok r \<and> rbxPath r' = butlast (rbxPath r)"
  by (auto simp: popPath_def split: if_splits)

text \<open>A step of the walk that leaves the stack as it was and the resolver well-formed.\<close>

definition keeps :: "(RojoResolver \<Rightarrow> RojoResolver option) \<Rightarrow> bool" where
  "keeps m \<longleftrightarrow> (\<forall>r r'. m r = Some r' \<longrightarrow> rbxPath r' = rbxPath r \<and> (resolver_ok r \<longrightarrow> resolver_ok r'))"

lemma keeps_foldM: "(\<And>x. x \<in> set xs \<Longrightarrow> keeps (f x)) \<Longrightarrow> keeps (foldM f xs)"
proof (induction xs)
  case (Cons x xs)
  have "keeps (f x)" "keeps (foldM f xs)" using Cons by auto
  then show ?case by (auto simp: keeps_def bind_eq_Some_conv)
qed (simp add: keeps_def)

lemma keeps_bracket:
  assumes "keeps body"
  shows "keeps (\<lambda>r. body (if b then r else pushPath m r) \<bind> (\<lambda>r. if b then Some r else popPath r))"
proof -
  have "rbxPath r' = rbxPath r \<and> (resolver_ok r \<longrightarrow> resolver_ok r')" if "body (pushPath m r) = Some r1" "popPath r1 = Some r'" for r r1 r'
    using assms that resolver_ok_popPath [OF that(2)] by (fastforce simp: keeps_def)
  then show ?thesis using assms by (auto simp: keeps_def bind_eq_Some_conv)
qed

lemma keeps_bind: "keeps m \<Longrightarrow> keeps m' \<Longrightarrow> keeps (\<lambda>r. m r \<bind> m')"
  by (auto simp: keeps_def bind_eq_Some_conv)


lemma keeps_Some: "(\<And>r. rbxPath (f r) = rbxPath r \<and> (resolver_ok r \<longrightarrow> resolver_ok (f r))) \<Longrightarrow> keeps (\<lambda>r. Some (f r))"
  by (auto simp: keeps_def)

lemma keeps_pre: "keeps m \<Longrightarrow> (\<And>r. rbxPath (f r) = rbxPath r \<and> (resolver_ok r \<longrightarrow> resolver_ok (f r))) \<Longrightarrow> keeps (\<lambda>r. m (f r))"
  by (auto simp: keeps_def)

lemma keeps_if: "keeps m \<Longrightarrow> keeps (\<lambda>r. if b then m r else Some r)"
  by (simp add: keeps_def)

text \<open>What happens between the push and the pop of a tree and of a directory.\<close>

definition treeInner :: "(string \<times> string \<times> tree \<times> bool) walk \<Rightarrow> string walk \<Rightarrow> string \<Rightarrow> tree \<Rightarrow> RojoResolver \<Rightarrow> RojoResolver option" where
  "treeInner pt pp b t r = (case Path t of None \<Rightarrow> Some r | Some p \<Rightarrow> pp (rojoResolvePath b p) r) \<bind>
     (\<lambda>r. foldM (\<lambda>c. pt (b, fst c, snd c, False)) (Children t) (if ClassName t = ''DataModel'' then r\<lparr>IsGame := True\<rparr> else r))"

definition searchInner :: "(string \<times> bool) walk \<Rightarrow> (string \<times> string) walk \<Rightarrow> fs \<Rightarrow> string \<Rightarrow> (string \<times> fileKind) list \<Rightarrow> RojoResolver \<Rightarrow> RojoResolver option" where
  "searchInner pc sd w d entries r =
     foldM (\<lambda>e r. if fst e \<noteq> rojoDefaultName \<and> rojoFileRegex (fst e) \<and> snd (entryKind w d e)
       then pc (PathJoin d (fst e), False) r else Some r) entries r \<bind>
     foldM (\<lambda>e r. if fst (entryKind w d e) then sd (PathJoin d (fst e), fst e) r else Some r) entries"

lemma parseTreeBody_bracket:
  "parseTreeBody pt pp (b, nm, t, d) = (\<lambda>r. treeInner pt pp b t (if d then r else pushPath nm r) \<bind> (\<lambda>r. if d then Some r else popPath r))"
  by (rule ext) (simp add: parseTreeBody_def treeInner_def Let_def)

lemma searchDirectoryBody_bracket:
  "searchDirectoryBody pc sd w (d, i) = (\<lambda>r.
     (case ReadDir w (Realpath w d) of
        None \<Rightarrow> Some (walkDirectory (Realpath w d) r)
      | Some entries \<Rightarrow> if rojoDefaultName \<in> fst ` set entries then pc (PathJoin d rojoDefaultName, False) (walkDirectory (Realpath w d) r)
          else (\<lambda>r. searchInner pc sd w d entries (if i = [] then r else pushPath i r) \<bind> (\<lambda>r. if i = [] then Some r else popPath r))
            (walkDirectory (Realpath w d) r)))"
  by (rule ext) (simp add: searchDirectoryBody_def searchInner_def Let_def split: option.split)

lemma keeps_parseConfigBody:
  assumes "\<And>b nm t d. isRooted b \<Longrightarrow> keeps (pt (b, nm, t, d))" "isRooted p"
  shows "keeps (parseConfigBody pt w (p, d))"
proof -
  have k: "keeps (pt (Dir p, nm, t, d))" for nm t using assms by blast
  have "rbxPath r' = rbxPath r \<and> (resolver_ok r \<longrightarrow> resolver_ok r')" if "pt (Dir p, nm, t, d) (walkConfig q r) = Some r'" for r r' nm t q
    using k [of nm t] that by (fastforce simp: keeps_def)
  then show ?thesis
    by (auto simp: keeps_def parseConfigBody_def Let_def bind_eq_Some_conv case_prod_unfold split: if_splits)
qed

lemma keeps_treeInner:
  assumes "\<And>b nm t d. isRooted b \<Longrightarrow> keeps (pt (b, nm, t, d))" "\<And>p. isRooted p \<Longrightarrow> keeps (pp p)" "isRooted b"
  shows "keeps (treeInner pt pp b t)"
proof -
  have "keeps (foldM (\<lambda>c. pt (b, fst c, snd c, False)) (Children t))" using assms(1,3) by (intro keeps_foldM) auto
  then have "keeps (\<lambda>r. foldM (\<lambda>c. pt (b, fst c, snd c, False)) (Children t) (if ClassName t = ''DataModel'' then r\<lparr>IsGame := True\<rparr> else r))"
    by (rule keeps_pre) simp
  moreover have "keeps (\<lambda>r. case Path t of None \<Rightarrow> Some r | Some p \<Rightarrow> pp (rojoResolvePath b p) r)"
    using assms(2) [OF isRooted_resolve [OF assms(3)]] by (cases "Path t") (auto intro: keeps_Some)
  ultimately show ?thesis unfolding treeInner_def by (intro keeps_bind)
qed

lemma keeps_parseTreeBody:
  assumes "\<And>b nm t d. isRooted b \<Longrightarrow> keeps (pt (b, nm, t, d))" "\<And>p. isRooted p \<Longrightarrow> keeps (pp p)" "isRooted b"
  shows "keeps (parseTreeBody pt pp (b, nm, t, d))"
  unfolding parseTreeBody_bracket by (rule keeps_bracket, rule keeps_treeInner) (use assms in auto)

lemma keeps_parsePathBody:
  assumes "\<And>p d. isRooted p \<Longrightarrow> keeps (pc (p, d))" "\<And>d i. isRooted d \<Longrightarrow> keeps (sd (d, i))" "isRooted p"
  shows "keeps (parsePathBody pc sd w p)"
proof -
  let ?p = "convertToLuau p"
  have r: "isRooted ?p" "extname ?p \<noteq> luaExt" using assms(3) Luau_not_lua by auto
  have "keeps (pc (?p, True))" "keeps (pc (PathJoin ?p rojoDefaultName, True))" "keeps (sd (?p, []))" using assms(1,2) r(1) by auto
  moreover have "rojoModuleExts (extname ?p) \<Longrightarrow> file_ok ?p" using r by (simp add: file_ok_def)
  ultimately show ?thesis
    by (auto simp: keeps_def parsePathBody_def Let_def resolver_ok_mapFile resolver_ok_addPartition r(1) split: if_splits)
qed

lemma keeps_searchInner:
  assumes "\<And>p d. isRooted p \<Longrightarrow> keeps (pc (p, d))" "\<And>d i. isRooted d \<Longrightarrow> keeps (sd (d, i))" "isRooted d"
  shows "keeps (searchInner pc sd w d entries)"
proof -
  have k: "keeps (pc (PathJoin d q, b))" "keeps (sd (PathJoin d q, j))" for q b j
    using assms(1,2) isRooted_Join [OF assms(3)] by blast+
  show ?thesis unfolding searchInner_def by (intro keeps_bind keeps_foldM keeps_if k)
qed

lemma keeps_searchDirectoryBody:
  assumes "\<And>p d. isRooted p \<Longrightarrow> keeps (pc (p, d))" "\<And>d i. isRooted d \<Longrightarrow> keeps (sd (d, i))" "isRooted d"
  shows "keeps (searchDirectoryBody pc sd w (d, i))"
proof -
  have "keeps (searchInner pc sd w d es)" for es by (rule keeps_searchInner) (use assms in auto)
  note b = keeps_pre [OF keeps_bracket [OF this, where b = "i = []" and m = i], of "walkDirectory (Realpath w d)"]
  have "keeps (\<lambda>r. pc (PathJoin d rojoDefaultName, False) (walkDirectory (Realpath w d) r))"
    by (rule keeps_pre [OF assms(1) [OF isRooted_Join [OF assms(3)]]]) simp
  moreover have "keeps (\<lambda>r. Some (walkDirectory (Realpath w d) r))" by (rule keeps_Some) simp
  ultimately show ?thesis
    unfolding searchDirectoryBody_bracket using b
    by (cases "ReadDir w (Realpath w d)"; cases "rojoDefaultName \<in> fst ` set (the (ReadDir w (Realpath w d)))") auto
qed

lemma walk_keeps:
  "(\<forall>p d. isRooted p \<longrightarrow> keeps (parseConfig w n (p, d))) \<and> (\<forall>b nm t d. isRooted b \<longrightarrow> keeps (parseTree w n (b, nm, t, d))) \<and>
   (\<forall>p. isRooted p \<longrightarrow> keeps (parsePath w n p)) \<and> (\<forall>d i. isRooted d \<longrightarrow> keeps (searchDirectory w n (d, i)))"
proof (induction n)
  case (Suc n)
  then show ?case
    by (simp add: keeps_parseConfigBody keeps_parseTreeBody keeps_parsePathBody keeps_searchDirectoryBody)
qed (simp add: keeps_def)


section \<open>Snapshots\<close>

lemma rooted_clean: "isRooted p \<Longrightarrow> Clean p = p \<and> p \<noteq> []"
  by (auto simp: isRooted_def)

lemma validatePartitions_ok: "\<forall>part \<in> set ps. isRooted (FsPath part) \<Longrightarrow> validatePartitions i ps = None"
  by (induction ps arbitrary: i) (auto simp: rooted_clean)

lemma validateFiles_ok:
  "\<forall>k \<in> fst ` set ms. file_ok k \<Longrightarrow> distinct (map fst ms) \<Longrightarrow> set seen \<inter> fst ` set ms = {} \<Longrightarrow> validateFiles i ms seen = None"
proof (induction ms arbitrary: i seen)
  case (Cons m ms)
  then have "file_ok (fst m)" by simp
  then have "Clean (fst m) = fst m" "fst m \<noteq> []" "convertToLuau (fst m) = fst m" "rojoModuleExts (extname (fst m))"
    using rooted_clean by (auto simp: file_ok_def convertToLuau_def)
  then show ?case using Cons by auto
qed simp

lemma update_fold: "distinct (map fst ms) \<Longrightarrow> fst ` set acc \<inter> fst ` set ms = {} \<Longrightarrow>
  foldl (\<lambda>m f. AList.update (fst f) (snd f) m) acc ms = acc @ ms"
proof (induction ms arbitrary: acc)
  case (Cons m ms)
  have "AList.update (fst m) (snd m) acc = acc @ [m]" using Cons.prems(2)
    by (induction acc) auto
  then show ?case using Cons by auto
qed simp

lemma sort_key_map_of: "distinct (map fst ms) \<Longrightarrow> map_of (sort_key fst ms) = map_of ms"
proof -
  assume d: "distinct (map fst ms)"
  have "mset (map fst (sort_key fst ms)) = mset (map fst ms)" by simp
  then have "distinct (map fst (sort_key fst ms))" using d mset_eq_imp_distinct_iff by blast
  moreover have "set (sort_key fst ms) = set ms" by simp
  ultimately show ?thesis using d map_of_inject_set by blast
qed

lemma sort_key_twice: "sort_key f (sort_key f xs) = sort_key f xs"
  by (rule sort_key_id_if_sorted) simp

lemma remdups_adj_twice: "remdups_adj (remdups_adj xs) = remdups_adj xs"
proof (induction xs rule: remdups_adj.induct)
  case (3 x y xs)
  obtain z where z: "remdups_adj (y # xs) = y # z" by (metis remdups_adj_Cons_alt)
  show ?case using 3 z by (cases "x = y") simp_all
qed simp_all

lemma sortedStrings_twice: "sortedStrings (sortedStrings xs) = sortedStrings xs"
proof -
  have "sorted (remdups_adj (sort xs))" by simp
  then have "sort (remdups_adj (sort xs)) = remdups_adj (sort xs)" by (rule sorted_sort_id)
  then show ?thesis by (simp add: sortedStrings_def remdups_adj_twice)
qed

text \<open>The resolver that a snapshot restores.\<close>

definition restored :: "RojoResolver \<Rightarrow> RojoResolver" where
  "restored r = r\<lparr>filePathToRbxPathMap := sort_key fst (filePathToRbxPathMap r),
     walkedConfigs := sortedStrings (walkedConfigs r), walkedDirectories := sortedStrings (walkedDirectories r)\<rparr>"

lemma FromState_GetState:
  assumes "resolver_ok r"
  shows "FromState (GetState r) = Inr (restored r)"
proof -
  have d: "distinct (map fst (sort_key fst (filePathToRbxPathMap r)))"
    using assms mset_eq_imp_distinct_iff [of "map fst (sort_key fst (filePathToRbxPathMap r))" "map fst (filePathToRbxPathMap r)"]
    by (simp add: resolver_ok_def)
  have "validateResolverState (GetState r) = None"
    using assms validatePartitions_ok validateFiles_ok [OF _ d, of "[]"]
    by (simp add: validateResolverState_def GetState_def resolver_ok_def)
  then show ?thesis using update_fold [OF d, of "[]"]
    by (simp add: FromState_def GetState_def restored_def sortedStrings_twice)
qed

lemma GetState_restored: "GetState (restored r) = GetState r"
  by (simp add: GetState_def restored_def sortedStrings_twice sort_key_twice)

lemma lookup_restored: "resolver_ok r \<Longrightarrow> GetRbxPathFromFilePath w (restored r) f = GetRbxPathFromFilePath w r f"
  by (simp add: GetRbxPathFromFilePath_def restored_def sort_key_map_of resolver_ok_def Let_def split: option.split)

lemma resolver_ok_new: "resolver_ok newRojoResolver"
  by (simp add: resolver_ok_def newRojoResolver_def)

lemma isRooted_Clean: "IsAbs p \<Longrightarrow> isRooted (Clean p)"
  using Clean_rooted_form [of p] by (simp add: isRooted_def)

lemma isRooted_Abs: "Abs w p = Some a \<Longrightarrow> Getwd w = Some wd \<Longrightarrow> isRooted wd \<Longrightarrow> isRooted a"
  using isRooted_Clean by (auto simp: Abs_def split: if_splits)

text \<open>A resolver that a walk over a project has built is accepted by \<open>FromState\<close> when it is read from
  its own snapshot, and the restored one answers every lookup like the original and has the same
  snapshot again. The stack of the walk is empty at the end.\<close>

theorem snapshot_restores:
  assumes "FromPath w n p = Some r" "Abs w p = Some a" "Getwd w = Some wd" "isRooted wd"
  shows "rbxPath r = [] \<and> (\<exists>r'. FromState (GetState r) = Inr r' \<and> GetState r' = GetState r \<and>
    (\<forall>f. GetRbxPathFromFilePath w r' f = GetRbxPathFromFilePath w r f) \<and>
    (\<forall>f m. GetFileRelation r' f m = GetFileRelation r f m \<and> GetNetworkType r' f = GetNetworkType r f))"
proof -
  have "isRooted a" using isRooted_Abs assms(2-4) by blast
  then have "keeps (parseConfig w n (a, True))" using walk_keeps [of w n] by blast
  moreover have "parseConfig w n (a, True) newRojoResolver = Some r" using assms(1,2) by (simp add: FromPath_def)
  ultimately have r: "resolver_ok r" "rbxPath r = []" using resolver_ok_new by (auto simp: keeps_def newRojoResolver_def)
  have "GetFileRelation (restored r) f m = GetFileRelation r f m \<and> GetNetworkType (restored r) f = GetNetworkType r f" for f m
    by (simp add: GetFileRelation_def GetNetworkType_def getContainer_def restored_def)
  then show ?thesis using r FromState_GetState [OF r(1)] GetState_restored lookup_restored [OF r(1)] by blast
qed


section \<open>The walk returns\<close>

definition below :: "'a walk \<Rightarrow> 'a walk \<Rightarrow> bool" where
  "below m m' \<longleftrightarrow> (\<forall>x r r'. m x r = Some r' \<longrightarrow> m' x r = Some r')"

lemma belowD: "below m m' \<Longrightarrow> m x r = Some r' \<Longrightarrow> m' x r = Some r'"
  by (auto simp: below_def)

lemma foldM_below: "(\<And>x r r'. f x r = Some r' \<Longrightarrow> g x r = Some r') \<Longrightarrow> foldM f xs r = Some r' \<Longrightarrow> foldM g xs r = Some r'"
  by (induction xs arbitrary: r) (fastforce simp: bind_eq_Some_conv)+

lemma below_config: "below pt pt' \<Longrightarrow> below (parseConfigBody pt w) (parseConfigBody pt' w)"
  unfolding below_def by (auto simp: parseConfigBody_def Let_def bind_eq_Some_conv case_prod_unfold split: if_splits)

lemma below_tree:
  assumes "below pt pt'" "below pp pp'"
  shows "below (parseTreeBody pt pp) (parseTreeBody pt' pp')"
proof -
  have f: "foldM (\<lambda>c. pt' (b, fst c, snd c, False)) xs r = Some r'" if "foldM (\<lambda>c. pt (b, fst c, snd c, False)) xs r = Some r'" for b xs r r'
    by (rule foldM_below [OF _ that]) (rule belowD [OF assms(1)])
  have "treeInner pt' pp' b t r = Some r'" if s: "treeInner pt pp b t r = Some r'" for b t r r'
  proof -
    obtain r1 where "(case Path t of None \<Rightarrow> Some r | Some p \<Rightarrow> pp (rojoResolvePath b p) r) = Some r1"
      "foldM (\<lambda>c. pt (b, fst c, snd c, False)) (Children t) (if ClassName t = ''DataModel'' then r1\<lparr>IsGame := True\<rparr> else r1) = Some r'"
      using s unfolding treeInner_def bind_eq_Some_conv by blast
    moreover from this(1) have "(case Path t of None \<Rightarrow> Some r | Some p \<Rightarrow> pp' (rojoResolvePath b p) r) = Some r1"
      using belowD [OF assms(2)] by (cases "Path t") auto
    ultimately show ?thesis unfolding treeInner_def using f by simp
  qed
  then show ?thesis unfolding below_def by (fastforce simp: parseTreeBody_bracket bind_eq_Some_conv)
qed

lemma below_path: "below pc pc' \<Longrightarrow> below sd sd' \<Longrightarrow> below (parsePathBody pc sd w) (parsePathBody pc' sd' w)"
  unfolding below_def by (simp add: parsePathBody_def Let_def)

lemma below_search:
  assumes "below pc pc'" "below sd sd'"
  shows "below (searchDirectoryBody pc sd w) (searchDirectoryBody pc' sd' w)"
proof -
  have "searchInner pc' sd' w d es r = Some r'" if s: "searchInner pc sd w d es r = Some r'" for d es r r'
  proof -
    obtain r1 where r1: "foldM (\<lambda>e r. if fst e \<noteq> rojoDefaultName \<and> rojoFileRegex (fst e) \<and> snd (entryKind w d e)
        then pc (PathJoin d (fst e), False) r else Some r) es r = Some r1"
      "foldM (\<lambda>e r. if fst (entryKind w d e) then sd (PathJoin d (fst e), fst e) r else Some r) es r1 = Some r'"
      using s unfolding searchInner_def bind_eq_Some_conv by blast
    have "foldM (\<lambda>e r. if fst e \<noteq> rojoDefaultName \<and> rojoFileRegex (fst e) \<and> snd (entryKind w d e)
        then pc' (PathJoin d (fst e), False) r else Some r) es r = Some r1"
      by (rule foldM_below [OF _ r1(1)]) (auto dest: belowD [OF assms(1)] split: if_splits)
    moreover have "foldM (\<lambda>e r. if fst (entryKind w d e) then sd' (PathJoin d (fst e), fst e) r else Some r) es r1 = Some r'"
      by (rule foldM_below [OF _ r1(2)]) (auto dest: belowD [OF assms(2)] split: if_splits)
    ultimately show ?thesis by (simp add: searchInner_def)
  qed
  then show ?thesis using belowD [OF assms(1)] unfolding below_def
    by (fastforce simp: searchDirectoryBody_bracket bind_eq_Some_conv split: option.splits if_splits)
qed

lemma walk_Suc: "below (parseConfig w n) (parseConfig w (Suc n)) \<and> below (parseTree w n) (parseTree w (Suc n)) \<and>
  below (parsePath w n) (parsePath w (Suc n)) \<and> below (searchDirectory w n) (searchDirectory w (Suc n))"
proof (induction n)
  case (Suc n)
  then show ?case
    unfolding parseConfig.simps(2) parseTree.simps(2) parsePath.simps(2) searchDirectory.simps(2)
    by (intro conjI below_config below_tree below_path below_search) simp_all
qed (simp add: below_def)

lemma walk_mono:
  assumes "n \<le> k"
  shows "below (parseConfig w n) (parseConfig w k)" "below (parseTree w n) (parseTree w k)"
    "below (parsePath w n) (parsePath w k)" "below (searchDirectory w n) (searchDirectory w k)"
proof -
  have "below (parseConfig w n) (parseConfig w k) \<and> below (parseTree w n) (parseTree w k) \<and>
    below (parsePath w n) (parsePath w k) \<and> below (searchDirectory w n) (searchDirectory w k)"
    using assms
  proof (induction k rule: dec_induct)
    case (step k)
    then show ?case using walk_Suc [of w k] unfolding below_def by meson
  qed (simp add: below_def)
  then show "below (parseConfig w n) (parseConfig w k)" "below (parseTree w n) (parseTree w k)"
    "below (parsePath w n) (parsePath w k)" "below (searchDirectory w n) (searchDirectory w k)" by blast+
qed


definition returns :: "(nat \<Rightarrow> 'a walk) \<Rightarrow> 'a \<Rightarrow> bool" where
  "returns m x \<longleftrightarrow> (\<exists>n. \<forall>r. m n x r \<noteq> None)"

lemma returns_from:
  assumes "\<And>n k. n \<le> k \<Longrightarrow> below (m n) (m k)" "returns m x"
  shows "\<exists>n. \<forall>k \<ge> n. \<forall>r. m k x r \<noteq> None"
proof -
  obtain n where "\<forall>r. m n x r \<noteq> None" using assms(2) by (auto simp: returns_def)
  then have "\<forall>r. m k x r \<noteq> None" if "n \<le> k" for k using belowD [OF assms(1) [OF that]] by (metis not_Some_eq)
  then show ?thesis by blast
qed

lemma returns_fold:
  fixes f :: "nat \<Rightarrow> 'a walk"
  assumes "\<And>x. x \<in> set xs \<Longrightarrow> \<exists>n. \<forall>k \<ge> n. \<forall>r. f k x r \<noteq> None"
  shows "\<exists>n. \<forall>k \<ge> n. \<forall>r. foldM (f k) xs r \<noteq> None"
  using assms
proof (induction xs)
  case (Cons x xs)
  obtain n where n: "\<forall>k \<ge> n. \<forall>r. f k x r \<noteq> None" using Cons.prems [of x] by auto
  obtain m where m: "\<forall>k \<ge> m. \<forall>r. foldM (f k) xs r \<noteq> None" using Cons by (metis list.set_intros(2))
  have "foldM (f k) (x # xs) r \<noteq> None" if k: "max n m \<le> k" for k r
  proof -
    have "n \<le> k" "m \<le> k" using k by simp_all
    then have "f k x r \<noteq> None" using n by blast
    then obtain r1 where "f k x r = Some r1" by blast
    then show ?thesis using m \<open>m \<le> k\<close> by simp
  qed
  then show ?case by blast
qed simp

lemma bracket_returns: "keeps body \<Longrightarrow> body (if b then r else pushPath m r) \<noteq> None \<Longrightarrow>
  body (if b then r else pushPath m r) \<bind> (\<lambda>r. if b then Some r else popPath r) \<noteq> None"
  by (cases b) (auto simp: keeps_def popPath_def)

lemmas keeps_walk =
  walk_keeps [THEN conjunct1, rule_format] walk_keeps [THEN conjunct2, THEN conjunct1, rule_format]
  walk_keeps [THEN conjunct2, THEN conjunct2, THEN conjunct1, rule_format] walk_keeps [THEN conjunct2, THEN conjunct2, THEN conjunct2, rule_format]

fun treePaths :: "tree \<Rightarrow> string list" and childPaths :: "(string \<times> tree) list \<Rightarrow> string list" where
  "treePaths (Tree c p ch) = (case p of None \<Rightarrow> [] | Some q \<Rightarrow> [q]) @ childPaths ch"
| "childPaths [] = []"
| "childPaths ((k, t) # ch) = treePaths t @ childPaths ch"

lemma childPaths_sub: "(k, t) \<in> set ch \<Longrightarrow> set (treePaths t) \<subseteq> set (childPaths ch)"
  by (induction ch rule: treePaths_childPaths.induct(2) [where P = "\<lambda>_. True"]) auto

lemma returns_tree:
  assumes "isRooted b" "\<And>q. q \<in> set (treePaths t) \<Longrightarrow> returns (parsePath w) (rojoResolvePath b q)"
  shows "returns (parseTree w) (b, nm, t, d)"
  using assms(2)
proof (induction t arbitrary: nm d)
  case (Tree c p ch)
  have "\<exists>n. \<forall>k \<ge> n. \<forall>r. parseTree w k (b, fst e, snd e, False) r \<noteq> None" if e: "e \<in> set ch" for e
  proof -
    have "returns (parseTree w) (b, fst e, snd e, False)"
    proof (rule Tree.IH [OF e])
      show "snd e \<in> Basic_BNFs.snds e" by (cases e) simp
      show "returns (parsePath w) (rojoResolvePath b q)" if "q \<in> set (treePaths (snd e))" for q
        using Tree.prems [of q] that childPaths_sub [of "fst e" "snd e" ch] e by auto
    qed
    then show ?thesis by (intro returns_from) (use walk_mono(2) in auto)
  qed
  from returns_fold [of ch "\<lambda>k c. parseTree w k (b, fst c, snd c, False)", OF this]
  obtain n where n: "\<forall>k \<ge> n. \<forall>r. foldM (\<lambda>c. parseTree w k (b, fst c, snd c, False)) ch r \<noteq> None" by blast
  obtain m where m: "\<forall>k \<ge> m. \<forall>r. (case p of None \<Rightarrow> Some r | Some q \<Rightarrow> parsePath w k (rojoResolvePath b q) r) \<noteq> None"
  proof (cases p)
    case (Some q)
    then have "returns (parsePath w) (rojoResolvePath b q)" using Tree.prems [of q] by simp
    then have "\<exists>n. \<forall>k \<ge> n. \<forall>r. parsePath w k (rojoResolvePath b q) r \<noteq> None" by (intro returns_from) (use walk_mono(3) in auto)
    then show ?thesis using that Some by auto
  qed (use that in auto)
  let ?k = "max n m"
  have "treeInner (parseTree w ?k) (parsePath w ?k) b (Tree c p ch) r \<noteq> None" for r
  proof -
    obtain r1 where r1: "(case p of None \<Rightarrow> Some r | Some q \<Rightarrow> parsePath w ?k (rojoResolvePath b q) r) = Some r1"
      using m by (metis max.cobounded2 not_Some_eq)
    show ?thesis using r1 n by (simp add: treeInner_def)
  qed
  then have "\<forall>r. parseTree w (Suc ?k) (b, nm, Tree c p ch, d) r \<noteq> None"
    unfolding parseTree.simps parseTreeBody_bracket
    by (intro allI bracket_returns keeps_treeInner keeps_walk assms(1))
  then show ?case unfolding returns_def by blast
qed

lemma returns_config:
  assumes "isRooted p" "\<And>v. readConfig w (Realpath w p) = Some v \<Longrightarrow> validateConfig v = [] \<Longrightarrow>
    returns (parseTree w) (Dir p, fst (configFromJSON v), snd (configFromJSON v), d)"
  shows "returns (parseConfig w) (p, d)"
proof -
  obtain v where v: "readConfig w (Realpath w p) = Some v" using parseJSON_returns by (fastforce simp: readConfig_def split: option.splits)
  have "\<exists>n. \<forall>r. validateConfig v = [] \<longrightarrow> parseTree w n (Dir p, fst (configFromJSON v), snd (configFromJSON v), d) r \<noteq> None"
    using assms(2) [OF v] by (cases "validateConfig v = []") (auto simp: returns_def)
  then obtain n where "\<forall>r. validateConfig v = [] \<longrightarrow> parseTree w n (Dir p, fst (configFromJSON v), snd (configFromJSON v), d) r \<noteq> None" by blast
  then have "\<forall>r. parseConfig w (Suc n) (p, d) r \<noteq> None" using v by (simp add: parseConfigBody_def Let_def case_prod_unfold)
  then show ?thesis unfolding returns_def by blast
qed


lemma returns_path:
  assumes "returns (parseConfig w) (convertToLuau p, True)" "returns (searchDirectory w) (convertToLuau p, [])"
    "\<And>es. ReadDir w (Realpath w (convertToLuau p)) = Some es \<Longrightarrow> rojoDefaultName \<in> fst ` set es \<Longrightarrow>
      returns (parseConfig w) (PathJoin (convertToLuau p) rojoDefaultName, True)"
  shows "returns (parsePath w) p"
proof -
  let ?p = "convertToLuau p" and ?dp = "PathJoin (convertToLuau p) rojoDefaultName"
  obtain a where a: "\<forall>k \<ge> a. \<forall>r. parseConfig w k (?p, True) r \<noteq> None" using returns_from [OF walk_mono(1) assms(1)] by blast
  obtain b where b: "\<forall>k \<ge> b. \<forall>r. searchDirectory w k (?p, []) r \<noteq> None" using returns_from [OF walk_mono(4) assms(2)] by blast
  obtain c where c: "dirContains w (Realpath w ?p) rojoDefaultName \<longrightarrow> (\<forall>k \<ge> c. \<forall>r. parseConfig w k (?dp, True) r \<noteq> None)"
  proof (cases "dirContains w (Realpath w ?p) rojoDefaultName")
    case True
    then have "returns (parseConfig w) (?dp, True)" using assms(3) by (auto simp: dirContains_def split: option.splits)
    from returns_from [OF walk_mono(1) this] show ?thesis using that by blast
  qed (use that in auto)
  let ?k = "max a (max b c)"
  have "isDirectory w (if pathExists w ?p then Realpath w ?p else ?p) \<Longrightarrow> (if pathExists w ?p then Realpath w ?p else ?p) = Realpath w ?p"
    by (auto simp: isDirectory_def pathExists_def)
  then have "\<forall>r. parsePath w (Suc ?k) p r \<noteq> None" using a b c by (auto simp: parsePathBody_def Let_def)
  then show ?thesis unfolding returns_def by blast
qed

lemma returns_search:
  assumes "isRooted d" "\<And>es e b. ReadDir w (Realpath w d) = Some es \<Longrightarrow> e \<in> set es \<Longrightarrow> returns (parseConfig w) (PathJoin d (fst e), b)"
    "\<And>es e j. ReadDir w (Realpath w d) = Some es \<Longrightarrow> e \<in> set es \<Longrightarrow> returns (searchDirectory w) (PathJoin d (fst e), j)"
  shows "returns (searchDirectory w) (d, i)"
proof (cases "ReadDir w (Realpath w d)")
  case None
  then have "\<forall>r. searchDirectory w (Suc 0) (d, i) r \<noteq> None" by (simp add: searchDirectoryBody_bracket)
  then show ?thesis unfolding returns_def by blast
next
  case (Some es)
  have c: "\<exists>n. \<forall>k \<ge> n. \<forall>r. parseConfig w k (PathJoin d (fst e), b) r \<noteq> None" if "e \<in> set es" for e b
    using returns_from [OF walk_mono(1) assms(2) [OF Some that]] by blast
  have s: "\<exists>n. \<forall>k \<ge> n. \<forall>r. searchDirectory w k (PathJoin d (fst e), j) r \<noteq> None" if "e \<in> set es" for e j
    using returns_from [OF walk_mono(4) assms(3) [OF Some that]] by blast
  show ?thesis
  proof (cases "rojoDefaultName \<in> fst ` set es")
    case True
    then obtain e where "e \<in> set es" "fst e = rojoDefaultName" by auto
    then obtain n where "\<forall>r. parseConfig w n (PathJoin d rojoDefaultName, False) r \<noteq> None" using c [of e False] by auto
    then have "\<forall>r. searchDirectory w (Suc n) (d, i) r \<noteq> None" using Some True by (simp add: searchDirectoryBody_bracket)
    then show ?thesis unfolding returns_def by blast
  next
    case False
    have "\<exists>n. \<forall>k \<ge> n. \<forall>r. (if fst e \<noteq> rojoDefaultName \<and> rojoFileRegex (fst e) \<and> snd (entryKind w d e)
        then parseConfig w k (PathJoin d (fst e), False) r else Some r) \<noteq> None" if "e \<in> set es" for e
      using c [OF that, of False] by auto
    from returns_fold [of es "\<lambda>k e r. if fst e \<noteq> rojoDefaultName \<and> rojoFileRegex (fst e) \<and> snd (entryKind w d e)
        then parseConfig w k (PathJoin d (fst e), False) r else Some r", OF this]
    obtain n where n: "\<forall>k \<ge> n. \<forall>r. foldM (\<lambda>e r. if fst e \<noteq> rojoDefaultName \<and> rojoFileRegex (fst e) \<and> snd (entryKind w d e)
        then parseConfig w k (PathJoin d (fst e), False) r else Some r) es r \<noteq> None" by blast
    have "\<exists>n. \<forall>k \<ge> n. \<forall>r. (if fst (entryKind w d e) then searchDirectory w k (PathJoin d (fst e), fst e) r else Some r) \<noteq> None"
      if "e \<in> set es" for e using s [OF that, of "fst e"] by auto
    from returns_fold [of es "\<lambda>k e r. if fst (entryKind w d e) then searchDirectory w k (PathJoin d (fst e), fst e) r else Some r", OF this]
    obtain m where m: "\<forall>k \<ge> m. \<forall>r. foldM (\<lambda>e r. if fst (entryKind w d e) then searchDirectory w k (PathJoin d (fst e), fst e) r else Some r) es r \<noteq> None"
      by blast
    let ?k = "max n m"
    have ret: "searchInner (parseConfig w ?k) (searchDirectory w ?k) w d es r \<noteq> None" for r
    proof -
      have "n \<le> ?k" by simp
      from n [rule_format, OF this, of r]
      obtain r1 where r1: "foldM (\<lambda>e r. if fst e \<noteq> rojoDefaultName \<and> rojoFileRegex (fst e) \<and> snd (entryKind w d e)
        then parseConfig w ?k (PathJoin d (fst e), False) r else Some r) es r = Some r1" by blast
      show ?thesis unfolding searchInner_def r1 using m by simp
    qed
    have kp: "keeps (searchInner (parseConfig w ?k) (searchDirectory w ?k) w d es)"
      by (intro keeps_searchInner keeps_walk assms(1))
    have "searchDirectory w (Suc ?k) (d, i) r \<noteq> None" for r
      unfolding searchDirectory.simps searchDirectoryBody_bracket Some option.case if_not_P [OF False]
      by (rule bracket_returns [OF kp ret])
    then show ?thesis unfolding returns_def by blast
  qed
qed


text \<open>Every mounted path is lower than the project that mounts it, and every entry of a directory is lower than
  the directory.\<close>

definition descends :: "fs \<Rightarrow> (string \<Rightarrow> nat) \<Rightarrow> bool" where
  "descends w rank \<longleftrightarrow>
     (\<forall>p v. isRooted p \<longrightarrow> readConfig w (Realpath w p) = Some v \<longrightarrow> validateConfig v = [] \<longrightarrow>
       (\<forall>q \<in> set (treePaths (snd (configFromJSON v))). rank (convertToLuau (rojoResolvePath (Dir p) q)) < rank p)) \<and>
     (\<forall>d es. isRooted d \<longrightarrow> ReadDir w (Realpath w d) = Some es \<longrightarrow> (\<forall>e \<in> set es. rank (PathJoin d (fst e)) < rank d))"

lemma walk_returns:
  assumes "descends w rank"
  shows "isRooted p \<Longrightarrow> returns (parseConfig w) (p, d) \<and> returns (searchDirectory w) (p, i)"
proof (induction "rank p" arbitrary: p d i rule: less_induct)
  case less
  have config: "returns (parseConfig w) (q, b)" and search: "returns (searchDirectory w) (q, j)" if "isRooted q" "rank q < rank p" for q b j
    using less.hyps that by blast+
  have entry: "rank (PathJoin q (fst e)) < rank q" if "isRooted q" "ReadDir w (Realpath w q) = Some es" "e \<in> set es" for q es e
    using assms that unfolding descends_def by blast
  have path: "returns (parsePath w) q" if q: "isRooted q" "rank (convertToLuau q) < rank p" for q
  proof (rule returns_path)
    have r: "isRooted (convertToLuau q)" using q(1) by auto
    show "returns (parseConfig w) (convertToLuau q, True)" "returns (searchDirectory w) (convertToLuau q, [])"
      using config [OF r q(2)] search [OF r q(2)] by blast+
    fix es assume es: "ReadDir w (Realpath w (convertToLuau q)) = Some es" "rojoDefaultName \<in> fst ` set es"
    then have "rank (PathJoin (convertToLuau q) rojoDefaultName) < rank (convertToLuau q)" using entry [OF r es(1)] by auto
    then show "returns (parseConfig w) (PathJoin (convertToLuau q) rojoDefaultName, True)" using config isRooted_Join [OF r] q(2) by (meson less_trans)
  qed
  have "returns (parseConfig w) (p, d)"
  proof (rule returns_config [OF less.prems])
    fix v assume v: "readConfig w (Realpath w p) = Some v" "validateConfig v = []"
    show "returns (parseTree w) (Dir p, fst (configFromJSON v), snd (configFromJSON v), d)"
    proof (rule returns_tree)
      show b: "isRooted (Dir p)" using less.prems by auto
      fix q assume "q \<in> set (treePaths (snd (configFromJSON v)))"
      then have "rank (convertToLuau (rojoResolvePath (Dir p) q)) < rank p"
        using assms less.prems v unfolding descends_def by blast
      then show "returns (parsePath w) (rojoResolvePath (Dir p) q)" using path b by blast
    qed
  qed
  moreover have "returns (searchDirectory w) (p, i)"
    by (rule returns_search [OF less.prems]) (use config search entry less.prems isRooted_Join in blast)+
  ultimately show ?case by blast
qed

text \<open>C24: if mounts and directories do not lead back to themselves, the walk over a project ends, without a
  pop from an empty stack.\<close>

theorem FromPath_returns:
  assumes "descends w rank" "Abs w p = Some a" "Getwd w = Some wd" "isRooted wd"
  shows "\<exists>n r. FromPath w n p = Some r"
proof -
  have "isRooted a" using isRooted_Abs assms(2-4) by blast
  then show ?thesis using walk_returns [OF assms(1)] assms(2) by (fastforce simp: returns_def FromPath_def)
qed

text \<open>C40: the walk over a project whose own file is the \<open>$path\<close> of its root never ends.\<close>

theorem FromPath_diverges:
  assumes "Abs w p = Some a" "pathExists w (Realpath w a)" "readConfig w (Realpath w a) = Some v" "validateConfig v = []"
    "Path (snd (configFromJSON v)) = Some q" "convertToLuau (rojoResolvePath (Dir a) q) = a" "rojoFileRegex (Base a)"
  shows "FromPath w n p = None"
proof -
  have "parseConfig w n (a, True) r = None" for r
  proof (induction n arbitrary: r rule: less_induct)
    case (less n)
    have path: "parsePath w k (rojoResolvePath (Dir a) q) r = None" if "k < n" for k r
      using less [of "k - 1"] that assms(6,7) by (cases k) (simp_all add: parsePathBody_def Let_def)
    have "treeInner (parseTree w k) (parsePath w k) (Dir a) (snd (configFromJSON v)) r = None" if "k < n" for k r
      using path [OF that] assms(5) by (simp add: treeInner_def)
    then have "parseTree w k (Dir a, nm, snd (configFromJSON v), True) r = None" if "k < n" for k nm r
      using that by (cases k) (simp_all add: parseTreeBody_bracket)
    then show ?case using assms(2-4) by (cases n) (simp_all add: parseConfigBody_def Let_def case_prod_unfold)
  qed
  then show ?thesis using assms(1) by (simp add: FromPath_def)
qed


section \<open>A small project\<close>

text \<open>The project file \<open>/p/default.project.json\<close> with a given tree, and nothing else.\<close>

definition sampleFs :: "tree \<Rightarrow> fs" where
  "sampleFs t = \<lparr>Getwd = Some ''/p'', Stat = (\<lambda>p. if p = ''/p/default.project.json'' then Some KRegular else None), ReadDir = (\<lambda>_. None),
     ReadFile = (\<lambda>p. if p = ''/p/default.project.json'' then Some [] else None), Realpath = (\<lambda>p. p), Tokens = (\<lambda>_. toTokens (projectJSON ''g'' t))\<rparr>"

lemma sample_config: "project_tree t \<Longrightarrow> readConfig (sampleFs t) p = Some (if p = ''/p/default.project.json'' then projectJSON ''g'' t else JInvalid)"
  by (simp add: readConfig_def sampleFs_def project_JSON)

lemma sample_rooted: "isRooted ''/p''" "Getwd (sampleFs t) = Some ''/p''" "Abs (sampleFs t) ''default.project.json'' = Some ''/p/default.project.json''"
proof -
  have "''/p'' = rooted [''p'']" by (simp add: rooted_def)
  then show "isRooted ''/p''" unfolding isRooted_def by (intro exI [of _ "[''p'']"]) (simp add: isName_def)
  show "Getwd (sampleFs t) = Some ''/p''" by (simp add: sampleFs_def)
  show "Abs (sampleFs t) ''default.project.json'' = Some ''/p/default.project.json''"
    using PathJoin_name [of "[''p'']" "''default.project.json''"] by (simp add: Abs_def sampleFs_def IsAbs_def HasPrefix_def isName_def rooted_def)
qed

definition sampleTree :: tree where
  "sampleTree = Tree ''DataModel'' None [(''Shared'', Tree [] (Some ''out'') [])]"

lemma sample_tree: "project_tree sampleTree" "project_tree (Tree [] (Some q) [])"
  by (simp_all add: sampleTree_def childName_def HasPrefix_def no_index_key digit_def less_eq_char_def)

lemma sample_descends: "descends (sampleFs sampleTree) (\<lambda>p. if p = ''/p/default.project.json'' then 1 else 0)"
proof -
  have "convertToLuau (rojoResolvePath (Dir ''/p/default.project.json'') ''out'') \<noteq> ''/p/default.project.json''" by code_simp
  moreover have "validateConfig JInvalid \<noteq> []" by (simp add: validateConfig_def)
  ultimately show ?thesis
    by (auto simp: descends_def sample_config sample_tree project_JSON split: if_splits) (simp_all add: sampleTree_def sampleFs_def)
qed

lemma sample_returns: "\<exists>n r. FromPath (sampleFs sampleTree) n ''default.project.json'' = Some r"
proof -
  have "isRooted ''/p/default.project.json''" using isRooted_Abs [OF sample_rooted(3,2,1)] .
  then show ?thesis using walk_returns [OF sample_descends] sample_rooted(3) by (fastforce simp: returns_def FromPath_def)
qed

theorem FromPath_returns_witness: "\<exists>n r. FromPath (sampleFs sampleTree) n ''default.project.json'' = Some r"
  by (rule FromPath_returns [OF sample_descends sample_rooted(3,2,1)])

theorem snapshot_restores_witness:
  "\<exists>n r r'. FromPath (sampleFs sampleTree) n ''default.project.json'' = Some r \<and> FromState (GetState r) = Inr r' \<and> GetState r' = GetState r"
  using sample_returns snapshot_restores [OF _ sample_rooted(3,2,1)] by blast

theorem FromPath_diverges_witness:
  "\<forall>n. FromPath (sampleFs (Tree [] (Some ''default.project.json'') [])) n ''default.project.json'' = None"
proof
  fix n
  let ?w = "sampleFs (Tree [] (Some ''default.project.json'') [])" and ?a = "''/p/default.project.json''"
  have v: "readConfig ?w (Realpath ?w ?a) = Some (projectJSON ''g'' (Tree [] (Some ''default.project.json'') []))"
    by (simp add: sample_config sample_tree del: project_tree.simps) (simp add: sampleFs_def)
  have "convertToLuau (rojoResolvePath (Dir ?a) ''default.project.json'') = ?a" "rojoFileRegex (Base ?a)" by code_simp+
  then show "FromPath ?w n ''default.project.json'' = None"
    using FromPath_diverges [OF sample_rooted(3) _ v, of "''default.project.json''" n] project_JSON [OF sample_tree(2)]
    by (simp add: pathExists_def) (simp add: sampleFs_def)
qed

end
