(* ===== verification/Rojo_Sourcemap.thy ===== *)
theory Rojo_Sourcemap
  imports Rojo_Correct "HOL-Library.Multiset"
begin

text \<open>
  The source map generator (\<open>src/internal/sourcemap/sourcemap.go\<close>): the instance tree of a Rojo project with the
  files behind each instance, for the language server.

  The Go builder fills nodes in place; here a node is a value and the flag \<open>supported\<close> of the builder goes
  along. \<open>os.Stat\<close> follows links, so that the walk over directories can be endless; it has fuel for
  its depth, and \<open>None\<close> means that the fuel ran out. Lower-casing, \<open>filepath.Glob\<close>, the decoder of
  \<open>globIgnorePaths\<close>, the encoding of a JSON string and running \<open>rojo\<close> are arguments.
\<close>

section \<open>Names and classes\<close>

definition trimLuaExt :: "string \<Rightarrow> string option" where
  "trimLuaExt l =
     (if HasSuffix l ''.luau'' then Some (TrimSuffix l ''.luau'')
      else if HasSuffix l ''.lua'' then Some (TrimSuffix l ''.lua'')
      else None)"

definition scriptClass :: "(string \<Rightarrow> string) \<Rightarrow> string \<Rightarrow> string" where
  "scriptClass lower fsPath =
     (case trimLuaExt (lower fsPath) of
        None \<Rightarrow> []
      | Some stem \<Rightarrow> if HasSuffix stem ''.server'' then ''Script'' else if HasSuffix stem ''.client'' then ''LocalScript'' else ''ModuleScript'')"

definition classifyClass :: "(string \<Rightarrow> string) \<Rightarrow> string \<Rightarrow> string option" where
  "classifyClass lower fsPath =
     (if scriptClass lower fsPath \<noteq> [] then Some (scriptClass lower fsPath)
      else if HasSuffix (lower fsPath) ''.txt'' then Some ''StringValue''
      else None)"

definition dropSub :: "(string \<Rightarrow> string) \<Rightarrow> string \<Rightarrow> string" where
  "dropSub lower out =
     (if HasSuffix (lower out) ''.server'' \<or> HasSuffix (lower out) ''.client'' then take (length out - 7) out else out)"

definition deriveName :: "(string \<Rightarrow> string) \<Rightarrow> string \<Rightarrow> string" where
  "deriveName lower base =
     (let l = lower base in
      case trimLuaExt l of
        Some stem \<Rightarrow> dropSub lower (take (length base - (length l - length stem)) base)
      | None \<Rightarrow> if HasSuffix l ''.txt'' then take (length base - 4) base else base)"

definition isIgnored :: "string \<Rightarrow> bool" where
  "isIgnored nm \<longleftrightarrow> nm = ''.DS_Store'' \<or> nm = ''Thumbs.db'' \<or> nm = ''.git''"

definition initCandidates :: "(string \<times> string) list" where
  "initCandidates = [(''init.luau'', ''ModuleScript''), (''init.lua'', ''ModuleScript''), (''init.server.luau'', ''Script''),
     (''init.server.lua'', ''Script''), (''init.client.luau'', ''LocalScript''), (''init.client.lua'', ''LocalScript'')]"

definition findInit :: "string list \<Rightarrow> string \<times> string" where
  "findInit names = (case find (\<lambda>c. fst c \<in> set names) initCandidates of None \<Rightarrow> ([], []) | Some c \<Rightarrow> c)"

section \<open>The tree\<close>

datatype mapNode = MapNode (nodeName: string) (nodeClass: string) (nodePaths: "string list") (nodeChildren: "mapNode list")

definition builderRel :: "string \<Rightarrow> string \<Rightarrow> string" where
  "builderRel base fsPath = (case Rel base fsPath of None \<Rightarrow> fsPath | Some r \<Rightarrow> r)"

definition orClass :: "string \<Rightarrow> mapNode \<Rightarrow> mapNode" where
  "orClass cn n = (if nodeClass n = [] then MapNode (nodeName n) cn (nodePaths n) (nodeChildren n) else n)"

definition addPath :: "string \<Rightarrow> mapNode \<Rightarrow> mapNode" where
  "addPath p n = MapNode (nodeName n) (nodeClass n) (nodePaths n @ [p]) (nodeChildren n)"

definition addChildren :: "mapNode list \<Rightarrow> mapNode \<Rightarrow> mapNode" where
  "addChildren cs n = MapNode (nodeName n) (nodeClass n) (nodePaths n) (nodeChildren n @ cs)"

definition middleware :: "string \<Rightarrow> bool" where
  "middleware l \<longleftrightarrow> list_ex (HasSuffix l) [''.project.json'', ''.meta.json'', ''.model.json'', ''.json'', ''.toml'', ''.csv'', ''.rbxm'', ''.rbxmx'']"

text \<open>One round of the loop of \<open>applyDir\<close>; \<open>subdir\<close> is the recursive call.\<close>

definition addEntry :: "(mapNode \<Rightarrow> string \<Rightarrow> bool \<Rightarrow> (mapNode \<times> bool) option) \<Rightarrow> (string \<Rightarrow> string) \<Rightarrow> fs \<Rightarrow> string \<Rightarrow> string \<Rightarrow> string \<Rightarrow>
    string \<Rightarrow> mapNode \<times> bool \<Rightarrow> (mapNode \<times> bool) option" where
  "addEntry subdir lower w base dir initFile nm = (\<lambda>(n, supported).
     if nm = initFile \<or> isIgnored nm then Some (n, supported)
     else (let full = PathJoin dir nm in
       case Stat w full of
         None \<Rightarrow> Some (n, False)
       | Some KDir \<Rightarrow> do { (child, supported) \<leftarrow> subdir (MapNode nm [] [] []) full supported; Some (addChildren [child] n, supported) }
       | Some _ \<Rightarrow>
           if middleware (lower nm) then Some (n, False)
           else (case classifyClass lower full of
               None \<Rightarrow> Some (n, supported)
             | Some cn \<Rightarrow> Some (addChildren [MapNode (deriveName lower nm) cn [builderRel base full] []] n, supported))))"

definition initNode :: "string \<Rightarrow> string \<Rightarrow> string \<times> string \<Rightarrow> mapNode \<Rightarrow> mapNode" where
  "initNode base dir ini n =
     (if fst ini \<noteq> [] then addPath (builderRel base (PathJoin dir (fst ini))) (orClass (snd ini) n) else orClass ''Folder'' n)"

definition applyDirBody :: "(mapNode \<Rightarrow> string \<Rightarrow> bool \<Rightarrow> (mapNode \<times> bool) option) \<Rightarrow> (string \<Rightarrow> string) \<Rightarrow> fs \<Rightarrow> string \<Rightarrow>
    mapNode \<Rightarrow> string \<Rightarrow> bool \<Rightarrow> (mapNode \<times> bool) option" where
  "applyDirBody subdir lower w base n dir supported =
     (case ReadDir w dir of
        None \<Rightarrow> Some (n, False)
      | Some entries \<Rightarrow>
          (let names = sort (map fst entries); ini = findInit names in
           foldM (addEntry subdir lower w base dir (fst ini)) names (initNode base dir ini n, supported)))"

fun applyDir :: "(string \<Rightarrow> string) \<Rightarrow> fs \<Rightarrow> string \<Rightarrow> nat \<Rightarrow> mapNode \<Rightarrow> string \<Rightarrow> bool \<Rightarrow> (mapNode \<times> bool) option" where
  "applyDir lower w base 0 = (\<lambda>_ _ _. None)"
| "applyDir lower w base (Suc k) = applyDirBody (applyDir lower w base k) lower w base"

definition applyPath :: "(string \<Rightarrow> string) \<Rightarrow> fs \<Rightarrow> string \<Rightarrow> nat \<Rightarrow> mapNode \<Rightarrow> string \<Rightarrow> bool \<Rightarrow> (mapNode \<times> bool) option" where
  "applyPath lower w base k n fsPath supported =
     (case Stat w fsPath of
        None \<Rightarrow> Some (n, False)
      | Some KDir \<Rightarrow> applyDir lower w base k n fsPath supported
      | Some _ \<Rightarrow>
          (case classifyClass lower fsPath of
             None \<Rightarrow> Some (n, False)
           | Some cn \<Rightarrow> Some (addPath (builderRel base fsPath) (orClass cn n), supported)))"

definition listWeight :: "(string \<times> tree) list \<Rightarrow> nat" where
  "listWeight cs = sum_list (map (\<lambda>c. Suc (size (snd c))) cs)"

lemma listWeight_sort: "listWeight (sort_key fst cs) = listWeight cs"
proof -
  have "mset (map (\<lambda>c. Suc (size (snd c))) (sort_key fst cs)) = mset (map (\<lambda>c. Suc (size (snd c))) cs)" by simp
  then show ?thesis unfolding listWeight_def by (metis sum_mset_sum_list)
qed

lemma listWeight_children: "listWeight (Children t) < size t"
proof (cases t)
  case (Tree a b cs)
  have "listWeight cs \<le> size_list (size_prod (\<lambda>_. 0) size) cs" by (induction cs) (auto simp: listWeight_def)
  then show ?thesis using Tree by simp
qed

function fromTree :: "(string \<Rightarrow> string) \<Rightarrow> fs \<Rightarrow> string \<Rightarrow> nat \<Rightarrow> string \<Rightarrow> tree \<Rightarrow> bool \<Rightarrow> (mapNode \<times> bool) option"
  and fromTrees :: "(string \<Rightarrow> string) \<Rightarrow> fs \<Rightarrow> string \<Rightarrow> nat \<Rightarrow> (string \<times> tree) list \<Rightarrow> bool \<Rightarrow> (mapNode list \<times> bool) option" where
  "fromTree lower w base k nm tree supported = do {
     let n = MapNode nm (ClassName tree) [] [];
     (n, supported) \<leftarrow> (case Path tree of None \<Rightarrow> Some (n, supported) | Some p \<Rightarrow> applyPath lower w base k n (PathJoin base p) supported);
     (cs, supported) \<leftarrow> fromTrees lower w base k (sort_key fst (Children tree)) supported;
     Some (orClass (if Path tree = None then nm else ''Folder'') (addChildren cs n), supported)
   }"
| "fromTrees lower w base k [] supported = Some ([], supported)"
| "fromTrees lower w base k (c # cs) supported = do {
     (n, supported) \<leftarrow> fromTree lower w base k (fst c) (snd c) supported;
     (ns, supported) \<leftarrow> fromTrees lower w base k cs supported;
     Some (n # ns, supported)
   }"
  by pat_completeness auto

termination
  by (relation "measure (\<lambda>x. case x of Inl (_, _, _, _, _, t, _) \<Rightarrow> size t | Inr (_, _, _, _, cs, _) \<Rightarrow> listWeight cs)")
    (auto simp: listWeight_sort listWeight_children, auto simp: listWeight_def)

definition hasGlobIgnorePaths :: "fs \<Rightarrow> (string \<Rightarrow> string list option) \<Rightarrow> string \<Rightarrow> bool" where
  "hasGlobIgnorePaths w GlobIgnorePaths projectFile =
     (case ReadFile w projectFile of
        None \<Rightarrow> True
      | Some data \<Rightarrow> (case GlobIgnorePaths data of None \<Rightarrow> False | Some gs \<Rightarrow> gs \<noteq> []))"

definition Build :: "(string \<Rightarrow> string) \<Rightarrow> fs \<Rightarrow> (string \<Rightarrow> string list option) \<Rightarrow> nat \<Rightarrow> string \<Rightarrow> (string + mapNode \<times> bool) option" where
  "Build lower w GlobIgnorePaths k projectFile = do {
     parsed \<leftarrow> ParseProjectFile w projectFile;
     case parsed of
       Inl e \<Rightarrow> Some (Inl e)
     | Inr (nm, tree) \<Rightarrow> do {
         let base = Dir projectFile;
         (root, supported) \<leftarrow> fromTree lower w base k nm tree (\<not> hasGlobIgnorePaths w GlobIgnorePaths projectFile);
         Some (Inr (addPath (builderRel base projectFile) root, supported))
       }
   }"

section \<open>The text\<close>

fun marshalNode :: "(string \<Rightarrow> string) \<Rightarrow> mapNode \<Rightarrow> string" where
  "marshalNode enc (MapNode nm cn ps cs) =
     ''{'' @ enc ''name'' @ '':'' @ enc nm @ '','' @ enc ''className'' @ '':'' @ enc cn @
     (if ps = [] then [] else '','' @ enc ''filePaths'' @ '':['' @ Join (map enc ps) '','' @ '']'') @
     (if cs = [] then [] else '','' @ enc ''children'' @ '':['' @ Join (map (marshalNode enc) cs) '','' @ '']'') @ ''}''"

definition Marshal :: "(string \<Rightarrow> string) \<Rightarrow> mapNode \<Rightarrow> string" where
  "Marshal enc root = marshalNode enc root @ [LF]"

definition isFile :: "fs \<Rightarrow> string \<Rightarrow> bool" where
  "isFile w p \<longleftrightarrow> Stat w p \<noteq> None \<and> Stat w p \<noteq> Some KDir"

definition resolveProject :: "fs \<Rightarrow> (string \<Rightarrow> string list) \<Rightarrow> string \<Rightarrow> string + string" where
  "resolveProject w GlobFiles p =
     (let p = (if p = [] then ''.'' else p) in
      case Stat w p of
        None \<Rightarrow> Inl (''project path '' @ p)
      | Some KDir \<Rightarrow>
          (let def = PathJoin p ''default.project.json''; ms = GlobFiles (PathJoin p ''*.project.json'') in
           if isFile w def then Inr def
           else if ms \<noteq> [] then Inr (hd ms)
           else Inl (''no *.project.json found in '' @ p))
      | Some _ \<Rightarrow> Inr p)"

definition Generate :: "(string \<Rightarrow> string) \<Rightarrow> (string \<Rightarrow> string) \<Rightarrow> fs \<Rightarrow> (string \<Rightarrow> string list option) \<Rightarrow> (string \<Rightarrow> string list) \<Rightarrow>
    (string \<Rightarrow> string + string) \<Rightarrow> nat \<Rightarrow> string \<Rightarrow> (string + string) option" where
  "Generate lower enc w GlobIgnorePaths GlobFiles generateViaRojo k project =
     (case resolveProject w GlobFiles project of
        Inl e \<Rightarrow> Some (Inl e)
      | Inr projectFile \<Rightarrow> do {
          built \<leftarrow> Build lower w GlobIgnorePaths k projectFile;
          Some (case built of
              Inl e \<Rightarrow> Inl e
            | Inr (root, supported) \<Rightarrow> if \<not> supported then generateViaRojo projectFile else Inr (Marshal enc root))
        })"

section \<open>What a directory contributes\<close>

lemma addChildren_simps [simp]:
  "nodeName (addChildren cs n) = nodeName n" "nodeClass (addChildren cs n) = nodeClass n" "nodePaths (addChildren cs n) = nodePaths n"
  "nodeChildren (addChildren cs n) = nodeChildren n @ cs"
  by (simp_all add: addChildren_def)

lemma orClass_simps [simp]:
  "nodeName (orClass cn n) = nodeName n" "nodePaths (orClass cn n) = nodePaths n" "nodeChildren (orClass cn n) = nodeChildren n"
  by (simp_all add: orClass_def)

lemma addPath_simps [simp]:
  "nodeName (addPath p n) = nodeName n" "nodeClass (addPath p n) = nodeClass n" "nodePaths (addPath p n) = nodePaths n @ [p]"
  "nodeChildren (addPath p n) = nodeChildren n"
  by (simp_all add: addPath_def)

lemma nodeName_initNode [simp]: "nodeName (initNode base dir ini n) = nodeName n" "nodeChildren (initNode base dir ini n) = nodeChildren n"
  by (simp_all add: initNode_def)

lemma addEntry_keeps:
  "addEntry subdir lower w base dir ini nm (n, s) = Some (n', s') \<Longrightarrow>
     nodeName n' = nodeName n \<and> nodePaths n' = nodePaths n \<and> (\<exists>cs. nodeChildren n' = nodeChildren n @ cs)"
  by (auto simp: addEntry_def Let_def split: if_splits option.splits fileKind.splits prod.splits Option.bind_splits)

lemma addEntries_keep:
  "foldM (addEntry subdir lower w base dir ini) names (n, s) = Some (n', s') \<Longrightarrow>
     nodeName n' = nodeName n \<and> nodePaths n' = nodePaths n \<and> (\<exists>cs. nodeChildren n' = nodeChildren n @ cs)"
proof (induction names arbitrary: n s)
  case (Cons nm names)
  then obtain n1 s1 where one: "addEntry subdir lower w base dir ini nm (n, s) = Some (n1, s1)"
    "foldM (addEntry subdir lower w base dir ini) names (n1, s1) = Some (n', s')"
    by (auto split: Option.bind_splits)
  show ?case using Cons.IH[OF one(2)] addEntry_keeps[OF one(1)] by auto
qed simp

text \<open>Every entry that is met leaves its child.\<close>

lemma addEntries_meet:
  assumes "foldM (addEntry subdir lower w base dir ini) names (n, s) = Some (n', s')" and "x \<in> set names"
  obtains n1 s1 n2 s2 where "addEntry subdir lower w base dir ini x (n1, s1) = Some (n2, s2)" "set (nodeChildren n2) \<subseteq> set (nodeChildren n')"
  using assms
proof (induction names arbitrary: n s thesis)
  case (Cons nm names)
  then obtain n1 s1 where one: "addEntry subdir lower w base dir ini nm (n, s) = Some (n1, s1)"
    "foldM (addEntry subdir lower w base dir ini) names (n1, s1) = Some (n', s')"
    by (auto split: Option.bind_splits)
  show ?case
  proof (cases "x = nm")
    case True
    then show ?thesis using Cons.prems(1)[OF one(1)[folded True]] addEntries_keep[OF one(2)] by auto
  next
    case False
    then show ?thesis using Cons.IH[OF _ one(2)] Cons.prems(1,3) by auto
  qed
qed simp

section \<open>Agreement with the resolver\<close>

text \<open>The instances at a path below a node.\<close>

fun nodesAt :: "mapNode \<Rightarrow> string list \<Rightarrow> mapNode set" where
  "nodesAt n [] = {n}"
| "nodesAt n (x # xs) = (\<Union>c \<in> {c \<in> set (nodeChildren n). nodeName c = x}. nodesAt c xs)"

text \<open>A file below a directory of the file system.\<close>

fun fileBelow :: "fs \<Rightarrow> string list \<Rightarrow> string list \<Rightarrow> string \<Rightarrow> bool" where
  "fileBelow w dir [] f \<longleftrightarrow> (\<exists>es. ReadDir w (rooted dir) = Some es \<and> f \<in> fst ` set es) \<and> isFile w (rooted (dir @ [f]))"
| "fileBelow w dir (d # ds) f \<longleftrightarrow>
     (\<exists>es. ReadDir w (rooted dir) = Some es \<and> d \<in> fst ` set es \<and> fst (findInit (sort (map fst es))) \<noteq> d) \<and>
     \<not> isIgnored d \<and> Stat w (rooted (dir @ [d])) = Some KDir \<and> fileBelow w (dir @ [d]) ds f"

lemma applyDir_name: "applyDir lower w base k n dir s = Some (n', s') \<Longrightarrow> nodeName n' = nodeName n"
  by (cases k) (auto simp: applyDirBody_def Let_def split: option.splits dest: addEntries_keep)

text \<open>What is used of \<open>strings.ToLower\<close>: it works character by character and keeps the lower-case letters, the
  dot and the slash.\<close>

definition mapsRunes :: "(string \<Rightarrow> string) \<Rightarrow> bool" where
  "mapsRunes lower \<longleftrightarrow> lower [] = [] \<and>
     (\<forall>p c q. c \<in> set ''./abcdefghijklmnopqrstuvwxyz'' \<longrightarrow> lower (p @ c # q) = lower p @ c # lower q) \<and>
     (\<forall>p. CHR ''.'' \<notin> set p \<longrightarrow> CHR ''.'' \<notin> set (lower p))"

lemma mapsRunesD:
  assumes "mapsRunes lower"
  shows "lower [] = []" and "c \<in> set ''./abcdefghijklmnopqrstuvwxyz'' \<Longrightarrow> lower (p @ c # q) = lower p @ c # lower q"
    and "CHR ''.'' \<notin> set p \<Longrightarrow> CHR ''.'' \<notin> set (lower p)"
  using assms unfolding mapsRunes_def by blast+

lemma lower_plain: "mapsRunes lower \<Longrightarrow> set q \<subseteq> set ''./abcdefghijklmnopqrstuvwxyz'' \<Longrightarrow> lower (p @ q) = lower p @ q"
proof (induction q arbitrary: p)
  case (Cons c q)
  have "lower (p @ c # q) = lower p @ c # lower q" using mapsRunesD(2)[OF Cons.prems(1)] Cons.prems(2) by simp
  moreover have "lower q = q" using Cons.IH[of "[]"] Cons.prems mapsRunesD(1)[OF Cons.prems(1)] by simp
  ultimately show ?case by simp
qed simp

lemma HasSuffix_append: "HasSuffix (a @ b) b" "length e \<le> length b \<Longrightarrow> HasSuffix (a @ b) e \<longleftrightarrow> HasSuffix b e"
  by (auto simp: HasSuffix_def)

lemma HasSuffix_last: "HasSuffix s e \<Longrightarrow> e \<noteq> [] \<Longrightarrow> last s = last e"
  by (auto simp: HasSuffix_iff)

lemma no_dot_suffix:
  assumes "CHR ''.'' \<notin> set c" and "e = CHR ''.'' # e'" and "x \<notin> set e"
  shows "\<not> HasSuffix (p @ x # c) e" and "\<not> HasSuffix c e"
proof -
  show "\<not> HasSuffix c e" using assms by (auto simp: HasSuffix_iff)
  show "\<not> HasSuffix (p @ x # c) e"
  proof
    assume "HasSuffix (p @ x # c) e"
    then obtain t where "p @ x # c = t @ e" by (auto simp: HasSuffix_iff)
    then consider us where "p = t @ us" "us @ x # c = e" | us where "p @ us = t" "x # c = us @ e" by (auto simp: append_eq_append_conv2)
    then show False
    proof cases
      case 1
      then show ?thesis using assms(3) by auto
    next
      case 2
      then show ?thesis using assms by (cases us) auto
    qed
  qed
qed

lemmas script_facts = subExts_def TrimSuffix_def HasSuffix_append

lemma trimLuaExt_script: "trimLuaExt (l @ ''.luau'') = Some l"
  by (simp add: trimLuaExt_def TrimSuffix_def HasSuffix_append)

lemma scriptClass_script:
  assumes low: "mapsRunes lower" and c: "CHR ''.'' \<notin> set c" and sub: "sub \<in> set subExts"
  shows "scriptClass lower (p @ CHR ''/'' # c @ sub @ ''.luau'') =
    (if sub = ''.server'' then ''Script'' else if sub = ''.client'' then ''LocalScript'' else ''ModuleScript'')"
proof -
  have "set (sub @ ''.luau'') \<subseteq> set ''./abcdefghijklmnopqrstuvwxyz''" using sub by (auto simp: subExts_def)
  then have "lower ((p @ CHR ''/'' # c) @ sub @ ''.luau'') = (lower p @ CHR ''/'' # lower c) @ sub @ ''.luau''"
    using lower_plain[OF low, of "sub @ ''.luau''" "p @ CHR ''/'' # c"] mapsRunesD(2)[OF low, of "CHR ''/''" p c] by simp
  then have t: "trimLuaExt (lower (p @ CHR ''/'' # c @ sub @ ''.luau'')) = Some ((lower p @ CHR ''/'' # lower c) @ sub)"
    using trimLuaExt_script[of "(lower p @ CHR ''/'' # lower c) @ sub"] by simp
  have "\<not> HasSuffix (lower p @ CHR ''/'' # lower c) ''.server''" "\<not> HasSuffix (lower p @ CHR ''/'' # lower c) ''.client''"
    using no_dot_suffix(1)[OF mapsRunesD(3)[OF low c]] by auto
  then show ?thesis using sub t HasSuffix_append(1)[of "lower p @ CHR ''/'' # lower c" sub]
    by (auto simp: scriptClass_def subExts_def HasSuffix_def)
qed

lemma deriveName_script:
  assumes low: "mapsRunes lower" and c: "CHR ''.'' \<notin> set c" and sub: "sub \<in> set subExts"
  shows "deriveName lower (c @ sub @ ''.luau'') = c"
proof -
  have ext: "set (sub @ ''.luau'') \<subseteq> set ''./abcdefghijklmnopqrstuvwxyz''" "set sub \<subseteq> set ''./abcdefghijklmnopqrstuvwxyz''"
    using sub by (auto simp: subExts_def)
  have l: "lower (c @ sub @ ''.luau'') = (lower c @ sub) @ ''.luau''" "lower (c @ sub) = lower c @ sub"
    using lower_plain[OF low ext(1), of c] lower_plain[OF low ext(2), of c] by simp_all
  have "\<not> HasSuffix (lower c) ''.server''" "\<not> HasSuffix (lower c) ''.client''"
    using no_dot_suffix(2)[OF mapsRunesD(3)[OF low c], of _ _ "CHR ''/''"] by auto
  then have "dropSub lower (c @ sub) = c"
    using sub l(2) HasSuffix_append(1)[of "lower c" sub] by (auto simp: dropSub_def subExts_def)
  then show ?thesis unfolding deriveName_def l(1) Let_def trimLuaExt_script by simp
qed

lemma middleware_script: "mapsRunes lower \<Longrightarrow> \<not> middleware (lower (p @ ''.luau''))"
  using lower_plain[of lower "''.luau''" p] HasSuffix_last[of "lower p @ ''.luau''"] by (force simp: middleware_def)

lemma isIgnored_script: "\<not> isIgnored (p @ ''.luau'')"
proof
  assume "isIgnored (p @ ''.luau'')"
  then have "last (p @ ''.luau'') \<in> {CHR ''e'', CHR ''b'', CHR ''t''}" by (auto simp: isIgnored_def)
  then show False by simp
qed

lemma findInit_init: "fst (findInit names) = [] \<or> (\<exists>e. fst (findInit names) = ''init'' @ CHR ''.'' # e)"
proof (cases "find (\<lambda>c. fst c \<in> set names) initCandidates")
  case (Some c)
  then have "c \<in> set initCandidates" by (auto simp: find_Some_iff)
  moreover have "\<forall>c \<in> set initCandidates. \<exists>e. fst c = ''init'' @ CHR ''.'' # e" by (simp add: initCandidates_def)
  ultimately show ?thesis using Some by (simp add: findInit_def)
qed (simp add: findInit_def)

lemma not_init:
  assumes "CHR ''.'' \<notin> set c" "c \<noteq> ''init''" "sub \<in> set subExts"
  shows "fst (findInit names) \<noteq> c @ sub @ ''.luau''"
proof -
  have "takeWhile (\<lambda>x. x \<noteq> CHR ''.'') (c @ s) = c @ takeWhile (\<lambda>x. x \<noteq> CHR ''.'') s" for s
    using assms(1) by (intro takeWhile_append2) auto
  moreover have "takeWhile (\<lambda>x. x \<noteq> CHR ''.'') (sub @ ''.luau'') = []" using assms(3) by (auto simp: subExts_def)
  ultimately have "takeWhile (\<lambda>x. x \<noteq> CHR ''.'') (c @ sub @ ''.luau'') = c" by simp
  moreover have "takeWhile (\<lambda>x. x \<noteq> CHR ''.'') (''init'' @ CHR ''.'' # e) = ''init''" for e by simp
  ultimately show ?thesis using findInit_init[of names] assms(2) by (metis append_is_Nil_conv list.distinct(1))
qed

lemma addEntry_dir:
  assumes "addEntry subdir lower w base (rooted dir) ini d (n, s) = Some (n', s')" and "d \<noteq> ini" "\<not> isIgnored d"
    and "list_all isName (dir @ [d])" "Stat w (rooted (dir @ [d])) = Some KDir"
  obtains c s1 where "subdir (MapNode d [] [] []) (rooted (dir @ [d])) s = Some (c, s1)" "c \<in> set (nodeChildren n')"
proof -
  have "PathJoin (rooted dir) d = rooted (dir @ [d])" using assms(4) PathJoin_name[of dir d] by simp
  then show ?thesis using that assms by (auto simp: addEntry_def Let_def split: Option.bind_splits prod.splits)
qed

lemma addEntry_script:
  assumes "addEntry subdir lower w base (rooted dir) ini f (n, s) = Some (n', s')" and "f \<noteq> ini"
    and low: "mapsRunes lower" and c: "CHR ''.'' \<notin> set c" and sub: "sub \<in> set subExts" and f: "f = c @ sub @ ''.luau''"
    and names: "list_all isName (dir @ [f])" and reg: "isFile w (rooted (dir @ [f]))"
  shows "MapNode c (scriptClass lower (rooted (dir @ [f]))) [builderRel base (rooted (dir @ [f]))] [] \<in> set (nodeChildren n')"
proof -
  have pj: "PathJoin (rooted dir) f = rooted (dir @ [f])" using names PathJoin_name[of dir f] by simp
  have "rooted (dir @ [f]) = (if dir = [] then [] else rooted dir) @ CHR ''/'' # c @ sub @ ''.luau''" by (simp add: rooted_snoc f)
  then have "scriptClass lower (rooted (dir @ [f])) \<noteq> []" using scriptClass_script[OF low c sub] by simp
  then have cl: "classifyClass lower (rooted (dir @ [f])) = Some (scriptClass lower (rooted (dir @ [f])))" by (simp add: classifyClass_def)
  have "\<not> isIgnored f" "\<not> middleware (lower f)" using isIgnored_script[of "c @ sub"] middleware_script[OF low, of "c @ sub"] f by simp_all
  then show ?thesis using assms(1,2) pj cl reg deriveName_script[OF low c sub] f
    by (auto simp: addEntry_def Let_def isFile_def split: option.splits fileKind.splits)
qed

text \<open>The script that stands for its directory.\<close>

definition isInit :: "fs \<Rightarrow> string list \<Rightarrow> string \<Rightarrow> bool" where
  "isInit w dir f \<longleftrightarrow> (\<exists>es. ReadDir w (rooted dir) = Some es \<and> fst (findInit (sort (map fst es))) = f)"

lemma applyDir_scripts:
  assumes low: "mapsRunes lower" and c: "CHR ''.'' \<notin> set c" "isName c" and sub: "sub \<in> set subExts" and f: "f = c @ sub @ ''.luau''"
    and "applyDir lower w base k n (rooted dir) s = Some (n', s')" and "fileBelow w dir ds f" and "list_all isName (dir @ ds @ [f])"
    and "c = ''init'' \<longrightarrow> isInit w (dir @ ds) f"
  shows "\<exists>m \<in> nodesAt n' (ds @ (if c = ''init'' then [] else [c])). builderRel base (rooted (dir @ ds @ [f])) \<in> set (nodePaths m) \<and>
     (c \<noteq> ''init'' \<longrightarrow> nodeClass m = scriptClass lower (rooted (dir @ ds @ [f])))"
  using assms(6-)
proof (induction ds arbitrary: k n dir s n' s')
  case Nil
  then obtain k' es where k: "k = Suc k'" and es: "ReadDir w (rooted dir) = Some es" "f \<in> fst ` set es" "isFile w (rooted (dir @ [f]))"
    by (cases k) auto
  let ?names = "sort (map fst es)"
  have run: "foldM (addEntry (applyDir lower w base k') lower w base (rooted dir) (fst (findInit ?names))) ?names
      (initNode base (rooted dir) (findInit ?names) n, s) = Some (n', s')"
    using Nil.prems(1) k es by (simp add: applyDirBody_def Let_def)
  show ?case
  proof (cases "c = ''init''")
    case True
    then have "fst (findInit ?names) = f" using Nil.prems(4) es by (auto simp: isInit_def)
    moreover have "f \<noteq> []" using f by simp
    ultimately have "builderRel base (PathJoin (rooted dir) f) \<in> set (nodePaths n')"
      using addEntries_keep[OF run] by (simp add: initNode_def)
    then show ?thesis using True PathJoin_name[of dir f] Nil.prems(3) by simp
  next
    case False
    have "f \<in> set ?names" using es by auto
    then obtain n1 s1 n2 s2 where one: "addEntry (applyDir lower w base k') lower w base (rooted dir) (fst (findInit ?names)) f (n1, s1) = Some (n2, s2)"
      "set (nodeChildren n2) \<subseteq> set (nodeChildren n')" using addEntries_meet[OF run] by metis
    have "f \<noteq> fst (findInit ?names)" using not_init[OF c(1) False sub] f by metis
    then have "MapNode c (scriptClass lower (rooted (dir @ [f]))) [builderRel base (rooted (dir @ [f]))] [] \<in> set (nodeChildren n')"
      using addEntry_script[OF one(1) _ low c(1) sub f _ es(3)] one(2) Nil.prems(3) by auto
    then show ?thesis using False by force
  qed
next
  case (Cons d ds)
  then obtain k' es where k: "k = Suc k'" and es: "ReadDir w (rooted dir) = Some es" "d \<in> fst ` set es"
    "fst (findInit (sort (map fst es))) \<noteq> d" "\<not> isIgnored d" "Stat w (rooted (dir @ [d])) = Some KDir" "fileBelow w (dir @ [d]) ds f"
    by (cases k) auto
  let ?names = "sort (map fst es)"
  have run: "foldM (addEntry (applyDir lower w base k') lower w base (rooted dir) (fst (findInit ?names))) ?names
      (initNode base (rooted dir) (findInit ?names) n, s) = Some (n', s')"
    using Cons.prems(1) k es by (simp add: applyDirBody_def Let_def)
  have "d \<in> set ?names" using es by auto
  then obtain n1 s1 n2 s2 where one: "addEntry (applyDir lower w base k') lower w base (rooted dir) (fst (findInit ?names)) d (n1, s1) = Some (n2, s2)"
    "set (nodeChildren n2) \<subseteq> set (nodeChildren n')" using addEntries_meet[OF run] by metis
  have names: "list_all isName (dir @ [d])" using Cons.prems(3) by simp
  obtain child s3 where ch: "applyDir lower w base k' (MapNode d [] [] []) (rooted (dir @ [d])) s1 = Some (child, s3)" "child \<in> set (nodeChildren n2)"
    using addEntry_dir[OF one(1) es(3)[symmetric] es(4) names es(5)] by metis
  have "\<exists>m \<in> nodesAt child (ds @ (if c = ''init'' then [] else [c])). builderRel base (rooted ((dir @ [d]) @ ds @ [f])) \<in> set (nodePaths m) \<and>
     (c \<noteq> ''init'' \<longrightarrow> nodeClass m = scriptClass lower (rooted ((dir @ [d]) @ ds @ [f])))"
    by (rule Cons.IH[OF ch(1) es(6)]) (use Cons.prems(3,4) in auto)
  then obtain m where m: "m \<in> nodesAt child (ds @ (if c = ''init'' then [] else [c]))" "builderRel base (rooted (dir @ (d # ds) @ [f])) \<in> set (nodePaths m)"
     "c \<noteq> ''init'' \<longrightarrow> nodeClass m = scriptClass lower (rooted (dir @ (d # ds) @ [f]))" by auto
  have "nodeName child = d" using applyDir_name[OF ch(1)] by simp
  moreover have "child \<in> set (nodeChildren n')" using ch(2) one(2) by auto
  ultimately have "m \<in> nodesAt n' ((d # ds) @ (if c = ''init'' then [] else [c]))" using m(1) by auto
  then show ?case using m(2,3) by blast
qed

section \<open>The project tree\<close>

fun mountAt :: "tree \<Rightarrow> string list \<Rightarrow> tree set" where
  "mountAt t [] = {t}"
| "mountAt t (x # xs) = (\<Union>c \<in> {c \<in> set (Children t). fst c = x}. mountAt (snd c) xs)"

lemma applyPath_name: "applyPath lower w base k n p s = Some (n', s') \<Longrightarrow> nodeName n' = nodeName n"
  by (auto simp: applyPath_def split: option.splits fileKind.splits dest: applyDir_name)

lemma fromTreeE:
  assumes "fromTree lower w base k nm t s = Some (n, s')"
  obtains n0 s0 cs where "(case Path t of None \<Rightarrow> Some (MapNode nm (ClassName t) [] [], s)
      | Some p \<Rightarrow> applyPath lower w base k (MapNode nm (ClassName t) [] []) (PathJoin base p) s) = Some (n0, s0)"
    "fromTrees lower w base k (sort_key fst (Children t)) s0 = Some (cs, s')"
    "n = orClass (if Path t = None then nm else ''Folder'') (addChildren cs n0)"
  using assms by (auto simp: Let_def split: Option.bind_splits)

lemma fromTree_name:
  assumes "fromTree lower w base k nm t s = Some (n, s')"
  shows "nodeName n = nm"
  using assms by (rule fromTreeE) (auto split: option.splits dest: applyPath_name)

lemma fromTrees_mem:
  "fromTrees lower w base k cs s = Some (ns, s') \<Longrightarrow> c \<in> set cs \<Longrightarrow>
     \<exists>n \<in> set ns. \<exists>s1 s2. fromTree lower w base k (fst c) (snd c) s1 = Some (n, s2)"
proof (induction cs arbitrary: s ns)
  case (Cons d cs)
  then obtain n s1 ms where d: "fromTree lower w base k (fst d) (snd d) s = Some (n, s1)" "fromTrees lower w base k cs s1 = Some (ms, s')" "ns = n # ms"
    by (auto simp del: fromTree.simps split: Option.bind_splits)
  then show ?case using Cons.IH[OF d(2)] Cons.prems(2) by auto
qed simp

lemma fromTree_mount:
  "fromTree lower w base k nm t s = Some (n, s') \<Longrightarrow> u \<in> mountAt t ns \<Longrightarrow>
     \<exists>m \<in> nodesAt n ns. \<exists>nm' s1 s2. fromTree lower w base k nm' u s1 = Some (m, s2)"
proof (induction ns arbitrary: nm t s n s')
  case (Cons x xs)
  obtain c where c: "c \<in> set (Children t)" "fst c = x" "u \<in> mountAt (snd c) xs" using Cons.prems(2) by auto
  obtain n0 s0 cs where t: "fromTrees lower w base k (sort_key fst (Children t)) s0 = Some (cs, s')"
    "n = orClass (if Path t = None then nm else ''Folder'') (addChildren cs n0)" using Cons.prems(1) by (rule fromTreeE)
  obtain d s1 s2 where d: "d \<in> set cs" "fromTree lower w base k (fst c) (snd c) s1 = Some (d, s2)"
    using fromTrees_mem[OF t(1), of c] c(1) by auto
  have "d \<in> set (nodeChildren n)" "nodeName d = x" using t(2) d fromTree_name[OF d(2)] c(2) by auto
  moreover obtain m nm' s3 s4 where m: "m \<in> nodesAt d xs" "fromTree lower w base k nm' u s3 = Some (m, s4)"
    using Cons.IH[OF d(2) c(3)] by blast
  ultimately have "m \<in> nodesAt n (x # xs)" by auto
  then show ?case using m(2) by blast
qed (auto simp del: fromTree.simps)

lemma nodesAt_append: "nodesAt n (xs @ ys) = (\<Union>m \<in> nodesAt n xs. nodesAt m ys)"
  by (induction xs arbitrary: n) auto

text \<open>What a node has gets more, never less, while the tree around it is finished.\<close>

lemma nodesAt_grown:
  assumes "m \<in> nodesAt n xs" "set (nodeChildren n) \<subseteq> set (nodeChildren n')" "set (nodePaths n) \<subseteq> set (nodePaths n')"
  shows "\<exists>m' \<in> nodesAt n' xs. set (nodePaths m) \<subseteq> set (nodePaths m') \<and> (xs \<noteq> [] \<longrightarrow> m' = m)"
proof (cases xs)
  case (Cons x ys)
  then have "m \<in> nodesAt n' xs" using assms(1,2) by auto
  then show ?thesis by blast
qed (use assms in simp)

section \<open>What the resolver mounts\<close>

text \<open>The walk of the resolver only adds mounts.\<close>

definition grows :: "(RojoResolver \<Rightarrow> RojoResolver option) \<Rightarrow> bool" where
  "grows m \<longleftrightarrow> (\<forall>r r'. m r = Some r' \<longrightarrow> set (partitions r) \<subseteq> set (partitions r'))"

lemma growsD: "grows m \<Longrightarrow> m r = Some r' \<Longrightarrow> set (partitions r) \<subseteq> set (partitions r')"
  by (simp add: grows_def)

lemma partitions_update [simp]:
  "partitions (warn s r) = partitions r" "partitions (walkConfig p r) = partitions r" "partitions (walkDirectory p r) = partitions r"
  "partitions (pushPath m r) = partitions r" "partitions (mapFile p r) = partitions r"
  "partitions (addPartition p r) = \<lparr>PartRbxPath = rbxPath r, FsPath = p\<rparr> # partitions r"
  by (simp_all add: warn_def walkConfig_def walkDirectory_def pushPath_def mapFile_def addPartition_def)

lemma partitions_popPath: "popPath r = Some r' \<Longrightarrow> partitions r' = partitions r"
  by (auto simp: popPath_def split: if_splits)

lemma grows_bind: "grows m \<Longrightarrow> grows m' \<Longrightarrow> grows (\<lambda>r. m r \<bind> m')"
  unfolding grows_def bind_eq_Some_conv by (metis (no_types, lifting) subset_trans)

lemma grows_foldM: "(\<And>x. grows (f x)) \<Longrightarrow> grows (foldM f xs)"
proof (induction xs)
  case (Cons x xs)
  then show ?case using grows_bind[of "f x" "foldM f xs"] by simp
qed (simp add: grows_def)

lemma grows_pre: "grows m \<Longrightarrow> (\<And>r. partitions (f r) = partitions r) \<Longrightarrow> grows (\<lambda>r. m (f r))"
  unfolding grows_def by metis

lemma grows_bracket: "grows m \<Longrightarrow> grows (\<lambda>r. m (if b then r else pushPath x r) \<bind> (\<lambda>r. if b then Some r else popPath r))"
  by (rule grows_bind, rule grows_pre) (auto simp: grows_def dest: partitions_popPath)

lemma grows_if: "grows m \<Longrightarrow> grows (\<lambda>r. if b then m r else Some r)"
  by (simp add: grows_def)

lemma grows_treeInner: "(\<And>x. grows (pt x)) \<Longrightarrow> (\<And>p. grows (pp p)) \<Longrightarrow> grows (treeInner pt pp b t)"
  unfolding treeInner_def
  by (rule grows_bind, cases "Path t", simp add: grows_def, simp, rule grows_pre, rule grows_foldM) simp_all

lemma grows_searchInner: "(\<And>x. grows (pc x)) \<Longrightarrow> (\<And>x. grows (sd x)) \<Longrightarrow> grows (searchInner pc sd w d es)"
  unfolding searchInner_def by (intro grows_bind grows_foldM grows_if)

lemma grows_search:
  assumes "\<And>x. grows (pc x)" "\<And>x. grows (sd x)"
  shows "grows (searchDirectoryBody pc sd w x)"
proof -
  obtain d i where x: "x = (d, i)" by fastforce
  have "grows (\<lambda>r. searchInner pc sd w d es (if i = [] then r else pushPath i r) \<bind> (\<lambda>r. if i = [] then Some r else popPath r))" for es
    by (rule grows_bracket, rule grows_searchInner) (rule assms)+
  note b = grows_pre[OF this, of "walkDirectory (Realpath w d)"] and c = grows_pre[OF assms(1), of "walkDirectory (Realpath w d)"]
  show ?thesis unfolding x searchDirectoryBody_bracket using b c
    by (cases "ReadDir w (Realpath w d)"; cases "rojoDefaultName \<in> fst ` set (the (ReadDir w (Realpath w d)))") (auto simp: grows_def)
qed

lemma walk_grows: "grows (parseConfig w n x) \<and> grows (parseTree w n y) \<and> grows (parsePath w n p) \<and> grows (searchDirectory w n z)"
proof (induction n arbitrary: x y p z)
  case (Suc n)
  obtain b nm t d where y: "y = (b, nm, t, d)" by (cases y)
  have "grows (parseTreeBody (parseTree w n) (parsePath w n) y)"
    unfolding y parseTreeBody_bracket by (rule grows_bracket, rule grows_treeInner) (use Suc in blast)+
  moreover have "grows (parseConfigBody (parseTree w n) w x)"
    using Suc by (cases x) (fastforce simp: grows_def parseConfigBody_def Let_def bind_eq_Some_conv case_prod_unfold split: if_splits)
  moreover have "grows (parsePathBody (parseConfig w n) (searchDirectory w n) w p)"
    using Suc by (fastforce simp: grows_def parsePathBody_def Let_def split: if_splits)
  ultimately show ?case using grows_search[of "parseConfig w n" "searchDirectory w n" w z] Suc by simp
qed (simp add: grows_def)

text \<open>A path that the walk mounts as it is: neither a project file nor a module, and no directory with a project of its own.\<close>

definition plainMount :: "fs \<Rightarrow> string \<Rightarrow> bool" where
  "plainMount w p \<longleftrightarrow> convertToLuau p = p \<and> \<not> rojoFileRegex (Base p) \<and> \<not> rojoModuleExts (extname p) \<and>
     (let q = (if pathExists w p then Realpath w p else p) in \<not> (isDirectory w q \<and> dirContains w q rojoDefaultName))"

lemma parsePath_mounts:
  assumes "parsePath w n p r = Some r'" "plainMount w p"
  shows "\<lparr>PartRbxPath = rbxPath r, FsPath = p\<rparr> \<in> set (partitions r')"
proof -
  obtain m where m: "n = Suc m" using assms(1) by (cases n) simp_all
  have g: "grows (searchDirectory w m x)" for x using walk_grows by blast
  show ?thesis using assms unfolding m
    by (auto simp: parsePathBody_def plainMount_def Let_def split: if_splits dest!: growsD[OF g])
qed

lemma foldM_meet:
  assumes "foldM f xs s = Some s'" "x \<in> set xs" "\<And>x. x \<in> set xs \<Longrightarrow> keeps (f x)" "\<And>x. grows (f x)"
  obtains s1 s2 where "f x s1 = Some s2" "rbxPath s1 = rbxPath s" "set (partitions s2) \<subseteq> set (partitions s')"
  using assms
proof (induction xs arbitrary: s thesis)
  case (Cons y xs)
  obtain s0 where s0: "f y s = Some s0" "foldM f xs s0 = Some s'" using Cons.prems(2) by (auto split: Option.bind_splits)
  show ?case
  proof (cases "x = y")
    case True
    then show ?thesis using Cons.prems(1)[OF _ refl] s0 growsD[OF grows_foldM[OF Cons.prems(5)] s0(2)] by blast
  next
    case False
    have "rbxPath s0 = rbxPath s" using Cons.prems(4)[of y] s0(1) by (auto simp: keeps_def)
    then show ?thesis using Cons.IH[OF _ s0(2)] Cons.prems False by auto
  qed
qed simp

text \<open>Every mount of the project is a partition of the resolver, at the instance path of its place in the tree.\<close>

lemma parseTree_mounts:
  assumes "parseTree w n (b, nm, t, d) r = Some r'" "isRooted b" "u \<in> mountAt t ns" "Path u = Some q" "plainMount w (rojoResolvePath b q)"
  shows "\<lparr>PartRbxPath = rbxPath r @ (if d then [] else [nm]) @ ns, FsPath = rojoResolvePath b q\<rparr> \<in> set (partitions r')"
  using assms(1,3)
proof (induction ns arbitrary: n nm t d r r')
  case Nil
  obtain m where m: "n = Suc m" using Nil.prems(1) by (cases n) simp_all
  let ?r = "if d then r else pushPath nm r"
  have t: "Path t = Some q" using Nil.prems(2) assms(4) by simp
  obtain r1 r2 where r1: "parsePath w m (rojoResolvePath b q) ?r = Some r1" "foldM (\<lambda>c. parseTree w m (b, fst c, snd c, False)) (Children t)
      (if ClassName t = ''DataModel'' then r1\<lparr>IsGame := True\<rparr> else r1) = Some r2" "(if d then Some r2 else popPath r2) = Some r'"
    using Nil.prems(1) t unfolding m parseTree.simps parseTreeBody_bracket treeInner_def by (auto split: Option.bind_splits)
  have "set (partitions r1) \<subseteq> set (partitions r2)"
    using growsD[OF grows_foldM r1(2)] walk_grows by (auto split: if_splits)
  moreover have "partitions r2 = partitions r'" using r1(3) by (auto split: if_splits dest: partitions_popPath)
  ultimately show ?case using parsePath_mounts[OF r1(1) assms(5)] by (auto split: if_splits)
next
  case (Cons x xs)
  obtain m where m: "n = Suc m" using Cons.prems(1) by (cases n) simp_all
  obtain c where c: "c \<in> set (Children t)" "fst c = x" "u \<in> mountAt (snd c) xs" using Cons.prems(2) by auto
  let ?r = "if d then r else pushPath nm r"
  obtain r1 r2 where r1: "(case Path t of None \<Rightarrow> Some ?r | Some p \<Rightarrow> parsePath w m (rojoResolvePath b p) ?r) = Some r1"
    "foldM (\<lambda>c. parseTree w m (b, fst c, snd c, False)) (Children t) (if ClassName t = ''DataModel'' then r1\<lparr>IsGame := True\<rparr> else r1) = Some r2"
    "(if d then Some r2 else popPath r2) = Some r'"
    using Cons.prems(1) unfolding m parseTree.simps parseTreeBody_bracket treeInner_def by (auto split: Option.bind_splits)
  have k: "keeps (parseTree w m (b, nm', t', d'))" "keeps (parsePath w m (rojoResolvePath b p))" for nm' t' d' p
    using walk_keeps assms(2) by blast+
  let ?r1 = "if ClassName t = ''DataModel'' then r1\<lparr>IsGame := True\<rparr> else r1"
  have "rbxPath r1 = rbxPath ?r" using r1(1) k(2) by (auto simp: keeps_def split: option.splits)
  then have "rbxPath ?r1 = rbxPath ?r" by simp
  moreover have "grows (parseTree w m (b, fst y, snd y, False))" for y using walk_grows by blast
  ultimately obtain s1 s2 where s: "parseTree w m (b, fst c, snd c, False) s1 = Some s2" "rbxPath s1 = rbxPath ?r" "set (partitions s2) \<subseteq> set (partitions r2)"
    using foldM_meet[OF r1(2) c(1)] k(1) by metis
  have "partitions r2 = partitions r'" using r1(3) by (auto split: if_splits dest: partitions_popPath)
  then show ?case using Cons.IH[OF s(1) c(3)] s(2,3) c(2) by (auto split: if_splits)
qed

lemma FromPath_mounts:
  assumes walk: "FromPath w n projectFile = Some r" and p: "isRooted projectFile" "Realpath w projectFile = projectFile" "Stat w projectFile \<noteq> None"
    and parsed: "ParseProjectFile w projectFile = Some (Inr (nm, tree))"
    and mount: "u \<in> mountAt tree ns" "Path u = Some q" "plainMount w (rojoResolvePath (Dir projectFile) q)"
  shows "\<lparr>PartRbxPath = ns, FsPath = rojoResolvePath (Dir projectFile) q\<rparr> \<in> set (partitions r)"
proof -
  obtain ns0 where "list_all isName ns0" "projectFile = rooted ns0" using p(1) by (auto simp: isRooted_def)
  then have a: "Abs w projectFile = Some projectFile" by (simp add: Abs_def)
  obtain m where m: "n = Suc m" using walk by (cases n) (simp_all add: FromPath_def)
  obtain data cfg where cfg: "ReadFile w projectFile = Some data" "parseJSON (Tokens w data) = Some cfg" "validateConfig cfg = []" "configFromJSON cfg = (nm, tree)"
    using parsed by (auto simp: ParseProjectFile_def Let_def split: option.splits Option.bind_splits if_splits)
  have "parseTree w m (Dir projectFile, nm, tree, True) (walkConfig projectFile newRojoResolver) = Some r"
    using walk a cfg p(2,3) by (simp add: FromPath_def m parseConfigBody_def readConfig_def pathExists_def Let_def)
  from parseTree_mounts[OF this isRooted_Dir[OF p(1)] mount] show ?thesis by (simp add: newRojoResolver_def)
qed

lemma firstCovering_only:
  "part \<in> set ps \<Longrightarrow> coveringPath f e part = Some rp \<Longrightarrow> \<forall>x \<in> set ps. isPathDescendantOf f (FsPath x) \<longrightarrow> x = part \<Longrightarrow>
     firstCovering f e ps = Some rp"
proof (induction ps)
  case (Cons x ps)
  show ?case
  proof (cases "x = part")
    case False
    then have "coveringPath f e x = None" using Cons.prems(3) by (simp add: coveringPath_def)
    then show ?thesis using Cons False by simp
  qed (use Cons.prems(2) in simp)
qed simp

section \<open>The walk returns\<close>

text \<open>Directories descend: no directory is below itself, through a link or otherwise.\<close>

definition dirsDescend :: "fs \<Rightarrow> (string \<Rightarrow> nat) \<Rightarrow> bool" where
  "dirsDescend w rank \<longleftrightarrow> (\<forall>d es e. ReadDir w d = Some es \<longrightarrow> e \<in> set es \<longrightarrow>
     Stat w (PathJoin d (fst e)) = Some KDir \<longrightarrow> rank (PathJoin d (fst e)) < rank d)"

lemma addEntries_return:
  "(\<And>x n s. x \<in> set names \<Longrightarrow> Stat w (PathJoin dir x) = Some KDir \<Longrightarrow> subdir n (PathJoin dir x) s \<noteq> None) \<Longrightarrow>
     foldM (addEntry subdir lower w base dir ini) names (n, s) \<noteq> None"
proof (induction names arbitrary: n s)
  case (Cons x names)
  have "addEntry subdir lower w base dir ini x (n, s) \<noteq> None"
    using Cons.prems[of x "MapNode x [] [] []" s] by (auto simp: addEntry_def Let_def split: option.splits fileKind.splits Option.bind_splits)
  then obtain n1 s1 where "addEntry subdir lower w base dir ini x (n, s) = Some (n1, s1)" by fastforce
  then show ?case using Cons.IH[of n1 s1] Cons.prems by simp
qed simp

lemma applyDir_returns:
  assumes "dirsDescend w rank"
  shows "rank dir < k \<Longrightarrow> applyDir lower w base k n dir s \<noteq> None"
proof (induction k arbitrary: dir n s)
  case (Suc k)
  show ?case
  proof (cases "ReadDir w dir")
    case (Some es)
    have "rank (PathJoin dir x) < k" if "x \<in> fst ` set es" "Stat w (PathJoin dir x) = Some KDir" for x
      using assms Some that Suc.prems unfolding dirsDescend_def by fastforce
    then have "applyDir lower w base k m (PathJoin dir x) b \<noteq> None" if "x \<in> set (sort (map fst es))" "Stat w (PathJoin dir x) = Some KDir" for x m b
      using that Suc.IH by auto
    from addEntries_return[where subdir = "applyDir lower w base k" and w = w and names = "sort (map fst es)", OF this] show ?thesis using Some by (simp add: applyDirBody_def Let_def)
  qed (simp add: applyDirBody_def)
qed simp

lemma applyPath_returns:
  "dirsDescend w rank \<Longrightarrow> rank p < k \<Longrightarrow> applyPath lower w base k n p s \<noteq> None"
  using applyDir_returns[of w rank p k] by (auto simp: applyPath_def split: option.splits fileKind.splits)

lemma treePaths_child: "c \<in> set (Children t) \<Longrightarrow> set (treePaths (snd c)) \<subseteq> set (treePaths t)"
  using childPaths_sub[of "fst c" "snd c" "Children t"] by (cases t) auto

lemma treePaths_own: "Path t = Some p \<Longrightarrow> p \<in> set (treePaths t)"
  by (cases t) auto

lemma fromTree_returns:
  assumes "dirsDescend w rank"
  shows "\<forall>p \<in> set (treePaths t). rank (PathJoin base p) < k \<Longrightarrow> fromTree lower w base k nm t s \<noteq> None"
    and "\<forall>c \<in> set cs. \<forall>p \<in> set (treePaths (snd c)). rank (PathJoin base p) < k \<Longrightarrow> fromTrees lower w base k cs s \<noteq> None"
  using assms
proof (induction lower w base k nm t s and lower w base k cs s rule: fromTree_fromTrees.induct)
  case (1 lower w base k nm t s)
  have "(case Path t of None \<Rightarrow> Some (MapNode nm (ClassName t) [] [], s)
      | Some p \<Rightarrow> applyPath lower w base k (MapNode nm (ClassName t) [] []) (PathJoin base p) s) \<noteq> None"
    using applyPath_returns[OF 1(3)] treePaths_own 1(2) by (auto split: option.splits)
  then obtain n0 s0 where one: "(case Path t of None \<Rightarrow> Some (MapNode nm (ClassName t) [] [], s)
      | Some p \<Rightarrow> applyPath lower w base k (MapNode nm (ClassName t) [] []) (PathJoin base p) s) = Some (n0, s0)" by fastforce
  have "fromTrees lower w base k (sort_key fst (Children t)) s0 \<noteq> None"
    by (rule 1(1)[OF refl one refl _ 1(3)]) (use 1(2) treePaths_child in fastforce)
  then show ?case using one by (auto simp: Let_def)
next
  case (3 lower w base k c cs s)
  obtain n s1 where one: "fromTree lower w base k (fst c) (snd c) s = Some (n, s1)" using 3 by fastforce
  moreover have "fromTrees lower w base k cs s1 \<noteq> None" using 3 one by fastforce
  ultimately show ?case by (auto simp del: fromTree.simps)
qed simp

section \<open>Properties\<close>

lemma Build_some:
  assumes "dirsDescend w rank"
  shows "\<exists>k res. Build lower w GlobIgnorePaths k projectFile = Some res"
proof -
  have "ParseProjectFile w projectFile \<noteq> None"
  proof (cases "ReadFile w projectFile")
    case (Some data)
    then show ?thesis using parseJSON_returns[of "Tokens w data"] by (auto simp: ParseProjectFile_def Let_def)
  qed (simp add: ParseProjectFile_def)
  then obtain p where p: "ParseProjectFile w projectFile = Some p" by blast
  show ?thesis
  proof (cases p)
    case (Inr q)
    obtain nm t where q: "q = (nm, t)" by fastforce
    define k where "k = Suc (sum_list (map (\<lambda>p. rank (PathJoin (Dir projectFile) p)) (treePaths t)))"
    have "\<forall>p \<in> set (treePaths t). rank (PathJoin (Dir projectFile) p) < k"
    proof
      fix p assume "p \<in> set (treePaths t)"
      then have "rank (PathJoin (Dir projectFile) p) \<le> sum_list (map (\<lambda>p. rank (PathJoin (Dir projectFile) p)) (treePaths t))"
        by (intro member_le_sum_list) auto
      then show "rank (PathJoin (Dir projectFile) p) < k" by (simp add: k_def)
    qed
    then have "fromTree lower w (Dir projectFile) k nm t (\<not> hasGlobIgnorePaths w GlobIgnorePaths projectFile) \<noteq> None"
      by (rule fromTree_returns(1)[OF assms])
    then have "\<exists>res. Build lower w GlobIgnorePaths k projectFile = Some res"
      using p Inr q by (auto simp: Build_def Let_def simp del: fromTree.simps)
    then show ?thesis by blast
  qed (use p in \<open>simp add: Build_def\<close>)
qed

text \<open>Building the source map ends when no directory is below itself: with enough fuel for the depth of the
  directories a result is returned, whatever the project file contains.\<close>

theorem Build_returns:
  assumes "dirsDescend w rank"
  shows "\<exists>k res. Build lower w GlobIgnorePaths k projectFile = Some res"
  by (rule Build_some[OF assms])

text \<open>C29: The source map and the resolver of the compiler agree about the scripts of a project. Take the source map and the resolver
  built from one project file, given by its absolute path and no link; a directory that the project mounts by a relative \<open>$path\<close> at the instance path
  \<open>ns\<close>, whose name has no extension of a module or project file and that has no project file of its own; and below it a
  script whose name is a stem without dots, \<open>.server\<close>, \<open>.client\<close> or nothing, and \<open>.luau\<close>. When no other mount covers the
  script, the project does not mount it as a single file and, for an init script, it is the one that the source map
  takes for its directory, then the source map has, at the instance path that the resolver gives to the script, an instance that
  names the script among its files, with the class of the script unless it stands for its directory.\<close>

theorem sourcemap_matches_resolver:
  assumes low: "mapsRunes lower" and built: "Build lower w GlobIgnorePaths k projectFile = Some (Inr (root, supported))"
    and walk: "FromPath w n projectFile = Some r"
    and project: "isRooted projectFile" "Realpath w projectFile = projectFile" "Stat w projectFile \<noteq> None"
      "ParseProjectFile w projectFile = Some (Inr (nm, tree))"
    and mount: "u \<in> mountAt tree ns" "Path u = Some q" "\<not> IsAbs q" "PathJoin (Dir projectFile) q = rooted out" "Stat w (rooted out) = Some KDir"
      "plainMount w (rooted out)"
    and script: "CHR ''.'' \<notin> set c" "isName c" "sub \<in> set subExts" "f = c @ sub @ ''.luau''"
    and below: "fileBelow w out ds f" "list_all isName (out @ ds)" "ds = [] \<or> \<not> HasPrefix (hd ds) ''..''" "c = ''init'' \<longrightarrow> isInit w (out @ ds) f"
    and alone: "\<forall>x \<in> set (partitions r). isPathDescendantOf (rooted (out @ ds @ [f])) (FsPath x) \<longrightarrow> FsPath x = rooted out \<and> PartRbxPath x = ns"
      "map_of (filePathToRbxPathMap r) (rooted (out @ ds @ [f])) = None"
  shows "\<exists>rp. GetRbxPathFromFilePath w r (rooted (out @ ds @ [f])) = Some rp \<and>
    (\<exists>m \<in> nodesAt root rp. builderRel (Dir projectFile) (rooted (out @ ds @ [f])) \<in> set (nodePaths m) \<and>
       (c \<noteq> ''init'' \<longrightarrow> nodeClass m = scriptClass lower (rooted (out @ ds @ [f]))))"
proof -
  let ?base = "Dir projectFile" and ?f = "rooted (out @ ds @ [f])" and ?rest = "ds @ (if c = ''init'' then [] else [c])"
  have fname: "isName f" using isName_longer[of c "[]" "sub @ ''.luau''"] script by (auto simp: subExts_def isName_def)
  obtain n s s' where tree: "fromTree lower w ?base k nm tree s = Some (n, s')" and root: "root = addPath (builderRel ?base projectFile) n"
    using built project(4) by (auto simp: Build_def Let_def simp del: fromTree.simps split: Option.bind_splits)
  obtain m nm' s1 s2 where m: "m \<in> nodesAt n ns" "fromTree lower w ?base k nm' u s1 = Some (m, s2)"
    using fromTree_mount[OF tree mount(1)] by blast
  obtain n0 s0 cs where u: "applyDir lower w ?base k (MapNode nm' (ClassName u) [] []) (rooted out) s1 = Some (n0, s0)"
    "m = orClass ''Folder'' (addChildren cs n0)"
    using m(2) by (rule fromTreeE) (use mount(2,4,5) in \<open>simp add: applyPath_def\<close>)
  obtain x where x: "x \<in> nodesAt n0 ?rest" "builderRel ?base ?f \<in> set (nodePaths x)" "c \<noteq> ''init'' \<longrightarrow> nodeClass x = scriptClass lower ?f"
    using applyDir_scripts[OF low script(1,2,3,4) u(1) below(1) _ below(4)] below(2) fname by auto
  obtain y where y: "y \<in> nodesAt m ?rest" "set (nodePaths x) \<subseteq> set (nodePaths y)" "?rest \<noteq> [] \<longrightarrow> y = x"
    using nodesAt_grown[OF x(1), of m] u(2) by auto
  have "y \<in> nodesAt n (ns @ ?rest)" unfolding nodesAt_append[of n ns ?rest] using m(1) y(1) by (rule UN_I)
  then obtain z where z: "z \<in> nodesAt root (ns @ ?rest)" "set (nodePaths y) \<subseteq> set (nodePaths z)" "ns @ ?rest \<noteq> [] \<longrightarrow> z = y"
    using nodesAt_grown[of y n "ns @ ?rest" root] root by auto
  have names: "list_all isName (out @ ds)" by (rule below(2))
  have a: "Abs w ?f = Some ?f" using names fname by (simp add: Abs_def)
  have v: "extname ?f = luauExt" using strip_script(2)[OF names script(2,1,3)] script(4) by simp
  then have v': "convertToLuau ?f = ?f" by (simp add: convertToLuau_def luauExt_def luaExt_def)
  let ?part = "\<lparr>PartRbxPath = ns, FsPath = rooted out\<rparr>"
  have res: "rojoResolvePath ?base q = rooted out" using mount(3,4) by (simp add: rojoResolvePath_def)
  have "?part \<in> set (partitions r)"
    using FromPath_mounts[OF walk project mount(1,2)] mount(6) unfolding res by blast
  moreover have "coveringPath ?f luauExt ?part = Some (ns @ ?rest)"
    using covering_script[OF names script(2,1,3) below(3), of ?part] script(4) by (simp add: initName_def)
  moreover have "\<forall>x \<in> set (partitions r). isPathDescendantOf ?f (FsPath x) \<longrightarrow> x = ?part" using alone(1) by auto
  ultimately have "firstCovering ?f luauExt (partitions r) = Some (ns @ ?rest)" by (rule firstCovering_only)
  then have "GetRbxPathFromFilePath w r ?f = Some (ns @ ?rest)"
    using a v v' alone(2) by (simp add: GetRbxPathFromFilePath_def)
  then show ?thesis using z x y by (intro exI[of _ "ns @ ?rest"]) (auto intro!: bexI[of _ z])
qed

section \<open>An example\<close>

definition mapFs :: fs where
  "mapFs = (sampleFs sampleTree)\<lparr>Stat := (\<lambda>p. if p = ''/p/out'' then Some KDir else Some KRegular),
     ReadDir := (\<lambda>p. if p = ''/p/out'' then Some [(''main.server.luau'', KRegular), (''init.luau'', KRegular)] else None)\<rparr>"

lemma mapsRunes_id: "mapsRunes id"
  by (simp add: mapsRunes_def)

lemma mapFs_parsed: "ParseProjectFile mapFs ''/p/default.project.json'' = Some (Inr (''g'', sampleTree))"
proof -
  have "parseJSON (toTokens (projectJSON ''g'' sampleTree)) = Some (projectJSON ''g'' sampleTree)"
    "validateConfig (projectJSON ''g'' sampleTree) = []" "configFromJSON (projectJSON ''g'' sampleTree) = (''g'', sampleTree)"
    using project_JSON[OF sample_tree(1)] by simp_all
  then show ?thesis by (simp add: ParseProjectFile_def mapFs_def sampleFs_def)
qed

lemma mapFs_descends: "dirsDescend mapFs (\<lambda>p. 0)"
proof -
  have "PathJoin ''/p/out'' ''main.server.luau'' \<noteq> ''/p/out''" "PathJoin ''/p/out'' ''init.luau'' \<noteq> ''/p/out''" by code_simp+
  then show ?thesis by (auto simp: dirsDescend_def mapFs_def split: if_splits)
qed

theorem Build_returns_witness: "\<exists>k res. Build id mapFs (\<lambda>_. None) k ''/p/default.project.json'' = Some res"
  by (rule Build_returns[OF mapFs_descends])

lemma mapFs_walk:
  "\<exists>r. FromPath mapFs 5 ''/p/default.project.json'' = Some r \<and> partitions r = [\<lparr>PartRbxPath = [''Shared''], FsPath = ''/p/out''\<rparr>] \<and>
     filePathToRbxPathMap r = []"
proof -
  let ?p = "''/p/default.project.json''"
  have "map_option (\<lambda>r. (map (\<lambda>x. (PartRbxPath x, FsPath x)) (partitions r), filePathToRbxPathMap r))
      (parseTree mapFs 4 (''/p'', ''g'', sampleTree, True) (walkConfig ?p newRojoResolver)) = Some ([([''Shared''], ''/p/out'')], [])" by code_simp
  then obtain r where r: "parseTree mapFs 4 (''/p'', ''g'', sampleTree, True) (walkConfig ?p newRojoResolver) = Some r"
    "map (\<lambda>x. (PartRbxPath x, FsPath x)) (partitions r) = [([''Shared''], ''/p/out'')]" "filePathToRbxPathMap r = []" by auto
  have "Abs mapFs ?p = Some ?p" "Dir ?p = ''/p''" by code_simp+
  moreover have "readConfig mapFs ?p = Some (projectJSON ''g'' sampleTree)" "Realpath mapFs ?p = ?p" "pathExists mapFs ?p"
    using project_JSON[OF sample_tree(1)] by (simp_all add: readConfig_def mapFs_def sampleFs_def pathExists_def)
  ultimately have "FromPath mapFs 5 ?p = Some r"
    using r(1) project_JSON[OF sample_tree(1)] parseConfig.simps(2)[of mapFs 4] by (simp add: FromPath_def parseConfigBody_def Let_def)
  moreover have "partitions r = [\<lparr>PartRbxPath = [''Shared''], FsPath = ''/p/out''\<rparr>]"
    using r(2) by (auto simp: map_eq_Cons_conv)
  ultimately show ?thesis using r(3) by simp
qed

theorem sourcemap_matches_resolver_witness:
  "\<exists>k root supported m. Build id mapFs (\<lambda>_. None) k ''/p/default.project.json'' = Some (Inr (root, supported)) \<and>
     m \<in> nodesAt root [''Shared'', ''main''] \<and> ''out/main.server.luau'' \<in> set (nodePaths m) \<and> nodeClass m = ''Script''"
proof -
  let ?f = "''main'' @ ''.server'' @ ''.luau''"
  have paths: "rooted [''p'', ''out''] = ''/p/out''" "rooted ([''p'', ''out''] @ [] @ [?f]) = ''/p/out/main.server.luau''"
    "Dir ''/p/default.project.json'' = ''/p''" "PathJoin ''/p'' ''out'' = ''/p/out''"
    "Rel ''/p'' ''/p/out/main.server.luau'' = Some ''out/main.server.luau''" "scriptClass id ''/p/out/main.server.luau'' = ''Script''"
    by code_simp+
  have plain: "plainMount mapFs ''/p/out''" "\<not> IsAbs ''out''" by code_simp+
  have rooted: "isRooted ''/p/default.project.json''" using isRooted_Abs [OF sample_rooted(3,2,1)] .
  obtain k res where k: "Build id mapFs (\<lambda>_. None) k ''/p/default.project.json'' = Some res" using Build_some[OF mapFs_descends] by blast
  then obtain root supported where res: "res = Inr (root, supported)"
    using mapFs_parsed by (auto simp: Build_def Let_def simp del: fromTree.simps split: Option.bind_splits)
  have u: "Tree [] (Some ''out'') [] \<in> mountAt sampleTree [''Shared'']" by (simp add: sampleTree_def)
  obtain r where r: "FromPath mapFs 5 ''/p/default.project.json'' = Some r" "partitions r = [\<lparr>PartRbxPath = [''Shared''], FsPath = ''/p/out''\<rparr>]"
    "filePathToRbxPathMap r = []" using mapFs_walk by blast
  have "\<exists>rp. GetRbxPathFromFilePath mapFs r (rooted ([''p'', ''out''] @ [] @ [?f])) = Some rp \<and>
    (\<exists>m \<in> nodesAt root rp. builderRel (Dir ''/p/default.project.json'') (rooted ([''p'', ''out''] @ [] @ [?f])) \<in> set (nodePaths m) \<and>
       (''main'' \<noteq> ''init'' \<longrightarrow> nodeClass m = scriptClass id (rooted ([''p'', ''out''] @ [] @ [?f]))))"
    by (rule sourcemap_matches_resolver[OF mapsRunes_id k[unfolded res] r(1) rooted _ _ mapFs_parsed u])
      (use plain paths(4) in \<open>simp_all add: paths(1,3) paths(2)[simplified] r(2,3) mapFs_def sampleFs_def isFile_def isName_def subExts_def\<close>)
  moreover have "GetRbxPathFromFilePath mapFs r ''/p/out/main.server.luau'' =
      GetRbxPathFromFilePath mapFs (addPartition ''/p/out'' (pushPath ''Shared'' newRojoResolver)) ''/p/out/main.server.luau''"
  proof -
    let ?r0 = "addPartition ''/p/out'' (pushPath ''Shared'' newRojoResolver)"
    have "partitions r = partitions ?r0" "filePathToRbxPathMap r = filePathToRbxPathMap ?r0"
      using r(2,3) by (simp_all add: addPartition_def pushPath_def newRojoResolver_def)
    then show ?thesis by (simp only: GetRbxPathFromFilePath_def)
  qed
  moreover have "GetRbxPathFromFilePath mapFs (addPartition ''/p/out'' (pushPath ''Shared'' newRojoResolver)) ''/p/out/main.server.luau'' = Some [''Shared'', ''main'']"
    by code_simp
  ultimately show ?thesis unfolding paths using k res paths(5,6) by (auto simp: builderRel_def)
qed

end
