(* ===== verification/Glob.thy ===== *)
theory Glob
  imports Go_Path
begin

text \<open>
  The path patterns of \<open>src/internal/assets/glob.go\<close> and of its copy
  \<open>src/internal/bundle/glob.go\<close>: pattern and path are split into segments, and a segment is
  matched by the iterative algorithm with backtracking to the last star.

  \<open>strings.ToLower\<close> (Unicode case tables) is an argument. The conversion \<open>[]rune(s)\<close> decodes
  UTF-8; an invalid byte becomes U+FFFD.
\<close>

section \<open>Runes\<close>

definition cont :: "nat \<Rightarrow> nat \<Rightarrow> char \<Rightarrow> bool" where
  "cont lo hi c \<longleftrightarrow> lo \<le> of_char c \<and> of_char c \<le> hi"

text \<open>The first rune of a nonempty string and its width.\<close>

definition decodeRune :: "string \<Rightarrow> nat \<times> nat" where
  "decodeRune s = (case s of [] \<Rightarrow> (0xFFFD, 1) | c # cs \<Rightarrow>
     let b = (of_char c :: nat); bad = (0xFFFD, 1) in
     if b < 0x80 then (b, 1)
     else if 0xC2 \<le> b \<and> b \<le> 0xDF then
       (case cs of c1 # _ \<Rightarrow> if cont 0x80 0xBF c1 then ((b mod 0x20) * 0x40 + of_char c1 mod 0x40, 2) else bad | _ \<Rightarrow> bad)
     else if 0xE0 \<le> b \<and> b \<le> 0xEF then
       (case cs of c1 # c2 # _ \<Rightarrow>
          if cont (if b = 0xE0 then 0xA0 else 0x80) (if b = 0xED then 0x9F else 0xBF) c1 \<and> cont 0x80 0xBF c2
          then ((b mod 0x10) * 0x1000 + (of_char c1 mod 0x40) * 0x40 + of_char c2 mod 0x40, 3) else bad | _ \<Rightarrow> bad)
     else if 0xF0 \<le> b \<and> b \<le> 0xF4 then
       (case cs of c1 # c2 # c3 # _ \<Rightarrow>
          if cont (if b = 0xF0 then 0x90 else 0x80) (if b = 0xF4 then 0x8F else 0xBF) c1 \<and> cont 0x80 0xBF c2 \<and> cont 0x80 0xBF c3
          then ((b mod 0x8) * 0x40000 + (of_char c1 mod 0x40) * 0x1000 + (of_char c2 mod 0x40) * 0x40 + of_char c3 mod 0x40, 4)
          else bad | _ \<Rightarrow> bad)
     else bad)"

lemma decodeRune_width: "0 < snd (decodeRune s)"
  by (simp add: decodeRune_def Let_def split: list.splits)

function runes :: "string \<Rightarrow> nat list" where
  "runes s = (if s = [] then [] else fst (decodeRune s) # runes (drop (snd (decodeRune s)) s))"
  by pat_completeness auto

termination
  by (relation "measure length") (simp_all add: decodeRune_width diff_less)

declare runes.simps [simp del]

text \<open>Multi-byte runes are not ASCII, so an ASCII rune is a byte of the string.\<close>

lemma mod_window:
  fixes b :: nat
  assumes "k * n \<le> b" "b < k * n + n"
  shows "b mod n = b - k * n"
proof -
  obtain d where "b = k * n + d" using assms(1) le_Suc_ex by blast
  then show ?thesis using assms(2) by (simp add: mult.commute)
qed

lemma decode_ascii: "fst (decodeRune (c # cs)) < 128 \<Longrightarrow> fst (decodeRune (c # cs)) = of_char c"
proof -
  have twoB: "128 \<le> b mod 32 * 64 + x" if "194 \<le> b" "b \<le> 223" for b x :: nat
    using mod_window [of 6 32 b] that by simp
  have threeA: "128 \<le> c mod 64 * 64 + x" if "160 \<le> c" "c \<le> 191" for c x :: nat
    using mod_window [of 2 64 c] that by simp
  have threeB: "128 \<le> b mod 16 * 4096 + x" if "225 \<le> b" "b \<le> 239" for b x :: nat
    using mod_window [of 14 16 b] that by simp
  have fourA: "128 \<le> c mod 64 * 4096 + x" if "144 \<le> c" "c \<le> 191" for c x :: nat
    using mod_window [of 2 64 c] that by simp
  have fourB: "128 \<le> b mod 8 * 262144 + x" if "241 \<le> b" "b \<le> 244" for b x :: nat
    using mod_window [of 30 8 b] that by simp
  let ?b = "of_char c :: nat"
  have wide: "128 \<le> fst (decodeRune (c # cs))" if b: "\<not> ?b < 128"
  proof -
    consider (two) "194 \<le> ?b \<and> ?b \<le> 223" | (three) "224 \<le> ?b \<and> ?b \<le> 239" | (four) "240 \<le> ?b \<and> ?b \<le> 244"
      | (other) "\<not> (194 \<le> ?b \<and> ?b \<le> 223)" "\<not> (224 \<le> ?b \<and> ?b \<le> 239)" "\<not> (240 \<le> ?b \<and> ?b \<le> 244)" by blast
    then show ?thesis
    proof cases
      case two
      then show ?thesis using b twoB [of ?b]
        by (simp add: decodeRune_def Let_def split: list.split)
    next
      case three
      then have r: "\<not> (194 \<le> ?b \<and> ?b \<le> 223)" by simp
      show ?thesis
        unfolding decodeRune_def Let_def list.case if_not_P [OF b] if_not_P [OF r] if_P [OF three] cont_def
        using threeA threeB [of ?b] three by (cases "?b = 224") (simp_all add: add.assoc split: list.split)
    next
      case four
      then have r: "\<not> (194 \<le> ?b \<and> ?b \<le> 223)" "\<not> (224 \<le> ?b \<and> ?b \<le> 239)" by simp_all
      show ?thesis
        unfolding decodeRune_def Let_def list.case if_not_P [OF b] if_not_P [OF r(1)] if_not_P [OF r(2)] if_P [OF four] cont_def
        using fourA fourB [of ?b] four by (cases "?b = 240") (simp_all add: add.assoc split: list.split)
    next
      case other
      show ?thesis
        unfolding decodeRune_def Let_def list.case if_not_P [OF b] if_not_P [OF other(1)] if_not_P [OF other(2)] if_not_P [OF other(3)]
        by simp
    qed
  qed
  show "fst (decodeRune (c # cs)) = of_char c" if "fst (decodeRune (c # cs)) < 128"
    using that wide by (cases "?b < 128") (simp_all add: decodeRune_def)
qed

lemma runes_ascii: "r \<in> set (runes s) \<Longrightarrow> r < 128 \<Longrightarrow> char_of r \<in> set s"
proof (induction s rule: runes.induct)
  case (1 s)
  show ?case
  proof (cases s)
    case Nil
    then show ?thesis using 1(2) by (simp add: runes.simps)
  next
    case (Cons c cs)
    have "r = fst (decodeRune s) \<or> r \<in> set (runes (drop (snd (decodeRune s)) s))"
      using 1(2) Cons by (subst (asm) runes.simps) auto
    then show ?thesis
    proof
      assume "r = fst (decodeRune s)"
      then show ?thesis using decode_ascii [of c cs] 1(3) Cons by simp
    next
      assume "r \<in> set (runes (drop (snd (decodeRune s)) s))"
      then have "char_of r \<in> set (drop (snd (decodeRune s)) s)" using 1 Cons by simp
      then show ?thesis by (rule in_set_dropD)
    qed
  qed
qed

abbreviation STAR :: nat where "STAR \<equiv> 42"
abbreviation QUESTION :: nat where "QUESTION \<equiv> 63"

section \<open>Matching (\<open>glob.go\<close>)\<close>

definition splitClean :: "string \<Rightarrow> string list" where
  "splitClean p = filter (\<lambda>s. s \<noteq> [] \<and> s \<noteq> ''.'') (Split p (CHR ''/''))"

text \<open>The loop of \<open>matchSegment\<close>; \<open>star = -1\<close> is \<open>None\<close>. It returns the position in the pattern when
  the segment is used up, or \<open>None\<close> inside for the early \<open>return false\<close>.\<close>

partial_function (option) segmentLoop :: "nat list \<Rightarrow> nat list \<Rightarrow> nat \<Rightarrow> nat \<Rightarrow> nat option \<Rightarrow> nat \<Rightarrow> nat option option" where
  "segmentLoop pr sr pi si star mark =
     (if \<not> si < length sr then Some (Some pi)
      else if pi < length pr \<and> (pr ! pi = QUESTION \<or> pr ! pi = sr ! si) then segmentLoop pr sr (pi + 1) (si + 1) star mark
      else if pi < length pr \<and> pr ! pi = STAR then segmentLoop pr sr (pi + 1) si (Some pi) si
      else (case star of
          Some st \<Rightarrow> segmentLoop pr sr (st + 1) (mark + 1) star (mark + 1)
        | None \<Rightarrow> Some None))"

declare segmentLoop.simps [code]

definition skipStars :: "nat list \<Rightarrow> nat \<Rightarrow> nat" where
  "skipStars pr pi = pi + length (takeWhile (\<lambda>r. r = STAR) (drop pi pr))"

definition matchSegment :: "string \<Rightarrow> string \<Rightarrow> bool option" where
  "matchSegment pat s =
     (let pr = runes pat; sr = runes s in do {
        r \<leftarrow> segmentLoop pr sr 0 0 None 0;
        Some (case r of None \<Rightarrow> False | Some pi \<Rightarrow> skipStars pr pi = length pr)
      })"

text \<open>\<open>matchSegments\<close>: the inner loop of a doublestar tries every number of segments.\<close>

fun matchSegments :: "string list \<Rightarrow> string list \<Rightarrow> bool option" and
  tryFrom :: "string list \<Rightarrow> string list \<Rightarrow> bool option" where
  "matchSegments [] name = Some (name = [])"
| "matchSegments (p # pat) name =
     (if p = ''**'' then tryFrom pat name
      else (case name of [] \<Rightarrow> Some False
        | n # ns \<Rightarrow> do { m \<leftarrow> matchSegment p n; if m then matchSegments pat ns else Some False }))"
| "tryFrom pat name = do {
     m \<leftarrow> matchSegments pat name;
     if m then Some True else (case name of [] \<Rightarrow> Some False | n # ns \<Rightarrow> tryFrom pat ns)
   }"

definition normalize :: "(string \<Rightarrow> string) \<Rightarrow> string \<Rightarrow> string list" where
  "normalize lower p = splitClean (lower (replaceBackslashes p))"

definition Match :: "(string \<Rightarrow> string) \<Rightarrow> string \<Rightarrow> string \<Rightarrow> bool option" where
  "Match lower pattern name = matchSegments (normalize lower pattern) (normalize lower name)"

definition matchGlob :: "(string \<Rightarrow> string) \<Rightarrow> string \<Rightarrow> string \<Rightarrow> bool option" where
  "matchGlob lower pattern name = matchSegments (normalize lower pattern) (normalize lower name)"

definition isWild :: "string \<Rightarrow> bool" where
  "isWild s \<longleftrightarrow> CHR ''*'' \<in> set s \<or> CHR ''?'' \<in> set s"

definition staticPrefix :: "string \<Rightarrow> string" where
  "staticPrefix pattern = Join (takeWhile (\<lambda>s. \<not> isWild s) (splitClean pattern)) ''/''"

section \<open>The documented meaning of a pattern\<close>

inductive seg_match :: "nat list \<Rightarrow> nat list \<Rightarrow> bool" where
  seg_end: "seg_match [] []"
| seg_star: "seg_match p s2 \<Longrightarrow> seg_match (STAR # p) (s1 @ s2)"
| seg_any: "seg_match p s \<Longrightarrow> seg_match (QUESTION # p) (c # s)"
| seg_lit: "seg_match p s \<Longrightarrow> c \<noteq> STAR \<Longrightarrow> c \<noteq> QUESTION \<Longrightarrow> seg_match (c # p) (c # s)"

inductive_simps seg_match_Nil [simp]: "seg_match [] s"
inductive_cases seg_match_ConsE: "seg_match (c # p) s"

inductive path_match :: "string list \<Rightarrow> string list \<Rightarrow> bool" where
  path_end: "path_match [] []"
| path_stars: "path_match p n2 \<Longrightarrow> path_match (''**'' # p) (n1 @ n2)"
| path_seg: "path_match p ns \<Longrightarrow> c \<noteq> ''**'' \<Longrightarrow> seg_match (runes c) (runes n) \<Longrightarrow> path_match (c # p) (n # ns)"

inductive_simps path_match_Nil [simp]: "path_match [] ns"
inductive_cases path_match_ConsE: "path_match (c # p) ns"

lemma seg_match_star: "seg_match (STAR # p) s \<longleftrightarrow> (\<exists>k \<le> length s. seg_match p (drop k s))"
proof
  assume "seg_match (STAR # p) s"
  then show "\<exists>k \<le> length s. seg_match p (drop k s)"
  proof (rule seg_match_ConsE)
    fix s2 s1 assume "s = s1 @ s2" "seg_match p s2"
    then show ?thesis by (intro exI [of _ "length s1"]) simp
  qed auto
next
  assume "\<exists>k \<le> length s. seg_match p (drop k s)"
  then show "seg_match (STAR # p) s" by (metis append_take_drop_id seg_star)
qed

lemma seg_match_plain: "c \<noteq> STAR \<Longrightarrow> seg_match (c # p) s \<longleftrightarrow> (\<exists>d r. s = d # r \<and> (c = QUESTION \<or> c = d) \<and> seg_match p r)"
  by (auto elim: seg_match_ConsE intro: seg_match.intros)

text \<open>A pattern without stars matches segments of its own length.\<close>

lemma seg_match_append:
  "STAR \<notin> set w \<Longrightarrow> seg_match (w @ p) s \<Longrightarrow> length w \<le> length s \<and> seg_match p (drop (length w) s)"
proof (induction w arbitrary: s)
  case (Cons c w)
  then show ?case by (auto simp: seg_match_plain)
qed simp

section \<open>The loop decides the meaning\<close>

text \<open>What is still to be decided: the position itself, or a later start for the last star.\<close>

definition pending :: "nat list \<Rightarrow> nat list \<Rightarrow> nat \<Rightarrow> nat \<Rightarrow> nat option \<Rightarrow> nat \<Rightarrow> bool" where
  "pending pr sr pi si star mark \<longleftrightarrow> seg_match (drop pi pr) (drop si sr) \<or>
     (case star of None \<Rightarrow> False | Some st \<Rightarrow> \<exists>k. mark < k \<and> k \<le> length sr \<and> seg_match (drop (st + 1) pr) (drop k sr))"

definition loop_inv :: "nat list \<Rightarrow> nat list \<Rightarrow> nat \<Rightarrow> nat \<Rightarrow> nat option \<Rightarrow> nat \<Rightarrow> bool" where
  "loop_inv pr sr pi si star mark \<longleftrightarrow> pi \<le> length pr \<and> si \<le> length sr \<and>
     mark \<le> si \<and> (case star of None \<Rightarrow> True
      | Some st \<Rightarrow> st < length pr \<and> pi = st + 1 + (si - mark) \<and> STAR \<notin> set (take (si - mark) (drop (st + 1) pr)))"

lemma drop_take_split: "pi = st + 1 + n \<Longrightarrow> drop (st + 1) pr = take n (drop (st + 1) pr) @ drop pi pr"
  by (metis append_take_drop_id drop_drop add.commute)

text \<open>The four ways a round can go.\<close>

lemma round_match:
  assumes "loop_inv pr sr pi si star mark" "si < length sr" "pi < length pr" "pr ! pi = QUESTION \<or> pr ! pi = sr ! si" "STAR \<notin> set sr"
  shows "loop_inv pr sr (pi + 1) (si + 1) star mark" "pending pr sr (pi + 1) (si + 1) star mark = pending pr sr pi si star mark"
proof -
  have ns: "pr ! pi \<noteq> STAR" using assms(2,4,5) nth_mem by fastforce
  have p: "drop pi pr = pr ! pi # drop (pi + 1) pr" "drop si sr = sr ! si # drop (si + 1) sr"
    using assms(2,3) by (simp_all add: Cons_nth_drop_Suc)
  have "seg_match (drop pi pr) (drop si sr) = seg_match (drop (pi + 1) pr) (drop (si + 1) sr)"
    unfolding p using assms(4) by (simp add: seg_match_plain [OF ns])
  then show "pending pr sr (pi + 1) (si + 1) star mark = pending pr sr pi si star mark" by (simp add: pending_def)
  show "loop_inv pr sr (pi + 1) (si + 1) star mark"
  proof (cases star)
    case (Some st)
    have i: "mark \<le> si" "pi = st + 1 + (si - mark)" "STAR \<notin> set (take (si - mark) (drop (st + 1) pr))" "st < length pr"
      using assms(1) Some by (simp_all add: loop_inv_def)
    have "take (si + 1 - mark) (drop (st + 1) pr) = take (si - mark) (drop (st + 1) pr) @ [pr ! pi]"
      using i(1,2) assms(3) by (simp add: Suc_diff_le take_Suc_conv_app_nth)
    then show ?thesis using assms(2,3) i ns Some by (simp add: loop_inv_def)
  qed (use assms(1-3) in \<open>simp add: loop_inv_def\<close>)
qed

lemma old_star_subsumed:
  assumes "loop_inv pr sr pi si (Some st) mark" "mark < k" "k \<le> length sr" "seg_match (drop (st + 1) pr) (drop k sr)"
  shows "k + (si - mark) \<le> length sr \<and> seg_match (drop pi pr) (drop (k + (si - mark)) sr)"
proof -
  let ?w = "take (si - mark) (drop (st + 1) pr)"
  have i: "mark \<le> si" "pi = st + 1 + (si - mark)" "STAR \<notin> set ?w" "pi \<le> length pr"
    using assms(1) by (auto simp: loop_inv_def)
  have w: "length ?w = si - mark" using i by simp
  have "seg_match (?w @ drop pi pr) (drop k sr)" using assms(4) drop_take_split [OF i(2), of pr] by simp
  from seg_match_append [OF i(3) this] show ?thesis unfolding w using assms(3) by (auto simp: add.commute)
qed

lemma round_star:
  assumes "loop_inv pr sr pi si star mark" "si < length sr" "pi < length pr" "pr ! pi = STAR"
  shows "loop_inv pr sr (pi + 1) si (Some pi) si" "pending pr sr (pi + 1) si (Some pi) si = pending pr sr pi si star mark"
proof -
  show "loop_inv pr sr (pi + 1) si (Some pi) si" using assms by (simp add: loop_inv_def)
  have p: "drop pi pr = STAR # drop (pi + 1) pr" using Cons_nth_drop_Suc [OF assms(3)] assms(4) by simp
  have here: "seg_match (drop pi pr) (drop i sr) \<longleftrightarrow> (\<exists>k. i \<le> k \<and> k \<le> length sr \<and> seg_match (drop (pi + 1) pr) (drop k sr))"
    if "i \<le> length sr" for i
  proof
    assume "seg_match (drop pi pr) (drop i sr)"
    then obtain k where "k \<le> length (drop i sr)" "seg_match (drop (pi + 1) pr) (drop k (drop i sr))"
      unfolding p seg_match_star by blast
    then show "\<exists>k. i \<le> k \<and> k \<le> length sr \<and> seg_match (drop (pi + 1) pr) (drop k sr)"
      using that by (intro exI [of _ "i + k"]) (simp add: add.commute)
  next
    assume "\<exists>k. i \<le> k \<and> k \<le> length sr \<and> seg_match (drop (pi + 1) pr) (drop k sr)"
    then obtain k where "i \<le> k" "k \<le> length sr" "seg_match (drop (pi + 1) pr) (drop k sr)" by blast
    then show "seg_match (drop pi pr) (drop i sr)"
      unfolding p seg_match_star by (intro exI [of _ "k - i"]) simp
  qed
  have "pending pr sr (pi + 1) si (Some pi) si \<longleftrightarrow> seg_match (drop pi pr) (drop si sr)"
    unfolding pending_def using here [of si] assms(2) by (auto simp: nat_less_le)
  moreover have "seg_match (drop pi pr) (drop si sr)"
    if "star = Some st" "mark < k" "k \<le> length sr" "seg_match (drop (st + 1) pr) (drop k sr)" for st k
  proof -
    have "k + (si - mark) \<le> length sr \<and> seg_match (drop pi pr) (drop (k + (si - mark)) sr)"
      using old_star_subsumed [of pr sr pi si st mark k] assms(1) that by simp
    moreover have "si \<le> k + (si - mark)" using that(2) assms(1) by (simp add: loop_inv_def)
    ultimately show ?thesis using here [of si] here [of "k + (si - mark)"] assms(2) by (meson le_trans less_imp_le)
  qed
  ultimately show "pending pr sr (pi + 1) si (Some pi) si = pending pr sr pi si star mark"
    unfolding pending_def by (auto split: option.splits)
qed

lemma round_stuck:
  assumes "si < length sr" "\<not> (pi < length pr \<and> (pr ! pi = QUESTION \<or> pr ! pi = sr ! si))" "\<not> (pi < length pr \<and> pr ! pi = STAR)"
  shows "\<not> seg_match (drop pi pr) (drop si sr)"
proof (cases "pi < length pr")
  case True
  have "drop pi pr = pr ! pi # drop (pi + 1) pr" "drop si sr = sr ! si # drop (si + 1) sr"
    using assms(1) True by (simp_all add: Cons_nth_drop_Suc)
  then show ?thesis using assms(2,3) True by (simp add: seg_match_plain)
qed (use assms(1) in simp)

lemma round_back:
  assumes "loop_inv pr sr pi si (Some st) mark" "si < length sr" "\<not> seg_match (drop pi pr) (drop si sr)"
  shows "loop_inv pr sr (st + 1) (mark + 1) (Some st) (mark + 1)"
    "pending pr sr (st + 1) (mark + 1) (Some st) (mark + 1) = pending pr sr pi si (Some st) mark"
proof -
  show "loop_inv pr sr (st + 1) (mark + 1) (Some st) (mark + 1)" using assms(1,2) by (simp add: loop_inv_def)
  have "mark + 1 \<le> length sr" using assms(1,2) by (simp add: loop_inv_def)
  then have "(\<exists>k. mark < k \<and> k \<le> length sr \<and> P k) \<longleftrightarrow> P (mark + 1) \<or> (\<exists>k. mark + 1 < k \<and> k \<le> length sr \<and> P k)" for P
    by (metis Suc_eq_plus1 Suc_leI lessI less_Suc_eq nat_less_le not_less_eq)
  then show "pending pr sr (st + 1) (mark + 1) (Some st) (mark + 1) = pending pr sr pi si (Some st) mark"
    using assms(3) by (simp add: pending_def)
qed

lemma only_stars: "seg_match p [] \<longleftrightarrow> (\<forall>c \<in> set p. c = STAR)"
proof (induction p)
  case (Cons c p)
  then show ?case by (cases "c = STAR") (auto simp: seg_match_star seg_match_plain)
qed simp

lemma skipStars_end: "pi \<le> length pr \<Longrightarrow> skipStars pr pi = length pr \<longleftrightarrow> seg_match (drop pi pr) []"
proof -
  assume "pi \<le> length pr"
  then have "skipStars pr pi = length pr \<longleftrightarrow> length (takeWhile (\<lambda>r. r = STAR) (drop pi pr)) = length (drop pi pr)"
    by (auto simp: skipStars_def)
  also have "\<dots> \<longleftrightarrow> takeWhile (\<lambda>r. r = STAR) (drop pi pr) = drop pi pr"
    by (metis takeWhile_eq_take take_all_iff order_refl)
  finally show ?thesis by (simp add: takeWhile_eq_all_conv only_stars)
qed

lemma round_end:
  assumes "loop_inv pr sr pi si star mark" "\<not> si < length sr"
  shows "skipStars pr pi = length pr \<longleftrightarrow> pending pr sr pi si star mark"
proof -
  have si: "si = length sr" "pi \<le> length pr" using assms by (auto simp: loop_inv_def)
  have "False" if "star = Some st" "mark < k" "k \<le> length sr" "seg_match (drop (st + 1) pr) (drop k sr)" for st k
  proof -
    have "k + (si - mark) \<le> length sr" using old_star_subsumed [of pr sr pi si st mark k] assms(1) that by simp
    then show False using that(2) assms(1) si(1) by (simp add: loop_inv_def)
  qed
  then show ?thesis using skipStars_end [OF si(2)] si(1) by (auto simp: pending_def split: option.splits)
qed

definition verdict :: "nat list \<Rightarrow> nat option \<Rightarrow> bool" where
  "verdict pr r \<longleftrightarrow> (case r of None \<Rightarrow> False | Some pi \<Rightarrow> skipStars pr pi = length pr)"

lemma segmentLoop_decides:
  assumes "STAR \<notin> set sr" "loop_inv pr sr pi si star mark"
  shows "\<exists>r. segmentLoop pr sr pi si star mark = Some r \<and> (verdict pr r \<longleftrightarrow> pending pr sr pi si star mark)"
  using assms(2)
proof (induction "(length sr - mark) * (length sr + length pr + 1) + (length sr - si) + (length pr - pi)"
    arbitrary: pi si star mark rule: less_induct)
  case less
  note inv = less.prems
  show ?case
  proof (cases "si < length sr")
    case False
    then show ?thesis using round_end [OF inv False] by (subst segmentLoop.simps) (simp add: verdict_def)
  next
    case si: True
    have le: "mark \<le> si" "pi \<le> length pr" using inv by (simp_all add: loop_inv_def)
    show ?thesis
    proof (cases "pi < length pr \<and> (pr ! pi = QUESTION \<or> pr ! pi = sr ! si)")
      case True
      note m = round_match [OF inv si conjunct1 [OF True] conjunct2 [OF True] assms(1)]
      have "\<exists>r. segmentLoop pr sr (pi + 1) (si + 1) star mark = Some r \<and> (verdict pr r \<longleftrightarrow> pending pr sr (pi + 1) (si + 1) star mark)"
        by (rule less.hyps [OF _ m(1)]) (use si True in linarith)
      then show ?thesis unfolding m(2) using si True by (subst segmentLoop.simps) simp
    next
      case nomatch: False
      show ?thesis
      proof (cases "pi < length pr \<and> pr ! pi = STAR")
        case True
        note m = round_star [OF inv si conjunct1 [OF True] conjunct2 [OF True]]
        have "(length sr - si) * (length sr + length pr + 1) \<le> (length sr - mark) * (length sr + length pr + 1)"
          using le(1) by (intro mult_le_mono1) simp
        then have "\<exists>r. segmentLoop pr sr (pi + 1) si (Some pi) si = Some r \<and> (verdict pr r \<longleftrightarrow> pending pr sr (pi + 1) si (Some pi) si)"
          by (intro less.hyps [OF _ m(1)]) (use True in linarith)
        then show ?thesis unfolding m(2) using si True nomatch by (subst segmentLoop.simps) simp
      next
        case False
        note stuck = round_stuck [OF si nomatch False]
        show ?thesis
        proof (cases star)
          case None
          then show ?thesis using stuck si nomatch False by (subst segmentLoop.simps) (auto simp: verdict_def pending_def)
        next
          case (Some st)
          note m = round_back [OF inv [unfolded Some] si stuck]
          have "length sr - mark = Suc (length sr - (mark + 1))" using le(1) si by simp
          then have "(length sr - mark) * (length sr + length pr + 1) = (length sr - (mark + 1)) * (length sr + length pr + 1) + (length sr + length pr + 1)"
            by simp
          then have "\<exists>r. segmentLoop pr sr (st + 1) (mark + 1) (Some st) (mark + 1) = Some r \<and>
              (verdict pr r \<longleftrightarrow> pending pr sr (st + 1) (mark + 1) (Some st) (mark + 1))"
            by (intro less.hyps [OF _ m(1)]) linarith
          then show ?thesis unfolding m(2) Some using si nomatch False by (subst segmentLoop.simps) auto
        qed
      qed
    qed
  qed
qed

section \<open>Properties\<close>

lemma Split_chars: "p \<in> set (Split s c) \<Longrightarrow> set p \<subseteq> set s"
  by (induction s arbitrary: p) (auto split: if_splits list.splits, blast+)

lemma matchSegment_decides:
  assumes "STAR \<notin> set (runes s)"
  shows "matchSegment pat s = Some (seg_match (runes pat) (runes s))"
proof -
  have "loop_inv (runes pat) (runes s) 0 0 None 0" by (simp add: loop_inv_def)
  from segmentLoop_decides [OF assms this] obtain r where
    "segmentLoop (runes pat) (runes s) 0 0 None 0 = Some r" "verdict (runes pat) r \<longleftrightarrow> seg_match (runes pat) (runes s)"
    by (auto simp: pending_def)
  then show ?thesis by (simp add: matchSegment_def verdict_def)
qed

lemma path_match_stars: "path_match (''**'' # p) ns \<longleftrightarrow> (\<exists>n1 n2. ns = n1 @ n2 \<and> path_match p n2)"
proof
  assume "path_match (''**'' # p) ns"
  then show "\<exists>n1 n2. ns = n1 @ n2 \<and> path_match p n2" by (rule path_match_ConsE) auto
qed (auto intro: path_stars)

lemma path_match_stars_step: "path_match (''**'' # p) ns \<longleftrightarrow> path_match p ns \<or> (\<exists>n r. ns = n # r \<and> path_match (''**'' # p) r)"
  unfolding path_match_stars by (metis append_Cons append_Nil list.exhaust)

lemma path_match_seg: "c \<noteq> ''**'' \<Longrightarrow> path_match (c # p) ns \<longleftrightarrow> (\<exists>n r. ns = n # r \<and> seg_match (runes c) (runes n) \<and> path_match p r)"
  by (auto elim: path_match_ConsE intro: path_seg)

declare tryFrom.simps [simp del]

lemma matchSegments_decides:
  "(\<forall>n \<in> set ns. STAR \<notin> set (runes n)) \<Longrightarrow> matchSegments p ns = Some (path_match p ns)"
  "(\<forall>n \<in> set ns. STAR \<notin> set (runes n)) \<Longrightarrow> tryFrom p ns = Some (path_match (''**'' # p) ns)"
proof (induction p ns and p ns rule: matchSegments_tryFrom.induct)
  case (2 p pat name)
  then show ?case by (auto simp: path_match_seg matchSegment_decides split: list.splits)
next
  case (3 pat name)
  have m: "matchSegments pat name = Some (path_match pat name)" using 3 by blast
  show ?case
  proof (cases "path_match pat name")
    case True
    then show ?thesis using m path_match_stars_step [of pat name] by (subst tryFrom.simps) simp
  next
    case False
    show ?thesis
    proof (cases name)
      case Nil
      then show ?thesis using m False path_match_stars_step [of pat name] by (subst tryFrom.simps) simp
    next
      case (Cons n r)
      have "tryFrom pat r = Some (path_match (''**'' # pat) r)" using 3 m False Cons by simp
      then show ?thesis using m False Cons path_match_stars_step [of pat name] by (subst tryFrom.simps) simp
    qed
  qed
qed simp

text \<open>C37: For paths without a star byte, \<open>Match\<close> returns and decides exactly the documented meaning
  of the pattern: a star matches any run of characters of a segment, a question mark one character,
  a doublestar any number of whole segments.\<close>

theorem Match_decides:
  assumes "CHR ''*'' \<notin> set (lower (replaceBackslashes name))"
  shows "Match lower pattern name = Some (path_match (normalize lower pattern) (normalize lower name))"
  unfolding Match_def
proof (rule matchSegments_decides(1), rule ballI)
  fix n assume "n \<in> set (normalize lower name)"
  then have "n \<in> set (Split (lower (replaceBackslashes name)) (CHR ''/''))" by (auto simp: normalize_def splitClean_def)
  then have "set n \<subseteq> set (lower (replaceBackslashes name))" by (rule Split_chars)
  moreover have "char_of STAR = CHR ''*''" by code_simp
  ultimately show "STAR \<notin> set (runes n)" using assms runes_ascii [of STAR n] by auto
qed

theorem Match_decides_witness:
  "path_match (normalize id ''a/**/*.lua'') (normalize id ''a/b/c.lua'')"
proof -
  have "Match id ''a/**/*.lua'' ''a/b/c.lua'' = Some (path_match (normalize id ''a/**/*.lua'') (normalize id ''a/b/c.lua''))"
    by (rule Match_decides) (simp add: replaceBackslashes_def)
  moreover have "Match id ''a/**/*.lua'' ''a/b/c.lua'' = Some True"
    by (simp add: Match_def normalize_def splitClean_def replaceBackslashes_def matchSegment_def runes.simps decodeRune_def
        segmentLoop.simps skipStars_def tryFrom.simps)
  ultimately show ?thesis by simp
qed

text \<open>A star in the pattern that meets a star in the path is matched literally, so the pattern
  \<open>*\<close> does not match the segment \<open>*a\<close>, although a star is documented to match any run of characters.\<close>

theorem star_misses_star:
  "matchGlob id ''*'' ''*a'' = Some False \<and> path_match (normalize id ''*'') (normalize id ''*a'')"
proof
  show "matchGlob id ''*'' ''*a'' = Some False"
    by (simp add: matchGlob_def normalize_def splitClean_def replaceBackslashes_def matchSegment_def runes.simps decodeRune_def
        segmentLoop.simps)
  have "seg_match [STAR] (runes ''*a'')" using seg_star [OF seg_end, of "runes ''*a''"] by simp
  then have "seg_match (runes ''*'') (runes ''*a'')" by (simp add: runes.simps decodeRune_def)
  then show "path_match (normalize id ''*'') (normalize id ''*a'')"
    by (simp add: normalize_def splitClean_def replaceBackslashes_def path_match_seg)
qed

end
