(* ===== verification/Asset_Codegen.thy ===== *)
theory Asset_Codegen
  imports Glob Go_Strconv Luau_Validate "HOL-Library.List_Lexorder" "HOL-Library.AList"
begin

text \<open>
  The accessor modules that \<open>rotor asset sync\<close> generates (\<open>src/internal/assets/codegen.go\<close>), and the lock file
  they are made from (\<open>lockfile.go\<close>). A Go map is an association list with distinct keys. \<open>GenerateLuau\<close> and
  \<open>GenerateTypes\<close> are the texts; writing them is in \<open>Asset_Store\<close>.
\<close>

section \<open>The lock file\<close>

record LockEntry =
  LockHash :: string
  LockAssetID :: int

record Lockfile =
  LockVersion :: int
  LockAssets :: "(string \<times> LockEntry) list"

definition NewLockfile :: Lockfile where
  "NewLockfile = \<lparr>LockVersion = 1, LockAssets = []\<rparr>"

section \<open>Identifiers\<close>

definition luauKeywords :: "string list" where
  "luauKeywords = [''and'', ''break'', ''do'', ''else'', ''elseif'', ''end'', ''false'', ''for'', ''function'', ''if'', ''in'',
     ''local'', ''nil'', ''not'', ''or'', ''repeat'', ''return'', ''then'', ''true'', ''until'', ''while'']"

definition isASCIIAlnum :: "nat \<Rightarrow> bool" where
  "isASCIIAlnum r \<longleftrightarrow> 97 \<le> r \<and> r \<le> 122 \<or> 65 \<le> r \<and> r \<le> 90 \<or> 48 \<le> r \<and> r \<le> 57"

text \<open>\<open>unicode.ToUpper\<close> on letters and digits of ASCII.\<close>

definition upperRune :: "nat \<Rightarrow> nat" where
  "upperRune r = (if 97 \<le> r \<and> r \<le> 122 then r - 32 else r)"

fun sanitizeLoop :: "nat list \<Rightarrow> string \<Rightarrow> bool \<Rightarrow> string" where
  "sanitizeLoop [] b newWord = b"
| "sanitizeLoop (r # rs) b newWord =
     (if \<not> isASCIIAlnum r then sanitizeLoop rs b (if b \<noteq> [] then True else newWord)
      else sanitizeLoop rs (b @ [char_of (if newWord then upperRune r else r)]) False)"

text \<open>\<open>None\<close> is the error for a name without usable characters.\<close>

definition sanitizeIdent :: "string \<Rightarrow> string option" where
  "sanitizeIdent nm =
     (let i = sanitizeLoop (runes nm) [] False in
      if i = [] then None
      else (let i = (if CHR ''0'' \<le> hd i \<and> hd i \<le> CHR ''9'' then CHR ''_'' # i else i) in
        Some (if i \<in> set luauKeywords then CHR ''_'' # i else i)))"

definition stem :: "string \<Rightarrow> string" where
  "stem fileName = (let base = Base fileName in TrimSuffix base (Ext base))"

section \<open>The tree\<close>

datatype genNode = Leaf (assetID: int) (leafSource: string) | Table (tableSource: string) (children: "(string \<times> genNode) list")

datatype codegenError = FolderEmpty string string | FileEmptyIdent string string
  | FileThenFolder string string string | Collides string string string | FolderThenFile string string string

text \<open>The loop over the folders of one path, from the children of the current table.\<close>

fun insertAsset :: "string \<Rightarrow> int \<Rightarrow> string \<Rightarrow> string list \<Rightarrow> (string \<times> genNode) list \<Rightarrow> codegenError + (string \<times> genNode) list" where
  "insertAsset p aid fileName [] ch =
     (case sanitizeIdent (stem fileName) of
        None \<Rightarrow> Inl (FileEmptyIdent fileName p)
      | Some i \<Rightarrow>
          (case map_of ch i of
             Some (Leaf a s) \<Rightarrow> Inl (Collides i s p)
           | Some (Table s sub) \<Rightarrow> Inl (FolderThenFile i s p)
           | None \<Rightarrow> Inr (ch @ [(i, Leaf aid p)])))"
| "insertAsset p aid fileName (dir # dirs) ch =
     (case sanitizeIdent dir of
        None \<Rightarrow> Inl (FolderEmpty dir p)
      | Some i \<Rightarrow>
          (case map_of ch i of
             None \<Rightarrow> (case insertAsset p aid fileName dirs [] of Inl e \<Rightarrow> Inl e | Inr sub \<Rightarrow> Inr (ch @ [(i, Table p sub)]))
           | Some (Leaf a s) \<Rightarrow> Inl (FileThenFolder i s p)
           | Some (Table s sub) \<Rightarrow>
               (case insertAsset p aid fileName dirs sub of Inl e \<Rightarrow> Inl e | Inr sub' \<Rightarrow> Inr (AList.update i (Table s sub') ch))))"

text \<open>The segment that all paths share; empty if there is none.\<close>

fun sharedLoop :: "string \<Rightarrow> string list \<Rightarrow> string" where
  "sharedLoop first [] = first"
| "sharedLoop first (p # ps) =
     (if CHR ''/'' \<notin> set p then [] else if takeWhile (\<lambda>c. c \<noteq> CHR ''/'') p \<noteq> first then [] else sharedLoop first ps)"

definition sharedFirstSegment :: "string list \<Rightarrow> string" where
  "sharedFirstSegment paths = (case paths of [] \<Rightarrow> []
     | p # ps \<Rightarrow> if CHR ''/'' \<notin> set p then [] else sharedLoop (takeWhile (\<lambda>c. c \<noteq> CHR ''/'') p) ps)"

definition assetSegments :: "string \<Rightarrow> string \<Rightarrow> string list" where
  "assetSegments strip p = (let segs = Split p (CHR ''/'') in if strip \<noteq> [] then tl segs else segs)"

fun insertAll :: "Lockfile \<Rightarrow> string \<Rightarrow> string list \<Rightarrow> (string \<times> genNode) list \<Rightarrow> codegenError + (string \<times> genNode) list" where
  "insertAll lock strip [] ch = Inr ch"
| "insertAll lock strip (p # ps) ch =
     (let segs = assetSegments strip p; aid = LockAssetID (the (map_of (LockAssets lock) p)) in
      case insertAsset p aid (last segs) (butlast segs) ch of Inl e \<Rightarrow> Inl e | Inr ch' \<Rightarrow> insertAll lock strip ps ch')"

definition buildTree :: "Lockfile \<Rightarrow> codegenError + genNode" where
  "buildTree lock =
     (let paths = sort (map fst (LockAssets lock)) in
      case insertAll lock (sharedFirstSegment paths) paths [] of Inl e \<Rightarrow> Inl e | Inr ch \<Rightarrow> Inr (Table [] ch))"

section \<open>The texts\<close>

definition luauHeader :: string where "luauHeader = ''-- generated by rotor asset sync; do not edit'' @ [LF]"
definition typesHeader :: string where "typesHeader = ''// generated by rotor asset sync; do not edit'' @ [LF]"

lemma size_child: "(k, n) \<in> set ch \<Longrightarrow> size n < size (Table s ch)"
  by (induction ch) auto

function writeLuauNode :: "genNode \<Rightarrow> nat \<Rightarrow> string" where
  "writeLuauNode (Leaf a s) depth = [DQUOTE] @ ''rbxassetid://'' @ FormatInt a @ [DQUOTE]"
| "writeLuauNode (Table s ch) depth =
     (if ch = [] then ''{}''
      else ''{'' @ [LF] @ concat (map (\<lambda>x. replicate (depth + 1) TAB @ fst x @ '' = '' @ writeLuauNode (snd x) (depth + 1) @ '','' @ [LF]) (sort_key fst ch)) @
        replicate depth TAB @ ''}'')"
  by pat_completeness auto

termination by (relation "measure (size \<circ> fst)") (auto dest: size_child simp del: genNode.size)

function writeTypeNode :: "genNode \<Rightarrow> nat \<Rightarrow> string" where
  "writeTypeNode (Leaf a s) depth = ''string''"
| "writeTypeNode (Table s ch) depth =
     (if ch = [] then ''{}''
      else ''{'' @ [LF] @ concat (map (\<lambda>x. replicate (depth + 1) TAB @ ''readonly '' @ fst x @ '': '' @ writeTypeNode (snd x) (depth + 1) @ '';'' @ [LF]) (sort_key fst ch)) @
        replicate depth TAB @ ''}'')"
  by pat_completeness auto

termination by (relation "measure (size \<circ> fst)") (auto dest: size_child simp del: genNode.size)

definition renderLuau :: "genNode \<Rightarrow> string" where
  "renderLuau root = luauHeader @ ''return '' @ writeLuauNode root 0 @ [LF]"

definition renderTypes :: "genNode \<Rightarrow> string" where
  "renderTypes root = typesHeader @ ''declare const assets: '' @ writeTypeNode root 0 @ '';'' @ [LF] @ ''export = assets;'' @ [LF]"

definition GenerateLuau :: "Lockfile \<Rightarrow> codegenError + string" where
  "GenerateLuau lock = (case buildTree lock of Inl e \<Rightarrow> Inl e | Inr root \<Rightarrow> Inr (renderLuau root))"

definition GenerateTypes :: "Lockfile \<Rightarrow> codegenError + string" where
  "GenerateTypes lock = (case buildTree lock of Inl e \<Rightarrow> Inl e | Inr root \<Rightarrow> Inr (renderTypes root))"


section \<open>Identifiers are valid\<close>

lemma sanitizeLoop_parts:
  "list_all isIdentifierPart b \<Longrightarrow> list_all isIdentifierPart (sanitizeLoop rs b newWord)"
proof (induction rs b newWord rule: sanitizeLoop.induct)
  case (2 r rs b newWord)
  have "isIdentifierPart (char_of (if newWord then upperRune r else r))" if "isASCIIAlnum r"
    using that by (auto simp: isIdentifierPart_def isIdentifierStart_def isASCIIAlnum_def upperRune_def less_eq_char_def)
  then show ?case using 2 by auto
qed simp

lemma keyword_start: "k \<in> set luauKeywords \<Longrightarrow> \<exists>c r. k = c # r \<and> c \<noteq> CHR ''_''"
  by (auto simp: luauKeywords_def)

lemma sanitizeIdent_identifier:
  assumes "sanitizeIdent nm = Some i"
  shows "IsValidIdentifier i"
proof -
  let ?s = "sanitizeLoop (runes nm) [] False"
  let ?d = "if CHR ''0'' \<le> hd ?s \<and> hd ?s \<le> CHR ''9'' then CHR ''_'' # ?s else ?s"
  have s: "?s \<noteq> []" "i = (if ?d \<in> set luauKeywords then CHR ''_'' # ?d else ?d)"
    using assms by (auto simp: sanitizeIdent_def Let_def split: if_splits)
  have parts: "list_all isIdentifierPart ?s" by (rule sanitizeLoop_parts) simp
  then have d: "?d \<noteq> []" "isIdentifierStart (hd ?d)" "list_all isIdentifierPart (tl ?d)" "list_all isIdentifierPart ?d"
    using s(1) by (cases ?s; auto simp: isIdentifierPart_def isIdentifierStart_def)+
  have kw: "luauKeywords = luauReservedKeywords" by (simp add: luauKeywords_def luauReservedKeywords_def)
  have u: "CHR ''_'' # x \<notin> set luauKeywords" for x using keyword_start [of "CHR ''_'' # x"] by auto
  show ?thesis using s(2) d u by (auto simp: IsValidIdentifier_def kw isIdentifierStart_def split: if_splits)
qed

section \<open>The tree holds the lock file\<close>

text \<open>What the generated module gives for a chain of field accesses.\<close>

fun accessor :: "(string \<times> genNode) list \<Rightarrow> string list \<Rightarrow> int option" where
  "accessor ch [] = None"
| "accessor ch (i # is) = (case map_of ch i of
      None \<Rightarrow> None
    | Some (Leaf a s) \<Rightarrow> if is = [] then Some a else None
    | Some (Table s sub) \<Rightarrow> accessor sub is)"

fun identPath :: "string list \<Rightarrow> string list option" where
  "identPath [] = None"
| "identPath [f] = (case sanitizeIdent (stem f) of None \<Rightarrow> None | Some i \<Rightarrow> Some [i])"
| "identPath (d # ds) = (case sanitizeIdent d of None \<Rightarrow> None | Some i \<Rightarrow> (case identPath ds of None \<Rightarrow> None | Some is \<Rightarrow> Some (i # is)))"

lemma map_of_snoc: "map_of ch i = None \<Longrightarrow> map_of (ch @ [(i, x)]) = (map_of ch)(i \<mapsto> x)"
  by (auto simp: map_add_def fun_eq_iff split: option.splits)

lemma identPath_Cons: "ds \<noteq> [] \<Longrightarrow> identPath (d # ds) = (case sanitizeIdent d of None \<Rightarrow> None
  | Some i \<Rightarrow> (case identPath ds of None \<Rightarrow> None | Some is \<Rightarrow> Some (i # is)))"
  by (cases ds) (auto split: option.split)

lemma insertAsset_adds:
  "insertAsset p aid f dirs ch = Inr ch' \<Longrightarrow>
   \<exists>is. identPath (dirs @ [f]) = Some is \<and> accessor ch is = None \<and> (\<forall>js. accessor ch' js = (if js = is then Some aid else accessor ch js))"
proof (induction p aid f dirs ch arbitrary: ch' rule: insertAsset.induct)
  case (1 p aid f ch)
  then obtain i where i: "sanitizeIdent (stem f) = Some i" "map_of ch i = None" "ch' = ch @ [(i, Leaf aid p)]"
    by (auto split: option.splits genNode.splits)
  have "accessor ch' js = (if js = [i] then Some aid else accessor ch js)" for js
  proof -
    have "map_of ch' = (map_of ch)(i \<mapsto> Leaf aid p)" unfolding i(3) by (rule map_of_snoc [OF i(2)])
    then show ?thesis using i(2) by (cases js) auto
  qed
  then show ?case using i by auto
next
  case (2 p aid f dir dirs ch)
  obtain i where i: "sanitizeIdent dir = Some i" using 2 by (auto split: option.splits)
  obtain s sub sub' where sub: "map_of ch i = None \<and> sub = [] \<and> ch' = ch @ [(i, Table s sub')] \<or>
      map_of ch i = Some (Table s sub) \<and> ch' = AList.update i (Table s sub') ch" "insertAsset p aid f dirs sub = Inr sub'"
    using 2(3) i by (auto split: option.splits genNode.splits sum.splits)
  obtain "is" where "is": "identPath (dirs @ [f]) = Some is" "accessor sub is = None"
    "\<And>js. accessor sub' js = (if js = is then Some aid else accessor sub js)"
    using 2(1,2) [OF i] sub by (cases "map_of ch i") blast+
  have m: "map_of ch' = (map_of ch)(i \<mapsto> Table s sub')" using sub(1) map_of_snoc [of ch i "Table s sub'"] by (auto simp: update_conv' simp del: map_of_append)
  have a: "accessor ch (i # js) = accessor sub js" for js
  proof -
    have "accessor [] js = None" by (cases js) auto
    then show ?thesis using sub(1) by auto
  qed
  have "accessor ch' js = (if js = i # is then Some aid else accessor ch js)" for js
  proof (cases js)
    case (Cons j js')
    then show ?thesis using m "is"(3) [of js'] a [of js'] by (cases "j = i") simp_all
  qed simp
  moreover have "identPath ((dir # dirs) @ [f]) = Some (i # is)" using i "is"(1) by (simp add: identPath_Cons)
  ultimately show ?case using a [of "is"] "is"(2) by auto
qed


definition entryPath :: "Lockfile \<Rightarrow> string \<Rightarrow> string list option" where
  "entryPath lock p = identPath (assetSegments (sharedFirstSegment (sort (map fst (LockAssets lock)))) p)"

lemma sharedLoop_slash: "sharedLoop first ps \<noteq> [] \<Longrightarrow> p \<in> set ps \<Longrightarrow> CHR ''/'' \<in> set p"
  by (induction ps) (auto split: if_splits)

lemma shared_slash: "sharedFirstSegment ps \<noteq> [] \<Longrightarrow> p \<in> set ps \<Longrightarrow> CHR ''/'' \<in> set p"
  by (cases ps) (auto simp: sharedFirstSegment_def sharedLoop_slash split: if_splits)

lemma Split_two: "c \<in> set s \<Longrightarrow> tl (Split s c) \<noteq> []"
  by (induction s) (auto split: list.splits)

lemma assetSegments_not_Nil: "strip \<noteq> [] \<longrightarrow> CHR ''/'' \<in> set p \<Longrightarrow> assetSegments strip p \<noteq> []"
  by (auto simp: assetSegments_def Let_def Split_two)

text \<open>The accessors of a list of paths, each with its asset.\<close>

definition accessors :: "Lockfile \<Rightarrow> string \<Rightarrow> string list \<Rightarrow> string list \<Rightarrow> int \<Rightarrow> bool" where
  "accessors lock strip ps js a \<longleftrightarrow>
     (\<exists>p \<in> set ps. identPath (assetSegments strip p) = Some js \<and> a = LockAssetID (the (map_of (LockAssets lock) p)))"

lemma insertAll_adds:
  assumes "insertAll lock strip ps ch = Inr ch'" "\<And>p. p \<in> set ps \<Longrightarrow> assetSegments strip p \<noteq> []"
  shows "(\<forall>p \<in> set ps. \<exists>is. identPath (assetSegments strip p) = Some is \<and> accessor ch is = None) \<and>
    distinct (map (\<lambda>p. identPath (assetSegments strip p)) ps) \<and>
    (\<forall>js a. accessor ch' js = Some a \<longleftrightarrow> accessor ch js = Some a \<or> accessors lock strip ps js a)"
  using assms
proof (induction ps arbitrary: ch)
  case (Cons p ps)
  let ?a = "LockAssetID (the (map_of (LockAssets lock) p))"
  obtain ch1 where 1: "insertAsset p ?a (last (assetSegments strip p)) (butlast (assetSegments strip p)) ch = Inr ch1" "insertAll lock strip ps ch1 = Inr ch'"
    using Cons.prems(1) by (auto simp: Let_def split: sum.splits)
  obtain "is" where "is": "identPath (assetSegments strip p) = Some is" "accessor ch is = None"
    "\<And>js. accessor ch1 js = (if js = is then Some ?a else accessor ch js)"
    using insertAsset_adds [OF 1(1)] Cons.prems(2) [of p] by auto
  have IH: "\<forall>p \<in> set ps. \<exists>is. identPath (assetSegments strip p) = Some is \<and> accessor ch1 is = None"
    "distinct (map (\<lambda>p. identPath (assetSegments strip p)) ps)"
    "\<And>js a. accessor ch' js = Some a \<longleftrightarrow> accessor ch1 js = Some a \<or> accessors lock strip ps js a"
    using Cons.IH [OF 1(2)] Cons.prems(2) by auto
  have new: "identPath (assetSegments strip q) \<noteq> Some is" if "q \<in> set ps" for q using IH(1) that "is"(3) by fastforce
  have "\<exists>js. identPath (assetSegments strip q) = Some js \<and> accessor ch js = None" if "q \<in> set ps" for q
    using IH(1) that "is"(3) by (metis option.distinct(1))
  moreover have "accessor ch' js = Some a \<longleftrightarrow> accessor ch js = Some a \<or> accessors lock strip (p # ps) js a" for js a
  proof (cases "js = is")
    case True
    have "\<not> accessors lock strip ps is a" using new by (auto simp: accessors_def)
    then show ?thesis using True "is" IH(3) [of js a] by (auto simp: accessors_def)
  next
    case False
    then show ?thesis using "is" IH(3) [of js a] by (auto simp: accessors_def)
  qed
  ultimately show ?case using "is"(1,2) IH(2) new by fastforce
qed (simp add: accessors_def)

section \<open>Properties\<close>

text \<open>A file stem or folder name that is usable becomes an identifier of Luau that is no keyword.\<close>

theorem sanitizeIdent_valid:
  assumes "sanitizeIdent nm = Some i"
  shows "IsValidIdentifier i"
  using assms by (rule sanitizeIdent_identifier)

lemmas sanitize_simps = sanitizeIdent_def runes.simps decodeRune_def isASCIIAlnum_def upperRune_def luauKeywords_def less_eq_char_def char_of_def bit_0

theorem sanitizeIdent_valid_witness: "IsValidIdentifier ''_2ndEnd''"
proof -
  have "sanitizeIdent ''2nd-end'' = Some ''_2ndEnd''" by (simp add: sanitize_simps)
  then show ?thesis by (rule sanitizeIdent_valid)
qed

text \<open>C25: a generated module gives exactly the assets of the lock file: every entry is reached by the
  identifiers of its folders and its file name, different entries by different ones, and
  nothing else is reached.\<close>

theorem generated_module_complete:
  assumes "buildTree lock = Inr root" "distinct (map fst (LockAssets lock))"
  shows "(\<forall>is a. accessor (children root) is = Some a \<longleftrightarrow> (\<exists>p e. (p, e) \<in> set (LockAssets lock) \<and> entryPath lock p = Some is \<and> LockAssetID e = a)) \<and>
    (\<forall>p \<in> fst ` set (LockAssets lock). \<exists>is. entryPath lock p = Some is) \<and> inj_on (entryPath lock) (fst ` set (LockAssets lock))"
proof -
  let ?ps = "sort (map fst (LockAssets lock))" and ?strip = "sharedFirstSegment (sort (map fst (LockAssets lock)))"
  obtain ch where ch: "insertAll lock ?strip ?ps [] = Inr ch" "root = Table [] ch"
    using assms(1) by (auto simp: buildTree_def Let_def split: sum.splits)
  have "assetSegments ?strip p \<noteq> []" if "p \<in> set ?ps" for p using shared_slash [of ?ps p] that by (intro assetSegments_not_Nil) blast
  note a = insertAll_adds [OF ch(1) this]
  have e: "accessor [] is = None" for "is" by (cases "is") auto
  have "accessors lock ?strip ?ps is a \<longleftrightarrow> (\<exists>p e. (p, e) \<in> set (LockAssets lock) \<and> entryPath lock p = Some is \<and> LockAssetID e = a)" for "is" a
    using assms(2) by (force simp: accessors_def entryPath_def)
  then have "\<forall>is a. accessor (children root) is = Some a \<longleftrightarrow> (\<exists>p e. (p, e) \<in> set (LockAssets lock) \<and> entryPath lock p = Some is \<and> LockAssetID e = a)"
    using a ch(2) e by simp
  moreover have "inj_on (entryPath lock) (fst ` set (LockAssets lock))"
  proof -
    have "entryPath lock = (\<lambda>p. identPath (assetSegments ?strip p))" by (simp add: fun_eq_iff entryPath_def)
    then show ?thesis using a by (simp add: distinct_map)
  qed
  moreover have "\<forall>p \<in> fst ` set (LockAssets lock). \<exists>is. entryPath lock p = Some is" using a by (auto simp: entryPath_def)
  ultimately show ?thesis by blast
qed

definition sampleLock :: Lockfile where
  "sampleLock = \<lparr>LockVersion = 1, LockAssets =
     [(''a/ui/big-logo.png'', \<lparr>LockHash = ''h'', LockAssetID = 7\<rparr>), (''a/hit.ogg'', \<lparr>LockHash = ''k'', LockAssetID = 8\<rparr>)]\<rparr>"

lemma sample_idents:
  "sanitizeIdent ''ui'' = Some ''ui''" "sanitizeIdent (stem ''big-logo.png'') = Some ''bigLogo''" "sanitizeIdent (stem ''hit.ogg'') = Some ''hit''"
  by (simp_all add: sanitize_simps stem_def Base_def Ext_def trimSlashes_def TrimSuffix_def HasSuffix_def)

lemma sample_sort: "sort (map fst (LockAssets sampleLock)) = [''a/hit.ogg'', ''a/ui/big-logo.png'']"
  unfolding sampleLock_def by code_simp

lemma sample_segments:
  "sharedFirstSegment [''a/hit.ogg'', ''a/ui/big-logo.png''] = ''a''"
  "assetSegments ''a'' ''a/hit.ogg'' = [''hit.ogg'']" "assetSegments ''a'' ''a/ui/big-logo.png'' = [''ui'', ''big-logo.png'']"
  by (simp_all add: sharedFirstSegment_def assetSegments_def)

theorem generated_module_complete_witness:
  "\<exists>root. buildTree sampleLock = Inr root \<and> accessor (children root) [''ui'', ''bigLogo''] = Some 7"
proof -
  have "\<exists>root. buildTree sampleLock = Inr root"
    unfolding buildTree_def Let_def sample_sort sample_segments insertAll.simps insertAsset.simps last.simps butlast.simps
    by (simp add: sample_idents)
  then obtain root where r: "buildTree sampleLock = Inr root" by blast
  have "entryPath sampleLock ''a/ui/big-logo.png'' = Some [''ui'', ''bigLogo'']"
    by (simp add: entryPath_def sample_sort sample_segments sample_idents)
  moreover have "(''a/ui/big-logo.png'', \<lparr>LockHash = ''h'', LockAssetID = 7\<rparr>) \<in> set (LockAssets sampleLock)" by (simp add: sampleLock_def)
  moreover have "LockAssetID \<lparr>LockHash = ''h'', LockAssetID = 7\<rparr> = 7" by simp
  ultimately have e: "\<exists>p e. (p, e) \<in> set (LockAssets sampleLock) \<and> entryPath sampleLock p = Some [''ui'', ''bigLogo''] \<and> LockAssetID e = 7" by blast
  have "distinct (map fst (LockAssets sampleLock))" by (simp add: sampleLock_def)
  then have "accessor (children root) [''ui'', ''bigLogo''] = Some 7" using generated_module_complete [OF r] e by blast
  then show ?thesis using r by blast
qed

end
