(* ===== verification/Asset_Store.thy ===== *)
theory Asset_Store
  imports Asset_Codegen
begin

text \<open>
  The files asset synchronisation writes: atomic writes and the lock file (\<open>src/internal/assets/lockfile.go\<close>),
  the generated modules (\<open>WriteOutputs\<close> of \<open>codegen.go\<close>) and the modes (\<open>mode.go\<close>).

  The calls of \<open>os\<close> are the record \<open>FileOps\<close>, over a world of type \<open>'w\<close>; \<open>Some e\<close> is an error. The JSON
  encoder and decoder are arguments.
\<close>

section \<open>Atomic writes\<close>

record 'w FileOps =
  MkdirAll :: "string \<Rightarrow> 'w \<Rightarrow> string option \<times> 'w"
  CreateTemp :: "string \<Rightarrow> string \<Rightarrow> 'w \<Rightarrow> (string + string) \<times> 'w"
  WriteTemp :: "string \<Rightarrow> string \<Rightarrow> 'w \<Rightarrow> string option \<times> 'w"
  CloseTemp :: "string \<Rightarrow> 'w \<Rightarrow> string option \<times> 'w"
  RemoveFile :: "string \<Rightarrow> 'w \<Rightarrow> 'w"
  RenameFile :: "string \<Rightarrow> string \<Rightarrow> 'w \<Rightarrow> string option \<times> 'w"

definition commitTemp :: "'w FileOps \<Rightarrow> string \<Rightarrow> string \<Rightarrow> 'w \<Rightarrow> string option \<times> 'w" where
  "commitTemp os tmpName path w =
     (case RenameFile os tmpName path w of
        (Some e, w) \<Rightarrow> (Some e, RemoveFile os tmpName w)
      | (None, w) \<Rightarrow> (None, w))"

definition fillTemp :: "'w FileOps \<Rightarrow> string \<Rightarrow> string \<Rightarrow> string \<Rightarrow> 'w \<Rightarrow> string option \<times> 'w" where
  "fillTemp os tmpName path data w =
     (case WriteTemp os tmpName data w of (werr, w) \<Rightarrow>
      case CloseTemp os tmpName w of (cerr, w) \<Rightarrow>
        if werr \<noteq> None \<or> cerr \<noteq> None then (if werr \<noteq> None then werr else cerr, RemoveFile os tmpName w)
        else commitTemp os tmpName path w)"

definition writeFileAtomic :: "'w FileOps \<Rightarrow> string \<Rightarrow> string \<Rightarrow> 'w \<Rightarrow> string option \<times> 'w" where
  "writeFileAtomic os path data w =
     (case MkdirAll os (Dir path) w of
        (Some e, w) \<Rightarrow> (Some e, w)
      | (None, w) \<Rightarrow>
          (case CreateTemp os (Dir path) ''.rotor-tmp-*'' w of
             (Inl e, w) \<Rightarrow> (Some e, w)
           | (Inr tmpName, w) \<Rightarrow> fillTemp os tmpName path data w))"

section \<open>The lock file on disk\<close>

definition LockfileName :: string where "LockfileName = ''rotor-lock.json''"

datatype readResult = NotExist | ReadError string | Contents string

definition LoadLockfile :: "(string \<Rightarrow> 'w \<Rightarrow> readResult) \<Rightarrow> (string \<Rightarrow> Lockfile option) \<Rightarrow> string \<Rightarrow> 'w \<Rightarrow> string + Lockfile" where
  "LoadLockfile ReadFile Unmarshal projectDir w =
     (case ReadFile (PathJoin projectDir LockfileName) w of
        NotExist \<Rightarrow> Inr NewLockfile
      | ReadError e \<Rightarrow> Inl (''assets: reading '' @ LockfileName @ '': '' @ e)
      | Contents data \<Rightarrow>
          (case Unmarshal data of
             None \<Rightarrow> Inl (''assets: '' @ LockfileName @ '' is not valid JSON'')
           | Some l \<Rightarrow> Inr (if LockVersion l = 0 then l\<lparr>LockVersion := 1\<rparr> else l)))"

definition Save :: "'w FileOps \<Rightarrow> (Lockfile \<Rightarrow> string option) \<Rightarrow> string \<Rightarrow> Lockfile \<Rightarrow> 'w \<Rightarrow> string option \<times> 'w" where
  "Save os MarshalIndent projectDir l w =
     (case MarshalIndent l of
        None \<Rightarrow> (Some (''assets: encoding '' @ LockfileName), w)
      | Some data \<Rightarrow>
          (case writeFileAtomic os (PathJoin projectDir LockfileName) (data @ [LF]) w of
             (Some e, w) \<Rightarrow> (Some (''assets: writing '' @ LockfileName @ '': '' @ e), w)
           | (None, w) \<Rightarrow> (None, w)))"

section \<open>Generated modules and modes\<close>

datatype outputError = Codegen codegenError | WritingFailed string string

definition writeOutput :: "'w FileOps \<Rightarrow> string \<Rightarrow> string \<Rightarrow> string \<Rightarrow> 'w \<Rightarrow> outputError option \<times> 'w" where
  "writeOutput os projectDir path text w =
     (if path = [] then (None, w)
      else (case writeFileAtomic os (PathJoin projectDir path) text w of
          (Some e, w) \<Rightarrow> (Some (WritingFailed path e), w)
        | (None, w) \<Rightarrow> (None, w)))"

definition WriteOutputs :: "'w FileOps \<Rightarrow> string \<Rightarrow> string \<Rightarrow> string \<Rightarrow> Lockfile \<Rightarrow> 'w \<Rightarrow> outputError option \<times> 'w" where
  "WriteOutputs os projectDir luauPath typesPath lock w =
     (if luauPath = [] \<and> typesPath = [] then (None, w)
      else (case buildTree lock of
          Inl e \<Rightarrow> (Some (Codegen e), w)
        | Inr root \<Rightarrow>
            (case writeOutput os projectDir luauPath (renderLuau root) w of
               (Some e, w) \<Rightarrow> (Some e, w)
             | (None, w) \<Rightarrow> writeOutput os projectDir typesPath (renderTypes root) w)))"

definition ModeModule :: string where "ModeModule = ''module''"
definition ModeMacro :: string where "ModeMacro = ''macro''"

definition ParseMode :: "string \<Rightarrow> string" where
  "ParseMode raw = (if raw = [] \<or> raw = ModeModule then ModeModule else if raw = ModeMacro then ModeMacro else raw)"

record MacroCompanion =
  FileName :: string
  CompanionText :: string

definition EmitForMode :: "'w FileOps \<Rightarrow> (string \<Rightarrow> 'w \<Rightarrow> readResult) \<Rightarrow> string \<Rightarrow> string \<Rightarrow> string \<Rightarrow> string \<Rightarrow>
    MacroCompanion \<Rightarrow> Lockfile \<Rightarrow> 'w \<Rightarrow> (outputError + string list) \<times> 'w" where
  "EmitForMode os ReadFile projectDir mode outLuau outTypes companion lock w =
     (if mode = ModeMacro then
        (if FileName companion = [] then (Inr [], w)
         else (let path = PathJoin projectDir (FileName companion) in
           if ReadFile path w = Contents (CompanionText companion) then (Inr [], w)
           else (case writeFileAtomic os path (CompanionText companion) w of
               (Some e, w) \<Rightarrow> (Inl (WritingFailed (FileName companion) e), w)
             | (None, w) \<Rightarrow> (Inr [FileName companion], w))))
      else if outLuau = [] \<and> outTypes = [] then (Inr [], w)
      else (case WriteOutputs os projectDir outLuau outTypes lock w of
          (Some e, w) \<Rightarrow> (Inl e, w)
        | (None, w) \<Rightarrow> (Inr (filter (\<lambda>p. p \<noteq> []) [outLuau, outTypes]), w)))"

section \<open>What the operating system promises\<close>

text \<open>\<open>files w p\<close> is the content of the file at \<open>p\<close>. Directories and temporary files do not disturb other
  files, a temporary file has a new name that begins
  like its pattern and holds what was written to it, and a rename replaces the
  target or fails without effect.\<close>

definition posixFiles :: "('w \<Rightarrow> string \<Rightarrow> string option) \<Rightarrow> 'w FileOps \<Rightarrow> bool" where
  "posixFiles files os \<longleftrightarrow>
     (\<forall>d w e w'. MkdirAll os d w = (e, w') \<longrightarrow> files w' = files w) \<and>
     (\<forall>d pat w e w'. CreateTemp os d pat w = (Inl e, w') \<longrightarrow> files w' = files w) \<and>
     (\<forall>d pat w t w'. CreateTemp os d pat w = (Inr t, w') \<longrightarrow> files w t = None \<and> files w' = (files w)(t \<mapsto> []) \<and> HasPrefix (Base t) (takeWhile (\<lambda>c. c \<noteq> CHR ''*'') pat)) \<and>
     (\<forall>t data w e w'. WriteTemp os t data w = (e, w') \<longrightarrow>
        (\<forall>q. q \<noteq> t \<longrightarrow> files w' q = files w q) \<and> (e = None \<longrightarrow> files w t = Some [] \<longrightarrow> files w' t = Some data)) \<and>
     (\<forall>t w e w'. CloseTemp os t w = (e, w') \<longrightarrow> files w' = files w) \<and>
     (\<forall>t w q. q \<noteq> t \<longrightarrow> files (RemoveFile os t w) q = files w q) \<and>
     (\<forall>t p w w'. RenameFile os t p w = (None, w') \<longrightarrow> files w' = (files w)(t := None, p := files w t)) \<and>
     (\<forall>t p w e w'. RenameFile os t p w = (Some e, w') \<longrightarrow> files w' = files w)"

lemma posixFilesD:
  assumes "posixFiles files os"
  shows "MkdirAll os d w = (e, w') \<Longrightarrow> files w' = files w"
    and "CreateTemp os d pat w = (Inl x, w') \<Longrightarrow> files w' = files w"
    and "CreateTemp os d pat w = (Inr t, w') \<Longrightarrow> files w t = None"
    and "CreateTemp os d pat w = (Inr t, w') \<Longrightarrow> files w' = (files w)(t \<mapsto> [])"
    and "CreateTemp os d pat w = (Inr t, w') \<Longrightarrow> HasPrefix (Base t) (takeWhile (\<lambda>c. c \<noteq> CHR ''*'') pat)"
    and "WriteTemp os t data w = (e, w') \<Longrightarrow> q \<noteq> t \<Longrightarrow> files w' q = files w q"
    and "WriteTemp os t data w = (None, w') \<Longrightarrow> files w t = Some [] \<Longrightarrow> files w' t = Some data"
    and "CloseTemp os t w = (e, w') \<Longrightarrow> files w' = files w"
    and "q \<noteq> t \<Longrightarrow> files (RemoveFile os t w) q = files w q"
    and "RenameFile os t p w = (None, w') \<Longrightarrow> files w' = (files w)(t := None, p := files w t)"
    and "RenameFile os t p w = (Some x, w') \<Longrightarrow> files w' = files w"
  using assms unfolding posixFiles_def by auto

text \<open>What a write must have done, when it ends with \<open>err\<close>.\<close>

definition written :: "string \<Rightarrow> string \<Rightarrow> string option \<Rightarrow> (string \<Rightarrow> string option) \<Rightarrow> (string \<Rightarrow> string option) \<Rightarrow> bool" where
  "written path data err before after \<longleftrightarrow>
     after path = (if err = None then Some data else before path) \<and>
     (\<forall>q. q \<noteq> path \<and> before q \<noteq> None \<longrightarrow> after q = before q)"

lemma written_commitTemp:
  assumes os: "posixFiles files os" and run: "commitTemp os t path w = (err, w')"
    and t: "files w t = Some data" "path \<noteq> t" and old: "files w = old(t \<mapsto> data)" "old t = None"
  shows "written path data err old (files w')"
proof -
  obtain e w1 where ren: "RenameFile os t path w = (e, w1)" by fastforce
  show ?thesis
  proof (cases e)
    case None
    then show ?thesis using posixFilesD(10)[OF os ren[unfolded None]] run ren t old
      by (auto simp: commitTemp_def written_def)
  next
    case (Some x)
    then have "w' = RemoveFile os t w1" "err \<noteq> None" using run ren by (auto simp: commitTemp_def)
    moreover have "files (RemoveFile os t w1) q = old q" if "q \<noteq> t" for q
      using posixFilesD(9)[OF os that, of w1] posixFilesD(11)[OF os ren[unfolded Some]] old that by simp
    ultimately show ?thesis using t old by (auto simp: written_def) (metis option.distinct(1))
  qed
qed

lemma written_fillTemp:
  assumes os: "posixFiles files os" and run: "fillTemp os t path data w = (err, w')"
    and t: "path \<noteq> t" and old: "files w = old(t \<mapsto> [])" "old t = None"
  shows "written path data err old (files w')"
proof -
  obtain werr w1 where wr: "WriteTemp os t data w = (werr, w1)" by fastforce
  obtain cerr w2 where cl: "CloseTemp os t w1 = (cerr, w2)" by fastforce
  note w1 = posixFilesD(6)[OF os wr] and w2 = posixFilesD(8)[OF os cl]
  show ?thesis
  proof (cases "werr \<noteq> None \<or> cerr \<noteq> None")
    case True
    then have "w' = RemoveFile os t w2" "err \<noteq> None" using run wr cl by (auto simp: fillTemp_def split: if_splits)
    moreover have "files (RemoveFile os t w2) q = old q" if "q \<noteq> t" for q
      using posixFilesD(9)[OF os that, of w2] w1[OF that] w2 old that by simp
    ultimately show ?thesis using t old by (auto simp: written_def) (metis option.distinct(1))
  next
    case False
    then have run': "commitTemp os t path w2 = (err, w')" using run wr cl by (simp add: fillTemp_def)
    have "files w2 = old(t \<mapsto> data)"
      using posixFilesD(7)[OF os, of t data w w1] wr False w1 w2 old by (auto simp: fun_eq_iff)
    then show ?thesis using written_commitTemp[OF os run' _ t] old by simp
  qed
qed

lemma written_writeFileAtomic:
  assumes os: "posixFiles files os" and run: "writeFileAtomic os path data w = (err, w')"
    and path: "\<not> HasPrefix (Base path) ''.rotor-tmp-''"
  shows "written path data err (files w) (files w')"
proof -
  obtain e w1 where mk: "MkdirAll os (Dir path) w = (e, w1)" by fastforce
  obtain r w2 where tmp: "CreateTemp os (Dir path) ''.rotor-tmp-*'' w1 = (r, w2)" by fastforce
  note w1 = posixFilesD(1)[OF os mk]
  consider x where "e = Some x" | x where "e = None" "r = Inl x" | t where "e = None" "r = Inr t"
    by (cases e; cases r) auto
  then show ?thesis
  proof cases
    case (3 t)
    note c = tmp[unfolded 3(2)]
    have "path \<noteq> t" using posixFilesD(5)[OF os c] path by auto
    moreover have "fillTemp os t path data w2 = (err, w')" using run mk tmp 3 by (simp add: writeFileAtomic_def)
    ultimately show ?thesis
      using written_fillTemp[OF os] posixFilesD(3)[OF os c] posixFilesD(4)[OF os c] w1 by simp
  qed (use run mk tmp w1 posixFilesD(2)[OF os] in \<open>auto simp: writeFileAtomic_def written_def\<close>)
qed

section \<open>Properties\<close>

lemma cleanParts_snoc: "isName n \<Longrightarrow> cleanParts r (ps @ [n]) acc = cleanParts r ps acc @ [n]"
  by (induction r ps acc rule: cleanParts.induct) (auto simp: isName_def split: list.split)

lemma PathJoin_abs_name:
  assumes "IsAbs a" and n: "isName n"
  shows "\<exists>ns. list_all isName ns \<and> PathJoin a n = rooted (ns @ [n])"
proof -
  have "a \<noteq> []" "n \<noteq> []" using assms by (auto simp: IsAbs_def HasPrefix_def isName_def)
  moreover have "Split (a @ ''/'' @ n) (CHR ''/'') = Split a (CHR ''/'') @ [n]"
    using n Split_append_sep[of a "CHR ''/''" n] Split_no[of "CHR ''/''" n] by (simp add: isName_def)
  moreover have "IsAbs (a @ ''/'' @ n)" using assms(1) by (cases a) (auto simp: IsAbs_def HasPrefix_def)
  ultimately have "PathJoin a n = rooted (cleanParts True (Split a (CHR ''/'')) [] @ [n])"
    by (simp add: PathJoin_def Clean_def cleanParts_snoc[OF n] rooted_def)
  then show ?thesis using cleanParts_rooted_names by blast
qed

text \<open>What \<open>ReadFile\<close> sees of the files.\<close>

definition readFiles :: "('w \<Rightarrow> string \<Rightarrow> string option) \<Rightarrow> string \<Rightarrow> 'w \<Rightarrow> readResult" where
  "readFiles files p w = (case files w p of None \<Rightarrow> NotExist | Some data \<Rightarrow> Contents data)"

text \<open>What the decoder makes of the encoded lock file, \<open>l'\<close>, is what a later load returns.\<close>

lemma Save_Load:
  assumes os: "posixFiles files os" and dir: "IsAbs projectDir" and run: "Save os MarshalIndent projectDir l w = (err, w')"
    and json: "\<And>data. MarshalIndent l = Some data \<Longrightarrow> Unmarshal (data @ [LF]) = Some l'" and v: "LockVersion l' \<noteq> 0"
  shows "LoadLockfile (readFiles files) Unmarshal projectDir w' =
           (if err = None then Inr l' else LoadLockfile (readFiles files) Unmarshal projectDir w)"
    and "\<forall>q. q \<noteq> PathJoin projectDir LockfileName \<and> files w q \<noteq> None \<longrightarrow> files w' q = files w q"
proof -
  let ?p = "PathJoin projectDir LockfileName"
  have nm: "isName LockfileName" by (simp add: isName_def LockfileName_def)
  have base: "\<not> HasPrefix (Base ?p) ''.rotor-tmp-''"
    using PathJoin_abs_name[OF dir nm] nm by (auto simp: HasPrefix_def LockfileName_def)
  have load: "LoadLockfile (readFiles files) Unmarshal projectDir w' = LoadLockfile (readFiles files) Unmarshal projectDir w"
    if "files w' ?p = files w ?p" using that by (simp add: LoadLockfile_def readFiles_def)
  have "LoadLockfile (readFiles files) Unmarshal projectDir w' =
           (if err = None then Inr l' else LoadLockfile (readFiles files) Unmarshal projectDir w) \<and>
      (\<forall>q. q \<noteq> ?p \<and> files w q \<noteq> None \<longrightarrow> files w' q = files w q)"
  proof (cases "MarshalIndent l")
    case None
    then show ?thesis using run load by (auto simp: Save_def)
  next
    case (Some data)
    obtain e w1 where wr: "writeFileAtomic os ?p (data @ [LF]) w = (e, w1)" by fastforce
    have r: "w' = w1" "err = None \<longleftrightarrow> e = None" using run Some wr by (auto simp: Save_def split: option.splits)
    have w: "written ?p (data @ [LF]) e (files w) (files w1)" by (rule written_writeFileAtomic[OF os wr base])
    have "LoadLockfile (readFiles files) Unmarshal projectDir w' = Inr l'" if "e = None"
      using w that r json[OF Some] v by (simp add: written_def LoadLockfile_def readFiles_def)
    moreover have "files w' ?p = files w ?p" if "e \<noteq> None" using w that r by (simp add: written_def)
    ultimately show ?thesis using load w r by (auto simp: written_def)
  qed
  then show "LoadLockfile (readFiles files) Unmarshal projectDir w' =
           (if err = None then Inr l' else LoadLockfile (readFiles files) Unmarshal projectDir w)"
    and "\<forall>q. q \<noteq> ?p \<and> files w q \<noteq> None \<longrightarrow> files w' q = files w q" by blast+
qed

text \<open>C28: Saving the lock file is atomic and loading inverts it. On an operating system that behaves as
  documented, with a JSON decoder that reads back what the encoder wrote: after a save without an error
  \<open>LoadLockfile\<close> returns the saved lock file; after one with an error, wherever it happened, it returns what it
  returned before; and no other file that existed has changed.\<close>

theorem Save_then_Load:
  assumes "posixFiles files os" and "IsAbs projectDir" and "Save os MarshalIndent projectDir l w = (err, w')"
    and "\<And>data. MarshalIndent l = Some data \<Longrightarrow> Unmarshal (data @ [LF]) = Some l" and "LockVersion l \<noteq> 0"
  shows "(LoadLockfile (readFiles files) Unmarshal projectDir w' = (if err = None then Inr l else LoadLockfile (readFiles files) Unmarshal projectDir w)) \<and>
    (\<forall>q. q \<noteq> PathJoin projectDir LockfileName \<and> files w q \<noteq> None \<longrightarrow> files w' q = files w q)"
  using Save_Load[OF assms(1-3) _ assms(5)] assms(4) by blast

text \<open>A file system in memory.\<close>

definition memOps :: "(string \<Rightarrow> string option) FileOps" where
  "memOps = \<lparr>MkdirAll = (\<lambda>d w. (None, w)),
     CreateTemp = (\<lambda>d pat w. let t = d @ ''/'' @ takeWhile (\<lambda>c. c \<noteq> CHR ''*'') pat in
       if HasPrefix (Base t) (takeWhile (\<lambda>c. c \<noteq> CHR ''*'') pat) \<and> w t = None then (Inr t, w(t \<mapsto> [])) else (Inl ''exists'', w)),
     WriteTemp = (\<lambda>t data w. (None, w(t := map_option (\<lambda>s. s @ data) (w t)))), CloseTemp = (\<lambda>t w. (None, w)),
     RemoveFile = (\<lambda>t w. w(t := None)), RenameFile = (\<lambda>t p w. (None, w(t := None, p := w t)))\<rparr>"

lemma posix_memOps: "posixFiles id memOps"
  by (auto simp: posixFiles_def memOps_def Let_def split: if_splits)

lemma memSave:
  assumes "MarshalIndent l = Some data" and "w ''/p/.rotor-tmp-'' = None"
  shows "Save memOps MarshalIndent ''/p'' l w = (None, w(''/p/rotor-lock.json'' \<mapsto> data @ [LF]))"
proof -
  have "PathJoin ''/p'' LockfileName = ''/p/rotor-lock.json''" by code_simp
  moreover have "Dir ''/p/rotor-lock.json'' = ''/p''" by code_simp
  moreover have "HasPrefix (Base ''/p/.rotor-tmp-'') ''.rotor-tmp-''" by code_simp
  ultimately show ?thesis using assms
    by (simp add: Save_def writeFileAtomic_def fillTemp_def commitTemp_def memOps_def Let_def fun_eq_iff)
qed

theorem Save_then_Load_witness:
  "LoadLockfile (readFiles id) (\<lambda>d. if d = ''{}'' @ [LF] then Some NewLockfile else None) ''/p'' [''/p/rotor-lock.json'' \<mapsto> ''{}'' @ [LF]] = Inr NewLockfile"
  using Save_then_Load[OF posix_memOps _ memSave[of "\<lambda>l. if l = NewLockfile then Some ''{}'' else None" NewLockfile "''{}''" "\<lambda>_. None"],
      of "\<lambda>d. if d = ''{}'' @ [LF] then Some NewLockfile else None"]
  by (simp add: IsAbs_def HasPrefix_def NewLockfile_def)

end
