(* ===== verification/Dotenv.thy ===== *)
theory Dotenv
  imports Go_Path
begin

text \<open>
  The compile-time environment of \<open>src/internal/dotenv/dotenv.go\<close>. The process environment and
  the file system are arguments: \<open>LookupEnv\<close> and \<open>ReadFile\<close>.
\<close>

section \<open>Trimming\<close>

text \<open>\<open>strings.TrimSpace\<close> removes the characters with the Unicode property White Space; these are
  their UTF-8 encodings.\<close>

definition spaceEncodings :: "string list" where
  "spaceEncodings = [[TAB], [LF], [VT], [FF], [CR], '' '', [CHR 0xC2, CHR 0x85], [CHR 0xC2, CHR 0xA0],
     [CHR 0xE1, CHR 0x9A, CHR 0x80]] @
     map (\<lambda>c. [CHR 0xE2, CHR 0x80, c]) [CHR 0x80, CHR 0x81, CHR 0x82, CHR 0x83, CHR 0x84, CHR 0x85, CHR 0x86, CHR 0x87,
       CHR 0x88, CHR 0x89, CHR 0x8A, CHR 0xA8, CHR 0xA9, CHR 0xAF] @
     [[CHR 0xE2, CHR 0x81, CHR 0x9F], [CHR 0xE3, CHR 0x80, CHR 0x80]]"

lemma spaceEncodings_nonempty: "e \<in> set spaceEncodings \<Longrightarrow> e \<noteq> []"
  by (auto simp: spaceEncodings_def)

function trimLeft :: "string \<Rightarrow> string" where
  "trimLeft s = (case find (HasPrefix s) spaceEncodings of None \<Rightarrow> s | Some e \<Rightarrow> if s = [] then s else trimLeft (drop (length e) s))"
  by pat_completeness auto

termination
proof (relation "measure length")
  fix s e assume "find (HasPrefix s) spaceEncodings = Some e" "s \<noteq> []"
  then show "(drop (length e) s, s) \<in> measure length"
    using spaceEncodings_nonempty by (auto simp: find_Some_iff intro!: diff_less)
qed simp

function trimRight :: "string \<Rightarrow> string" where
  "trimRight s = (case find (HasSuffix s) spaceEncodings of None \<Rightarrow> s
     | Some e \<Rightarrow> if s = [] then s else trimRight (take (length s - length e) s))"
  by pat_completeness auto

termination
proof (relation "measure length")
  fix s e assume "find (HasSuffix s) spaceEncodings = Some e" "s \<noteq> []"
  then show "(take (length s - length e) s, s) \<in> measure length"
    using spaceEncodings_nonempty by (auto simp: find_Some_iff intro!: diff_less)
qed simp

declare trimLeft.simps [simp del] trimRight.simps [simp del]

definition TrimSpace :: "string \<Rightarrow> string" where
  "TrimSpace s = trimRight (trimLeft s)"

definition trimCR :: "string \<Rightarrow> string" where
  "trimCR s = rev (dropWhile (\<lambda>c. c = CR) (rev s))"

section \<open>Parsing (\<open>Parse\<close>)\<close>

definition unquote :: "string \<Rightarrow> string" where
  "unquote v = (if length v \<ge> 2 \<and> (hd v = DQUOTE \<and> last v = DQUOTE \<or> hd v = SQUOTE \<and> last v = SQUOTE)
     then tl (butlast v) else v)"

text \<open>One line: the key and value it defines, if any.\<close>

definition parseLine :: "string \<Rightarrow> (string \<times> string) option" where
  "parseLine raw =
     (let line = TrimSpace (trimCR raw) in
      if line = [] \<or> HasPrefix line ''#'' then None
      else if CHR ''='' \<notin> set line then None
      else (let key = TrimSpace (takeWhile (\<lambda>c. c \<noteq> CHR ''='') line) in
        if key = [] then None
        else Some (key, unquote (TrimSpace (tl (dropWhile (\<lambda>c. c \<noteq> CHR ''='') line))))))"

fun parseLines :: "string list \<Rightarrow> (string \<rightharpoonup> string) \<Rightarrow> (string \<rightharpoonup> string)" where
  "parseLines [] vars = vars"
| "parseLines (l # ls) vars = (case parseLine l of None \<Rightarrow> parseLines ls vars | Some (k, v) \<Rightarrow> parseLines ls (vars(k \<mapsto> v)))"

definition ParseEnv :: "string \<Rightarrow> (string \<rightharpoonup> string)" where
  "ParseEnv s = parseLines (Split s LF) Map.empty"

section \<open>Loading and lookup\<close>

definition readEnvFile :: "(string \<Rightarrow> string option) \<Rightarrow> string \<Rightarrow> (string \<rightharpoonup> string)" where
  "readEnvFile ReadFile p = (case ReadFile p of None \<Rightarrow> Map.empty | Some data \<Rightarrow> ParseEnv data)"

definition nodeEnvOf :: "(string \<rightharpoonup> string) \<Rightarrow> (string \<rightharpoonup> string) \<Rightarrow> string" where
  "nodeEnvOf LookupEnv base = (case LookupEnv ''NODE_ENV'' of
      Some v \<Rightarrow> if v = [] then (case base ''NODE_ENV'' of None \<Rightarrow> [] | Some b \<Rightarrow> b) else v
    | None \<Rightarrow> (case base ''NODE_ENV'' of None \<Rightarrow> [] | Some b \<Rightarrow> b))"

definition LoadEnv :: "(string \<Rightarrow> string option) \<Rightarrow> (string \<rightharpoonup> string) \<Rightarrow> string \<Rightarrow> (string \<rightharpoonup> string)" where
  "LoadEnv ReadFile LookupEnv dir =
     (let base = readEnvFile ReadFile (PathJoin dir ''.env''); nodeEnv = nodeEnvOf LookupEnv base in
      if nodeEnv \<noteq> [] then base ++ readEnvFile ReadFile (PathJoin dir (''.env.'' @ nodeEnv)) else base)"

definition Lookup :: "(string \<rightharpoonup> string) \<Rightarrow> (string \<rightharpoonup> string) option \<Rightarrow> string \<Rightarrow> string option" where
  "Lookup LookupEnv envp name = (case LookupEnv name of Some v \<Rightarrow> Some v
     | None \<Rightarrow> (case envp of None \<Rightarrow> None | Some fileVars \<Rightarrow> fileVars name))"

section \<open>Reading back what was written\<close>

text \<open>A line as one would write it: the key, an equals sign and the value in double quotes.\<close>

definition writeVar :: "string \<times> string \<Rightarrow> string" where
  "writeVar kv = fst kv @ ''='' @ [DQUOTE] @ snd kv @ [DQUOTE]"

definition plainByte :: "char \<Rightarrow> bool" where
  "plainByte c \<longleftrightarrow> of_char c < (0x80 :: nat) \<and> c \<notin> {TAB, LF, VT, FF, CR, CHR '' ''}"

text \<open>Keys that can be written: not empty, no comment, no equals sign or line end, no white space at the ends.\<close>

definition key_ok :: "string \<Rightarrow> bool" where
  "key_ok k \<longleftrightarrow> k \<noteq> [] \<and> HasPrefix k ''#'' = False \<and> CHR ''='' \<notin> set k \<and> LF \<notin> set k \<and> plainByte (hd k) \<and> plainByte (last k)"

lemma no_space_prefix: "s = [] \<or> plainByte (hd s) \<Longrightarrow> trimLeft s = s"
proof -
  assume s: "s = [] \<or> plainByte (hd s)"
  have "\<not> HasPrefix s e" if "e \<in> set spaceEncodings" for e
    using that s by (cases s) (auto simp: spaceEncodings_def HasPrefix_def plainByte_def)
  then have "find (HasPrefix s) spaceEncodings = None" by (simp add: find_None_iff)
  then show ?thesis by (subst trimLeft.simps) simp
qed

lemma no_space_suffix: "s = [] \<or> plainByte (last s) \<Longrightarrow> trimRight s = s"
proof -
  assume s: "s = [] \<or> plainByte (last s)"
  have "\<not> HasSuffix s e" if "e \<in> set spaceEncodings" for e
  proof
    assume "HasSuffix s e"
    then obtain t where t: "s = t @ e" by (auto simp: HasSuffix_iff)
    have "e \<noteq> []" using that spaceEncodings_nonempty by blast
    then have "plainByte (last e)" using s t by auto
    then show False using that by (auto simp: spaceEncodings_def plainByte_def)
  qed
  then have "find (HasSuffix s) spaceEncodings = None" by (simp add: find_None_iff)
  then show ?thesis by (subst trimRight.simps) simp
qed

lemma TrimSpace_id: "s = [] \<or> plainByte (hd s) \<and> plainByte (last s) \<Longrightarrow> TrimSpace s = s"
  unfolding TrimSpace_def using no_space_prefix no_space_suffix by metis

lemma trimCR_id: "last s \<noteq> CR \<Longrightarrow> trimCR s = s"
  unfolding trimCR_def by (metis dropWhile.simps(1) dropWhile_eq_self_iff hd_rev rev_rev_ident)

lemma plain_quote: "plainByte DQUOTE" by (simp add: plainByte_def)

lemma parseLine_writeVar:
  assumes "key_ok k"
  shows "parseLine (writeVar (k, v)) = Some (k, v)"
proof -
  let ?l = "writeVar (k, v)"
  have l: "?l \<noteq> []" "hd ?l = hd k" "last ?l = DQUOTE" using assms by (auto simp: writeVar_def key_ok_def hd_append)
  have t: "TrimSpace (trimCR ?l) = ?l"
    using l assms plain_quote by (subst trimCR_id) (simp_all add: TrimSpace_id key_ok_def)
  have "HasPrefix ?l ''#'' = HasPrefix k ''#''"
    using assms by (cases k) (simp_all add: writeVar_def HasPrefix_def key_ok_def)
  moreover have "takeWhile (\<lambda>c. c \<noteq> CHR ''='') ?l = k" "dropWhile (\<lambda>c. c \<noteq> CHR ''='') ?l = CHR ''='' # [DQUOTE] @ v @ [DQUOTE]"
    using assms by (auto simp: writeVar_def key_ok_def takeWhile_append dropWhile_append)
  moreover have "CHR ''='' \<in> set ?l" by (simp add: writeVar_def)
  moreover have "TrimSpace k = k" using assms by (simp add: TrimSpace_id key_ok_def)
  moreover have "TrimSpace ([DQUOTE] @ v @ [DQUOTE]) = [DQUOTE] @ v @ [DQUOTE]"
    by (rule TrimSpace_id) (simp add: plain_quote)
  moreover have "unquote ([DQUOTE] @ v @ [DQUOTE]) = v" by (simp add: unquote_def butlast_append)
  ultimately show ?thesis using l(1) assms by (simp add: parseLine_def t Let_def key_ok_def)
qed

lemma parseLines_vars: "(\<And>k v. (k, v) \<in> set kvs \<Longrightarrow> key_ok k) \<Longrightarrow> parseLines (map writeVar kvs) m = m ++ map_of (rev kvs)"
proof (induction kvs arbitrary: m)
  case (Cons kv kvs)
  obtain k v where kv: "kv = (k, v)" by (cases kv)
  have "key_ok k" using Cons.prems [of k v] kv by simp
  then have "parseLine (writeVar (k, v)) = Some (k, v)" by (rule parseLine_writeVar)
  moreover have "parseLines (map writeVar kvs) (m(k \<mapsto> v)) = m(k \<mapsto> v) ++ map_of (rev kvs)"
  proof (rule Cons.IH)
    fix k' v' assume "(k', v') \<in> set kvs"
    then show "key_ok k'" using Cons.prems [of k' v'] by simp
  qed
  ultimately show ?case using kv by (simp add: map_add_def fun_eq_iff split: option.splits)
qed simp

definition vars_ok :: "(string \<times> string) list \<Rightarrow> bool" where
  "vars_ok kvs \<longleftrightarrow> list_all (\<lambda>(k, v). key_ok k \<and> LF \<notin> set v) kvs"

lemma parse_written:
  assumes "vars_ok kvs"
  shows "ParseEnv (Join (map writeVar kvs) [LF]) = map_of (rev kvs)"
proof (cases "kvs = []")
  case True
  have "trimCR [] = []" "TrimSpace [] = []" by (simp_all add: trimCR_def TrimSpace_id)
  then show ?thesis using True by (simp add: ParseEnv_def parseLine_def)
next
  case False
  have ok: "key_ok k \<and> LF \<notin> set v" if "(k, v) \<in> set kvs" for k v
    using assms that by (auto simp: vars_ok_def list_all_iff)
  have "\<forall>x \<in> set (map writeVar kvs). LF \<notin> set x" using ok by (auto simp: writeVar_def key_ok_def)
  then have "Split (Join (map writeVar kvs) [LF]) LF = map writeVar kvs" using False by (intro Split_Join) simp_all
  then show ?thesis using parseLines_vars [of kvs Map.empty] ok by (simp add: ParseEnv_def)
qed

section \<open>Properties\<close>

text \<open>An environment file with a line for every variable, its value in double quotes, is read back
  as these variables; of several lines for one key the last counts. Values may hold any bytes but
  line ends: quotes, equals signs and white space at their ends included.\<close>

theorem ParseEnv_reads_back:
  assumes "vars_ok kvs"
  shows "ParseEnv (Join (map writeVar kvs) [LF]) = map_of (rev kvs)"
  using assms by (rule parse_written)

theorem ParseEnv_reads_back_witness:
  "ParseEnv (Join (map writeVar [(''A'', ''1''), (''A'', '' 2 '')]) [LF]) ''A'' = Some '' 2 ''"
proof -
  have "vars_ok [(''A'', ''1''), (''A'', '' 2 '')]"
    by (simp add: vars_ok_def key_ok_def plainByte_def HasPrefix_def)
  from ParseEnv_reads_back [OF this] show ?thesis by simp
qed

text \<open>A name is looked up in the process environment first, then in the file of the mode and then
  in the base file; the mode is the variable \<open>NODE_ENV\<close> of the process or, if that is unset or
  empty, of the base file.\<close>

theorem Lookup_priority:
  assumes "ReadFile (PathJoin dir ''.env'') = Some (Join (map writeVar base) [LF])"
    "ReadFile (PathJoin dir (''.env.'' @ mode)) = Some (Join (map writeVar special) [LF])"
    "vars_ok base" "vars_ok special"
    "mode \<noteq> []" "LookupEnv ''NODE_ENV'' = Some mode \<or> LookupEnv ''NODE_ENV'' \<in> {None, Some []} \<and> map_of (rev base) ''NODE_ENV'' = Some mode"
  shows "Lookup LookupEnv (Some (LoadEnv ReadFile LookupEnv dir)) name =
    (case LookupEnv name of Some v \<Rightarrow> Some v | None \<Rightarrow>
      (case map_of (rev special) name of Some v \<Rightarrow> Some v | None \<Rightarrow> map_of (rev base) name))"
proof -
  have b: "readEnvFile ReadFile (PathJoin dir ''.env'') = map_of (rev base)"
    using assms(1,3) by (simp add: readEnvFile_def parse_written)
  have s: "readEnvFile ReadFile (PathJoin dir (''.env.'' @ mode)) = map_of (rev special)"
    using assms(2,4) by (simp add: readEnvFile_def parse_written)
  have "nodeEnvOf LookupEnv (map_of (rev base)) = mode" using assms(5,6) by (auto simp: nodeEnvOf_def)
  then have "LoadEnv ReadFile LookupEnv dir = map_of (rev base) ++ map_of (rev special)"
    using assms(5) s by (simp add: LoadEnv_def b Let_def)
  then show ?thesis by (simp add: Lookup_def map_add_def split: option.splits)
qed

theorem Lookup_priority_witness:
  "Lookup (\<lambda>n. None) (Some (LoadEnv (\<lambda>p. if p = PathJoin ''d'' ''.env'' then Some (Join (map writeVar [(''NODE_ENV'', ''x''), (''A'', ''1'')]) [LF])
     else Some (Join (map writeVar [(''A'', ''2'')]) [LF])) (\<lambda>n. None) ''d'')) ''A'' = Some ''2''"
proof -
  have "PathJoin ''d'' ''.env.x'' \<noteq> PathJoin ''d'' ''.env''" by code_simp
  moreover have "vars_ok [(''NODE_ENV'', ''x''), (''A'', ''1'')]" "vars_ok [(''A'', ''2'')]"
    by (simp_all add: vars_ok_def key_ok_def plainByte_def HasPrefix_def)
  ultimately show ?thesis
    using Lookup_priority [of "\<lambda>p. if p = PathJoin ''d'' ''.env'' then Some (Join (map writeVar [(''NODE_ENV'', ''x''), (''A'', ''1'')]) [LF])
     else Some (Join (map writeVar [(''A'', ''2'')]) [LF])" "''d''" "[(''NODE_ENV'', ''x''), (''A'', ''1'')]" "''x''" "[(''A'', ''2'')]" "\<lambda>n. None" "''A''"]
    by simp
qed

end
