(* ===== verification/Asset_Sync.thy ===== *)
theory Asset_Sync
  imports Asset_Store Dotenv
begin

text \<open>
  Asset synchronisation: scanning (\<open>src/internal/assets/scan.go\<close>, \<open>assets.go\<close>), planning (\<open>plan.go\<close>), uploading
  (\<open>sync.go\<close>).

  The cloud client is the record \<open>Cloud\<close> of the operations of the Go interface; they thread a value of
  type \<open>'w\<close>, the world outside. Reading and hashing files, saving the lock file and the callback \<open>OnFile\<close> are arguments.
\<close>

section \<open>Files\<close>

definition TypeDecal :: string where "TypeDecal = ''Decal''"
definition TypeAudio :: string where "TypeAudio = ''Audio''"

definition classifyExt :: "(string \<Rightarrow> string) \<Rightarrow> string \<Rightarrow> string option" where
  "classifyExt lower ext =
     (let e = lower ext in
      if e \<in> {''.png'', ''.jpg'', ''.jpeg'', ''.tga'', ''.bmp''} then Some TypeDecal
      else if e \<in> {''.ogg'', ''.mp3''} then Some TypeAudio
      else None)"

record AssetFile =
  FilePath :: string
  FileAbs :: string
  FileType :: string
  FileHash :: string

section \<open>Scanning\<close>

text \<open>What is below a path: a file, or a directory with its entries in lexical order, or one that cannot
  be read. A link counts as a file, as \<open>filepath.WalkDir\<close> does not follow it.\<close>

datatype dirTree = FileT | DirT "(string \<times> dirTree) list option"

fun walkDir :: "bool \<Rightarrow> string \<Rightarrow> string \<Rightarrow> dirTree \<Rightarrow> string list option"
  and walkEntries :: "string \<Rightarrow> (string \<times> dirTree) list \<Rightarrow> string list option" where
  "walkDir isRoot nm p FileT = Some [p]"
| "walkDir isRoot nm p (DirT es) =
     (if \<not> isRoot \<and> (nm = ''.git'' \<or> nm = ''node_modules'') then Some []
      else (case es of None \<Rightarrow> None | Some es \<Rightarrow> walkEntries p es))"
| "walkEntries p [] = Some []"
| "walkEntries p ((nm, t) # es) =
     (case walkDir False nm (PathJoin p nm) t of
        None \<Rightarrow> None
      | Some fs \<Rightarrow> (case walkEntries p es of None \<Rightarrow> None | Some gs \<Rightarrow> Some (fs @ gs)))"

datatype scanError = ResolveFailed | RelFailed string | WalkFailed string | HashFailed string

text \<open>The callback of the walk on the files: matching files become candidates. An error of the callback and
  one of the walk both end the walk, and \<open>Scan\<close> reports them the same way.\<close>

fun matchFiles :: "(string \<Rightarrow> string) \<Rightarrow> string \<Rightarrow> string \<Rightarrow> string list \<Rightarrow> (string \<times> string) list \<Rightarrow> (string \<times> string) list option" where
  "matchFiles lower absProject pat [] cs = Some cs"
| "matchFiles lower absProject pat (p # ps) cs =
     (case Rel absProject p of
        None \<Rightarrow> None
      | Some rel \<Rightarrow> matchFiles lower absProject pat ps (if Match lower pat rel = Some True then AList.update rel p cs else cs))"

definition scanPattern :: "(string \<Rightarrow> string) \<Rightarrow> (string \<Rightarrow> dirTree option) \<Rightarrow> string \<Rightarrow> string \<Rightarrow> (string \<times> string) list \<Rightarrow> scanError + (string \<times> string) list" where
  "scanPattern lower Below absProject raw cs =
     (let pat = Clean (replaceBackslashes (TrimSpace raw)) in
      if pat = [] \<or> pat = ''.'' then Inr cs
      else (let prefix = staticPrefix pat; root = PathJoin absProject prefix in
        case Below root of
          None \<Rightarrow> Inr cs
        | Some FileT \<Rightarrow>
            (if prefix = Join (splitClean pat) ''/'' then
               (case Rel absProject root of None \<Rightarrow> Inl (RelFailed root) | Some rel \<Rightarrow> Inr (AList.update rel root cs))
             else Inr cs)
        | Some (DirT es) \<Rightarrow>
            (case walkDir True (Base root) root (DirT es) of
               None \<Rightarrow> Inl (WalkFailed raw)
             | Some fs \<Rightarrow> (case matchFiles lower absProject pat fs cs of None \<Rightarrow> Inl (WalkFailed raw) | Some cs \<Rightarrow> Inr cs))))"

fun scanPatterns :: "(string \<Rightarrow> string) \<Rightarrow> (string \<Rightarrow> dirTree option) \<Rightarrow> string \<Rightarrow> string list \<Rightarrow> (string \<times> string) list \<Rightarrow> scanError + (string \<times> string) list" where
  "scanPatterns lower Below absProject [] cs = Inr cs"
| "scanPatterns lower Below absProject (raw # raws) cs =
     (case scanPattern lower Below absProject raw cs of Inl e \<Rightarrow> Inl e | Inr cs' \<Rightarrow> scanPatterns lower Below absProject raws cs')"

record ScanResult =
  Files :: "AssetFile list"
  Skipped :: "string list"

fun classifyAll :: "(string \<Rightarrow> string) \<Rightarrow> (string \<Rightarrow> string option) \<Rightarrow> (string \<times> string) list \<Rightarrow> ScanResult \<Rightarrow> scanError + ScanResult" where
  "classifyAll lower HashFile [] res = Inr res"
| "classifyAll lower HashFile ((rel, p) # cs) res =
     (case classifyExt lower (Ext rel) of
        None \<Rightarrow> classifyAll lower HashFile cs (res\<lparr>Skipped := Skipped res @ [rel]\<rparr>)
      | Some typ \<Rightarrow>
          (case HashFile p of
             None \<Rightarrow> Inl (HashFailed rel)
           | Some h \<Rightarrow> classifyAll lower HashFile cs
               (res\<lparr>Files := Files res @ [\<lparr>FilePath = rel, FileAbs = p, FileType = typ, FileHash = h\<rparr>]\<rparr>)))"

definition Scan :: "(string \<Rightarrow> string) \<Rightarrow> (string \<Rightarrow> string option) \<Rightarrow> (string \<Rightarrow> dirTree option) \<Rightarrow> (string \<Rightarrow> string option) \<Rightarrow> string \<Rightarrow> string list \<Rightarrow> scanError + ScanResult" where
  "Scan lower Abs Below HashFile projectDir patterns =
     (case Abs projectDir of
        None \<Rightarrow> Inl ResolveFailed
      | Some absProject \<Rightarrow>
          (case scanPatterns lower Below absProject patterns [] of
             Inl e \<Rightarrow> Inl e
           | Inr cs \<Rightarrow>
               (case classifyAll lower HashFile cs \<lparr>Files = [], Skipped = []\<rparr> of
                  Inl e \<Rightarrow> Inl e
                | Inr res \<Rightarrow> Inr \<lparr>Files = sort_key FilePath (Files res), Skipped = sort (Skipped res)\<rparr>)))"

section \<open>Planning\<close>

datatype Action = ActionCreate | ActionUpdate | ActionUnchanged

record PlanItem =
  ItemFile :: AssetFile
  ItemAction :: Action
  ItemAssetID :: int

record AssetPlan =
  Items :: "PlanItem list"
  PlanSkipped :: "string list"

definition planFile :: "Lockfile \<Rightarrow> AssetFile \<Rightarrow> PlanItem" where
  "planFile lock f =
     (case map_of (LockAssets lock) (FilePath f) of
        None \<Rightarrow> \<lparr>ItemFile = f, ItemAction = ActionCreate, ItemAssetID = 0\<rparr>
      | Some entry \<Rightarrow>
          if LockHash entry \<noteq> FileHash f then \<lparr>ItemFile = f, ItemAction = ActionUpdate, ItemAssetID = LockAssetID entry\<rparr>
          else \<lparr>ItemFile = f, ItemAction = ActionUnchanged, ItemAssetID = LockAssetID entry\<rparr>)"

definition BuildAssetPlan :: "ScanResult \<Rightarrow> Lockfile \<Rightarrow> AssetPlan" where
  "BuildAssetPlan scan lock = \<lparr>Items = map (planFile lock) (Files scan), PlanSkipped = Skipped scan\<rparr>"

definition Count :: "AssetPlan \<Rightarrow> Action \<Rightarrow> nat" where
  "Count p a = length (filter (\<lambda>it. ItemAction it = a) (Items p))"

definition Changes :: "AssetPlan \<Rightarrow> nat" where
  "Changes p = Count p ActionCreate + Count p ActionUpdate"

section \<open>Uploading\<close>

record AssetCreator =
  UserID :: int
  GroupID :: int

record CreateAssetRequest =
  ReqAssetType :: string
  ReqDisplayName :: string
  ReqDescription :: string
  ReqCreator :: AssetCreator

record 'w Cloud =
  CreateAsset :: "CreateAssetRequest \<Rightarrow> string \<Rightarrow> string \<Rightarrow> 'w \<Rightarrow> (string + string) \<times> 'w"
  UpdateAssetContent :: "int \<Rightarrow> string \<Rightarrow> string \<Rightarrow> 'w \<Rightarrow> (string + string) \<times> 'w"
  PollOperation :: "string \<Rightarrow> 'w \<Rightarrow> (string + int) \<times> 'w"
  ResolveImageID :: "int \<Rightarrow> 'w \<Rightarrow> (string + int) \<times> 'w"

datatype uploadError = ReadFailed string | CloudFailed string | NoAssetID | CannotUpload | UnsupportedExtension string

fun cloudResult :: "(string + 'a) \<times> 'w \<Rightarrow> (uploadError + 'a) \<times> 'w" where
  "cloudResult (Inl e, w) = (Inl (CloudFailed e), w)"
| "cloudResult (Inr x, w) = (Inr x, w)"

definition startUpload :: "'w Cloud \<Rightarrow> PlanItem \<Rightarrow> AssetCreator \<Rightarrow> string \<Rightarrow> 'w \<Rightarrow> (uploadError + string) \<times> 'w" where
  "startUpload client item creator data w =
     (let f = ItemFile item; fileName = Base (FilePath f) in
      case ItemAction item of
        ActionCreate \<Rightarrow> cloudResult (CreateAsset client \<lparr>ReqAssetType = FileType f, ReqDisplayName = stem fileName,
            ReqDescription = ''uploaded by rotor asset sync'', ReqCreator = creator\<rparr> fileName data w)
      | ActionUpdate \<Rightarrow> cloudResult (UpdateAssetContent client (ItemAssetID item) fileName data w)
      | ActionUnchanged \<Rightarrow> (Inl CannotUpload, w))"

definition uploadOne :: "'w Cloud \<Rightarrow> (string \<Rightarrow> string option) \<Rightarrow> string \<Rightarrow> PlanItem \<Rightarrow> AssetCreator \<Rightarrow> 'w \<Rightarrow> (uploadError + int) \<times> 'w" where
  "uploadOne client ReadFile projectDir item creator w =
     (case ReadFile (PathJoin projectDir (FilePath (ItemFile item))) of
        None \<Rightarrow> (Inl (ReadFailed (FilePath (ItemFile item))), w)
      | Some data \<Rightarrow>
          (case startUpload client item creator data w of
             (Inl e, w) \<Rightarrow> (Inl e, w)
           | (Inr opPath, w) \<Rightarrow>
               (case cloudResult (PollOperation client opPath w) of
                  (Inl e, w) \<Rightarrow> (Inl e, w)
                | (Inr polled, w) \<Rightarrow>
                    (let aid = (if polled = 0 then ItemAssetID item else polled) in
                     if aid = 0 then (Inl NoAssetID, w)
                     else if ItemAction item = ActionCreate \<and> FileType (ItemFile item) = TypeDecal
                     then cloudResult (ResolveImageID client aid w)
                     else (Inr aid, w)))))"

definition UploadFile :: "(string \<Rightarrow> string) \<Rightarrow> 'w Cloud \<Rightarrow> (string \<Rightarrow> string option) \<Rightarrow> string \<Rightarrow> AssetCreator \<Rightarrow> 'w \<Rightarrow> (uploadError + int) \<times> 'w" where
  "UploadFile lower client ReadFile absPath creator w =
     (case classifyExt lower (Ext absPath) of
        None \<Rightarrow> (Inl (UnsupportedExtension (Base absPath)), w)
      | Some assetType \<Rightarrow>
          (case ReadFile absPath of
             None \<Rightarrow> (Inl (ReadFailed absPath), w)
           | Some data \<Rightarrow>
               (let fileName = Base absPath in
                case cloudResult (CreateAsset client \<lparr>ReqAssetType = assetType, ReqDisplayName = stem fileName,
                    ReqDescription = ''uploaded by rotor $asset'', ReqCreator = creator\<rparr> fileName data w) of
                  (Inl e, w) \<Rightarrow> (Inl e, w)
                | (Inr opPath, w) \<Rightarrow>
                    (case cloudResult (PollOperation client opPath w) of
                       (Inl e, w) \<Rightarrow> (Inl e, w)
                     | (Inr aid, w) \<Rightarrow>
                         if aid = 0 then (Inl NoAssetID, w)
                         else if assetType = TypeDecal then cloudResult (ResolveImageID client aid w)
                         else (Inr aid, w)))))"

section \<open>Synchronising\<close>

record SyncResult =
  Created :: nat
  Updated :: nat
  Errors :: "(string \<times> uploadError) list"

definition putAsset :: "PlanItem \<Rightarrow> int \<Rightarrow> Lockfile \<Rightarrow> Lockfile" where
  "putAsset item aid lock = lock\<lparr>LockAssets :=
     AList.update (FilePath (ItemFile item)) \<lparr>LockHash = FileHash (ItemFile item), LockAssetID = aid\<rparr> (LockAssets lock)\<rparr>"

definition countItem :: "PlanItem \<Rightarrow> SyncResult \<Rightarrow> SyncResult" where
  "countItem item res = (if ItemAction item = ActionCreate then res\<lparr>Created := Created res + 1\<rparr> else res\<lparr>Updated := Updated res + 1\<rparr>)"

text \<open>The loop of \<open>Sync\<close>. The result is the tally, the fatal error of a save that failed, the lock file as it
  is in memory, and the world.\<close>

fun Sync :: "'w Cloud \<Rightarrow> (string \<Rightarrow> string option) \<Rightarrow> (Lockfile \<Rightarrow> 'w \<Rightarrow> string option \<times> 'w) \<Rightarrow>
    (PlanItem \<Rightarrow> int \<Rightarrow> uploadError option \<Rightarrow> 'w \<Rightarrow> 'w) \<Rightarrow> string \<Rightarrow> AssetCreator \<Rightarrow>
    PlanItem list \<Rightarrow> SyncResult \<Rightarrow> Lockfile \<Rightarrow> 'w \<Rightarrow> SyncResult \<times> string option \<times> Lockfile \<times> 'w" where
  "Sync client ReadFile save onFile projectDir creator [] res lock w = (res, None, lock, w)"
| "Sync client ReadFile save onFile projectDir creator (item # items) res lock w =
     (if ItemAction item = ActionUnchanged then Sync client ReadFile save onFile projectDir creator items res lock w
      else (case uploadOne client ReadFile projectDir item creator w of
          (Inl e, w) \<Rightarrow> Sync client ReadFile save onFile projectDir creator items
             (res\<lparr>Errors := Errors res @ [(FilePath (ItemFile item), e)]\<rparr>) lock (onFile item 0 (Some e) w)
        | (Inr aid, w) \<Rightarrow>
            (let lock = putAsset item aid lock in
             case save lock w of
               (Some err, w) \<Rightarrow> (res, Some err, lock, w)
             | (None, w) \<Rightarrow> Sync client ReadFile save onFile projectDir creator items (countItem item res) lock (onFile item aid None w))))"

section \<open>What the scan returns\<close>

lemma keys_update: "fst ` set (AList.update k v cs) = insert k (fst ` set cs)"
  by (simp add: dom_update)

lemma matchFiles_keys:
  "matchFiles lower a pat ps cs = Some cs' \<Longrightarrow> distinct (map fst cs) \<Longrightarrow>
     distinct (map fst cs') \<and>
     fst ` set cs' = fst ` set cs \<union> {rel. \<exists>p \<in> set ps. Rel a p = Some rel \<and> Match lower pat rel = Some True}"
proof (induction lower a pat ps cs arbitrary: cs' rule: matchFiles.induct)
  case (2 lower a pat p ps cs)
  show ?case
  proof (cases "Rel a p")
    case (Some rel)
    let ?cs = "if Match lower pat rel = Some True then AList.update rel p cs else cs"
    have "distinct (map fst ?cs)" using 2(3) by (simp add: distinct_update)
    moreover have "matchFiles lower a pat ps ?cs = Some cs'" using 2(2) Some by simp
    ultimately have "distinct (map fst cs')"
      "fst ` set cs' = fst ` set ?cs \<union> {rel. \<exists>p \<in> set ps. Rel a p = Some rel \<and> Match lower pat rel = Some True}"
      using 2(1)[OF Some] by blast+
    then show ?thesis using Some by (simp add: keys_update) blast
  qed (use 2 in simp)
qed simp

text \<open>The paths one pattern stands for.\<close>

definition foundBy :: "(string \<Rightarrow> string) \<Rightarrow> (string \<Rightarrow> dirTree option) \<Rightarrow> string \<Rightarrow> string \<Rightarrow> string set" where
  "foundBy lower Below absProject raw =
     (let pat = Clean (replaceBackslashes (TrimSpace raw)); root = PathJoin absProject (staticPrefix pat) in
      if pat = [] \<or> pat = ''.'' then {}
      else (case Below root of
          None \<Rightarrow> {}
        | Some FileT \<Rightarrow> {rel. staticPrefix pat = Join (splitClean pat) ''/'' \<and> Rel absProject root = Some rel}
        | Some (DirT es) \<Rightarrow> {rel. \<exists>fs. walkDir True (Base root) root (DirT es) = Some fs \<and>
            (\<exists>p \<in> set fs. Rel absProject p = Some rel \<and> Match lower pat rel = Some True)}))"

lemma scanPattern_keys:
  assumes "scanPattern lower Below a raw cs = Inr cs'" and "distinct (map fst cs)"
  shows "distinct (map fst cs') \<and> fst ` set cs' = fst ` set cs \<union> foundBy lower Below a raw"
proof -
  define pat where "pat = Clean (replaceBackslashes (TrimSpace raw))"
  define root where "root = PathJoin a (staticPrefix pat)"
  note defs = scanPattern_def[of lower Below a raw cs] foundBy_def[of lower Below a raw]
  note defs = defs[unfolded Let_def, folded pat_def, folded root_def]
  consider "pat = [] \<or> pat = ''.''" | "pat \<noteq> []" "pat \<noteq> ''.''" "Below root = None"
    | "pat \<noteq> []" "pat \<noteq> ''.''" "Below root = Some FileT" | es where "pat \<noteq> []" "pat \<noteq> ''.''" "Below root = Some (DirT es)"
    by (metis dirTree.exhaust option.exhaust)
  then show ?thesis
  proof cases
    case 3
    then show ?thesis using assms keys_update[of _ root cs] distinct_update[of cs _ root]
      by (simp add: defs split: if_splits option.splits) blast
  next
    case 4
    then show ?thesis using assms(1) matchFiles_keys[OF _ assms(2)]
      by (simp add: defs split: option.splits)
  qed (use assms in \<open>auto simp: defs\<close>)
qed

lemma scanPatterns_keys:
  "scanPatterns lower Below a raws cs = Inr cs' \<Longrightarrow> distinct (map fst cs) \<Longrightarrow>
     distinct (map fst cs') \<and> fst ` set cs' = fst ` set cs \<union> (\<Union>raw \<in> set raws. foundBy lower Below a raw)"
proof (induction raws arbitrary: cs)
  case (Cons raw raws)
  then obtain cs1 where one: "scanPattern lower Below a raw cs = Inr cs1" and rest: "scanPatterns lower Below a raws cs1 = Inr cs'"
    by (auto split: sum.splits)
  show ?case using Cons.IH[OF rest] scanPattern_keys[OF one Cons.prems(2)] by auto
qed simp

definition scannedAs :: "(string \<Rightarrow> string) \<Rightarrow> (string \<Rightarrow> string option) \<Rightarrow> AssetFile \<Rightarrow> bool" where
  "scannedAs lower HashFile f \<longleftrightarrow>
     classifyExt lower (Ext (FilePath f)) = Some (FileType f) \<and> HashFile (FileAbs f) = Some (FileHash f)"

lemma classifyAll_shape:
  "classifyAll lower HashFile cs res = Inr res' \<Longrightarrow>
     map FilePath (Files res') = map FilePath (Files res) @ filter (\<lambda>rel. classifyExt lower (Ext rel) \<noteq> None) (map fst cs) \<and>
     Skipped res' = Skipped res @ filter (\<lambda>rel. classifyExt lower (Ext rel) = None) (map fst cs) \<and>
     ((\<forall>f \<in> set (Files res). scannedAs lower HashFile f) \<longrightarrow> (\<forall>f \<in> set (Files res'). scannedAs lower HashFile f))"
proof (induction lower HashFile cs res rule: classifyAll.induct)
  case (2 lower HashFile rel p cs res)
  show ?case
  proof (cases "classifyExt lower (Ext rel)")
    case None
    then show ?thesis using 2(1)[OF None] 2(3) by simp
  next
    case (Some t)
    then obtain h where h: "HashFile p = Some h" using 2(3) by (auto split: option.splits)
    let ?f = "\<lparr>FilePath = rel, FileAbs = p, FileType = t, FileHash = h\<rparr>"
    have "scannedAs lower HashFile ?f" using Some h by (simp add: scannedAs_def)
    then show ?thesis using 2(2)[OF Some h] 2(3) Some h by simp
  qed
qed simp

lemma sorted_distinct_strict: "sorted xs \<Longrightarrow> distinct xs \<Longrightarrow> sorted_wrt (<) (xs :: 'a :: linorder list)"
  by (simp add: strict_sorted_iff)

lemma Scan_exact_parts:
  assumes scan: "Scan lower Abs Below HashFile projectDir patterns = Inr res" and a: "Abs projectDir = Some absProject"
  shows "sorted_wrt (<) (map FilePath (Files res))" and "sorted_wrt (<) (Skipped res)"
    and "FilePath ` set (Files res) = {rel \<in> (\<Union>raw \<in> set patterns. foundBy lower Below absProject raw). classifyExt lower (Ext rel) \<noteq> None}"
    and "set (Skipped res) = {rel \<in> (\<Union>raw \<in> set patterns. foundBy lower Below absProject raw). classifyExt lower (Ext rel) = None}"
    and "\<forall>f \<in> set (Files res). scannedAs lower HashFile f"
proof -
  obtain cs r where cs: "scanPatterns lower Below absProject patterns [] = Inr cs"
    and r: "classifyAll lower HashFile cs \<lparr>Files = [], Skipped = []\<rparr> = Inr r"
    and res: "res = \<lparr>Files = sort_key FilePath (Files r), Skipped = sort (Skipped r)\<rparr>"
    using scan a by (auto simp: Scan_def split: sum.splits)
  note keys = scanPatterns_keys[OF cs]
  note shape = classifyAll_shape[OF r]
  have dF: "distinct (map FilePath (Files r))" and dS: "distinct (Skipped r)" using keys shape by simp_all
  have "sorted (map FilePath (Files res))" using res by simp
  moreover have "distinct (map FilePath (Files res))"
    using dF res by (simp add: distinct_map)
  ultimately show "sorted_wrt (<) (map FilePath (Files res))" by (rule sorted_distinct_strict)
  show "sorted_wrt (<) (Skipped res)" using dS res by (intro sorted_distinct_strict) simp_all
  have F: "FilePath ` set (Files res) = set (map FilePath (Files r))" using res by simp
  then show "FilePath ` set (Files res) = {rel \<in> (\<Union>raw \<in> set patterns. foundBy lower Below absProject raw). classifyExt lower (Ext rel) \<noteq> None}"
    using shape keys by (auto simp flip: set_map)
  show "set (Skipped res) = {rel \<in> (\<Union>raw \<in> set patterns. foundBy lower Below absProject raw). classifyExt lower (Ext rel) = None}"
    using shape keys res by (auto simp flip: set_map)
  show "\<forall>f \<in> set (Files res). scannedAs lower HashFile f" using shape res by simp
qed

text \<open>A scan returns, in strictly increasing order of their paths and so each once however many patterns
  match it, exactly the files the patterns stand for: those with a known extension as assets, with the type of the
  extension and the hash of their content, the others as skipped.\<close>

theorem Scan_exact:
  assumes scan: "Scan lower Abs Below HashFile projectDir patterns = Inr res" and a: "Abs projectDir = Some absProject"
  shows "(sorted_wrt (<) (map FilePath (Files res))) \<and>
    (sorted_wrt (<) (Skipped res)) \<and>
    (FilePath ` set (Files res) = {rel \<in> (\<Union>raw \<in> set patterns. foundBy lower Below absProject raw). classifyExt lower (Ext rel) \<noteq> None}) \<and>
    (set (Skipped res) = {rel \<in> (\<Union>raw \<in> set patterns. foundBy lower Below absProject raw). classifyExt lower (Ext rel) = None}) \<and>
    (\<forall>f \<in> set (Files res). scannedAs lower HashFile f)"
  by (intro conjI; rule Scan_exact_parts[OF assms])

definition exampleTree :: "string \<Rightarrow> dirTree option" where
  "exampleTree p = (if p = ''/p'' then Some (DirT (Some [(''a.png'', FileT), (''b.txt'', FileT), (''node_modules'', DirT None)])) else None)"

lemma exampleMatch: "Match id ''*'' ''a.png'' = Some True" "Match id ''*'' ''b.txt'' = Some True"
  by (simp_all add: Match_def normalize_def splitClean_def replaceBackslashes_def matchSegment_def runes.simps decodeRune_def
        segmentLoop.simps skipStars_def tryFrom.simps)

lemma examplePaths:
  "Clean (replaceBackslashes (TrimSpace ''*'')) = ''*''" "staticPrefix ''*'' = []" "PathJoin ''/p'' [] = ''/p''"
  "PathJoin ''/p'' ''a.png'' = ''/p/a.png''" "PathJoin ''/p'' ''b.txt'' = ''/p/b.txt''" "PathJoin ''/p'' ''node_modules'' = ''/p/node_modules''"
  "Rel ''/p'' ''/p/a.png'' = Some ''a.png''" "Rel ''/p'' ''/p/b.txt'' = Some ''b.txt''"
  "classifyExt id (Ext ''a.png'') = Some ''Decal''" "classifyExt id (Ext ''b.txt'') = None"
  by code_simp+

lemma exampleScan:
  "Scan id Some exampleTree (\<lambda>p. Some (''sha:'' @ p)) ''/p'' [''*''] =
     Inr \<lparr>Files = [\<lparr>FilePath = ''a.png'', FileAbs = ''/p/a.png'', FileType = ''Decal'', FileHash = ''sha:/p/a.png''\<rparr>], Skipped = [''b.txt'']\<rparr>"
  by (simp add: Scan_def scanPattern_def Let_def examplePaths exampleTree_def exampleMatch)

theorem Scan_exact_witness:
  "''a.png'' \<in> foundBy id exampleTree ''/p'' ''*''"
  using Scan_exact[OF exampleScan, of "''/p''"] by auto

section \<open>What synchronising leaves to do\<close>

definition emptySync :: SyncResult where
  "emptySync = \<lparr>Created = 0, Updated = 0, Errors = []\<rparr>"

abbreviation pathOf :: "PlanItem \<Rightarrow> string" where
  "pathOf item \<equiv> FilePath (ItemFile item)"

abbreviation changing :: "Lockfile \<Rightarrow> AssetFile \<Rightarrow> bool" where
  "changing lock f \<equiv> ItemAction (planFile lock f) \<noteq> ActionUnchanged"

lemma ItemFile_planFile [simp]: "ItemFile (planFile lock f) = f"
  by (simp add: planFile_def split: option.split)

lemma planFile_cong:
  "map_of (LockAssets lock) (FilePath f) = map_of (LockAssets lock') (FilePath f) \<Longrightarrow> planFile lock f = planFile lock' f"
  by (simp add: planFile_def)

lemma map_of_putAsset [simp]:
  "map_of (LockAssets (putAsset item aid lock)) =
     (map_of (LockAssets lock))(pathOf item \<mapsto> \<lparr>LockHash = FileHash (ItemFile item), LockAssetID = aid\<rparr>)"
  by (simp add: putAsset_def update_conv')

lemma planFile_putAsset_same:
  "FilePath f = pathOf item \<Longrightarrow> FileHash f = FileHash (ItemFile item) \<Longrightarrow>
     planFile (putAsset item aid lock) f = \<lparr>ItemFile = f, ItemAction = ActionUnchanged, ItemAssetID = aid\<rparr>"
  by (simp add: planFile_def)

lemma planFile_putAsset_other:
  "FilePath f \<noteq> pathOf item \<Longrightarrow> planFile (putAsset item aid lock) f = planFile lock f"
  by (simp add: planFile_def)

lemma Changes_alt: "Changes p = length (filter (\<lambda>it. ItemAction it \<noteq> ActionUnchanged) (Items p))"
proof -
  have "length (filter (\<lambda>it. ItemAction it = ActionCreate) xs) + length (filter (\<lambda>it. ItemAction it = ActionUpdate) xs)
      = length (filter (\<lambda>it. ItemAction it \<noteq> ActionUnchanged) xs)" for xs
  proof (induction xs)
    case (Cons it xs)
    then show ?case by (cases "ItemAction it") auto
  qed simp
  then show ?thesis by (simp add: Changes_def Count_def)
qed

lemma Changes_BuildAssetPlan: "Changes (BuildAssetPlan scan lock) = length (filter (changing lock) (Files scan))"
  by (simp add: Changes_alt BuildAssetPlan_def filter_map o_def)

text \<open>Without a fatal error: the entries of the other paths are kept, the files of \<open>Errors\<close> keep their entries
  and every other file of the plan is recorded with its hash.\<close>

lemma Sync_Cons_cases [consumes 1, case_names skip fail fatal recorded]:
  assumes "Sync client ReadFile save onFile dir creator (item # items) res lock w = (res', err, lock', w')"
  obtains "ItemAction item = ActionUnchanged"
      "Sync client ReadFile save onFile dir creator items res lock w = (res', err, lock', w')"
  | e w1 where "ItemAction item \<noteq> ActionUnchanged" "uploadOne client ReadFile dir item creator w = (Inl e, w1)"
      "Sync client ReadFile save onFile dir creator items (res\<lparr>Errors := Errors res @ [(pathOf item, e)]\<rparr>) lock
         (onFile item 0 (Some e) w1) = (res', err, lock', w')"
  | aid w1 er where "ItemAction item \<noteq> ActionUnchanged" "uploadOne client ReadFile dir item creator w = (Inr aid, w1)"
      "save (putAsset item aid lock) w1 = (Some er, w')" "res' = res" "err = Some er" "lock' = putAsset item aid lock"
  | aid w1 w2 where "ItemAction item \<noteq> ActionUnchanged" "uploadOne client ReadFile dir item creator w = (Inr aid, w1)"
      "save (putAsset item aid lock) w1 = (None, w2)"
      "Sync client ReadFile save onFile dir creator items (countItem item res) (putAsset item aid lock)
         (onFile item aid None w2) = (res', err, lock', w')"
proof (cases "ItemAction item = ActionUnchanged")
  case False
  obtain r w1 where up: "uploadOne client ReadFile dir item creator w = (r, w1)" by fastforce
  show ?thesis
  proof (cases r)
    case (Inl e)
    then show ?thesis using that(2)[OF False] assms False up by simp
  next
    case (Inr aid)
    obtain q w2 where sv: "save (putAsset item aid lock) w1 = (q, w2)" by fastforce
    show ?thesis
    proof (cases q)
      case None
      then show ?thesis using that(4)[OF False] assms False up Inr sv by (simp add: Let_def)
    next
      case (Some er)
      then show ?thesis using that(3)[OF False up[unfolded Inr], of er] assms False up Inr sv by (auto simp: Let_def)
    qed
  qed
qed (use that(1) assms in simp)

lemma Errors_countItem [simp]: "Errors (countItem item res) = Errors res"
  by (simp add: countItem_def)

lemma tally_countItem [simp]: "Created (countItem item res) + Updated (countItem item res) = Suc (Created res + Updated res)"
  by (simp add: countItem_def)

lemma Sync_others:
  "Sync client ReadFile save onFile dir creator items res lock w = (res', err, lock', w') \<Longrightarrow>
     p \<notin> pathOf ` set items \<Longrightarrow> map_of (LockAssets lock') p = map_of (LockAssets lock) p"
proof (induction items arbitrary: res lock w)
  case (Cons item items)
  from Cons.prems(1) show ?case
    by (cases rule: Sync_Cons_cases) (use Cons in force)+
qed simp

lemma Sync_errors_grow:
  "Sync client ReadFile save onFile dir creator items res lock w = (res', err, lock', w') \<Longrightarrow>
     set (Errors res) \<subseteq> set (Errors res') \<and> fst ` set (Errors res') \<subseteq> fst ` set (Errors res) \<union> pathOf ` set items"
proof (induction items arbitrary: res lock w)
  case (Cons item items)
  from Cons.prems show ?case
  proof (cases rule: Sync_Cons_cases)
    case skip
    then show ?thesis using Cons.IH[OF skip(2)] by auto
  next
    case (fail e w1)
    then show ?thesis using Cons.IH[OF fail(3)] by auto
  next
    case (recorded aid w1 w2)
    then show ?thesis using Cons.IH[OF recorded(4)] by auto
  qed blast
qed simp

text \<open>The entry of a file after a run without a fatal error: a failed or unchanged file keeps its entry, any
  other has its hash recorded.\<close>

lemma Sync_entry:
  assumes "Sync client ReadFile save onFile dir creator items res lock w = (res', None, lock', w')"
    and "distinct (map pathOf items)" and "fst ` set (Errors res) \<inter> pathOf ` set items = {}" and "item \<in> set items"
  shows "if pathOf item \<in> fst ` set (Errors res') \<or> ItemAction item = ActionUnchanged
         then map_of (LockAssets lock') (pathOf item) = map_of (LockAssets lock) (pathOf item)
         else (\<exists>aid. map_of (LockAssets lock') (pathOf item) =
                 Some \<lparr>LockHash = FileHash (ItemFile item), LockAssetID = aid\<rparr>)"
  using assms
proof (induction items arbitrary: res lock w)
  case (Cons x items)
  have x: "pathOf x \<notin> pathOf ` set items" using Cons.prems(2) by simp
  have dst: "distinct (map pathOf items)" using Cons.prems(2) by simp
  have it: "item = x \<or> item \<in> set items \<and> pathOf item \<noteq> pathOf x" using Cons.prems(4) x by (auto simp: image_iff)
  from Cons.prems(1) show ?case
  proof (cases rule: Sync_Cons_cases)
    case skip
    then show ?thesis using Cons.IH[OF skip(2) dst] Sync_others[OF skip(2) x] Cons.prems(3) it by (elim disjE) simp_all
  next
    case (fail e w1)
    have "pathOf x \<in> fst ` set (Errors res')" using Sync_errors_grow[OF fail(3)] by force
    then show ?thesis using Cons.IH[OF fail(3) dst] Sync_others[OF fail(3) x] Cons.prems(3) it x by (elim disjE) simp_all
  next
    case (recorded aid w1 w2)
    have "pathOf x \<notin> fst ` set (Errors res')" using Sync_errors_grow[OF recorded(4)] Cons.prems(3) x by auto
    then show ?thesis using Cons.IH[OF recorded(4) dst] Sync_others[OF recorded(4) x] Cons.prems(3) recorded(1) it by (elim disjE) simp_all
  qed simp
qed simp

lemma Sync_tally:
  "Sync client ReadFile save onFile dir creator items res lock w = (res', None, lock', w') \<Longrightarrow>
     Created res' + Updated res' + length (Errors res') =
     Created res + Updated res + length (Errors res) + length (filter (\<lambda>it. ItemAction it \<noteq> ActionUnchanged) items)"
proof (induction items arbitrary: res lock w)
  case (Cons x items)
  from Cons.prems show ?case
  proof (cases rule: Sync_Cons_cases)
    case (recorded aid w1 w2)
    then show ?thesis using Cons.IH[OF recorded(4)] tally_countItem[of x res] by simp
  qed (use Cons.IH in fastforce)+
qed simp

lemma planFile_recorded:
  "map_of (LockAssets lock) (FilePath f) = Some \<lparr>LockHash = FileHash f, LockAssetID = aid\<rparr> \<Longrightarrow>
     ItemAction (planFile lock f) = ActionUnchanged"
  by (simp add: planFile_def)

lemma pathOf_planFiles [simp]: "map pathOf (map (planFile lock) fs) = map FilePath fs"
  by simp

lemma Sync_then_replan_parts:
  assumes run: "Sync client ReadFile save onFile dir creator (Items (BuildAssetPlan scan lock)) emptySync lock w = (res, None, lock', w')"
    and paths: "distinct (map FilePath (Files scan))"
  shows "\<forall>f \<in> set (Files scan).
           if FilePath f \<in> fst ` set (Errors res) then planFile lock' f = planFile lock f
           else ItemAction (planFile lock' f) = ActionUnchanged"
    and "\<forall>p. p \<notin> FilePath ` set (Files scan) \<longrightarrow> map_of (LockAssets lock') p = map_of (LockAssets lock) p"
    and "Created res + Updated res + length (Errors res) = Changes (BuildAssetPlan scan lock)"
proof -
  let ?items = "map (planFile lock) (Files scan)"
  have run': "Sync client ReadFile save onFile dir creator ?items emptySync lock w = (res, None, lock', w')"
    using run by (simp add: BuildAssetPlan_def)
  show "\<forall>f \<in> set (Files scan). if FilePath f \<in> fst ` set (Errors res) then planFile lock' f = planFile lock f
           else ItemAction (planFile lock' f) = ActionUnchanged"
  proof
    fix f assume f: "f \<in> set (Files scan)"
    have e: "if FilePath f \<in> fst ` set (Errors res) \<or> \<not> changing lock f
         then map_of (LockAssets lock') (FilePath f) = map_of (LockAssets lock) (FilePath f)
         else (\<exists>aid. map_of (LockAssets lock') (FilePath f) = Some \<lparr>LockHash = FileHash f, LockAssetID = aid\<rparr>)"
      using Sync_entry[OF run', of "planFile lock f", unfolded ItemFile_planFile] f paths by (simp add: emptySync_def o_def)
    then show "if FilePath f \<in> fst ` set (Errors res) then planFile lock' f = planFile lock f
           else ItemAction (planFile lock' f) = ActionUnchanged"
      using planFile_cong[of lock' f lock] planFile_recorded[of lock' f] by (auto split: if_splits)
  qed
  show "\<forall>p. p \<notin> FilePath ` set (Files scan) \<longrightarrow> map_of (LockAssets lock') p = map_of (LockAssets lock) p"
    using Sync_others[OF run'] by (auto simp: image_image)
  show "Created res + Updated res + length (Errors res) = Changes (BuildAssetPlan scan lock)"
    using Sync_tally[OF run'] by (simp add: Changes_alt BuildAssetPlan_def emptySync_def)
qed

text \<open>C26: When a run of \<open>Sync\<close> on the plan of a scan ends without a fatal error, planning the same scan again
  with the lock file it leaves proposes exactly the files the run reported as failed, each with the action and
  asset id it had before, and every other file is unchanged; entries of paths that are not part of the scan are
  as they were; and each change of the plan was counted once, as created, updated or failed.\<close>

theorem Sync_then_replan:
  assumes run: "Sync client ReadFile save onFile dir creator (Items (BuildAssetPlan scan lock)) emptySync lock w = (res, None, lock', w')"
    and paths: "distinct (map FilePath (Files scan))"
  shows "(\<forall>f \<in> set (Files scan). if FilePath f \<in> fst ` set (Errors res) then planFile lock' f = planFile lock f else ItemAction (planFile lock' f) = ActionUnchanged) \<and>
    (\<forall>p. p \<notin> FilePath ` set (Files scan) \<longrightarrow> map_of (LockAssets lock') p = map_of (LockAssets lock) p) \<and>
    (Created res + Updated res + length (Errors res) = Changes (BuildAssetPlan scan lock))"
  by (intro conjI; rule Sync_then_replan_parts[OF assms])

definition exampleCloud :: "'w Cloud" where
  "exampleCloud = \<lparr>CreateAsset = (\<lambda>req n d w. (Inr n, w)), UpdateAssetContent = (\<lambda>i n d w. (Inl ''rejected'', w)),
     PollOperation = (\<lambda>p w. (Inr 7, w)), ResolveImageID = (\<lambda>i w. (Inr (i + 1), w))\<rparr>"

definition exampleLock :: Lockfile where
  "exampleLock = \<lparr>LockVersion = 1, LockAssets = [(''b.ogg'', \<lparr>LockHash = ''old'', LockAssetID = 3\<rparr>)]\<rparr>"

definition exampleFiles :: ScanResult where
  "exampleFiles = \<lparr>Files = [\<lparr>FilePath = ''a.png'', FileAbs = ''/p/a.png'', FileType = ''Decal'', FileHash = ''h1''\<rparr>,
     \<lparr>FilePath = ''b.ogg'', FileAbs = ''/p/b.ogg'', FileType = ''Audio'', FileHash = ''h2''\<rparr>], Skipped = []\<rparr>"

lemmas example_defs = exampleCloud_def exampleLock_def exampleFiles_def

definition exampleSynced :: Lockfile where
  "exampleSynced = putAsset (planFile exampleLock (Files exampleFiles ! 0)) 8 exampleLock"

lemma exampleUploads:
  "uploadOne exampleCloud (\<lambda>p. Some p) ''/p'' (planFile exampleLock (Files exampleFiles ! 0)) c w = (Inr 8, w)"
  "uploadOne exampleCloud (\<lambda>p. Some p) ''/p'' (planFile exampleLock (Files exampleFiles ! 1)) c w = (Inl (CloudFailed ''rejected''), w)"
  by (simp_all add: uploadOne_def startUpload_def planFile_def example_defs Let_def TypeDecal_def)

lemma exampleRun:
  assumes "save exampleSynced w = (None, w')"
  shows "Sync exampleCloud (\<lambda>p. Some p) save (\<lambda>item i e w. w) ''/p'' c (Items (BuildAssetPlan exampleFiles exampleLock)) emptySync exampleLock w =
     (\<lparr>Created = 1, Updated = 0, Errors = [(''b.ogg'', CloudFailed ''rejected'')]\<rparr>, None, exampleSynced, w')"
proof -
  have "Items (BuildAssetPlan exampleFiles exampleLock) =
      [planFile exampleLock (Files exampleFiles ! 0), planFile exampleLock (Files exampleFiles ! 1)]"
    by (simp add: BuildAssetPlan_def exampleFiles_def)
  moreover have "ItemAction (planFile exampleLock (Files exampleFiles ! 0)) = ActionCreate"
    "ItemAction (planFile exampleLock (Files exampleFiles ! 1)) = ActionUpdate"
    by (simp_all add: planFile_def example_defs)
  moreover have "FilePath (Files exampleFiles ! 1) = ''b.ogg''" by (simp add: exampleFiles_def)
  ultimately show ?thesis
    using assms by (simp add: exampleUploads exampleUploads(2)[simplified] exampleSynced_def[symmetric] countItem_def emptySync_def Let_def)
qed

theorem Sync_then_replan_witness:
  "planFile exampleSynced (Files exampleFiles ! 1) = planFile exampleLock (Files exampleFiles ! 1)"
  using Sync_then_replan[OF exampleRun[of "\<lambda>l w. (None, l)"]] by (simp add: exampleFiles_def)

section \<open>What is on disk\<close>

text \<open>\<open>disk\<close> is what a later run would load. The cloud operations and the progress callback do not write
  it, and a save either stores what it is given or leaves the disk as it was.\<close>

definition keepsDisk :: "('w \<Rightarrow> 'd) \<Rightarrow> 'w Cloud \<Rightarrow> bool" where
  "keepsDisk disk client \<longleftrightarrow>
     (\<forall>req n d w. disk (snd (CreateAsset client req n d w)) = disk w) \<and>
     (\<forall>i n d w. disk (snd (UpdateAssetContent client i n d w)) = disk w) \<and>
     (\<forall>p w. disk (snd (PollOperation client p w)) = disk w) \<and>
     (\<forall>i w. disk (snd (ResolveImageID client i w)) = disk w)"

text \<open>Two lock files that are the same map: the order of an association list is not part of it.\<close>

definition sameLock :: "Lockfile \<Rightarrow> Lockfile \<Rightarrow> bool" where
  "sameLock l1 l2 \<longleftrightarrow> LockVersion l1 = LockVersion l2 \<and> map_of (LockAssets l1) = map_of (LockAssets l2)"

text \<open>The lock files a run may write: the version of the first one, and every entry is an old one or has the path
  and the hash of a scanned file.\<close>

definition lockOf :: "AssetFile list \<Rightarrow> Lockfile \<Rightarrow> Lockfile \<Rightarrow> bool" where
  "lockOf fs lock l \<longleftrightarrow> LockVersion l = LockVersion lock \<and>
     (\<forall>p e. map_of (LockAssets l) p = Some e \<longrightarrow>
        map_of (LockAssets lock) p = Some e \<or> (\<exists>f \<in> set fs. p = FilePath f \<and> LockHash e = FileHash f))"

text \<open>The decoder makes of every such lock file the same map that was encoded.\<close>

definition lockJSON :: "(Lockfile \<Rightarrow> string option) \<Rightarrow> (string \<Rightarrow> Lockfile option) \<Rightarrow> AssetFile list \<Rightarrow> Lockfile \<Rightarrow> bool" where
  "lockJSON MarshalIndent Unmarshal fs lock \<longleftrightarrow>
     (\<forall>l data. lockOf fs lock l \<longrightarrow> MarshalIndent l = Some data \<longrightarrow> (\<exists>l'. Unmarshal (data @ [LF]) = Some l' \<and> sameLock l' l))"

definition atomicSave :: "('w \<Rightarrow> 'e + Lockfile) \<Rightarrow> (Lockfile \<Rightarrow> bool) \<Rightarrow> (Lockfile \<Rightarrow> 'w \<Rightarrow> string option \<times> 'w) \<Rightarrow> bool" where
  "atomicSave disk fit save \<longleftrightarrow>
     (\<forall>lock w err w'. save lock w = (err, w') \<longrightarrow> fit lock \<longrightarrow>
        (if err = None then \<exists>l. disk w' = Inr l \<and> sameLock l lock else disk w' = disk w))"

lemma disk_cloudResult: "cloudResult r = (q, w) \<Longrightarrow> disk w = disk (snd r)"
  by (cases r rule: cloudResult.cases) auto

lemma disk_startUpload:
  assumes "keepsDisk disk client" and "startUpload client item creator data w = (r, w')"
  shows "disk w' = disk w"
  using assms by (auto simp: startUpload_def Let_def keepsDisk_def dest!: disk_cloudResult[of _ _ _ disk] split: Action.splits)

lemma disk_uploadOne:
  assumes keeps: "keepsDisk disk client" and up: "uploadOne client ReadFile dir item creator w = (r, w')"
  shows "disk w' = disk w"
proof (cases "ReadFile (PathJoin dir (pathOf item))")
  case (Some data)
  obtain q w1 where st: "startUpload client item creator data w = (q, w1)" by fastforce
  have d1: "disk w1 = disk w" by (rule disk_startUpload[OF keeps st])
  show ?thesis
  proof (cases q)
    case (Inr opPath)
    obtain pr w2 where po: "cloudResult (PollOperation client opPath w1) = (pr, w2)" by fastforce
    have d2: "disk w2 = disk w1" using disk_cloudResult[OF po, of disk] keeps by (simp add: keepsDisk_def)
    have img: "disk w3 = disk w2" if "cloudResult (ResolveImageID client i w2) = (x, w3)" for i x w3
      using disk_cloudResult[OF that, of disk] keeps by (simp add: keepsDisk_def)
    show ?thesis
      using up Some st Inr po d1 d2 img by (auto simp: uploadOne_def Let_def split: sum.splits if_splits)
  qed (use up Some st d1 in \<open>auto simp: uploadOne_def\<close>)
qed (use up in \<open>simp add: uploadOne_def\<close>)

lemma LockVersion_putAsset [simp]: "LockVersion (putAsset item aid lock) = LockVersion lock"
  by (simp add: putAsset_def)

lemma sameLock_refl [simp]: "sameLock l l"
  by (simp add: sameLock_def)

lemma sameLock_planFile: "sameLock l1 l2 \<Longrightarrow> planFile l1 f = planFile l2 f"
  by (simp add: sameLock_def planFile_def)

lemma lockOf_refl [simp]: "lockOf fs lock lock"
  by (simp add: lockOf_def)

lemma lockOf_putAsset: "lockOf fs lock l \<Longrightarrow> f \<in> set fs \<Longrightarrow> ItemFile item = f \<Longrightarrow> lockOf fs lock (putAsset item aid l)"
  by (auto simp: lockOf_def)

text \<open>What the disk says of the files \<open>fs\<close> after a run that began with \<open>lock\<close> on disk: a file plans as before, or
  it was a change and no longer is one. The counters count the latter, by their action, and the failed files are among
  the former.\<close>

definition resumable :: "AssetFile list \<Rightarrow> Lockfile \<Rightarrow> Lockfile \<Rightarrow> SyncResult \<Rightarrow> SyncResult \<Rightarrow> bool" where
  "resumable fs lock left res res' \<longleftrightarrow>
     (\<forall>f \<in> set fs. planFile left f = planFile lock f \<or> changing lock f \<and> \<not> changing left f \<and> FilePath f \<notin> fst ` set (Errors res')) \<and>
     Created res' = Created res + length (filter (\<lambda>f. ItemAction (planFile lock f) = ActionCreate \<and> \<not> changing left f) fs) \<and>
     Updated res' = Updated res + length (filter (\<lambda>f. ItemAction (planFile lock f) = ActionUpdate \<and> \<not> changing left f) fs) \<and>
     (\<forall>p. p \<notin> FilePath ` set fs \<longrightarrow> map_of (LockAssets left) p = map_of (LockAssets lock) p)"

lemma resumable_same:
  assumes "sameLock left lock"
  shows "resumable fs lock left res res"
proof -
  have "planFile left = planFile lock" using sameLock_planFile[OF assms] by blast
  then show ?thesis using assms by (auto simp: resumable_def sameLock_def filter_empty_conv)
qed

text \<open>One more file in front, which the rest of the run leaves alone.\<close>

lemma resumable_Cons_kept:
  assumes "resumable fs lock left res res'" "FilePath f \<notin> FilePath ` set fs"
  shows "resumable (f # fs) lock left res res'"
proof -
  have "map_of (LockAssets left) (FilePath f) = map_of (LockAssets lock) (FilePath f)"
    using assms unfolding resumable_def by blast
  then have "planFile left f = planFile lock f" by (rule planFile_cong)
  then show ?thesis using assms(1) by (simp add: resumable_def)
qed

lemma resumable_Cons_recorded:
  assumes "resumable fs (putAsset (planFile lock0 f) aid lock) left (countItem (planFile lock f) res) res'"
    and "FilePath f \<notin> FilePath ` set fs" "changing lock f" "FilePath f \<notin> fst ` set (Errors res')"
  shows "resumable (f # fs) lock left res res'"
proof -
  let ?l = "putAsset (planFile lock0 f) aid lock"
  have eq: "planFile ?l g = planFile lock g" if "g \<in> set fs" for g
    using that assms(2) by (intro planFile_putAsset_other) (metis ItemFile_planFile image_eqI)
  have "map_of (LockAssets left) (FilePath f) = map_of (LockAssets ?l) (FilePath f)"
    using assms(1,2) unfolding resumable_def by blast
  then have "planFile left f = planFile ?l f" by (rule planFile_cong)
  then have un: "ItemAction (planFile left f) = ActionUnchanged" by (simp add: planFile_putAsset_same)
  have "filter (\<lambda>g. ItemAction (planFile ?l g) = a \<and> P g) fs = filter (\<lambda>g. ItemAction (planFile lock g) = a \<and> P g) fs" for a P
    using eq by (intro filter_cong) simp_all
  then show ?thesis using assms un eq
    by (cases "ItemAction (planFile lock f)") (auto simp: resumable_def countItem_def)
qed

lemma Sync_disk:
  assumes "keepsDisk disk client" and "atomicSave disk (lockOf fs0 lock0) save" and "\<forall>item i e w. disk (onFile item i e w) = disk w"
    and "Sync client ReadFile save onFile dir creator (map (planFile lock0) fs) res lock w = (res', err, lock', w')"
    and "distinct (map FilePath fs)" and "disk w = Inr d" and "sameLock d lock" and "lockOf fs0 lock0 lock" and "set fs \<subseteq> set fs0"
    and "\<forall>f \<in> set fs. map_of (LockAssets lock) (FilePath f) = map_of (LockAssets lock0) (FilePath f)"
    and "fst ` set (Errors res) \<inter> FilePath ` set fs = {}"
  shows "\<exists>left. disk w' = Inr left \<and> resumable fs lock left res res' \<and> (err = None \<longrightarrow> sameLock left lock')"
  using assms(4-)
proof (induction fs arbitrary: res lock w d)
  case Nil
  then show ?case using resumable_same[of d lock "[]" res] by auto
next
  case (Cons f fs)
  have f: "FilePath f \<notin> FilePath ` set fs" and dst: "distinct (map FilePath fs)" using Cons.prems(2) by auto
  have same: "planFile lock f = planFile lock0 f" by (rule planFile_cong) (use Cons.prems(7) in simp)
  have agree: "\<forall>g\<in>set fs. map_of (LockAssets lock) (FilePath g) = map_of (LockAssets lock0) (FilePath g)"
    and sub: "set fs \<subseteq> set fs0" "f \<in> set fs0" using Cons.prems(6,7) by simp_all
  have fit: "lockOf fs0 lock0 (putAsset (planFile lock0 f) aid lock)" for aid
    by (rule lockOf_putAsset[OF Cons.prems(5) sub(2)]) simp
  from Cons.prems(1)[unfolded list.map] show ?case
  proof (cases rule: Sync_Cons_cases)
    case skip
    from Cons.IH[OF skip(2) dst Cons.prems(3-5) sub(1) agree] Cons.prems(8) obtain left where
      "disk w' = Inr left" "resumable fs lock left res res'" "err = None \<longrightarrow> sameLock left lock'" by auto
    then show ?thesis using resumable_Cons_kept f by blast
  next
    case (fail e w1)
    have "disk (onFile (planFile lock0 f) 0 (Some e) w1) = Inr d"
      using assms(3) disk_uploadOne[OF assms(1) fail(2)] Cons.prems(3) by simp
    from Cons.IH[OF fail(3) dst this Cons.prems(4,5) sub(1) agree] Cons.prems(8) f obtain left where
      "disk w' = Inr left" "resumable fs lock left (res\<lparr>Errors := Errors res @ [(FilePath f, e)]\<rparr>) res'" "err = None \<longrightarrow> sameLock left lock'"
      by auto
    moreover from this have "resumable fs lock left res res'" by (simp add: resumable_def)
    ultimately show ?thesis using resumable_Cons_kept f by blast
  next
    case (fatal aid w1 er)
    have "disk w1 = Inr d" using disk_uploadOne[OF assms(1) fatal(2)] Cons.prems(3) by simp
    moreover have "disk w' = disk w1" using assms(2) fatal(3) fit[of aid] unfolding atomicSave_def by (metis option.distinct(1))
    ultimately show ?thesis using fatal resumable_same[OF Cons.prems(4)] by simp
  next
    case (recorded aid w1 w2)
    let ?l = "putAsset (planFile lock0 f) aid lock"
    obtain d2 where "disk w2 = Inr d2" and d2: "sameLock d2 ?l"
      using assms(2) recorded(3) fit[of aid] unfolding atomicSave_def by (metis (full_types))
    then have d: "disk (onFile (planFile lock0 f) aid None w2) = Inr d2" using assms(3) by simp
    have "\<forall>g\<in>set fs. map_of (LockAssets ?l) (FilePath g) = map_of (LockAssets lock0) (FilePath g)"
      using agree f by (auto simp: image_iff)
    from Cons.IH[OF recorded(4) dst d d2 fit sub(1) this] Cons.prems(8) obtain left where left:
      "disk w' = Inr left" "resumable fs ?l left (countItem (planFile lock0 f) res) res'" "err = None \<longrightarrow> sameLock left lock'"
      by auto
    have "FilePath f \<notin> fst ` set (Errors res')"
      using Sync_errors_grow[OF recorded(4)] Cons.prems(8) f by (auto simp: image_image)
    then have "resumable (f # fs) lock left res res'"
      using resumable_Cons_recorded[of fs lock0 f aid lock left res res'] left(2) f recorded(1) same by simp
    then show ?thesis using left by blast
  qed
qed

lemma atomicSave_Save:
  assumes "posixFiles files os" and "IsAbs dir" and json: "lockJSON MarshalIndent Unmarshal fs lock" and "LockVersion lock \<noteq> 0"
  shows "atomicSave (LoadLockfile (readFiles files) Unmarshal dir) (lockOf fs lock) (Save os MarshalIndent dir)"
  unfolding atomicSave_def
proof (intro allI impI)
  fix l w err w' assume sv: "Save os MarshalIndent dir l w = (err, w')" and fit: "lockOf fs lock l"
  show "if err = None then \<exists>l'. LoadLockfile (readFiles files) Unmarshal dir w' = Inr l' \<and> sameLock l' l
        else LoadLockfile (readFiles files) Unmarshal dir w' = LoadLockfile (readFiles files) Unmarshal dir w"
  proof (cases "MarshalIndent l")
    case None
    then have "err \<noteq> None" "w' = w" using sv by (auto simp: Save_def)
    then show ?thesis by auto
  next
    case (Some data)
    obtain l' where l': "Unmarshal (data @ [LF]) = Some l'" "sameLock l' l" using json fit Some unfolding lockJSON_def by blast
    then have "LockVersion l' \<noteq> 0" using fit assms(4) by (simp add: sameLock_def lockOf_def)
    then show ?thesis using Save_Load(1)[OF assms(1,2) sv, of Unmarshal l'] Some l' by auto
  qed
qed

lemma LoadLockfile_files: "files w = files w' \<Longrightarrow> LoadLockfile (readFiles files) Unmarshal dir w = LoadLockfile (readFiles files) Unmarshal dir w'"
  by (simp add: LoadLockfile_def readFiles_def)

lemma LoadLockfile_version: "LoadLockfile R U dir w = Inr lock \<Longrightarrow> LockVersion lock \<noteq> 0"
  by (auto simp: LoadLockfile_def NewLockfile_def split: readResult.splits option.splits if_splits)

text \<open>C18: However a synchronisation of a scan ends, with every upload done, with failed files or with a lock file that
  could not be written, the lock file on disk is fit to resume from: it loads; planned with it, every scanned file
  has the action and asset id it had before the run, or it was a create or update and is now unchanged; the files of the
  second sort number exactly the creates and updates the run counted, and no file reported as failed is among them; the
  entries of all the paths that are not part of the scan are the old ones; and after a run without a fatal error it is the
  same map as the lock file of the run. The operating system behaves as documented, the
  JSON decoder makes the same map of an encoded lock file, in whatever order, and the cloud client and the progress
  callback write no files.\<close>

theorem Sync_resumes:
  assumes os: "posixFiles files os" and dir: "IsAbs dir"
    and json: "lockJSON MarshalIndent Unmarshal (Files scan) lock"
    and keeps: "keepsDisk files client" "\<forall>item i e w. files (onFile item i e w) = files w"
    and paths: "distinct (map FilePath (Files scan))"
    and load: "LoadLockfile (readFiles files) Unmarshal dir w = Inr lock"
    and run: "Sync client ReadFile (Save os MarshalIndent dir) onFile dir creator (Items (BuildAssetPlan scan lock)) emptySync lock w
        = (res, err, lock', w')"
  shows "\<exists>left. LoadLockfile (readFiles files) Unmarshal dir w' = Inr left \<and>
       (\<forall>f \<in> set (Files scan). planFile left f = planFile lock f \<or>
          changing lock f \<and> \<not> changing left f \<and> FilePath f \<notin> fst ` set (Errors res)) \<and>
       Created res = length (filter (\<lambda>f. ItemAction (planFile lock f) = ActionCreate \<and> \<not> changing left f) (Files scan)) \<and>
       Updated res = length (filter (\<lambda>f. ItemAction (planFile lock f) = ActionUpdate \<and> \<not> changing left f) (Files scan)) \<and>
       (\<forall>p. p \<notin> FilePath ` set (Files scan) \<longrightarrow> map_of (LockAssets left) p = map_of (LockAssets lock) p) \<and>
       (err = None \<longrightarrow> sameLock left lock')"
proof -
  let ?disk = "LoadLockfile (readFiles files) Unmarshal dir"
  have "keepsDisk ?disk client" using keeps(1) unfolding keepsDisk_def by (metis LoadLockfile_files)
  moreover have "\<forall>item i e w. ?disk (onFile item i e w) = ?disk w" using keeps(2) by (metis LoadLockfile_files)
  ultimately have "\<exists>left. ?disk w' = Inr left \<and> resumable (Files scan) lock left emptySync res \<and> (err = None \<longrightarrow> sameLock left lock')"
    using Sync_disk[OF _ atomicSave_Save[OF os dir json LoadLockfile_version[OF load]] _ _ paths load] run
    by (simp add: BuildAssetPlan_def emptySync_def)
  then show ?thesis by (simp add: resumable_def emptySync_def)
qed

definition exampleSorted :: Lockfile where
  "exampleSorted = exampleSynced\<lparr>LockAssets := rev (LockAssets exampleSynced)\<rparr>"

lemma exampleSorted_same: "sameLock exampleSorted exampleSynced" "exampleSorted \<noteq> exampleSynced"
  by (auto simp: sameLock_def exampleSorted_def exampleSynced_def putAsset_def planFile_def example_defs)

theorem Sync_resumes_witness:
  "\<exists>left. LoadLockfile (readFiles id) (\<lambda>d. Some (if d = ''0'' then exampleLock else exampleSorted)) ''/p''
       [''/p/rotor-lock.json'' \<mapsto> ''1'' @ [LF]] = Inr left \<and> sameLock left exampleSynced \<and>
     1 = length (filter (\<lambda>f. ItemAction (planFile exampleLock f) = ActionCreate \<and> \<not> changing left f) (Files exampleFiles))"
proof -
  let ?U = "\<lambda>d. Some (if d = ''0'' then exampleLock else exampleSorted)"
  let ?M = "\<lambda>l. if l = exampleSynced then Some ''1'' else None"
  let ?w = "[''/p/rotor-lock.json'' \<mapsto> ''0'']"
  have "Save memOps ?M ''/p'' exampleSynced ?w = (None, [''/p/rotor-lock.json'' \<mapsto> ''1'' @ [LF]])"
    using memSave[of ?M exampleSynced "''1''" ?w] by simp
  note run = exampleRun[where save = "Save memOps ?M ''/p''", OF this]
  have "PathJoin ''/p'' LockfileName = ''/p/rotor-lock.json''" by code_simp
  then have "LoadLockfile (readFiles id) ?U ''/p'' ?w = Inr exampleLock"
    by (simp add: LoadLockfile_def readFiles_def exampleLock_def)
  moreover have "keepsDisk (id :: (string \<Rightarrow> string option) \<Rightarrow> _) exampleCloud" by (simp add: keepsDisk_def exampleCloud_def)
  moreover have "distinct (map FilePath (Files exampleFiles))" by (simp add: exampleFiles_def)
  moreover have "lockJSON ?M ?U (Files exampleFiles) exampleLock"
    using exampleSorted_same(1) by (auto simp: lockJSON_def split: if_splits)
  moreover have "IsAbs ''/p''" by (simp add: IsAbs_def HasPrefix_def)
  ultimately show ?thesis
    using Sync_resumes[OF posix_memOps _ _ _ _ _ _ run, of ?U] by fastforce
qed
end
