(* ===== verification/Asset_Resolve.thy ===== *)
theory Asset_Resolve
  imports Asset_Sync
begin

text \<open>
  The resolver behind the macro \<open>$asset\<close> (\<open>src/internal/assetresolve/assetresolve.go\<close>): paths to asset ids through
  the lock file, with an upload when there is no entry. \<open>Resolve\<close> holds the mutex while it reads and changes the
  resolver, so that the calls of parallel compilations are a sequence of calls here. The files do not
  change during a pass; they are the record \<open>assetFiles\<close>.
\<close>

section \<open>The resolver\<close>

record assetFiles =
  RegularFile :: "string \<Rightarrow> bool"
  HashOf :: "string \<Rightarrow> string option"
  ReadOf :: "string \<Rightarrow> string option"

record 'w Resolver =
  resDir :: string
  resBase :: string
  resCreator :: AssetCreator
  resClient :: "'w Cloud option"
  hasCreator :: bool
  resLock :: Lockfile
  byPath :: "(string \<times> string) list"
  added :: "string list"

definition trimSlashesBoth :: "string \<Rightarrow> string" where
  "trimSlashesBoth p = trimSlashes (dropWhile (\<lambda>c. c = CHR ''/'') p)"

definition NewResolver :: "(string \<Rightarrow> string option) \<Rightarrow> string \<Rightarrow> string \<Rightarrow> Lockfile option \<Rightarrow> 'w Cloud option \<Rightarrow> AssetCreator \<Rightarrow> 'w Resolver" where
  "NewResolver Abs dir b lock client c =
     \<lparr>resDir = (case Abs dir of None \<Rightarrow> dir | Some d \<Rightarrow> d), resBase = trimSlashesBoth b, resCreator = c, resClient = client,
      hasCreator = (UserID c \<noteq> 0 \<or> GroupID c \<noteq> 0), resLock = (case lock of None \<Rightarrow> NewLockfile | Some l \<Rightarrow> l), byPath = [], added = []\<rparr>"

datatype resolveError = AssetFileNotFound string | AssetHashFailed string | AssetNotCached string | AssetUploadFailed uploadError

definition PathJoin3 :: "string \<Rightarrow> string \<Rightarrow> string \<Rightarrow> string" where
  "PathJoin3 a b c = (case dropWhile (\<lambda>e. e = []) [a, b, c] of [] \<Rightarrow> [] | es \<Rightarrow> Clean (Join es ''/''))"

definition resolveAssetPath :: "'w Resolver \<Rightarrow> string \<Rightarrow> string \<Rightarrow> resolveError + string" where
  "resolveAssetPath r importerPath path =
     (let p = TrimSpace path in
      if p = [] then Inl (AssetFileNotFound ''(empty path)'')
      else if HasPrefix p ''./'' \<or> HasPrefix p ''../'' then
        (let b = (if importerPath \<noteq> [] then Dir importerPath else resDir r) in Inr (PathJoin b p))
      else Inr (PathJoin3 (resDir r) (resBase r) p))"

definition lockfileKey :: "'w Resolver \<Rightarrow> string \<Rightarrow> string" where
  "lockfileKey r absPath =
     (case Rel (resDir r) absPath of
        None \<Rightarrow> absPath
      | Some rel \<Rightarrow> if HasPrefix rel ''../'' \<or> rel = ''..'' then absPath else rel)"

definition assetIDString :: "int \<Rightarrow> string" where
  "assetIDString i = FormatInt i"

definition recordUpload :: "string \<Rightarrow> string \<Rightarrow> string \<Rightarrow> int \<Rightarrow> 'w Resolver \<Rightarrow> 'w Resolver" where
  "recordUpload absPath relKey h aid r =
     r\<lparr>resLock := (resLock r)\<lparr>LockAssets := AList.update relKey \<lparr>LockHash = h, LockAssetID = aid\<rparr> (LockAssets (resLock r))\<rparr>,
       added := List.insert relKey (added r), byPath := AList.update absPath (assetIDString aid) (byPath r)\<rparr>"

definition resolveMiss :: "(string \<Rightarrow> string) \<Rightarrow> assetFiles \<Rightarrow> string \<Rightarrow> string \<Rightarrow> string \<Rightarrow> 'w Resolver \<Rightarrow> 'w \<Rightarrow> (resolveError + string) \<times> 'w Resolver \<times> 'w" where
  "resolveMiss lower fs path absPath h r w =
     (case resClient r of
        None \<Rightarrow> (Inl (AssetNotCached path), r, w)
      | Some client \<Rightarrow>
          if \<not> hasCreator r then (Inl (AssetNotCached path), r, w)
          else (case UploadFile lower client (ReadOf fs) absPath (resCreator r) w of
              (Inl e, w) \<Rightarrow> (Inl (AssetUploadFailed e), r, w)
            | (Inr aid, w) \<Rightarrow> (Inr (assetIDString aid), recordUpload absPath (lockfileKey r absPath) h aid r, w)))"

definition Resolve :: "(string \<Rightarrow> string) \<Rightarrow> assetFiles \<Rightarrow> string \<Rightarrow> string \<Rightarrow> 'w Resolver \<Rightarrow> 'w \<Rightarrow> (resolveError + string) \<times> 'w Resolver \<times> 'w" where
  "Resolve lower fs importerPath path r w =
     (case resolveAssetPath r importerPath path of
        Inl e \<Rightarrow> (Inl e, r, w)
      | Inr absPath \<Rightarrow>
          if \<not> RegularFile fs absPath then (Inl (AssetFileNotFound path), r, w)
          else (case map_of (byPath r) absPath of
              Some i \<Rightarrow> (Inr i, r, w)
            | None \<Rightarrow>
                (case HashOf fs absPath of
                   None \<Rightarrow> (Inl (AssetHashFailed absPath), r, w)
                 | Some h \<Rightarrow>
                     (case map_of (LockAssets (resLock r)) (lockfileKey r absPath) of
                        Some entry \<Rightarrow>
                          (if LockHash entry = h
                           then (let i = assetIDString (LockAssetID entry) in (Inr i, r\<lparr>byPath := AList.update absPath i (byPath r)\<rparr>, w))
                           else resolveMiss lower fs path absPath h r w)
                      | None \<Rightarrow> resolveMiss lower fs path absPath h r w))))"


definition Entries :: "'w Resolver \<Rightarrow> string list" where
  "Entries r = added r"

text \<open>A compilation: the references of its files in turn.\<close>

fun resolveAll :: "(string \<Rightarrow> string) \<Rightarrow> assetFiles \<Rightarrow> (string \<times> string) list \<Rightarrow> 'w Resolver \<Rightarrow> 'w \<Rightarrow> (resolveError + string) list \<times> 'w Resolver \<times> 'w" where
  "resolveAll lower fs [] r w = ([], r, w)"
| "resolveAll lower fs ((importerPath, path) # calls) r w =
     (case Resolve lower fs importerPath path r w of (out, r, w) \<Rightarrow>
      case resolveAll lower fs calls r w of (outs, r, w) \<Rightarrow> (out # outs, r, w))"

section \<open>Keys\<close>







section \<open>Paths\<close>




section \<open>A pass\<close>




lemma resolveAssetPath_cong: "resDir r = resDir r' \<Longrightarrow> resBase r = resBase r' \<Longrightarrow> resolveAssetPath r imp path = resolveAssetPath r' imp path"
  by (simp add: resolveAssetPath_def Let_def)


lemma resolveMiss_cases [consumes 1, case_names offline failed uploaded]:
  assumes "resolveMiss lower fs path p h r w = (out, r', w')"
  obtains e where "out = Inl e" "r' = r" "w' = w" | e where "resClient r \<noteq> None" "out = Inl e" "r' = r"
  | aid where "resClient r \<noteq> None" "out = Inr (assetIDString aid)" "r' = recordUpload p (lockfileKey r p) h aid r"
  using assms by (auto simp: resolveMiss_def split: option.splits if_splits prod.splits sum.splits)

lemma Resolve_cases [consumes 1, case_names failed tried known hit uploaded]:
  assumes "Resolve lower fs imp path r w = (out, r', w')"
  obtains e where "out = Inl e" "r' = r" "w' = w"
  | e where "resClient r \<noteq> None" "out = Inl e" "r' = r"
  | p i where "resolveAssetPath r imp path = Inr p" "RegularFile fs p" "map_of (byPath r) p = Some i" "out = Inr i" "r' = r" "w' = w"
  | p e where "resolveAssetPath r imp path = Inr p" "RegularFile fs p" "map_of (byPath r) p = None" "HashOf fs p = Some (LockHash e)"
      "map_of (LockAssets (resLock r)) (lockfileKey r p) = Some e" "out = Inr (assetIDString (LockAssetID e))"
      "r' = r\<lparr>byPath := AList.update p (assetIDString (LockAssetID e)) (byPath r)\<rparr>" "w' = w"
  | p h aid where "resolveAssetPath r imp path = Inr p" "RegularFile fs p" "map_of (byPath r) p = None" "HashOf fs p = Some h"
      "resClient r \<noteq> None" "out = Inr (assetIDString aid)" "r' = recordUpload p (lockfileKey r p) h aid r"
proof (cases "resolveAssetPath r imp path")
  case (Inl e)
  then show ?thesis using that(1)[of e] assms by (auto simp: Resolve_def)
next
  case (Inr p)
  show ?thesis
  proof (cases "RegularFile fs p")
    case False
    then have "out = Inl (AssetFileNotFound path)" "r' = r" "w' = w" using Inr assms by (auto simp: Resolve_def)
    then show ?thesis by (rule that(1))
  next
    case True
    note reg = True
    consider (none) "map_of (byPath r) p = None" "HashOf fs p = None" | (mem) i where "map_of (byPath r) p = Some i"
      | (go) h where "map_of (byPath r) p = None" "HashOf fs p = Some h" by (metis option.exhaust)
    then show ?thesis
    proof cases
      case none
      then have "out = Inl (AssetHashFailed p)" "r' = r" "w' = w" using Inr reg assms by (auto simp: Resolve_def)
      then show ?thesis by (rule that(1))
    next
      case (mem i)
      then have "out = Inr i" "r' = r" "w' = w" using Inr reg assms by (auto simp: Resolve_def)
      then show ?thesis using that(3)[OF Inr reg mem] by simp
    next
      case (go h)
      note p = reg go
      show ?thesis
      proof (cases "\<exists>e. map_of (LockAssets (resLock r)) (lockfileKey r p) = Some e \<and> LockHash e = h")
        case True
        then obtain e where "map_of (LockAssets (resLock r)) (lockfileKey r p) = Some e" "LockHash e = h" by blast
        then show ?thesis using that(4)[OF Inr p(1,2), of e] assms Inr p by (auto simp: Resolve_def Let_def)
      next
        case False
        then have "resolveMiss lower fs path p h r w = (out, r', w')"
          using assms Inr p by (auto simp: Resolve_def Let_def split: option.splits if_splits)
        then show ?thesis by (cases rule: resolveMiss_cases) (use that Inr p in blast)+
      qed
    qed
  qed
qed

text \<open>One call keeps the invariant, the memory and the directories, and what it answers is remembered.\<close>

lemma Resolve_frame:
  assumes "Resolve lower fs imp path r w = (out, r', w')"
  shows "resDir r' = resDir r \<and> resBase r' = resBase r \<and> resClient r' = resClient r \<and>
     (\<forall>p i. map_of (byPath r) p = Some i \<longrightarrow> map_of (byPath r') p = Some i) \<and>
     (\<forall>k. k \<notin> set (added r') \<longrightarrow> k \<notin> set (added r) \<and> map_of (LockAssets (resLock r')) k = map_of (LockAssets (resLock r)) k)"
  using assms by (cases rule: Resolve_cases) (auto simp: recordUpload_def update_conv')

lemma Resolve_answer:
  assumes "Resolve lower fs imp path r w = (Inr i, r', w')"
  shows "\<exists>p. resolveAssetPath r imp path = Inr p \<and> RegularFile fs p \<and> map_of (byPath r') p = Some i"
  using assms by (cases rule: Resolve_cases) (auto simp: recordUpload_def update_conv')




text \<open>A pass.\<close>

lemma resolveAll_Cons:
  assumes "resolveAll lower fs ((imp, path) # calls) r w = (outs, r2, w2)"
  obtains out outs' r1 w1 where "Resolve lower fs imp path r w = (out, r1, w1)" "resolveAll lower fs calls r1 w1 = (outs', r2, w2)" "outs = out # outs'"
  using assms by (auto split: prod.splits)

lemma resolveAll_frame:
  "resolveAll lower fs calls r w = (outs, r', w') \<Longrightarrow> length outs = length calls \<and> resDir r' = resDir r \<and> resBase r' = resBase r \<and>
     (\<forall>p i. map_of (byPath r) p = Some i \<longrightarrow> map_of (byPath r') p = Some i) \<and>
     (\<forall>k. k \<notin> set (added r') \<longrightarrow> k \<notin> set (added r) \<and> map_of (LockAssets (resLock r')) k = map_of (LockAssets (resLock r)) k)"
proof (induction calls arbitrary: r w outs)
  case (Cons c calls)
  obtain imp path where c: "c = (imp, path)" by fastforce
  from Cons.prems[unfolded c] show ?case
  proof (cases rule: resolveAll_Cons)
    case (1 out outs' r1 w1)
    then show ?thesis using Cons.IH[OF 1(2)] Resolve_frame[OF 1(1)] by simp
  qed
qed simp


lemma resolveAll_answer:
  "resolveAll lower fs calls r w = (outs, r', w') \<Longrightarrow> j < length calls \<Longrightarrow> outs ! j = Inr i \<Longrightarrow>
     \<exists>p. resolveAssetPath r (fst (calls ! j)) (snd (calls ! j)) = Inr p \<and> RegularFile fs p \<and> map_of (byPath r') p = Some i"
proof (induction calls arbitrary: r w outs j)
  case (Cons c calls)
  obtain imp path where c: "c = (imp, path)" by fastforce
  from Cons.prems(1)[unfolded c] show ?case
  proof (cases rule: resolveAll_Cons)
    case (1 out outs' r1 w1)
    note fr = Resolve_frame[OF 1(1)] resolveAll_frame[OF 1(2)]
    show ?thesis
    proof (cases j)
      case 0
      then show ?thesis using Resolve_answer[of lower fs imp path r w i r1 w1] 1 Cons.prems(3) c fr by auto
    next
      case (Suc k)
      then show ?thesis using Cons.IH[OF 1(2), of k] Cons.prems(2,3) 1(3) fr resolveAssetPath_cong[of r1 r] by auto
    qed
  qed
qed simp

section \<open>Rebuilding offline\<close>







lemma Resolve_consistent_parts:
  assumes run: "resolveAll lower fs calls (NewResolver Abs dir b (Some lock) client creator) w = (outs, r, w')"
    and same: "j < length calls" "k < length calls"
      "resolveAssetPath r (fst (calls ! j)) (snd (calls ! j)) = resolveAssetPath r (fst (calls ! k)) (snd (calls ! k))"
      "outs ! j = Inr x" "outs ! k = Inr y"
  shows "x = y" and "\<forall>key. key \<notin> set (Entries r) \<longrightarrow> map_of (LockAssets (resLock r)) key = map_of (LockAssets lock) key"
proof -
  let ?n = "NewResolver Abs dir b (Some lock) client creator"
  note fr = resolveAll_frame[OF run]
  show "x = y"
    using resolveAll_answer[OF run same(1,4)] resolveAll_answer[OF run same(2,5)] same(3) resolveAssetPath_cong[of ?n r] fr by auto
  show "\<forall>key. key \<notin> set (Entries r) \<longrightarrow> map_of (LockAssets (resLock r)) key = map_of (LockAssets lock) key"
    using fr by (simp add: Entries_def NewResolver_def)
qed

text \<open>A pass answers a reference the same way as any earlier or later reference to the same file that was
  answered, and the lock file keeps the entries of all keys that \<open>Entries\<close> does not report; so a resolver that
  is not dirty has the lock file it began with.\<close>

theorem Resolve_consistent:
  assumes run: "resolveAll lower fs calls (NewResolver Abs dir b (Some lock) client creator) w = (outs, r, w')"
    and same: "j < length calls" "k < length calls"
      "resolveAssetPath r (fst (calls ! j)) (snd (calls ! j)) = resolveAssetPath r (fst (calls ! k)) (snd (calls ! k))"
      "outs ! j = Inr x" "outs ! k = Inr y"
  shows "(x = y) \<and>
    (\<forall>key. key \<notin> set (Entries r) \<longrightarrow> map_of (LockAssets (resLock r)) key = map_of (LockAssets lock) key)"
  by (intro conjI; rule Resolve_consistent_parts[OF assms])

text \<open>Two references to one file: the first is uploaded, the second remembered.\<close>

definition exampleAssets :: assetFiles where
  "exampleAssets = \<lparr>RegularFile = (\<lambda>p. p = ''/p/a.ogg''), HashOf = (\<lambda>p. Some ''h''), ReadOf = (\<lambda>p. Some ''data'')\<rparr>"

definition exampleCalls :: "(string \<times> string) list" where
  "exampleCalls = [(''/p/src/x.ts'', ''../a.ogg''), ([], ''a.ogg''), ([], ''b.ogg'')]"

abbreviation exampleResolver :: "Lockfile \<Rightarrow> unit Cloud option \<Rightarrow> unit Resolver" where
  "exampleResolver lock client \<equiv> NewResolver Some ''/p'' [] (Some lock) client \<lparr>UserID = 1, GroupID = 0\<rparr>"

lemma examplePass:
  "case resolveAll id exampleAssets exampleCalls (exampleResolver NewLockfile (Some exampleCloud)) () of (outs, r, w) \<Rightarrow>
     outs = [Inr ''7'', Inr ''7'', Inl (AssetFileNotFound ''b.ogg'')] \<and>
     resolveAssetPath r ''/p/src/x.ts'' ''../a.ogg'' = Inr ''/p/a.ogg'' \<and> resolveAssetPath r [] ''a.ogg'' = Inr ''/p/a.ogg'' \<and>
     resLock r = \<lparr>LockVersion = 1, LockAssets = [(''a.ogg'', \<lparr>LockHash = ''h'', LockAssetID = 7\<rparr>)]\<rparr>"
  by code_simp


theorem Resolve_consistent_witness:
  "\<exists>outs r w. resolveAll id exampleAssets exampleCalls (exampleResolver NewLockfile (Some exampleCloud)) () = (outs, r, w) \<and>
     outs ! 0 = outs ! 1 \<and> map_of (LockAssets (resLock r)) ''other'' = None"
proof -
  obtain outs r w where run: "resolveAll id exampleAssets exampleCalls (exampleResolver NewLockfile (Some exampleCloud)) () = (outs, r, w)"
    by (metis prod_cases3)
  then have o: "outs ! 0 = Inr ''7''" "outs ! 1 = Inr ''7''" "resolveAssetPath r ''/p/src/x.ts'' ''../a.ogg'' = resolveAssetPath r [] ''a.ogg''"
    "map_of (LockAssets (resLock r)) ''other'' = None" using examplePass by auto
  have "(''7'' :: string) = ''7''" by (rule Resolve_consistent[OF run, of 0 1, THEN conjunct1]) (use o in \<open>simp_all add: exampleCalls_def\<close>)
  then show ?thesis using run o by auto
qed

end
