(* ===== verification/Deploy_Providers.thy ===== *)
theory Deploy_Providers
  imports Deploy_Config "HOL-Library.Sublist"
begin

text \<open>
  The providers of the resource kinds (\<open>src/internal/deploy/providers.go\<close>, \<open>deploy.go\<close>): what a create, update or delete
  asks of the Open Cloud API and which outputs it records.

  The Go interface \<open>CloudClient\<close> is a datatype of its requests with a function that answers them, and \<open>CreateAsset\<close>,
  which answers with the path of an operation. Answers of which the code keeps nothing are any number.
  Reading files and the JSON round trip of \<open>decodeInputs\<close> for inputs of another type are arguments.
\<close>

section \<open>Values of outputs\<close>

text \<open>What a state holds as outputs: integers as they are made, and after the state was reloaded from JSON
  as floating-point numbers (given by their integer part) or \<open>json.Number\<close> (given by what \<open>Int64\<close> makes of
  it), and lists of them.\<close>

datatype outValue =
  VInt64 int | VInt int | VFloat64 int | VNumber "int option" | VOther
  | VInt64s "int list" | VList "outValue list"

fun OutputInt64 :: "outValue \<Rightarrow> int option" where
  "OutputInt64 (VInt64 n) = Some n"
| "OutputInt64 (VInt n) = Some n"
| "OutputInt64 (VFloat64 n) = Some n"
| "OutputInt64 (VNumber n) = n"
| "OutputInt64 _ = None"

fun outputElements :: "outValue list \<Rightarrow> int list option" where
  "outputElements [] = Some []"
| "outputElements (v # vs) =
     (case OutputInt64 v of None \<Rightarrow> None | Some n \<Rightarrow> (case outputElements vs of None \<Rightarrow> None | Some ns \<Rightarrow> Some (n # ns)))"

fun OutputInt64Slice :: "outValue \<Rightarrow> int list option" where
  "OutputInt64Slice (VInt64s ns) = Some ns"
| "OutputInt64Slice (VList vs) = outputElements vs"
| "OutputInt64Slice _ = None"

definition priorOutput :: "outValue StateEntry option \<Rightarrow> string \<Rightarrow> outValue option" where
  "priorOutput prior key = (case prior of None \<Rightarrow> None | Some e \<Rightarrow> (case Outputs e of None \<Rightarrow> None | Some out \<Rightarrow> out key))"

definition priorInt64 :: "outValue StateEntry option \<Rightarrow> string \<Rightarrow> int option" where
  "priorInt64 prior key = (case priorOutput prior key of None \<Rightarrow> None | Some v \<Rightarrow> OutputInt64 v)"

definition priorThumbnailIDs :: "outValue StateEntry option \<Rightarrow> int list" where
  "priorThumbnailIDs prior = (case priorOutput prior ''thumbnailIds'' of None \<Rightarrow> []
     | Some v \<Rightarrow> (case OutputInt64Slice v of None \<Rightarrow> [] | Some ns \<Rightarrow> ns))"

section \<open>Requests\<close>

record Universe =
  uDisplayName :: string
  uDescription :: string
  uVisibility :: string
  uPrivateServerPriceRobux :: int

record Place =
  plDisplayName :: string
  plDescription :: string
  plServerSize :: int

datatype request =
  UpdateUniverse int Universe "string list"
  | UpdatePlace int int Place "string list"
  | PublishPlaceVersion int int string string
  | CreateBadge int string string
  | UpdateBadge int string string "bool option"
  | PollOperation string
  | CreateGamePass int string string "int option"
  | UpdateGamePass int string string "int option" "bool option"
  | UploadUniverseIcon int string string
  | UploadUniverseThumbnail int string string
  | SetUniverseThumbnailOrder int "int list"
  | DeleteUniverseThumbnail int int
  | CreateDeveloperProduct int string string int
  | UpdateDeveloperProduct int int string string int
  | CreateSocialLink int string string string
  | UpdateSocialLink int int string string string
  | DeleteSocialLink int int

record createAsset =
  caAssetType :: string
  caDisplayName :: string
  caUserID :: int
  caGroupID :: int

record 'w CloudClient =
  Request :: "request \<Rightarrow> 'w \<Rightarrow> (string + int) \<times> 'w"
  CreateAsset :: "createAsset \<Rightarrow> string \<Rightarrow> string \<Rightarrow> 'w \<Rightarrow> (string + string) \<times> 'w"

datatype provider_error =
  BadInputs string | ReadingFailed string string | CloudError string | MissingID string
  | InvalidPlayability string | NeedsCreator string | InvalidCreatorType string | InvalidLinkType string
  | UploadingThumbnail string string | OrderingThumbnails string | DeletingThumbnail int string

fun andThen :: "('e + 'a) \<times> 'w \<Rightarrow> ('a \<Rightarrow> 'w \<Rightarrow> ('e + 'b) \<times> 'w) \<Rightarrow> ('e + 'b) \<times> 'w" where
  "andThen (Inl e, w) k = (Inl e, w)"
| "andThen (Inr x, w) k = k x w"

definition mapError :: "('e \<Rightarrow> 'f) \<Rightarrow> ('e + 'a) \<times> 'w \<Rightarrow> ('f + 'a) \<times> 'w" where
  "mapError f r = (case fst r of Inl e \<Rightarrow> Inl (f e) | Inr x \<Rightarrow> Inr x, snd r)"

definition ask :: "'w CloudClient \<Rightarrow> request \<Rightarrow> 'w \<Rightarrow> (provider_error + int) \<times> 'w" where
  "ask c req w = mapError CloudError (Request c req w)"

section \<open>Helpers\<close>

record 'w provider_env =
  envCloud :: "'w CloudClient"
  envReadFile :: "string \<Rightarrow> string + string"
  envViaJSON :: "string \<Rightarrow> inputs \<Rightarrow> inputs option"

text \<open>\<open>decodeInputs\<close>: the inputs as they are when they have the type, or what the JSON round trip makes of
  them.\<close>

definition decodeInputs :: "'w provider_env \<Rightarrow> string \<Rightarrow> (inputs \<Rightarrow> 't option) \<Rightarrow> inputs \<Rightarrow> provider_error + 't" where
  "decodeInputs env kind sel i =
     (case sel i of
        Some t \<Rightarrow> Inr t
      | None \<Rightarrow> (case envViaJSON env kind i of
            None \<Rightarrow> Inl (BadInputs kind)
          | Some j \<Rightarrow> (case sel j of None \<Rightarrow> Inl (BadInputs kind) | Some t \<Rightarrow> Inr t)))"

definition ResolvePath :: "outValue Ctx \<Rightarrow> string \<Rightarrow> string" where
  "ResolvePath c p = (if p = [] \<or> IsAbs p then p else PathJoin (CtxProjectDir c) p)"

definition readFile :: "'w provider_env \<Rightarrow> string \<Rightarrow> string \<Rightarrow> provider_error + string" where
  "readFile env what path = (case envReadFile env path of Inl e \<Rightarrow> Inl (ReadingFailed what e) | Inr data \<Rightarrow> Inr data)"

definition oneOutput :: "string \<Rightarrow> outValue \<Rightarrow> outValue outputs" where
  "oneOutput key v = Some [key \<mapsto> v]"

text \<open>The id of the uploaded icon, when the resource declares one and it can be found: \<open>addBadgeIcon\<close> and
  \<open>addPassIcon\<close>.\<close>

definition addIcon :: "outValue Ctx \<Rightarrow> string \<Rightarrow> outValue outputs \<Rightarrow> outValue outputs" where
  "addIcon c icon out =
     (if icon = [] then out
      else (case Output c \<lparr>RefKind = KindAsset, RefName = icon\<rparr> ''assetId'' of
          None \<Rightarrow> out
        | Some v \<Rightarrow> (case OutputInt64 v of None \<Rightarrow> out | Some i \<Rightarrow> map_option (\<lambda>m. m(''iconAssetId'' \<mapsto> VInt64 i)) out)))"

definition stateOnlyDelete :: "outValue Ctx \<Rightarrow> outValue StateEntry option \<Rightarrow> 'w \<Rightarrow> provider_error option \<times> 'w" where
  "stateOnlyDelete c prior w = (None, w)"

fun errorOf :: "('e + 'a) \<times> 'w \<Rightarrow> 'e option \<times> 'w" where
  "errorOf (Inl e, w) = (Some e, w)"
| "errorOf (Inr x, w) = (None, w)"

section \<open>Places and experiences\<close>

fun selPlaceFile where "selPlaceFile (InPlaceFile i) = Some i" | "selPlaceFile _ = None"
fun selPlaceConfig where "selPlaceConfig (InPlaceConfig i) = Some i" | "selPlaceConfig _ = None"
fun selExperience where "selExperience (InExperience i) = Some i" | "selExperience _ = None"
fun selBadge where "selBadge (InBadge i) = Some i" | "selBadge _ = None"
fun selAsset where "selAsset (InAsset i) = Some i" | "selAsset _ = None"
fun selGamePass where "selGamePass (InGamePass i) = Some i" | "selGamePass _ = None"
fun selExperienceIcon where "selExperienceIcon (InExperienceIcon i) = Some i" | "selExperienceIcon _ = None"
fun selThumbnails where "selThumbnails (InThumbnails i) = Some i" | "selThumbnails _ = None"
fun selProduct where "selProduct (InProduct i) = Some i" | "selProduct _ = None"
fun selSocialLink where "selSocialLink (InSocialLink i) = Some i" | "selSocialLink _ = None"

definition publishPlace :: "'w provider_env \<Rightarrow> outValue Ctx \<Rightarrow> inputs \<Rightarrow> 'w \<Rightarrow> (provider_error + outValue outputs) \<times> 'w" where
  "publishPlace env c i w =
     andThen (decodeInputs env KindPlaceFile selPlaceFile i, w) (\<lambda>inp w.
     andThen (readFile env ''place'' (ResolvePath c (pfFile inp)), w) (\<lambda>data w.
     andThen (ask (envCloud env) (PublishPlaceVersion (CtxUniverseID c) (pfPlaceID inp) (pfVersionType inp) data) w) (\<lambda>version w.
       (Inr (Some [''placeId'' \<mapsto> VInt64 (pfPlaceID inp), ''versionNumber'' \<mapsto> VInt64 version]), w))))"

definition placeMask :: "PlaceConfigInputs \<Rightarrow> string list" where
  "placeMask inp =
     (if pcName inp \<noteq> [] then [''displayName''] else []) @ (if pcDescription inp \<noteq> [] then [''description''] else []) @
     (if pcServerSize inp > 0 then [''serverSize''] else [])"

definition placeOf :: "PlaceConfigInputs \<Rightarrow> Place" where
  "placeOf inp = \<lparr>plDisplayName = pcName inp, plDescription = pcDescription inp, plServerSize = (if pcServerSize inp > 0 then pcServerSize inp else 0)\<rparr>"

definition patchPlace :: "'w provider_env \<Rightarrow> outValue Ctx \<Rightarrow> inputs \<Rightarrow> 'w \<Rightarrow> (provider_error + outValue outputs) \<times> 'w" where
  "patchPlace env c i w =
     andThen (decodeInputs env KindPlaceConfig selPlaceConfig i, w) (\<lambda>inp w.
       let out = oneOutput ''placeId'' (VInt64 (pcPlaceID inp)) in
       if placeMask inp = [] then (Inr out, w)
       else andThen (ask (envCloud env) (UpdatePlace (CtxUniverseID c) (pcPlaceID inp) (placeOf inp) (placeMask inp)) w) (\<lambda>_ w. (Inr out, w)))"

text \<open>The visibility for a playability; \<open>None\<close> is an invalid one.\<close>

definition visibilityOf :: "string \<Rightarrow> string option" where
  "visibilityOf p = (if p = [] then Some [] else if p = ''public'' then Some ''PUBLIC''
     else if p = ''private'' \<or> p = ''friends'' then Some ''PRIVATE'' else None)"

definition universeMask :: "ExperienceInputs \<Rightarrow> string list" where
  "universeMask inp =
     (if exName inp \<noteq> [] then [''displayName''] else []) @ (if exDescription inp \<noteq> [] then [''description''] else []) @
     (if exPlayability inp \<noteq> [] then [''visibility''] else []) @ (if exPrivateServerPrice inp \<noteq> None then [''privateServerPriceRobux''] else [])"

definition patchUniverse :: "'w provider_env \<Rightarrow> outValue Ctx \<Rightarrow> inputs \<Rightarrow> 'w \<Rightarrow> (provider_error + outValue outputs) \<times> 'w" where
  "patchUniverse env c i w =
     andThen (decodeInputs env KindExperience selExperience i, w) (\<lambda>inp w.
       case visibilityOf (exPlayability inp) of
         None \<Rightarrow> (Inl (InvalidPlayability (exPlayability inp)), w)
       | Some vis \<Rightarrow>
           (let out = oneOutput ''universeId'' (VInt64 (CtxUniverseID c));
                u = \<lparr>uDisplayName = exName inp, uDescription = exDescription inp, uVisibility = vis,
                     uPrivateServerPriceRobux = (case exPrivateServerPrice inp of None \<Rightarrow> 0 | Some p \<Rightarrow> p)\<rparr> in
            if universeMask inp = [] then (Inr out, w)
            else andThen (ask (envCloud env) (UpdateUniverse (CtxUniverseID c) u (universeMask inp)) w) (\<lambda>_ w. (Inr out, w))))"

definition placeFileProvider :: "'w provider_env \<Rightarrow> (inputs, outValue, 'w, provider_error) Provider" where
  "placeFileProvider env = \<lparr>Create = (\<lambda>c i prior. publishPlace env c i), Update = (\<lambda>c i prior. publishPlace env c i), Delete = stateOnlyDelete\<rparr>"

definition placeConfigProvider :: "'w provider_env \<Rightarrow> (inputs, outValue, 'w, provider_error) Provider" where
  "placeConfigProvider env = \<lparr>Create = (\<lambda>c i prior. patchPlace env c i), Update = (\<lambda>c i prior. patchPlace env c i), Delete = stateOnlyDelete\<rparr>"

definition experienceProvider :: "'w provider_env \<Rightarrow> (inputs, outValue, 'w, provider_error) Provider" where
  "experienceProvider env = \<lparr>Create = (\<lambda>c i prior. patchUniverse env c i), Update = (\<lambda>c i prior. patchUniverse env c i), Delete = stateOnlyDelete\<rparr>"

section \<open>Badges, passes, products and links\<close>

text \<open>The id a resource was created with.\<close>

definition priorID :: "outValue StateEntry option \<Rightarrow> string \<Rightarrow> provider_error + int" where
  "priorID prior key = (case priorInt64 prior key of None \<Rightarrow> Inl (MissingID key) | Some i \<Rightarrow> Inr i)"

definition createBadge :: "'w provider_env \<Rightarrow> outValue Ctx \<Rightarrow> inputs \<Rightarrow> outValue StateEntry option \<Rightarrow> 'w \<Rightarrow> (provider_error + outValue outputs) \<times> 'w" where
  "createBadge env c i prior w =
     andThen (decodeInputs env KindBadge selBadge i, w) (\<lambda>inp w.
     andThen (ask (envCloud env) (CreateBadge (CtxUniverseID c) (bName inp) (bDescription inp)) w) (\<lambda>b w.
       (Inr (addIcon c (bIcon inp) (oneOutput ''badgeId'' (VInt64 b))), w)))"

definition updateBadge :: "'w provider_env \<Rightarrow> outValue Ctx \<Rightarrow> inputs \<Rightarrow> outValue StateEntry option \<Rightarrow> 'w \<Rightarrow> (provider_error + outValue outputs) \<times> 'w" where
  "updateBadge env c i prior w =
     andThen (decodeInputs env KindBadge selBadge i, w) (\<lambda>inp w.
     andThen (priorID prior ''badgeId'', w) (\<lambda>badgeID w.
     andThen (ask (envCloud env) (UpdateBadge badgeID (bName inp) (bDescription inp) None) w) (\<lambda>_ w.
       (Inr (addIcon c (bIcon inp) (oneOutput ''badgeId'' (VInt64 badgeID))), w))))"

definition deleteBadge :: "'w provider_env \<Rightarrow> outValue Ctx \<Rightarrow> outValue StateEntry option \<Rightarrow> 'w \<Rightarrow> provider_error option \<times> 'w" where
  "deleteBadge env c prior w =
     (case priorInt64 prior ''badgeId'' of None \<Rightarrow> (None, w) | Some badgeID \<Rightarrow> errorOf (ask (envCloud env) (UpdateBadge badgeID [] [] (Some False)) w))"

definition badgeProvider :: "'w provider_env \<Rightarrow> (inputs, outValue, 'w, provider_error) Provider" where
  "badgeProvider env = \<lparr>Create = createBadge env, Update = updateBadge env, Delete = deleteBadge env\<rparr>"

definition createPass :: "'w provider_env \<Rightarrow> outValue Ctx \<Rightarrow> inputs \<Rightarrow> outValue StateEntry option \<Rightarrow> 'w \<Rightarrow> (provider_error + outValue outputs) \<times> 'w" where
  "createPass env c i prior w =
     andThen (decodeInputs env KindGamePass selGamePass i, w) (\<lambda>inp w.
     andThen (ask (envCloud env) (CreateGamePass (CtxUniverseID c) (gName inp) (gDescription inp) (gPrice inp)) w) (\<lambda>g w.
       (Inr (addIcon c (gIcon inp) (oneOutput ''gamePassId'' (VInt64 g))), w)))"

definition updatePass :: "'w provider_env \<Rightarrow> outValue Ctx \<Rightarrow> inputs \<Rightarrow> outValue StateEntry option \<Rightarrow> 'w \<Rightarrow> (provider_error + outValue outputs) \<times> 'w" where
  "updatePass env c i prior w =
     andThen (decodeInputs env KindGamePass selGamePass i, w) (\<lambda>inp w.
     andThen (priorID prior ''gamePassId'', w) (\<lambda>passID w.
     andThen (ask (envCloud env) (UpdateGamePass passID (gName inp) (gDescription inp) (gPrice inp) (Some (gPrice inp \<noteq> None))) w) (\<lambda>_ w.
       (Inr (addIcon c (gIcon inp) (oneOutput ''gamePassId'' (VInt64 passID))), w))))"

definition deletePass :: "'w provider_env \<Rightarrow> outValue Ctx \<Rightarrow> outValue StateEntry option \<Rightarrow> 'w \<Rightarrow> provider_error option \<times> 'w" where
  "deletePass env c prior w =
     (case priorInt64 prior ''gamePassId'' of None \<Rightarrow> (None, w) | Some passID \<Rightarrow> errorOf (ask (envCloud env) (UpdateGamePass passID [] [] None (Some False)) w))"

definition gamePassProvider :: "'w provider_env \<Rightarrow> (inputs, outValue, 'w, provider_error) Provider" where
  "gamePassProvider env = \<lparr>Create = createPass env, Update = updatePass env, Delete = deletePass env\<rparr>"

definition createProduct :: "'w provider_env \<Rightarrow> outValue Ctx \<Rightarrow> inputs \<Rightarrow> outValue StateEntry option \<Rightarrow> 'w \<Rightarrow> (provider_error + outValue outputs) \<times> 'w" where
  "createProduct env c i prior w =
     andThen (decodeInputs env KindDeveloperProduct selProduct i, w) (\<lambda>inp w.
     andThen (ask (envCloud env) (CreateDeveloperProduct (CtxUniverseID c) (dName inp) (dDescription inp) (dPrice inp)) w) (\<lambda>p w.
       (Inr (oneOutput ''productId'' (VInt64 p)), w)))"

definition updateProduct :: "'w provider_env \<Rightarrow> outValue Ctx \<Rightarrow> inputs \<Rightarrow> outValue StateEntry option \<Rightarrow> 'w \<Rightarrow> (provider_error + outValue outputs) \<times> 'w" where
  "updateProduct env c i prior w =
     andThen (decodeInputs env KindDeveloperProduct selProduct i, w) (\<lambda>inp w.
     andThen (priorID prior ''productId'', w) (\<lambda>productID w.
     andThen (ask (envCloud env) (UpdateDeveloperProduct (CtxUniverseID c) productID (dName inp) (dDescription inp) (dPrice inp)) w) (\<lambda>_ w.
       (Inr (oneOutput ''productId'' (VInt64 productID)), w))))"

definition developerProductProvider :: "'w provider_env \<Rightarrow> (inputs, outValue, 'w, provider_error) Provider" where
  "developerProductProvider env = \<lparr>Create = createProduct env, Update = updateProduct env, Delete = stateOnlyDelete\<rparr>"

definition socialLinkAPITypes :: "(string \<times> string) list" where
  "socialLinkAPITypes = [(''facebook'', ''Facebook''), (''twitter'', ''Twitter''), (''youtube'', ''YouTube''), (''twitch'', ''Twitch''),
     (''discord'', ''Discord''), (''github'', ''GitHub''), (''guilded'', ''Guilded'')]"

definition socialLinkRequest :: "'w provider_env \<Rightarrow> inputs \<Rightarrow> provider_error + string \<times> string \<times> string" where
  "socialLinkRequest env i =
     (case decodeInputs env KindSocialLink selSocialLink i of
        Inl e \<Rightarrow> Inl e
      | Inr inp \<Rightarrow> (case map_of socialLinkAPITypes (sType inp) of
            None \<Rightarrow> Inl (InvalidLinkType (sType inp))
          | Some apiType \<Rightarrow> Inr (sTitle inp, sURL inp, apiType)))"

definition createLink :: "'w provider_env \<Rightarrow> outValue Ctx \<Rightarrow> inputs \<Rightarrow> outValue StateEntry option \<Rightarrow> 'w \<Rightarrow> (provider_error + outValue outputs) \<times> 'w" where
  "createLink env c i prior w =
     andThen (socialLinkRequest env i, w) (\<lambda>(title, url, typ) w.
     andThen (ask (envCloud env) (CreateSocialLink (CtxUniverseID c) title url typ) w) (\<lambda>s w.
       (Inr (oneOutput ''socialLinkId'' (VInt64 s)), w)))"

definition updateLink :: "'w provider_env \<Rightarrow> outValue Ctx \<Rightarrow> inputs \<Rightarrow> outValue StateEntry option \<Rightarrow> 'w \<Rightarrow> (provider_error + outValue outputs) \<times> 'w" where
  "updateLink env c i prior w =
     andThen (socialLinkRequest env i, w) (\<lambda>(title, url, typ) w.
     andThen (priorID prior ''socialLinkId'', w) (\<lambda>linkID w.
     andThen (ask (envCloud env) (UpdateSocialLink (CtxUniverseID c) linkID title url typ) w) (\<lambda>_ w.
       (Inr (oneOutput ''socialLinkId'' (VInt64 linkID)), w))))"

definition deleteLink :: "'w provider_env \<Rightarrow> outValue Ctx \<Rightarrow> outValue StateEntry option \<Rightarrow> 'w \<Rightarrow> provider_error option \<times> 'w" where
  "deleteLink env c prior w =
     (case priorInt64 prior ''socialLinkId'' of None \<Rightarrow> (None, w)
      | Some linkID \<Rightarrow> errorOf (ask (envCloud env) (DeleteSocialLink (CtxUniverseID c) linkID) w))"

definition socialLinkProvider :: "'w provider_env \<Rightarrow> (inputs, outValue, 'w, provider_error) Provider" where
  "socialLinkProvider env = \<lparr>Create = createLink env, Update = updateLink env, Delete = deleteLink env\<rparr>"

section \<open>Uploads\<close>

definition creatorFor :: "AssetInputs \<Rightarrow> provider_error + createAsset" where
  "creatorFor inp =
     (let r = \<lparr>caAssetType = aAssetType inp, caDisplayName = aDisplayName inp, caUserID = 0, caGroupID = 0\<rparr> in
      if aCreatorType inp = ''user'' then Inr (r\<lparr>caUserID := aCreatorID inp\<rparr>)
      else if aCreatorType inp = ''group'' then Inr (r\<lparr>caGroupID := aCreatorID inp\<rparr>)
      else if aCreatorType inp = [] then Inl (NeedsCreator (aFile inp))
      else Inl (InvalidCreatorType (aCreatorType inp)))"

definition uploadAsset :: "'w provider_env \<Rightarrow> outValue Ctx \<Rightarrow> inputs \<Rightarrow> 'w \<Rightarrow> (provider_error + outValue outputs) \<times> 'w" where
  "uploadAsset env c i w =
     andThen (decodeInputs env KindAsset selAsset i, w) (\<lambda>inp w.
     andThen (creatorFor inp, w) (\<lambda>req w.
       let path = ResolvePath c (aFile inp) in
     andThen (readFile env ''asset'' path, w) (\<lambda>data w.
     andThen (mapError CloudError (CreateAsset (envCloud env) req (Base path) data w)) (\<lambda>opPath w.
     andThen (ask (envCloud env) (PollOperation opPath) w) (\<lambda>a w.
       (Inr (oneOutput ''assetId'' (VInt64 a)), w))))))"

definition assetProvider :: "'w provider_env \<Rightarrow> (inputs, outValue, 'w, provider_error) Provider" where
  "assetProvider env = \<lparr>Create = (\<lambda>c i prior. uploadAsset env c i), Update = (\<lambda>c i prior. uploadAsset env c i), Delete = stateOnlyDelete\<rparr>"

definition uploadExperienceIcon :: "'w provider_env \<Rightarrow> outValue Ctx \<Rightarrow> inputs \<Rightarrow> 'w \<Rightarrow> (provider_error + outValue outputs) \<times> 'w" where
  "uploadExperienceIcon env c i w =
     andThen (decodeInputs env KindExperienceIcon selExperienceIcon i, w) (\<lambda>inp w.
       let path = ResolvePath c (iFile inp) in
     andThen (readFile env ''icon'' path, w) (\<lambda>data w.
     andThen (ask (envCloud env) (UploadUniverseIcon (CtxUniverseID c) (Base path) data) w) (\<lambda>i w.
       (Inr (oneOutput ''iconAssetId'' (VInt64 i)), w))))"

definition experienceIconProvider :: "'w provider_env \<Rightarrow> (inputs, outValue, 'w, provider_error) Provider" where
  "experienceIconProvider env =
     \<lparr>Create = (\<lambda>c i prior. uploadExperienceIcon env c i), Update = (\<lambda>c i prior. uploadExperienceIcon env c i), Delete = stateOnlyDelete\<rparr>"

fun uploadThumbnails :: "'w provider_env \<Rightarrow> outValue Ctx \<Rightarrow> string list \<Rightarrow> int list \<Rightarrow> 'w \<Rightarrow> (provider_error + int list) \<times> 'w" where
  "uploadThumbnails env c [] ids w = (Inr ids, w)"
| "uploadThumbnails env c (f # fs) ids w =
     (let path = ResolvePath c f in
      andThen (readFile env ''thumbnail'' path, w) (\<lambda>data w.
      andThen (mapError (UploadingThumbnail f) (Request (envCloud env) (UploadUniverseThumbnail (CtxUniverseID c) (Base path) data) w)) (\<lambda>i w.
        uploadThumbnails env c fs (ids @ [i]) w)))"

fun deleteThumbnails :: "'w provider_env \<Rightarrow> (int \<Rightarrow> string \<Rightarrow> provider_error) \<Rightarrow> outValue Ctx \<Rightarrow> int list \<Rightarrow> 'w \<Rightarrow> (provider_error + unit) \<times> 'w" where
  "deleteThumbnails env err c [] w = (Inr (), w)"
| "deleteThumbnails env err c (i # is) w =
     andThen (mapError (err i) (Request (envCloud env) (DeleteUniverseThumbnail (CtxUniverseID c) i) w)) (\<lambda>_ w. deleteThumbnails env err c is w)"

definition replaceThumbnails :: "'w provider_env \<Rightarrow> outValue Ctx \<Rightarrow> inputs \<Rightarrow> int list \<Rightarrow> 'w \<Rightarrow> (provider_error + outValue outputs) \<times> 'w" where
  "replaceThumbnails env c i stale w =
     andThen (decodeInputs env KindExperienceThumbnails selThumbnails i, w) (\<lambda>inp w.
     andThen (uploadThumbnails env c (tFiles inp) [] w) (\<lambda>ids w.
     andThen (if ids \<noteq> [] then mapError OrderingThumbnails (Request (envCloud env) (SetUniverseThumbnailOrder (CtxUniverseID c) ids) w) else (Inr 0, w)) (\<lambda>_ w.
     andThen (deleteThumbnails env DeletingThumbnail c stale w) (\<lambda>_ w.
       (Inr (oneOutput ''thumbnailIds'' (VInt64s ids)), w)))))"

definition experienceThumbnailsProvider :: "'w provider_env \<Rightarrow> (inputs, outValue, 'w, provider_error) Provider" where
  "experienceThumbnailsProvider env =
     \<lparr>Create = (\<lambda>c i prior. replaceThumbnails env c i []), Update = (\<lambda>c i prior. replaceThumbnails env c i (priorThumbnailIDs prior)),
      Delete = (\<lambda>c prior w. errorOf (deleteThumbnails env (\<lambda>_. CloudError) c (priorThumbnailIDs prior) w))\<rparr>"

definition DefaultProviders :: "'w provider_env \<Rightarrow> string \<Rightarrow> (inputs, outValue, 'w, provider_error) Provider option" where
  "DefaultProviders env = map_of
     [(KindPlaceFile, placeFileProvider env), (KindPlaceConfig, placeConfigProvider env), (KindExperience, experienceProvider env),
      (KindBadge, badgeProvider env), (KindAsset, assetProvider env), (KindGamePass, gamePassProvider env),
      (KindExperienceIcon, experienceIconProvider env), (KindExperienceThumbnails, experienceThumbnailsProvider env),
      (KindDeveloperProduct, developerProductProvider env), (KindSocialLink, socialLinkProvider env)]"

section \<open>Ids across a run\<close>

text \<open>The output under which a kind records the id its create call got.\<close>

definition idKey :: "string \<Rightarrow> string option" where
  "idKey = map_of [(KindBadge, ''badgeId''), (KindGamePass, ''gamePassId''), (KindDeveloperProduct, ''productId''), (KindSocialLink, ''socialLinkId'')]"

lemma andThen_Inr: "andThen r k = (Inr y, w') \<longleftrightarrow> (\<exists>x w1. r = (Inr x, w1) \<and> k x w1 = (Inr y, w'))"
  by (cases "(r, k)" rule: andThen.cases) auto

lemma addIcon_keeps: "k \<noteq> ''iconAssetId'' \<Longrightarrow> addIcon c icon (oneOutput k v) = Some m \<Longrightarrow> m k = Some v"
  by (auto simp: addIcon_def oneOutput_def split: if_splits option.splits)

lemma addIcon_some: "\<exists>m. addIcon c icon (oneOutput k v) = Some m"
  by (simp add: addIcon_def oneOutput_def split: option.split)

lemma priorID_Inr [simp]: "priorID prior k = Inr i \<longleftrightarrow> priorInt64 prior k = Some i"
  by (simp add: priorID_def split: option.split)

lemma idKey_cases:
  assumes "idKey kind = Some k" "DefaultProviders env kind = Some p"
  obtains "k = ''badgeId''" "p = badgeProvider env" | "k = ''gamePassId''" "p = gamePassProvider env"
    | "k = ''productId''" "p = developerProductProvider env" | "k = ''socialLinkId''" "p = socialLinkProvider env"
  using assms by (auto simp: idKey_def DefaultProviders_def kind_defs split: if_splits)

lemmas update_defs = badgeProvider_def gamePassProvider_def developerProductProvider_def socialLinkProvider_def
  updateBadge_def updatePass_def updateProduct_def updateLink_def

text \<open>An update needs the recorded id and records it again.\<close>

lemma update_keeps_id:
  assumes "idKey kind = Some k" "DefaultProviders env kind = Some p" "Update p c i prior w = (Inr out, w')"
  shows "\<exists>n m. priorInt64 prior k = Some n \<and> out = Some m \<and> m k = Some (VInt64 n)"
  using idKey_cases [OF assms(1,2)]
proof cases
  case 1
  then obtain n icon where "priorInt64 prior k = Some n" "out = addIcon c icon (oneOutput k (VInt64 n))"
    using assms(3) by (auto simp: update_defs andThen_Inr)
  then show ?thesis using addIcon_some [of c icon k "VInt64 n"] addIcon_keeps [of k c icon "VInt64 n"] 1 by auto
next
  case 2
  then obtain n icon where "priorInt64 prior k = Some n" "out = addIcon c icon (oneOutput k (VInt64 n))"
    using assms(3) by (auto simp: update_defs andThen_Inr)
  then show ?thesis using addIcon_some [of c icon k "VInt64 n"] addIcon_keeps [of k c icon "VInt64 n"] 2 by auto
next
  case 3
  then show ?thesis using assms(3) by (auto simp: update_defs andThen_Inr oneOutput_def)
next
  case 4
  then show ?thesis using assms(3) by (auto simp: update_defs andThen_Inr oneOutput_def)
qed

text \<open>A state that has lost the resource or still records the id \<open>n\<close> for it.\<close>

definition keepsID :: "string \<Rightarrow> string \<Rightarrow> int \<Rightarrow> outValue State \<Rightarrow> bool" where
  "keepsID key k n st \<longleftrightarrow> entry st key = None \<or> priorInt64 (entry st key) k = Some n"

lemma priorInt64_merged:
  assumes "m k = Some (VInt64 n)"
  shows "priorInt64 (Some \<lparr>InputsHash = h, Outputs = mergeOutputs prior (Some m)\<rparr>) k = Some n"
  using assms by (auto simp: priorInt64_def priorOutput_def mergeOutputs_def map_add_def split: option.split)

lemma keepsID_other [simp]:
  "key \<noteq> key' \<Longrightarrow> keepsID key k n (putEntry key' e st) = keepsID key k n st"
  "keepsID key k n (dropEntry key' st) = (key = key' \<or> keepsID key k n st)"
  by (auto simp: keepsID_def putEntry_def dropEntry_def update_conv' delete_conv')

lemma record_step_St [simp]: "St (record_step opts s x e run) = St run" "St (fail_step opts s e' run) = St run"
  by (simp_all add: record_step_def fail_step_def Let_def)

lemma Key_kind:
  assumes "Key r = Key \<lparr>RefKind = kind, RefName = nm\<rparr>" "CHR ''/'' \<notin> set (RefKind r)" "CHR ''/'' \<notin> set kind"
  shows "RefKind r = kind"
proof -
  have "r = parseStateKey (Key \<lparr>RefKind = kind, RefName = nm\<rparr>)"
    unfolding assms(1) [symmetric] by (rule parseStateKey_Key [OF assms(2), symmetric])
  also have "\<dots> = \<lparr>RefKind = kind, RefName = nm\<rparr>" using assms(3) by (intro parseStateKey_Key) simp
  finally show ?thesis by simp
qed

lemma default_kind: "DefaultProviders env kind = Some p \<Longrightarrow> CHR ''/'' \<notin> set kind" "idKey kind = Some k \<Longrightarrow> CHR ''/'' \<notin> set kind"
  unfolding DefaultProviders_def idKey_def kind_defs by (drule map_of_SomeD, fastforce)+

lemma upsert_keeps_id:
  assumes "upsertStep opts s run = (err, run')" "Providers opts = DefaultProviders env" "idKey kind = Some k"
    "key = Key \<lparr>RefKind = kind, RefName = nm\<rparr>" "skey s = key \<Longrightarrow> StepOp s \<noteq> OpCreate" "keepsID key k n (St run)"
  shows "keepsID key k n (St run')"
proof (cases "St run' = St run")
  case True with assms(6) show ?thesis by simp
next
  case False
  obtain p out w1 where u: "Providers opts (RefKind (StepRef s)) = Some p"
      "(if StepOp s = OpCreate then Create p else Update p) (applyCtx opts (St run)) (Inputs (the (StepResource s)))
         (entry (St run) (skey s)) (World run) = (Inr out, w1)"
      "St run' = putEntry (skey s) \<lparr>InputsHash = StepHash s, Outputs = mergeOutputs (entry (St run) (skey s)) out\<rparr> (St run)"
    using assms(1) False by (auto simp: upsertStep_def Let_def split: option.splits prod.splits sum.splits)
  show ?thesis
  proof (cases "skey s = key")
    case False with u(3) assms(6) show ?thesis by simp
  next
    case True
    have "RefKind (StepRef s) = kind"
      using Key_kind [of "StepRef s" kind nm] True assms(2-4) u(1) default_kind by metis
    with u(1,2) True assms(2,5) have up: "DefaultProviders env kind = Some p"
      "Update p (applyCtx opts (St run)) (Inputs (the (StepResource s))) (entry (St run) key) (World run) = (Inr out, w1)" by auto
    obtain n' m where m: "priorInt64 (entry (St run) key) k = Some n'" "out = Some m" "m k = Some (VInt64 n')"
      using update_keeps_id [OF assms(3) up] by blast
    from m(1) assms(6) have "n' = n" by (auto simp: keepsID_def priorInt64_def priorOutput_def)
    with u(3) m(2,3) True show ?thesis by (simp add: keepsID_def putEntry_def update_conv' priorInt64_merged)
  qed
qed

lemma delete_keeps_id: "deleteStep opts s run = (err, run') \<Longrightarrow> keepsID key k n (St run) \<Longrightarrow> keepsID key k n (St run')"
  by (auto simp: deleteStep_def Let_def split: option.splits prod.splits)

lemma applyStep_keeps_id:
  assumes "applyStep opts s run = (err, run')" "Providers opts = DefaultProviders env" "idKey kind = Some k"
    "key = Key \<lparr>RefKind = kind, RefName = nm\<rparr>" "skey s = key \<Longrightarrow> StepOp s \<noteq> OpCreate" "keepsID key k n (St run)"
  shows "keepsID key k n (St run')"
proof (cases "StepOp s")
  case OpCreate
  then show ?thesis using assms(1) upsert_keeps_id [OF _ assms(2-6)] by (simp add: applyStep_def)
next
  case OpUpdate
  then show ?thesis using assms(1) upsert_keeps_id [OF _ assms(2-6)] by (simp add: applyStep_def)
next
  case OpDelete
  then show ?thesis using assms(1,6) delete_keeps_id by (simp add: applyStep_def)
qed (use assms(1,6) in \<open>auto simp: applyStep_def\<close>)

lemma applySteps_keep_id:
  assumes "applySteps opts ss run = (err, run')" "Providers opts = DefaultProviders env" "idKey kind = Some k"
    "key = Key \<lparr>RefKind = kind, RefName = nm\<rparr>" "\<forall>s \<in> set ss. skey s = key \<longrightarrow> StepOp s \<noteq> OpCreate" "keepsID key k n (St run)"
  shows "keepsID key k n (St run')"
  using assms(1,5,6)
proof (induction ss arbitrary: run)
  case (Cons s ss)
  obtain e r where a: "applyStep opts s run = (e, r)" by fastforce
  with Cons.prems have r: "keepsID key k n (St r)" by (intro applyStep_keeps_id [OF a assms(2-4)]) auto
  show ?case
  proof (cases e)
    case None
    with a Cons.prems(1) have "applySteps opts ss r = (err, run')" by simp
    from Cons.IH [OF this _ r] Cons.prems(2) show ?thesis by simp
  qed (use a r Cons.prems(1) in auto)
qed simp

lemma plan_creates_absent:
  assumes "BuildPlan h rs stp opts = Some (Inr p)" "s \<in> set (Steps p)" "StepOp s = OpCreate"
  shows "entry (stateOf stp) (skey s) = None"
proof -
  obtain ord where "Steps p = map (liveStep h (stateOf stp)) ord @ map (goneStep opts) (goneKeys rs (stateOf stp))"
    by (rule BuildPlan_steps [OF assms(1)])
  with assms(2,3) obtain r where "s = liveStep h (stateOf stp) r" by (auto simp: goneStep_def split: if_splits)
  with assms(3) show ?thesis by (auto simp: liveStep_def planOp_def split: option.splits if_splits)
qed

section \<open>Thumbnails\<close>

text \<open>A world with the log of the requests and their answers.\<close>

definition logging :: "'w CloudClient \<Rightarrow> ('w \<Rightarrow> (request \<times> (string + int)) list) \<Rightarrow> bool" where
  "logging c lg \<longleftrightarrow> (\<forall>req w. lg (snd (Request c req w)) = lg w @ [(req, fst (Request c req w))])"

definition fileData :: "'w provider_env \<Rightarrow> outValue Ctx \<Rightarrow> string \<Rightarrow> string" where
  "fileData env c f = (case envReadFile env (ResolvePath c f) of Inl e \<Rightarrow> [] | Inr data \<Rightarrow> data)"

definition uploaded :: "'w provider_env \<Rightarrow> outValue Ctx \<Rightarrow> string list \<Rightarrow> int list \<Rightarrow> (request \<times> (string + int)) list" where
  "uploaded env c files ids = map2 (\<lambda>f i. (UploadUniverseThumbnail (CtxUniverseID c) (Base (ResolvePath c f)) (fileData env c f), Inr i)) files ids"

definition deleted :: "outValue Ctx \<Rightarrow> int list \<Rightarrow> request list" where
  "deleted c ids = map (DeleteUniverseThumbnail (CtxUniverseID c)) ids"

definition orderedAs :: "outValue Ctx \<Rightarrow> int list \<Rightarrow> request list" where
  "orderedAs c ids = (if ids = [] then [] else [SetUniverseThumbnailOrder (CtxUniverseID c) ids])"

lemma loggingD: "logging cl lg \<Longrightarrow> Request cl req w = (r, w') \<Longrightarrow> lg w' = lg w @ [(req, r)]"
  unfolding logging_def by (metis fst_conv snd_conv)

lemma mapError_eq: "mapError f r = (Inr x, w') \<longleftrightarrow> r = (Inr x, w')" "mapError f r = (Inl e, w') \<longleftrightarrow> (\<exists>e'. r = (Inl e', w') \<and> e = f e')"
  by (cases r; auto simp: mapError_def split: sum.splits)+

lemma andThen_Inl:
  "andThen r k = (Inl e, w') \<longleftrightarrow> r = (Inl e, w') \<or> (\<exists>x w1. r = (Inr x, w1) \<and> k x w1 = (Inl e, w'))"
  by (cases "(r, k)" rule: andThen.cases) auto

lemma uploadThumbnails_ok:
  assumes "logging (envCloud env) lg" "uploadThumbnails env c fs ids w = (Inr ids', w')"
  shows "\<exists>new. ids' = ids @ new \<and> length new = length fs \<and> lg w' = lg w @ uploaded env c fs new"
  using assms(2)
proof (induction fs arbitrary: ids w)
  case (Cons f fs)
  obtain data i w1 where 1: "envReadFile env (ResolvePath c f) = Inr data"
      "Request (envCloud env) (UploadUniverseThumbnail (CtxUniverseID c) (Base (ResolvePath c f)) data) w = (Inr i, w1)"
      "uploadThumbnails env c fs (ids @ [i]) w1 = (Inr ids', w')"
    using Cons.prems by (auto simp: Let_def andThen_Inr mapError_eq readFile_def split: sum.splits)
  obtain new where "ids' = (ids @ [i]) @ new" "length new = length fs" "lg w' = lg w1 @ uploaded env c fs new"
    using Cons.IH [OF 1(3)] by blast
  with loggingD [OF assms(1) 1(2)] 1(1) show ?case
    by (intro exI [of _ "i # new"]) (simp add: uploaded_def fileData_def)
qed (simp add: uploaded_def)

lemma uploadThumbnails_error:
  assumes "logging (envCloud env) lg" "uploadThumbnails env c fs ids w = (Inl e, w')"
  shows "\<exists>ls. lg w' = lg w @ ls \<and> (\<forall>q \<in> set ls. \<exists>nm data. fst q = UploadUniverseThumbnail (CtxUniverseID c) nm data)"
  using assms(2)
proof (induction fs arbitrary: ids w)
  case (Cons f fs)
  let ?req = "UploadUniverseThumbnail (CtxUniverseID c) (Base (ResolvePath c f)) (fileData env c f)"
  consider "w' = w" | e' where "Request (envCloud env) ?req w = (Inl e', w')"
    | i w1 where "Request (envCloud env) ?req w = (Inr i, w1)" "uploadThumbnails env c fs (ids @ [i]) w1 = (Inl e, w')"
    using Cons.prems by (auto simp: Let_def andThen_Inl mapError_eq readFile_def fileData_def split: sum.splits)
  then show ?case
  proof cases
    case 2 then show ?thesis using loggingD [OF assms(1)] by fastforce
  next
    case (3 i w1)
    from Cons.IH [OF 3(2)] loggingD [OF assms(1) 3(1)] show ?thesis by fastforce
  qed simp
qed simp

lemma deleteThumbnails_log:
  assumes "logging (envCloud env) lg" "deleteThumbnails env err c is w = (r, w')"
  shows "\<exists>ls. lg w' = lg w @ ls \<and> prefix (map fst ls) (deleted c is) \<and>
    (\<not> isl r \<longrightarrow> map fst ls = deleted c is \<and> (\<forall>q \<in> set ls. \<not> isl (snd q)))"
  using assms(2)
proof (induction "is" arbitrary: w)
  case (Cons i "is")
  let ?req = "DeleteUniverseThumbnail (CtxUniverseID c) i"
  consider e where "Request (envCloud env) ?req w = (Inl e, w')" "isl r"
    | a w1 where "Request (envCloud env) ?req w = (Inr a, w1)" "deleteThumbnails env err c is w1 = (r, w')"
    using Cons.prems by (cases "Request (envCloud env) ?req w"; cases "fst (Request (envCloud env) ?req w)") (auto simp: mapError_def)
  then show ?case
  proof cases
    case 1 then show ?thesis using loggingD [OF assms(1) 1(1)] by (intro exI [of _ "[(?req, Inl e)]"]) (simp add: deleted_def)
  next
    case (2 a w1)
    from Cons.IH [OF 2(2)] obtain ls where "lg w' = lg w1 @ ls" "prefix (map fst ls) (deleted c is)"
      "\<not> isl r \<longrightarrow> map fst ls = deleted c is \<and> (\<forall>q \<in> set ls. \<not> isl (snd q))" by blast
    with loggingD [OF assms(1) 2(1)] show ?thesis by (intro exI [of _ "(?req, Inr a) # ls"]) (simp add: deleted_def)
  qed
qed (simp add: deleted_def)

text \<open>What a call of \<open>replaceThumbnails\<close> has done when it comes back: only uploads, or all uploads and the ordering of
  their ids, and then deletes of the stale ids from the first on.\<close>

lemma replaceThumbnails_log:
  assumes lg: "logging (envCloud env) lg" and run: "replaceThumbnails env c (InThumbnails inp) stale w = (r, w')"
  shows "(isl r \<and> (\<exists>ls. lg w' = lg w @ ls \<and> (\<forall>q \<in> set ls. \<exists>nm data. fst q = UploadUniverseThumbnail (CtxUniverseID c) nm data))) \<or>
    (\<exists>ids os ds. lg w' = lg w @ uploaded env c (tFiles inp) ids @ os @ ds \<and> length ids = length (tFiles inp) \<and>
      map fst os = orderedAs c ids \<and> prefix (map fst ds) (deleted c stale) \<and> (ds \<noteq> [] \<longrightarrow> (\<forall>q \<in> set os. \<not> isl (snd q))) \<and>
      (\<not> isl r \<longrightarrow> r = Inr (oneOutput ''thumbnailIds'' (VInt64s ids)) \<and> (\<forall>q \<in> set (os @ ds). \<not> isl (snd q)) \<and> map fst ds = deleted c stale))"
    (is "?up \<or> ?all")
proof -
  obtain u w1 where u: "uploadThumbnails env c (tFiles inp) [] w = (u, w1)" by fastforce
  show ?thesis
  proof (cases u)
    case (Inl e)
    with run u have "r = Inl e" "w' = w1" by (auto simp: replaceThumbnails_def decodeInputs_def)
    with uploadThumbnails_error [OF lg] u Inl show ?thesis by fastforce
  next
    case (Inr ids)
    with uploadThumbnails_ok [OF lg] u have l1: "length ids = length (tFiles inp)" "lg w1 = lg w @ uploaded env c (tFiles inp) ids" by fastforce+
    let ?o = "if ids \<noteq> [] then mapError OrderingThumbnails (Request (envCloud env) (SetUniverseThumbnailOrder (CtxUniverseID c) ids) w1) else (Inr 0, w1)"
    obtain o' w2 where o: "?o = (o', w2)" by fastforce
    then obtain os where os: "lg w2 = lg w1 @ os" "map fst os = orderedAs c ids" "\<not> isl o' \<Longrightarrow> \<forall>q \<in> set os. \<not> isl (snd q)"
      using loggingD [OF lg, of "SetUniverseThumbnailOrder (CtxUniverseID c) ids" w1]
      by (cases "Request (envCloud env) (SetUniverseThumbnailOrder (CtxUniverseID c) ids) w1")
        (auto simp: orderedAs_def mapError_def split: if_splits sum.splits)
    have run2: "andThen (o', w2) (\<lambda>_ w. andThen (deleteThumbnails env DeletingThumbnail c stale w) (\<lambda>_ w.
        (Inr (oneOutput ''thumbnailIds'' (VInt64s ids)), w))) = (r, w')"
      using run u Inr o by (simp add: replaceThumbnails_def decodeInputs_def)
    obtain d w3 where d: "deleteThumbnails env DeletingThumbnail c stale w2 = (d, w3)" by fastforce
    obtain ds where ds: "lg w3 = lg w2 @ ds" "prefix (map fst ds) (deleted c stale)"
      "\<not> isl d \<Longrightarrow> map fst ds = deleted c stale \<and> (\<forall>q \<in> set ds. \<not> isl (snd q))"
      using deleteThumbnails_log [OF lg d] by blast
    show ?thesis
    proof (cases o')
      case (Inl e)
      with run2 have "r = Inl e" "w' = w2" by auto
      with l1 os(1,2) have ?all by (intro exI [of _ ids] exI [of _ os] exI [of _ "[]"]) simp
      then show ?thesis ..
    next
      case (Inr a)
      with run2 d have r: "w' = w3" "\<not> isl r \<Longrightarrow> \<not> isl d \<and> r = Inr (oneOutput ''thumbnailIds'' (VInt64s ids))"
        by (cases d; auto)+
      from Inr os(3) have "\<forall>q \<in> set os. \<not> isl (snd q)" by simp
      with r l1 os(1,2) ds have ?all by (intro exI [of _ ids] exI [of _ os] exI [of _ ds]) auto
      then show ?thesis ..
    qed
  qed
qed

section \<open>An example for the witnesses\<close>

text \<open>A client that answers every request with its number and logs it; the third request fails in \<open>exProvEnv 2\<close>.\<close>

type_synonym exLog = "(request \<times> (string + int)) list"

definition exAnswer :: "nat \<Rightarrow> exLog \<Rightarrow> string + int" where
  "exAnswer m w = (if length w = m then Inl ''down'' else Inr (int (length w)))"

definition exCloud :: "nat \<Rightarrow> exLog CloudClient" where
  "exCloud m = \<lparr>Request = (\<lambda>req w. (exAnswer m w, w @ [(req, exAnswer m w)])), CreateAsset = (\<lambda>r nm d w. (Inr ''op'', w))\<rparr>"

definition exProvEnv :: "nat \<Rightarrow> exLog provider_env" where
  "exProvEnv m = \<lparr>envCloud = exCloud m, envReadFile = (\<lambda>p. Inr p), envViaJSON = (\<lambda>k i. None)\<rparr>"

definition exCtx :: "outValue Ctx" where
  "exCtx = \<lparr>CtxUniverseID = 9, CtxProjectDir = ''/p'', Output = (\<lambda>r k. None)\<rparr>"

lemma exLogging: "logging (envCloud (exProvEnv m)) id"
  by (simp add: logging_def exProvEnv_def exCloud_def)

definition exBadges :: "string \<Rightarrow> inputs Resource list" where
  "exBadges nm = [res KindBadge ''win'' [] (InBadge \<lparr>bName = nm, bDescription = [], bIcon = []\<rparr>)]"

definition exBadgeHash :: "inputs \<Rightarrow> string + string" where
  "exBadgeHash i = (case i of InBadge b \<Rightarrow> Inr (bName b) | _ \<Rightarrow> Inl ''kind'')"

definition exBadgeState :: "outValue State" where
  "exBadgeState = \<lparr>Version = 1, Resources = [(''badge/win'', \<lparr>InputsHash = ''Old'', Outputs = Some [''badgeId'' \<mapsto> VFloat64 77]\<rparr>)]\<rparr>"

definition exBadgeOpts :: "(inputs, outValue, exLog, provider_error) ApplyOptions" where
  "exBadgeOpts = \<lparr>Providers = DefaultProviders (exProvEnv 9), UniverseID = 9, ProjectDir = ''/p'', SaveState = None, OnStep = None\<rparr>"

definition exBadgePlan :: "inputs Plan" where
  "exBadgePlan = \<lparr>Steps = [\<lparr>StepOp = OpUpdate, StepRef = \<lparr>RefKind = ''badge'', RefName = ''win''\<rparr>, StepResource = Some (hd (exBadges ''New'')), StepHash = ''New''\<rparr>],
     Creates = 0, Updates = 1, Deletes = 0, BlockedDeletes = 0, Noops = 0\<rparr>"

lemma exBadgePlan: "BuildPlan exBadgeHash (exBadges ''New'') (Some exBadgeState) \<lparr>AllowDeletes = False\<rparr> = Some (Inr exBadgePlan)"
  by code_simp

lemma exBadgeRun: "\<exists>r st' w'. Apply exBadgeOpts exBadgePlan (Some exBadgeState) [] = (None, Some r, Some st', w') \<and> Updated r = 1 \<and>
    entry st' ''badge/win'' \<noteq> None"
  by (simp add: Apply_def exBadgePlan_def applyStep_def upsertStep_def failedDep_def exBadgeOpts_def DefaultProviders_def kind_defs
      badgeProvider_def updateBadge_def exBadges_def res_def decodeInputs_def priorID_def priorInt64_def priorOutput_def exBadgeState_def
      ask_def mapError_def exProvEnv_def exCloud_def exAnswer_def save_def record_step_def emptyResult_def putEntry_def Key_def Ref_def Let_def)

section \<open>Properties\<close>

text \<open>C22: with the providers of the program, a run never changes the id of a resource: when the state records the id of a
  badge, game pass, developer product or social link, then after a plan of this state is applied - whichever requests
  failed and whatever the cloud answered - the state either has no such resource or records the same id. So an update
  always addresses the resource it created.\<close>

theorem Apply_keeps_ids:
  assumes "BuildPlan h rs stp opts = Some (Inr p)" "Providers aopts = DefaultProviders env"
    "Apply aopts p stp w = (err, Some r, Some st', w')" "idKey kind = Some k"
    "priorInt64 (entry (stateOf stp) (Key \<lparr>RefKind = kind, RefName = nm\<rparr>)) k = Some n"
  shows "entry st' (Key \<lparr>RefKind = kind, RefName = nm\<rparr>) = None \<or>
    priorInt64 (entry st' (Key \<lparr>RefKind = kind, RefName = nm\<rparr>)) k = Some n"
proof -
  let ?key = "Key \<lparr>RefKind = kind, RefName = nm\<rparr>"
  obtain run' where run: "applySteps aopts (Steps p) \<lparr>Res = emptyResult, failed = {}, St = stateOf stp, World = w\<rparr> = (err, run')" "st' = St run'"
    using Apply_run [OF assms(3)] by metis
  have "entry (stateOf stp) ?key \<noteq> None" using assms(5) by (auto simp: priorInt64_def priorOutput_def split: option.splits)
  with plan_creates_absent [OF assms(1)] have "\<forall>s \<in> set (Steps p). skey s = ?key \<longrightarrow> StepOp s \<noteq> OpCreate" by metis
  from applySteps_keep_id [OF run(1) assms(2,4) refl this] assms(5) show ?thesis by (simp add: keepsID_def run(2))
qed

theorem Apply_keeps_ids_witness:
  "\<exists>r st' w'. Apply exBadgeOpts exBadgePlan (Some exBadgeState) [] = (None, Some r, Some st', w') \<and> Updated r = 1 \<and>
     priorInt64 (entry st' ''badge/win'') ''badgeId'' = Some 77"
proof -
  obtain r st' w' where a: "Apply exBadgeOpts exBadgePlan (Some exBadgeState) [] = (None, Some r, Some st', w')"
    "Updated r = 1" "entry st' ''badge/win'' \<noteq> None" using exBadgeRun by blast
  have k: "idKey KindBadge = Some ''badgeId''" "Key \<lparr>RefKind = KindBadge, RefName = ''win''\<rparr> = ''badge/win''"
    "priorInt64 (entry (stateOf (Some exBadgeState)) (Key \<lparr>RefKind = KindBadge, RefName = ''win''\<rparr>)) ''badgeId'' = Some 77"
    by code_simp+
  have "Providers exBadgeOpts = DefaultProviders (exProvEnv 9)" by (simp add: exBadgeOpts_def)
  from Apply_keeps_ids [OF exBadgePlan this a(1) k(1) k(3)] a k(2) show ?thesis by auto
qed

text \<open>C30: what replacing the thumbnails of an experience asks of the cloud, in this order: the upload of every configured
  file; the order of the new ids, when there are any; the delete of every stale id. A call that succeeds did all of it
  and records the new ids in file order; a call that fails has only uploaded, or has uploaded everything, and never
  deleted a stale thumbnail before the new ones were uploaded and ordered.\<close>

theorem thumbnails_replaced:
  assumes "logging (envCloud env) lg" "replaceThumbnails env c (InThumbnails inp) stale w = (r, w')"
  shows "(isl r \<and> (\<exists>ls. lg w' = lg w @ ls \<and> (\<forall>q \<in> set ls. \<exists>nm data. fst q = UploadUniverseThumbnail (CtxUniverseID c) nm data))) \<or>
    (\<exists>ids os ds. lg w' = lg w @ uploaded env c (tFiles inp) ids @ os @ ds \<and> length ids = length (tFiles inp) \<and>
      map fst os = orderedAs c ids \<and> prefix (map fst ds) (deleted c stale) \<and> (ds \<noteq> [] \<longrightarrow> (\<forall>q \<in> set os. \<not> isl (snd q))) \<and>
      (\<not> isl r \<longrightarrow> r = Inr (oneOutput ''thumbnailIds'' (VInt64s ids)) \<and> (\<forall>q \<in> set (os @ ds). \<not> isl (snd q)) \<and> map fst ds = deleted c stale))"
  by (rule replaceThumbnails_log [OF assms])

definition exThumbs :: ExperienceThumbnailsInputs where
  "exThumbs = \<lparr>tFiles = [''a.png'', ''b.png''], tFileHashes = []\<rparr>"

lemma exThumbsRun: "\<exists>out w'. replaceThumbnails (exProvEnv 9) exCtx (InThumbnails exThumbs) [5] [] = (Inr out, w') \<and> length w' = 4"
  by (simp add: replaceThumbnails_def decodeInputs_def exThumbs_def readFile_def exProvEnv_def exCloud_def exAnswer_def mapError_def Let_def)

theorem thumbnails_replaced_witness:
  "\<exists>ids os ds w'. replaceThumbnails (exProvEnv 9) exCtx (InThumbnails exThumbs) [5] [] = (Inr (oneOutput ''thumbnailIds'' (VInt64s ids)), w') \<and>
     w' = uploaded (exProvEnv 9) exCtx [''a.png'', ''b.png''] ids @ os @ ds \<and> length ids = 2 \<and> map fst ds = [DeleteUniverseThumbnail 9 5]"
proof -
  obtain out w' where r: "replaceThumbnails (exProvEnv 9) exCtx (InThumbnails exThumbs) [5] [] = (Inr out, w')"
    using exThumbsRun by blast
  from thumbnails_replaced [OF exLogging r] obtain ids os ds where
    "w' = uploaded (exProvEnv 9) exCtx (tFiles exThumbs) ids @ os @ ds" "length ids = length (tFiles exThumbs)"
    "out = oneOutput ''thumbnailIds'' (VInt64s ids)" "map fst ds = deleted exCtx [5]" by auto
  with r show ?thesis
    by (intro exI [of _ ids] exI [of _ os] exI [of _ ds] exI [of _ w'] conjI) (simp_all add: exThumbs_def deleted_def exCtx_def)
qed

end
