(* ===== verification/Cloud_Client.thy ===== *)
theory Cloud_Client
  imports Deploy_Providers Dotenv Go_Strconv
begin

text \<open>
  The Open Cloud client (\<open>src/internal/cloud\<close>): the transport with its retries and back-off, polling of operations and
  the requests of the endpoints that a deployment uses.

  Outside the source are an argument each: the HTTP client, the context, timers, random numbers and the clock, the JSON
  encoder and decoder, the multipart writer, the MIME table and the URL functions. The rate limiter counts with
  floating-point numbers and is an argument as well. Durations are the 64-bit integers of \<open>time.Duration\<close>, in
  nanoseconds, with the wrap-around written out.
\<close>

section \<open>Durations\<close>

definition int64 :: "int \<Rightarrow> int" where
  "int64 n = (n + 2 ^ 63) mod 2 ^ 64 - 2 ^ 63"

definition Second :: int where "Second = 1000000000"
definition Millisecond :: int where "Millisecond = 1000000"

lemma int64_id: "- (2 ^ 63) \<le> n \<Longrightarrow> n < 2 ^ 63 \<Longrightarrow> int64 n = n"
  by (simp add: int64_def)

lemma int64_jitter: "0 \<le> x \<Longrightarrow> x < d \<Longrightarrow> d < 2 ^ 62 \<Longrightarrow> int64 (d div 2 + x) = d div 2 + x"
  by (rule int64_id) simp_all

text \<open>\<open>strconv.Atoi\<close>.\<close>

definition signedVal :: "bool \<Rightarrow> string \<Rightarrow> int option" where
  "signedVal neg s = (case ParseUint s of None \<Rightarrow> None
     | Some n \<Rightarrow> if neg then (if n > 2 ^ 63 then None else Some (- int n)) else (if n \<ge> 2 ^ 63 then None else Some (int n)))"

fun Atoi :: "string \<Rightarrow> int option" where
  "Atoi [] = None"
| "Atoi (c # s) = (if c = CHR ''-'' then signedVal True s else if c = CHR ''+'' then signedVal False s else signedVal False (c # s))"

section \<open>The client\<close>

record Client =
  apiKey :: string
  baseURL :: string
  userAgent :: string
  maxAttempts :: int
  retryBase :: int
  retryCap :: int
  pollBase :: int
  pollCap :: int

definition defaultBaseURL :: string where "defaultBaseURL = ''https://apis.roblox.com''"

definition NewClient :: "string \<Rightarrow> Client" where
  "NewClient key = \<lparr>apiKey = key, baseURL = defaultBaseURL, userAgent = ''rotor'', maxAttempts = 5,
     retryBase = 500 * Millisecond, retryCap = 30 * Second, pollBase = 500 * Millisecond, pollCap = 8 * Second\<rparr>"

definition WithBaseURL :: "string \<Rightarrow> Client \<Rightarrow> Client" where
  "WithBaseURL u c = c\<lparr>baseURL := rev (dropWhile (\<lambda>x. x = CHR ''/'') (rev u))\<rparr>"

definition WithUserAgent :: "string \<Rightarrow> Client \<Rightarrow> Client" where
  "WithUserAgent ua c = c\<lparr>userAgent := ua\<rparr>"

text \<open>\<open>None\<close> is \<open>ErrNoAPIKey\<close>; the argument is the value of the environment variable, empty when unset.\<close>

definition FromEnv :: "string \<Rightarrow> Client option" where
  "FromEnv key = (if key = [] then None else Some (NewClient key))"

section \<open>Errors\<close>

record APIError =
  StatusCode :: int
  Code :: string
  Message :: string
  retryAfterHint :: int

datatype cloud_error =
  API APIError | NetError string | CtxError string | DecodingError string string string | MarshalError string

text \<open>The struct that \<open>parseAPIError\<close> decodes a body into; raw JSON values as their text.\<close>

record error_shape =
  shCode :: string
  shMessage :: string
  shError :: string
  shErrors :: "(string \<times> string) list"

record operation =
  opPath :: string
  opDone :: bool
  opError :: "(string \<times> string) option"
  opResponse :: string

record httpRequest =
  hrMethod :: string
  hrURL :: string
  hrHeader :: "(string \<times> string) list"
  hrBody :: "string option"

record httpResponse =
  rsStatus :: int
  rsRetryAfter :: string
  rsBody :: "string + string"

record 'w net =
  HttpDo :: "httpRequest \<Rightarrow> 'w \<Rightarrow> (string + httpResponse) \<times> 'w"
  NewRequestErr :: "string \<Rightarrow> string \<Rightarrow> string option"
  CtxErr :: "'w \<Rightarrow> string option"
  AwaitTimer :: "int \<Rightarrow> 'w \<Rightarrow> string option \<times> 'w"
  LimiterWait :: "string \<Rightarrow> 'w \<Rightarrow> string option \<times> 'w"
  RandN :: "int \<Rightarrow> 'w \<Rightarrow> int \<times> 'w"
  UntilTime :: "string \<Rightarrow> 'w \<Rightarrow> int option"
  UrlHost :: "string \<Rightarrow> string option"
  EncodeQuery :: "(string \<times> string) list \<Rightarrow> string"
  ErrorShape :: "string \<Rightarrow> error_shape option"
  JSONString :: "string \<Rightarrow> string option"
  DecodeOperation :: "string \<Rightarrow> string + operation"
  MarshalRequest :: "request \<Rightarrow> string + string"
  DecodeID :: "request \<Rightarrow> string \<Rightarrow> string + int"
  MarshalAsset :: "createAsset \<Rightarrow> string + string"
  Multipart :: "((string \<times> string) list \<times> string) list \<Rightarrow> 'w \<Rightarrow> (string + string \<times> string) \<times> 'w"
  TypeByExtension :: "string \<Rightarrow> string"
  QuoteGo :: "string \<Rightarrow> string"

definition rawToString :: "'w net \<Rightarrow> string \<Rightarrow> string" where
  "rawToString net raw = (if raw = [] then [] else (case JSONString net raw of Some s \<Rightarrow> s | None \<Rightarrow> TrimSpace raw))"

definition parseAPIError :: "'w net \<Rightarrow> int \<Rightarrow> string \<Rightarrow> APIError" where
  "parseAPIError net status body =
     (case ErrorShape net body of
        None \<Rightarrow> \<lparr>StatusCode = status, Code = [], Message = [], retryAfterHint = 0\<rparr>
      | Some sh \<Rightarrow>
          (let code1 = rawToString net (shCode sh);
               code2 = (if code1 = [] then rawToString net (shError sh) else code1);
               (code, msg) = (if code2 = [] \<and> shMessage sh = [] then
                   (case shErrors sh of [] \<Rightarrow> (code2, shMessage sh) | (c, m) # _ \<Rightarrow> (rawToString net c, m))
                 else (code2, shMessage sh)) in
           \<lparr>StatusCode = status, Code = code, Message = msg, retryAfterHint = 0\<rparr>))"

section \<open>Transport\<close>

definition sleep :: "'w net \<Rightarrow> int \<Rightarrow> 'w \<Rightarrow> string option \<times> 'w" where
  "sleep net d w = (if d \<le> 0 then (CtxErr net w, w) else AwaitTimer net d w)"

definition retryAfter :: "'w net \<Rightarrow> string \<Rightarrow> 'w \<Rightarrow> int" where
  "retryAfter net v w =
     (if v = [] then 0
      else (case Atoi v of
          Some secs \<Rightarrow> if secs < 0 then 0 else int64 (secs * Second)
        | None \<Rightarrow> (case UntilTime net v w of Some d \<Rightarrow> if d > 0 then d else 0 | None \<Rightarrow> 0)))"

definition backoff :: "'w net \<Rightarrow> Client \<Rightarrow> nat \<Rightarrow> cloud_error option \<Rightarrow> 'w \<Rightarrow> int \<times> 'w" where
  "backoff net c n lastErr w =
     (let hint = (case lastErr of Some (API e) \<Rightarrow> retryAfterHint e | _ \<Rightarrow> 0) in
      if hint > 0 then (hint, w)
      else (let d = int64 (retryBase c * 2 ^ n); d = (if d > retryCap c then retryCap c else d) in
        if d \<le> 0 then (0, w) else (let (r, w1) = RandN net d w in (int64 (d div 2 + r), w1))))"

definition hostOf :: "'w net \<Rightarrow> string \<Rightarrow> string" where
  "hostOf net u = (case UrlHost net u of None \<Rightarrow> u | Some h \<Rightarrow> if h = [] then u else h)"

definition setHeaders :: "Client \<Rightarrow> string \<Rightarrow> (string \<times> string) list" where
  "setHeaders c contentType = [(''x-api-key'', apiKey c), (''User-Agent'', userAgent c)] @
     (if contentType \<noteq> [] then [(''Content-Type'', contentType)] else [])"

definition urlOf :: "'w net \<Rightarrow> Client \<Rightarrow> string \<Rightarrow> (string \<times> string) list \<Rightarrow> string" where
  "urlOf net c path query = baseURL c @ path @ (if query \<noteq> [] then ''?'' @ EncodeQuery net query else [])"

definition requestOf :: "'w net \<Rightarrow> Client \<Rightarrow> string \<Rightarrow> string \<Rightarrow> (string \<times> string) list \<Rightarrow> string \<Rightarrow> string option \<Rightarrow> httpRequest" where
  "requestOf net c method path query contentType body =
     \<lparr>hrMethod = method, hrURL = urlOf net c path query, hrHeader = setHeaders c contentType, hrBody = body\<rparr>"

text \<open>What one try finds: the error or answer to return, or the error of a try that is to be repeated.\<close>

datatype 'o tryResult = Return "cloud_error + 'o" | Retry cloud_error

text \<open>The answer of the server. \<open>out\<close> is the zero value and the decoder of the variable the answer goes to; \<open>None\<close> is the
  nil pointer.\<close>

definition judge :: "'w net \<Rightarrow> string \<Rightarrow> string \<Rightarrow> 'o \<Rightarrow> (string \<Rightarrow> string + 'o) option \<Rightarrow> string + httpResponse \<Rightarrow> 'w \<Rightarrow> 'o tryResult" where
  "judge net method path zero out answer w =
     (case answer of
        Inl e \<Rightarrow> (case CtxErr net w of Some ce \<Rightarrow> Return (Inl (CtxError ce)) | None \<Rightarrow> Retry (NetError e))
      | Inr resp \<Rightarrow>
          (case rsBody resp of
             Inl e \<Rightarrow> Retry (NetError e)
           | Inr body \<Rightarrow>
               if rsStatus resp \<ge> 200 \<and> rsStatus resp < 300 then
                 (case out of
                    None \<Rightarrow> Return (Inr zero)
                  | Some decode \<Rightarrow>
                      if body = [] then Return (Inr zero)
                      else (case decode body of Inl e \<Rightarrow> Return (Inl (DecodingError method path e)) | Inr x \<Rightarrow> Return (Inr x)))
               else if rsStatus resp = 429 \<or> rsStatus resp \<ge> 500 then
                 Retry (API ((parseAPIError net (rsStatus resp) body)\<lparr>retryAfterHint := retryAfter net (rsRetryAfter resp) w\<rparr>))
               else Return (Inl (API (parseAPIError net (rsStatus resp) body)))))"

text \<open>The pause before every try but the first.\<close>

definition pause :: "'w net \<Rightarrow> Client \<Rightarrow> nat \<Rightarrow> cloud_error option \<Rightarrow> 'w \<Rightarrow> string option \<times> 'w" where
  "pause net c attempt lastErr w =
     (if attempt > 0 then (let (d, w0) = backoff net c (attempt - 1) lastErr w in sleep net d w0) else (None, w))"

fun doLoop :: "'w net \<Rightarrow> Client \<Rightarrow> httpRequest \<Rightarrow> string \<Rightarrow> 'o \<Rightarrow> (string \<Rightarrow> string + 'o) option \<Rightarrow> nat \<Rightarrow> nat \<Rightarrow> cloud_error option \<Rightarrow> 'w \<Rightarrow>
    (cloud_error + 'o) \<times> 'w" where
  "doLoop net c req path zero out 0 attempt lastErr w = (case lastErr of None \<Rightarrow> Inr zero | Some e \<Rightarrow> Inl e, w)"
| "doLoop net c req path zero out (Suc left) attempt lastErr w =
     (let (slept, w1) = pause net c attempt lastErr w in
      case slept of Some e \<Rightarrow> (Inl (CtxError e), w1)
      | None \<Rightarrow>
          (let (limited, w2) = LimiterWait net (hostOf net (hrURL req)) w1 in
           case limited of Some e \<Rightarrow> (Inl (CtxError e), w2)
           | None \<Rightarrow>
               (case NewRequestErr net (hrMethod req) (hrURL req) of Some e \<Rightarrow> (Inl (NetError e), w2)
                | None \<Rightarrow>
                    (let (answer, w3) = HttpDo net req w2 in
                     case judge net (hrMethod req) path zero out answer w3 of
                       Return r \<Rightarrow> (r, w3)
                     | Retry e \<Rightarrow> doLoop net c req path zero out left (Suc attempt) (Some e) w3))))"

text \<open>\<open>do\<close>.\<close>

definition doRequest :: "'w net \<Rightarrow> Client \<Rightarrow> string \<Rightarrow> string \<Rightarrow> (string \<times> string) list \<Rightarrow> string \<Rightarrow> string option \<Rightarrow> 'o \<Rightarrow>
    (string \<Rightarrow> string + 'o) option \<Rightarrow> 'w \<Rightarrow> (cloud_error + 'o) \<times> 'w" where
  "doRequest net c method path query contentType body zero out w =
     doLoop net c (requestOf net c method path query contentType body) path zero out (nat (maxAttempts c)) 0 None w"

definition doJSON :: "'w net \<Rightarrow> Client \<Rightarrow> string \<Rightarrow> string \<Rightarrow> (string \<times> string) list \<Rightarrow> (string + string) option \<Rightarrow> 'o \<Rightarrow>
    (string \<Rightarrow> string + 'o) option \<Rightarrow> 'w \<Rightarrow> (cloud_error + 'o) \<times> 'w" where
  "doJSON net c method path query marshalled zero out w =
     (case marshalled of
        None \<Rightarrow> doRequest net c method path query [] None zero out w
      | Some (Inl e) \<Rightarrow> (Inl (MarshalError e), w)
      | Some (Inr body) \<Rightarrow> doRequest net c method path query ''application/json'' (Some body) zero out w)"

section \<open>Operations\<close>

definition operationsPathPrefix :: string where "operationsPathPrefix = ''/assets/v1/''"

definition zeroOperation :: operation where
  "zeroOperation = \<lparr>opPath = [], opDone = False, opError = None, opResponse = []\<rparr>"

definition pollOnce :: "'w net \<Rightarrow> Client \<Rightarrow> string \<Rightarrow> 'w \<Rightarrow> (cloud_error + operation) \<times> 'w" where
  "pollOnce net c path w = doRequest net c ''GET'' (operationsPathPrefix @ path) [] [] None zeroOperation (Some (DecodeOperation net)) w"

definition finished :: "'w net \<Rightarrow> 'o \<Rightarrow> (string \<Rightarrow> string + 'o) option \<Rightarrow> operation \<Rightarrow> cloud_error + 'o" where
  "finished net zero into op =
     (case opError op of
        Some (code, msg) \<Rightarrow> Inl (API \<lparr>StatusCode = 0, Code = rawToString net code, Message = msg, retryAfterHint = 0\<rparr>)
      | None \<Rightarrow> (case into of None \<Rightarrow> Inr zero
          | Some decode \<Rightarrow> if opResponse op = [] then Inr zero else (case decode (opResponse op) of Inl e \<Rightarrow> Inl (MarshalError e) | Inr x \<Rightarrow> Inr x)))"

definition nextDelay :: "Client \<Rightarrow> int \<Rightarrow> int" where
  "nextDelay c delay = (if int64 (delay * 2) > pollCap c then pollCap c else int64 (delay * 2))"

partial_function (option) pollLoop :: "'w net \<Rightarrow> Client \<Rightarrow> string \<Rightarrow> 'o \<Rightarrow> (string \<Rightarrow> string + 'o) option \<Rightarrow> int \<Rightarrow> 'w \<Rightarrow>
    ((cloud_error + 'o) \<times> 'w) option" where
  "pollLoop net c path zero into delay w =
     (case pollOnce net c path w of
        (Inl e, w1) \<Rightarrow> Some (Inl e, w1)
      | (Inr op, w1) \<Rightarrow>
          if opDone op then Some (finished net zero into op, w1)
          else (case sleep net delay w1 of
              (Some e, w2) \<Rightarrow> Some (Inl (CtxError e), w2)
            | (None, w2) \<Rightarrow> pollLoop net c path zero into (nextDelay c delay) w2))"

text \<open>\<open>PollOperation\<close>; \<open>None\<close> when it polls for ever.\<close>

definition pollOperation :: "'w net \<Rightarrow> Client \<Rightarrow> string \<Rightarrow> 'o \<Rightarrow> (string \<Rightarrow> string + 'o) option \<Rightarrow> 'w \<Rightarrow> ((cloud_error + 'o) \<times> 'w) option" where
  "pollOperation net c path zero into w = pollLoop net c path zero into (pollBase c) w"

section \<open>Endpoints\<close>

text \<open>\<open>fmt.Sprintf\<close> with the verb \<open>%d\<close> for every argument.\<close>

fun sprintd :: "string \<Rightarrow> int list \<Rightarrow> string" where
  "sprintd [] ns = []"
| "sprintd [c] ns = [c]"
| "sprintd (c # d # s) ns =
     (if c = CHR ''%'' \<and> d = CHR ''d'' \<and> ns \<noteq> [] then FormatInt (hd ns) @ sprintd s (tl ns) else c # sprintd (d # s) ns)"

definition assetCreatePath :: string where "assetCreatePath = ''/assets/v1/assets''"
definition assetUpdatePathFmt :: string where "assetUpdatePathFmt = ''/assets/v1/assets/%d''"
definition assetDeliveryPathFmt :: string where "assetDeliveryPathFmt = ''/asset-delivery-api/v1/assetId/%d''"
definition badgeCreatePathFmt :: string where "badgeCreatePathFmt = ''/legacy-badges/v1/universes/%d/badges''"
definition badgeUpdatePathFmt :: string where "badgeUpdatePathFmt = ''/legacy-badges/v1/badges/%d''"
definition gamePassCreatePathFmt :: string where "gamePassCreatePathFmt = ''/legacy-game-passes/v1/universes/%d/game-passes''"
definition gamePassUpdatePathFmt :: string where "gamePassUpdatePathFmt = ''/legacy-game-passes/v1/game-passes/%d''"
definition placePathFmt :: string where "placePathFmt = ''/cloud/v2/universes/%d/places/%d''"
definition placePublishPathFmt :: string where "placePublishPathFmt = ''/universes/v1/%d/places/%d/versions''"
definition developerProductCreatePathFmt :: string where "developerProductCreatePathFmt = ''/developer-products/v1/universes/%d/developerproducts''"
definition developerProductUpdatePathFmt :: string where "developerProductUpdatePathFmt = ''/developer-products/v1/universes/%d/developerproducts/%d''"
definition universeIconPathFmt :: string where "universeIconPathFmt = ''/universes/v1/%d/icon''"
definition universeThumbnailPathFmt :: string where "universeThumbnailPathFmt = ''/universes/v1/%d/thumbnails''"
definition universeThumbnailOrderPathFmt :: string where "universeThumbnailOrderPathFmt = ''/universes/v1/%d/thumbnails/order''"
definition universeThumbnailDeletePathFmt :: string where "universeThumbnailDeletePathFmt = ''/universes/v1/%d/thumbnails/%d''"
definition socialLinkCreatePathFmt :: string where "socialLinkCreatePathFmt = ''/legacy-develop/v1/universes/%d/social-links''"
definition socialLinkByIDPathFmt :: string where "socialLinkByIDPathFmt = ''/legacy-develop/v1/universes/%d/social-links/%d''"
definition universePathFmt :: string where "universePathFmt = ''/cloud/v2/universes/%d''"

definition fileContentType :: "'w net \<Rightarrow> string \<Rightarrow> string" where
  "fileContentType net fileName =
     (let ext = ToLower (Ext fileName) in
      if ext = ''.tga'' then ''image/tga''
      else if TypeByExtension net ext \<noteq> [] then TypeByExtension net ext
      else ''application/octet-stream'')"

definition filePart :: "'w net \<Rightarrow> string \<Rightarrow> string \<Rightarrow> string \<Rightarrow> (string \<times> string) list \<times> string" where
  "filePart net field fileName data =
     ([(''Content-Disposition'', ''form-data; name='' @ [CHR 0x22] @ field @ [CHR 0x22] @ ''; filename='' @ QuoteGo net fileName),
       (''Content-Type'', fileContentType net fileName)], data)"

definition singleFileMultipart :: "'w net \<Rightarrow> string \<Rightarrow> string \<Rightarrow> 'w \<Rightarrow> (cloud_error + string \<times> string) \<times> 'w" where
  "singleFileMultipart net fileName data w = mapError MarshalError (Multipart net [filePart net ''file'' fileName data] w)"

definition assetMultipart :: "'w net \<Rightarrow> string \<Rightarrow> string \<Rightarrow> string \<Rightarrow> 'w \<Rightarrow> (cloud_error + string \<times> string) \<times> 'w" where
  "assetMultipart net reqJSON fileName data w = mapError MarshalError (Multipart net
     [([(''Content-Disposition'', ''form-data; name='' @ [CHR 0x22] @ ''request'' @ [CHR 0x22]), (''Content-Type'', ''application/json'')], reqJSON),
      filePart net ''fileContent'' fileName data] w)"

text \<open>An upload of one file, which answers with the id of the image.\<close>

definition uploadImage :: "'w net \<Rightarrow> Client \<Rightarrow> request \<Rightarrow> string \<Rightarrow> string \<Rightarrow> string \<Rightarrow> 'w \<Rightarrow> (cloud_error + int) \<times> 'w" where
  "uploadImage net c req path fileName data w =
     andThen (singleFileMultipart net fileName data w) (\<lambda>(body, contentType) w.
       doRequest net c ''POST'' path [] contentType (Some body) 0 (Some (DecodeID net req)) w)"

definition sendJSON :: "'w net \<Rightarrow> Client \<Rightarrow> request \<Rightarrow> string \<Rightarrow> string \<Rightarrow> (string \<times> string) list \<Rightarrow> 'w \<Rightarrow> (cloud_error + int) \<times> 'w" where
  "sendJSON net c req method path query w = doJSON net c method path query (Some (MarshalRequest net req)) 0 (Some (DecodeID net req)) w"

definition deleteAt :: "'w net \<Rightarrow> Client \<Rightarrow> string \<Rightarrow> 'w \<Rightarrow> (cloud_error + int) \<times> 'w" where
  "deleteAt net c path w = doRequest net c ''DELETE'' path [] [] None 0 None w"

text \<open>The methods of the client that \<open>CloudClient\<close> names.\<close>

definition sendUpdateUniverse :: "'w net \<Rightarrow> Client \<Rightarrow> int \<Rightarrow> Universe \<Rightarrow> string list \<Rightarrow> 'w \<Rightarrow> (cloud_error + int) \<times> 'w" where
  "sendUpdateUniverse net c u uni fs w = sendJSON net c (UpdateUniverse u uni fs) ''PATCH'' (sprintd universePathFmt [u]) [(''updateMask'', Join fs '','')] w"

definition sendUpdatePlace :: "'w net \<Rightarrow> Client \<Rightarrow> int \<Rightarrow> int \<Rightarrow> Place \<Rightarrow> string list \<Rightarrow> 'w \<Rightarrow> (cloud_error + int) \<times> 'w" where
  "sendUpdatePlace net c u p pl fs w = sendJSON net c (UpdatePlace u p pl fs) ''PATCH'' (sprintd placePathFmt [u, p]) [(''updateMask'', Join fs '','')] w"

definition sendPublishPlaceVersion :: "'w net \<Rightarrow> Client \<Rightarrow> int \<Rightarrow> int \<Rightarrow> string \<Rightarrow> string \<Rightarrow> 'w \<Rightarrow> (cloud_error + int) \<times> 'w" where
  "sendPublishPlaceVersion net c u p versionType data w = doRequest net c ''POST'' (sprintd placePublishPathFmt [u, p]) [(''versionType'', versionType)] ''application/octet-stream'' (Some data) 0
       (Some (DecodeID net (PublishPlaceVersion u p versionType data))) w"

definition sendCreateBadge :: "'w net \<Rightarrow> Client \<Rightarrow> int \<Rightarrow> string \<Rightarrow> string \<Rightarrow> 'w \<Rightarrow> (cloud_error + int) \<times> 'w" where
  "sendCreateBadge net c u nm desc w = sendJSON net c (CreateBadge u nm desc) ''POST'' (sprintd badgeCreatePathFmt [u]) [] w"

definition sendUpdateBadge :: "'w net \<Rightarrow> Client \<Rightarrow> int \<Rightarrow> string \<Rightarrow> string \<Rightarrow> bool option \<Rightarrow> 'w \<Rightarrow> (cloud_error + int) \<times> 'w" where
  "sendUpdateBadge net c b nm desc en w = sendJSON net c (UpdateBadge b nm desc en) ''PATCH'' (sprintd badgeUpdatePathFmt [b]) [] w"

definition sendCreateGamePass :: "'w net \<Rightarrow> Client \<Rightarrow> int \<Rightarrow> string \<Rightarrow> string \<Rightarrow> int option \<Rightarrow> 'w \<Rightarrow> (cloud_error + int) \<times> 'w" where
  "sendCreateGamePass net c u nm desc price w = sendJSON net c (CreateGamePass u nm desc price) ''POST'' (sprintd gamePassCreatePathFmt [u]) [] w"

definition sendUpdateGamePass :: "'w net \<Rightarrow> Client \<Rightarrow> int \<Rightarrow> string \<Rightarrow> string \<Rightarrow> int option \<Rightarrow> bool option \<Rightarrow> 'w \<Rightarrow> (cloud_error + int) \<times> 'w" where
  "sendUpdateGamePass net c g nm desc price sale w = sendJSON net c (UpdateGamePass g nm desc price sale) ''PATCH'' (sprintd gamePassUpdatePathFmt [g]) [] w"

definition sendUploadUniverseIcon :: "'w net \<Rightarrow> Client \<Rightarrow> int \<Rightarrow> string \<Rightarrow> string \<Rightarrow> 'w \<Rightarrow> (cloud_error + int) \<times> 'w" where
  "sendUploadUniverseIcon net c u nm data w = uploadImage net c (UploadUniverseIcon u nm data) (sprintd universeIconPathFmt [u]) nm data w"

definition sendUploadUniverseThumbnail :: "'w net \<Rightarrow> Client \<Rightarrow> int \<Rightarrow> string \<Rightarrow> string \<Rightarrow> 'w \<Rightarrow> (cloud_error + int) \<times> 'w" where
  "sendUploadUniverseThumbnail net c u nm data w = uploadImage net c (UploadUniverseThumbnail u nm data) (sprintd universeThumbnailPathFmt [u]) nm data w"

definition sendSetUniverseThumbnailOrder :: "'w net \<Rightarrow> Client \<Rightarrow> int \<Rightarrow> int list \<Rightarrow> 'w \<Rightarrow> (cloud_error + int) \<times> 'w" where
  "sendSetUniverseThumbnailOrder net c u ids w = doJSON net c ''POST'' (sprintd universeThumbnailOrderPathFmt [u]) [] (Some (MarshalRequest net (SetUniverseThumbnailOrder u ids))) 0 None w"

definition sendDeleteUniverseThumbnail :: "'w net \<Rightarrow> Client \<Rightarrow> int \<Rightarrow> int \<Rightarrow> 'w \<Rightarrow> (cloud_error + int) \<times> 'w" where
  "sendDeleteUniverseThumbnail net c u t w = deleteAt net c (sprintd universeThumbnailDeletePathFmt [u, t]) w"

definition sendCreateDeveloperProduct :: "'w net \<Rightarrow> Client \<Rightarrow> int \<Rightarrow> string \<Rightarrow> string \<Rightarrow> int \<Rightarrow> 'w \<Rightarrow> (cloud_error + int) \<times> 'w" where
  "sendCreateDeveloperProduct net c u nm desc price w = sendJSON net c (CreateDeveloperProduct u nm desc price) ''POST'' (sprintd developerProductCreatePathFmt [u]) [] w"

definition sendUpdateDeveloperProduct :: "'w net \<Rightarrow> Client \<Rightarrow> int \<Rightarrow> int \<Rightarrow> string \<Rightarrow> string \<Rightarrow> int \<Rightarrow> 'w \<Rightarrow> (cloud_error + int) \<times> 'w" where
  "sendUpdateDeveloperProduct net c u p nm desc price w = sendJSON net c (UpdateDeveloperProduct u p nm desc price) ''PATCH'' (sprintd developerProductUpdatePathFmt [u, p]) [] w"

definition sendCreateSocialLink :: "'w net \<Rightarrow> Client \<Rightarrow> int \<Rightarrow> string \<Rightarrow> string \<Rightarrow> string \<Rightarrow> 'w \<Rightarrow> (cloud_error + int) \<times> 'w" where
  "sendCreateSocialLink net c u title url t w = sendJSON net c (CreateSocialLink u title url t) ''POST'' (sprintd socialLinkCreatePathFmt [u]) [] w"

definition sendUpdateSocialLink :: "'w net \<Rightarrow> Client \<Rightarrow> int \<Rightarrow> int \<Rightarrow> string \<Rightarrow> string \<Rightarrow> string \<Rightarrow> 'w \<Rightarrow> (cloud_error + int) \<times> 'w" where
  "sendUpdateSocialLink net c u l title url t w = sendJSON net c (UpdateSocialLink u l title url t) ''PATCH'' (sprintd socialLinkByIDPathFmt [u, l]) [] w"

definition sendDeleteSocialLink :: "'w net \<Rightarrow> Client \<Rightarrow> int \<Rightarrow> int \<Rightarrow> 'w \<Rightarrow> (cloud_error + int) \<times> 'w" where
  "sendDeleteSocialLink net c u l w = deleteAt net c (sprintd socialLinkByIDPathFmt [u, l]) w"

text \<open>A request of \<open>CloudClient\<close>; \<open>None\<close> when the polling of an operation never ends.\<close>

fun send :: "'w net \<Rightarrow> Client \<Rightarrow> request \<Rightarrow> 'w \<Rightarrow> ((cloud_error + int) \<times> 'w) option" where
  "send net c (UpdateUniverse u uni fs) w = Some (sendUpdateUniverse net c u uni fs w)"
| "send net c (UpdatePlace u p pl fs) w = Some (sendUpdatePlace net c u p pl fs w)"
| "send net c (PublishPlaceVersion u p versionType data) w = Some (sendPublishPlaceVersion net c u p versionType data w)"
| "send net c (CreateBadge u nm desc) w = Some (sendCreateBadge net c u nm desc w)"
| "send net c (UpdateBadge b nm desc en) w = Some (sendUpdateBadge net c b nm desc en w)"
| "send net c (PollOperation path) w = pollOperation net c path 0 (Some (DecodeID net (PollOperation path))) w"
| "send net c (CreateGamePass u nm desc price) w = Some (sendCreateGamePass net c u nm desc price w)"
| "send net c (UpdateGamePass g nm desc price sale) w = Some (sendUpdateGamePass net c g nm desc price sale w)"
| "send net c (UploadUniverseIcon u nm data) w = Some (sendUploadUniverseIcon net c u nm data w)"
| "send net c (UploadUniverseThumbnail u nm data) w = Some (sendUploadUniverseThumbnail net c u nm data w)"
| "send net c (SetUniverseThumbnailOrder u ids) w = Some (sendSetUniverseThumbnailOrder net c u ids w)"
| "send net c (DeleteUniverseThumbnail u t) w = Some (sendDeleteUniverseThumbnail net c u t w)"
| "send net c (CreateDeveloperProduct u nm desc price) w = Some (sendCreateDeveloperProduct net c u nm desc price w)"
| "send net c (UpdateDeveloperProduct u p nm desc price) w = Some (sendUpdateDeveloperProduct net c u p nm desc price w)"
| "send net c (CreateSocialLink u title url t) w = Some (sendCreateSocialLink net c u title url t w)"
| "send net c (UpdateSocialLink u l title url t) w = Some (sendUpdateSocialLink net c u l title url t w)"
| "send net c (DeleteSocialLink u l) w = Some (sendDeleteSocialLink net c u l w)"

text \<open>\<open>CreateAsset\<close> and \<open>UpdateAssetContent\<close> answer with the path of an operation; the marshalled request part is an argument
  of their common body.\<close>

definition sendAsset :: "'w net \<Rightarrow> Client \<Rightarrow> string \<Rightarrow> string \<Rightarrow> string + string \<Rightarrow> string \<Rightarrow> string \<Rightarrow> 'w \<Rightarrow> (cloud_error + string) \<times> 'w" where
  "sendAsset net c method path marshalled fileName data w =
     andThen (mapError MarshalError (marshalled, w)) (\<lambda>reqJSON w.
     andThen (assetMultipart net reqJSON fileName data w) (\<lambda>(body, contentType) w.
     andThen (doRequest net c method path [] contentType (Some body) zeroOperation (Some (DecodeOperation net)) w) (\<lambda>op w.
       (Inr (opPath op), w))))"

definition sendCreateAsset :: "'w net \<Rightarrow> Client \<Rightarrow> createAsset \<Rightarrow> string \<Rightarrow> string \<Rightarrow> 'w \<Rightarrow> (cloud_error + string) \<times> 'w" where
  "sendCreateAsset net c req fileName data w = sendAsset net c ''POST'' assetCreatePath (MarshalAsset net req) fileName data w"

definition sendUpdateAsset :: "'w net \<Rightarrow> Client \<Rightarrow> int \<Rightarrow> string \<Rightarrow> string \<Rightarrow> 'w \<Rightarrow> (cloud_error + string) \<times> 'w" where
  "sendUpdateAsset net c assetID fileName data w =
     sendAsset net c ''PATCH'' (sprintd assetUpdatePathFmt [assetID])
       (Inr (''{'' @ [CHR 0x22] @ ''assetId'' @ [CHR 0x22] @ '':'' @ [CHR 0x22] @ FormatInt assetID @ [CHR 0x22] @ ''}'')) fileName data w"

text \<open>The first match of \<open>\?id=(\d+)\<close>: its digits.\<close>

fun imageIDText :: "string \<Rightarrow> string option" where
  "imageIDText [] = None"
| "imageIDText (c # s) =
     (if HasPrefix (c # s) ''?id='' \<and> takeWhile digit (drop 4 (c # s)) \<noteq> [] then Some (takeWhile digit (drop 4 (c # s)))
      else imageIDText s)"

datatype resolve_error =
  ResolvingDecal int cloud_error bool | NoLocation int | FetchFailed string | ContentStatus int int | NoImageReference int | BadImageID int

text \<open>The flag of \<open>ResolvingDecal\<close> is the hint that the key lacks a scope.\<close>

definition lacksScope :: "cloud_error \<Rightarrow> bool" where
  "lacksScope e = (case e of API a \<Rightarrow> StatusCode a = 401 \<or> StatusCode a = 403 | _ \<Rightarrow> False)"

definition imageIDOf :: "int \<Rightarrow> httpResponse \<Rightarrow> resolve_error + int" where
  "imageIDOf decalID resp =
     (case rsBody resp of
        Inl e \<Rightarrow> Inl (FetchFailed e)
      | Inr body \<Rightarrow>
          if rsStatus resp < 200 \<or> rsStatus resp \<ge> 300 then Inl (ContentStatus decalID (rsStatus resp))
          else (case imageIDText (take (2 ^ 20) body) of
              None \<Rightarrow> Inl (NoImageReference decalID)
            | Some s \<Rightarrow> (case signedVal False s of None \<Rightarrow> Inl (BadImageID decalID) | Some i \<Rightarrow> Inr i)))"

definition ResolveImageID :: "'w net \<Rightarrow> Client \<Rightarrow> (string \<Rightarrow> string + string) \<Rightarrow> int \<Rightarrow> 'w \<Rightarrow> (resolve_error + int) \<times> 'w" where
  "ResolveImageID net c decodeLocation decalID w =
     andThen (mapError (\<lambda>e. ResolvingDecal decalID e (lacksScope e))
         (doRequest net c ''GET'' (sprintd assetDeliveryPathFmt [decalID]) [] [] None [] (Some decodeLocation) w)) (\<lambda>location w.
       if location = [] then (Inl (NoLocation decalID), w)
       else (case NewRequestErr net ''GET'' location of
           Some e \<Rightarrow> (Inl (FetchFailed e), w)
         | None \<Rightarrow>
             andThen (mapError FetchFailed (HttpDo net \<lparr>hrMethod = ''GET'', hrURL = location, hrHeader = [(''User-Agent'', userAgent c)], hrBody = None\<rparr> w)) (\<lambda>resp w.
               (imageIDOf decalID resp, w))))"

definition GetUniverse :: "'w net \<Rightarrow> Client \<Rightarrow> 'o \<Rightarrow> (string \<Rightarrow> string + 'o) \<Rightarrow> int \<Rightarrow> 'w \<Rightarrow> (cloud_error + 'o) \<times> 'w" where
  "GetUniverse net c zero decode u w = doRequest net c ''GET'' (sprintd universePathFmt [u]) [] [] None zero (Some decode) w"

definition GetPlace :: "'w net \<Rightarrow> Client \<Rightarrow> 'o \<Rightarrow> (string \<Rightarrow> string + 'o) \<Rightarrow> int \<Rightarrow> int \<Rightarrow> 'w \<Rightarrow> (cloud_error + 'o) \<times> 'w" where
  "GetPlace net c zero decode u p w = doRequest net c ''GET'' (sprintd placePathFmt [u, p]) [] [] None zero (Some decode) w"

section \<open>What a call sends\<close>





lemma parse_status [simp]: "StatusCode (parseAPIError net st body) = st"
  by (simp add: parseAPIError_def Let_def split: option.split prod.split)







section \<open>Waiting\<close>

lemma backoff_hint: "lastErr = Some (API e) \<Longrightarrow> retryAfterHint e > 0 \<Longrightarrow> backoff net c n lastErr w = (retryAfterHint e, w)"
  by (simp add: backoff_def)

lemma nextDelay_bounds:
  assumes "0 < delay" "delay \<le> pollCap c" "pollCap c < 2 ^ 62"
  shows "delay \<le> nextDelay c delay \<and> nextDelay c delay \<le> pollCap c \<and> (nextDelay c delay = 2 * delay \<or> nextDelay c delay = pollCap c)"
  using assms int64_id [of "delay * 2"] by (auto simp: nextDelay_def)

lemma pollLoop_returns:
  assumes "\<And>w op w1 d. pollOnce net c path w = (Inr op, w1) \<Longrightarrow> \<not> opDone op \<Longrightarrow> remaining (snd (sleep net d w1)) < (remaining w :: nat)"
  shows "\<exists>r w'. pollLoop net c path zero into delay w = Some (r, w') \<and>
    (\<not> isl r \<longrightarrow> (\<exists>w0 op. pollOnce net c path w0 = (Inr op, w') \<and> opDone op \<and> r = finished net zero into op))"
proof (induction "remaining w" arbitrary: w delay rule: less_induct)
  case less
  obtain p w1 where p: "pollOnce net c path w = (p, w1)" by fastforce
  show ?case
  proof (cases p)
    case (Inr op)
    show ?thesis
    proof (cases "opDone op")
      case True with p Inr show ?thesis by (subst pollLoop.simps) auto
    next
      case False
      obtain s w2 where s: "sleep net delay w1 = (s, w2)" by fastforce
      have "remaining w2 < remaining w" using assms [of w op w1 delay] p Inr False s by simp
      from less [OF this, of "nextDelay c delay"] p Inr False s show ?thesis by (subst pollLoop.simps) (cases s; simp)
    qed
  qed (use p in \<open>subst pollLoop.simps, simp\<close>)
qed

text \<open>A \<open>Retry-After\<close> in seconds is waited for as it is, as long as the nanoseconds fit.\<close>

lemma retryAfter_seconds:
  assumes "int n * Second < 2 ^ 63"
  shows "retryAfter net (FormatUint n) w = int n * Second"
proof -
  have n: "n < 2 ^ 63" using assms by (simp add: Second_def)
  obtain c s where f: "FormatUint n = c # s" "digit c" using FormatUint_value [of n] by (cases "FormatUint n") auto
  from f(2) have "c \<noteq> CHR ''-''" "c \<noteq> CHR ''+''" by (auto simp: digit_def)
  with f n have "Atoi (FormatUint n) = Some (int n)" using ParseUint_FormatUint [of n] by (simp add: signedVal_def)
  then show ?thesis using f(1) int64_id [of "int n * Second"] assms by (simp add: retryAfter_def Second_def)
qed

section \<open>An example for the witnesses\<close>

text \<open>A server that answers the first two requests with status \<open>st\<close> and the text \<open>wait\<close>, and the later ones with status
  200 and the text \<open>done\<close>; the world is the log.\<close>

type_synonym exHttpLog = "(httpRequest \<times> (string + httpResponse)) list"

definition exServer :: "int \<Rightarrow> exHttpLog \<Rightarrow> string + httpResponse" where
  "exServer st w = Inr (if length w < 2 then \<lparr>rsStatus = st, rsRetryAfter = [], rsBody = Inr ''wait''\<rparr>
     else \<lparr>rsStatus = 200, rsRetryAfter = [], rsBody = Inr ''done''\<rparr>)"

definition exNet :: "int \<Rightarrow> exHttpLog net" where
  "exNet st = \<lparr>HttpDo = (\<lambda>req w. (exServer st w, w @ [(req, exServer st w)])), NewRequestErr = (\<lambda>m u. None), CtxErr = (\<lambda>w. None),
     AwaitTimer = (\<lambda>d w. (None, w)), LimiterWait = (\<lambda>h w. (None, w)), RandN = (\<lambda>d w. (0, w)), UntilTime = (\<lambda>v w. None),
     UrlHost = (\<lambda>u. None), EncodeQuery = (\<lambda>q. []), ErrorShape = (\<lambda>b. None), JSONString = (\<lambda>s. None),
     DecodeOperation = (\<lambda>b. Inr \<lparr>opPath = [], opDone = (b = ''done''), opError = None, opResponse = ''7''\<rparr>),
     MarshalRequest = (\<lambda>r. Inr []), DecodeID = (\<lambda>r b. Inr 7), MarshalAsset = (\<lambda>r. Inr []),
     Multipart = (\<lambda>ps w. (Inr ([], []), w)), TypeByExtension = (\<lambda>e. []), QuoteGo = (\<lambda>s. s)\<rparr>"


lemmas exNet_simps = exNet_def exServer_def NewClient_def doRequest_def requestOf_def urlOf_def setHeaders_def pause_def backoff_def sleep_def
  judge_def parseAPIError_def retryAfter_def Millisecond_def Second_def int64_def


lemma exPoll:
  assumes "pollOnce (exNet 200) c path w = (Inr op, w1)" "\<not> opDone op" "maxAttempts c > 0"
  shows "2 - length (snd (sleep (exNet 200) d w1)) < 2 - length w"
proof -
  obtain m where m: "nat (maxAttempts c) = Suc m" using assms(3) by (cases "nat (maxAttempts c)") auto
  show ?thesis using assms(1,2) by (auto simp: pollOnce_def exNet_simps m split: if_splits)
qed

text \<open>The window of the pause for any client whose durations leave room for the shift and the sum.\<close>

lemma backoff_window:
  assumes "\<And>d w. 0 < d \<Longrightarrow> 0 \<le> fst (RandN net d w) \<and> fst (RandN net d w) < d" "0 < retryBase c" "retryBase c * 2 ^ n < 2 ^ 63"
    "0 < retryCap c" "retryCap c < 2 ^ 62"
  shows "case backoff net c n lastErr w of (b, w') \<Rightarrow> (let d = min (retryBase c * 2 ^ n) (retryCap c) in
    if \<exists>e. lastErr = Some (API e) \<and> retryAfterHint e > 0 then \<exists>e. lastErr = Some (API e) \<and> b = retryAfterHint e
    else d div 2 \<le> b \<and> b < d div 2 + d)"
proof (cases "\<exists>e. lastErr = Some (API e) \<and> retryAfterHint e > 0")
  case True then show ?thesis by (auto simp: backoff_def)
next
  case False
  let ?d = "min (retryBase c * 2 ^ n) (retryCap c)"
  have pos: "0 < retryBase c * 2 ^ n" using assms(2) by simp
  have i: "int64 (retryBase c * 2 ^ n) = retryBase c * 2 ^ n" using pos assms(3) by (intro int64_id) simp_all
  have d: "(if int64 (retryBase c * 2 ^ n) > retryCap c then retryCap c else int64 (retryBase c * 2 ^ n)) = ?d" unfolding i by (simp add: min_def)
  have b: "0 < ?d" "?d < 2 ^ 62" using pos assms(4,5) by simp_all
  obtain x w1 where x: "RandN net ?d w = (x, w1)" by fastforce
  with assms(1) [OF b(1), of w] have "0 \<le> x" "x < ?d" by simp_all
  moreover from this b(2) have "int64 (?d div 2 + x) = ?d div 2 + x" by (rule int64_jitter)
  moreover have "backoff net c n lastErr w = (int64 (?d div 2 + x), w1)"
    using False d b(1) x by (auto simp: backoff_def Let_def split: option.split cloud_error.split)
  ultimately show ?thesis using False by (auto simp: Let_def)
qed

section \<open>Properties\<close>



text \<open>C36: for a client made by \<open>NewClient\<close> and every retry number \<open>n\<close> below its number of attempts, the pause before the
  retry is what the server asked for in its last answer, when it asked, and otherwise lies between one half (included) and
  three halves (excluded) of 500 milliseconds times two to the \<open>n\<close>, cut at 30 seconds; neither the shift nor the sum wraps
  around at 64 bits. The random number is assumed to lie in the range it is drawn from.\<close>

theorem backoff_bounds:
  assumes "\<And>d w. 0 < d \<Longrightarrow> 0 \<le> fst (RandN net d w) \<and> fst (RandN net d w) < d" "int n < maxAttempts (NewClient key)"
  shows "case backoff net (NewClient key) n lastErr w of (b, w') \<Rightarrow> (let d = min (500 * Millisecond * 2 ^ n) (30 * Second) in
    if \<exists>e. lastErr = Some (API e) \<and> retryAfterHint e > 0 then \<exists>e. lastErr = Some (API e) \<and> b = retryAfterHint e
    else d div 2 \<le> b \<and> b < d div 2 + d)"
proof -
  have "n < 5" using assms(2) by (simp add: NewClient_def)
  then have "(2 :: int) ^ n \<le> 2 ^ 5" by (intro power_increasing) simp_all
  then show ?thesis using backoff_window [OF assms(1), of "NewClient key" n lastErr w]
    by (simp add: NewClient_def Millisecond_def Second_def)
qed

theorem backoff_bounds_witness:
  "fst (backoff (exNet 503) (NewClient ''k'') 3 None []) \<ge> 2 * Second \<and> fst (backoff (exNet 503) (NewClient ''k'') 3 None []) < 6 * Second"
proof -
  have "case backoff (exNet 503) (NewClient ''k'') 3 None [] of (b, w') \<Rightarrow> (let d = min (500 * Millisecond * 2 ^ 3) (30 * Second) in
    if \<exists>e. None = Some (API e) \<and> retryAfterHint e > 0 then \<exists>e. None = Some (API e) \<and> b = retryAfterHint e
    else d div 2 \<le> b \<and> b < d div 2 + d)"
    by (rule backoff_bounds) (simp_all add: exNet_def NewClient_def)
  then show ?thesis by (simp add: Millisecond_def Second_def split: prod.splits)
qed

text \<open>C31: polling an operation ends: when every poll that finds it unfinished, with the wait after it, brings it closer to
  its end, \<open>PollOperation\<close> returns, and when it succeeds the last poll found the operation finished without an error
  and the result is its response.\<close>

theorem PollOperation_returns:
  assumes "\<And>w op w1 d. pollOnce net c path w = (Inr op, w1) \<Longrightarrow> \<not> opDone op \<Longrightarrow> remaining (snd (sleep net d w1)) < (remaining w :: nat)"
  shows "\<exists>r w'. pollOperation net c path zero into w = Some (r, w') \<and>
    (\<not> isl r \<longrightarrow> (\<exists>w0 op. pollOnce net c path w0 = (Inr op, w') \<and> opDone op \<and> opError op = None \<and> r = finished net zero into op))"
proof -
  obtain r w' where r: "pollLoop net c path zero into (pollBase c) w = Some (r, w')"
    "\<not> isl r \<Longrightarrow> \<exists>w0 op. pollOnce net c path w0 = (Inr op, w') \<and> opDone op \<and> r = finished net zero into op"
    using pollLoop_returns [of net c path remaining zero into "pollBase c" w] assms by blast
  moreover have "opError op = None" if "\<not> isl (finished net zero into op)" for op using that by (auto simp: finished_def split: option.splits)
  ultimately show ?thesis unfolding pollOperation_def by blast
qed

theorem PollOperation_returns_witness:
  "\<exists>r w'. pollOperation (exNet 200) (NewClient ''k'') ''op'' 0 (Some (\<lambda>s. Inr (length s))) [] = Some (r, w')"
proof -
  have m: "0 < maxAttempts (NewClient ''k'')" by (simp add: NewClient_def)
  have "\<exists>r w'. pollOperation (exNet 200) (NewClient ''k'') ''op'' 0 (Some (\<lambda>s. Inr (length s))) [] = Some (r, w') \<and>
    (\<not> isl r \<longrightarrow> (\<exists>w0 op. pollOnce (exNet 200) (NewClient ''k'') ''op'' w0 = (Inr op, w') \<and> opDone op \<and> opError op = None \<and>
      r = finished (exNet 200) 0 (Some (\<lambda>s. Inr (length s))) op))"
    by (rule PollOperation_returns [where remaining = "\<lambda>w. 2 - length w"]) (rule exPoll [OF _ _ m])
  then show ?thesis by blast
qed

end
