(* ===== verification/Deploy_State.thy ===== *)
theory Deploy_State
  imports Deploy_Providers Asset_Store
begin

text \<open>
  The state file of an environment (\<open>src/internal/deploy/state.go\<close>): where it is, loading and saving, and what a deployment
  that saves its state there leaves behind.

  The calls of \<open>os\<close> are those of \<open>FileOps\<close>; the JSON encoder and decoder are arguments. The decoder gives the version and
  the resources, \<open>None\<close> for a file without them.
\<close>

section \<open>Load and save\<close>

definition StatePath :: "string \<Rightarrow> string \<Rightarrow> string" where
  "StatePath projectDir env = PathJoin (PathJoin (PathJoin projectDir ''.rotor'') ''deploy'') (env @ ''.json'')"

datatype state_error =
  ReadingState string | ParsingState | WrongVersion int | CreatingStateDir string | EncodingState | WritingState string

type_synonym 'v rawState = "int \<times> (string \<times> 'v StateEntry) list option"

definition LoadState :: "(string \<Rightarrow> 'w \<Rightarrow> readResult) \<Rightarrow> (string \<Rightarrow> 'v rawState option) \<Rightarrow> string \<Rightarrow> 'w \<Rightarrow> state_error + 'v State" where
  "LoadState ReadFile Unmarshal path w =
     (case ReadFile path w of
        NotExist \<Rightarrow> Inr NewState
      | ReadError e \<Rightarrow> Inl (ReadingState e)
      | Contents data \<Rightarrow>
          (case Unmarshal data of
             None \<Rightarrow> Inl ParsingState
           | Some (version, resources) \<Rightarrow>
               if version \<noteq> stateVersion then Inl (WrongVersion version)
               else Inr \<lparr>Version = version, Resources = (case resources of None \<Rightarrow> [] | Some rs \<Rightarrow> rs)\<rparr>))"

text \<open>\<open>Save\<close>. Filling the temporary file and moving it into place are the calls of \<open>writeFileAtomic\<close> of the lock file, in
  the same order.\<close>

definition SaveStateFile :: "'w FileOps \<Rightarrow> ('v State \<Rightarrow> string option) \<Rightarrow> string \<Rightarrow> 'v State \<Rightarrow> 'w \<Rightarrow> state_error option \<times> 'w" where
  "SaveStateFile os MarshalIndent path st w =
     (case MkdirAll os (Dir path) w of
        (Some e, w) \<Rightarrow> (Some (CreatingStateDir e), w)
      | (None, w) \<Rightarrow>
          (case MarshalIndent st of
             None \<Rightarrow> (Some EncodingState, w)
           | Some data \<Rightarrow>
               (case CreateTemp os (Dir path) ''.state-*.tmp'' w of
                  (Inl e, w) \<Rightarrow> (Some (WritingState e), w)
                | (Inr tmpName, w) \<Rightarrow>
                    (case fillTemp os tmpName path (data @ [LF]) w of
                       (Some e, w) \<Rightarrow> (Some (WritingState e), w)
                     | (None, w) \<Rightarrow> (None, w)))))"

section \<open>The file after a save\<close>

lemma SaveStateFile_written:
  assumes os: "posixFiles files os" and run: "SaveStateFile os MarshalIndent path st w = (err, w')"
    and path: "\<not> HasPrefix (Base path) ''.state-''"
  shows "case MarshalIndent st of None \<Rightarrow> err \<noteq> None \<and> files w' = files w
    | Some data \<Rightarrow> written path (data @ [LF]) (map_option (\<lambda>_. []) err) (files w) (files w')"
proof -
  obtain e w1 where mk: "MkdirAll os (Dir path) w = (e, w1)" by fastforce
  note w1 = posixFilesD(1) [OF os mk]
  show ?thesis
  proof (cases e)
    case (Some x)
    with run mk w1 show ?thesis by (auto simp: SaveStateFile_def written_def split: option.split)
  next
    case None
    show ?thesis
    proof (cases "MarshalIndent st")
      case None' : None
      with None run mk w1 show ?thesis by (auto simp: SaveStateFile_def)
    next
      case m: (Some data)
      obtain r w2 where tmp: "CreateTemp os (Dir path) ''.state-*.tmp'' w1 = (r, w2)" by fastforce
      show ?thesis
      proof (cases r)
        case (Inl x)
        with None m run mk tmp w1 posixFilesD(2) [OF os tmp [unfolded Inl]] show ?thesis by (auto simp: SaveStateFile_def written_def)
      next
        case (Inr t)
        note c = tmp [unfolded Inr]
        obtain f w3 where fill: "fillTemp os t path (data @ [LF]) w2 = (f, w3)" by fastforce
        have "path \<noteq> t" using posixFilesD(5) [OF os c] path by auto
        then have "written path (data @ [LF]) f (files w) (files w3)"
          using written_fillTemp [OF os fill] posixFilesD(3,4) [OF os c] w1 by simp
        moreover have "w' = w3" "err = map_option WritingState f"
          using None m run mk tmp Inr fill by (auto simp: SaveStateFile_def split: option.splits)
        ultimately show ?thesis by (auto simp: m written_def)
      qed
    qed
  qed
qed

text \<open>Two states that plan alike: the same keys with the same input hashes.\<close>

definition sameHashes :: "'v State \<Rightarrow> 'u State \<Rightarrow> bool" where
  "sameHashes a b \<longleftrightarrow> mset (map fst (Resources a)) = mset (map fst (Resources b)) \<and> hashes a = hashes b"

text \<open>What reading the JSON of a state back gives: the version, and per key an entry with the same hash. Outputs may come
  back in another type.\<close>

definition reads_back :: "('v State \<Rightarrow> string option) \<Rightarrow> (string \<Rightarrow> 'v rawState option) \<Rightarrow> bool" where
  "reads_back MarshalIndent Unmarshal \<longleftrightarrow> (\<forall>st data. MarshalIndent st = Some data \<longrightarrow>
     (\<exists>rs. Unmarshal (data @ [LF]) = Some (Version st, Some rs) \<and> sameHashes \<lparr>Version = Version st, Resources = rs\<rparr> st))"

definition state_on_disk :: "('w \<Rightarrow> string \<Rightarrow> string option) \<Rightarrow> (string \<Rightarrow> 'v rawState option) \<Rightarrow> string \<Rightarrow> 'w \<Rightarrow> 'v State \<Rightarrow> bool" where
  "state_on_disk files Unmarshal path w st \<longleftrightarrow>
     (Version st = stateVersion \<longrightarrow> (\<exists>st0. LoadState (readFiles files) Unmarshal path w = Inr st0 \<and> sameHashes st0 st))"

lemma state_on_disk_cong: "files w' path = files w path \<Longrightarrow> state_on_disk files Unmarshal path w' = state_on_disk files Unmarshal path w"
  by (simp add: state_on_disk_def LoadState_def readFiles_def fun_eq_iff)

lemma SaveStateFile_on_disk:
  assumes "posixFiles files os" "reads_back MarshalIndent Unmarshal" "\<not> HasPrefix (Base path) ''.state-''"
    and run: "SaveStateFile os MarshalIndent path st w = (err, w')"
  shows "err = None \<Longrightarrow> state_on_disk files Unmarshal path w' st"
    and "err \<noteq> None \<Longrightarrow> files w' path = files w path"
proof -
  note wr = SaveStateFile_written [OF assms(1) run assms(3)]
  show "files w' path = files w path" if "err \<noteq> None"
    using wr that by (auto simp: written_def split: option.splits)
  show "state_on_disk files Unmarshal path w' st" if e: "err = None"
  proof -
    obtain data where d: "MarshalIndent st = Some data" using wr e by (auto split: option.splits)
    with wr e have f: "files w' path = Some (data @ [LF])" by (simp add: written_def)
    obtain rs where "Unmarshal (data @ [LF]) = Some (Version st, Some rs)" "sameHashes \<lparr>Version = Version st, Resources = rs\<rparr> st"
      using assms(2) d unfolding reads_back_def by blast
    with f e show ?thesis by (auto simp: state_on_disk_def LoadState_def readFiles_def)
  qed
qed

section \<open>A deployment with a state file\<close>

text \<open>The options of a deployment that saves to the file; providers and callback leave the file alone.\<close>

definition savesTo :: "('i, 'v, 'w, 'e) ApplyOptions \<Rightarrow> (state_error \<Rightarrow> 'e) \<Rightarrow> 'w FileOps \<Rightarrow> ('v State \<Rightarrow> string option) \<Rightarrow> string \<Rightarrow> bool" where
  "savesTo aopts wrap os MarshalIndent path \<longleftrightarrow>
     SaveState aopts = Some (\<lambda>st w. let (e, w') = SaveStateFile os MarshalIndent path st w in (map_option wrap e, w'))"

definition keepsFile :: "('i, 'v, 'w, 'e) ApplyOptions \<Rightarrow> ('w \<Rightarrow> string \<Rightarrow> string option) \<Rightarrow> string \<Rightarrow> bool" where
  "keepsFile aopts files path \<longleftrightarrow>
     (\<forall>kind pr. Providers aopts kind = Some pr \<longrightarrow> (\<forall>c i prior w. files (snd (Create pr c i prior w)) path = files w path \<and>
        files (snd (Update pr c i prior w)) path = files w path \<and> files (snd (Delete pr c prior w)) path = files w path)) \<and>
     (\<forall>g r w. OnStep aopts = Some g \<longrightarrow> files (g r w) path = files w path)"

lemma state_file_persistent:
  assumes os: "posixFiles files os" "reads_back MarshalIndent Unmarshal" "\<not> HasPrefix (Base path) ''.state-''"
    and opts: "savesTo aopts wrap os MarshalIndent path" "keepsFile aopts files path"
  shows "persistent aopts (state_on_disk files Unmarshal path)"
proof -
  have keep: "state_on_disk files Unmarshal path w' = state_on_disk files Unmarshal path w" if "files w' path = files w path" for w w'
    by (rule state_on_disk_cong) (rule that)
  let ?f = "\<lambda>st w. let (e, w') = SaveStateFile os MarshalIndent path st w in (map_option wrap e, w')"
  have ok: "state_on_disk files Unmarshal path w' st" if "?f st w = (None, w')" for st w w'
    using SaveStateFile_on_disk(1) [OF os, of st w _ w'] that by (auto simp: Let_def split: prod.splits)
  have bad: "state_on_disk files Unmarshal path w' = state_on_disk files Unmarshal path w" if "?f st w = (Some e, w')" for st w w' e
    using SaveStateFile_on_disk(2) [OF os, of st w _ w'] that by (intro keep) (auto simp: Let_def split: prod.splits)
  show ?thesis unfolding persistent_def
  proof (intro conjI)
    show "\<exists>f. SaveState aopts = Some f \<and> (\<forall>st w w'. f st w = (None, w') \<longrightarrow> state_on_disk files Unmarshal path w' st) \<and>
        (\<forall>st w w' e st0. f st w = (Some e, w') \<longrightarrow> state_on_disk files Unmarshal path w st0 \<longrightarrow> state_on_disk files Unmarshal path w' st0)"
      using opts(1) by (intro exI [of _ ?f] conjI allI impI) (simp add: savesTo_def, erule ok, drule bad, simp)
    have le: "state_on_disk files Unmarshal path w \<le> state_on_disk files Unmarshal path w'" if "files w' path = files w path" for w w'
      by (rule order.eq_iff [THEN iffD1, THEN conjunct2]) (rule keep [OF that])
    show "\<forall>kind pr. Providers aopts kind = Some pr \<longrightarrow> (\<forall>c i prior w.
        state_on_disk files Unmarshal path w \<le> state_on_disk files Unmarshal path (snd (Create pr c i prior w)) \<and>
        state_on_disk files Unmarshal path w \<le> state_on_disk files Unmarshal path (snd (Update pr c i prior w)) \<and>
        state_on_disk files Unmarshal path w \<le> state_on_disk files Unmarshal path (snd (Delete pr c prior w)))"
      using opts(2) unfolding keepsFile_def by (intro allI impI conjI; intro le) blast+
    show "\<forall>g r w. OnStep aopts = Some g \<longrightarrow> state_on_disk files Unmarshal path w \<le> state_on_disk files Unmarshal path (g r w)"
      using opts(2) unfolding keepsFile_def by (intro allI impI; intro le) blast
  qed
qed

lemma planOp_hashes: "hashes a = hashes b \<Longrightarrow> planOp a k h = planOp b k h"
  by (drule fun_cong [of _ _ k], cases "entry a k"; cases "entry b k") (auto simp: planOp_def hashes_def)

lemma liveLoop_same: "hashes a = hashes b \<Longrightarrow> liveLoop h a rs p = liveLoop h b rs p"
  by (induction rs arbitrary: p) (auto simp: planOp_hashes [of a b] split: sum.split)

lemma BuildPlan_same:
  assumes "sameHashes a b"
  shows "BuildPlan h rs (Some a) opts = BuildPlan h rs (Some b) opts"
proof -
  have "mset (filter P (map fst (Resources a))) = mset (filter P (map fst (Resources b)))" for P
    using assms by (metis mset_filter sameHashes_def)
  then have "sort (filter P (map fst (Resources a))) = sort (filter P (map fst (Resources b)))" for P
    by (metis mset_sort properties_for_sort sorted_sort)
  moreover have "liveLoop h a rs p = liveLoop h b rs p" for rs p
    using assms by (intro liveLoop_same) (simp add: sameHashes_def)
  ultimately show ?thesis by (simp only: BuildPlan_def option.case Let_def)
qed

section \<open>An example for the witness\<close>

text \<open>Of the badge and the icon of the example the icon is created and saved and the badge fails.\<close>

definition exSaved :: "nat State" where
  "exSaved = \<lparr>Version = 1, Resources = [(''z/i'', \<lparr>InputsHash = ''h'', Outputs = None\<rparr>)]\<rparr>"

definition exMarshal :: "nat State \<Rightarrow> string option" where
  "exMarshal st = (if Resources st = Resources exSaved \<and> Version st = 1 then Some ''1'' else None)"

definition exUnmarshal :: "string \<Rightarrow> nat rawState option" where
  "exUnmarshal d = (if d = ''1'' @ [LF] then Some (1, Some (Resources exSaved)) else None)"

definition exPath :: string where "exPath = StatePath ''/p'' ''prod''"

definition exFileProvider :: "bool \<Rightarrow> (unit, nat, string \<Rightarrow> string option, string) Provider" where
  "exFileProvider ok = \<lparr>Create = \<lambda>c i prior w. (if ok then Inr None else Inl ''no'', w),
     Update = \<lambda>c i prior w. (if ok then Inr None else Inl ''no'', w), Delete = \<lambda>c prior w. (None, w)\<rparr>"

definition exFileOpts :: "(unit, nat, string \<Rightarrow> string option, string) ApplyOptions" where
  "exFileOpts = \<lparr>Providers = \<lambda>kind. Some (exFileProvider (kind \<noteq> ''badge'')), UniverseID = 1, ProjectDir = ''/p'',
     SaveState = Some (\<lambda>st w. let (e, w') = SaveStateFile memOps exMarshal exPath st w in (map_option (\<lambda>_. ''save'') e, w')), OnStep = None\<rparr>"

lemma exPath: "exPath = ''/p/.rotor/deploy/prod.json''" "Dir exPath = ''/p/.rotor/deploy''" "\<not> HasPrefix (Base exPath) ''.state-''"
  by code_simp+

lemma exReads: "reads_back exMarshal exUnmarshal"
  by (auto simp: reads_back_def exMarshal_def exUnmarshal_def sameHashes_def exSaved_def hashes_def split: if_splits)

lemma exSave: "Resources st = Resources exSaved \<Longrightarrow> Version st = 1 \<Longrightarrow>
  SaveStateFile memOps exMarshal exPath st Map.empty = (None, [exPath \<mapsto> ''1'' @ [LF]])"
proof -
  have "HasPrefix (Base ''/p/.rotor/deploy/.state-'') ''.state-''" by code_simp
  moreover assume "Resources st = Resources exSaved" "Version st = 1"
  ultimately show ?thesis unfolding exPath(2) [unfolded exPath(1)] exPath(1)
    by (simp add: SaveStateFile_def exMarshal_def memOps_def fillTemp_def commitTemp_def exPath(2) [unfolded exPath(1)] fun_eq_iff Let_def)
qed

lemma exFileRun: "\<exists>st' res. Apply exFileOpts exPlan (Some NewState) Map.empty = (None, Some res, Some st', [exPath \<mapsto> ''1'' @ [LF]]) \<and> Created res = 1 \<and> Failed res = 1"
  by (simp add: Apply_def exPlan_def applyStep_def upsertStep_def failedDep_def exFileOpts_def exFileProvider_def save_def NewState_def stateVersion_def
      record_step_def fail_step_def emptyResult_def Ref_def Let_def Key_def mergeOutputs_def putEntry_def exSave exSaved_def)

section \<open>Properties\<close>

text \<open>C21: A deployment that was stopped, at whichever step and for whichever reason, goes on where it was. The state was
  loaded from the file of the environment, planned and applied with saving to this file, and the run ended somehow:
  completely, with failed or skipped steps, or because the file could not be written. Then the file loads again, and
  planning from it proposes only steps of the old plan, and none that was applied.\<close>

theorem state_file_resumes:
  assumes "posixFiles files os" "reads_back MarshalIndent Unmarshal" "\<not> HasPrefix (Base path) ''.state-''"
    "savesTo aopts wrap os MarshalIndent path" "keepsFile aopts files path"
    "LoadState (readFiles files) Unmarshal path w = Inr st" "keys_ok st" "BuildPlan h rs (Some st) opts = Some (Inr p)"
    "Apply aopts p (Some st) w = (err, Some r, Some st', w')"
  shows "\<exists>st1 p'. LoadState (readFiles files) Unmarshal path w' = Inr st1 \<and> BuildPlan h rs (Some st1) opts = Some (Inr p') \<and>
    (\<forall>s \<in> set (Steps p'). StepOp s \<noteq> OpNoop \<longrightarrow> s \<in> set (Steps p) \<and>
       (\<forall>q \<in> set (Results r). ResultStep q = s \<longrightarrow> Status q \<in> {StatusFailed, StatusSkipped}))"
proof -
  have st: "stateOf (Some st) = st" by (simp add: stateOf_def)
  have v: "Version st = stateVersion"
    using assms(6) by (auto simp: LoadState_def NewState_def stateVersion_def split: readResult.splits option.splits if_splits)
  have "state_on_disk files Unmarshal path w st" using assms(6) by (auto simp: state_on_disk_def sameHashes_def)
  from replan_disk [OF assms(8) _ state_file_persistent [OF assms(1-5)] _ assms(9), unfolded st, OF assms(7) this]
  obtain M p' where M: "state_on_disk files Unmarshal path w' M" "Version M = Version st" "BuildPlan h rs (Some M) opts = Some (Inr p')"
    "\<forall>s \<in> set (Steps p'). StepOp s \<noteq> OpNoop \<longrightarrow> s \<in> set (Steps p) \<and>
       (\<forall>q \<in> set (Results r). ResultStep q = s \<longrightarrow> Status q \<in> {StatusFailed, StatusSkipped})" by blast
  then obtain st1 where "LoadState (readFiles files) Unmarshal path w' = Inr st1" "sameHashes st1 M"
    using v by (auto simp: state_on_disk_def)
  with M(3,4) BuildPlan_same [of st1 M h rs opts] show ?thesis by auto
qed

theorem state_file_resumes_witness:
  "\<exists>st1 p'. LoadState (readFiles id) exUnmarshal exPath [exPath \<mapsto> ''1'' @ [LF]] = Inr st1 \<and>
     BuildPlan exHash exResources (Some st1) keepAll = Some (Inr p')"
proof -
  obtain st' r where run: "Apply exFileOpts exPlan (Some NewState) Map.empty = (None, Some r, Some st', [exPath \<mapsto> ''1'' @ [LF]])"
    using exFileRun by blast
  have 1: "savesTo exFileOpts (\<lambda>_. ''save'') memOps exMarshal exPath" by (simp add: savesTo_def exFileOpts_def)
  have 2: "keepsFile exFileOpts id exPath" by (simp add: keepsFile_def exFileOpts_def exFileProvider_def)
  have 3: "LoadState (readFiles id) exUnmarshal exPath Map.empty = Inr NewState" by (simp add: LoadState_def readFiles_def)
  have 4: "keys_ok (NewState :: nat State)" using exState by (simp add: stateOf_def)
  from state_file_resumes [OF posix_memOps exReads exPath(3) 1 2 3 4 exPlan run] show ?thesis by blast
qed

end
