(* ===== verification/Bundle_Data.thy ===== *)
theory Bundle_Data
  imports Render_Text Go_Path Go_Strconv "HOL-Library.List_Lexorder"
begin

text \<open>
  Data files in a bundle (\<open>src/internal/bundle/data.go\<close>): JSON and text files become Luau modules that return a literal.
  The JSON decoder is an argument: the value it decodes and whether more input follows it.
\<close>

section \<open>Literals\<close>

text \<open>What \<open>json.Decoder\<close> with \<open>UseNumber\<close> gives. The map of an object is a list of members with distinct keys.\<close>

datatype dataValue = DNull | DBool bool | DNumber string | DString string | DArray "dataValue list" | DObject "(string \<times> dataValue) list"

definition isDataFile :: "string \<Rightarrow> bool" where
  "isDataFile path \<longleftrightarrow> ToLower (Ext path) \<in> {''.json'', ''.txt'', ''.md''}"

definition escapeByte :: "char \<Rightarrow> string" where
  "escapeByte c =
     (if c = DQUOTE then [BSLASH, DQUOTE] else if c = BSLASH then [BSLASH, BSLASH] else if c = LF then BSLASH # ''n''
      else if c = CR then BSLASH # ''r'' else if c = TAB then BSLASH # ''t''
      else if (of_char c :: nat) < 32 then BSLASH # FormatUint (of_char c) else [c])"

definition luauShortString :: "string \<Rightarrow> string" where
  "luauShortString s = DQUOTE # concat (map escapeByte s) @ [DQUOTE]"

lemma longLevel_bound: "Contains s (closingBracket n) \<or> Contains s (longOpening n) \<Longrightarrow> n < length s"
  by (auto simp: closingBracket_def longOpening_def dest!: Contains_length)

function longLevel :: "string \<Rightarrow> nat \<Rightarrow> nat" where
  "longLevel s level = (if Contains s (closingBracket level) \<or> Contains s (longOpening level) then longLevel s (level + 1) else level)"
  by pat_completeness auto
termination
  by (relation "measure (\<lambda>(s, n). length s - n)") (simp, use longLevel_bound in fastforce)

declare longLevel.simps [simp del]

definition luauLongString :: "string \<Rightarrow> string" where
  "luauLongString s =
     (let eq = replicate (longLevel s 0) (CHR ''='') in ''['' @ eq @ ''['' @ [LF] @ s @ '']'' @ eq @ '']'')"

definition luauReserved :: "string list" where
  "luauReserved = [''and'', ''break'', ''do'', ''else'', ''elseif'', ''end'', ''false'', ''for'', ''function'', ''if'', ''in'', ''local'',
     ''nil'', ''not'', ''or'', ''repeat'', ''return'', ''then'', ''true'', ''until'', ''while'']"

definition isLuauIdent :: "string \<Rightarrow> bool" where
  "isLuauIdent s \<longleftrightarrow> s \<noteq> [] \<and> s \<notin> set luauReserved \<and> isNameStart (hd s) \<and> list_all isNameCont (tl s)"

definition luauKey :: "string \<Rightarrow> string" where
  "luauKey k = (if isLuauIdent k then k else ''['' @ luauShortString k @ '']'')"

definition tabs :: "nat \<Rightarrow> string" where
  "tabs n = replicate n TAB"

function (sequential) writeLuauValue :: "dataValue \<Rightarrow> nat \<Rightarrow> string" where
  "writeLuauValue DNull depth = ''nil''"
| "writeLuauValue (DBool b) depth = (if b then ''true'' else ''false'')"
| "writeLuauValue (DNumber n) depth = n"
| "writeLuauValue (DString s) depth = luauShortString s"
| "writeLuauValue (DArray arr) depth =
     (if arr = [] then ''{}''
      else ''{'' @ [LF] @ concat (map (\<lambda>item. tabs (depth + 1) @ writeLuauValue item (depth + 1) @ '','' @ [LF]) arr) @ tabs depth @ ''}'')"
| "writeLuauValue (DObject obj) depth =
     (let fields = sort_key fst (filter (\<lambda>kv. snd kv \<noteq> DNull) obj) in
      if fields = [] then ''{}''
      else ''{'' @ [LF] @ concat (map (\<lambda>kv. tabs (depth + 1) @ luauKey (fst kv) @ '' = '' @ writeLuauValue (snd kv) (depth + 1) @ '','' @ [LF]) fields) @
        tabs depth @ ''}'')"
  by pat_completeness auto
termination
proof (relation "measure (\<lambda>(v, d). size v)", goal_cases)
  case (2 arr depth item)
  then have "item \<in> set arr" by simp
  then show ?case by (induction arr) auto
next
  case (3 obj depth fields kv)
  then have "kv \<in> set obj" by simp
  then show ?case by (induction obj) auto
qed simp

section \<open>Modules\<close>

definition jsonModuleSource :: "(string \<Rightarrow> (dataValue \<times> bool) option) \<Rightarrow> string \<Rightarrow> string option" where
  "jsonModuleSource Decode content =
     (case Decode content of
        None \<Rightarrow> None
      | Some (v, trailing) \<Rightarrow> if trailing then None else Some (''return '' @ writeLuauValue v 0 @ [LF]))"

definition dataModuleSource :: "(string \<Rightarrow> (dataValue \<times> bool) option) \<Rightarrow> string \<Rightarrow> string \<Rightarrow> string option" where
  "dataModuleSource Decode path content =
     (if ToLower (Ext path) = ''.json'' then jsonModuleSource Decode content
      else Some (''return '' @ luauLongString content @ [LF]))"

section \<open>Reading quoted literals\<close>

text \<open>A text that the scanner passes over inside a quoted string.\<close>

definition skips :: "char \<Rightarrow> string \<Rightarrow> bool" where
  "skips q u \<longleftrightarrow> (\<forall>s pre r p. at s pre (u @ r) \<longrightarrow> (\<exists>t. shortStringLoop q p s = shortStringLoop q p t \<and> at t (pre @ u) r \<and> frame s t))"

lemma skips_Nil: "skips q []"
  by (auto simp: skips_def frame_def)

lemma skips_append: "skips q u \<Longrightarrow> skips q v \<Longrightarrow> skips q (u @ v)"
  unfolding skips_def
proof (intro allI impI)
  fix s pre r p
  assume u: "\<forall>s pre r p. at s pre (u @ r) \<longrightarrow> (\<exists>t. shortStringLoop q p s = shortStringLoop q p t \<and> at t (pre @ u) r \<and> frame s t)"
    and v: "\<forall>s pre r p. at s pre (v @ r) \<longrightarrow> (\<exists>t. shortStringLoop q p s = shortStringLoop q p t \<and> at t (pre @ v) r \<and> frame s t)"
    and a: "at s pre ((u @ v) @ r)"
  from u a obtain t where t: "shortStringLoop q p s = shortStringLoop q p t" "at t (pre @ u) (v @ r)" "frame s t" by fastforce
  from v t(2) obtain t' where "shortStringLoop q p t = shortStringLoop q p t'" "at t' ((pre @ u) @ v) r" "frame t t'" by blast
  with t show "\<exists>t. shortStringLoop q p s = shortStringLoop q p t \<and> at t (pre @ u @ v) r \<and> frame s t" by (auto intro: frame_trans)
qed

lemma skips_plain:
  assumes "c \<noteq> BSLASH" "c \<noteq> q" "c \<noteq> LF"
  shows "skips q [c]"
  unfolding skips_def
proof (intro allI impI)
  fix s pre r p assume a: "at s pre ([c] @ r)"
  then have "shortStringLoop q p s = shortStringLoop q p (advance s)"
    using assms at_atEnd [OF a] at_peek [of s pre c r] by (subst shortStringLoop.simps) simp
  with at_advance [of s pre c r] a frame_advance show "\<exists>t. shortStringLoop q p s = shortStringLoop q p t \<and> at t (pre @ [c]) r \<and> frame s t"
    by auto
qed

lemma skips_escape:
  assumes "e \<noteq> CHR ''z''"
  shows "skips q [BSLASH, e]"
  unfolding skips_def
proof (intro allI impI)
  fix s pre r p assume a: "at s pre ([BSLASH, e] @ r)"
  then have a1: "at (advance s) (pre @ [BSLASH]) (e # r)" using at_advance [of s pre BSLASH "e # r"] by simp
  then have a2: "at (advance (advance s)) ((pre @ [BSLASH]) @ [e]) r" by (rule at_advance)
  have "shortStringLoop q p s = shortStringLoop q p (advance (advance s))"
    using assms at_atEnd [OF a] at_atEnd [OF a1] at_peek [of s pre BSLASH "e # r"] at_peek [OF a1] a
    by (subst shortStringLoop.simps) (simp add: Let_def)
  with a2 show "\<exists>t. shortStringLoop q p s = shortStringLoop q p t \<and> at t (pre @ [BSLASH, e]) r \<and> frame s t"
    by (intro exI [of _ "advance (advance s)"]) (simp add: frame_trans [OF frame_advance frame_advance])
qed

lemma skips_digits: "list_all digit ds \<Longrightarrow> skips DQUOTE ds"
proof (induction ds)
  case (Cons d ds)
  then have "skips DQUOTE [d]" by (intro skips_plain) (auto simp: digit_def)
  with Cons show ?case using skips_append [of DQUOTE "[d]" ds] by simp
qed (simp add: skips_Nil)

lemma skips_escapeByte: "skips DQUOTE (escapeByte c)"
proof -
  have "skips DQUOTE (BSLASH # FormatUint n)" for n
  proof -
    obtain d ds where f: "FormatUint n = d # ds" "digit d" "list_all digit ds"
      using FormatUint_value [of n] by (cases "FormatUint n") auto
    have "d \<noteq> CHR ''z''" using f(2) by (auto simp: digit_def)
    from skips_append [OF skips_escape [OF this] skips_digits [OF f(3)]] f(1) show ?thesis by simp
  qed
  then show ?thesis using skips_escape [of _ DQUOTE] skips_plain [of c DQUOTE] by (auto simp: escapeByte_def)
qed

lemma skips_escaped: "skips DQUOTE (concat (map escapeByte s))"
  by (induction s) (simp_all add: skips_Nil skips_append skips_escapeByte)

lemma reads_escaped:
  assumes "skips DQUOTE v"
  shows "reads (DQUOTE # v @ [DQUOTE]) KString r"
  unfolding reads_def
proof (intro conjI allI impI)
  fix s pre assume a: "at s pre ((DQUOTE # v @ [DQUOTE]) @ r)"
  then have p: "peek s = DQUOTE" using at_peek [of s pre DQUOTE "v @ DQUOTE # r"] by simp
  have a1: "at (advance s) (pre @ [DQUOTE]) (v @ DQUOTE # r)" using a at_advance by simp
  then obtain t where t: "shortStringLoop DQUOTE (pos s) (advance s) = shortStringLoop DQUOTE (pos s) t"
    "at t ((pre @ [DQUOTE]) @ v) (DQUOTE # r)" "frame (advance s) t" using assms unfolding skips_def by blast
  have "shortStringLoop DQUOTE (pos s) t = emit KString (pos s) (advance t)"
    using at_atEnd [OF t(2)] at_peek [OF t(2)] by (subst shortStringLoop.simps) simp
  with t(1) p have "scanOne s = emit KString (pos s) (advance t)"
    by (simp add: scanOne_def Let_def scanShortString_def isSpace_def isNameStart_def isDigit_def)
  moreover have "at (advance t) (((pre @ [DQUOTE]) @ v) @ [DQUOTE]) r" using at_advance [OF t(2)] .
  moreover have "frame s (advance t)" using frame_trans [OF frame_trans [OF frame_advance t(3)] frame_advance] .
  ultimately show "\<exists>t. scanOne s = emit KString (pos s) t \<and> at t (pre @ DQUOTE # v @ [DQUOTE]) r \<and> frame s t"
    by (intro exI [of _ "advance t"]) simp
qed simp

section \<open>What Luau makes of a quoted literal\<close>

text \<open>The escapes of the Luau language: a decimal escape has up to three digits.\<close>

function luauUnescape :: "string \<Rightarrow> string" where
  "luauUnescape s =
     (case s of
        [] \<Rightarrow> []
      | c # t \<Rightarrow>
          if c \<noteq> BSLASH then c # luauUnescape t
          else (case t of
              [] \<Rightarrow> []
            | e # u \<Rightarrow>
                if digit e then (let ds = take 3 (takeWhile digit t) in char_of (decimalVal ds) # luauUnescape (drop (length ds) t))
                else (if e = CHR ''n'' then LF else if e = CHR ''r'' then CR else if e = CHR ''t'' then TAB else e) # luauUnescape u))"
  by pat_completeness auto
termination
  by (relation "measure length") auto

declare luauUnescape.simps [simp del]

lemma luauUnescape_plain [simp]: "luauUnescape [] = []" "c \<noteq> BSLASH \<Longrightarrow> luauUnescape (c # s) = c # luauUnescape s"
  by (subst luauUnescape.simps, simp)+

lemma luauUnescape_escape: "\<not> digit e \<Longrightarrow> luauUnescape (BSLASH # e # u) =
    (if e = CHR ''n'' then LF else if e = CHR ''r'' then CR else if e = CHR ''t'' then TAB else e) # luauUnescape u"
  by (subst luauUnescape.simps) simp

text \<open>The bytes that are written as a decimal escape.\<close>

definition decimalEscaped :: "char \<Rightarrow> bool" where
  "decimalEscaped c \<longleftrightarrow> (of_char c :: nat) < 32 \<and> c \<noteq> LF \<and> c \<noteq> CR \<and> c \<noteq> TAB"

fun safeEscapes :: "string \<Rightarrow> bool" where
  "safeEscapes (c # d # s) = ((decimalEscaped c \<longrightarrow> \<not> digit d) \<and> safeEscapes (d # s))"
| "safeEscapes _ = True"

lemma FormatUint_small: "n < 32 \<Longrightarrow> length (FormatUint n) \<le> 2"
  by (subst FormatUint.simps, simp, subst FormatUint.simps, simp)

lemma luauUnescape_decimal:
  assumes "n < 32" "r = [] \<or> \<not> digit (hd r)"
  shows "luauUnescape (BSLASH # FormatUint n @ r) = char_of n # luauUnescape r"
proof -
  note v = FormatUint_value [of n]
  obtain d ds where f: "FormatUint n = d # ds" "digit d" using v by (cases "FormatUint n") auto
  have "takeWhile digit (FormatUint n @ r) = FormatUint n"
    using v assms(2) by (simp add: list_all_iff takeWhile_append) (cases r; auto)
  then have "take 3 (takeWhile digit (d # ds @ r)) = d # ds" using FormatUint_small [OF assms(1)] f(1) by simp
  then show ?thesis using f v by (subst luauUnescape.simps) (simp add: Let_def)
qed

lemma escapeByte_head: "r = concat (map escapeByte s) \<Longrightarrow> s = [] \<or> \<not> digit (hd s) \<Longrightarrow> r = [] \<or> \<not> digit (hd r)"
  by (cases s) (auto simp: escapeByte_def digit_def)

lemma luauUnescape_escaped: "safeEscapes s \<Longrightarrow> luauUnescape (concat (map escapeByte s)) = s"
proof (induction s)
  case (Cons c s)
  then have ih: "luauUnescape (concat (map escapeByte s)) = s" by (cases s) auto
  show ?case
  proof (cases "decimalEscaped c")
    case True
    have "s = [] \<or> \<not> digit (hd s)" using Cons.prems True by (cases s) auto
    moreover have "escapeByte c = BSLASH # FormatUint (of_char c)" using True by (auto simp: escapeByte_def decimalEscaped_def)
    ultimately show ?thesis using luauUnescape_decimal [of "of_char c" "concat (map escapeByte s)"] escapeByte_head [OF refl, of s] True ih
      by (simp add: decimalEscaped_def)
  next
    case False
    then have "escapeByte c = [BSLASH, DQUOTE] \<and> c = DQUOTE \<or> escapeByte c = [BSLASH, BSLASH] \<and> c = BSLASH \<or> escapeByte c = BSLASH # ''n'' \<and> c = LF \<or>
      escapeByte c = BSLASH # ''r'' \<and> c = CR \<or> escapeByte c = BSLASH # ''t'' \<and> c = TAB \<or> escapeByte c = [c] \<and> c \<noteq> BSLASH"
      by (auto simp: escapeByte_def decimalEscaped_def)
    moreover have "\<not> digit DQUOTE" "\<not> digit BSLASH" "\<not> digit (CHR ''n'')" "\<not> digit (CHR ''r'')" "\<not> digit (CHR ''t'')" by code_simp+
    ultimately show ?thesis using ih by (elim disjE conjE) (simp_all add: luauUnescape_escape)
  qed
qed simp

section \<open>Long literals\<close>

lemma longLevel_safe: "\<not> Contains s (closingBracket (longLevel s n)) \<and> \<not> Contains s (longOpening (longLevel s n))"
  by (induction s n rule: longLevel.induct) (subst (1 2) longLevel.simps, simp)

lemma Contains_Cons_other: "c \<noteq> hd p \<Longrightarrow> p \<noteq> [] \<Longrightarrow> Contains (c # s) p = Contains s p"
  by (cases p) (auto simp: HasPrefix_def)

lemma luauLongString_reads:
  assumes "\<not> HasSuffix s ('']'' @ replicate (longLevel s 0) (CHR ''=''))"
  shows "reads (luauLongString s) KString r"
proof -
  have "\<not> unsafeLevel (LF # s) (longLevel s 0)"
    using longLevel_safe [of s 0] assms Contains_Cons_other [of LF "closingBracket (longLevel s 0)" s]
    by (auto simp: unsafeLevel_def closingBracket_def HasSuffix_iff append_eq_Cons_conv Cons_eq_append_conv)
  from reads_long [OF this] show ?thesis by (simp add: luauLongString_def longOpening_def longClosing_def Let_def)
qed

section \<open>Properties\<close>

text \<open>C34: a string of a JSON data file and the content of a text file come back from the literals that the bundler writes for
  them. The scanner reads the quoted literal as one string token without a diagnostic, and by the escapes of Luau it
  stands for the string, provided no control character is directly followed by a digit; it reads the long literal as
  one string token whose body is the text after the newline that Luau drops, provided the text does not end in the
  beginning of its closing bracket.\<close>

theorem data_literals_read_back:
  "(safeEscapes s \<longrightarrow> kinds_texts (fst (Tokenize (luauShortString s))) = [(KString, luauShortString s), (KEOF, [])] \<and>
      snd (Tokenize (luauShortString s)) = [] \<and> luauUnescape (tl (butlast (luauShortString s))) = s) \<and>
   (\<not> HasSuffix s ('']'' @ replicate (longLevel s 0) (CHR ''='')) \<longrightarrow>
      kinds_texts (fst (Tokenize (luauLongString s))) = [(KString, luauLongString s), (KEOF, [])] \<and>
      snd (Tokenize (luauLongString s)) = [] \<and> longStringBody (luauLongString s) = Some (LF # s))"
proof (intro conjI impI)
  have one: "kinds_texts (fst (Tokenize u)) = [(KString, u), (KEOF, [])] \<and> snd (Tokenize u) = []" if "reads u KString []" for u
    using Tokenize_pieces [of "[(KString, u)]"] that by simp
  note q = one [OF reads_escaped [OF skips_escaped [of s]], folded luauShortString_def]
  then show "kinds_texts (fst (Tokenize (luauShortString s))) = [(KString, luauShortString s), (KEOF, [])]" "snd (Tokenize (luauShortString s)) = []"
    by blast+
  show "luauUnescape (tl (butlast (luauShortString s))) = s" if "safeEscapes s"
    using luauUnescape_escaped [OF that] by (simp add: luauShortString_def butlast_append)
  assume l: "\<not> HasSuffix s ('']'' @ replicate (longLevel s 0) (CHR ''=''))"
  then show "kinds_texts (fst (Tokenize (luauLongString s))) = [(KString, luauLongString s), (KEOF, [])]" "snd (Tokenize (luauLongString s)) = []"
    using one [OF luauLongString_reads] by blast+
  show "longStringBody (luauLongString s) = Some (LF # s)"
    using longStringBody_body [of "longLevel s 0" "LF # s"] by (simp add: luauLongString_def longOpening_def longClosing_def Let_def)
qed

theorem data_literals_read_back_witness:
  "luauUnescape (tl (butlast (luauShortString [CHR 0x01, LF, DQUOTE, BSLASH]))) = [CHR 0x01, LF, DQUOTE, BSLASH] \<and>
   snd (Tokenize (luauLongString ('']]x'' @ [LF]))) = []"
proof -
  have s: "safeEscapes [CHR 0x01, LF, DQUOTE, BSLASH]" by code_simp
  have h: "\<not> HasSuffix ('']]x'' @ [LF]) ('']'' @ replicate (longLevel ('']]x'' @ [LF]) 0) (CHR ''=''))"
    by code_simp
  show ?thesis
    using data_literals_read_back [of "[CHR 0x01, LF, DQUOTE, BSLASH]"] data_literals_read_back [of "'']]x'' @ [LF]"] s h by blast
qed

text \<open>A text file that ends in a closing bracket cannot be bundled: the level of the long literal is chosen by the text
  alone, so the bracket of the text and the closing bracket together close the literal too early, and the module that
  the bundler writes for the file has a syntax error.\<close>

theorem text_ending_in_bracket:
  "dataModuleSource (\<lambda>_. None) ''/notes.md'' ''see [1]'' = Some (''return [['' @ [LF] @ ''see [1]]]'' @ [LF]) \<and>
   (\<exists>f d ds. Parse (''return [['' @ [LF] @ ''see [1]]]'' @ [LF]) = Some (f, d # ds))"
proof -
  have "dataModuleSource (\<lambda>_. None) ''/notes.md'' ''see [1]'' = Some (''return [['' @ [LF] @ ''see [1]]]'' @ [LF])" by code_simp
  moreover have "(case Parse (''return [['' @ [LF] @ ''see [1]]]'' @ [LF]) of None \<Rightarrow> False | Some (f, ds) \<Rightarrow> ds \<noteq> [])" by code_simp
  ultimately show ?thesis by (auto split: option.splits) (metis neq_Nil_conv)
qed

text \<open>A control character before a digit is lost: its escape swallows the digit.\<close>

lemma short_string_swallows_digit:
  "luauShortString [CHR 0x01, CHR ''2''] = [DQUOTE, BSLASH, CHR ''1'', CHR ''2'', DQUOTE] \<and>
   luauUnescape (tl (butlast (luauShortString [CHR 0x01, CHR ''2'']))) = [CHR 0x0C]"
  by code_simp

end
