(* ===== verification/Bundle.thy ===== *)
theory Bundle
  imports Bundle_Data Rojo_Resolver Glob
begin

text \<open>
  The bundler (\<open>src/internal/bundle/bundle.go\<close>, \<open>luaurc.go\<close>): it follows the requires of a Luau file, registers every file
  it reaches as a module and writes one source in which the requires call the loaders of the modules.

  The files, the JSON decoders, \<open>strings.EqualFold\<close> and the lower-case mapping of the path patterns are arguments. The
  map from nodes to replacements of a module is a list of pairs; nodes are compared as values, which is as good as by
  address since their tokens carry their positions. The fuel of \<open>process\<close> counts nested calls.
\<close>

section \<open>State\<close>

type_synonym luaurc = "(string \<times> string) list"

record module =
  modPath :: string
  modId :: nat
  modFile :: cst_file
  modReplace :: "(node \<times> string) list"

record bundleState =
  bModules :: "module list"
  aliasCache :: "(string \<times> luaurc option) list"
  aliasWarns :: "string list"

record bundleEnv =
  bFiles :: fs
  EqualFold :: "string \<Rightarrow> string \<Rightarrow> bool"
  lowerPath :: "string \<Rightarrow> string"
  ParseLuaurc :: "string \<Rightarrow> luaurc option"
  DecodeJSON :: "string \<Rightarrow> (dataValue \<times> bool) option"

record bundleOptions =
  Exclude :: "string list"

datatype bundle_error = AbsFailed | ReadingModule string | BadDataFile string | ModuleParseError string string diagnostic

section \<open>Aliases (\<open>luaurc.go\<close>)\<close>

definition pathsEqual :: "bundleEnv \<Rightarrow> string \<Rightarrow> string \<Rightarrow> bool" where
  "pathsEqual env a b = EqualFold env (Clean a) (Clean b)"

definition loadLuaurc :: "bundleEnv \<Rightarrow> string \<Rightarrow> bundleState \<Rightarrow> luaurc option \<times> bundleState" where
  "loadLuaurc env dir st =
     (case map_of (aliasCache st) dir of
        Some rc \<Rightarrow> (rc, st)
      | None \<Rightarrow>
          (case ReadFile (bFiles env) (PathJoin dir ''.luaurc'') of
             None \<Rightarrow> (None, st\<lparr>aliasCache := (dir, None) # aliasCache st\<rparr>)
           | Some data \<Rightarrow>
               (case ParseLuaurc env data of
                  None \<Rightarrow> (None, st\<lparr>aliasWarns := (if dir \<in> set (aliasWarns st) then aliasWarns st else aliasWarns st @ [dir]),
                      aliasCache := (dir, None) # aliasCache st\<rparr>)
                | Some rc \<Rightarrow> (Some rc, st\<lparr>aliasCache := (dir, Some rc) # aliasCache st\<rparr>))))"

definition aliasBase :: "string \<Rightarrow> string \<Rightarrow> string \<Rightarrow> string" where
  "aliasBase dir target tail =
     (let base = (if IsAbs target then target else PathJoin dir target) in if tail \<noteq> [] then PathJoin base tail else base)"

definition aliasIn :: "luaurc option \<Rightarrow> string \<Rightarrow> string option" where
  "aliasIn rc nm = (case rc of None \<Rightarrow> None
     | Some aliases \<Rightarrow> (case map_of aliases nm of None \<Rightarrow> None | Some target \<Rightarrow> if target \<noteq> [] then Some target else None))"

text \<open>The loop of \<open>resolveAlias\<close> from a directory up to the root of the bundle.\<close>

fun aliasLoop :: "bundleEnv \<Rightarrow> string \<Rightarrow> string \<Rightarrow> string \<Rightarrow> nat \<Rightarrow> string \<Rightarrow> bundleState \<Rightarrow> (string option \<times> bundleState) option" where
  "aliasLoop env root nm tail 0 dir st = None"
| "aliasLoop env root nm tail (Suc k) dir st =
     (let (rc, st1) = loadLuaurc env dir st in
      case aliasIn rc nm of
        Some target \<Rightarrow> Some (Some (aliasBase dir target tail), st1)
      | None \<Rightarrow> if pathsEqual env dir root \<or> Dir dir = dir then Some (None, st1) else aliasLoop env root nm tail k (Dir dir) st1)"

definition splitAlias :: "string \<Rightarrow> string \<times> string" where
  "splitAlias reqPath = (let s = tl reqPath in (takeWhile (\<lambda>c. c \<noteq> CHR ''/'') s, tl (dropWhile (\<lambda>c. c \<noteq> CHR ''/'') s)))"

definition resolveAlias :: "bundleEnv \<Rightarrow> string \<Rightarrow> string \<Rightarrow> string \<Rightarrow> bundleState \<Rightarrow> (string option \<times> bundleState) option" where
  "resolveAlias env root fromFile reqPath st =
     (if \<not> HasPrefix reqPath ''@'' \<or> fst (splitAlias reqPath) = [] then Some (None, st)
      else aliasLoop env root (fst (splitAlias reqPath)) (snd (splitAlias reqPath)) (length (Dir fromFile) + 1) (Dir fromFile) st)"

section \<open>Requires (\<open>bundle.go\<close>)\<close>

definition modulesIdentifier :: string where "modulesIdentifier = ''__ROTOR_BUNDLE''"

fun requireTarget :: "node \<Rightarrow> string option" where
  "requireTarget (Call (Name t) args) =
     (if Text (Token t) \<noteq> ''require'' then None
      else (case args of
          ParenArgs _ lst _ \<Rightarrow> (case Items lst of [String_n s] \<Rightarrow> StringValue s | _ \<Rightarrow> None)
        | String_n s \<Rightarrow> StringValue s
        | _ \<Rightarrow> None))"
| "requireTarget _ = None"

definition bundleIsFile :: "bundleEnv \<Rightarrow> string \<Rightarrow> bool" where
  "bundleIsFile env p \<longleftrightarrow> (case Stat (bFiles env) p of None \<Rightarrow> False | Some kind \<Rightarrow> kind \<noteq> KDir)"

definition resolveBase :: "bundleEnv \<Rightarrow> string \<Rightarrow> string option" where
  "resolveBase env base =
     find (bundleIsFile env) [base @ ''.luau'', base @ ''.lua'', PathJoin base ''init.luau'', PathJoin base ''init.lua'', base]"

definition resolveRequire :: "bundleEnv \<Rightarrow> string \<Rightarrow> string \<Rightarrow> string \<Rightarrow> bundleState \<Rightarrow> (string option \<times> bundleState) option" where
  "resolveRequire env root fromFile reqPath st =
     (if reqPath = [] then Some (None, st)
      else do {
        (base, st) \<leftarrow> resolveAlias env root fromFile reqPath st;
        Some (case base of
            Some b \<Rightarrow> resolveBase env b
          | None \<Rightarrow> if HasPrefix reqPath ''@'' then None else resolveBase env (PathJoin (Dir fromFile) reqPath), st)
      })"

fun excludedBy :: "bundleEnv \<Rightarrow> string option \<Rightarrow> string \<Rightarrow> string list \<Rightarrow> bool option" where
  "excludedBy env rel absPath [] = Some False"
| "excludedBy env rel absPath (g # gs) = do {
     m \<leftarrow> matchGlob (lowerPath env) g absPath;
     if m then Some True
     else do {
       m \<leftarrow> (case rel of None \<Rightarrow> Some False | Some r \<Rightarrow> matchGlob (lowerPath env) g r);
       if m then Some True else excludedBy env rel absPath gs
     }
   }"

definition excluded :: "bundleEnv \<Rightarrow> bundleOptions \<Rightarrow> string \<Rightarrow> string \<Rightarrow> bool option" where
  "excluded env opts root absPath =
     (if Exclude opts = [] then Some False else excludedBy env (Rel root absPath) absPath (Exclude opts))"

section \<open>Modules\<close>

definition loaderCall :: "nat \<Rightarrow> string" where
  "loaderCall i = modulesIdentifier @ ''.load_'' @ FormatUint i @ ''()''"

definition newModule :: "string \<Rightarrow> string \<Rightarrow> bundleState \<Rightarrow> ((bundle_error + nat) \<times> bundleState) option" where
  "newModule absPath text st = do {
     (file, ds) \<leftarrow> Parse text;
     Some (case ds of
         d # _ \<Rightarrow> (Inl (ModuleParseError absPath text d), st)
       | [] \<Rightarrow> (let i = length (bModules st) in
           (Inr i, st\<lparr>bModules := bModules st @ [\<lparr>modPath = absPath, modId = i, modFile = file, modReplace = []\<rparr>]\<rparr>)))
   }"

text \<open>The map \<open>byPath\<close> has the modules under their paths.\<close>

definition byPath :: "string \<Rightarrow> bundleState \<Rightarrow> module option" where
  "byPath absPath st = find (\<lambda>m. modPath m = absPath) (bModules st)"

definition setReplace :: "nat \<Rightarrow> node \<Rightarrow> string \<Rightarrow> bundleState \<Rightarrow> bundleState" where
  "setReplace i n t st = st\<lparr>bModules := (bModules st)[i := (bModules st ! i)\<lparr>modReplace := (n, t) # modReplace (bModules st ! i)\<rparr>]\<rparr>"

text \<open>The function that \<open>process\<close> hands to \<open>EachNode\<close>, over the nodes in order; \<open>proc\<close> is the recursive call.\<close>

fun walkNodes :: "(string \<Rightarrow> bundleState \<Rightarrow> ((bundle_error + nat) \<times> bundleState) option) \<Rightarrow> bundleEnv \<Rightarrow> bundleOptions \<Rightarrow> string \<Rightarrow>
    string \<Rightarrow> nat \<Rightarrow> node list \<Rightarrow> bundleState \<Rightarrow> (bundle_error option \<times> bundleState) option" where
  "walkNodes proc env opts root absPath i [] st = Some (None, st)"
| "walkNodes proc env opts root absPath i (n # ns) st =
     (case requireTarget n of
        None \<Rightarrow> walkNodes proc env opts root absPath i ns st
      | Some reqPath \<Rightarrow> do {
          (resolved, st) \<leftarrow> resolveRequire env root absPath reqPath st;
          case resolved of
            None \<Rightarrow> walkNodes proc env opts root absPath i ns st
          | Some p \<Rightarrow> do {
              ex \<leftarrow> excluded env opts root p;
              if ex then walkNodes proc env opts root absPath i ns st
              else do {
                (dep, st) \<leftarrow> proc p st;
                case dep of
                  Inl e \<Rightarrow> Some (Some e, st)
                | Inr j \<Rightarrow> walkNodes proc env opts root absPath i ns (setReplace i n (loaderCall j) st)
              }
            }
        })"

fun processModule :: "bundleEnv \<Rightarrow> bundleOptions \<Rightarrow> string \<Rightarrow> nat \<Rightarrow> string \<Rightarrow> bundleState \<Rightarrow> ((bundle_error + nat) \<times> bundleState) option" where
  "processModule env opts root 0 absPath st = None"
| "processModule env opts root (Suc k) absPath st =
     (case byPath absPath st of
        Some m \<Rightarrow> Some (Inr (modId m), st)
      | None \<Rightarrow>
          (case ReadFile (bFiles env) absPath of
             None \<Rightarrow> Some (Inl (ReadingModule absPath), st)
           | Some text \<Rightarrow>
               if isDataFile absPath then
                 (case dataModuleSource (DecodeJSON env) absPath text of
                    None \<Rightarrow> Some (Inl (BadDataFile absPath), st)
                  | Some modSrc \<Rightarrow> newModule absPath modSrc st)
               else do {
                 (r, st) \<leftarrow> newModule absPath text st;
                 case r of
                   Inl e \<Rightarrow> Some (Inl e, st)
                 | Inr i \<Rightarrow> do {
                     (err, st) \<leftarrow> walkNodes (processModule env opts root k) env opts root absPath i (EachNode (Body (modFile (bModules st ! i)))) st;
                     Some (case err of Some e \<Rightarrow> Inl e | None \<Rightarrow> Inr i, st)
                   }
               }))"

section \<open>The bundle\<close>

definition moduleText :: "module \<Rightarrow> string" where
  "moduleText m = UnparseWith (map_of (modReplace m)) (Body (modFile m)) @ ref_text (EOFTok (modFile m))"

definition writeLoader :: "nat \<Rightarrow> string" where
  "writeLoader i =
     (let t = modulesIdentifier; n = FormatUint i in
      [TAB] @ ''function '' @ t @ ''.load_'' @ n @ ''()'' @ [LF] @
      [TAB, TAB] @ ''local cached = '' @ t @ ''.cache['' @ n @ '']'' @ [LF] @
      [TAB, TAB] @ ''if cached ~= nil then return cached.value end'' @ [LF] @
      [TAB, TAB] @ ''if '' @ t @ ''.loading['' @ n @ ''] then error('' @ [DQUOTE] @ ''Requested module was required recursively'' @ [DQUOTE] @ '', 2) end'' @ [LF] @
      [TAB, TAB] @ t @ ''.loading['' @ n @ ''] = true'' @ [LF] @
      [TAB, TAB] @ ''local value = impl_'' @ n @ ''()'' @ [LF] @
      [TAB, TAB] @ t @ ''.loading['' @ n @ ''] = nil'' @ [LF] @
      [TAB, TAB] @ t @ ''.cache['' @ n @ ''] = { value = value }'' @ [LF] @
      [TAB, TAB] @ ''return value'' @ [LF] @
      [TAB] @ ''end'' @ [LF])"

definition moduleBlock :: "module \<Rightarrow> string" where
  "moduleBlock m =
     ''do'' @ [LF] @ [TAB] @ ''local function impl_'' @ FormatUint (modId m) @ ''(...)'' @ [LF] @
     moduleText m @ (if HasSuffix (moduleText m) [LF] then [] else [LF]) @
     [TAB] @ ''end'' @ [LF] @ writeLoader (modId m) @ ''end'' @ [LF]"

definition assemble :: "module list \<Rightarrow> nat \<Rightarrow> string" where
  "assemble modules entry =
     ''local '' @ modulesIdentifier @ '' = { cache = {}, loading = {} }'' @ [LF] @
     concat (map moduleBlock modules) @ ''return '' @ loaderCall entry @ [LF]"

definition BundleWith :: "bundleEnv \<Rightarrow> bundleOptions \<Rightarrow> nat \<Rightarrow> string \<Rightarrow> (bundle_error + string) option" where
  "BundleWith env opts k entryPath =
     (case Abs (bFiles env) entryPath of
        None \<Rightarrow> Some (Inl AbsFailed)
      | Some entryAbs \<Rightarrow> do {
          (r, st) \<leftarrow> processModule env opts (Dir entryAbs) k entryAbs \<lparr>bModules = [], aliasCache = [], aliasWarns = []\<rparr>;
          Some (case r of Inl e \<Rightarrow> Inl e | Inr i \<Rightarrow> Inr (assemble (bModules st) i))
        })"

definition BundleDefault :: "bundleEnv \<Rightarrow> nat \<Rightarrow> string \<Rightarrow> (bundle_error + string) option" where
  "BundleDefault env k entryPath = BundleWith env \<lparr>Exclude = []\<rparr> k entryPath"

end
