(* ===== verification/Bundle_Correct.thy ===== *)
theory Bundle_Correct
  imports Bundle
begin

text \<open>
  What a bundle holds: every file that the requires reach is one module, and every require that resolves to a file calls
  the loader of the module of this file. And that bundling ends, also for files that require each other.
\<close>

section \<open>Patterns return\<close>

lemma segmentLoop_returns:
  assumes "mark \<le> si"
  shows "\<exists>r. segmentLoop pr sr pi si star mark = Some r"
  using assms
proof (induction "length sr - mark" arbitrary: pi si star mark rule: less_induct)
  case outer: less
  show ?case using outer.prems
  proof (induction "length pr - pi" arbitrary: pi si star rule: less_induct)
    case less
    show ?case
    proof (cases "si < length sr")
      case si: True
      have m: "\<exists>r. segmentLoop pr sr (pi + 1) (si + 1) star mark = Some r" if "pi < length pr"
        using that less.prems by (intro less.hyps) auto
      have s: "\<exists>r. segmentLoop pr sr (pi + 1) si (Some pi) si = Some r" if "pi < length pr"
      proof (cases "si = mark")
        case True
        then show ?thesis using that less.hyps [of "pi + 1" si "Some pi"] by simp
      next
        case False
        then show ?thesis using that less.prems si by (intro outer.hyps) auto
      qed
      have b: "\<exists>r. segmentLoop pr sr (st + 1) (mark + 1) star (mark + 1) = Some r" for st
        using less.prems si by (intro outer.hyps) auto
      show ?thesis using si m s b by (subst segmentLoop.simps) (auto split: option.split)
    qed (subst segmentLoop.simps, simp)
  qed
qed

lemma matchSegment_returns: "\<exists>b. matchSegment pat s = Some b"
  using segmentLoop_returns [of 0 0 "runes pat" "runes s" 0 None] by (auto simp: matchSegment_def Let_def)

lemma matchSegments_returns: "\<exists>b. matchSegments pat nm = Some b" "\<exists>b. tryFrom pat nm = Some b"
proof (induction pat nm and pat nm rule: matchSegments_tryFrom.induct)
  case (2 p pat nm)
  show ?case
  proof (cases nm)
    case (Cons n ns)
    obtain m where m: "matchSegment p n = Some m" using matchSegment_returns by blast
    show ?thesis using 2 Cons m by (cases m) auto
  qed (use 2 in auto)
next
  case (3 pat nm)
  obtain m where m: "matchSegments pat nm = Some m" using 3(1) by blast
  show ?case using 3(2) [OF m] m by (cases m; cases nm) (auto simp: tryFrom.simps)
qed simp

lemma excludedBy_returns: "\<exists>b. excludedBy env rel p gs = Some b"
proof (induction gs)
  case (Cons x gs)
  have g: "\<exists>b. matchGlob (lowerPath env) x q = Some b" for q using matchSegments_returns by (simp add: matchGlob_def)
  obtain b where b: "matchGlob (lowerPath env) x p = Some b" using g by blast
  have "\<exists>b'. (case rel of None \<Rightarrow> Some False | Some r \<Rightarrow> matchGlob (lowerPath env) x r) = Some b'"
    using g by (cases rel) auto
  then obtain b' where b': "(case rel of None \<Rightarrow> Some False | Some r \<Rightarrow> matchGlob (lowerPath env) x r) = Some b'" by blast
  show ?case using Cons b b' by (cases b; cases b') auto
qed auto

lemma excluded_returns: "\<exists>b. excluded env opts root p = Some b"
  using excludedBy_returns by (auto simp: excluded_def)

section \<open>Aliases without the cache\<close>

definition luaurcOf :: "bundleEnv \<Rightarrow> string \<Rightarrow> luaurc option" where
  "luaurcOf env dir = (case ReadFile (bFiles env) (PathJoin dir ''.luaurc'') of None \<Rightarrow> None | Some data \<Rightarrow> ParseLuaurc env data)"

definition cacheOK :: "bundleEnv \<Rightarrow> bundleState \<Rightarrow> bool" where
  "cacheOK env st \<longleftrightarrow> (\<forall>dir rc. map_of (aliasCache st) dir = Some rc \<longrightarrow> rc = luaurcOf env dir)"

lemma loadLuaurc_pure:
  assumes "cacheOK env st" "loadLuaurc env dir st = (rc, st')"
  shows "rc = luaurcOf env dir \<and> cacheOK env st' \<and> bModules st' = bModules st"
proof (cases "map_of (aliasCache st) dir")
  case None
  have keep: "cacheOK env (st'\<lparr>aliasCache := (dir, luaurcOf env dir) # aliasCache st\<rparr>)" for st'
    using assms(1) by (simp add: cacheOK_def)
  show ?thesis
  proof (cases "ReadFile (bFiles env) (PathJoin dir ''.luaurc'')")
    case n: None
    then have "luaurcOf env dir = None" by (simp add: luaurcOf_def)
    with keep [of st] assms(2) None n show ?thesis by (auto simp: loadLuaurc_def)
  next
    case (Some data)
    then have "luaurcOf env dir = ParseLuaurc env data" by (simp add: luaurcOf_def)
    with keep assms(2) None Some show ?thesis
      by (cases "ParseLuaurc env data") (auto simp: loadLuaurc_def)
  qed
qed (use assms in \<open>auto simp: loadLuaurc_def cacheOK_def\<close>)

fun aliasFrom :: "bundleEnv \<Rightarrow> string \<Rightarrow> string \<Rightarrow> string \<Rightarrow> nat \<Rightarrow> string \<Rightarrow> string option option" where
  "aliasFrom env root nm tail 0 dir = None"
| "aliasFrom env root nm tail (Suc k) dir =
     (case aliasIn (luaurcOf env dir) nm of
        Some target \<Rightarrow> Some (Some (aliasBase dir target tail))
      | None \<Rightarrow> if pathsEqual env dir root \<or> Dir dir = dir then Some None else aliasFrom env root nm tail k (Dir dir))"

lemma aliasLoop_pure:
  "cacheOK env st \<Longrightarrow> \<exists>st'. aliasLoop env root nm tail k dir st = map_option (\<lambda>r. (r, st')) (aliasFrom env root nm tail k dir) \<and>
     cacheOK env st' \<and> bModules st' = bModules st"
proof (induction k arbitrary: dir st)
  case (Suc k)
  obtain rc st1 where l: "loadLuaurc env dir st = (rc, st1)" by fastforce
  note p = loadLuaurc_pure [OF Suc.prems l]
  from Suc.IH [of st1 "Dir dir"] p l show ?case by (auto split: option.splits)
qed auto

definition resolveOf :: "bundleEnv \<Rightarrow> string \<Rightarrow> string \<Rightarrow> string \<Rightarrow> string option option" where
  "resolveOf env root fromFile reqPath =
     (if reqPath = [] then Some None
      else if \<not> HasPrefix reqPath ''@'' then Some (resolveBase env (PathJoin (Dir fromFile) reqPath))
      else if fst (splitAlias reqPath) = [] then Some None
      else map_option (\<lambda>r. case r of None \<Rightarrow> None | Some b \<Rightarrow> resolveBase env b)
        (aliasFrom env root (fst (splitAlias reqPath)) (snd (splitAlias reqPath)) (length (Dir fromFile) + 1) (Dir fromFile)))"

lemma resolveRequire_pure:
  assumes "cacheOK env st"
  shows "\<exists>st'. resolveRequire env root fromFile reqPath st = map_option (\<lambda>r. (r, st')) (resolveOf env root fromFile reqPath) \<and>
     cacheOK env st' \<and> bModules st' = bModules st"
proof (cases "reqPath = [] \<or> \<not> HasPrefix reqPath ''@'' \<or> fst (splitAlias reqPath) = []")
  case True
  with assms show ?thesis by (auto simp: resolveRequire_def resolveOf_def resolveAlias_def intro!: exI [of _ st])
next
  case False
  let ?k = "length (Dir fromFile) + 1"
  obtain st' where s: "aliasLoop env root (fst (splitAlias reqPath)) (snd (splitAlias reqPath)) ?k (Dir fromFile) st =
      map_option (\<lambda>r. (r, st')) (aliasFrom env root (fst (splitAlias reqPath)) (snd (splitAlias reqPath)) ?k (Dir fromFile))"
    "cacheOK env st'" "bModules st' = bModules st" using aliasLoop_pure [OF assms] by blast
  then show ?thesis using False
    by (intro exI [of _ st']) (cases "aliasFrom env root (fst (splitAlias reqPath)) (snd (splitAlias reqPath)) ?k (Dir fromFile)";
        auto simp: resolveRequire_def resolveOf_def resolveAlias_def simp del: aliasLoop.simps aliasFrom.simps split: option.splits)
qed

section \<open>Absolute paths\<close>

lemma IsAbs_Cons: "IsAbs (c # p) \<longleftrightarrow> c = CHR ''/''"
  by (auto simp: IsAbs_def HasPrefix_def)

lemma IsAbs_Clean: "IsAbs p \<Longrightarrow> IsAbs (Clean p)"
  using Clean_rooted_form [of p] by auto

lemma IsAbs_PathJoin: "IsAbs p \<Longrightarrow> IsAbs (PathJoin p q)"
  using IsAbs_Clean [of p] IsAbs_Clean [of "p @ ''/'' @ q"] IsAbs_append [of p] by (auto simp: PathJoin_def IsAbs_def HasPrefix_def)

lemma Dir_abs:
  assumes "IsAbs p"
  obtains ns where "list_all isName ns" "Dir p = rooted ns"
proof -
  obtain q where p: "p = CHR ''/'' # q" using assms by (cases p) (auto simp: IsAbs_def HasPrefix_def)
  have "\<exists>x. dropWhile (\<lambda>c. c \<noteq> CHR ''/'') (rev q @ ''/'') = x @ ''/''"
    by (induction "rev q") (auto simp: dropWhile_append)
  then obtain x where "dropWhile (\<lambda>c. c \<noteq> CHR ''/'') (rev p) = x @ ''/''" by (auto simp: p)
  then have "IsAbs (rev (dropWhile (\<lambda>c. c \<noteq> CHR ''/'') (rev p)))" by (simp add: IsAbs_Cons)
  from Clean_rooted_form [OF this] that show thesis by (auto simp: Dir_def)
qed

lemma aliasFrom_returns: "list_all isName ns \<Longrightarrow> length ns < k \<Longrightarrow> \<exists>r. aliasFrom env root nm tail k (rooted ns) = Some r"
proof (induction k arbitrary: ns)
  case (Suc k)
  show ?case
  proof (cases ns rule: rev_cases)
    case Nil
    have "Dir (rooted []) = rooted []" by code_simp
    with Nil show ?thesis by (auto split: option.split)
  next
    case (snoc ms n)
    with Suc Suc.IH [of ms] show ?thesis by (auto split: option.split)
  qed
qed simp

lemma rooted_length: "list_all isName ns \<Longrightarrow> length ns \<le> length (rooted ns)"
proof (induction ns rule: rev_induct)
  case (snoc n ns)
  then have "n \<noteq> []" by (simp add: isName_def)
  then have "0 < length n" by simp
  with snoc show ?case by (cases "ns = []") (simp_all add: rooted_snoc, simp add: rooted_def)
qed simp

lemma resolveOf_returns:
  assumes "IsAbs fromFile"
  shows "\<exists>r. resolveOf env root fromFile reqPath = Some r"
proof -
  obtain ns where ns: "list_all isName ns" "Dir fromFile = rooted ns" using Dir_abs [OF assms] .
  have "length ns < length (rooted ns) + 1" using rooted_length [OF ns(1)] by simp
  then have "\<exists>r. aliasFrom env root a b (length (Dir fromFile) + 1) (Dir fromFile) = Some r" for a b
    unfolding ns(2) by (rule aliasFrom_returns [OF ns(1)])
  then show ?thesis unfolding resolveOf_def by (metis option.map(2))
qed

lemma resolveBase_abs: "IsAbs base \<Longrightarrow> resolveBase env base = Some p \<Longrightarrow> IsAbs p"
  by (auto simp: resolveBase_def IsAbs_append IsAbs_PathJoin split: if_splits)

lemma aliasFrom_abs: "IsAbs dir \<Longrightarrow> aliasFrom env root nm tail k dir = Some (Some p) \<Longrightarrow> IsAbs p"
proof (induction k arbitrary: dir)
  case (Suc k)
  have "IsAbs (Dir dir)" using Dir_abs [OF Suc.prems(1)] by fastforce
  with Suc show ?case by (auto simp: aliasBase_def Let_def IsAbs_PathJoin split: option.splits if_splits)
qed simp

lemma resolveOf_abs:
  assumes "IsAbs fromFile" "resolveOf env root fromFile reqPath = Some (Some p)"
  shows "IsAbs p"
proof -
  have "IsAbs (Dir fromFile)" using Dir_abs [OF assms(1)] by fastforce
  with assms show ?thesis
    by (auto simp: resolveOf_def simp del: aliasFrom.simps split: if_splits option.splits
        dest: resolveBase_abs [OF IsAbs_PathJoin] resolveBase_abs [OF aliasFrom_abs])
qed

section \<open>What the modules of a bundle are\<close>

text \<open>The file that a require node of a module leads to, the source tree of a module, and the files that the requires
  of an entry file reach.\<close>

definition leadsTo :: "bundleEnv \<Rightarrow> bundleOptions \<Rightarrow> string \<Rightarrow> string \<Rightarrow> node \<Rightarrow> string option" where
  "leadsTo env opts root p n =
     (case requireTarget n of
        None \<Rightarrow> None
      | Some reqPath \<Rightarrow>
          (case resolveOf env root p reqPath of
             Some (Some q) \<Rightarrow> if excluded env opts root q = Some False then Some q else None
           | _ \<Rightarrow> None))"

definition moduleFile :: "bundleEnv \<Rightarrow> string \<Rightarrow> cst_file option" where
  "moduleFile env p = do {
     content \<leftarrow> ReadFile (bFiles env) p;
     s \<leftarrow> (if isDataFile p then dataModuleSource (DecodeJSON env) p content else Some content);
     (f, ds) \<leftarrow> Parse s;
     if ds = [] then Some f else None
   }"

inductive reaches :: "bundleEnv \<Rightarrow> bundleOptions \<Rightarrow> string \<Rightarrow> string \<Rightarrow> string \<Rightarrow> bool" for env opts root e where
  reaches_entry: "reaches env opts root e e"
| reaches_require: "reaches env opts root e p \<Longrightarrow> \<not> isDataFile p \<Longrightarrow> moduleFile env p = Some f \<Longrightarrow>
    n \<in> set (EachNode (Body f)) \<Longrightarrow> leadsTo env opts root p n = Some q \<Longrightarrow> reaches env opts root e q"

text \<open>The invariant of the bundler: what is registered is right, though the requires of the modules that are still
  being walked may be missing.\<close>

definition replaceOK :: "bundleEnv \<Rightarrow> bundleOptions \<Rightarrow> string \<Rightarrow> module list \<Rightarrow> module \<Rightarrow> bool" where
  "replaceOK env opts root ms m \<longleftrightarrow> (\<forall>(n, t) \<in> set (modReplace m). \<not> isDataFile (modPath m) \<and>
     (\<exists>j < length ms. t = loaderCall j \<and> leadsTo env opts root (modPath m) n = Some (modPath (ms ! j))))"

definition sound :: "bundleEnv \<Rightarrow> bundleOptions \<Rightarrow> string \<Rightarrow> string \<Rightarrow> bundleState \<Rightarrow> bool" where
  "sound env opts root e st \<longleftrightarrow>
     cacheOK env st \<and> distinct (map modPath (bModules st)) \<and> (\<forall>i < length (bModules st). modId (bModules st ! i) = i) \<and>
     (\<forall>m \<in> set (bModules st). moduleFile env (modPath m) = Some (modFile m) \<and> reaches env opts root e (modPath m) \<and>
        replaceOK env opts root (bModules st) m)"

definition covered :: "bundleEnv \<Rightarrow> bundleOptions \<Rightarrow> string \<Rightarrow> module \<Rightarrow> bool" where
  "covered env opts root m \<longleftrightarrow> isDataFile (modPath m) \<or>
     (\<forall>n \<in> set (EachNode (Body (modFile m))). leadsTo env opts root (modPath m) n \<noteq> None \<longrightarrow> n \<in> fst ` set (modReplace m))"

definition extends :: "bundleState \<Rightarrow> bundleState \<Rightarrow> bool" where
  "extends st st' \<longleftrightarrow> length (bModules st) \<le> length (bModules st') \<and>
     (\<forall>k < length (bModules st). modPath (bModules st' ! k) = modPath (bModules st ! k) \<and> modFile (bModules st' ! k) = modFile (bModules st ! k) \<and>
        set (modReplace (bModules st ! k)) \<subseteq> set (modReplace (bModules st' ! k)))"

definition coveredFrom :: "bundleEnv \<Rightarrow> bundleOptions \<Rightarrow> string \<Rightarrow> nat \<Rightarrow> bundleState \<Rightarrow> bool" where
  "coveredFrom env opts root l st \<longleftrightarrow> (\<forall>k. l \<le> k \<and> k < length (bModules st) \<longrightarrow> covered env opts root (bModules st ! k))"

definition registers :: "bundleEnv \<Rightarrow> bundleOptions \<Rightarrow> string \<Rightarrow> string \<Rightarrow> bundleState \<Rightarrow> bundleState \<Rightarrow> bool" where
  "registers env opts root e st st' \<longleftrightarrow> sound env opts root e st' \<and> extends st st' \<and> coveredFrom env opts root (length (bModules st)) st'"

lemma extends_refl [simp]: "extends st st"
  by (simp add: extends_def)

lemma extends_trans: "extends s t \<Longrightarrow> extends t u \<Longrightarrow> extends s u"
  by (simp add: extends_def) (meson less_le_trans order_trans)

lemma extends_same: "bModules st' = bModules st \<Longrightarrow> extends st st'"
  by (simp add: extends_def)

lemma extends_covered: "extends s t \<Longrightarrow> k < length (bModules s) \<Longrightarrow> covered env opts root (bModules s ! k) \<Longrightarrow> covered env opts root (bModules t ! k)"
  by (fastforce simp: extends_def covered_def)

lemma registers_refl: "sound env opts root e st \<Longrightarrow> registers env opts root e st st"
  by (auto simp: registers_def coveredFrom_def)

lemma registers_trans:
  assumes "registers env opts root e s t" "registers env opts root e t u"
  shows "registers env opts root e s u"
proof -
  have "covered env opts root (bModules u ! k)" if "length (bModules s) \<le> k" "k < length (bModules u)" for k
    using assms that extends_covered [of t u k] by (cases "k < length (bModules t)") (auto simp: registers_def coveredFrom_def)
  with assms show ?thesis by (auto simp: registers_def coveredFrom_def intro: extends_trans)
qed

lemma sound_same: "sound env opts root e st \<Longrightarrow> cacheOK env st' \<Longrightarrow> bModules st' = bModules st \<Longrightarrow> sound env opts root e st'"
  by (simp add: sound_def)

lemma registers_same: "sound env opts root e st \<Longrightarrow> cacheOK env st' \<Longrightarrow> bModules st' = bModules st \<Longrightarrow> registers env opts root e st st'"
  by (auto simp: registers_def sound_same extends_same coveredFrom_def)

text \<open>Registering a module.\<close>

lemma newModule_registers:
  assumes st: "sound env opts root e st" and new: "byPath p st = None" and r: "reaches env opts root e p"
    and f: "moduleFile env p = Some f" and eq: "bModules st' = bModules st @ [\<lparr>modPath = p, modId = length (bModules st), modFile = f, modReplace = []\<rparr>]"
    and c: "aliasCache st' = aliasCache st"
  shows "sound env opts root e st' \<and> extends st st'"
proof -
  have "p \<notin> modPath ` set (bModules st)" using new by (auto simp: byPath_def find_None_iff)
  moreover have "replaceOK env opts root (bModules st') m" if "replaceOK env opts root (bModules st) m" for m
    using that unfolding replaceOK_def eq by (fastforce simp: nth_append)
  moreover have "replaceOK env opts root (bModules st') \<lparr>modPath = p, modId = length (bModules st), modFile = f, modReplace = []\<rparr>"
    by (simp add: replaceOK_def)
  ultimately show ?thesis using st r f c
    by (auto simp: sound_def eq extends_def nth_append cacheOK_def less_Suc_eq)
qed

text \<open>Recording a replacement.\<close>

lemma setReplace_registers:
  assumes st: "sound env opts root e st" and i: "i < length (bModules st)" "\<not> isDataFile (modPath (bModules st ! i))"
    and j: "j < length (bModules st)" "leadsTo env opts root (modPath (bModules st ! i)) n = Some (modPath (bModules st ! j))"
  shows "registers env opts root e st (setReplace i n (loaderCall j) st)"
    and "n \<in> fst ` set (modReplace (bModules (setReplace i n (loaderCall j) st) ! i))"
proof -
  let ?ms = "bModules st" and ?m = "(bModules st ! i)\<lparr>modReplace := (n, loaderCall j) # modReplace (bModules st ! i)\<rparr>"
  have ms: "bModules (setReplace i n (loaderCall j) st) = ?ms[i := ?m]" by (simp add: setReplace_def)
  have paths: "modPath (?ms[i := ?m] ! k) = modPath (?ms ! k)" "modId (?ms[i := ?m] ! k) = modId (?ms ! k)" if "k < length ?ms" for k
    using that by (cases "k = i"; simp)+
  have mp: "map modPath (?ms[i := ?m]) = map modPath ?ms" using paths(1) by (auto intro!: nth_equalityI)
  have keep: "replaceOK env opts root (?ms[i := ?m]) x" if "replaceOK env opts root ?ms x" for x
    using that paths(1) unfolding replaceOK_def by fastforce
  have "?ms ! i \<in> set ?ms" using i by simp
  with st have old: "moduleFile env (modPath (?ms ! i)) = Some (modFile (?ms ! i))" "reaches env opts root e (modPath (?ms ! i))"
    "replaceOK env opts root ?ms (?ms ! i)" by (auto simp: sound_def)
  then have "replaceOK env opts root (?ms[i := ?m]) ?m" using keep [OF old(3)] i j paths(1) by (auto simp: replaceOK_def)
  then have "\<forall>m \<in> set (?ms[i := ?m]). moduleFile env (modPath m) = Some (modFile m) \<and> reaches env opts root e (modPath m) \<and>
        replaceOK env opts root (?ms[i := ?m]) m"
    using st old keep by (auto simp: sound_def dest!: subsetD [OF set_update_subset_insert])
  then have "sound env opts root e (setReplace i n (loaderCall j) st)"
    using st paths(2) mp by (simp add: sound_def ms cacheOK_def setReplace_def)
  moreover have "extends st (setReplace i n (loaderCall j) st)" unfolding extends_def ms using i(1) by (auto simp: nth_list_update)
  ultimately show "registers env opts root e st (setReplace i n (loaderCall j) st)"
    unfolding registers_def coveredFrom_def ms by auto
  show "n \<in> fst ` set (modReplace (bModules (setReplace i n (loaderCall j) st) ! i))" using i by (simp add: ms)
qed

section \<open>Walking the requires\<close>

text \<open>What \<open>process\<close> promises to the walk over the requires of a module.\<close>

locale module_processor =
  fixes env :: bundleEnv and opts :: bundleOptions and root e :: string
    and proc :: "string \<Rightarrow> bundleState \<Rightarrow> ((bundle_error + nat) \<times> bundleState) option"
  assumes proc_registers: "sound env opts root e st \<Longrightarrow> reaches env opts root e p \<Longrightarrow> proc p st = Some (Inr j, st') \<Longrightarrow>
    registers env opts root e st st' \<and> j < length (bModules st') \<and> modPath (bModules st' ! j) = p"
begin

lemma walkNodes_registers:
  "sound env opts root e st \<Longrightarrow> i < length (bModules st) \<Longrightarrow> modPath (bModules st ! i) = p \<Longrightarrow> \<not> isDataFile p \<Longrightarrow>
    set ns \<subseteq> set (EachNode (Body (modFile (bModules st ! i)))) \<Longrightarrow>
    walkNodes proc env opts root p i ns st = Some (None, st') \<Longrightarrow>
    registers env opts root e st st' \<and> (\<forall>n \<in> set ns. leadsTo env opts root p n \<noteq> None \<longrightarrow> n \<in> fst ` set (modReplace (bModules st' ! i)))"
proof (induction ns arbitrary: st)
  case Nil
  then show ?case by (simp add: registers_refl)
next
  case (Cons n ns)
  have next_step: ?case
    if s: "registers env opts root e st s" and w: "walkNodes proc env opts root p i ns s = Some (None, st')"
      and n: "leadsTo env opts root p n \<noteq> None \<longrightarrow> n \<in> fst ` set (modReplace (bModules s ! i))" for s
  proof -
    have e: "i < length (bModules s)" "modPath (bModules s ! i) = p" "modFile (bModules s ! i) = modFile (bModules st ! i)"
      using s Cons.prems(2,3) by (auto simp: registers_def extends_def)
    have "registers env opts root e s st' \<and> (\<forall>n \<in> set ns. leadsTo env opts root p n \<noteq> None \<longrightarrow> n \<in> fst ` set (modReplace (bModules st' ! i)))"
      using Cons.prems s e w by (intro Cons.IH) (auto simp: registers_def)
    moreover from this have "n \<in> fst ` set (modReplace (bModules st' ! i))" if "n \<in> fst ` set (modReplace (bModules s ! i))"
      using that e(1) by (auto simp: registers_def extends_def)
    ultimately show ?thesis using registers_trans [OF s] n by auto
  qed
  show ?case
  proof (cases "requireTarget n")
    case None
    then show ?thesis using Cons.prems by (intro next_step [of st]) (auto simp: registers_refl leadsTo_def)
  next
    case (Some req)
    obtain s where s: "resolveRequire env root p req st = map_option (\<lambda>r. (r, s)) (resolveOf env root p req)" "cacheOK env s" "bModules s = bModules st"
      using resolveRequire_pure [of env st root p req] Cons.prems(1) unfolding sound_def by blast
    note as = registers_same [OF Cons.prems(1) s(2,3)]
    show ?thesis
    proof (cases "leadsTo env opts root p n")
      case l: None
      have "walkNodes proc env opts root p i ns s = Some (None, st')"
        using Cons.prems(6) Some s(1) l by (auto simp: leadsTo_def split: option.splits if_splits bind_splits)
      then show ?thesis using l by (intro next_step [OF as]) auto
    next
      case (Some q)
      then have q: "resolveOf env root p req = Some (Some q)" "excluded env opts root q = Some False"
        using \<open>requireTarget n = Some req\<close> by (auto simp: leadsTo_def split: option.splits if_splits)
      then obtain j t where t: "proc q s = Some (Inr j, t)" "walkNodes proc env opts root p i ns (setReplace i n (loaderCall j) t) = Some (None, st')"
        using Cons.prems(6) \<open>requireTarget n = Some req\<close> s(1) by (auto split: option.splits if_splits bind_splits sum.splits)
      have m: "bModules st ! i \<in> set (bModules st)" using Cons.prems(2) by simp
      have "reaches env opts root e q"
        using m Cons.prems Some by (intro reaches_require [of env opts root e p "modFile (bModules st ! i)" n q]) (auto simp: sound_def)
      then have a: "registers env opts root e s t" "j < length (bModules t)" "modPath (bModules t ! j) = q"
        using proc_registers [of s q j t] as t(1) by (auto simp: registers_def)
      have st: "registers env opts root e st t" using registers_trans [OF as a(1)] .
      then have i: "i < length (bModules t)" "modPath (bModules t ! i) = p" using Cons.prems(2,3) by (auto simp: registers_def extends_def)
      have "sound env opts root e t" using a(1) by (simp add: registers_def)
      note r = setReplace_registers [OF this i(1) _ a(2), of n, unfolded i(2) a(3), OF Cons.prems(4) Some]
      show ?thesis using r(2) by (intro next_step [OF registers_trans [OF st r(1)] t(2)]) simp
    qed
  qed
qed

end

lemma processModule_registers: "module_processor env opts root e (processModule env opts root k)"
proof (induction k)
  case (Suc k)
  have "registers env opts root e st st' \<and> j < length (bModules st') \<and> modPath (bModules st' ! j) = p"
    if st: "sound env opts root e st" and r: "reaches env opts root e p" and eq: "processModule env opts root (Suc k) p st = Some (Inr j, st')" for p st j st'
  proof (cases "byPath p st")
    case (Some m)
    then obtain l where "l < length (bModules st)" "bModules st ! l = m" "modPath m = p" by (auto simp: byPath_def find_Some_iff)
    then show ?thesis using st eq Some by (auto simp: registers_refl sound_def)
  next
    case None
    obtain content s f ds where c: "ReadFile (bFiles env) p = Some content"
      "(if isDataFile p then dataModuleSource (DecodeJSON env) p content else Some content) = Some s" "Parse s = Some (f, ds)" "ds = []"
      using eq None by (auto simp: newModule_def split: option.splits if_splits bind_splits list.splits)
    then have f: "moduleFile env p = Some f" by (simp add: moduleFile_def)
    let ?i = "length (bModules st)"
    let ?m = "\<lparr>modPath = p, modId = ?i, modFile = f, modReplace = []\<rparr>" and ?s = "st\<lparr>bModules := bModules st @ [\<lparr>modPath = p, modId = length (bModules st), modFile = f, modReplace = []\<rparr>]\<rparr>"
    have new: "newModule p s st = Some (Inr ?i, ?s)" using c by (simp add: newModule_def Let_def)
    have s: "sound env opts root e ?s \<and> extends st ?s" by (rule newModule_registers [OF st None r f]) simp_all
    show ?thesis
    proof (cases "isDataFile p")
      case True
      then have "j = ?i" "st' = ?s" using eq None c new by auto
      then show ?thesis using s True by (auto simp: registers_def coveredFrom_def nth_append less_Suc_eq covered_def)
    next
      case False
      then have w: "walkNodes (processModule env opts root k) env opts root p ?i (EachNode (Body f)) ?s = Some (None, st')" and j: "j = ?i"
        using eq None c new by (auto split: option.splits bind_splits)
      have a: "registers env opts root e ?s st' \<and> (\<forall>n \<in> set (EachNode (Body f)). leadsTo env opts root p n \<noteq> None \<longrightarrow> n \<in> fst ` set (modReplace (bModules st' ! ?i)))"
        by (rule module_processor.walkNodes_registers [OF Suc.IH conjunct1 [OF s] _ _ False _ w]) simp_all
      then have i: "?i < length (bModules st')" "modPath (bModules st' ! ?i) = p" "modFile (bModules st' ! ?i) = f"
        by (auto simp: registers_def extends_def dest!: spec [of _ ?i])
      with a have "covered env opts root (bModules st' ! ?i)" by (simp add: covered_def)
      with a have "coveredFrom env opts root ?i st'" by (auto simp: registers_def coveredFrom_def) (metis Suc_leI le_neq_implies_less)
      with a s i j show ?thesis by (auto simp: registers_def intro: extends_trans)
    qed
  qed
  then show ?case by (rule module_processor.intro)
qed (simp add: module_processor_def)

interpretation bp: module_processor env opts root e "processModule env opts root k" for env opts root e k
  by (rule processModule_registers)

section \<open>Bundling ends\<close>

definition paths :: "bundleState \<Rightarrow> string set" where
  "paths st = modPath ` set (bModules st)"

lemma extends_paths: "extends s t \<Longrightarrow> paths s \<subseteq> paths t"
  by (auto simp: extends_def paths_def set_conv_nth image_iff) (metis less_le_trans)

text \<open>The files that may still become modules.\<close>

definition unread :: "bundleEnv \<Rightarrow> bundleState \<Rightarrow> nat" where
  "unread env st = card ({p. ReadFile (bFiles env) p \<noteq> None} - paths st)"

lemma unread_extends: "finite {p. ReadFile (bFiles env) p \<noteq> None} \<Longrightarrow> extends s t \<Longrightarrow> unread env t \<le> unread env s"
  unfolding unread_def using extends_paths [of s t] by (intro card_mono) auto

locale returning_processor = module_processor +
  fixes k :: nat
  assumes proc_returns: "finite {p. ReadFile (bFiles env) p \<noteq> None} \<Longrightarrow> sound env opts root e st \<Longrightarrow> reaches env opts root e p \<Longrightarrow>
    IsAbs p \<Longrightarrow> unread env st < k \<Longrightarrow> \<exists>r. proc p st = Some r"
begin

lemma walkNodes_returns:
  assumes fin: "finite {p. ReadFile (bFiles env) p \<noteq> None}" and p: "IsAbs p" "\<not> isDataFile p"
  shows "sound env opts root e st \<Longrightarrow> i < length (bModules st) \<Longrightarrow> modPath (bModules st ! i) = p \<Longrightarrow> unread env st < k \<Longrightarrow>
    set ns \<subseteq> set (EachNode (Body (modFile (bModules st ! i)))) \<Longrightarrow> \<exists>r. walkNodes proc env opts root p i ns st = Some r"
proof (induction ns arbitrary: st)
  case (Cons n ns)
  have next_step: "\<exists>r. walkNodes proc env opts root p i ns s = Some r" if s: "registers env opts root e st s" for s
    using Cons.prems unread_extends [OF fin, of st s] s by (intro Cons.IH) (auto simp: registers_def extends_def)
  show ?case
  proof (cases "requireTarget n")
    case None
    then show ?thesis using next_step [OF registers_refl [OF Cons.prems(1)]] by simp
  next
    case (Some req)
    obtain s where s: "resolveRequire env root p req st = map_option (\<lambda>r. (r, s)) (resolveOf env root p req)" "cacheOK env s" "bModules s = bModules st"
      using resolveRequire_pure [of env st root p req] Cons.prems(1) unfolding sound_def by blast
    note as = registers_same [OF Cons.prems(1) s(2,3)]
    obtain r where r: "resolveOf env root p req = Some r" using resolveOf_returns [OF p(1)] by blast
    show ?thesis
    proof (cases "leadsTo env opts root p n")
      case l: None
      obtain w where w: "walkNodes proc env opts root p i ns s = Some w" using next_step [OF as] by blast
      show ?thesis
      proof (cases r)
        case None
        then show ?thesis using Some s(1) r w by simp
      next
        case q: (Some q)
        obtain ex where "excluded env opts root q = Some ex" using excluded_returns by blast
        then show ?thesis using Some s(1) r w l q by (cases ex) (simp_all add: leadsTo_def)
      qed
    next
      case q: (Some q)
      then have e: "r = Some q" "excluded env opts root q = Some False"
        using Some r by (auto simp: leadsTo_def split: option.splits if_splits)
      have m: "bModules st ! i \<in> set (bModules st)" using Cons.prems(2) by simp
      have re: "reaches env opts root e q"
        using m Cons.prems p(2) q by (intro reaches_require [of env opts root e p "modFile (bModules st ! i)" n q]) (auto simp: sound_def)
      have "IsAbs q" using resolveOf_abs [OF p(1)] r e(1) by blast
      then obtain d t where d: "proc q s = Some (d, t)"
        using proc_returns [OF fin, of s q] re as unread_extends [OF fin, of st s] Cons.prems(4) by (fastforce simp: registers_def)
      show ?thesis
      proof (cases d)
        case (Inl err)
        then show ?thesis using Some s(1) r e d by simp
      next
        case (Inr j)
        have a: "registers env opts root e s t" "j < length (bModules t)" "modPath (bModules t ! j) = q"
          using proc_registers [of s q j t] as re d Inr by (auto simp: registers_def)
        have st: "registers env opts root e st t" using registers_trans [OF as a(1)] .
        then have i: "i < length (bModules t)" "modPath (bModules t ! i) = p" using Cons.prems(2,3) by (auto simp: registers_def extends_def)
        have "sound env opts root e t" using a(1) by (simp add: registers_def)
        note r' = setReplace_registers [OF this i(1) _ a(2), of n, unfolded i(2) a(3), OF p(2) q]
        show ?thesis using next_step [OF registers_trans [OF st r'(1)]] Some s(1) r e d Inr by simp
      qed
    qed
  qed
qed simp

end

lemma newModule_returns: "\<exists>r. newModule p s st = Some r"
  by (rule Parse_spec [of s]) (auto simp: newModule_def)

lemma processModule_returns: "returning_processor env opts root e (processModule env opts root k) k"
proof (induction k)
  case (Suc k)
  have "\<exists>r. processModule env opts root (Suc k) p st = Some r"
    if fin: "finite {p. ReadFile (bFiles env) p \<noteq> None}" and st: "sound env opts root e st" and re: "reaches env opts root e p"
      and p: "IsAbs p" and u: "unread env st < Suc k" for p st
  proof (cases "byPath p st = None \<and> (\<exists>content. ReadFile (bFiles env) p = Some content \<and> \<not> isDataFile p)")
    case False
    then show ?thesis using newModule_returns by (auto split: option.splits) 
  next
    case True
    then obtain content where c: "byPath p st = None" "ReadFile (bFiles env) p = Some content" "\<not> isDataFile p" by blast
    obtain r s where r: "newModule p content st = Some (r, s)" using newModule_returns [of p content st] by auto
    show ?thesis
    proof (cases r)
      case (Inl err)
      then show ?thesis using c r by simp
    next
      case (Inr i)
      then obtain f where f: "Parse content = Some (f, [])" "i = length (bModules st)"
        "s = st\<lparr>bModules := bModules st @ [\<lparr>modPath = p, modId = length (bModules st), modFile = f, modReplace = []\<rparr>]\<rparr>"
        using r by (auto simp: newModule_def Let_def split: list.splits bind_splits)
      have "moduleFile env p = Some f" using f c by (simp add: moduleFile_def)
      then have s: "sound env opts root e s \<and> extends st s" using newModule_registers [OF st c(1) re] f(3) by simp
      have "p \<in> {p. ReadFile (bFiles env) p \<noteq> None} - paths st" using c by (auto simp: byPath_def find_None_iff paths_def)
      moreover have "paths s = insert p (paths st)" by (auto simp: paths_def f(3))
      ultimately have "unread env s < unread env st" unfolding unread_def using fin by (intro psubset_card_mono) auto
      then have "\<exists>w. walkNodes (processModule env opts root k) env opts root p i (EachNode (Body (modFile (bModules s ! i)))) s = Some w"
        using u f(2,3) s c(3) p by (intro returning_processor.walkNodes_returns [OF Suc.IH fin]) auto
      then show ?thesis using c r Inr by auto
    qed
  qed
  then show ?case by (intro returning_processor.intro processModule_registers returning_processor_axioms.intro)
qed (simp add: returning_processor_def returning_processor_axioms_def module_processor_def)

interpretation br: returning_processor env opts root e "processModule env opts root k" k for env opts root e k
  by (rule processModule_returns)

section \<open>The bundle\<close>

text \<open>The replacements of a module: a node that is a require of a bundled file is replaced by the call of the loader of
  this file, every other node is kept.\<close>

definition rewired :: "bundleEnv \<Rightarrow> bundleOptions \<Rightarrow> string \<Rightarrow> module list \<Rightarrow> module \<Rightarrow> bool" where
  "rewired env opts root ms m \<longleftrightarrow>
     (\<forall>n \<in> set (EachNode (Body (modFile m))).
        case (if isDataFile (modPath m) then None else leadsTo env opts root (modPath m) n) of
          None \<Rightarrow> map_of (modReplace m) n = None
        | Some p \<Rightarrow> \<exists>m' \<in> set ms. modPath m' = p \<and> map_of (modReplace m) n = Some (loaderCall (modId m')))"

lemma covered_rewired:
  assumes s: "sound env opts root e st" and m: "m \<in> set (bModules st)" and c: "covered env opts root m"
  shows "rewired env opts root (bModules st) m"
proof -
  have r: "\<not> isDataFile (modPath m) \<and> (\<exists>j < length (bModules st). t = loaderCall j \<and> leadsTo env opts root (modPath m) n = Some (modPath (bModules st ! j)))"
    if "map_of (modReplace m) n = Some t" for n t
    using that s m by (fastforce simp: sound_def replaceOK_def dest: map_of_SomeD)
  have id: "modId (bModules st ! j) = j" if "j < length (bModules st)" for j using s that by (simp add: sound_def)
  have "case (if isDataFile (modPath m) then None else leadsTo env opts root (modPath m) n) of
          None \<Rightarrow> map_of (modReplace m) n = None
        | Some p \<Rightarrow> \<exists>m' \<in> set (bModules st). modPath m' = p \<and> map_of (modReplace m) n = Some (loaderCall (modId m'))"
    if n: "n \<in> set (EachNode (Body (modFile m)))" for n
  proof (cases "map_of (modReplace m) n")
    case None
    then have "n \<notin> fst ` set (modReplace m)" by (simp add: map_of_eq_None_iff)
    with c n have "isDataFile (modPath m) \<or> leadsTo env opts root (modPath m) n = None" unfolding covered_def by blast
    with None show ?thesis by auto
  next
    case (Some t)
    from r [OF this] id Some show ?thesis by (auto intro!: bexI [of _ "bModules st ! _"])
  qed
  then show ?thesis by (simp add: rewired_def)
qed

lemma rewired_reaches:
  assumes "\<forall>m \<in> set ms. moduleFile env (modPath m) = Some (modFile m) \<and> rewired env opts root ms m" "e \<in> modPath ` set ms"
    "reaches env opts root e p"
  shows "p \<in> modPath ` set ms"
  using assms(3)
proof induction
  case (reaches_require p f n q)
  then obtain m where m: "m \<in> set ms" "modPath m = p" by blast
  with assms(1) reaches_require have "modFile m = f" by auto
  with m reaches_require assms(1) have "case Some q of None \<Rightarrow> map_of (modReplace m) n = None
      | Some p \<Rightarrow> \<exists>m' \<in> set ms. modPath m' = p \<and> map_of (modReplace m) n = Some (loaderCall (modId m'))"
    unfolding rewired_def by fastforce
  then show ?case by auto
qed (use assms(2) in simp)

text \<open>C19: a bundle has one module for every file that the requires reach from the entry file, and no other; the entry
  file is the first. Every module is parsed from its file, and in its text every require that leads to a file is
  replaced by the call of the loader of the module of this file, while every other node is left as it is.\<close>

theorem bundle_rewires:
  assumes "Abs (bFiles env) entryPath = Some e" "BundleWith env opts k entryPath = Some (Inr result)"
  shows "\<exists>ms. result = assemble ms 0 \<and> ms \<noteq> [] \<and> modPath (ms ! 0) = e \<and> distinct (map modPath ms) \<and>
    modPath ` set ms = {p. reaches env opts (Dir e) e p} \<and> (\<forall>i < length ms. modId (ms ! i) = i) \<and>
    (\<forall>m \<in> set ms. moduleFile env (modPath m) = Some (modFile m) \<and> rewired env opts (Dir e) ms m)"
proof -
  let ?s = "\<lparr>bModules = [], aliasCache = [], aliasWarns = []\<rparr>" and ?r = "Dir e"
  obtain j st where p: "processModule env opts ?r k e ?s = Some (Inr j, st)" "result = assemble (bModules st) j"
    using assms by (auto simp: BundleWith_def split: bind_splits sum.splits)
  have j: "j = 0" using p(1) by (cases k) (auto simp: byPath_def newModule_def split: option.splits if_splits bind_splits list.splits sum.splits)
  have "sound env opts ?r e ?s" by (simp add: sound_def cacheOK_def)
  then have a: "registers env opts ?r e ?s st" "0 < length (bModules st)" "modPath (bModules st ! 0) = e"
    using bp.proc_registers [OF _ reaches_entry p(1)] j by blast+
  then have s: "sound env opts ?r e st" and c: "\<forall>m \<in> set (bModules st). covered env opts ?r m"
    by (auto simp: registers_def coveredFrom_def in_set_conv_nth)
  have m: "\<forall>m \<in> set (bModules st). moduleFile env (modPath m) = Some (modFile m) \<and> rewired env opts ?r (bModules st) m"
    using c covered_rewired [OF s] s unfolding sound_def by blast
  have "e \<in> modPath ` set (bModules st)" using a(2,3) by (metis image_eqI nth_mem)
  then have "modPath ` set (bModules st) = {p. reaches env opts ?r e p}" using rewired_reaches [OF m] s by (auto simp: sound_def)
  then show ?thesis using p(2) j a s m by (intro exI [of _ "bModules st"]) (auto simp: sound_def)
qed

text \<open>C33: bundling ends, also when files require each other: the fuel need only exceed the number of the files that can be
  read, because a file is read once.\<close>

theorem Bundle_returns:
  assumes "finite {p. ReadFile (bFiles env) p \<noteq> None}" "card {p. ReadFile (bFiles env) p \<noteq> None} < k"
    "\<And>wd. Getwd (bFiles env) = Some wd \<Longrightarrow> IsAbs wd"
  shows "\<exists>r. BundleWith env opts k entryPath = Some r"
proof (cases "Abs (bFiles env) entryPath")
  case (Some e)
  let ?s = "\<lparr>bModules = [], aliasCache = [], aliasWarns = []\<rparr>"
  have "IsAbs e" using Some assms(3) by (auto simp: Abs_def IsAbs_Clean IsAbs_PathJoin split: if_splits option.splits)
  moreover have "sound env opts (Dir e) e ?s" by (simp add: sound_def cacheOK_def)
  moreover have "unread env ?s < k" using assms(2) by (simp add: unread_def paths_def)
  ultimately have "\<exists>r. processModule env opts (Dir e) k e ?s = Some r"
    using br.proc_returns [OF assms(1) _ reaches_entry] by blast
  then show ?thesis using Some by (auto simp: BundleWith_def)
qed (simp add: BundleWith_def)

definition sampleEnv :: bundleEnv where
  "sampleEnv = \<lparr>bFiles = \<lparr>Getwd = Some ''/p'', Stat = (\<lambda>p. if p = ''/p/a.luau'' \<or> p = ''/p/b.luau'' then Some KRegular else None), ReadDir = (\<lambda>_. None),
     ReadFile = (\<lambda>p. if p = ''/p/a.luau'' then Some (''return require'' @ [DQUOTE] @ ''./b'' @ [DQUOTE]) else if p = ''/p/b.luau'' then Some (''return require'' @ [DQUOTE] @ ''./a'' @ [DQUOTE]) else None),
     Realpath = id, Tokens = (\<lambda>_. [])\<rparr>, EqualFold = (=), lowerPath = id, ParseLuaurc = (\<lambda>_. None), DecodeJSON = (\<lambda>_. None)\<rparr>"


theorem Bundle_returns_witness: "\<exists>r. BundleWith sampleEnv \<lparr>Exclude = []\<rparr> 3 ''a.luau'' = Some r"
proof (rule Bundle_returns)
  have f: "{p. ReadFile (bFiles sampleEnv) p \<noteq> None} = {''/p/a.luau'', ''/p/b.luau''}" by (auto simp: sampleEnv_def)
  show "finite {p. ReadFile (bFiles sampleEnv) p \<noteq> None}" unfolding f by simp
  show "card {p. ReadFile (bFiles sampleEnv) p \<noteq> None} < 3" unfolding f by (simp add: card_insert_if)
  show "IsAbs wd" if "Getwd (bFiles sampleEnv) = Some wd" for wd using that by (auto simp: sampleEnv_def IsAbs_def HasPrefix_def)
qed

theorem bundle_rewires_witness:
  "\<exists>ms. BundleWith sampleEnv \<lparr>Exclude = []\<rparr> 3 ''a.luau'' = Some (Inr (assemble ms 0)) \<and> modPath (ms ! 0) = ''/p/a.luau'' \<and>
     (\<forall>m \<in> set ms. rewired sampleEnv \<lparr>Exclude = []\<rparr> ''/p'' ms m)"
proof -
  have a: "Abs (bFiles sampleEnv) ''a.luau'' = Some ''/p/a.luau''" "Dir ''/p/a.luau'' = ''/p''" by code_simp+
  have "map_option projr (BundleWith sampleEnv \<lparr>Exclude = []\<rparr> 3 ''a.luau'') \<noteq> None" "map_option isl (BundleWith sampleEnv \<lparr>Exclude = []\<rparr> 3 ''a.luau'') \<noteq> Some True"
    by code_simp+
  then obtain r where r: "BundleWith sampleEnv \<lparr>Exclude = []\<rparr> 3 ''a.luau'' = Some (Inr r)"
    by (cases "BundleWith sampleEnv \<lparr>Exclude = []\<rparr> 3 ''a.luau''") (auto simp: isl_def split: sum.splits, metis obj_sumE)
  from bundle_rewires [OF a(1) r] r show ?thesis unfolding a(2) by auto
qed

end
