(* ===== verification/Rojo_Cache.thy ===== *)
theory Rojo_Cache
  imports Rojo_Correct Asset_Store
begin

text \<open>
  The cache of resolvers (\<open>src/internal/rojo/resolver_cache.go\<close>): in memory and in files, with the modification times of
  what a walk has read to tell whether an entry still holds.

  The world is an argument of type \<open>'w\<close>: \<open>Disk\<close> is the file system in it, \<open>Mtime\<close> gives the modification times that
  \<open>os.Stat\<close> reports, the calls that write are \<open>FileOps\<close>. The JSON encoder and decoder and the hexadecimal SHA-256 sum are
  arguments. The lock makes calls a sequence. A Go map is an association list, in the order in which it is iterated.
\<close>

section \<open>The cache\<close>

record resolverCacheManifestEntry =
  ManifestPath :: string
  MtimeUnixNano :: int

record resolverCacheFile =
  CacheVersion :: int
  CacheCompiler :: string
  CacheKey :: string
  CacheState :: ResolverState
  MtimeManifest :: "resolverCacheManifestEntry list"

record resolverCacheEntry =
  EntryResolver :: RojoResolver
  EntryManifest :: "resolverCacheManifestEntry list"

record RojoResolverCache =
  cacheDir :: string
  compilerVersion :: string
  deferPersist :: bool
  l1 :: "(string \<times> resolverCacheEntry) list"
  pending :: "(string \<times> resolverCacheEntry) list"

record 'w cacheEnv =
  Disk :: "'w \<Rightarrow> fs"
  Mtime :: "'w \<Rightarrow> string \<Rightarrow> int option"
  CacheOps :: "'w FileOps"
  MarshalCache :: "resolverCacheFile \<Rightarrow> string option"
  UnmarshalCache :: "string \<Rightarrow> resolverCacheFile option"
  hexSum :: "string \<Rightarrow> string"

definition resolverCacheFormatVersion :: int where "resolverCacheFormatVersion = 2"

definition NewRojoResolverCacheWithDeferredPersist :: "string \<Rightarrow> string \<Rightarrow> bool \<Rightarrow> RojoResolverCache" where
  "NewRojoResolverCacheWithDeferredPersist dir version defer =
     \<lparr>cacheDir = dir, compilerVersion = version, deferPersist = defer, l1 = [], pending = []\<rparr>"

definition NewRojoResolverCache :: "string \<Rightarrow> string \<Rightarrow> RojoResolverCache" where
  "NewRojoResolverCache dir version = NewRojoResolverCacheWithDeferredPersist dir version False"

definition cachePath :: "'w cacheEnv \<Rightarrow> string \<Rightarrow> string \<Rightarrow> string" where
  "cachePath env dir key = PathJoin dir (hexSum env key @ ''.rojocache.json'')"

definition cacheKey :: "fs \<Rightarrow> string \<Rightarrow> string" where
  "cacheKey fsys path = (case Abs fsys path of None \<Rightarrow> Clean path | Some a \<Rightarrow> Clean a)"

fun manifestOf :: "(string \<Rightarrow> int option) \<Rightarrow> string list \<Rightarrow> resolverCacheManifestEntry list option" where
  "manifestOf mtime [] = Some []"
| "manifestOf mtime (p # ps) = do {
     t \<leftarrow> mtime p;
     m \<leftarrow> manifestOf mtime ps;
     Some (\<lparr>ManifestPath = p, MtimeUnixNano = t\<rparr> # m)
   }"

definition resolverMtimeManifest :: "(string \<Rightarrow> int option) \<Rightarrow> ResolverState \<Rightarrow> resolverCacheManifestEntry list option" where
  "resolverMtimeManifest mtime st =
     (let paths = sortedStrings (SWalkedConfigs st @ SWalkedDirectories st) in
      if paths = [] then None else manifestOf mtime paths)"

definition manifestStillValid :: "(string \<Rightarrow> int option) \<Rightarrow> resolverCacheManifestEntry list \<Rightarrow> bool" where
  "manifestStillValid mtime manifest \<longleftrightarrow>
     manifest \<noteq> [] \<and> list_all (\<lambda>e. mtime (ManifestPath e) = Some (MtimeUnixNano e)) manifest"

definition stateMatchesManifest :: "(string \<Rightarrow> int option) \<Rightarrow> ResolverState \<Rightarrow> resolverCacheManifestEntry list \<Rightarrow> bool" where
  "stateMatchesManifest mtime st manifest \<longleftrightarrow> resolverMtimeManifest mtime st = Some manifest"

definition writeResolverCacheFileAtomic :: "'w FileOps \<Rightarrow> string \<Rightarrow> string \<Rightarrow> 'w \<Rightarrow> string option \<times> 'w" where
  "writeResolverCacheFileAtomic os path data w =
     (case MkdirAll os (Dir path) w of
        (Some e, w) \<Rightarrow> (Some e, w)
      | (None, w) \<Rightarrow>
          (case CreateTemp os (Dir path) ''.rojo-cache-*.tmp'' w of
             (Inl e, w) \<Rightarrow> (Some e, w)
           | (Inr tmpName, w) \<Rightarrow> fillTemp os tmpName path data w))"

definition writeDisk :: "'w cacheEnv \<Rightarrow> RojoResolverCache \<Rightarrow> string \<Rightarrow> ResolverState \<Rightarrow> resolverCacheManifestEntry list \<Rightarrow> 'w \<Rightarrow> 'w" where
  "writeDisk env c key st manifest w =
     (case MarshalCache env \<lparr>CacheVersion = resolverCacheFormatVersion, CacheCompiler = compilerVersion c, CacheKey = key,
         CacheState = st, MtimeManifest = manifest\<rparr> of
        None \<Rightarrow> w
      | Some data \<Rightarrow> snd (writeResolverCacheFileAtomic (CacheOps env) (cachePath env (cacheDir c) key) (data @ [LF]) w))"

definition discardFile :: "'w cacheEnv \<Rightarrow> RojoResolverCache \<Rightarrow> string \<Rightarrow> 'w \<Rightarrow> 'w" where
  "discardFile env c key w = (if deferPersist c then w else RemoveFile (CacheOps env) (cachePath env (cacheDir c) key) w)"

definition loadDisk :: "'w cacheEnv \<Rightarrow> RojoResolverCache \<Rightarrow> string \<Rightarrow> 'w \<Rightarrow> (RojoResolver \<times> resolverCacheManifestEntry list) option \<times> 'w" where
  "loadDisk env c key w =
     (case ReadFile (Disk env w) (cachePath env (cacheDir c) key) of
        None \<Rightarrow> (None, w)
      | Some data \<Rightarrow>
          (case UnmarshalCache env data of
             None \<Rightarrow> (None, discardFile env c key w)
           | Some file \<Rightarrow>
               if CacheVersion file \<noteq> resolverCacheFormatVersion \<or> CacheCompiler file \<noteq> compilerVersion c \<or> CacheKey file \<noteq> key \<or>
                 \<not> stateMatchesManifest (Mtime env w) (CacheState file) (MtimeManifest file)
               then (None, discardFile env c key w)
               else if \<not> manifestStillValid (Mtime env w) (MtimeManifest file) then (None, w)
               else (case FromState (CacheState file) of
                   Inl e \<Rightarrow> (None, discardFile env c key w)
                 | Inr resolver \<Rightarrow> (Some (resolver, MtimeManifest file), w))))"

text \<open>The rest of \<open>Load\<close> when neither memory nor disk has a valid entry.\<close>

definition loadFresh :: "'w cacheEnv \<Rightarrow> nat \<Rightarrow> RojoResolverCache \<Rightarrow> string \<Rightarrow> 'w \<Rightarrow> (RojoResolver \<times> RojoResolverCache \<times> 'w) option" where
  "loadFresh env n c key w = do {
     resolver \<leftarrow> FromPath (Disk env w) n key;
     Some (case resolverMtimeManifest (Mtime env w) (GetState resolver) of
         None \<Rightarrow> (resolver, c, w)
       | Some manifest \<Rightarrow>
           (let entry = \<lparr>EntryResolver = resolver, EntryManifest = manifest\<rparr>; c = c\<lparr>l1 := AList.update key entry (l1 c)\<rparr> in
            if deferPersist c then (resolver, c\<lparr>pending := AList.update key entry (pending c)\<rparr>, w)
            else (resolver, c, writeDisk env c key (GetState resolver) manifest w)))
   }"

definition LoadResolver :: "'w cacheEnv \<Rightarrow> nat \<Rightarrow> RojoResolverCache \<Rightarrow> string \<Rightarrow> 'w \<Rightarrow> (RojoResolver \<times> RojoResolverCache \<times> 'w) option" where
  "LoadResolver env n c path w =
     (let key = cacheKey (Disk env w) path; hit = map_of (l1 c) key in
      if hit \<noteq> None \<and> manifestStillValid (Mtime env w) (EntryManifest (the hit)) then Some (EntryResolver (the hit), c, w)
      else (let c = c\<lparr>l1 := AList.delete key (l1 c)\<rparr> in
        case loadDisk env c key w of
          (Some (resolver, manifest), w) \<Rightarrow>
            Some (resolver, c\<lparr>l1 := AList.update key \<lparr>EntryResolver = resolver, EntryManifest = manifest\<rparr> (l1 c)\<rparr>, w)
        | (None, w) \<Rightarrow> loadFresh env n c key w))"

fun persistAll :: "'w cacheEnv \<Rightarrow> RojoResolverCache \<Rightarrow> (string \<times> resolverCacheEntry) list \<Rightarrow> 'w \<Rightarrow> 'w" where
  "persistAll env c [] w = w"
| "persistAll env c ((key, entry) # ms) w =
     persistAll env c ms (writeDisk env c key (GetState (EntryResolver entry)) (EntryManifest entry) w)"

definition Persist :: "'w cacheEnv \<Rightarrow> RojoResolverCache \<Rightarrow> 'w \<Rightarrow> RojoResolverCache \<times> 'w" where
  "Persist env c w = (c\<lparr>pending := []\<rparr>, persistAll env c (pending c) w)"

section \<open>What a walk depends on\<close>

text \<open>File systems that are the same to a walk with the result \<open>r\<close>: in the project files and directories it has read
  and in the kind of the paths it has mounted.\<close>

definition wider :: "RojoResolver \<Rightarrow> RojoResolver \<Rightarrow> bool" where
  "wider r r' \<longleftrightarrow> set (walkedConfigs r) \<subseteq> set (walkedConfigs r') \<and> set (walkedDirectories r) \<subseteq> set (walkedDirectories r') \<and>
     set (partitions r) \<subseteq> set (partitions r')"

definition agrees :: "fs \<Rightarrow> fs \<Rightarrow> RojoResolver \<Rightarrow> bool" where
  "agrees v v' r \<longleftrightarrow>
     (\<forall>p \<in> set (walkedConfigs r). Stat v' p = Stat v p \<and> ReadFile v' p = ReadFile v p) \<and>
     (\<forall>d \<in> set (walkedDirectories r). Stat v' d = Stat v d \<and> ReadDir v' d = ReadDir v d) \<and>
     (\<forall>m \<in> set (partitions r). Stat v' (FsPath m) = Stat v (FsPath m))"

text \<open>What holds of both: links are not redirected, and a path has the kind of its real path.\<close>

definition sameLinks :: "fs \<Rightarrow> fs \<Rightarrow> bool" where
  "sameLinks v v' \<longleftrightarrow>
     Realpath v' = Realpath v \<and> Tokens v' = Tokens v \<and> Getwd v' = Getwd v \<and>
     (\<forall>p. isRooted p \<longrightarrow> Clean (Realpath v p) = Realpath v p) \<and>
     (\<forall>p. Stat v (Realpath v p) = Stat v p \<and> Stat v' (Realpath v p) = Stat v' p) \<and>
     (\<forall>d es n. ReadDir v (Realpath v d) = Some es \<and> (n, KOther) \<in> set es \<longrightarrow> Stat v' (PathJoin d n) = Stat v (PathJoin d n))"

definition follows :: "fs \<Rightarrow> fs \<Rightarrow> (RojoResolver \<Rightarrow> RojoResolver option) \<Rightarrow> (RojoResolver \<Rightarrow> RojoResolver option) \<Rightarrow> bool" where
  "follows v v' m m' \<longleftrightarrow> (\<forall>r r'. m r = Some r' \<longrightarrow> wider r r' \<and> (agrees v v' r' \<longrightarrow> m' r = Some r'))"

lemma wider_refl [simp]: "wider r r"
  by (simp add: wider_def)

lemma wider_trans: "wider a b \<Longrightarrow> wider b c \<Longrightarrow> wider a c"
  by (auto simp: wider_def)

lemma wider_update [simp]:
  "wider r (warn s r)" "wider r (walkConfig p r)" "wider r (walkDirectory p r)" "wider r (pushPath m r)" "wider r (mapFile p r)"
  "wider r (addPartition p r)" "wider r (r\<lparr>IsGame := b\<rparr>)" "popPath r = Some r' \<Longrightarrow> wider r r'"
  by (auto simp: wider_def warn_def walkConfig_def walkDirectory_def pushPath_def mapFile_def addPartition_def popPath_def split: if_splits)

lemma agrees_wider: "agrees v v' r' \<Longrightarrow> wider r r' \<Longrightarrow> agrees v v' r"
  by (fastforce simp: agrees_def wider_def)

lemma follows_bind: "follows v v' m m' \<Longrightarrow> follows v v' k k' \<Longrightarrow> follows v v' (\<lambda>r. m r \<bind> k) (\<lambda>r. m' r \<bind> k')"
  unfolding follows_def by (auto simp: bind_eq_Some_conv) (meson wider_trans agrees_wider)+

lemma follows_Some: "(\<And>r. wider r (f r)) \<Longrightarrow> follows v v' (\<lambda>r. Some (f r)) (\<lambda>r. Some (f r))"
  by (auto simp: follows_def)

lemma follows_pre: "follows v v' m m' \<Longrightarrow> (\<And>r. wider r (f r)) \<Longrightarrow> follows v v' (\<lambda>r. m (f r)) (\<lambda>r. m' (f r))"
  unfolding follows_def by (meson wider_trans)

lemma follows_foldM: "(\<And>x. x \<in> set xs \<Longrightarrow> follows v v' (f x) (g x)) \<Longrightarrow> follows v v' (foldM f xs) (foldM g xs)"
proof (induction xs)
  case (Cons x xs)
  then show ?case using follows_bind [of v v' "f x" "g x" "foldM f xs" "foldM g xs"] by simp
qed (simp add: follows_def)

lemma follows_if: "follows v v' m m' \<Longrightarrow> follows v v' (\<lambda>r. if b then m r else Some r) (\<lambda>r. if b then m' r else Some r)"
  by (simp add: follows_def)

lemma follows_bracket:
  assumes "follows v v' m m'"
  shows "follows v v' (\<lambda>r. m (if b then r else pushPath x r) \<bind> (\<lambda>r. if b then Some r else popPath r))
    (\<lambda>r. m' (if b then r else pushPath x r) \<bind> (\<lambda>r. if b then Some r else popPath r))"
proof (rule follows_bind)
  show "follows v v' (\<lambda>r. m (if b then r else pushPath x r)) (\<lambda>r. m' (if b then r else pushPath x r))"
    by (rule follows_pre [OF assms]) simp
  show "follows v v' (\<lambda>r. if b then Some r else popPath r) (\<lambda>r. if b then Some r else popPath r)"
    by (simp add: follows_def)
qed

text \<open>The routines of the walk.\<close>

lemma follows_parseConfigBody:
  assumes "\<And>b nm t d. isRooted b \<Longrightarrow> follows v v' (pt (b, nm, t, d)) (pt' (b, nm, t, d))" "isRooted p" and v: "sameLinks v v'"
  shows "follows v v' (parseConfigBody pt v (p, d)) (parseConfigBody pt' v' (p, d))"
  unfolding follows_def
proof (intro allI impI)
  fix r r' assume run: "parseConfigBody pt v (p, d) r = Some r'"
  let ?q = "Realpath v p"
  have q: "Realpath v' p = ?q" "Tokens v' = Tokens v" "Clean ?q = ?q" using v assms(2) by (simp_all add: sameLinks_def)
  have w: "agrees v v' r' \<Longrightarrow> wider (walkConfig ?q r) r' \<Longrightarrow> Stat v' ?q = Stat v ?q \<and> ReadFile v' ?q = ReadFile v ?q"
    using q(3) by (auto simp: agrees_def wider_def walkConfig_def)
  show "wider r r' \<and> (agrees v v' r' \<longrightarrow> parseConfigBody pt' v' (p, d) r = Some r')"
  proof (cases "\<exists>cfg. pathExists v ?q \<and> readConfig v ?q = Some cfg \<and> validateConfig cfg = []")
    case False
    then obtain s where r': "r' = warn s (walkConfig ?q r)"
      using run by (auto simp: parseConfigBody_def Let_def bind_eq_Some_conv split: if_splits)
    have g: "wider (walkConfig ?q r) r'" by (simp add: r')
    moreover have "parseConfigBody pt' v' (p, d) r = Some r'" if "agrees v v' r'"
      using w [OF that g] run False q by (auto simp: parseConfigBody_def Let_def pathExists_def readConfig_def split: option.splits if_splits bind_splits)
    ultimately show ?thesis using wider_trans [OF wider_update(2)] by blast
  next
    case True
    then obtain cfg where c: "pathExists v ?q" "readConfig v ?q = Some cfg" "validateConfig cfg = []" by blast
    let ?t = "(Dir p, fst (configFromJSON cfg), snd (configFromJSON cfg), d)"
    have run': "pt ?t (walkConfig ?q r) = Some r'" using run c by (simp add: parseConfigBody_def Let_def case_prod_unfold)
    have f: "follows v v' (pt ?t) (pt' ?t)" using assms(1,2) by blast
    then have g: "wider (walkConfig ?q r) r'" using run' by (auto simp: follows_def)
    moreover have "parseConfigBody pt' v' (p, d) r = Some r'" if "agrees v v' r'"
      using w [OF that g] f run' that c q by (auto simp: follows_def parseConfigBody_def Let_def pathExists_def readConfig_def case_prod_unfold split: option.splits)
    ultimately show ?thesis using wider_trans [OF wider_update(2)] by blast
  qed
qed

lemma follows_parseTreeBody:
  assumes pt: "\<And>b nm t d. isRooted b \<Longrightarrow> follows v v' (pt (b, nm, t, d)) (pt' (b, nm, t, d))"
    and pp: "\<And>p. isRooted p \<Longrightarrow> follows v v' (pp p) (pp' p)" and b: "isRooted b"
  shows "follows v v' (parseTreeBody pt pp (b, nm, t, d)) (parseTreeBody pt' pp' (b, nm, t, d))"
proof -
  have "follows v v' (foldM (\<lambda>c. pt (b, fst c, snd c, False)) (Children t)) (foldM (\<lambda>c. pt' (b, fst c, snd c, False)) (Children t))"
    using pt b by (intro follows_foldM) auto
  then have "follows v v' (\<lambda>r. foldM (\<lambda>c. pt (b, fst c, snd c, False)) (Children t) (if ClassName t = ''DataModel'' then r\<lparr>IsGame := True\<rparr> else r))
      (\<lambda>r. foldM (\<lambda>c. pt' (b, fst c, snd c, False)) (Children t) (if ClassName t = ''DataModel'' then r\<lparr>IsGame := True\<rparr> else r))"
    by (rule follows_pre) simp
  moreover have "follows v v' (\<lambda>r. case Path t of None \<Rightarrow> Some r | Some p \<Rightarrow> pp (rojoResolvePath b p) r)
      (\<lambda>r. case Path t of None \<Rightarrow> Some r | Some p \<Rightarrow> pp' (rojoResolvePath b p) r)"
    using pp [OF isRooted_resolve [OF b]] by (cases "Path t") (auto intro: follows_Some)
  ultimately show ?thesis unfolding parseTreeBody_bracket treeInner_def by (intro follows_bracket follows_bind)
qed

lemma follows_searchDirectoryBody:
  assumes pc: "\<And>p d. isRooted p \<Longrightarrow> follows v v' (pc (p, d)) (pc' (p, d))"
    and sd: "\<And>d i. isRooted d \<Longrightarrow> follows v v' (sd (d, i)) (sd' (d, i))" and d: "isRooted d" and v: "sameLinks v v'"
  shows "follows v v' (searchDirectoryBody pc sd v (d, i)) (searchDirectoryBody pc' sd' v' (d, i))"
proof -
  let ?q = "Realpath v d"
  have q: "Realpath v' d = ?q" "Clean ?q = ?q" using v d by (simp_all add: sameLinks_def)
  have j: "isRooted (PathJoin d n)" for n using d by auto
  have kind: "entryKind v' d en = entryKind v d en" if "ReadDir v ?q = Some es" "en \<in> set es" for es en
    using v that unfolding sameLinks_def entryKind_def by (cases en) (auto split: fileKind.split)
  have inner: "follows v v' (searchInner pc sd v d es) (searchInner pc' sd' v' d es)" if es: "ReadDir v ?q = Some es" for es
  proof -
    have 1: "follows v v'
        (foldM (\<lambda>en r. if fst en \<noteq> rojoDefaultName \<and> rojoFileRegex (fst en) \<and> snd (entryKind v d en) then pc (PathJoin d (fst en), False) r else Some r) es)
        (foldM (\<lambda>en r. if fst en \<noteq> rojoDefaultName \<and> rojoFileRegex (fst en) \<and> snd (entryKind v' d en) then pc' (PathJoin d (fst en), False) r else Some r) es)"
      by (rule follows_foldM) (simp only: kind [OF es], intro follows_if pc j)
    have 2: "follows v v'
        (foldM (\<lambda>en r. if fst (entryKind v d en) then sd (PathJoin d (fst en), fst en) r else Some r) es)
        (foldM (\<lambda>en r. if fst (entryKind v' d en) then sd' (PathJoin d (fst en), fst en) r else Some r) es)"
      by (rule follows_foldM) (simp only: kind [OF es], intro follows_if sd j)
    show ?thesis unfolding searchInner_def by (rule follows_bind [OF 1 2])
  qed
  let ?body = "\<lambda>pc sd u r. case ReadDir v ?q of None \<Rightarrow> Some r
      | Some es \<Rightarrow> if rojoDefaultName \<in> fst ` set es then pc (PathJoin d rojoDefaultName, False) r
          else searchInner pc sd u d es (if i = [] then r else pushPath i r) \<bind> (\<lambda>r. if i = [] then Some r else popPath r)"
  have body: "follows v v' (?body pc sd v) (?body pc' sd' v')"
  proof (cases "ReadDir v ?q")
    case None
    then show ?thesis by (simp add: follows_def)
  next
    case (Some es)
    show ?thesis
    proof (cases "rojoDefaultName \<in> fst ` set es")
      case True
      then show ?thesis using Some pc [OF j] by simp
    next
      case False
      then show ?thesis using Some follows_bracket [OF inner [OF Some], of "i = []" i] by simp
    qed
  qed
  have eq: "searchDirectoryBody pc sd u (d, i) r = ?body pc sd u (walkDirectory ?q r)" if "Realpath u d = ?q" "ReadDir u ?q = ReadDir v ?q" for pc sd u r
    using that by (simp add: searchDirectoryBody_bracket split: option.split)
  show ?thesis unfolding follows_def
  proof (intro allI impI)
    fix r r' assume "searchDirectoryBody pc sd v (d, i) r = Some r'"
    then have run: "?body pc sd v (walkDirectory ?q r) = Some r'" by (simp add: eq)
    then have g: "wider (walkDirectory ?q r) r'" using body by (auto simp: follows_def)
    have "searchDirectoryBody pc' sd' v' (d, i) r = Some r'" if a: "agrees v v' r'"
    proof -
      have "ReadDir v' ?q = ReadDir v ?q" using a g q(2) by (auto simp: agrees_def wider_def walkDirectory_def)
      then show ?thesis using body run a q(1) by (simp add: follows_def eq)
    qed
    then show "wider r r' \<and> (agrees v v' r' \<longrightarrow> searchDirectoryBody pc' sd' v' (d, i) r = Some r')"
      using g wider_trans [OF wider_update(3)] by blast
  qed
qed

lemma follows_parsePathBody:
  assumes pc: "\<And>p d. isRooted p \<Longrightarrow> follows v v' (pc (p, d)) (pc' (p, d))"
    and sd: "\<And>d i. isRooted d \<Longrightarrow> follows v v' (sd (d, i)) (sd' (d, i))" and p: "isRooted p" and v: "sameLinks v v'"
  shows "follows v v' (parsePathBody pc sd v p) (parsePathBody pc' sd' v' p)"
proof -
  let ?p = "convertToLuau p" and ?q = "Realpath v (convertToLuau p)"
  have r: "isRooted ?p" "isRooted (PathJoin ?p rojoDefaultName)" using p by auto
  have q: "Realpath v' ?p = ?q" "Clean ?q = ?q" "Stat v ?q = Stat v ?p" "Stat v' ?q = Stat v' ?p" using v r by (simp_all add: sameLinks_def)
  show ?thesis
  proof (cases "rojoFileRegex (Base ?p) \<or> rojoModuleExts (extname ?p)")
    case True
    then show ?thesis using pc [OF r(1), of True] by (auto simp: parsePathBody_def Let_def follows_def)
  next
    case f: False
    have dir: "parsePathBody pc sd u p = (\<lambda>r. if dirContains u ?q rojoDefaultName then pc (PathJoin ?p rojoDefaultName, True) (walkDirectory ?q r)
        else sd (?p, []) (addPartition ?p (walkDirectory ?q r)))"
      if "Stat u ?p = Some KDir" "Stat u ?q = Some KDir" "Realpath u ?p = ?q" for pc sd u
      using f that by (auto simp: parsePathBody_def Let_def pathExists_def isDirectory_def fun_eq_iff)
    have nodir: "parsePathBody pc sd u p = (\<lambda>r. Some (addPartition ?p r))"
      if "Stat u ?p \<noteq> Some KDir" "Stat u ?q = Stat u ?p" "Realpath u ?p = ?q" for pc sd u
      using f that by (auto simp: parsePathBody_def Let_def pathExists_def isDirectory_def fun_eq_iff)
    show ?thesis
    proof (cases "Stat v ?p = Some KDir")
      case False
      have "Stat v' ?p = Stat v ?p" if "agrees v v' (addPartition ?p r)" for r
        using that by (simp add: agrees_def addPartition_def)
      then show ?thesis using False q nodir by (simp add: follows_def)
    next
      case True
      let ?k = "\<lambda>pc sd. if dirContains v ?q rojoDefaultName then pc (PathJoin ?p rojoDefaultName, True) else (\<lambda>r. sd (?p, []) (addPartition ?p r))"
      have k: "follows v v' (?k pc sd) (?k pc' sd')" using pc [OF r(2)] follows_pre [OF sd [OF r(1)]] by simp
      show ?thesis unfolding follows_def
      proof (intro allI impI)
        fix r r' assume "parsePathBody pc sd v p r = Some r'"
        then have run: "?k pc sd (walkDirectory ?q r) = Some r'" using True q by (simp add: dir split: if_splits)
        then have g: "wider (walkDirectory ?q r) r'" using k unfolding follows_def by blast
        have "parsePathBody pc' sd' v' p r = Some r'" if a: "agrees v v' r'"
        proof -
          have w: "ReadDir v' ?q = ReadDir v ?q" "Stat v' ?q = Stat v ?q"
            using a g q(2) by (auto simp: agrees_def wider_def walkDirectory_def)
          have "?k pc' sd' (walkDirectory ?q r) = Some r'" using k run a unfolding follows_def by blast
          then show ?thesis using w True q by (simp add: dir dirContains_def split: if_splits)
        qed
        then show "wider r r' \<and> (agrees v v' r' \<longrightarrow> parsePathBody pc' sd' v' p r = Some r')"
          using g wider_trans [OF wider_update(3)] by blast
      qed
    qed
  qed
qed

lemma walk_follows:
  assumes v: "sameLinks v v'"
  shows "(\<forall>p d. isRooted p \<longrightarrow> follows v v' (parseConfig v n (p, d)) (parseConfig v' n (p, d))) \<and>
    (\<forall>b nm t d. isRooted b \<longrightarrow> follows v v' (parseTree v n (b, nm, t, d)) (parseTree v' n (b, nm, t, d))) \<and>
    (\<forall>p. isRooted p \<longrightarrow> follows v v' (parsePath v n p) (parsePath v' n p)) \<and>
    (\<forall>d i. isRooted d \<longrightarrow> follows v v' (searchDirectory v n (d, i)) (searchDirectory v' n (d, i)))"
proof (induction n)
  case (Suc n)
  then show ?case using v
    by (simp add: follows_parseConfigBody follows_parseTreeBody follows_parsePathBody follows_searchDirectoryBody)
qed (simp add: follows_def)

lemma FromPath_rooted: "isRooted key \<Longrightarrow> FromPath v n key = parseConfig v n (key, True) newRojoResolver"
  using rooted_clean [of key] by (auto simp: FromPath_def Abs_def isRooted_def)

lemma walk_unchanged:
  assumes "FromPath v n key = Some r" "isRooted key" "sameLinks v v'" "agrees v v' r"
  shows "FromPath v' n key = Some r"
  using walk_follows [OF assms(3), of n] assms by (simp add: FromPath_rooted follows_def)

section \<open>Manifests\<close>

text \<open>What the file system and its modification times promise from one moment to a later one: a file or directory with the
  same modification time is unchanged. The kind of a mounted path and the target of a link are no part of a manifest;
  that they stay is assumed.\<close>

definition honestTimes :: "'w cacheEnv \<Rightarrow> ('w \<Rightarrow> 'w \<Rightarrow> bool) \<Rightarrow> bool" where
  "honestTimes env later \<longleftrightarrow>
     (\<forall>w. later w w) \<and> (\<forall>a b c. later a b \<and> later b c \<longrightarrow> later a c) \<and>
     (\<forall>w. \<exists>wd. Getwd (Disk env w) = Some wd \<and> isRooted wd) \<and>
     (\<forall>a b. later a b \<longrightarrow> sameLinks (Disk env a) (Disk env b)) \<and>
     (\<forall>a b p t. later a b \<and> Mtime env a p = Some t \<and> Mtime env b p = Some t \<longrightarrow> Stat (Disk env b) p = Stat (Disk env a) p \<and>
        ReadFile (Disk env b) p = ReadFile (Disk env a) p \<and> ReadDir (Disk env b) p = ReadDir (Disk env a) p) \<and>
     (\<forall>a b n key r. later a b \<and> FromPath (Disk env a) n key = Some r \<longrightarrow>
        (\<forall>m \<in> set (partitions r). Stat (Disk env b) (FsPath m) = Stat (Disk env a) (FsPath m)))"

lemma honestTimesD:
  assumes "honestTimes env later"
  shows "later w w" "later a b \<Longrightarrow> later b c \<Longrightarrow> later a c" "later a b \<Longrightarrow> sameLinks (Disk env a) (Disk env b)"
    "\<exists>wd. Getwd (Disk env w) = Some wd \<and> isRooted wd"
  using assms unfolding honestTimes_def by blast+

lemma manifestOf_entries: "manifestOf mtime ps = Some m \<Longrightarrow> p \<in> set ps \<Longrightarrow> \<exists>en \<in> set m. ManifestPath en = p \<and> mtime p = Some (MtimeUnixNano en)"
  by (induction ps arbitrary: m) (auto simp: bind_eq_Some_conv)

lemma manifest_covers:
  assumes "resolverMtimeManifest mtime (GetState r) = Some m" "p \<in> set (walkedConfigs r) \<union> set (walkedDirectories r)"
  shows "\<exists>en \<in> set m. ManifestPath en = p \<and> mtime p = Some (MtimeUnixNano en)"
  using assms manifestOf_entries [of mtime _ m p]
  by (auto simp: resolverMtimeManifest_def Let_def GetState_def sortedStrings_def split: if_splits)

definition walkedAt :: "'w cacheEnv \<Rightarrow> string \<Rightarrow> 'w \<Rightarrow> ResolverState \<Rightarrow> resolverCacheManifestEntry list \<Rightarrow> bool" where
  "walkedAt env key w st m \<longleftrightarrow>
     (\<exists>n r. FromPath (Disk env w) n key = Some r \<and> st = GetState r \<and> resolverMtimeManifest (Mtime env w) st = Some m)"

text \<open>A manifest that is still valid: the walk would give the same again.\<close>

lemma valid_manifest:
  assumes h: "honestTimes env later" and "later a b" "isRooted key" "FromPath (Disk env a) n key = Some r"
    "resolverMtimeManifest (Mtime env a) (GetState r) = Some m" "manifestStillValid (Mtime env b) m"
  shows "FromPath (Disk env b) n key = Some r"
proof (rule walk_unchanged [OF assms(4,3) honestTimesD(3) [OF h assms(2)]])
  have "Mtime env a p = Some t \<Longrightarrow> Mtime env b p = Some t \<Longrightarrow> Stat (Disk env b) p = Stat (Disk env a) p \<and>
        ReadFile (Disk env b) p = ReadFile (Disk env a) p \<and> ReadDir (Disk env b) p = ReadDir (Disk env a) p" for p t
    using h assms(2) unfolding honestTimes_def by blast
  moreover have "\<exists>t. Mtime env a p = Some t \<and> Mtime env b p = Some t" if "p \<in> set (walkedConfigs r) \<union> set (walkedDirectories r)" for p
    using manifest_covers [OF assms(5) that] assms(6) by (auto simp: manifestStillValid_def list_all_iff)
  moreover have "\<forall>m \<in> set (partitions r). Stat (Disk env b) (FsPath m) = Stat (Disk env a) (FsPath m)"
    using h assms(2,4) unfolding honestTimes_def by blast
  ultimately show "agrees (Disk env a) (Disk env b) r" unfolding agrees_def by blast
qed

lemma FromPath_ok: "isRooted key \<Longrightarrow> FromPath v n key = Some r \<Longrightarrow> resolver_ok r"
  using walk_keeps [of v n] resolver_ok_new by (fastforce simp: FromPath_rooted keeps_def)

lemma resolver_ok_restored: "resolver_ok r \<Longrightarrow> resolver_ok (restored r)"
proof -
  assume ok: "resolver_ok r"
  have "mset (map fst (sort_key fst (filePathToRbxPathMap r))) = mset (map fst (filePathToRbxPathMap r))" by simp
  then have "distinct (map fst (sort_key fst (filePathToRbxPathMap r))) = distinct (map fst (filePathToRbxPathMap r))"
    using mset_eq_imp_distinct_iff by blast
  with ok show ?thesis by (simp add: resolver_ok_def restored_def)
qed

lemma GetState_answers:
  assumes "GetState r = GetState r'" "resolver_ok r" "resolver_ok r'"
  shows "GetRbxPathFromFilePath v r f = GetRbxPathFromFilePath v r' f"
proof -
  have e: "sort_key fst (filePathToRbxPathMap r) = sort_key fst (filePathToRbxPathMap r')" "partitions r = partitions r'"
    using assms(1) by (simp_all add: GetState_def)
  have "map_of (filePathToRbxPathMap r) = map_of (filePathToRbxPathMap r')"
    using sort_key_map_of [of "filePathToRbxPathMap r"] sort_key_map_of [of "filePathToRbxPathMap r'"] assms(2,3) e(1) by (simp add: resolver_ok_def)
  then show ?thesis by (simp add: GetRbxPathFromFilePath_def e(2) Let_def split: option.split)
qed

section \<open>Cache files\<close>

lemma fillTemp_else:
  assumes os: "posixFiles files os" and run: "fillTemp os t path data w = (err, w')" and q: "q \<noteq> t" "q \<noteq> path"
  shows "files w' q = files w q"
proof -
  obtain werr w1 where wr: "WriteTemp os t data w = (werr, w1)" by fastforce
  obtain cerr w2 where cl: "CloseTemp os t w1 = (cerr, w2)" by fastforce
  obtain e w3 where rn: "RenameFile os t path w2 = (e, w3)" by fastforce
  have 2: "files w2 q = files w q" using posixFilesD(6) [OF os wr q(1)] posixFilesD(8) [OF os cl] by simp
  have 3: "files w3 q = files w q"
    using 2 q rn posixFilesD(10) [OF os, of t path w2 w3] posixFilesD(11) [OF os, of t path w2] by (cases e) auto
  have "w' = w3 \<or> w' = RemoveFile os t w2 \<or> w' = RemoveFile os t w3"
    using run wr cl rn by (auto simp: fillTemp_def commitTemp_def split: if_splits option.splits)
  then show ?thesis using 2 3 posixFilesD(9) [OF os q(1)] by auto
qed

definition cacheName :: "string \<Rightarrow> bool" where
  "cacheName p \<longleftrightarrow> \<not> HasPrefix (Base p) ''.rojo-cache-''"

lemma cacheFile_written:
  assumes os: "posixFiles files os" and path: "cacheName path"
    and run: "writeResolverCacheFileAtomic os path data w = (err, w')"
  shows "(files w' path = Some data \<or> files w' path = files w path) \<and> (\<forall>q. q \<noteq> path \<and> cacheName q \<longrightarrow> files w' q = files w q)"
proof -
  obtain e w1 where mk: "MkdirAll os (Dir path) w = (e, w1)" by fastforce
  obtain r w2 where tmp: "CreateTemp os (Dir path) ''.rojo-cache-*.tmp'' w1 = (r, w2)" by fastforce
  note w1 = posixFilesD(1) [OF os mk]
  consider x where "e = Some x" | x where "e = None" "r = Inl x" | t where "e = None" "r = Inr t" by (cases e; cases r) auto
  then show ?thesis
  proof cases
    case (3 t)
    note c = tmp [unfolded 3(2)]
    have n: "\<not> cacheName t" using posixFilesD(5) [OF os c] by (simp add: cacheName_def)
    then have pt: "path \<noteq> t" using path by auto
    have fill: "fillTemp os t path data w2 = (err, w')" using run mk tmp 3 by (simp add: writeResolverCacheFileAtomic_def)
    have "written path data err (files w) (files w')"
      using written_fillTemp [OF os fill pt] posixFilesD(3,4) [OF os c] w1 by simp
    moreover have "files w' q = files w q" if "q \<noteq> path" "cacheName q" for q
    proof -
      have "q \<noteq> t" using that(2) n by auto
      then show ?thesis using fillTemp_else [OF os fill _ that(1)] posixFilesD(4) [OF os c] w1 by simp
    qed
    ultimately show ?thesis by (auto simp: written_def split: if_splits)
  qed (use run mk tmp w1 posixFilesD(2) [OF os] in \<open>auto simp: writeResolverCacheFileAtomic_def\<close>)
qed

section \<open>The cache answers like a walk\<close>

text \<open>What the calls that write promise: the operating system keeps files, cache files are not named like temporary files,
  writing and removing them is no change of the project, and JSON reads back what was written.\<close>

definition cacheFiles :: "'w cacheEnv \<Rightarrow> ('w \<Rightarrow> 'w \<Rightarrow> bool) \<Rightarrow> string \<Rightarrow> bool" where
  "cacheFiles env later dir \<longleftrightarrow>
     posixFiles (\<lambda>w. ReadFile (Disk env w)) (CacheOps env) \<and> (\<forall>key. cacheName (cachePath env dir key)) \<and>
     (\<forall>key data w. later w (snd (writeResolverCacheFileAtomic (CacheOps env) (cachePath env dir key) data w))) \<and>
     (\<forall>key w. later w (RemoveFile (CacheOps env) (cachePath env dir key) w)) \<and>
     (\<forall>p w. ReadFile (Disk env (RemoveFile (CacheOps env) p w)) p \<in> {None, ReadFile (Disk env w) p}) \<and>
     (\<forall>file data. MarshalCache env file = Some data \<longrightarrow> UnmarshalCache env (data @ [LF]) = Some file)"

definition entryOK :: "'w cacheEnv \<Rightarrow> ('w \<Rightarrow> 'w \<Rightarrow> bool) \<Rightarrow> 'w \<Rightarrow> string \<times> resolverCacheEntry \<Rightarrow> bool" where
  "entryOK env later w = (\<lambda>(key, en). isRooted key \<and> resolver_ok (EntryResolver en) \<and>
     (\<exists>w0. later w0 w \<and> walkedAt env key w0 (GetState (EntryResolver en)) (EntryManifest en)))"

definition fileOK :: "'w cacheEnv \<Rightarrow> ('w \<Rightarrow> 'w \<Rightarrow> bool) \<Rightarrow> string \<Rightarrow> 'w \<Rightarrow> string \<Rightarrow> string option \<Rightarrow> bool" where
  "fileOK env later version w key content \<longleftrightarrow> (\<forall>data file. content = Some data \<and> UnmarshalCache env data = Some file \<and>
     CacheVersion file = resolverCacheFormatVersion \<and> CacheCompiler file = version \<and> CacheKey file = key \<and> isRooted key \<longrightarrow>
     (\<exists>w0. later w0 w \<and> walkedAt env key w0 (CacheState file) (MtimeManifest file)))"

definition diskOK :: "'w cacheEnv \<Rightarrow> ('w \<Rightarrow> 'w \<Rightarrow> bool) \<Rightarrow> string \<Rightarrow> string \<Rightarrow> 'w \<Rightarrow> bool" where
  "diskOK env later dir version w \<longleftrightarrow> (\<forall>key. fileOK env later version w key (ReadFile (Disk env w) (cachePath env dir key)))"

definition resolverCacheOK :: "'w cacheEnv \<Rightarrow> ('w \<Rightarrow> 'w \<Rightarrow> bool) \<Rightarrow> string \<Rightarrow> string \<Rightarrow> RojoResolverCache \<Rightarrow> 'w \<Rightarrow> bool" where
  "resolverCacheOK env later dir version c w \<longleftrightarrow> cacheDir c = dir \<and> compilerVersion c = version \<and>
     (\<forall>x \<in> set (l1 c) \<union> set (pending c). entryOK env later w x) \<and> diskOK env later dir version w"

lemma entryOK_later: "honestTimes env later \<Longrightarrow> later w w' \<Longrightarrow> entryOK env later w x \<Longrightarrow> entryOK env later w' x"
  using honestTimesD(2) [of env later] unfolding entryOK_def by (auto split: prod.splits)

lemma fileOK_later: "honestTimes env later \<Longrightarrow> later w w' \<Longrightarrow> fileOK env later version w key s \<Longrightarrow> fileOK env later version w' key s"
  unfolding fileOK_def using honestTimesD(2) [of env later _ w w'] by blast

lemma fileOK_None [simp]: "fileOK env later version w key None"
  by (simp add: fileOK_def)

lemma resolverCacheOK_later:
  assumes h: "honestTimes env later" and l: "later w w'"
    and kept: "\<And>key. ReadFile (Disk env w') (cachePath env dir key) \<in> {None, ReadFile (Disk env w) (cachePath env dir key)}"
    and c: "resolverCacheOK env later dir version c w"
  shows "resolverCacheOK env later dir version c w'"
proof -
  have "fileOK env later version w' k (ReadFile (Disk env w) (cachePath env dir k))" for k
    using c fileOK_later [OF h l] by (simp add: resolverCacheOK_def diskOK_def)
  then have "fileOK env later version w' k (ReadFile (Disk env w') (cachePath env dir k))" for k
    using kept [of k] by (cases "ReadFile (Disk env w') (cachePath env dir k)") auto
  then show ?thesis using c entryOK_later [OF h l] by (simp add: resolverCacheOK_def diskOK_def)
qed

lemma writeDisk_OK:
  assumes h: "honestTimes env later" and f: "cacheFiles env later dir" and c: "resolverCacheOK env later dir version c w"
    and en: "entryOK env later w (key, \<lparr>EntryResolver = r, EntryManifest = m\<rparr>)"
  shows "resolverCacheOK env later dir version c (writeDisk env c key (GetState r) m w) \<and> later w (writeDisk env c key (GetState r) m w)"
proof -
  let ?file = "\<lparr>CacheVersion = resolverCacheFormatVersion, CacheCompiler = compilerVersion c, CacheKey = key,
         CacheState = GetState r, MtimeManifest = m\<rparr>"
  have cd: "cacheDir c = dir" "compilerVersion c = version" using c by (simp_all add: resolverCacheOK_def)
  show ?thesis
  proof (cases "MarshalCache env ?file")
    case None
    then show ?thesis using c honestTimesD(1) [OF h] by (simp add: writeDisk_def)
  next
    case (Some data)
    let ?path = "\<lambda>k. cachePath env dir k"
    obtain err w' where run: "writeResolverCacheFileAtomic (CacheOps env) (?path key) (data @ [LF]) w = (err, w')" by fastforce
    then have w': "writeDisk env c key (GetState r) m w = w'" using Some cd by (simp add: writeDisk_def)
    have l: "later w w'" using f run unfolding cacheFiles_def by (metis snd_conv)
    have os: "posixFiles (\<lambda>w. ReadFile (Disk env w)) (CacheOps env)" "\<And>k. cacheName (?path k)" using f by (simp_all add: cacheFiles_def)
    note wr = cacheFile_written [OF os(1) os(2) run]
    have read: "UnmarshalCache env (data @ [LF]) = Some ?file" using f Some unfolding cacheFiles_def by blast
    obtain w0 where w0: "later w0 w'" "walkedAt env key w0 (GetState r) m" using en l honestTimesD(2) [OF h] by (auto simp: entryOK_def)
    have new: "fileOK env later version w' k (Some (data @ [LF]))" for k using w0 by (auto simp: fileOK_def read)
    have old: "fileOK env later version w' k (ReadFile (Disk env w) (?path k))" for k
      using c fileOK_later [OF h l] by (simp add: resolverCacheOK_def diskOK_def)
    have "fileOK env later version w' k (ReadFile (Disk env w') (?path k))" for k
      using wr os(2) [of k] new [of k] old [of k] by (cases "?path k = ?path key") auto
    then show ?thesis using c entryOK_later [OF h l] l by (simp add: w' resolverCacheOK_def diskOK_def)
  qed
qed

lemma discardFile_OK:
  assumes h: "honestTimes env later" and f: "cacheFiles env later dir" and c: "resolverCacheOK env later dir version c w"
  shows "resolverCacheOK env later dir version c (discardFile env c key w) \<and> later w (discardFile env c key w)"
proof (cases "deferPersist c")
  case True
  then show ?thesis using c honestTimesD(1) [OF h] by (simp add: discardFile_def)
next
  case False
  let ?path = "\<lambda>k. cachePath env dir k" and ?w = "RemoveFile (CacheOps env) (cachePath env dir key) w"
  have w': "discardFile env c key w = ?w" using False c by (simp add: discardFile_def resolverCacheOK_def)
  have l: "later w ?w" and os: "posixFiles (\<lambda>w. ReadFile (Disk env w)) (CacheOps env)"
    and rm: "\<And>p. ReadFile (Disk env (RemoveFile (CacheOps env) p w)) p \<in> {None, ReadFile (Disk env w) p}"
    using f unfolding cacheFiles_def by blast+
  have kept: "ReadFile (Disk env ?w) (?path k) \<in> {None, ReadFile (Disk env w) (?path k)}" for k
    using rm [of "?path key"] posixFilesD(9) [OF os, of "?path k" "?path key" w] by (cases "?path k = ?path key") auto
  then show ?thesis using resolverCacheOK_later [OF h l kept c] l by (simp add: w')
qed

lemma cacheKey_rooted: "honestTimes env later \<Longrightarrow> isRooted (cacheKey (Disk env w) p)"
proof -
  assume h: "honestTimes env later"
  obtain wd where wd: "Getwd (Disk env w) = Some wd" "isRooted wd" using honestTimesD(4) [OF h] by blast
  then have "Abs (Disk env w) p \<noteq> None" by (simp add: Abs_def)
  then obtain a where a: "Abs (Disk env w) p = Some a" by blast
  then have "isRooted a" using isRooted_Abs [OF a wd] by blast
  with a show ?thesis using rooted_clean [of a] by (simp add: cacheKey_def)
qed

lemma walkedAt_valid:
  assumes h: "honestTimes env later" and "later w0 w" "isRooted key" "walkedAt env key w0 st m" "manifestStillValid (Mtime env w) m"
  obtains n r where "FromPath (Disk env w) n key = Some r" "st = GetState r" "resolver_ok r"
proof -
  obtain n r where r: "FromPath (Disk env w0) n key = Some r" "st = GetState r" "resolverMtimeManifest (Mtime env w0) (GetState r) = Some m"
    using assms(4) by (auto simp: walkedAt_def)
  note walk = valid_manifest [OF h assms(2,3) r(1,3) assms(5)]
  show thesis by (rule that [OF walk r(2) FromPath_ok [OF assms(3) walk]])
qed

text \<open>The outcome of a load: the resolver is like one that a walk gives at some moment of the call.\<close>

definition like_walk :: "'w cacheEnv \<Rightarrow> ('w \<Rightarrow> 'w \<Rightarrow> bool) \<Rightarrow> string \<Rightarrow> 'w \<Rightarrow> 'w \<Rightarrow> RojoResolver \<Rightarrow> bool" where
  "like_walk env later key w w' r \<longleftrightarrow> resolver_ok r \<and> (\<exists>w1 m r1. later w w1 \<and> later w1 w' \<and>
     FromPath (Disk env w1) m key = Some r1 \<and> GetState r = GetState r1 \<and> resolver_ok r1)"

lemma loadFresh_OK:
  assumes h: "honestTimes env later" and f: "cacheFiles env later dir" and c: "resolverCacheOK env later dir version c w"
    and key: "isRooted key" and run: "loadFresh env n c key w = Some (r, c', w')"
  shows "resolverCacheOK env later dir version c' w' \<and> later w w' \<and> like_walk env later key w w' r"
proof -
  have walk: "FromPath (Disk env w) n key = Some r" using run by (auto simp: loadFresh_def Let_def bind_eq_Some_conv split: option.splits if_splits)
  note ok = FromPath_ok [OF key walk] and refl = honestTimesD(1) [OF h]
  have like: "like_walk env later key w w' r" if "later w w'" using walk ok refl that unfolding like_walk_def by blast
  show ?thesis
  proof (cases "resolverMtimeManifest (Mtime env w) (GetState r)")
    case None
    then show ?thesis using run walk c like refl by (auto simp: loadFresh_def)
  next
    case (Some m)
    let ?en = "\<lparr>EntryResolver = r, EntryManifest = m\<rparr>"
    let ?c = "c\<lparr>l1 := AList.update key ?en (l1 c)\<rparr>"
    have en: "entryOK env later w (key, ?en)" using key ok walk Some refl unfolding entryOK_def walkedAt_def by auto
    have upd: "set (AList.update key ?en xs) \<subseteq> insert (key, ?en) (set xs)" for xs by (induction xs) auto
    have c1: "resolverCacheOK env later dir version ?c w" using c en upd [of "l1 c"] by (auto simp: resolverCacheOK_def)
    have c2: "resolverCacheOK env later dir version (?c\<lparr>pending := AList.update key ?en (pending c)\<rparr>) w"
      using c1 en upd [of "pending c"] by (auto simp: resolverCacheOK_def)
    show ?thesis using run walk Some c2 writeDisk_OK [OF h f c1 en] like refl
      by (cases "deferPersist c") (auto simp: loadFresh_def Let_def)
  qed
qed

lemma loadDisk_OK:
  assumes h: "honestTimes env later" and f: "cacheFiles env later dir" and c: "resolverCacheOK env later dir version c w"
    and key: "isRooted key" and run: "loadDisk env c key w = (out, w')"
  shows "resolverCacheOK env later dir version c w' \<and> later w w' \<and>
    (\<forall>r m. out = Some (r, m) \<longrightarrow> entryOK env later w' (key, \<lparr>EntryResolver = r, EntryManifest = m\<rparr>) \<and> like_walk env later key w w' r)"
proof (cases out)
  case None
  then have "w' = w \<or> w' = discardFile env c key w"
    using run by (auto simp: loadDisk_def split: option.splits if_splits sum.splits)
  then show ?thesis using None c discardFile_OK [OF h f c] honestTimesD(1) [OF h] by auto
next
  case (Some x)
  obtain r m where x: "x = (r, m)" by (cases x)
  then obtain data fl where d: "w' = w" "ReadFile (Disk env w) (cachePath env dir key) = Some data" "UnmarshalCache env data = Some fl"
    "CacheVersion fl = resolverCacheFormatVersion" "CacheCompiler fl = version" "CacheKey fl = key"
    "manifestStillValid (Mtime env w) m" "FromState (CacheState fl) = Inr r" "MtimeManifest fl = m"
    using run Some c by (auto simp: loadDisk_def resolverCacheOK_def split: option.splits if_splits sum.splits)
  then obtain w0 where w0: "later w0 w" "walkedAt env key w0 (CacheState fl) m"
    using c key unfolding resolverCacheOK_def diskOK_def fileOK_def by blast
  obtain n r1 where r1: "FromPath (Disk env w) n key = Some r1" "CacheState fl = GetState r1" "resolver_ok r1"
    by (rule walkedAt_valid [OF h w0(1) key w0(2) d(7)])
  then have r: "r = restored r1" using FromState_GetState [OF r1(3)] d(8) by simp
  then have "GetState r = GetState r1" "resolver_ok r" using GetState_restored resolver_ok_restored r1(3) by auto
  then show ?thesis using Some x c key d w0 r1 honestTimesD(1) [OF h] unfolding entryOK_def like_walk_def by auto
qed

lemma LoadResolver_OK:
  assumes h: "honestTimes env later" and f: "cacheFiles env later dir" and c: "resolverCacheOK env later dir version c w"
    and run: "LoadResolver env n c p w = Some (r, c', w')"
  shows "resolverCacheOK env later dir version c' w' \<and> later w w' \<and> like_walk env later (cacheKey (Disk env w) p) w w' r"
proof -
  let ?key = "cacheKey (Disk env w) p"
  note key = cacheKey_rooted [OF h, of w p]
  show ?thesis
  proof (cases "\<exists>en. map_of (l1 c) ?key = Some en \<and> manifestStillValid (Mtime env w) (EntryManifest en)")
    case True
    then obtain en where en: "map_of (l1 c) ?key = Some en" "manifestStillValid (Mtime env w) (EntryManifest en)" by blast
    then have res: "r = EntryResolver en" "c' = c" "w' = w" using run by (auto simp: LoadResolver_def Let_def)
    have "entryOK env later w (?key, en)" using c map_of_SomeD [OF en(1)] by (auto simp: resolverCacheOK_def)
    then obtain w0 where w0: "later w0 w" "walkedAt env ?key w0 (GetState r) (EntryManifest en)" "resolver_ok r"
      by (auto simp: entryOK_def res)
    obtain m r1 where "FromPath (Disk env w) m ?key = Some r1" "GetState r = GetState r1" "resolver_ok r1"
      by (rule walkedAt_valid [OF h w0(1) key w0(2) en(2)])
    then show ?thesis using res c w0(3) honestTimesD(1) [OF h] unfolding like_walk_def by blast
  next
    case False
    let ?c = "c\<lparr>l1 := AList.delete ?key (l1 c)\<rparr>"
    have "set (AList.delete ?key (l1 c)) \<subseteq> set (l1 c)" by (auto simp: AList.delete_eq)
    then have c1: "resolverCacheOK env later dir version ?c w" using c by (auto simp: resolverCacheOK_def)
    obtain out w1 where d: "loadDisk env ?c ?key w = (out, w1)" by fastforce
    note disk = loadDisk_OK [OF h f c1 key d]
    show ?thesis
    proof (cases out)
      case None
      then have "loadFresh env n ?c ?key w1 = Some (r, c', w')" using run False d by (auto simp: LoadResolver_def Let_def split: if_splits)
      from loadFresh_OK [OF h f conjunct1 [OF disk] key this] disk show ?thesis
        using honestTimesD(2) [OF h] unfolding like_walk_def by blast
    next
      case (Some x)
      obtain r' m where x: "x = (r', m)" by (cases x)
      then have res: "r = r'" "c' = ?c\<lparr>l1 := AList.update ?key \<lparr>EntryResolver = r', EntryManifest = m\<rparr> (l1 ?c)\<rparr>" "w' = w1"
        using run False d Some by (auto simp: LoadResolver_def Let_def split: if_splits)
      have upd: "set (AList.update ?key en xs) \<subseteq> insert (?key, en) (set xs)" for en xs by (induction xs) auto
      show ?thesis using disk Some x res upd [of "\<lparr>EntryResolver = r', EntryManifest = m\<rparr>" "l1 ?c"]
        by (auto simp: resolverCacheOK_def)
    qed
  qed
qed

lemma persistAll_OK:
  assumes h: "honestTimes env later" and f: "cacheFiles env later dir"
  shows "resolverCacheOK env later dir version c w \<Longrightarrow> \<forall>x \<in> set ms. entryOK env later w x \<Longrightarrow> resolverCacheOK env later dir version c (persistAll env c ms w)"
proof (induction ms arbitrary: w)
  case (Cons x ms)
  obtain key en where x: "x = (key, en)" by (cases x)
  have en: "entryOK env later w (key, \<lparr>EntryResolver = EntryResolver en, EntryManifest = EntryManifest en\<rparr>)"
    using Cons.prems(2) x by (simp add: entryOK_def)
  note w = writeDisk_OK [OF h f Cons.prems(1) en]
  then show ?case using Cons.prems(2) entryOK_later [OF h conjunct2 [OF w]] by (simp add: x Cons.IH)
qed simp

text \<open>The caches of a process and of those after it, with the worlds they live in: loads, writing the pending entries, a new
  process, and whatever others do to the project meanwhile; they may remove cache files but not write them.\<close>

inductive cacheReach :: "'w cacheEnv \<Rightarrow> ('w \<Rightarrow> 'w \<Rightarrow> bool) \<Rightarrow> string \<Rightarrow> string \<Rightarrow> RojoResolverCache \<Rightarrow> 'w \<Rightarrow> bool" for env later dir version where
  cache_first: "\<forall>key. ReadFile (Disk env w) (cachePath env dir key) = None \<Longrightarrow>
    cacheReach env later dir version (NewRojoResolverCacheWithDeferredPersist dir version b) w"
| cache_restart: "cacheReach env later dir version c w \<Longrightarrow> cacheReach env later dir version (NewRojoResolverCacheWithDeferredPersist dir version b) w"
| cache_load: "cacheReach env later dir version c w \<Longrightarrow> LoadResolver env n c p w = Some (r, c', w') \<Longrightarrow> cacheReach env later dir version c' w'"
| cache_persist: "cacheReach env later dir version c w \<Longrightarrow> Persist env c w = (c', w') \<Longrightarrow> cacheReach env later dir version c' w'"
| cache_pass: "cacheReach env later dir version c w \<Longrightarrow> later w w' \<Longrightarrow>
    \<forall>key. ReadFile (Disk env w') (cachePath env dir key) \<in> {None, ReadFile (Disk env w) (cachePath env dir key)} \<Longrightarrow>
    cacheReach env later dir version c w'"

lemma cacheReach_OK:
  assumes h: "honestTimes env later" and f: "cacheFiles env later dir"
  shows "cacheReach env later dir version c w \<Longrightarrow> resolverCacheOK env later dir version c w"
proof (induction rule: cacheReach.induct)
  case (cache_first w b)
  then show ?case by (simp add: resolverCacheOK_def diskOK_def NewRojoResolverCacheWithDeferredPersist_def)
next
  case (cache_restart c w b)
  then show ?case by (simp add: resolverCacheOK_def NewRojoResolverCacheWithDeferredPersist_def)
next
  case (cache_load c w n p r c' w')
  then show ?case using LoadResolver_OK [OF h f] by blast
next
  case (cache_persist c w c' w')
  then have "resolverCacheOK env later dir version c (persistAll env c (pending c) w)" by (intro persistAll_OK [OF h f]) (auto simp: resolverCacheOK_def)
  then show ?case using cache_persist.hyps by (auto simp: Persist_def resolverCacheOK_def)
next
  case (cache_pass c w w')
  then show ?case using resolverCacheOK_later [OF h cache_pass.hyps(2)] by blast
qed

text \<open>C17: whatever processes have loaded, persisted and changed before, a load through the cache gives what a walk gives at some
  moment of the call: the same snapshot and the same answer to every lookup. Modification times must be honest, and
  what manifests do not record (the kind of mounted paths and the targets of links) must stay.\<close>

theorem cache_transparent:
  assumes "honestTimes env later" "cacheFiles env later dir" "cacheReach env later dir version c w" "LoadResolver env n c p w = Some (r, c', w')"
  shows "\<exists>w1 m r1. later w w1 \<and> later w1 w' \<and> FromPath (Disk env w1) m (cacheKey (Disk env w) p) = Some r1 \<and> GetState r = GetState r1 \<and>
    (\<forall>v f. GetRbxPathFromFilePath v r f = GetRbxPathFromFilePath v r1 f)"
proof -
  have "like_walk env later (cacheKey (Disk env w) p) w w' r"
    using LoadResolver_OK [OF assms(1,2) cacheReach_OK [OF assms(1-3)] assms(4)] by blast
  then show ?thesis using GetState_answers unfolding like_walk_def by metis
qed

text \<open>A cache in memory files for the small project.\<close>

definition exKey :: string where "exKey = ''/p/default.project.json''"

definition exCached :: resolverCacheFile where
  "exCached = \<lparr>CacheVersion = 2, CacheCompiler = ''v'', CacheKey = exKey, CacheState = GetState (the (FromPath (sampleFs sampleTree) 9 exKey)),
     MtimeManifest = [\<lparr>ManifestPath = exKey, MtimeUnixNano = 0\<rparr>]\<rparr>"

definition exCacheEnv :: "(string \<Rightarrow> string option) cacheEnv" where
  "exCacheEnv = \<lparr>Disk = (\<lambda>w. (sampleFs sampleTree)\<lparr>ReadFile := w\<rparr>), Mtime = (\<lambda>w p. if p = exKey then Some 0 else None), CacheOps = memOps,
     MarshalCache = (\<lambda>f. if f = exCached then Some ''x'' else None), UnmarshalCache = (\<lambda>d. if d = ''x'' @ [LF] then Some exCached else None),
     hexSum = (\<lambda>_. ''k'')\<rparr>"

definition exLater :: "(string \<Rightarrow> string option) \<Rightarrow> (string \<Rightarrow> string option) \<Rightarrow> bool" where
  "exLater a b \<longleftrightarrow> b exKey = a exKey"

lemma exCachePath: "cachePath exCacheEnv ''/c'' key = ''/c/k.rojocache.json''"
  by (simp add: cachePath_def exCacheEnv_def) code_simp

lemma exHonest: "honestTimes exCacheEnv exLater"
  unfolding honestTimes_def
proof (intro conjI allI impI)
  show "sameLinks (Disk exCacheEnv a) (Disk exCacheEnv b)" for a b
    using rooted_clean by (auto simp: sameLinks_def exCacheEnv_def sampleFs_def)
qed (use sample_rooted in \<open>auto simp: exLater_def exCacheEnv_def sampleFs_def split: if_splits\<close>)

lemma exFiles: "cacheFiles exCacheEnv exLater ''/c''"
proof -
  have "Dir ''/c/k.rojocache.json'' = ''/c''" "Base ''/c/.rojo-cache-'' = ''.rojo-cache-''" "cacheName ''/c/k.rojocache.json''" by code_simp+
  moreover have "posixFiles (\<lambda>w. w) (memOps)" using posix_memOps by (simp add: id_def)
  ultimately show ?thesis unfolding cacheFiles_def exCachePath
    by (auto simp: exCacheEnv_def exLater_def exKey_def writeResolverCacheFileAtomic_def fillTemp_def commitTemp_def memOps_def Let_def split: if_splits)
qed

theorem cache_transparent_witness:
  "\<exists>n r c w. LoadResolver exCacheEnv n (NewRojoResolverCache ''/c'' ''v'') ''default.project.json'' (ReadFile (sampleFs sampleTree)) = Some (r, c, w) \<and>
     (\<exists>w1 m r1. FromPath (Disk exCacheEnv w1) m exKey = Some r1 \<and> GetState r = GetState r1)"
proof -
  let ?c = "NewRojoResolverCache ''/c'' ''v''" and ?w = "ReadFile (sampleFs sampleTree)"
  have disk: "Disk exCacheEnv ?w = sampleFs sampleTree" by (simp add: exCacheEnv_def)
  have key: "cacheKey (sampleFs sampleTree) ''default.project.json'' = exKey" using sample_rooted(3) [of sampleTree] by (simp add: cacheKey_def exKey_def) code_simp
  have none: "ReadFile (Disk exCacheEnv ?w) (cachePath exCacheEnv ''/c'' k) = None" for k unfolding exCachePath disk by (simp add: sampleFs_def)
  then have reach: "cacheReach exCacheEnv exLater ''/c'' ''v'' ?c ?w" unfolding NewRojoResolverCache_def by (intro cache_first) simp
  obtain n r0 where "FromPath (sampleFs sampleTree) n exKey = Some r0"
    using sample_returns sample_rooted(3) [of sampleTree] FromPath_rooted [OF isRooted_Abs [OF sample_rooted(3,2,1)]]
    by (auto simp: FromPath_def exKey_def)
  then have "LoadResolver exCacheEnv n ?c ''default.project.json'' ?w \<noteq> None" using none [of exKey] disk key
    by (simp add: LoadResolver_def Let_def loadDisk_def loadFresh_def NewRojoResolverCache_def NewRojoResolverCacheWithDeferredPersist_def)
  then obtain r c w where run: "LoadResolver exCacheEnv n ?c ''default.project.json'' ?w = Some (r, c, w)" by auto
  from cache_transparent [OF exHonest exFiles reach run] run show ?thesis unfolding disk key by blast
qed

text \<open>A mount that is missing at the first walk is in no manifest. When it appears with a project of its own, the cache goes on
  to answer without this project.\<close>

definition staleEnv :: "bool cacheEnv" where
  "staleEnv = \<lparr>Disk = (\<lambda>mounted. \<lparr>Getwd = Some ''/p'',
       Stat = (\<lambda>p. if p = ''/p/default.project.json'' then Some KRegular
         else if mounted \<and> p = ''/p/src'' then Some KDir
         else if mounted \<and> p = ''/p/src/default.project.json'' then Some KRegular else None),
       ReadDir = (\<lambda>p. if mounted \<and> p = ''/p/src'' then Some [(''default.project.json'', KRegular)] else None),
       ReadFile = (\<lambda>p. if p = ''/p/default.project.json'' then Some ''outer''
         else if mounted \<and> p = ''/p/src/default.project.json'' then Some ''inner'' else None),
       Realpath = (\<lambda>p. p),
       Tokens = (\<lambda>s. toTokens (projectJSON ''g'' (Tree [] (Some (if s = ''outer'' then ''src'' else ''lib'')) [])))\<rparr>),
     Mtime = (\<lambda>mounted p. if p = ''/p/default.project.json'' then Some 0 else None),
     CacheOps = \<lparr>MkdirAll = (\<lambda>d w. (None, w)), CreateTemp = (\<lambda>d pat w. (Inl ''full'', w)), WriteTemp = (\<lambda>t data w. (None, w)),
       CloseTemp = (\<lambda>t w. (None, w)), RemoveFile = (\<lambda>t w. w), RenameFile = (\<lambda>t p w. (None, w))\<rparr>,
     MarshalCache = (\<lambda>f. None), UnmarshalCache = (\<lambda>d. None), hexSum = (\<lambda>_. ''k'')\<rparr>"

definition staleLookup :: "RojoResolver \<Rightarrow> RbxPath option" where
  "staleLookup r = GetRbxPathFromFilePath (Disk staleEnv True) r ''/p/src/lib/a.luau''"

theorem cache_misses_mount:
  "map_option (\<lambda>(r, c, w). map_option (\<lambda>(r, c, w). staleLookup r) (LoadResolver staleEnv 9 c ''/p/default.project.json'' True))
     (LoadResolver staleEnv 9 (NewRojoResolverCache ''/c'' ''v'') ''/p/default.project.json'' False) = Some (Some (Some [''lib'', ''a''])) \<and>
   map_option staleLookup (FromPath (Disk staleEnv True) 9 ''/p/default.project.json'') = Some (Some [''a''])"
  by code_simp

end
