(* ===== verification/Pack.thy ===== *)
theory Pack
  imports Rojo_Sourcemap Bundle_Data Cst_Parse_Correct
begin

text \<open>
  Packing a Rojo project into one artifact (\<open>src/internal/pack\<close>): the instance tree from the project and the file system
  (\<open>native.go\<close>) or from an XML model (\<open>model.go\<close>), and the Luau script that rebuilds it (\<open>luau.go\<close>, \<open>pack.go\<close>).

  Names and classes of files are those of the source map: \<open>native.go\<close> and \<open>pack.go\<close> have copies of \<open>trimLuaExt\<close>,
  \<open>scriptClass\<close>, \<open>deriveName\<close>, \<open>isIgnored\<close>, \<open>findInit\<close>, \<open>isFile\<close> and \<open>resolveProject\<close>. An instance is a value; the identifiers
  that \<open>EmitLuau\<close> assigns are a field of it, zero before. The flag \<open>supported\<close> of the builder goes along, and the walk over
  directories has fuel for its depth. Running \<open>rojo\<close>, the XML decoder, \<open>filepath.Glob\<close> and lower-casing are arguments.
\<close>

section \<open>Instances (\<open>model.go\<close>)\<close>

datatype rbxInstance =
  Instance (instClass: string) (instName: string) (instSource: string) (instValue: string) (instChildren: "rbxInstance list") (instId: nat)

definition IsScript :: "rbxInstance \<Rightarrow> bool" where
  "IsScript n \<longleftrightarrow> instClass n = ''ModuleScript'' \<or> instClass n = ''Script'' \<or> instClass n = ''LocalScript''"

datatype xmlItem = XmlItem (xmlClass: string) (xmlStrings: "(string \<times> string) list") (xmlProtected: "(string \<times> string) list") (xmlItems: "xmlItem list")

definition applyProp :: "string \<times> string \<Rightarrow> rbxInstance \<Rightarrow> rbxInstance" where
  "applyProp p n =
     (if fst p = ''Name'' then Instance (instClass n) (snd p) (instSource n) (instValue n) (instChildren n) (instId n)
      else if fst p = ''Source'' then Instance (instClass n) (instName n) (snd p) (instValue n) (instChildren n) (instId n)
      else if fst p = ''Value'' then Instance (instClass n) (instName n) (instSource n) (snd p) (instChildren n) (instId n)
      else n)"

definition addKids :: "rbxInstance list \<Rightarrow> rbxInstance \<Rightarrow> rbxInstance" where
  "addKids cs n = Instance (instClass n) (instName n) (instSource n) (instValue n) (instChildren n @ cs) (instId n)"

fun convertItem :: "xmlItem \<Rightarrow> rbxInstance" where
  "convertItem (XmlItem cls strings protected items) =
     addKids (map convertItem items) (fold applyProp protected (fold applyProp strings (Instance cls [] [] [] [] 0)))"

definition ParseRbxmx :: "(string \<Rightarrow> xmlItem list option) \<Rightarrow> string \<Rightarrow> rbxInstance list option" where
  "ParseRbxmx UnmarshalXML data = map_option (map convertItem) (UnmarshalXML data)"

section \<open>The native builder (\<open>native.go\<close>)\<close>

definition orInstClass :: "string \<Rightarrow> rbxInstance \<Rightarrow> rbxInstance" where
  "orInstClass cn n = (if instClass n = [] then Instance cn (instName n) (instSource n) (instValue n) (instChildren n) (instId n) else n)"

definition setContent :: "string \<Rightarrow> string \<Rightarrow> rbxInstance \<Rightarrow> rbxInstance" where
  "setContent s v n = Instance (instClass n) (instName n) s v (instChildren n) (instId n)"

definition classifyContent :: "(string \<Rightarrow> string) \<Rightarrow> fs \<Rightarrow> string \<Rightarrow> (string \<times> string \<times> string) option" where
  "classifyContent lower w fsPath =
     (case ReadFile w fsPath of
        None \<Rightarrow> None
      | Some data \<Rightarrow>
          if scriptClass lower fsPath \<noteq> [] then Some (scriptClass lower fsPath, data, [])
          else if HasSuffix (lower fsPath) ''.txt'' then Some (''StringValue'', [], data)
          else None)"

definition classifyFile :: "(string \<Rightarrow> string) \<Rightarrow> fs \<Rightarrow> string \<Rightarrow> rbxInstance option" where
  "classifyFile lower w fsPath =
     map_option (\<lambda>(cn, s, v). Instance cn (deriveName lower (Base fsPath)) s v [] 0) (classifyContent lower w fsPath)"

type_synonym dirWalk = "rbxInstance \<Rightarrow> string \<Rightarrow> bool \<Rightarrow> (rbxInstance \<times> bool) option"

definition fromDirEntry :: "dirWalk \<Rightarrow> (string \<Rightarrow> string) \<Rightarrow> fs \<Rightarrow> string \<Rightarrow> bool \<Rightarrow> (rbxInstance option \<times> bool) option" where
  "fromDirEntry subdir lower w fsPath supported =
     (case Stat w fsPath of
        None \<Rightarrow> Some (None, False)
      | Some KDir \<Rightarrow> do { (n, supported) \<leftarrow> subdir (Instance [] (Base fsPath) [] [] [] 0) fsPath supported; Some (Some n, supported) }
      | Some _ \<Rightarrow> Some (case classifyFile lower w fsPath of None \<Rightarrow> (None, False) | Some n \<Rightarrow> (Some n, supported)))"

definition packEntry :: "dirWalk \<Rightarrow> (string \<Rightarrow> string) \<Rightarrow> fs \<Rightarrow> string \<Rightarrow> string \<Rightarrow> string \<Rightarrow> rbxInstance \<times> bool \<Rightarrow> (rbxInstance \<times> bool) option" where
  "packEntry subdir lower w dir initFile nm = (\<lambda>(n, supported).
     if nm = initFile \<or> isIgnored nm then Some (n, supported)
     else if HasSuffix (lower nm) ''.meta.json'' then Some (n, False)
     else if nm = ''default.project.json'' then Some (n, False)
     else do {
       (child, supported) \<leftarrow> fromDirEntry subdir lower w (PathJoin dir nm) supported;
       Some (case child of None \<Rightarrow> n | Some c \<Rightarrow> addKids [c] n, supported)
     })"

definition packDirBody :: "dirWalk \<Rightarrow> (string \<Rightarrow> string) \<Rightarrow> fs \<Rightarrow> dirWalk" where
  "packDirBody subdir lower w inst dir supported =
     (case ReadDir w dir of
        None \<Rightarrow> Some (inst, False)
      | Some entries \<Rightarrow>
          (let names = sort (map fst entries); (initFile, initClass) = findInit names;
               entriesFrom = (\<lambda>n. foldM (packEntry subdir lower w dir initFile) names (n, supported)) in
           if initFile \<noteq> [] then
             (case ReadFile w (PathJoin dir initFile) of
                None \<Rightarrow> Some (inst, False)
              | Some data \<Rightarrow> entriesFrom (setContent data (instValue inst) (orInstClass initClass inst)))
           else entriesFrom (orInstClass ''Folder'' inst)))"

fun packDir :: "(string \<Rightarrow> string) \<Rightarrow> fs \<Rightarrow> nat \<Rightarrow> dirWalk" where
  "packDir lower w 0 = (\<lambda>_ _ _. None)"
| "packDir lower w (Suc k) = packDirBody (packDir lower w k) lower w"

definition packPath :: "(string \<Rightarrow> string) \<Rightarrow> fs \<Rightarrow> nat \<Rightarrow> dirWalk" where
  "packPath lower w k inst fsPath supported =
     (case Stat w fsPath of
        None \<Rightarrow> Some (inst, False)
      | Some KDir \<Rightarrow> packDir lower w k inst fsPath supported
      | Some _ \<Rightarrow>
          (case classifyContent lower w fsPath of
             None \<Rightarrow> Some (inst, False)
           | Some (cn, s, v) \<Rightarrow> Some (setContent s v (orInstClass cn inst), supported)))"

function packTree :: "(string \<Rightarrow> string) \<Rightarrow> fs \<Rightarrow> string \<Rightarrow> nat \<Rightarrow> string \<Rightarrow> tree \<Rightarrow> bool \<Rightarrow> (rbxInstance \<times> bool) option"
  and packTrees :: "(string \<Rightarrow> string) \<Rightarrow> fs \<Rightarrow> string \<Rightarrow> nat \<Rightarrow> (string \<times> tree) list \<Rightarrow> bool \<Rightarrow> (rbxInstance list \<times> bool) option" where
  "packTree lower w dir k nm tree supported = do {
     let inst = Instance (ClassName tree) nm [] [] [] 0;
     let supported = (supported \<and> ClassName tree \<noteq> ''DataModel'');
     (inst, supported) \<leftarrow> (case Path tree of None \<Rightarrow> Some (inst, supported) | Some p \<Rightarrow> packPath lower w k inst (PathJoin dir p) supported);
     (cs, supported) \<leftarrow> packTrees lower w dir k (Children tree) supported;
     let inst = addKids cs inst;
     let supported = (supported \<and> \<not> (instClass inst = [] \<and> Path tree = None \<and> Children tree = []));
     Some (orInstClass ''Folder'' inst, supported)
   }"
| "packTrees lower w dir k [] supported = Some ([], supported)"
| "packTrees lower w dir k (c # cs) supported = do {
     (n, supported) \<leftarrow> packTree lower w dir k (fst c) (snd c) supported;
     (ns, supported) \<leftarrow> packTrees lower w dir k cs supported;
     Some (n # ns, supported)
   }"
  by pat_completeness auto

termination
  by (relation "measure (\<lambda>x. case x of Inl (_, _, _, _, _, t, _) \<Rightarrow> size t | Inr (_, _, _, _, cs, _) \<Rightarrow> listWeight cs)")
    (auto simp: listWeight_children, auto simp: listWeight_def)

definition BuildNative :: "(string \<Rightarrow> string) \<Rightarrow> fs \<Rightarrow> nat \<Rightarrow> string \<Rightarrow> (string + rbxInstance \<times> bool) option" where
  "BuildNative lower w k projectFile = do {
     parsed \<leftarrow> ParseProjectFile w projectFile;
     case parsed of
       Inl e \<Rightarrow> Some (Inl e)
     | Inr (nm, tree) \<Rightarrow> map_option Inr (packTree lower w (Dir projectFile) k (if nm = [] then ''Model'' else nm) tree True)
   }"

section \<open>The script (\<open>luau.go\<close>)\<close>

definition runtimeLines :: "(nat \<times> string) list" where
  \<open>runtimeLines =
    [(0, ''-- Generated by rotor pack. Self-contained: rebuilds the project's instance tree''),
     (0, ''-- and resolves requires against it. Runs anywhere Luau runs (no Rojo at runtime).''),
     (0, ''local realRequire = require''),
     (0, ''local realGame = game''),
     (0, ''local Instances = {}''),
     (0, ''local methods''),
     (0, ''local function virtualChild(self, name)''),
     (1, ''for _, c in ipairs(self._children) do''),
     (2, ''if c.Name == name then''),
     (3, ''return c''),
     (2, ''end''),
     (1, ''end''),
     (1, ''return nil''),
     (0, ''end''),
     (0, ''local function realOf(self)''),
     (1, ''local r = rawget(self, "_real")''),
     (1, ''if r ~= nil then''),
     (2, ''return r or nil''),
     (1, ''end''),
     (1, ''local found''),
     (1, ''if self.Parent == nil then''),
     (2, ''found = realGame''),
     (1, ''else''),
     (2, ''local pr = realOf(self.Parent)''),
     (2, ''found = pr ~= nil and pr:FindFirstChild(self.Name) or nil''),
     (1, ''end''),
     (1, ''rawset(self, "_real", found or false)''),
     (1, ''return found''),
     (0, ''end''),
     (0, ''local function findFirstChild(self, name)''),
     (1, ''local c = virtualChild(self, name)''),
     (1, ''if c ~= nil then''),
     (2, ''return c''),
     (1, ''end''),
     (1, ''local r = realOf(self)''),
     (1, ''return r ~= nil and r:FindFirstChild(name) or nil''),
     (0, ''end''),
     (0, ''local function waitForChild(self, name, timeout)''),
     (1, ''local c = virtualChild(self, name)''),
     (1, ''if c ~= nil then''),
     (2, ''return c''),
     (1, ''end''),
     (1, ''local r = realOf(self)''),
     (1, ''if r ~= nil then''),
     (2, ''return r:WaitForChild(name, timeout)''),
     (1, ''end''),
     (1, ''return nil''),
     (0, ''end''),
     (0, ''local function getChildren(self)''),
     (1, ''local t = {}''),
     (1, ''for i = 1, #self._children do''),
     (2, ''t[i] = self._children[i]''),
     (1, ''end''),
     (1, ''return t''),
     (0, ''end''),
     (0, ''local function getFullName(self)''),
     (1, ''local parts, cur = {}, self''),
     (1, ''while cur do''),
     (2, ''table.insert(parts, 1, cur.Name)''),
     (2, ''cur = cur.Parent''),
     (1, ''end''),
     (1, ''return table.concat(parts, ".")''),
     (0, ''end''),
     (0, ''local function getService(self, name)''),
     (1, ''local c = virtualChild(self, name)''),
     (1, ''if c ~= nil then''),
     (2, ''return c''),
     (1, ''end''),
     (1, ''if realGame ~= nil then''),
     (2, ''return realGame:GetService(name)''),
     (1, ''end''),
     (1, ''error("rotor pack: service '" .. tostring(name) .. "' is not in the bundle", 2)''),
     (0, ''end''),
     (0, ''methods = {''),
     (1, ''FindFirstChild = findFirstChild,''),
     (1, ''WaitForChild = waitForChild,''),
     (1, ''GetChildren = getChildren,''),
     (1, ''GetFullName = getFullName,''),
     (0, ''}''),
     (0, ''local dmMethods = {''),
     (1, ''GetService = getService,''),
     (1, ''FindService = getService,''),
     (0, ''}''),
     (0, ''local MT = {''),
     (1, ''__index = function(self, key)''),
     (2, ''local m = methods[key]''),
     (2, ''if m ~= nil then''),
     (3, ''return m''),
     (2, ''end''),
     (2, ''return findFirstChild(self, key)''),
     (1, ''end,''),
     (1, ''__tostring = function(self)''),
     (2, ''return self.Name''),
     (1, ''end,''),
     (0, ''}''),
     (0, ''local DataModelMT = {''),
     (1, ''__index = function(self, key)''),
     (2, ''local dm = dmMethods[key]''),
     (2, ''if dm ~= nil then''),
     (3, ''return dm''),
     (2, ''end''),
     (2, ''local m = methods[key]''),
     (2, ''if m ~= nil then''),
     (3, ''return m''),
     (2, ''end''),
     (2, ''local child = virtualChild(self, key)''),
     (2, ''if child ~= nil then''),
     (3, ''return child''),
     (2, ''end''),
     (2, ''if realGame ~= nil then''),
     (3, ''local v = realGame[key]''),
     (3, ''if type(v) == "function" then''),
     (4, ''return function(_, ...)''),
     (5, ''return v(realGame, ...)''),
     (4, ''end''),
     (3, ''end''),
     (3, ''return v''),
     (2, ''end''),
     (2, ''return nil''),
     (1, ''end,''),
     (1, ''__tostring = function(self)''),
     (2, ''return self.Name''),
     (1, ''end,''),
     (0, ''}''),
     (0, ''local function mk(id, className, name)''),
     (1, ''local mt = MT''),
     (1, ''if className == "DataModel" then''),
     (2, ''mt = DataModelMT''),
     (1, ''end''),
     (1, ''local self = setmetatable({ _id = id, _children = {}, ClassName = className, Name = name, Parent = nil }, mt)''),
     (1, ''Instances[id] = self''),
     (1, ''return self''),
     (0, ''end''),
     (0, ''local function setParent(child, parent)''),
     (1, ''child.Parent = parent''),
     (1, ''table.insert(parent._children, child)''),
     (0, ''end''),
     (0, ''local cache, loading = {}, {}''),
     (0, ''local function rotorRequire(target)''),
     (1, ''if type(target) == "table" and rawget(target, "_id") ~= nil and target.ClassName == "ModuleScript" then''),
     (2, ''local id = target._id''),
     (2, ''local c = cache[id]''),
     (2, ''if c ~= nil then''),
     (3, ''return c.value''),
     (2, ''end''),
     (2, ''if loading[id] then''),
     (3, ''error("Requested module was required recursively", 2)''),
     (2, ''end''),
     (2, ''loading[id] = true''),
     (2, ''local value = target._impl(target, rotorRequire)''),
     (2, ''loading[id] = nil''),
     (2, ''cache[id] = { value = value }''),
     (2, ''return value''),
     (1, ''end''),
     (1, ''return realRequire(target)''),
     (0, ''end''),
     (0, ''local function runScripts(inst)''),
     (1, ''if inst.ClassName == "Script" or inst.ClassName == "LocalScript" then''),
     (2, ''inst._impl(inst, rotorRequire)''),
     (1, ''end''),
     (1, ''for _, c in ipairs(inst._children) do''),
     (2, ''runScripts(c)''),
     (1, ''end''),
     (0, ''end'')]\<close>

definition runtimePrelude :: string where
  "runtimePrelude = concat (map (\<lambda>(n, l). replicate n TAB @ l @ [LF]) runtimeLines)"

definition luauString :: "string \<Rightarrow> string" where
  "luauString s = DQUOTE # concat (map (\<lambda>c.
     if c = DQUOTE then [BSLASH, DQUOTE] else if c = BSLASH then [BSLASH, BSLASH] else if c = LF then BSLASH # ''n''
     else if c = CR then BSLASH # ''r'' else if c = TAB then BSLASH # ''t''
     else if (of_char c :: nat) < 32 then BSLASH # FormatUint (of_char c) else [c]) s) @ [DQUOTE]"

lemma luauString_short: "luauString = luauShortString"
  by (simp add: fun_eq_iff luauString_def luauShortString_def escapeByte_def [abs_def])

text \<open>The function \<open>assign\<close> of \<open>EmitLuau\<close>: the instances are numbered in the order in which they are visited.\<close>

fun assign :: "rbxInstance \<Rightarrow> nat \<Rightarrow> rbxInstance \<times> nat"
  and assignAll :: "rbxInstance list \<Rightarrow> nat \<Rightarrow> rbxInstance list \<times> nat" where
  "assign (Instance cls nm s v cs _) m =
     (let (cs', m') = assignAll cs (m + 1) in (Instance cls nm s v cs' (m + 1), m'))"
| "assignAll [] m = ([], m)"
| "assignAll (c # cs) m = (let (c', m1) = assign c m; (cs', m2) = assignAll cs m1 in (c' # cs', m2))"

fun listed :: "nat \<Rightarrow> rbxInstance \<Rightarrow> (rbxInstance \<times> nat) list" where
  "listed parent (Instance cls nm s v cs i) = (Instance cls nm s v cs i, parent) # concat (map (listed i) cs)"

definition childByName :: "rbxInstance \<Rightarrow> string \<Rightarrow> rbxInstance option" where
  "childByName n nm = find (\<lambda>c. instName c = nm) (instChildren n)"

fun descend :: "rbxInstance \<Rightarrow> string list \<Rightarrow> rbxInstance option" where
  "descend cur [] = Some cur"
| "descend cur (s # segs) = (case childByName cur s of None \<Rightarrow> None | Some c \<Rightarrow> descend c segs)"

definition resolveEntry :: "rbxInstance \<Rightarrow> string \<Rightarrow> rbxInstance option" where
  "resolveEntry root path =
     (let segs = Split path (CHR ''.'') in descend root (if segs \<noteq> [] \<and> hd segs = instName root then tl segs else segs))"

definition emitInstance :: "rbxInstance \<times> nat \<Rightarrow> string" where
  "emitInstance = (\<lambda>(n, pid). let i = FormatUint (instId n) in
     ''local i'' @ i @ '' = mk('' @ i @ '', '' @ luauString (instClass n) @ '', '' @ luauString (instName n) @ '')'' @ [LF] @
     (if pid \<noteq> 0 then ''setParent(i'' @ i @ '', i'' @ FormatUint pid @ '')'' @ [LF] else []) @
     (if instClass n = ''StringValue'' then ''i'' @ i @ ''.Value = '' @ luauString (instValue n) @ [LF] else []))"

definition failureText :: "rbxInstance \<Rightarrow> diagnostic \<Rightarrow> string" where
  "failureText n d = ''rotor pack: '' @ instName n @ '' failed to compile at '' @ FormatUint (Line (Pos d)) @ '':'' @ FormatUint (Col (Pos d)) @ '': '' @ Message d"

definition emitImpl :: "rbxInstance \<Rightarrow> string option" where
  "emitImpl n = do {
     (f, ds) \<leftarrow> Parse (instSource n);
     let i = FormatUint (instId n);
     Some (case ds of
         d # _ \<Rightarrow> ''i'' @ i @ ''._impl = function(script, require) error('' @ luauString (failureText n d) @ '') end'' @ [LF]
       | [] \<Rightarrow> ''i'' @ i @ ''._impl = function(script, require)'' @ [LF] @ instSource n @
           (if HasSuffix (instSource n) [LF] then [] else [LF]) @ ''end'' @ [LF])
   }"

fun emitImpls :: "rbxInstance list \<Rightarrow> string option" where
  "emitImpls [] = Some []"
| "emitImpls (n # ns) = do { t \<leftarrow> emitImpl n; ts \<leftarrow> emitImpls ns; Some (t @ ts) }"

definition entryText :: "rbxInstance \<Rightarrow> rbxInstance option \<Rightarrow> string" where
  "entryText root entryInst =
     (case entryInst of
        None \<Rightarrow> (let i = FormatUint (instId root) in ''runScripts(i'' @ i @ '')'' @ [LF] @ ''return i'' @ i @ [LF])
      | Some n \<Rightarrow> (let i = FormatUint (instId n) in
          if instClass n = ''Script'' \<or> instClass n = ''LocalScript'' then ''return i'' @ i @ ''._impl(i'' @ i @ '', rotorRequire)'' @ [LF]
          else ''return rotorRequire(i'' @ i @ '')'' @ [LF]))"

datatype packError = NoInstances | EntryNotFound string | NativeFailed string | ProjectNotFound string | RojoFailed string | ParsingModel

definition treeText :: "rbxInstance \<Rightarrow> string" where
  "treeText root = concat (map emitInstance (listed 0 root))"

definition EmitLuau :: "rbxInstance list \<Rightarrow> string \<Rightarrow> (packError + string) option" where
  "EmitLuau roots entry =
     (case roots of
        [] \<Rightarrow> Some (Inl NoInstances)
      | r # _ \<Rightarrow>
          (let root = fst (assign r 0); entryInst = (if entry \<noteq> [] then resolveEntry root entry else None); isGame = instClass root = ''DataModel'' in
           if entry \<noteq> [] \<and> entryInst = None then Some (Inl (EntryNotFound entry))
           else do {
             impls \<leftarrow> emitImpls (filter IsScript (map fst (listed 0 root)));
             Some (Inr (runtimePrelude @ (if isGame then [] else ''realGame = nil'' @ [LF]) @
               [LF] @ ''-- === instance tree ==='' @ [LF] @ treeText root @
               (if isGame then ''local game = i'' @ FormatUint (instId root) @ [LF] else []) @
               [LF] @ ''-- === module/script implementations ==='' @ [LF] @ impls @
               [LF] @ ''-- === entry ==='' @ [LF] @ entryText root entryInst))
           }))"

section \<open>The artifact (\<open>pack.go\<close>)\<close>

definition FormatLuau :: string where "FormatLuau = ''luau''"

record packOptions =
  PackProject :: string
  PackFormat :: string
  PackEntry :: string
  RojoTree :: bool

definition buildTreeViaRojo :: "(string \<Rightarrow> string \<Rightarrow> string + string) \<Rightarrow> (string \<Rightarrow> xmlItem list option) \<Rightarrow> string \<Rightarrow> packError + rbxInstance list" where
  "buildTreeViaRojo rojoBuildBytes UnmarshalXML project =
     (case rojoBuildBytes project ''rbxmx'' of
        Inl e \<Rightarrow> Inl (RojoFailed e)
      | Inr data \<Rightarrow> (case ParseRbxmx UnmarshalXML data of None \<Rightarrow> Inl ParsingModel | Some roots \<Rightarrow> Inr roots))"

definition packViaRojo :: "(string \<Rightarrow> string \<Rightarrow> string + string) \<Rightarrow> (string \<Rightarrow> xmlItem list option) \<Rightarrow> string \<Rightarrow> packOptions \<Rightarrow> (packError + string) option" where
  "packViaRojo rojoBuildBytes UnmarshalXML project opts =
     (case buildTreeViaRojo rojoBuildBytes UnmarshalXML project of
        Inl e \<Rightarrow> Some (Inl e)
      | Inr roots \<Rightarrow> EmitLuau roots (PackEntry opts))"

definition packLuau :: "(string \<Rightarrow> string) \<Rightarrow> fs \<Rightarrow> (string \<Rightarrow> string \<Rightarrow> string + string) \<Rightarrow> (string \<Rightarrow> xmlItem list option) \<Rightarrow> nat \<Rightarrow>
    string \<Rightarrow> packOptions \<Rightarrow> (packError + string) option" where
  "packLuau lower w rojoBuildBytes UnmarshalXML k project opts =
     (if RojoTree opts then packViaRojo rojoBuildBytes UnmarshalXML project opts
      else do {
        built \<leftarrow> BuildNative lower w k project;
        case built of
          Inl e \<Rightarrow> Some (Inl (NativeFailed e))
        | Inr (root, supported) \<Rightarrow>
            if supported then EmitLuau [root] (PackEntry opts) else packViaRojo rojoBuildBytes UnmarshalXML project opts
      })"

definition PackArtifact :: "(string \<Rightarrow> string) \<Rightarrow> fs \<Rightarrow> (string \<Rightarrow> string list) \<Rightarrow> (string \<Rightarrow> string \<Rightarrow> string + string) \<Rightarrow> (string \<Rightarrow> xmlItem list option) \<Rightarrow>
    nat \<Rightarrow> packOptions \<Rightarrow> (packError + string) option" where
  "PackArtifact lower w GlobFiles rojoBuildBytes UnmarshalXML k opts =
     (case resolveProject w GlobFiles (PackProject opts) of
        Inl e \<Rightarrow> Some (Inl (ProjectNotFound e))
      | Inr project \<Rightarrow>
          if PackFormat opts = FormatLuau then packLuau lower w rojoBuildBytes UnmarshalXML k project opts
          else Some (case rojoBuildBytes project (PackFormat opts) of Inl e \<Rightarrow> Inl (RojoFailed e) | Inr data \<Rightarrow> Inr data))"

section \<open>What the script does\<close>

text \<open>The virtual instances of the runtime prelude, and its functions \<open>mk\<close> and \<open>setParent\<close>. An instance is known by its
  \<open>_id\<close>, the key of the table \<open>Instances\<close>. The metatable, which serves lookups of what an instance does not have itself, is
  left out.\<close>

record vinst =
  vClass :: string
  vName :: string
  vValue :: "string option"
  vParent :: "nat option"
  vChildren :: "nat list"

type_synonym instTable = "nat \<Rightarrow> vinst option"

definition mk :: "nat \<Rightarrow> string \<Rightarrow> string \<Rightarrow> instTable \<Rightarrow> instTable" where
  "mk i className name st = st(i \<mapsto> \<lparr>vClass = className, vName = name, vValue = None, vParent = None, vChildren = []\<rparr>)"

definition setParent :: "nat \<Rightarrow> nat \<Rightarrow> instTable \<Rightarrow> instTable" where
  "setParent c p st =
     (let st = st(c := map_option (\<lambda>x. x\<lparr>vParent := Some p\<rparr>) (st c)) in
      st(p := map_option (\<lambda>x. x\<lparr>vChildren := vChildren x @ [c]\<rparr>) (st p)))"

definition setValue :: "nat \<Rightarrow> string \<Rightarrow> instTable \<Rightarrow> instTable" where
  "setValue i v st = st(i := map_option (\<lambda>x. x\<lparr>vValue := Some v\<rparr>) (st i))"

text \<open>A reader of the statements between the headings of the instance tree and of the implementations, line by line as Luau reads
  them: a declaration of a local variable by a call of \<open>mk\<close>, a call of \<open>setParent\<close>, an assignment to \<open>Value\<close>. String literals
  have the escapes of Luau. \<open>None\<close> is a line that is none of these, a variable that is not declared, or one more local
  variable than the 200 that Luau allows in a function; the prelude declares 20.\<close>

record luauState =
  Locals :: "(nat \<times> nat) list"
  Table :: instTable

definition localLimit :: nat where "localLimit = 200"
definition preludeLocals :: nat where "preludeLocals = 20"

definition expect :: "string \<Rightarrow> string \<Rightarrow> string option" where
  "expect p s = (if HasPrefix s p then Some (drop (length p) s) else None)"

definition readUint :: "string \<Rightarrow> (nat \<times> string) option" where
  "readUint s = (if takeWhile digit s = [] then None else Some (decimalVal (takeWhile digit s), dropWhile digit s))"

fun quotedBody :: "string \<Rightarrow> (string \<times> string) option" where
  "quotedBody [] = None"
| "quotedBody (c # s) =
     (if c = DQUOTE then Some ([], s)
      else if c = BSLASH then (case s of [] \<Rightarrow> None | d # t \<Rightarrow> map_option (\<lambda>(b, r). (c # d # b, r)) (quotedBody t))
      else map_option (\<lambda>(b, r). (c # b, r)) (quotedBody s))"

definition readString :: "string \<Rightarrow> (string \<times> string) option" where
  "readString s = do { s \<leftarrow> expect [DQUOTE] s; (b, r) \<leftarrow> quotedBody s; Some (luauUnescape b, r) }"

definition execMk :: "string \<Rightarrow> luauState \<Rightarrow> luauState option" where
  "execMk ln st = do {
     s \<leftarrow> expect ''local i'' ln; (v, s) \<leftarrow> readUint s; s \<leftarrow> expect '' = mk('' s; (i, s) \<leftarrow> readUint s; s \<leftarrow> expect '', '' s;
     (cls, s) \<leftarrow> readString s; s \<leftarrow> expect '', '' s; (nm, s) \<leftarrow> readString s;
     if s = '')'' \<and> length (Locals st) + preludeLocals < localLimit
     then Some \<lparr>Locals = (v, i) # Locals st, Table = mk i cls nm (Table st)\<rparr> else None
   }"

definition execSetParent :: "string \<Rightarrow> luauState \<Rightarrow> luauState option" where
  "execSetParent ln st = do {
     s \<leftarrow> expect ''setParent(i'' ln; (v, s) \<leftarrow> readUint s; s \<leftarrow> expect '', i'' s; (u, s) \<leftarrow> readUint s;
     c \<leftarrow> map_of (Locals st) v; p \<leftarrow> map_of (Locals st) u;
     if s = '')'' then Some (st\<lparr>Table := setParent c p (Table st)\<rparr>) else None
   }"

definition execSetValue :: "string \<Rightarrow> luauState \<Rightarrow> luauState option" where
  "execSetValue ln st = do {
     s \<leftarrow> expect ''i'' ln; (v, s) \<leftarrow> readUint s; s \<leftarrow> expect ''.Value = '' s; (x, s) \<leftarrow> readString s;
     i \<leftarrow> map_of (Locals st) v;
     if s = [] then Some (st\<lparr>Table := setValue i x (Table st)\<rparr>) else None
   }"

definition execLine :: "string \<Rightarrow> luauState \<Rightarrow> luauState option" where
  "execLine ln st =
     (if HasPrefix ln ''local '' then execMk ln st
      else if HasPrefix ln ''setParent('' then execSetParent ln st
      else execSetValue ln st)"

definition execTree :: "string \<Rightarrow> luauState option" where
  "execTree text =
     (let ls = Split text LF in
      if last ls = [] then foldM execLine (butlast ls) \<lparr>Locals = [], Table = (\<lambda>_. None)\<rparr> else None)"

section \<open>Rebuilding the tree\<close>

text \<open>The statements as values, with their lines and their effect.\<close>

datatype treeCmd = Mk nat string string | SetParent nat nat | SetValue nat string

fun lineOf :: "treeCmd \<Rightarrow> string" where
  "lineOf (Mk i cls nm) = ''local i'' @ FormatUint i @ '' = mk('' @ FormatUint i @ '', '' @ luauString cls @ '', '' @ luauString nm @ '')''"
| "lineOf (SetParent i p) = ''setParent(i'' @ FormatUint i @ '', i'' @ FormatUint p @ '')''"
| "lineOf (SetValue i v) = ''i'' @ FormatUint i @ ''.Value = '' @ luauString v"

definition cmdsOf :: "rbxInstance \<times> nat \<Rightarrow> treeCmd list" where
  "cmdsOf = (\<lambda>(n, pid). Mk (instId n) (instClass n) (instName n) # (if pid \<noteq> 0 then [SetParent (instId n) pid] else []) @
     (if instClass n = ''StringValue'' then [SetValue (instId n) (instValue n)] else []))"

fun execCmd :: "treeCmd \<Rightarrow> instTable \<Rightarrow> instTable" where
  "execCmd (Mk i cls nm) = mk i cls nm"
| "execCmd (SetParent i p) = setParent i p"
| "execCmd (SetValue i v) = setValue i v"

definition runCmds :: "treeCmd list \<Rightarrow> instTable \<Rightarrow> instTable" where
  "runCmds = fold execCmd"

text \<open>The table holds the tree: class, name, value, parent and children of every instance.\<close>

fun rebuilt :: "instTable \<Rightarrow> nat option \<Rightarrow> rbxInstance \<Rightarrow> bool" where
  "rebuilt st parent (Instance cls nm s v cs i) \<longleftrightarrow>
     st i = Some \<lparr>vClass = cls, vName = nm, vValue = (if cls = ''StringValue'' then Some v else None), vParent = parent, vChildren = map instId cs\<rparr> \<and>
     list_all (rebuilt st (Some i)) cs"

fun idsOf :: "rbxInstance \<Rightarrow> nat set" where
  "idsOf (Instance cls nm s v cs i) = insert i (\<Union>c \<in> set cs. idsOf c)"

text \<open>The tree without the identifiers, its size, and that its strings have no control character before a digit.\<close>

fun plain :: "rbxInstance \<Rightarrow> rbxInstance" where
  "plain (Instance cls nm s v cs i) = Instance cls nm s v (map plain cs) 0"

fun treeSize :: "rbxInstance \<Rightarrow> nat" where
  "treeSize (Instance cls nm s v cs i) = Suc (sum_list (map treeSize cs))"

fun safeTree :: "rbxInstance \<Rightarrow> bool" where
  "safeTree (Instance cls nm s v cs i) \<longleftrightarrow> safeEscapes cls \<and> safeEscapes nm \<and> safeEscapes v \<and> list_all safeTree cs"

lemma emitInstance_cmds: "emitInstance x = concat (map (\<lambda>c. lineOf c @ [LF]) (cmdsOf x))"
  by (cases x) (simp add: emitInstance_def cmdsOf_def Let_def)

lemma runCmds_append [simp]: "runCmds (xs @ ys) st = runCmds ys (runCmds xs st)"
  by (simp add: runCmds_def)

lemma runCmds_Nil [simp]: "runCmds [] st = st"
  by (simp add: runCmds_def)

lemma runCmds_Cons [simp]: "runCmds (c # cs) st = runCmds cs (execCmd c st)"
  by (simp add: runCmds_def)

lemma rebuilt_cong: "(\<And>i. i \<in> idsOf n \<Longrightarrow> st' i = st i) \<Longrightarrow> rebuilt st par n \<Longrightarrow> rebuilt st' par n"
  by (induction n arbitrary: par) (auto simp: list_all_iff)

lemma rebuilt_ids: "rebuilt st par n \<Longrightarrow> idsOf n \<subseteq> dom st"
  by (induction n arbitrary: par) (auto simp: list_all_iff)

lemma treeSize_plain [simp]: "treeSize (plain n) = treeSize n"
  by (induction n) (simp add: comp_def cong: map_cong)

lemma safeTree_plain [simp]: "safeTree (plain n) = safeTree n"
  by (induction n) (auto simp: list_all_iff)

lemma assign_ids:
  "assign n a = (n', b) \<Longrightarrow> instId n' = a + 1 \<and> a < b \<and> idsOf n' = {a<..b} \<and> plain n' = plain n"
  "assignAll cs a = (cs', b) \<Longrightarrow> a \<le> b \<and> (\<Union>c \<in> set cs'. idsOf c) = {a<..b} \<and> map plain cs' = map plain cs"
proof (induction n a and cs a arbitrary: n' b and cs' b rule: assign_assignAll.induct)
  case (1 cls nm s v cs i a)
  obtain cs1 b1 where r: "assignAll cs (a + 1) = (cs1, b1)" by fastforce
  from 1(1) [OF r] 1(2) r show ?case by (auto simp: Let_def)
next
  case (3 c cs a)
  obtain c1 b1 where r: "assign c a = (c1, b1)" by fastforce
  obtain cs1 b2 where r2: "assignAll cs b1 = (cs1, b2)" by fastforce
  note i1 = 3(1) [OF r] and i2 = 3(2) [OF r [symmetric] refl r2]
  have "{a<..b1} \<union> {b1<..b2} = {a<..b2}" using i1 i2 by auto
  moreover have "cs' = c1 # cs1" "b = b2" using 3(3) r r2 by (auto simp: Let_def)
  ultimately show ?case using i1 i2 by simp
qed auto

text \<open>What the statements of a subtree do: they add its instances below the parent and change nothing else.\<close>

definition adopted :: "nat \<Rightarrow> nat list \<Rightarrow> instTable \<Rightarrow> instTable \<Rightarrow> bool" where
  "adopted pid ks st st' \<longleftrightarrow> (\<forall>x. pid \<noteq> 0 \<and> st pid = Some x \<longrightarrow> st' pid = Some (x\<lparr>vChildren := vChildren x @ ks\<rparr>))"

definition treeCmds :: "nat \<Rightarrow> rbxInstance \<Rightarrow> treeCmd list" where
  "treeCmds pid n = concat (map cmdsOf (listed pid n))"

lemma treeCmds_node:
  "treeCmds pid (Instance cls nm s v cs i) = cmdsOf (Instance cls nm s v cs i, pid) @ concat (map (treeCmds i) cs)"
proof -
  have "concat (map cmdsOf (concat (map (listed i) ds))) = concat (map (treeCmds i) ds)" for ds
    by (induction ds) (simp_all add: treeCmds_def)
  then show ?thesis by (simp add: treeCmds_def)
qed

abbreviation parentOf :: "nat \<Rightarrow> nat option" where
  "parentOf pid \<equiv> if pid = 0 then None else Some pid"

lemma cmdsOf_run:
  assumes "instId n = a + 1" "pid \<le> a" "pid = 0 \<or> st pid \<noteq> None"
  shows "runCmds (cmdsOf (n, pid)) st (a + 1) = Some \<lparr>vClass = instClass n, vName = instName n,
      vValue = (if instClass n = ''StringValue'' then Some (instValue n) else None), vParent = parentOf pid, vChildren = []\<rparr>"
    and "i \<noteq> a + 1 \<Longrightarrow> i \<noteq> pid \<Longrightarrow> runCmds (cmdsOf (n, pid)) st i = st i"
    and "adopted pid [a + 1] st (runCmds (cmdsOf (n, pid)) st)"
    and "pid = 0 \<Longrightarrow> runCmds (cmdsOf (n, pid)) st 0 = st 0"
  using assms by (auto simp: cmdsOf_def adopted_def mk_def setParent_def setValue_def Let_def)

lemma treeCmds_run:
  "assign n a = (n', b) \<Longrightarrow> pid \<le> a \<Longrightarrow> pid = 0 \<or> st pid \<noteq> None \<Longrightarrow>
     rebuilt (runCmds (treeCmds pid n') st) (parentOf pid) n' \<and> (\<forall>i. i \<notin> {a<..b} \<and> (i \<noteq> pid \<or> pid = 0) \<longrightarrow> runCmds (treeCmds pid n') st i = st i) \<and>
     adopted pid [instId n'] st (runCmds (treeCmds pid n') st)"
  "assignAll cs a = (cs', b) \<Longrightarrow> pid \<le> a \<Longrightarrow> pid \<noteq> 0 \<Longrightarrow> st pid \<noteq> None \<Longrightarrow>
     list_all (rebuilt (runCmds (concat (map (treeCmds pid) cs')) st) (Some pid)) cs' \<and>
     (\<forall>i. i \<notin> {a<..b} \<and> i \<noteq> pid \<longrightarrow> runCmds (concat (map (treeCmds pid) cs')) st i = st i) \<and>
     adopted pid (map instId cs') st (runCmds (concat (map (treeCmds pid) cs')) st)"
proof (induction n a and cs a arbitrary: n' b pid st and cs' b pid st rule: assign_assignAll.induct)
  case (1 cls nm s v cs i a)
  obtain cs1 b1 where r: "assignAll cs (a + 1) = (cs1, b1)" by fastforce
  have n': "n' = Instance cls nm s v cs1 (a + 1)" "b = b1" using 1(2) r by (auto simp: Let_def)
  let ?st = "runCmds (cmdsOf (n', pid)) st"
  have id: "instId n' = a + 1" by (simp add: n')
  note run = cmdsOf_run [of n' a pid st, OF id 1(3,4)]
  have ab: "a + 1 \<le> b" using assign_ids(2) [OF r] n' by simp
  have "?st (a + 1) \<noteq> None" using run(1) by simp
  note kids = 1(1) [where pid = "a + 1" and st = "?st", OF r _ _ this]
  let ?st' = "runCmds (concat (map (treeCmds (a + 1)) cs1)) ?st"
  have all: "runCmds (treeCmds pid n') st = ?st'" using treeCmds_node [of pid cls nm s v cs1 "a + 1"] by (simp add: n')
  have "?st' (a + 1) = Some \<lparr>vClass = cls, vName = nm, vValue = (if cls = ''StringValue'' then Some v else None),
      vParent = parentOf pid, vChildren = map instId cs1\<rparr>"
    using kids run(1) by (simp add: adopted_def n')
  then have reb: "rebuilt ?st' (parentOf pid) n'" using kids by (simp add: n')
  have keep: "?st' i = ?st i" if "i \<notin> {a<..b}" for i using kids that n'(2) ab by auto
  have "adopted pid [a + 1] st ?st'" using run(3) keep [of pid] 1(3) by (simp add: adopted_def)
  moreover have "?st' i = st i" if "i \<notin> {a<..b}" "i \<noteq> pid \<or> pid = 0" for i
    using keep [OF that(1)] run(2) [of i] run(4) that ab by (cases "i = pid") auto
  ultimately show ?case using reb unfolding all id by blast
next
  case (2 a)
  then show ?case by (simp add: adopted_def)
next
  case (3 c cs a)
  obtain c1 b1 where r: "assign c a = (c1, b1)" by fastforce
  obtain cs1 b2 where r2: "assignAll cs b1 = (cs1, b2)" by fastforce
  have cs': "cs' = c1 # cs1" "b = b2" using 3(3) r r2 by (auto simp: Let_def)
  note i1 = assign_ids(1) [OF r] and i2 = assign_ids(2) [OF r2]
  let ?st = "runCmds (treeCmds pid c1) st"
  note one = 3(1) [OF r 3(4), of st]
  have one': "rebuilt ?st (Some pid) c1" "\<And>i. i \<notin> {a<..b1} \<Longrightarrow> i \<noteq> pid \<Longrightarrow> ?st i = st i" "adopted pid [instId c1] st ?st" using one 3(5,6) by auto
  obtain x where x: "st pid = Some x" using 3(6) by blast
  have some: "?st pid \<noteq> None" using one'(3) x 3(5) by (auto simp: adopted_def)
  have "pid \<le> b1" using 3(4) i1 by simp
  note two = 3(2) [where pid = pid and st = "?st", OF r [symmetric] refl r2 this 3(5) some]
  let ?st' = "runCmds (concat (map (treeCmds pid) cs1)) ?st"
  have all: "runCmds (concat (map (treeCmds pid) cs')) st = ?st'" by (simp add: cs')
  have "rebuilt ?st' (Some pid) c1" by (rule rebuilt_cong [OF _ one'(1)]) (use two i1 3(4) in auto)
  then have "list_all (rebuilt ?st' (Some pid)) cs'" using two by (simp add: cs')
  moreover have "?st' i = st i" if "i \<notin> {a<..b}" "i \<noteq> pid" for i using two one'(2) [of i] that i1 i2 cs'(2) by auto
  moreover have "adopted pid (map instId cs') st ?st'" using two one'(3) x 3(5) by (auto simp: adopted_def cs')
  ultimately show ?case unfolding all by blast
qed

section \<open>The text of the statements\<close>

lemma expect_append [simp]: "expect p (p @ s) = Some s"
  by (simp add: expect_def HasPrefix_def)

lemma readUint_FormatUint:
  assumes "r = [] \<or> \<not> digit (hd r)"
  shows "readUint (FormatUint n @ r) = Some (n, r)"
proof -
  note v = FormatUint_value [of n]
  have "takeWhile digit (FormatUint n @ r) = FormatUint n" "dropWhile digit (FormatUint n @ r) = r"
    using v assms by (auto simp: list_all_iff takeWhile_append dropWhile_append) (cases r; auto)+
  then show ?thesis using v by (simp add: readUint_def)
qed

lemma quotedBody_plain: "DQUOTE \<notin> set b \<Longrightarrow> BSLASH \<notin> set b \<Longrightarrow> quotedBody (b @ s) = map_option (\<lambda>(c, r). (b @ c, r)) (quotedBody s)"
  by (cases "quotedBody s"; induction b) auto

lemma quotedBody_escapeByte: "quotedBody (escapeByte c @ s) = map_option (\<lambda>(b, r). (escapeByte c @ b, r)) (quotedBody s)"
proof -
  have ds: "DQUOTE \<notin> set (FormatUint n)" "BSLASH \<notin> set (FormatUint n)" for n
    using FormatUint_value [of n] by (auto simp: list_all_iff digit_def less_eq_char_def)
  obtain d t where f: "FormatUint (of_char c) = d # t" using FormatUint_value [of "of_char c"] by (cases "FormatUint (of_char c)") auto
  have "quotedBody (t @ s) = map_option (\<lambda>(b, r). (t @ b, r)) (quotedBody s)"
    by (rule quotedBody_plain) (use ds [of "of_char c"] f in auto)
  then show ?thesis using f by (cases "quotedBody s") (auto simp: escapeByte_def)
qed

lemma quotedBody_escaped: "quotedBody (concat (map escapeByte v) @ DQUOTE # r) = Some (concat (map escapeByte v), r)"
  by (induction v) (simp_all add: quotedBody_escapeByte)

lemma luauString_escaped: "luauString v = [DQUOTE] @ concat (map escapeByte v) @ [DQUOTE]"
  by (simp add: luauString_short luauShortString_def)

lemma readString_luauString: "safeEscapes v \<Longrightarrow> readString (luauString v @ r) = Some (v, r)"
  using quotedBody_escaped [of v r] luauUnescape_escaped [of v]
  unfolding readString_def luauString_escaped append_assoc expect_append by simp

lemma lineOf_no_LF: "LF \<notin> set (lineOf c)"
proof -
  have u: "LF \<notin> set (FormatUint n)" for n using FormatUint_value [of n] by (auto simp: list_all_iff digit_def less_eq_char_def)
  then have "LF \<notin> set (escapeByte c)" for c by (auto simp: escapeByte_def)
  then have "LF \<notin> set (luauString v)" for v by (auto simp: luauString_escaped)
  then show ?thesis using u by (cases c) auto
qed

lemma Split_lines: "Split (concat (map (\<lambda>c. lineOf c @ [LF]) cs)) LF = map lineOf cs @ [[]]"
  by (induction cs) (simp_all add: Split_append lineOf_no_LF)

text \<open>Statements whose variables are declared before, with readable strings.\<close>

fun okCmds :: "nat set \<Rightarrow> treeCmd list \<Rightarrow> bool" where
  "okCmds vs [] = True"
| "okCmds vs (Mk i cls nm # cs) \<longleftrightarrow> safeEscapes cls \<and> safeEscapes nm \<and> okCmds (insert i vs) cs"
| "okCmds vs (SetParent i p # cs) \<longleftrightarrow> i \<in> vs \<and> p \<in> vs \<and> okCmds vs cs"
| "okCmds vs (SetValue i v # cs) \<longleftrightarrow> i \<in> vs \<and> safeEscapes v \<and> okCmds vs cs"

fun made :: "treeCmd list \<Rightarrow> nat list" where
  "made [] = []"
| "made (Mk i cls nm # cs) = i # made cs"
| "made (c # cs) = made cs"

lemma okCmds_append: "okCmds vs xs \<Longrightarrow> okCmds (vs \<union> set (made xs)) ys \<Longrightarrow> okCmds vs (xs @ ys)"
  by (induction vs xs rule: okCmds.induct) simp_all

lemma made_append [simp]: "made (xs @ ys) = made xs @ made ys"
  by (induction xs rule: made.induct) auto

lemma not_digits [simp]: "\<not> digit (CHR '' '')" "\<not> digit (CHR '','')" "\<not> digit (CHR '')'')" "\<not> digit (CHR ''.'')"
  by code_simp+

lemma execLine_Mk:
  assumes "safeEscapes cls" "safeEscapes nm" "length (Locals st) + preludeLocals < localLimit"
  shows "execLine (lineOf (Mk i cls nm)) st = Some \<lparr>Locals = (i, i) # Locals st, Table = mk i cls nm (Table st)\<rparr>"
proof -
  let ?r = "'' = mk('' @ FormatUint i @ '', '' @ luauString cls @ '', '' @ luauString nm @ '')''"
  have "HasPrefix (lineOf (Mk i cls nm)) ''local ''" by (simp add: HasPrefix_def)
  moreover have "readUint (FormatUint i @ ?r) = Some (i, ?r)" by (rule readUint_FormatUint) simp
  moreover have "readUint (FormatUint i @ '', '' @ luauString cls @ '', '' @ luauString nm @ '')'') = Some (i, '', '' @ luauString cls @ '', '' @ luauString nm @ '')'')"
    by (rule readUint_FormatUint) simp
  ultimately show ?thesis
    using assms readString_luauString [OF assms(1)] readString_luauString [OF assms(2)]
    unfolding execLine_def execMk_def lineOf.simps expect_append by (simp only: if_True expect_append bind.bind_lunit case_prod_conv simp_thms)
qed

lemma execLine_SetParent:
  assumes "map_of (Locals st) i = Some i" "map_of (Locals st) p = Some p"
  shows "execLine (lineOf (SetParent i p)) st = Some (st\<lparr>Table := setParent i p (Table st)\<rparr>)"
proof -
  have "\<not> HasPrefix (lineOf (SetParent i p)) ''local ''" "HasPrefix (lineOf (SetParent i p)) ''setParent(''" by (simp_all add: HasPrefix_def)
  moreover have "readUint (FormatUint i @ '', i'' @ FormatUint p @ '')'') = Some (i, '', i'' @ FormatUint p @ '')'')"
    "readUint (FormatUint p @ '')'') = Some (p, '')'')" by (rule readUint_FormatUint, simp)+
  ultimately show ?thesis using assms
    unfolding execLine_def execSetParent_def lineOf.simps expect_append by (simp only: if_True if_False expect_append bind.bind_lunit case_prod_conv simp_thms)
qed

lemma execLine_SetValue:
  assumes "map_of (Locals st) i = Some i" "safeEscapes v"
  shows "execLine (lineOf (SetValue i v)) st = Some (st\<lparr>Table := setValue i v (Table st)\<rparr>)"
proof -
  have "\<not> HasPrefix (lineOf (SetValue i v)) ''local ''" "\<not> HasPrefix (lineOf (SetValue i v)) ''setParent(''" by (simp_all add: HasPrefix_def)
  moreover have "readUint (FormatUint i @ ''.Value = '' @ luauString v) = Some (i, ''.Value = '' @ luauString v)" by (rule readUint_FormatUint) simp
  ultimately show ?thesis using assms(1) readString_luauString [OF assms(2), of "[]"]
    unfolding execLine_def execSetValue_def lineOf.simps expect_append by (simp only: if_True if_False expect_append bind.bind_lunit case_prod_conv append_Nil2 simp_thms)
qed

lemma map_of_identity: "\<forall>x \<in> set L. snd x = fst x \<Longrightarrow> i \<in> fst ` set L \<Longrightarrow> map_of L i = Some (i :: nat)"
  by (induction L) auto

lemma execLines:
  "okCmds (fst ` set L) cs \<Longrightarrow> \<forall>x \<in> set L. snd x = fst x \<Longrightarrow> length L + length (made cs) + preludeLocals \<le> localLimit \<Longrightarrow>
   foldM execLine (map lineOf cs) \<lparr>Locals = L, Table = st\<rparr> = Some \<lparr>Locals = rev (map (\<lambda>i. (i, i)) (made cs)) @ L, Table = runCmds cs st\<rparr>"
proof (induction cs arbitrary: L st)
  case (Cons c cs)
  show ?case
  proof (cases c)
    case (Mk i cls nm)
    have e: "execLine (lineOf (Mk i cls nm)) \<lparr>Locals = L, Table = st\<rparr> = Some \<lparr>Locals = (i, i) # L, Table = mk i cls nm st\<rparr>"
      using execLine_Mk [of cls nm "\<lparr>Locals = L, Table = st\<rparr>" i] Cons.prems Mk by simp
    show ?thesis using Cons.IH [of "(i, i) # L" "mk i cls nm st"] Cons.prems Mk e by (simp del: lineOf.simps)
  next
    case (SetParent i p)
    then have "execLine (lineOf c) \<lparr>Locals = L, Table = st\<rparr> = Some \<lparr>Locals = L, Table = setParent i p st\<rparr>"
      using execLine_SetParent [of "\<lparr>Locals = L, Table = st\<rparr>" i p] map_of_identity [OF Cons.prems(2)] Cons.prems(1) by simp
    then show ?thesis using Cons.IH [of L "setParent i p st"] Cons.prems SetParent by (simp del: lineOf.simps)
  next
    case (SetValue i v)
    then have "execLine (lineOf c) \<lparr>Locals = L, Table = st\<rparr> = Some \<lparr>Locals = L, Table = setValue i v st\<rparr>"
      using execLine_SetValue [of "\<lparr>Locals = L, Table = st\<rparr>" i v] map_of_identity [OF Cons.prems(2)] Cons.prems(1) by simp
    then show ?thesis using Cons.IH [of L "setValue i v st"] Cons.prems SetValue by (simp del: lineOf.simps)
  qed
qed simp

lemma treeCmds_ok: "safeTree n \<Longrightarrow> pid = 0 \<or> pid \<in> vs \<Longrightarrow> okCmds vs (treeCmds pid n)"
proof (induction n arbitrary: pid vs)
  case (Instance cls nm s v cs i)
  have kids: "okCmds ws (concat (map (treeCmds i) ds))" if "set ds \<subseteq> set cs" "i \<in> ws" for ds ws
    using that
  proof (induction ds arbitrary: ws)
    case (Cons d ds)
    then show ?case using Instance.IH [of d i ws] Instance.prems(1) by (auto simp: list_all_iff intro!: okCmds_append)
  qed simp
  have "okCmds vs (cmdsOf (Instance cls nm s v cs i, pid))" using Instance.prems by (auto simp: cmdsOf_def)
  moreover have "i \<in> set (made (cmdsOf (Instance cls nm s v cs i, pid)))" by (simp add: cmdsOf_def)
  ultimately show ?case unfolding treeCmds_node using kids [of cs] by (intro okCmds_append) auto
qed

lemma treeCmds_made: "length (made (treeCmds pid n)) = treeSize n"
proof (induction n arbitrary: pid)
  case (Instance cls nm s v cs i)
  have "length (made (concat (map (treeCmds i) ds))) = sum_list (map treeSize ds)" if "set ds \<subseteq> set cs" for ds
    using that Instance.IH by (induction ds) auto
  moreover have "length (made (cmdsOf (Instance cls nm s v cs i, pid))) = 1" by (simp add: cmdsOf_def)
  ultimately show ?case unfolding treeCmds_node by simp
qed

section \<open>Properties\<close>

lemma emitImpl_returns: "\<exists>t. emitImpl n = Some t"
  by (rule Parse_spec [of "instSource n"]) (auto simp: emitImpl_def Let_def)

lemma emitImpls_returns: "\<exists>t. emitImpls ns = Some t \<and> (\<forall>n \<in> set ns. \<exists>u i v. emitImpl n = Some i \<and> t = u @ i @ v)"
proof (induction ns)
  case (Cons n ns)
  then obtain ts where ts: "emitImpls ns = Some ts" "\<forall>n \<in> set ns. \<exists>u i v. emitImpl n = Some i \<and> ts = u @ i @ v" by blast
  obtain i where i: "emitImpl n = Some i" using emitImpl_returns by blast
  have "\<exists>u j v. emitImpl m = Some j \<and> i @ ts = u @ j @ v" if "m \<in> set (n # ns)" for m
  proof (cases "m = n")
    case True
    then show ?thesis using i by (metis append_Nil)
  next
    case False
    then obtain u j v where "emitImpl m = Some j" "ts = u @ j @ v" using ts(2) \<open>m \<in> set (n # ns)\<close> by auto
    then show ?thesis by (metis append.assoc)
  qed
  then have "\<forall>m \<in> set (n # ns). \<exists>u j v. emitImpl m = Some j \<and> i @ ts = u @ j @ v" by blast
  moreover have "emitImpls (n # ns) = Some (i @ ts)" using ts(1) i by simp
  ultimately show ?case by blast
qed simp

lemma treeText_cmds: "treeText root = concat (map (\<lambda>c. lineOf c @ [LF]) (treeCmds 0 root))"
proof -
  have "concat (map emitInstance xs) = concat (map (\<lambda>c. lineOf c @ [LF]) (concat (map cmdsOf xs)))" for xs
    by (induction xs) (simp_all add: emitInstance_cmds)
  then show ?thesis by (simp add: treeText_def treeCmds_def)
qed

lemma execTree_treeText:
  assumes "assign r 0 = (root, b)" "safeTree r" "treeSize r + preludeLocals \<le> localLimit"
  shows "\<exists>L. execTree (treeText root) = Some \<lparr>Locals = L, Table = runCmds (treeCmds 0 root) (\<lambda>_. None)\<rparr>"
proof -
  have p: "plain root = plain r" using assign_ids(1) [OF assms(1)] by simp
  have "safeTree root" "treeSize root = treeSize r"
    using arg_cong [OF p, of safeTree] arg_cong [OF p, of treeSize] assms(2) by simp_all
  then show ?thesis using execLines [of "[]" "treeCmds 0 root" "\<lambda>_. None"] treeCmds_ok [of root 0 "{}"] treeCmds_made [of 0 root] assms(3)
    by (simp add: execTree_def treeText_cmds Split_lines Let_def)
qed

text \<open>C20: the script that packing emits rebuilds the instance tree. The lines of its section for the instance tree, run as Luau statements
  over the functions of the prelude, build a table with exactly the instances of the tree: each with its class, name,
  parent and children in order, and its value if it is a \<open>StringValue\<close>; and every script of the tree has its implementation in the
  text after them. The tree must fit into the 200 local variables of a Luau function (179 instances, beside
  those of the prelude and \<open>game\<close>) and no string of it may have a control character directly before a
  digit; the entry, if one is given, must be found.\<close>

theorem EmitLuau_rebuilds:
  assumes "entry = [] \<or> resolveEntry (fst (assign r 0)) entry \<noteq> None" "safeTree r" "treeSize r + 1 + preludeLocals \<le> localLimit"
  shows "\<exists>root before tree after st. EmitLuau (r # rs) entry = Some (Inr (before @ tree @ after)) \<and>
    HasSuffix before (''-- === instance tree ==='' @ [LF]) \<and> execTree tree = Some st \<and>
    plain root = plain r \<and> rebuilt (Table st) None root \<and> dom (Table st) = idsOf root \<and>
    (\<forall>n \<in> fst ` set (listed 0 root). IsScript n \<longrightarrow> (\<exists>u t v. emitImpl n = Some t \<and> after = u @ t @ v))"
proof -
  obtain root b where r: "assign r 0 = (root, b)" by fastforce
  note ids = assign_ids(1) [OF r]
  let ?st = "runCmds (treeCmds 0 root) (\<lambda>_. None)"
  have run: "rebuilt ?st None root" "\<forall>i. i \<notin> {0<..b} \<longrightarrow> ?st i = None"
    using treeCmds_run(1) [OF r, of 0 "\<lambda>_. None"] by simp_all
  obtain L where L: "execTree (treeText root) = Some \<lparr>Locals = L, Table = ?st\<rparr>" using execTree_treeText [OF r assms(2)] assms(3) by auto
  have dom: "dom ?st = idsOf root" using run rebuilt_ids [OF run(1)] ids by (auto simp: dom_def)
  obtain impls where impls: "emitImpls (filter IsScript (map fst (listed 0 root))) = Some impls"
    "\<forall>n \<in> set (filter IsScript (map fst (listed 0 root))). \<exists>u i v. emitImpl n = Some i \<and> impls = u @ i @ v"
    using emitImpls_returns by blast
  let ?game = "instClass root = ''DataModel''" and ?e = "if entry \<noteq> [] then resolveEntry root entry else None"
  let ?before = "(runtimePrelude @ (if ?game then [] else ''realGame = nil'' @ [LF]) @ [LF]) @ (''-- === instance tree ==='' @ [LF])"
  let ?mid = "(if ?game then ''local game = i'' @ FormatUint (instId root) @ [LF] else []) @ [LF] @ ''-- === module/script implementations ==='' @ [LF]"
  let ?last = "[LF] @ ''-- === entry ==='' @ [LF] @ entryText root ?e"
  have "EmitLuau (r # rs) entry = Some (Inr (?before @ treeText root @ (?mid @ impls @ ?last)))"
    using assms(1) r impls(1) by (auto simp: EmitLuau_def Let_def)
  moreover have "HasSuffix ?before (''-- === instance tree ==='' @ [LF])" unfolding HasSuffix_iff by blast
  moreover have "\<exists>u t v. emitImpl n = Some t \<and> ?mid @ impls @ ?last = u @ t @ v" if "n \<in> fst ` set (listed 0 root)" "IsScript n" for n
  proof -
    have "n \<in> set (filter IsScript (map fst (listed 0 root)))" using that by simp
    then obtain u i v where "emitImpl n = Some i" "impls = u @ i @ v" using impls(2) by blast
    then have "?mid @ impls @ ?last = (?mid @ u) @ i @ (v @ ?last)" by (simp only: append.assoc)
    with \<open>emitImpl n = Some i\<close> show ?thesis by blast
  qed
  ultimately show ?thesis using L run(1) dom ids luauState.select_convs(2) by metis
qed

definition samplePack :: rbxInstance where
  "samplePack = Instance ''Folder'' ''Model'' [] [] [Instance ''ModuleScript'' ''a'' ''return 1'' [] [] 0, Instance ''StringValue'' ''s'' [] ''v'' [] 0] 0"

theorem EmitLuau_rebuilds_witness:
  "\<exists>root before tree after st. EmitLuau [samplePack] ''Model.a'' = Some (Inr (before @ tree @ after)) \<and> execTree tree = Some st \<and>
     plain root = samplePack \<and> rebuilt (Table st) None root"
proof -
  have "resolveEntry (fst (assign samplePack 0)) ''Model.a'' \<noteq> None" "safeTree samplePack" "treeSize samplePack + 1 + preludeLocals \<le> localLimit"
    by code_simp+
  moreover have "plain samplePack = samplePack" by code_simp
  ultimately show ?thesis using EmitLuau_rebuilds [of "''Model.a''" samplePack "[]"] by (metis (no_types, lifting))
qed

section \<open>Packing ends\<close>

lemma packEntries_return:
  "(\<And>x n s. x \<in> set names \<Longrightarrow> Stat w (PathJoin dir x) = Some KDir \<Longrightarrow> subdir n (PathJoin dir x) s \<noteq> None) \<Longrightarrow>
     foldM (packEntry subdir lower w dir ini) names (n, s) \<noteq> None"
proof (induction names arbitrary: n s)
  case (Cons x names)
  have "packEntry subdir lower w dir ini x (n, s) \<noteq> None"
    using Cons.prems [of x "Instance [] (Base (PathJoin dir x)) [] [] [] 0" s]
    by (auto simp: packEntry_def fromDirEntry_def split: option.splits fileKind.splits Option.bind_splits)
  then obtain n1 s1 where "packEntry subdir lower w dir ini x (n, s) = Some (n1, s1)" by fastforce
  then show ?case using Cons.IH [of n1 s1] Cons.prems by simp
qed simp

lemma packDir_returns:
  assumes "dirsDescend w rank"
  shows "rank dir < k \<Longrightarrow> packDir lower w k n dir s \<noteq> None"
proof (induction k arbitrary: dir n s)
  case (Suc k)
  show ?case
  proof (cases "ReadDir w dir")
    case (Some es)
    have "rank (PathJoin dir x) < k" if "x \<in> fst ` set es" "Stat w (PathJoin dir x) = Some KDir" for x
      using assms Some that Suc.prems unfolding dirsDescend_def by fastforce
    then have "packDir lower w k m (PathJoin dir x) b \<noteq> None" if "x \<in> set (sort (map fst es))" "Stat w (PathJoin dir x) = Some KDir" for x m b
      using that Suc.IH by auto
    from packEntries_return [where subdir = "packDir lower w k" and w = w and names = "sort (map fst es)", OF this] show ?thesis
      using Some by (auto simp: packDirBody_def Let_def split: option.splits prod.splits)
  qed (simp add: packDirBody_def)
qed simp

lemma packTree_returns:
  assumes "dirsDescend w rank"
  shows "\<forall>p \<in> set (treePaths t). rank (PathJoin dir p) < k \<Longrightarrow> packTree lower w dir k nm t s \<noteq> None"
    and "\<forall>c \<in> set cs. \<forall>p \<in> set (treePaths (snd c)). rank (PathJoin dir p) < k \<Longrightarrow> packTrees lower w dir k cs s \<noteq> None"
  using assms
proof (induction lower w dir k nm t s and lower w dir k cs s rule: packTree_packTrees.induct)
  case (1 lower w dir k nm t s)
  let ?s = "s \<and> ClassName t \<noteq> ''DataModel''" and ?i = "Instance (ClassName t) nm [] [] [] 0"
  have "(case Path t of None \<Rightarrow> Some (?i, ?s) | Some p \<Rightarrow> packPath lower w k ?i (PathJoin dir p) ?s) \<noteq> None"
    using packDir_returns [OF 1(3)] treePaths_own 1(2) by (auto simp: packPath_def split: option.splits fileKind.splits)
  then obtain n0 s0 where one: "(case Path t of None \<Rightarrow> Some (?i, ?s) | Some p \<Rightarrow> packPath lower w k ?i (PathJoin dir p) ?s) = Some (n0, s0)" by fastforce
  have "packTrees lower w dir k (Children t) s0 \<noteq> None"
    by (rule 1(1) [OF refl refl one refl _ 1(3)]) (use 1(2) treePaths_child in fastforce)
  then show ?case using one by (auto simp: Let_def)
next
  case (3 lower w dir k c cs s)
  obtain n s1 where one: "packTree lower w dir k (fst c) (snd c) s = Some (n, s1)" using 3 by fastforce
  moreover have "packTrees lower w dir k cs s1 \<noteq> None" using 3 one by fastforce
  ultimately show ?case by (auto simp del: packTree.simps)
qed simp

lemma EmitLuau_some: "\<exists>res. EmitLuau roots entry = Some res"
proof (cases roots)
  case (Cons r rs)
  obtain t where "emitImpls (filter IsScript (map fst (listed 0 (fst (assign r 0))))) = Some t" using emitImpls_returns by blast
  with Cons show ?thesis by (simp add: EmitLuau_def Let_def)
qed (simp add: EmitLuau_def)

lemma BuildNative_some:
  assumes "dirsDescend w rank"
  shows "\<exists>k res. BuildNative lower w k projectFile = Some res"
proof -
  have "ParseProjectFile w projectFile \<noteq> None"
  proof (cases "ReadFile w projectFile")
    case (Some data)
    then show ?thesis using parseJSON_returns [of "Tokens w data"] by (auto simp: ParseProjectFile_def Let_def)
  qed (simp add: ParseProjectFile_def)
  then obtain p where p: "ParseProjectFile w projectFile = Some p" by blast
  show ?thesis
  proof (cases p)
    case (Inr q)
    obtain nm t where q: "q = (nm, t)" by fastforce
    let ?rank = "\<lambda>p. rank (PathJoin (Dir projectFile) p)"
    let ?k = "Suc (sum_list (map ?rank (treePaths t)))"
    have "?rank p < ?k" if "p \<in> set (treePaths t)" for p
      using member_le_sum_list [of "?rank p" "map ?rank (treePaths t)"] that by simp
    then have "packTree lower w (Dir projectFile) ?k (if nm = [] then ''Model'' else nm) t True \<noteq> None"
      by (intro packTree_returns(1) [OF assms] ballI)
    then have "BuildNative lower w ?k projectFile \<noteq> None" using p Inr q by (simp add: BuildNative_def del: packTree.simps)
    then show ?thesis by blast
  qed (use p in \<open>simp add: BuildNative_def\<close>)
qed

text \<open>Packing ends when no directory is below itself: with enough fuel for the depth of the directories there is an artifact or an
  error.\<close>

theorem PackArtifact_returns:
  assumes "dirsDescend w rank"
  shows "\<exists>k res. PackArtifact lower w GlobFiles rojoBuildBytes UnmarshalXML k opts = Some res"
proof (cases "resolveProject w GlobFiles (PackProject opts)")
  case (Inr project)
  have rojo: "\<exists>res. packViaRojo rojoBuildBytes UnmarshalXML project opts = Some res"
    using EmitLuau_some by (auto simp: packViaRojo_def split: sum.split)
  obtain k built where b: "BuildNative lower w k project = Some built" using BuildNative_some [OF assms] by blast
  have "\<exists>res. packLuau lower w rojoBuildBytes UnmarshalXML k project opts = Some res"
    using rojo b EmitLuau_some by (auto simp: packLuau_def split: sum.split)
  then show ?thesis using Inr by (auto simp: PackArtifact_def)
qed (simp add: PackArtifact_def)

theorem PackArtifact_returns_witness:
  "\<exists>k res. PackArtifact id mapFs (\<lambda>_. []) (\<lambda>p e. Inl ''none'') (\<lambda>_. None) k
     \<lparr>PackProject = ''/p/default.project.json'', PackFormat = FormatLuau, PackEntry = [], RojoTree = False\<rparr> = Some res"
  by (rule PackArtifact_returns [OF mapFs_descends])

end
