(* ===== verification/Jsx_Text.thy ===== *)
theory Jsx_Text
  imports Glob Go_Strconv
begin

text \<open>
  The text between JSX tags (\<open>src/internal/transformer/jsxtext.go\<close>): white space at line ends is removed and entities are
  decoded. The character classes are those of \<open>src/tsgo/stringutil\<close>.
\<close>

section \<open>Characters\<close>

definition IsLineBreak :: "nat \<Rightarrow> bool" where
  "IsLineBreak ch \<longleftrightarrow> ch \<in> set [0x0A, 0x0D, 0x2028, 0x2029]"

definition IsWhiteSpaceSingleLine :: "nat \<Rightarrow> bool" where
  "IsWhiteSpaceSingleLine ch \<longleftrightarrow> ch \<in> set [0x20, 0x09, 0x0B, 0x0C, 0x85, 0xA0, 0x1680, 0x2000, 0x2001, 0x2002, 0x2003, 0x2004, 0x2005,
     0x2006, 0x2007, 0x2008, 0x2009, 0x200A, 0x200B, 0x202F, 0x205F, 0x3000, 0xFEFF]"

definition IsHexDigit :: "nat \<Rightarrow> bool" where
  "IsHexDigit ch \<longleftrightarrow> 48 \<le> ch \<and> ch \<le> 57 \<or> 65 \<le> ch \<and> ch \<le> 70 \<or> 97 \<le> ch \<and> ch \<le> 102"

definition IsDecDigit :: "nat \<Rightarrow> bool" where
  "IsDecDigit ch \<longleftrightarrow> 48 \<le> ch \<and> ch \<le> 57"

text \<open>\<open>WriteRune\<close>: UTF-8, and the replacement character for what is no code point.\<close>

definition WriteRune :: "int \<Rightarrow> string" where
  "WriteRune r =
     (let r = (if r < 0 \<or> r > 0x10FFFF \<or> (0xD800 \<le> r \<and> r \<le> 0xDFFF) then 0xFFFD else r) in
      if r < 0x80 then [char_of r]
      else if r < 0x800 then [char_of (0xC0 + r div 0x40), char_of (0x80 + r mod 0x40)]
      else if r < 0x10000 then [char_of (0xE0 + r div 0x1000), char_of (0x80 + r div 0x40 mod 0x40), char_of (0x80 + r mod 0x40)]
      else [char_of (0xF0 + r div 0x40000), char_of (0x80 + r div 0x1000 mod 0x40), char_of (0x80 + r div 0x40 mod 0x40),
        char_of (0x80 + r mod 0x40)])"

section \<open>Entities\<close>

definition jsxEntities :: "(string \<times> int) list" where
  "jsxEntities = [
    (''quot'', 0x22), (''amp'', 0x26), (''apos'', 0x27), (''lt'', 0x3C), (''gt'', 0x3E), (''nbsp'', 0xA0),
     (''iexcl'', 0xA1), (''cent'', 0xA2), (''pound'', 0xA3), (''curren'', 0xA4), (''yen'', 0xA5), (''brvbar'', 0xA6),
     (''sect'', 0xA7), (''uml'', 0xA8), (''copy'', 0xA9), (''ordf'', 0xAA), (''laquo'', 0xAB), (''not'', 0xAC),
     (''shy'', 0xAD), (''reg'', 0xAE), (''macr'', 0xAF), (''deg'', 0xB0), (''plusmn'', 0xB1), (''sup2'', 0xB2),
     (''sup3'', 0xB3), (''acute'', 0xB4), (''micro'', 0xB5), (''para'', 0xB6), (''middot'', 0xB7), (''cedil'', 0xB8),
     (''sup1'', 0xB9), (''ordm'', 0xBA), (''raquo'', 0xBB), (''frac14'', 0xBC), (''frac12'', 0xBD), (''frac34'', 0xBE),
     (''iquest'', 0xBF), (''Agrave'', 0xC0), (''Aacute'', 0xC1), (''Acirc'', 0xC2), (''Atilde'', 0xC3),
     (''Auml'', 0xC4), (''Aring'', 0xC5), (''AElig'', 0xC6), (''Ccedil'', 0xC7), (''Egrave'', 0xC8),
     (''Eacute'', 0xC9), (''Ecirc'', 0xCA), (''Euml'', 0xCB), (''Igrave'', 0xCC), (''Iacute'', 0xCD),
     (''Icirc'', 0xCE), (''Iuml'', 0xCF), (''ETH'', 0xD0), (''Ntilde'', 0xD1), (''Ograve'', 0xD2), (''Oacute'', 0xD3),
     (''Ocirc'', 0xD4), (''Otilde'', 0xD5), (''Ouml'', 0xD6), (''times'', 0xD7), (''Oslash'', 0xD8),
     (''Ugrave'', 0xD9), (''Uacute'', 0xDA), (''Ucirc'', 0xDB), (''Uuml'', 0xDC), (''Yacute'', 0xDD),
     (''THORN'', 0xDE), (''szlig'', 0xDF), (''agrave'', 0xE0), (''aacute'', 0xE1), (''acirc'', 0xE2),
     (''atilde'', 0xE3), (''auml'', 0xE4), (''aring'', 0xE5), (''aelig'', 0xE6), (''ccedil'', 0xE7),
     (''egrave'', 0xE8), (''eacute'', 0xE9), (''ecirc'', 0xEA), (''euml'', 0xEB), (''igrave'', 0xEC),
     (''iacute'', 0xED), (''icirc'', 0xEE), (''iuml'', 0xEF), (''eth'', 0xF0), (''ntilde'', 0xF1), (''ograve'', 0xF2),
     (''oacute'', 0xF3), (''ocirc'', 0xF4), (''otilde'', 0xF5), (''ouml'', 0xF6), (''divide'', 0xF7),
     (''oslash'', 0xF8), (''ugrave'', 0xF9), (''uacute'', 0xFA), (''ucirc'', 0xFB), (''uuml'', 0xFC),
     (''yacute'', 0xFD), (''thorn'', 0xFE), (''yuml'', 0xFF), (''OElig'', 0x152), (''oelig'', 0x153),
     (''Scaron'', 0x160), (''scaron'', 0x161), (''Yuml'', 0x178), (''fnof'', 0x192), (''circ'', 0x2C6),
     (''tilde'', 0x2DC), (''Alpha'', 0x391), (''Beta'', 0x392), (''Gamma'', 0x393), (''Delta'', 0x394),
     (''Epsilon'', 0x395), (''Zeta'', 0x396), (''Eta'', 0x397), (''Theta'', 0x398), (''Iota'', 0x399),
     (''Kappa'', 0x39A), (''Lambda'', 0x39B), (''Mu'', 0x39C), (''Nu'', 0x39D), (''Xi'', 0x39E), (''Omicron'', 0x39F),
     (''Pi'', 0x3A0), (''Rho'', 0x3A1), (''Sigma'', 0x3A3), (''Tau'', 0x3A4), (''Upsilon'', 0x3A5), (''Phi'', 0x3A6),
     (''Chi'', 0x3A7), (''Psi'', 0x3A8), (''Omega'', 0x3A9), (''alpha'', 0x3B1), (''beta'', 0x3B2), (''gamma'', 0x3B3),
     (''delta'', 0x3B4), (''epsilon'', 0x3B5), (''zeta'', 0x3B6), (''eta'', 0x3B7), (''theta'', 0x3B8),
     (''iota'', 0x3B9), (''kappa'', 0x3BA), (''lambda'', 0x3BB), (''mu'', 0x3BC), (''nu'', 0x3BD), (''xi'', 0x3BE),
     (''omicron'', 0x3BF), (''pi'', 0x3C0), (''rho'', 0x3C1), (''sigmaf'', 0x3C2), (''sigma'', 0x3C3),
     (''tau'', 0x3C4), (''upsilon'', 0x3C5), (''phi'', 0x3C6), (''chi'', 0x3C7), (''psi'', 0x3C8), (''omega'', 0x3C9),
     (''thetasym'', 0x3D1), (''upsih'', 0x3D2), (''piv'', 0x3D6), (''ensp'', 0x2002), (''emsp'', 0x2003),
     (''thinsp'', 0x2009), (''zwnj'', 0x200C), (''zwj'', 0x200D), (''lrm'', 0x200E), (''rlm'', 0x200F),
     (''ndash'', 0x2013), (''mdash'', 0x2014), (''lsquo'', 0x2018), (''rsquo'', 0x2019), (''sbquo'', 0x201A),
     (''ldquo'', 0x201C), (''rdquo'', 0x201D), (''bdquo'', 0x201E), (''dagger'', 0x2020), (''Dagger'', 0x2021),
     (''bull'', 0x2022), (''hellip'', 0x2026), (''permil'', 0x2030), (''prime'', 0x2032), (''Prime'', 0x2033),
     (''lsaquo'', 0x2039), (''rsaquo'', 0x203A), (''oline'', 0x203E), (''frasl'', 0x2044), (''euro'', 0x20AC),
     (''image'', 0x2111), (''weierp'', 0x2118), (''real'', 0x211C), (''trade'', 0x2122), (''alefsym'', 0x2135),
     (''larr'', 0x2190), (''uarr'', 0x2191), (''rarr'', 0x2192), (''darr'', 0x2193), (''harr'', 0x2194),
     (''crarr'', 0x21B5), (''lArr'', 0x21D0), (''uArr'', 0x21D1), (''rArr'', 0x21D2), (''dArr'', 0x21D3),
     (''hArr'', 0x21D4), (''forall'', 0x2200), (''part'', 0x2202), (''exist'', 0x2203), (''empty'', 0x2205),
     (''nabla'', 0x2207), (''isin'', 0x2208), (''notin'', 0x2209), (''ni'', 0x220B), (''prod'', 0x220F),
     (''sum'', 0x2211), (''minus'', 0x2212), (''lowast'', 0x2217), (''radic'', 0x221A), (''prop'', 0x221D),
     (''infin'', 0x221E), (''ang'', 0x2220), (''and'', 0x2227), (''or'', 0x2228), (''cap'', 0x2229), (''cup'', 0x222A),
     (''int'', 0x222B), (''there4'', 0x2234), (''sim'', 0x223C), (''cong'', 0x2245), (''asymp'', 0x2248),
     (''ne'', 0x2260), (''equiv'', 0x2261), (''le'', 0x2264), (''ge'', 0x2265), (''sub'', 0x2282), (''sup'', 0x2283),
     (''nsub'', 0x2284), (''sube'', 0x2286), (''supe'', 0x2287), (''oplus'', 0x2295), (''otimes'', 0x2297),
     (''perp'', 0x22A5), (''sdot'', 0x22C5), (''lceil'', 0x2308), (''rceil'', 0x2309), (''lfloor'', 0x230A),
     (''rfloor'', 0x230B), (''lang'', 0x2329), (''rang'', 0x232A), (''loz'', 0x25CA), (''spades'', 0x2660),
     (''clubs'', 0x2663), (''hearts'', 0x2665), (''diams'', 0x2666)]"

definition hexVal :: "nat \<Rightarrow> nat" where
  "hexVal ch = (if ch \<le> 57 then ch - 48 else if ch \<le> 70 then ch - 55 else ch - 87)"

definition parseEntityNumber :: "int \<Rightarrow> string \<Rightarrow> int option" where
  "parseEntityNumber base ds =
     (let n = foldl (\<lambda>n c. base * n + int (hexVal (of_char c))) 0 ds in if n < 2 ^ 31 then Some n else None)"

definition decodeEntity :: "string \<Rightarrow> int option" where
  "decodeEntity entity =
     (if entity = [] then None
      else if hd entity = CHR ''#'' then
        (let entity = tl entity in
         if entity = [] then None
         else (let hex = (hd entity = CHR ''x''); entity = (if hex then tl entity else entity) in
           if entity = [] \<or> \<not> list_all (if hex then IsHexDigit else IsDecDigit) (runes entity) then None
           else parseEntityNumber (if hex then 16 else 10) entity))
      else map_of jsxEntities entity)"

definition uptoChar :: "char \<Rightarrow> string \<Rightarrow> string" where
  "uptoChar c s = takeWhile (\<lambda>d. d \<noteq> c) s"

definition fromChar :: "char \<Rightarrow> string \<Rightarrow> string" where
  "fromChar c s = dropWhile (\<lambda>d. d \<noteq> c) s"

text \<open>The inner loop of \<open>decodeEntities\<close>, on the text after an ampersand and before the semicolon: what is
  written of it as it is, and the entity after the last ampersand.\<close>

function skipAmps :: "string \<Rightarrow> string \<times> string" where
  "skipAmps s =
     (if CHR ''&'' \<in> set s then (let (l, ent) = skipAmps (tl (fromChar (CHR ''&'') s)) in (CHR ''&'' # uptoChar (CHR ''&'') s @ l, ent))
      else ([], s))"
  by pat_completeness auto

termination
proof (relation "measure length", goal_cases)
  case (2 s)
  have "fromChar (CHR ''&'') s \<noteq> []" using 2 by (simp add: fromChar_def dropWhile_eq_Nil_conv)
  moreover have "length (fromChar (CHR ''&'') s) \<le> length s" by (simp add: fromChar_def length_dropWhile_le)
  ultimately show ?case by (cases "fromChar (CHR ''&'') s") auto
qed simp

declare skipAmps.simps [simp del]

function decodeEntities :: "string \<Rightarrow> string" where
  "decodeEntities s =
     (if CHR ''&'' \<notin> set s then s
      else (let t = fromChar (CHR ''&'') s in
        uptoChar (CHR ''&'') s @
        (if CHR '';'' \<notin> set t then t
         else (let (l, ent) = skipAmps (tl (uptoChar (CHR '';'') t)) in
           l @ (case decodeEntity ent of Some r \<Rightarrow> WriteRune r | None \<Rightarrow> CHR ''&'' # ent @ '';'') @
           decodeEntities (tl (fromChar (CHR '';'') t))))))"
  by pat_completeness auto

termination
proof (relation "measure length", goal_cases)
  case (2 s t x l ent)
  have "fromChar (CHR '';'') t \<noteq> []" using 2 by (simp add: fromChar_def dropWhile_eq_Nil_conv)
  moreover have "length (fromChar (CHR '';'') t) \<le> length t" "length t \<le> length s" using 2 by (simp_all add: fromChar_def length_dropWhile_le)
  ultimately show ?case by (cases "fromChar (CHR '';'') t") auto
qed simp

declare decodeEntities.simps [simp del]

section \<open>Lines\<close>

definition addLineOfJsxText :: "string \<Rightarrow> string \<Rightarrow> bool \<Rightarrow> string" where
  "addLineOfJsxText acc trimmedLine isInitial = acc @ (if isInitial then [] else '' '') @ decodeEntities trimmedLine"

lemma scan_forward: "i < length s \<Longrightarrow> (r, n) = decodeRune (drop i s) \<Longrightarrow> length s - (i + n) < length s - i"
  using decodeRune_width [of "drop i s"] by (metis diff_less_mono2 less_add_same_cancel1 snd_conv)

text \<open>The loop of \<open>fixupWhitespaceAndDecodeEntities\<close> and what follows it; an index of minus one is \<open>None\<close>.\<close>

function fixupLoop :: "string \<Rightarrow> nat \<Rightarrow> string \<Rightarrow> bool \<Rightarrow> nat option \<Rightarrow> nat option \<Rightarrow> string" where
  "fixupLoop text i acc initial first lastEnd =
     (if i < length text then
        (let (c, size) = decodeRune (drop i text) in
         if IsLineBreak c then
           (case (first, lastEnd) of
              (Some f, Some l) \<Rightarrow> fixupLoop text (i + size) (addLineOfJsxText acc (take (l + 1 - f) (drop f text)) initial) False None lastEnd
            | _ \<Rightarrow> fixupLoop text (i + size) acc initial None lastEnd)
         else if \<not> IsWhiteSpaceSingleLine c then
           fixupLoop text (i + size) acc initial (if first = None then Some i else first) (Some (i + size - 1))
         else fixupLoop text (i + size) acc initial first lastEnd)
      else (case first of Some f \<Rightarrow> addLineOfJsxText acc (drop f text) initial | None \<Rightarrow> acc))"
  by pat_completeness auto

termination
  by (relation "measure (\<lambda>(text, i, _). length text - i)") (simp, auto intro: scan_forward)

declare fixupLoop.simps [simp del]

definition fixupWhitespaceAndDecodeEntities :: "string \<Rightarrow> string" where
  "fixupWhitespaceAndDecodeEntities text = fixupLoop text 0 [] True (Some 0) None"

section \<open>The documented algorithm\<close>

text \<open>A text as its runes with the bytes they are encoded in.\<close>

function chunks :: "string \<Rightarrow> (nat \<times> string) list" where
  "chunks s = (if s = [] then [] else (fst (decodeRune s), take (snd (decodeRune s)) s) # chunks (drop (snd (decodeRune s)) s))"
  by pat_completeness auto

termination
  by (relation "measure length") (simp_all add: decodeRune_width diff_less)

declare chunks.simps [simp del]

definition bytes :: "(nat \<times> string) list \<Rightarrow> string" where
  "bytes cs = concat (map snd cs)"

definition blank :: "nat \<times> string \<Rightarrow> bool" where
  "blank c \<longleftrightarrow> IsWhiteSpaceSingleLine (fst c)"

definition trimLeft :: "(nat \<times> string) list \<Rightarrow> (nat \<times> string) list" where
  "trimLeft l = dropWhile blank l"

definition trimRight :: "(nat \<times> string) list \<Rightarrow> (nat \<times> string) list" where
  "trimRight l = rev (dropWhile blank (rev l))"

fun splitLines :: "(nat \<times> string) list \<Rightarrow> (nat \<times> string) list list" where
  "splitLines [] = [[]]"
| "splitLines (c # cs) = (if IsLineBreak (fst c) then [] # splitLines cs else (c # hd (splitLines cs)) # tl (splitLines cs))"

text \<open>The algorithm that the comment of the function calls equivalent, word for word: a text of one line is returned, and
  the empty text stands for \<open>undefined\<close>.\<close>

definition documentedFixup :: "string \<Rightarrow> string" where
  "documentedFixup text =
     (let ls = splitLines (chunks text) in
      if length ls = 1 then text
      else if list_all (list_all blank) ls then []
      else Join (filter (\<lambda>l. l \<noteq> []) (map (decodeEntities \<circ> bytes)
        ([trimRight (hd ls)] @ map (trimLeft \<circ> trimRight) (butlast (tl ls)) @ [trimLeft (last ls)]))) '' '')"

definition oneLine :: "string \<Rightarrow> bool" where
  "oneLine text \<longleftrightarrow> \<not> list_ex IsLineBreak (runes text)"

subsection \<open>Entities keep text nonempty\<close>

lemma WriteRune_not_Nil [simp]: "WriteRune r \<noteq> []"
  by (simp add: WriteRune_def Let_def)

lemma decodeEntities_Nil [simp]: "decodeEntities [] = []"
  by (simp add: decodeEntities.simps)

lemma decodeEntities_not_Nil: "s \<noteq> [] \<Longrightarrow> decodeEntities s \<noteq> []"
proof (cases "CHR ''&'' \<in> set s")
  case True
  let ?t = "fromChar (CHR ''&'') s"
  have t: "?t \<noteq> []" using True by (simp add: fromChar_def dropWhile_eq_Nil_conv)
  obtain l ent where "skipAmps (tl (uptoChar (CHR '';'') ?t)) = (l, ent)" by fastforce
  then show ?thesis using True t by (subst decodeEntities.simps) (simp add: Let_def split: option.split)
qed (subst decodeEntities.simps, simp)

lemma decodeEntities_eq_Nil [simp]: "decodeEntities s = [] \<longleftrightarrow> s = []"
  by (metis decodeEntities_Nil decodeEntities_not_Nil)

subsection \<open>The loop over the runes\<close>

lemma bytes_append [simp]: "bytes (xs @ ys) = bytes xs @ bytes ys"
  by (simp add: bytes_def)

lemma bytes_Cons [simp]: "bytes (c # cs) = snd c @ bytes cs"
  by (simp add: bytes_def)

lemma bytes_Nil [simp]: "bytes [] = []"
  by (simp add: bytes_def)

lemma decodeRune_bound: "s \<noteq> [] \<Longrightarrow> snd (decodeRune s) \<le> length s"
  by (auto simp: decodeRune_def Let_def split: list.splits if_splits)

lemma chunks_step:
  "s \<noteq> [] \<Longrightarrow> \<exists>r b. chunks s = (r, b) # chunks (drop (length b) s) \<and> s = b @ drop (length b) s \<and> b \<noteq> [] \<and> decodeRune s = (r, length b)"
  using decodeRune_bound [of s] decodeRune_width [of s] by (subst chunks.simps) (auto simp: min_def)

lemma chunks_nonempty: "c \<in> set (chunks s) \<Longrightarrow> snd c \<noteq> []"
proof (induction s rule: chunks.induct)
  case (1 s)
  then show ?case using decodeRune_width [of s] by (subst (asm) (2) chunks.simps) (auto split: if_splits)
qed

text \<open>The lines that the loop adds, from the runes of the current line and those to come.\<close>

fun lineTexts :: "bool \<Rightarrow> (nat \<times> string) list \<Rightarrow> (nat \<times> string) list \<Rightarrow> string list" where
  "lineTexts isFirst cur [] = (if isFirst then [bytes cur] else if trimLeft cur = [] then [] else [bytes (trimLeft cur)])"
| "lineTexts isFirst cur (c # cs) =
     (if IsLineBreak (fst c) then
        (let t = (if isFirst then trimRight cur else trimLeft (trimRight cur)) in (if t = [] then [] else [bytes t]) @ lineTexts False [] cs)
      else lineTexts isFirst (cur @ [c]) cs)"

fun addAll :: "string \<Rightarrow> bool \<Rightarrow> string list \<Rightarrow> string" where
  "addAll acc initial [] = acc"
| "addAll acc initial (l # ls) = addAll (addLineOfJsxText acc l initial) False ls"

text \<open>What the indices of the loop say about the current line, which starts at \<open>d\<close>.\<close>

definition lineState :: "nat \<Rightarrow> bool \<Rightarrow> (nat \<times> string) list \<Rightarrow> nat option \<Rightarrow> nat option \<Rightarrow> bool" where
  "lineState d isFirst cur first lastEnd \<longleftrightarrow>
     first = (if isFirst then Some d else if list_all blank cur then None else Some (d + length (bytes (takeWhile blank cur)))) \<and>
     (isFirst \<or> \<not> list_all blank cur \<longrightarrow> lastEnd = (if list_all blank cur then None else Some (d + length (bytes (trimRight cur)) - 1)))"

lemma trimRight_snoc: "trimRight (cur @ [c]) = (if blank c then trimRight cur else cur @ [c])"
  by (simp add: trimRight_def)

lemma trimRight_Nil: "trimRight cur = [] \<longleftrightarrow> list_all blank cur"
  by (auto simp: trimRight_def dropWhile_eq_Nil_conv list_all_iff)

lemma trimLeft_Nil: "trimLeft cur = [] \<longleftrightarrow> list_all blank cur"
  by (auto simp: trimLeft_def dropWhile_eq_Nil_conv list_all_iff)

lemma trimRight_prefix: "\<exists>zs. cur = trimRight cur @ zs"
  unfolding trimRight_def by (metis rev_append rev_rev_ident takeWhile_dropWhile_id)

lemma trim_set: "set (trimLeft l) \<subseteq> set l" "set (trimRight l) \<subseteq> set l"
  by (auto simp: trimLeft_def trimRight_def dest: set_dropWhileD)

lemma trimRight_solid:
  assumes "\<not> list_all blank cur"
  shows "\<not> list_all blank (trimRight cur)"
proof -
  have ne: "dropWhile blank (rev cur) \<noteq> []" using assms by (auto simp: dropWhile_eq_Nil_conv list_all_iff)
  have "hd (dropWhile blank (rev cur)) \<in> set (trimRight cur)" using ne by (simp add: trimRight_def)
  then show ?thesis using hd_dropWhile [OF ne] by (auto simp: list_all_iff)
qed

lemma trim_split:
  assumes "\<not> list_all blank cur"
  shows "\<exists>zs. cur = takeWhile blank cur @ trimLeft (trimRight cur) @ zs \<and> trimRight cur = takeWhile blank cur @ trimLeft (trimRight cur)"
proof -
  obtain zs where z: "cur = trimRight cur @ zs" using trimRight_prefix by blast
  have "\<exists>x \<in> set (trimRight cur). \<not> blank x" using trimRight_solid [OF assms] by (auto simp: list_all_iff)
  then have "takeWhile blank cur = takeWhile blank (trimRight cur)" using z by (metis takeWhile_append1)
  then have "trimRight cur = takeWhile blank cur @ trimLeft (trimRight cur)" by (simp add: trimLeft_def)
  with z show ?thesis by (metis append.assoc)
qed

lemma lineState_snoc:
  assumes s: "lineState d isFirst cur first lastEnd" and c: "snd c \<noteq> []"
  shows "lineState d isFirst (cur @ [c])
    (if blank c then first else if first = None then Some (d + length (bytes cur)) else first)
    (if blank c then lastEnd else Some (d + length (bytes cur) + length (snd c) - 1))"
proof (cases "blank c")
  case True
  have "takeWhile blank (cur @ [c]) = takeWhile blank cur" if "\<not> list_all blank cur"
    using that by (auto simp: takeWhile_append list_all_iff)
  with True s show ?thesis by (auto simp: lineState_def trimRight_snoc)
next
  case False
  have "takeWhile blank (cur @ [c]) = (if list_all blank cur then cur else takeWhile blank cur)"
    using False by (simp add: takeWhile_append list_all_iff takeWhile_eq_all_conv)
  with False s show ?thesis by (auto simp: lineState_def trimRight_snoc)
qed

lemma lineState_slice:
  assumes s: "lineState (length pre) isFirst cur first lastEnd" and cur: "\<not> list_all blank cur" "\<And>c. c \<in> set cur \<Longrightarrow> snd c \<noteq> []"
  shows "\<exists>f l. first = Some f \<and> lastEnd = Some l \<and> take (l + 1 - f) (drop f (pre @ bytes cur @ post)) =
    bytes (if isFirst then trimRight cur else trimLeft (trimRight cur))"
proof -
  obtain zs where z: "cur = takeWhile blank cur @ trimLeft (trimRight cur) @ zs" "trimRight cur = takeWhile blank cur @ trimLeft (trimRight cur)"
    using trim_split [OF cur(1)] by blast
  let ?a = "bytes (takeWhile blank cur)" and ?b = "bytes (trimLeft (trimRight cur))"
  have b: "bytes cur = ?a @ ?b @ bytes zs" using arg_cong [OF z(1), of bytes] by simp
  have r: "bytes (trimRight cur) = ?a @ ?b" using arg_cong [OF z(2), of bytes] by simp
  have "trimRight cur \<noteq> []" using cur(1) by (simp add: trimRight_Nil)
  then obtain x xs where x: "trimRight cur = x # xs" by (cases "trimRight cur") auto
  then have "x \<in> set cur" using trim_set(2) [of cur] by auto
  then have pos: "0 < length (bytes (trimRight cur))" using cur(2) x by simp
  show ?thesis
  proof (cases isFirst)
    case True
    then show ?thesis using s cur(1) pos by (auto simp: lineState_def b r)
  next
    case False
    then show ?thesis using s cur(1) pos by (auto simp: lineState_def b r)
  qed
qed

lemma loop_lines:
  assumes "text = pre @ bytes cur @ rest" "cs = chunks rest" "lineState (length pre) isFirst cur first lastEnd" "\<And>c. c \<in> set cur \<Longrightarrow> snd c \<noteq> []"
  shows "fixupLoop text (length pre + length (bytes cur)) acc initial first lastEnd = addAll acc initial (lineTexts isFirst cur cs)"
  using assms
proof (induction cs arbitrary: pre cur rest isFirst first lastEnd acc initial)
  case Nil
  then have rest: "rest = []" by (subst (asm) chunks.simps) (auto split: if_splits)
  have cur: "bytes cur = bytes (takeWhile blank cur) @ bytes (trimLeft cur)" unfolding trimLeft_def by (metis bytes_append takeWhile_dropWhile_id)
  have tx: "text = pre @ bytes cur" using Nil.prems(1) rest by simp
  show ?case
  proof (cases "isFirst \<or> \<not> list_all blank cur")
    case True
    then obtain f where f: "first = Some f" "drop f text = bytes (if isFirst then cur else trimLeft cur)"
      using Nil.prems(3) cur by (cases isFirst) (auto simp: lineState_def tx)
    then show ?thesis using True by (subst fixupLoop.simps) (auto simp: tx trimLeft_Nil)
  next
    case False
    then have "first = None" using Nil.prems(3) by (simp add: lineState_def)
    then show ?thesis using False by (subst fixupLoop.simps) (simp add: tx trimLeft_Nil)
  qed
next
  case (Cons c cs)
  let ?i = "length pre + length (bytes cur)"
  have ne: "rest \<noteq> []" using Cons.prems(2) by (subst (asm) chunks.simps) (auto split: if_splits)
  obtain r b where b: "chunks rest = (r, b) # chunks (drop (length b) rest)" "rest = b @ drop (length b) rest" "b \<noteq> []" "decodeRune rest = (r, length b)"
    using chunks_step [OF ne] by blast
  define rest' where "rest' = drop (length b) rest"
  have c: "c = (r, b)" "cs = chunks rest'" using Cons.prems(2) b(1) by (simp_all add: rest'_def)
  have rest: "rest = b @ rest'" using b(2) by (simp add: rest'_def)
  have i: "drop ?i text = rest" "?i < length text" using Cons.prems(1) ne by (simp_all add: rest b(3))
  show ?case
  proof (cases "IsLineBreak r")
    case True
    let ?pre = "pre @ bytes cur @ b"
    have go: "fixupLoop text (?i + length b) acc' initial' None lastEnd = addAll acc' initial' (lineTexts False [] cs)" for acc' initial'
      using Cons.IH [of ?pre "[]" rest' False None lastEnd acc' initial'] Cons.prems(1) c(2) rest by (simp add: lineState_def add.assoc)
    show ?thesis
    proof (cases "list_all blank cur")
      case blankLine: True
      then have "first = None \<or> lastEnd = None" using Cons.prems(3) by (auto simp: lineState_def)
      moreover have "trimRight cur = []" using blankLine by (simp add: trimRight_Nil)
      ultimately show ?thesis using True i b(4) go c(1)
        by (subst fixupLoop.simps) (auto simp: trimLeft_def split: option.split)
    next
      case False
      obtain f l where fl: "first = Some f" "lastEnd = Some l"
        "take (l + 1 - f) (drop f text) = bytes (if isFirst then trimRight cur else trimLeft (trimRight cur))"
        using lineState_slice [OF Cons.prems(3) False Cons.prems(4), of rest] Cons.prems(1) by blast
      have "trimRight cur \<noteq> []" "trimLeft (trimRight cur) \<noteq> []"
        using False trimRight_solid [OF False] by (simp_all add: trimRight_Nil trimLeft_Nil)
      then show ?thesis using True i b(4) go c(1) fl by (subst fixupLoop.simps) simp
    qed
  next
    case False
    have step: "lineState (length pre) isFirst (cur @ [c]) (if blank c then first else if first = None then Some ?i else first)
        (if blank c then lastEnd else Some (?i + length b - 1))"
      using lineState_snoc [OF Cons.prems(3), of c] b(3) c(1) by (simp only: snd_conv) simp
    have "fixupLoop text (length pre + length (bytes (cur @ [c]))) acc initial (if blank c then first else if first = None then Some ?i else first)
        (if blank c then lastEnd else Some (?i + length b - 1)) = addAll acc initial (lineTexts isFirst (cur @ [c]) cs)"
      by (rule Cons.IH [OF _ c(2) step]) (use Cons.prems(1,4) c(1) b(3) rest in auto)
    then have "fixupLoop text (?i + length b) acc initial (if blank c then first else if first = None then Some ?i else first)
        (if blank c then lastEnd else Some (?i + length b - 1)) = addAll acc initial (lineTexts isFirst (cur @ [c]) cs)"
      by (simp add: c(1) add.assoc)
    then show ?thesis using False i b(4) c(1) by (subst fixupLoop.simps) (auto simp: blank_def)
  qed
qed

subsection \<open>Lines and their texts\<close>

definition nonempty :: "(nat \<times> string) list \<Rightarrow> string list" where
  "nonempty l = (if l = [] then [] else [bytes l])"

lemma splitLines_not_Nil [simp]: "splitLines cs \<noteq> []"
  by (cases cs) simp_all

lemma lineTexts_later:
  "lineTexts False cur cs = (let ls = (cur @ hd (splitLines cs)) # tl (splitLines cs) in
     concat (map (nonempty \<circ> trimLeft \<circ> trimRight) (butlast ls)) @ nonempty (trimLeft (last ls)))"
proof (induction cs arbitrary: cur)
  case (Cons c cs)
  obtain l ls where l: "splitLines cs = l # ls" by (cases "splitLines cs") auto
  show ?case using Cons.IH [of "[]"] Cons.IH [of "cur @ [c]"] by (auto simp: l Let_def nonempty_def)
qed (simp add: nonempty_def)

lemma lineTexts_first:
  "lineTexts True cur cs = (let ls = (cur @ hd (splitLines cs)) # tl (splitLines cs) in
     if tl ls = [] then [bytes (hd ls)]
     else nonempty (trimRight (hd ls)) @ concat (map (nonempty \<circ> trimLeft \<circ> trimRight) (butlast (tl ls))) @ nonempty (trimLeft (last ls)))"
proof (induction cs arbitrary: cur)
  case (Cons c cs)
  obtain l ls where l: "splitLines cs = l # ls" by (cases "splitLines cs") auto
  show ?case using Cons.IH [of "cur @ [c]"] lineTexts_later [of "[]" cs] by (auto simp: l Let_def nonempty_def)
qed simp

lemma addAll_later: "addAll acc False ls = acc @ concat (map (\<lambda>l. '' '' @ decodeEntities l) ls)"
  by (induction ls arbitrary: acc) (simp_all add: addLineOfJsxText_def)

lemma Join_concat: "Join (x # xs) s = x @ concat (map (\<lambda>y. s @ y) xs)"
  by (induction xs arbitrary: x) simp_all

lemma addAll_Join: "addAll [] True ls = Join (map decodeEntities ls) '' ''"
proof (cases ls)
  case (Cons l ls')
  then show ?thesis using addAll_later by (simp add: addLineOfJsxText_def Join_concat comp_def del: Join.simps)
qed simp

lemma filter_decoded:
  assumes "\<And>l c. l \<in> set ls \<Longrightarrow> c \<in> set l \<Longrightarrow> snd c \<noteq> []"
  shows "filter (\<lambda>l. l \<noteq> []) (map (decodeEntities \<circ> bytes) ls) = map decodeEntities (concat (map nonempty ls))"
  using assms
proof (induction ls)
  case (Cons l ls)
  have "bytes l = [] \<longleftrightarrow> l = []" using Cons.prems [of l] by (cases l) auto
  then show ?case using Cons by (auto simp: nonempty_def)
qed simp

lemma splitLines_set: "l \<in> set (splitLines cs) \<Longrightarrow> set l \<subseteq> set cs"
proof (induction cs arbitrary: l)
  case (Cons c cs)
  obtain l' ls where "splitLines cs = l' # ls" by (cases "splitLines cs") auto
  then show ?case using Cons by (auto split: if_splits) blast+
qed simp

lemma bytes_chunks: "bytes (chunks s) = s"
proof (induction s rule: chunks.induct)
  case (1 s)
  show ?case
  proof (cases "s = []")
    case False
    with 1 show ?thesis by (subst chunks.simps) simp
  qed (simp add: chunks.simps)
qed

lemma fst_chunks: "map fst (chunks s) = runes s"
proof (induction s rule: chunks.induct)
  case (1 s)
  then show ?case by (subst chunks.simps, subst runes.simps) (simp add: split_beta Let_def)
qed

lemma splitLines_single: "length (splitLines cs) = 1 \<longleftrightarrow> \<not> list_ex IsLineBreak (map fst cs)"
proof (induction cs)
  case (Cons c cs)
  then show ?case by (cases "splitLines cs") auto
qed simp

lemma splitLines_oneLine: "length (splitLines cs) = 1 \<Longrightarrow> splitLines cs = [cs]"
proof (induction cs)
  case (Cons c cs)
  then show ?case by (cases "splitLines cs") (auto split: if_splits)
qed simp

lemma trim_blank: "list_all blank l \<Longrightarrow> trimLeft l = [] \<and> trimRight l = []"
  by (simp add: trimLeft_Nil trimRight_Nil)

text \<open>C32: on a text of several lines the one pass over the bytes of a JSX text does what its comment gives as the equivalent
  algorithm: the lines are trimmed (the first on its right side, the last on its left, the others on both), the
  entities of each are decoded, empty lines are dropped and the rest is joined by spaces, and a text of white space
  only gives the empty text. A text of one line is kept but for its entities, which are decoded; the comment has it returned as it is.\<close>

theorem fixup_as_documented: "fixupWhitespaceAndDecodeEntities s = (if oneLine s then decodeEntities s else documentedFixup s)"
proof -
  let ?ls = "splitLines (chunks s)"
  obtain l ls where l: "?ls = l # ls" by (cases ?ls) auto
  have one: "oneLine s \<longleftrightarrow> ls = []" using splitLines_single [of "chunks s"] l by (simp add: oneLine_def fst_chunks)
  have "lineState 0 True [] (Some 0) None" by (simp add: lineState_def)
  then have run: "fixupWhitespaceAndDecodeEntities s = addAll [] True (lineTexts True [] (chunks s))"
    using loop_lines [of s "[]" "[]" s "chunks s" True "Some 0" None "[]" True] by (simp add: fixupWhitespaceAndDecodeEntities_def)
  show ?thesis
  proof (cases "ls = []")
    case True
    then have "l = chunks s" using l splitLines_oneLine [of "chunks s"] by simp
    then show ?thesis using l True one by (simp add: run lineTexts_first addLineOfJsxText_def bytes_chunks)
  next
    case False
    let ?trimmed = "[trimRight l] @ map (trimLeft \<circ> trimRight) (butlast ls) @ [trimLeft (last ls)]"
    have "snd c \<noteq> []" if "x \<in> set ?trimmed" "c \<in> set x" for x c
    proof -
      have "\<exists>y \<in> set ?ls. set x \<subseteq> set y" using that(1) l False trim_set
        by (auto dest!: in_set_butlastD) (meson order_trans last_in_set)+
      then show ?thesis using that(2) splitLines_set chunks_nonempty by blast
    qed
    note f = filter_decoded [of ?trimmed, OF this]
    have "lineTexts True [] (chunks s) = concat (map nonempty ?trimmed)"
      using l False by (simp add: lineTexts_first comp_def)
    then have "fixupWhitespaceAndDecodeEntities s = Join (map decodeEntities (concat (map nonempty ?trimmed))) '' ''"
      by (simp only: run addAll_Join)
    moreover have "documentedFixup s = Join (filter (\<lambda>l. l \<noteq> []) (map (decodeEntities \<circ> bytes) ?trimmed)) '' ''"
    proof (cases "list_all (list_all blank) ?ls")
      case True
      then have "list_all blank l" "\<forall>x \<in> set ls. list_all blank x" by (simp_all add: l list_all_iff)
      then have "\<forall>x \<in> set ?trimmed. x = []"
        using trim_blank False by (auto dest!: in_set_butlastD)
      then have "filter (\<lambda>l. l \<noteq> []) (map (decodeEntities \<circ> bytes) ?trimmed) = []" by (auto simp: filter_empty_conv)
      then show ?thesis using l True False by (simp only: documentedFixup_def Let_def) simp
    next
      case blanks: False
      then show ?thesis using l False by (simp only: documentedFixup_def Let_def if_not_P [OF blanks]) simp
    qed
    ultimately show ?thesis using one False by (simp only: f if_False)
  qed
qed

end
