(* ===== verification/Spec2Isabelle.thy ===== *)
theory Spec2Isabelle
  imports Luau_Lex_Correct Cst_Parse_Correct Cst_Dense Luau_Validate Render_Correct Luau_List Deploy_Config Rojo_Sourcemap Asset_Resolve Cloud_Client Deploy_State Bundle_Correct Rojo_Cache Pack Jsx_Text
begin

text \<open>
  A verification library for rotor, a TypeScript-to-Luau toolchain for Roblox written in Go.

  \<^bold>\<open>The program.\<close> The compiler front end (\<open>src/internal/transformer\<close>,
  \<open>src/internal/compile\<close>, over the vendored TypeScript compiler) builds Luau syntax trees
  (\<open>src/internal/luau\<close>) that the renderer (\<open>src/internal/luau/render\<close>) prints; statement
  lists are doubly linked lists, and temporaries get their names when a tree is rendered. The Rojo
  resolver (\<open>src/internal/rojo\<close>) tells the compiler which instance of the game a file becomes; source
  maps (\<open>src/internal/sourcemap\<close>) tell the language server the same, and packing (\<open>src/internal/pack\<close>)
  writes a script that rebuilds the instances. Luau text that exists already is scanned
  (\<open>src/internal/luau/lex\<close>), parsed into a lossless tree and minified or rewritten
  (\<open>src/internal/luau/cst\<close>); the bundler (\<open>src/internal/bundle\<close>) follows the requires of such files
  and writes one file. The deploy commands turn a configuration (\<open>src/internal/config\<close>) into a graph
  of resources, diff it against the recorded state and execute the plan with a provider for every kind
  of resource (\<open>src/internal/deploy\<close>), over the Open Cloud client (\<open>src/internal/cloud\<close>). Assets are
  scanned, uploaded, recorded in a lock file and made accessible by generated modules
  (\<open>src/internal/assets\<close>) or by a macro (\<open>src/internal/assetresolve\<close>). Path patterns
  (\<open>assets/glob.go\<close>, \<open>bundle/glob.go\<close>) select files, and environment files
  (\<open>src/internal/dotenv\<close>) feed compile-time constants.

  \<^bold>\<open>Theories and sources.\<close>

  \<^item> \<open>Prelude\<close>: strings as byte lists, the option monad's rules, generic list lemmas. \<open>Go_Path\<close>: \<open>Clean\<close>,
    \<open>Join\<close>, \<open>Split\<close>, \<open>Rel\<close>, \<open>Ext\<close> and prefixes, on Unix. \<open>Go_Strconv\<close>: decimal numbers.
  \<^item> \<open>Luau_Lex\<close>, \<open>Luau_Lex_Correct\<close>: the scanner (\<open>luau/lex/*.go\<close>). The Go scanner
    struct is the record \<open>scanner\<close>; every method returns it updated; an index out of range sets
    \<open>panicked\<close>. The token texts concatenate to the source, no panic, positions, balanced
    interpolation stack, every invalid token has a diagnostic.
  \<^item> \<open>Cst_Nodes\<close>: trivia, node structs, \<open>EachToken\<close> and \<open>Unparse\<close> (\<open>luau/cst/trivia.go\<close>,
    \<open>node.go\<close>, \<open>nodes.go\<close>, \<open>stmtnodes.go\<close>). What trivia attachment needs of a scanner is the
    locale \<open>lossless_tokenizer\<close>, interpreted on \<open>Tokenize\<close>.
  \<^item> \<open>Cst_Parse\<close>, \<open>Cst_Parse_Correct\<close>: cursor and recursive-descent parser (\<open>cursor.go\<close>,
    \<open>expr.go\<close>, \<open>types.go\<close>, \<open>parse.go\<close>). The parser returns on every input, its tree holds every
    token once and in order, and without diagnostics and open holes it spells the source. The contract of
    the mutually recursive entry points is the locale \<open>sub_parsers\<close>, interpreted on
    \<open>parseExpr\<close>, \<open>parseType\<close> and \<open>parseBlock\<close> for every fuel.
  \<^item> \<open>Cst_Dense\<close>: minifier, directives and string decoding (\<open>dense.go\<close>, \<open>transform.go\<close>).
  \<^item> \<open>Luau_Validate\<close>: identifier and number checks (\<open>validate.go\<close>, \<open>globals.go\<close>) against
    the regular expressions of their documentation.
  \<^item> \<open>Luau_AST\<close>, \<open>Luau_Render\<close>: syntax tree (\<open>nodes.go\<close>, \<open>kind.go\<close>, \<open>guards.go\<close>) and
    renderer (\<open>luau/render/*.go\<close>). A tree is a value; its parent pointer is an argument.
  \<^item> \<open>Render_Temp_Ids\<close>, \<open>Temp_Ids_Correct\<close>: the walk and the naming of temporaries
    (\<open>visit.go\<close>, \<open>solvetempids.go\<close>). Naming ends; temporaries of overlapping scopes get
    different names, none of them the name of an identifier of their scope, of those around it, or used below it
    (but one declared below it can be taken).
  \<^item> \<open>Render_Text\<close>, \<open>Render_Correct\<close>: what the scanner and Luau read back from rendered literals and
    comments, and where they do not; totality of \<open>RenderAST\<close> on well-formed trees; parentheses, and the statement
    endings that get a semicolon or miss it.
  \<^item> \<open>Luau_List\<close>: the linked list (\<open>luau/list.go\<close>) over a store of nodes and list headers. The
    specification is the locale \<open>sequences\<close>, interpreted on the store's operations; programs
    of list operations refine it, panics included.
  \<^item> \<open>Rojo_Translate\<close>, \<open>Rojo_Config\<close>, \<open>Rojo_Resolver\<close>, \<open>Rojo_Correct\<close>: the paths of sources and outputs
    (\<open>rojo/pathtranslator.go\<close>), project files (\<open>config.go\<close>) and the walk over them with its lookups,
    containers and snapshots (\<open>resolver.go\<close>). Modules get the instance path of the mount that covers
    them, relative paths lead where they should, walks end unless mounts lead back to themselves.
  \<^item> \<open>Rojo_Cache\<close>: the cache of resolvers (\<open>resolver_cache.go\<close>). The walk depends only on what its manifest
    records, the kind of mounts and the links; while these stay, under any interleaving of loads, persisting, restarts and
    changes of the project a load answers like a walk.
  \<^item> \<open>Rojo_Sourcemap\<close>: source maps (\<open>sourcemap/sourcemap.go\<close>); they agree with the resolver of the same project
    on the scripts of its mounts.
  \<^item> \<open>Pack\<close>: the instance tree and the script that rebuilds it (\<open>pack/*.go\<close>); a reader of the Luau
    statements that the script has for the tree, run over the functions \<open>mk\<close> and \<open>setParent\<close> of its prelude, gives the tree
    back, within the limit of Luau on local variables.
  \<^item> \<open>Bundle_Data\<close>, \<open>Bundle\<close>, \<open>Bundle_Correct\<close>: data files, aliases and the bundle (\<open>bundle/data.go\<close>,
    \<open>luaurc.go\<close>, \<open>bundle.go\<close>). The modules are the files the requires reach, every require that leads to
    a file calls its loader, and bundling ends. What the walk over a module needs of the recursive call
    are the locales \<open>module_processor\<close> and \<open>returning_processor\<close>, interpreted on \<open>processModule\<close>.
  \<^item> \<open>Deploy_Graph\<close>: identities, resources, \<open>topoSort\<close> (\<open>deploy/graph.go\<close>, \<open>deploy.go\<close>). The
    promise to the planner is the locale \<open>graph_order\<close>, interpreted on \<open>topoSort\<close>.
  \<^item> \<open>Deploy_Plan\<close>: state entries, \<open>BuildPlan\<close>, \<open>Apply\<close> (\<open>state.go\<close>, \<open>plan.go\<close>,
    \<open>apply.go\<close>). Plans are the diff of graph and state; a run that failed can be resumed, a run
    without failure converges, failures stop exactly their dependents, the state on disk follows the run.
  \<^item> \<open>Deploy_Config\<close>: \<open>Validate\<close> (\<open>config/config.go\<close>), inputs (\<open>providers.go\<close>) and
    \<open>BuildResources\<close> (\<open>graph.go\<close>). A valid configuration builds a graph that can be planned, given a universe, readable files
    and icons of a known type.
  \<^item> \<open>Deploy_Providers\<close>: create, update and delete of every kind (\<open>providers.go\<close>). Ids that are recorded stay,
    thumbnails are replaced in a safe order.
  \<^item> \<open>Deploy_State\<close>: the state file (\<open>state.go\<close>); after a run that ended anyhow it loads, and a plan from it
    has only steps of the old plan that were not applied.
  \<^item> \<open>Cloud_Client\<close>: retries, back-off, polling and every endpoint (\<open>cloud/*.go\<close>).
  \<^item> \<open>Asset_Codegen\<close>, \<open>Asset_Store\<close>, \<open>Asset_Sync\<close>, \<open>Asset_Resolve\<close>: generated modules (\<open>assets/codegen.go\<close>),
    atomic files, the lock file and the modes (\<open>lockfile.go\<close>, \<open>mode.go\<close>), scanning, planning and
    uploading (\<open>scan.go\<close>, \<open>plan.go\<close>, \<open>sync.go\<close>) and the macro (\<open>assetresolve.go\<close>). The generated
    module holds exactly the assets of the lock file, an interrupted synchronisation resumes, and a
    compilation can be repeated offline.
  \<^item> \<open>Jsx_Text\<close>: the text between JSX tags (\<open>transformer/jsxtext.go\<close>); on several lines the loop over its
    bytes does what its comment documents, on one line it decodes the entities.
  \<^item> \<open>Glob\<close>: the pattern matcher against an inductive definition of the documented meaning.
  \<^item> \<open>Dotenv\<close>: parsing, loading and lookup of environment files.

  \<^bold>\<open>Fuel and loops.\<close> The mutual recursion of the parser has fuel: one more than the number of
  significant tokens for the recursion, as every level consumes a token, and \<open>loopFuel\<close>, twice the number
  of significant tokens plus three, for each loop, whose rounds consume a token or stop; \<open>Parse_total\<close> shows
  that neither runs out. The JSON reader has twice the number of tokens plus one. The walks over
  projects and directories (resolver, source maps, packing) and the bundler have fuel for the nesting of
  their calls as an argument; \<open>FromPath_returns\<close>, \<open>Build_returns\<close>, \<open>PackArtifact_returns\<close> and
  \<open>Bundle_returns\<close> show that enough fuel gives a result, and \<open>FromPath_diverges\<close> where the code itself
  does not end. The walk of an alias up the directories has the length of the directory plus one. The
  loops over the linked list, of \<open>topoSort\<close>, of the pattern matcher and of polling are partial
  functions into \<open>option\<close>, where \<open>None\<close> is a loop that does not end, and are shown to return. All
  other recursion is structural or has a measure.

  \<^bold>\<open>Parameters.\<close> Number formatting (\<open>jsnumber.go\<close>), hashing (SHA-256), the HTTP client, timers, random
  numbers and the rate limiter behind the cloud client, the calls of \<open>os\<close> that write (the record
  \<open>FileOps\<close>), the file system as it is read (the record \<open>fs\<close>, with the tokens of \<open>json.Decoder\<close>),
  modification times, JSON, XML and multipart encoders and decoders, running \<open>rojo\<close>, Unicode case
  mappings, the process environment and the progress callbacks are arguments of the definitions that
  use them. Hypotheses on them (a hash without collisions on the inputs at hand, files that keep what
  was written, decoders that read back what was encoded, honest modification times) stand in the
  statements, with witnesses.

  \<^bold>\<open>Not modelled.\<close> The vendored TypeScript compiler (\<open>src/tsgo\<close>, third-party); the
  transformer (its JSX text apart) and the compiler driver, which work on its syntax trees and type checker; the command
  line (terminal, processes); the constructors of \<open>create.go\<close>, whose work is to set parent pointers and
  clone shared nodes; floating-point formatting (\<open>jsnumber.go\<close>) and the token bucket of the rate limiter,
  which compute with floating-point numbers; SHA-256; loading configurations from TOML and TypeScript,
  which runs other programs.
\<close>

end
